(* ===== verification/Prelude.thy ===== *)
theory Prelude
  imports Main "HOL-Library.Word"
begin

text \<open>
  Shared vocabulary of the development: machine integers of the Rust code, the result type
  with the error on the left, list operations of the Rust standard library that several
  components use, the White_Space test behind \<open>str::trim\<close>, and the invariant rule for
  step functions that every state machine instantiates.
\<close>

section \<open>Machine integers\<close>

text \<open>
  \<open>u64\<close> and, on the 64-bit targets the client is built for, \<open>usize\<close> are 64-bit words.
  \<open>checked_add x y\<close> is \<open>None\<close> on overflow, as in the Rust standard library; \<open>wrapping_add\<close> is
  the word addition itself.
\<close>

type_synonym u64 = "64 word"
type_synonym usize = "64 word"
type_synonym u32 = "32 word"
type_synonym u16 = "16 word"

named_theorems machine_int

definition checked_add :: "'a::len word \<Rightarrow> 'a word \<Rightarrow> 'a word option" where
  "checked_add x y = (if unat x + unat y < 2 ^ LENGTH('a) then Some (x + y) else None)"

definition saturating_sub :: "'a::len word \<Rightarrow> 'a word \<Rightarrow> 'a word" where
  "saturating_sub x y = (if x < y then 0 else x - y)"

lemma unat_word_bound: "unat (x :: 'a::len word) < 2 ^ LENGTH('a)"
  by (rule unsigned_less)

lemma checked_add_SomeD:
  assumes "checked_add x y = Some z"
  shows "unat z = unat x + unat y"
  using assms by (auto simp: checked_add_def unat_word_ariths split: if_splits)

lemma checked_add_one_SomeD [machine_int]:
  assumes "checked_add x 1 = Some (z :: 'a::len word)"
  shows "unat z = Suc (unat x)"
  using checked_add_SomeD [OF assms] by simp

lemma checked_add_one_less:
  assumes "checked_add x 1 = Some (z :: 'a::len word)"
  shows "x < z"
  using checked_add_one_SomeD [OF assms] by (simp add: word_less_nat_alt)

lemma unat_max_word: "unat (- 1 :: 'a::len word) = 2 ^ LENGTH('a) - 1"
  by (simp add: unsigned_minus_1_eq_mask mask_eq_exp_minus_1)

lemma checked_add_one_None_iff:
  "checked_add x (1 :: 'a::len word) = None \<longleftrightarrow> x = - 1"
proof -
  have "x = - 1 \<longleftrightarrow> unat x = 2 ^ LENGTH('a) - 1"
    by (metis unat_max_word word_unat_eq_iff)
  also have "\<dots> \<longleftrightarrow> \<not> unat x + 1 < 2 ^ LENGTH('a)"
    using unat_word_bound [of x] by linarith
  finally show ?thesis by (auto simp: checked_add_def)
qed

lemma checked_add_one_nonzero:
  assumes "checked_add x 1 = Some (z :: 'a::len word)"
  shows "z \<noteq> 0"
  using checked_add_one_less [OF assms] by auto

lemma unat_diff_one: "x \<noteq> 0 \<Longrightarrow> unat (x - 1) = unat x - (1::nat)"
  by (simp add: unat_minus_one)

lemma saturating_sub_one [machine_int]:
  "unat (saturating_sub x 1) = unat x - (1::nat)"
  by (cases "x = 0") (auto simp: saturating_sub_def unat_diff_one word_gt_0 not_less)

section \<open>Results\<close>

text \<open>
  Rust's \<open>Result<T, E>\<close> is the sum \<open>'e + 'a\<close> with the error on the left. \<open>bind_result\<close> is
  the \<open>?\<close> operator, \<open>result_and\<close> is \<open>Result::and\<close>.
\<close>

abbreviation Ok :: "'a \<Rightarrow> 'e + 'a" where "Ok \<equiv> Inr"
abbreviation Err :: "'e \<Rightarrow> 'e + 'a" where "Err \<equiv> Inl"

definition bind_result :: "'e + 'a \<Rightarrow> ('a \<Rightarrow> 'e + 'b) \<Rightarrow> 'e + 'b" where
  "bind_result r f = (case r of Inl e \<Rightarrow> Inl e | Inr a \<Rightarrow> f a)"

definition is_ok :: "'e + 'a \<Rightarrow> bool" where
  "is_ok r = (case r of Inl _ \<Rightarrow> False | Inr _ \<Rightarrow> True)"

definition is_err :: "'e + 'a \<Rightarrow> bool" where
  "is_err r = (\<not> is_ok r)"

definition err_of :: "'e + 'a \<Rightarrow> 'e option" where
  "err_of r = (case r of Inl e \<Rightarrow> Some e | Inr _ \<Rightarrow> None)"

definition result_and :: "'e + 'a \<Rightarrow> 'e + 'b \<Rightarrow> 'e + 'b" where
  "result_and r s = (case r of Inl e \<Rightarrow> Inl e | Inr _ \<Rightarrow> s)"

definition ensure :: "bool \<Rightarrow> 'e \<Rightarrow> 'e + unit" where
  "ensure b e = (if b then Inr () else Inl e)"

lemma bind_result_simps [simp]:
  "bind_result (Inl e) f = Inl e" "bind_result (Inr a) f = f a"
  by (simp_all add: bind_result_def)

lemma is_ok_simps [simp]: "is_ok (Inr a)" "\<not> is_ok (Inl e)" "is_err (Inl e)" "\<not> is_err (Inr a)"
  by (simp_all add: is_ok_def is_err_def)

lemma err_of_simps [simp]: "err_of (Inl e) = Some e" "err_of (Inr a) = None"
  by (simp_all add: err_of_def)

lemma result_and_simps [simp]: "result_and (Inl e) s = Inl e" "result_and (Inr a) s = s"
  by (simp_all add: result_and_def)

lemma ensure_simps [simp]: "ensure True e = Inr ()" "ensure False e = Inl e"
  by (simp_all add: ensure_def)

lemma bind_result_eq_Inr [simp]:
  "bind_result r f = Inr b \<longleftrightarrow> (\<exists>a. r = Inr a \<and> f a = Inr b)"
  by (cases r) auto

lemma ensure_eq_Inr [simp]: "ensure b e = Inr u \<longleftrightarrow> b"
  by (cases b) auto

lemma result_and_eq_Inr [simp]:
  "result_and r s = Inr b \<longleftrightarrow> is_ok r \<and> s = Inr b"
  by (cases r) auto

section \<open>Lists\<close>

text \<open>\<open>Iterator::position\<close>, \<open>Vec::remove\<close> and \<open>Vec::swap_remove\<close>.\<close>

fun position :: "('a \<Rightarrow> bool) \<Rightarrow> 'a list \<Rightarrow> nat option" where
  "position P [] = None"
| "position P (x # xs) = (if P x then Some 0 else map_option Suc (position P xs))"

definition remove_at :: "nat \<Rightarrow> 'a list \<Rightarrow> 'a list" where
  "remove_at i xs = take i xs @ drop (Suc i) xs"

lemma position_SomeD:
  "position P xs = Some i \<Longrightarrow> i < length xs \<and> P (xs ! i) \<and> (\<forall>j<i. \<not> P (xs ! j))"
proof (induction xs arbitrary: i)
  case Nil
  then show ?case by simp
next
  case (Cons x xs)
  show ?case
  proof (cases "P x")
    case True
    with Cons.prems show ?thesis by simp
  next
    case False
    with Cons.prems obtain k where "position P xs = Some k" "i = Suc k" by auto
    with Cons.IH [of k] False show ?thesis by (auto simp: less_Suc_eq_0_disj)
  qed
qed

lemma position_None_iff: "position P xs = None \<longleftrightarrow> (\<forall>x \<in> set xs. \<not> P x)"
  by (induction xs) auto

lemma set_remove_at: "set (remove_at i xs) \<subseteq> set xs"
  by (auto simp: remove_at_def dest: in_set_takeD in_set_dropD)

lemma remove_at_map: "map f (remove_at i xs) = remove_at i (map f xs)"
  by (simp add: remove_at_def take_map drop_map)

lemma length_remove_at: "i < length xs \<Longrightarrow> length (remove_at i xs) = length xs - 1"
  by (simp add: remove_at_def)

lemma in_set_remove_at: "j < length xs \<Longrightarrow> j \<noteq> i \<Longrightarrow> xs ! j \<in> set (remove_at i xs)"
proof (cases "j < i")
  case True
  assume "j < length xs"
  with True have "take i xs ! j \<in> set (take i xs)" by (intro nth_mem) simp
  with True show ?thesis by (simp add: remove_at_def)
next
  case False
  assume "j < length xs" "j \<noteq> i"
  with False have "drop (Suc i) xs ! (j - Suc i) \<in> set (drop (Suc i) xs)" by (intro nth_mem) simp
  with False \<open>j < length xs\<close> \<open>j \<noteq> i\<close> show ?thesis by (simp add: remove_at_def)
qed

lemma filter_update_other:
  "i < length xs \<Longrightarrow> \<not> P (xs ! i) \<Longrightarrow> \<not> P y \<Longrightarrow> filter P (xs[i := y]) = filter P xs"
proof (induction xs arbitrary: i)
  case (Cons x xs)
  then show ?case by (cases i) auto
qed simp

lemma filter_distinct_key:
  "distinct (map f xs) \<Longrightarrow> x \<in> set xs \<Longrightarrow> filter (\<lambda>y. f y = f x) xs = [x]"
proof (induction xs)
  case (Cons a xs)
  show ?case
  proof (cases "a = x")
    case True
    with Cons.prems(1) have "f y \<noteq> f x" if "y \<in> set xs" for y using that by (auto simp: image_iff)
    with True show ?thesis by (simp add: filter_empty_conv)
  next
    case False
    with Cons.prems have "f a \<noteq> f x" by auto
    with False Cons show ?thesis by simp
  qed
qed simp

lemma remove_at_Cons_0 [simp]: "remove_at 0 (x # xs) = xs"
  by (simp add: remove_at_def)

lemma remove_at_Cons_Suc [simp]: "remove_at (Suc i) (x # xs) = x # remove_at i xs"
  by (simp add: remove_at_def)

section \<open>Strings\<close>

text \<open>
  A Rust \<open>str\<close> is the list of its UTF-8 bytes. \<open>is_blank s\<close> is \<open>s.trim().is_empty()\<close>: every
  code point of \<open>s\<close> has the Unicode property White_Space (the one-byte ones, U+0085 and U+00A0
  in two bytes, and U+1680, U+2000 to U+200A, U+2028, U+2029, U+202F, U+205F, U+3000 in three).
\<close>

definition white_space1 :: "char \<Rightarrow> bool" where
  "white_space1 c = ((9 \<le> (of_char c :: nat) \<and> (of_char c :: nat) \<le> 13) \<or> (of_char c :: nat) = 32)"

definition white_space2 :: "char \<Rightarrow> char \<Rightarrow> bool" where
  "white_space2 a b = ((of_char a :: nat) = 194 \<and> ((of_char b :: nat) = 133 \<or> (of_char b :: nat) = 160))"

definition white_space3 :: "char \<Rightarrow> char \<Rightarrow> char \<Rightarrow> bool" where
  "white_space3 a b c =
    (let x = of_char a :: nat; y = of_char b :: nat; z = of_char c :: nat in
      (x = 225 \<and> y = 154 \<and> z = 128)
      \<or> (x = 226 \<and> y = 128 \<and> ((128 \<le> z \<and> z \<le> 138) \<or> z = 168 \<or> z = 169 \<or> z = 175))
      \<or> (x = 226 \<and> y = 129 \<and> z = 159)
      \<or> (x = 227 \<and> y = 128 \<and> z = 128))"

fun is_blank :: "string \<Rightarrow> bool" where
  "is_blank [] = True"
| "is_blank [a] = white_space1 a"
| "is_blank [a, b] = (if white_space1 a then is_blank [b] else white_space2 a b)"
| "is_blank (a # b # c # r) =
    (if white_space1 a then is_blank (b # c # r)
     else if white_space2 a b then is_blank (c # r)
     else white_space3 a b c \<and> is_blank r)"

definition is_ascii_digit :: "char \<Rightarrow> bool" where
  "is_ascii_digit c = (48 \<le> (of_char c :: nat) \<and> (of_char c :: nat) \<le> 57)"

text \<open>
  \<open>str::parse\<close> for an unsigned integer below \<open>bound\<close>: an optional plus sign in front of at least
  one digit, nothing else, no overflow.
\<close>

definition digits_value :: "string \<Rightarrow> nat" where
  "digits_value ds = foldl (\<lambda>n c. n * 10 + (of_char c - 48)) 0 ds"

definition parse_unsigned :: "nat \<Rightarrow> string \<Rightarrow> nat option" where
  "parse_unsigned bound s =
    (let ds = (case s of c # d # r \<Rightarrow> if c = CHR ''+'' then d # r else s | _ \<Rightarrow> s) in
     if ds = [] \<or> (\<exists>c \<in> set ds. \<not> is_ascii_digit c) then None
     else if digits_value ds < bound then Some (digits_value ds) else None)"

text \<open>
  \<open>split_on seps s\<close> is \<open>str::split\<close> with a set of one-byte separators: it always returns at least
  one piece.
\<close>

fun split_on :: "char list \<Rightarrow> string \<Rightarrow> string list" where
  "split_on seps [] = [[]]"
| "split_on seps (c # cs) =
    (if c \<in> set seps then [] # split_on seps cs
     else (case split_on seps cs of [] \<Rightarrow> [[c]] | p # ps \<Rightarrow> (c # p) # ps))"

lemma split_on_nonempty: "split_on seps s \<noteq> []"
  by (induction s) (auto split: list.splits)

lemma split_on_insert_absent:
  "c \<notin> set s \<Longrightarrow> split_on (seps @ [c]) s = split_on seps s"
  by (induction s) (auto split: list.splits)

definition eq_ignore_ascii_case :: "string \<Rightarrow> string \<Rightarrow> bool" where
  "eq_ignore_ascii_case a b =
    (let lower = map (\<lambda>c. if 65 \<le> (of_char c :: nat) \<and> (of_char c :: nat) \<le> 90 then char_of ((of_char c :: nat) + 32) else c)
     in lower a = lower b)"

section \<open>State machines\<close>

text \<open>
  Runs are the reflexive transitive closure of a step relation. An invariant that every step
  keeps holds at the end of every run.
\<close>

lemma run_invariant:
  assumes "step\<^sup>*\<^sup>* s t" and "I s" and "\<And>s t. step s t \<Longrightarrow> I s \<Longrightarrow> I t"
  shows "I t"
  using assms(1,2) by (induction rule: rtranclp_induct) (auto intro: assms(3))

text \<open>A relation between the states of a step, lifted to runs when it is reflexive and transitive.\<close>

lemma run_relation:
  assumes "step\<^sup>*\<^sup>* s t" and "\<And>s. R s s" and "\<And>s t u. R s t \<Longrightarrow> R t u \<Longrightarrow> R s u"
    and "\<And>s t. step s t \<Longrightarrow> R s t"
  shows "R s t"
  using assms(1) by (induction rule: rtranclp_induct) (blast intro: assms(2-4))+

section \<open>Counters that grant authority\<close>

text \<open>
  The writer queue, the namespace gate, the billing context and the account-transition admission
  all hand out identities from a \<open>u64\<close> counter that closes for good when it would overflow.
  The interface: what one request does to the counter. The client lemma: identities handed out
  one after the other are strictly increasing, so no identity is ever handed out twice.
\<close>

fun issue :: "('s \<Rightarrow> ('e + u64) \<times> 's) \<Rightarrow> nat \<Rightarrow> 's \<Rightarrow> u64 list" where
  "issue request 0 s = []"
| "issue request (Suc n) s =
    (case request s of (Inl e, s') \<Rightarrow> issue request n s' | (Inr i, s') \<Rightarrow> i # issue request n s')"

locale counter_authority =
  fixes seq :: "'s \<Rightarrow> u64"
    and closed :: "'s \<Rightarrow> bool"
    and request :: "'s \<Rightarrow> ('e + u64) \<times> 's"
  assumes request_ok: "request s = (Inr i, s') \<Longrightarrow> seq s' = i \<and> unat i = Suc (unat (seq s)) \<and> \<not> closed s"
    and request_err: "request s = (Inl e, s') \<Longrightarrow> seq s' = seq s"
    and request_closed: "closed s \<Longrightarrow> \<exists>e. request s = (Inl e, s)"
    and request_exhausted: "seq s = - 1 \<Longrightarrow> \<exists>e s'. request s = (Inl e, s') \<and> closed s'"
begin

lemma issue_above: "i \<in> set (issue request n s) \<Longrightarrow> seq s < i"
proof (induction n arbitrary: s)
  case 0
  then show ?case by simp
next
  case (Suc n)
  obtain r s' where r: "request s = (r, s')" by (cases "request s")
  show ?case
  proof (cases r)
    case (Inl e)
    with r Suc.prems have "i \<in> set (issue request n s')" by simp
    with Suc.IH have "seq s' < i" .
    with r Inl request_err [of s e s'] show ?thesis by simp
  next
    case (Inr j)
    with r request_ok [of s j s'] have j: "seq s' = j" "seq s < j"
      by (auto simp: word_less_nat_alt)
    with r Inr Suc.prems Suc.IH [of s'] show ?thesis by auto
  qed
qed

lemma issue_increasing: "sorted_wrt (<) (issue request n s)"
proof (induction n arbitrary: s)
  case 0
  then show ?case by simp
next
  case (Suc n)
  obtain r s' where r: "request s = (r, s')" by (cases "request s")
  show ?case
  proof (cases r)
    case (Inl e)
    with r Suc show ?thesis by simp
  next
    case (Inr j)
    with r request_ok [of s j s'] have "seq s' = j" by simp
    with r Inr Suc.IH issue_above [of _ n s'] show ?thesis by auto
  qed
qed

lemma issue_distinct: "distinct (issue request n s)"
  using issue_increasing [of n s] by (simp add: strict_sorted_iff)

lemma issue_closed: "closed s \<Longrightarrow> issue request n s = []"
proof (induction n)
  case (Suc n)
  with request_closed [of s] show ?case by auto
qed simp

end

section \<open>Decimal numbers\<close>

fun show_decimal :: "nat \<Rightarrow> string" where
  "show_decimal n = (if n < 10 then [char_of (48 + n)] else show_decimal (n div 10) @ [char_of (48 + n mod 10)])"

declare show_decimal.simps [simp del]

lemma digit_char: "d < 10 \<Longrightarrow> of_char (char_of (48 + d :: nat)) = 48 + d \<and> is_ascii_digit (char_of (48 + d))"
  by (simp add: is_ascii_digit_def)

lemma digits_value_snoc: "digits_value (ds @ [c]) = digits_value ds * 10 + (of_char c - 48)"
  by (simp add: digits_value_def)

lemma show_decimal_digits: "\<forall>c \<in> set (show_decimal n). is_ascii_digit c"
proof (induction n rule: show_decimal.induct)
  case (1 n)
  then show ?case by (subst show_decimal.simps) (auto simp: digit_char)
qed

lemma show_decimal_value: "digits_value (show_decimal n) = n"
proof (induction n rule: show_decimal.induct)
  case (1 n)
  show ?case
  proof (cases "n < 10")
    case True
    then show ?thesis by (simp add: show_decimal.simps [of n] digits_value_def)
  next
    case False
    with 1 show ?thesis by (simp add: show_decimal.simps [of n] digits_value_snoc)
  qed
qed

lemma show_decimal_nonempty: "show_decimal n \<noteq> []"
  by (subst show_decimal.simps) simp

lemma parse_show_decimal:
  assumes "n < bound"
  shows "parse_unsigned bound (show_decimal n) = Some n"
proof -
  obtain c r where s: "show_decimal n = c # r" using show_decimal_nonempty by (cases "show_decimal n") auto
  with show_decimal_digits [of n] have "is_ascii_digit c" by simp
  then have "c \<noteq> CHR ''+''" by (auto simp: is_ascii_digit_def)
  with s have "(case show_decimal n of c # d # r \<Rightarrow> if c = CHR ''+'' then d # r else show_decimal n | _ \<Rightarrow> show_decimal n)
      = show_decimal n" by (cases r) auto
  with show_decimal_digits [of n] show_decimal_nonempty [of n] assms show ?thesis
    by (auto simp: parse_unsigned_def Let_def show_decimal_value)
qed

end
