(* ===== verification/Namespace_Model.thy ===== *)
theory Namespace_Model
  imports Prelude
begin

text \<open>
  Per-user namespaces (\<open>native-client/src/runtime/storage/user_namespace.rs\<close>): the managed
  areas below \<open>accounts/<user>\<close>, the validation of relative file names, the file keys, the
  namespace with its directory mappings, and the scopes and leases that name who may act: the
  session scope (\<open>api/session.rs\<close>), the billing scope (\<open>api/billing_context.rs\<close>) and the
  namespace lease. Every other theory uses these types.
\<close>

section \<open>Managed areas\<close>

datatype managed_user_area =
    Input | Output | Prompt | Canvas | CanvasUploads | CanvasExports
  | References | ReferencesLibrary | ReferencesImports | Previews | Recovery
  | DeliveryStaging | Videos | ToolboxCompressionInputs | ToolboxCompressionResults
  | ToolboxConversionInputs | ToolboxConversionResults | ToolboxCropInputs

definition MANAGED_USER_AREAS :: "managed_user_area list" where
  "MANAGED_USER_AREAS =
    [Input, Output, Prompt, Canvas, CanvasUploads, CanvasExports, References,
     ReferencesLibrary, ReferencesImports, Previews, Recovery, DeliveryStaging, Videos,
     ToolboxCompressionInputs, ToolboxCompressionResults, ToolboxConversionInputs,
     ToolboxConversionResults, ToolboxCropInputs]"

fun storage_name :: "managed_user_area \<Rightarrow> string" where
  "storage_name Input = ''input''"
| "storage_name Output = ''output''"
| "storage_name Prompt = ''prompt''"
| "storage_name Canvas = ''canvas''"
| "storage_name CanvasUploads = ''canvas-uploads''"
| "storage_name CanvasExports = ''canvas-exports''"
| "storage_name References = ''references''"
| "storage_name ReferencesLibrary = ''references-library''"
| "storage_name ReferencesImports = ''references-imports''"
| "storage_name Previews = ''previews''"
| "storage_name Recovery = ''recovery''"
| "storage_name DeliveryStaging = ''delivery-staging''"
| "storage_name Videos = ''videos''"
| "storage_name ToolboxCompressionInputs = ''toolbox-compression-inputs''"
| "storage_name ToolboxCompressionResults = ''toolbox-compression-results''"
| "storage_name ToolboxConversionInputs = ''toolbox-conversion-inputs''"
| "storage_name ToolboxConversionResults = ''toolbox-conversion-results''"
| "storage_name ToolboxCropInputs = ''toolbox-crop-inputs''"

fun relative_path :: "managed_user_area \<Rightarrow> string" where
  "relative_path Input = ''input''"
| "relative_path Output = ''out''"
| "relative_path Prompt = ''prompt''"
| "relative_path Canvas = ''canvas''"
| "relative_path CanvasUploads = ''canvas/uploads''"
| "relative_path CanvasExports = ''canvas/exports''"
| "relative_path References = ''references''"
| "relative_path ReferencesLibrary = ''references/library''"
| "relative_path ReferencesImports = ''references/imports''"
| "relative_path Previews = ''previews''"
| "relative_path Recovery = ''recovery''"
| "relative_path DeliveryStaging = ''delivery-staging''"
| "relative_path Videos = ''videos''"
| "relative_path ToolboxCompressionInputs = ''toolbox/compression-inputs''"
| "relative_path ToolboxCompressionResults = ''toolbox/compression-results''"
| "relative_path ToolboxConversionInputs = ''toolbox/conversion-inputs''"
| "relative_path ToolboxConversionResults = ''toolbox/conversion-results''"
| "relative_path ToolboxCropInputs = ''toolbox/crop-inputs''"

datatype area_error = UnknownManagedArea

definition from_storage_name :: "string \<Rightarrow> area_error + managed_user_area" where
  "from_storage_name value =
    (case List.find (\<lambda>area. storage_name area = value) MANAGED_USER_AREAS of
       Some area \<Rightarrow> Inr area | None \<Rightarrow> Inl UnknownManagedArea)"

lemma all_areas_listed: "set MANAGED_USER_AREAS = UNIV"
proof -
  have "a \<in> set MANAGED_USER_AREAS" for a
    by (cases a) (simp_all add: MANAGED_USER_AREAS_def)
  then show ?thesis by blast
qed

section \<open>Relative names\<close>

text \<open>
  \<open>to_uppercase\<close> maps ASCII letters and the two characters outside ASCII whose
  uppercase is one ASCII letter (dotless i, long s); the other mappings leave a character outside
  ASCII or one of the pairs FF, FI, FL, SS, ST in the string, none of which occurs in a reserved
  device name, so the comparisons below see no difference.
\<close>

fun to_uppercase :: "string \<Rightarrow> string" where
  "to_uppercase [] = []"
| "to_uppercase [c] =
    [if 97 \<le> (of_char c :: nat) \<and> (of_char c :: nat) \<le> 122 then char_of ((of_char c :: nat) - 32) else c]"
| "to_uppercase (c # d # cs) =
    (if (of_char c :: nat) = 196 \<and> (of_char d :: nat) = 177 then CHR ''I'' # to_uppercase cs
     else if (of_char c :: nat) = 197 \<and> (of_char d :: nat) = 191 then CHR ''S'' # to_uppercase cs
     else (if 97 \<le> (of_char c :: nat) \<and> (of_char c :: nat) \<le> 122
           then char_of ((of_char c :: nat) - 32) else c) # to_uppercase (d # cs))"

definition starts_with :: "string \<Rightarrow> string \<Rightarrow> bool" where
  "starts_with s prefix = (take (length prefix) s = prefix)"

definition strip_prefix :: "string \<Rightarrow> string \<Rightarrow> string option" where
  "strip_prefix prefix s = (if starts_with s prefix then Some (drop (length prefix) s) else None)"

definition trim_end_spaces :: "string \<Rightarrow> string" where
  "trim_end_spaces s = rev (dropWhile (\<lambda>c. c = CHR '' '') (rev s))"

datatype name_error =
    EmptyName | InvalidComponent | AmbiguousComponent | InvalidCharacter | ReservedDeviceName
  | BackslashSeparator | NotRelative | NulByte | NotNormal | MoreSpecificArea

definition device_numbers :: "string list" where
  "device_numbers =
    [''1'', ''2'', ''3'', ''4'', ''5'', ''6'', ''7'', ''8'', ''9'',
     [char_of (194 :: nat), char_of (185 :: nat)],
     [char_of (194 :: nat), char_of (178 :: nat)],
     [char_of (194 :: nat), char_of (179 :: nat)]]"

definition reserved_device_stem :: "string \<Rightarrow> bool" where
  "reserved_device_stem stem =
    (stem \<in> set [''CON'', ''PRN'', ''AUX'', ''NUL'', ''CONIN$'', ''CONOUT$'']
     \<or> (case (case strip_prefix ''COM'' stem of Some n \<Rightarrow> Some n | None \<Rightarrow> strip_prefix ''LPT'' stem) of
          Some suffix \<Rightarrow> suffix \<in> set device_numbers
        | None \<Rightarrow> False))"

definition validate_component :: "string \<Rightarrow> name_error + unit" where
  "validate_component component =
    (if component = [] \<or> component = ''.'' \<or> component = ''..'' then Inl InvalidComponent
     else if last component = CHR ''.'' \<or> last component = CHR '' '' then Inl AmbiguousComponent
     else if \<exists>c \<in> set component. (of_char c :: nat) \<le> 31 \<or> c \<in> set ''<>:\"|?*'' then Inl InvalidCharacter
     else if reserved_device_stem (to_uppercase (trim_end_spaces (hd (split_on ''.'' component))))
       then Inl ReservedDeviceName
     else Inr ())"

fun validate_components :: "string list \<Rightarrow> name_error + unit" where
  "validate_components [] = Inr ()"
| "validate_components (c # cs) = bind_result (validate_component c) (\<lambda>_. validate_components cs)"

definition validate_windows_relative_name :: "string \<Rightarrow> name_error + unit" where
  "validate_windows_relative_name value =
    (if value = [] then Inl EmptyName
     else validate_components (split_on [CHR ''/'', CHR 0x5C] value))"

text \<open>
  \<open>Path::components\<close> on a relative name: the non-empty pieces between slashes, a lone dot kept
  only in front. A piece is \<open>Component::Normal\<close> unless it is a dot or two dots.
\<close>

definition path_is_absolute :: "string \<Rightarrow> bool" where
  "path_is_absolute s = (case s of [] \<Rightarrow> False | c # _ \<Rightarrow> c = CHR ''/'')"

definition all_components_normal :: "string \<Rightarrow> bool" where
  "all_components_normal s =
    (\<not> path_is_absolute s \<and> hd (split_on ''/'' s) \<noteq> ''.'' \<and> ''..'' \<notin> set (split_on ''/'' s))"

definition managed_relative_name :: "string \<Rightarrow> name_error + string" where
  "managed_relative_name value =
    (if CHR 0x5C \<in> set value then Inl BackslashSeparator
     else bind_result (validate_windows_relative_name value) (\<lambda>_.
       if value = [] \<or> path_is_absolute value then Inl NotRelative
       else if CHR 0x00 \<in> set value then Inl NulByte
       else if \<not> all_components_normal value then Inl NotNormal
       else Inr value))"

section \<open>File keys\<close>

record managed_file_key =
  key_area :: managed_user_area
  key_relative_name :: string

definition physical_name :: "managed_user_area \<Rightarrow> string \<Rightarrow> string" where
  "physical_name area name = relative_path area @ ''/'' @ name"

definition managed_file_key_new :: "managed_user_area \<Rightarrow> string \<Rightarrow> name_error + managed_file_key" where
  "managed_file_key_new area name =
    (let physical = physical_name area name in
     if \<exists>other \<in> set MANAGED_USER_AREAS.
          other \<noteq> area
          \<and> (physical = relative_path other \<or> starts_with physical (relative_path other @ ''/''))
          \<and> starts_with (relative_path other) (relative_path area @ ''/'')
     then Inl MoreSpecificArea
     else bind_result (managed_relative_name name) (\<lambda>value.
       Inr \<lparr>key_area = area, key_relative_name = value\<rparr>))"

section \<open>Namespaces, leases and scopes\<close>

type_synonym path = "string list"

datatype stable_file_identity =
    UnixIdentity u64 u64
  | WindowsIdentity u64 "8 word list"
  | MacOsIdentity "8 word list" u64

record migrated_index_identity =
  rebind_path :: string
  rebind_before :: stable_file_identity
  rebind_after :: "stable_file_identity option"
  rebind_bytes :: u64

record material_owner_binding =
  binding_owner_user_id :: string
  binding_root :: stable_file_identity
  binding_file :: stable_file_identity

record account_directory_mapping =
  map_version :: u32
  map_area :: string
  map_source :: path
  map_target :: path
  map_identity :: stable_file_identity
  map_source_identity :: stable_file_identity
  map_manifest_json :: string
  map_pending_rebind :: "migrated_index_identity list"
  map_material_owner :: "material_owner_binding option"

record user_namespace =
  user_public_id :: string
  ns_root :: path
  ns_mappings :: "account_directory_mapping list"

record namespace_lease =
  lease_namespace :: user_namespace
  lease_auth_epoch :: u64
  lease_namespace_epoch :: u64

record session_scope =
  scope_owner_user_id :: string
  scope_auth_epoch :: u64

record group_request_scope =
  request_session :: session_scope
  request_account_group_id :: string

record billing_scope =
  billing_request :: group_request_scope
  billing_context_epoch :: u64

abbreviation lease_user :: "namespace_lease \<Rightarrow> string" where
  "lease_user l \<equiv> user_public_id (lease_namespace l)"

text \<open>
  \<open>Uuid::parse_str(value)\<close> followed by \<open>to_string\<close> is code of the \<open>uuid\<close> crate: the parameter
  \<open>parse_uuid\<close> of every definition that checks an identifier.
\<close>

type_synonym uuid_parser = "string \<Rightarrow> string option"

definition canonical_uuid :: "uuid_parser \<Rightarrow> string \<Rightarrow> bool" where
  "canonical_uuid parse_uuid value = (parse_uuid value = Some value)"

datatype namespace_error = InvalidUuid | NotCanonicalUuid

definition user_namespace_new ::
  "uuid_parser \<Rightarrow> path \<Rightarrow> string \<Rightarrow> namespace_error + user_namespace" where
  "user_namespace_new parse_uuid data_root user =
    (case parse_uuid user of
       None \<Rightarrow> Inl InvalidUuid
     | Some canonical \<Rightarrow>
         if canonical \<noteq> user then Inl NotCanonicalUuid
         else Inr \<lparr>user_public_id = canonical,
                   ns_root = data_root @ [''accounts'', canonical], ns_mappings = []\<rparr>)"

text \<open>The last mapping of an area decides where it is; without one it is below the root.\<close>

definition namespace_path :: "user_namespace \<Rightarrow> managed_user_area \<Rightarrow> path" where
  "namespace_path ns area =
    (case List.find (\<lambda>m. map_area m = storage_name area) (rev (ns_mappings ns)) of
       Some m \<Rightarrow> map_target m
     | None \<Rightarrow> ns_root ns @ split_on ''/'' (relative_path area))"

section \<open>Areas and their names\<close>

lemma storage_name_inj: "storage_name a = storage_name b \<Longrightarrow> a = b"
  by (cases a; cases b; simp)

lemma from_storage_name_eq_Inr: "from_storage_name s = Inr a \<longleftrightarrow> s = storage_name a"
proof -
  have "from_storage_name (storage_name b) = Inr b" for b
    by (cases b) (simp_all add: from_storage_name_def MANAGED_USER_AREAS_def)
  moreover have "storage_name a = s" if "from_storage_name s = Inr a"
    using that by (auto simp: from_storage_name_def find_Some_iff split: option.splits)
  ultimately show ?thesis by auto
qed

text \<open>A managed area is recovered exactly from its storage name, and from no other string.\<close>

theorem storage_name_roundtrip:
  "from_storage_name (storage_name a) = Inr a
   \<and> (from_storage_name s = Inr b \<longleftrightarrow> s = storage_name b)
   \<and> (from_storage_name s = Inl UnknownManagedArea \<longleftrightarrow> s \<notin> storage_name ` UNIV)"
proof -
  have "from_storage_name s = Inl UnknownManagedArea \<longleftrightarrow> (\<forall>x. from_storage_name s \<noteq> Inr x)"
    by (cases "from_storage_name s") (auto intro: area_error.exhaust)
  then show ?thesis by (auto simp: from_storage_name_eq_Inr)
qed

section \<open>Accepted names stay inside their area\<close>

lemma validate_components_ok:
  "validate_components cs = Inr u \<longleftrightarrow> (\<forall>c \<in> set cs. is_ok (validate_component c))"
proof (induction cs)
  case (Cons c cs)
  then show ?case by (cases "validate_component c") auto
qed simp

lemma validate_component_ok:
  "is_ok (validate_component c) \<Longrightarrow>
    c \<noteq> [] \<and> c \<noteq> ''.'' \<and> c \<noteq> ''..'' \<and> last c \<noteq> CHR ''.'' \<and> last c \<noteq> CHR '' ''
    \<and> \<not> reserved_device_stem (to_uppercase (trim_end_spaces (hd (split_on ''.'' c))))"
  by (auto simp: validate_component_def split: if_splits)

lemma managed_relative_name_ok:
  assumes "managed_relative_name value = Inr v"
  shows "v = value" "CHR 0x5C \<notin> set value" "CHR 0x00 \<notin> set value" "\<not> path_is_absolute value"
    "\<forall>c \<in> set (split_on ''/'' value). is_ok (validate_component c)"
proof -
  show "v = value" "CHR 0x5C \<notin> set value" "CHR 0x00 \<notin> set value" "\<not> path_is_absolute value"
    using assms by (auto simp: managed_relative_name_def split: if_splits)
  have "is_ok (validate_windows_relative_name value)"
    using assms by (cases "validate_windows_relative_name value")
      (auto simp: managed_relative_name_def split: if_splits)
  then have "is_ok (validate_components (split_on [CHR ''/'', CHR 0x5C] value))"
    by (auto simp: validate_windows_relative_name_def split: if_splits)
  moreover have "split_on [CHR ''/'', CHR 0x5C] value = split_on ''/'' value"
    using split_on_insert_absent [of "CHR 0x5C" "value" "''/''"] \<open>CHR 0x5C \<notin> set value\<close> by simp
  ultimately show "\<forall>c \<in> set (split_on ''/'' value). is_ok (validate_component c)"
    by (cases "validate_components (split_on ''/'' value)") (auto simp: validate_components_ok)
qed

lemma managed_file_key_ok:
  assumes "managed_file_key_new area name = Inr k"
  shows "key_area k = area" "key_relative_name k = name" "managed_relative_name name = Inr name"
    "\<And>other. other \<noteq> area \<Longrightarrow> starts_with (relative_path other) (relative_path area @ ''/'') \<Longrightarrow>
       physical_name area name \<noteq> relative_path other
       \<and> \<not> starts_with (physical_name area name) (relative_path other @ ''/'')"
proof -
  from assms obtain v where v: "managed_relative_name name = Inr v" "k = \<lparr>key_area = area, key_relative_name = v\<rparr>"
    by (auto simp: managed_file_key_new_def Let_def split: if_splits)
  with managed_relative_name_ok(1) [OF v(1)]
  show "key_area k = area" "key_relative_name k = name" "managed_relative_name name = Inr name" by auto
  show "\<And>other. other \<noteq> area \<Longrightarrow> starts_with (relative_path other) (relative_path area @ ''/'') \<Longrightarrow>
       physical_name area name \<noteq> relative_path other
       \<and> \<not> starts_with (physical_name area name) (relative_path other @ ''/'')"
    using assms by (auto simp: managed_file_key_new_def Let_def all_areas_listed split: if_splits)
qed

lemma prefixes_comparable:
  assumes "xs @ ys = us @ (vs :: 'a list)"
  shows "take (length xs) us = xs \<or> take (length us) xs = us"
proof -
  from assms have "take (length xs) (us @ vs) = xs" "take (length us) (xs @ ys) = us"
    by (metis append_eq_conv_conj)+
  then show ?thesis by (cases "length xs \<le> length us") auto
qed

lemma relative_path_slash:
  "starts_with (relative_path b @ ''/'') (relative_path a @ ''/'') \<Longrightarrow> a \<noteq> b \<Longrightarrow>
    starts_with (relative_path b) (relative_path a @ ''/'')"
  by (cases a; cases b; simp add: starts_with_def)

lemma physical_names_nested:
  assumes "physical_name a n = physical_name b m" and "a \<noteq> b"
  shows "starts_with (relative_path b) (relative_path a @ ''/'') \<or> starts_with (relative_path a) (relative_path b @ ''/'')"
proof -
  have "(relative_path a @ ''/'') @ n = (relative_path b @ ''/'') @ m"
    using assms(1) by (simp add: physical_name_def)
  from prefixes_comparable [OF this] show ?thesis
    using relative_path_slash [of a b] relative_path_slash [of b a] assms(2)
    by (auto simp: starts_with_def)
qed

text \<open>
  A managed file key and the file it names determine each other: two keys the constructor
  accepts name the same file below the account root only if they are the same key. So a file of a
  nested area (\<open>canvas/uploads\<close>) can never be reached, overwritten or deleted through the
  enclosing area (\<open>canvas\<close>).
\<close>

theorem managed_file_key_injective:
  assumes "managed_file_key_new a n = Inr k" and "managed_file_key_new b m = Inr l"
    and "physical_name a n = physical_name b m"
  shows "k = l \<and> a = b \<and> n = m"
proof -
  have starts: "starts_with (physical_name a n) (relative_path b @ ''/'')"
    "starts_with (physical_name b m) (relative_path a @ ''/'')"
    using assms(3) by (metis append.assoc append_eq_conv_conj physical_name_def starts_with_def)+
  have "a = b"
    using physical_names_nested [OF assms(3)] managed_file_key_ok(4) [OF assms(1), of b]
      managed_file_key_ok(4) [OF assms(2), of a] starts by blast
  with assms show ?thesis by (auto simp: physical_name_def)
qed

theorem managed_file_key_injective_witness:
  "(let k = \<lparr>key_area = CanvasUploads, key_relative_name = ''a.png''\<rparr>
    in k = k \<and> CanvasUploads = CanvasUploads \<and> ''a.png'' = ''a.png'')
   \<and> managed_file_key_new Canvas ''uploads/a.png'' = Inl MoreSpecificArea"
proof -
  have key: "managed_file_key_new CanvasUploads ''a.png'' = Inr \<lparr>key_area = CanvasUploads, key_relative_name = ''a.png''\<rparr>"
    by code_simp
  have "managed_file_key_new Canvas ''uploads/a.png'' = Inl MoreSpecificArea"
    by code_simp
  then show ?thesis
    using managed_file_key_injective [OF key key refl] by (simp add: Let_def)
qed

text \<open>
  Every name the key constructor accepts stays inside its area on every host: split at
  slashes, no piece is empty, a dot, two dots or a reserved Windows device, none ends in a dot or
  a space, and the name is neither absolute nor contains a backslash or a NUL byte.
\<close>

theorem managed_file_key_contained:
  assumes "managed_file_key_new area name = Inr k"
  shows "key_relative_name k = name \<and> \<not> path_is_absolute name
    \<and> CHR 0x5C \<notin> set name \<and> CHR 0x00 \<notin> set name
    \<and> (\<forall>c \<in> set (split_on ''/'' name).
         c \<noteq> [] \<and> c \<noteq> ''.'' \<and> c \<noteq> ''..'' \<and> last c \<noteq> CHR ''.'' \<and> last c \<noteq> CHR '' ''
         \<and> \<not> reserved_device_stem (to_uppercase (trim_end_spaces (hd (split_on ''.'' c)))))"
  using managed_file_key_ok(2,3) [OF assms] managed_relative_name_ok [of name name]
    validate_component_ok by blast

theorem managed_file_key_contained_witness:
  "''..'' \<notin> set (split_on ''/'' ''sub/file.png'')"
proof -
  have "managed_file_key_new References ''sub/file.png'' =
      Inr \<lparr>key_area = References, key_relative_name = ''sub/file.png''\<rparr>"
    by code_simp
  from managed_file_key_contained [OF this] show ?thesis by blast
qed

end
