(* ===== verification/Permit_Gate.thy ===== *)
theory Permit_Gate
  imports Prelude
begin

text \<open>
  The interface of a gate that counts the permits it has handed out: the upgrade latch counts one
  \<open>usize\<close> per kind of ordinary work, the user-activity gate counts the permits of the published
  lease. The provider promises what admission and release do to its counter; the client lemma is
  that the counter is at all times the number of live permits, so that "the counter is zero" means
  "nobody holds a permit" and a release never counts below zero.
\<close>

locale permit_gate =
  fixes admit :: "'k \<Rightarrow> 's \<Rightarrow> 's option"
    and release :: "'k \<Rightarrow> 's \<Rightarrow> 's"
    and count_of :: "'k \<Rightarrow> 's \<Rightarrow> nat"
  assumes admit_count:
      "admit k s = Some t \<Longrightarrow> count_of k t = Suc (count_of k s) \<and> (\<forall>j. j \<noteq> k \<longrightarrow> count_of j t = count_of j s)"
    and release_count:
      "0 < count_of k s \<Longrightarrow>
        count_of k (release k s) = count_of k s - 1 \<and> (\<forall>j. j \<noteq> k \<longrightarrow> count_of j (release k s) = count_of j s)"
begin

lemma admit_counted:
  assumes "\<forall>k. count_of k s = count_list ks k" and "admit k s = Some t"
  shows "\<forall>j. count_of j t = count_list (k # ks) j"
  using assms(1) admit_count [OF assms(2)] by auto

lemma release_counted:
  assumes "\<forall>k. count_of k s = count_list ks k" and "k \<in> set ks"
  shows "\<forall>j. count_of j (release k s) = count_list (remove1 k ks) j"
proof -
  have "0 < count_list ks k" using assms(2) count_list_0_iff [of ks k] by auto
  with release_count [of k s] assms(1) have r:
    "count_of k (release k s) = count_list ks k - 1"
    "\<And>j. j \<noteq> k \<Longrightarrow> count_of j (release k s) = count_list ks j" by auto
  have "count_list (remove1 k ks) j = (if j = k then count_list ks k - 1 else count_list ks j)" for j
    using assms(2) by (induction ks) (auto simp: count_list_0_iff)
  with r show ?thesis by auto
qed

lemma live_counted:
  assumes "\<forall>k. count_of k s = count_list ks k"
  shows "k \<in> set ks \<longleftrightarrow> 0 < count_of k s"
  using assms count_list_0_iff [of ks k] by auto

end

end
