(* ===== verification/Api_Error.thy ===== *)
theory Api_Error
  imports Prelude
begin

text \<open>
  The error type of the service client (\<open>native-client/src/runtime/api/error.rs\<close>) and the
  questions the client asks about an error: does it end the session, does it ask for a token
  refresh, must the local recovery record be kept, who was to pay. Messages are data nobody
  branches on here; texts the client writes itself appear in an English rendering.
\<close>

section \<open>JSON values\<close>

text \<open>\<open>serde_json::Value\<close>; a number is kept as its text.\<close>

datatype json =
    JNull
  | JBool bool
  | JNumber string
  | JString string
  | JArray "json list"
  | JObject "(string \<times> json) list"

fun json_get :: "json \<Rightarrow> string \<Rightarrow> json option" where
  "json_get (JObject members) key = map_of members key"
| "json_get _ key = None"

fun json_as_str :: "json \<Rightarrow> string option" where
  "json_as_str (JString s) = Some s"
| "json_as_str _ = None"

section \<open>The error type\<close>

datatype api_error =
    BillingRejected (rejected_source: api_error) (rejected_payer: string)
  | Network string bool
  | Http u16 string string "string option" "json option"
  | Protocol string "string option"
  | AuthenticationRequired
  | Credential string
  | Configuration string
  | LocalState string

primrec error_code :: "api_error \<Rightarrow> string option" where
  "error_code (BillingRejected source payer) = error_code source"
| "error_code (Network message timeout) = None"
| "error_code (Http status code message request_id details) = Some code"
| "error_code (Protocol message request_id) = None"
| "error_code AuthenticationRequired = Some ''authentication_required''"
| "error_code (Credential message) = None"
| "error_code (Configuration message) = None"
| "error_code (LocalState message) = None"

primrec error_request_id :: "api_error \<Rightarrow> string option" where
  "error_request_id (BillingRejected source payer) = error_request_id source"
| "error_request_id (Network message timeout) = None"
| "error_request_id (Http status code message request_id details) = request_id"
| "error_request_id (Protocol message request_id) = request_id"
| "error_request_id AuthenticationRequired = None"
| "error_request_id (Credential message) = None"
| "error_request_id (Configuration message) = None"
| "error_request_id (LocalState message) = None"

definition code_in :: "api_error \<Rightarrow> string list \<Rightarrow> bool" where
  "code_in e codes = (case error_code e of Some c \<Rightarrow> c \<in> set codes | None \<Rightarrow> False)"

definition is_access_token_rejected :: "api_error \<Rightarrow> bool" where
  "is_access_token_rejected e = code_in e [''access_token_invalid'', ''authentication_required'']"

definition is_terminal_session_error :: "api_error \<Rightarrow> bool" where
  "is_terminal_session_error e =
    code_in e [''session_invalid'', ''session_device_mismatch'', ''refresh_token_invalid'',
      ''refresh_token_reused'', ''account_disabled'', ''account_unavailable'']"

fun is_client_update_required :: "api_error \<Rightarrow> bool" where
  "is_client_update_required (Http status code message request_id details) =
    (status = 426 \<and> code = ''client_upgrade_required'')"
| "is_client_update_required _ = False"

fun is_network_error :: "api_error \<Rightarrow> bool" where
  "is_network_error (Network message timeout) = True"
| "is_network_error _ = False"

definition is_insufficient_credits :: "api_error \<Rightarrow> bool" where
  "is_insufficient_credits e = (error_code e = Some ''insufficient_credits'')"

definition is_billing_rejection :: "api_error \<Rightarrow> bool" where
  "is_billing_rejection e = code_in e [''insufficient_credits'', ''membership_limit_exceeded'']"

definition with_billing_payer :: "api_error \<Rightarrow> string \<Rightarrow> api_error" where
  "with_billing_payer e payer =
    (if is_billing_rejection e \<and> (case e of BillingRejected _ _ \<Rightarrow> False | _ \<Rightarrow> True)
     then BillingRejected e payer else e)"

fun billing_payer :: "api_error \<Rightarrow> string option" where
  "billing_payer (BillingRejected source payer) = Some payer"
| "billing_payer _ = None"

definition is_invitation_code_already_submitted :: "api_error \<Rightarrow> bool" where
  "is_invitation_code_already_submitted e =
    code_in e [''invitation_code_already_submitted'', ''invitation_code_already_used'',
      ''invitation_already_bound'']"

definition should_preserve_generation_recovery :: "api_error \<Rightarrow> bool" where
  "should_preserve_generation_recovery e =
    (if is_client_update_required e then True
     else (case e of
         Network _ _ \<Rightarrow> True
       | Protocol _ _ \<Rightarrow> True
       | Http status code _ _ _ \<Rightarrow>
           500 \<le> status \<or> status \<in> {408, 425, 429} \<or> (status = 409 \<and> code = ''request_in_progress'')
       | _ \<Rightarrow> False))"

definition should_preserve_redemption_retry :: "api_error \<Rightarrow> bool" where
  "should_preserve_redemption_retry e =
    (case e of
       Network _ _ \<Rightarrow> True
     | Protocol _ _ \<Rightarrow> True
     | LocalState _ \<Rightarrow> True
     | Http status code _ _ _ \<Rightarrow>
         500 \<le> status \<or> status \<in> {408, 425, 429} \<or> code = ''request_in_progress''
     | _ \<Rightarrow> False)"

section \<open>Properties of the classification\<close>

text \<open>The classes that decide different reactions do not overlap.\<close>

lemma token_rejected_not_terminal: "is_access_token_rejected e \<Longrightarrow> \<not> is_terminal_session_error e"
  by (auto simp: is_access_token_rejected_def is_terminal_session_error_def code_in_def split: option.splits)

lemma with_billing_payer_code [simp]: "error_code (with_billing_payer e g) = error_code e"
  by (simp add: with_billing_payer_def)

lemma with_billing_payer_request_id [simp]: "error_request_id (with_billing_payer e g) = error_request_id e"
  by (simp add: with_billing_payer_def)

text \<open>
  Naming the payer of a rejected charge changes nothing else: the code, the request id and
  hence every classification stay as they were, only a billing rejection gets a payer, and a payer
  once named is never replaced by the team selected later.
\<close>

theorem billing_payer_is_first:
  "error_code (with_billing_payer (with_billing_payer e g) h) = error_code e
   \<and> is_terminal_session_error (with_billing_payer e g) = is_terminal_session_error e
   \<and> is_access_token_rejected (with_billing_payer e g) = is_access_token_rejected e
   \<and> with_billing_payer (with_billing_payer e g) h =
       (if is_billing_rejection e then with_billing_payer e g else e)
   \<and> billing_payer (with_billing_payer e g) =
       (case billing_payer e of Some p \<Rightarrow> Some p
        | None \<Rightarrow> if is_billing_rejection e then Some g else None)"
proof -
  have "is_billing_rejection (with_billing_payer e g) = is_billing_rejection e"
    by (simp add: is_billing_rejection_def code_in_def)
  then show ?thesis
    by (cases e) (auto simp: with_billing_payer_def is_terminal_session_error_def
        is_access_token_rejected_def code_in_def is_billing_rejection_def)
qed

text \<open>
  A rejection the server is certain about (a 4xx other than the ambiguous ones, no upgrade fence)
  lets the recovery record go; every ambiguous outcome keeps it.
\<close>

lemma generation_recovery_http:
  "should_preserve_generation_recovery (Http status code m r d) \<longleftrightarrow>
    500 \<le> status \<or> status \<in> {408, 425, 429}
    \<or> (status = 409 \<and> code = ''request_in_progress'')
    \<or> (status = 426 \<and> code = ''client_upgrade_required'')"
  by (auto simp: should_preserve_generation_recovery_def)

end
