(* ===== verification/Upgrade_Latch.thy ===== *)
theory Upgrade_Latch
  imports Permit_Gate Api_Error
begin

text \<open>
  The process-wide upgrade fence (\<open>native-client/src/runtime/api/upgrade.rs\<close>). Ordinary work of
  four kinds holds counted permits. The first \<open>client_upgrade_required\<close> answer closes the latch
  for good and waits until every permit is back. The state behind the mutex is a record with the
  poison flag of the lock; each critical section is one operation; runs of all threads are the
  step relation at the end.
\<close>

section \<open>What the server requires\<close>

record required_upgrade = minimum_version :: "string option"

definition plain_version :: "string \<Rightarrow> bool" where
  "plain_version version =
    (let parts = split_on ''.'' version in
     length parts = 3
     \<and> (\<forall>part \<in> set parts.
          part \<noteq> [] \<and> (\<forall>byte \<in> set part. is_ascii_digit byte)
          \<and> (length part = 1 \<or> hd part \<noteq> CHR ''0'')
          \<and> parse_unsigned (2 ^ 64) part \<noteq> None))"

definition from_error :: "api_error \<Rightarrow> required_upgrade option" where
  "from_error e =
    (if \<not> is_client_update_required e then None
     else
       let candidate =
         (case e of
            Http status code message request_id (Some details) \<Rightarrow>
              Option.bind (json_get details ''minimum_version'') json_as_str
          | _ \<Rightarrow> None)
       in Some \<lparr>minimum_version =
            (case candidate of Some version \<Rightarrow> if plain_version version then Some version else None
             | None \<Rightarrow> None)\<rparr>)"

definition as_error :: "required_upgrade \<Rightarrow> api_error" where
  "as_error r =
    Http 426 ''client_upgrade_required'' ''the client is too old and must be updated'' None
      (map_option (\<lambda>version. JObject [(''minimum_version'', JString version)]) (minimum_version r))"

section \<open>The latch\<close>

datatype work_kind = OrdinaryTransfer | OrdinaryDurableCommit | OrdinaryBlockingEffect | OrdinaryExternalWorker

record upgrade_latch =
  latch_required :: "required_upgrade option"
  latch_counts :: "work_kind \<Rightarrow> usize"
  latch_poisoned :: bool

definition unknown_upgrade :: required_upgrade where
  "unknown_upgrade = \<lparr>minimum_version = None\<rparr>"

definition latch_default :: upgrade_latch where
  "latch_default = \<lparr>latch_required = None, latch_counts = (\<lambda>_. 0), latch_poisoned = False\<rparr>"

definition latch_lock :: "upgrade_latch \<Rightarrow> upgrade_latch" where
  "latch_lock s =
    (if latch_poisoned s \<and> latch_required s = None
     then s\<lparr>latch_required := Some unknown_upgrade\<rparr> else s)"

definition latch_drained :: "upgrade_latch \<Rightarrow> bool" where
  "latch_drained s =
    (\<forall>kind \<in> set [OrdinaryTransfer, OrdinaryDurableCommit, OrdinaryBlockingEffect, OrdinaryExternalWorker].
       latch_counts s kind = 0)"

definition latch_snapshot :: "upgrade_latch \<Rightarrow> required_upgrade option \<times> upgrade_latch" where
  "latch_snapshot s = (let s = latch_lock s in (latch_required s, s))"

text \<open>\<open>trip\<close> closes the latch under the lock; waiting for the permits is a step of its own.\<close>

definition latch_close :: "required_upgrade \<Rightarrow> upgrade_latch \<Rightarrow> upgrade_latch" where
  "latch_close required s =
    (if latch_required s = None then s\<lparr>latch_required := Some required\<rparr> else s)"

definition latch_trip :: "required_upgrade \<Rightarrow> upgrade_latch \<Rightarrow> upgrade_latch" where
  "latch_trip required s = latch_close required (latch_lock s)"

definition count_down :: "work_kind \<Rightarrow> upgrade_latch \<Rightarrow> upgrade_latch" where
  "count_down kind s = s\<lparr>latch_counts := (latch_counts s)(kind := latch_counts s kind - 1)\<rparr>"

definition latch_trip_from_transfer :: "required_upgrade \<Rightarrow> upgrade_latch \<Rightarrow> upgrade_latch" where
  "latch_trip_from_transfer required s =
    count_down OrdinaryTransfer (latch_close required (latch_lock s))"

definition latch_apply_if_open ::
  "'r \<Rightarrow> upgrade_latch \<Rightarrow> (required_upgrade + 'r) \<times> upgrade_latch" where
  "latch_apply_if_open result s =
    (let s = latch_lock s in
     case latch_required s of Some required \<Rightarrow> (Inl required, s) | None \<Rightarrow> (Inr result, s))"

definition latch_begin :: "work_kind \<Rightarrow> upgrade_latch \<Rightarrow> (required_upgrade + work_kind) \<times> upgrade_latch" where
  "latch_begin kind s =
    (let s = latch_lock s in
     case latch_required s of
       Some required \<Rightarrow> (Inl required, s)
     | None \<Rightarrow>
         (case checked_add (latch_counts s kind) 1 of
            None \<Rightarrow> (Inl unknown_upgrade, s\<lparr>latch_required := Some unknown_upgrade\<rparr>)
          | Some count \<Rightarrow> (Inr kind, s\<lparr>latch_counts := (latch_counts s)(kind := count)\<rparr>)))"

definition permit_is_cancelled :: "upgrade_latch \<Rightarrow> bool" where
  "permit_is_cancelled s = (latch_poisoned s \<or> latch_required s \<noteq> None)"

definition permit_drop :: "work_kind \<Rightarrow> upgrade_latch \<Rightarrow> upgrade_latch" where
  "permit_drop kind s = count_down kind s"

section \<open>All threads\<close>

text \<open>
  The permits the program holds, the number of threads inside \<open>wait_drained\<close> and the number of
  trips that returned. A closure run under the lock may panic and poison the mutex; it runs only
  while the latch is open.
\<close>

record latch_system =
  sys_latch :: upgrade_latch
  sys_permits :: "work_kind list"
  sys_waiting :: nat
  sys_returned :: nat

definition latch_start :: latch_system where
  "latch_start = \<lparr>sys_latch = latch_default, sys_permits = [], sys_waiting = 0, sys_returned = 0\<rparr>"

inductive latch_step :: "latch_system \<Rightarrow> latch_system \<Rightarrow> bool" where
  begin_ok: "latch_begin kind (sys_latch y) = (Inr kind, l) \<Longrightarrow>
    latch_step y (y\<lparr>sys_latch := l, sys_permits := kind # sys_permits y\<rparr>)"
| begin_err: "latch_begin kind (sys_latch y) = (Inl r, l) \<Longrightarrow> latch_step y (y\<lparr>sys_latch := l\<rparr>)"
| drop_permit: "kind \<in> set (sys_permits y) \<Longrightarrow>
    latch_step y (y\<lparr>sys_latch := permit_drop kind (sys_latch y), sys_permits := remove1 kind (sys_permits y)\<rparr>)"
| trip: "latch_step y (y\<lparr>sys_latch := latch_trip r (sys_latch y), sys_waiting := Suc (sys_waiting y)\<rparr>)"
| trip_transfer: "OrdinaryTransfer \<in> set (sys_permits y) \<Longrightarrow>
    latch_step y (y\<lparr>sys_latch := latch_trip_from_transfer r (sys_latch y),
      sys_permits := remove1 OrdinaryTransfer (sys_permits y), sys_waiting := Suc (sys_waiting y)\<rparr>)"
| trip_return: "0 < sys_waiting y \<Longrightarrow> latch_drained (latch_lock (sys_latch y)) \<Longrightarrow>
    latch_step y (y\<lparr>sys_latch := latch_lock (sys_latch y), sys_waiting := sys_waiting y - 1,
      sys_returned := Suc (sys_returned y)\<rparr>)"
| read: "latch_step y (y\<lparr>sys_latch := snd (latch_snapshot (sys_latch y))\<rparr>)"
| closure_panic: "latch_apply_if_open () (sys_latch y) = (Inr (), l) \<Longrightarrow>
    latch_step y (y\<lparr>sys_latch := l\<lparr>latch_poisoned := True\<rparr>\<rparr>)"

section \<open>The latch is a permit gate\<close>

definition latch_admit :: "work_kind \<Rightarrow> upgrade_latch \<Rightarrow> upgrade_latch option" where
  "latch_admit kind s = (case latch_begin kind s of (Inr _, t) \<Rightarrow> Some t | (Inl _, _) \<Rightarrow> None)"

lemma latch_lock_counts [simp]: "latch_counts (latch_lock s) = latch_counts s"
  "latch_poisoned (latch_lock s) = latch_poisoned s"
  by (simp_all add: latch_lock_def)

lemma latch_lock_required:
  "latch_required (latch_lock s) = None \<longleftrightarrow> latch_required s = None \<and> \<not> latch_poisoned s"
  "latch_required s = Some r \<Longrightarrow> latch_required (latch_lock s) = Some r"
  by (auto simp: latch_lock_def)

lemma latch_lock_keeps: "latch_required s \<noteq> None \<Longrightarrow> latch_lock s = s"
  by (auto simp: latch_lock_def)

lemma latch_begin_SomeD:
  assumes "latch_begin kind s = (Inr k, t)"
  shows "k = kind" "latch_required s = None" "\<not> latch_poisoned s" "latch_required t = None"
    "latch_poisoned t = latch_poisoned s"
    "checked_add (latch_counts s kind) 1 = Some (latch_counts t kind)"
    "\<And>j. j \<noteq> kind \<Longrightarrow> latch_counts t j = latch_counts s j"
  using assms latch_lock_required(1) [of s]
  by (auto simp: latch_begin_def Let_def split: option.splits)

lemma count_down_unat:
  assumes "latch_counts s kind \<noteq> 0"
  shows "unat (latch_counts (count_down kind s) j) =
    (if j = kind then unat (latch_counts s kind) - 1 else unat (latch_counts s j))"
  using assms by (simp add: count_down_def unat_diff_one)

interpretation latch: permit_gate latch_admit permit_drop "\<lambda>kind s. unat (latch_counts s kind)"
proof unfold_locales
  fix k and s t :: upgrade_latch
  assume "latch_admit k s = Some t"
  then obtain k' where "latch_begin k s = (Inr k', t)"
    by (auto simp: latch_admit_def split: prod.splits sum.splits)
  note b = latch_begin_SomeD [OF this]
  show "unat (latch_counts t k) = Suc (unat (latch_counts s k))
      \<and> (\<forall>j. j \<noteq> k \<longrightarrow> unat (latch_counts t j) = unat (latch_counts s j))"
    using checked_add_one_SomeD [OF b(6)] b(7) by auto
next
  fix k and s :: upgrade_latch
  assume "0 < unat (latch_counts s k)"
  then have "latch_counts s k \<noteq> 0" by auto
  note r = count_down_unat [OF this]
  show "unat (latch_counts (permit_drop k s) k) = unat (latch_counts s k) - 1
      \<and> (\<forall>j. j \<noteq> k \<longrightarrow> unat (latch_counts (permit_drop k s) j) = unat (latch_counts s j))"
    by (simp add: permit_drop_def r)
qed

section \<open>Invariant\<close>

definition latch_inv :: "latch_system \<Rightarrow> bool" where
  "latch_inv y =
    ((\<forall>kind. unat (latch_counts (sys_latch y) kind) = count_list (sys_permits y) kind)
     \<and> (0 < sys_waiting y + sys_returned y \<longrightarrow> latch_required (sys_latch y) \<noteq> None)
     \<and> (0 < sys_returned y \<longrightarrow> sys_permits y = []))"

lemma latch_drained_iff: "latch_drained s \<longleftrightarrow> (\<forall>kind. latch_counts s kind = 0)"
proof -
  have "kind \<in> set [OrdinaryTransfer, OrdinaryDurableCommit, OrdinaryBlockingEffect, OrdinaryExternalWorker]" for kind
    by (cases kind) auto
  then show ?thesis unfolding latch_drained_def by blast
qed

lemma latch_trip_simps [simp]:
  "latch_counts (latch_trip r s) = latch_counts s" "latch_required (latch_trip r s) \<noteq> None"
  "latch_required (latch_trip_from_transfer r s) \<noteq> None"
  "latch_required (permit_drop kind s) = latch_required s"
  by (auto simp: latch_trip_def latch_close_def latch_trip_from_transfer_def count_down_def permit_drop_def)

lemma latch_trip_from_transfer_counts [simp]:
  "latch_counts (latch_trip_from_transfer r s) = latch_counts (permit_drop OrdinaryTransfer s)"
  by (auto simp: latch_trip_def latch_close_def latch_trip_from_transfer_def count_down_def permit_drop_def)

lemma empty_count_list: "(\<forall>k. count_list ks k = 0) \<longleftrightarrow> ks = []"
  by (cases ks) auto

lemma latch_inv_start: "latch_inv latch_start"
  by (simp add: latch_inv_def latch_start_def latch_default_def)

lemma latch_inv_step:
  assumes "latch_step y z" and "latch_inv y"
  shows "latch_inv z"
  using assms
proof cases
  case (begin_ok kind l)
  note b = latch_begin_SomeD [OF begin_ok(2)]
  from begin_ok have "latch_admit kind (sys_latch y) = Some l" by (simp add: latch_admit_def)
  with begin_ok assms(2) latch.admit_counted [of "sys_latch y" "sys_permits y" kind l] b show ?thesis
    by (auto simp: latch_inv_def)
next
  case (begin_err kind r l)
  then have "latch_counts l = latch_counts (sys_latch y)" "latch_required l \<noteq> None"
    by (auto simp: latch_begin_def Let_def split: option.splits)
  with begin_err assms(2) show ?thesis by (auto simp: latch_inv_def)
next
  case (drop_permit kind)
  with assms(2) latch.release_counted [of "sys_latch y" "sys_permits y" kind] show ?thesis
    by (auto simp: latch_inv_def)
next
  case (trip r)
  with assms(2) show ?thesis by (auto simp: latch_inv_def)
next
  case (trip_transfer r)
  with assms(2) latch.release_counted [of "sys_latch y" "sys_permits y" OrdinaryTransfer] show ?thesis
    by (auto simp: latch_inv_def)
next
  case trip_return
  with assms(2) empty_count_list [of "sys_permits y"] show ?thesis
    by (auto simp: latch_inv_def latch_drained_iff latch_lock_keeps)
next
  case read
  with assms(2) latch_lock_keeps [of "sys_latch y"] show ?thesis
    by (auto simp: latch_inv_def latch_snapshot_def Let_def)
next
  case (closure_panic l)
  then have "latch_counts l = latch_counts (sys_latch y)" "latch_required (sys_latch y) = None"
    using latch_lock_required by (auto simp: latch_apply_if_open_def Let_def split: option.splits)
  with closure_panic assms(2) show ?thesis by (auto simp: latch_inv_def)
qed

lemma latch_inv_run:
  assumes "latch_step\<^sup>*\<^sup>* latch_start y"
  shows "latch_inv y"
  by (rule run_invariant [where I = latch_inv, OF assms latch_inv_start]) (rule latch_inv_step)

text \<open>
  C24: in every interleaving of the program's threads the count of each kind is exactly the number
  of live permits of that kind, so returning a permit never counts below zero, and once a trip has
  returned no permit is left.
\<close>

theorem upgrade_drain_complete:
  assumes "latch_step\<^sup>*\<^sup>* latch_start y"
  shows "(\<forall>kind. unat (latch_counts (sys_latch y) kind) = count_list (sys_permits y) kind)
    \<and> (\<forall>kind \<in> set (sys_permits y). latch_counts (sys_latch y) kind \<noteq> 0)
    \<and> (0 < sys_returned y \<longrightarrow> sys_permits y = [] \<and> latch_drained (sys_latch y))"
proof -
  have inv: "latch_inv y" by (rule latch_inv_run [OF assms])
  then have count: "\<forall>kind. unat (latch_counts (sys_latch y) kind) = count_list (sys_permits y) kind"
    by (simp add: latch_inv_def)
  have "latch_counts (sys_latch y) kind \<noteq> 0" if "kind \<in> set (sys_permits y)" for kind
    using latch.live_counted [OF count] that by auto
  with inv count show ?thesis
    by (auto simp: latch_inv_def latch_drained_iff unsigned_eq_0_iff)
qed

definition witness_latch :: upgrade_latch where
  "witness_latch = latch_default\<lparr>latch_counts := (latch_counts latch_default)(OrdinaryTransfer := 1)\<rparr>"

definition witness_system :: latch_system where
  "witness_system =
    \<lparr>sys_latch = latch_trip_from_transfer \<lparr>minimum_version = Some ''1.2.3''\<rparr> witness_latch,
     sys_permits = [], sys_waiting = 1, sys_returned = 0\<rparr>"

lemma witness_system_reachable: "latch_step\<^sup>*\<^sup>* latch_start witness_system"
proof -
  have b: "latch_begin OrdinaryTransfer (sys_latch latch_start) = (Inr OrdinaryTransfer, witness_latch)"
    by (simp add: latch_begin_def latch_start_def latch_default_def latch_lock_def witness_latch_def checked_add_def)
  note s1 = begin_ok [OF b]
  let ?y = "latch_start\<lparr>sys_latch := witness_latch, sys_permits := OrdinaryTransfer # sys_permits latch_start\<rparr>"
  have "latch_step ?y (?y\<lparr>sys_latch := latch_trip_from_transfer \<lparr>minimum_version = Some ''1.2.3''\<rparr> (sys_latch ?y),
      sys_permits := remove1 OrdinaryTransfer (sys_permits ?y), sys_waiting := Suc (sys_waiting ?y)\<rparr>)"
    by (rule trip_transfer) simp
  also have "?y\<lparr>sys_latch := latch_trip_from_transfer \<lparr>minimum_version = Some ''1.2.3''\<rparr> (sys_latch ?y),
      sys_permits := remove1 OrdinaryTransfer (sys_permits ?y), sys_waiting := Suc (sys_waiting ?y)\<rparr> = witness_system"
    by (simp add: witness_system_def latch_start_def)
  finally show ?thesis using s1 by (meson converse_rtranclp_into_rtranclp r_into_rtranclp)
qed

theorem upgrade_drain_complete_witness:
  "unat (latch_counts (sys_latch witness_system) OrdinaryTransfer) = 0"
  using upgrade_drain_complete [OF witness_system_reachable] by (simp add: witness_system_def)

section \<open>One way\<close>

lemma latch_required_step:
  assumes "latch_step y z" and "latch_required (sys_latch y) = Some r"
  shows "latch_required (sys_latch z) = Some r \<and> set (sys_permits z) \<subseteq> set (sys_permits y)"
  using assms
proof cases
  case (begin_ok kind l)
  with latch_begin_SomeD(2) [OF begin_ok(2)] assms(2) show ?thesis by simp
next
  case (closure_panic l)
  with assms(2) show ?thesis
    by (auto simp: latch_apply_if_open_def Let_def latch_lock_required split: option.splits)
qed (auto simp: latch_begin_def latch_snapshot_def Let_def latch_lock_required permit_drop_def count_down_def
    latch_trip_def latch_close_def latch_trip_from_transfer_def
    dest: set_remove1_subset [THEN subsetD] split: option.splits)

text \<open>
  C25: the fence is one way and the first reason wins: once an upgrade is required, no later step
  of any thread clears or replaces the requirement, no new permit of any kind appears, and every
  permit that is still held reads as cancelled.
\<close>

theorem upgrade_fence_is_final:
  assumes "latch_required (sys_latch y) = Some r" and "latch_step\<^sup>*\<^sup>* y z"
  shows "latch_required (sys_latch z) = Some r
    \<and> set (sys_permits z) \<subseteq> set (sys_permits y)
    \<and> fst (latch_begin kind (sys_latch z)) = Inl r
    \<and> fst (latch_apply_if_open v (sys_latch z)) = Inl r
    \<and> permit_is_cancelled (sys_latch z)"
proof -
  have "latch_required (sys_latch z) = Some r \<and> set (sys_permits z) \<subseteq> set (sys_permits y)"
    using assms(2,1) by (induction rule: rtranclp_induct) (auto dest: latch_required_step)
  then show ?thesis
    by (auto simp: latch_begin_def latch_apply_if_open_def permit_is_cancelled_def latch_lock_required Let_def)
qed

theorem upgrade_fence_is_final_witness:
  "fst (latch_begin OrdinaryDurableCommit (sys_latch witness_system)) = Inl \<lparr>minimum_version = Some ''1.2.3''\<rparr>"
proof -
  have "latch_required (sys_latch witness_system) = Some \<lparr>minimum_version = Some ''1.2.3''\<rparr>"
    by (simp add: witness_system_def latch_trip_from_transfer_def latch_close_def latch_lock_def
        witness_latch_def latch_default_def count_down_def)
  from upgrade_fence_is_final [OF this rtranclp.rtrancl_refl, of OrdinaryDurableCommit "()"]
  show ?thesis by blast
qed

text \<open>
  The error a fenced caller sees reports the same requirement again: it asks for the update,
  and reading it back gives the stored minimum version whenever that version has the accepted
  form (three plain decimal numbers), which is the only form the latch ever takes from an error.
\<close>

theorem required_upgrade_roundtrip:
  "is_client_update_required (as_error r)
   \<and> from_error (as_error r) =
       Some \<lparr>minimum_version = (case minimum_version r of
          Some v \<Rightarrow> if plain_version v then Some v else None | None \<Rightarrow> None)\<rparr>
   \<and> (case from_error e of Some q \<Rightarrow> from_error (as_error q) = Some q | None \<Rightarrow> \<not> is_client_update_required e)"
  by (auto simp: as_error_def from_error_def Let_def split: option.splits)

end
