(* ===== verification/Account_Transition.thy ===== *)
theory Account_Transition
  imports Namespace_Model Api_Error
begin

text \<open>
  Serialisation of account transitions (\<open>native-client/src/runtime/account_transition.rs\<close>): the
  admission that hands out one transition ticket at a time, the mailbox through which the worker
  and the interface thread pass the prepared activation, and the record of cleanup debts after a logout.
\<close>

section \<open>Admission\<close>

record transition_admission =
  adm_sequence :: u64
  adm_active :: "u64 option"
  adm_closed :: bool
  adm_poisoned :: bool

datatype transition_error = AdmissionPoisoned | TransitionInProgress | TransitionCounterExhausted

definition admission_default :: transition_admission where
  "admission_default = \<lparr>adm_sequence = 0, adm_active = None, adm_closed = False, adm_poisoned = False\<rparr>"

definition admission_begin :: "transition_admission \<Rightarrow> (transition_error + u64) \<times> transition_admission" where
  "admission_begin s =
    (if adm_poisoned s then (Inl AdmissionPoisoned, s)
     else if adm_closed s \<or> adm_active s \<noteq> None then (Inl TransitionInProgress, s)
     else (case checked_add (adm_sequence s) 1 of
             None \<Rightarrow> (Inl TransitionCounterExhausted, s\<lparr>adm_closed := True\<rparr>)
           | Some i \<Rightarrow> (Inr i, s\<lparr>adm_sequence := i, adm_active := Some i\<rparr>)))"

definition ticket_drop :: "u64 \<Rightarrow> transition_admission \<Rightarrow> transition_admission" where
  "ticket_drop i s =
    (let s = (if adm_poisoned s then s\<lparr>adm_closed := True\<rparr> else s) in
     if adm_active s = Some i then s\<lparr>adm_active := None\<rparr> else s)"

text \<open>One transition after another: begin, and give the ticket back.\<close>

definition admission_round :: "transition_admission \<Rightarrow> (transition_error + u64) \<times> transition_admission" where
  "admission_round s =
    (case admission_begin s of (Inl e, s') \<Rightarrow> (Inl e, s') | (Inr i, s') \<Rightarrow> (Inr i, ticket_drop i s'))"

lemma admission_begin_ok:
  assumes "admission_begin s = (Inr i, t)"
  shows "unat i = Suc (unat (adm_sequence s))" "adm_sequence t = i" "adm_active t = Some i"
    "adm_active s = None" "\<not> adm_closed s" "\<not> adm_closed t" "\<not> adm_poisoned s" "\<not> adm_poisoned t"
  using assms checked_add_one_SomeD [of "adm_sequence s" i]
  by (auto simp: admission_begin_def split: if_splits option.splits)

lemma admission_begin_err:
  assumes "admission_begin s = (Inl e, t)"
  shows "adm_sequence t = adm_sequence s" "adm_active t = adm_active s" "adm_poisoned t = adm_poisoned s"
  using assms by (auto simp: admission_begin_def split: if_splits option.splits)

lemma ticket_drop_simps [simp]:
  "adm_sequence (ticket_drop i s) = adm_sequence s"
  "adm_active (ticket_drop i s) = (if adm_active s = Some i then None else adm_active s)"
  by (auto simp: ticket_drop_def Let_def)

text \<open>
  The tickets of successive transitions come from a counter that never repeats, even when the
  counter is exhausted: then the admission closes. The closed states include the busy and the
  poisoned one, in which the admission refuses as well.
\<close>

definition admission_refuses :: "transition_admission \<Rightarrow> bool" where
  "admission_refuses s = (adm_closed s \<or> adm_poisoned s \<or> adm_active s \<noteq> None)"

interpretation transition_tickets: counter_authority adm_sequence admission_refuses admission_round
proof unfold_locales
  fix s i s'
  assume "admission_round s = (Inr i, s')"
  then obtain t where t: "admission_begin s = (Inr i, t)" "s' = ticket_drop i t"
    by (auto simp: admission_round_def split: prod.splits sum.splits)
  from admission_begin_ok [OF t(1)] t(2)
  show "adm_sequence s' = i \<and> unat i = Suc (unat (adm_sequence s)) \<and> \<not> admission_refuses s"
    by (simp add: admission_refuses_def)
next
  fix s e s'
  assume "admission_round s = (Inl e, s')"
  then have "admission_begin s = (Inl e, s')"
    by (auto simp: admission_round_def split: prod.splits sum.splits)
  then show "adm_sequence s' = adm_sequence s" by (rule admission_begin_err)
next
  fix s
  assume "admission_refuses s"
  then show "\<exists>e. admission_round s = (Inl e, s)"
    by (auto simp: admission_refuses_def admission_round_def admission_begin_def)
next
  fix s :: transition_admission
  assume "adm_sequence s = - 1"
  then have "checked_add (adm_sequence s) 1 = None" by (simp add: checked_add_one_None_iff)
  then show "\<exists>e s'. admission_round s = (Inl e, s') \<and> admission_refuses s'"
    by (auto simp: admission_round_def admission_begin_def admission_refuses_def)
qed

section \<open>The activation mailbox\<close>

text \<open>
  Payloads that only travel through the mailbox (prepared and persisted activations) are the type
  parameters. Dropping a payload may run credential or writer cleanup, so \<open>put\<close> returns the
  replaced phase, which the code drops after the lock is released.
\<close>

datatype ('prepared, 'persisted) mailbox_phase =
    Working | UiApplying | Retired | Prepare 'prepared | Save 'prepared
  | PreparationFailed 'prepared api_error
  | Saved 'persisted | Discard 'persisted | SignedOut | Complete | Failed api_error

record ('prepared, 'persisted) activation_mailbox =
  mail_phase :: "('prepared, 'persisted) mailbox_phase"
  mail_cancelled :: bool
  mail_poisoned :: bool

definition mailbox_new :: "('p, 'q) activation_mailbox" where
  "mailbox_new = \<lparr>mail_phase = Working, mail_cancelled = False, mail_poisoned = False\<rparr>"

definition mailbox_put ::
  "('p, 'q) mailbox_phase \<Rightarrow> ('p, 'q) activation_mailbox \<Rightarrow> ('p, 'q) mailbox_phase \<times> ('p, 'q) activation_mailbox" where
  "mailbox_put v s = (mail_phase s, s\<lparr>mail_phase := v\<rparr>)"

text \<open>\<open>None\<close>: the worker still waits, because the interface thread is applying the payload.\<close>

definition mailbox_fail_on_worker ::
  "api_error \<Rightarrow> ('p, 'q) activation_mailbox \<Rightarrow> (('p, 'q) mailbox_phase \<times> ('p, 'q) activation_mailbox) option" where
  "mailbox_fail_on_worker e s =
    (case mail_phase s of
       UiApplying \<Rightarrow> None
     | phase \<Rightarrow> Some (phase, snd (mailbox_put (Failed e) (s\<lparr>mail_phase := Working\<rparr>))))"

definition mailbox_cancel :: "('p, 'q) activation_mailbox \<Rightarrow> ('p, 'q) activation_mailbox" where
  "mailbox_cancel s = s\<lparr>mail_cancelled := True\<rparr>"

datatype mailbox_error = MailboxPoisoned | TransitionCancelled

definition mailbox_poll ::
  "(('p, 'q) mailbox_phase \<Rightarrow> bool) \<Rightarrow> ('p, 'q) activation_mailbox
    \<Rightarrow> (mailbox_error + ('p, 'q) mailbox_phase) option \<times> ('p, 'q) activation_mailbox" where
  "mailbox_poll ready s =
    (if mail_poisoned s then (Some (Inl MailboxPoisoned), s)
     else if mail_cancelled s then (Some (Inl TransitionCancelled), s)
     else if ready (mail_phase s) then (Some (Inr (mail_phase s)), s\<lparr>mail_phase := Working\<rparr>)
     else (None, s))"

text \<open>
  A payload is owned once: whoever takes a phase leaves \<open>Working\<close> behind, a cancelled wait takes
  nothing, and the worker's failure never takes the payload from under the interface thread.
\<close>

lemma mailbox_poll_cases:
  "mailbox_poll ready s = (Some (Inr p), t) \<longleftrightarrow>
    \<not> mail_poisoned s \<and> \<not> mail_cancelled s \<and> ready p \<and> p = mail_phase s \<and> t = s\<lparr>mail_phase := Working\<rparr>"
  "mailbox_poll ready s = (Some (Inl e), t) \<Longrightarrow> t = s \<and> (mail_poisoned s \<or> mail_cancelled s)"
  by (auto simp: mailbox_poll_def split: if_splits)

lemma mailbox_fail_on_worker_eq:
  "mailbox_fail_on_worker e s =
    (if mail_phase s = UiApplying then None else Some (mail_phase s, s\<lparr>mail_phase := Failed e\<rparr>))"
  by (cases "mail_phase s") (simp_all add: mailbox_fail_on_worker_def mailbox_put_def)

section \<open>Cleanup debts\<close>

record cleanup_debt =
  debt_credentials :: bool
  debt_private_ui :: bool
  debt_candidate_writer :: bool
  debt_remote_logout :: bool

definition cleanup_debt_default :: cleanup_debt where
  "cleanup_debt_default = \<lparr>debt_credentials = False, debt_private_ui = False,
    debt_candidate_writer = False, debt_remote_logout = False\<rparr>"

definition cleanup_debt_is_empty :: "cleanup_debt \<Rightarrow> bool" where
  "cleanup_debt_is_empty d =
    (\<not> debt_credentials d \<and> \<not> debt_private_ui d \<and> \<not> debt_candidate_writer d \<and> \<not> debt_remote_logout d)"

datatype debt_message = IncompleteCredentialCleanup | PrivateUiUnconfirmed | CandidateWriterUnconfirmed | RemoteLogoutUnconfirmed

definition cleanup_debt_messages :: "cleanup_debt \<Rightarrow> debt_message list" where
  "cleanup_debt_messages d =
    (if debt_credentials d then [IncompleteCredentialCleanup] else [])
    @ (if debt_private_ui d then [PrivateUiUnconfirmed] else [])
    @ (if debt_candidate_writer d then [CandidateWriterUnconfirmed] else [])
    @ (if debt_remote_logout d then [RemoteLogoutUnconfirmed] else [])"

record debt_slot =
  slot_debt :: "cleanup_debt option"
  slot_poisoned :: bool

definition get_or_default :: "cleanup_debt option \<Rightarrow> cleanup_debt" where
  "get_or_default d = (case d of Some x \<Rightarrow> x | None \<Rightarrow> cleanup_debt_default)"

definition update_cleanup_debt :: "(cleanup_debt \<Rightarrow> cleanup_debt) \<Rightarrow> debt_slot \<Rightarrow> debt_slot" where
  "update_cleanup_debt update s =
    (let slot = (if slot_poisoned s then Some ((get_or_default (slot_debt s))\<lparr>debt_candidate_writer := True\<rparr>)
                 else slot_debt s);
         debt = update (get_or_default slot)
     in s\<lparr>slot_debt := (if cleanup_debt_is_empty debt then None else Some debt)\<rparr>)"

definition resumable_persisted_owner :: "string option \<Rightarrow> debt_slot \<Rightarrow> string option" where
  "resumable_persisted_owner persisted_owner s =
    (if slot_poisoned s \<or> slot_debt s \<noteq> None then None else persisted_owner)"

text \<open>
  \<open>RetiredSessionCleanup::clear\<close>: \<open>cleared\<close> is the outcome of \<open>clear_scope\<close>, \<open>retained\<close> the
  owner still persisted afterwards.
\<close>

record session_cleanup = cleanup_armed :: bool

datatype credential_cleanup_error = ClearFailed api_error | CredentialsRetained

definition session_cleanup_clear ::
  "(api_error + unit) \<Rightarrow> string option \<Rightarrow> session_cleanup \<Rightarrow> debt_slot
    \<Rightarrow> (credential_cleanup_error + unit) \<times> session_cleanup \<times> debt_slot" where
  "session_cleanup_clear cleared retained c slot =
    (if \<not> cleanup_armed c then (Inr (), c, slot)
     else
       let result = (case cleared of
               Inl e \<Rightarrow> Inl (ClearFailed e)
             | Inr _ \<Rightarrow> if retained = None then Inr () else Inl CredentialsRetained)
       in (result, c\<lparr>cleanup_armed := False\<rparr>,
           update_cleanup_debt (\<lambda>debt. debt\<lparr>debt_credentials := is_err result\<rparr>) slot))"

record logout_attempt =
  logout_token :: "string option"
  logout_all :: bool
  logout_armed :: bool

definition retired_logout_attempt ::
  "(bool \<Rightarrow> string \<Rightarrow> api_error + unit) \<Rightarrow> logout_attempt \<Rightarrow> debt_slot
    \<Rightarrow> (api_error + unit) \<times> logout_attempt \<times> debt_slot" where
  "retired_logout_attempt logout_with_fixed_token a slot =
    (if \<not> logout_armed a then (Inr (), a, slot)
     else case logout_token a of
       None \<Rightarrow> (Inr (), a\<lparr>logout_armed := False\<rparr>, slot)
     | Some token \<Rightarrow>
         let result = logout_with_fixed_token (logout_all a) token
         in (result, a\<lparr>logout_armed := False, logout_token := None\<rparr>,
             if is_err result then update_cleanup_debt (\<lambda>debt. debt\<lparr>debt_remote_logout := True\<rparr>) slot else slot))"

lemma update_cleanup_debt_simps:
  "slot_poisoned (update_cleanup_debt u s) = slot_poisoned s"
  "slot_debt (update_cleanup_debt u s) \<noteq> Some d \<or> \<not> cleanup_debt_is_empty d"
  by (auto simp: update_cleanup_debt_def Let_def)

lemma debt_messages_empty: "cleanup_debt_messages d = [] \<longleftrightarrow> cleanup_debt_is_empty d"
  by (auto simp: cleanup_debt_messages_def cleanup_debt_is_empty_def)

lemma credentials_debt_recorded:
  "session_cleanup_clear cleared retained \<lparr>cleanup_armed = True\<rparr> slot = (Inl e, c, slot') \<Longrightarrow>
    slot_debt slot' \<noteq> None"
  by (auto simp: session_cleanup_clear_def update_cleanup_debt_def cleanup_debt_is_empty_def Let_def
      split: sum.splits if_splits)

lemma logout_debt_recorded:
  "retired_logout_attempt f a slot = (Inl e, a', slot') \<Longrightarrow> slot_debt slot' \<noteq> None"
  by (auto simp: retired_logout_attempt_def update_cleanup_debt_def cleanup_debt_is_empty_def Let_def
      split: option.splits if_splits)

text \<open>
  C35: no silent resume after an incomplete logout: when deleting the credentials failed or left an
  owner behind, or the remote logout failed, the debt is recorded, and with a recorded debt the
  persisted session is not resumable, whoever it belongs to. A second run of the same armed
  cleanup does nothing.
\<close>

theorem incomplete_logout_blocks_resume:
  "(case session_cleanup_clear cleared retained \<lparr>cleanup_armed = True\<rparr> slot of
      (Inl e, c, slot') \<Rightarrow> resumable_persisted_owner owner slot' = None
    | (Inr _, c, slot') \<Rightarrow> cleared = Inr () \<and> retained = None)
   \<and> (case retired_logout_attempt logout a slot of
      (Inl e, a', slot') \<Rightarrow> resumable_persisted_owner owner slot' = None
    | (Inr _, a', slot') \<Rightarrow> retired_logout_attempt logout a' slot' = (Inr (), a', slot'))
   \<and> session_cleanup_clear cleared retained \<lparr>cleanup_armed = False\<rparr> slot = (Inr (), \<lparr>cleanup_armed = False\<rparr>, slot)"
proof (intro conjI)
  show "case session_cleanup_clear cleared retained \<lparr>cleanup_armed = True\<rparr> slot of
      (Inl e, c, slot') \<Rightarrow> resumable_persisted_owner owner slot' = None
    | (Inr _, c, slot') \<Rightarrow> cleared = Inr () \<and> retained = None"
    using credentials_debt_recorded [of cleared retained slot]
    by (auto simp: resumable_persisted_owner_def split: prod.splits sum.splits)
      (auto simp: session_cleanup_clear_def Let_def split: sum.splits if_splits)
  show "case retired_logout_attempt logout a slot of
      (Inl e, a', slot') \<Rightarrow> resumable_persisted_owner owner slot' = None
    | (Inr _, a', slot') \<Rightarrow> retired_logout_attempt logout a' slot' = (Inr (), a', slot')"
    using logout_debt_recorded [of logout a slot]
    by (auto simp: resumable_persisted_owner_def split: prod.splits sum.splits)
      (auto simp: retired_logout_attempt_def Let_def split: option.splits if_splits)
  show "session_cleanup_clear cleared retained \<lparr>cleanup_armed = False\<rparr> slot = (Inr (), \<lparr>cleanup_armed = False\<rparr>, slot)"
    by (simp add: session_cleanup_clear_def)
qed

end
