(* ===== verification/Activity_Gate.thy ===== *)
theory Activity_Gate
  imports Permit_Gate Account_Transition
begin

text \<open>
  The user-activity gate (\<open>UserActivityGate\<close> in
  \<open>native-client/src/runtime/account_transition.rs\<close>): background work on behalf of a user holds a
  permit of the published lease; a transition quiesces the gate, waits for the permits, retires
  the lease and publishes the next one under its transition ticket.
\<close>

section \<open>The gate\<close>

record activity_state =
  act_lease :: "namespace_lease option"
  act_count :: usize
  act_quiescing :: bool
  act_closed :: bool
  act_poisoned :: bool

datatype activity_error =
    ActivityPoisoned | ActivityCannotBePrepared | ActivityClosedOrStale | ActivityCounterExhausted
  | ActivityBusy | QuiesceStale | ActiveNamespacePoisoned | CapturedNamespaceInactive

definition activity_default :: activity_state where
  "activity_default = \<lparr>act_lease = None, act_count = 0, act_quiescing = False, act_closed = False,
    act_poisoned = False\<rparr>"

definition prepare_activation :: "namespace_lease \<Rightarrow> activity_state \<Rightarrow> activity_error + namespace_lease" where
  "prepare_activation lease s =
    (if act_poisoned s then Inl ActivityPoisoned
     else if \<not> act_closed s \<and> act_lease s = None \<and> act_count s = 0 \<and> \<not> act_quiescing s then Inr lease
     else Inl ActivityCannotBePrepared)"

definition publish_prepared :: "namespace_lease \<Rightarrow> activity_state \<Rightarrow> activity_state" where
  "publish_prepared lease s =
    (let s = (if act_poisoned s then s\<lparr>act_closed := True\<rparr> else s) in
     if \<not> act_closed s then s\<lparr>act_lease := Some lease\<rparr> else s)"

definition begin_recovery_unit ::
  "namespace_lease \<Rightarrow> activity_state \<Rightarrow> (activity_error + namespace_lease) \<times> activity_state" where
  "begin_recovery_unit lease s =
    (if act_poisoned s then (Inl ActivityPoisoned, s)
     else if \<not> (\<not> act_closed s \<and> \<not> act_quiescing s \<and> act_lease s = Some lease) then (Inl ActivityClosedOrStale, s)
     else (case checked_add (act_count s) 1 of
             None \<Rightarrow> (Inl ActivityCounterExhausted, s\<lparr>act_closed := True\<rparr>)
           | Some count \<Rightarrow> (Inr lease, s\<lparr>act_count := count\<rparr>)))"

definition try_quiesce ::
  "namespace_lease \<Rightarrow> activity_state \<Rightarrow> (activity_error + namespace_lease) \<times> activity_state" where
  "try_quiesce lease s =
    (if act_poisoned s then (Inl ActivityPoisoned, s)
     else if \<not> act_closed s \<and> \<not> act_quiescing s \<and> act_count s = 0 \<and> act_lease s = Some lease
       then (Inr lease, s\<lparr>act_quiescing := True\<rparr>)
     else (Inl ActivityBusy, s))"

text \<open>
  \<open>begin_quiesce\<close> marks the gate and then waits: \<open>begin_quiesce_enter\<close> is the part up to the
  loop, \<open>quiesce_wake\<close> one look at the counter (\<open>None\<close>: wait again).
\<close>

definition begin_quiesce_enter ::
  "namespace_lease \<Rightarrow> activity_state \<Rightarrow> (activity_error + unit) \<times> activity_state" where
  "begin_quiesce_enter lease s =
    (if act_poisoned s then (Inl ActivityPoisoned, s)
     else if \<not> act_closed s \<and> \<not> act_quiescing s \<and> act_lease s = Some lease
       then (Inr (), s\<lparr>act_quiescing := True\<rparr>)
     else (Inl QuiesceStale, s))"

definition quiesce_wake :: "namespace_lease \<Rightarrow> activity_state \<Rightarrow> (activity_error + namespace_lease) option" where
  "quiesce_wake lease s =
    (if act_poisoned s then Some (Inl ActivityPoisoned)
     else if act_count s \<noteq> 0 then None
     else Some (Inr lease))"

definition is_quiescing :: "namespace_lease \<Rightarrow> activity_state \<Rightarrow> bool" where
  "is_quiescing lease s = (act_poisoned s \<or> act_closed s \<or> act_quiescing s \<or> act_lease s \<noteq> Some lease)"

definition activity_permit_drop :: "namespace_lease \<Rightarrow> activity_state \<Rightarrow> activity_state" where
  "activity_permit_drop lease s =
    (if act_lease s = Some lease then s\<lparr>act_count := saturating_sub (act_count s) 1\<rparr> else s)"

definition quiesced_retire :: "namespace_lease \<Rightarrow> activity_state \<Rightarrow> activity_state" where
  "quiesced_retire lease s =
    (if act_lease s = Some lease then s\<lparr>act_lease := None, act_quiescing := False\<rparr> else s)"

definition quiesced_drop :: "namespace_lease \<Rightarrow> activity_state \<Rightarrow> activity_state" where
  "quiesced_drop lease s =
    (if \<not> act_closed s \<and> act_lease s = Some lease then s\<lparr>act_quiescing := False\<rparr> else s)"

text \<open>
  \<open>UserWorkAdmission::begin\<close>: a session scope alone admits no work, the published namespace must
  agree with it. \<open>active\<close> is \<open>None\<close> when its mutex is poisoned.
\<close>

definition user_work_begin ::
  "namespace_lease option option \<Rightarrow> session_scope \<Rightarrow> activity_state
    \<Rightarrow> (activity_error + namespace_lease) \<times> activity_state" where
  "user_work_begin active scope s =
    (case active of
       None \<Rightarrow> (Inl ActiveNamespacePoisoned, s)
     | Some lease_slot \<Rightarrow>
         (case lease_slot of
            Some lease \<Rightarrow>
              if lease_auth_epoch lease = scope_auth_epoch scope \<and> lease_user lease = scope_owner_user_id scope
              then begin_recovery_unit lease s
              else (Inl CapturedNamespaceInactive, s)
          | None \<Rightarrow> (Inl CapturedNamespaceInactive, s)))"

section \<open>The gate counts the permits of the published lease\<close>

definition act_count_of :: "namespace_lease \<Rightarrow> activity_state \<Rightarrow> nat" where
  "act_count_of lease s = (if act_lease s = Some lease then unat (act_count s) else 0)"

definition activity_admit :: "namespace_lease \<Rightarrow> activity_state \<Rightarrow> activity_state option" where
  "activity_admit lease s = (case begin_recovery_unit lease s of (Inr _, t) \<Rightarrow> Some t | (Inl _, _) \<Rightarrow> None)"

lemma begin_recovery_unit_ok:
  assumes "begin_recovery_unit lease s = (Inr l, t)"
  shows "l = lease" "act_lease s = Some lease" "\<not> act_quiescing s" "\<not> act_closed s"
    "act_lease t = act_lease s" "act_quiescing t = act_quiescing s" "unat (act_count t) = Suc (unat (act_count s))"
  using assms checked_add_one_SomeD [of "act_count s" "act_count t"]
  by (auto simp: begin_recovery_unit_def split: if_splits option.splits)

lemma begin_recovery_unit_err:
  assumes "begin_recovery_unit lease s = (Inl e, t)"
  shows "act_lease t = act_lease s" "act_quiescing t = act_quiescing s" "act_count t = act_count s"
  using assms by (auto simp: begin_recovery_unit_def split: if_splits option.splits)

interpretation activity: permit_gate activity_admit activity_permit_drop act_count_of
proof unfold_locales
  fix k s t
  assume "activity_admit k s = Some t"
  then obtain l where "begin_recovery_unit k s = (Inr l, t)"
    by (auto simp: activity_admit_def split: prod.splits sum.splits)
  note b = begin_recovery_unit_ok [OF this]
  show "act_count_of k t = Suc (act_count_of k s) \<and> (\<forall>j. j \<noteq> k \<longrightarrow> act_count_of j t = act_count_of j s)"
    using b by (auto simp: act_count_of_def)
next
  fix k s
  assume "0 < act_count_of k s"
  then show "act_count_of k (activity_permit_drop k s) = act_count_of k s - 1
      \<and> (\<forall>j. j \<noteq> k \<longrightarrow> act_count_of j (activity_permit_drop k s) = act_count_of j s)"
    by (auto simp: act_count_of_def activity_permit_drop_def saturating_sub_one split: if_splits)
qed

section \<open>All threads\<close>

text \<open>
  The tickets, permits, quiesced handles, waiting quiescers and prepared bindings that are alive.
  A binding is prepared and published by the holder of a transition ticket, one per ticket, and
  the ticket outlives it (\<open>prepare_activation_with_cover\<close> runs under the worker's ticket).
\<close>

record activity_system =
  as_admission :: transition_admission
  as_tickets :: "u64 list"
  as_gate :: activity_state
  as_permits :: "namespace_lease list"
  as_waiting :: "namespace_lease list"
  as_quiesced :: "namespace_lease list"
  as_prepared :: "(u64 \<times> namespace_lease) option"

definition activity_start :: activity_system where
  "activity_start = \<lparr>as_admission = admission_default, as_tickets = [], as_gate = activity_default,
    as_permits = [], as_waiting = [], as_quiesced = [], as_prepared = None\<rparr>"

inductive activity_step :: "activity_system \<Rightarrow> activity_system \<Rightarrow> bool" where
  ticket_begin: "admission_begin (as_admission y) = (Inr i, adm) \<Longrightarrow>
    activity_step y (y\<lparr>as_admission := adm, as_tickets := i # as_tickets y\<rparr>)"
| ticket_refused: "admission_begin (as_admission y) = (Inl e, adm) \<Longrightarrow>
    activity_step y (y\<lparr>as_admission := adm\<rparr>)"
| ticket_end: "i \<in> set (as_tickets y) \<Longrightarrow> as_prepared y = None \<or> (\<exists>l j. as_prepared y = Some (j, l) \<and> j \<noteq> i) \<Longrightarrow>
    activity_step y (y\<lparr>as_admission := ticket_drop i (as_admission y), as_tickets := remove1 i (as_tickets y)\<rparr>)"
| admission_close: "activity_step y (y\<lparr>as_admission := (as_admission y)\<lparr>adm_closed := True\<rparr>\<rparr>)"
| admission_poison: "activity_step y (y\<lparr>as_admission := (as_admission y)\<lparr>adm_poisoned := True\<rparr>\<rparr>)"
| prepare: "i \<in> set (as_tickets y) \<Longrightarrow> (\<forall>l. as_prepared y \<noteq> Some (i, l)) \<Longrightarrow>
    prepare_activation lease (as_gate y) = Inr lease \<Longrightarrow>
    activity_step y (y\<lparr>as_prepared := Some (i, lease)\<rparr>)"
| discard: "activity_step y (y\<lparr>as_prepared := None\<rparr>)"
| publish: "as_prepared y = Some (i, lease) \<Longrightarrow>
    activity_step y (y\<lparr>as_gate := publish_prepared lease (as_gate y), as_prepared := None\<rparr>)"
| permit_begin: "begin_recovery_unit lease (as_gate y) = (Inr lease, g) \<Longrightarrow>
    activity_step y (y\<lparr>as_gate := g, as_permits := lease # as_permits y\<rparr>)"
| permit_refused: "begin_recovery_unit lease (as_gate y) = (Inl e, g) \<Longrightarrow>
    activity_step y (y\<lparr>as_gate := g\<rparr>)"
| permit_end: "lease \<in> set (as_permits y) \<Longrightarrow>
    activity_step y (y\<lparr>as_gate := activity_permit_drop lease (as_gate y), as_permits := remove1 lease (as_permits y)\<rparr>)"
| quiesce_try: "try_quiesce lease (as_gate y) = (Inr lease, g) \<Longrightarrow>
    activity_step y (y\<lparr>as_gate := g, as_quiesced := lease # as_quiesced y\<rparr>)"
| quiesce_enter: "begin_quiesce_enter lease (as_gate y) = (Inr (), g) \<Longrightarrow>
    activity_step y (y\<lparr>as_gate := g, as_waiting := lease # as_waiting y\<rparr>)"
| quiesce_done: "lease \<in> set (as_waiting y) \<Longrightarrow> quiesce_wake lease (as_gate y) = Some (Inr lease) \<Longrightarrow>
    activity_step y (y\<lparr>as_waiting := remove1 lease (as_waiting y), as_quiesced := lease # as_quiesced y\<rparr>)"
| quiesce_abort: "lease \<in> set (as_waiting y) \<Longrightarrow> quiesce_wake lease (as_gate y) = Some (Inl e) \<Longrightarrow>
    activity_step y (y\<lparr>as_waiting := remove1 lease (as_waiting y)\<rparr>)"
| quiesced_retired: "lease \<in> set (as_quiesced y) \<Longrightarrow>
    activity_step y (y\<lparr>as_gate := quiesced_retire lease (as_gate y), as_quiesced := remove1 lease (as_quiesced y)\<rparr>)"
| quiesced_dropped: "lease \<in> set (as_quiesced y) \<Longrightarrow>
    activity_step y (y\<lparr>as_gate := quiesced_drop lease (as_gate y), as_quiesced := remove1 lease (as_quiesced y)\<rparr>)"
| gate_poison: "activity_step y (y\<lparr>as_gate := (as_gate y)\<lparr>act_poisoned := True\<rparr>\<rparr>)"

section \<open>Invariant\<close>

definition tickets_ok :: "activity_system \<Rightarrow> bool" where
  "tickets_ok y = (distinct (as_tickets y) \<and> set (as_tickets y) = set_option (adm_active (as_admission y)))"

definition handles_ok :: "activity_system \<Rightarrow> bool" where
  "handles_ok y =
    (let g = as_gate y; hs = as_quiesced y @ as_waiting y in
     length hs \<le> 1
     \<and> (hs \<noteq> [] \<longrightarrow> act_quiescing g \<and> act_lease g = Some (hd hs))
     \<and> (as_quiesced y \<noteq> [] \<longrightarrow> act_count g = 0)
     \<and> (act_lease g = None \<longrightarrow> act_count g = 0)
     \<and> (case as_prepared y of None \<Rightarrow> True
        | Some (i, _) \<Rightarrow> i \<in> set (as_tickets y) \<and> act_lease g = None \<and> hs = []))"

definition permits_ok :: "activity_system \<Rightarrow> bool" where
  "permits_ok y = (\<forall>lease. act_count_of lease (as_gate y) = count_list (as_permits y) lease)"

definition activity_inv :: "activity_system \<Rightarrow> bool" where
  "activity_inv y = (tickets_ok y \<and> handles_ok y \<and> permits_ok y)"

lemma tickets_ok_step:
  assumes "activity_step y z" and "tickets_ok y"
  shows "tickets_ok z"
  using assms
proof cases
  case (ticket_begin i adm)
  with assms(2) admission_begin_ok [of "as_admission y" i adm] show ?thesis by (auto simp: tickets_ok_def)
next
  case (ticket_refused e adm)
  with assms(2) admission_begin_err [of "as_admission y" e adm] show ?thesis by (auto simp: tickets_ok_def)
next
  case (ticket_end i)
  then have "adm_active (as_admission y) = Some i" using assms(2) by (auto simp: tickets_ok_def)
  with ticket_end assms(2) show ?thesis by (auto simp: tickets_ok_def)
qed (auto simp: tickets_ok_def)

lemmas activity_ops =
  prepare_activation_def publish_prepared_def try_quiesce_def begin_quiesce_enter_def quiesce_wake_def
  activity_permit_drop_def quiesced_retire_def quiesced_drop_def Let_def

lemma single_mem: "length xs \<le> 1 \<Longrightarrow> x \<in> set xs \<Longrightarrow> xs = [x]"
  by (cases xs) auto

lemma saturating_zero: "saturating_sub 0 (1::'a::len word) = 0"
  by (simp add: saturating_sub_def)

lemma handles_quiesced:
  "handles_ok y \<Longrightarrow> lease \<in> set (as_quiesced y) \<Longrightarrow>
    as_quiesced y = [lease] \<and> as_waiting y = [] \<and> act_lease (as_gate y) = Some lease
    \<and> act_quiescing (as_gate y) \<and> act_count (as_gate y) = 0"
  using single_mem [of "as_quiesced y" lease] by (auto simp: handles_ok_def Let_def)

lemma handles_waiting:
  "handles_ok y \<Longrightarrow> lease \<in> set (as_waiting y) \<Longrightarrow>
    as_quiesced y = [] \<and> as_waiting y = [lease] \<and> act_lease (as_gate y) = Some lease \<and> act_quiescing (as_gate y)"
  using single_mem [of "as_waiting y" lease] by (auto simp: handles_ok_def Let_def)

lemma handles_idle:
  "handles_ok y \<Longrightarrow> \<not> act_quiescing (as_gate y) \<Longrightarrow> as_quiesced y = [] \<and> as_waiting y = []"
  by (auto simp: handles_ok_def Let_def)

lemma handles_ok_step:
  assumes "activity_step y z" and "handles_ok y" and "tickets_ok y"
  shows "handles_ok z"
  using assms(1)
proof cases
  case (permit_begin lease g)
  with begin_recovery_unit_ok [OF permit_begin(2)] handles_idle [OF assms(2)] assms(2)
  show ?thesis by (auto simp: handles_ok_def Let_def split: option.splits)
next
  case (permit_refused lease e g)
  with begin_recovery_unit_err [OF permit_refused(2)] assms(2) show ?thesis
    by (auto simp: handles_ok_def Let_def split: option.splits)
next
  case (quiesced_retired lease)
  with handles_quiesced [OF assms(2), of lease] assms(2) show ?thesis
    by (auto simp: handles_ok_def activity_ops split: option.splits)
next
  case (quiesced_dropped lease)
  with handles_quiesced [OF assms(2), of lease] assms(2) show ?thesis
    by (auto simp: handles_ok_def activity_ops split: option.splits)
next
  case (quiesce_try lease g)
  then have "g = (as_gate y)\<lparr>act_quiescing := True\<rparr>" "\<not> act_quiescing (as_gate y)"
    "act_count (as_gate y) = 0" "act_lease (as_gate y) = Some lease"
    by (auto simp: try_quiesce_def split: if_splits)
  with quiesce_try(1) handles_idle [OF assms(2)] assms(2) show ?thesis
    by (auto simp: handles_ok_def Let_def split: option.splits)
next
  case (quiesce_enter lease g)
  then have "g = (as_gate y)\<lparr>act_quiescing := True\<rparr>" "\<not> act_quiescing (as_gate y)"
    "act_lease (as_gate y) = Some lease"
    by (auto simp: begin_quiesce_enter_def split: if_splits)
  with quiesce_enter(1) handles_idle [OF assms(2)] assms(2) show ?thesis
    by (auto simp: handles_ok_def Let_def split: option.splits)
next
  case (quiesce_done lease)
  then have "act_count (as_gate y) = 0" by (auto simp: quiesce_wake_def split: if_splits)
  with quiesce_done(1) handles_waiting [OF assms(2) quiesce_done(2)] assms(2) show ?thesis
    by (auto simp: handles_ok_def Let_def split: option.splits)
next
  case (quiesce_abort lease e)
  with handles_waiting [OF assms(2), of lease] assms(2) show ?thesis
    by (auto simp: handles_ok_def activity_ops split: option.splits if_splits)
next
  case (prepare i lease)
  then have "\<not> act_quiescing (as_gate y)" "act_lease (as_gate y) = None" "act_count (as_gate y) = 0"
    by (auto simp: prepare_activation_def split: if_splits)
  with prepare handles_idle [OF assms(2)] show ?thesis by (simp add: handles_ok_def Let_def)
next
  case (ticket_end i)
  with assms(2,3) show ?thesis by (auto simp: handles_ok_def tickets_ok_def Let_def split: option.splits)
qed (use assms(2) in \<open>auto simp: handles_ok_def activity_ops saturating_zero split: option.splits\<close>)

lemma permits_ok_empty: "permits_ok y \<Longrightarrow> act_count (as_gate y) = 0 \<Longrightarrow> as_permits y = []"
  by (cases "as_permits y") (auto simp: permits_ok_def act_count_of_def split: if_splits dest: spec [of _ "hd (as_permits y)"])

lemma permits_ok_gate:
  assumes "permits_ok y" and "as_permits z = as_permits y"
    and "act_count (as_gate z) = act_count (as_gate y)"
    and "act_count (as_gate y) = 0 \<or> act_lease (as_gate z) = act_lease (as_gate y)"
  shows "permits_ok z"
proof -
  have "act_count_of lease (as_gate z) = act_count_of lease (as_gate y)" for lease
    using assms(3,4) by (auto simp: act_count_of_def)
  with assms(1,2) show ?thesis by (simp add: permits_ok_def)
qed

lemma permits_ok_step:
  assumes "activity_step y z" and "handles_ok y" and "permits_ok y"
  shows "permits_ok z"
  using assms(1)
proof cases
  case (permit_begin lease g)
  then have "activity_admit lease (as_gate y) = Some g" by (simp add: activity_admit_def)
  with permit_begin assms(3) activity.admit_counted [of "as_gate y" "as_permits y" lease g] show ?thesis
    by (simp add: permits_ok_def)
next
  case (permit_refused lease e g)
  with begin_recovery_unit_err [OF permit_refused(2)] show ?thesis
    by (intro permits_ok_gate [OF assms(3)]) auto
next
  case (permit_end lease)
  with assms(3) activity.release_counted [of "as_gate y" "as_permits y" lease] show ?thesis
    by (simp add: permits_ok_def)
next
  case (publish i lease)
  then have "act_lease (as_gate y) = None" "act_count (as_gate y) = 0"
    using assms(2) by (auto simp: handles_ok_def Let_def)
  with publish show ?thesis
    by (intro permits_ok_gate [OF assms(3)]) (auto simp: activity_ops)
next
  case (quiesced_retired lease)
  with handles_quiesced [OF assms(2), of lease] show ?thesis
    by (intro permits_ok_gate [OF assms(3)]) (auto simp: activity_ops)
qed (use assms(3) in \<open>auto intro!: permits_ok_gate [OF assms(3)] simp: activity_ops split: if_splits\<close>)

lemma activity_inv_run:
  assumes "activity_step\<^sup>*\<^sup>* activity_start y"
  shows "activity_inv y"
proof (rule run_invariant [where I = activity_inv, OF assms])
  show "activity_inv activity_start"
    by (simp add: activity_inv_def activity_start_def tickets_ok_def handles_ok_def permits_ok_def
        act_count_of_def activity_default_def admission_default_def)
  show "\<And>s t. activity_step s t \<Longrightarrow> activity_inv s \<Longrightarrow> activity_inv t"
    using tickets_ok_step handles_ok_step permits_ok_step by (auto simp: activity_inv_def)
qed

text \<open>
  C14: a transition that has quiesced the gate is alone: in every interleaving, while a quiesced
  handle is alive no permit of any lease is alive, the handle's lease is the published one, no
  second handle exists and no new permit is granted.
\<close>

theorem quiesced_is_exclusive:
  assumes "activity_step\<^sup>*\<^sup>* activity_start y" and "lease \<in> set (as_quiesced y)"
  shows "as_permits y = [] \<and> act_lease (as_gate y) = Some lease
    \<and> as_quiesced y = [lease] \<and> as_waiting y = []
    \<and> is_err (fst (begin_recovery_unit other (as_gate y)))
    \<and> is_err (fst (user_work_begin active scope (as_gate y)))"
proof -
  have inv: "handles_ok y" "permits_ok y"
    using activity_inv_run [OF assms(1)] by (simp_all add: activity_inv_def)
  note h = handles_quiesced [OF inv(1) assms(2)]
  have refused: "is_err (fst (begin_recovery_unit l (as_gate y)))" for l
    using h by (simp add: begin_recovery_unit_def)
  with h permits_ok_empty [OF inv(2)] show ?thesis
    by (auto simp: user_work_begin_def split: option.splits)
qed

definition witness_lease :: namespace_lease where
  "witness_lease = \<lparr>lease_namespace = \<lparr>user_public_id = ''u'', ns_root = [''accounts'', ''u''], ns_mappings = []\<rparr>,
    lease_auth_epoch = 1, lease_namespace_epoch = 1\<rparr>"

definition witness_published :: activity_system where
  "witness_published = activity_start\<lparr>
     as_admission := \<lparr>adm_sequence = 1, adm_active = Some 1, adm_closed = False, adm_poisoned = False\<rparr>,
     as_tickets := [1], as_gate := activity_default\<lparr>act_lease := Some witness_lease\<rparr>\<rparr>"

definition witness_working :: activity_system where
  "witness_working = witness_published\<lparr>
     as_gate := activity_default\<lparr>act_lease := Some witness_lease, act_count := 1\<rparr>,
     as_permits := [witness_lease]\<rparr>"

definition witness_quiesced :: activity_system where
  "witness_quiesced = witness_published\<lparr>
     as_gate := activity_default\<lparr>act_lease := Some witness_lease, act_quiescing := True\<rparr>,
     as_quiesced := [witness_lease]\<rparr>"

lemma witness_published_reachable: "activity_step\<^sup>*\<^sup>* activity_start witness_published"
proof -
  let ?adm = "\<lparr>adm_sequence = 1, adm_active = Some 1, adm_closed = False, adm_poisoned = False\<rparr>"
  let ?a = "activity_start\<lparr>as_admission := ?adm, as_tickets := [1]\<rparr>"
  let ?b = "?a\<lparr>as_prepared := Some (1, witness_lease)\<rparr>"
  have "admission_begin (as_admission activity_start) = (Inr 1, ?adm)"
    by (simp add: admission_begin_def activity_start_def admission_default_def checked_add_def)
  from ticket_begin [OF this] have a: "activity_step activity_start ?a"
    by (simp add: activity_start_def)
  have b: "activity_step ?a ?b"
    by (rule prepare) (simp_all add: activity_start_def prepare_activation_def activity_default_def)
  have "as_prepared ?b = Some (1, witness_lease)" by simp
  from publish [OF this] have "activity_step ?b witness_published"
    by (simp add: witness_published_def publish_prepared_def activity_start_def activity_default_def)
  with a b show ?thesis by (meson converse_rtranclp_into_rtranclp r_into_rtranclp)
qed

lemma witness_working_reachable: "activity_step\<^sup>*\<^sup>* activity_start witness_working"
proof -
  have "begin_recovery_unit witness_lease (as_gate witness_published) =
      (Inr witness_lease, activity_default\<lparr>act_lease := Some witness_lease, act_count := 1\<rparr>)"
    by (simp add: begin_recovery_unit_def witness_published_def activity_default_def checked_add_def)
  from permit_begin [OF this] have "activity_step witness_published witness_working"
    by (simp add: witness_working_def witness_published_def activity_start_def)
  with witness_published_reachable show ?thesis by (rule rtranclp.rtrancl_into_rtrancl)
qed

lemma witness_quiesced_reachable: "activity_step\<^sup>*\<^sup>* activity_start witness_quiesced"
proof -
  have "try_quiesce witness_lease (as_gate witness_published) =
      (Inr witness_lease, activity_default\<lparr>act_lease := Some witness_lease, act_quiescing := True\<rparr>)"
    by (simp add: try_quiesce_def witness_published_def activity_default_def)
  from quiesce_try [OF this] have "activity_step witness_published witness_quiesced"
    by (simp add: witness_quiesced_def witness_published_def activity_start_def)
  with witness_published_reachable show ?thesis by (rule rtranclp.rtrancl_into_rtrancl)
qed

theorem quiesced_is_exclusive_witness:
  "is_err (fst (begin_recovery_unit witness_lease (as_gate witness_quiesced)))
   \<and> act_lease (as_gate witness_quiesced) = Some witness_lease"
proof -
  have "witness_lease \<in> set (as_quiesced witness_quiesced)" by (simp add: witness_quiesced_def)
  from quiesced_is_exclusive [OF witness_quiesced_reachable this, of witness_lease None undefined]
  show ?thesis by blast
qed

text \<open>
  Work never survives its account: every permit that is alive belongs to the lease that is
  published, the counter is exactly the number of live permits (so a quiescer waiting for zero
  waits for precisely these), and at most one transition ticket and one prepared binding exist,
  the binding only while nothing is published.
\<close>

theorem permits_of_published_lease:
  assumes "activity_step\<^sup>*\<^sup>* activity_start y" and "lease \<in> set (as_permits y)"
  shows "act_lease (as_gate y) = Some lease
    \<and> unat (act_count (as_gate y)) = length (as_permits y)
    \<and> as_prepared y = None \<and> as_quiesced y = [] \<and> length (as_tickets y) \<le> 1"
proof -
  have inv: "tickets_ok y" "handles_ok y" "permits_ok y"
    using activity_inv_run [OF assms(1)] by (simp_all add: activity_inv_def)
  have all: "act_lease (as_gate y) = Some l \<and> unat (act_count (as_gate y)) = count_list (as_permits y) l"
    if "l \<in> set (as_permits y)" for l
    using inv(3) count_list_0_iff [of "as_permits y" l] that
    by (auto simp: permits_ok_def act_count_of_def split: if_splits)
  from all [OF assms(2)] all have only: "set (as_permits y) \<subseteq> {lease}" by auto
  have "count_list xs l = length xs" if "set xs \<subseteq> {l}" for xs and l :: namespace_lease
    using that by (induction xs) auto
  with only all [OF assms(2)] have len: "unat (act_count (as_gate y)) = length (as_permits y)" by simp
  then have "act_count (as_gate y) \<noteq> 0" using assms(2) by auto
  moreover have "length (as_tickets y) \<le> 1"
    using inv(1) distinct_card [of "as_tickets y"] by (cases "adm_active (as_admission y)") (auto simp: tickets_ok_def)
  ultimately show ?thesis using inv(2) all [OF assms(2)] len
    by (auto simp: handles_ok_def Let_def split: option.splits)
qed

theorem permits_of_published_lease_witness:
  "act_lease (as_gate witness_working) = Some witness_lease"
proof -
  have "witness_lease \<in> set (as_permits witness_working)" by (simp add: witness_working_def)
  from permits_of_published_lease [OF witness_working_reachable this] show ?thesis by blast
qed

end
