(* ===== verification/Namespace_Gate.thy ===== *)
theory Namespace_Gate
  imports Namespace_Model
begin

text \<open>
  The namespace operation gate (\<open>NamespaceOperationGate\<close> in
  \<open>native-client/src/runtime/storage/user_namespace.rs\<close>): at most one operation or one transition
  at a time, waiting transitions block new operations, and a namespace is published only by the
  transition under which its storage was checked.
\<close>

section \<open>The gate\<close>

record namespace_gate =
  ng_sequence :: u64
  ng_active :: "namespace_lease option"
  ng_operation :: "u64 option"
  ng_transition :: "u64 option"
  ng_waiters :: usize
  ng_closed :: bool
  ng_poisoned :: bool

datatype gate_error =
    GatePoisoned | AdmissionClosed | AuthorityExhausted | OperationUnavailable | NamespaceBusy
  | WaiterCountExhausted | OperationExpired | NotUnpublished | ProofMismatch | RetirementMismatch
  | StorageMismatch | UnsupportedImports | RepairRequired

definition gate_default :: namespace_gate where
  "gate_default = \<lparr>ng_sequence = 0, ng_active = None, ng_operation = None, ng_transition = None,
    ng_waiters = 0, ng_closed = False, ng_poisoned = False\<rparr>"

definition gate_next :: "namespace_gate \<Rightarrow> (gate_error + u64) \<times> namespace_gate" where
  "gate_next s =
    (if ng_closed s then (Inl AdmissionClosed, s)
     else (case checked_add (ng_sequence s) 1 of
             Some i \<Rightarrow> (Inr i, s\<lparr>ng_sequence := i\<rparr>)
           | None \<Rightarrow> (Inl AuthorityExhausted, s\<lparr>ng_closed := True\<rparr>)))"

definition begin_operation :: "namespace_lease \<Rightarrow> namespace_gate \<Rightarrow> (gate_error + u64) \<times> namespace_gate" where
  "begin_operation lease s =
    (if ng_poisoned s then (Inl GatePoisoned, s)
     else if \<not> (ng_active s = Some lease \<and> ng_transition s = None \<and> ng_waiters s = 0 \<and> ng_operation s = None)
       then (Inl OperationUnavailable, s)
     else (case gate_next s of
             (Inl e, s') \<Rightarrow> (Inl e, s')
           | (Inr i, s') \<Rightarrow> (Inr i, s'\<lparr>ng_operation := Some i\<rparr>)))"

definition claim_transition :: "namespace_gate \<Rightarrow> (gate_error + u64) \<times> namespace_gate" where
  "claim_transition s =
    (case gate_next s of
       (Inl e, s') \<Rightarrow> (Inl e, s')
     | (Inr i, s') \<Rightarrow> (Inr i, s'\<lparr>ng_transition := Some i\<rparr>))"

definition try_begin_transition :: "namespace_gate \<Rightarrow> (gate_error + u64) \<times> namespace_gate" where
  "try_begin_transition s =
    (if ng_poisoned s then (Inl GatePoisoned, s)
     else if \<not> (ng_operation s = None \<and> ng_transition s = None \<and> ng_waiters s = 0) then (Inl NamespaceBusy, s)
     else claim_transition s)"

text \<open>
  \<open>begin_transition\<close> up to its loop, and one look at the gate by a waiting thread (\<open>None\<close>: it
  waits again). A waiter that finds the mutex poisoned leaves its count behind.
\<close>

definition begin_transition_enter :: "namespace_gate \<Rightarrow> (gate_error + unit) \<times> namespace_gate" where
  "begin_transition_enter s =
    (if ng_poisoned s then (Inl GatePoisoned, s)
     else (case checked_add (ng_waiters s) 1 of
             Some n \<Rightarrow> (Inr (), s\<lparr>ng_waiters := n\<rparr>)
           | None \<Rightarrow> (Inl WaiterCountExhausted, s\<lparr>ng_closed := True\<rparr>)))"

definition begin_transition_wake :: "namespace_gate \<Rightarrow> (gate_error + u64) option \<times> namespace_gate" where
  "begin_transition_wake s =
    (if ng_poisoned s then (Some (Inl GatePoisoned), s)
     else if ng_operation s \<noteq> None \<or> ng_transition s \<noteq> None then (None, s)
     else (case claim_transition (s\<lparr>ng_waiters := ng_waiters s - 1\<rparr>) of (r, s') \<Rightarrow> (Some r, s')))"

definition active_lease :: "namespace_gate \<Rightarrow> namespace_lease option" where
  "active_lease s = (if ng_poisoned s \<or> ng_closed s then None else ng_active s)"

definition operation_validate :: "u64 \<times> namespace_lease \<Rightarrow> namespace_gate \<Rightarrow> gate_error + unit" where
  "operation_validate guard s =
    (if ng_poisoned s then Inl GatePoisoned
     else ensure (\<not> ng_closed s \<and> ng_operation s = Some (fst guard) \<and> ng_active s = Some (snd guard)) OperationExpired)"

definition close_if_poisoned :: "namespace_gate \<Rightarrow> namespace_gate" where
  "close_if_poisoned s = (if ng_poisoned s then s\<lparr>ng_closed := True\<rparr> else s)"

definition operation_drop :: "u64 \<Rightarrow> namespace_gate \<Rightarrow> namespace_gate" where
  "operation_drop i s =
    (let s = close_if_poisoned s in if ng_operation s = Some i then s\<lparr>ng_operation := None\<rparr> else s)"

definition transition_drop :: "u64 \<Rightarrow> namespace_gate \<Rightarrow> namespace_gate" where
  "transition_drop i s =
    (let s = close_if_poisoned s in if ng_transition s = Some i then s\<lparr>ng_transition := None\<rparr> else s)"

section \<open>Recovery before publication\<close>

record recovery_authority =
  ra_transition :: u64
  ra_lease :: namespace_lease
  ra_checked :: bool

definition begin_prepublication_recovery ::
  "u64 \<Rightarrow> namespace_lease \<Rightarrow> namespace_gate \<Rightarrow> gate_error + recovery_authority" where
  "begin_prepublication_recovery i lease s =
    (if ng_poisoned s then Inl GatePoisoned
     else if \<not> ng_closed s \<and> ng_transition s = Some i \<and> ng_active s = None
       then Inr \<lparr>ra_transition = i, ra_lease = lease, ra_checked = False\<rparr>
     else Inl NotUnpublished)"

text \<open>
  \<open>absent\<close> stands for \<open>storage.verify_no_legacy_import_state()\<close>, which looks at the directories
  of the candidate.
\<close>

definition verify_no_unsupported_imports ::
  "namespace_lease \<Rightarrow> bool \<Rightarrow> recovery_authority \<Rightarrow> (gate_error + unit) \<times> recovery_authority" where
  "verify_no_unsupported_imports storage_lease absent r =
    (if storage_lease \<noteq> ra_lease r then (Inl StorageMismatch, r)
     else if \<not> absent then (Inl UnsupportedImports, r)
     else (Inr (), r\<lparr>ra_checked := True\<rparr>))"

definition recovery_finish :: "recovery_authority \<Rightarrow> gate_error + (u64 \<times> namespace_lease)" where
  "recovery_finish r =
    (if ra_checked r then Inr (ra_transition r, ra_lease r) else Inl RepairRequired)"

definition prepare_publication ::
  "u64 \<Rightarrow> namespace_lease \<Rightarrow> u64 \<times> namespace_lease \<Rightarrow> namespace_gate \<Rightarrow> gate_error + (u64 \<times> namespace_lease)" where
  "prepare_publication i lease recovered s =
    (if ng_poisoned s then Inl GatePoisoned
     else if \<not> ng_closed s \<and> ng_transition s = Some i \<and> ng_active s = None \<and> i = fst recovered \<and> lease = snd recovered
       then Inr (i, lease)
     else Inl ProofMismatch)"

text \<open>\<open>proof_lease\<close> is the lease of the flushed writer retirement, which the call consumes.\<close>

definition gate_retire_flushed :: "u64 \<Rightarrow> namespace_lease \<Rightarrow> namespace_gate \<Rightarrow> (gate_error + unit) \<times> namespace_gate" where
  "gate_retire_flushed i proof_lease s =
    (if ng_poisoned s then (Inl GatePoisoned, s)
     else if \<not> ng_closed s \<and> ng_transition s = Some i \<and> ng_active s = Some proof_lease
       then (Inr (), s\<lparr>ng_active := None\<rparr>)
     else (Inl RetirementMismatch, s))"

definition gate_publish :: "u64 \<times> namespace_lease \<Rightarrow> namespace_gate \<Rightarrow> namespace_gate" where
  "gate_publish prepared s =
    (let s = close_if_poisoned s;
         s = (if \<not> ng_closed s then s\<lparr>ng_active := Some (snd prepared)\<rparr> else s)
     in transition_drop (fst prepared) s)"

section \<open>The counter\<close>

lemma gate_next_ok:
  assumes "gate_next s = (Inr i, t)"
  shows "t = s\<lparr>ng_sequence := i\<rparr>" "unat i = Suc (unat (ng_sequence s))" "\<not> ng_closed s"
  using assms checked_add_one_SomeD [of "ng_sequence s" i]
  by (auto simp: gate_next_def split: if_splits option.splits)

lemma gate_next_err:
  assumes "gate_next s = (Inl e, t)"
  shows "t = s \<or> t = s\<lparr>ng_closed := True\<rparr>"
  using assms by (auto simp: gate_next_def split: if_splits option.splits)

interpretation gate_ids: counter_authority ng_sequence ng_closed gate_next
proof unfold_locales
  fix s i s'
  assume "gate_next s = (Inr i, s')"
  from gate_next_ok [OF this] show "ng_sequence s' = i \<and> unat i = Suc (unat (ng_sequence s)) \<and> \<not> ng_closed s"
    by simp
next
  fix s e s'
  assume "gate_next s = (Inl e, s')"
  from gate_next_err [OF this] show "ng_sequence s' = ng_sequence s" by auto
next
  fix s
  show "ng_closed s \<Longrightarrow> \<exists>e. gate_next s = (Inl e, s)" by (simp add: gate_next_def)
next
  fix s :: namespace_gate
  assume "ng_sequence s = - 1"
  then have "checked_add (ng_sequence s) 1 = None" by (simp add: checked_add_one_None_iff)
  then show "\<exists>e s'. gate_next s = (Inl e, s') \<and> ng_closed s'" by (auto simp: gate_next_def)
qed

section \<open>All threads\<close>

text \<open>
  The guards, authorities and proofs that are alive. A prepared publication owns its transition
  guard, so its identity stays in \<open>gs_transitions\<close> until it is published or dropped. The relation
  allows more than the ownership rules of the code do (a guard inside a prepared publication may
  still act), which only strengthens the invariant.
  \<open>gs_verified\<close> remembers, for the specification only, which transition checked which lease.
\<close>

record gate_system =
  gs_gate :: namespace_gate
  gs_operations :: "(u64 \<times> namespace_lease) list"
  gs_transitions :: "u64 list"
  gs_waiting :: nat
  gs_authorities :: "recovery_authority list"
  gs_proofs :: "(u64 \<times> namespace_lease) list"
  gs_prepared :: "(u64 \<times> namespace_lease) list"
  gs_verified :: "(u64 \<times> namespace_lease) list"

definition gate_start :: gate_system where
  "gate_start = \<lparr>gs_gate = gate_default, gs_operations = [], gs_transitions = [], gs_waiting = 0,
    gs_authorities = [], gs_proofs = [], gs_prepared = [], gs_verified = []\<rparr>"

inductive gate_step :: "gate_system \<Rightarrow> gate_system \<Rightarrow> bool" where
  operation_begins: "begin_operation lease (gs_gate y) = (Inr i, g) \<Longrightarrow>
    gate_step y (y\<lparr>gs_gate := g, gs_operations := (i, lease) # gs_operations y\<rparr>)"
| operation_refused: "begin_operation lease (gs_gate y) = (Inl e, g) \<Longrightarrow> gate_step y (y\<lparr>gs_gate := g\<rparr>)"
| operation_ends: "(i, lease) \<in> set (gs_operations y) \<Longrightarrow>
    gate_step y (y\<lparr>gs_gate := operation_drop i (gs_gate y), gs_operations := remove1 (i, lease) (gs_operations y)\<rparr>)"
| transition_tries: "try_begin_transition (gs_gate y) = (Inr i, g) \<Longrightarrow>
    gate_step y (y\<lparr>gs_gate := g, gs_transitions := i # gs_transitions y\<rparr>)"
| transition_refused: "try_begin_transition (gs_gate y) = (Inl e, g) \<Longrightarrow> gate_step y (y\<lparr>gs_gate := g\<rparr>)"
| transition_enters: "begin_transition_enter (gs_gate y) = (r, g) \<Longrightarrow>
    gate_step y (y\<lparr>gs_gate := g, gs_waiting := (if is_ok r then Suc (gs_waiting y) else gs_waiting y)\<rparr>)"
| transition_wakes: "0 < gs_waiting y \<Longrightarrow> begin_transition_wake (gs_gate y) = (Some (Inr i), g) \<Longrightarrow>
    gate_step y (y\<lparr>gs_gate := g, gs_transitions := i # gs_transitions y, gs_waiting := gs_waiting y - 1\<rparr>)"
| transition_wake_fails: "0 < gs_waiting y \<Longrightarrow> begin_transition_wake (gs_gate y) = (Some (Inl e), g) \<Longrightarrow>
    gate_step y (y\<lparr>gs_gate := g, gs_waiting := gs_waiting y - 1\<rparr>)"
| transition_ends: "i \<in> set (gs_transitions y) \<Longrightarrow>
    gate_step y (y\<lparr>gs_gate := transition_drop i (gs_gate y), gs_transitions := remove1 i (gs_transitions y),
      gs_prepared := [p \<leftarrow> gs_prepared y. fst p \<noteq> i]\<rparr>)"
| recovery_begins: "i \<in> set (gs_transitions y) \<Longrightarrow>
    begin_prepublication_recovery i lease (gs_gate y) = Inr a \<Longrightarrow>
    gate_step y (y\<lparr>gs_authorities := a # gs_authorities y\<rparr>)"
| recovery_checks: "a \<in> set (gs_authorities y) \<Longrightarrow>
    verify_no_unsupported_imports storage_lease absent a = (Inr (), b) \<Longrightarrow>
    gate_step y (y\<lparr>gs_authorities := b # remove1 a (gs_authorities y),
      gs_verified := (ra_transition a, storage_lease) # gs_verified y\<rparr>)"
| recovery_finishes: "a \<in> set (gs_authorities y) \<Longrightarrow> recovery_finish a = Inr p \<Longrightarrow>
    gate_step y (y\<lparr>gs_authorities := remove1 a (gs_authorities y), gs_proofs := p # gs_proofs y\<rparr>)"
| publication_prepared: "i \<in> set (gs_transitions y) \<Longrightarrow> p \<in> set (gs_proofs y) \<Longrightarrow>
    prepare_publication i lease p (gs_gate y) = Inr q \<Longrightarrow>
    gate_step y (y\<lparr>gs_proofs := remove1 p (gs_proofs y), gs_prepared := q # gs_prepared y\<rparr>)"
| publishes: "p \<in> set (gs_prepared y) \<Longrightarrow>
    gate_step y (y\<lparr>gs_gate := gate_publish p (gs_gate y), gs_prepared := [q \<leftarrow> gs_prepared y. fst q \<noteq> fst p],
      gs_transitions := remove1 (fst p) (gs_transitions y)\<rparr>)"
| retires: "i \<in> set (gs_transitions y) \<Longrightarrow> gate_retire_flushed i lease (gs_gate y) = (r, g) \<Longrightarrow>
    gate_step y (y\<lparr>gs_gate := g\<rparr>)"
| poisons: "gate_step y (y\<lparr>gs_gate := (gs_gate y)\<lparr>ng_poisoned := True\<rparr>\<rparr>)"

section \<open>Invariant\<close>

definition holders_ok :: "gate_system \<Rightarrow> bool" where
  "holders_ok y =
    (let g = gs_gate y in
     (case ng_operation g of
        None \<Rightarrow> gs_operations y = []
      | Some i \<Rightarrow> ng_transition g = None \<and> (\<exists>l. gs_operations y = [(i, l)] \<and> ng_active g = Some l))
     \<and> gs_transitions y = (case ng_transition g of None \<Rightarrow> [] | Some i \<Rightarrow> [i])
     \<and> (\<forall>p \<in> set (gs_prepared y). fst p \<in> set (gs_transitions y) \<and> ng_active g = None)
     \<and> gs_waiting y \<le> unat (ng_waiters g))"

definition proofs_ok :: "gate_system \<Rightarrow> bool" where
  "proofs_ok y =
    ((\<forall>a \<in> set (gs_authorities y). ra_checked a \<longrightarrow> (ra_transition a, ra_lease a) \<in> set (gs_verified y))
     \<and> set (gs_proofs y) \<subseteq> set (gs_verified y)
     \<and> set (gs_prepared y) \<subseteq> set (gs_verified y)
     \<and> (\<forall>l. ng_active (gs_gate y) = Some l \<longrightarrow> l \<in> snd ` set (gs_verified y)))"

lemma begin_operation_ok:
  assumes "begin_operation lease s = (Inr i, g)"
  shows "g = s\<lparr>ng_sequence := i, ng_operation := Some i\<rparr>" "ng_active s = Some lease"
    "ng_transition s = None" "ng_operation s = None" "ng_waiters s = 0"
  using assms gate_next_ok by (auto simp: begin_operation_def split: if_splits prod.splits sum.splits)

lemma begin_operation_err:
  assumes "begin_operation lease s = (Inl e, g)"
  shows "g = s \<or> g = s\<lparr>ng_closed := True\<rparr>"
  using assms gate_next_err by (auto simp: begin_operation_def split: if_splits prod.splits sum.splits)

lemma claim_transition_ok:
  assumes "claim_transition s = (Inr i, g)"
  shows "g = s\<lparr>ng_sequence := i, ng_transition := Some i\<rparr>"
  using assms gate_next_ok by (auto simp: claim_transition_def split: prod.splits sum.splits)

lemma claim_transition_err:
  assumes "claim_transition s = (Inl e, g)"
  shows "g = s \<or> g = s\<lparr>ng_closed := True\<rparr>"
  using assms gate_next_err by (auto simp: claim_transition_def split: prod.splits sum.splits)

lemma try_begin_transition_ok:
  assumes "try_begin_transition s = (Inr i, g)"
  shows "g = s\<lparr>ng_sequence := i, ng_transition := Some i\<rparr>" "ng_operation s = None" "ng_transition s = None"
  using assms claim_transition_ok by (auto simp: try_begin_transition_def split: if_splits)

lemma try_begin_transition_err:
  assumes "try_begin_transition s = (Inl e, g)"
  shows "g = s \<or> g = s\<lparr>ng_closed := True\<rparr>"
  using assms claim_transition_err by (auto simp: try_begin_transition_def split: if_splits)

lemma begin_transition_enter_cases:
  assumes "begin_transition_enter s = (r, g)"
  shows "(\<not> is_ok r \<and> (g = s \<or> g = s\<lparr>ng_closed := True\<rparr>))
    \<or> (is_ok r \<and> (\<exists>n. g = s\<lparr>ng_waiters := n\<rparr> \<and> unat n = Suc (unat (ng_waiters s))))"
  using assms checked_add_one_SomeD [of "ng_waiters s"]
  by (auto simp: begin_transition_enter_def split: if_splits option.splits)

lemma begin_transition_wake_ok:
  assumes "begin_transition_wake s = (Some (Inr i), g)"
  shows "g = s\<lparr>ng_waiters := ng_waiters s - 1, ng_sequence := i, ng_transition := Some i\<rparr>"
    "ng_operation s = None" "ng_transition s = None"
  using assms claim_transition_ok [of "s\<lparr>ng_waiters := ng_waiters s - 1\<rparr>" i g]
  by (auto simp: begin_transition_wake_def split: if_splits prod.splits)

lemma begin_transition_wake_err:
  assumes "begin_transition_wake s = (Some (Inl e), g)"
  shows "g = s \<or> (\<exists>c. g = s\<lparr>ng_waiters := ng_waiters s - 1, ng_closed := c\<rparr>)"
  using assms claim_transition_err [of "s\<lparr>ng_waiters := ng_waiters s - 1\<rparr>" e g]
  by (auto simp: begin_transition_wake_def split: if_splits prod.splits)
    (metis namespace_gate.surjective namespace_gate.update_convs(6))

lemma unat_waiters_less: "0 < n \<Longrightarrow> n \<le> unat w \<Longrightarrow> n - 1 \<le> unat (w - 1 :: usize)"
  by (cases "w = 0") (auto simp: unat_diff_one)

lemma drop_simps [simp]:
  "ng_active (operation_drop i s) = ng_active s" "ng_waiters (operation_drop i s) = ng_waiters s"
  "ng_transition (operation_drop i s) = ng_transition s"
  "ng_operation (operation_drop i s) = (if ng_operation s = Some i then None else ng_operation s)"
  "ng_active (transition_drop i s) = ng_active s" "ng_waiters (transition_drop i s) = ng_waiters s"
  "ng_operation (transition_drop i s) = ng_operation s"
  "ng_transition (transition_drop i s) = (if ng_transition s = Some i then None else ng_transition s)"
  by (auto simp: operation_drop_def transition_drop_def close_if_poisoned_def Let_def)

lemma gate_publish_simps [simp]:
  "ng_waiters (gate_publish p s) = ng_waiters s" "ng_operation (gate_publish p s) = ng_operation s"
  "ng_transition (gate_publish p s) = (if ng_transition s = Some (fst p) then None else ng_transition s)"
  "ng_active (gate_publish p s) = (if ng_poisoned s \<or> ng_closed s then ng_active s else Some (snd p))"
  by (auto simp: gate_publish_def close_if_poisoned_def Let_def)

lemma gate_retire_flushed_cases:
  assumes "gate_retire_flushed i lease s = (r, g)"
  shows "g = s \<or> (g = s\<lparr>ng_active := None\<rparr> \<and> ng_transition s = Some i)"
  using assms by (auto simp: gate_retire_flushed_def split: if_splits)

lemma holders_ok_update:
  assumes "holders_ok y" and "gs_operations z = gs_operations y" "gs_transitions z = gs_transitions y"
    "set (gs_prepared z) \<subseteq> set (gs_prepared y)" "gs_waiting z = gs_waiting y"
    and "ng_operation (gs_gate z) = ng_operation (gs_gate y)" "ng_transition (gs_gate z) = ng_transition (gs_gate y)"
    "ng_waiters (gs_gate z) = ng_waiters (gs_gate y)" "ng_active (gs_gate z) = ng_active (gs_gate y)"
  shows "holders_ok z"
  using assms by (auto simp: holders_ok_def Let_def split: option.splits)

lemma holders_ok_step:
  assumes "gate_step y z" and "holders_ok y"
  shows "holders_ok z"
  using assms(1)
proof cases
  case (operation_begins lease i g)
  with begin_operation_ok [OF operation_begins(2)] assms(2) show ?thesis
    by (auto simp: holders_ok_def Let_def)
next
  case (operation_refused lease e g)
  with begin_operation_err [OF operation_refused(2)] show ?thesis
    by (intro holders_ok_update [OF assms(2)]) auto
next
  case (operation_ends i lease)
  with assms(2) show ?thesis by (auto simp: holders_ok_def Let_def split: option.splits)
next
  case (transition_tries i g)
  with try_begin_transition_ok [OF transition_tries(2)] assms(2) show ?thesis
    by (auto simp: holders_ok_def Let_def)
next
  case (transition_refused e g)
  with try_begin_transition_err [OF transition_refused(2)] show ?thesis
    by (intro holders_ok_update [OF assms(2)]) auto
next
  case (transition_enters r g)
  with begin_transition_enter_cases [OF transition_enters(2)] assms(2) show ?thesis
    by (auto simp: holders_ok_def Let_def split: option.splits)
next
  case (transition_wakes i g)
  with begin_transition_wake_ok [OF transition_wakes(3)] assms(2)
    unat_waiters_less [of "gs_waiting y" "ng_waiters (gs_gate y)"] show ?thesis
    by (auto simp: holders_ok_def Let_def split: option.splits)
next
  case (transition_wake_fails e g)
  with begin_transition_wake_err [OF transition_wake_fails(3)] assms(2)
    unat_waiters_less [of "gs_waiting y" "ng_waiters (gs_gate y)"] show ?thesis
    by (auto simp: holders_ok_def Let_def split: option.splits)
next
  case (transition_ends i)
  with assms(2) show ?thesis by (auto simp: holders_ok_def Let_def split: option.splits)
next
  case (publication_prepared i p lease q)
  with assms(2) show ?thesis
    by (auto simp: holders_ok_def Let_def prepare_publication_def split: option.splits if_splits)
next
  case (publishes p)
  with assms(2) show ?thesis
    by (auto simp: holders_ok_def Let_def split: option.splits dest: notin_set_remove1)
next
  case (retires i lease r g)
  with gate_retire_flushed_cases [OF retires(3)] assms(2) show ?thesis
    by (auto simp: holders_ok_def Let_def split: option.splits)
qed (auto intro!: holders_ok_update [OF assms(2)])

lemma proofs_ok_step:
  assumes "gate_step y z" and "proofs_ok y"
  shows "proofs_ok z"
  using assms(1)
proof cases
  case (operation_begins lease i g)
  with begin_operation_ok [OF operation_begins(2)] assms(2) show ?thesis by (auto simp: proofs_ok_def)
next
  case (operation_refused lease e g)
  with begin_operation_err [OF operation_refused(2)] assms(2) show ?thesis by (auto simp: proofs_ok_def)
next
  case (transition_tries i g)
  with try_begin_transition_ok [OF transition_tries(2)] assms(2) show ?thesis by (auto simp: proofs_ok_def)
next
  case (transition_refused e g)
  with try_begin_transition_err [OF transition_refused(2)] assms(2) show ?thesis by (auto simp: proofs_ok_def)
next
  case (transition_enters r g)
  with begin_transition_enter_cases [OF transition_enters(2)] assms(2) show ?thesis by (auto simp: proofs_ok_def)
next
  case (transition_wakes i g)
  with begin_transition_wake_ok [OF transition_wakes(3)] assms(2) show ?thesis by (auto simp: proofs_ok_def)
next
  case (transition_wake_fails e g)
  with begin_transition_wake_err [OF transition_wake_fails(3)] assms(2) show ?thesis by (auto simp: proofs_ok_def)
next
  case (recovery_begins i lease a)
  with assms(2) show ?thesis
    by (auto simp: proofs_ok_def begin_prepublication_recovery_def split: if_splits)
next
  case (recovery_checks a storage_lease absent b)
  then have "b = a\<lparr>ra_checked := True\<rparr>" "storage_lease = ra_lease a"
    by (auto simp: verify_no_unsupported_imports_def split: if_splits)
  with recovery_checks assms(2) show ?thesis by (auto simp: proofs_ok_def dest: notin_set_remove1)
next
  case (recovery_finishes a p)
  with assms(2) show ?thesis
    by (auto simp: proofs_ok_def recovery_finish_def split: if_splits dest: notin_set_remove1)
next
  case (publication_prepared i p lease q)
  then have "q = p" by (auto simp: prepare_publication_def split: if_splits)
  with publication_prepared assms(2) show ?thesis by (auto simp: proofs_ok_def dest: notin_set_remove1)
next
  case (publishes p)
  with assms(2) show ?thesis by (auto simp: proofs_ok_def dest: notin_set_remove1)
next
  case (retires i lease r g)
  with gate_retire_flushed_cases [OF retires(3)] assms(2) show ?thesis by (auto simp: proofs_ok_def)
qed (use assms(2) in \<open>auto simp: proofs_ok_def\<close>)

lemma gate_inv_run:
  assumes "gate_step\<^sup>*\<^sup>* gate_start y"
  shows "holders_ok y \<and> proofs_ok y"
proof (rule run_invariant [where I = "\<lambda>y. holders_ok y \<and> proofs_ok y", OF assms])
  show "holders_ok gate_start \<and> proofs_ok gate_start"
    by (simp add: gate_start_def holders_ok_def proofs_ok_def gate_default_def)
qed (blast intro: holders_ok_step proofs_ok_step)

text \<open>
  C16: operations and transitions exclude each other in every interleaving: while an operation
  guard is alive no transition guard and no second operation guard exists, the guard's lease is
  the active one, nobody else can begin an operation or try a transition, and its validation
  succeeds unless the gate was closed or poisoned. A waiting transition blocks every new operation.
\<close>

theorem operation_excludes_transition:
  assumes "gate_step\<^sup>*\<^sup>* gate_start y" and "(i, lease) \<in> set (gs_operations y)"
  shows "gs_transitions y = [] \<and> gs_operations y = [(i, lease)] \<and> ng_active (gs_gate y) = Some lease
    \<and> is_err (fst (begin_operation other (gs_gate y)))
    \<and> is_err (fst (try_begin_transition (gs_gate y)))
    \<and> (\<not> ng_poisoned (gs_gate y) \<longrightarrow> fst (begin_transition_wake (gs_gate y)) = None)
    \<and> (\<not> ng_poisoned (gs_gate y) \<longrightarrow> \<not> ng_closed (gs_gate y) \<longrightarrow>
         operation_validate (i, lease) (gs_gate y) = Inr ())
    \<and> (0 < gs_waiting y \<longrightarrow>
         is_err (fst (begin_operation other (operation_drop i (gs_gate y)))))"
  using gate_inv_run [OF assms(1)] assms(2)
  by (auto simp: holders_ok_def Let_def begin_operation_def try_begin_transition_def begin_transition_wake_def
      operation_validate_def split: option.splits)

definition witness_candidate :: namespace_lease where
  "witness_candidate = \<lparr>lease_namespace = \<lparr>user_public_id = ''u'', ns_root = [''accounts'', ''u''], ns_mappings = []\<rparr>,
    lease_auth_epoch = 1, lease_namespace_epoch = 1\<rparr>"

definition witness_prepared :: gate_system where
  "witness_prepared = gate_start\<lparr>gs_gate := gate_default\<lparr>ng_sequence := 1, ng_transition := Some 1\<rparr>,
     gs_transitions := [1], gs_prepared := [(1, witness_candidate)], gs_verified := [(1, witness_candidate)]\<rparr>"

definition witness_active :: gate_system where
  "witness_active = gate_start\<lparr>gs_gate := gate_default\<lparr>ng_sequence := 1, ng_active := Some witness_candidate\<rparr>,
     gs_verified := [(1, witness_candidate)]\<rparr>"

definition witness_operating :: gate_system where
  "witness_operating = witness_active\<lparr>gs_gate := gate_default\<lparr>ng_sequence := 2,
     ng_active := Some witness_candidate, ng_operation := Some 2\<rparr>, gs_operations := [(2, witness_candidate)]\<rparr>"

lemma witness_prepared_reachable: "gate_step\<^sup>*\<^sup>* gate_start witness_prepared"
proof -
  let ?g = "gate_default\<lparr>ng_sequence := 1, ng_transition := Some 1\<rparr>"
  let ?a = "gate_start\<lparr>gs_gate := ?g, gs_transitions := [1]\<rparr>"
  let ?u = "\<lparr>ra_transition = 1, ra_lease = witness_candidate, ra_checked = False\<rparr>"
  let ?b = "?a\<lparr>gs_authorities := [?u]\<rparr>"
  let ?c = "?a\<lparr>gs_authorities := [?u\<lparr>ra_checked := True\<rparr>], gs_verified := [(1, witness_candidate)]\<rparr>"
  let ?d = "?a\<lparr>gs_proofs := [(1, witness_candidate)], gs_verified := [(1, witness_candidate)]\<rparr>"
  have "try_begin_transition (gs_gate gate_start) = (Inr 1, ?g)"
    by (simp add: try_begin_transition_def claim_transition_def gate_next_def gate_start_def gate_default_def checked_add_def)
  from transition_tries [OF this] have a: "gate_step gate_start ?a" by (simp add: gate_start_def)
  have "begin_prepublication_recovery 1 witness_candidate (gs_gate ?a) = Inr ?u"
    by (simp add: begin_prepublication_recovery_def gate_default_def)
  from recovery_begins [of 1 ?a, OF _ this] have b: "gate_step ?a ?b" by (simp add: gate_start_def)
  have "verify_no_unsupported_imports witness_candidate True ?u = (Inr (), ?u\<lparr>ra_checked := True\<rparr>)"
    by (simp add: verify_no_unsupported_imports_def)
  from recovery_checks [of ?u ?b, OF _ this] have c: "gate_step ?b ?c" by (simp add: gate_start_def)
  have "recovery_finish (?u\<lparr>ra_checked := True\<rparr>) = Inr (1, witness_candidate)"
    by (simp add: recovery_finish_def)
  from recovery_finishes [of _ ?c, OF _ this] have d: "gate_step ?c ?d" by (simp add: gate_start_def)
  have "prepare_publication 1 witness_candidate (1, witness_candidate) (gs_gate ?d) = Inr (1, witness_candidate)"
    by (simp add: prepare_publication_def gate_default_def)
  from publication_prepared [of 1 ?d, OF _ _ this] have "gate_step ?d witness_prepared"
    by (simp add: gate_start_def witness_prepared_def)
  with a b c d show ?thesis by (meson converse_rtranclp_into_rtranclp r_into_rtranclp)
qed

lemma witness_publishes: "gate_step witness_prepared witness_active"
proof -
  have "(1, witness_candidate) \<in> set (gs_prepared witness_prepared)" by (simp add: witness_prepared_def)
  from publishes [OF this] show ?thesis
    by (simp add: witness_prepared_def witness_active_def gate_publish_def transition_drop_def
        close_if_poisoned_def gate_start_def gate_default_def Let_def)
qed

lemma witness_operating_reachable: "gate_step\<^sup>*\<^sup>* gate_start witness_operating"
proof -
  have "begin_operation witness_candidate (gs_gate witness_active) = (Inr 2, gs_gate witness_operating)"
    by (simp add: begin_operation_def witness_active_def witness_operating_def gate_next_def gate_default_def checked_add_def)
  from operation_begins [OF this] have "gate_step witness_active witness_operating"
    by (simp add: witness_operating_def witness_active_def gate_start_def)
  with witness_prepared_reachable witness_publishes show ?thesis
    by (meson rtranclp.rtrancl_into_rtrancl)
qed

theorem operation_excludes_transition_witness:
  "is_err (fst (try_begin_transition (gs_gate witness_operating)))
   \<and> operation_validate (2, witness_candidate) (gs_gate witness_operating) = Inr ()"
proof -
  have op: "(2, witness_candidate) \<in> set (gs_operations witness_operating)" by (simp add: witness_operating_def)
  have "\<not> ng_poisoned (gs_gate witness_operating)" "\<not> ng_closed (gs_gate witness_operating)"
    by (simp_all add: witness_operating_def gate_default_def)
  with operation_excludes_transition [OF witness_operating_reachable op] show ?thesis by blast
qed

text \<open>
  C23: a namespace becomes active only through a checked publication: whenever a step makes a
  lease active, no namespace was active and no operation was running before, and the one
  transition that holds the gate is the one under which the storage of exactly this lease passed
  the check for unsupported import state.
\<close>

theorem publication_was_checked:
  assumes "gate_step\<^sup>*\<^sup>* gate_start y" and "gate_step y z"
    and "ng_active (gs_gate z) = Some lease" and "ng_active (gs_gate y) \<noteq> Some lease"
  shows "ng_active (gs_gate y) = None \<and> gs_operations y = []
    \<and> (\<exists>i. gs_transitions y = [i] \<and> (i, lease) \<in> set (gs_verified y))"
proof -
  from gate_inv_run [OF assms(1)] have inv: "holders_ok y" "proofs_ok y" by auto
  from assms(2) obtain p where "p \<in> set (gs_prepared y)" "snd p = lease"
  proof cases
    case (publishes p)
    with assms(3,4) show ?thesis by (intro that [of p]) (auto split: if_splits)
  next
    case (operation_begins l i g)
    with begin_operation_ok [OF operation_begins(2)] assms(3,4) show ?thesis by auto
  next
    case (operation_refused l e g)
    with begin_operation_err [OF operation_refused(2)] assms(3,4) show ?thesis by auto
  next
    case (transition_tries i g)
    with try_begin_transition_ok [OF transition_tries(2)] assms(3,4) show ?thesis by auto
  next
    case (transition_refused e g)
    with try_begin_transition_err [OF transition_refused(2)] assms(3,4) show ?thesis by auto
  next
    case (transition_enters r g)
    with begin_transition_enter_cases [OF transition_enters(2)] assms(3,4) show ?thesis by auto
  next
    case (transition_wakes i g)
    with begin_transition_wake_ok [OF transition_wakes(3)] assms(3,4) show ?thesis by auto
  next
    case (transition_wake_fails e g)
    with begin_transition_wake_err [OF transition_wake_fails(3)] assms(3,4) show ?thesis by auto
  next
    case (retires i l r g)
    with gate_retire_flushed_cases [OF retires(3)] assms(3,4) show ?thesis by auto
  qed (use assms(3,4) in auto)
  then have p: "(fst p, lease) \<in> set (gs_prepared y)" by auto
  with inv(1) have "ng_active (gs_gate y) = None" "gs_transitions y = [fst p]" "gs_operations y = []"
    by (force simp: holders_ok_def Let_def split: option.splits)+
  moreover from p inv(2) have "(fst p, lease) \<in> set (gs_verified y)" by (auto simp: proofs_ok_def)
  ultimately show ?thesis by blast
qed

theorem publication_was_checked_witness:
  "ng_active (gs_gate witness_prepared) = None
   \<and> (\<exists>i. gs_transitions witness_prepared = [i] \<and> (i, witness_candidate) \<in> set (gs_verified witness_prepared))"
proof -
  have "ng_active (gs_gate witness_active) = Some witness_candidate"
    "ng_active (gs_gate witness_prepared) \<noteq> Some witness_candidate"
    by (simp_all add: witness_active_def witness_prepared_def gate_default_def)
  from publication_was_checked [OF witness_prepared_reachable witness_publishes this] show ?thesis by blast
qed

end
