(* ===== verification/Account_Model.thy ===== *)
theory Account_Model
  imports Namespace_Model Api_Error
begin

text \<open>
  Account data the server returns and the checks on it: capabilities and group choices
  (\<open>native-client/src/runtime/api/team.rs\<close>), the account snapshot, its agreement with a billing
  scope and the classification of captured scopes (\<open>api/account.rs\<close>).
\<close>

section \<open>Groups and capabilities\<close>

datatype known_capability =
    Bill | ReadOwnQuota | LeaveTeam | ReadGroupFinance | Purchase | Redeem
  | ManageGroup | ManageInvitations | ManageMembers | ReadGroupUsage

fun as_wire :: "known_capability \<Rightarrow> string" where
  "as_wire Bill = ''bill''"
| "as_wire ReadOwnQuota = ''read_own_quota''"
| "as_wire LeaveTeam = ''leave_team''"
| "as_wire ReadGroupFinance = ''read_group_finance''"
| "as_wire Purchase = ''purchase''"
| "as_wire Redeem = ''redeem''"
| "as_wire ManageGroup = ''manage_group''"
| "as_wire ManageInvitations = ''manage_invitations''"
| "as_wire ManageMembers = ''manage_members''"
| "as_wire ReadGroupUsage = ''read_group_usage''"

definition has_known_capability :: "string list \<Rightarrow> known_capability \<Rightarrow> bool" where
  "has_known_capability values expected = (\<exists>v \<in> set values. v = as_wire expected)"

record quota_summary =
  period_start :: string
  period_end :: string
  monthly_limit :: string
  quota_settled :: string
  quota_reserved :: string
  quota_remaining :: string

record account_group_choice =
  group_id :: string
  group_name :: string
  group_status :: string
  group_role :: string
  group_member_id :: "string option"
  group_relationship_status :: "string option"
  group_readable_context :: bool
  group_selectable :: bool
  group_version :: string
  group_membership_version :: "string option"
  group_capabilities :: "string list"
  group_quota :: "quota_summary option"

definition has_capability :: "account_group_choice \<Rightarrow> known_capability \<Rightarrow> bool" where
  "has_capability choice expected = has_known_capability (group_capabilities choice) expected"

definition uuid_path_segment :: "uuid_parser \<Rightarrow> string \<Rightarrow> api_error + string" where
  "uuid_path_segment parse_uuid v =
    (case parse_uuid v of Some canonical \<Rightarrow> Inr canonical
     | None \<Rightarrow> Inl (Protocol ''a team route identifier must be a canonical UUID'' None))"

section \<open>Snapshots\<close>

record account_user =
  user_id :: string
  user_email_masked :: string
  user_nickname :: "string option"
  user_status :: string
  user_registered_at :: string
  user_invitation_code_submitted :: bool

record membership_plan_summary =
  plan_code :: string
  plan_name :: string
  plan_tier_rank :: int
  plan_recharge_discount_bps :: int
  plan_max_quality :: string

record account_membership =
  membership_revision :: string
  membership_period_id :: "string option"
  membership_starts_at :: "string option"
  membership_ends_at :: "string option"
  membership_plan :: "membership_plan_summary option"

record credit_account =
  credits_available :: string
  credits_reserved :: string
  credits_lifetime_granted :: string
  credits_lifetime_spent :: string
  credits_version :: string

record account_auth_methods =
  auth_email_bound :: bool
  auth_wechat_bound :: bool
  auth_wechat_can_unbind :: bool
  auth_wechat_nickname :: "string option"
  auth_password_set :: bool

record account_snapshot =
  snap_user :: account_user
  snap_read_only :: bool
  snap_capabilities :: "string list"
  snap_auth_methods :: account_auth_methods
  snap_membership :: "account_membership option"
  snap_billing_group :: account_group_choice
  snap_entitlement :: json
  snap_credits :: "credit_account option"
  snap_quota :: "quota_summary option"

definition active_is_selectable :: "account_snapshot \<Rightarrow> bool" where
  "active_is_selectable account =
    (group_selectable (snap_billing_group account)
     \<and> group_status (snap_billing_group account) = ''active''
     \<and> group_role (snap_billing_group account) \<in> set [''owner'', ''member'']
     \<and> \<not> snap_read_only account)"

definition frozen_owner_fallback :: "account_snapshot \<Rightarrow> bool" where
  "frozen_owner_fallback account =
    (group_role (snap_billing_group account) = ''owner''
     \<and> group_status (snap_billing_group account) = ''frozen''
     \<and> group_readable_context (snap_billing_group account)
     \<and> \<not> group_selectable (snap_billing_group account)
     \<and> snap_read_only account
     \<and> \<not> has_capability (snap_billing_group account) Bill
     \<and> \<not> has_capability (snap_billing_group account) Purchase
     \<and> \<not> has_capability (snap_billing_group account) Redeem)"

definition validate_snapshot_context :: "account_snapshot \<Rightarrow> billing_scope \<Rightarrow> api_error + unit" where
  "validate_snapshot_context account scope =
    (if user_id (snap_user account) = scope_owner_user_id (request_session (billing_request scope))
        \<and> group_id (snap_billing_group account) = request_account_group_id (billing_request scope)
        \<and> group_readable_context (snap_billing_group account)
        \<and> set (snap_capabilities account) = set (group_capabilities (snap_billing_group account))
        \<and> (active_is_selectable account \<or> frozen_owner_fallback account)
     then Inr ()
     else Inl (Protocol ''the returned account context differs from the confirmed billing account'' None))"

definition preferred_session_snapshot_error :: "api_error option list \<Rightarrow> api_error option" where
  "preferred_session_snapshot_error errors =
    (let flattened = concat (map (\<lambda>e. case e of None \<Rightarrow> [] | Some x \<Rightarrow> [x]) errors) in
     case List.find is_terminal_session_error flattened of
       Some e \<Rightarrow> Some e
     | None \<Rightarrow> List.find (\<lambda>e. e = AuthenticationRequired) flattened)"

section \<open>Captured scopes\<close>

datatype account_scope_disposition = Current | CapturedTerminal | Stale

definition classify_account_scope ::
  "bool \<Rightarrow> bool \<Rightarrow> bool \<Rightarrow> u64 \<Rightarrow> u64 \<Rightarrow> account_scope_disposition" where
  "classify_account_scope owner_matches scope_is_current session_has_access current_auth_epoch captured_auth_epoch =
    (if owner_matches \<and> scope_is_current then Current
     else if owner_matches \<and> \<not> session_has_access
       \<and> (current_auth_epoch = captured_auth_epoch \<or> current_auth_epoch = captured_auth_epoch + 1)
     then CapturedTerminal
     else Stale)"

definition require_saved_group :: "string \<Rightarrow> string \<Rightarrow> api_error + unit" where
  "require_saved_group expected actual =
    (if expected \<noteq> [] \<and> expected = actual then Inr ()
     else Inl (Protocol ''the billing account of the server resource differs from the local record'' None))"

lemma as_wire_inj: "as_wire a = as_wire b \<Longrightarrow> a = b"
  by (cases a; cases b; simp)

text \<open>What a validated snapshot says, and what a financial refresh leaves alone.\<close>

lemma validate_snapshot_ok:
  "validate_snapshot_context a scope = Inr () \<longleftrightarrow>
    user_id (snap_user a) = scope_owner_user_id (request_session (billing_request scope))
    \<and> group_id (snap_billing_group a) = request_account_group_id (billing_request scope)
    \<and> group_readable_context (snap_billing_group a)
    \<and> set (snap_capabilities a) = set (group_capabilities (snap_billing_group a))
    \<and> (active_is_selectable a \<or> frozen_owner_fallback a)"
  by (simp add: validate_snapshot_context_def)

lemma validated_payer_active:
  assumes "validate_snapshot_context a scope = Inr ()"
    and "capability \<in> {Bill, Purchase, Redeem}" and "has_capability (snap_billing_group a) capability"
  shows "active_is_selectable a"
  using assms by (auto simp: validate_snapshot_ok frozen_owner_fallback_def)

lemma preferred_error_from_list:
  "preferred_session_snapshot_error errors = Some e \<Longrightarrow>
    Some e \<in> set errors \<and> (is_terminal_session_error e \<or> e = AuthenticationRequired)"
  by (auto simp: preferred_session_snapshot_error_def Let_def find_Some_iff find_None_iff split: option.splits)
    (force simp: in_set_conv_nth split: option.splits dest: nth_mem)+

end
