(* ===== verification/Billing_Context.thy ===== *)
theory Billing_Context
  imports Account_Model Upgrade_Latch
begin

text \<open>
  The billing context (\<open>native-client/src/runtime/api/billing_context.rs\<close>): which account group
  pays. Every change of payer goes through a switch ticket with a fresh epoch; a captured billing
  scope is good exactly as long as its epoch is the confirmed one. The model has one manager, so
  the pointer comparisons of the code hold; the upgrade latch is the one of the process. A read of
  a poisoned context returns nothing; that it also closes the context, like every other access,
  is left to the next write.
\<close>

section \<open>State\<close>

datatype previous_billing_authority = StillValid | Invalidated

record pending_billing_switch =
  pend_scope :: billing_scope
  pend_device :: string
  pend_rollback :: previous_billing_authority

record confirmed_billing_context =
  conf_scope :: billing_scope
  conf_snapshot :: account_snapshot
  conf_usable :: bool

record billing_state =
  bill_epoch :: u64
  bill_closed :: bool
  bill_session :: "session_scope option"
  bill_pending :: "pending_billing_switch option"
  bill_current :: "confirmed_billing_context option"
  bill_poisoned :: bool

definition billing_default :: billing_state where
  "billing_default = \<lparr>bill_epoch = 0, bill_closed = False, bill_session = None, bill_pending = None,
    bill_current = None, bill_poisoned = False\<rparr>"

datatype billing_error =
    BillingClosed | BillingCountExhausted | BillingLockUnavailable | NoReadableAccount | SwitchMismatch
  | TicketExpired | ConfirmationMismatch | NotConfirmed | CapabilityDenied | AccountReadOnly

section \<open>Operations\<close>

definition billing_advance :: "billing_state \<Rightarrow> (billing_error + u64) \<times> billing_state" where
  "billing_advance s =
    (if bill_closed s then (Inl BillingClosed, s)
     else (case checked_add (bill_epoch s) 1 of
             None \<Rightarrow> (Inl BillingCountExhausted,
               s\<lparr>bill_closed := True, bill_pending := None, bill_current := None, bill_session := None\<rparr>)
           | Some epoch \<Rightarrow> (Inr epoch, s\<lparr>bill_epoch := epoch\<rparr>)))"

definition choice_selectable :: "account_group_choice \<Rightarrow> bool" where
  "choice_selectable choice =
    (group_selectable choice \<and> group_readable_context choice \<and> group_status choice = ''active''
     \<and> group_role choice \<in> set [''owner'', ''member''])"

definition or_else :: "'a option \<Rightarrow> 'a option \<Rightarrow> 'a option" where
  "or_else x y = (case x of Some v \<Rightarrow> Some v | None \<Rightarrow> y)"

definition choose_candidate ::
  "account_group_choice list \<Rightarrow> string option \<Rightarrow> string option \<Rightarrow> billing_error + account_group_choice" where
  "choose_candidate choices saved suggestion =
    (let by_id = (\<lambda>i. List.find (\<lambda>choice. group_id choice = i) (filter choice_selectable choices));
         candidate =
           or_else (Option.bind suggestion by_id)
          (or_else (Option.bind saved by_id)
          (or_else (List.find (\<lambda>choice. group_role choice = ''owner'') (filter choice_selectable choices))
            (List.find (\<lambda>choice. group_role choice = ''owner'' \<and> group_status choice = ''frozen''
                \<and> group_readable_context choice \<and> \<not> group_selectable choice) choices)))
     in case candidate of Some c \<Rightarrow> Inr c | None \<Rightarrow> Inl NoReadableAccount)"

text \<open>\<open>lock\<close>: a poisoned mutex closes the context.\<close>

definition billing_lock :: "billing_state \<Rightarrow> billing_state" where
  "billing_lock s =
    (if bill_poisoned s then s\<lparr>bill_closed := True, bill_current := None, bill_pending := None\<rparr> else s)"

definition bind_authenticated_session :: "session_scope \<Rightarrow> billing_state \<Rightarrow> (billing_error + unit) \<times> billing_state" where
  "bind_authenticated_session session s =
    (if bill_poisoned s then (Inl BillingLockUnavailable, billing_lock s)
     else (case billing_advance s of
             (Inl e, s') \<Rightarrow> (Inl e, s')
           | (Inr _, s') \<Rightarrow> (Inr (), s'\<lparr>bill_session := Some session, bill_pending := None, bill_current := None\<rparr>)))"

definition invalidate_for_auth_change :: "billing_state \<Rightarrow> billing_state" where
  "invalidate_for_auth_change s =
    (if bill_poisoned s then billing_lock s
     else (snd (billing_advance s))\<lparr>bill_session := None, bill_pending := None, bill_current := None\<rparr>)"

definition mark_unusable :: "confirmed_billing_context option \<Rightarrow> confirmed_billing_context option" where
  "mark_unusable c = map_option (\<lambda>current. current\<lparr>conf_usable := False\<rparr>) c"

definition begin_switch ::
  "uuid_parser \<Rightarrow> session_scope \<Rightarrow> string \<Rightarrow> string \<Rightarrow> previous_billing_authority \<Rightarrow> billing_state
    \<Rightarrow> (billing_error + pending_billing_switch) \<times> billing_state" where
  "begin_switch parse_uuid session device gid rollback s =
    (if bill_poisoned s then (Inl BillingLockUnavailable, billing_lock s)
     else if bill_session s \<noteq> Some session \<or> device = [] \<or> \<not> canonical_uuid parse_uuid gid
       then (Inl SwitchMismatch, s)
     else (case billing_advance s of
             (Inl e, s') \<Rightarrow> (Inl e, s')
           | (Inr epoch, s') \<Rightarrow>
               let s'' = (if rollback = Invalidated then s'\<lparr>bill_current := mark_unusable (bill_current s')\<rparr> else s');
                   pending = \<lparr>pend_scope = \<lparr>billing_request = \<lparr>request_session = session,
                       request_account_group_id = gid\<rparr>, billing_context_epoch = epoch\<rparr>,
                     pend_device = device, pend_rollback = rollback\<rparr>
               in (Inr pending, s''\<lparr>bill_pending := Some pending\<rparr>)))"

definition abort_matching :: "pending_billing_switch \<Rightarrow> billing_state \<Rightarrow> billing_state" where
  "abort_matching pending s =
    (if bill_poisoned s then billing_lock s
     else if bill_pending s \<noteq> Some pending then s
     else (case billing_advance (s\<lparr>bill_pending := None\<rparr>) of
             (Inl e, s') \<Rightarrow> s'
           | (Inr epoch, s') \<Rightarrow>
               s'\<lparr>bill_current := map_option (\<lambda>current.
                   current\<lparr>conf_scope := (conf_scope current)\<lparr>billing_context_epoch := epoch\<rparr>,
                     conf_usable := (conf_usable current \<and> pend_rollback pending \<noteq> Invalidated)\<rparr>)
                 (bill_current s')\<rparr>))"

definition same_choice :: "account_group_choice \<Rightarrow> account_snapshot \<Rightarrow> bool" where
  "same_choice choice snapshot =
    (let g = snap_billing_group snapshot in
     group_id choice = group_id g
     \<and> group_role choice = group_role g
     \<and> group_status choice = group_status g
     \<and> group_selectable choice = group_selectable g
     \<and> group_readable_context choice = group_readable_context g
     \<and> group_member_id choice = group_member_id g
     \<and> group_relationship_status choice = group_relationship_status g
     \<and> group_version choice = group_version g
     \<and> group_membership_version choice = group_membership_version g
     \<and> set (group_capabilities choice) = set (snap_capabilities snapshot))"

record staged_billing_confirmation =
  stage_pending :: pending_billing_switch
  stage_snapshot :: account_snapshot

text \<open>
  \<open>latch_open\<close> says whether the upgrade latch is open: with the fence closed the mismatching switch is
  left pending, which denies every payer as well.
\<close>

definition stage_confirmation ::
  "bool \<Rightarrow> pending_billing_switch \<Rightarrow> account_group_choice \<Rightarrow> account_snapshot \<Rightarrow> billing_state
    \<Rightarrow> (billing_error + staged_billing_confirmation) \<times> billing_state" where
  "stage_confirmation latch_open ticket choice snapshot s =
    (if bill_poisoned s then (Inl BillingLockUnavailable, billing_lock s)
     else if bill_closed s \<or> bill_pending s \<noteq> Some ticket
       \<or> bill_session s \<noteq> Some (request_session (billing_request (pend_scope ticket)))
       then (Inl TicketExpired, s)
     else if \<not> same_choice choice snapshot \<or> is_err (validate_snapshot_context snapshot (pend_scope ticket))
       then (Inl ConfirmationMismatch, if latch_open then abort_matching ticket s else s)
     else (Inr \<lparr>stage_pending = ticket, stage_snapshot = snapshot\<rparr>, s))"

definition publish_persisted ::
  "pending_billing_switch \<Rightarrow> staged_billing_confirmation \<Rightarrow> billing_state \<Rightarrow> billing_state" where
  "publish_persisted ticket staged s =
    (if bill_poisoned s then billing_lock s
     else if \<not> bill_closed s \<and> bill_pending s = Some ticket \<and> stage_pending staged = ticket
       then s\<lparr>bill_current := Some \<lparr>conf_scope = pend_scope (stage_pending staged),
                conf_snapshot = stage_snapshot staged, conf_usable = True\<rparr>,
              bill_pending := None\<rparr>
     else s)"

text \<open>\<open>abort_switch\<close>, and the drop of an armed ticket, which respects the upgrade fence.\<close>

definition abort_switch :: "pending_billing_switch \<Rightarrow> billing_state \<Rightarrow> billing_state" where
  "abort_switch ticket s = abort_matching ticket s"

definition switch_ticket_drop :: "bool \<Rightarrow> upgrade_latch \<Rightarrow> pending_billing_switch \<Rightarrow> billing_state \<Rightarrow> billing_state" where
  "switch_ticket_drop armed upgrade ticket s =
    (if armed \<and> is_ok (fst (latch_apply_if_open () upgrade)) then abort_matching ticket s else s)"

definition usable_current :: "billing_state \<Rightarrow> confirmed_billing_context option" where
  "usable_current s =
    (if bill_poisoned s \<or> bill_closed s \<or> bill_pending s \<noteq> None then None
     else (case bill_current s of
             Some current \<Rightarrow> if conf_usable current then Some current else None
           | None \<Rightarrow> None))"

definition confirmed_scope :: "billing_state \<Rightarrow> billing_scope option" where
  "confirmed_scope s = map_option conf_scope (usable_current s)"

definition confirmed_snapshot :: "billing_state \<Rightarrow> account_snapshot option" where
  "confirmed_snapshot s = map_option conf_snapshot (usable_current s)"

definition invalidate_current_billing :: "billing_state \<Rightarrow> billing_state" where
  "invalidate_current_billing s =
    (if bill_poisoned s then billing_lock s
     else (case billing_advance s of
             (Inl e, s') \<Rightarrow> s'
           | (Inr _, s') \<Rightarrow> s'\<lparr>bill_pending := None, bill_current := mark_unusable (bill_current s')\<rparr>))"

definition refresh_financial_snapshot ::
  "billing_scope \<Rightarrow> account_snapshot \<Rightarrow> billing_state \<Rightarrow> bool \<times> billing_state" where
  "refresh_financial_snapshot scope snapshot s =
    (if is_err (validate_snapshot_context snapshot scope) then (False, s)
     else if bill_poisoned s then (False, billing_lock s)
     else (case usable_current s of
             None \<Rightarrow> (False, s)
           | Some current \<Rightarrow>
               let group = snap_billing_group (conf_snapshot current) in
               if conf_scope current \<noteq> scope
                  \<or> group_role group \<noteq> group_role (snap_billing_group snapshot)
                  \<or> group_member_id group \<noteq> group_member_id (snap_billing_group snapshot)
               then (False, s)
               else (True, s\<lparr>bill_current := Some (current\<lparr>conf_snapshot :=
                 (conf_snapshot current)\<lparr>snap_credits := snap_credits snapshot, snap_quota := snap_quota snapshot,
                   snap_billing_group := group\<lparr>group_quota := group_quota (snap_billing_group snapshot)\<rparr>\<rparr>\<rparr>)\<rparr>)))"

definition current_scope :: "known_capability \<Rightarrow> billing_state \<Rightarrow> billing_error + billing_scope" where
  "current_scope capability s =
    (if bill_poisoned s then Inl BillingLockUnavailable
     else (case usable_current s of
             None \<Rightarrow> Inl NotConfirmed
           | Some current \<Rightarrow>
               if \<not> has_capability (snap_billing_group (conf_snapshot current)) capability then Inl CapabilityDenied
               else if snap_read_only (conf_snapshot current) \<and> capability \<in> set [Bill, Purchase, Redeem]
                 then Inl AccountReadOnly
               else Inr (conf_scope current)))"

definition billable_scope :: "billing_state \<Rightarrow> billing_error + billing_scope" where
  "billable_scope s = current_scope Bill s"

definition is_current :: "billing_scope \<Rightarrow> billing_state \<Rightarrow> bool" where
  "is_current scope s = (confirmed_scope s = Some scope)"

section \<open>The epoch is an authority counter\<close>

lemma billing_advance_ok:
  assumes "billing_advance s = (Inr epoch, t)"
  shows "t = s\<lparr>bill_epoch := epoch\<rparr>" "unat epoch = Suc (unat (bill_epoch s))" "\<not> bill_closed s"
    "bill_epoch s < epoch"
  using assms checked_add_one_SomeD [of "bill_epoch s" epoch] checked_add_one_less [of "bill_epoch s" epoch]
  by (auto simp: billing_advance_def split: if_splits option.splits)

lemma billing_advance_err:
  assumes "billing_advance s = (Inl e, t)"
  shows "t = s \<or> t = s\<lparr>bill_closed := True, bill_pending := None, bill_current := None, bill_session := None\<rparr>"
    "bill_closed t"
  using assms by (auto simp: billing_advance_def split: if_splits option.splits)

interpretation billing_epochs: counter_authority bill_epoch bill_closed billing_advance
proof unfold_locales
  fix s i s'
  assume "billing_advance s = (Inr i, s')"
  from billing_advance_ok [OF this]
  show "bill_epoch s' = i \<and> unat i = Suc (unat (bill_epoch s)) \<and> \<not> bill_closed s" by simp
next
  fix s e s'
  assume "billing_advance s = (Inl e, s')"
  from billing_advance_err(1) [OF this] show "bill_epoch s' = bill_epoch s" by auto
next
  fix s
  show "bill_closed s \<Longrightarrow> \<exists>e. billing_advance s = (Inl e, s)" by (simp add: billing_advance_def)
next
  fix s :: billing_state
  assume "bill_epoch s = - 1"
  then have "checked_add (bill_epoch s) 1 = None" by (simp add: checked_add_one_None_iff)
  then show "\<exists>e s'. billing_advance s = (Inl e, s') \<and> bill_closed s'" by (auto simp: billing_advance_def)
qed

section \<open>Runs\<close>

record billing_system =
  bs_state :: billing_state
  bs_staged :: "staged_billing_confirmation list"

definition billing_start :: billing_system where
  "billing_start = \<lparr>bs_state = billing_default, bs_staged = []\<rparr>"

inductive billing_step :: "uuid_parser \<Rightarrow> billing_system \<Rightarrow> billing_system \<Rightarrow> bool" for parse_uuid where
  binds: "billing_step parse_uuid y (y\<lparr>bs_state := snd (bind_authenticated_session session (bs_state y))\<rparr>)"
| auth_changes: "billing_step parse_uuid y (y\<lparr>bs_state := invalidate_for_auth_change (bs_state y)\<rparr>)"
| switch_begins: "billing_step parse_uuid y
    (y\<lparr>bs_state := snd (begin_switch parse_uuid session device gid rollback (bs_state y))\<rparr>)"
| stages: "stage_confirmation latch_open ticket choice snapshot (bs_state y) = (Inr staged, s') \<Longrightarrow>
    billing_step parse_uuid y (y\<lparr>bs_state := s', bs_staged := staged # bs_staged y\<rparr>)"
| staging_fails: "stage_confirmation latch_open ticket choice snapshot (bs_state y) = (Inl e, s') \<Longrightarrow>
    billing_step parse_uuid y (y\<lparr>bs_state := s'\<rparr>)"
| publishes: "staged \<in> set (bs_staged y) \<Longrightarrow>
    billing_step parse_uuid y (y\<lparr>bs_state := publish_persisted ticket staged (bs_state y)\<rparr>)"
| aborts: "billing_step parse_uuid y (y\<lparr>bs_state := abort_switch ticket (bs_state y)\<rparr>)"
| ticket_drops: "billing_step parse_uuid y (y\<lparr>bs_state := switch_ticket_drop armed upgrade ticket (bs_state y)\<rparr>)"
| invalidates: "billing_step parse_uuid y (y\<lparr>bs_state := invalidate_current_billing (bs_state y)\<rparr>)"
| refreshes: "billing_step parse_uuid y
    (y\<lparr>bs_state := snd (refresh_financial_snapshot scope snapshot (bs_state y))\<rparr>)"
| poisons: "billing_step parse_uuid y (y\<lparr>bs_state := (bs_state y)\<lparr>bill_poisoned := True\<rparr>\<rparr>)"

section \<open>Invariant\<close>

abbreviation conf_epoch :: "confirmed_billing_context \<Rightarrow> u64" where
  "conf_epoch c \<equiv> billing_context_epoch (conf_scope c)"

abbreviation pend_epoch :: "pending_billing_switch \<Rightarrow> u64" where
  "pend_epoch p \<equiv> billing_context_epoch (pend_scope p)"

abbreviation scope_session :: "billing_scope \<Rightarrow> session_scope" where
  "scope_session c \<equiv> request_session (billing_request c)"

definition billing_inv :: "billing_state \<Rightarrow> bool" where
  "billing_inv s =
    ((\<forall>c. bill_current s = Some c \<longrightarrow>
        conf_epoch c \<le> bill_epoch s \<and> bill_session s = Some (scope_session (conf_scope c))
        \<and> validate_snapshot_context (conf_snapshot c) (conf_scope c) = Inr ())
     \<and> (\<forall>p. bill_pending s = Some p \<longrightarrow>
        pend_epoch p \<le> bill_epoch s \<and> bill_session s = Some (scope_session (pend_scope p)))
     \<and> (\<forall>c p. bill_current s = Some c \<longrightarrow> bill_pending s = Some p \<longrightarrow> conf_epoch c < pend_epoch p))"

definition staged_ok :: "staged_billing_confirmation \<Rightarrow> bool" where
  "staged_ok st = (validate_snapshot_context (stage_snapshot st) (pend_scope (stage_pending st)) = Inr ())"

lemma validate_ignores_epoch:
  "validate_snapshot_context a (scope\<lparr>billing_context_epoch := e\<rparr>) = validate_snapshot_context a scope"
  by (simp add: validate_snapshot_context_def)

lemma validate_ignores_finance:
  "validate_snapshot_context (a\<lparr>snap_credits := c, snap_quota := q,
      snap_billing_group := (snap_billing_group a)\<lparr>group_quota := g\<rparr>\<rparr>) scope = validate_snapshot_context a scope"
  by (simp add: validate_snapshot_context_def active_is_selectable_def frozen_owner_fallback_def has_capability_def)

lemma billing_inv_None:
  "billing_inv (s\<lparr>bill_pending := None, bill_current := None\<rparr>)"
  "bill_current s = None \<Longrightarrow> bill_pending s = None \<Longrightarrow> billing_inv s"
  by (simp_all add: billing_inv_def)

lemma billing_inv_lock: "billing_inv s \<Longrightarrow> billing_inv (billing_lock s)"
  by (simp add: billing_lock_def billing_inv_def)

lemma billing_inv_advance: "billing_inv s \<Longrightarrow> billing_inv (snd (billing_advance s))"
  using billing_advance_ok(1,4) [of s] billing_advance_err(1) [of s]
  by (cases "billing_advance s"; cases "fst (billing_advance s)")
    (fastforce simp: billing_inv_def dest: order.trans [OF _ less_imp_le])+

lemma billing_inv_bind: "billing_inv s \<Longrightarrow> billing_inv (snd (bind_authenticated_session session s))"
  using billing_inv_advance [of s]
  by (auto simp: bind_authenticated_session_def billing_inv_lock billing_inv_None split: prod.splits sum.splits)

lemma begin_switch_ok:
  assumes "begin_switch parse_uuid session device gid rollback s = (Inr pending, t)"
  shows "\<not> bill_poisoned s" "\<not> bill_closed s" "bill_session s = Some session"
    "bill_epoch s < pend_epoch pending" "scope_session (pend_scope pending) = session"
    "pend_rollback pending = rollback"
    "t = s\<lparr>bill_epoch := pend_epoch pending, bill_pending := Some pending,
       bill_current := (if rollback = Invalidated then mark_unusable (bill_current s) else bill_current s)\<rparr>"
proof -
  from assms obtain epoch u where u: "billing_advance s = (Inr epoch, u)" and s: "\<not> bill_poisoned s" "bill_session s = Some session"
    by (auto simp: begin_switch_def Let_def split: if_splits prod.splits sum.splits)
  note a = billing_advance_ok [OF u]
  from s a(3) show "\<not> bill_poisoned s" "\<not> bill_closed s" "bill_session s = Some session" by auto
  from assms u s have p: "pending = \<lparr>pend_scope = \<lparr>billing_request = \<lparr>request_session = session,
        request_account_group_id = gid\<rparr>, billing_context_epoch = epoch\<rparr>, pend_device = device, pend_rollback = rollback\<rparr>"
    "t = (if rollback = Invalidated then u\<lparr>bill_current := mark_unusable (bill_current u)\<rparr> else u)\<lparr>bill_pending := Some pending\<rparr>"
    by (auto simp: begin_switch_def Let_def split: if_splits)
  from p(1) a(4) show "bill_epoch s < pend_epoch pending" "scope_session (pend_scope pending) = session"
    "pend_rollback pending = rollback" by simp_all
  from p a(1) show "t = s\<lparr>bill_epoch := pend_epoch pending, bill_pending := Some pending,
       bill_current := (if rollback = Invalidated then mark_unusable (bill_current s) else bill_current s)\<rparr>"
    by simp
qed

lemma begin_switch_err:
  assumes "begin_switch parse_uuid session device gid rollback s = (Inl e, t)"
  shows "t = s \<or> t = billing_lock s \<or> t = snd (billing_advance s)"
  using assms by (auto simp: begin_switch_def Let_def split: if_splits prod.splits sum.splits)

lemma billing_inv_begin:
  assumes "billing_inv s"
  shows "billing_inv (snd (begin_switch parse_uuid session device gid rollback s))"
proof (cases "begin_switch parse_uuid session device gid rollback s")
  case (Pair r t)
  show ?thesis
  proof (cases r)
    case (Inl e)
    with begin_switch_err Pair assms show ?thesis
      by (metis billing_inv_lock billing_inv_advance snd_conv)
  next
    case (Inr pending)
    with Pair have b: "begin_switch parse_uuid session device gid rollback s = (Inr pending, t)" by simp
    note b = begin_switch_ok [OF b]
    have less: "c \<le> bill_epoch s \<Longrightarrow> c < pend_epoch pending" for c
      using b(4) by (rule le_less_trans [rotated])
    have "bill_epoch t = pend_epoch pending" "bill_pending t = Some pending" "bill_session t = Some session"
      using b(3,7) by simp_all
    moreover have "conf_epoch c < pend_epoch pending \<and> Some session = Some (scope_session (conf_scope c))
        \<and> validate_snapshot_context (conf_snapshot c) (conf_scope c) = Inr ()" if "bill_current t = Some c" for c
      using that b(3,7) assms less
      by (cases "bill_current s") (auto simp: billing_inv_def mark_unusable_def split: if_splits)
    ultimately show ?thesis using Pair b(5) by (auto simp: billing_inv_def less_imp_le)
  qed
qed

lemma billing_inv_abort:
  assumes "billing_inv s"
  shows "billing_inv (abort_matching ticket s)"
proof -
  let ?s = "s\<lparr>bill_pending := None\<rparr>"
  have inv: "billing_inv ?s" using assms by (simp add: billing_inv_def)
  show ?thesis
  proof (cases "billing_advance ?s")
    case (Pair r t)
    then show ?thesis
    proof (cases r)
      case (Inl e)
      with Pair billing_inv_advance [OF inv] assms show ?thesis
        by (auto simp: abort_matching_def billing_inv_lock)
    next
      case (Inr epoch)
      show ?thesis
      proof (cases "bill_poisoned s \<or> bill_pending s \<noteq> Some ticket")
        case True
        with assms show ?thesis by (auto simp: abort_matching_def billing_inv_lock)
      next
        case False
        with Pair Inr billing_advance_ok [of ?s epoch t] assms show ?thesis
          by (auto simp: abort_matching_def billing_inv_def validate_ignores_epoch)
      qed
    qed
  qed
qed

lemma usable_current_Some:
  "usable_current s = Some c \<longleftrightarrow>
    \<not> bill_poisoned s \<and> \<not> bill_closed s \<and> bill_pending s = None \<and> bill_current s = Some c \<and> conf_usable c"
  by (auto simp: usable_current_def split: option.splits)

lemma refresh_financial_cases:
  "snd (refresh_financial_snapshot scope snapshot s) = s
   \<or> snd (refresh_financial_snapshot scope snapshot s) = billing_lock s
   \<or> (\<exists>c g. usable_current s = Some c
        \<and> snd (refresh_financial_snapshot scope snapshot s) = s\<lparr>bill_current := Some (c\<lparr>conf_snapshot :=
             (conf_snapshot c)\<lparr>snap_credits := snap_credits snapshot, snap_quota := snap_quota snapshot,
               snap_billing_group := (snap_billing_group (conf_snapshot c))\<lparr>group_quota := g\<rparr>\<rparr>\<rparr>)\<rparr>)"
  by (cases "usable_current s") (auto simp: refresh_financial_snapshot_def Let_def)

lemma billing_inv_refresh:
  assumes "billing_inv s"
  shows "billing_inv (snd (refresh_financial_snapshot scope snapshot s))"
  using refresh_financial_cases [of scope snapshot s]
proof (elim disjE exE conjE)
  fix c g
  assume c: "usable_current s = Some c"
    and r: "snd (refresh_financial_snapshot scope snapshot s) = s\<lparr>bill_current := Some (c\<lparr>conf_snapshot :=
             (conf_snapshot c)\<lparr>snap_credits := snap_credits snapshot, snap_quota := snap_quota snapshot,
               snap_billing_group := (snap_billing_group (conf_snapshot c))\<lparr>group_quota := g\<rparr>\<rparr>\<rparr>)\<rparr>"
  from c assms show ?thesis
    unfolding r by (simp add: billing_inv_def usable_current_Some validate_ignores_finance)
qed (use assms in \<open>simp_all add: billing_inv_lock\<close>)

lemma stage_confirmation_ok:
  assumes "stage_confirmation latch_open ticket choice snapshot s = (Inr staged, t)"
  shows "t = s" "staged_ok staged" "stage_pending staged = ticket" "bill_pending s = Some ticket"
    "same_choice choice snapshot"
  using assms
  by (auto simp: stage_confirmation_def staged_ok_def is_err_def is_ok_def split: if_splits sum.splits)

lemma billing_inv_invalidate:
  assumes "billing_inv s"
  shows "billing_inv (invalidate_current_billing s)"
proof (cases "billing_advance s")
  case (Pair r t)
  with billing_inv_advance [OF assms] have t: "billing_inv t" by simp
  then have "billing_inv (t\<lparr>bill_pending := None, bill_current := mark_unusable (bill_current t)\<rparr>)"
    by (auto simp: billing_inv_def mark_unusable_def)
  with Pair t assms show ?thesis
    by (auto simp: invalidate_current_billing_def billing_inv_lock split: sum.splits)
qed

lemma billing_inv_step:
  assumes "billing_step parse_uuid y z"
    and "billing_inv (bs_state y) \<and> (\<forall>st \<in> set (bs_staged y). staged_ok st)"
  shows "billing_inv (bs_state z) \<and> (\<forall>st \<in> set (bs_staged z). staged_ok st)"
  using assms
proof cases
  case (stages latch_open ticket choice snapshot staged s')
  with stage_confirmation_ok [OF stages(2)] assms(2) show ?thesis by auto
next
  case (staging_fails latch_open ticket choice snapshot e s')
  then have "s' = bs_state y \<or> s' = billing_lock (bs_state y) \<or> s' = abort_matching ticket (bs_state y)"
    by (auto simp: stage_confirmation_def split: if_splits)
  with staging_fails assms(2) show ?thesis by (auto simp: billing_inv_lock billing_inv_abort)
next
  case (publishes staged ticket)
  with assms(2) show ?thesis
    by (auto simp: publish_persisted_def billing_inv_lock staged_ok_def) (auto simp: billing_inv_def)
next
  case auth_changes
  with assms(2) show ?thesis
    by (auto simp: invalidate_for_auth_change_def billing_inv_lock billing_inv_None)
next
  case invalidates
  with assms(2) show ?thesis by (simp add: billing_inv_invalidate)
next
  case poisons
  with assms(2) show ?thesis by (auto simp: billing_inv_def)
qed (use assms(2) in \<open>auto simp: billing_inv_bind billing_inv_begin billing_inv_abort abort_switch_def
    switch_ticket_drop_def billing_inv_refresh\<close>)

lemma billing_inv_run:
  assumes "(billing_step parse_uuid)\<^sup>*\<^sup>* billing_start y"
  shows "billing_inv (bs_state y)"
proof -
  have "billing_inv (bs_state y) \<and> (\<forall>st \<in> set (bs_staged y). staged_ok st)"
    by (rule run_invariant [where I = "\<lambda>y. billing_inv (bs_state y) \<and> (\<forall>st \<in> set (bs_staged y). staged_ok st)", OF assms])
      (auto simp: billing_start_def billing_default_def billing_inv_None dest: billing_inv_step)
  then show ?thesis by blast
qed

section \<open>Captured scopes\<close>

text \<open>
  An epoch is past when it was handed out and every pending switch is younger. From then on no step makes a scope
  of this epoch, or of an older one, current that was not.
\<close>

definition past_epoch :: "u64 \<Rightarrow> billing_state \<Rightarrow> bool" where
  "past_epoch e s = (e \<le> bill_epoch s \<and> (\<forall>p. bill_pending s = Some p \<longrightarrow> e < pend_epoch p))"

definition revives_nothing :: "u64 \<Rightarrow> billing_state \<Rightarrow> billing_state \<Rightarrow> bool" where
  "revives_nothing e s t =
    (past_epoch e s \<longrightarrow> past_epoch e t
      \<and> (\<forall>b. billing_context_epoch b \<le> e \<longrightarrow> is_current b t \<longrightarrow> is_current b s))"

lemma is_current_iff: "is_current b s \<longleftrightarrow> (\<exists>c. usable_current s = Some c \<and> conf_scope c = b)"
  by (auto simp: is_current_def confirmed_scope_def)

lemma revives_nothing_refl: "revives_nothing e s s"
  by (simp add: revives_nothing_def)

lemma revives_nothing_none:
  "bill_epoch s \<le> bill_epoch t \<Longrightarrow> bill_pending t = None \<Longrightarrow> usable_current t = None \<Longrightarrow> revives_nothing e s t"
  by (auto simp: revives_nothing_def past_epoch_def is_current_iff)

lemma revives_nothing_lock: "bill_poisoned s \<Longrightarrow> revives_nothing e s (billing_lock s)"
  by (rule revives_nothing_none) (simp_all add: billing_lock_def usable_current_def)

lemma advance_epoch: "bill_epoch s \<le> bill_epoch (snd (billing_advance s))"
  using billing_advance_ok(1,4) [of s] billing_advance_err(1) [of s]
  by (cases "billing_advance s"; cases "fst (billing_advance s)") (fastforce simp: less_imp_le)+

lemma revives_nothing_advance: "revives_nothing e s (snd (billing_advance s))"
proof (cases "billing_advance s")
  case (Pair r t)
  show ?thesis
  proof (cases r)
    case (Inl f)
    with Pair billing_advance_err(1) [of s f t] show ?thesis
      by (auto intro: revives_nothing_refl revives_nothing_none simp: usable_current_def)
  next
    case (Inr epoch)
    with Pair have "billing_advance s = (Inr epoch, t)" by simp
    note ok = billing_advance_ok(1,4) [OF this]
    then show ?thesis using Pair
      by (auto simp: revives_nothing_def past_epoch_def is_current_iff usable_current_def)
  qed
qed

lemma revives_nothing_begin:
  "revives_nothing e s (snd (begin_switch parse_uuid session device gid rollback s))"
proof (cases "begin_switch parse_uuid session device gid rollback s")
  case (Pair r t)
  show ?thesis
  proof (cases r)
    case (Inl f)
    with Pair have "t = s \<or> bill_poisoned s \<and> t = billing_lock s \<or> t = snd (billing_advance s)"
      by (auto simp: begin_switch_def Let_def split: if_splits prod.splits sum.splits)
    with Pair show ?thesis by (auto simp: revives_nothing_refl revives_nothing_lock revives_nothing_advance)
  next
    case (Inr pending)
    with Pair have "begin_switch parse_uuid session device gid rollback s = (Inr pending, t)" by simp
    note b = begin_switch_ok [OF this]
    then have "usable_current t = None" "bill_pending t = Some pending" "bill_epoch t = pend_epoch pending"
      by (simp_all add: usable_current_def)
    with b(4) Pair show ?thesis by (auto simp: revives_nothing_def past_epoch_def is_current_iff)
  qed
qed

lemma revives_nothing_abort: "revives_nothing e s (abort_matching ticket s)"
proof (cases "bill_poisoned s \<or> bill_pending s \<noteq> Some ticket")
  case True
  then show ?thesis by (auto simp: abort_matching_def revives_nothing_refl revives_nothing_lock)
next
  case False
  let ?s = "s\<lparr>bill_pending := None\<rparr>"
  obtain r t where a: "billing_advance ?s = (r, t)" by (cases "billing_advance ?s")
  show ?thesis
  proof (cases r)
    case (Inl f)
    with a billing_advance_err [of ?s f t] have "bill_pending t = None" "bill_epoch t = bill_epoch s" "usable_current t = None"
      by (auto simp: usable_current_def)
    with False a Inl show ?thesis
      by (auto simp: abort_matching_def intro: revives_nothing_none)
  next
    case (Inr epoch)
    with a have "billing_advance ?s = (Inr epoch, t)" by simp
    note ok = billing_advance_ok(1,4) [OF this]
    have fresh: "billing_context_epoch b = epoch" if "is_current b (abort_matching ticket s)" for b
      using that False a Inr by (auto simp: abort_matching_def is_current_iff usable_current_Some)
    have "bill_epoch (abort_matching ticket s) = epoch" "bill_pending (abort_matching ticket s) = None"
      using False a Inr ok(1) by (simp_all add: abort_matching_def)
    with fresh ok(2) show ?thesis by (fastforce simp: revives_nothing_def past_epoch_def)
  qed
qed

lemma revives_nothing_publish: "revives_nothing e s (publish_persisted ticket staged s)"
proof (cases "\<not> bill_poisoned s \<and> \<not> bill_closed s \<and> bill_pending s = Some ticket \<and> stage_pending staged = ticket")
  case True
  then have "is_current b (publish_persisted ticket staged s) \<Longrightarrow> b = pend_scope ticket" for b
    by (auto simp: publish_persisted_def is_current_iff usable_current_Some)
  moreover have "past_epoch e s \<Longrightarrow> e < pend_epoch ticket" using True by (simp add: past_epoch_def)
  moreover have "past_epoch e s \<Longrightarrow> past_epoch e (publish_persisted ticket staged s)"
    using True by (auto simp: publish_persisted_def past_epoch_def)
  ultimately show ?thesis by (fastforce simp: revives_nothing_def)
next
  case False
  then show ?thesis by (auto simp: publish_persisted_def revives_nothing_refl revives_nothing_lock)
qed

lemma revives_nothing_step:
  assumes "billing_step parse_uuid y z"
  shows "revives_nothing e (bs_state y) (bs_state z)"
  using assms
proof cases
  case (stages latch_open ticket choice snapshot staged s')
  with stage_confirmation_ok [OF stages(2)] show ?thesis by (simp add: revives_nothing_refl)
next
  case (staging_fails latch_open ticket choice snapshot f s')
  then have "s' = bs_state y \<or> bill_poisoned (bs_state y) \<and> s' = billing_lock (bs_state y) \<or> s' = abort_matching ticket (bs_state y)"
    by (auto simp: stage_confirmation_def split: if_splits)
  with staging_fails show ?thesis
    by (auto simp: revives_nothing_refl revives_nothing_lock revives_nothing_abort)
next
  case (publishes staged ticket)
  then show ?thesis by (simp add: revives_nothing_publish)
next
  case (binds session)
  then show ?thesis
    using advance_epoch [of "bs_state y"] revives_nothing_advance [of e "bs_state y"]
    by (auto simp: bind_authenticated_session_def revives_nothing_lock usable_current_def intro!: revives_nothing_none
        split: prod.splits sum.splits)
next
  case auth_changes
  then show ?thesis
    using advance_epoch [of "bs_state y"]
    by (auto simp: invalidate_for_auth_change_def revives_nothing_lock usable_current_def intro!: revives_nothing_none)
next
  case invalidates
  then show ?thesis
    using advance_epoch [of "bs_state y"] revives_nothing_advance [of e "bs_state y"]
    by (auto simp: invalidate_current_billing_def revives_nothing_lock usable_current_def mark_unusable_def
        intro!: revives_nothing_none split: prod.splits sum.splits option.splits)
next
  case (refreshes scope snapshot)
  have lock: "snd (refresh_financial_snapshot scope snapshot s) = billing_lock s \<Longrightarrow>
      bill_poisoned s \<or> snd (refresh_financial_snapshot scope snapshot s) = s" for s
    by (auto simp: billing_lock_def split: if_splits)
  have "revives_nothing e s (s\<lparr>bill_current := Some (c\<lparr>conf_snapshot := a\<rparr>)\<rparr>)" if "usable_current s = Some c" for s c a
    using that by (auto simp: revives_nothing_def past_epoch_def is_current_iff usable_current_Some)
  with refreshes refresh_financial_cases [of scope snapshot "bs_state y"] lock [of "bs_state y"] show ?thesis
    by (auto simp: revives_nothing_refl revives_nothing_lock)
next
  case poisons
  then show ?thesis by (auto simp: revives_nothing_def past_epoch_def is_current_iff usable_current_def)
qed (auto simp: abort_switch_def switch_ticket_drop_def revives_nothing_refl revives_nothing_abort revives_nothing_begin)

lemma past_epoch_run:
  assumes "(billing_step parse_uuid)\<^sup>*\<^sup>* y z" and "past_epoch e (bs_state y)"
  shows "past_epoch e (bs_state z) \<and> (\<forall>b. billing_context_epoch b \<le> e \<longrightarrow> is_current b (bs_state z) \<longrightarrow> is_current b (bs_state y))"
  using assms
proof (induction rule: rtranclp_induct)
  case (step u v)
  with revives_nothing_step [of parse_uuid u v e] show ?case unfolding revives_nothing_def by blast
qed simp

lemma current_is_past:
  assumes "(billing_step parse_uuid)\<^sup>*\<^sup>* billing_start y" and "is_current a (bs_state y)"
  shows "past_epoch (billing_context_epoch a) (bs_state y)"
  using billing_inv_run [OF assms(1)] assms(2)
  by (auto simp: past_epoch_def is_current_iff usable_current_Some billing_inv_def)

section \<open>Properties\<close>

text \<open>
  C17: a billing epoch names one payer, for good. Let a scope be current at some point of a run and another at a
  later one. If the epoch of the later scope is not a younger one, both are the same scope, and it was current
  at every point between: a scope that was dropped once (by a switch, even one that is aborted, a logout
  or an invalidation) never becomes current again, and two scopes captured at any times with the same epoch are
  the same scope.
\<close>

theorem billing_epoch_names_one_payer:
  assumes "(billing_step parse_uuid)\<^sup>*\<^sup>* billing_start x" and "(billing_step parse_uuid)\<^sup>*\<^sup>* x y"
    and "(billing_step parse_uuid)\<^sup>*\<^sup>* y z"
    and "is_current a (bs_state x)" and "is_current b (bs_state z)"
    and "billing_context_epoch b \<le> billing_context_epoch a"
  shows "a = b \<and> is_current a (bs_state y)"
proof -
  note past = current_is_past [OF assms(1,4)]
  from past_epoch_run [OF assms(2) past] past_epoch_run [OF assms(3)] assms(5,6)
  have y: "is_current b (bs_state y)" by blast
  with past_epoch_run [OF assms(2) past] assms(6) have "is_current b (bs_state x)" by blast
  with assms(4) have "a = b" by (simp add: is_current_def)
  with y show ?thesis by simp
qed

definition witness_session :: session_scope where
  "witness_session = \<lparr>scope_owner_user_id = ''u'', scope_auth_epoch = 1\<rparr>"

definition witness_choice :: account_group_choice where
  "witness_choice = \<lparr>group_id = ''g'', group_name = ''team'', group_status = ''active'', group_role = ''owner'',
    group_member_id = None, group_relationship_status = None, group_readable_context = True,
    group_selectable = True, group_version = ''1'', group_membership_version = None,
    group_capabilities = [''bill''], group_quota = None\<rparr>"

definition witness_snapshot :: account_snapshot where
  "witness_snapshot = \<lparr>snap_user = \<lparr>user_id = ''u'', user_email_masked = ''u@example.com'', user_nickname = None,
      user_status = ''active'', user_registered_at = ''2026-09-07'', user_invitation_code_submitted = False\<rparr>,
    snap_read_only = False, snap_capabilities = [''bill''],
    snap_auth_methods = \<lparr>auth_email_bound = True, auth_wechat_bound = False, auth_wechat_can_unbind = False,
      auth_wechat_nickname = None, auth_password_set = True\<rparr>,
    snap_membership = None, snap_billing_group = witness_choice, snap_entitlement = JNull,
    snap_credits = None, snap_quota = None\<rparr>"

definition witness_scope :: billing_scope where
  "witness_scope = \<lparr>billing_request = \<lparr>request_session = witness_session, request_account_group_id = ''g''\<rparr>,
    billing_context_epoch = 2\<rparr>"

definition witness_pending :: pending_billing_switch where
  "witness_pending = \<lparr>pend_scope = witness_scope, pend_device = ''d'', pend_rollback = StillValid\<rparr>"

definition witness_confirmed :: billing_system where
  "witness_confirmed = \<lparr>bs_state = \<lparr>bill_epoch = 2, bill_closed = False, bill_session = Some witness_session,
      bill_pending = None,
      bill_current = Some \<lparr>conf_scope = witness_scope, conf_snapshot = witness_snapshot, conf_usable = True\<rparr>,
      bill_poisoned = False\<rparr>,
    bs_staged = [\<lparr>stage_pending = witness_pending, stage_snapshot = witness_snapshot\<rparr>]\<rparr>"

lemmas witness_billing_defs =
  witness_session_def witness_choice_def witness_snapshot_def witness_scope_def witness_pending_def

lemma witness_validated: "validate_snapshot_context witness_snapshot witness_scope = Inr ()"
  by (simp add: validate_snapshot_context_def active_is_selectable_def witness_billing_defs)

lemma witness_confirmed_reachable: "(billing_step Some)\<^sup>*\<^sup>* billing_start witness_confirmed"
proof -
  let ?b = "\<lparr>bs_state = billing_default\<lparr>bill_epoch := 1, bill_session := Some witness_session\<rparr>, bs_staged = []\<rparr>"
  let ?p = "?b\<lparr>bs_state := billing_default\<lparr>bill_epoch := 2, bill_session := Some witness_session,
      bill_pending := Some witness_pending\<rparr>\<rparr>"
  let ?st = "\<lparr>stage_pending = witness_pending, stage_snapshot = witness_snapshot\<rparr>"
  let ?s = "?p\<lparr>bs_staged := [?st]\<rparr>"
  have "billing_step Some billing_start ?b"
    using binds [of Some billing_start witness_session]
    by (simp add: bind_authenticated_session_def billing_advance_def checked_add_def billing_start_def billing_default_def)
  moreover have "billing_step Some ?b ?p"
    using switch_begins [of Some ?b witness_session "''d''" "''g''" StillValid]
    by (simp add: begin_switch_def billing_advance_def checked_add_def billing_default_def canonical_uuid_def
        witness_pending_def witness_scope_def Let_def)
  moreover have "billing_step Some ?p ?s"
  proof -
    have "stage_confirmation True witness_pending witness_choice witness_snapshot (bs_state ?p) = (Inr ?st, bs_state ?p)"
      using witness_validated
      by (simp add: stage_confirmation_def billing_default_def same_choice_def witness_pending_def)
        (simp add: witness_billing_defs)
    from stages [OF this] show ?thesis by simp
  qed
  moreover have "billing_step Some ?s witness_confirmed"
    using publishes [of ?st ?s Some witness_pending]
    by (simp add: publish_persisted_def billing_default_def witness_confirmed_def witness_pending_def)
  ultimately show ?thesis by (meson converse_rtranclp_into_rtranclp rtranclp.rtrancl_refl)
qed

definition witness_other_pending :: pending_billing_switch where
  "witness_other_pending = \<lparr>pend_scope = \<lparr>billing_request = \<lparr>request_session = witness_session,
      request_account_group_id = ''h''\<rparr>, billing_context_epoch = 3\<rparr>, pend_device = ''d'', pend_rollback = StillValid\<rparr>"

lemma witness_begin_other:
  "begin_switch Some witness_session ''d'' ''h'' StillValid (bs_state witness_confirmed) =
    (Inr witness_other_pending, (bs_state witness_confirmed)\<lparr>bill_epoch := 3, bill_pending := Some witness_other_pending\<rparr>)"
  by (simp add: begin_switch_def witness_confirmed_def canonical_uuid_def billing_advance_def checked_add_def
      witness_other_pending_def Let_def)

definition witness_aborted :: billing_system where
  "witness_aborted = witness_confirmed\<lparr>bs_state := (bs_state witness_confirmed)\<lparr>bill_epoch := 4,
     bill_current := Some \<lparr>conf_scope = witness_scope\<lparr>billing_context_epoch := 4\<rparr>,
       conf_snapshot = witness_snapshot, conf_usable = True\<rparr>\<rparr>\<rparr>"

definition witness_switching :: billing_system where
  "witness_switching = witness_confirmed\<lparr>bs_state := (bs_state witness_confirmed)\<lparr>bill_epoch := 3,
     bill_pending := Some witness_other_pending\<rparr>\<rparr>"

lemma witness_aborted_step: "(billing_step Some)\<^sup>*\<^sup>* witness_confirmed witness_switching"
  "(billing_step Some)\<^sup>*\<^sup>* witness_switching witness_aborted"
proof -
  have "billing_step Some witness_confirmed witness_switching"
    using switch_begins [of Some witness_confirmed witness_session "''d''" "''h''" StillValid] witness_begin_other
    by (simp add: witness_switching_def)
  then show "(billing_step Some)\<^sup>*\<^sup>* witness_confirmed witness_switching" by blast
  have "billing_step Some witness_switching witness_aborted"
    using aborts [of Some witness_switching witness_other_pending]
    by (simp add: abort_switch_def abort_matching_def witness_confirmed_def billing_advance_def checked_add_def
        witness_aborted_def witness_other_pending_def witness_switching_def)
  then show "(billing_step Some)\<^sup>*\<^sup>* witness_switching witness_aborted" by blast
qed

text \<open>The payer before an aborted switch comes back, but the scope captured before it does not.\<close>

theorem billing_epoch_names_one_payer_witness:
  "is_current witness_scope (bs_state witness_confirmed) \<and> \<not> is_current witness_scope (bs_state witness_aborted)
   \<and> (\<exists>b. is_current b (bs_state witness_aborted) \<and> billing_request b = billing_request witness_scope)"
proof -
  have current: "is_current witness_scope (bs_state witness_confirmed)"
    by (simp add: is_current_def confirmed_scope_def usable_current_def witness_confirmed_def)
  have dropped: "\<not> is_current witness_scope (bs_state witness_switching)"
    by (simp add: is_current_def confirmed_scope_def usable_current_def witness_switching_def witness_confirmed_def)
  from billing_epoch_names_one_payer [OF witness_confirmed_reachable witness_aborted_step current _ order.refl] dropped
  have "\<not> is_current witness_scope (bs_state witness_aborted)" by blast
  moreover have "is_current (witness_scope\<lparr>billing_context_epoch := 4\<rparr>) (bs_state witness_aborted)"
    by (simp add: is_current_def confirmed_scope_def usable_current_def witness_aborted_def witness_confirmed_def)
  ultimately show ?thesis using current by (metis billing_scope.ext_inject billing_scope.surjective billing_scope.update_convs(2))
qed

text \<open>
  C1: whoever may be charged is active: in every reachable state a scope that \<open>current_scope\<close>
  hands out for billing, a purchase or a redemption is the confirmed one of the bound session; its
  group is the one of the snapshot the server returned for that user, active, selectable, owned or
  joined by the user, not read-only, and has the capability. No switch is pending.
\<close>

theorem chargeable_scope_is_active_payer:
  assumes "(billing_step parse_uuid)\<^sup>*\<^sup>* billing_start y" and "capability \<in> {Bill, Purchase, Redeem}"
    and "current_scope capability (bs_state y) = Inr scope"
  shows "\<exists>snapshot. confirmed_snapshot (bs_state y) = Some snapshot
    \<and> is_current scope (bs_state y)
    \<and> bill_session (bs_state y) = Some (scope_session scope)
    \<and> user_id (snap_user snapshot) = scope_owner_user_id (scope_session scope)
    \<and> group_id (snap_billing_group snapshot) = request_account_group_id (billing_request scope)
    \<and> active_is_selectable snapshot
    \<and> has_capability (snap_billing_group snapshot) capability
    \<and> bill_pending (bs_state y) = None"
proof -
  from assms(3) obtain c where c: "usable_current (bs_state y) = Some c" "scope = conf_scope c"
    "has_capability (snap_billing_group (conf_snapshot c)) capability"
    by (auto simp: current_scope_def split: if_splits option.splits)
  with billing_inv_run [OF assms(1)] have "validate_snapshot_context (conf_snapshot c) scope = Inr ()"
    and s: "bill_session (bs_state y) = Some (scope_session scope)"
    by (auto simp: billing_inv_def usable_current_Some)
  with validated_payer_active [OF _ assms(2) c(3)] c show ?thesis
    by (auto simp: confirmed_snapshot_def is_current_def confirmed_scope_def validate_snapshot_ok usable_current_Some)
qed

theorem chargeable_scope_is_active_payer_witness:
  "billable_scope (bs_state witness_confirmed) = Inr witness_scope
   \<and> (\<exists>snapshot. confirmed_snapshot (bs_state witness_confirmed) = Some snapshot \<and> active_is_selectable snapshot)"
proof -
  have "current_scope Bill (bs_state witness_confirmed) = Inr witness_scope"
    by (simp add: current_scope_def usable_current_def witness_confirmed_def has_capability_def
        has_known_capability_def witness_snapshot_def witness_choice_def)
  with chargeable_scope_is_active_payer [OF witness_confirmed_reachable, of Bill witness_scope] show ?thesis
    by (auto simp: billable_scope_def)
qed

text \<open>
  A switch is all or nothing for the old payer: while it is pending nobody can be charged;
  aborting it brings the old payer back under a fresh epoch when the old authority was declared
  still valid, and leaves nobody when it was declared invalid. Scopes captured before the switch
  stay stale either way. A ticket that is not the pending one aborts nothing.
\<close>

theorem aborted_switch:
  assumes "confirmed_scope s = Some old"
    and "begin_switch parse_uuid session device gid rollback s = (Inr pending, t)"
    and "bill_epoch t \<noteq> - 1"
  shows "confirmed_scope t = None \<and> is_err (current_scope capability t)
    \<and> confirmed_scope (abort_switch pending t) =
        (case rollback of StillValid \<Rightarrow> Some (old\<lparr>billing_context_epoch := bill_epoch t + 1\<rparr>) | Invalidated \<Rightarrow> None)
    \<and> (other \<noteq> pending \<longrightarrow> abort_switch other t = t)"
proof -
  from assms(1) obtain c where c: "bill_current s = Some c" "old = conf_scope c" "conf_usable c"
    "\<not> bill_poisoned s" "\<not> bill_closed s" "bill_pending s = None"
    by (auto simp: confirmed_scope_def usable_current_Some)
  note b = begin_switch_ok [OF assms(2)]
  from b c have t: "bill_pending t = Some pending" "\<not> bill_poisoned t" "\<not> bill_closed t"
    "pend_rollback pending = rollback"
    "bill_current t = Some (c\<lparr>conf_usable := (rollback \<noteq> Invalidated)\<rparr>)"
    by (cases c; simp add: mark_unusable_def)+
  have "checked_add (bill_epoch t) 1 = Some (bill_epoch t + 1)"
    using assms(3) checked_add_one_None_iff [of "bill_epoch t"] by (auto simp: checked_add_def split: if_splits)
  with t c(2) show ?thesis
    by (cases rollback) (auto simp: confirmed_scope_def usable_current_def current_scope_def abort_switch_def
        abort_matching_def billing_advance_def)
qed

theorem aborted_switch_witness:
  "confirmed_scope (abort_switch witness_other_pending (snd (begin_switch Some witness_session ''d'' ''h'' StillValid
      (bs_state witness_confirmed)))) = Some (witness_scope\<lparr>billing_context_epoch := 4\<rparr>)"
proof -
  have "confirmed_scope (bs_state witness_confirmed) = Some witness_scope"
    by (simp add: confirmed_scope_def usable_current_def witness_confirmed_def)
  from aborted_switch [OF this witness_begin_other] show ?thesis by (simp add: witness_begin_other)
qed

lemma find_filterD: "List.find P (filter Q xs) = Some x \<Longrightarrow> x \<in> set xs \<and> P x \<and> Q x"
  by (auto simp: find_Some_iff dest: nth_mem)

lemma findD: "List.find P xs = Some x \<Longrightarrow> x \<in> set xs \<and> P x"
  by (auto simp: find_Some_iff dest: nth_mem)

text \<open>
  The group chosen after a login is one of the offered ones and selectable, or the frozen team
  the user owns when nothing better exists; a selectable suggestion is always taken, a selectable
  saved choice whenever the suggestion is not, and an error means that no offered group qualifies.
\<close>

theorem choose_candidate_preference:
  "case choose_candidate choices saved suggestion of
     Inr c \<Rightarrow> c \<in> set choices
       \<and> (choice_selectable c \<or> (group_role c = ''owner'' \<and> group_status c = ''frozen'' \<and> \<not> group_selectable c
             \<and> (\<forall>d \<in> set choices. choice_selectable d \<longrightarrow> group_role d \<noteq> ''owner''
                  \<and> saved \<noteq> Some (group_id d) \<and> suggestion \<noteq> Some (group_id d))))
       \<and> (\<forall>d \<in> set choices. choice_selectable d \<longrightarrow> suggestion = Some (group_id d) \<longrightarrow> group_id c = group_id d)
       \<and> (\<forall>d \<in> set choices. choice_selectable d \<longrightarrow> saved = Some (group_id d) \<longrightarrow>
             group_id c = group_id d \<or> suggestion = Some (group_id c))
   | Inl e \<Rightarrow> \<forall>d \<in> set choices. \<not> (choice_selectable d \<and> group_role d = ''owner'')
       \<and> (choice_selectable d \<longrightarrow> saved \<noteq> Some (group_id d) \<and> suggestion \<noteq> Some (group_id d))"
proof -
  let ?by = "\<lambda>i. List.find (\<lambda>choice. group_id choice = i) (filter choice_selectable choices)"
  let ?owner = "List.find (\<lambda>choice. group_role choice = ''owner'') (filter choice_selectable choices)"
  let ?frozen = "List.find (\<lambda>choice. group_role choice = ''owner'' \<and> group_status choice = ''frozen''
      \<and> group_readable_context choice \<and> \<not> group_selectable choice) choices"
  have none: "Option.bind want ?by = None \<Longrightarrow> \<forall>d \<in> set choices. choice_selectable d \<longrightarrow> want \<noteq> Some (group_id d)" for want
    by (cases want) (auto simp: find_None_iff)
  have some: "Option.bind want ?by = Some c \<Longrightarrow> c \<in> set choices \<and> choice_selectable c \<and> want = Some (group_id c)" for want c
    by (cases want) (auto dest: find_filterD)
  have no_owner: "?owner = None \<Longrightarrow> \<forall>d \<in> set choices. choice_selectable d \<longrightarrow> group_role d \<noteq> ''owner''"
    by (auto simp: find_None_iff)
  note eq = choose_candidate_def [of choices saved suggestion, unfolded Let_def]
  show ?thesis
  proof (cases "Option.bind suggestion ?by")
    case (Some c)
    then have "choose_candidate choices saved suggestion = Inr c" by (simp add: eq or_else_def)
    with some [OF Some] show ?thesis by simp
  next
    case s: None
    show ?thesis
    proof (cases "Option.bind saved ?by")
      case (Some c)
      with s have "choose_candidate choices saved suggestion = Inr c" by (simp add: eq or_else_def)
      with some [OF Some] none [OF s] show ?thesis by simp
    next
      case v: None
      show ?thesis
      proof (cases ?owner)
        case (Some c)
        with s v have "choose_candidate choices saved suggestion = Inr c" by (simp add: eq or_else_def)
        with find_filterD [OF Some] none [OF s] none [OF v] show ?thesis by simp
      next
        case o: None
        show ?thesis
        proof (cases ?frozen)
          case (Some c)
          with s v o have "choose_candidate choices saved suggestion = Inr c" by (simp add: eq or_else_def)
          with findD [OF Some] none [OF s] none [OF v] no_owner [OF o] show ?thesis by simp
        next
          case None
          with s v o have "choose_candidate choices saved suggestion = Inl NoReadableAccount"
            by (simp add: eq or_else_def)
          with none [OF s] none [OF v] no_owner [OF o] show ?thesis by simp
        qed
      qed
    qed
  qed
qed

theorem choose_candidate_preference_witness:
  "choose_candidate [witness_choice] (Some ''g'') (Some ''h'') = Inr witness_choice \<and> choice_selectable witness_choice"
proof -
  have c: "choose_candidate [witness_choice] (Some ''g'') (Some ''h'') = Inr witness_choice"
    by (simp add: choose_candidate_def choice_selectable_def witness_choice_def or_else_def)
  have "group_status witness_choice \<noteq> ''frozen''" by (simp add: witness_choice_def)
  with choose_candidate_preference [of "[witness_choice]" "Some ''g''" "Some ''h''"] c show ?thesis by auto
qed

end
