(* ===== verification/Session_Store.thy ===== *)
theory Session_Store
  imports Namespace_Model Api_Error
begin

text \<open>
  The durable refresh session (\<open>native-client/src/runtime/api/session.rs\<close>): the record, the
  interface \<open>RefreshTokenStore\<close> as a locale, and its two providers, the file store over a locked
  directory and the memory store of the test support. System calls may fail: each consults a tape
  of outcomes in the disk state (\<open>True\<close>: the call fails), so every failure position is covered.
\<close>

section \<open>Records and the store interface\<close>

record persisted_refresh_session =
  rs_owner_user_id :: string
  rs_refresh_token :: string

datatype store_mutation = Applied | Conflict "persisted_refresh_session option"

record 'd refresh_token_store =
  store_load :: "'d \<Rightarrow> (api_error + persisted_refresh_session option) \<times> 'd"
  store_save :: "persisted_refresh_session \<Rightarrow> 'd \<Rightarrow> (api_error + unit) \<times> 'd"
  store_clear :: "'d \<Rightarrow> (api_error + unit) \<times> 'd"
  store_replace_if_current ::
    "persisted_refresh_session \<Rightarrow> persisted_refresh_session \<Rightarrow> 'd \<Rightarrow> (api_error + store_mutation) \<times> 'd"
  store_clear_if_current :: "persisted_refresh_session \<Rightarrow> 'd \<Rightarrow> (api_error + store_mutation) \<times> 'd"

text \<open>
  What a store promises, in terms of the record it holds: a read reports it and changes nothing, a
  conditional mutation applies exactly when the record is the expected one and otherwise reports
  the record it found, and an error leaves the record as it was.
\<close>

locale token_store =
  fixes store :: "'d refresh_token_store"
    and holds :: "'d \<Rightarrow> persisted_refresh_session option"
  assumes load_ok: "store_load store d = (Inr r, d') \<Longrightarrow> r = holds d"
    and load_keeps: "store_load store d = (q, d') \<Longrightarrow> holds d' = holds d"
    and save_ok: "store_save store n d = (Inr u, d') \<Longrightarrow> holds d' = Some n"
    and save_err: "store_save store n d = (Inl e, d') \<Longrightarrow> holds d' = holds d"
    and replace_applied: "store_replace_if_current store x n d = (Inr Applied, d') \<Longrightarrow> holds d = Some x \<and> holds d' = Some n"
    and replace_conflict:
      "store_replace_if_current store x n d = (Inr (Conflict c), d') \<Longrightarrow> c = holds d \<and> c \<noteq> Some x \<and> holds d' = holds d"
    and replace_err: "store_replace_if_current store x n d = (Inl e, d') \<Longrightarrow> holds d' = holds d"
    and clear_applied: "store_clear_if_current store x d = (Inr Applied, d') \<Longrightarrow> holds d = Some x \<and> holds d' = None"
    and clear_conflict:
      "store_clear_if_current store x d = (Inr (Conflict c), d') \<Longrightarrow> c = holds d \<and> c \<noteq> Some x \<and> holds d' = holds d"
    and clear_err: "store_clear_if_current store x d = (Inl e, d') \<Longrightarrow> holds d' = holds d"
begin

lemma replace_foreign:
  assumes "store_replace_if_current store x n d = (r, d')" and "holds d \<noteq> Some x"
  shows "holds d' = holds d \<and> r \<noteq> Inr Applied"
proof (cases r)
  case (Inl e)
  with assms(1) replace_err show ?thesis by auto
next
  case (Inr m)
  with assms replace_applied replace_conflict show ?thesis by (cases m) auto
qed

lemma clear_foreign:
  assumes "store_clear_if_current store x d = (r, d')" and "holds d \<noteq> Some x"
  shows "holds d' = holds d \<and> r \<noteq> Inr Applied"
proof (cases r)
  case (Inl e)
  with assms(1) clear_err show ?thesis by auto
next
  case (Inr m)
  with assms clear_applied clear_conflict show ?thesis by (cases m) auto
qed

end

section \<open>The memory store\<close>

definition memory_load ::
  "persisted_refresh_session option \<Rightarrow> (api_error + persisted_refresh_session option) \<times> persisted_refresh_session option" where
  "memory_load v = (Inr v, v)"

definition memory_save ::
  "persisted_refresh_session \<Rightarrow> persisted_refresh_session option \<Rightarrow> (api_error + unit) \<times> persisted_refresh_session option" where
  "memory_save session v = (Inr (), Some session)"

definition memory_clear ::
  "persisted_refresh_session option \<Rightarrow> (api_error + unit) \<times> persisted_refresh_session option" where
  "memory_clear v = (Inr (), None)"

definition memory_replace_if_current ::
  "persisted_refresh_session \<Rightarrow> persisted_refresh_session \<Rightarrow> persisted_refresh_session option
    \<Rightarrow> (api_error + store_mutation) \<times> persisted_refresh_session option" where
  "memory_replace_if_current expected replacement v =
    (if v \<noteq> Some expected then (Inr (Conflict v), v) else (Inr Applied, Some replacement))"

definition memory_clear_if_current ::
  "persisted_refresh_session \<Rightarrow> persisted_refresh_session option
    \<Rightarrow> (api_error + store_mutation) \<times> persisted_refresh_session option" where
  "memory_clear_if_current expected v =
    (if v \<noteq> Some expected then (Inr (Conflict v), v) else (Inr Applied, None))"

definition memory_store :: "persisted_refresh_session option refresh_token_store" where
  "memory_store = \<lparr>store_load = memory_load, store_save = memory_save, store_clear = memory_clear,
    store_replace_if_current = memory_replace_if_current, store_clear_if_current = memory_clear_if_current\<rparr>"

interpretation memory: token_store memory_store "\<lambda>v. v"
  by unfold_locales (auto simp: memory_store_def memory_load_def memory_save_def memory_replace_if_current_def
      memory_clear_if_current_def split: if_splits)

section \<open>The locked directory\<close>

text \<open>
  A file holds the serialisation of a session or other bytes; the serialisation
  (\<open>serde_json::to_vec\<close>) is represented by the session it parses back to.
\<close>

datatype file_bytes = Serialized persisted_refresh_session | OtherBytes string

record session_disk =
  disk_directory :: bool
  disk_files :: "string \<rightharpoonup> file_bytes"
  disk_faults :: "bool list"
  disk_temp_sequence :: u64

definition REFRESH_SESSION_FILE :: string where
  "REFRESH_SESSION_FILE = ''refresh-session.json''"

definition system_call :: "session_disk \<Rightarrow> bool \<times> session_disk" where
  "system_call d =
    (case disk_faults d of [] \<Rightarrow> (False, d) | f # fs \<Rightarrow> (f, d\<lparr>disk_faults := fs\<rparr>))"

abbreviation disk_error :: api_error where
  "disk_error \<equiv> LocalState ''a file operation on the refresh session failed''"

text \<open>
  Opening finds the two directories or makes them, and may fail on the way; then it checks the
  session directory, opens the lock file and takes the lock. When one of these fails, a directory
  that was just made stays.
\<close>

definition locked_open :: "bool \<Rightarrow> session_disk \<Rightarrow> (api_error + bool) \<times> session_disk" where
  "locked_open create d =
    (case system_call d of
       (True, d) \<Rightarrow> (Inl disk_error, d)
     | (False, d) \<Rightarrow>
         if \<not> disk_directory d \<and> \<not> create then (Inr False, d)
         else
           (let d = (if disk_directory d then d else d\<lparr>disk_directory := True, disk_files := Map.empty\<rparr>) in
            case system_call d of
              (True, d) \<Rightarrow> (Inl disk_error, d)
            | (False, d) \<Rightarrow> (Inr True, d)))"

definition locked_load :: "session_disk \<Rightarrow> (api_error + file_bytes option) \<times> session_disk" where
  "locked_load d =
    (case system_call d of
       (True, d) \<Rightarrow> (Inl disk_error, d)
     | (False, d) \<Rightarrow> (Inr (disk_files d REFRESH_SESSION_FILE), d))"

definition cleanup_created_temporary :: "string \<Rightarrow> session_disk \<Rightarrow> session_disk" where
  "cleanup_created_temporary name d =
    (case system_call d of
       (True, d) \<Rightarrow> d
     | (False, d) \<Rightarrow> d\<lparr>disk_files := (disk_files d)(name := None)\<rparr>)"

text \<open>
  Create the temporary file exclusively, check it, write and sync it, rename it over the session
  file. After a failed check the temporary file stays; after a failed write or rename it is removed,
  if it can be. Nothing can fail after the rename. What a failed write left in the temporary file,
  which matters only when the file cannot be removed, is modelled as no bytes.
\<close>

definition locked_replace :: "string \<Rightarrow> file_bytes \<Rightarrow> session_disk \<Rightarrow> (api_error + unit) \<times> session_disk" where
  "locked_replace temporary v d =
    (case system_call d of
       (True, d) \<Rightarrow> (Inl disk_error, d)
     | (False, d) \<Rightarrow>
         if disk_files d temporary \<noteq> None then (Inl disk_error, d)
         else
           (let d = d\<lparr>disk_files := (disk_files d)(temporary \<mapsto> OtherBytes [])\<rparr> in
            case system_call d of
              (True, d) \<Rightarrow> (Inl disk_error, d)
            | (False, d) \<Rightarrow>
                (case system_call d of
                   (True, d) \<Rightarrow> (Inl disk_error, cleanup_created_temporary temporary d)
                 | (False, d) \<Rightarrow>
                     (let d = d\<lparr>disk_files := (disk_files d)(temporary \<mapsto> v)\<rparr> in
                      case system_call d of
                        (True, d) \<Rightarrow> (Inl disk_error, cleanup_created_temporary temporary d)
                      | (False, d) \<Rightarrow>
                          (Inr (), d\<lparr>disk_files :=
                            (disk_files d)(temporary := None, REFRESH_SESSION_FILE := disk_files d temporary)\<rparr>)))))"

definition locked_remove :: "session_disk \<Rightarrow> (api_error + unit) \<times> session_disk" where
  "locked_remove d =
    (case system_call d of
       (True, d) \<Rightarrow> (Inl disk_error, d)
     | (False, d) \<Rightarrow> (Inr (), d\<lparr>disk_files := (disk_files d)(REFRESH_SESSION_FILE := None)\<rparr>))"

section \<open>The file store\<close>

text \<open>
  Parameters: \<open>parse_uuid\<close> (the uuid crate), \<open>from_slice\<close> (\<open>serde_json::from_slice\<close> on bytes this
  program did not write) and \<open>temporary\<close>, the name made of the process id and the sequence number,
  which starts with a dot.
\<close>

record store_environment =
  env_parse_uuid :: uuid_parser
  env_from_slice :: "string \<Rightarrow> persisted_refresh_session option"
  env_temporary :: "u64 \<Rightarrow> string"

definition canonical_owner_user_id :: "uuid_parser \<Rightarrow> string \<Rightarrow> api_error + string" where
  "canonical_owner_user_id parse_uuid owner =
    (case parse_uuid owner of Some canonical \<Rightarrow> Inr canonical
     | None \<Rightarrow> Inl (Protocol ''the owner of the local refresh session is invalid'' None))"

definition valid_session :: "uuid_parser \<Rightarrow> persisted_refresh_session \<Rightarrow> bool" where
  "valid_session parse_uuid session =
    (canonical_uuid parse_uuid (rs_owner_user_id session) \<and> \<not> is_blank (rs_refresh_token session))"

definition validate_and_serialize :: "store_environment \<Rightarrow> persisted_refresh_session \<Rightarrow> api_error + file_bytes" where
  "validate_and_serialize env session =
    bind_result (canonical_owner_user_id (env_parse_uuid env) (rs_owner_user_id session)) (\<lambda>canonical.
      if canonical \<noteq> rs_owner_user_id session \<or> is_blank (rs_refresh_token session)
      then Inl (LocalState ''refused to save an invalid refresh session'')
      else Inr (Serialized session))"

definition store_parse :: "store_environment \<Rightarrow> file_bytes \<Rightarrow> api_error + persisted_refresh_session" where
  "store_parse env v =
    (case (case v of Serialized s \<Rightarrow> Some s | OtherBytes b \<Rightarrow> env_from_slice env b) of
       None \<Rightarrow> Inl (Protocol ''the local refresh session is malformed'' None)
     | Some session \<Rightarrow>
         bind_result (canonical_owner_user_id (env_parse_uuid env) (rs_owner_user_id session)) (\<lambda>canonical.
           if canonical \<noteq> rs_owner_user_id session \<or> is_blank (rs_refresh_token session)
           then Inl (Protocol ''the local refresh session is malformed'' None)
           else Inr session))"

definition parse_option ::
  "store_environment \<Rightarrow> file_bytes option \<Rightarrow> api_error + persisted_refresh_session option" where
  "parse_option env v =
    (case v of None \<Rightarrow> Inr None | Some b \<Rightarrow> bind_result (store_parse env b) (\<lambda>s. Inr (Some s)))"

text \<open>\<open>store.load()?.map(parse).transpose()?\<close>, which three operations share.\<close>

definition load_parsed ::
  "store_environment \<Rightarrow> session_disk \<Rightarrow> (api_error + persisted_refresh_session option) \<times> session_disk" where
  "load_parsed env d =
    (case locked_load d of
       (Inl e, d) \<Rightarrow> (Inl e, d)
     | (Inr v, d) \<Rightarrow> (parse_option env v, d))"

definition temporary_name :: "store_environment \<Rightarrow> session_disk \<Rightarrow> string \<times> session_disk" where
  "temporary_name env d =
    (CHR ''.'' # env_temporary env (disk_temp_sequence d), d\<lparr>disk_temp_sequence := disk_temp_sequence d + 1\<rparr>)"

definition file_load ::
  "store_environment \<Rightarrow> session_disk \<Rightarrow> (api_error + persisted_refresh_session option) \<times> session_disk" where
  "file_load env d =
    (case locked_open False d of
       (Inl e, d) \<Rightarrow> (Inl e, d)
     | (Inr present, d) \<Rightarrow> if present then load_parsed env d else (Inr None, d))"

definition file_save ::
  "store_environment \<Rightarrow> persisted_refresh_session \<Rightarrow> session_disk \<Rightarrow> (api_error + unit) \<times> session_disk" where
  "file_save env session d =
    (case validate_and_serialize env session of
       Inl e \<Rightarrow> (Inl e, d)
     | Inr serialized \<Rightarrow>
         (case locked_open True d of
            (Inl e, d) \<Rightarrow> (Inl e, d)
          | (Inr present, d) \<Rightarrow>
              if \<not> present then (Inl (LocalState ''creating the session directory failed''), d)
              else (case temporary_name env d of (name, d) \<Rightarrow> locked_replace name serialized d)))"

definition file_clear :: "store_environment \<Rightarrow> session_disk \<Rightarrow> (api_error + unit) \<times> session_disk" where
  "file_clear env d =
    (case locked_open False d of
       (Inl e, d) \<Rightarrow> (Inl e, d)
     | (Inr present, d) \<Rightarrow>
         if \<not> present then (Inr (), d)
         else (case load_parsed env d of
                 (Inl e, d) \<Rightarrow> (Inl e, d)
               | (Inr current, d) \<Rightarrow> if current \<noteq> None then locked_remove d else (Inr (), d)))"

definition file_replace_if_current ::
  "store_environment \<Rightarrow> persisted_refresh_session \<Rightarrow> persisted_refresh_session \<Rightarrow> session_disk
    \<Rightarrow> (api_error + store_mutation) \<times> session_disk" where
  "file_replace_if_current env expected replacement d =
    (case validate_and_serialize env replacement of
       Inl e \<Rightarrow> (Inl e, d)
     | Inr serialized \<Rightarrow>
         (case locked_open False d of
            (Inl e, d) \<Rightarrow> (Inl e, d)
          | (Inr present, d) \<Rightarrow>
              if \<not> present then (Inr (Conflict None), d)
              else (case load_parsed env d of
                      (Inl e, d) \<Rightarrow> (Inl e, d)
                    | (Inr current, d) \<Rightarrow>
                        if current \<noteq> Some expected then (Inr (Conflict current), d)
                        else (case temporary_name env d of
                                (name, d) \<Rightarrow>
                                  (case locked_replace name serialized d of
                                     (Inl e, d) \<Rightarrow> (Inl e, d)
                                   | (Inr _, d) \<Rightarrow> (Inr Applied, d))))))"

definition file_clear_if_current ::
  "store_environment \<Rightarrow> persisted_refresh_session \<Rightarrow> session_disk \<Rightarrow> (api_error + store_mutation) \<times> session_disk" where
  "file_clear_if_current env expected d =
    (case locked_open False d of
       (Inl e, d) \<Rightarrow> (Inl e, d)
     | (Inr present, d) \<Rightarrow>
         if \<not> present then (Inr (Conflict None), d)
         else (case load_parsed env d of
                 (Inl e, d) \<Rightarrow> (Inl e, d)
               | (Inr current, d) \<Rightarrow>
                   if current \<noteq> Some expected then (Inr (Conflict current), d)
                   else (case locked_remove d of
                           (Inl e, d) \<Rightarrow> (Inl e, d)
                         | (Inr _, d) \<Rightarrow> (Inr Applied, d))))"

definition file_store :: "store_environment \<Rightarrow> session_disk refresh_token_store" where
  "file_store env = \<lparr>store_load = file_load env, store_save = file_save env, store_clear = file_clear env,
    store_replace_if_current = file_replace_if_current env, store_clear_if_current = file_clear_if_current env\<rparr>"

section \<open>The file store keeps the promises\<close>

definition disk_record :: "store_environment \<Rightarrow> session_disk \<Rightarrow> persisted_refresh_session option" where
  "disk_record env d =
    (if disk_directory d
     then (case parse_option env (disk_files d REFRESH_SESSION_FILE) of Inr r \<Rightarrow> r | Inl _ \<Rightarrow> None)
     else None)"

definition same_session_file :: "session_disk \<Rightarrow> session_disk \<Rightarrow> bool" where
  "same_session_file d d' =
    (disk_directory d' = disk_directory d \<and> disk_files d' REFRESH_SESSION_FILE = disk_files d REFRESH_SESSION_FILE)"

lemma same_session_file_record: "same_session_file d d' \<Longrightarrow> disk_record env d' = disk_record env d"
  by (simp add: same_session_file_def disk_record_def)

lemma same_session_file_refl [simp]: "same_session_file d d"
  by (simp add: same_session_file_def)

lemma same_session_file_trans: "same_session_file d e \<Longrightarrow> same_session_file e f \<Longrightarrow> same_session_file d f"
  by (simp add: same_session_file_def)

lemma system_call_keeps:
  assumes "system_call d = (f, d')"
  shows "disk_directory d' = disk_directory d" "disk_files d' = disk_files d"
    "disk_temp_sequence d' = disk_temp_sequence d" "same_session_file d d'"
  using assms by (auto simp: system_call_def same_session_file_def split: list.splits)

lemma locked_open_keeps:
  assumes "locked_open create d = (r, d')"
  shows "disk_record env d' = disk_record env d"
    "r = Inr True \<Longrightarrow> disk_directory d'" "r = Inr False \<Longrightarrow> \<not> disk_directory d' \<and> \<not> create"
proof -
  obtain f1 d1 where 1: "system_call d = (f1, d1)" by (cases "system_call d")
  define d2 where "d2 = (if disk_directory d1 then d1 else d1\<lparr>disk_directory := True, disk_files := Map.empty\<rparr>)"
  obtain f3 d3 where 3: "system_call d2 = (f3, d3)" by (cases "system_call d2")
  note k1 = system_call_keeps [OF 1] and k3 = system_call_keeps [OF 3]
  have run: "(r, d') = (if f1 then (Inl disk_error, d1)
      else if \<not> disk_directory d1 \<and> \<not> create then (Inr False, d1)
      else if f3 then (Inl disk_error, d3) else (Inr True, d3))"
    using assms unfolding locked_open_def 1 prod.case Let_def d2_def [symmetric] 3
    by (cases f1; cases f3) (auto split: if_splits)
  have "disk_directory d2" "disk_record env d2 = disk_record env d"
    using k1(1,2) by (auto simp: d2_def disk_record_def parse_option_def)
  then have r3: "disk_record env d3 = disk_record env d" "disk_directory d3"
    using k3(1,2) by (simp_all add: disk_record_def)
  have r1: "disk_record env d1 = disk_record env d" by (rule same_session_file_record [OF k1(4)])
  show "disk_record env d' = disk_record env d" using run r1 r3 by (auto split: if_splits)
  show "r = Inr True \<Longrightarrow> disk_directory d'" using run r3 by (auto split: if_splits)
  show "r = Inr False \<Longrightarrow> \<not> disk_directory d' \<and> \<not> create" using run by (auto split: if_splits)
qed

lemma locked_load_keeps:
  assumes "locked_load d = (r, d')"
  shows "same_session_file d d'" "r = Inr v \<Longrightarrow> v = disk_files d REFRESH_SESSION_FILE"
  using assms system_call_keeps [of d]
  by (auto simp: locked_load_def split: prod.splits bool.splits)

lemma load_parsed_keeps:
  assumes "load_parsed env d = (r, d')"
  shows "same_session_file d d'" "disk_directory d \<Longrightarrow> r = Inr v \<Longrightarrow> v = disk_record env d"
  using assms locked_load_keeps [of d]
  by (auto simp: load_parsed_def disk_record_def split: prod.splits sum.splits)

lemma cleanup_keeps:
  "name \<noteq> REFRESH_SESSION_FILE \<Longrightarrow> same_session_file d (cleanup_created_temporary name d)"
  by (cases "system_call d"; cases "fst (system_call d)")
    (auto simp: cleanup_created_temporary_def same_session_file_def dest: system_call_keeps)

lemma locked_replace_keeps:
  assumes "locked_replace name v d = (r, d')" and "name \<noteq> REFRESH_SESSION_FILE"
  shows "case r of Inl e \<Rightarrow> same_session_file d d'
    | Inr u \<Rightarrow> disk_directory d' = disk_directory d \<and> disk_files d' REFRESH_SESSION_FILE = Some v"
proof -
  let ?temp = "\<lambda>x w. x\<lparr>disk_files := (disk_files x)(name \<mapsto> w)\<rparr>"
  obtain f1 d1 where 1: "system_call d = (f1, d1)" by (cases "system_call d")
  obtain f2 d2 where 2: "system_call (?temp d1 (OtherBytes [])) = (f2, d2)"
    by (cases "system_call (?temp d1 (OtherBytes []))")
  obtain f3 d3 where 3: "system_call d2 = (f3, d3)" by (cases "system_call d2")
  obtain f4 d4 where 4: "system_call (?temp d3 v) = (f4, d4)" by (cases "system_call (?temp d3 v)")
  have temp: "same_session_file x (?temp x w)" for x w using assms(2) by (simp add: same_session_file_def)
  have k1: "same_session_file d d1" by (rule system_call_keeps(4) [OF 1])
  have k2: "same_session_file d d2"
    using k1 temp system_call_keeps(4) [OF 2] same_session_file_trans by blast
  have k3: "same_session_file d d3"
    using k2 system_call_keeps(4) [OF 3] same_session_file_trans by blast
  have k4: "same_session_file d d4"
    using k3 temp system_call_keeps(4) [OF 4] same_session_file_trans by blast
  have clean: "same_session_file d x \<Longrightarrow> same_session_file d (cleanup_created_temporary name x)" for x
    using cleanup_keeps [OF assms(2)] same_session_file_trans by blast
  have "disk_files d4 name = Some v" using system_call_keeps(2) [OF 4] by simp
  with assms(1) k1 k2 k4 clean [OF k3] clean [OF k4] show ?thesis
    unfolding locked_replace_def 1 prod.case Let_def 2 3 4
    by (cases f1; cases f2; cases f3; cases f4) (auto simp: same_session_file_def split: if_splits)
qed

lemma locked_replace_err:
  "locked_replace name v d = (Inl e, d') \<Longrightarrow> name \<noteq> REFRESH_SESSION_FILE \<Longrightarrow> same_session_file d d'"
  using locked_replace_keeps by fastforce

lemma locked_replace_ok:
  "locked_replace name v d = (Inr u, d') \<Longrightarrow> name \<noteq> REFRESH_SESSION_FILE \<Longrightarrow>
    disk_directory d' = disk_directory d \<and> disk_files d' REFRESH_SESSION_FILE = Some v"
  using locked_replace_keeps by fastforce

lemma locked_remove_keeps:
  assumes "locked_remove d = (r, d')"
  shows "r = Inl e \<Longrightarrow> same_session_file d d'"
    "r = Inr u \<Longrightarrow> disk_directory d' = disk_directory d \<and> disk_files d' REFRESH_SESSION_FILE = None"
  using assms system_call_keeps [of d]
  by (auto simp: locked_remove_def split: prod.splits bool.splits)

lemma temporary_name_keeps:
  assumes "temporary_name env d = (name, d')"
  shows "name \<noteq> REFRESH_SESSION_FILE" "same_session_file d d'"
  using assms by (auto simp: temporary_name_def REFRESH_SESSION_FILE_def same_session_file_def)

lemma serialize_ok:
  assumes "validate_and_serialize env session = Inr v"
  shows "store_parse env v = Inr session"
  using assms by (auto simp: validate_and_serialize_def store_parse_def split: if_splits)

lemma disk_record_written:
  "disk_directory d \<Longrightarrow> disk_files d REFRESH_SESSION_FILE = Some v \<Longrightarrow> validate_and_serialize env n = Inr v \<Longrightarrow>
    disk_record env d = Some n"
  by (simp add: disk_record_def parse_option_def serialize_ok)

lemma disk_record_removed: "disk_files d REFRESH_SESSION_FILE = None \<Longrightarrow> disk_record env d = None"
  by (simp add: disk_record_def parse_option_def)

text \<open>What one conditional mutation does, up to the point where it writes or removes.\<close>

lemma file_load_keeps:
  assumes "file_load env d = (r, d')"
  shows "disk_record env d' = disk_record env d \<and> (\<forall>v. r = Inr v \<longrightarrow> v = disk_record env d)"
proof -
  obtain q d1 where 1: "locked_open False d = (q, d1)" by (cases "locked_open False d")
  note o = locked_open_keeps [OF 1]
  show ?thesis
  proof (cases q)
    case (Inl e)
    with assms 1 o(1) show ?thesis by (auto simp: file_load_def)
  next
    case (Inr present)
    show ?thesis
    proof (cases present)
      case True
      with assms 1 Inr have l: "load_parsed env d1 = (r, d')" by (simp add: file_load_def)
      with load_parsed_keeps(2) [OF l o(2)] same_session_file_record [OF load_parsed_keeps(1) [OF l]] o(1) Inr True
      show ?thesis by auto
    next
      case False
      with assms 1 Inr have "r = Inr None" "d' = d1" by (auto simp: file_load_def)
      moreover have "disk_record env d1 = None" using o(3) Inr False by (simp add: disk_record_def)
      ultimately show ?thesis using o(1) by auto
    qed
  qed
qed

lemma file_save_keeps:
  assumes "file_save env n d = (r, d')"
  shows "case r of Inl e \<Rightarrow> disk_record env d' = disk_record env d | Inr u \<Rightarrow> disk_record env d' = Some n"
proof (cases "validate_and_serialize env n")
  case (Inl e)
  with assms show ?thesis by (auto simp: file_save_def)
next
  case (Inr v)
  obtain q d1 where 1: "locked_open True d = (q, d1)" by (cases "locked_open True d")
  note o = locked_open_keeps [OF 1]
  show ?thesis
  proof (cases "q = Inr True")
    case False
    with assms Inr 1 o(1,3) show ?thesis by (cases q) (auto simp: file_save_def)
  next
    case True
    obtain name d2 where 2: "temporary_name env d1 = (name, d2)" by (cases "temporary_name env d1")
    note t = temporary_name_keeps [OF 2]
    from assms Inr 1 True 2 have w: "locked_replace name v d2 = (r, d')" by (simp add: file_save_def)
    have dir: "disk_directory d2" using o(2) True t(2) by (simp add: same_session_file_def)
    show ?thesis
    proof (cases r)
      case (Inl e)
      with w t(1) have "same_session_file d2 d'" by (auto intro: locked_replace_err)
      from same_session_file_record [OF this] same_session_file_record [OF t(2)] o(1) Inl
      show ?thesis by simp
    next
      case (Inr u)
      with w t(1) locked_replace_ok [of name v d2 u d'] dir \<open>validate_and_serialize env n = Inr v\<close>
      show ?thesis by (auto intro: disk_record_written)
    qed
  qed
qed

lemma file_mutation_enters:
  assumes "locked_open False d = (q, d1)"
  shows "(\<exists>e. q = Inl e) \<and> disk_record env d1 = disk_record env d
    \<or> q = Inr False \<and> disk_record env d1 = disk_record env d \<and> disk_record env d = None
    \<or> q = Inr True \<and> disk_directory d1 \<and> disk_record env d1 = disk_record env d"
  using locked_open_keeps(1) [OF assms, of env] locked_open_keeps(2,3) [OF assms]
  by (cases q) (auto simp: disk_record_def)

lemma file_replace_keeps:
  assumes "file_replace_if_current env x n d = (r, d')"
  shows "case r of
      Inl e \<Rightarrow> disk_record env d' = disk_record env d
    | Inr Applied \<Rightarrow> disk_record env d = Some x \<and> disk_record env d' = Some n
    | Inr (Conflict c) \<Rightarrow> c = disk_record env d \<and> c \<noteq> Some x \<and> disk_record env d' = disk_record env d"
proof (cases "validate_and_serialize env n")
  case (Inl e)
  with assms show ?thesis by (auto simp: file_replace_if_current_def)
next
  case v: (Inr v)
  obtain q d1 where 1: "locked_open False d = (q, d1)" by (cases "locked_open False d")
  show ?thesis
  proof (cases "q = Inr True")
    case False
    with assms v 1 file_mutation_enters [OF 1, of env] show ?thesis
      by (auto simp: file_replace_if_current_def)
  next
    case True
    with file_mutation_enters [OF 1, of env] have o: "disk_directory d1" "disk_record env d1 = disk_record env d" by auto
    obtain p d2 where 2: "load_parsed env d1 = (p, d2)" by (cases "load_parsed env d1")
    have r2: "disk_record env d2 = disk_record env d" "disk_directory d2"
      using same_session_file_record [OF load_parsed_keeps(1) [OF 2]] load_parsed_keeps(1) [OF 2] o
      by (simp_all add: same_session_file_def)
    obtain name d3 where 3: "temporary_name env d2 = (name, d3)" by (cases "temporary_name env d2")
    note t = temporary_name_keeps [OF 3]
    have r3: "disk_record env d3 = disk_record env d" "disk_directory d3"
      using same_session_file_record [OF t(2)] t(2) r2 by (simp_all add: same_session_file_def)
    show ?thesis
    proof (cases "p = Inr (Some x)")
      case False
      with assms v 1 True 2 r2 load_parsed_keeps(2) [OF 2 o(1)] o(2) show ?thesis
        by (cases p) (auto simp: file_replace_if_current_def)
    next
      case found: True
      then have "disk_record env d = Some x" using load_parsed_keeps(2) [OF 2 o(1)] o(2) by auto
      moreover obtain w d4 where 4: "locked_replace name v d3 = (w, d4)" by (cases "locked_replace name v d3")
      moreover have "case w of Inl e \<Rightarrow> r = Inl e \<and> d' = d4 | Inr u \<Rightarrow> r = Inr Applied \<and> d' = d4"
        using assms v 1 True 2 found 3 4 by (cases w) (auto simp: file_replace_if_current_def)
      ultimately show ?thesis
        using locked_replace_keeps [OF 4 t(1)] r3 v
        by (cases w) (auto intro: disk_record_written dest: same_session_file_record [of _ _ env])
    qed
  qed
qed

text \<open>A file operation or a bad record never looks like a rejected login.\<close>

lemma bind_result_error:
  assumes "bind_result r f = Inl e"
  shows "r = Inl e \<or> (\<exists>a. r = Inr a \<and> f a = Inl e)"
  using assms by (cases r) auto

lemma file_replace_error:
  assumes "file_replace_if_current env x n d = (Inl e, d')"
  shows "e \<noteq> AuthenticationRequired"
proof -
  have v: "validate_and_serialize env n = Inl e' \<Longrightarrow> e' \<noteq> AuthenticationRequired" for e'
    by (auto simp: validate_and_serialize_def canonical_owner_user_id_def bind_result_def split: option.splits if_splits)
  have o: "locked_open c d = (Inl e', d'') \<Longrightarrow> e' \<noteq> AuthenticationRequired" for c d e' d''
    by (auto simp: locked_open_def Let_def split: prod.splits bool.splits if_splits)
  have p: "store_parse env b = Inl e' \<Longrightarrow> e' \<noteq> AuthenticationRequired" for b e'
    by (auto simp: store_parse_def Let_def bind_result_def canonical_owner_user_id_def
        split: file_bytes.splits option.splits if_splits sum.splits)
  have l: "load_parsed env d = (Inl e', d'') \<Longrightarrow> e' \<noteq> AuthenticationRequired" for d e' d''
    by (auto simp: load_parsed_def locked_load_def parse_option_def dest!: bind_result_error dest: p
        split: prod.splits bool.splits option.splits)
  have w: "locked_replace t b d = (Inl e', d'') \<Longrightarrow> e' \<noteq> AuthenticationRequired" for t b d e' d''
    by (auto simp: locked_replace_def Let_def split: prod.splits bool.splits if_splits)
  from assms v o l w show ?thesis
    by (auto simp: file_replace_if_current_def split: sum.splits prod.splits bool.splits if_splits)
qed

lemma file_clear_keeps:
  assumes "file_clear_if_current env x d = (r, d')"
  shows "case r of
      Inl e \<Rightarrow> disk_record env d' = disk_record env d
    | Inr Applied \<Rightarrow> disk_record env d = Some x \<and> disk_record env d' = None
    | Inr (Conflict c) \<Rightarrow> c = disk_record env d \<and> c \<noteq> Some x \<and> disk_record env d' = disk_record env d"
proof -
  obtain q d1 where 1: "locked_open False d = (q, d1)" by (cases "locked_open False d")
  show ?thesis
  proof (cases "q = Inr True")
    case False
    with assms 1 file_mutation_enters [OF 1, of env] show ?thesis
      by (auto simp: file_clear_if_current_def)
  next
    case True
    with file_mutation_enters [OF 1, of env] have o: "disk_directory d1" "disk_record env d1 = disk_record env d" by auto
    obtain p d2 where 2: "load_parsed env d1 = (p, d2)" by (cases "load_parsed env d1")
    have r2: "disk_record env d2 = disk_record env d"
      using same_session_file_record [OF load_parsed_keeps(1) [OF 2]] o by simp
    show ?thesis
    proof (cases "p = Inr (Some x)")
      case False
      with assms 1 True 2 r2 load_parsed_keeps(2) [OF 2 o(1)] o(2) show ?thesis
        by (cases p) (auto simp: file_clear_if_current_def)
    next
      case found: True
      then have "disk_record env d = Some x" using load_parsed_keeps(2) [OF 2 o(1)] o(2) by auto
      moreover obtain w d4 where 4: "locked_remove d2 = (w, d4)" by (cases "locked_remove d2")
      moreover have "case w of Inl e \<Rightarrow> r = Inl e \<and> d' = d4 | Inr u \<Rightarrow> r = Inr Applied \<and> d' = d4"
        using assms 1 True 2 found 4 by (cases w) (auto simp: file_clear_if_current_def)
      ultimately show ?thesis
        using locked_remove_keeps [OF 4] r2
        by (cases w) (auto intro: disk_record_removed dest: same_session_file_record [of _ _ env])
    qed
  qed
qed

interpretation disk: token_store "file_store env" "disk_record env" for env
proof unfold_locales
  fix x n c e r q u d d'
  show "store_load (file_store env) d = (Inr r, d') \<Longrightarrow> r = disk_record env d"
    "store_load (file_store env) d = (q, d') \<Longrightarrow> disk_record env d' = disk_record env d"
    using file_load_keeps [of env d] by (auto simp: file_store_def)
  show "store_save (file_store env) n d = (Inr u, d') \<Longrightarrow> disk_record env d' = Some n"
    "store_save (file_store env) n d = (Inl e, d') \<Longrightarrow> disk_record env d' = disk_record env d"
    using file_save_keeps [of env n d] by (auto simp: file_store_def)
  show "store_replace_if_current (file_store env) x n d = (Inr Applied, d') \<Longrightarrow>
      disk_record env d = Some x \<and> disk_record env d' = Some n"
    "store_replace_if_current (file_store env) x n d = (Inr (Conflict c), d') \<Longrightarrow>
      c = disk_record env d \<and> c \<noteq> Some x \<and> disk_record env d' = disk_record env d"
    "store_replace_if_current (file_store env) x n d = (Inl e, d') \<Longrightarrow> disk_record env d' = disk_record env d"
    using file_replace_keeps [of env x n d] by (auto simp: file_store_def)
  show "store_clear_if_current (file_store env) x d = (Inr Applied, d') \<Longrightarrow>
      disk_record env d = Some x \<and> disk_record env d' = None"
    "store_clear_if_current (file_store env) x d = (Inr (Conflict c), d') \<Longrightarrow>
      c = disk_record env d \<and> c \<noteq> Some x \<and> disk_record env d' = disk_record env d"
    "store_clear_if_current (file_store env) x d = (Inl e, d') \<Longrightarrow> disk_record env d' = disk_record env d"
    using file_clear_keeps [of env x d] by (auto simp: file_store_def)
qed

end
