(* ===== verification/Session_Manager.thy ===== *)
theory Session_Manager
  imports Session_Store
begin

text \<open>
  The session manager (\<open>SessionManager\<close> in \<open>native-client/src/runtime/api/session.rs\<close>): access
  token, owner and epochs behind one mutex (poisoning is ignored by the code), and the durable
  refresh record behind the store interface. Operations that release the lock around a network
  call are split there: the first part ends in what the caller does next, the last part takes the
  answer. The store and its state are parameters, so the lemmas hold for every provider.
\<close>

section \<open>State\<close>

record token_set =
  access_token :: string
  access_expires_in_seconds :: u64
  refresh_token :: string
  refresh_expires_at :: string
  token_type :: string

record session_state =
  ss_startup_read_failure :: "api_error option"
  ss_access_token :: "string option"
  ss_owner_user_id :: "string option"
  ss_persisted_owner_user_id :: "string option"
  ss_authorized :: "persisted_refresh_session option"
  ss_scope_published :: bool
  ss_epoch_exhausted :: bool
  ss_auth_epoch :: u64
  ss_refreshing :: bool
  ss_refresh_epoch :: u64
  ss_last_refresh_result :: "(api_error + string) option"

record session_access =
  sa_access_token :: string
  sa_auth_epoch :: u64

definition session_default :: session_state where
  "session_default = \<lparr>ss_startup_read_failure = None, ss_access_token = None, ss_owner_user_id = None,
    ss_persisted_owner_user_id = None, ss_authorized = None, ss_scope_published = False,
    ss_epoch_exhausted = False, ss_auth_epoch = 0, ss_refreshing = False, ss_refresh_epoch = 0,
    ss_last_refresh_result = None\<rparr>"

definition session_new :: "'d refresh_token_store \<Rightarrow> 'd \<Rightarrow> session_state \<times> 'd" where
  "session_new store d =
    (case store_load store d of
       (Inr r, d') \<Rightarrow> (session_default\<lparr>ss_owner_user_id := map_option rs_owner_user_id r,
           ss_persisted_owner_user_id := map_option rs_owner_user_id r, ss_authorized := r\<rparr>, d')
     | (Inl e, d') \<Rightarrow> (session_default\<lparr>ss_startup_read_failure := Some e\<rparr>, d'))"

definition close_exhausted_session :: "session_state \<Rightarrow> session_state" where
  "close_exhausted_session s =
    s\<lparr>ss_epoch_exhausted := True, ss_access_token := None, ss_owner_user_id := None,
      ss_scope_published := False, ss_refreshing := False,
      ss_last_refresh_result := Some (Inl AuthenticationRequired)\<rparr>"

definition next_epochs :: "bool \<Rightarrow> session_state \<Rightarrow> (api_error + u64 \<times> u64) \<times> session_state" where
  "next_epochs advance_auth s =
    (let auth = (if advance_auth then checked_add (ss_auth_epoch s) 1 else Some (ss_auth_epoch s)) in
     if \<not> ss_epoch_exhausted s
     then (case (auth, checked_add (ss_refresh_epoch s) 1) of
             (Some a, Some r) \<Rightarrow> (Inr (a, r), s)
           | _ \<Rightarrow> (Inl AuthenticationRequired, close_exhausted_session s))
     else (Inl AuthenticationRequired, close_exhausted_session s))"

definition invalidate_session_lease :: "session_state \<Rightarrow> session_state" where
  "invalidate_session_lease s =
    (if ss_epoch_exhausted s then close_exhausted_session s
     else (case (checked_add (ss_auth_epoch s) 1, checked_add (ss_refresh_epoch s) 1) of
             (Some auth, Some refresh) \<Rightarrow>
               s\<lparr>ss_auth_epoch := auth, ss_access_token := None, ss_owner_user_id := None,
                 ss_scope_published := False, ss_refreshing := False, ss_refresh_epoch := refresh,
                 ss_last_refresh_result := None\<rparr>
           | _ \<Rightarrow> close_exhausted_session s))"

definition scope_matches :: "session_state \<Rightarrow> session_scope \<Rightarrow> bool" where
  "scope_matches s scope =
    (\<not> ss_epoch_exhausted s \<and> ss_scope_published s
     \<and> ss_auth_epoch s = scope_auth_epoch scope
     \<and> ss_owner_user_id s = Some (scope_owner_user_id scope))"

definition cleared_lease_matches_epoch :: "session_state \<Rightarrow> u64 \<Rightarrow> bool" where
  "cleared_lease_matches_epoch s cleared_auth_epoch =
    (\<not> ss_epoch_exhausted s \<and> Some (ss_auth_epoch s) = checked_add cleared_auth_epoch 1
     \<and> ss_access_token s = None \<and> ss_owner_user_id s = None \<and> \<not> ss_scope_published s)"

section \<open>Reads\<close>

definition session_access :: "session_state \<Rightarrow> session_access option" where
  "session_access s =
    map_option (\<lambda>t. \<lparr>sa_access_token = t, sa_auth_epoch = ss_auth_epoch s\<rparr>) (ss_access_token s)"

definition has_refresh_token :: "'d refresh_token_store \<Rightarrow> 'd \<Rightarrow> (api_error + bool) \<times> 'd" where
  "has_refresh_token store d =
    (case store_load store d of (Inl e, d') \<Rightarrow> (Inl e, d') | (Inr r, d') \<Rightarrow> (Inr (r \<noteq> None), d'))"

text \<open>
  A reader without a token waits for the running refresh. \<open>Inr (Inr epoch)\<close>: it waits, having
  seen this refresh epoch; the wake-up returns \<open>None\<close> to wait again.
\<close>

definition access_token_for_epoch_enter :: "u64 \<Rightarrow> session_state \<Rightarrow> api_error + (string + u64)" where
  "access_token_for_epoch_enter auth_epoch s =
    (if ss_auth_epoch s \<noteq> auth_epoch \<or> \<not> ss_scope_published s then Inl AuthenticationRequired
     else (case ss_access_token s of
             Some token \<Rightarrow> Inr (Inl token)
           | None \<Rightarrow> if \<not> ss_refreshing s then Inl AuthenticationRequired
                     else Inr (Inr (ss_refresh_epoch s))))"

definition last_result :: "session_state \<Rightarrow> api_error + string" where
  "last_result s = (case ss_last_refresh_result s of Some r \<Rightarrow> r | None \<Rightarrow> Inl AuthenticationRequired)"

definition access_token_for_epoch_wake :: "u64 \<Rightarrow> u64 \<Rightarrow> session_state \<Rightarrow> (api_error + string) option" where
  "access_token_for_epoch_wake auth_epoch observed s =
    (if ss_refreshing s \<and> ss_refresh_epoch s = observed \<and> ss_auth_epoch s = auth_epoch then None
     else if ss_auth_epoch s \<noteq> auth_epoch \<or> \<not> ss_scope_published s then Some (Inl AuthenticationRequired)
     else (case ss_access_token s of Some token \<Rightarrow> Some (Inr token) | None \<Rightarrow> Some (last_result s)))"

definition access_token_for_scope_enter :: "session_scope \<Rightarrow> session_state \<Rightarrow> api_error + (string + u64)" where
  "access_token_for_scope_enter scope s =
    (if \<not> scope_matches s scope then Inl AuthenticationRequired
     else (case ss_access_token s of
             Some token \<Rightarrow> Inr (Inl token)
           | None \<Rightarrow> if \<not> ss_refreshing s then Inl AuthenticationRequired
                     else Inr (Inr (ss_refresh_epoch s))))"

definition access_token_for_scope_wake :: "session_scope \<Rightarrow> u64 \<Rightarrow> session_state \<Rightarrow> (api_error + string) option" where
  "access_token_for_scope_wake scope observed s =
    (if ss_refreshing s \<and> ss_refresh_epoch s = observed \<and> scope_matches s scope then None
     else if \<not> scope_matches s scope then Some (Inl AuthenticationRequired)
     else (case ss_access_token s of Some token \<Rightarrow> Some (Inr token) | None \<Rightarrow> Some (last_result s)))"

definition bind_user :: "string \<Rightarrow> session_state \<Rightarrow> api_error + session_scope" where
  "bind_user owner s =
    (if ss_access_token s = None \<or> \<not> ss_scope_published s \<or> ss_owner_user_id s \<noteq> Some owner
     then Inl AuthenticationRequired
     else Inr \<lparr>scope_owner_user_id = owner, scope_auth_epoch = ss_auth_epoch s\<rparr>)"

definition scope_for_user :: "string \<Rightarrow> session_state \<Rightarrow> session_scope option" where
  "scope_for_user owner s =
    (if ss_scope_published s \<and> ss_owner_user_id s = Some owner
     then Some \<lparr>scope_owner_user_id = owner, scope_auth_epoch = ss_auth_epoch s\<rparr> else None)"

definition is_scope_current :: "session_scope \<Rightarrow> session_state \<Rightarrow> bool" where
  "is_scope_current scope s = scope_matches s scope"

section \<open>Changes\<close>

definition record_refresh_failure :: "api_error \<Rightarrow> session_state \<Rightarrow> session_state" where
  "record_refresh_failure e s =
    (case next_epochs False (s\<lparr>ss_refreshing := False\<rparr>) of
       (Inl _, s') \<Rightarrow> s'
     | (Inr (_, next_refresh), s') \<Rightarrow>
         s'\<lparr>ss_refresh_epoch := next_refresh, ss_last_refresh_result := Some (Inl e)\<rparr>)"

definition record_store_conflict :: "persisted_refresh_session option \<Rightarrow> session_state \<Rightarrow> session_state" where
  "record_store_conflict current s =
    (let s = s\<lparr>ss_persisted_owner_user_id := map_option rs_owner_user_id current, ss_authorized := None\<rparr> in
     if ss_scope_published s then invalidate_session_lease s
     else record_refresh_failure AuthenticationRequired
            (s\<lparr>ss_owner_user_id := ss_persisted_owner_user_id s\<rparr>))"

text \<open>A failed startup read, and a conflicting record that was only observed, admit no session.\<close>

definition require_known_slot :: "session_state \<Rightarrow> api_error + unit" where
  "require_known_slot s =
    (case ss_startup_read_failure s of
       Some e \<Rightarrow> Inl e
     | None \<Rightarrow> if ss_authorized s = None \<and> ss_persisted_owner_user_id s \<noteq> None
               then Inl AuthenticationRequired else Inr ())"

definition published_with ::
  "string \<Rightarrow> u64 \<Rightarrow> u64 \<Rightarrow> persisted_refresh_session \<Rightarrow> token_set \<Rightarrow> session_state \<Rightarrow> session_state" where
  "published_with owner auth refresh persisted tokens s =
    s\<lparr>ss_auth_epoch := auth, ss_access_token := Some (access_token tokens), ss_owner_user_id := Some owner,
      ss_persisted_owner_user_id := Some owner, ss_authorized := Some persisted, ss_scope_published := True,
      ss_refreshing := False, ss_refresh_epoch := refresh,
      ss_last_refresh_result := Some (Inr (access_token tokens))\<rparr>"

definition install_tokens_for_user ::
  "'d refresh_token_store \<Rightarrow> token_set \<Rightarrow> string \<Rightarrow> session_state \<times> 'd
    \<Rightarrow> (api_error + session_scope) \<times> session_state \<times> 'd" where
  "install_tokens_for_user store tokens owner sd =
    (case sd of (s, d) \<Rightarrow>
      case require_known_slot s of
        Inl e \<Rightarrow> (Inl e, s, d)
      | Inr _ \<Rightarrow>
          (case next_epochs True s of
             (Inl e, s') \<Rightarrow> (Inl e, s', d)
           | (Inr (next_auth, next_refresh), s') \<Rightarrow>
               (let persisted = \<lparr>rs_owner_user_id = owner, rs_refresh_token = refresh_token tokens\<rparr> in
                case store_save store persisted d of
                  (Inl e, d') \<Rightarrow> (Inl e, s', d')
                | (Inr _, d') \<Rightarrow>
                    (Inr \<lparr>scope_owner_user_id = owner, scope_auth_epoch = next_auth\<rparr>,
                     published_with owner next_auth next_refresh persisted tokens s', d'))))"

text \<open>
  \<open>refresh_persisted_owner\<close> up to the network call: the captured epoch and record on success.
\<close>

definition refresh_persisted_begin ::
  "uuid_parser \<Rightarrow> 'd refresh_token_store \<Rightarrow> string \<Rightarrow> session_state \<times> 'd
    \<Rightarrow> (api_error + u64 \<times> persisted_refresh_session) \<times> session_state \<times> 'd" where
  "refresh_persisted_begin parse_uuid store owner sd =
    (case sd of (s, d) \<Rightarrow>
      if \<not> canonical_uuid parse_uuid owner then (Inl AuthenticationRequired, s, d)
      else case require_known_slot s of
        Inl e \<Rightarrow> (Inl e, s, d)
      | Inr _ \<Rightarrow>
          (case next_epochs True s of
             (Inl e, s') \<Rightarrow> (Inl e, s', d)
           | (Inr _, s') \<Rightarrow>
               if ss_scope_published s' \<or> ss_access_token s' \<noteq> None \<or> ss_refreshing s'
               then (Inl AuthenticationRequired, s', d)
               else (case store_load store d of
                  (Inl e, d') \<Rightarrow> (Inl e, s', d')
                | (Inr current, d') \<Rightarrow>
                    (let s'' = s'\<lparr>ss_persisted_owner_user_id := map_option rs_owner_user_id current\<rparr> in
                     case current of
                       Some r \<Rightarrow>
                         if rs_owner_user_id r = owner
                         then (Inr (ss_auth_epoch s'', r),
                               s''\<lparr>ss_authorized := Some r, ss_owner_user_id := Some owner,
                                 ss_refreshing := True, ss_last_refresh_result := None\<rparr>, d')
                         else (Inl AuthenticationRequired, s''\<lparr>ss_owner_user_id := ss_persisted_owner_user_id s''\<rparr>, d')
                     | None \<Rightarrow> (Inl AuthenticationRequired, s''\<lparr>ss_owner_user_id := ss_persisted_owner_user_id s''\<rparr>, d')))))"

definition persisted_refresh_pending :: "string \<Rightarrow> u64 \<Rightarrow> session_state \<Rightarrow> bool" where
  "persisted_refresh_pending owner auth_epoch s =
    (ss_auth_epoch s = auth_epoch \<and> ss_owner_user_id s = Some owner \<and> \<not> ss_scope_published s \<and> ss_refreshing s)"

definition refresh_persisted_finish ::
  "'d refresh_token_store \<Rightarrow> string \<Rightarrow> u64 \<Rightarrow> persisted_refresh_session \<Rightarrow> (api_error + token_set)
    \<Rightarrow> session_state \<times> 'd \<Rightarrow> (api_error + session_scope) \<times> session_state \<times> 'd" where
  "refresh_persisted_finish store owner auth_epoch captured answer sd =
    (case sd of (s, d) \<Rightarrow>
      if \<not> persisted_refresh_pending owner auth_epoch s then (Inl AuthenticationRequired, s, d)
      else (case answer of
         Inr tokens \<Rightarrow>
           (case next_epochs True s of
              (Inl e, s') \<Rightarrow> (Inl e, s', d)
            | (Inr (next_auth, next_refresh), s') \<Rightarrow>
                (let replacement = \<lparr>rs_owner_user_id = owner, rs_refresh_token = refresh_token tokens\<rparr> in
                 case store_replace_if_current store captured replacement d of
                   (Inr Applied, d') \<Rightarrow>
                     (Inr \<lparr>scope_owner_user_id = owner, scope_auth_epoch = next_auth\<rparr>,
                      published_with owner next_auth next_refresh replacement tokens s', d')
                 | (Inr (Conflict current), d') \<Rightarrow> (Inl AuthenticationRequired, record_store_conflict current s', d')
                 | (Inl e, d') \<Rightarrow> (Inl e, record_refresh_failure e s', d')))
       | Inl e \<Rightarrow>
           (case next_epochs False (s\<lparr>ss_refreshing := False\<rparr>) of
              (Inl e', s') \<Rightarrow> (Inl e', s', d)
            | (Inr (_, next_refresh), s') \<Rightarrow>
                (Inl e, s'\<lparr>ss_refresh_epoch := next_refresh, ss_last_refresh_result := Some (Inl e)\<rparr>, d))))"

definition clear_locked ::
  "'d refresh_token_store \<Rightarrow> session_state \<times> 'd \<Rightarrow> (api_error + unit) \<times> session_state \<times> 'd" where
  "clear_locked store sd =
    (case sd of (s, d) \<Rightarrow>
      case ss_startup_read_failure s of
        Some e \<Rightarrow> (Inl e, s, d)
      | None \<Rightarrow>
          (case ss_authorized s of
             None \<Rightarrow>
               (let s' = invalidate_session_lease s in
                if ss_persisted_owner_user_id s' \<noteq> None then (Inl AuthenticationRequired, s', d)
                else (Inr (), s', d))
           | Some expected \<Rightarrow>
               (case store_clear_if_current store expected d of
                  (Inr Applied, d') \<Rightarrow>
                    (Inr (), invalidate_session_lease (s\<lparr>ss_persisted_owner_user_id := None, ss_authorized := None\<rparr>), d')
                | (Inr (Conflict current), d') \<Rightarrow> (Inl AuthenticationRequired, record_store_conflict current s, d')
                | (Inl e, d') \<Rightarrow> (Inl e, invalidate_session_lease s, d'))))"

definition clear_access_token :: "session_state \<Rightarrow> session_state" where
  "clear_access_token s = s\<lparr>ss_access_token := None\<rparr>"

definition clear_scope ::
  "'d refresh_token_store \<Rightarrow> session_scope \<Rightarrow> session_state \<times> 'd \<Rightarrow> (api_error + unit) \<times> session_state \<times> 'd" where
  "clear_scope store scope sd =
    (if cleared_lease_matches_epoch (fst sd) (scope_auth_epoch scope) then (Inr (), sd)
     else if \<not> scope_matches (fst sd) scope then (Inl AuthenticationRequired, sd)
     else clear_locked store sd)"

definition clear_epoch ::
  "'d refresh_token_store \<Rightarrow> u64 \<Rightarrow> session_state \<times> 'd \<Rightarrow> (api_error + unit) \<times> session_state \<times> 'd" where
  "clear_epoch store auth_epoch sd =
    (if cleared_lease_matches_epoch (fst sd) auth_epoch then (Inr (), sd)
     else if ss_auth_epoch (fst sd) \<noteq> auth_epoch then (Inl AuthenticationRequired, sd)
     else clear_locked store sd)"

section \<open>Refreshing a scope\<close>

text \<open>What the caller of \<open>refresh_scope\<close> does after the first critical section.\<close>

datatype refresh_next =
    Finished "api_error + string"
  | WaitForRefresh u64
  | CallServer persisted_refresh_session

definition authorized_for :: "session_scope \<Rightarrow> session_state \<Rightarrow> persisted_refresh_session option" where
  "authorized_for scope s =
    (case ss_authorized s of
       Some r \<Rightarrow> if rs_owner_user_id r = scope_owner_user_id scope then Some r else None
     | None \<Rightarrow> None)"

text \<open>Claiming the refresh: the durable record must still be the authorized one.\<close>

definition refresh_claim ::
  "'d refresh_token_store \<Rightarrow> session_scope \<Rightarrow> session_state \<times> 'd \<Rightarrow> refresh_next \<times> session_state \<times> 'd" where
  "refresh_claim store scope sd =
    (case sd of (s, d) \<Rightarrow>
      if ss_refreshing s then (WaitForRefresh (ss_refresh_epoch s), s, d)
      else (case next_epochs False s of
         (Inl e, s') \<Rightarrow> (Finished (Inl e), s', d)
       | (Inr _, s') \<Rightarrow>
           (case authorized_for scope s' of
              None \<Rightarrow> (Finished (Inl AuthenticationRequired), invalidate_session_lease s', d)
            | Some expected \<Rightarrow>
                (let s'' = s'\<lparr>ss_access_token := None\<rparr> in
                 case store_load store d of
                   (Inl e, d') \<Rightarrow> (Finished (Inl e), record_refresh_failure e s'', d')
                 | (Inr current, d') \<Rightarrow>
                     if current \<noteq> Some expected
                     then (Finished (Inl AuthenticationRequired), record_store_conflict current s'', d')
                     else (CallServer expected, s''\<lparr>ss_refreshing := True, ss_last_refresh_result := None\<rparr>, d')))))"

definition refresh_scope_begin ::
  "'d refresh_token_store \<Rightarrow> session_scope \<Rightarrow> string option \<Rightarrow> session_state \<times> 'd
    \<Rightarrow> refresh_next \<times> session_state \<times> 'd" where
  "refresh_scope_begin store scope rejected sd =
    (case sd of (s, d) \<Rightarrow>
      if \<not> scope_matches s scope then (Finished (Inl AuthenticationRequired), s, d)
      else (case (rejected, ss_access_token s) of
         (Some r, Some current) \<Rightarrow>
           if current \<noteq> r then (Finished (Inr current), s, d) else refresh_claim store scope (s, d)
       | _ \<Rightarrow> refresh_claim store scope (s, d)))"

definition refresh_scope_wake :: "session_scope \<Rightarrow> u64 \<Rightarrow> session_state \<Rightarrow> (api_error + string) option" where
  "refresh_scope_wake scope observed s =
    (if ss_refreshing s \<and> ss_refresh_epoch s = observed \<and> scope_matches s scope then None
     else if \<not> scope_matches s scope then Some (Inl AuthenticationRequired)
     else Some (last_result s))"

definition persist_refreshed_tokens_if_current ::
  "'d refresh_token_store \<Rightarrow> session_scope \<Rightarrow> persisted_refresh_session \<Rightarrow> token_set
    \<Rightarrow> session_state \<times> 'd \<Rightarrow> (api_error + string) \<times> session_state \<times> 'd" where
  "persist_refreshed_tokens_if_current store scope expected tokens sd =
    (case sd of (s, d) \<Rightarrow>
      if \<not> scope_matches s scope then (Inl AuthenticationRequired, s, d)
      else (case next_epochs False s of
         (Inl e, s') \<Rightarrow> (Inl e, s', d)
       | (Inr (_, next_refresh), s') \<Rightarrow>
           (let owner = scope_owner_user_id scope;
                replacement = \<lparr>rs_owner_user_id = owner, rs_refresh_token = refresh_token tokens\<rparr> in
            case store_replace_if_current store expected replacement d of
              (Inr Applied, d') \<Rightarrow>
                (Inr (access_token tokens),
                 s'\<lparr>ss_persisted_owner_user_id := Some owner, ss_authorized := Some replacement,
                   ss_refreshing := False, ss_refresh_epoch := next_refresh,
                   ss_access_token := Some (access_token tokens),
                   ss_last_refresh_result := Some (Inr (access_token tokens))\<rparr>, d')
            | (Inr (Conflict current), d') \<Rightarrow> (Inl AuthenticationRequired, record_store_conflict current s', d')
            | (Inl e, d') \<Rightarrow> (Inl e, record_refresh_failure e s', d'))))"

definition persist_refreshed_tokens ::
  "'d refresh_token_store \<Rightarrow> session_scope \<Rightarrow> token_set \<Rightarrow> session_state \<times> 'd
    \<Rightarrow> (api_error + string) \<times> session_state \<times> 'd" where
  "persist_refreshed_tokens store scope tokens sd =
    (case sd of (s, d) \<Rightarrow>
      if \<not> scope_matches s scope then (Inl AuthenticationRequired, s, d)
      else (case authorized_for scope s of
         None \<Rightarrow> (Inl AuthenticationRequired, invalidate_session_lease s, d)
       | Some expected \<Rightarrow> persist_refreshed_tokens_if_current store scope expected tokens (s, d)))"

text \<open>\<open>finish_refresh\<close> is called with the error of the server only.\<close>

definition finish_refresh ::
  "session_scope \<Rightarrow> api_error \<Rightarrow> session_state \<Rightarrow> (api_error + string) \<times> session_state" where
  "finish_refresh scope e s =
    (if \<not> scope_matches s scope then (Inl AuthenticationRequired, s)
     else (case next_epochs False (s\<lparr>ss_refreshing := False\<rparr>) of
        (Inl e', s') \<Rightarrow> (Inl e', s')
      | (Inr (_, next_refresh), s') \<Rightarrow>
          (Inl e, s'\<lparr>ss_refresh_epoch := next_refresh, ss_access_token := None,
             ss_last_refresh_result := Some (Inl e)\<rparr>)))"

definition refresh_scope_finish ::
  "'d refresh_token_store \<Rightarrow> session_scope \<Rightarrow> persisted_refresh_session \<Rightarrow> (api_error + token_set)
    \<Rightarrow> session_state \<times> 'd \<Rightarrow> (api_error + string) \<times> session_state \<times> 'd" where
  "refresh_scope_finish store scope captured answer sd =
    (case answer of
       Inr tokens \<Rightarrow> persist_refreshed_tokens_if_current store scope captured tokens sd
     | Inl e \<Rightarrow> (case finish_refresh scope e (fst sd) of (r, s') \<Rightarrow> (r, s', snd sd)))"

text \<open>The scope that \<open>refresh\<close> and \<open>refresh_epoch\<close> hand to \<open>refresh_scope\<close>.\<close>

definition refresh_current_scope :: "session_state \<Rightarrow> api_error + session_scope" where
  "refresh_current_scope s =
    (if \<not> ss_scope_published s then Inl AuthenticationRequired
     else (case ss_owner_user_id s of
             Some owner \<Rightarrow> Inr \<lparr>scope_owner_user_id = owner, scope_auth_epoch = ss_auth_epoch s\<rparr>
           | None \<Rightarrow> Inl AuthenticationRequired))"

definition refresh_epoch_scope :: "u64 \<Rightarrow> session_state \<Rightarrow> api_error + session_scope" where
  "refresh_epoch_scope auth_epoch s =
    (if ss_auth_epoch s \<noteq> auth_epoch \<or> \<not> ss_scope_published s then Inl AuthenticationRequired
     else (case ss_owner_user_id s of
             Some owner \<Rightarrow> Inr \<lparr>scope_owner_user_id = owner, scope_auth_epoch = auth_epoch\<rparr>
           | None \<Rightarrow> Inl AuthenticationRequired))"

section \<open>What an operation does to the lease\<close>

text \<open>
  \<open>issued\<close> collects which access token was accepted for which scope. A lease step never goes back
  in epochs, publishes nothing new under an epoch that was reached before, and keeps every token
  the state can hand out among the tokens issued for the published scope.
\<close>

type_synonym issued_tokens = "(session_scope \<times> string) set"

definition lease_live :: "session_state \<Rightarrow> bool" where
  "lease_live s = (ss_scope_published s \<and> \<not> ss_epoch_exhausted s)"

definition token_issued :: "issued_tokens \<Rightarrow> session_state \<Rightarrow> string \<Rightarrow> bool" where
  "token_issued issued s t =
    (lease_live s \<and> (\<exists>owner. ss_owner_user_id s = Some owner
       \<and> (\<lparr>scope_owner_user_id = owner, scope_auth_epoch = ss_auth_epoch s\<rparr>, t) \<in> issued))"

definition tokens_ok :: "issued_tokens \<Rightarrow> session_state \<Rightarrow> bool" where
  "tokens_ok issued s =
    ((\<forall>t. ss_access_token s = Some t \<longrightarrow> token_issued issued s t)
     \<and> (\<forall>t. ss_last_refresh_result s = Some (Inr t) \<longrightarrow> token_issued issued s t))"

definition lease_step :: "issued_tokens \<Rightarrow> session_state \<Rightarrow> session_state \<Rightarrow> bool" where
  "lease_step issued s t =
    (ss_auth_epoch s \<le> ss_auth_epoch t
     \<and> (lease_live t \<longrightarrow> ss_auth_epoch t = ss_auth_epoch s \<longrightarrow>
          lease_live s \<and> ss_owner_user_id t = ss_owner_user_id s)
     \<and> (tokens_ok issued s \<longrightarrow> tokens_ok issued t))"

lemma lease_step_trans:
  "lease_step issued s t \<Longrightarrow> lease_step issued t u \<Longrightarrow> lease_step issued s u"
  unfolding lease_step_def by (metis order.antisym order.trans)

lemma lease_step_same:
  assumes "ss_auth_epoch t = ss_auth_epoch s" "ss_scope_published t = ss_scope_published s"
    "ss_epoch_exhausted t = ss_epoch_exhausted s" "ss_owner_user_id t = ss_owner_user_id s"
    "\<And>x. ss_access_token t = Some x \<Longrightarrow> ss_access_token s = Some x"
    "\<And>x. ss_last_refresh_result t = Some (Inr x) \<Longrightarrow> ss_last_refresh_result s = Some (Inr x)"
  shows "lease_step issued s t"
  using assms by (auto simp: lease_step_def lease_live_def tokens_ok_def token_issued_def)

lemma lease_step_unpublished:
  assumes "\<not> ss_scope_published t" "ss_auth_epoch s \<le> ss_auth_epoch t"
    "\<And>x. ss_access_token t = Some x \<Longrightarrow> ss_access_token s = Some x \<and> \<not> ss_scope_published s"
    "\<And>x. ss_last_refresh_result t = Some (Inr x) \<Longrightarrow>
      ss_last_refresh_result s = Some (Inr x) \<and> \<not> ss_scope_published s"
  shows "lease_step issued s t"
proof -
  have "tokens_ok issued t" if ok: "tokens_ok issued s"
  proof -
    have "ss_access_token t \<noteq> Some x" "ss_last_refresh_result t \<noteq> Some (Inr x)" for x
      using assms(3) [of x] assms(4) [of x] ok by (auto simp: tokens_ok_def token_issued_def lease_live_def)
    then show ?thesis by (simp add: tokens_ok_def)
  qed
  with assms(1,2) show ?thesis by (simp add: lease_step_def lease_live_def)
qed

lemma lease_step_close: "lease_step issued s (close_exhausted_session s)"
  by (rule lease_step_unpublished) (simp_all add: close_exhausted_session_def)

lemma next_epochs_ok:
  assumes "next_epochs b s = (Inr (a, r), t)"
  shows "t = s" "\<not> ss_epoch_exhausted s" "b \<Longrightarrow> ss_auth_epoch s < a" "\<not> b \<Longrightarrow> a = ss_auth_epoch s"
    "unat r = Suc (unat (ss_refresh_epoch s))"
  using assms checked_add_one_SomeD [of "ss_refresh_epoch s" r] checked_add_one_less [of "ss_auth_epoch s" a]
  by (auto simp: next_epochs_def Let_def split: if_splits option.splits)

lemma next_epochs_err:
  assumes "next_epochs b s = (Inl e, t)"
  shows "t = close_exhausted_session s" "e = AuthenticationRequired"
  using assms by (auto simp: next_epochs_def Let_def split: if_splits option.splits)

lemma lease_step_invalidate: "lease_step issued s (invalidate_session_lease s)"
proof (cases "\<exists>a r. checked_add (ss_auth_epoch s) 1 = Some a \<and> checked_add (ss_refresh_epoch s) 1 = Some r \<and> \<not> ss_epoch_exhausted s")
  case True
  then obtain a r where "checked_add (ss_auth_epoch s) 1 = Some a" "checked_add (ss_refresh_epoch s) 1 = Some r"
    "\<not> ss_epoch_exhausted s" by blast
  then show ?thesis
    using checked_add_one_less [of "ss_auth_epoch s" a]
    by (intro lease_step_unpublished) (auto simp: invalidate_session_lease_def less_imp_le)
next
  case False
  then show ?thesis
    by (auto simp: invalidate_session_lease_def lease_step_close split: option.splits)
qed

lemma invalidated_not_live: "\<not> lease_live (invalidate_session_lease s)"
  by (auto simp: invalidate_session_lease_def lease_live_def close_exhausted_session_def split: option.splits)

lemma invalidated_no_token: "ss_access_token (invalidate_session_lease s) = None"
  by (auto simp: invalidate_session_lease_def close_exhausted_session_def split: option.splits)

lemma lease_step_failure: "lease_step issued s (record_refresh_failure e s)"
proof (cases "next_epochs False (s\<lparr>ss_refreshing := False\<rparr>)")
  case (Pair q t)
  show ?thesis
  proof (cases q)
    case (Inl x)
    with Pair next_epochs_err(1) [of False "s\<lparr>ss_refreshing := False\<rparr>" x t] show ?thesis
      by (auto simp: record_refresh_failure_def close_exhausted_session_def intro!: lease_step_unpublished)
  next
    case (Inr ar)
    with Pair next_epochs_ok(1) [of False "s\<lparr>ss_refreshing := False\<rparr>" "fst ar" "snd ar" t] show ?thesis
      by (cases ar) (auto simp: record_refresh_failure_def intro!: lease_step_same)
  qed
qed

lemma lease_step_conflict: "lease_step issued s (record_store_conflict current s)"
proof -
  let ?s = "s\<lparr>ss_persisted_owner_user_id := map_option rs_owner_user_id current, ss_authorized := None\<rparr>"
  let ?t = "?s\<lparr>ss_owner_user_id := ss_persisted_owner_user_id ?s\<rparr>"
  have s: "lease_step issued s ?s" by (rule lease_step_same) simp_all
  show ?thesis
  proof (cases "ss_scope_published s")
    case True
    then have "record_store_conflict current s = invalidate_session_lease ?s"
      by (simp add: record_store_conflict_def Let_def)
    with s lease_step_invalidate [of issued ?s] show ?thesis by (metis lease_step_trans)
  next
    case False
    then have eq: "record_store_conflict current s = record_refresh_failure AuthenticationRequired ?t"
      by (simp add: record_store_conflict_def Let_def)
    have "lease_step issued s ?t"
      using False by (intro lease_step_unpublished) simp_all
    with lease_step_failure [of issued ?t AuthenticationRequired] eq show ?thesis by (metis lease_step_trans)
  qed
qed

lemma lease_step_publish:
  assumes "ss_auth_epoch s < auth" "\<not> ss_epoch_exhausted s"
    and "(\<lparr>scope_owner_user_id = owner, scope_auth_epoch = auth\<rparr>, access_token tokens) \<in> issued"
  shows "lease_step issued s (published_with owner auth refresh persisted tokens s)"
  using assms by (auto simp: lease_step_def published_with_def lease_live_def tokens_ok_def token_issued_def less_imp_le)

lemma lease_step_refl: "lease_step issued s s"
  by (rule lease_step_same) auto

lemma lease_step_next_err:
  "next_epochs b s = (Inl e, t) \<Longrightarrow> lease_step issued s t"
  using next_epochs_err(1) lease_step_close by blast

lemma lease_step_published:
  assumes "next_epochs True s = (Inr (auth, refresh), t)"
    and "(\<lparr>scope_owner_user_id = owner, scope_auth_epoch = auth\<rparr>, access_token tokens) \<in> issued"
  shows "lease_step issued s (published_with owner auth refresh persisted tokens t)"
  using next_epochs_ok(1-3) [OF assms(1)] assms(2) lease_step_publish [of s auth owner tokens issued]
  by simp

text \<open>One lemma per operation: it is a lease step for the tokens issued before and by it.\<close>

lemma install_lease_step:
  assumes "install_tokens_for_user store tokens owner (s, d) = (r, s', d')"
    and "\<And>scope. r = Inr scope \<Longrightarrow> (scope, access_token tokens) \<in> issued"
  shows "lease_step issued s s'"
  using assms
  by (auto simp: install_tokens_for_user_def Let_def lease_step_refl dest: next_epochs_ok(1)
      intro: lease_step_next_err lease_step_published split: sum.splits prod.splits)

lemma refresh_persisted_begin_lease_step:
  assumes "refresh_persisted_begin parse_uuid store owner (s, d) = (r, s', d')"
  shows "lease_step issued s s'"
proof -
  have begun: "lease_step issued u v"
    if "\<not> ss_scope_published u" "\<not> ss_scope_published v" "ss_auth_epoch v = ss_auth_epoch u"
      "ss_access_token v = ss_access_token u"
      "ss_last_refresh_result v = ss_last_refresh_result u \<or> ss_last_refresh_result v = None" for u v
    using that by (intro lease_step_unpublished) auto
  obtain q t where q: "next_epochs True s = (q, t)" by (cases "next_epochs True s")
  show ?thesis
  proof (cases q)
    case (Inl e)
    with assms q show ?thesis
      by (auto simp: refresh_persisted_begin_def lease_step_refl intro: lease_step_next_err
          split: if_splits sum.splits)
  next
    case (Inr ar)
    with q next_epochs_ok(1) [of True s "fst ar" "snd ar" t] have t: "next_epochs True s = (Inr ar, s)" by auto
    have "s' = s \<or> \<not> ss_scope_published s \<and> \<not> ss_scope_published s' \<and> ss_auth_epoch s' = ss_auth_epoch s
        \<and> ss_access_token s' = ss_access_token s
        \<and> (ss_last_refresh_result s' = ss_last_refresh_result s \<or> ss_last_refresh_result s' = None)"
      using assms t
      by (cases ar) (auto simp: refresh_persisted_begin_def Let_def
          split: if_splits sum.splits prod.splits option.splits)
    then show ?thesis using begun [of s s'] lease_step_refl by blast
  qed
qed

lemma refresh_persisted_finish_lease_step:
  assumes "refresh_persisted_finish store owner auth captured answer (s, d) = (r, s', d')"
    and "\<And>scope tokens. r = Inr scope \<Longrightarrow> answer = Inr tokens \<Longrightarrow> (scope, access_token tokens) \<in> issued"
  shows "lease_step issued s s'"
proof (cases "persisted_refresh_pending owner auth s")
  case False
  with assms(1) show ?thesis by (auto simp: refresh_persisted_finish_def lease_step_refl)
next
  case True
  show ?thesis
  proof (cases answer)
    case (Inr tokens)
    with assms True show ?thesis
      by (auto simp: refresh_persisted_finish_def Let_def intro: lease_step_next_err lease_step_published
          split: sum.splits prod.splits store_mutation.splits)
        (auto dest!: next_epochs_ok(1) simp: lease_step_conflict lease_step_failure)
  next
    case (Inl e)
    obtain q t where q: "next_epochs False (s\<lparr>ss_refreshing := False\<rparr>) = (q, t)"
      by (cases "next_epochs False (s\<lparr>ss_refreshing := False\<rparr>)")
    have s: "lease_step issued s (s\<lparr>ss_refreshing := False\<rparr>)" by (rule lease_step_same) auto
    show ?thesis
    proof (cases q)
      case (Inl e')
      with q assms(1) True \<open>answer = Inl e\<close> have "s' = t" by (auto simp: refresh_persisted_finish_def)
      with s lease_step_next_err [of False "s\<lparr>ss_refreshing := False\<rparr>" e' t issued] q Inl show ?thesis
        by (metis lease_step_trans)
    next
      case (Inr ar)
      with q next_epochs_ok(1) [of False "s\<lparr>ss_refreshing := False\<rparr>" "fst ar" "snd ar" t] assms(1) True
        \<open>answer = Inl e\<close> show ?thesis
        by (cases ar) (auto simp: refresh_persisted_finish_def intro!: lease_step_same)
    qed
  qed
qed

lemma clear_locked_lease_step:
  assumes "clear_locked store (s, d) = (r, s', d')"
  shows "lease_step issued s s'"
proof -
  have "lease_step issued s (invalidate_session_lease (s\<lparr>ss_persisted_owner_user_id := None, ss_authorized := None\<rparr>))"
    by (rule lease_step_trans [OF lease_step_same lease_step_invalidate]) auto
  then show ?thesis
    using assms
    by (auto simp: clear_locked_def Let_def lease_step_refl lease_step_invalidate lease_step_conflict
        split: option.splits prod.splits sum.splits store_mutation.splits if_splits)
qed

lemma refresh_claim_lease_step:
  assumes "refresh_claim store scope (s, d) = (r, s', d')"
  shows "lease_step issued s s'"
proof (cases "ss_refreshing s")
  case True
  with assms show ?thesis by (simp add: refresh_claim_def lease_step_refl)
next
  case False
  let ?s = "s\<lparr>ss_access_token := None\<rparr>"
  have s: "lease_step issued s ?s" by (rule lease_step_same) auto
  have f: "lease_step issued s (record_refresh_failure e ?s)" for e
    by (rule lease_step_trans [OF s lease_step_failure])
  have c: "lease_step issued s (record_store_conflict x ?s)" for x
    by (rule lease_step_trans [OF s lease_step_conflict])
  obtain q t where q: "next_epochs False s = (q, t)" by (cases "next_epochs False s")
  show ?thesis
  proof (cases q)
    case (Inl e)
    with q False assms show ?thesis by (auto simp: refresh_claim_def intro: lease_step_next_err)
  next
    case (Inr ar)
    with q next_epochs_ok(1) [of False s "fst ar" "snd ar" t] have t: "t = s" "next_epochs False s = (Inr ar, s)" by auto
    then show ?thesis
      using False assms f c
      by (cases ar) (auto simp: refresh_claim_def Let_def lease_step_invalidate
          intro: lease_step_same split: option.splits prod.splits sum.splits if_splits)
  qed
qed

lemma refresh_scope_begin_lease_step:
  "refresh_scope_begin store scope rejected (s, d) = (r, s', d') \<Longrightarrow> lease_step issued s s'"
  by (auto simp: refresh_scope_begin_def lease_step_refl intro: refresh_claim_lease_step
      split: if_splits option.splits)

lemma persist_tokens_lease_step:
  assumes "persist_refreshed_tokens_if_current store scope expected tokens (s, d) = (r, s', d')"
    and "r = Inr (access_token tokens) \<Longrightarrow> (scope, access_token tokens) \<in> issued"
  shows "lease_step issued s s'"
proof (cases "scope_matches s scope")
  case False
  with assms(1) show ?thesis by (simp add: persist_refreshed_tokens_if_current_def lease_step_refl)
next
  case True
  obtain q t where q: "next_epochs False s = (q, t)" by (cases "next_epochs False s")
  show ?thesis
  proof (cases q)
    case (Inl e)
    with q True assms(1) show ?thesis
      by (auto simp: persist_refreshed_tokens_if_current_def intro: lease_step_next_err)
  next
    case (Inr ar)
    then obtain a n where ar: "q = Inr (a, n)" by (cases ar) auto
    with q next_epochs_ok(1) [of False s a n t] have t: "next_epochs False s = (Inr (a, n), s)" by auto
    have owner: "(scope, x) \<in> issued \<Longrightarrow>
      (\<lparr>scope_owner_user_id = scope_owner_user_id scope, scope_auth_epoch = scope_auth_epoch scope\<rparr>, x) \<in> issued" for x
      by (cases scope) simp
    from t True assms owner show ?thesis
      by (auto simp: persist_refreshed_tokens_if_current_def Let_def lease_step_failure lease_step_conflict
          split: prod.splits sum.splits store_mutation.splits)
        (auto simp: lease_step_def lease_live_def tokens_ok_def token_issued_def scope_matches_def)
  qed
qed

lemma persist_refreshed_lease_step:
  assumes "persist_refreshed_tokens store scope tokens (s, d) = (r, s', d')"
    and "r = Inr (access_token tokens) \<Longrightarrow> (scope, access_token tokens) \<in> issued"
  shows "lease_step issued s s'"
  using assms
  by (auto simp: persist_refreshed_tokens_def lease_step_refl lease_step_invalidate
      intro: persist_tokens_lease_step split: if_splits option.splits)

lemma finish_refresh_lease_step:
  assumes "finish_refresh scope e s = (r, s')"
  shows "lease_step issued s s'"
proof (cases "scope_matches s scope")
  case False
  with assms show ?thesis by (simp add: finish_refresh_def lease_step_refl)
next
  case True
  obtain q t where q: "next_epochs False (s\<lparr>ss_refreshing := False\<rparr>) = (q, t)"
    by (cases "next_epochs False (s\<lparr>ss_refreshing := False\<rparr>)")
  have s: "lease_step issued s (s\<lparr>ss_refreshing := False\<rparr>)" by (rule lease_step_same) auto
  show ?thesis
  proof (cases q)
    case (Inl e')
    with q assms True have "s' = t" by (auto simp: finish_refresh_def)
    with s lease_step_next_err [of False "s\<lparr>ss_refreshing := False\<rparr>" e' t issued] q Inl show ?thesis
      by (metis lease_step_trans)
  next
    case (Inr ar)
    with q next_epochs_ok(1) [of False "s\<lparr>ss_refreshing := False\<rparr>" "fst ar" "snd ar" t] assms True show ?thesis
      by (cases ar) (auto simp: finish_refresh_def intro!: lease_step_same)
  qed
qed

lemma refresh_scope_finish_lease_step:
  assumes "refresh_scope_finish store scope captured answer (s, d) = (r, s', d')"
    and "\<And>t. r = Inr t \<Longrightarrow> (scope, t) \<in> issued"
  shows "lease_step issued s s'"
  using assms
  by (auto simp: refresh_scope_finish_def intro: persist_tokens_lease_step finish_refresh_lease_step
      split: sum.splits prod.splits)

section \<open>Runs\<close>

text \<open>
  Every operation of every thread, with arbitrary answers of the server, and changes of the store
  by other processes.
\<close>

record 'd session_system =
  sy_state :: session_state
  sy_disk :: 'd
  sy_issued :: issued_tokens

definition session_start :: "'d refresh_token_store \<Rightarrow> 'd \<Rightarrow> 'd session_system" where
  "session_start store d =
    \<lparr>sy_state = fst (session_new store d), sy_disk = snd (session_new store d), sy_issued = {}\<rparr>"

definition issue_on_success :: "(api_error + session_scope) \<Rightarrow> string \<Rightarrow> issued_tokens \<Rightarrow> issued_tokens" where
  "issue_on_success r t issued = (case r of Inr scope \<Rightarrow> insert (scope, t) issued | Inl _ \<Rightarrow> issued)"

inductive session_step ::
  "uuid_parser \<Rightarrow> 'd refresh_token_store \<Rightarrow> 'd session_system \<Rightarrow> 'd session_system \<Rightarrow> bool"
  for parse_uuid store where
  installs: "install_tokens_for_user store tokens owner (sy_state y, sy_disk y) = (r, s, d) \<Longrightarrow>
    session_step parse_uuid store y
      \<lparr>sy_state = s, sy_disk = d, sy_issued = issue_on_success r (access_token tokens) (sy_issued y)\<rparr>"
| resumes: "refresh_persisted_begin parse_uuid store owner (sy_state y, sy_disk y) = (r, s, d) \<Longrightarrow>
    session_step parse_uuid store y \<lparr>sy_state = s, sy_disk = d, sy_issued = sy_issued y\<rparr>"
| resumed: "refresh_persisted_finish store owner auth captured (Inr tokens) (sy_state y, sy_disk y) = (q, s, d) \<Longrightarrow>
    session_step parse_uuid store y
      \<lparr>sy_state = s, sy_disk = d, sy_issued = issue_on_success q (access_token tokens) (sy_issued y)\<rparr>"
| resume_fails: "refresh_persisted_finish store owner auth captured (Inl e) (sy_state y, sy_disk y) = (q, s, d) \<Longrightarrow>
    session_step parse_uuid store y \<lparr>sy_state = s, sy_disk = d, sy_issued = sy_issued y\<rparr>"
| clears: "clear_locked store (sy_state y, sy_disk y) = (u, s, d) \<Longrightarrow>
    session_step parse_uuid store y \<lparr>sy_state = s, sy_disk = d, sy_issued = sy_issued y\<rparr>"
| clears_scope: "clear_scope store scope (sy_state y, sy_disk y) = (u, s, d) \<Longrightarrow>
    session_step parse_uuid store y \<lparr>sy_state = s, sy_disk = d, sy_issued = sy_issued y\<rparr>"
| clears_epoch: "clear_epoch store auth (sy_state y, sy_disk y) = (u, s, d) \<Longrightarrow>
    session_step parse_uuid store y \<lparr>sy_state = s, sy_disk = d, sy_issued = sy_issued y\<rparr>"
| clears_token: "session_step parse_uuid store y (y\<lparr>sy_state := clear_access_token (sy_state y)\<rparr>)"
| refreshes: "refresh_scope_begin store scope rejected (sy_state y, sy_disk y) = (n, s, d) \<Longrightarrow>
    session_step parse_uuid store y \<lparr>sy_state = s, sy_disk = d, sy_issued = sy_issued y\<rparr>"
| refreshed: "refresh_scope_finish store scope captured answer (sy_state y, sy_disk y) = (Inr t, s, d) \<Longrightarrow>
    session_step parse_uuid store y \<lparr>sy_state = s, sy_disk = d, sy_issued = insert (scope, t) (sy_issued y)\<rparr>"
| refresh_fails: "refresh_scope_finish store scope captured answer (sy_state y, sy_disk y) = (Inl e, s, d) \<Longrightarrow>
    session_step parse_uuid store y \<lparr>sy_state = s, sy_disk = d, sy_issued = sy_issued y\<rparr>"
| persists: "persist_refreshed_tokens store scope tokens (sy_state y, sy_disk y) = (Inr t, s, d) \<Longrightarrow>
    session_step parse_uuid store y \<lparr>sy_state = s, sy_disk = d, sy_issued = insert (scope, t) (sy_issued y)\<rparr>"
| persist_fails: "persist_refreshed_tokens store scope tokens (sy_state y, sy_disk y) = (Inl e, s, d) \<Longrightarrow>
    session_step parse_uuid store y \<lparr>sy_state = s, sy_disk = d, sy_issued = sy_issued y\<rparr>"
| other_process: "session_step parse_uuid store y (y\<lparr>sy_disk := d\<rparr>)"

lemma clear_scope_lease_step:
  "clear_scope store scope (s, d) = (r, s', d') \<Longrightarrow> lease_step issued s s'"
  by (auto simp: clear_scope_def lease_step_refl intro: clear_locked_lease_step split: if_splits)

lemma clear_epoch_lease_step:
  "clear_epoch store auth (s, d) = (r, s', d') \<Longrightarrow> lease_step issued s s'"
  by (auto simp: clear_epoch_def lease_step_refl intro: clear_locked_lease_step split: if_splits)

lemma session_step_lease:
  assumes "session_step parse_uuid store y z"
  shows "sy_issued y \<subseteq> sy_issued z \<and> lease_step (sy_issued z) (sy_state y) (sy_state z)"
  using assms
proof cases
  case (installs tokens owner r s d)
  then show ?thesis
    using install_lease_step [OF installs(2), of "sy_issued z"] by (auto simp: issue_on_success_def split: sum.splits)
next
  case (resumed owner auth captured tokens q s d)
  then show ?thesis
    using refresh_persisted_finish_lease_step [OF resumed(2), of "sy_issued z"]
    by (auto simp: issue_on_success_def split: sum.splits)
next
  case (resume_fails owner auth captured e q s d)
  then show ?thesis
    using refresh_persisted_finish_lease_step [OF resume_fails(2), of "sy_issued z"] by auto
next
  case (refreshed scope captured answer t s d)
  then show ?thesis
    using refresh_scope_finish_lease_step [OF refreshed(2), of "sy_issued z"] by auto
next
  case (refresh_fails scope captured answer e s d)
  then show ?thesis
    using refresh_scope_finish_lease_step [OF refresh_fails(2), of "sy_issued z"] by auto
next
  case (persists scope tokens t s d)
  then show ?thesis
    using persist_refreshed_lease_step [OF persists(2), of "sy_issued z"] by auto
next
  case (persist_fails scope tokens e s d)
  then show ?thesis
    using persist_refreshed_lease_step [OF persist_fails(2), of "sy_issued z"] by auto
qed (auto simp: clear_access_token_def lease_step_refl intro: refresh_persisted_begin_lease_step clear_locked_lease_step
    clear_scope_lease_step clear_epoch_lease_step refresh_scope_begin_lease_step lease_step_same)

definition lease_order :: "session_state \<Rightarrow> session_state \<Rightarrow> bool" where
  "lease_order s t =
    (ss_auth_epoch s \<le> ss_auth_epoch t
     \<and> (lease_live t \<longrightarrow> ss_auth_epoch t = ss_auth_epoch s \<longrightarrow> lease_live s \<and> ss_owner_user_id t = ss_owner_user_id s))"

lemma lease_order_trans: "lease_order s t \<Longrightarrow> lease_order t u \<Longrightarrow> lease_order s u"
  unfolding lease_order_def by (metis order.antisym order.trans)

lemma session_run_order:
  assumes "(session_step parse_uuid store)\<^sup>*\<^sup>* y z"
  shows "lease_order (sy_state y) (sy_state z)"
  using assms
proof (induction rule: rtranclp_induct)
  case base
  show ?case by (simp add: lease_order_def)
next
  case (step u v)
  then have "lease_order (sy_state u) (sy_state v)"
    using session_step_lease by (auto simp: lease_order_def lease_step_def)
  with step.IH show ?case by (rule lease_order_trans)
qed

lemma tokens_ok_mono: "tokens_ok issued s \<Longrightarrow> issued \<subseteq> issued' \<Longrightarrow> tokens_ok issued' s"
  unfolding tokens_ok_def token_issued_def by blast

lemma session_run_tokens:
  assumes "(session_step parse_uuid store)\<^sup>*\<^sup>* (session_start store d) y"
  shows "tokens_ok (sy_issued y) (sy_state y)"
proof (rule run_invariant [where I = "\<lambda>y. tokens_ok (sy_issued y) (sy_state y)", OF assms])
  show "tokens_ok (sy_issued (session_start store d)) (sy_state (session_start store d))"
    by (auto simp: session_start_def session_new_def session_default_def tokens_ok_def split: prod.splits sum.splits)
  show "tokens_ok (sy_issued t) (sy_state t)"
    if "session_step parse_uuid store s t" "tokens_ok (sy_issued s) (sy_state s)" for s t
    using session_step_lease [OF that(1)] tokens_ok_mono [OF that(2)] by (auto simp: lease_step_def)
qed

section \<open>Properties\<close>

lemma scope_matches_live: "scope_matches s scope \<longleftrightarrow>
    lease_live s \<and> ss_auth_epoch s = scope_auth_epoch scope \<and> ss_owner_user_id s = Some (scope_owner_user_id scope)"
  by (auto simp: scope_matches_def lease_live_def)

section \<open>A failed startup read\<close>

text \<open>A failed startup read is never forgotten, and until the restart no lease is published.\<close>

lemma startup_kept [simp]:
  "ss_startup_read_failure (close_exhausted_session s) = ss_startup_read_failure s"
  "ss_startup_read_failure (invalidate_session_lease s) = ss_startup_read_failure s"
  "ss_startup_read_failure (published_with owner auth refresh persisted tokens s) = ss_startup_read_failure s"
  by (auto simp: close_exhausted_session_def invalidate_session_lease_def published_with_def split: option.split)

lemma startup_kept_next: "next_epochs b s = (r, t) \<Longrightarrow> ss_startup_read_failure t = ss_startup_read_failure s"
  by (cases r) (auto dest: next_epochs_ok(1) next_epochs_err(1))

lemma startup_kept_failures [simp]:
  "ss_startup_read_failure (record_refresh_failure e s) = ss_startup_read_failure s"
  "ss_startup_read_failure (record_store_conflict current s) = ss_startup_read_failure s"
proof -
  show f: "ss_startup_read_failure (record_refresh_failure e s) = ss_startup_read_failure s" for e s
    by (auto simp: record_refresh_failure_def dest!: startup_kept_next split: prod.split sum.split)
  show "ss_startup_read_failure (record_store_conflict current s) = ss_startup_read_failure s"
    by (simp add: record_store_conflict_def Let_def f)
qed

lemmas startup_splits = prod.splits sum.splits option.splits store_mutation.splits if_splits

lemma startup_clear:
  "clear_locked store sd = (r, s, d) \<Longrightarrow> ss_startup_read_failure s = ss_startup_read_failure (fst sd)"
  "clear_scope store scope sd = (r, s, d) \<Longrightarrow> ss_startup_read_failure s = ss_startup_read_failure (fst sd)"
  "clear_epoch store epoch sd = (r, s, d) \<Longrightarrow> ss_startup_read_failure s = ss_startup_read_failure (fst sd)"
proof -
  show c: "clear_locked store sd = (r, s, d) \<Longrightarrow> ss_startup_read_failure s = ss_startup_read_failure (fst sd)"
    by (cases sd) (auto simp: clear_locked_def Let_def split: startup_splits)
  then show "clear_scope store scope sd = (r, s, d) \<Longrightarrow> ss_startup_read_failure s = ss_startup_read_failure (fst sd)"
    "clear_epoch store epoch sd = (r, s, d) \<Longrightarrow> ss_startup_read_failure s = ss_startup_read_failure (fst sd)"
    by (auto simp: clear_scope_def clear_epoch_def split: if_splits)
qed

lemma startup_install:
  "install_tokens_for_user store tokens owner (u, v) = (r, s, d) \<Longrightarrow> ss_startup_read_failure s = ss_startup_read_failure u"
  by (auto simp: install_tokens_for_user_def Let_def dest: startup_kept_next split: startup_splits)

lemma startup_resume:
  "refresh_persisted_begin parse_uuid store owner (u, v) = (q, s, d) \<Longrightarrow> ss_startup_read_failure s = ss_startup_read_failure u"
  "refresh_persisted_finish store owner auth captured answer (u, v) = (r, s, d) \<Longrightarrow> ss_startup_read_failure s = ss_startup_read_failure u"
  by (auto simp: refresh_persisted_begin_def refresh_persisted_finish_def Let_def dest!: startup_kept_next
      split: startup_splits)

lemma startup_claim:
  "refresh_claim store scope (u, v) = (q, s, d) \<Longrightarrow> ss_startup_read_failure s = ss_startup_read_failure u"
  by (auto simp: refresh_claim_def Let_def dest!: startup_kept_next split: startup_splits)

lemma startup_refresh:
  "refresh_scope_begin store scope rejected (u, v) = (q, s, d) \<Longrightarrow> ss_startup_read_failure s = ss_startup_read_failure u"
  "persist_refreshed_tokens_if_current store scope expected tokens (u, v) = (r, s, d) \<Longrightarrow>
    ss_startup_read_failure s = ss_startup_read_failure u"
  "finish_refresh scope e u = (r, s) \<Longrightarrow> ss_startup_read_failure s = ss_startup_read_failure u"
  by (auto simp: refresh_scope_begin_def persist_refreshed_tokens_if_current_def finish_refresh_def Let_def
      dest!: startup_kept_next startup_claim split: startup_splits)

lemma startup_step:
  assumes "session_step parse_uuid store y z"
  shows "ss_startup_read_failure (sy_state z) = ss_startup_read_failure (sy_state y)"
  using assms
  by cases (auto simp: refresh_scope_finish_def persist_refreshed_tokens_def clear_access_token_def
      dest: startup_install startup_resume startup_refresh startup_clear split: sum.splits prod.splits option.splits if_splits)

definition startup_closed :: "session_state \<Rightarrow> bool" where
  "startup_closed s = (ss_startup_read_failure s \<noteq> None \<longrightarrow> \<not> ss_scope_published s \<and> \<not> ss_refreshing s)"

lemma startup_closed_step:
  assumes "session_step parse_uuid store y z" and "startup_closed (sy_state y)"
  shows "startup_closed (sy_state z)"
proof (cases "ss_startup_read_failure (sy_state y)")
  case None
  with startup_step [OF assms(1)] show ?thesis by (simp add: startup_closed_def)
next
  case (Some e)
  with assms(2) have closed: "\<not> ss_scope_published (sy_state y)" "\<not> ss_refreshing (sy_state y)"
    by (simp_all add: startup_closed_def)
  from assms(1) have "ss_scope_published (sy_state z) = ss_scope_published (sy_state y)
      \<and> ss_refreshing (sy_state z) = ss_refreshing (sy_state y)"
    using Some closed
    by cases (auto simp: install_tokens_for_user_def refresh_persisted_begin_def refresh_persisted_finish_def
        require_known_slot_def persisted_refresh_pending_def clear_locked_def clear_scope_def clear_epoch_def
        cleared_lease_matches_epoch_def clear_access_token_def refresh_scope_begin_def refresh_scope_finish_def
        persist_refreshed_tokens_if_current_def persist_refreshed_tokens_def finish_refresh_def scope_matches_def
        split: if_splits sum.splits prod.splits)
  with closed show ?thesis by (simp add: startup_closed_def)
qed

lemma startup_closed_run:
  assumes "(session_step parse_uuid store)\<^sup>*\<^sup>* (session_start store d) y"
  shows "startup_closed (sy_state y)"
proof (rule run_invariant [where I = "\<lambda>y. startup_closed (sy_state y)", OF assms])
  show "startup_closed (sy_state (session_start store d))"
    by (auto simp: session_start_def session_new_def session_default_def startup_closed_def split: prod.splits sum.splits)
qed (rule startup_closed_step)

text \<open>After clearing a scope it is not current, whether or not clearing reported success.\<close>

lemma conflict_not_live: "ss_scope_published s \<Longrightarrow> \<not> lease_live (record_store_conflict current s)"
  by (simp add: record_store_conflict_def Let_def invalidated_not_live)

lemma clear_scope_ends:
  assumes "clear_scope store scope (s, d) = (r, s', d')" and "startup_closed s"
  shows "\<not> scope_matches s' scope"
proof (cases "cleared_lease_matches_epoch s (scope_auth_epoch scope) \<or> \<not> scope_matches s scope")
  case True
  with assms(1) show ?thesis
    by (auto simp: clear_scope_def cleared_lease_matches_epoch_def scope_matches_def split: if_splits)
next
  case False
  then have "ss_scope_published s" by (simp add: scope_matches_def)
  moreover from this assms(2) have "ss_startup_read_failure s = None" by (auto simp: startup_closed_def)
  moreover have "clear_locked store (s, d) = (r, s', d')" using False assms(1) by (simp add: clear_scope_def)
  ultimately have "\<not> lease_live s'"
    by (auto simp: clear_locked_def Let_def invalidated_not_live conflict_not_live split: startup_splits)
  then show ?thesis by (simp add: scope_matches_live)
qed

section \<open>Tokens a reader obtains\<close>

lemma tokens_ok_issued:
  assumes "tokens_ok issued s"
    and "access_token_for_scope_enter scope s = Inr (Inl t)
      \<or> access_token_for_scope_wake scope observed s = Some (Inr t)
      \<or> refresh_scope_wake scope observed s = Some (Inr t)
      \<or> fst (refresh_scope_begin store scope rejected (s, d)) = Finished (Inr t)"
  shows "(scope, t) \<in> issued"
proof -
  have "scope_matches s scope \<and> (ss_access_token s = Some t \<or> ss_last_refresh_result s = Some (Inr t))"
    using assms(2)
    by (auto simp: access_token_for_scope_enter_def access_token_for_scope_wake_def refresh_scope_wake_def last_result_def
        refresh_scope_begin_def refresh_claim_def Let_def dest!: next_epochs_err(2)
        split: if_splits option.splits sum.splits prod.splits)
  with assms(1) show ?thesis
    by (cases scope) (auto simp: tokens_ok_def token_issued_def scope_matches_live)
qed

section \<open>The epochs\<close>

text \<open>
  C26: a captured session scope never comes back: in every interleaving of logins, logouts,
  refreshes, resumes, failures of the store and changes by other processes, an authentication
  epoch stands for at most one published user, and a scope whose epoch has been reached and that
  is not current is never current again.
\<close>

theorem session_scope_never_returns:
  assumes "(session_step parse_uuid store)\<^sup>*\<^sup>* y z" and "is_scope_current b (sy_state z)"
  shows "(scope_auth_epoch b \<le> ss_auth_epoch (sy_state y) \<longrightarrow> is_scope_current b (sy_state y))
    \<and> (is_scope_current a (sy_state y) \<longrightarrow> scope_auth_epoch a = scope_auth_epoch b \<longrightarrow> a = b)"
proof -
  note order = session_run_order [OF assms(1)]
  from assms(2) have b: "lease_live (sy_state z)" "ss_auth_epoch (sy_state z) = scope_auth_epoch b"
    "ss_owner_user_id (sy_state z) = Some (scope_owner_user_id b)"
    by (auto simp: is_scope_current_def scope_matches_live)
  have earlier: "is_scope_current b (sy_state y)" if "scope_auth_epoch b \<le> ss_auth_epoch (sy_state y)"
  proof -
    have "ss_auth_epoch (sy_state z) = ss_auth_epoch (sy_state y)"
      using order that b(2) by (auto simp: lease_order_def)
    with order b show ?thesis by (auto simp: lease_order_def is_scope_current_def scope_matches_live)
  qed
  moreover have "a = b" if "is_scope_current a (sy_state y)" "scope_auth_epoch a = scope_auth_epoch b"
  proof -
    have "scope_auth_epoch b \<le> ss_auth_epoch (sy_state y)"
      using that by (auto simp: is_scope_current_def scope_matches_live)
    with earlier that show ?thesis
      by (cases a; cases b) (auto simp: is_scope_current_def scope_matches_live)
  qed
  ultimately show ?thesis by blast
qed

definition witness_tokens :: "string \<Rightarrow> token_set" where
  "witness_tokens t = \<lparr>access_token = t, access_expires_in_seconds = 900, refresh_token = ''r'',
    refresh_expires_at = ''2030'', token_type = ''Bearer''\<rparr>"

definition witness_login :: "persisted_refresh_session option session_system" where
  "witness_login = \<lparr>sy_state = session_default\<lparr>ss_access_token := Some ''t'', ss_owner_user_id := Some ''u'',
      ss_persisted_owner_user_id := Some ''u'',
      ss_authorized := Some \<lparr>rs_owner_user_id = ''u'', rs_refresh_token = ''r''\<rparr>, ss_scope_published := True,
      ss_auth_epoch := 1, ss_refresh_epoch := 1, ss_last_refresh_result := Some (Inr ''t'')\<rparr>,
    sy_disk = Some \<lparr>rs_owner_user_id = ''u'', rs_refresh_token = ''r''\<rparr>,
    sy_issued = {(\<lparr>scope_owner_user_id = ''u'', scope_auth_epoch = 1\<rparr>, ''t'')}\<rparr>"

definition witness_logout :: "persisted_refresh_session option session_system" where
  "witness_logout = witness_login\<lparr>sy_state := session_default\<lparr>ss_auth_epoch := 2, ss_refresh_epoch := 2\<rparr>, sy_disk := None\<rparr>"

definition witness_relogin :: "persisted_refresh_session option session_system" where
  "witness_relogin = \<lparr>sy_state = session_default\<lparr>ss_access_token := Some ''s'', ss_owner_user_id := Some ''u'',
      ss_persisted_owner_user_id := Some ''u'',
      ss_authorized := Some \<lparr>rs_owner_user_id = ''u'', rs_refresh_token = ''r''\<rparr>, ss_scope_published := True,
      ss_auth_epoch := 3, ss_refresh_epoch := 3, ss_last_refresh_result := Some (Inr ''s'')\<rparr>,
    sy_disk = Some \<lparr>rs_owner_user_id = ''u'', rs_refresh_token = ''r''\<rparr>,
    sy_issued = {(\<lparr>scope_owner_user_id = ''u'', scope_auth_epoch = 3\<rparr>, ''s''),
      (\<lparr>scope_owner_user_id = ''u'', scope_auth_epoch = 1\<rparr>, ''t'')}\<rparr>"

lemmas witness_session_ops =
  memory_store_def memory_load_def memory_save_def memory_clear_if_current_def session_default_def
  install_tokens_for_user_def require_known_slot_def next_epochs_def published_with_def checked_add_def
  clear_locked_def invalidate_session_lease_def issue_on_success_def witness_tokens_def Let_def

lemma witness_logs_in: "session_step Some memory_store (session_start memory_store None) witness_login"
proof -
  have "install_tokens_for_user memory_store (witness_tokens ''t'') ''u''
      (sy_state (session_start memory_store None), sy_disk (session_start memory_store None)) =
      (Inr \<lparr>scope_owner_user_id = ''u'', scope_auth_epoch = 1\<rparr>, sy_state witness_login, sy_disk witness_login)"
    by (simp add: session_start_def session_new_def witness_login_def witness_session_ops)
  from installs [OF this] show ?thesis
    by (simp add: session_start_def witness_login_def issue_on_success_def witness_tokens_def)
qed

lemma witness_logs_out: "session_step Some memory_store witness_login witness_logout"
proof -
  have "clear_locked memory_store (sy_state witness_login, sy_disk witness_login) =
      (Inr (), sy_state witness_logout, sy_disk witness_logout)"
    by (simp add: witness_login_def witness_logout_def witness_session_ops)
  from clears [OF this] show ?thesis by (simp add: witness_login_def witness_logout_def)
qed

lemma witness_logs_in_again: "session_step Some memory_store witness_logout witness_relogin"
proof -
  have "install_tokens_for_user memory_store (witness_tokens ''s'') ''u'' (sy_state witness_logout, sy_disk witness_logout) =
      (Inr \<lparr>scope_owner_user_id = ''u'', scope_auth_epoch = 3\<rparr>, sy_state witness_relogin, sy_disk witness_relogin)"
    by (simp add: witness_login_def witness_logout_def witness_relogin_def witness_session_ops)
  from installs [OF this] show ?thesis
    by (simp add: witness_login_def witness_logout_def witness_relogin_def issue_on_success_def witness_tokens_def)
qed

theorem session_scope_never_returns_witness:
  "is_scope_current \<lparr>scope_owner_user_id = ''u'', scope_auth_epoch = 3\<rparr> (sy_state witness_relogin)
   \<and> \<not> is_scope_current \<lparr>scope_owner_user_id = ''u'', scope_auth_epoch = 1\<rparr> (sy_state witness_relogin)"
proof -
  let ?old = "\<lparr>scope_owner_user_id = ''u'', scope_auth_epoch = 1\<rparr>"
  have run: "(session_step Some memory_store)\<^sup>*\<^sup>* witness_logout witness_relogin"
    using witness_logs_in_again by blast
  have old: "\<not> is_scope_current ?old (sy_state witness_logout)"
    "scope_auth_epoch ?old \<le> ss_auth_epoch (sy_state witness_logout)"
    by (simp_all add: is_scope_current_def scope_matches_def witness_logout_def session_default_def)
  have "\<not> is_scope_current ?old (sy_state witness_relogin)"
    using session_scope_never_returns [OF run, of ?old] old by blast
  then show ?thesis
    by (simp add: is_scope_current_def scope_matches_def witness_relogin_def session_default_def)
qed

text \<open>
  A request gets only a token of its own scope: whatever a reader obtains for a captured scope,
  at once, after waiting for a refresh, or as the answer of a refresh another thread ran, was
  issued to that user under that authentication epoch.
\<close>

theorem token_was_issued_for_scope:
  assumes "(session_step parse_uuid store)\<^sup>*\<^sup>* (session_start store d) y"
    and "access_token_for_scope_enter scope (sy_state y) = Inr (Inl t)
      \<or> access_token_for_scope_wake scope observed (sy_state y) = Some (Inr t)
      \<or> refresh_scope_wake scope observed (sy_state y) = Some (Inr t)
      \<or> fst (refresh_scope_begin store scope rejected (sy_state y, sy_disk y)) = Finished (Inr t)"
  shows "(scope, t) \<in> sy_issued y"
  by (rule tokens_ok_issued [OF session_run_tokens [OF assms(1)] assms(2)])

theorem token_was_issued_for_scope_witness:
  "(\<lparr>scope_owner_user_id = ''u'', scope_auth_epoch = 1\<rparr>, ''t'') \<in> sy_issued witness_login"
proof -
  have run: "(session_step Some memory_store)\<^sup>*\<^sup>* (session_start memory_store None) witness_login"
    using witness_logs_in by blast
  have "access_token_for_scope_enter \<lparr>scope_owner_user_id = ''u'', scope_auth_epoch = 1\<rparr> (sy_state witness_login) = Inr (Inl ''t'')"
    by (simp add: access_token_for_scope_enter_def scope_matches_def witness_login_def session_default_def)
  with token_was_issued_for_scope [OF run, of _ "''t''"] show ?thesis by blast
qed

section \<open>The durable record\<close>

text \<open>What a store keeping its promises turns into for the manager.\<close>

context token_store
begin

lemma clear_locked_record:
  assumes "clear_locked store (s, d) = (r, s', d')"
  shows "holds d' = holds d \<or> holds d = ss_authorized s \<and> holds d' = None \<and> r = Inr ()"
    "r = Inr () \<Longrightarrow> ss_authorized s \<noteq> None \<Longrightarrow> holds d' = None"
    "ss_startup_read_failure s = None \<Longrightarrow> \<not> lease_live s'"
proof -
  show "holds d' = holds d \<or> holds d = ss_authorized s \<and> holds d' = None \<and> r = Inr ()"
    using assms clear_applied clear_conflict clear_err
    by (auto simp: clear_locked_def Let_def split: option.splits prod.splits sum.splits store_mutation.splits if_splits)
  show "r = Inr () \<Longrightarrow> ss_authorized s \<noteq> None \<Longrightarrow> holds d' = None"
    using assms clear_applied
    by (auto simp: clear_locked_def Let_def split: option.splits prod.splits sum.splits store_mutation.splits if_splits)
  have "\<not> lease_live (record_store_conflict c s)" for c
    using lease_step_failure [of "{}" _ AuthenticationRequired] invalidated_not_live
    by (auto simp: record_store_conflict_def record_refresh_failure_def Let_def lease_live_def close_exhausted_session_def
        dest!: next_epochs_ok(1) next_epochs_err(1) split: sum.splits prod.splits)
  then show "ss_startup_read_failure s = None \<Longrightarrow> \<not> lease_live s'"
    using assms invalidated_not_live
    by (auto simp: clear_locked_def Let_def split: option.splits prod.splits sum.splits store_mutation.splits if_splits)
qed

lemma persist_tokens_record:
  assumes "persist_refreshed_tokens_if_current store scope expected tokens (s, d) = (r, s', d')"
  shows "case r of
      Inr t \<Rightarrow> holds d = Some expected
        \<and> holds d' = Some \<lparr>rs_owner_user_id = scope_owner_user_id scope, rs_refresh_token = refresh_token tokens\<rparr>
        \<and> ss_authorized s' = holds d' \<and> scope_matches s scope \<and> scope_matches s' scope
        \<and> t = access_token tokens \<and> ss_access_token s' = Some t
        \<and> \<not> ss_refreshing s' \<and> ss_last_refresh_result s' = Some (Inr t)
    | Inl e \<Rightarrow> holds d' = holds d"
proof (cases "scope_matches s scope")
  case False
  with assms show ?thesis by (auto simp: persist_refreshed_tokens_if_current_def)
next
  case True
  obtain q u where q: "next_epochs False s = (q, u)" by (cases "next_epochs False s")
  show ?thesis
  proof (cases q)
    case (Inl e)
    with q True assms show ?thesis by (auto simp: persist_refreshed_tokens_if_current_def)
  next
    case (Inr an)
    with q next_epochs_ok(1) [of False s "fst an" "snd an" u] have "next_epochs False s = (Inr an, s)" by auto
    then show ?thesis
      using assms True replace_applied replace_conflict replace_err
      by (cases an) (auto simp: persist_refreshed_tokens_if_current_def Let_def scope_matches_def
          split: prod.splits sum.splits store_mutation.splits)
  qed
qed

lemma install_record:
  assumes "install_tokens_for_user store tokens owner (s, d) = (r, s', d')"
  shows "case r of
      Inr scope \<Rightarrow> holds d' = Some \<lparr>rs_owner_user_id = owner, rs_refresh_token = refresh_token tokens\<rparr>
        \<and> scope_matches s' scope \<and> ss_authorized s' = holds d' \<and> scope_owner_user_id scope = owner
    | Inl e \<Rightarrow> holds d' = holds d"
proof (cases "require_known_slot s")
  case (Inl e)
  with assms show ?thesis by (auto simp: install_tokens_for_user_def)
next
  case ok: (Inr v)
  obtain q u where q: "next_epochs True s = (q, u)" by (cases "next_epochs True s")
  show ?thesis
  proof (cases q)
    case (Inl e)
    with q ok assms show ?thesis by (auto simp: install_tokens_for_user_def)
  next
    case (Inr an)
    with q next_epochs_ok(1,2) [of True s "fst an" "snd an" u]
    have "next_epochs True s = (Inr an, s)" "\<not> ss_epoch_exhausted s" by auto
    then show ?thesis
      using assms ok save_ok save_err
      by (cases an) (auto simp: install_tokens_for_user_def published_with_def Let_def scope_matches_def
          split: prod.splits sum.splits)
  qed
qed

end

text \<open>
  A logout touches only the session it knows: whatever file operation fails and whatever
  another process wrote, clearing the session on the file store either leaves the stored record as
  it is or removes exactly the record this process was authorized for; a logout that reports
  success left no record behind, and after every logout of a readable store the lease is gone.
\<close>

theorem logout_removes_own_record_only:
  "case clear_locked (file_store env) (s, d) of (r, s', d') \<Rightarrow>
     (disk_record env d' = disk_record env d
      \<or> disk_record env d = ss_authorized s \<and> disk_record env d' = None \<and> r = Inr ())
     \<and> (r = Inr () \<longrightarrow> ss_authorized s \<noteq> None \<longrightarrow> disk_record env d' = None)
     \<and> (ss_startup_read_failure s = None \<longrightarrow> \<not> lease_live s')"
  using disk.clear_locked_record [of env s d] by (auto split: prod.splits)

definition witness_environment :: store_environment where
  "witness_environment = \<lparr>env_parse_uuid = Some, env_from_slice = (\<lambda>_. None), env_temporary = (\<lambda>_. ''x'')\<rparr>"

definition witness_disk :: session_disk where
  "witness_disk = \<lparr>disk_directory = True,
    disk_files = [REFRESH_SESSION_FILE \<mapsto> Serialized \<lparr>rs_owner_user_id = ''u'', rs_refresh_token = ''r''\<rparr>],
    disk_faults = [], disk_temp_sequence = 0\<rparr>"

theorem logout_removes_own_record_only_witness:
  "disk_record witness_environment witness_disk = Some \<lparr>rs_owner_user_id = ''u'', rs_refresh_token = ''r''\<rparr>
   \<and> disk_record witness_environment
       (snd (snd (clear_locked (file_store witness_environment) (sy_state witness_login, witness_disk)))) = None"
proof -
  have parsed: "parse_option witness_environment (Some (Serialized \<lparr>rs_owner_user_id = ''u'', rs_refresh_token = ''r''\<rparr>)) =
      Inr (Some \<lparr>rs_owner_user_id = ''u'', rs_refresh_token = ''r''\<rparr>)"
    by (simp add: parse_option_def store_parse_def canonical_owner_user_id_def witness_environment_def white_space1_def)
  have ok: "fst (clear_locked (file_store witness_environment) (sy_state witness_login, witness_disk)) = Inr ()"
    using parsed
    by (simp add: clear_locked_def witness_login_def session_default_def file_store_def file_clear_if_current_def
        locked_open_def system_call_def witness_disk_def load_parsed_def locked_load_def locked_remove_def)
  have "ss_authorized (sy_state witness_login) \<noteq> None" by (simp add: witness_login_def)
  with ok logout_removes_own_record_only [of witness_environment witness_disk "sy_state witness_login"]
  have "disk_record witness_environment
       (snd (snd (clear_locked (file_store witness_environment) (sy_state witness_login, witness_disk)))) = None"
    by (auto split: prod.splits)
  with parsed show ?thesis by (simp add: disk_record_def witness_disk_def)
qed

text \<open>
  What a failed refresh leaves in memory. A scope that is no longer current changes nothing.
  Otherwise nobody waits for the refresh any more, and the lease is either given up, or it is still
  the old one: the old access token, the old authorization, and the error for those who waited.
\<close>

definition given_up :: "session_scope \<Rightarrow> session_state \<Rightarrow> session_state \<Rightarrow> bool" where
  "given_up scope s s' =
    (\<not> scope_matches s' scope \<and> ss_access_token s' = None
     \<and> (ss_authorized s' = None \<or> ss_authorized s' = ss_authorized s)
     \<and> (\<forall>t. ss_last_refresh_result s' \<noteq> Some (Inr t)))"

definition same_lease :: "api_error \<Rightarrow> session_scope \<Rightarrow> session_state \<Rightarrow> session_state \<Rightarrow> bool" where
  "same_lease e scope s s' =
    (scope_matches s' scope \<and> ss_access_token s' = ss_access_token s \<and> ss_authorized s' = ss_authorized s
     \<and> ss_last_refresh_result s' = Some (Inl e))"

lemma exhausted_given_up: "given_up scope s (close_exhausted_session s)"
  by (simp add: given_up_def close_exhausted_session_def scope_matches_def)

lemma conflict_given_up:
  assumes "scope_matches s scope"
  shows "given_up scope s (record_store_conflict current s) \<and> \<not> ss_refreshing (record_store_conflict current s)"
  using assms
  by (auto simp: given_up_def record_store_conflict_def invalidate_session_lease_def close_exhausted_session_def
      scope_matches_def Let_def split: option.splits)

lemma failure_same_lease:
  assumes "scope_matches s scope" "next_epochs False s = (Inr an, u)"
  shows "same_lease e scope s (record_refresh_failure e s) \<and> \<not> ss_refreshing (record_refresh_failure e s)"
  using assms
  by (auto simp: same_lease_def record_refresh_failure_def next_epochs_def scope_matches_def Let_def
      split: option.splits if_splits)

lemma failed_refresh_in_memory:
  assumes "persist_refreshed_tokens_if_current store scope expected tokens (s, d) = (Inl e, s', d')"
    and genuine: "\<And>x n d0 e d1. store_replace_if_current store x n d0 = (Inl e, d1) \<Longrightarrow> e \<noteq> AuthenticationRequired"
  shows "if \<not> scope_matches s scope then s' = s
    else \<not> ss_refreshing s' \<and> (if e = AuthenticationRequired then given_up scope s s' else same_lease e scope s s')"
proof (cases "scope_matches s scope")
  case False
  with assms(1) show ?thesis by (simp add: persist_refreshed_tokens_if_current_def)
next
  case True
  obtain q u where q: "next_epochs False s = (q, u)" by (cases "next_epochs False s")
  show ?thesis
  proof (cases q)
    case (Inl x)
    with q next_epochs_err(1) [of False s x u] have "u = close_exhausted_session s" by simp
    moreover have "x = AuthenticationRequired"
      using q Inl by (auto simp: next_epochs_def Let_def split: option.splits if_splits)
    ultimately show ?thesis
      using Inl q True assms(1) exhausted_given_up
      by (auto simp: persist_refreshed_tokens_if_current_def close_exhausted_session_def)
  next
    case (Inr an)
    with q next_epochs_ok(1) [of False s "fst an" "snd an" u] have n: "next_epochs False s = (Inr an, s)" by auto
    then show ?thesis
      using assms(1) True conflict_given_up [OF True] failure_same_lease [OF True n]
      by (cases an) (auto simp: persist_refreshed_tokens_if_current_def Let_def dest: genuine
          split: prod.splits sum.splits store_mutation.splits)
  qed
qed

text \<open>
  C28: the rotated refresh token is durable before the access token is used. When a refresh on the
  file store succeeds, the file held exactly the record the refresh started from and now holds the
  rotated one, for the user of the captured scope, which is still current; the session and everyone
  who waited have the new access token. When it fails, the stored record is untouched and the new
  access token is published nowhere: a scope that was no longer current leaves the session as it is;
  otherwise the refresh is over, and after a failed file operation the lease is the old one, with its
  old token and authorization, and those who wait are told the error, while after a conflict with
  another process (or an exhausted counter) the lease is given up, with no token and no success for
  those who wait.
\<close>

theorem refresh_is_durable_first:
  "case persist_refreshed_tokens_if_current (file_store env) scope captured tokens (s, d) of
     (Inr t, s', d') \<Rightarrow> scope_matches s scope \<and> disk_record env d = Some captured
        \<and> disk_record env d' = Some \<lparr>rs_owner_user_id = scope_owner_user_id scope, rs_refresh_token = refresh_token tokens\<rparr>
        \<and> ss_authorized s' = disk_record env d' \<and> scope_matches s' scope
        \<and> t = access_token tokens \<and> ss_access_token s' = Some t
        \<and> \<not> ss_refreshing s' \<and> ss_last_refresh_result s' = Some (Inr t)
   | (Inl e, s', d') \<Rightarrow> disk_record env d' = disk_record env d
        \<and> (if \<not> scope_matches s scope then s' = s
           else \<not> ss_refreshing s'
             \<and> (if e = AuthenticationRequired then given_up scope s s' else same_lease e scope s s'))"
proof -
  obtain r s' d' where run:
    "persist_refreshed_tokens_if_current (file_store env) scope captured tokens (s, d) = (r, s', d')"
    by (metis prod_cases3)
  have "store_replace_if_current (file_store env) x n d0 = (Inl e, d1) \<Longrightarrow> e \<noteq> AuthenticationRequired" for x n d0 e d1
    by (simp add: file_store_def file_replace_error)
  note failed = failed_refresh_in_memory [of "file_store env", OF _ this]
  show ?thesis
  proof (cases r)
    case (Inl e)
    with disk.persist_tokens_record [OF run] failed [OF run [unfolded Inl]] run show ?thesis by simp
  next
    case (Inr t)
    with disk.persist_tokens_record [OF run] run show ?thesis by simp
  qed
qed

text \<open>
  The same refresh twice: on a quiet disk it succeeds; when the rename fails, the old lease stays.
\<close>

definition refreshed_scope :: session_scope where
  "refreshed_scope = \<lparr>scope_owner_user_id = ''u'', scope_auth_epoch = 1\<rparr>"

definition refreshed_record :: persisted_refresh_session where
  "refreshed_record = \<lparr>rs_owner_user_id = ''u'', rs_refresh_token = ''r''\<rparr>"

definition witness_refresh :: "session_disk \<Rightarrow> (api_error + string) \<times> session_state \<times> session_disk" where
  "witness_refresh d = persist_refreshed_tokens_if_current (file_store witness_environment) refreshed_scope refreshed_record
     ((witness_tokens ''s'')\<lparr>refresh_token := ''q''\<rparr>) (sy_state witness_login, d)"

lemmas witness_refresh_ops =
  witness_refresh_def persist_refreshed_tokens_if_current_def next_epochs_def checked_add_def scope_matches_def
  file_store_def file_replace_if_current_def validate_and_serialize_def canonical_owner_user_id_def
  locked_open_def system_call_def load_parsed_def locked_load_def parse_option_def store_parse_def
  temporary_name_def locked_replace_def cleanup_created_temporary_def record_refresh_failure_def
  refreshed_scope_def refreshed_record_def witness_environment_def witness_disk_def witness_tokens_def
  witness_login_def session_default_def white_space1_def REFRESH_SESSION_FILE_def Let_def

theorem refresh_is_durable_first_witness:
  "disk_record witness_environment (snd (snd (witness_refresh witness_disk))) = Some (refreshed_record\<lparr>rs_refresh_token := ''q''\<rparr>)
   \<and> ss_access_token (fst (snd (witness_refresh witness_disk))) = Some ''s''
   \<and> (let failing = witness_disk\<lparr>disk_faults := [False, False, False, False, False, False, True]\<rparr> in
      disk_record witness_environment (snd (snd (witness_refresh failing))) = disk_record witness_environment failing
      \<and> ss_access_token (fst (snd (witness_refresh failing))) = Some ''t'')"
proof -
  let ?failing = "witness_disk\<lparr>disk_faults := [False, False, False, False, False, False, True]\<rparr>"
  have ok: "fst (witness_refresh witness_disk) = Inr ''s''" by (simp add: witness_refresh_ops)
  have failed: "fst (witness_refresh ?failing) = Inl disk_error" by (simp add: witness_refresh_ops)
  have kept: "ss_access_token (fst (snd (witness_refresh ?failing))) = Some ''t''" by (simp add: witness_refresh_ops)
  note refresh = refresh_is_durable_first [where env = witness_environment and scope = refreshed_scope and captured = refreshed_record
      and tokens = "(witness_tokens ''s'')\<lparr>refresh_token := ''q''\<rparr>" and s = "sy_state witness_login", folded witness_refresh_def]
  have "disk_record witness_environment (snd (snd (witness_refresh witness_disk))) = Some (refreshed_record\<lparr>rs_refresh_token := ''q''\<rparr>)"
    "ss_access_token (fst (snd (witness_refresh witness_disk))) = Some ''s''"
    using refresh [where d = witness_disk] ok
    by (auto simp: witness_tokens_def refreshed_record_def refreshed_scope_def split: prod.splits)
  moreover have "disk_record witness_environment (snd (snd (witness_refresh ?failing))) = disk_record witness_environment ?failing"
    using refresh [where d = ?failing] failed by (auto split: prod.splits)
  ultimately show ?thesis using kept by (simp add: Let_def)
qed

end
