(* ===== verification/Client_State_Writer.thy ===== *)
theory Client_State_Writer
  imports Namespace_Model
begin

text \<open>
  The writer of the local database (\<open>native-client/src/runtime/storage/client_state.rs\<close>): callers
  queue snapshots under a lease, one worker thread commits them. The contents of a snapshot are
  the type parameter. A database transaction may fail: each consults a tape of outcomes in the
  database (\<open>True\<close>: the transaction fails and changes nothing). \<open>db_log\<close> records every attempt
  for the specification. The admission guards that some commands carry are released after their
  acknowledgement and are not part of the model.
\<close>

section \<open>Commands and pending state\<close>

datatype client_state_write_error = StaleLease | RetirementInProgress | AuthorityExhausted | LocalStateFailure

type_synonym write_result = "client_state_write_error + unit"

datatype 'v client_state_write =
    Wake namespace_lease
  | WakeDevice
  | FlushDevice
  | Flush namespace_lease
  | FlushForRetirement namespace_lease u64
  | LocalStoreChecked namespace_lease 'v
  | RetainedRedemptionRead namespace_lease string
  | UserProfileChecked namespace_lease 'v
  | DeviceSettingsChecked 'v
  | ExportDirectoryChecked "'v option"
  | SelectedGroupChecked string string string

record 'v queued_write =
  qw_sequence :: u64
  qw_command :: "'v client_state_write"

record 'v pending_client_state =
  pc_active :: "namespace_lease option"
  pc_sequence :: u64
  pc_retirement :: "u64 option"
  pc_authority_exhausted :: bool
  pc_local_store :: "(u64 \<times> namespace_lease \<times> 'v) option"
  pc_user_profile :: "(u64 \<times> namespace_lease \<times> 'v) option"
  pc_device_settings :: "(u64 \<times> 'v) option"
  pc_export_directory :: "(u64 \<times> 'v option) option"
  pc_private_wake :: bool
  pc_device_wake :: bool
  pc_poisoned :: bool

definition pending_default :: "'v pending_client_state" where
  "pending_default = \<lparr>pc_active = None, pc_sequence = 0, pc_retirement = None, pc_authority_exhausted = False,
    pc_local_store = None, pc_user_profile = None, pc_device_settings = None, pc_export_directory = None,
    pc_private_wake = False, pc_device_wake = False, pc_poisoned = False\<rparr>"

definition pending_require :: "namespace_lease \<Rightarrow> 'v pending_client_state \<Rightarrow> write_result" where
  "pending_require lease p = (if pc_active p = Some lease then Inr () else Inl StaleLease)"

definition require_unreserved :: "'v pending_client_state \<Rightarrow> write_result" where
  "require_unreserved p =
    (if pc_authority_exhausted p then Inl AuthorityExhausted
     else if pc_retirement p \<noteq> None then Inl RetirementInProgress
     else Inr ())"

definition require_enqueue :: "namespace_lease \<Rightarrow> 'v pending_client_state \<Rightarrow> write_result" where
  "require_enqueue lease p = bind_result (pending_require lease p) (\<lambda>_. require_unreserved p)"

definition next_sequence ::
  "'v pending_client_state \<Rightarrow> (client_state_write_error + u64) \<times> 'v pending_client_state" where
  "next_sequence p =
    (if pc_authority_exhausted p then (Inl AuthorityExhausted, p)
     else (case checked_add (pc_sequence p) 1 of
             Some n \<Rightarrow> (Inr n, p\<lparr>pc_sequence := n\<rparr>)
           | None \<Rightarrow> (Inl AuthorityExhausted, p\<lparr>pc_authority_exhausted := True\<rparr>)))"

definition clear_private :: "'v pending_client_state \<Rightarrow> 'v pending_client_state" where
  "clear_private p = p\<lparr>pc_local_store := None, pc_user_profile := None, pc_private_wake := False\<rparr>"

section \<open>The callers' side\<close>

text \<open>The channel is a list; sending fails once the worker is gone.\<close>

record 'v writer =
  wr_pending :: "'v pending_client_state"
  wr_queue :: "'v queued_write list"
  wr_worker_alive :: bool

definition send :: "u64 \<Rightarrow> 'v client_state_write \<Rightarrow> 'v writer \<Rightarrow> write_result \<times> 'v writer" where
  "send n command w =
    (if wr_worker_alive w
     then (Inr (), w\<lparr>wr_queue := wr_queue w @ [\<lparr>qw_sequence = n, qw_command = command\<rparr>]\<rparr>)
     else (Inl LocalStateFailure, w))"

definition writer_activate :: "namespace_lease \<Rightarrow> 'v writer \<Rightarrow> write_result \<times> 'v writer" where
  "writer_activate lease w =
    (let p = wr_pending w in
     if pc_poisoned p then (Inl LocalStateFailure, w)
     else case require_unreserved p of
       Inl e \<Rightarrow> (Inl e, w)
     | Inr _ \<Rightarrow> (Inr (), w\<lparr>wr_pending := (clear_private p)\<lparr>pc_active := Some lease\<rparr>\<rparr>))"

definition writer_deactivate :: "namespace_lease \<Rightarrow> 'v writer \<Rightarrow> write_result \<times> 'v writer" where
  "writer_deactivate lease w =
    (let p = wr_pending w in
     if pc_poisoned p then (Inl LocalStateFailure, w)
     else case require_enqueue lease p of
       Inl e \<Rightarrow> (Inl e, w)
     | Inr _ \<Rightarrow> (Inr (), w\<lparr>wr_pending := (clear_private p)\<lparr>pc_active := None\<rparr>\<rparr>))"

text \<open>
  \<open>checked\<close> and its variants up to the wait for the acknowledgement: the sequence on success.
\<close>

definition enqueue_checked ::
  "namespace_lease option \<Rightarrow> (u64 \<Rightarrow> 'v client_state_write) \<Rightarrow> 'v writer
    \<Rightarrow> (client_state_write_error + u64) \<times> 'v writer" where
  "enqueue_checked lease command_of w =
    (let p = wr_pending w in
     if pc_poisoned p then (Inl LocalStateFailure, w)
     else case (case lease of Some l \<Rightarrow> require_enqueue l p | None \<Rightarrow> Inr ()) of
       Inl e \<Rightarrow> (Inl e, w)
     | Inr _ \<Rightarrow>
         (case next_sequence p of
            (Inl e, p') \<Rightarrow> (Inl e, w\<lparr>wr_pending := p'\<rparr>)
          | (Inr n, p') \<Rightarrow>
              (case send n (command_of n) (w\<lparr>wr_pending := p'\<rparr>) of
                 (Inl e, w') \<Rightarrow> (Inl e, w')
               | (Inr _, w') \<Rightarrow> (Inr n, w'))))"

definition queue_private ::
  "namespace_lease \<Rightarrow> 'v option \<Rightarrow> 'v option \<Rightarrow> 'v writer \<Rightarrow> write_result \<times> 'v writer" where
  "queue_private lease store profile w =
    (let p = wr_pending w in
     if pc_poisoned p then (Inl LocalStateFailure, w)
     else case require_enqueue lease p of
       Inl e \<Rightarrow> (Inl e, w)
     | Inr _ \<Rightarrow>
         (case next_sequence p of
            (Inl e, p') \<Rightarrow> (Inl e, w\<lparr>wr_pending := p'\<rparr>)
          | (Inr n, p') \<Rightarrow>
              (let p1 = (case store of Some data \<Rightarrow> p'\<lparr>pc_local_store := Some (n, lease, data)\<rparr> | None \<Rightarrow> p');
                   p2 = (case profile of Some data \<Rightarrow> p1\<lparr>pc_user_profile := Some (n, lease, data)\<rparr> | None \<Rightarrow> p1)
               in if pc_private_wake p2 then (Inr (), w\<lparr>wr_pending := p2\<rparr>)
                  else (case send n (Wake lease) (w\<lparr>wr_pending := p2\<rparr>) of
                          (Inl e, w') \<Rightarrow> (Inl e, w')
                        | (Inr _, w') \<Rightarrow> (Inr (), w'\<lparr>wr_pending := p2\<lparr>pc_private_wake := True\<rparr>\<rparr>)))))"

text \<open>
  \<open>validate_export\<close> and \<open>normalized\<close> are the checks and the clamping of the settings themselves.
\<close>

definition queue_device ::
  "('v \<Rightarrow> 'v) \<Rightarrow> ('v option \<Rightarrow> bool) \<Rightarrow> 'v option \<Rightarrow> 'v option option \<Rightarrow> 'v writer \<Rightarrow> write_result \<times> 'v writer" where
  "queue_device normalized validate_export settings export w =
    (let p = wr_pending w in
     if (case export of Some v \<Rightarrow> \<not> validate_export v | None \<Rightarrow> False) then (Inl LocalStateFailure, w)
     else if pc_poisoned p then (Inl LocalStateFailure, w)
     else
       (case next_sequence p of
          (Inl e, p') \<Rightarrow> (Inl e, w\<lparr>wr_pending := p'\<rparr>)
        | (Inr n, p') \<Rightarrow>
            (let p1 = (case settings of Some data \<Rightarrow> p'\<lparr>pc_device_settings := Some (n, normalized data)\<rparr> | None \<Rightarrow> p');
                 p2 = (case export of Some data \<Rightarrow> p1\<lparr>pc_export_directory := Some (n, data)\<rparr> | None \<Rightarrow> p1)
             in if pc_device_wake p2 then (Inr (), w\<lparr>wr_pending := p2\<rparr>)
                else (case send n WakeDevice (w\<lparr>wr_pending := p2\<rparr>) of
                        (Inl e, w') \<Rightarrow> (Inl e, w')
                      | (Inr _, w') \<Rightarrow> (Inr (), w'\<lparr>wr_pending := p2\<lparr>pc_device_wake := True\<rparr>\<rparr>)))))"

definition flush_request :: "namespace_lease \<Rightarrow> 'v writer \<Rightarrow> (client_state_write_error + u64) \<times> 'v writer" where
  "flush_request lease w = enqueue_checked (Some lease) (\<lambda>_. Flush lease) w"

definition flush_device_request :: "'v writer \<Rightarrow> (client_state_write_error + u64) \<times> 'v writer" where
  "flush_device_request w = enqueue_checked None (\<lambda>_. FlushDevice) w"

definition persist_client_state_checked ::
  "namespace_lease \<Rightarrow> 'v \<Rightarrow> 'v writer \<Rightarrow> (client_state_write_error + u64) \<times> 'v writer" where
  "persist_client_state_checked lease data w = enqueue_checked (Some lease) (\<lambda>_. LocalStoreChecked lease data) w"

definition persist_client_user_profile_checked ::
  "namespace_lease \<Rightarrow> 'v \<Rightarrow> 'v writer \<Rightarrow> (client_state_write_error + u64) \<times> 'v writer" where
  "persist_client_user_profile_checked lease data w =
    enqueue_checked (Some lease) (\<lambda>_. UserProfileChecked lease data) w"

definition read_retained_redemption_request ::
  "namespace_lease \<Rightarrow> string \<Rightarrow> 'v writer \<Rightarrow> (client_state_write_error + u64) \<times> 'v writer" where
  "read_retained_redemption_request lease request_id w =
    enqueue_checked (Some lease) (\<lambda>_. RetainedRedemptionRead lease request_id) w"

definition persist_device_settings_checked ::
  "('v \<Rightarrow> 'v) \<Rightarrow> 'v \<Rightarrow> 'v writer \<Rightarrow> (client_state_write_error + u64) \<times> 'v writer" where
  "persist_device_settings_checked normalized data w =
    enqueue_checked None (\<lambda>_. DeviceSettingsChecked (normalized data)) w"

definition persist_export_directory_checked ::
  "('v option \<Rightarrow> bool) \<Rightarrow> 'v option \<Rightarrow> 'v writer \<Rightarrow> (client_state_write_error + u64) \<times> 'v writer" where
  "persist_export_directory_checked validate_export data w =
    (if \<not> validate_export data then (Inl LocalStateFailure, w)
     else enqueue_checked None (\<lambda>_. ExportDirectoryChecked data) w)"

section \<open>Retirement\<close>

record retirement_reservation =
  rr_lease :: namespace_lease
  rr_generation :: u64

definition reservation_matches :: "retirement_reservation \<Rightarrow> 'v pending_client_state \<Rightarrow> bool" where
  "reservation_matches r p = (pc_retirement p = Some (rr_generation r) \<and> pc_active p = Some (rr_lease r))"

text \<open>
  \<open>flush_for_retirement\<close>: reserve and queue the flush. The reservation is armed before anything can
  fail, so a failed send hands it to its drop.
\<close>

definition flush_for_retirement_request ::
  "namespace_lease \<Rightarrow> 'v writer \<Rightarrow> (client_state_write_error + write_result \<times> retirement_reservation) \<times> 'v writer" where
  "flush_for_retirement_request lease w =
    (let p = wr_pending w in
     if pc_poisoned p then (Inl LocalStateFailure, w)
     else case require_enqueue lease p of
       Inl e \<Rightarrow> (Inl e, w)
     | Inr _ \<Rightarrow>
         (case next_sequence p of
            (Inl e, p') \<Rightarrow> (Inl e, w\<lparr>wr_pending := p'\<rparr>)
          | (Inr n, p') \<Rightarrow>
              (case send n (FlushForRetirement lease n) (w\<lparr>wr_pending := p'\<lparr>pc_retirement := Some n\<rparr>\<rparr>) of
                 (sent, w') \<Rightarrow> (Inr (sent, \<lparr>rr_lease = lease, rr_generation = n\<rparr>), w'))))"

definition flush_for_retirement_confirm ::
  "retirement_reservation \<Rightarrow> write_result \<Rightarrow> 'v writer \<Rightarrow> client_state_write_error + retirement_reservation" where
  "flush_for_retirement_confirm r acknowledged w =
    (case acknowledged of
       Inl e \<Rightarrow> Inl e
     | Inr _ \<Rightarrow>
         if pc_poisoned (wr_pending w) then Inl LocalStateFailure
         else if \<not> reservation_matches r (wr_pending w) then Inl StaleLease
         else Inr r)"

definition exhausted_if_poisoned :: "'v pending_client_state \<Rightarrow> 'v pending_client_state" where
  "exhausted_if_poisoned p = (if pc_poisoned p then p\<lparr>pc_authority_exhausted := True\<rparr> else p)"

definition reservation_drop :: "retirement_reservation \<Rightarrow> 'v writer \<Rightarrow> 'v writer" where
  "reservation_drop r w =
    (let p = exhausted_if_poisoned (wr_pending w) in
     w\<lparr>wr_pending := (if reservation_matches r p then p\<lparr>pc_retirement := None\<rparr> else p)\<rparr>)"

definition writer_retire_flushed :: "retirement_reservation \<Rightarrow> 'v writer \<Rightarrow> 'v writer" where
  "writer_retire_flushed r w =
    (let p = exhausted_if_poisoned (wr_pending w) in
     w\<lparr>wr_pending :=
       (if reservation_matches r p then (clear_private p)\<lparr>pc_active := None, pc_retirement := None\<rparr>
        else p\<lparr>pc_authority_exhausted := True\<rparr>)\<rparr>)"

section \<open>The database\<close>

datatype write_slot = StoreSlot | ProfileSlot | DeviceSlot | ExportSlot

datatype attempt = Committed write_slot "namespace_lease option" u64 | NotCommitted write_slot "namespace_lease option" u64

record 'v client_db =
  db_store :: "string \<rightharpoonup> 'v"
  db_profile :: "string \<rightharpoonup> 'v"
  db_device :: "'v option"
  db_export :: "'v option"
  db_groups :: "string \<times> string \<rightharpoonup> string"
  db_redemptions :: "string \<rightharpoonup> (string \<rightharpoonup> string \<times> 'v)"
  db_faults :: "bool list"
  db_log :: "attempt list"

definition transaction :: "('v client_db \<Rightarrow> 'v client_db) \<Rightarrow> 'v client_db \<Rightarrow> write_result \<times> 'v client_db" where
  "transaction change db =
    (case db_faults db of
       [] \<Rightarrow> (Inr (), change db)
     | fault # rest \<Rightarrow>
         if fault then (Inl LocalStateFailure, db\<lparr>db_faults := rest\<rparr>)
         else (Inr (), change (db\<lparr>db_faults := rest\<rparr>)))"

definition write_local_store :: "string \<Rightarrow> 'v \<Rightarrow> 'v client_db \<Rightarrow> 'v client_db" where
  "write_local_store user data db = db\<lparr>db_store := (db_store db)(user \<mapsto> data)\<rparr>"

definition write_user_profile :: "string \<Rightarrow> 'v \<Rightarrow> 'v client_db \<Rightarrow> 'v client_db" where
  "write_user_profile user data db = db\<lparr>db_profile := (db_profile db)(user \<mapsto> data)\<rparr>"

definition log_attempt :: "attempt \<Rightarrow> 'v client_db \<Rightarrow> 'v client_db" where
  "log_attempt a db = db\<lparr>db_log := a # db_log db\<rparr>"

section \<open>The worker\<close>

record retirement_write_debt =
  debt_slot :: write_slot
  debt_lease :: "namespace_lease option"
  debt_sequence :: u64
  debt_error :: client_state_write_error

record committed_sequences =
  cs_store :: u64
  cs_profile :: u64
  cs_device :: u64
  cs_export :: u64
  cs_store_error :: "(namespace_lease \<times> client_state_write_error) option"
  cs_profile_error :: "(namespace_lease \<times> client_state_write_error) option"
  cs_device_error :: "client_state_write_error option"
  cs_export_error :: "client_state_write_error option"
  cs_debts :: "retirement_write_debt list"

definition committed_default :: committed_sequences where
  "committed_default = \<lparr>cs_store = 0, cs_profile = 0, cs_device = 0, cs_export = 0, cs_store_error = None,
    cs_profile_error = None, cs_device_error = None, cs_export_error = None, cs_debts = []\<rparr>"

definition record_retirement_result ::
  "write_slot \<Rightarrow> namespace_lease option \<Rightarrow> u64 \<Rightarrow> write_result \<Rightarrow> committed_sequences \<Rightarrow> committed_sequences" where
  "record_retirement_result slot lease n result seqs =
    (let add = (\<lambda>debts. case result of
            Inl e \<Rightarrow> debts @ [\<lparr>debt_slot = slot, debt_lease = lease, debt_sequence = n, debt_error = e\<rparr>]
          | Inr _ \<Rightarrow> debts)
     in case position (\<lambda>debt. debt_slot debt = slot \<and> debt_lease debt = lease) (cs_debts seqs) of
          Some i \<Rightarrow>
            if n < debt_sequence (cs_debts seqs ! i) then seqs
            else seqs\<lparr>cs_debts := add (remove_at i (cs_debts seqs))\<rparr>
        | None \<Rightarrow> seqs\<lparr>cs_debts := add (cs_debts seqs)\<rparr>)"

definition retirement_result :: "namespace_lease \<Rightarrow> committed_sequences \<Rightarrow> write_result" where
  "retirement_result lease seqs =
    (case List.find (\<lambda>debt. debt_lease debt = None \<or> debt_lease debt = Some lease) (cs_debts seqs) of
       Some debt \<Rightarrow> Inl (debt_error debt)
     | None \<Rightarrow> Inr ())"

definition take_device_error :: "committed_sequences \<Rightarrow> write_result \<times> committed_sequences" where
  "take_device_error seqs =
    (let e = (case cs_device_error seqs of Some x \<Rightarrow> Some x | None \<Rightarrow> cs_export_error seqs) in
     (case e of Some x \<Rightarrow> Inl x | None \<Rightarrow> Inr (),
      seqs\<lparr>cs_device_error := None, cs_export_error := None\<rparr>))"

definition take_private_error :: "namespace_lease \<Rightarrow> committed_sequences \<Rightarrow> write_result \<times> committed_sequences" where
  "take_private_error lease seqs =
    (let errors = (case cs_store_error seqs of Some x \<Rightarrow> [x] | None \<Rightarrow> [])
          @ (case cs_profile_error seqs of Some x \<Rightarrow> [x] | None \<Rightarrow> []) in
     (case List.find (\<lambda>e. fst e = lease) errors of Some e \<Rightarrow> Inl (snd e) | None \<Rightarrow> Inr (),
      seqs\<lparr>cs_store_error := None, cs_profile_error := None\<rparr>))"

text \<open>
  Between the critical sections of the worker the callers go on: \<open>interfere k w\<close> is the shared state
  at the worker's \<open>k\<close>-th lock of a command, when it was \<open>w\<close> after the lock before.
\<close>

type_synonym 'v interference = "nat \<Rightarrow> 'v writer \<Rightarrow> 'v writer"

type_synonym 'v worker_state = "'v writer \<times> committed_sequences \<times> 'v client_db"

definition commit_private ::
  "'v pending_client_state \<Rightarrow> namespace_lease \<Rightarrow> u64 \<Rightarrow> u64 \<Rightarrow> (string \<Rightarrow> 'v client_db \<Rightarrow> 'v client_db)
    \<Rightarrow> 'v client_db \<Rightarrow> write_result \<times> u64 \<times> 'v client_db" where
  "commit_private p lease n last_sequence write db =
    (if pc_poisoned p then (Inl LocalStateFailure, last_sequence, db)
     else case pending_require lease p of
       Inl e \<Rightarrow> (Inl e, last_sequence, db)
     | Inr _ \<Rightarrow>
         if n \<le> last_sequence then (Inr (), last_sequence, db)
         else (case transaction (write (lease_user lease)) db of
                 (Inl e, db') \<Rightarrow> (Inl e, last_sequence, db')
               | (Inr _, db') \<Rightarrow> (Inr (), n, db')))"

definition attempt_of :: "write_slot \<Rightarrow> namespace_lease option \<Rightarrow> u64 \<Rightarrow> write_result \<Rightarrow> attempt" where
  "attempt_of slot lease n r = (if is_ok r then Committed slot lease n else NotCommitted slot lease n)"

definition commit_store ::
  "'v pending_client_state \<Rightarrow> namespace_lease \<Rightarrow> u64 \<Rightarrow> 'v \<Rightarrow> committed_sequences \<times> 'v client_db
    \<Rightarrow> write_result \<times> committed_sequences \<times> 'v client_db" where
  "commit_store p lease n data ld =
    (case ld of (seqs, db) \<Rightarrow>
      case commit_private p lease n (cs_store seqs) (\<lambda>user. write_local_store user data) db of
        (r, m, db') \<Rightarrow>
          (let seqs' = seqs\<lparr>cs_store := m\<rparr> in
           if is_err r \<or> cs_store seqs < m
           then (r, record_retirement_result StoreSlot (Some lease) n r seqs',
                 log_attempt (attempt_of StoreSlot (Some lease) n r) db')
           else (r, seqs', db')))"

definition commit_profile ::
  "'v pending_client_state \<Rightarrow> namespace_lease \<Rightarrow> u64 \<Rightarrow> 'v \<Rightarrow> committed_sequences \<times> 'v client_db
    \<Rightarrow> write_result \<times> committed_sequences \<times> 'v client_db" where
  "commit_profile p lease n data ld =
    (case ld of (seqs, db) \<Rightarrow>
      case commit_private p lease n (cs_profile seqs) (\<lambda>user. write_user_profile user data) db of
        (r, m, db') \<Rightarrow>
          (let seqs' = seqs\<lparr>cs_profile := m\<rparr> in
           if is_err r \<or> cs_profile seqs < m
           then (r, record_retirement_result ProfileSlot (Some lease) n r seqs',
                 log_attempt (attempt_of ProfileSlot (Some lease) n r) db')
           else (r, seqs', db')))"

definition drain_store ::
  "'v interference \<Rightarrow> nat \<Rightarrow> (u64 \<times> namespace_lease \<times> 'v) option \<Rightarrow> 'v worker_state \<Rightarrow> write_result \<times> 'v worker_state" where
  "drain_store interfere k taken x =
    (case taken of
       None \<Rightarrow> (Inr (), x)
     | Some (n, owner, data) \<Rightarrow>
         (case x of (w, ld) \<Rightarrow>
           let w' = interfere k w in
           case commit_store (wr_pending w') owner n data ld of
             (r, seqs, db) \<Rightarrow> (r, w', seqs\<lparr>cs_store_error := map_option (\<lambda>e. (owner, e)) (err_of r)\<rparr>, db)))"

definition drain_profile ::
  "'v interference \<Rightarrow> nat \<Rightarrow> (u64 \<times> namespace_lease \<times> 'v) option \<Rightarrow> 'v worker_state \<Rightarrow> write_result \<times> 'v worker_state" where
  "drain_profile interfere k taken x =
    (case taken of
       None \<Rightarrow> (Inr (), x)
     | Some (n, owner, data) \<Rightarrow>
         (case x of (w, ld) \<Rightarrow>
           let w' = interfere k w in
           case commit_profile (wr_pending w') owner n data ld of
             (r, seqs, db) \<Rightarrow> (r, w', seqs\<lparr>cs_profile_error := map_option (\<lambda>e. (owner, e)) (err_of r)\<rparr>, db)))"

definition drain_private ::
  "'v interference \<Rightarrow> nat \<Rightarrow> namespace_lease \<Rightarrow> 'v worker_state \<Rightarrow> write_result \<times> 'v worker_state" where
  "drain_private interfere k lease x =
    (case x of (w0, ld) \<Rightarrow>
      let w = interfere k w0; p = wr_pending w in
      if pc_poisoned p then (Inl LocalStateFailure, w, ld)
      else case pending_require lease p of
        Inl e \<Rightarrow> (Inl e, w, ld)
      | Inr _ \<Rightarrow>
          (let w' = w\<lparr>wr_pending := p\<lparr>pc_private_wake := False, pc_local_store := None, pc_user_profile := None\<rparr>\<rparr> in
           case drain_store interfere (k + 1) (pc_local_store p) (w', ld) of
             (r, y) \<Rightarrow>
               (case drain_profile interfere (k + 2) (pc_user_profile p) y of
                  (next_r, z) \<Rightarrow> (result_and r next_r, z))))"

definition drain_settings ::
  "(u64 \<times> 'v) option \<Rightarrow> committed_sequences \<times> 'v client_db \<Rightarrow> write_result \<times> committed_sequences \<times> 'v client_db" where
  "drain_settings taken ld =
    (case ld of (seqs, db) \<Rightarrow>
      case taken of
        None \<Rightarrow> (Inr (), seqs, db)
      | Some (n, data) \<Rightarrow>
          if cs_device seqs < n
          then (case transaction (\<lambda>db. db\<lparr>db_device := Some data\<rparr>) db of
                  (r, db') \<Rightarrow>
                    (let seqs' = (record_retirement_result DeviceSlot None n r seqs)\<lparr>cs_device_error := err_of r\<rparr> in
                     (r, if is_ok r then seqs'\<lparr>cs_device := n\<rparr> else seqs',
                      log_attempt (attempt_of DeviceSlot None n r) db')))
          else (Inr (), seqs, db))"

definition drain_export ::
  "(u64 \<times> 'v option) option \<Rightarrow> committed_sequences \<times> 'v client_db \<Rightarrow> write_result \<times> committed_sequences \<times> 'v client_db" where
  "drain_export taken ld =
    (case ld of (seqs, db) \<Rightarrow>
      case taken of
        None \<Rightarrow> (Inr (), seqs, db)
      | Some (n, data) \<Rightarrow>
          if cs_export seqs < n
          then (case transaction (\<lambda>db. db\<lparr>db_export := data\<rparr>) db of
                  (r, db') \<Rightarrow>
                    (let seqs' = (record_retirement_result ExportSlot None n r seqs)\<lparr>cs_export_error := err_of r\<rparr> in
                     (r, if is_ok r then seqs'\<lparr>cs_export := n\<rparr> else seqs',
                      log_attempt (attempt_of ExportSlot None n r) db')))
          else (Inr (), seqs, db))"

definition drain_device ::
  "'v interference \<Rightarrow> nat \<Rightarrow> 'v worker_state \<Rightarrow> write_result \<times> 'v worker_state" where
  "drain_device interfere k x =
    (case x of (w0, ld) \<Rightarrow>
      let w = interfere k w0; p = wr_pending w in
      if pc_poisoned p then (Inl LocalStateFailure, w, ld)
      else
        (let w' = w\<lparr>wr_pending := p\<lparr>pc_device_wake := False, pc_device_settings := None, pc_export_directory := None\<rparr>\<rparr> in
         case drain_settings (pc_device_settings p) ld of
           (r, ld') \<Rightarrow>
             (case drain_export (pc_export_directory p) ld' of
                (next_r, ld'') \<Rightarrow> (result_and r next_r, w', ld''))))"

datatype 'v acknowledgement =
    NoAcknowledgement
  | Acknowledged write_result
  | ReadResult "client_state_write_error + 'v option"

definition find_redemption :: "string \<Rightarrow> string \<Rightarrow> 'v client_db \<Rightarrow> 'v option" where
  "find_redemption user request_id db =
    (case db_redemptions db user of
       None \<Rightarrow> None
     | Some rows \<Rightarrow>
         (case rows user of
            Some (row_request, row) \<Rightarrow> if row_request = request_id then Some row else None
          | None \<Rightarrow> None))"

definition process_retained_read ::
  "'v interference \<Rightarrow> namespace_lease \<Rightarrow> string \<Rightarrow> 'v worker_state \<Rightarrow> 'v acknowledgement \<times> 'v worker_state" where
  "process_retained_read interfere lease request_id x =
    (case x of (w0, seqs, db) \<Rightarrow>
      let w = interfere 0 w0; p = wr_pending w in
      if pc_poisoned p then (ReadResult (Inl LocalStateFailure), w, seqs, db)
      else case pending_require lease p of
        Inl e \<Rightarrow> (ReadResult (Inl e), w, seqs, db)
      | Inr _ \<Rightarrow>
          (case transaction (\<lambda>db. db) db of
             (Inl e, db') \<Rightarrow> (ReadResult (Inl e), w, seqs, db')
           | (Inr _, db') \<Rightarrow> (ReadResult (Inr (find_redemption (lease_user lease) request_id db')), w, seqs, db')))"

definition process_flush ::
  "'v interference \<Rightarrow> namespace_lease \<Rightarrow> 'v worker_state \<Rightarrow> 'v acknowledgement \<times> 'v worker_state" where
  "process_flush interfere lease x =
    (case drain_device interfere 0 x of (device, y) \<Rightarrow>
      case drain_private interfere 1 lease y of (private, w, seqs, db) \<Rightarrow>
        case take_device_error seqs of (prior_device, seqs') \<Rightarrow>
          case take_private_error lease seqs' of (prior_private, seqs'') \<Rightarrow>
            (Acknowledged (result_and (result_and (result_and device private) prior_device) prior_private),
             w, seqs'', db))"

definition process_flush_for_retirement ::
  "'v interference \<Rightarrow> namespace_lease \<Rightarrow> u64 \<Rightarrow> 'v worker_state \<Rightarrow> 'v acknowledgement \<times> 'v worker_state" where
  "process_flush_for_retirement interfere lease generation x =
    (case x of (w0, ld) \<Rightarrow>
      let w = interfere 0 w0; p = wr_pending w in
      if pc_poisoned p then (Acknowledged (Inl LocalStateFailure), w, ld)
      else case pending_require lease p of
        Inl e \<Rightarrow> (Acknowledged (Inl e), w, ld)
      | Inr _ \<Rightarrow>
          if pc_retirement p \<noteq> Some generation then (Acknowledged (Inl StaleLease), w, ld)
          else
            (case drain_device interfere 1 (w, ld) of (device, y) \<Rightarrow>
              case drain_private interfere 2 lease y of (private, w', seqs, db) \<Rightarrow>
                (Acknowledged (result_and (result_and device private) (retirement_result lease seqs)), w', seqs, db)))"

definition process_settings_checked ::
  "u64 \<Rightarrow> 'v \<Rightarrow> committed_sequences \<times> 'v client_db \<Rightarrow> write_result \<times> committed_sequences \<times> 'v client_db" where
  "process_settings_checked n data ld =
    (case ld of (seqs, db) \<Rightarrow>
      if cs_device seqs < n
      then (case transaction (\<lambda>db. db\<lparr>db_device := Some data\<rparr>) db of
              (r, db') \<Rightarrow>
                (let seqs' = record_retirement_result DeviceSlot None n r seqs in
                 (r, if is_ok r then seqs'\<lparr>cs_device := max (cs_device seqs') n\<rparr> else seqs',
                  log_attempt (attempt_of DeviceSlot None n r) db')))
      else (Inr (), seqs\<lparr>cs_device := max (cs_device seqs) n\<rparr>, db))"

definition process_export_checked ::
  "u64 \<Rightarrow> 'v option \<Rightarrow> committed_sequences \<times> 'v client_db \<Rightarrow> write_result \<times> committed_sequences \<times> 'v client_db" where
  "process_export_checked n data ld =
    (case ld of (seqs, db) \<Rightarrow>
      if cs_export seqs < n
      then (case transaction (\<lambda>db. db\<lparr>db_export := data\<rparr>) db of
              (r, db') \<Rightarrow>
                (let seqs' = record_retirement_result ExportSlot None n r seqs in
                 (r, if is_ok r then seqs'\<lparr>cs_export := max (cs_export seqs') n\<rparr> else seqs',
                  log_attempt (attempt_of ExportSlot None n r) db')))
      else (Inr (), seqs\<lparr>cs_export := max (cs_export seqs) n\<rparr>, db))"

fun process_client_state_write ::
  "'v interference \<Rightarrow> u64 \<Rightarrow> 'v client_state_write \<Rightarrow> 'v worker_state \<Rightarrow> 'v acknowledgement \<times> 'v worker_state" where
  "process_client_state_write interfere n (RetainedRedemptionRead lease request_id) x =
    process_retained_read interfere lease request_id x"
| "process_client_state_write interfere n (Wake lease) x =
    (case drain_private interfere 0 lease x of (_, y) \<Rightarrow> (NoAcknowledgement, y))"
| "process_client_state_write interfere n WakeDevice x =
    (case drain_device interfere 0 x of (_, y) \<Rightarrow> (NoAcknowledgement, y))"
| "process_client_state_write interfere n FlushDevice x =
    (case drain_device interfere 0 x of (r, w, seqs, db) \<Rightarrow>
      case take_device_error seqs of (prior, seqs') \<Rightarrow> (Acknowledged (result_and r prior), w, seqs', db))"
| "process_client_state_write interfere n (Flush lease) x = process_flush interfere lease x"
| "process_client_state_write interfere n (FlushForRetirement lease generation) x =
    process_flush_for_retirement interfere lease generation x"
| "process_client_state_write interfere n (LocalStoreChecked lease data) x =
    (case x of (w0, ld) \<Rightarrow>
      let w = interfere 0 w0 in
      case commit_store (wr_pending w) lease n data ld of (r, ld') \<Rightarrow> (Acknowledged r, w, ld'))"
| "process_client_state_write interfere n (UserProfileChecked lease data) x =
    (case x of (w0, ld) \<Rightarrow>
      let w = interfere 0 w0 in
      case commit_profile (wr_pending w) lease n data ld of (r, ld') \<Rightarrow> (Acknowledged r, w, ld'))"
| "process_client_state_write interfere n (DeviceSettingsChecked data) x =
    (case x of (w, ld) \<Rightarrow>
      case process_settings_checked n data ld of (r, ld') \<Rightarrow> (Acknowledged r, w, ld'))"
| "process_client_state_write interfere n (ExportDirectoryChecked data) x =
    (case x of (w, ld) \<Rightarrow>
      case process_export_checked n data ld of (r, ld') \<Rightarrow> (Acknowledged r, w, ld'))"
| "process_client_state_write interfere n (SelectedGroupChecked user device gid) x =
    (case x of (w, seqs, db) \<Rightarrow>
      case transaction (\<lambda>db. db\<lparr>db_groups := (db_groups db)((user, device) \<mapsto> gid)\<rparr>) db of
        (r, db') \<Rightarrow> (Acknowledged r, w, seqs, db'))"

section \<open>The sequence is an authority counter\<close>

lemma next_sequence_ok:
  assumes "next_sequence p = (Inr n, q)"
  shows "q = p\<lparr>pc_sequence := n\<rparr>" "unat n = Suc (unat (pc_sequence p))" "\<not> pc_authority_exhausted p"
  using assms checked_add_one_SomeD [of "pc_sequence p" n]
  by (auto simp: next_sequence_def split: if_splits option.splits)

lemma next_sequence_err:
  assumes "next_sequence p = (Inl e, q)"
  shows "q = p \<or> q = p\<lparr>pc_authority_exhausted := True\<rparr>"
  using assms by (auto simp: next_sequence_def split: if_splits option.splits)

interpretation writer_sequences: counter_authority pc_sequence pc_authority_exhausted next_sequence
proof unfold_locales
  fix s :: "'v pending_client_state" and i s'
  assume "next_sequence s = (Inr i, s')"
  from next_sequence_ok [OF this]
  show "pc_sequence s' = i \<and> unat i = Suc (unat (pc_sequence s)) \<and> \<not> pc_authority_exhausted s" by simp
next
  fix s :: "'v pending_client_state" and e s'
  assume "next_sequence s = (Inl e, s')"
  from next_sequence_err [OF this] show "pc_sequence s' = pc_sequence s" by auto
next
  fix s :: "'v pending_client_state"
  show "pc_authority_exhausted s \<Longrightarrow> \<exists>e. next_sequence s = (Inl e, s)" by (simp add: next_sequence_def)
next
  fix s :: "'v pending_client_state"
  assume "pc_sequence s = - 1"
  then have "checked_add (pc_sequence s) 1 = None" by (simp add: checked_add_one_None_iff)
  then show "\<exists>e s'. next_sequence s = (Inl e, s') \<and> pc_authority_exhausted s'" by (auto simp: next_sequence_def)
qed

section \<open>What the worker keeps\<close>

fun commits_of :: "write_slot \<Rightarrow> attempt list \<Rightarrow> u64 list" where
  "commits_of slot [] = []"
| "commits_of slot (Committed s l n # log) = (if s = slot then n # commits_of slot log else commits_of slot log)"
| "commits_of slot (NotCommitted s l n # log) = commits_of slot log"

fun slot_sequence :: "write_slot \<Rightarrow> committed_sequences \<Rightarrow> u64" where
  "slot_sequence StoreSlot seqs = cs_store seqs"
| "slot_sequence ProfileSlot seqs = cs_profile seqs"
| "slot_sequence DeviceSlot seqs = cs_device seqs"
| "slot_sequence ExportSlot seqs = cs_export seqs"

definition covered :: "attempt list \<Rightarrow> retirement_write_debt list \<Rightarrow> bool" where
  "covered log debts =
    (\<forall>slot lease n. NotCommitted slot lease n \<in> set log \<longrightarrow>
      (\<exists>m\<ge>n. Committed slot lease m \<in> set log)
      \<or> (\<exists>debt \<in> set debts. debt_slot debt = slot \<and> debt_lease debt = lease \<and> n \<le> debt_sequence debt))"

definition worker_ok :: "committed_sequences \<times> 'v client_db \<Rightarrow> bool" where
  "worker_ok ld =
    (covered (db_log (snd ld)) (cs_debts (fst ld))
     \<and> (\<forall>slot. sorted_wrt (>) (commits_of slot (db_log (snd ld)))
          \<and> (\<forall>n \<in> set (commits_of slot (db_log (snd ld))). n \<le> slot_sequence slot (fst ld))))"

lemma in_remove_at:
  "x \<in> set xs \<Longrightarrow> i < length xs \<Longrightarrow> x \<in> set (remove_at i xs) \<or> x = xs ! i"
proof (induction xs arbitrary: i)
  case (Cons y ys)
  then show ?case by (cases i) auto
qed simp

lemma covered_record:
  assumes "covered log (cs_debts seqs)"
  shows "covered (attempt_of slot lease n r # log) (cs_debts (record_retirement_result slot lease n r seqs))"
proof -
  let ?P = "\<lambda>debt. debt_slot debt = slot \<and> debt_lease debt = lease"
  let ?ds = "cs_debts seqs"
  let ?new = "cs_debts (record_retirement_result slot lease n r seqs)"
  let ?log = "attempt_of slot lease n r # log"
  have keeps: "d \<in> set ?new \<or> ?P d \<and> (debt_sequence d \<le> n \<and> (is_ok r \<or> (\<exists>e \<in> set ?new. ?P e \<and> debt_sequence e = n)))"
    if d: "d \<in> set ?ds" for d
  proof (cases "position ?P ?ds")
    case None
    with d show ?thesis by (auto simp: record_retirement_result_def Let_def split: sum.splits)
  next
    case (Some i)
    note i = position_SomeD [OF Some]
    show ?thesis
    proof (cases "n < debt_sequence (?ds ! i)")
      case True
      with Some d show ?thesis by (simp add: record_retirement_result_def Let_def)
    next
      case False
      with Some i d in_remove_at [OF d, of i] show ?thesis
        by (cases r) (auto simp: record_retirement_result_def Let_def)
    qed
  qed
  have fresh: "\<exists>debt \<in> set ?new. ?P debt \<and> n \<le> debt_sequence debt" if "is_err r"
  proof (cases "position ?P ?ds")
    case None
    with that show ?thesis by (cases r) (auto simp: record_retirement_result_def Let_def)
  next
    case (Some i)
    note i = position_SomeD [OF Some]
    from Some i that show ?thesis
      by (cases r; cases "n < debt_sequence (?ds ! i)") (auto simp: record_retirement_result_def Let_def)
  qed
  show ?thesis
    unfolding covered_def
  proof (intro allI impI)
    fix slot' lease' k
    assume "NotCommitted slot' lease' k \<in> set ?log"
    then consider "slot' = slot" "lease' = lease" "k = n" "is_err r" | "NotCommitted slot' lease' k \<in> set log"
      by (auto simp: attempt_of_def is_err_def split: if_splits)
    then show "(\<exists>m\<ge>k. Committed slot' lease' m \<in> set ?log)
      \<or> (\<exists>debt \<in> set ?new. debt_slot debt = slot' \<and> debt_lease debt = lease' \<and> k \<le> debt_sequence debt)"
    proof cases
      case 1
      with fresh show ?thesis by blast
    next
      case 2
      with assms consider m where "k \<le> m" "Committed slot' lease' m \<in> set log"
        | d where "d \<in> set ?ds" "debt_slot d = slot'" "debt_lease d = lease'" "k \<le> debt_sequence d"
        unfolding covered_def by blast
      then show ?thesis
      proof cases
        case 1
        then show ?thesis by auto
      next
        case 2
        from keeps [OF 2(1)] consider "d \<in> set ?new"
          | "?P d" "debt_sequence d \<le> n" "is_ok r"
          | e where "?P d" "debt_sequence d \<le> n" "e \<in> set ?new" "?P e" "debt_sequence e = n"
          by blast
        then show ?thesis
        proof cases
          case 1
          with 2 show ?thesis by blast
        next
          case b: 2
          then have "Committed slot' lease' n \<in> set ?log" using 2 by (simp add: attempt_of_def)
          with b 2(4) show ?thesis by (meson order.trans)
        next
          case c: 3
          with 2 show ?thesis by (metis order.trans)
        qed
      qed
    qed
  qed
qed

lemma record_keeps_sequences [simp]:
  "slot_sequence s (record_retirement_result slot lease n r seqs) = slot_sequence s seqs"
  "cs_store (record_retirement_result slot lease n r seqs) = cs_store seqs"
  "cs_profile (record_retirement_result slot lease n r seqs) = cs_profile seqs"
  "cs_device (record_retirement_result slot lease n r seqs) = cs_device seqs"
  "cs_export (record_retirement_result slot lease n r seqs) = cs_export seqs"
  by (cases s; auto simp: record_retirement_result_def Let_def split: option.splits)+

lemma worker_ok_attempt:
  assumes "worker_ok (seqs, db)" and "is_ok r \<Longrightarrow> slot_sequence slot seqs < n"
    and "cs_debts seqs' = cs_debts (record_retirement_result slot lease n r seqs)"
    and "\<And>s. slot_sequence s seqs' = (if s = slot \<and> is_ok r then n else slot_sequence s seqs)"
    and "db_log db' = attempt_of slot lease n r # db_log db"
  shows "worker_ok (seqs', db')"
proof -
  have "covered (db_log db') (cs_debts seqs')"
    using assms(1,3,5) covered_record [of "db_log db" seqs] by (simp add: worker_ok_def)
  moreover have "sorted_wrt (>) (commits_of s (db_log db')) \<and> (\<forall>k \<in> set (commits_of s (db_log db')). k \<le> slot_sequence s seqs')" for s
  proof -
    have old: "sorted_wrt (>) (commits_of s (db_log db))" "\<forall>k \<in> set (commits_of s (db_log db)). k \<le> slot_sequence s seqs"
      using assms(1) by (simp_all add: worker_ok_def)
    show ?thesis
    proof (cases "is_ok r \<and> s = slot")
      case True
      with old assms(2) show ?thesis
        by (auto simp: assms(4,5) attempt_of_def intro: le_less_trans less_imp_le)
    next
      case False
      with old show ?thesis by (auto simp: assms(4,5) attempt_of_def)
    qed
  qed
  ultimately show ?thesis by (simp add: worker_ok_def)
qed

lemma worker_ok_same:
  assumes "worker_ok (seqs, db)" and "cs_debts seqs' = cs_debts seqs"
    and "\<And>s. slot_sequence s seqs \<le> slot_sequence s seqs'" and "db_log db' = db_log db"
  shows "worker_ok (seqs', db')"
  using assms unfolding worker_ok_def by (auto intro: order.trans)

lemma transaction_log:
  assumes "transaction change db = (r, db')" and "\<And>d. db_log (change d) = db_log d"
  shows "db_log db' = db_log db"
  using assms by (auto simp: transaction_def split: list.splits if_splits)

lemma transaction_is_ok: "transaction change db = (r, db') \<Longrightarrow> is_err r \<or> r = Inr ()"
  by (cases r) auto

lemma commit_private_cases:
  assumes "commit_private p lease n k write db = (r, m, db')" and "\<And>u d. db_log (write u d) = db_log d"
  shows "db_log db' = db_log db
    \<and> (is_err r \<and> m = k \<or> is_ok r \<and> n \<le> k \<and> m = k \<and> db' = db \<or> is_ok r \<and> k < n \<and> m = n)"
proof (cases "pc_poisoned p \<or> pc_active p \<noteq> Some lease")
  case True
  with assms(1) show ?thesis by (auto simp: commit_private_def pending_require_def split: if_splits)
next
  case False
  obtain q d where t: "transaction (write (lease_user lease)) db = (q, d)"
    by (cases "transaction (write (lease_user lease)) db")
  from assms(1) False t transaction_log [OF t] assms(2) show ?thesis
    by (cases q) (auto simp: commit_private_def pending_require_def not_le split: if_splits)
qed

lemma record_debts_cong:
  "cs_debts s = cs_debts t \<Longrightarrow>
    cs_debts (record_retirement_result slot lease n r s) = cs_debts (record_retirement_result slot lease n r t)"
  by (cases r) (auto simp: record_retirement_result_def Let_def split: option.splits)

lemma write_logs [simp]:
  "db_log (write_local_store u x d) = db_log d" "db_log (write_user_profile u x d) = db_log d"
  "db_log (log_attempt a d) = a # db_log d"
  by (simp_all add: write_local_store_def write_user_profile_def log_attempt_def)

lemma commit_store_ok:
  assumes "worker_ok ld" and "commit_store p lease n data ld = (r, ld')"
  shows "worker_ok ld'"
proof -
  obtain seqs db where ld: "ld = (seqs, db)" by (cases ld)
  obtain q m d where c: "commit_private p lease n (cs_store seqs) (\<lambda>user. write_local_store user data) db = (q, m, d)"
    by (cases "commit_private p lease n (cs_store seqs) (\<lambda>user. write_local_store user data) db") auto
  note cases = commit_private_cases [OF c write_logs(1)]
  have m: "cs_store seqs \<le> m" using cases by auto
  let ?s = "seqs\<lparr>cs_store := m\<rparr>"
  show ?thesis
  proof (cases "is_err q \<or> cs_store seqs < m")
    case True
    then have ld': "ld' = (record_retirement_result StoreSlot (Some lease) n q ?s, log_attempt (attempt_of StoreSlot (Some lease) n q) d)"
      using assms(2) ld c by (auto simp: commit_store_def Let_def)
    from True cases have step: "is_ok q \<Longrightarrow> cs_store seqs < n \<and> m = n" "\<not> is_ok q \<Longrightarrow> m = cs_store seqs"
      by (auto simp: is_err_def)
    have "slot_sequence s ?s = (if s = StoreSlot \<and> is_ok q then n else slot_sequence s seqs)" for s
      using step by (cases s) auto
    with step cases show ?thesis
      unfolding ld'
      by (intro worker_ok_attempt [OF assms(1) [unfolded ld], of q StoreSlot n _ "Some lease"] record_debts_cong) auto
  next
    case False
    then have "ld' = (?s, d)" using assms(2) ld c by (auto simp: commit_store_def Let_def)
    moreover have "slot_sequence s seqs \<le> slot_sequence s ?s" for s using m by (cases s) auto
    ultimately show ?thesis
      using cases by (auto intro: worker_ok_same [OF assms(1) [unfolded ld]])
  qed
qed

lemma commit_profile_ok:
  assumes "worker_ok ld" and "commit_profile p lease n data ld = (r, ld')"
  shows "worker_ok ld'"
proof -
  obtain seqs db where ld: "ld = (seqs, db)" by (cases ld)
  obtain q m d where c: "commit_private p lease n (cs_profile seqs) (\<lambda>user. write_user_profile user data) db = (q, m, d)"
    by (cases "commit_private p lease n (cs_profile seqs) (\<lambda>user. write_user_profile user data) db") auto
  note cases = commit_private_cases [OF c write_logs(2)]
  have m: "cs_profile seqs \<le> m" using cases by auto
  let ?s = "seqs\<lparr>cs_profile := m\<rparr>"
  show ?thesis
  proof (cases "is_err q \<or> cs_profile seqs < m")
    case True
    then have ld': "ld' = (record_retirement_result ProfileSlot (Some lease) n q ?s, log_attempt (attempt_of ProfileSlot (Some lease) n q) d)"
      using assms(2) ld c by (auto simp: commit_profile_def Let_def)
    from True cases have step: "is_ok q \<Longrightarrow> cs_profile seqs < n \<and> m = n" "\<not> is_ok q \<Longrightarrow> m = cs_profile seqs"
      by (auto simp: is_err_def)
    have "slot_sequence s ?s = (if s = ProfileSlot \<and> is_ok q then n else slot_sequence s seqs)" for s
      using step by (cases s) auto
    with step cases show ?thesis
      unfolding ld'
      by (intro worker_ok_attempt [OF assms(1) [unfolded ld], of q ProfileSlot n _ "Some lease"] record_debts_cong) auto
  next
    case False
    then have "ld' = (?s, d)" using assms(2) ld c by (auto simp: commit_profile_def Let_def)
    moreover have "slot_sequence s seqs \<le> slot_sequence s ?s" for s using m by (cases s) auto
    ultimately show ?thesis
      using cases by (auto intro: worker_ok_same [OF assms(1) [unfolded ld]])
  qed
qed

lemma worker_ok_irrelevant:
  assumes "worker_ok (seqs, db)"
  shows "worker_ok (seqs\<lparr>cs_store_error := a\<rparr>, db)" "worker_ok (seqs\<lparr>cs_profile_error := a\<rparr>, db)"
    "worker_ok (seqs\<lparr>cs_device_error := c, cs_export_error := c'\<rparr>, db)"
    "worker_ok (seqs\<lparr>cs_store_error := a, cs_profile_error := b\<rparr>, db)"
proof -
  have "slot_sequence s (seqs\<lparr>cs_store_error := a\<rparr>) = slot_sequence s seqs"
    "slot_sequence s (seqs\<lparr>cs_profile_error := a\<rparr>) = slot_sequence s seqs"
    "slot_sequence s (seqs\<lparr>cs_device_error := c, cs_export_error := c'\<rparr>) = slot_sequence s seqs"
    "slot_sequence s (seqs\<lparr>cs_store_error := a, cs_profile_error := b\<rparr>) = slot_sequence s seqs" for s
    by (cases s; simp)+
  then show "worker_ok (seqs\<lparr>cs_store_error := a\<rparr>, db)" "worker_ok (seqs\<lparr>cs_profile_error := a\<rparr>, db)"
    "worker_ok (seqs\<lparr>cs_device_error := c, cs_export_error := c'\<rparr>, db)"
    "worker_ok (seqs\<lparr>cs_store_error := a, cs_profile_error := b\<rparr>, db)"
    by (auto intro!: worker_ok_same [OF assms])
qed

lemma drain_store_ok:
  "worker_ok (snd x) \<Longrightarrow> drain_store interfere k taken x = (r, y) \<Longrightarrow> worker_ok (snd y)"
  by (auto simp: drain_store_def Let_def worker_ok_irrelevant(1) split: option.splits prod.splits
      dest: commit_store_ok)

lemma drain_profile_ok:
  "worker_ok (snd x) \<Longrightarrow> drain_profile interfere k taken x = (r, y) \<Longrightarrow> worker_ok (snd y)"
  by (auto simp: drain_profile_def Let_def worker_ok_irrelevant(2) split: option.splits prod.splits
      dest: commit_profile_ok)

lemma drain_private_ok:
  assumes "worker_ok (snd x)" and "drain_private interfere k lease x = (r, y)"
  shows "worker_ok (snd y)"
proof -
  obtain w0 ld where x: "x = (w0, ld)" by (cases x)
  let ?w = "interfere k w0" and ?p = "wr_pending (interfere k w0)"
  let ?w' = "?w\<lparr>wr_pending := ?p\<lparr>pc_private_wake := False, pc_local_store := None, pc_user_profile := None\<rparr>\<rparr>"
  obtain r1 y1 where 1: "drain_store interfere (k + 1) (pc_local_store ?p) (?w', ld) = (r1, y1)"
    by (cases "drain_store interfere (k + 1) (pc_local_store ?p) (?w', ld)")
  obtain r2 y2 where 2: "drain_profile interfere (k + 2) (pc_user_profile ?p) y1 = (r2, y2)"
    by (cases "drain_profile interfere (k + 2) (pc_user_profile ?p) y1")
  have "worker_ok (snd y2)"
    using drain_profile_ok [OF drain_store_ok [OF _ 1] 2] assms(1) x by simp
  with assms x 1 2 show ?thesis
    by (auto simp: drain_private_def Let_def split: if_splits sum.splits)
qed

lemma device_attempt_ok:
  assumes "worker_ok (seqs, db)" and "transaction change db = (r, db')" and "\<And>d. db_log (change d) = db_log d"
    and "slot_sequence slot seqs < n"
    and "cs_debts seqs' = cs_debts (record_retirement_result slot None n r seqs)"
    and "\<And>s. slot_sequence s seqs' = (if s = slot \<and> is_ok r then n else slot_sequence s seqs)"
  shows "worker_ok (seqs', log_attempt (attempt_of slot None n r) db')"
  using transaction_log [OF assms(2,3)] assms(4-6)
  by (intro worker_ok_attempt [OF assms(1), of r slot n seqs' None]) auto

lemma drain_settings_ok:
  assumes "worker_ok ld" and "drain_settings taken ld = (r, ld')"
  shows "worker_ok ld'"
proof (cases taken)
  case None
  with assms show ?thesis by (cases ld) (simp add: drain_settings_def)
next
  case (Some nd)
  obtain seqs db where ld: "ld = (seqs, db)" by (cases ld)
  obtain n data where nd: "nd = (n, data)" by (cases nd)
  obtain q d where t: "transaction (\<lambda>db. db\<lparr>db_device := Some data\<rparr>) db = (q, d)"
    by (cases "transaction (\<lambda>db. db\<lparr>db_device := Some data\<rparr>) db")
  let ?l = "(record_retirement_result DeviceSlot None n q seqs)\<lparr>cs_device_error := err_of q\<rparr>"
  let ?s = "if is_ok q then ?l\<lparr>cs_device := n\<rparr> else ?l"
  have "slot_sequence s ?s = (if s = DeviceSlot \<and> is_ok q then n else slot_sequence s seqs)" for s
    by (cases s) auto
  then have "worker_ok (?s, log_attempt (attempt_of DeviceSlot None n q) d)" if "cs_device seqs < n"
    using that by (intro device_attempt_ok [OF assms(1) [unfolded ld] t]) auto
  with assms Some ld nd t show ?thesis by (auto simp: drain_settings_def Let_def split: if_splits)
qed

lemma drain_export_ok:
  assumes "worker_ok ld" and "drain_export taken ld = (r, ld')"
  shows "worker_ok ld'"
proof (cases taken)
  case None
  with assms show ?thesis by (cases ld) (simp add: drain_export_def)
next
  case (Some nd)
  obtain seqs db where ld: "ld = (seqs, db)" by (cases ld)
  obtain n data where nd: "nd = (n, data)" by (cases nd)
  obtain q d where t: "transaction (\<lambda>db. db\<lparr>db_export := data\<rparr>) db = (q, d)"
    by (cases "transaction (\<lambda>db. db\<lparr>db_export := data\<rparr>) db")
  let ?l = "(record_retirement_result ExportSlot None n q seqs)\<lparr>cs_export_error := err_of q\<rparr>"
  let ?s = "if is_ok q then ?l\<lparr>cs_export := n\<rparr> else ?l"
  have "slot_sequence s ?s = (if s = ExportSlot \<and> is_ok q then n else slot_sequence s seqs)" for s
    by (cases s) auto
  then have "worker_ok (?s, log_attempt (attempt_of ExportSlot None n q) d)" if "cs_export seqs < n"
    using that by (intro device_attempt_ok [OF assms(1) [unfolded ld] t]) auto
  with assms Some ld nd t show ?thesis by (auto simp: drain_export_def Let_def split: if_splits)
qed

lemma settings_checked_ok:
  assumes "worker_ok ld" and "process_settings_checked n data ld = (r, ld')"
  shows "worker_ok ld'"
proof -
  obtain seqs db where ld: "ld = (seqs, db)" by (cases ld)
  obtain q d where t: "transaction (\<lambda>db. db\<lparr>db_device := Some data\<rparr>) db = (q, d)"
    by (cases "transaction (\<lambda>db. db\<lparr>db_device := Some data\<rparr>) db")
  let ?l = "record_retirement_result DeviceSlot None n q seqs"
  let ?s = "if is_ok q then ?l\<lparr>cs_device := max (cs_device ?l) n\<rparr> else ?l"
  have new: "worker_ok (?s, log_attempt (attempt_of DeviceSlot None n q) d)" if n: "cs_device seqs < n"
  proof -
    have "slot_sequence s ?s = (if s = DeviceSlot \<and> is_ok q then n else slot_sequence s seqs)" for s
      using n by (cases s) (auto simp: max_def)
    with n show ?thesis by (intro device_attempt_ok [OF assms(1) [unfolded ld] t]) auto
  qed
  have "slot_sequence s seqs \<le> slot_sequence s (seqs\<lparr>cs_device := max (cs_device seqs) n\<rparr>)" for s
    by (cases s) auto
  then have "worker_ok (seqs\<lparr>cs_device := max (cs_device seqs) n\<rparr>, db)"
    by (intro worker_ok_same [OF assms(1) [unfolded ld]]) auto
  with new assms ld t show ?thesis
    by (auto simp: process_settings_checked_def Let_def split: if_splits)
qed

lemma export_checked_ok:
  assumes "worker_ok ld" and "process_export_checked n data ld = (r, ld')"
  shows "worker_ok ld'"
proof -
  obtain seqs db where ld: "ld = (seqs, db)" by (cases ld)
  obtain q d where t: "transaction (\<lambda>db. db\<lparr>db_export := data\<rparr>) db = (q, d)"
    by (cases "transaction (\<lambda>db. db\<lparr>db_export := data\<rparr>) db")
  let ?l = "record_retirement_result ExportSlot None n q seqs"
  let ?s = "if is_ok q then ?l\<lparr>cs_export := max (cs_export ?l) n\<rparr> else ?l"
  have new: "worker_ok (?s, log_attempt (attempt_of ExportSlot None n q) d)" if n: "cs_export seqs < n"
  proof -
    have "slot_sequence s ?s = (if s = ExportSlot \<and> is_ok q then n else slot_sequence s seqs)" for s
      using n by (cases s) (auto simp: max_def)
    with n show ?thesis by (intro device_attempt_ok [OF assms(1) [unfolded ld] t]) auto
  qed
  have "slot_sequence s seqs \<le> slot_sequence s (seqs\<lparr>cs_export := max (cs_export seqs) n\<rparr>)" for s
    by (cases s) auto
  then have "worker_ok (seqs\<lparr>cs_export := max (cs_export seqs) n\<rparr>, db)"
    by (intro worker_ok_same [OF assms(1) [unfolded ld]]) auto
  with new assms ld t show ?thesis
    by (auto simp: process_export_checked_def Let_def split: if_splits)
qed

lemma drain_device_ok:
  assumes "worker_ok (snd x)" and "drain_device interfere k x = (r, y)"
  shows "worker_ok (snd y)"
proof -
  obtain w0 ld where x: "x = (w0, ld)" by (cases x)
  let ?p = "wr_pending (interfere k w0)"
  obtain r1 l1 where 1: "drain_settings (pc_device_settings ?p) ld = (r1, l1)"
    by (cases "drain_settings (pc_device_settings ?p) ld")
  obtain r2 l2 where 2: "drain_export (pc_export_directory ?p) l1 = (r2, l2)"
    by (cases "drain_export (pc_export_directory ?p) l1")
  have "worker_ok l2" using drain_export_ok [OF drain_settings_ok [OF _ 1] 2] assms(1) x by simp
  with assms x 1 2 show ?thesis by (auto simp: drain_device_def Let_def split: if_splits)
qed

lemma process_ok:
  assumes "worker_ok (snd x)" and "process_client_state_write interfere n command x = (a, y)"
  shows "worker_ok (snd y)"
proof (cases command)
  case (Wake lease)
  with assms show ?thesis
    by (cases "drain_private interfere 0 lease x") (auto dest: drain_private_ok)
next
  case WakeDevice
  with assms show ?thesis by (cases "drain_device interfere 0 x") (auto dest: drain_device_ok)
next
  case FlushDevice
  obtain r w seqs db where 1: "drain_device interfere 0 x = (r, w, seqs, db)"
    by (cases "drain_device interfere 0 x") auto
  from drain_device_ok [OF assms(1) 1] have "worker_ok (seqs, db)" by simp
  from worker_ok_irrelevant(3) [OF this] assms(2) FlushDevice 1 show ?thesis
    by (auto simp: take_device_error_def Let_def)
next
  case (Flush lease)
  obtain r1 y1 where 1: "drain_device interfere 0 x = (r1, y1)" by (cases "drain_device interfere 0 x")
  obtain r2 w seqs db where 2: "drain_private interfere 1 lease y1 = (r2, w, seqs, db)"
    by (cases "drain_private interfere 1 lease y1") auto
  from drain_private_ok [OF drain_device_ok [OF assms(1) 1] 2] have "worker_ok (seqs, db)" by simp
  from worker_ok_irrelevant(4) [OF worker_ok_irrelevant(3) [OF this]] assms(2) Flush 1 2 show ?thesis
    by (auto simp: process_flush_def take_device_error_def take_private_error_def Let_def)
next
  case (FlushForRetirement lease g)
  obtain w0 ld where x: "x = (w0, ld)" by (cases x)
  let ?w = "interfere 0 w0"
  obtain r1 y1 where 1: "drain_device interfere 1 (?w, ld) = (r1, y1)" by (cases "drain_device interfere 1 (?w, ld)")
  obtain r2 w seqs db where 2: "drain_private interfere 2 lease y1 = (r2, w, seqs, db)"
    by (cases "drain_private interfere 2 lease y1") auto
  have "worker_ok (seqs, db)" using drain_private_ok [OF drain_device_ok [OF _ 1] 2] assms(1) x by simp
  with assms x FlushForRetirement 1 2 show ?thesis
    by (auto simp: process_flush_for_retirement_def Let_def split: if_splits sum.splits)
next
  case (LocalStoreChecked lease data)
  with assms show ?thesis by (cases x) (auto simp: Let_def split: prod.splits dest: commit_store_ok)
next
  case (UserProfileChecked lease data)
  with assms show ?thesis by (cases x) (auto simp: Let_def split: prod.splits dest: commit_profile_ok)
next
  case (DeviceSettingsChecked data)
  with assms show ?thesis by (cases x) (auto split: prod.splits dest: settings_checked_ok)
next
  case (ExportDirectoryChecked data)
  with assms show ?thesis by (cases x) (auto split: prod.splits dest: export_checked_ok)
next
  case (RetainedRedemptionRead lease i)
  obtain w0 seqs db where x: "x = (w0, seqs, db)" by (cases x) auto
  obtain r d where t: "transaction (\<lambda>db. db) db = (r, d)" by (cases "transaction (\<lambda>db. db) db")
  have "db_log d = db_log db" by (rule transaction_log [OF t]) simp
  with assms(1) x have "worker_ok (seqs, d)" by (auto intro: worker_ok_same)
  with assms x t RetainedRedemptionRead show ?thesis
    by (auto simp: process_retained_read_def Let_def split: if_splits sum.splits)
next
  case (SelectedGroupChecked u d g)
  obtain w0 seqs db where x: "x = (w0, seqs, db)" by (cases x) auto
  obtain r db' where t: "transaction (\<lambda>db. db\<lparr>db_groups := (db_groups db)((u, d) \<mapsto> g)\<rparr>) db = (r, db')"
    by (cases "transaction (\<lambda>db. db\<lparr>db_groups := (db_groups db)((u, d) \<mapsto> g)\<rparr>) db")
  have "db_log db' = db_log db" by (rule transaction_log [OF t]) simp
  with assms(1) x have "worker_ok (seqs, db')" by (auto intro: worker_ok_same)
  with assms x t SelectedGroupChecked show ?thesis by auto
qed

section \<open>All threads\<close>

inductive caller_step :: "'v writer \<Rightarrow> 'v writer \<Rightarrow> bool" where
  activates: "writer_activate lease w = (r, w') \<Longrightarrow> caller_step w w'"
| deactivates: "writer_deactivate lease w = (r, w') \<Longrightarrow> caller_step w w'"
| requests: "command_of \<in> {(\<lambda>_. Flush l), (\<lambda>_. LocalStoreChecked l data), (\<lambda>_. UserProfileChecked l data),
      (\<lambda>_. RetainedRedemptionRead l i)} \<Longrightarrow>
    enqueue_checked (Some l) command_of w = (q, w') \<Longrightarrow> caller_step w w'"
| device_requests: "command_of \<in> {(\<lambda>_. FlushDevice), (\<lambda>_. DeviceSettingsChecked data),
      (\<lambda>_. ExportDirectoryChecked export), (\<lambda>_. SelectedGroupChecked u d g)} \<Longrightarrow>
    enqueue_checked None command_of w = (q, w') \<Longrightarrow> caller_step w w'"
| queues_private: "queue_private lease store profile w = (r, w') \<Longrightarrow> caller_step w w'"
| queues_device: "queue_device normalized validate settings exported w = (r, w') \<Longrightarrow> caller_step w w'"
| reserves: "flush_for_retirement_request lease w = (x, w') \<Longrightarrow> caller_step w w'"
| worker_dies: "caller_step w (w\<lparr>wr_worker_alive := False\<rparr>)"
| poisons: "caller_step w (w\<lparr>wr_pending := (wr_pending w)\<lparr>pc_poisoned := True\<rparr>\<rparr>)"

text \<open>The holder of a reservation gives it back or retires; nobody else holds one meanwhile.\<close>

inductive holder_step :: "'v writer \<Rightarrow> 'v writer \<Rightarrow> bool" where
  drops: "holder_step w (reservation_drop reservation w)"
| retires: "holder_step w (writer_retire_flushed reservation w)"

inductive writer_step :: "'v worker_state \<Rightarrow> 'v worker_state \<Rightarrow> bool" where
  calls: "caller_step w w' \<Longrightarrow> writer_step (w, ld) (w', ld)"
| holds: "holder_step w w' \<Longrightarrow> writer_step (w, ld) (w', ld)"
| works: "wr_queue w = q # rest \<Longrightarrow>
    process_client_state_write interfere (qw_sequence q) (qw_command q) (w\<lparr>wr_queue := rest\<rparr>, ld) = (a, y) \<Longrightarrow>
    writer_step (w, ld) y"

definition empty_db :: "bool list \<Rightarrow> 'v client_db" where
  "empty_db faults = \<lparr>db_store = Map.empty, db_profile = Map.empty, db_device = None, db_export = None,
    db_groups = Map.empty, db_redemptions = Map.empty, db_faults = faults, db_log = []\<rparr>"

definition writer_start :: "bool list \<Rightarrow> 'v worker_state" where
  "writer_start faults =
    (\<lparr>wr_pending = pending_default, wr_queue = [], wr_worker_alive = True\<rparr>, committed_default, empty_db faults)"

lemma worker_ok_run:
  assumes "writer_step\<^sup>*\<^sup>* (writer_start faults) x"
  shows "worker_ok (snd x)"
proof (rule run_invariant [where I = "\<lambda>x. worker_ok (snd x)", OF assms])
  show "worker_ok (snd (writer_start faults))"
    by (simp add: writer_start_def worker_ok_def empty_db_def committed_default_def covered_def)
  show "worker_ok (snd t)" if "writer_step s t" "worker_ok (snd s)" for s t :: "'a worker_state"
    using that by cases (auto dest: process_ok [rotated])
qed

text \<open>What a reservation blocks.\<close>

definition reserved_part :: "u64 \<Rightarrow> 'v writer \<Rightarrow> 'v writer \<Rightarrow> bool" where
  "reserved_part g w w' =
    (pc_retirement (wr_pending w) = Some g \<longrightarrow>
      pc_retirement (wr_pending w') = Some g \<and> pc_active (wr_pending w') = pc_active (wr_pending w)
      \<and> pc_local_store (wr_pending w') = pc_local_store (wr_pending w)
      \<and> pc_user_profile (wr_pending w') = pc_user_profile (wr_pending w))"

lemma send_pending [simp]: "send n command w = (r, w') \<Longrightarrow> wr_pending w' = wr_pending w"
  by (auto simp: send_def split: if_splits)

lemma reserved_requires:
  "pc_retirement p = Some g \<Longrightarrow> \<exists>e. require_unreserved p = Inl e"
  "pc_retirement p = Some g \<Longrightarrow> \<exists>e. require_enqueue lease p = Inl e"
  by (auto simp: require_unreserved_def require_enqueue_def pending_require_def)

lemma next_sequence_reserved:
  assumes "next_sequence p = (r, q)"
  shows "pc_retirement q = pc_retirement p" "pc_active q = pc_active p" "pc_local_store q = pc_local_store p"
    "pc_user_profile q = pc_user_profile p"
  using assms by (auto simp: next_sequence_def split: if_splits option.splits)

lemma caller_step_reserved:
  assumes "caller_step w w'"
  shows "reserved_part g w w'"
proof (cases "pc_retirement (wr_pending w) = Some g")
  case False
  then show ?thesis by (simp add: reserved_part_def)
next
  case True
  note blocked = reserved_requires [OF True]
  from assms show ?thesis
  proof cases
    case (activates lease r)
    with blocked(1) show ?thesis by (auto simp: writer_activate_def reserved_part_def Let_def split: if_splits)
  next
    case (deactivates lease r)
    with blocked(2) [of lease] show ?thesis
      by (auto simp: writer_deactivate_def reserved_part_def Let_def split: if_splits)
  next
    case (requests command_of l data i q)
    with blocked(2) [of l] show ?thesis
      by (auto simp: enqueue_checked_def reserved_part_def Let_def split: if_splits)
  next
    case (device_requests command_of data export u d g' q)
    obtain n p where n: "next_sequence (wr_pending w) = (n, p)" by (cases "next_sequence (wr_pending w)")
    from device_requests(2) n next_sequence_reserved [OF n] show ?thesis
      by (auto simp: enqueue_checked_def reserved_part_def Let_def split: if_splits sum.splits prod.splits)
  next
    case (queues_private lease store profile r)
    with blocked(2) [of lease] show ?thesis
      by (auto simp: queue_private_def reserved_part_def Let_def split: if_splits)
  next
    case (queues_device normalized validate settings exported r)
    obtain n p where n: "next_sequence (wr_pending w) = (n, p)" by (cases "next_sequence (wr_pending w)")
    from queues_device(1) n next_sequence_reserved [OF n] show ?thesis
      by (auto simp: queue_device_def reserved_part_def Let_def split: if_splits sum.splits prod.splits option.splits)
  next
    case (reserves lease x)
    with blocked(2) [of lease] show ?thesis
      by (auto simp: flush_for_retirement_request_def reserved_part_def Let_def split: if_splits)
  qed (simp_all add: reserved_part_def)
qed

section \<open>Properties\<close>

lemma result_and_ok: "result_and r s = Inr u \<Longrightarrow> is_ok r \<and> s = Inr u"
  by simp

lemma commit_store_reached:
  assumes "commit_store p lease n data (seqs, db) = (r, seqs', db')" and "is_ok r"
  shows "n \<le> cs_store seqs' \<and> cs_profile seqs' = cs_profile seqs"
proof -
  obtain q m d where c: "commit_private p lease n (cs_store seqs) (\<lambda>user. write_local_store user data) db = (q, m, d)"
    by (cases "commit_private p lease n (cs_store seqs) (\<lambda>user. write_local_store user data) db") auto
  have "r = q" "cs_store seqs' = m" "cs_profile seqs' = cs_profile seqs"
    using assms(1) c by (auto simp: commit_store_def Let_def split: if_splits)
  with commit_private_cases [OF c write_logs(1)] assms(2) show ?thesis by (auto simp: is_err_def)
qed

lemma commit_profile_reached:
  assumes "commit_profile p lease n data (seqs, db) = (r, seqs', db')" and "is_ok r"
  shows "n \<le> cs_profile seqs' \<and> cs_store seqs' = cs_store seqs"
proof -
  obtain q m d where c: "commit_private p lease n (cs_profile seqs) (\<lambda>user. write_user_profile user data) db = (q, m, d)"
    by (cases "commit_private p lease n (cs_profile seqs) (\<lambda>user. write_user_profile user data) db") auto
  have "r = q" "cs_profile seqs' = m" "cs_store seqs' = cs_store seqs"
    using assms(1) c by (auto simp: commit_profile_def Let_def split: if_splits)
  with commit_private_cases [OF c write_logs(2)] assms(2) show ?thesis by (auto simp: is_err_def)
qed

lemma commit_profile_store: "commit_profile p lease n data (seqs, db) = (r, seqs', db') \<Longrightarrow> cs_store seqs' = cs_store seqs"
  by (auto simp: commit_profile_def Let_def split: if_splits prod.splits)

definition private_free :: "'v writer \<Rightarrow> bool" where
  "private_free w = (pc_local_store (wr_pending w) = None \<and> pc_user_profile (wr_pending w) = None)"

text \<open>A drain that succeeds under a reservation leaves no snapshot of the user behind.\<close>

lemma drain_private_reserved:
  assumes "drain_private interfere k lease (w0, ld) = (r, w, seqs, db)" and "is_ok r"
    and "\<And>j v. reserved_part g v (interfere j v)" and "pc_retirement (wr_pending w0) = Some g"
  shows "private_free w \<and> pc_retirement (wr_pending w) = Some g
    \<and> pc_active (wr_pending w) = pc_active (wr_pending w0)
    \<and> (\<forall>n owner data. pc_local_store (wr_pending w0) = Some (n, owner, data) \<longrightarrow> n \<le> cs_store seqs)
    \<and> (\<forall>n owner data. pc_user_profile (wr_pending w0) = Some (n, owner, data) \<longrightarrow> n \<le> cs_profile seqs)"
proof -
  let ?w = "interfere k w0" and ?p = "wr_pending (interfere k w0)"
  let ?w' = "?w\<lparr>wr_pending := ?p\<lparr>pc_private_wake := False, pc_local_store := None, pc_user_profile := None\<rparr>\<rparr>"
  note keep = assms(3) [unfolded reserved_part_def]
  from keep [of w0 k] assms(4) have p: "pc_retirement ?p = Some g" "pc_active ?p = pc_active (wr_pending w0)"
    "pc_local_store ?p = pc_local_store (wr_pending w0)" "pc_user_profile ?p = pc_user_profile (wr_pending w0)" by auto
  obtain r1 w1 s1 d1 where 1: "drain_store interfere (k + 1) (pc_local_store ?p) (?w', ld) = (r1, w1, s1, d1)"
    by (cases "drain_store interfere (k + 1) (pc_local_store ?p) (?w', ld)") auto
  obtain r2 w2 s2 d2 where 2: "drain_profile interfere (k + 2) (pc_user_profile ?p) (w1, s1, d1) = (r2, w2, s2, d2)"
    by (cases "drain_profile interfere (k + 2) (pc_user_profile ?p) (w1, s1, d1)") auto
  from assms(1,2) 1 2 have r: "is_ok r1" "is_ok r2" "w = w2" "seqs = s2" "db = d2"
    by (cases r1; cases r2; auto simp: drain_private_def Let_def split: if_splits sum.splits)+
  have w1: "private_free w1 \<and> pc_retirement (wr_pending w1) = Some g \<and> pc_active (wr_pending w1) = pc_active (wr_pending w0)"
    using 1 p keep [of ?w' "k + 1"]
    by (auto simp: drain_store_def private_free_def Let_def split: option.splits prod.splits)
  have s1: "pc_local_store ?p = Some (n, owner, data) \<Longrightarrow> n \<le> cs_store s1" for n owner data
    using 1 r(1) by (cases ld) (auto simp: drain_store_def Let_def split: prod.splits dest: commit_store_reached)
  have w2: "private_free w2 \<and> pc_retirement (wr_pending w2) = Some g \<and> pc_active (wr_pending w2) = pc_active (wr_pending w0)"
    using 2 w1 keep [of w1 "k + 2"]
    by (auto simp: drain_profile_def private_free_def Let_def split: option.splits prod.splits)
  have s2: "cs_store s2 = cs_store s1" "pc_user_profile ?p = Some (n, owner, data) \<Longrightarrow> n \<le> cs_profile s2" for n owner data
    using 2 r(2) by (auto simp: drain_profile_def Let_def split: option.splits prod.splits
        dest: commit_profile_reached commit_profile_store)
  from w2 s1 s2 p r show ?thesis by simp
qed

lemma drain_device_writer:
  assumes "drain_device interfere k (w0, ld) = (r, w, ld')" and "\<And>j v. reserved_part g v (interfere j v)"
    and "pc_retirement (wr_pending w0) = Some g"
  shows "pc_retirement (wr_pending w) = Some g \<and> pc_active (wr_pending w) = pc_active (wr_pending w0)
    \<and> pc_local_store (wr_pending w) = pc_local_store (wr_pending w0)
    \<and> pc_user_profile (wr_pending w) = pc_user_profile (wr_pending w0)"
  using assms(1,3) assms(2) [unfolded reserved_part_def, of w0 k]
  by (auto simp: drain_device_def Let_def split: if_splits prod.splits)

lemma retirement_result_ok:
  "retirement_result lease seqs = Inr () \<Longrightarrow> debt \<in> set (cs_debts seqs) \<Longrightarrow>
    debt_lease debt \<noteq> None \<and> debt_lease debt \<noteq> Some lease"
  by (auto simp: retirement_result_def find_None_iff split: option.splits)

text \<open>
  C3: a confirmed retirement has lost nothing: when the worker acknowledges the flush of a
  reserved retirement, every failed write of this lease, and of the device, since the start has
  been covered by a later commit of the same slot, the snapshots that were waiting are committed
  (or a newer one of the slot is), none is waiting any more, and the lease is still the active and
  reserved one. The other threads may do anything a reservation permits in between.
\<close>

theorem retirement_flush_loses_nothing:
  assumes "writer_step\<^sup>*\<^sup>* (writer_start faults) (v, ld)"
    and "\<And>k u. reserved_part g u (interfere k u)"
    and "process_client_state_write interfere n (FlushForRetirement lease g) (v, ld) = (Acknowledged (Inr ()), w, seqs, db)"
  shows "(\<forall>slot l k. l \<in> {None, Some lease} \<longrightarrow> NotCommitted slot l k \<in> set (db_log db) \<longrightarrow>
        (\<exists>m\<ge>k. Committed slot l m \<in> set (db_log db)))
    \<and> private_free w \<and> pc_active (wr_pending w) = Some lease \<and> pc_retirement (wr_pending w) = Some g
    \<and> (\<forall>k owner data. pc_local_store (wr_pending (interfere 0 v)) = Some (k, owner, data) \<longrightarrow> k \<le> cs_store seqs)
    \<and> (\<forall>k owner data. pc_user_profile (wr_pending (interfere 0 v)) = Some (k, owner, data) \<longrightarrow> k \<le> cs_profile seqs)"
proof -
  let ?w = "interfere 0 v"
  have ok: "worker_ok (seqs, db)"
    using process_ok [OF worker_ok_run [OF assms(1)] assms(3)] by simp
  obtain r1 w1 l1 where 1: "drain_device interfere 1 (?w, ld) = (r1, w1, l1)"
    by (cases "drain_device interfere 1 (?w, ld)") auto
  obtain r2 w2 s2 d2 where 2: "drain_private interfere 2 lease (w1, l1) = (r2, w2, s2, d2)"
    by (cases "drain_private interfere 2 lease (w1, l1)") auto
  from assms(3) 1 2 have r: "pc_active (wr_pending ?w) = Some lease" "pc_retirement (wr_pending ?w) = Some g"
    "is_ok r2" "retirement_result lease s2 = Inr ()" "w = w2" "seqs = s2" "db = d2"
    by (cases r1; auto simp: process_flush_for_retirement_def pending_require_def Let_def split: if_splits)+
  note dev = drain_device_writer [OF 1 assms(2) r(2)]
  note priv = drain_private_reserved [OF 2 r(3) assms(2)]
  have "\<exists>m\<ge>k. Committed slot l m \<in> set (db_log db)"
    if "l \<in> {None, Some lease}" "NotCommitted slot l k \<in> set (db_log db)" for slot l k
  proof -
    from ok that(2) consider m where "k \<le> m" "Committed slot l m \<in> set (db_log db)"
      | debt where "debt \<in> set (cs_debts seqs)" "debt_lease debt = l"
      unfolding worker_ok_def covered_def by (auto; blast)
    then show ?thesis
    proof cases
      case 2
      with retirement_result_ok [OF r(4), of debt] r(6) that(1) show ?thesis by auto
    qed blast
  qed
  with priv dev r show ?thesis by auto
qed

definition witness_writer_lease :: namespace_lease where
  "witness_writer_lease = \<lparr>lease_namespace = \<lparr>user_public_id = ''u'', ns_root = [''accounts'', ''u''], ns_mappings = []\<rparr>,
    lease_auth_epoch = 1, lease_namespace_epoch = 1\<rparr>"

definition witness_active_writer :: "nat writer" where
  "witness_active_writer = \<lparr>wr_pending = pending_default\<lparr>pc_active := Some witness_writer_lease\<rparr>,
    wr_queue = [], wr_worker_alive = True\<rparr>"

definition witness_queued_writer :: "nat writer" where
  "witness_queued_writer = \<lparr>wr_pending = pending_default\<lparr>pc_active := Some witness_writer_lease, pc_sequence := 1,
      pc_local_store := Some (1, witness_writer_lease, 7), pc_private_wake := True\<rparr>,
    wr_queue = [\<lparr>qw_sequence = 1, qw_command = Wake witness_writer_lease\<rparr>], wr_worker_alive = True\<rparr>"

definition witness_reserved_writer :: "nat writer" where
  "witness_reserved_writer = \<lparr>wr_pending = pending_default\<lparr>pc_active := Some witness_writer_lease, pc_sequence := 2,
      pc_retirement := Some 2, pc_local_store := Some (1, witness_writer_lease, 7), pc_private_wake := True\<rparr>,
    wr_queue = [\<lparr>qw_sequence = 1, qw_command = Wake witness_writer_lease\<rparr>,
      \<lparr>qw_sequence = 2, qw_command = FlushForRetirement witness_writer_lease 2\<rparr>], wr_worker_alive = True\<rparr>"

lemmas witness_writer_ops =
  pending_default_def require_enqueue_def pending_require_def require_unreserved_def next_sequence_def
  checked_add_def send_def clear_private_def Let_def

lemma witness_reserved_reachable:
  "writer_step\<^sup>*\<^sup>* (writer_start []) (witness_reserved_writer, committed_default, empty_db [])"
proof -
  let ?w0 = "fst (writer_start []) :: nat writer"
  let ?ld = "(committed_default, empty_db []) :: committed_sequences \<times> nat client_db"
  have "writer_activate witness_writer_lease ?w0 = (Inr (), witness_active_writer)"
    by (simp add: writer_activate_def writer_start_def witness_active_writer_def witness_writer_ops)
  from calls [OF caller_step.activates [OF this], of ?ld]
  have 1: "writer_step (writer_start []) (witness_active_writer, ?ld)" by (simp add: writer_start_def)
  have "queue_private witness_writer_lease (Some 7) None witness_active_writer = (Inr (), witness_queued_writer)"
    by (simp add: queue_private_def witness_active_writer_def witness_queued_writer_def witness_writer_ops)
  from calls [OF caller_step.queues_private [OF this], of ?ld]
  have 2: "writer_step (witness_active_writer, ?ld) (witness_queued_writer, ?ld)" .
  have "flush_for_retirement_request witness_writer_lease witness_queued_writer =
      (Inr (Inr (), \<lparr>rr_lease = witness_writer_lease, rr_generation = 2\<rparr>), witness_reserved_writer)"
    by (simp add: flush_for_retirement_request_def witness_queued_writer_def witness_reserved_writer_def witness_writer_ops)
  from calls [OF caller_step.reserves [OF this], of ?ld]
  have 3: "writer_step (witness_queued_writer, ?ld) (witness_reserved_writer, ?ld)" .
  from 1 2 3 show ?thesis by (meson converse_rtranclp_into_rtranclp r_into_rtranclp)
qed

theorem retirement_flush_loses_nothing_witness:
  "\<exists>w seqs db. process_client_state_write (\<lambda>_ w. w) 2 (FlushForRetirement witness_writer_lease 2)
      (witness_reserved_writer, committed_default, empty_db []) = (Acknowledged (Inr ()), w, seqs, db)
    \<and> private_free w \<and> 1 \<le> cs_store seqs \<and> db_store db ''u'' = Some 7"
proof -
  let ?x = "(witness_reserved_writer, committed_default, empty_db [])"
  let ?run = "process_client_state_write (\<lambda>_ w. w) 2 (FlushForRetirement witness_writer_lease 2) ?x"
  have ack: "fst ?run = Acknowledged (Inr ())" and stored: "db_store (snd (snd (snd ?run))) ''u'' = Some 7"
    by (simp_all add: process_flush_for_retirement_def witness_reserved_writer_def drain_device_def drain_settings_def
        drain_export_def drain_private_def drain_store_def drain_profile_def commit_store_def commit_private_def
        transaction_def empty_db_def committed_default_def record_retirement_result_def retirement_result_def
        write_local_store_def log_attempt_def pending_default_def pending_require_def Let_def witness_writer_lease_def)
  obtain w seqs db where run: "?run = (Acknowledged (Inr ()), w, seqs, db)"
    using ack by (cases ?run) auto
  have "reserved_part 2 u u" for u :: "nat writer" by (simp add: reserved_part_def)
  from retirement_flush_loses_nothing [OF witness_reserved_reachable this run]
  have "private_free w" "1 \<le> cs_store seqs" by (simp_all add: witness_reserved_writer_def)
  with run stored show ?thesis by auto
qed

text \<open>
  An older snapshot never replaces a newer one: in every interleaving the commits of a slot
  happen in strictly increasing order of the sequence the callers were given, the slot's counter
  is at least every committed sequence, and a command whose sequence is not above the counter is
  acknowledged without touching the database.
\<close>

theorem commits_are_increasing:
  assumes "writer_step\<^sup>*\<^sup>* (writer_start faults) (w, seqs, db)"
  shows "sorted_wrt (>) (commits_of slot (db_log db))
    \<and> (\<forall>n \<in> set (commits_of slot (db_log db)). n \<le> slot_sequence slot seqs)
    \<and> (n \<le> cs_store seqs \<longrightarrow> is_ok (fst (commit_store p lease n data (seqs, db))) \<longrightarrow>
         snd (commit_store p lease n data (seqs, db)) = (seqs, db))
    \<and> (n \<le> cs_profile seqs \<longrightarrow> is_ok (fst (commit_profile p lease n data (seqs, db))) \<longrightarrow>
         snd (commit_profile p lease n data (seqs, db)) = (seqs, db))"
proof -
  from worker_ok_run [OF assms] have "worker_ok (seqs, db)" by simp
  moreover have same: "commit_private p lease n k f db = (r, k', db') \<Longrightarrow> n \<le> k \<Longrightarrow> is_ok r \<Longrightarrow> k' = k \<and> db' = db"
    for k k' r db' and f :: "string \<Rightarrow> 'a client_db \<Rightarrow> 'a client_db"
    by (auto simp: commit_private_def pending_require_def split: if_splits)
  moreover have "n \<le> cs_store seqs \<longrightarrow> is_ok (fst (commit_store p lease n data (seqs, db))) \<longrightarrow>
        snd (commit_store p lease n data (seqs, db)) = (seqs, db)"
    by (auto simp: commit_store_def Let_def is_err_def split: prod.splits dest!: same)
  moreover have "n \<le> cs_profile seqs \<longrightarrow> is_ok (fst (commit_profile p lease n data (seqs, db))) \<longrightarrow>
        snd (commit_profile p lease n data (seqs, db)) = (seqs, db)"
    by (auto simp: commit_profile_def Let_def is_err_def split: prod.splits dest!: same)
  ultimately show ?thesis by (simp add: worker_ok_def)
qed

theorem commits_are_increasing_witness:
  "sorted_wrt (>) (commits_of StoreSlot (db_log (empty_db [] :: nat client_db)))"
  using commits_are_increasing [OF witness_reserved_reachable, of StoreSlot] by blast

lemma transaction_rows:
  assumes "transaction change db = (r, db')" and "\<And>d. f (change d) u = f d u"
    and "\<And>d rest. f (d\<lparr>db_faults := rest\<rparr>) u = f d u"
  shows "f db' u = f db u"
  using assms by (auto simp: transaction_def split: list.splits if_splits)

text \<open>Only an active lease of the user lets a commit touch the user's row.\<close>

lemma commit_private_rows:
  assumes "commit_private p lease n k write db = (r, m, db')" and "f db' u \<noteq> f db u"
    and "\<And>d v. v \<noteq> u \<Longrightarrow> f (write v d) u = f d u" and "\<And>d rest. f (d\<lparr>db_faults := rest\<rparr>) u = f d u"
  shows "pc_active p = Some lease \<and> lease_user lease = u \<and> \<not> pc_poisoned p"
proof (cases "pc_poisoned p \<or> pc_active p \<noteq> Some lease \<or> n \<le> k")
  case True
  with assms(1,2) show ?thesis by (auto simp: commit_private_def pending_require_def split: if_splits)
next
  case False
  obtain q d where t: "transaction (write (lease_user lease)) db = (q, d)"
    by (cases "transaction (write (lease_user lease)) db")
  have "lease_user lease = u"
  proof (rule ccontr)
    assume "lease_user lease \<noteq> u"
    with transaction_rows [OF t, of f u] assms(3,4) have "f d u = f db u" by blast
    with assms(1,2) False t show False
      by (cases q) (auto simp: commit_private_def pending_require_def split: if_splits)
  qed
  with False show ?thesis by simp
qed

definition user_rows :: "'v client_db \<Rightarrow> string \<Rightarrow> 'v option \<times> 'v option" where
  "user_rows db u = (db_store db u, db_profile db u)"

definition active_user :: "string \<Rightarrow> 'v writer \<Rightarrow> bool" where
  "active_user u w = (\<exists>lease. pc_active (wr_pending w) = Some lease \<and> lease_user lease = u \<and> \<not> pc_poisoned (wr_pending w))"

lemma user_rows_simps [simp]:
  "v \<noteq> u \<Longrightarrow> user_rows (write_local_store v x d) u = user_rows d u"
  "v \<noteq> u \<Longrightarrow> user_rows (write_user_profile v x d) u = user_rows d u"
  "user_rows (d\<lparr>db_faults := rest\<rparr>) u = user_rows d u"
  "user_rows (d\<lparr>db_device := x'\<rparr>) u = user_rows d u"
  "user_rows (d\<lparr>db_export := x'\<rparr>) u = user_rows d u"
  "user_rows (d\<lparr>db_groups := gs\<rparr>) u = user_rows d u"
  "user_rows (log_attempt a d) u = user_rows d u"
  by (simp_all add: user_rows_def write_local_store_def write_user_profile_def log_attempt_def)

lemma commit_store_rows:
  assumes "commit_store p lease n data (seqs, db) = (r, seqs', db')" and "user_rows db' u \<noteq> user_rows db u"
  shows "pc_active p = Some lease \<and> lease_user lease = u \<and> \<not> pc_poisoned p"
proof -
  obtain q m d where c: "commit_private p lease n (cs_store seqs) (\<lambda>user. write_local_store user data) db = (q, m, d)"
    by (cases "commit_private p lease n (cs_store seqs) (\<lambda>user. write_local_store user data) db") auto
  with assms have "user_rows d u \<noteq> user_rows db u" by (auto simp: commit_store_def Let_def split: if_splits)
  from commit_private_rows [where f = user_rows and u = u, OF c this] show ?thesis by simp
qed

lemma commit_profile_rows:
  assumes "commit_profile p lease n data (seqs, db) = (r, seqs', db')" and "user_rows db' u \<noteq> user_rows db u"
  shows "pc_active p = Some lease \<and> lease_user lease = u \<and> \<not> pc_poisoned p"
proof -
  obtain q m d where c: "commit_private p lease n (cs_profile seqs) (\<lambda>user. write_user_profile user data) db = (q, m, d)"
    by (cases "commit_private p lease n (cs_profile seqs) (\<lambda>user. write_user_profile user data) db") auto
  with assms have "user_rows d u \<noteq> user_rows db u" by (auto simp: commit_profile_def Let_def split: if_splits)
  from commit_private_rows [where f = user_rows and u = u, OF c this] show ?thesis by simp
qed

text \<open>Nobody activates a lease of the user while a command is processed.\<close>

definition never_activates :: "string \<Rightarrow> 'v interference \<Rightarrow> bool" where
  "never_activates u interfere = (\<forall>k v. active_user u (interfere k v) \<longrightarrow> active_user u v)"

lemma never_activatesD: "never_activates u interfere \<Longrightarrow> \<not> active_user u v \<Longrightarrow> \<not> active_user u (interfere k v)"
  by (auto simp: never_activates_def)

lemma active_user_cong:
  "pc_active (wr_pending v) = pc_active (wr_pending w) \<Longrightarrow> pc_poisoned (wr_pending v) = pc_poisoned (wr_pending w) \<Longrightarrow>
    active_user u v = active_user u w"
  by (simp add: active_user_def)

lemma drain_store_rows:
  assumes "drain_store interfere k taken (w, seqs, db) = (r, w', seqs', db')"
    and "never_activates u interfere" and "\<not> active_user u w"
  shows "user_rows db' u = user_rows db u \<and> \<not> active_user u w'"
proof (cases taken)
  case (Some a)
  obtain n owner data where a: "a = (n, owner, data)" by (cases a)
  have idle: "\<not> active_user u (interfere k w)" using never_activatesD [OF assms(2,3)] .
  obtain q s d where c: "commit_store (wr_pending (interfere k w)) owner n data (seqs, db) = (q, s, d)"
    by (cases "commit_store (wr_pending (interfere k w)) owner n data (seqs, db)") auto
  with assms(1) Some a have "w' = interfere k w" "db' = d" by (auto simp: drain_store_def Let_def)
  with idle commit_store_rows [OF c, of u] show ?thesis by (auto simp: active_user_def)
qed (use assms in \<open>auto simp: drain_store_def\<close>)

lemma drain_profile_rows:
  assumes "drain_profile interfere k taken (w, seqs, db) = (r, w', seqs', db')"
    and "never_activates u interfere" and "\<not> active_user u w"
  shows "user_rows db' u = user_rows db u \<and> \<not> active_user u w'"
proof (cases taken)
  case (Some a)
  obtain n owner data where a: "a = (n, owner, data)" by (cases a)
  have idle: "\<not> active_user u (interfere k w)" using never_activatesD [OF assms(2,3)] .
  obtain q s d where c: "commit_profile (wr_pending (interfere k w)) owner n data (seqs, db) = (q, s, d)"
    by (cases "commit_profile (wr_pending (interfere k w)) owner n data (seqs, db)") auto
  with assms(1) Some a have "w' = interfere k w" "db' = d" by (auto simp: drain_profile_def Let_def)
  with idle commit_profile_rows [OF c, of u] show ?thesis by (auto simp: active_user_def)
qed (use assms in \<open>auto simp: drain_profile_def\<close>)

lemma drain_private_rows:
  assumes "drain_private interfere k lease (w, seqs, db) = (r, w', seqs', db')"
    and "never_activates u interfere" and "\<not> active_user u w"
  shows "user_rows db' u = user_rows db u \<and> \<not> active_user u w'"
proof -
  let ?w = "interfere k w" and ?p = "wr_pending (interfere k w)"
  let ?w' = "?w\<lparr>wr_pending := ?p\<lparr>pc_private_wake := False, pc_local_store := None, pc_user_profile := None\<rparr>\<rparr>"
  have idle: "\<not> active_user u ?w" using never_activatesD [OF assms(2,3)] .
  then have idle': "\<not> active_user u ?w'" by (simp add: active_user_def)
  obtain r1 w1 s1 d1 where 1: "drain_store interfere (k + 1) (pc_local_store ?p) (?w', seqs, db) = (r1, w1, s1, d1)"
    by (cases "drain_store interfere (k + 1) (pc_local_store ?p) (?w', seqs, db)") auto
  obtain r2 w2 s2 d2 where 2: "drain_profile interfere (k + 2) (pc_user_profile ?p) (w1, s1, d1) = (r2, w2, s2, d2)"
    by (cases "drain_profile interfere (k + 2) (pc_user_profile ?p) (w1, s1, d1)") auto
  note a = drain_store_rows [OF 1 assms(2) idle']
  note b = drain_profile_rows [OF 2 assms(2) conjunct2 [OF a]]
  show ?thesis
  proof (cases "pc_poisoned ?p \<or> is_err (pending_require lease ?p)")
    case True
    with assms(1) idle show ?thesis by (auto simp: drain_private_def Let_def split: if_splits sum.splits)
  next
    case False
    with assms(1) 1 2 have "db' = d2 \<and> w' = w2" by (auto simp: drain_private_def Let_def split: if_splits sum.splits)
    with a b show ?thesis by simp
  qed
qed

lemma drain_settings_rows: "drain_settings taken (seqs, db) = (r, seqs', db') \<Longrightarrow> user_rows db' u = user_rows db u"
  by (auto simp: drain_settings_def Let_def split: option.splits if_splits prod.splits
      dest!: transaction_rows [where f = user_rows and u = u])

lemma drain_export_rows: "drain_export taken (seqs, db) = (r, seqs', db') \<Longrightarrow> user_rows db' u = user_rows db u"
  by (auto simp: drain_export_def Let_def split: option.splits if_splits prod.splits
      dest!: transaction_rows [where f = user_rows and u = u])

lemma drain_device_rows:
  assumes "drain_device interfere k (w, seqs, db) = (r, w', seqs', db')"
    and "never_activates u interfere" and "\<not> active_user u w"
  shows "user_rows db' u = user_rows db u \<and> \<not> active_user u w'"
proof -
  let ?w = "interfere k w" and ?p = "wr_pending (interfere k w)"
  have idle: "\<not> active_user u ?w" using never_activatesD [OF assms(2,3)] .
  obtain r1 s1 d1 where 1: "drain_settings (pc_device_settings ?p) (seqs, db) = (r1, s1, d1)"
    by (cases "drain_settings (pc_device_settings ?p) (seqs, db)") auto
  obtain r2 s2 d2 where 2: "drain_export (pc_export_directory ?p) (s1, d1) = (r2, s2, d2)"
    by (cases "drain_export (pc_export_directory ?p) (s1, d1)") auto
  show ?thesis
  proof (cases "pc_poisoned ?p")
    case True
    with assms(1) idle show ?thesis by (auto simp: drain_device_def Let_def)
  next
    case False
    with assms(1) 1 2 have "db' = d2"
      "w' = ?w\<lparr>wr_pending := ?p\<lparr>pc_device_wake := False, pc_device_settings := None, pc_export_directory := None\<rparr>\<rparr>"
      by (auto simp: drain_device_def Let_def)
    with idle drain_settings_rows [OF 1, of u] drain_export_rows [OF 2, of u] show ?thesis
      by (simp add: active_user_def)
  qed
qed

text \<open>
  Isolation of the accounts: whatever command the worker processes, and however the callers
  interleave with it, as long as none of them activates a lease of a user who has none, the stored
  canvas data and profile of this user stay what they were.
\<close>

theorem inactive_user_is_untouched:
  assumes "process_client_state_write interfere n command (w, seqs, db) = (a, w', seqs', db')"
    and "\<not> active_user u w" and "\<And>k v. active_user u (interfere k v) \<Longrightarrow> active_user u v"
  shows "db_store db' u = db_store db u \<and> db_profile db' u = db_profile db u"
proof -
  have never: "never_activates u interfere" using assms(3) by (auto simp: never_activates_def)
  have idle: "\<not> active_user u (interfere 0 w)" using never_activatesD [OF never assms(2)] .
  have "user_rows db' u = user_rows db u"
  proof (cases command)
    case (Wake lease)
    with assms(1) obtain r where "drain_private interfere 0 lease (w, seqs, db) = (r, w', seqs', db')"
      by (auto split: prod.splits)
    from drain_private_rows [OF this never assms(2)] show ?thesis by simp
  next
    case (Flush lease)
    obtain r1 w1 s1 d1 where 1: "drain_device interfere 0 (w, seqs, db) = (r1, w1, s1, d1)"
      by (cases "drain_device interfere 0 (w, seqs, db)") auto
    obtain r2 w2 s2 d2 where 2: "drain_private interfere 1 lease (w1, s1, d1) = (r2, w2, s2, d2)"
      by (cases "drain_private interfere 1 lease (w1, s1, d1)") auto
    note a = drain_device_rows [OF 1 never assms(2)]
    from assms(1) Flush 1 2 have "db' = d2" by (auto simp: process_flush_def split: prod.splits)
    with a drain_private_rows [OF 2 never conjunct2 [OF a]] show ?thesis by simp
  next
    case (FlushForRetirement lease g)
    let ?w = "interfere 0 w"
    obtain r1 w1 s1 d1 where 1: "drain_device interfere 1 (?w, seqs, db) = (r1, w1, s1, d1)"
      by (cases "drain_device interfere 1 (?w, seqs, db)") auto
    obtain r2 w2 s2 d2 where 2: "drain_private interfere 2 lease (w1, s1, d1) = (r2, w2, s2, d2)"
      by (cases "drain_private interfere 2 lease (w1, s1, d1)") auto
    note a = drain_device_rows [OF 1 never idle]
    from assms(1) FlushForRetirement 1 2 have "db' = d2 \<or> db' = db"
      by (auto simp: process_flush_for_retirement_def Let_def split: if_splits sum.splits prod.splits)
    with a drain_private_rows [OF 2 never conjunct2 [OF a]] show ?thesis by auto
  next
    case (LocalStoreChecked lease data)
    with assms(1) have "commit_store (wr_pending (interfere 0 w)) lease n data (seqs, db) = (case a of Acknowledged r \<Rightarrow> r, seqs', db')"
      by (auto simp: Let_def split: prod.splits)
    from commit_store_rows [OF this, of u] idle show ?thesis by (auto simp: active_user_def)
  next
    case (UserProfileChecked lease data)
    with assms(1) have "commit_profile (wr_pending (interfere 0 w)) lease n data (seqs, db) = (case a of Acknowledged r \<Rightarrow> r, seqs', db')"
      by (auto simp: Let_def split: prod.splits)
    from commit_profile_rows [OF this, of u] idle show ?thesis by (auto simp: active_user_def)
  next
    case (RetainedRedemptionRead lease i)
    with assms(1) show ?thesis
      by (auto simp: process_retained_read_def Let_def split: if_splits sum.splits prod.splits
          dest!: transaction_rows [where f = user_rows and u = u])
  next
    case WakeDevice
    with assms(1) show ?thesis
      by (auto split: prod.splits dest!: drain_device_rows [OF _ never assms(2)])
  next
    case FlushDevice
    with assms(1) show ?thesis
      by (auto split: prod.splits dest!: drain_device_rows [OF _ never assms(2)])
  qed (use assms(1) in \<open>auto simp: process_settings_checked_def process_export_checked_def Let_def
        split: if_splits prod.splits dest!: transaction_rows [where f = user_rows and u = u]\<close>)
  then show ?thesis by (simp add: user_rows_def)
qed

theorem inactive_user_is_untouched_witness:
  "db_store (log_attempt (Committed StoreSlot (Some witness_writer_lease) 1) (write_local_store ''u'' 7 (empty_db []))) ''v''
     = db_store (empty_db [] :: nat client_db) ''v''"
proof -
  have "process_client_state_write (\<lambda>_ v. v) 1 (LocalStoreChecked witness_writer_lease 7)
      (witness_active_writer, committed_default, empty_db [])
    = (Acknowledged (Inr ()), witness_active_writer, committed_default\<lparr>cs_store := 1\<rparr>,
       log_attempt (Committed StoreSlot (Some witness_writer_lease) 1) (write_local_store ''u'' 7 (empty_db [])))"
    by (simp add: commit_store_def commit_private_def pending_require_def witness_active_writer_def Let_def
        pending_default_def committed_default_def transaction_def empty_db_def attempt_of_def
        record_retirement_result_def witness_writer_lease_def)
  moreover have "\<not> active_user ''v'' witness_active_writer"
    by (simp add: active_user_def witness_active_writer_def witness_writer_lease_def)
  ultimately show ?thesis using inactive_user_is_untouched [of "\<lambda>_ v. v"] by blast
qed

end
