(* ===== verification/Recovery_Record.thy ===== *)
theory Recovery_Record
  imports Account_Model
begin

text \<open>
  The records that let unfinished paid work survive a crash
  (\<open>native-client/src/runtime/storage/recovery.rs\<close>): generations with their deliveries, orders, prompt
  tasks and prompt optimizations, the identity that ties each to one user, payer, request key and
  login, and the changes a single record can undergo. The validation of retained video requests is
  that of \<open>native-client/src/runtime/api/generation.rs\<close>.
\<close>

type_synonym i32 = "32 word"

section \<open>Errors\<close>

datatype recovery_error = NamespaceRequired | InvalidDocument | ScopeMismatch | IdentityChanged | ConflictExhausted

datatype managed_publication_conflict = DestinationAppeared | DestinationChanged

text \<open>
  An \<open>anyhow::Error\<close> of this module: one of its own errors, a publication conflict, a refused
  \<open>ensure\<close> with its text, a rejected request, or a failed access to the storage.
\<close>

datatype recovery_failure =
    Recovery recovery_error
  | PublicationConflict managed_publication_conflict
  | Refused string
  | RejectedRequest api_error
  | StorageFailure

section \<open>Retained video requests\<close>

record create_video_task =
  vt_client_request_id :: string
  vt_task_type :: string
  vt_model_code :: string
  vt_prompt :: string
  vt_source_file_id :: string
  vt_reference_file_ids :: "string list"
  vt_aspect_ratio :: string
  vt_resolution :: string
  vt_duration_secs :: i32
  vt_quote_id :: string

definition video_parameter_error :: "string \<Rightarrow> api_error" where
  "video_parameter_error message = Protocol message None"

text \<open>\<open>str::split_once(':')\<close> and the check of both parts.\<close>

fun split_once :: "char \<Rightarrow> string \<Rightarrow> (string \<times> string) option" where
  "split_once c [] = None"
| "split_once c (x # xs) =
    (if x = c then Some ([], xs) else map_option (\<lambda>(a, b). (x # a, b)) (split_once c xs))"

definition positive_u32 :: "string \<Rightarrow> bool" where
  "positive_u32 s = (case parse_unsigned (2 ^ 32) s of Some n \<Rightarrow> 0 < n | None \<Rightarrow> False)"

definition video_aspect_ok :: "string \<Rightarrow> bool" where
  "video_aspect_ok ratio = (case split_once CHR '':'' ratio of Some (w, h) \<Rightarrow> positive_u32 w \<and> positive_u32 h | None \<Rightarrow> False)"

definition video_quote_validate ::
  "string \<Rightarrow> string \<Rightarrow> string list \<Rightarrow> string \<Rightarrow> string \<Rightarrow> i32 \<Rightarrow> api_error + unit" where
  "video_quote_validate model source references ratio resolution duration =
    (if is_blank model \<or> is_blank source \<or> references = [] \<or> source \<notin> set references
        \<or> (\<exists>i \<in> set references. is_blank i)
     then Inl (video_parameter_error ''video model or source image invalid'')
     else if \<not> video_aspect_ok ratio then Inl (video_parameter_error ''video size invalid'')
     else if resolution \<notin> {''480P'', ''720P'', ''1080P''} then Inl (video_parameter_error ''video resolution invalid'')
     else if sint duration < 4 then Inl (video_parameter_error ''video shorter than 4 seconds'')
     else Inr ())"

definition video_task_validate :: "create_video_task \<Rightarrow> api_error + unit" where
  "video_task_validate t =
    bind_result (video_quote_validate (vt_model_code t) (vt_source_file_id t) (vt_reference_file_ids t)
        (vt_aspect_ratio t) (vt_resolution t) (vt_duration_secs t))
      (\<lambda>_. if is_blank (vt_client_request_id t) \<or> is_blank (vt_quote_id t) \<or> is_blank (vt_prompt t)
              \<or> vt_task_type t \<noteq> ''image_to_video''
           then Inl (video_parameter_error ''video request invalid'')
           else Inr ())"

section \<open>Records\<close>

record pending_delivery =
  pd_item_index :: usize
  pd_file_id :: string
  pd_sha256 :: string
  pd_size_bytes :: u64
  pd_local_path :: string
  pd_acknowledged :: bool
  pd_failed_asset_id :: string
  pd_abandoned :: bool

record pending_generation =
  pg_source_asset_id :: string
  pg_video_preview_path :: string
  pg_video_request :: "create_video_task option"
  pg_schema_version :: u32
  pg_cancel_requested :: bool
  pg_created_at_epoch_ms :: "64 word"
  pg_client_request_id :: string
  pg_owner_user_id :: string
  pg_billing_account_group_id :: string
  pg_auth_epoch :: u64
  pg_local_task_id :: string
  pg_server_task_id :: string
  pg_raw_prompt :: string
  pg_generation_prompt :: string
  pg_task_type :: string
  pg_category :: string
  pg_mode :: string
  pg_ratio :: string
  pg_quality :: string
  pg_model_code :: string
  pg_conversation_id :: string
  pg_count :: i32
  pg_target_width :: u32
  pg_target_height :: u32
  pg_create_conversation :: bool
  pg_reference_paths :: "string list"
  pg_reference_sha256 :: "string list"
  pg_reference_size_bytes :: "u64 list"
  pg_lineage_reference_paths :: "string list"
  pg_uploaded_file_ids :: "string list"
  pg_deliveries :: "pending_delivery list"
  pg_terminal :: bool
  pg_expected_success_count :: usize
  pg_canvas_source_node_id :: string
  pg_canvas_workflow_id :: string
  pg_canvas_ui_extraction :: bool

record pending_order =
  po_schema_version :: u32
  po_kind :: string
  po_client_request_id :: string
  po_owner_user_id :: string
  po_billing_account_group_id :: string
  po_auth_epoch :: u64
  po_order_id :: string
  po_product_code :: string
  po_upgrade_quote_id :: string
  po_presentation_dismissed :: bool
  po_created_at :: string

record pending_prompt_task =
  pt_schema_version :: u32
  pt_created_at_epoch_ms :: "64 word"
  pt_client_request_id :: string
  pt_owner_user_id :: string
  pt_billing_account_group_id :: string
  pt_auth_epoch :: u64
  pt_server_task_id :: string
  pt_task_type :: string
  pt_model_code :: string
  pt_prompt :: string
  pt_target_language :: "string option"
  pt_optimize :: bool
  pt_target_kind :: string
  pt_target_id :: string
  pt_target_category :: string
  pt_target_input :: string
  pt_append_result :: bool
  pt_activity_kind :: string
  pt_reference_paths :: "string list"
  pt_reference_sha256 :: "string list"
  pt_reference_size_bytes :: "u64 list"
  pt_uploaded_file_ids :: "string list"
  pt_result_prompt :: string
  pt_terminal_error :: string
  pt_applied_to_target :: bool
  pt_result_committed :: bool
  pt_cancel_requested :: bool
  pt_submission_started :: bool

record create_prompt_optimization =
  co_client_request_id :: string
  co_prompt :: string
  co_run_mode :: string
  co_focus_mode :: string
  co_max_rounds :: i32
  co_target_score :: i32

datatype optimization_operation = CreateOptimization create_prompt_optimization | RetryOptimization string

record pending_optimization =
  op_schema_version :: u32
  op_client_request_id :: string
  op_owner_user_id :: string
  op_auth_epoch :: u64
  op_billing_account_group_id :: string
  op_server_job_id :: string
  op_presentation_dismissed :: bool
  op_operation :: optimization_operation

section \<open>Identities\<close>

record recovery_identity =
  ri_owner_user_id :: string
  ri_billing_account_group_id :: string
  ri_client_request_id :: string
  ri_auth_epoch :: u64

definition generation_identity :: "pending_generation \<Rightarrow> recovery_identity" where
  "generation_identity r = \<lparr>ri_owner_user_id = pg_owner_user_id r,
    ri_billing_account_group_id = pg_billing_account_group_id r,
    ri_client_request_id = pg_client_request_id r, ri_auth_epoch = pg_auth_epoch r\<rparr>"

definition order_identity :: "pending_order \<Rightarrow> recovery_identity" where
  "order_identity r = \<lparr>ri_owner_user_id = po_owner_user_id r,
    ri_billing_account_group_id = po_billing_account_group_id r,
    ri_client_request_id = po_client_request_id r, ri_auth_epoch = po_auth_epoch r\<rparr>"

definition prompt_identity :: "pending_prompt_task \<Rightarrow> recovery_identity" where
  "prompt_identity r = \<lparr>ri_owner_user_id = pt_owner_user_id r,
    ri_billing_account_group_id = pt_billing_account_group_id r,
    ri_client_request_id = pt_client_request_id r, ri_auth_epoch = pt_auth_epoch r\<rparr>"

definition optimization_identity :: "pending_optimization \<Rightarrow> recovery_identity" where
  "optimization_identity r = \<lparr>ri_owner_user_id = op_owner_user_id r,
    ri_billing_account_group_id = op_billing_account_group_id r,
    ri_client_request_id = op_client_request_id r, ri_auth_epoch = op_auth_epoch r\<rparr>"

definition identity_validate :: "uuid_parser \<Rightarrow> recovery_identity \<Rightarrow> recovery_failure + unit" where
  "identity_validate parse_uuid i =
    (if \<not> canonical_uuid parse_uuid (ri_owner_user_id i) \<or> \<not> canonical_uuid parse_uuid (ri_billing_account_group_id i)
        \<or> is_blank (ri_client_request_id i)
     then Inl (Recovery InvalidDocument) else Inr ())"

definition require_authority ::
  "uuid_parser \<Rightarrow> namespace_lease \<Rightarrow> bool \<Rightarrow> recovery_identity \<Rightarrow> recovery_failure + unit" where
  "require_authority parse_uuid lease current_epoch i =
    bind_result (identity_validate parse_uuid i)
      (\<lambda>_. if ri_owner_user_id i \<noteq> lease_user lease \<or> (current_epoch \<and> ri_auth_epoch i \<noteq> lease_auth_epoch lease)
           then Inl (Recovery ScopeMismatch) else Inr ())"

definition require_scope ::
  "uuid_parser \<Rightarrow> namespace_lease \<Rightarrow> billing_scope \<Rightarrow> recovery_identity \<Rightarrow> recovery_failure + unit" where
  "require_scope parse_uuid lease scope i =
    bind_result (require_authority parse_uuid lease True i)
      (\<lambda>_. let request = billing_request scope; session = request_session request in
           if ri_owner_user_id i \<noteq> scope_owner_user_id session \<or> ri_auth_epoch i \<noteq> scope_auth_epoch session
              \<or> ri_billing_account_group_id i \<noteq> request_account_group_id request
           then Inl (Recovery ScopeMismatch) else Inr ())"

section \<open>Changes to a generation\<close>

definition settled :: "pending_delivery \<Rightarrow> bool" where
  "settled d = (pd_acknowledged d \<or> pd_abandoned d)"

definition generation_record_complete :: "pending_generation \<Rightarrow> bool" where
  "generation_record_complete r =
    (pg_terminal r \<and> pg_reference_paths r = [] \<and> pg_reference_sha256 r = [] \<and> pg_reference_size_bytes r = []
     \<and> list_all settled (pg_deliveries r)
     \<and> unat (pg_expected_success_count r) \<le> length (filter settled (pg_deliveries r)))"

datatype generation_patch =
    RequestCancellation
  | BeginSubmission
  | UploadedFileIds "string list"
  | UploadedAndReleaseInputs "string list"
  | Accepted string "string list" bool
  | ReleaseReferenceInputs
  | ClearDeliveryLocalPaths "string list"
  | Terminal usize

definition release_reference_inputs :: "pending_generation \<Rightarrow> pending_generation" where
  "release_reference_inputs r = r\<lparr>pg_reference_paths := [], pg_reference_sha256 := [], pg_reference_size_bytes := []\<rparr>"

definition clear_delivery_paths :: "string list \<Rightarrow> pending_delivery list \<Rightarrow> pending_delivery list" where
  "clear_delivery_paths ids =
    map (\<lambda>d. if pd_file_id d \<in> set ids then d\<lparr>pd_local_path := []\<rparr> else d)"

fun patch_generation :: "generation_patch \<Rightarrow> pending_generation \<Rightarrow> recovery_failure + pending_generation" where
  "patch_generation RequestCancellation r = Inr (r\<lparr>pg_cancel_requested := True\<rparr>)"
| "patch_generation BeginSubmission r =
    (if pg_cancel_requested r then Inl (Refused ''cancelled generation cannot be submitted'') else Inr r)"
| "patch_generation (UploadedFileIds ids) r = Inr (r\<lparr>pg_uploaded_file_ids := ids\<rparr>)"
| "patch_generation (UploadedAndReleaseInputs ids) r =
    Inr (release_reference_inputs (r\<lparr>pg_uploaded_file_ids := ids\<rparr>))"
| "patch_generation (Accepted task ids clear) r =
    (let r' = r\<lparr>pg_server_task_id := task, pg_uploaded_file_ids := ids\<rparr>
     in Inr (if clear then release_reference_inputs r' else r'))"
| "patch_generation ReleaseReferenceInputs r = Inr (release_reference_inputs r)"
| "patch_generation (ClearDeliveryLocalPaths ids) r =
    Inr (r\<lparr>pg_deliveries := clear_delivery_paths ids (pg_deliveries r)\<rparr>)"
| "patch_generation (Terminal n) r = Inr (r\<lparr>pg_terminal := True, pg_expected_success_count := n\<rparr>)"

definition is_terminal_patch :: "generation_patch \<Rightarrow> bool" where
  "is_terminal_patch patch = (case patch of Terminal _ \<Rightarrow> True | _ \<Rightarrow> False)"

datatype prompt_patch =
    PromptCancellation
  | PromptBeginSubmission
  | PromptUploadedFileIds "string list"
  | PromptServerTaskId string
  | PromptTerminalError string
  | PromptResultPrompt string
  | PromptResultCommitted
  | PromptAppliedToTarget
  | ReleaseCustomPromptResult

fun patch_prompt_task :: "prompt_patch \<Rightarrow> pending_prompt_task \<Rightarrow> recovery_failure + pending_prompt_task" where
  "patch_prompt_task PromptCancellation r = Inr (r\<lparr>pt_cancel_requested := True\<rparr>)"
| "patch_prompt_task PromptBeginSubmission r =
    (if pt_cancel_requested r then Inl (Refused ''cancelled prompt cannot be submitted'')
     else Inr (r\<lparr>pt_submission_started := True\<rparr>))"
| "patch_prompt_task (PromptUploadedFileIds ids) r = Inr (r\<lparr>pt_uploaded_file_ids := ids\<rparr>)"
| "patch_prompt_task (PromptServerTaskId i) r = Inr (r\<lparr>pt_server_task_id := i\<rparr>)"
| "patch_prompt_task (PromptTerminalError e) r = Inr (r\<lparr>pt_terminal_error := e\<rparr>)"
| "patch_prompt_task (PromptResultPrompt s) r = Inr (r\<lparr>pt_result_prompt := s\<rparr>)"
| "patch_prompt_task PromptResultCommitted r = Inr (r\<lparr>pt_result_committed := True\<rparr>)"
| "patch_prompt_task PromptAppliedToTarget r = Inr (r\<lparr>pt_applied_to_target := True\<rparr>)"
| "patch_prompt_task ReleaseCustomPromptResult r = Inr (r\<lparr>pt_applied_to_target := False, pt_result_committed := True\<rparr>)"

section \<open>Deliveries\<close>

record delivery_confirmation =
  dc_client_request_id :: string
  dc_item_index :: usize
  dc_task_id :: string
  dc_file_id :: string
  dc_sha256 :: string
  dc_size_bytes :: u64
  dc_failed_asset_id :: "string option"

text \<open>The only delivery with the property; two of them make the record invalid.\<close>

definition delivery_index :: "(pending_delivery \<Rightarrow> bool) \<Rightarrow> pending_generation \<Rightarrow> recovery_failure + nat option" where
  "delivery_index P r =
    (case filter (\<lambda>i. P (pg_deliveries r ! i)) [0..<length (pg_deliveries r)] of
       [] \<Rightarrow> Inr None
     | [i] \<Rightarrow> Inr (Some i)
     | _ \<Rightarrow> Inl (Recovery InvalidDocument))"

definition update_delivery :: "nat \<Rightarrow> (pending_delivery \<Rightarrow> pending_delivery) \<Rightarrow> pending_generation \<Rightarrow> pending_generation" where
  "update_delivery i f r = r\<lparr>pg_deliveries := (pg_deliveries r)[i := f (pg_deliveries r ! i)]\<rparr>"

text \<open>\<open>save_delivery\<close> on the record: note where the file is, or which placeholder asset stands for it.\<close>

definition record_save_delivery ::
  "delivery_confirmation \<Rightarrow> string \<Rightarrow> bool \<Rightarrow> pending_generation \<Rightarrow> recovery_failure + pending_generation" where
  "record_save_delivery delivery v failed r =
    (case delivery_index (\<lambda>d. pd_file_id d = dc_file_id delivery) r of
       Inl e \<Rightarrow> Inl e
     | Inr (Some i) \<Rightarrow>
         Inr (update_delivery i (\<lambda>d. if failed then d\<lparr>pd_failed_asset_id := v\<rparr> else d\<lparr>pd_local_path := v\<rparr>) r)
     | Inr None \<Rightarrow>
         Inr (r\<lparr>pg_deliveries := pg_deliveries r @
           [\<lparr>pd_item_index = dc_item_index delivery, pd_file_id = dc_file_id delivery, pd_sha256 = dc_sha256 delivery,
             pd_size_bytes = dc_size_bytes delivery, pd_local_path = (if failed then [] else v),
             pd_acknowledged = False, pd_failed_asset_id = (if failed then v else []), pd_abandoned = False\<rparr>]\<rparr>))"

text \<open>
  \<open>settle_delivery\<close> on the record: \<open>None\<close> when there is nothing to settle.
\<close>

definition record_settle_delivery ::
  "string \<Rightarrow> bool \<Rightarrow> pending_generation \<Rightarrow> recovery_failure + pending_generation option" where
  "record_settle_delivery v abandon r =
    (if is_blank v then Inr None
     else case delivery_index (\<lambda>d. if abandon then pd_failed_asset_id d = v else pd_file_id d = v) r of
       Inl e \<Rightarrow> Inl e
     | Inr None \<Rightarrow> Inr None
     | Inr (Some i) \<Rightarrow>
         bind_result (delivery_index (\<lambda>d. pd_file_id d = pd_file_id (pg_deliveries r ! i)) r)
           (\<lambda>_. Inr (Some (update_delivery i (\<lambda>d. if abandon then d\<lparr>pd_abandoned := True\<rparr> else d\<lparr>pd_acknowledged := True\<rparr>) r))))"

text \<open>The only open delivery that a placeholder asset stands for, in the records of one login.\<close>

definition recoverable_delivery ::
  "pending_generation list \<Rightarrow> u64 \<Rightarrow> string \<Rightarrow> (pending_generation \<times> pending_delivery) option" where
  "recoverable_delivery records epoch failed_asset_id =
    (if is_blank failed_asset_id then None
     else case concat (map (\<lambda>r. map (Pair r)
            (filter (\<lambda>d. pd_failed_asset_id d = failed_asset_id \<and> \<not> pd_acknowledged d \<and> \<not> pd_abandoned d) (pg_deliveries r)))
          (filter (\<lambda>r. pg_auth_epoch r = epoch) records)) of
       [x] \<Rightarrow> Some x
     | _ \<Rightarrow> None)"

section \<open>Facts about single records\<close>

named_theorems recovery_identities

lemma patch_generation_identity [recovery_identities]:
  "patch_generation patch r = Inr r' \<Longrightarrow> generation_identity r' = generation_identity r \<and> pg_schema_version r' = pg_schema_version r"
  by (cases patch) (auto simp: generation_identity_def release_reference_inputs_def Let_def split: if_splits)

lemma patch_generation_video [recovery_identities]:
  "patch_generation patch r = Inr r' \<Longrightarrow>
    pg_video_request r' = pg_video_request r \<and> pg_task_type r' = pg_task_type r \<and> pg_source_asset_id r' = pg_source_asset_id r"
  by (cases patch) (auto simp: release_reference_inputs_def Let_def split: if_splits)

lemma patch_prompt_task_identity [recovery_identities]:
  "patch_prompt_task patch r = Inr r' \<Longrightarrow> prompt_identity r' = prompt_identity r \<and> pt_schema_version r' = pt_schema_version r"
  by (cases patch) (auto simp: prompt_identity_def split: if_splits)

lemma update_delivery_keeps [simp]:
  "generation_identity (update_delivery i f r) = generation_identity r"
  "pg_schema_version (update_delivery i f r) = pg_schema_version r"
  "pg_video_request (update_delivery i f r) = pg_video_request r"
  "pg_task_type (update_delivery i f r) = pg_task_type r"
  "pg_source_asset_id (update_delivery i f r) = pg_source_asset_id r"
  "pg_cancel_requested (update_delivery i f r) = pg_cancel_requested r"
  by (simp_all add: update_delivery_def generation_identity_def)

lemma save_delivery_identity [recovery_identities]:
  "record_save_delivery delivery v failed r = Inr r' \<Longrightarrow>
    generation_identity r' = generation_identity r \<and> pg_schema_version r' = pg_schema_version r
    \<and> pg_video_request r' = pg_video_request r \<and> pg_task_type r' = pg_task_type r \<and> pg_source_asset_id r' = pg_source_asset_id r"
  by (auto simp: record_save_delivery_def split: sum.splits option.splits) (auto simp: generation_identity_def)

lemma settle_delivery_identity [recovery_identities]:
  "record_settle_delivery v abandon r = Inr (Some r') \<Longrightarrow>
    generation_identity r' = generation_identity r \<and> pg_schema_version r' = pg_schema_version r
    \<and> pg_video_request r' = pg_video_request r \<and> pg_task_type r' = pg_task_type r \<and> pg_source_asset_id r' = pg_source_asset_id r"
  by (auto simp: record_settle_delivery_def split: if_splits sum.splits option.splits)

lemma delivery_index_Some:
  assumes "delivery_index P r = Inr (Some i)"
  shows "i < length (pg_deliveries r)" "P (pg_deliveries r ! i)"
    "\<And>j. j < length (pg_deliveries r) \<Longrightarrow> P (pg_deliveries r ! j) \<Longrightarrow> j = i"
proof -
  let ?xs = "filter (\<lambda>i. P (pg_deliveries r ! i)) [0..<length (pg_deliveries r)]"
  from assms have xs: "?xs = [i]" by (auto simp: delivery_index_def split: list.splits)
  then have "set ?xs = {i}" by simp
  then show "i < length (pg_deliveries r)" "P (pg_deliveries r ! i)"
    "\<And>j. j < length (pg_deliveries r) \<Longrightarrow> P (pg_deliveries r ! j) \<Longrightarrow> j = i" by auto
qed

lemma delivery_index_None:
  assumes "delivery_index P r = Inr None"
  shows "d \<in> set (pg_deliveries r) \<Longrightarrow> \<not> P d"
proof -
  let ?xs = "filter (\<lambda>i. P (pg_deliveries r ! i)) [0..<length (pg_deliveries r)]"
  from assms have "?xs = []" by (auto simp: delivery_index_def split: list.splits)
  then show "d \<in> set (pg_deliveries r) \<Longrightarrow> \<not> P d" by (auto simp: filter_empty_conv in_set_conv_nth)
qed

text \<open>Settling touches one delivery only, the one that was named, and settles it.\<close>

lemma record_settle_delivery_Some:
  assumes "record_settle_delivery v abandon r = Inr (Some r')"
  shows "\<exists>i < length (pg_deliveries r).
      (if abandon then pd_failed_asset_id (pg_deliveries r ! i) = v else pd_file_id (pg_deliveries r ! i) = v)
      \<and> settled (pg_deliveries r' ! i) \<and> length (pg_deliveries r') = length (pg_deliveries r)
      \<and> (\<forall>j < length (pg_deliveries r). j \<noteq> i \<longrightarrow> pg_deliveries r' ! j = pg_deliveries r ! j)
      \<and> (\<forall>j < length (pg_deliveries r). pd_file_id (pg_deliveries r ! j) = pd_file_id (pg_deliveries r ! i) \<longrightarrow> j = i)"
proof -
  let ?P = "\<lambda>d. if abandon then pd_failed_asset_id d = v else pd_file_id d = v"
  from assms obtain i u where i: "delivery_index ?P r = Inr (Some i)"
    and u: "delivery_index (\<lambda>d. pd_file_id d = pd_file_id (pg_deliveries r ! i)) r = Inr u"
    and r': "r' = update_delivery i (\<lambda>d. if abandon then d\<lparr>pd_abandoned := True\<rparr> else d\<lparr>pd_acknowledged := True\<rparr>) r"
    by (cases "is_blank v"; simp add: record_settle_delivery_def split: sum.splits option.splits; blast)
  note at = delivery_index_Some [OF i]
  have "u = Some i"
  proof (cases u)
    case None
    from delivery_index_None [OF u [unfolded None] nth_mem [OF at(1)]] show ?thesis by simp
  next
    case (Some j)
    from delivery_index_Some(3) [OF u [unfolded Some] at(1) refl] Some show ?thesis by simp
  qed
  note only = delivery_index_Some(3) [OF u [unfolded this]]
  show ?thesis
  proof (intro exI [of _ i] conjI allI impI)
    show "i < length (pg_deliveries r)" using at(1) .
    show "if abandon then pd_failed_asset_id (pg_deliveries r ! i) = v else pd_file_id (pg_deliveries r ! i) = v"
      using at(2) .
    show "settled (pg_deliveries r' ! i)" using at(1) by (simp add: r' update_delivery_def settled_def)
    show "length (pg_deliveries r') = length (pg_deliveries r)" by (simp add: r' update_delivery_def)
    show "j \<noteq> i \<Longrightarrow> pg_deliveries r' ! j = pg_deliveries r ! j" for j by (simp add: r' update_delivery_def)
    show "j < length (pg_deliveries r) \<Longrightarrow> pd_file_id (pg_deliveries r ! j) = pd_file_id (pg_deliveries r ! i) \<Longrightarrow> j = i" for j
      by (rule only)
  qed
qed

lemma recoverable_delivery_Some:
  assumes "recoverable_delivery records epoch a = Some (r, d)"
  shows "r \<in> set records" "pg_auth_epoch r = epoch" "d \<in> set (pg_deliveries r)" "pd_failed_asset_id d = a" "\<not> settled d"
    "\<And>r' d'. r' \<in> set records \<Longrightarrow> pg_auth_epoch r' = epoch \<Longrightarrow> d' \<in> set (pg_deliveries r') \<Longrightarrow>
       pd_failed_asset_id d' = a \<Longrightarrow> \<not> settled d' \<Longrightarrow> r' = r \<and> d' = d"
proof -
  let ?xs = "concat (map (\<lambda>r. map (Pair r)
      (filter (\<lambda>d. pd_failed_asset_id d = a \<and> \<not> pd_acknowledged d \<and> \<not> pd_abandoned d) (pg_deliveries r)))
    (filter (\<lambda>r. pg_auth_epoch r = epoch) records))"
  from assms have "?xs = [(r, d)]" by (auto simp: recoverable_delivery_def split: if_splits list.splits)
  then have xs: "set ?xs = {(r, d)}" by simp
  have "(r, d) \<in> set ?xs" using xs by blast
  then show "r \<in> set records" "pg_auth_epoch r = epoch" "d \<in> set (pg_deliveries r)" "pd_failed_asset_id d = a" "\<not> settled d"
    by (auto simp: settled_def)
  show "r' = r \<and> d' = d" if "r' \<in> set records" "pg_auth_epoch r' = epoch" "d' \<in> set (pg_deliveries r')"
    "pd_failed_asset_id d' = a" "\<not> settled d'" for r' d'
  proof -
    have "(r', d') \<in> set ?xs" using that by (auto simp: settled_def)
    with xs show ?thesis by blast
  qed
qed

lemma video_task_valid:
  assumes "video_task_validate t = Inr ()"
  shows "vt_task_type t = ''image_to_video''" "vt_source_file_id t \<in> set (vt_reference_file_ids t)"
    "4 \<le> sint (vt_duration_secs t)" "\<not> is_blank (vt_quote_id t)" "\<not> is_blank (vt_client_request_id t)"
  using assms by (auto simp: video_task_validate_def video_quote_validate_def split: if_splits)

end
