(* ===== verification/Recovery_Store.thy ===== *)
theory Recovery_Store
  imports Recovery_Record
begin

text \<open>
  The recovery documents of a user (\<open>native-client/src/runtime/storage/recovery.rs\<close>): rows with an
  identity, the three documents that hold them, the check of what a mutation may do to the
  identities, and the mutation itself with its three attempts to publish. Other processes may
  replace a document at any time; storage accesses may fail.
\<close>

section \<open>Rows\<close>

definition RECOVERY_SCHEMA_VERSION :: u32 where
  "RECOVERY_SCHEMA_VERSION = 2"

datatype row_kind = GenerationRow | PromptRow | DeepRow | OrderRow

primrec kind_rank :: "row_kind \<Rightarrow> nat" where
  "kind_rank GenerationRow = 0"
| "kind_rank PromptRow = 1"
| "kind_rank DeepRow = 2"
| "kind_rank OrderRow = 3"

text \<open>The derived order of the enumeration.\<close>

instantiation row_kind :: linorder
begin

definition less_eq_row_kind :: "row_kind \<Rightarrow> row_kind \<Rightarrow> bool" where
  "less_eq_row_kind a b = (kind_rank a \<le> kind_rank b)"

definition less_row_kind :: "row_kind \<Rightarrow> row_kind \<Rightarrow> bool" where
  "less_row_kind a b = (kind_rank a < kind_rank b)"

instance
proof
  fix a b c :: row_kind
  show "a < b \<longleftrightarrow> a \<le> b \<and> \<not> b \<le> a" by (auto simp: less_eq_row_kind_def less_row_kind_def)
  show "a \<le> a" by (simp add: less_eq_row_kind_def)
  show "a \<le> b \<Longrightarrow> b \<le> c \<Longrightarrow> a \<le> c" by (simp add: less_eq_row_kind_def)
  show "a \<le> b \<Longrightarrow> b \<le> a \<Longrightarrow> a = b" by (cases a; cases b; simp add: less_eq_row_kind_def)
  show "a \<le> b \<or> b \<le> a" by (auto simp: less_eq_row_kind_def)
qed

end

text \<open>The index of the only row with the identity.\<close>

definition exact_index :: "('r \<Rightarrow> recovery_identity) \<Rightarrow> 'r list \<Rightarrow> recovery_identity \<Rightarrow> nat option" where
  "exact_index identity rows expected =
    (case filter (\<lambda>i. identity (rows ! i) = expected) [0..<length rows] of
       [i] \<Rightarrow> Some i
     | _ \<Rightarrow> None)"

definition upsert_row :: "('r \<Rightarrow> recovery_identity) \<Rightarrow> 'r list \<Rightarrow> 'r \<Rightarrow> recovery_failure + 'r list" where
  "upsert_row identity rows record =
    (case position (\<lambda>r. ri_client_request_id (identity r) = ri_client_request_id (identity record)) rows of
       Some i \<Rightarrow> if identity (rows ! i) = identity record then Inr (rows[i := record]) else Inl (Recovery IdentityChanged)
     | None \<Rightarrow> Inr (rows @ [record]))"

lemma exact_index_Some:
  assumes "exact_index identity rows expected = Some i"
  shows "i < length rows" "identity (rows ! i) = expected"
    "\<And>j. j < length rows \<Longrightarrow> identity (rows ! j) = expected \<Longrightarrow> j = i"
proof -
  let ?xs = "filter (\<lambda>i. identity (rows ! i) = expected) [0..<length rows]"
  from assms have "?xs = [i]" by (auto simp: exact_index_def split: list.splits)
  then have "set ?xs = {i}" by simp
  then show "i < length rows" "identity (rows ! i) = expected"
    "\<And>j. j < length rows \<Longrightarrow> identity (rows ! j) = expected \<Longrightarrow> j = i" by auto
qed

lemma upsert_row_cases:
  assumes "upsert_row identity rows record = Inr rows'"
  obtains (replaced) i where "i < length rows" "identity (rows ! i) = identity record" "rows' = rows[i := record]"
    | (added) "\<And>r. r \<in> set rows \<Longrightarrow> ri_client_request_id (identity r) \<noteq> ri_client_request_id (identity record)"
        "rows' = rows @ [record]"
proof (cases "position (\<lambda>r. ri_client_request_id (identity r) = ri_client_request_id (identity record)) rows")
  case None
  with assms have "rows' = rows @ [record]" by (simp add: upsert_row_def)
  moreover from None have "\<And>r. r \<in> set rows \<Longrightarrow> ri_client_request_id (identity r) \<noteq> ri_client_request_id (identity record)"
    by (simp add: position_None_iff)
  ultimately show ?thesis by (rule added [rotated])
next
  case (Some i)
  with assms have "identity (rows ! i) = identity record" "rows' = rows[i := record]"
    by (auto simp: upsert_row_def split: if_splits)
  with position_SomeD [OF Some] show ?thesis by (intro replaced [of i]) auto
qed

text \<open>
  The interface of a row type (\<open>trait RecoveryRow\<close> and the field that a rebind writes), and what
  the row operations do to the list of identities.
\<close>

locale recovery_row =
  fixes identity :: "'r \<Rightarrow> recovery_identity"
    and rebind :: "u64 \<Rightarrow> 'r \<Rightarrow> 'r"
  assumes rebind_identity: "identity (rebind epoch r) = (identity r)\<lparr>ri_auth_epoch := epoch\<rparr>"
begin

lemma upsert_identities:
  assumes "upsert_row identity rows record = Inr rows'"
  shows "map identity rows' = map identity rows
    \<or> (map identity rows' = map identity rows @ [identity record]
       \<and> ri_client_request_id (identity record) \<notin> ri_client_request_id ` identity ` set rows)"
  using assms
proof (cases rule: upsert_row_cases)
  case (replaced i)
  then have "map identity rows' = (map identity rows)[i := map identity rows ! i]" by (simp add: map_update)
  then show ?thesis by simp
next
  case added
  then show ?thesis by force
qed

lemma rebind_identities:
  assumes "exact_index identity rows expected = Some i"
  shows "map identity (rows[i := rebind epoch (rows ! i)])
    = (map identity rows)[i := expected\<lparr>ri_auth_epoch := epoch\<rparr>]"
  using exact_index_Some(2) [OF assms] by (simp add: map_update rebind_identity)

lemma update_identities:
  assumes "identity r = identity (rows ! i)"
  shows "map identity (rows[i := r]) = map identity rows"
proof -
  have "map identity (rows[i := r]) = (map identity rows)[i := identity (rows ! i)]" by (simp add: map_update assms)
  also have "\<dots> = map identity rows"
    using list_update_id [of "map identity rows" i] by (cases "i < length rows") (simp_all add: list_update_beyond)
  finally show ?thesis .
qed

end

definition rebind_generation :: "u64 \<Rightarrow> pending_generation \<Rightarrow> pending_generation" where
  "rebind_generation epoch r = r\<lparr>pg_auth_epoch := epoch\<rparr>"

definition rebind_prompt :: "u64 \<Rightarrow> pending_prompt_task \<Rightarrow> pending_prompt_task" where
  "rebind_prompt epoch r = r\<lparr>pt_auth_epoch := epoch\<rparr>"

definition rebind_order :: "u64 \<Rightarrow> pending_order \<Rightarrow> pending_order" where
  "rebind_order epoch r = r\<lparr>po_auth_epoch := epoch\<rparr>"

definition rebind_optimization :: "u64 \<Rightarrow> pending_optimization \<Rightarrow> pending_optimization" where
  "rebind_optimization epoch r = r\<lparr>op_auth_epoch := epoch\<rparr>"

interpretation generation_row: recovery_row generation_identity rebind_generation
  by unfold_locales (simp add: generation_identity_def rebind_generation_def)

interpretation prompt_row: recovery_row prompt_identity rebind_prompt
  by unfold_locales (simp add: prompt_identity_def rebind_prompt_def)

interpretation order_row: recovery_row order_identity rebind_order
  by unfold_locales (simp add: order_identity_def rebind_order_def)

interpretation optimization_row: recovery_row optimization_identity rebind_optimization
  by unfold_locales (simp add: optimization_identity_def rebind_optimization_def)

section \<open>Documents\<close>

type_synonym identities = "(row_kind \<times> recovery_identity) list"

text \<open>What a retained video operation is: its type, its request and the asset it starts from.\<close>

type_synonym retained_body = "string \<times> create_video_task option \<times> string"

text \<open>\<open>trait RecoveryEnvelope\<close>: a row shows its kind, its identity and its schema version.\<close>

record 'd recovery_envelope =
  env_empty :: 'd
  env_schema_version :: "'d \<Rightarrow> u32"
  env_rows :: "'d \<Rightarrow> (row_kind \<times> recovery_identity \<times> u32) list"
  env_validate_extra :: "uuid_parser \<Rightarrow> 'd \<Rightarrow> recovery_failure + unit"
  env_retained_bodies :: "'d \<Rightarrow> (string \<times> retained_body) list"

definition row_validate ::
  "uuid_parser \<Rightarrow> namespace_lease \<Rightarrow> recovery_identity \<Rightarrow> u32 \<Rightarrow> recovery_failure + unit" where
  "row_validate parse_uuid lease i schema =
    bind_result (identity_validate parse_uuid i)
      (\<lambda>_. if schema \<noteq> RECOVERY_SCHEMA_VERSION \<or> ri_owner_user_id i \<noteq> lease_user lease
           then Inl (Recovery InvalidDocument) else Inr ())"

fun validate_rows ::
  "uuid_parser \<Rightarrow> namespace_lease \<Rightarrow> string list \<Rightarrow> (row_kind \<times> recovery_identity \<times> u32) list
    \<Rightarrow> recovery_failure + identities" where
  "validate_rows parse_uuid lease keys [] = Inr []"
| "validate_rows parse_uuid lease keys ((kind, i, schema) # rows) =
    bind_result (row_validate parse_uuid lease i schema)
      (\<lambda>_. if ri_client_request_id i \<in> set keys then Inl (Recovery InvalidDocument)
           else bind_result (validate_rows parse_uuid lease (ri_client_request_id i # keys) rows)
                  (\<lambda>ids. Inr ((kind, i) # ids)))"

definition envelope_validate ::
  "uuid_parser \<Rightarrow> namespace_lease \<Rightarrow> 'd recovery_envelope \<Rightarrow> 'd \<Rightarrow> recovery_failure + identities" where
  "envelope_validate parse_uuid lease env d =
    (if env_schema_version env d \<noteq> RECOVERY_SCHEMA_VERSION then Inl (Recovery InvalidDocument)
     else bind_result (validate_rows parse_uuid lease [] (env_rows env d))
       (\<lambda>ids. bind_result (env_validate_extra env parse_uuid d) (\<lambda>_. Inr ids)))"

record recovery_file =
  rf_schema_version :: u32
  rf_generations :: "pending_generation list"

record order_recovery_file =
  of_schema_version :: u32
  of_orders :: "pending_order list"

record prompt_recovery_file =
  pf_schema_version :: u32
  pf_prompt_tasks :: "pending_prompt_task list"
  pf_deep_optimizations :: "pending_optimization list"

fun validate_video_rows :: "pending_generation list \<Rightarrow> recovery_failure + unit" where
  "validate_video_rows [] = Inr ()"
| "validate_video_rows (r # rows) =
    (case pg_video_request r of
       None \<Rightarrow> validate_video_rows rows
     | Some request \<Rightarrow>
         (case video_task_validate request of
            Inl e \<Rightarrow> Inl (RejectedRequest e)
          | Inr _ \<Rightarrow>
              if vt_client_request_id request = pg_client_request_id r \<and> vt_task_type request = pg_task_type r
                \<and> pg_task_type r = ''image_to_video''
              then validate_video_rows rows
              else Inl (Refused ''retained video request identity mismatch'')))"

definition generation_bodies :: "recovery_file \<Rightarrow> (string \<times> retained_body) list" where
  "generation_bodies d =
    map (\<lambda>r. (pg_client_request_id r, pg_task_type r, pg_video_request r, pg_source_asset_id r))
      (filter (\<lambda>r. pg_task_type r = ''image_to_video'' \<or> pg_video_request r \<noteq> None) (rf_generations d))"

definition generation_envelope :: "recovery_file recovery_envelope" where
  "generation_envelope = \<lparr>env_empty = \<lparr>rf_schema_version = RECOVERY_SCHEMA_VERSION, rf_generations = []\<rparr>,
    env_schema_version = rf_schema_version,
    env_rows = (\<lambda>d. map (\<lambda>r. (GenerationRow, generation_identity r, pg_schema_version r)) (rf_generations d)),
    env_validate_extra = (\<lambda>_ d. validate_video_rows (rf_generations d)),
    env_retained_bodies = generation_bodies\<rparr>"

definition order_envelope :: "order_recovery_file recovery_envelope" where
  "order_envelope = \<lparr>env_empty = \<lparr>of_schema_version = RECOVERY_SCHEMA_VERSION, of_orders = []\<rparr>,
    env_schema_version = of_schema_version,
    env_rows = (\<lambda>d. map (\<lambda>r. (OrderRow, order_identity r, po_schema_version r)) (of_orders d)),
    env_validate_extra = (\<lambda>_ _. Inr ()),
    env_retained_bodies = (\<lambda>_. [])\<rparr>"

definition optimization_row_ok :: "uuid_parser \<Rightarrow> pending_optimization \<Rightarrow> bool" where
  "optimization_row_ok parse_uuid r =
    (\<not> (op_presentation_dismissed r \<and> op_server_job_id r = [])
     \<and> (op_server_job_id r \<noteq> [] \<longrightarrow> canonical_uuid parse_uuid (op_server_job_id r))
     \<and> (case op_operation r of
          CreateOptimization request \<Rightarrow> co_client_request_id request = op_client_request_id r
        | RetryOptimization source \<Rightarrow> canonical_uuid parse_uuid source))"

definition prompt_envelope :: "prompt_recovery_file recovery_envelope" where
  "prompt_envelope = \<lparr>env_empty = \<lparr>pf_schema_version = RECOVERY_SCHEMA_VERSION, pf_prompt_tasks = [],
      pf_deep_optimizations = []\<rparr>,
    env_schema_version = pf_schema_version,
    env_rows = (\<lambda>d. map (\<lambda>r. (PromptRow, prompt_identity r, pt_schema_version r)) (pf_prompt_tasks d)
      @ map (\<lambda>r. (DeepRow, optimization_identity r, op_schema_version r)) (pf_deep_optimizations d)),
    env_validate_extra = (\<lambda>parse_uuid d.
      if list_all (optimization_row_ok parse_uuid) (pf_deep_optimizations d) then Inr ()
      else Inl (Recovery InvalidDocument)),
    env_retained_bodies = (\<lambda>_. [])\<rparr>"

section \<open>What a mutation may do to the identities\<close>

datatype mutation_permission =
    Preserve
  | Upsert row_kind recovery_identity
  | Remove row_kind recovery_identity
  | Rebind row_kind recovery_identity u64

text \<open>
  \<open>slice::partition_point\<close> on a list whose elements with the property come first, as the rows of a
  document do.
\<close>

definition partition_point :: "('a \<Rightarrow> bool) \<Rightarrow> 'a list \<Rightarrow> nat" where
  "partition_point P xs = length (takeWhile P xs)"

definition insert_at :: "nat \<Rightarrow> 'a \<Rightarrow> 'a list \<Rightarrow> 'a list" where
  "insert_at i x xs = take i xs @ x # drop i xs"

definition expected_identities :: "identities \<Rightarrow> mutation_permission \<Rightarrow> recovery_failure + identities" where
  "expected_identities before permission =
    (case permission of
       Preserve \<Rightarrow> Inr before
     | Upsert kind i \<Rightarrow>
         if \<exists>saved \<in> set before. ri_client_request_id (snd saved) = ri_client_request_id i
         then Inl (Recovery IdentityChanged)
         else Inr (insert_at (partition_point (\<lambda>saved. fst saved \<le> kind) before) (kind, i) before)
     | Remove kind i \<Rightarrow> Inr (filter (\<lambda>saved. saved \<noteq> (kind, i)) before)
     | Rebind kind i epoch \<Rightarrow>
         Inr (case position (\<lambda>saved. saved = (kind, i)) before of
                Some k \<Rightarrow> before[k := (kind, i\<lparr>ri_auth_epoch := epoch\<rparr>)]
              | None \<Rightarrow> before))"

definition validate_identity_delta ::
  "identities \<Rightarrow> identities \<Rightarrow> mutation_permission \<Rightarrow> recovery_failure + unit" where
  "validate_identity_delta before after permission =
    (if before = after then Inr ()
     else bind_result (expected_identities before permission)
       (\<lambda>expected. if expected \<noteq> after then Inl (Recovery IdentityChanged) else Inr ()))"

section \<open>The mutation\<close>

text \<open>
  A document on disk: the file's identity and what it holds. \<open>dd_published\<close> records, for the
  specification, each own publication with the file it took the place of.
\<close>

datatype 'd file_contents = Document 'd | Malformed

type_synonym 'd document_file = "(nat \<times> 'd file_contents) option"

record 'd document_disk =
  dd_file :: "'d document_file"
  dd_next_identity :: nat
  dd_published :: "('d document_file \<times> 'd) list"

text \<open>
  What happens around one attempt: which storage access fails, and what other processes do to the
  file before it is read and between the read and the publication.
\<close>

record 'd attempt =
  at_before_read :: "'d document_file \<Rightarrow> 'd document_file"
  at_read_fails :: bool
  at_create_fails :: bool
  at_write_fails :: bool
  at_before_publish :: "'d document_file \<Rightarrow> 'd document_file"
  at_publish_fails :: bool
  at_cleanup_fails :: bool

text \<open>
  The store of a user: the admission of the mutation (\<open>begin_ordinary_mutation\<close>) and the three attempts.
\<close>

record 'd recovery_store =
  rs_parse_uuid :: uuid_parser
  rs_lease :: namespace_lease
  rs_admitted :: bool
  rs_attempt :: "nat \<Rightarrow> 'd attempt"

definition read_document :: "'d recovery_store \<Rightarrow> 'd recovery_envelope \<Rightarrow> 'd document_file \<Rightarrow> recovery_failure + 'd" where
  "read_document store env f =
    bind_result (case f of None \<Rightarrow> Inr (env_empty env)
                 | Some (_, Document d) \<Rightarrow> Inr d
                 | Some (_, Malformed) \<Rightarrow> Inl (Recovery InvalidDocument))
      (\<lambda>d. bind_result (envelope_validate (rs_parse_uuid store) (rs_lease store) env d) (\<lambda>_. Inr d))"

text \<open>
  The checks on the retained video operations: no existing request becomes one, and those whose
  row stays keep their request.
\<close>

definition body_of :: "(string \<times> retained_body) list \<Rightarrow> string \<Rightarrow> retained_body option" where
  "body_of bodies key = map_of (rev bodies) key"

definition validate_bodies ::
  "identities \<Rightarrow> identities \<Rightarrow> (string \<times> retained_body) list \<Rightarrow> (string \<times> retained_body) list
    \<Rightarrow> recovery_failure + unit" where
  "validate_bodies before after retained next_bodies =
    (if \<exists>key \<in> set (map fst next_bodies).
          (\<exists>saved \<in> set before. ri_client_request_id (snd saved) = key) \<and> body_of retained key = None
     then Inl (Refused ''an existing request cannot become a different video operation'')
     else if \<exists>key \<in> set (map fst retained).
          (\<exists>saved \<in> set after. ri_client_request_id (snd saved) = key) \<and> body_of next_bodies key \<noteq> body_of retained key
     then Inl (Refused ''retained video request body cannot be replaced or cleared'')
     else Inr ())"

definition mutation_prepare ::
  "'d recovery_store \<Rightarrow> 'd recovery_envelope \<Rightarrow> mutation_permission \<Rightarrow> ('d \<Rightarrow> recovery_failure + 'd \<times> 't) \<Rightarrow> 'd
    \<Rightarrow> recovery_failure + 'd \<times> 't" where
  "mutation_prepare store env permission update d =
    bind_result (envelope_validate (rs_parse_uuid store) (rs_lease store) env d) (\<lambda>before.
    bind_result (update d) (\<lambda>(d', t).
    bind_result (envelope_validate (rs_parse_uuid store) (rs_lease store) env d') (\<lambda>after.
    bind_result (validate_identity_delta before after permission) (\<lambda>_.
    bind_result (validate_bodies before after (env_retained_bodies env d) (env_retained_bodies env d')) (\<lambda>_.
    Inr (d', t))))))"

definition publication_conflict ::
  "'d document_file \<Rightarrow> 'd document_file \<Rightarrow> managed_publication_conflict option" where
  "publication_conflict retained current =
    (case retained of
       None \<Rightarrow> if current \<noteq> None then Some DestinationAppeared else None
     | Some (i, _) \<Rightarrow> if map_option fst current \<noteq> Some i then Some DestinationChanged else None)"

fun mutate_attempts ::
  "'d recovery_store \<Rightarrow> 'd recovery_envelope \<Rightarrow> mutation_permission \<Rightarrow> ('d \<Rightarrow> recovery_failure + 'd \<times> 't) \<Rightarrow> nat
    \<Rightarrow> 'd document_disk \<Rightarrow> (recovery_failure + 't) \<times> 'd document_disk" where
  "mutate_attempts store env permission update 0 disk = (Inl (Recovery ConflictExhausted), disk)"
| "mutate_attempts store env permission update (Suc n) disk =
    (let a = rs_attempt store (2 - n);
         retained = at_before_read a (dd_file disk);
         disk0 = disk\<lparr>dd_file := retained\<rparr>
     in if at_read_fails a then (Inl StorageFailure, disk0)
        else case bind_result (read_document store env retained) (mutation_prepare store env permission update) of
          Inl e \<Rightarrow> (Inl e, disk0)
        | Inr (d', t) \<Rightarrow>
            if at_create_fails a then (Inl StorageFailure, disk0)
            else
              (let i = dd_next_identity disk0; disk1 = disk0\<lparr>dd_next_identity := Suc i\<rparr> in
               if at_write_fails a then (Inl StorageFailure, disk1)
               else
                 (let current = at_before_publish a retained; disk2 = disk1\<lparr>dd_file := current\<rparr> in
                  if at_publish_fails a then (Inl StorageFailure, disk2)
                  else case publication_conflict retained current of
                    None \<Rightarrow>
                      (Inr t, disk2\<lparr>dd_file := Some (i, Document d'), dd_published := (current, d') # dd_published disk2\<rparr>)
                  | Some conflict \<Rightarrow>
                      if at_cleanup_fails a then (Inl (PublicationConflict conflict), disk2)
                      else mutate_attempts store env permission update n disk2)))"

definition recovery_mutate ::
  "'d recovery_store \<Rightarrow> 'd recovery_envelope \<Rightarrow> mutation_permission \<Rightarrow> ('d \<Rightarrow> recovery_failure + 'd \<times> 't)
    \<Rightarrow> 'd document_disk \<Rightarrow> (recovery_failure + 't) \<times> 'd document_disk" where
  "recovery_mutate store env permission update disk =
    (if \<not> rs_admitted store then (Inl (Refused ''storage namespace has been replaced''), disk)
     else mutate_attempts store env permission update 3 disk)"

definition recovery_load :: "'d recovery_store \<Rightarrow> 'd recovery_envelope \<Rightarrow> 'd document_disk \<Rightarrow> recovery_failure + 'd" where
  "recovery_load store env disk =
    (let a = rs_attempt store 0 in
     if at_read_fails a then Inl StorageFailure else read_document store env (dd_file disk))"

section \<open>What holds of a prepared document\<close>

definition identities_of :: "'d recovery_envelope \<Rightarrow> 'd \<Rightarrow> identities" where
  "identities_of env d = map (\<lambda>(kind, i, _). (kind, i)) (env_rows env d)"

lemma validate_rows_ok:
  assumes "validate_rows parse_uuid lease keys rows = Inr ids"
  shows "ids = map (\<lambda>(kind, i, _). (kind, i)) rows
    \<and> (\<forall>(kind, i, schema) \<in> set rows. row_validate parse_uuid lease i schema = Inr ())
    \<and> distinct (map (\<lambda>(_, i, _). ri_client_request_id i) rows)
    \<and> (\<forall>(kind, i, schema) \<in> set rows. ri_client_request_id i \<notin> set keys)"
  using assms
  by (induction parse_uuid lease keys rows arbitrary: ids rule: validate_rows.induct)
    (fastforce split: if_splits)+

lemma envelope_validate_ok:
  assumes "envelope_validate parse_uuid lease env d = Inr ids"
  shows "ids = identities_of env d" "env_schema_version env d = RECOVERY_SCHEMA_VERSION"
    "env_validate_extra env parse_uuid d = Inr ()"
    "\<And>kind i schema. (kind, i, schema) \<in> set (env_rows env d) \<Longrightarrow> row_validate parse_uuid lease i schema = Inr ()"
    "distinct (map (\<lambda>(_, i). ri_client_request_id i) (identities_of env d))"
proof -
  from assms have schema: "env_schema_version env d = RECOVERY_SCHEMA_VERSION"
    and rows: "validate_rows parse_uuid lease [] (env_rows env d) = Inr ids"
    and extra: "env_validate_extra env parse_uuid d = Inr ()"
    by (auto simp: envelope_validate_def split: if_splits)
  note v = validate_rows_ok [OF rows]
  show "ids = identities_of env d" using v by (simp add: identities_of_def)
  show "env_schema_version env d = RECOVERY_SCHEMA_VERSION" by (rule schema)
  show "env_validate_extra env parse_uuid d = Inr ()" by (rule extra)
  show "\<And>kind i schema. (kind, i, schema) \<in> set (env_rows env d) \<Longrightarrow> row_validate parse_uuid lease i schema = Inr ()"
    using v by blast
  show "distinct (map (\<lambda>(_, i). ri_client_request_id i) (identities_of env d))"
    using v by (simp add: identities_of_def comp_def case_prod_unfold)
qed

lemma read_document_ok:
  assumes "read_document store env f = Inr d"
  shows "envelope_validate (rs_parse_uuid store) (rs_lease store) env d = Inr (identities_of env d)"
    "f = None \<and> d = env_empty env \<or> (\<exists>i. f = Some (i, Document d))"
proof -
  from assms obtain ids where "envelope_validate (rs_parse_uuid store) (rs_lease store) env d = Inr ids"
    by (auto simp: read_document_def)
  with envelope_validate_ok(1) [OF this]
  show "envelope_validate (rs_parse_uuid store) (rs_lease store) env d = Inr (identities_of env d)" by simp
  from assms show "f = None \<and> d = env_empty env \<or> (\<exists>i. f = Some (i, Document d))"
    by (auto simp: read_document_def split: option.splits file_contents.splits)
qed

text \<open>The result of a mutation is valid, and the identities and retained operations changed as permitted.\<close>

definition permitted_identities :: "mutation_permission \<Rightarrow> identities \<Rightarrow> identities \<Rightarrow> bool" where
  "permitted_identities permission before after =
    (before = after \<or> expected_identities before permission = Inr after)"

lemma mutation_prepare_ok:
  assumes "mutation_prepare store env permission update d = Inr (d', t)"
  shows "update d = Inr (d', t)"
    "envelope_validate (rs_parse_uuid store) (rs_lease store) env d = Inr (identities_of env d)"
    "envelope_validate (rs_parse_uuid store) (rs_lease store) env d' = Inr (identities_of env d')"
    "permitted_identities permission (identities_of env d) (identities_of env d')"
    "validate_bodies (identities_of env d) (identities_of env d') (env_retained_bodies env d) (env_retained_bodies env d') = Inr ()"
proof -
  from assms obtain before after where b: "envelope_validate (rs_parse_uuid store) (rs_lease store) env d = Inr before"
    and u: "update d = Inr (d', t)"
    and a: "envelope_validate (rs_parse_uuid store) (rs_lease store) env d' = Inr after"
    and delta: "validate_identity_delta before after permission = Inr ()"
    and bodies: "validate_bodies before after (env_retained_bodies env d) (env_retained_bodies env d') = Inr ()"
    unfolding mutation_prepare_def by (auto split: prod.splits)
  note ids = envelope_validate_ok(1) [OF b] envelope_validate_ok(1) [OF a]
  show "update d = Inr (d', t)" by (rule u)
  show "envelope_validate (rs_parse_uuid store) (rs_lease store) env d = Inr (identities_of env d)" using b ids by simp
  show "envelope_validate (rs_parse_uuid store) (rs_lease store) env d' = Inr (identities_of env d')" using a ids by simp
  show "permitted_identities permission (identities_of env d) (identities_of env d')"
    using delta ids by (auto simp: validate_identity_delta_def permitted_identities_def split: if_splits)
  show "validate_bodies (identities_of env d) (identities_of env d') (env_retained_bodies env d) (env_retained_bodies env d') = Inr ()"
    using bodies ids by simp
qed

text \<open>
  A run of the attempts publishes at most once, and only a document computed from the file that it
  takes the place of.
\<close>

lemma publication_conflict_None:
  "publication_conflict retained current = None \<longleftrightarrow> map_option fst current = map_option fst retained"
  by (cases retained; cases current) (auto simp: publication_conflict_def split: if_splits)

lemma mutate_attempts_result:
  assumes "mutate_attempts store env permission update n disk = (r, disk')"
  shows "(is_err r \<and> dd_published disk' = dd_published disk) \<or>
    (\<exists>retained current d d' t i k. r = Inr t \<and> dd_file disk' = Some (i, Document d')
      \<and> dd_published disk' = (current, d') # dd_published disk
      \<and> current = at_before_publish (rs_attempt store k) retained \<and> map_option fst current = map_option fst retained
      \<and> read_document store env retained = Inr d \<and> mutation_prepare store env permission update d = Inr (d', t))"
  using assms
proof (induction n arbitrary: disk)
  case (Suc n)
  let ?a = "rs_attempt store (2 - n)"
  let ?retained = "at_before_read ?a (dd_file disk)"
  let ?current = "at_before_publish ?a ?retained"
  show ?case
  proof (cases "bind_result (read_document store env ?retained) (mutation_prepare store env permission update)")
    case (Inl e)
    with Suc.prems show ?thesis by (auto simp: Let_def split: if_splits)
  next
    case (Inr x)
    obtain d' t where x: "x = (d', t)" by (cases x)
    from Inr x obtain d where d: "read_document store env ?retained = Inr d"
      "mutation_prepare store env permission update d = Inr (d', t)" by auto
    let ?disk2 = "disk\<lparr>dd_next_identity := Suc (dd_next_identity disk), dd_file := ?current\<rparr>"
    show ?thesis
    proof (cases "at_read_fails ?a \<or> at_create_fails ?a \<or> at_write_fails ?a \<or> at_publish_fails ?a")
      case True
      with Suc.prems Inr x show ?thesis by (auto simp: Let_def split: if_splits)
    next
      case ok: False
      show ?thesis
      proof (cases "publication_conflict ?retained ?current")
        case None
        then have "map_option fst ?current = map_option fst ?retained" by (simp add: publication_conflict_None)
        moreover from None Suc.prems Inr x ok have "r = Inr t"
          "dd_file disk' = Some (dd_next_identity disk, Document d')"
          "dd_published disk' = (?current, d') # dd_published disk" by (auto simp: Let_def)
        ultimately show ?thesis using d by blast
      next
        case (Some conflict)
        show ?thesis
        proof (cases "at_cleanup_fails ?a")
          case True
          with Suc.prems Inr x ok Some show ?thesis by (auto simp: Let_def)
        next
          case False
          with Suc.prems Inr x ok Some have "mutate_attempts store env permission update n ?disk2 = (r, disk')"
            by (auto simp: Let_def)
          from Suc.IH [OF this] show ?thesis by simp
        qed
      qed
    qed
  qed
qed auto

section \<open>The interface of a document\<close>

text \<open>
  What a mutation needs of a document type: the empty document is valid, rows come in the order
  of their kinds, and a retained operation belongs to a row.
\<close>

locale recovery_document =
  fixes env :: "'d recovery_envelope"
  assumes empty_schema: "env_schema_version env (env_empty env) = RECOVERY_SCHEMA_VERSION"
    and empty_rows: "env_rows env (env_empty env) = []"
    and empty_extra: "env_validate_extra env parse_uuid (env_empty env) = Inr ()"
    and rows_by_kind: "sorted (map fst (env_rows env d))"
    and bodies_of_rows: "key \<in> fst ` set (env_retained_bodies env d) \<Longrightarrow>
      \<exists>(kind, i, schema) \<in> set (env_rows env d). ri_client_request_id i = key"
begin

lemma read_absent: "read_document store env None = Inr (env_empty env)"
  by (simp add: read_document_def envelope_validate_def empty_schema empty_rows empty_extra)

lemma identities_by_kind: "sorted (map fst (identities_of env d))"
proof -
  have "map fst (identities_of env d) = map fst (env_rows env d)"
    by (simp add: identities_of_def comp_def case_prod_unfold)
  then show ?thesis by (simp add: rows_by_kind)
qed

lemma body_has_row:
  assumes "body_of (env_retained_bodies env d) key = Some body"
  shows "\<exists>saved \<in> set (identities_of env d). ri_client_request_id (snd saved) = key"
proof -
  from assms have "(key, body) \<in> set (env_retained_bodies env d)"
    by (auto simp: body_of_def dest: map_of_SomeD)
  with bodies_of_rows [of key d] show ?thesis by (force simp: identities_of_def)
qed

end

interpretation generation_document: recovery_document generation_envelope
  by unfold_locales (auto simp: generation_envelope_def generation_bodies_def generation_identity_def comp_def
      sorted_map map_replicate_const sorted_wrt_true)

interpretation order_document: recovery_document order_envelope
  by unfold_locales (auto simp: order_envelope_def comp_def map_replicate_const)

interpretation prompt_document: recovery_document prompt_envelope
  by unfold_locales (auto simp: prompt_envelope_def comp_def map_replicate_const sorted_append less_eq_row_kind_def)

end
