(* ===== verification/Recovery_Mutation.thy ===== *)
theory Recovery_Mutation
  imports Recovery_Store
begin

text \<open>
  What every mutation of a recovery document guarantees, whatever its update does and whatever other
  processes do: it replaces exactly the file it was computed from, it never changes who owns and
  who pays a retained request nor the request of a retained video operation, and three attempts
  are enough when one of them is left undisturbed.
\<close>

section \<open>Identities\<close>

definition same_payer :: "row_kind \<times> recovery_identity \<Rightarrow> row_kind \<times> recovery_identity \<Rightarrow> bool" where
  "same_payer x y =
    (fst x = fst y \<and> ri_owner_user_id (snd x) = ri_owner_user_id (snd y)
     \<and> ri_billing_account_group_id (snd x) = ri_billing_account_group_id (snd y))"

abbreviation request_of :: "row_kind \<times> recovery_identity \<Rightarrow> string" where
  "request_of x \<equiv> ri_client_request_id (snd x)"

lemma same_payer_refl [simp]: "same_payer x x"
  by (simp add: same_payer_def)

lemma distinct_keys_unique:
  "distinct (map request_of xs) \<Longrightarrow> x \<in> set xs \<Longrightarrow> y \<in> set xs \<Longrightarrow> request_of x = request_of y \<Longrightarrow> x = y"
  by (auto simp: distinct_map inj_on_def)

lemma set_insert_at: "set (insert_at i x xs) = insert x (set xs)"
  by (simp add: insert_at_def) (metis append_take_drop_id set_append)

text \<open>Each row after the mutation was there before, with the same payer, or is the one added.\<close>

lemma expected_rows:
  assumes "expected_identities before permission = Inr after" and "y \<in> set after"
  shows "(\<exists>x \<in> set before. same_payer x y \<and> request_of x = request_of y)
    \<or> (\<forall>x \<in> set before. request_of x \<noteq> request_of y)"
proof (cases permission)
  case Preserve
  with assms have "y \<in> set before" by (simp add: expected_identities_def)
  then show ?thesis using same_payer_refl by blast
next
  case (Upsert kind i)
  with assms have "y = (kind, i) \<or> y \<in> set before" "\<forall>x \<in> set before. request_of x \<noteq> ri_client_request_id i"
    by (auto simp: expected_identities_def set_insert_at split: if_splits)
  then show ?thesis using same_payer_refl by (metis snd_conv)
next
  case (Remove kind i)
  with assms have "y \<in> set before" by (auto simp: expected_identities_def)
  then show ?thesis using same_payer_refl by blast
next
  case (Rebind kind i epoch)
  show ?thesis
  proof (cases "position (\<lambda>saved. saved = (kind, i)) before")
    case None
    with assms Rebind have "y \<in> set before" by (simp add: expected_identities_def)
    then show ?thesis using same_payer_refl by blast
  next
    case (Some k)
    note k = position_SomeD [OF Some]
    from assms Rebind Some have "after = before[k := (kind, i\<lparr>ri_auth_epoch := epoch\<rparr>)]"
      by (simp add: expected_identities_def)
    with assms(2) have "y \<in> insert (kind, i\<lparr>ri_auth_epoch := epoch\<rparr>) (set before)"
      using set_update_subset_insert by fastforce
    moreover have "same_payer (before ! k) (kind, i\<lparr>ri_auth_epoch := epoch\<rparr>)"
      "request_of (before ! k) = request_of (kind, i\<lparr>ri_auth_epoch := epoch\<rparr>)"
      using k by (auto simp: same_payer_def)
    ultimately show ?thesis using k nth_mem [of k before] by (metis insertE same_payer_refl)
  qed
qed

lemma permitted_keeps_payer:
  assumes "permitted_identities permission before after" and "distinct (map request_of before)"
    and "x \<in> set before" "y \<in> set after" "request_of x = request_of y"
  shows "same_payer x y"
proof (cases "before = after")
  case True
  with assms distinct_keys_unique [OF assms(2,3)] show ?thesis by auto
next
  case False
  with assms(1) have "expected_identities before permission = Inr after" by (simp add: permitted_identities_def)
  from expected_rows [OF this assms(4)] assms(3,5) obtain x' where x': "x' \<in> set before" "same_payer x' y"
    "request_of x' = request_of y" by metis
  with distinct_keys_unique [OF assms(2,3) x'(1)] assms(5) show ?thesis by simp
qed

lemma validate_bodies_ok:
  assumes "validate_bodies before after retained next_bodies = Inr ()"
    and "x \<in> set before" "request_of x = key" "y \<in> set after" "request_of y = key"
  shows "body_of next_bodies key = body_of retained key"
proof (cases "body_of retained key")
  case None
  have "key \<notin> set (map fst next_bodies)"
    using assms None by (auto simp: validate_bodies_def split: if_splits)
  then have "body_of next_bodies key = None" by (simp add: body_of_def map_of_eq_None_iff)
  with None show ?thesis by simp
next
  case (Some body)
  then have "key \<in> set (map fst retained)" by (auto simp: body_of_def dest!: map_of_SomeD intro: rev_image_eqI)
  with assms show ?thesis by (auto simp: validate_bodies_def split: if_splits)
qed

section \<open>Properties\<close>

lemma recovery_mutate_result:
  assumes "recovery_mutate store env permission update disk = (r, disk')"
  shows "(is_err r \<and> dd_published disk' = dd_published disk) \<or>
    (\<exists>retained current d d' t i k. r = Inr t \<and> dd_file disk' = Some (i, Document d')
      \<and> dd_published disk' = (current, d') # dd_published disk
      \<and> current = at_before_publish (rs_attempt store k) retained \<and> map_option fst current = map_option fst retained
      \<and> read_document store env retained = Inr d \<and> mutation_prepare store env permission update d = Inr (d', t))"
proof (cases "rs_admitted store")
  case True
  with assms have "mutate_attempts store env permission update 3 disk = (r, disk')" by (simp add: recovery_mutate_def)
  from mutate_attempts_result [OF this] show ?thesis .
next
  case False
  with assms show ?thesis by (auto simp: recovery_mutate_def)
qed

text \<open>
  Other processes publish like this one does: they put a new file in place of the document and do not
  write into it. Then what a mutation replaces is the very document its update was applied to.
\<close>

definition replaces_files :: "'d recovery_store \<Rightarrow> bool" where
  "replaces_files store =
    (\<forall>k f. map_option fst (at_before_publish (rs_attempt store k) f) = map_option fst f \<longrightarrow>
      at_before_publish (rs_attempt store k) f = f)"

lemma recovery_mutate_replaces:
  assumes "recovery_mutate store env permission update disk = (Inr t, disk')" and "replaces_files store"
  shows "\<exists>replaced d d' i. dd_file disk' = Some (i, Document d') \<and> dd_published disk' = (replaced, d') # dd_published disk
    \<and> read_document store env replaced = Inr d \<and> mutation_prepare store env permission update d = Inr (d', t)"
  using recovery_mutate_result [OF assms(1)] assms(2) unfolding replaces_files_def by fastforce

text \<open>
  C4: a mutation is atomic. As long as other processes replace the document by a new file instead
  of writing into it, a successful mutation publishes once, and what it publishes is its update
  applied to the very document it replaces (no update of another process is lost) and is valid;
  a failed mutation publishes nothing.
\<close>

theorem mutation_is_atomic:
  assumes "recovery_mutate store env permission update disk = (r, disk')"
    and "\<And>k f. map_option fst (at_before_publish (rs_attempt store k) f) = map_option fst f \<Longrightarrow>
      at_before_publish (rs_attempt store k) f = f"
  shows "(is_err r \<and> dd_published disk' = dd_published disk) \<or>
    (\<exists>replaced d d' t i. r = Inr t \<and> dd_file disk' = Some (i, Document d')
      \<and> dd_published disk' = (replaced, d') # dd_published disk
      \<and> read_document store env replaced = Inr d \<and> update d = Inr (d', t)
      \<and> read_document store env (dd_file disk') = Inr d')"
  using recovery_mutate_result [OF assms(1)]
proof (elim disjE exE conjE)
  fix retained current d d' t i k
  assume r: "r = Inr t" "dd_file disk' = Some (i, Document d')" "dd_published disk' = (current, d') # dd_published disk"
    and current: "current = at_before_publish (rs_attempt store k) retained" "map_option fst current = map_option fst retained"
    and d: "read_document store env retained = Inr d" "mutation_prepare store env permission update d = Inr (d', t)"
  from current assms(2) have "current = retained" by simp
  moreover have "read_document store env (dd_file disk') = Inr d'"
    using mutation_prepare_ok(3) [OF d(2)] by (simp add: r(2) read_document_def)
  ultimately show ?thesis using r d mutation_prepare_ok(1) [OF d(2)] by blast
qed simp

definition quiet_attempt :: "'d attempt" where
  "quiet_attempt = \<lparr>at_before_read = (\<lambda>f. f), at_read_fails = False, at_create_fails = False, at_write_fails = False,
    at_before_publish = (\<lambda>f. f), at_publish_fails = False, at_cleanup_fails = False\<rparr>"

definition witness_recovery_lease :: namespace_lease where
  "witness_recovery_lease = \<lparr>lease_namespace = \<lparr>user_public_id = ''u'', ns_root = [''accounts'', ''u''], ns_mappings = []\<rparr>,
    lease_auth_epoch = 1, lease_namespace_epoch = 1\<rparr>"

definition quiet_store :: "'d recovery_store" where
  "quiet_store = \<lparr>rs_parse_uuid = Some, rs_lease = witness_recovery_lease, rs_admitted = True, rs_attempt = (\<lambda>_. quiet_attempt)\<rparr>"

definition empty_disk :: "'d document_disk" where
  "empty_disk = \<lparr>dd_file = None, dd_next_identity = 0, dd_published = []\<rparr>"

definition witness_order :: pending_order where
  "witness_order = \<lparr>po_schema_version = 2, po_kind = ''credit'', po_client_request_id = ''k'', po_owner_user_id = ''u'',
    po_billing_account_group_id = ''g'', po_auth_epoch = 1, po_order_id = [], po_product_code = ''p'',
    po_upgrade_quote_id = [], po_presentation_dismissed = False, po_created_at = ''now''\<rparr>"

definition witness_orders :: order_recovery_file where
  "witness_orders = \<lparr>of_schema_version = 2, of_orders = [witness_order]\<rparr>"

definition witness_update :: "order_recovery_file \<Rightarrow> recovery_failure + order_recovery_file \<times> unit" where
  "witness_update d = Inr (d\<lparr>of_orders := of_orders d @ [witness_order]\<rparr>, ())"

lemmas witness_recovery_defs =
  quiet_attempt_def witness_recovery_lease_def quiet_store_def empty_disk_def witness_order_def witness_orders_def
  witness_update_def order_envelope_def RECOVERY_SCHEMA_VERSION_def read_document_def mutation_prepare_def
  envelope_validate_def row_validate_def identity_validate_def canonical_uuid_def order_identity_def white_space1_def
  validate_identity_delta_def expected_identities_def partition_point_def insert_at_def validate_bodies_def
  publication_conflict_def

lemma witness_mutation:
  "recovery_mutate quiet_store order_envelope (Upsert OrderRow (order_identity witness_order)) witness_update empty_disk
    = (Inr (), \<lparr>dd_file = Some (0, Document witness_orders), dd_next_identity = 1, dd_published = [(None, witness_orders)]\<rparr>)"
  by (simp add: recovery_mutate_def numeral_3_eq_3 Let_def witness_recovery_defs)

theorem mutation_is_atomic_witness:
  "\<exists>replaced d d'. replaced = None \<and> d' = witness_orders \<and> read_document quiet_store order_envelope replaced = Inr d
    \<and> witness_update d = Inr (d', ())"
proof -
  have "at_before_publish (rs_attempt quiet_store k) f = f" for k and f :: "order_recovery_file document_file"
    by (simp add: quiet_store_def quiet_attempt_def)
  from mutation_is_atomic [OF witness_mutation this] show ?thesis by (auto simp: empty_disk_def)
qed

text \<open>
  C2: no mutation changes who owns or who pays a retained request, nor of what kind it is, and none
  replaces, clears or adds the request of a video operation whose row was there before: a retry
  charges the payer, and sends the body, that the user confirmed. What was there before is the content of
  the very file that the mutation replaces.
\<close>

theorem retained_request_keeps_payer:
  assumes "recovery_mutate store env permission update disk = (Inr t, disk')" and "replaces_files store"
  shows "\<exists>replaced d d'. dd_published disk' = (replaced, d') # dd_published disk
    \<and> read_document store env replaced = Inr d \<and> read_document store env (dd_file disk') = Inr d'
    \<and> update d = Inr (d', t)
    \<and> (\<forall>x \<in> set (identities_of env d). \<forall>y \<in> set (identities_of env d'). request_of x = request_of y \<longrightarrow>
          same_payer x y
          \<and> body_of (env_retained_bodies env d') (request_of x) = body_of (env_retained_bodies env d) (request_of x))"
proof -
  from recovery_mutate_replaces [OF assms] obtain replaced d d' i where
    saved: "dd_file disk' = Some (i, Document d')" and pub: "dd_published disk' = (replaced, d') # dd_published disk"
    and read: "read_document store env replaced = Inr d"
    and prep: "mutation_prepare store env permission update d = Inr (d', t)" by blast
  note ok = mutation_prepare_ok [OF prep]
  have keys: "distinct (map request_of (identities_of env d))"
    using envelope_validate_ok(5) [OF ok(2)] by (simp add: case_prod_unfold)
  have now: "read_document store env (dd_file disk') = Inr d'" using ok(3) by (simp add: saved read_document_def)
  have kept: "same_payer x y
      \<and> body_of (env_retained_bodies env d') (request_of x) = body_of (env_retained_bodies env d) (request_of x)"
    if xy: "x \<in> set (identities_of env d)" "y \<in> set (identities_of env d')" "request_of x = request_of y" for x y
    using permitted_keeps_payer [OF ok(4) keys xy] validate_bodies_ok [OF ok(5) xy(1) refl xy(2)] xy(3) by simp
  from pub read now ok(1) kept show ?thesis by blast
qed

definition dismiss_all :: "order_recovery_file \<Rightarrow> recovery_failure + order_recovery_file \<times> unit" where
  "dismiss_all d = Inr (d\<lparr>of_orders := map (\<lambda>r. r\<lparr>po_presentation_dismissed := True\<rparr>) (of_orders d)\<rparr>, ())"

definition saved_orders_disk :: "order_recovery_file document_disk" where
  "saved_orders_disk = \<lparr>dd_file = Some (0, Document witness_orders), dd_next_identity = 1, dd_published = []\<rparr>"

lemma witness_dismissal:
  "recovery_mutate quiet_store order_envelope Preserve dismiss_all saved_orders_disk
    = (Inr (), \<lparr>dd_file = Some (1, Document (witness_orders\<lparr>of_orders := [witness_order\<lparr>po_presentation_dismissed := True\<rparr>]\<rparr>)),
        dd_next_identity = 2, dd_published = [(Some (0, Document witness_orders),
          witness_orders\<lparr>of_orders := [witness_order\<lparr>po_presentation_dismissed := True\<rparr>]\<rparr>)]\<rparr>)"
  by (simp add: recovery_mutate_def numeral_3_eq_3 Let_def dismiss_all_def saved_orders_disk_def witness_recovery_defs)

lemma quiet_replaces: "replaces_files (quiet_store :: 'd recovery_store)"
  by (simp add: replaces_files_def quiet_store_def quiet_attempt_def)

theorem retained_request_keeps_payer_witness:
  "\<exists>d d'. identities_of order_envelope d = [(OrderRow, order_identity witness_order)]
    \<and> dismiss_all d = Inr (d', ())
    \<and> (\<forall>x \<in> set (identities_of order_envelope d). \<forall>y \<in> set (identities_of order_envelope d').
        request_of x = request_of y \<longrightarrow> same_payer x y)"
proof -
  from retained_request_keeps_payer [OF witness_dismissal quiet_replaces] obtain d d' where
    "read_document quiet_store order_envelope (Some (0, Document witness_orders)) = Inr d" "dismiss_all d = Inr (d', ())"
    "\<forall>x \<in> set (identities_of order_envelope d). \<forall>y \<in> set (identities_of order_envelope d').
        request_of x = request_of y \<longrightarrow> same_payer x y" by (auto simp: saved_orders_disk_def)
  moreover from this(1) have "d = witness_orders" by (auto simp: read_document_def)
  moreover have "identities_of order_envelope witness_orders = [(OrderRow, order_identity witness_order)]"
    by (simp add: identities_of_def order_envelope_def witness_orders_def)
  ultimately show ?thesis by blast
qed

text \<open>
  C32: three attempts are enough. When the mutation is admitted, no storage access fails, the document that is
  there is one the update accepts, other processes leave such a document when they found one, and during one
  of the three attempts nobody replaces the document between the read and the publication, the mutation
  succeeds.
\<close>

definition attempt_succeeds :: "'d attempt \<Rightarrow> bool" where
  "attempt_succeeds a = (\<not> at_read_fails a \<and> \<not> at_create_fails a \<and> \<not> at_write_fails a \<and> \<not> at_publish_fails a \<and> \<not> at_cleanup_fails a)"

definition acceptable ::
  "'d recovery_store \<Rightarrow> 'd recovery_envelope \<Rightarrow> mutation_permission \<Rightarrow> ('d \<Rightarrow> recovery_failure + 'd \<times> 't) \<Rightarrow> 'd document_file \<Rightarrow> bool" where
  "acceptable store env permission update f =
    is_ok (bind_result (read_document store env f) (mutation_prepare store env permission update))"

lemma mutate_attempts_succeed:
  assumes "\<And>k. k < 3 \<Longrightarrow> attempt_succeeds (rs_attempt store k)"
    and others: "\<And>k f. acceptable store env permission update f \<Longrightarrow>
      acceptable store env permission update (at_before_read (rs_attempt store k) f)
      \<and> acceptable store env permission update (at_before_publish (rs_attempt store k) f)"
    and "\<exists>k. 3 - n \<le> k \<and> k < 3 \<and> (\<forall>f. at_before_publish (rs_attempt store k) f = f)" and "n \<le> 3"
    and "acceptable store env permission update (dd_file disk)"
  shows "is_ok (fst (mutate_attempts store env permission update n disk))"
  using assms(3-5)
proof (induction n arbitrary: disk)
  case (Suc n)
  let ?a = "rs_attempt store (2 - n)"
  let ?retained = "at_before_read ?a (dd_file disk)"
  let ?current = "at_before_publish ?a ?retained"
  have ok: "\<not> at_read_fails ?a" "\<not> at_create_fails ?a" "\<not> at_write_fails ?a" "\<not> at_publish_fails ?a" "\<not> at_cleanup_fails ?a"
    using assms(1) [of "2 - n"] by (simp_all add: attempt_succeeds_def)
  have retained: "acceptable store env permission update ?retained" using others [OF Suc.prems(3)] by blast
  then obtain d' t where x: "bind_result (read_document store env ?retained) (mutation_prepare store env permission update) = Inr (d', t)"
    unfolding acceptable_def by (cases "bind_result (read_document store env ?retained) (mutation_prepare store env permission update)") auto
  show ?case
  proof (cases "publication_conflict ?retained ?current")
    case None
    with ok x show ?thesis by (simp add: Let_def del: bind_result_eq_Inr)
  next
    case (Some conflict)
    then have "?current \<noteq> ?retained"
      by (metis option.distinct(1) publication_conflict_None)
    with Suc.prems obtain k where k: "3 - Suc n \<le> k" "k < 3" "\<forall>f. at_before_publish (rs_attempt store k) f = f" "k \<noteq> 2 - n"
      by blast
    then have "3 - n \<le> k" using Suc.prems(2) by arith
    with k Suc.prems(2) have "is_ok (fst (mutate_attempts store env permission update n disk2))"
      if "dd_file disk2 = ?current" for disk2
      using others [OF retained] that by (intro Suc.IH) auto
    with ok x Some show ?thesis by (simp add: Let_def del: bind_result_eq_Inr)
  qed
next
  case 0
  then show ?case by auto
qed

theorem three_attempts_suffice:
  assumes "rs_admitted store" and "\<And>k. k < 3 \<Longrightarrow> attempt_succeeds (rs_attempt store k)"
    and "acceptable store env permission update (dd_file disk)"
    and "\<And>k f. acceptable store env permission update f \<Longrightarrow>
      acceptable store env permission update (at_before_read (rs_attempt store k) f)
      \<and> acceptable store env permission update (at_before_publish (rs_attempt store k) f)"
    and "k < 3" and "\<And>f. at_before_publish (rs_attempt store k) f = f"
  shows "is_ok (fst (recovery_mutate store env permission update disk))"
  unfolding recovery_mutate_def using assms(1,3,5,6)
  by (auto intro!: mutate_attempts_succeed assms(2,4))

text \<open>
  A store whose document another process replaces by an empty one during the first two attempts, and an
  untouched store: an undisturbed mutation succeeds whenever the saved document is acceptable.
\<close>

definition contended_store :: "order_recovery_file recovery_store" where
  "contended_store = quiet_store\<lparr>rs_attempt := (\<lambda>k. quiet_attempt\<lparr>
    at_before_publish := (\<lambda>f. if k < 2 then Some (100 + k, Document (witness_orders\<lparr>of_orders := []\<rparr>)) else f)\<rparr>)\<rparr>"

theorem three_attempts_suffice_witness:
  "is_ok (fst (recovery_mutate contended_store order_envelope (Upsert OrderRow (order_identity witness_order))
     witness_update empty_disk))
   \<and> is_ok (fst (recovery_mutate quiet_store order_envelope Preserve dismiss_all saved_orders_disk))"
proof
  let ?accepts = "acceptable contended_store order_envelope (Upsert OrderRow (order_identity witness_order)) witness_update"
  have empty: "?accepts None" "?accepts (Some (j, Document (witness_orders\<lparr>of_orders := []\<rparr>)))" for j
    by (simp_all add: acceptable_def contended_store_def witness_recovery_defs)
  show "is_ok (fst (recovery_mutate contended_store order_envelope (Upsert OrderRow (order_identity witness_order))
     witness_update empty_disk))"
  proof (rule three_attempts_suffice [where k = 2])
    fix k :: nat and f
    show "attempt_succeeds (rs_attempt contended_store k)"
      by (simp add: contended_store_def attempt_succeeds_def quiet_attempt_def)
    assume "?accepts f"
    with empty(2) show "?accepts (at_before_read (rs_attempt contended_store k) f)
        \<and> ?accepts (at_before_publish (rs_attempt contended_store k) f)"
      by (simp add: contended_store_def quiet_attempt_def)
  qed (use empty(1) in \<open>simp_all add: contended_store_def quiet_store_def empty_disk_def quiet_attempt_def\<close>)
  show "is_ok (fst (recovery_mutate quiet_store order_envelope Preserve dismiss_all saved_orders_disk))"
    by (rule three_attempts_suffice [where k = 0])
      (simp_all add: attempt_succeeds_def acceptable_def dismiss_all_def saved_orders_disk_def witness_recovery_defs)
qed

end
