(* ===== verification/Path_Remap.thy ===== *)
theory Path_Remap
  imports Namespace_Model
begin

text \<open>
  Moving stored paths along with a migrated directory (\<open>remap_path\<close> of
  \<open>native-client/src/directory_migration.rs\<close>, \<open>DirectoryLocations::remap\<close> of
  \<open>runtime/storage/directory_locations.rs\<close>, and their use by \<open>UserNamespace\<close>), on Unix. A stored
  path is a string; the directory of a mapping is the list of its components below the root.
\<close>

section \<open>Components\<close>

definition path_components :: "string \<Rightarrow> path" where
  "path_components v = filter (\<lambda>c. c \<noteq> [] \<and> c \<noteq> ''.'') (split_on ''/'' v)"

definition path_is_absolute :: "string \<Rightarrow> bool" where
  "path_is_absolute v = (v \<noteq> [] \<and> hd v = CHR ''/'')"

fun intercalate :: "string \<Rightarrow> string list \<Rightarrow> string" where
  "intercalate sep [] = []"
| "intercalate sep [c] = c"
| "intercalate sep (c # d # cs) = c @ sep @ intercalate sep (d # cs)"

text \<open>\<open>destination.join(suffix).display()\<close>: joining an empty suffix leaves a trailing separator.\<close>

definition display_joined :: "path \<Rightarrow> path \<Rightarrow> string" where
  "display_joined destination suffix = concat (map (\<lambda>c. ''/'' @ c) destination) @ ''/'' @ intercalate ''/'' suffix"

definition starts_with :: "'a list \<Rightarrow> 'a list \<Rightarrow> bool" where
  "starts_with xs prefix = (take (length prefix) xs = prefix)"

definition overlaps :: "path \<Rightarrow> path \<Rightarrow> bool" where
  "overlaps p q = (starts_with p q \<or> starts_with q p)"

definition remap_path :: "path \<Rightarrow> path \<Rightarrow> string \<Rightarrow> string option" where
  "remap_path source destination v =
    (if \<not> path_is_absolute v \<or> ''..'' \<in> set (path_components v) then None
     else if \<not> starts_with (path_components v) source then None
     else Some (display_joined destination (drop (length source) (path_components v))))"

section \<open>The mappings of a namespace\<close>

definition remap_locations :: "user_namespace \<Rightarrow> (path \<times> path) list" where
  "remap_locations ns = map (\<lambda>m. (map_source m, map_target m)) (ns_mappings ns)"

fun locations_remap :: "(path \<times> path) list \<Rightarrow> string \<Rightarrow> string" where
  "locations_remap [] v = v"
| "locations_remap ((source, destination) # relocations) v =
    locations_remap relocations (case remap_path source destination v of Some w \<Rightarrow> w | None \<Rightarrow> v)"

definition namespace_remap_path :: "user_namespace \<Rightarrow> string \<Rightarrow> string" where
  "namespace_remap_path ns = locations_remap (remap_locations ns)"

definition managed_relative_path :: "user_namespace \<Rightarrow> managed_user_area \<Rightarrow> string \<Rightarrow> path option" where
  "managed_relative_path ns area v =
    (let root = namespace_path ns area in
     case remap_path root root v of
       None \<Rightarrow> None
     | Some normalized \<Rightarrow>
         if starts_with (path_components normalized) root then Some (drop (length root) (path_components normalized))
         else None)"

definition owns_path :: "user_namespace \<Rightarrow> string \<Rightarrow> bool" where
  "owns_path ns v = (\<exists>area \<in> set MANAGED_USER_AREAS. managed_relative_path ns area v \<noteq> None)"

section \<open>Facts\<close>

definition plain_component :: "string \<Rightarrow> bool" where
  "plain_component c = (c \<noteq> [] \<and> c \<noteq> ''.'' \<and> CHR ''/'' \<notin> set c)"

lemma split_on_pieces: "p \<in> set (split_on ''/'' v) \<Longrightarrow> CHR ''/'' \<notin> set p"
proof (induction v arbitrary: p)
  case (Cons c v)
  then show ?case by (fastforce split: if_splits list.splits)
qed simp

lemma path_components_plain: "list_all plain_component (path_components v)"
  by (auto simp: path_components_def plain_component_def list_all_iff dest: split_on_pieces)

lemma split_on_absent: "CHR ''/'' \<notin> set c \<Longrightarrow> split_on ''/'' c = [c]"
  by (induction c) auto

lemma split_on_append:
  "split_on ''/'' (c @ ''/'' @ rest) = split_on ''/'' c @ split_on ''/'' rest"
proof (induction c)
  case (Cons x c)
  then show ?case using split_on_nonempty [of "''/''" c] by (auto split: list.splits)
qed simp

lemma components_append: "path_components (c @ ''/'' @ rest) = path_components c @ path_components rest"
  by (simp only: path_components_def split_on_append filter_append)

lemma components_plain: "plain_component c \<Longrightarrow> path_components c = [c]"
  by (simp add: path_components_def plain_component_def split_on_absent)

lemma components_intercalate: "list_all plain_component cs \<Longrightarrow> path_components (intercalate ''/'' cs) = cs"
proof (induction "''/''" cs rule: intercalate.induct)
  case 1
  then show ?case by (simp add: path_components_def)
next
  case (2 c)
  then show ?case by (simp add: components_plain)
next
  case (3 c d cs)
  then show ?case using components_append [of c "intercalate ''/'' (d # cs)"] by (simp add: components_plain)
qed

lemma components_joined:
  assumes "list_all plain_component destination" "list_all plain_component suffix"
  shows "path_components (display_joined destination suffix) = destination @ suffix"
  using assms(1)
proof (induction destination)
  case Nil
  then show ?case
    using components_append [of "[]" "intercalate ''/'' suffix"] components_intercalate [OF assms(2)]
    by (simp add: display_joined_def path_components_def)
next
  case (Cons c destination)
  then have c: "plain_component c" and cs: "list_all plain_component destination" by simp_all
  let ?rest = "display_joined destination suffix"
  obtain tail where tail: "?rest = ''/'' @ tail"
    by (cases destination) (auto simp: display_joined_def)
  have "path_components (display_joined (c # destination) suffix) = path_components ([] @ ''/'' @ (c @ ''/'' @ tail))"
    using tail by (simp add: display_joined_def)
  also have "\<dots> = [] @ [c] @ path_components tail"
    using c by (simp only: components_append components_plain) (simp add: path_components_def)
  also have "path_components tail = path_components ?rest"
    using components_append [of "[]" tail] by (simp add: tail path_components_def)
  finally show ?case using Cons.IH [OF cs] by simp
qed

lemma remap_path_Some:
  assumes "remap_path source destination v = Some w" and "list_all plain_component destination"
  shows "path_is_absolute v" "path_components v = source @ drop (length source) (path_components v)"
    "path_components w = destination @ drop (length source) (path_components v)" "path_is_absolute w"
    "''..'' \<notin> set (path_components v)"
proof -
  let ?suffix = "drop (length source) (path_components v)"
  from assms(1) have w: "w = display_joined destination ?suffix" and s: "take (length source) (path_components v) = source"
    and v: "path_is_absolute v" "''..'' \<notin> set (path_components v)"
    by (auto simp: remap_path_def starts_with_def split: if_splits)
  have "list_all plain_component ?suffix"
    using path_components_plain [of v] by (auto simp: list_all_iff dest: in_set_dropD)
  from components_joined [OF assms(2) this] w
  show "path_components w = destination @ ?suffix" by simp
  show "path_is_absolute v" "''..'' \<notin> set (path_components v)" by (rule v)+
  show "path_components v = source @ ?suffix" using append_take_drop_id [of "length source" "path_components v"] s by simp
  show "path_is_absolute w" by (cases destination) (auto simp: w display_joined_def path_is_absolute_def)
qed

text \<open>
  Moving a directory and moving it back restores every stored path, up to the spelling of its
  separators: the remapped path lies in the destination under the same relative name, and mapping
  it back gives a path with the components it had.
\<close>

theorem remap_path_roundtrip:
  assumes "remap_path source destination v = Some w"
    and "list_all plain_component destination" and "''..'' \<notin> set destination"
    and "list_all plain_component source"
  shows "path_components w = destination @ drop (length source) (path_components v)
    \<and> (\<exists>u. remap_path destination source w = Some u \<and> path_components u = path_components v)"
proof -
  note there = remap_path_Some [OF assms(1,2)]
  let ?suffix = "drop (length source) (path_components v)"
  have "''..'' \<notin> set (path_components w)" using there(3,5) assms(3) by (auto dest: in_set_dropD)
  with there have inv: "remap_path destination source w = Some (display_joined source ?suffix)"
    by (simp add: remap_path_def starts_with_def)
  from remap_path_Some(3) [OF inv assms(4)] there have "path_components (display_joined source ?suffix) = path_components v"
    by simp
  with inv there(3) show ?thesis by blast
qed

theorem remap_path_roundtrip_witness:
  "remap_path [''old''] [''new'', ''dir''] ''/old//a.png'' = Some ''/new/dir/a.png''
   \<and> path_components ''/new/dir/a.png'' = [''new'', ''dir''] @ drop (length [''old'']) (path_components ''/old//a.png'')"
proof -
  have "remap_path [''old''] [''new'', ''dir''] ''/old//a.png'' = Some ''/new/dir/a.png''"
    by (simp add: remap_path_def path_components_def path_is_absolute_def starts_with_def display_joined_def)
  moreover from remap_path_roundtrip [OF this]
  have "path_components ''/new/dir/a.png'' = [''new'', ''dir''] @ drop (length [''old'']) (path_components ''/old//a.png'')"
    by (simp add: plain_component_def)
  ultimately show ?thesis by blast
qed

end
