(* ===== verification/Recovery_Operations.thy ===== *)
theory Recovery_Operations
  imports Recovery_Mutation Path_Remap
begin

text \<open>
  The operations on the recovery documents that the rest of the client calls
  (\<open>native-client/src/runtime/storage/recovery.rs\<close>). Each checks the authority of the caller, then runs one
  mutation; the result \<open>False\<close> says that there was no such row.
\<close>

section \<open>Updates of one row\<close>

type_synonym ('d, 't) store_result = "(recovery_failure + 't) \<times> 'd document_disk"

definition when_ok :: "recovery_failure + unit \<Rightarrow> ('d document_disk \<Rightarrow> ('d, 't) store_result) \<Rightarrow> 'd document_disk \<Rightarrow> ('d, 't) store_result" where
  "when_ok required operation disk = (case required of Inl e \<Rightarrow> (Inl e, disk) | Inr _ \<Rightarrow> operation disk)"

text \<open>How a document holds the rows of one kind.\<close>

record ('d, 'r) row_field =
  fd_kind :: row_kind
  fd_identity :: "'r \<Rightarrow> recovery_identity"
  fd_rebind :: "u64 \<Rightarrow> 'r \<Rightarrow> 'r"
  fd_rows :: "'d \<Rightarrow> 'r list"
  fd_set_rows :: "'r list \<Rightarrow> 'd \<Rightarrow> 'd"

definition generation_field :: "(recovery_file, pending_generation) row_field" where
  "generation_field = \<lparr>fd_kind = GenerationRow, fd_identity = generation_identity, fd_rebind = rebind_generation,
    fd_rows = rf_generations, fd_set_rows = (\<lambda>rows d. d\<lparr>rf_generations := rows\<rparr>)\<rparr>"

definition prompt_field :: "(prompt_recovery_file, pending_prompt_task) row_field" where
  "prompt_field = \<lparr>fd_kind = PromptRow, fd_identity = prompt_identity, fd_rebind = rebind_prompt,
    fd_rows = pf_prompt_tasks, fd_set_rows = (\<lambda>rows d. d\<lparr>pf_prompt_tasks := rows\<rparr>)\<rparr>"

definition optimization_field :: "(prompt_recovery_file, pending_optimization) row_field" where
  "optimization_field = \<lparr>fd_kind = DeepRow, fd_identity = optimization_identity, fd_rebind = rebind_optimization,
    fd_rows = pf_deep_optimizations, fd_set_rows = (\<lambda>rows d. d\<lparr>pf_deep_optimizations := rows\<rparr>)\<rparr>"

definition order_field :: "(order_recovery_file, pending_order) row_field" where
  "order_field = \<lparr>fd_kind = OrderRow, fd_identity = order_identity, fd_rebind = rebind_order,
    fd_rows = of_orders, fd_set_rows = (\<lambda>rows d. d\<lparr>of_orders := rows\<rparr>)\<rparr>"

definition upsert_in :: "('d, 'r) row_field \<Rightarrow> 'r \<Rightarrow> 'd \<Rightarrow> recovery_failure + 'd \<times> unit" where
  "upsert_in field record d =
    bind_result (upsert_row (fd_identity field) (fd_rows field d) record) (\<lambda>rows. Inr (fd_set_rows field rows d, ()))"

text \<open>
  \<open>change_row\<close>: find the exact row; the change returns the new row, or \<open>None\<close> inside to remove it;
  \<open>None\<close> outside leaves the document alone.
\<close>

definition change_row ::
  "('d, 'r) row_field \<Rightarrow> recovery_identity \<Rightarrow> ('r \<Rightarrow> recovery_failure + 'r option option) \<Rightarrow> 'd
    \<Rightarrow> recovery_failure + 'd \<times> bool" where
  "change_row field expected change d =
    (case exact_index (fd_identity field) (fd_rows field d) expected of
       None \<Rightarrow> Inr (d, False)
     | Some i \<Rightarrow>
         (case change (fd_rows field d ! i) of
            Inl e \<Rightarrow> Inl e
          | Inr None \<Rightarrow> Inr (d, False)
          | Inr (Some None) \<Rightarrow> Inr (fd_set_rows field (remove_at i (fd_rows field d)) d, True)
          | Inr (Some (Some r)) \<Rightarrow> Inr (fd_set_rows field ((fd_rows field d)[i := r]) d, True)))"

abbreviation keep_row :: "'r \<Rightarrow> recovery_failure + 'r option option" where
  "keep_row r \<equiv> Inr (Some (Some r))"

abbreviation drop_row :: "recovery_failure + 'r option option" where
  "drop_row \<equiv> Inr (Some None)"

section \<open>Upsert, remove, rebind\<close>

abbreviation authority_of :: "'d recovery_store \<Rightarrow> bool \<Rightarrow> recovery_identity \<Rightarrow> recovery_failure + unit" where
  "authority_of store current_epoch i \<equiv> require_authority (rs_parse_uuid store) (rs_lease store) current_epoch i"

definition upsert_record ::
  "('d, 'r) row_field \<Rightarrow> 'd recovery_envelope \<Rightarrow> 'd recovery_store \<Rightarrow> billing_scope \<Rightarrow> 'r \<Rightarrow> 'd document_disk \<Rightarrow> ('d, unit) store_result" where
  "upsert_record field env store scope record =
    when_ok (require_scope (rs_parse_uuid store) (rs_lease store) scope (fd_identity field record))
      (recovery_mutate store env (Upsert (fd_kind field) (fd_identity field record)) (upsert_in field record))"

definition remove_record ::
  "('d, 'r) row_field \<Rightarrow> 'd recovery_envelope \<Rightarrow> 'd recovery_store \<Rightarrow> recovery_identity \<Rightarrow> 'd document_disk \<Rightarrow> ('d, bool) store_result" where
  "remove_record field env store expected =
    when_ok (authority_of store True expected)
      (recovery_mutate store env (Remove (fd_kind field) expected) (change_row field expected (\<lambda>_. drop_row)))"

definition rebind_record ::
  "('d, 'r) row_field \<Rightarrow> 'd recovery_envelope \<Rightarrow> 'd recovery_store \<Rightarrow> recovery_identity \<Rightarrow> u64 \<Rightarrow> 'd document_disk \<Rightarrow> ('d, bool) store_result" where
  "rebind_record field env store expected new_auth_epoch =
    when_ok (bind_result (authority_of store False expected)
        (\<lambda>_. ensure (new_auth_epoch = lease_auth_epoch (rs_lease store)) (Recovery ScopeMismatch)))
      (recovery_mutate store env (Rebind (fd_kind field) expected new_auth_epoch)
        (change_row field expected (\<lambda>r. keep_row (fd_rebind field new_auth_epoch r))))"

definition upsert_pending_generation ::
  "recovery_file recovery_store \<Rightarrow> billing_scope \<Rightarrow> pending_generation \<Rightarrow> recovery_file document_disk \<Rightarrow> (recovery_file, unit) store_result" where
  "upsert_pending_generation = upsert_record generation_field generation_envelope"

definition remove_pending_generation ::
  "recovery_file recovery_store \<Rightarrow> recovery_identity \<Rightarrow> recovery_file document_disk \<Rightarrow> (recovery_file, bool) store_result" where
  "remove_pending_generation = remove_record generation_field generation_envelope"

definition rebind_pending_generation_epoch ::
  "recovery_file recovery_store \<Rightarrow> recovery_identity \<Rightarrow> u64 \<Rightarrow> recovery_file document_disk \<Rightarrow> (recovery_file, bool) store_result" where
  "rebind_pending_generation_epoch = rebind_record generation_field generation_envelope"

definition upsert_pending_prompt_task ::
  "prompt_recovery_file recovery_store \<Rightarrow> billing_scope \<Rightarrow> pending_prompt_task \<Rightarrow> prompt_recovery_file document_disk
    \<Rightarrow> (prompt_recovery_file, unit) store_result" where
  "upsert_pending_prompt_task = upsert_record prompt_field prompt_envelope"

definition remove_pending_prompt_task ::
  "prompt_recovery_file recovery_store \<Rightarrow> recovery_identity \<Rightarrow> prompt_recovery_file document_disk \<Rightarrow> (prompt_recovery_file, bool) store_result" where
  "remove_pending_prompt_task = remove_record prompt_field prompt_envelope"

definition rebind_pending_prompt_task_epoch ::
  "prompt_recovery_file recovery_store \<Rightarrow> recovery_identity \<Rightarrow> u64 \<Rightarrow> prompt_recovery_file document_disk \<Rightarrow> (prompt_recovery_file, bool) store_result" where
  "rebind_pending_prompt_task_epoch = rebind_record prompt_field prompt_envelope"

definition upsert_pending_order ::
  "order_recovery_file recovery_store \<Rightarrow> billing_scope \<Rightarrow> pending_order \<Rightarrow> order_recovery_file document_disk \<Rightarrow> (order_recovery_file, unit) store_result" where
  "upsert_pending_order = upsert_record order_field order_envelope"

definition remove_pending_order ::
  "order_recovery_file recovery_store \<Rightarrow> recovery_identity \<Rightarrow> order_recovery_file document_disk \<Rightarrow> (order_recovery_file, bool) store_result" where
  "remove_pending_order = remove_record order_field order_envelope"

definition rebind_pending_order_epoch ::
  "order_recovery_file recovery_store \<Rightarrow> recovery_identity \<Rightarrow> u64 \<Rightarrow> order_recovery_file document_disk \<Rightarrow> (order_recovery_file, bool) store_result" where
  "rebind_pending_order_epoch = rebind_record order_field order_envelope"

definition remove_pending_prompt_optimization ::
  "prompt_recovery_file recovery_store \<Rightarrow> recovery_identity \<Rightarrow> prompt_recovery_file document_disk \<Rightarrow> (prompt_recovery_file, bool) store_result" where
  "remove_pending_prompt_optimization = remove_record optimization_field prompt_envelope"

definition rebind_pending_prompt_optimization_epoch ::
  "prompt_recovery_file recovery_store \<Rightarrow> recovery_identity \<Rightarrow> u64 \<Rightarrow> prompt_recovery_file document_disk \<Rightarrow> (prompt_recovery_file, bool) store_result" where
  "rebind_pending_prompt_optimization_epoch = rebind_record optimization_field prompt_envelope"

text \<open>A saved optimization keeps its operation and job, and stays dismissed.\<close>

definition optimization_compatible :: "pending_optimization \<Rightarrow> pending_optimization \<Rightarrow> bool" where
  "optimization_compatible saved record =
    (op_operation saved = op_operation record \<and> op_server_job_id saved = op_server_job_id record
     \<and> \<not> (op_presentation_dismissed saved \<and> \<not> op_presentation_dismissed record))"

definition upsert_pending_prompt_optimization ::
  "prompt_recovery_file recovery_store \<Rightarrow> billing_scope \<Rightarrow> pending_optimization \<Rightarrow> prompt_recovery_file document_disk
    \<Rightarrow> (prompt_recovery_file, unit) store_result" where
  "upsert_pending_prompt_optimization store scope record =
    when_ok (require_scope (rs_parse_uuid store) (rs_lease store) scope (optimization_identity record))
      (recovery_mutate store prompt_envelope (Upsert DeepRow (optimization_identity record))
        (\<lambda>d. case List.find (\<lambda>saved. op_client_request_id saved = op_client_request_id record) (pf_deep_optimizations d) of
            Some saved \<Rightarrow> if optimization_compatible saved record then upsert_in optimization_field record d
                          else Inl (Recovery IdentityChanged)
          | None \<Rightarrow> upsert_in optimization_field record d))"

section \<open>Generations\<close>

definition retire_completed_generation ::
  "recovery_file recovery_store \<Rightarrow> recovery_identity \<Rightarrow> recovery_file document_disk \<Rightarrow> (recovery_file, bool) store_result" where
  "retire_completed_generation store expected =
    when_ok (authority_of store False expected)
      (recovery_mutate store generation_envelope (Remove GenerationRow expected)
        (change_row generation_field expected (\<lambda>r. if generation_record_complete r then drop_row else Inr None)))"

definition apply_generation_patch ::
  "recovery_file recovery_store \<Rightarrow> recovery_identity \<Rightarrow> generation_patch \<Rightarrow> recovery_file document_disk \<Rightarrow> (recovery_file, bool) store_result" where
  "apply_generation_patch store expected patch =
    when_ok (authority_of store True expected)
      (recovery_mutate store generation_envelope
        (if is_terminal_patch patch then Remove GenerationRow expected else Preserve)
        (change_row generation_field expected (\<lambda>r. bind_result (patch_generation patch r)
          (\<lambda>r'. if is_terminal_patch patch \<and> generation_record_complete r' then drop_row else keep_row r'))))"

definition save_delivery ::
  "recovery_file recovery_store \<Rightarrow> recovery_identity \<Rightarrow> delivery_confirmation \<Rightarrow> string \<Rightarrow> bool \<Rightarrow> recovery_file document_disk
    \<Rightarrow> (recovery_file, bool) store_result" where
  "save_delivery store expected delivery v failed =
    when_ok (authority_of store True expected)
      (recovery_mutate store generation_envelope Preserve
        (change_row generation_field expected (\<lambda>r. bind_result (record_save_delivery delivery v failed r) keep_row)))"

definition pending_delivery_saved ::
  "recovery_file recovery_store \<Rightarrow> recovery_identity \<Rightarrow> delivery_confirmation \<Rightarrow> string \<Rightarrow> recovery_file document_disk
    \<Rightarrow> (recovery_file, bool) store_result" where
  "pending_delivery_saved store expected delivery local_path = save_delivery store expected delivery local_path False"

definition pending_delivery_failed ::
  "recovery_file recovery_store \<Rightarrow> recovery_identity \<Rightarrow> delivery_confirmation \<Rightarrow> string \<Rightarrow> recovery_file document_disk
    \<Rightarrow> (recovery_file, bool) store_result" where
  "pending_delivery_failed store expected delivery failed_asset_id = save_delivery store expected delivery failed_asset_id True"

definition keep_unless_complete :: "pending_generation \<Rightarrow> recovery_failure + pending_generation option option" where
  "keep_unless_complete r = (if generation_record_complete r then drop_row else keep_row r)"

definition settle_delivery ::
  "recovery_file recovery_store \<Rightarrow> recovery_identity \<Rightarrow> string \<Rightarrow> bool \<Rightarrow> recovery_file document_disk \<Rightarrow> (recovery_file, bool) store_result" where
  "settle_delivery store expected v abandon =
    when_ok (authority_of store True expected)
      (recovery_mutate store generation_envelope (Remove GenerationRow expected)
        (change_row generation_field expected (\<lambda>r. bind_result (record_settle_delivery v abandon r)
          (\<lambda>settled. case settled of None \<Rightarrow> Inr None | Some r' \<Rightarrow> keep_unless_complete r'))))"

definition pending_delivery_acknowledged ::
  "recovery_file recovery_store \<Rightarrow> recovery_identity \<Rightarrow> string \<Rightarrow> recovery_file document_disk \<Rightarrow> (recovery_file, bool) store_result" where
  "pending_delivery_acknowledged store expected file_id = settle_delivery store expected file_id False"

definition abandon_pending_delivery ::
  "recovery_file recovery_store \<Rightarrow> recovery_identity \<Rightarrow> string \<Rightarrow> recovery_file document_disk \<Rightarrow> (recovery_file, bool) store_result" where
  "abandon_pending_delivery store expected failed_asset_id = settle_delivery store expected failed_asset_id True"

text \<open>
  The settlement of a cutout, whose receipt carries the record as it was delivered. Everything but
  deliveries and terminal state must be unchanged, up to the remapping of paths.
\<close>

record cutout_receipt =
  cr_record :: pending_generation
  cr_confirmation :: delivery_confirmation
  cr_remote_path :: string

definition cutout_provenance :: "cutout_receipt \<Rightarrow> bool" where
  "cutout_provenance receipt =
    (let original = cr_record receipt; confirmation = cr_confirmation receipt in
     pg_task_type original = ''image_cutout'' \<and> pg_count original = 1
     \<and> length (pg_reference_paths original) = 1 \<and> length (pg_reference_sha256 original) = 1
     \<and> length (pg_reference_size_bytes original) = 1
     \<and> dc_client_request_id confirmation = pg_client_request_id original
     \<and> dc_task_id confirmation = pg_server_task_id original \<and> dc_item_index confirmation = 0)"

definition cutout_stable :: "user_namespace \<Rightarrow> pending_generation \<Rightarrow> pending_generation" where
  "cutout_stable ns r = r\<lparr>pg_deliveries := [], pg_terminal := False, pg_expected_success_count := 0,
    pg_reference_paths := map (namespace_remap_path ns) (pg_reference_paths r),
    pg_lineage_reference_paths := map (namespace_remap_path ns) (pg_lineage_reference_paths r)\<rparr>"

definition cutout_delivery_matches :: "cutout_receipt \<Rightarrow> pending_delivery \<Rightarrow> bool" where
  "cutout_delivery_matches receipt d =
    (let c = cr_confirmation receipt in
     pd_file_id d = dc_file_id c \<and> pd_item_index d = dc_item_index c \<and> pd_sha256 d = dc_sha256 c
     \<and> pd_size_bytes d = dc_size_bytes c \<and> pd_local_path d = cr_remote_path receipt \<and> \<not> pd_abandoned d
     \<and> \<not> pd_acknowledged d \<and> pd_failed_asset_id d = [] \<and> dc_failed_asset_id c = None)"

definition settle_cutout_record ::
  "user_namespace \<Rightarrow> cutout_receipt \<Rightarrow> pending_generation \<Rightarrow> recovery_failure + pending_generation option option" where
  "settle_cutout_record ns receipt r =
    (if \<not> (cutout_stable ns r = cutout_stable ns (cr_record receipt) \<and> pg_terminal r
           \<and> pg_expected_success_count r = 1 \<and> length (pg_deliveries r) = 1)
     then Inl (Refused ''cutout acknowledgement retained body or terminal state changed'')
     else case delivery_index (\<lambda>d. pd_file_id d = dc_file_id (cr_confirmation receipt)
                \<or> pd_item_index d = dc_item_index (cr_confirmation receipt)) r of
       Inl e \<Rightarrow> Inl e
     | Inr None \<Rightarrow> Inr None
     | Inr (Some i) \<Rightarrow>
         if \<not> cutout_delivery_matches receipt (pg_deliveries r ! i)
         then Inl (Refused ''cutout acknowledgement original remote confirmation changed'')
         else keep_unless_complete
           (release_reference_inputs (update_delivery i (\<lambda>d. d\<lparr>pd_acknowledged := True\<rparr>) r)))"

definition settle_acknowledged_cutout_delivery ::
  "recovery_file recovery_store \<Rightarrow> cutout_receipt \<Rightarrow> recovery_file document_disk \<Rightarrow> (recovery_file, bool) store_result" where
  "settle_acknowledged_cutout_delivery store receipt =
    (let expected = generation_identity (cr_record receipt) in
     when_ok (bind_result (authority_of store True expected)
         (\<lambda>_. ensure (cutout_provenance receipt) (Refused ''cutout acknowledgement provenance is incomplete'')))
       (recovery_mutate store generation_envelope (Remove GenerationRow expected)
         (change_row generation_field expected (settle_cutout_record (lease_namespace (rs_lease store)) receipt))))"

section \<open>Prompt tasks, orders, optimizations\<close>

definition apply_prompt_task_patch ::
  "prompt_recovery_file recovery_store \<Rightarrow> recovery_identity \<Rightarrow> prompt_patch \<Rightarrow> prompt_recovery_file document_disk
    \<Rightarrow> (prompt_recovery_file, bool) store_result" where
  "apply_prompt_task_patch store expected patch =
    when_ok (authority_of store True expected)
      (recovery_mutate store prompt_envelope Preserve
        (change_row prompt_field expected (\<lambda>r. bind_result (patch_prompt_task patch r) keep_row)))"

definition dismiss_pending_order ::
  "order_recovery_file recovery_store \<Rightarrow> recovery_identity \<Rightarrow> order_recovery_file document_disk \<Rightarrow> (order_recovery_file, bool) store_result" where
  "dismiss_pending_order store expected =
    when_ok (authority_of store False expected)
      (recovery_mutate store order_envelope Preserve
        (change_row order_field expected (\<lambda>r. keep_row (r\<lparr>po_presentation_dismissed := True\<rparr>))))"

definition update_pending_order_id ::
  "order_recovery_file recovery_store \<Rightarrow> recovery_identity \<Rightarrow> string \<Rightarrow> order_recovery_file document_disk \<Rightarrow> (order_recovery_file, bool) store_result" where
  "update_pending_order_id store expected v =
    when_ok (bind_result (authority_of store True expected) (\<lambda>_. ensure (\<not> is_blank v) (Recovery InvalidDocument)))
      (recovery_mutate store order_envelope Preserve
        (change_row order_field expected (\<lambda>r. keep_row (r\<lparr>po_order_id := v\<rparr>))))"

definition update_pending_order_quote_id ::
  "order_recovery_file recovery_store \<Rightarrow> recovery_identity \<Rightarrow> string \<Rightarrow> order_recovery_file document_disk \<Rightarrow> (order_recovery_file, bool) store_result" where
  "update_pending_order_quote_id store expected v =
    when_ok (bind_result (authority_of store True expected) (\<lambda>_. ensure (\<not> is_blank v) (Recovery InvalidDocument)))
      (recovery_mutate store order_envelope Preserve
        (change_row order_field expected (\<lambda>r. keep_row (r\<lparr>po_upgrade_quote_id := v\<rparr>))))"

definition update_pending_prompt_optimization_job_id ::
  "prompt_recovery_file recovery_store \<Rightarrow> recovery_identity \<Rightarrow> string \<Rightarrow> prompt_recovery_file document_disk
    \<Rightarrow> (prompt_recovery_file, bool) store_result" where
  "update_pending_prompt_optimization_job_id store expected v =
    when_ok (bind_result (authority_of store True expected)
        (\<lambda>_. ensure (\<not> is_blank v \<and> canonical_uuid (rs_parse_uuid store) v) (Recovery InvalidDocument)))
      (recovery_mutate store prompt_envelope Preserve
        (change_row optimization_field expected (\<lambda>r. keep_row (r\<lparr>op_server_job_id := v\<rparr>))))"

text \<open>
  Dismissing the presentation of a job: a first look answers without writing when there is nothing
  to do; the document is read again by the mutation.
\<close>

definition mark_presentation_dismissed ::
  "prompt_recovery_file recovery_store \<Rightarrow> recovery_identity \<Rightarrow> string \<Rightarrow> prompt_recovery_file document_disk
    \<Rightarrow> (prompt_recovery_file, bool) store_result" where
  "mark_presentation_dismissed store expected job =
    when_ok (bind_result (authority_of store False expected)
        (\<lambda>_. bind_result (ensure (canonical_uuid (rs_parse_uuid store) job)
               (Refused ''dismissal requires an exact canonical job''))
          (\<lambda>_. ensure (rs_admitted store) (Refused ''storage namespace has been replaced''))))
      (\<lambda>disk. case recovery_load store prompt_envelope disk of
           Inl e \<Rightarrow> (Inl e, disk)
         | Inr retained \<Rightarrow>
             (case exact_index optimization_identity (pf_deep_optimizations retained) expected of
                None \<Rightarrow> (Inr False, disk)
              | Some i \<Rightarrow>
                  (let row = pf_deep_optimizations retained ! i in
                   if op_server_job_id row \<noteq> job then (Inr False, disk)
                   else if op_presentation_dismissed row then (Inr True, disk)
                   else recovery_mutate store prompt_envelope Preserve
                     (change_row optimization_field expected (\<lambda>r.
                        if op_server_job_id r \<noteq> job then Inr None
                        else keep_row (r\<lparr>op_presentation_dismissed := True\<rparr>))) disk)))"

section \<open>Loads\<close>

definition load_pending_generations ::
  "recovery_file recovery_store \<Rightarrow> recovery_file document_disk \<Rightarrow> recovery_failure + pending_generation list" where
  "load_pending_generations store disk =
    (let remap = namespace_remap_path (lease_namespace (rs_lease store)) in
     bind_result (recovery_load store generation_envelope disk)
      (\<lambda>d. Inr (map (\<lambda>r. r\<lparr>pg_reference_paths := map remap (pg_reference_paths r),
          pg_lineage_reference_paths := map remap (pg_lineage_reference_paths r),
          pg_video_preview_path := remap (pg_video_preview_path r)\<rparr>) (rf_generations d))))"

definition load_pending_prompt_tasks ::
  "prompt_recovery_file recovery_store \<Rightarrow> prompt_recovery_file document_disk \<Rightarrow> recovery_failure + pending_prompt_task list" where
  "load_pending_prompt_tasks store disk =
    (let remap = namespace_remap_path (lease_namespace (rs_lease store)) in
     bind_result (recovery_load store prompt_envelope disk)
      (\<lambda>d. Inr (map (\<lambda>r. r\<lparr>pt_reference_paths := map remap (pt_reference_paths r)\<rparr>) (pf_prompt_tasks d))))"

definition load_pending_prompt_optimizations ::
  "prompt_recovery_file recovery_store \<Rightarrow> prompt_recovery_file document_disk \<Rightarrow> recovery_failure + pending_optimization list" where
  "load_pending_prompt_optimizations store disk =
    bind_result (recovery_load store prompt_envelope disk) (\<lambda>d. Inr (pf_deep_optimizations d))"

definition load_pending_orders ::
  "order_recovery_file recovery_store \<Rightarrow> order_recovery_file document_disk \<Rightarrow> recovery_failure + pending_order list" where
  "load_pending_orders store disk = bind_result (recovery_load store order_envelope disk) (\<lambda>d. Inr (of_orders d))"

definition recoverable_delivery_for_failed_asset ::
  "recovery_file recovery_store \<Rightarrow> string \<Rightarrow> recovery_file document_disk
    \<Rightarrow> recovery_failure + (pending_generation \<times> pending_delivery) option" where
  "recoverable_delivery_for_failed_asset store failed_asset_id disk =
    bind_result (load_pending_generations store disk)
      (\<lambda>records. Inr (recoverable_delivery records (lease_auth_epoch (rs_lease store)) failed_asset_id))"

definition recoverable_failed_asset_ids ::
  "recovery_file recovery_store \<Rightarrow> recovery_file document_disk \<Rightarrow> recovery_failure + string set" where
  "recoverable_failed_asset_ids store disk =
    bind_result (load_pending_generations store disk)
      (\<lambda>records. Inr (set (filter (\<lambda>i. recoverable_delivery records (lease_auth_epoch (rs_lease store)) i \<noteq> None)
        (map pd_failed_asset_id (concat (map pg_deliveries records))))))"

definition generation_file_references :: "pending_generation \<Rightarrow> (string \<times> string \<times> string) list" where
  "generation_file_references r =
    map (\<lambda>p. (''pending-generation'', pg_client_request_id r, p)) (pg_reference_paths r @ pg_lineage_reference_paths r)
    @ (if is_blank (pg_video_preview_path r) then []
       else [(''pending-generation'', pg_client_request_id r, pg_video_preview_path r)])
    @ map (\<lambda>d. (''pending-delivery'', pg_client_request_id r, pd_local_path d))
        (filter (\<lambda>d. \<not> is_blank (pd_local_path d)) (pg_deliveries r))"

definition pending_recovery_file_references ::
  "recovery_file recovery_store \<Rightarrow> prompt_recovery_file recovery_store \<Rightarrow> recovery_file document_disk \<Rightarrow> prompt_recovery_file document_disk
    \<Rightarrow> recovery_failure + (string \<times> string \<times> string) list" where
  "pending_recovery_file_references generation_store prompt_store generation_disk prompt_disk =
    bind_result (load_pending_generations generation_store generation_disk) (\<lambda>generations.
    bind_result (load_pending_prompt_tasks prompt_store prompt_disk) (\<lambda>prompts.
    Inr (concat (map generation_file_references generations)
      @ concat (map (\<lambda>r. map (\<lambda>p. (''pending-prompt-task'', pt_client_request_id r, p)) (pt_reference_paths r)) prompts))))"

end
