(* ===== verification/Recovery_Properties.thy ===== *)
theory Recovery_Properties
  imports Recovery_Operations
begin

text \<open>
  What the operations on the recovery documents promise their callers: a saved request is read back
  unchanged, a fresh one is never refused, a generation disappears only when all of its deliveries are
  settled, and a cancelled generation is not submitted again.
\<close>

section \<open>What a change of one row makes of the document\<close>

lemma change_row_cases:
  assumes "change_row field expected change d = Inr (d', t)"
  obtains (absent) "\<not> t" "d' = d"
    | (removed) i where "t" "exact_index (fd_identity field) (fd_rows field d) expected = Some i"
        "change (fd_rows field d ! i) = drop_row" "d' = fd_set_rows field (remove_at i (fd_rows field d)) d"
    | (changed) i r where "t" "exact_index (fd_identity field) (fd_rows field d) expected = Some i"
        "change (fd_rows field d ! i) = keep_row r" "d' = fd_set_rows field ((fd_rows field d)[i := r]) d"
proof (cases "exact_index (fd_identity field) (fd_rows field d) expected")
  case None
  with assms show ?thesis by (intro absent) (simp_all add: change_row_def)
next
  case (Some i)
  show ?thesis
  proof (cases "change (fd_rows field d ! i)")
    case (Inl e)
    with assms Some show ?thesis by (simp add: change_row_def)
  next
    case (Inr x)
    show ?thesis
    proof (cases x)
      case None
      with assms Some Inr show ?thesis by (intro absent) (simp_all add: change_row_def)
    next
      case (Some y)
      show ?thesis
      proof (cases y)
        case None
        with assms \<open>exact_index _ _ _ = Some i\<close> Inr Some show ?thesis
          by (intro removed [of i]) (simp_all add: change_row_def)
      next
        case (Some r)
        with assms \<open>exact_index _ _ _ = Some i\<close> Inr \<open>x = Some y\<close> show ?thesis
          by (intro changed [of i r]) (simp_all add: change_row_def)
      qed
    qed
  qed
qed

section \<open>The rows of one kind within a document\<close>

text \<open>
  A field of a document holds the rows of one kind: setting it leaves the rows of other kinds, before
  and behind, alone.
\<close>

locale document_rows = recovery_document env + recovery_row "fd_identity field" "fd_rebind field"
  for env :: "'d recovery_envelope" and field :: "('d, 'r) row_field" +
  fixes front :: "'d \<Rightarrow> identities" and rear :: "'d \<Rightarrow> identities"
  assumes identities_split: "identities_of env d =
      front d @ map (\<lambda>r. (fd_kind field, fd_identity field r)) (fd_rows field d) @ rear d"
    and rows_set: "fd_rows field (fd_set_rows field rows d) = rows"
    and front_set: "front (fd_set_rows field rows d) = front d"
    and rear_set: "rear (fd_set_rows field rows d) = rear d"
    and front_kinds: "x \<in> set (front d) \<Longrightarrow> fst x \<le> fd_kind field"
    and rear_kinds: "x \<in> set (rear d) \<Longrightarrow> \<not> fst x \<le> fd_kind field"
begin

lemma row_identity_in: "r \<in> set (fd_rows field d) \<Longrightarrow> (fd_kind field, fd_identity field r) \<in> set (identities_of env d)"
  by (simp add: identities_split)

lemma partition_at_kind:
  "partition_point (\<lambda>saved. fst saved \<le> fd_kind field) (identities_of env d) = length (front d) + length (fd_rows field d)"
proof -
  let ?P = "\<lambda>saved :: row_kind \<times> recovery_identity. fst saved \<le> fd_kind field"
  let ?mid = "map (\<lambda>r. (fd_kind field, fd_identity field r)) (fd_rows field d)"
  have "takeWhile ?P (rear d) = []"
  proof (cases "rear d")
    case (Cons x xs)
    with rear_kinds [of x d] show ?thesis by simp
  qed simp
  moreover have "\<forall>x \<in> set (front d @ ?mid). ?P x" using front_kinds by auto
  ultimately have "takeWhile ?P ((front d @ ?mid) @ rear d) = front d @ ?mid"
    by (simp only: takeWhile_append2 append_Nil2)
  then show ?thesis by (simp add: partition_point_def identities_split)
qed

text \<open>A new row is where the check of the identities expects it.\<close>

lemma appended_row_expected:
  assumes "\<And>x. x \<in> set (identities_of env d) \<Longrightarrow> ri_client_request_id (snd x) \<noteq> ri_client_request_id (fd_identity field record)"
  shows "expected_identities (identities_of env d) (Upsert (fd_kind field) (fd_identity field record))
    = Inr (identities_of env (fd_set_rows field (fd_rows field d @ [record]) d))"
proof -
  let ?mid = "map (\<lambda>r. (fd_kind field, fd_identity field r)) (fd_rows field d)"
  let ?new = "(fd_kind field, fd_identity field record)"
  have "insert_at (length (front d @ ?mid)) ?new ((front d @ ?mid) @ rear d) = (front d @ ?mid) @ ?new # rear d"
    by (simp only: insert_at_def append_eq_conv_conj take_append drop_append) simp
  then have "insert_at (partition_point (\<lambda>saved. fst saved \<le> fd_kind field) (identities_of env d)) ?new (identities_of env d)
    = identities_of env (fd_set_rows field (fd_rows field d @ [record]) d)"
    by (simp only: partition_at_kind) (simp add: identities_split rows_set front_set rear_set)
  with assms show ?thesis by (auto simp: expected_identities_def)
qed

abbreviation row_key :: "'r \<Rightarrow> string" where
  "row_key r \<equiv> ri_client_request_id (fd_identity field r)"

lemma upsert_in_rows:
  assumes "upsert_in field record d = Inr (d', u)"
  shows "\<exists>rows. d' = fd_set_rows field rows d \<and> record \<in> set rows
    \<and> filter (\<lambda>r. row_key r \<noteq> row_key record) rows = filter (\<lambda>r. row_key r \<noteq> row_key record) (fd_rows field d)"
proof -
  from assms obtain rows where rows: "upsert_row (fd_identity field) (fd_rows field d) record = Inr rows"
    "d' = fd_set_rows field rows d" by (auto simp: upsert_in_def)
  from rows(1) show ?thesis
  proof (cases rule: upsert_row_cases)
    case (replaced i)
    with rows(2) show ?thesis by (auto intro: set_update_memI simp: filter_update_other)
  next
    case added
    with rows(2) show ?thesis by auto
  qed
qed

text \<open>A change of one row keeps every other row.\<close>

lemma change_row_keeps:
  assumes "change_row field expected change d = Inr (d', t)" and "r \<in> set (fd_rows field d)"
    and "fd_identity field r \<noteq> expected"
  shows "r \<in> set (fd_rows field d')"
  using assms(1)
proof (cases rule: change_row_cases)
  case absent
  with assms(2) show ?thesis by simp
next
  case (removed i)
  obtain j where j: "j < length (fd_rows field d)" "fd_rows field d ! j = r"
    using assms(2) by (auto simp: in_set_conv_nth)
  with exact_index_Some(2) [OF removed(2)] assms(3) have "j \<noteq> i" by auto
  with in_set_remove_at [OF j(1)] j(2) removed(4) show ?thesis by (simp add: rows_set)
next
  case (changed i r')
  obtain j where j: "j < length (fd_rows field d)" "fd_rows field d ! j = r"
    using assms(2) by (auto simp: in_set_conv_nth)
  with exact_index_Some(2) [OF changed(2)] assms(3) have "j \<noteq> i" by auto
  with j have "(fd_rows field d)[i := r'] ! j = r" by simp
  with j(1) nth_mem [of j "(fd_rows field d)[i := r']"] changed(4) show ?thesis by (simp add: rows_set)
qed

text \<open>What a successful upsert leaves on disk.\<close>

lemma upsert_record_loads:
  assumes "upsert_record field env store scope record disk = (Inr (), disk')" and "\<not> at_read_fails (rs_attempt store 0)"
    and "replaces_files store"
  shows "\<exists>replaced old d. require_scope (rs_parse_uuid store) (rs_lease store) scope (fd_identity field record) = Inr ()
    \<and> dd_published disk' = (replaced, d) # dd_published disk
    \<and> read_document store env replaced = Inr old \<and> recovery_load store env disk' = Inr d
    \<and> filter (\<lambda>r. row_key r = row_key record) (fd_rows field d) = [record]
    \<and> filter (\<lambda>r. row_key r \<noteq> row_key record) (fd_rows field d) = filter (\<lambda>r. row_key r \<noteq> row_key record) (fd_rows field old)"
proof -
  let ?required = "require_scope (rs_parse_uuid store) (rs_lease store) scope (fd_identity field record)"
  have required: "?required = Inr ()"
    and run: "recovery_mutate store env (Upsert (fd_kind field) (fd_identity field record)) (upsert_in field record) disk = (Inr (), disk')"
    using assms(1) by (cases ?required; simp add: upsert_record_def when_ok_def)+
  from recovery_mutate_replaces [OF run assms(3)] obtain replaced d d' i where
    r: "dd_file disk' = Some (i, Document d')" "dd_published disk' = (replaced, d') # dd_published disk"
    "read_document store env replaced = Inr d"
    and prep: "mutation_prepare store env (Upsert (fd_kind field) (fd_identity field record)) (upsert_in field record) d = Inr (d', ())"
    by blast
  note ok = mutation_prepare_ok [OF prep]
  have load: "recovery_load store env disk' = Inr d'"
    using assms(2) ok(3) r(1) by (simp add: recovery_load_def read_document_def Let_def)
  from upsert_in_rows [OF ok(1)] have rows: "record \<in> set (fd_rows field d')"
    "filter (\<lambda>r. row_key r \<noteq> row_key record) (fd_rows field d') = filter (\<lambda>r. row_key r \<noteq> row_key record) (fd_rows field d)"
    by (auto simp: rows_set)
  have "distinct (map row_key (fd_rows field d'))"
    using envelope_validate_ok(5) [OF ok(3)] by (simp add: identities_split case_prod_unfold comp_def)
  from filter_distinct_key [OF this rows(1)] required r load rows(2) show ?thesis by blast
qed

end

interpretation generations: document_rows generation_envelope generation_field "\<lambda>_. []" "\<lambda>_. []"
  by unfold_locales
    (simp_all add: identities_of_def generation_envelope_def generation_field_def comp_def generation_row.rebind_identity)

interpretation orders: document_rows order_envelope order_field "\<lambda>_. []" "\<lambda>_. []"
  by unfold_locales
    (simp_all add: identities_of_def order_envelope_def order_field_def comp_def order_row.rebind_identity)

interpretation prompts: document_rows prompt_envelope prompt_field "\<lambda>_. []"
    "\<lambda>d. map (\<lambda>r. (DeepRow, optimization_identity r)) (pf_deep_optimizations d)"
  by unfold_locales
    (auto simp: identities_of_def prompt_envelope_def prompt_field_def comp_def prompt_row.rebind_identity less_eq_row_kind_def)

interpretation optimizations: document_rows prompt_envelope optimization_field
    "\<lambda>d. map (\<lambda>r. (PromptRow, prompt_identity r)) (pf_prompt_tasks d)" "\<lambda>_. []"
  by unfold_locales
    (auto simp: identities_of_def prompt_envelope_def optimization_field_def comp_def optimization_row.rebind_identity less_eq_row_kind_def)

section \<open>Saved requests\<close>

text \<open>
  C34: what is saved before a paid request is sent is there afterwards. When the upsert of a generation
  returns, the record is read back exactly as it was given, once, for the login and the payer of the caller's
  scope, and the other records are, in their order, those of the very document that was replaced.
\<close>

theorem upserted_generation_is_loaded:
  assumes "upsert_pending_generation store scope record disk = (Inr (), disk')" and "\<not> at_read_fails (rs_attempt store 0)"
    and "replaces_files store"
  shows "\<exists>replaced old d. recovery_load store generation_envelope disk' = Inr d
    \<and> dd_published disk' = (replaced, d) # dd_published disk \<and> read_document store generation_envelope replaced = Inr old
    \<and> filter (\<lambda>r. pg_client_request_id r = pg_client_request_id record) (rf_generations d) = [record]
    \<and> filter (\<lambda>r. pg_client_request_id r \<noteq> pg_client_request_id record) (rf_generations d)
        = filter (\<lambda>r. pg_client_request_id r \<noteq> pg_client_request_id record) (rf_generations old)
    \<and> pg_owner_user_id record = scope_owner_user_id (request_session (billing_request scope))
    \<and> pg_auth_epoch record = scope_auth_epoch (request_session (billing_request scope))
    \<and> pg_billing_account_group_id record = request_account_group_id (billing_request scope)"
  using generations.upsert_record_loads [OF assms(1) [unfolded upsert_pending_generation_def] assms(2,3)]
  by (auto simp: generation_field_def generation_identity_def require_scope_def Let_def split: if_splits)

definition witness_generation :: pending_generation where
  "witness_generation = \<lparr>pg_source_asset_id = [], pg_video_preview_path = [], pg_video_request = None, pg_schema_version = 2,
    pg_cancel_requested = False, pg_created_at_epoch_ms = 0, pg_client_request_id = ''k'', pg_owner_user_id = ''u'',
    pg_billing_account_group_id = ''g'', pg_auth_epoch = 1, pg_local_task_id = [], pg_server_task_id = ''t'', pg_raw_prompt = [],
    pg_generation_prompt = [], pg_task_type = ''image_generation'', pg_category = [], pg_mode = [], pg_ratio = ''1:1'',
    pg_quality = [], pg_model_code = [], pg_conversation_id = [], pg_count = 1, pg_target_width = 0, pg_target_height = 0,
    pg_create_conversation = False, pg_reference_paths = [], pg_reference_sha256 = [], pg_reference_size_bytes = [],
    pg_lineage_reference_paths = [], pg_uploaded_file_ids = [],
    pg_deliveries = [\<lparr>pd_item_index = 0, pd_file_id = ''f'', pd_sha256 = [], pd_size_bytes = 1, pd_local_path = [],
      pd_acknowledged = False, pd_failed_asset_id = [], pd_abandoned = False\<rparr>],
    pg_terminal = True, pg_expected_success_count = 1, pg_canvas_source_node_id = [], pg_canvas_workflow_id = [],
    pg_canvas_ui_extraction = False\<rparr>"

definition witness_scope :: billing_scope where
  "witness_scope = \<lparr>billing_request = \<lparr>request_session = \<lparr>scope_owner_user_id = ''u'', scope_auth_epoch = 1\<rparr>,
    request_account_group_id = ''g''\<rparr>, billing_context_epoch = 1\<rparr>"

definition witness_generations :: recovery_file where
  "witness_generations = \<lparr>rf_schema_version = 2, rf_generations = [witness_generation]\<rparr>"

definition witness_saved_disk :: "recovery_file document_disk" where
  "witness_saved_disk = \<lparr>dd_file = Some (0, Document witness_generations), dd_next_identity = 1,
    dd_published = [(None, witness_generations)]\<rparr>"

lemmas witness_operation_defs =
  witness_recovery_defs witness_scope_def witness_generations_def witness_saved_disk_def generation_envelope_def
  generation_field_def generation_identity_def generation_bodies_def when_ok_def require_scope_def require_authority_def
  upsert_record_def upsert_in_def upsert_row_def recovery_mutate_def

lemma witness_upsert:
  "upsert_pending_generation quiet_store witness_scope witness_generation empty_disk = (Inr (), witness_saved_disk)"
  by (simp add: upsert_pending_generation_def witness_generation_def numeral_3_eq_3 Let_def witness_operation_defs)

theorem upserted_generation_is_loaded_witness:
  "\<exists>d. recovery_load quiet_store generation_envelope witness_saved_disk = Inr d
    \<and> filter (\<lambda>r. pg_client_request_id r = ''k'') (rf_generations d) = [witness_generation]"
proof -
  have "pg_client_request_id witness_generation = ''k''" by (simp add: witness_generation_def)
  with upserted_generation_is_loaded [OF witness_upsert _ quiet_replaces] show ?thesis
    by (auto simp: quiet_store_def quiet_attempt_def)
qed

section \<open>Fresh requests are never refused\<close>

lemma validate_rows_intro:
  assumes "\<forall>(kind, i, schema) \<in> set rows. row_validate parse_uuid lease i schema = Inr ()"
    and "distinct (map (\<lambda>(_, i, _). ri_client_request_id i) rows)"
    and "\<forall>(kind, i, schema) \<in> set rows. ri_client_request_id i \<notin> set keys"
  shows "validate_rows parse_uuid lease keys rows = Inr (map (\<lambda>(kind, i, _). (kind, i)) rows)"
  using assms
proof (induction rows arbitrary: keys)
  case (Cons row rows)
  obtain kind i schema where row: "row = (kind, i, schema)" by (cases row)
  have "validate_rows parse_uuid lease (ri_client_request_id i # keys) rows = Inr (map (\<lambda>(kind, i, _). (kind, i)) rows)"
    using Cons.prems row by (intro Cons.IH) force+
  with Cons.prems row show ?case by simp
qed simp

text \<open>
  A new prompt task is never refused by the checks of the document. When the document is valid
  and the task has the caller's scope, the current schema and a key no other row uses, the mutation is
  accepted and adds exactly this row, although prompt tasks share their document with optimizations.
\<close>

theorem fresh_prompt_task_accepted:
  assumes "envelope_validate (rs_parse_uuid store) (rs_lease store) prompt_envelope d = Inr ids"
    and "require_scope (rs_parse_uuid store) (rs_lease store) scope (prompt_identity record) = Inr ()"
    and "pt_schema_version record = RECOVERY_SCHEMA_VERSION"
    and "pt_client_request_id record \<notin> ri_client_request_id ` snd ` set ids"
  shows "mutation_prepare store prompt_envelope (Upsert PromptRow (prompt_identity record)) (upsert_in prompt_field record) d
    = Inr (d\<lparr>pf_prompt_tasks := pf_prompt_tasks d @ [record]\<rparr>, ())"
proof -
  let ?new = "d\<lparr>pf_prompt_tasks := pf_prompt_tasks d @ [record]\<rparr>"
  let ?key = "\<lambda>(_, i, _). ri_client_request_id i"
  note ok = envelope_validate_ok [OF assms(1)]
  have fresh: "ri_client_request_id (snd x) \<noteq> ri_client_request_id (prompt_identity record)"
    if "x \<in> set (identities_of prompt_envelope d)" for x
  proof -
    have "ri_client_request_id (snd x) \<in> ri_client_request_id ` snd ` set ids"
      using that ok(1) by (intro imageI) simp
    moreover have "ri_client_request_id (prompt_identity record) = pt_client_request_id record" by (simp add: prompt_identity_def)
    ultimately show ?thesis using assms(4) by metis
  qed
  have upsert: "upsert_in prompt_field record d = Inr (?new, ())"
  proof -
    have "position (\<lambda>r. ri_client_request_id (prompt_identity r) = ri_client_request_id (prompt_identity record))
        (pf_prompt_tasks d) = None"
      using fresh prompts.row_identity_in [of _ d] by (fastforce simp: position_None_iff prompt_field_def)
    then show ?thesis by (simp add: upsert_in_def upsert_row_def prompt_field_def)
  qed
  have delta: "expected_identities ids (Upsert PromptRow (prompt_identity record)) = Inr (identities_of prompt_envelope ?new)"
    using prompts.appended_row_expected [of d "record"] fresh ok(1) by (simp add: prompt_field_def)
  have rows: "set (env_rows prompt_envelope ?new) =
      insert (PromptRow, prompt_identity record, pt_schema_version record) (set (env_rows prompt_envelope d))"
    by (auto simp: prompt_envelope_def)
  have "validate_rows (rs_parse_uuid store) (rs_lease store) [] (env_rows prompt_envelope ?new)
    = Inr (map (\<lambda>(kind, i, _). (kind, i)) (env_rows prompt_envelope ?new))"
  proof (rule validate_rows_intro)
    have "row_validate (rs_parse_uuid store) (rs_lease store) (prompt_identity record) (pt_schema_version record) = Inr ()"
      using assms(2,3) by (auto simp: row_validate_def require_scope_def require_authority_def split: if_splits)
    with ok(4) show "\<forall>(kind, i, schema) \<in> set (env_rows prompt_envelope ?new).
        row_validate (rs_parse_uuid store) (rs_lease store) i schema = Inr ()"
      by (auto simp: rows)
    have keys: "map ?key (env_rows prompt_envelope d) = map request_of (identities_of prompt_envelope d)"
      by (simp add: identities_of_def comp_def case_prod_unfold)
    have "distinct (map ?key (env_rows prompt_envelope d))"
      unfolding keys using ok(5) by (simp add: case_prod_unfold)
    moreover have "ri_client_request_id (prompt_identity record) \<notin> set (map ?key (env_rows prompt_envelope d))"
      unfolding keys using fresh by (metis (mono_tags) in_set_conv_nth length_map nth_map nth_mem)
    ultimately show "distinct (map ?key (env_rows prompt_envelope ?new))"
      by (auto simp: prompt_envelope_def)
  qed simp
  then have valid: "envelope_validate (rs_parse_uuid store) (rs_lease store) prompt_envelope ?new
      = Inr (identities_of prompt_envelope ?new)"
    using ok(2,3) by (simp add: envelope_validate_def identities_of_def) (simp add: prompt_envelope_def split: if_splits)
  have bodies: "env_retained_bodies prompt_envelope x = []" for x by (simp add: prompt_envelope_def)
  from upsert valid delta assms(1) show ?thesis
    by (simp add: mutation_prepare_def validate_identity_delta_def validate_bodies_def bodies)
qed

definition witness_prompt_task :: pending_prompt_task where
  "witness_prompt_task = \<lparr>pt_schema_version = 2, pt_created_at_epoch_ms = 0, pt_client_request_id = ''k'', pt_owner_user_id = ''u'',
    pt_billing_account_group_id = ''g'', pt_auth_epoch = 1, pt_server_task_id = [], pt_task_type = [], pt_model_code = [],
    pt_prompt = [], pt_target_language = None, pt_optimize = False, pt_target_kind = [], pt_target_id = [],
    pt_target_category = [], pt_target_input = [], pt_append_result = False, pt_activity_kind = [], pt_reference_paths = [],
    pt_reference_sha256 = [], pt_reference_size_bytes = [], pt_uploaded_file_ids = [], pt_result_prompt = [],
    pt_terminal_error = [], pt_applied_to_target = False, pt_result_committed = False, pt_cancel_requested = False,
    pt_submission_started = False\<rparr>"

definition witness_optimization :: pending_optimization where
  "witness_optimization = \<lparr>op_schema_version = 2, op_client_request_id = ''j'', op_owner_user_id = ''u'', op_auth_epoch = 1,
    op_billing_account_group_id = ''g'', op_server_job_id = [], op_presentation_dismissed = False,
    op_operation = RetryOptimization ''s''\<rparr>"

definition witness_prompts :: prompt_recovery_file where
  "witness_prompts = \<lparr>pf_schema_version = 2, pf_prompt_tasks = [], pf_deep_optimizations = [witness_optimization]\<rparr>"

theorem fresh_prompt_task_accepted_witness:
  "mutation_prepare quiet_store prompt_envelope (Upsert PromptRow (prompt_identity witness_prompt_task))
      (upsert_in prompt_field witness_prompt_task) witness_prompts
    = Inr (witness_prompts\<lparr>pf_prompt_tasks := pf_prompt_tasks witness_prompts @ [witness_prompt_task]\<rparr>, ())"
proof (rule fresh_prompt_task_accepted [where ids = "[(DeepRow, optimization_identity witness_optimization)]" and scope = witness_scope])
  show "envelope_validate (rs_parse_uuid quiet_store) (rs_lease quiet_store) prompt_envelope witness_prompts
      = Inr [(DeepRow, optimization_identity witness_optimization)]"
    by (simp add: witness_prompts_def witness_optimization_def witness_operation_defs prompt_envelope_def
        optimization_identity_def optimization_row_ok_def)
  show "require_scope (rs_parse_uuid quiet_store) (rs_lease quiet_store) witness_scope (prompt_identity witness_prompt_task) = Inr ()"
    by (simp add: witness_prompt_task_def witness_operation_defs prompt_identity_def)
qed (simp_all add: witness_prompt_task_def witness_optimization_def optimization_identity_def RECOVERY_SCHEMA_VERSION_def)

section \<open>Generations are kept until they are settled\<close>

text \<open>
  The operations of the delivery path that can drop a record: the acknowledgement or abandonment of one
  delivery, a patch, the retirement of a complete record, and the settlement of a cutout.
\<close>

datatype settlement =
    SettleDelivery recovery_identity string bool
  | PatchRecord recovery_identity generation_patch
  | RetireRecord recovery_identity
  | SettleCutout cutout_receipt

fun run_settlement ::
  "recovery_file recovery_store \<Rightarrow> settlement \<Rightarrow> recovery_file document_disk \<Rightarrow> (recovery_file, bool) store_result" where
  "run_settlement store (SettleDelivery expected v abandon) = settle_delivery store expected v abandon"
| "run_settlement store (PatchRecord expected patch) = apply_generation_patch store expected patch"
| "run_settlement store (RetireRecord expected) = retire_completed_generation store expected"
| "run_settlement store (SettleCutout receipt) = settle_acknowledged_cutout_delivery store receipt"

fun settled_record :: "settlement \<Rightarrow> recovery_identity" where
  "settled_record (SettleDelivery expected v abandon) = expected"
| "settled_record (PatchRecord expected patch) = expected"
| "settled_record (RetireRecord expected) = expected"
| "settled_record (SettleCutout receipt) = generation_identity (cr_record receipt)"

text \<open>The delivery that the operation names, and the number of results the server announced.\<close>

fun names_delivery :: "settlement \<Rightarrow> pending_delivery \<Rightarrow> bool" where
  "names_delivery (SettleDelivery expected v abandon) d = (if abandon then pd_failed_asset_id d = v else pd_file_id d = v)"
| "names_delivery (SettleCutout receipt) d = cutout_delivery_matches receipt d"
| "names_delivery _ d = False"

fun announced :: "settlement \<Rightarrow> pending_generation \<Rightarrow> usize option" where
  "announced (PatchRecord expected (Terminal n)) r = Some n"
| "announced _ r = (if pg_terminal r then Some (pg_expected_success_count r) else None)"

definition may_drop :: "settlement \<Rightarrow> pending_generation \<Rightarrow> bool" where
  "may_drop op r =
    (generation_identity r = settled_record op
     \<and> (\<exists>n. announced op r = Some n \<and> unat n \<le> length (pg_deliveries r))
     \<and> (\<forall>d \<in> set (pg_deliveries r). settled d \<or> names_delivery op d)
     \<and> (pg_reference_paths r = [] \<or> (\<exists>receipt. op = SettleCutout receipt)))"

text \<open>A kept delivery names the same file; it is settled now only if it was, or if the operation names it.\<close>

definition same_file :: "pending_delivery \<Rightarrow> pending_delivery \<Rightarrow> bool" where
  "same_file d d' =
    (pd_item_index d' = pd_item_index d \<and> pd_file_id d' = pd_file_id d \<and> pd_sha256 d' = pd_sha256 d
     \<and> pd_size_bytes d' = pd_size_bytes d \<and> pd_failed_asset_id d' = pd_failed_asset_id d)"

definition kept_delivery :: "settlement \<Rightarrow> pending_delivery \<Rightarrow> pending_delivery \<Rightarrow> bool" where
  "kept_delivery op d d' = (same_file d d' \<and> (settled d' = settled d \<or> settled d' \<and> names_delivery op d))"

definition kept_record :: "settlement \<Rightarrow> pending_generation \<Rightarrow> pending_generation \<Rightarrow> bool" where
  "kept_record op r r' =
    (generation_identity r' = generation_identity r \<and> list_all2 (kept_delivery op) (pg_deliveries r) (pg_deliveries r'))"

lemma kept_delivery_refl [simp]: "kept_delivery op d d"
  by (simp add: kept_delivery_def same_file_def)

lemma kept_deliveries_refl [simp]: "list_all2 (kept_delivery op) ds ds"
  by (simp add: list_all2_refl)

definition drops_properly :: "settlement \<Rightarrow> (pending_generation \<Rightarrow> recovery_failure + pending_generation option option) \<Rightarrow> bool" where
  "drops_properly op change =
    (\<forall>r. generation_identity r = settled_record op \<longrightarrow>
      (change r = drop_row \<longrightarrow> may_drop op r) \<and> (\<forall>r'. change r = keep_row r' \<longrightarrow> kept_record op r r'))"

lemma release_keeps [simp]:
  "generation_identity (release_reference_inputs r) = generation_identity r"
  "pg_deliveries (release_reference_inputs r) = pg_deliveries r"
  by (simp_all add: release_reference_inputs_def generation_identity_def)

lemma keep_unless_complete_cases:
  "keep_unless_complete r = drop_row \<longleftrightarrow> generation_record_complete r"
  "keep_unless_complete r = keep_row r' \<longleftrightarrow> \<not> generation_record_complete r \<and> r' = r"
  by (auto simp: keep_unless_complete_def)

lemma complete_announced:
  assumes "generation_record_complete r"
  shows "pg_terminal r" "unat (pg_expected_success_count r) \<le> length (pg_deliveries r)"
    "\<And>d. d \<in> set (pg_deliveries r) \<Longrightarrow> settled d" "pg_reference_paths r = []"
  using assms length_filter_le [of settled "pg_deliveries r"]
  by (auto simp: generation_record_complete_def list_all_iff)

text \<open>Settling the delivery that was found by what the operation names.\<close>

lemma kept_update:
  assumes "i < length (pg_deliveries r)" and "names_delivery op (pg_deliveries r ! i)"
    and "\<And>d. same_file d (f d) \<and> settled (f d)"
  shows "kept_record op r (update_delivery i f r)"
  using assms
  by (auto simp: kept_record_def update_delivery_def generation_identity_def kept_delivery_def same_file_def list_all2_conv_all_nth nth_list_update)

lemma complete_update_settled:
  assumes "generation_record_complete (update_delivery i f r)" and "i < length (pg_deliveries r)"
    and "names_delivery op (pg_deliveries r ! i)" and "d \<in> set (pg_deliveries r)"
  shows "settled d \<or> names_delivery op d"
proof -
  obtain j where j: "j < length (pg_deliveries r)" "d = pg_deliveries r ! j" using assms(4) by (auto simp: in_set_conv_nth)
  show ?thesis
  proof (cases "j = i")
    case True
    with assms(3) j show ?thesis by simp
  next
    case False
    then have "pg_deliveries (update_delivery i f r) ! j = d" using j by (simp add: update_delivery_def)
    moreover have "j < length (pg_deliveries (update_delivery i f r))" using j by (simp add: update_delivery_def)
    ultimately have "d \<in> set (pg_deliveries (update_delivery i f r))" by (metis nth_mem)
    with complete_announced(3) [OF assms(1)] show ?thesis by simp
  qed
qed

lemma update_delivery_record [simp]:
  "pg_terminal (update_delivery i f r) = pg_terminal r"
  "pg_expected_success_count (update_delivery i f r) = pg_expected_success_count r"
  "pg_reference_paths (update_delivery i f r) = pg_reference_paths r"
  "length (pg_deliveries (update_delivery i f r)) = length (pg_deliveries r)"
  by (simp_all add: update_delivery_def)

lemma settle_delivery_proper:
  "drops_properly (SettleDelivery expected v abandon) (\<lambda>r. bind_result (record_settle_delivery v abandon r)
    (\<lambda>settled. case settled of None \<Rightarrow> Inr None | Some r' \<Rightarrow> keep_unless_complete r'))"
proof -
  let ?op = "SettleDelivery expected v abandon"
  let ?f = "\<lambda>d. if abandon then d\<lparr>pd_abandoned := True\<rparr> else d\<lparr>pd_acknowledged := True\<rparr>"
  have found: "\<exists>i. i < length (pg_deliveries r) \<and> names_delivery ?op (pg_deliveries r ! i) \<and> r' = update_delivery i ?f r"
    if "record_settle_delivery v abandon r = Inr (Some r')" for r r'
  proof -
    from that obtain i where "delivery_index (\<lambda>d. if abandon then pd_failed_asset_id d = v else pd_file_id d = v) r = Inr (Some i)"
      "r' = update_delivery i ?f r"
      by (cases "is_blank v") (auto simp: record_settle_delivery_def split: sum.splits option.splits split del: if_split)
    with delivery_index_Some(1,2) [OF this(1)] show ?thesis by auto
  qed
  show ?thesis
    unfolding drops_properly_def
  proof (intro allI impI conjI)
    fix r
    assume mine: "generation_identity r = settled_record ?op"
      and "bind_result (record_settle_delivery v abandon r)
        (\<lambda>settled. case settled of None \<Rightarrow> Inr None | Some r' \<Rightarrow> keep_unless_complete r') = drop_row"
    then obtain r' where "record_settle_delivery v abandon r = Inr (Some r')" and finished: "generation_record_complete r'"
      by (auto simp: keep_unless_complete_cases split: option.splits)
    with found obtain i where i: "i < length (pg_deliveries r)" "names_delivery ?op (pg_deliveries r ! i)" "r' = update_delivery i ?f r"
      by blast
    note complete = complete_announced [OF finished [unfolded i(3)]]
    from complete_update_settled [OF finished [unfolded i(3)] i(1,2)] complete(1,2,4) mine show "may_drop ?op r"
      by (auto simp: may_drop_def)
  next
    fix r r'
    assume "bind_result (record_settle_delivery v abandon r)
        (\<lambda>settled. case settled of None \<Rightarrow> Inr None | Some r' \<Rightarrow> keep_unless_complete r') = keep_row r'"
    then have "record_settle_delivery v abandon r = Inr (Some r')"
      by (auto simp: keep_unless_complete_cases split: option.splits)
    with found obtain i where "i < length (pg_deliveries r)" "names_delivery ?op (pg_deliveries r ! i)" "r' = update_delivery i ?f r"
      by blast
    with kept_update [of i r ?op ?f] show "kept_record ?op r r'" by (auto simp: same_file_def settled_def)
  qed
qed

lemma patch_kept: "patch_generation patch r = Inr r' \<Longrightarrow> kept_record op r r'"
  by (cases patch)
    (auto simp: kept_record_def generation_identity_def release_reference_inputs_def clear_delivery_paths_def Let_def
      list.rel_map kept_delivery_def same_file_def settled_def intro!: list_all2_refl split: if_splits)

lemma patch_proper:
  "drops_properly (PatchRecord expected patch) (\<lambda>r. bind_result (patch_generation patch r)
    (\<lambda>r'. if is_terminal_patch patch \<and> generation_record_complete r' then drop_row else keep_row r'))"
  unfolding drops_properly_def
proof (intro allI impI conjI)
  fix r
  assume mine: "generation_identity r = settled_record (PatchRecord expected patch)"
    and "bind_result (patch_generation patch r)
      (\<lambda>r'. if is_terminal_patch patch \<and> generation_record_complete r' then drop_row else keep_row r') = drop_row"
  then obtain n where patch: "patch = Terminal n"
    and complete: "generation_record_complete (r\<lparr>pg_terminal := True, pg_expected_success_count := n\<rparr>)"
    by (auto simp: is_terminal_patch_def split: if_splits generation_patch.splits)
  from complete_announced [OF complete] patch mine show "may_drop (PatchRecord expected patch) r"
    by (auto simp: may_drop_def)
qed (auto split: if_splits intro: patch_kept)

lemma retire_proper:
  "drops_properly (RetireRecord expected) (\<lambda>r. if generation_record_complete r then drop_row else Inr None)"
  by (auto simp: drops_properly_def may_drop_def dest: complete_announced)

lemma cutout_proper: "drops_properly (SettleCutout receipt) (settle_cutout_record ns receipt)"
proof -
  let ?op = "SettleCutout receipt"
  let ?f = "\<lambda>d. d\<lparr>pd_acknowledged := True\<rparr>"
  have found: "\<exists>i. i < length (pg_deliveries r) \<and> names_delivery ?op (pg_deliveries r ! i)
      \<and> keep_unless_complete (release_reference_inputs (update_delivery i ?f r)) = Inr (Some y)
      \<and> pg_terminal r \<and> pg_expected_success_count r = 1 \<and> length (pg_deliveries r) = 1"
    if "settle_cutout_record ns receipt r = Inr (Some y)" for r y
  proof -
    from that obtain i where "delivery_index (\<lambda>d. pd_file_id d = dc_file_id (cr_confirmation receipt)
        \<or> pd_item_index d = dc_item_index (cr_confirmation receipt)) r = Inr (Some i)"
      "cutout_delivery_matches receipt (pg_deliveries r ! i)"
      "keep_unless_complete (release_reference_inputs (update_delivery i ?f r)) = Inr (Some y)"
      "pg_terminal r \<and> pg_expected_success_count r = 1 \<and> length (pg_deliveries r) = 1"
      by (auto simp: settle_cutout_record_def split: if_splits sum.splits option.splits)
    with delivery_index_Some(1) [OF this(1)] show ?thesis by auto
  qed
  show ?thesis
    unfolding drops_properly_def
  proof (intro allI impI conjI)
    fix r
    assume mine: "generation_identity r = settled_record ?op" and "settle_cutout_record ns receipt r = drop_row"
    from found [OF this(2)] obtain i where i: "i < length (pg_deliveries r)" "names_delivery ?op (pg_deliveries r ! i)"
      "pg_terminal r" "pg_expected_success_count r = 1" "length (pg_deliveries r) = 1" by blast
    then have "\<forall>d \<in> set (pg_deliveries r). names_delivery ?op d"
      by (cases "pg_deliveries r") auto
    with i mine show "may_drop ?op r" by (auto simp: may_drop_def)
  next
    fix r r'
    assume "settle_cutout_record ns receipt r = keep_row r'"
    from found [OF this] obtain i where i: "i < length (pg_deliveries r)" "names_delivery ?op (pg_deliveries r ! i)"
      and r': "r' = release_reference_inputs (update_delivery i ?f r)"
      by (auto simp: keep_unless_complete_cases)
    have "kept_record ?op r (update_delivery i ?f r)" using i by (intro kept_update) (auto simp: same_file_def settled_def)
    then show "kept_record ?op r r'" by (simp add: r' kept_record_def)
  qed
qed

lemma proper_change_keeps:
  assumes "change_row generation_field (settled_record op) change d = Inr (d', t)" and "drops_properly op change"
    and "x \<in> set (rf_generations d)"
  shows "(\<exists>y \<in> set (rf_generations d'). kept_record op x y \<and> (generation_identity x \<noteq> settled_record op \<longrightarrow> y = x)) \<or> may_drop op x"
proof (cases "generation_identity x = settled_record op")
  case False
  with generations.change_row_keeps [OF assms(1)] assms(3) have "x \<in> set (rf_generations d')" by (auto simp: generation_field_def)
  then show ?thesis by (auto simp: kept_record_def)
next
  case True
  show ?thesis
    using assms(1)
  proof (cases rule: change_row_cases)
    case absent
    with assms(3) show ?thesis by (auto simp: kept_record_def)
  next
    case (removed i)
    have "rf_generations d ! i = x"
      using exact_index_Some [OF removed(2)] True assms(3) by (metis generation_field_def in_set_conv_nth row_field.select_convs(2,4))
    with removed(3) True assms(2) show ?thesis by (auto simp: drops_properly_def generation_field_def)
  next
    case (changed i r)
    have i: "rf_generations d ! i = x" "i < length (rf_generations d)"
      using exact_index_Some [OF changed(2)] True assms(3) by (metis generation_field_def in_set_conv_nth row_field.select_convs(2,4))+
    with changed(3) True assms(2) have "kept_record op x r" by (auto simp: drops_properly_def generation_field_def)
    moreover have "r \<in> set (rf_generations d')"
      using changed(4) i(2) by (simp add: generation_field_def set_update_memI)
    ultimately show ?thesis using True by blast
  qed
qed

lemma settlement_changes:
  assumes "run_settlement store op disk = (Inr t, disk')"
  shows "\<exists>permission change. recovery_mutate store generation_envelope permission
      (change_row generation_field (settled_record op) change) disk = (Inr t, disk') \<and> drops_properly op change"
proof (cases op)
  case (SettleDelivery expected v abandon)
  with assms settle_delivery_proper [of expected v abandon] show ?thesis
    by (auto simp: settle_delivery_def when_ok_def split: sum.splits)
next
  case (PatchRecord expected patch)
  with assms patch_proper [of expected patch] show ?thesis
    by (auto simp: apply_generation_patch_def when_ok_def split: sum.splits)
next
  case (RetireRecord expected)
  with assms retire_proper [of expected] show ?thesis
    by (auto simp: retire_completed_generation_def when_ok_def split: sum.splits)
next
  case (SettleCutout receipt)
  with assms cutout_proper [of receipt "lease_namespace (rs_lease store)"] show ?thesis
    by (auto simp: settle_acknowledged_cutout_delivery_def when_ok_def Let_def split: sum.splits)
qed

text \<open>
  C21: no paid result is dropped. Whatever operation of the delivery path runs, every generation of the
  document it replaces is still there afterwards, with all its deliveries, none of them settled but those that
  were and the one the operation names; a generation it is not about is unchanged. Only the generation it is
  about may be gone, and only when the server had announced its results (or this patch announces them), there
  are at least that many deliveries, each of them was acknowledged or abandoned before, but for the one the
  operation names, and its saved inputs had been released (a cutout that is settled releases them itself).
\<close>

theorem unsettled_generation_is_kept:
  assumes "run_settlement store op disk = (Inr t, disk')" and "replaces_files store"
  shows "\<exists>replaced d d'. dd_published disk' = (replaced, d') # dd_published disk
    \<and> read_document store generation_envelope replaced = Inr d
    \<and> read_document store generation_envelope (dd_file disk') = Inr d'
    \<and> (\<forall>x \<in> set (rf_generations d).
        (\<exists>y \<in> set (rf_generations d'). kept_record op x y \<and> (generation_identity x \<noteq> settled_record op \<longrightarrow> y = x))
        \<or> may_drop op x)"
proof -
  obtain permission change where
    run: "recovery_mutate store generation_envelope permission (change_row generation_field (settled_record op) change) disk = (Inr t, disk')"
    and proper: "drops_properly op change" using settlement_changes [OF assms(1)] by blast
  from recovery_mutate_replaces [OF run assms(2)] obtain replaced d d' i where
    r: "dd_file disk' = Some (i, Document d')" "dd_published disk' = (replaced, d') # dd_published disk"
    "read_document store generation_envelope replaced = Inr d"
    and prep: "mutation_prepare store generation_envelope permission (change_row generation_field (settled_record op) change) d = Inr (d', t)"
    by blast
  have "read_document store generation_envelope (dd_file disk') = Inr d'"
    using mutation_prepare_ok(3) [OF prep] by (simp add: r(1) read_document_def)
  with r proper_change_keeps [OF mutation_prepare_ok(1) [OF prep] proper] show ?thesis by blast
qed

lemma witness_settles:
  "run_settlement quiet_store (SettleDelivery (generation_identity witness_generation) ''f'' False) witness_saved_disk
    = (Inr True, \<lparr>dd_file = Some (1, Document (witness_generations\<lparr>rf_generations := []\<rparr>)), dd_next_identity = 2,
        dd_published = [(Some (0, Document witness_generations), witness_generations\<lparr>rf_generations := []\<rparr>), (None, witness_generations)]\<rparr>)"
  by (simp add: settle_delivery_def change_row_def exact_index_def record_settle_delivery_def delivery_index_def
      keep_unless_complete_def generation_record_complete_def update_delivery_def settled_def remove_at_def
      witness_generation_def numeral_3_eq_3 Let_def witness_operation_defs)

theorem unsettled_generation_is_kept_witness:
  "may_drop (SettleDelivery (generation_identity witness_generation) ''f'' False) witness_generation"
proof -
  from unsettled_generation_is_kept [OF witness_settles quiet_replaces] obtain d where
    d: "read_document quiet_store generation_envelope (Some (0, Document witness_generations)) = Inr d"
    and gone: "\<forall>x \<in> set (rf_generations d). may_drop (SettleDelivery (generation_identity witness_generation) ''f'' False) x"
    by (auto simp: witness_saved_disk_def read_document_def witness_generations_def)
  from d have "d = witness_generations" by (auto simp: read_document_def)
  with gone show ?thesis by (simp add: witness_generations_def)
qed

end
