(* ===== verification/Recovery_Replay.thy ===== *)
theory Recovery_Replay
  imports Recovery_Properties
begin

text \<open>
  Sending a saved request again (\<open>SavedReplayRequest\<close> in
  \<open>native-client/src/runtime/storage/recovery.rs\<close>): the caller names a kind and a key, everything else (payer,
  route, body) comes from the saved record. The bodies are the request structures of
  \<open>runtime/api/generation.rs\<close> and \<open>runtime/callbacks/prompt_tasks.rs\<close>; their JSON encoding is not modelled, nor is the
  replay of a redemption, whose record is in the local database.
\<close>

section \<open>Request bodies\<close>

record create_generation_task =
  ct_client_request_id :: string
  ct_task_type :: string
  ct_model_code :: string
  ct_prompt :: string
  ct_quality :: "string option"
  ct_count :: "i32 option"
  ct_aspect_ratio :: "string option"
  ct_reference_file_ids :: "string list option"
  ct_target_language :: "string option"

record create_upscale_task =
  cu_client_request_id :: string
  cu_task_type :: string
  cu_model_code :: string
  cu_prompt :: string
  cu_quality :: string
  cu_reference_file_ids :: "string list"
  cu_target_width :: u32
  cu_target_height :: u32

record create_image_edit_task =
  ce_client_request_id :: string
  ce_task_type :: string
  ce_model_code :: string
  ce_prompt :: string
  ce_quality :: string
  ce_aspect_ratio :: string
  ce_source_file_id :: string
  ce_mask_file_id :: string

text \<open>The bodies; the small ones list their fields in the order of the structures.\<close>

datatype create_body =
    TaskBody create_generation_task
  | VideoBody create_video_task
  | UpscaleBody create_upscale_task
  | ImageEditBody create_image_edit_task
  | WatermarkBody string string
  | ColorizationBody string string
  | EnhancementBody string string string
  | CutoutBody string string string
  | OptimizationBody create_prompt_optimization
  | OptimizationRetryBody string
  | CreditOrderBody string string
  | MembershipOrderBody string string
  | UpgradeOrderBody string string

fun body_request_id :: "create_body \<Rightarrow> string" where
  "body_request_id (TaskBody t) = ct_client_request_id t"
| "body_request_id (VideoBody t) = vt_client_request_id t"
| "body_request_id (UpscaleBody t) = cu_client_request_id t"
| "body_request_id (ImageEditBody t) = ce_client_request_id t"
| "body_request_id (WatermarkBody request file) = request"
| "body_request_id (ColorizationBody request file) = request"
| "body_request_id (EnhancementBody request file quality) = request"
| "body_request_id (CutoutBody request file subject) = request"
| "body_request_id (OptimizationBody t) = co_client_request_id t"
| "body_request_id (OptimizationRetryBody request) = request"
| "body_request_id (CreditOrderBody product request) = request"
| "body_request_id (MembershipOrderBody product request) = request"
| "body_request_id (UpgradeOrderBody quote request) = request"

definition supported_ratios :: "string list" where
  "supported_ratios = [''1:1'', ''3:2'', ''2:3'', ''4:3'', ''3:4'', ''5:4'', ''4:5'', ''16:9'', ''9:16'', ''2:1'', ''1:2'',
    ''21:9'', ''9:21'']"

definition api_aspect_ratio :: "string \<Rightarrow> string" where
  "api_aspect_ratio ratio = (case List.find (\<lambda>label. label = ratio) supported_ratios of Some label \<Rightarrow> label | None \<Rightarrow> ''1:1'')"

definition prompt_task_create_request :: "pending_prompt_task \<Rightarrow> create_generation_task" where
  "prompt_task_create_request r = \<lparr>ct_client_request_id = pt_client_request_id r, ct_task_type = pt_task_type r,
    ct_model_code = pt_model_code r, ct_prompt = pt_prompt r, ct_quality = None, ct_count = None, ct_aspect_ratio = None,
    ct_reference_file_ids = (if pt_uploaded_file_ids r = [] then None else Some (pt_uploaded_file_ids r)),
    ct_target_language = pt_target_language r\<rparr>"

definition saved_generation_create_path :: "pending_generation \<Rightarrow> recovery_failure + string" where
  "saved_generation_create_path r =
    (if pg_task_type r = ''image_watermark_removal'' then Inr ''/v1/toolbox/watermark-removals''
     else if pg_task_type r = ''image_colorization'' then Inr ''/v1/toolbox/image-colorizations''
     else if pg_task_type r = ''image_enhancement'' then Inr ''/v1/toolbox/image-enhancements''
     else if pg_task_type r = ''image_cutout'' then Inr ''/v1/toolbox/image-cutouts''
     else if pg_task_type r \<in> {''image_generation'', ''image_edit'', ''image_upscale'', ''image_to_video''} then Inr ''/v1/generation/tasks''
     else Inl (Refused ''unsupported saved generation type; record preserved''))"

definition saved_toolbox_body :: "pending_generation \<Rightarrow> recovery_failure + create_body" where
  "saved_toolbox_body r =
    (if \<not> (length (pg_uploaded_file_ids r) = 1 \<and> \<not> is_blank (pg_uploaded_file_ids r ! 0))
     then Inl (Refused ''saved toolbox source missing'')
     else
       (let source = pg_uploaded_file_ids r ! 0; request = pg_client_request_id r in
        if pg_task_type r = ''image_watermark_removal'' then Inr (WatermarkBody request source)
        else if pg_task_type r = ''image_colorization'' then Inr (ColorizationBody request source)
        else if pg_task_type r = ''image_enhancement''
        then (if pg_quality r \<in> {''2K'', ''4K''} then Inr (EnhancementBody request source (pg_quality r))
              else Inl (Refused ''saved enhancement quality invalid''))
        else (if pg_quality r \<in> {''general'', ''portrait'', ''avatar'', ''skin'', ''product'', ''clothing'', ''sky''}
              then Inr (CutoutBody request source (pg_quality r))
              else Inl (Refused ''saved cutout subject invalid''))))"

definition saved_video_body :: "pending_generation \<Rightarrow> recovery_failure + create_body" where
  "saved_video_body r =
    (case pg_video_request r of
       None \<Rightarrow> Inl (Refused ''original video quote/body missing; record preserved'')
     | Some request \<Rightarrow>
         (case video_task_validate request of
            Inl e \<Rightarrow> Inl (RejectedRequest e)
          | Inr _ \<Rightarrow>
              if vt_client_request_id request = pg_client_request_id r \<and> vt_task_type request = pg_task_type r
              then Inr (VideoBody request)
              else Inl (Refused ''retained video request identity mismatch'')))"

definition saved_generation_create_body :: "pending_generation \<Rightarrow> recovery_failure + create_body" where
  "saved_generation_create_body r =
    (if \<not> (length (pg_uploaded_file_ids r) = length (pg_reference_paths r) \<or> pg_reference_paths r = [])
     then Inl (Refused ''saved reference uploads incomplete'')
     else if pg_task_type r = ''image_to_video'' then saved_video_body r
     else if pg_task_type r \<in> {''image_watermark_removal'', ''image_colorization'', ''image_enhancement'', ''image_cutout''}
     then saved_toolbox_body r
     else if pg_task_type r = ''image_generation''
     then Inr (TaskBody \<lparr>ct_client_request_id = pg_client_request_id r, ct_task_type = pg_task_type r,
            ct_model_code = pg_model_code r, ct_prompt = pg_generation_prompt r, ct_quality = Some (pg_quality r),
            ct_count = Some (pg_count r), ct_aspect_ratio = Some (api_aspect_ratio (pg_ratio r)),
            ct_reference_file_ids = Some (pg_uploaded_file_ids r), ct_target_language = None\<rparr>)
     else if pg_task_type r = ''image_upscale''
     then Inr (UpscaleBody \<lparr>cu_client_request_id = pg_client_request_id r, cu_task_type = pg_task_type r,
            cu_model_code = pg_model_code r, cu_prompt = pg_generation_prompt r, cu_quality = pg_quality r,
            cu_reference_file_ids = pg_uploaded_file_ids r, cu_target_width = pg_target_width r,
            cu_target_height = pg_target_height r\<rparr>)
     else if pg_task_type r = ''image_edit''
     then (if length (pg_uploaded_file_ids r) = 2
           then Inr (ImageEditBody \<lparr>ce_client_request_id = pg_client_request_id r, ce_task_type = pg_task_type r,
             ce_model_code = pg_model_code r, ce_prompt = pg_generation_prompt r, ce_quality = pg_quality r,
             ce_aspect_ratio = api_aspect_ratio (pg_ratio r), ce_source_file_id = pg_uploaded_file_ids r ! 0,
             ce_mask_file_id = pg_uploaded_file_ids r ! 1\<rparr>)
           else Inl (Refused ''saved image edit inputs missing''))
     else Inl (Refused ''unsupported saved generation type; record preserved''))"

section \<open>Saved replays\<close>

datatype saved_source =
    GenerationSource pending_generation
  | PromptSource pending_prompt_task
  | DeepSource pending_optimization
  | OrderSource pending_order

record saved_replay =
  sr_session :: session_scope
  sr_key :: string
  sr_payer :: string
  sr_source :: saved_source
  sr_body :: create_body
  sr_path :: string

fun source_payer :: "saved_source \<Rightarrow> string" where
  "source_payer (GenerationSource r) = pg_billing_account_group_id r"
| "source_payer (PromptSource r) = pt_billing_account_group_id r"
| "source_payer (DeepSource r) = op_billing_account_group_id r"
| "source_payer (OrderSource r) = po_billing_account_group_id r"

fun source_key :: "saved_source \<Rightarrow> string" where
  "source_key (GenerationSource r) = pg_client_request_id r"
| "source_key (PromptSource r) = pt_client_request_id r"
| "source_key (DeepSource r) = op_client_request_id r"
| "source_key (OrderSource r) = po_client_request_id r"

text \<open>Where the four kinds are saved, each with its store (faults and other processes differ per document).\<close>

record recovery_documents =
  rd_generations :: "recovery_file recovery_store \<times> recovery_file document_disk"
  rd_prompts :: "prompt_recovery_file recovery_store \<times> prompt_recovery_file document_disk"
  rd_orders :: "order_recovery_file recovery_store \<times> order_recovery_file document_disk"

datatype saved_replay_kind = GenerationReplay | PromptReplay | DeepReplay | OrderReplay

fun replay_rows :: "recovery_documents \<Rightarrow> saved_replay_kind \<Rightarrow> recovery_failure + saved_source list" where
  "replay_rows docs GenerationReplay =
    bind_result (load_pending_generations (fst (rd_generations docs)) (snd (rd_generations docs))) (\<lambda>rs. Inr (map GenerationSource rs))"
| "replay_rows docs PromptReplay =
    bind_result (load_pending_prompt_tasks (fst (rd_prompts docs)) (snd (rd_prompts docs))) (\<lambda>rs. Inr (map PromptSource rs))"
| "replay_rows docs DeepReplay =
    bind_result (load_pending_prompt_optimizations (fst (rd_prompts docs)) (snd (rd_prompts docs))) (\<lambda>rs. Inr (map DeepSource rs))"
| "replay_rows docs OrderReplay =
    bind_result (load_pending_orders (fst (rd_orders docs)) (snd (rd_orders docs))) (\<lambda>rs. Inr (map OrderSource rs))"

definition replay_source :: "recovery_documents \<Rightarrow> saved_replay_kind \<Rightarrow> string \<Rightarrow> recovery_failure + saved_source" where
  "replay_source docs kind key =
    bind_result (replay_rows docs kind)
      (\<lambda>rows. case List.find (\<lambda>row. source_key row = key) rows of
          Some row \<Rightarrow> Inr row
        | None \<Rightarrow> Inl (Refused ''retained request not found''))"

fun replay_request :: "string \<Rightarrow> saved_source \<Rightarrow> recovery_failure + string \<times> create_body" where
  "replay_request key (GenerationSource r) =
    bind_result (ensure (pg_server_task_id r = [] \<and> \<not> pg_canvas_ui_extraction r \<and> \<not> pg_cancel_requested r)
        (Refused ''accepted, cancelled or unsupported task cannot be replayed as new work''))
      (\<lambda>_. bind_result (saved_generation_create_path r)
        (\<lambda>path. bind_result (saved_generation_create_body r) (\<lambda>body. Inr (path, body))))"
| "replay_request key (PromptSource r) =
    bind_result (ensure (pt_server_task_id r = [] \<and> length (pt_uploaded_file_ids r) = length (pt_reference_paths r))
        (Refused ''saved prompt uploads incomplete''))
      (\<lambda>_. Inr (''/v1/generation/tasks'', TaskBody (prompt_task_create_request r)))"
| "replay_request key (DeepSource r) =
    bind_result (ensure (op_server_job_id r = []) (Refused ''accepted prompt cannot be replayed as new work''))
      (\<lambda>_. case op_operation r of
          CreateOptimization request \<Rightarrow>
            bind_result (ensure (co_client_request_id request = key) (Refused ''saved prompt key mismatch''))
              (\<lambda>_. Inr (''/v1/prompt-optimizations'', OptimizationBody request))
        | RetryOptimization job \<Rightarrow>
            Inr (''/v1/prompt-optimizations/'' @ job @ ''/retry'', OptimizationRetryBody key))"
| "replay_request key (OrderSource r) =
    bind_result (ensure (po_order_id r = []) (Refused ''accepted order cannot be replayed as new work''))
      (\<lambda>_. if po_kind r = ''credit'' then Inr (''/v1/credits/orders'', CreditOrderBody (po_product_code r) key)
            else if po_kind r = ''membership'' then Inr (''/v1/membership/orders'', MembershipOrderBody (po_product_code r) key)
            else if po_kind r = ''membership_upgrade''
            then (if po_upgrade_quote_id r = []
                  then Inl (Refused ''missing original quote; no replacement quote is allowed'')
                  else Inr (''/v1/membership/upgrade-orders'', UpgradeOrderBody (po_upgrade_quote_id r) key))
            else Inl (Refused ''unsupported saved order type''))"

definition saved_replay_load ::
  "namespace_lease \<Rightarrow> session_scope \<Rightarrow> recovery_documents \<Rightarrow> saved_replay_kind \<Rightarrow> string \<Rightarrow> recovery_failure + saved_replay" where
  "saved_replay_load lease session docs kind key =
    bind_result (ensure (lease_user lease = scope_owner_user_id session \<and> lease_auth_epoch lease = scope_auth_epoch session)
        (Refused ''saved replay creator/namespace mismatch'')) (\<lambda>_.
    bind_result (replay_source docs kind key) (\<lambda>source.
    bind_result (replay_request key source) (\<lambda>(path, body).
    Inr \<lparr>sr_session = session, sr_key = key, sr_payer = source_payer source, sr_source = source, sr_body = body,
      sr_path = path\<rparr>)))"

text \<open>\<open>verify\<close>, right before the request is sent: the saved record must not have changed.\<close>

definition saved_replay_verify ::
  "recovery_documents \<Rightarrow> saved_replay_kind \<Rightarrow> saved_replay \<Rightarrow> recovery_failure + unit" where
  "saved_replay_verify docs kind replay =
    bind_result (replay_source docs kind (sr_key replay))
      (\<lambda>source. ensure (source = sr_source replay) (Refused ''retained replay request changed''))"

section \<open>Properties\<close>

lemma saved_generation_body_request:
  "saved_generation_create_body r = Inr body \<Longrightarrow> body_request_id body = pg_client_request_id r"
  by (auto simp: saved_generation_create_body_def saved_toolbox_body_def saved_video_body_def Let_def
      split: if_splits option.splits sum.splits)

lemma replay_source_found:
  assumes "replay_source docs kind key = Inr source"
  shows "source_key source = key" "\<exists>rows. replay_rows docs kind = Inr rows \<and> source \<in> set rows"
proof -
  from assms obtain rows where rows: "replay_rows docs kind = Inr rows" "List.find (\<lambda>row. source_key row = key) rows = Some source"
    by (auto simp: replay_source_def split: option.splits)
  then obtain i where "i < length rows" "source = rows ! i" "source_key source = key" by (auto simp: find_Some_iff)
  with rows(1) show "source_key source = key" "\<exists>rows. replay_rows docs kind = Inr rows \<and> source \<in> set rows" by auto
qed

text \<open>
  What a body owes to the record, read from the body: which kind of request it may stand for, and where each of
  its fields comes from. Nothing that was accepted or cancelled may be sent.
\<close>

fun generation_sends :: "pending_generation \<Rightarrow> create_body \<Rightarrow> bool" where
  "generation_sends r (TaskBody t) = (pg_task_type r = ''image_generation''
     \<and> ct_client_request_id t = pg_client_request_id r \<and> ct_task_type t = pg_task_type r \<and> ct_model_code t = pg_model_code r
     \<and> ct_prompt t = pg_generation_prompt r \<and> ct_quality t = Some (pg_quality r) \<and> ct_count t = Some (pg_count r)
     \<and> ct_aspect_ratio t = Some (api_aspect_ratio (pg_ratio r)) \<and> ct_reference_file_ids t = Some (pg_uploaded_file_ids r)
     \<and> ct_target_language t = None)"
| "generation_sends r (VideoBody t) = (pg_task_type r = ''image_to_video'' \<and> pg_video_request r = Some t
     \<and> vt_client_request_id t = pg_client_request_id r \<and> vt_task_type t = pg_task_type r \<and> video_task_validate t = Inr ())"
| "generation_sends r (UpscaleBody t) = (pg_task_type r = ''image_upscale''
     \<and> cu_client_request_id t = pg_client_request_id r \<and> cu_task_type t = pg_task_type r \<and> cu_model_code t = pg_model_code r
     \<and> cu_prompt t = pg_generation_prompt r \<and> cu_quality t = pg_quality r \<and> cu_reference_file_ids t = pg_uploaded_file_ids r
     \<and> cu_target_width t = pg_target_width r \<and> cu_target_height t = pg_target_height r)"
| "generation_sends r (ImageEditBody t) = (pg_task_type r = ''image_edit''
     \<and> ce_client_request_id t = pg_client_request_id r \<and> ce_task_type t = pg_task_type r \<and> ce_model_code t = pg_model_code r
     \<and> ce_prompt t = pg_generation_prompt r \<and> ce_quality t = pg_quality r \<and> ce_aspect_ratio t = api_aspect_ratio (pg_ratio r)
     \<and> pg_uploaded_file_ids r = [ce_source_file_id t, ce_mask_file_id t])"
| "generation_sends r (WatermarkBody request file) = (pg_task_type r = ''image_watermark_removal''
     \<and> request = pg_client_request_id r \<and> pg_uploaded_file_ids r = [file] \<and> \<not> is_blank file)"
| "generation_sends r (ColorizationBody request file) = (pg_task_type r = ''image_colorization''
     \<and> request = pg_client_request_id r \<and> pg_uploaded_file_ids r = [file] \<and> \<not> is_blank file)"
| "generation_sends r (EnhancementBody request file quality) = (pg_task_type r = ''image_enhancement''
     \<and> request = pg_client_request_id r \<and> pg_uploaded_file_ids r = [file] \<and> \<not> is_blank file
     \<and> quality = pg_quality r \<and> quality \<in> {''2K'', ''4K''})"
| "generation_sends r (CutoutBody request file subject) = (pg_task_type r = ''image_cutout''
     \<and> request = pg_client_request_id r \<and> pg_uploaded_file_ids r = [file] \<and> \<not> is_blank file
     \<and> subject = pg_quality r \<and> subject \<in> {''general'', ''portrait'', ''avatar'', ''skin'', ''product'', ''clothing'', ''sky''})"
| "generation_sends r _ = False"

fun prompt_sends :: "pending_prompt_task \<Rightarrow> create_body \<Rightarrow> bool" where
  "prompt_sends r (TaskBody t) = (ct_client_request_id t = pt_client_request_id r \<and> ct_task_type t = pt_task_type r
     \<and> ct_model_code t = pt_model_code r \<and> ct_prompt t = pt_prompt r \<and> ct_quality t = None \<and> ct_count t = None
     \<and> ct_aspect_ratio t = None \<and> ct_target_language t = pt_target_language r
     \<and> ct_reference_file_ids t = (if pt_uploaded_file_ids r = [] then None else Some (pt_uploaded_file_ids r)))"
| "prompt_sends r _ = False"

fun order_sends :: "pending_order \<Rightarrow> create_body \<Rightarrow> bool" where
  "order_sends r (CreditOrderBody product request) =
     (po_kind r = ''credit'' \<and> product = po_product_code r \<and> request = po_client_request_id r)"
| "order_sends r (MembershipOrderBody product request) =
     (po_kind r = ''membership'' \<and> product = po_product_code r \<and> request = po_client_request_id r)"
| "order_sends r (UpgradeOrderBody quote request) =
     (po_kind r = ''membership_upgrade'' \<and> quote = po_upgrade_quote_id r \<and> quote \<noteq> [] \<and> request = po_client_request_id r)"
| "order_sends r _ = False"

fun optimization_sends :: "pending_optimization \<Rightarrow> create_body \<Rightarrow> bool" where
  "optimization_sends r (OptimizationBody request) =
     (op_operation r = CreateOptimization request \<and> co_client_request_id request = op_client_request_id r)"
| "optimization_sends r (OptimizationRetryBody request) =
     ((\<exists>job. op_operation r = RetryOptimization job) \<and> request = op_client_request_id r)"
| "optimization_sends r _ = False"

fun source_sends :: "saved_source \<Rightarrow> create_body \<Rightarrow> bool" where
  "source_sends (GenerationSource r) body = (generation_sends r body
     \<and> (length (pg_uploaded_file_ids r) = length (pg_reference_paths r) \<or> pg_reference_paths r = []))"
| "source_sends (PromptSource r) body = (prompt_sends r body \<and> length (pt_uploaded_file_ids r) = length (pt_reference_paths r))"
| "source_sends (DeepSource r) body = optimization_sends r body"
| "source_sends (OrderSource r) body = order_sends r body"

fun still_open :: "saved_source \<Rightarrow> bool" where
  "still_open (GenerationSource r) = (pg_server_task_id r = [] \<and> \<not> pg_cancel_requested r \<and> \<not> pg_canvas_ui_extraction r)"
| "still_open (PromptSource r) = (pt_server_task_id r = [])"
| "still_open (DeepSource r) = (op_server_job_id r = [])"
| "still_open (OrderSource r) = (po_order_id r = [])"

text \<open>The route belongs to the body; the retry of an optimization names the job of the record.\<close>

fun body_route :: "saved_source \<Rightarrow> create_body \<Rightarrow> string" where
  "body_route source (WatermarkBody request file) = ''/v1/toolbox/watermark-removals''"
| "body_route source (ColorizationBody request file) = ''/v1/toolbox/image-colorizations''"
| "body_route source (EnhancementBody request file quality) = ''/v1/toolbox/image-enhancements''"
| "body_route source (CutoutBody request file subject) = ''/v1/toolbox/image-cutouts''"
| "body_route source (OptimizationBody request) = ''/v1/prompt-optimizations''"
| "body_route source (OptimizationRetryBody request) = ''/v1/prompt-optimizations/'' @
     (case source of DeepSource r \<Rightarrow> (case op_operation r of RetryOptimization job \<Rightarrow> job | _ \<Rightarrow> []) | _ \<Rightarrow> []) @ ''/retry''"
| "body_route source (CreditOrderBody product request) = ''/v1/credits/orders''"
| "body_route source (MembershipOrderBody product request) = ''/v1/membership/orders''"
| "body_route source (UpgradeOrderBody quote request) = ''/v1/membership/upgrade-orders''"
| "body_route source _ = ''/v1/generation/tasks''"

lemma one_upload: "length xs = Suc 0 \<Longrightarrow> xs = [xs ! 0]"
  by (cases xs) auto

lemma two_uploads: "length xs = 2 \<Longrightarrow> xs = [xs ! 0, xs ! Suc 0]"
  by (cases xs; cases "tl xs") auto

lemma toolbox_request:
  assumes "saved_toolbox_body r = Inr body" and "saved_generation_create_path r = Inr path"
    and "pg_task_type r \<in> {''image_watermark_removal'', ''image_colorization'', ''image_enhancement'', ''image_cutout''}"
  shows "generation_sends r body \<and> path = body_route (GenerationSource r) body"
proof -
  have one: "length (pg_uploaded_file_ids r) = Suc 0" "\<not> is_blank (pg_uploaded_file_ids r ! 0)"
    using assms(1) by (auto simp: saved_toolbox_body_def split: if_splits)
  show ?thesis
    using assms one_upload [OF one(1)] one(2)
    by (elim insertE emptyE) (simp_all add: saved_toolbox_body_def saved_generation_create_path_def Let_def split: if_splits, auto)
qed

lemma generation_request:
  assumes "saved_generation_create_body r = Inr body" and "saved_generation_create_path r = Inr path"
  shows "source_sends (GenerationSource r) body \<and> path = body_route (GenerationSource r) body"
proof -
  have uploads: "length (pg_uploaded_file_ids r) = length (pg_reference_paths r) \<or> pg_reference_paths r = []"
    using assms(1) by (auto simp: saved_generation_create_body_def split: if_splits)
  consider "pg_task_type r = ''image_to_video''" "saved_video_body r = Inr body"
    | "pg_task_type r \<in> {''image_watermark_removal'', ''image_colorization'', ''image_enhancement'', ''image_cutout''}"
        "saved_toolbox_body r = Inr body"
    | "pg_task_type r = ''image_generation''" | "pg_task_type r = ''image_upscale''" | "pg_task_type r = ''image_edit''"
    using assms(1) uploads by (auto simp: saved_generation_create_body_def split: if_splits)
  then have "generation_sends r body \<and> path = body_route (GenerationSource r) body"
  proof cases
    case 1
    then show ?thesis using assms(2)
      by (auto simp: saved_video_body_def saved_generation_create_path_def split: option.splits sum.splits if_splits)
  next
    case 2
    then show ?thesis using toolbox_request assms(2) by blast
  next
    case 5
    with assms(1) uploads have "length (pg_uploaded_file_ids r) = 2"
      by (auto simp: saved_generation_create_body_def split: if_splits)
    with 5 assms two_uploads [of "pg_uploaded_file_ids r"] show ?thesis
      by (auto simp: saved_generation_create_body_def saved_generation_create_path_def split: if_splits)
  qed (use assms uploads in \<open>auto simp: saved_generation_create_body_def saved_generation_create_path_def split: if_splits\<close>)
  with uploads show ?thesis by simp
qed

lemma replay_request_sends:
  assumes "replay_request key source = Inr (path, body)" and "source_key source = key"
  shows "still_open source \<and> source_sends source body \<and> path = body_route source body"
proof (cases source)
  case (GenerationSource r)
  with assms generation_request [of r body path] show ?thesis by auto
next
  case (PromptSource r)
  with assms show ?thesis by (auto simp: prompt_task_create_request_def)
next
  case (DeepSource r)
  with assms show ?thesis by (auto split: optimization_operation.splits)
next
  case (OrderSource r)
  with assms show ?thesis by (auto split: if_splits)
qed


definition witness_documents :: recovery_documents where
  "witness_documents = \<lparr>rd_generations = (quiet_store, empty_disk), rd_prompts = (quiet_store, empty_disk),
    rd_orders = (quiet_store, saved_orders_disk)\<rparr>"

definition witness_replay :: saved_replay where
  "witness_replay = \<lparr>sr_session = \<lparr>scope_owner_user_id = ''u'', scope_auth_epoch = 1\<rparr>, sr_key = ''k'', sr_payer = ''g'',
    sr_source = OrderSource witness_order, sr_body = CreditOrderBody ''p'' ''k'', sr_path = ''/v1/credits/orders''\<rparr>"


section \<open>Cancellation\<close>

datatype record_change =
    PatchChange generation_patch
  | SaveChange delivery_confirmation string bool
  | SettleChange string bool

fun apply_change :: "record_change \<Rightarrow> pending_generation \<Rightarrow> recovery_failure + pending_generation" where
  "apply_change (PatchChange patch) r = patch_generation patch r"
| "apply_change (SaveChange delivery v failed) r = record_save_delivery delivery v failed r"
| "apply_change (SettleChange v abandon) r =
    bind_result (record_settle_delivery v abandon r) (\<lambda>settled. Inr (case settled of Some r' \<Rightarrow> r' | None \<Rightarrow> r))"

fun apply_changes :: "record_change list \<Rightarrow> pending_generation \<Rightarrow> recovery_failure + pending_generation" where
  "apply_changes [] r = Inr r"
| "apply_changes (change # changes) r = bind_result (apply_change change r) (apply_changes changes)"

lemma apply_change_cancelled:
  assumes "apply_change change r = Inr r'" and "pg_cancel_requested r"
  shows "pg_cancel_requested r'"
proof (cases change)
  case (PatchChange patch)
  with assms show ?thesis by (cases patch) (auto simp: release_reference_inputs_def Let_def split: if_splits)
next
  case (SaveChange delivery v failed)
  with assms show ?thesis by (auto simp: record_save_delivery_def split: sum.splits option.splits)
next
  case (SettleChange v abandon)
  with assms show ?thesis by (auto simp: record_settle_delivery_def split: if_splits sum.splits option.splits)
qed

text \<open>
  A cancellation is final. Once it is recorded, no later change of the record takes it back: the
  start of a submission is refused, and the record is never replayed.
\<close>

theorem cancelled_generation_is_not_submitted:
  assumes "patch_generation RequestCancellation r = Inr r1" and "apply_changes changes r1 = Inr r2"
  shows "is_err (patch_generation BeginSubmission r2) \<and> is_err (replay_request key (GenerationSource r2))"
proof -
  have "pg_cancel_requested r2" if "apply_changes changes r = Inr r2" "pg_cancel_requested r" for r
    using that
  proof (induction changes arbitrary: r)
    case (Cons change changes)
    then show ?case by (auto dest: apply_change_cancelled)
  qed simp
  with assms show ?thesis by auto
qed

theorem cancelled_generation_is_not_submitted_witness:
  "is_err (patch_generation BeginSubmission (witness_generation\<lparr>pg_cancel_requested := True, pg_terminal := True, pg_expected_success_count := 2\<rparr>))"
  using cancelled_generation_is_not_submitted [of witness_generation "witness_generation\<lparr>pg_cancel_requested := True\<rparr>"
      "[PatchChange (Terminal 2)]" "witness_generation\<lparr>pg_cancel_requested := True, pg_terminal := True, pg_expected_success_count := 2\<rparr>" "''k''"]
  by simp

end
