(* ===== verification/Api_Program.thy ===== *)
theory Api_Program
  imports Upgrade_Latch Activity_Gate Session_Manager Recovery_Replay
begin

text \<open>
  What a thread of the service client runs in: the state all threads share, the other threads, the
  server, and the requests sent so far. A client function is a program over this world; a program
  that is still blocked when the schedule or the server's answers end has no result. The rules at
  the end lift an order on worlds from the single steps to whole programs.
\<close>

section \<open>Requests and answers\<close>

text \<open>
  A request as \<open>reqwest\<close> gets it: headers in the order they are added, the JSON body last. An
  answer is a transport failure (\<open>From<reqwest::Error>\<close>), or a status, the \<open>X-Request-ID\<close> header
  and the payload, whose reading may fail as well.
\<close>

record http_request =
  rq_method :: string
  rq_url :: string
  rq_headers :: "(string \<times> string) list"
  rq_body :: "json option"

datatype transport_failure = TimedOut | NotConnected | Interrupted

datatype 'p answer =
    SendFailed transport_failure
  | Response u16 "string option" "transport_failure + 'p"

definition transport_error :: "transport_failure \<Rightarrow> api_error" where
  "transport_error failure =
    (case failure of
       TimedOut \<Rightarrow> Network ''the request timed out'' True
     | NotConnected \<Rightarrow> Network ''cannot connect to the server'' False
     | Interrupted \<Rightarrow> Network ''network communication failed'' False)"

definition header_of :: "http_request \<Rightarrow> string \<Rightarrow> string option" where
  "header_of request name = map_of (rq_headers request) name"

section \<open>The world\<close>

text \<open>
  \<open>sh_user_work\<close> is the once-cell of the user-work admission; \<open>sh_active\<close> the published namespace
  (\<open>None\<close>: its mutex is poisoned). \<open>sh_system\<close> carries, beside the session, the record of the
  tokens issued so far.
\<close>

record 'd shared =
  sh_system :: "'d session_system"
  sh_upgrade :: upgrade_latch
  sh_user_work :: bool
  sh_active :: "namespace_lease option option"
  sh_activity :: activity_state
  sh_documents :: recovery_documents

text \<open>
  \<open>w_env\<close> is the schedule: what the other threads do before each critical section of this one, and
  before each look of a waiting thread at its condition. \<open>w_log\<close> lists the requests sent with the
  answers they got.
\<close>

record ('d, 'p) world =
  w_shared :: "'d shared"
  w_env :: "('d shared \<Rightarrow> 'd shared) list"
  w_answers :: "'p answer list"
  w_log :: "(http_request \<times> 'p answer) list"

type_synonym ('a, 'd, 'p) program = "('d, 'p) world \<Rightarrow> 'a option \<times> ('d, 'p) world"

definition give :: "'a \<Rightarrow> ('a, 'd, 'p) program" where
  "give x w = (Some x, w)"

definition continue_with :: "('a, 'd, 'p) program \<Rightarrow> ('a \<Rightarrow> ('b, 'd, 'p) program) \<Rightarrow> ('b, 'd, 'p) program" where
  "continue_with p f w = (case p w of (None, w') \<Rightarrow> (None, w') | (Some x, w') \<Rightarrow> f x w')"

text \<open>The \<open>?\<close> operator, and \<open>map_err\<close> with a closure that may change state.\<close>

definition try_with ::
  "('e + 'a, 'd, 'p) program \<Rightarrow> ('a \<Rightarrow> ('e + 'b, 'd, 'p) program) \<Rightarrow> ('e + 'b, 'd, 'p) program" where
  "try_with p f = continue_with p (\<lambda>r. case r of Inl e \<Rightarrow> give (Inl e) | Inr x \<Rightarrow> f x)"

definition on_error ::
  "('e + 'a, 'd, 'p) program \<Rightarrow> ('e \<Rightarrow> ('e, 'd, 'p) program) \<Rightarrow> ('e + 'a, 'd, 'p) program" where
  "on_error p h = continue_with p (\<lambda>r. case r of
      Inl e \<Rightarrow> continue_with (h e) (\<lambda>e'. give (Inl e')) | Inr x \<Rightarrow> give (Inr x))"

text \<open>A critical section, a wait on a condition variable, and one round trip.\<close>

definition other_threads :: "('d shared \<Rightarrow> 'd shared) \<Rightarrow> ('d, 'p) world \<Rightarrow> ('d, 'p) world" where
  "other_threads e w = w\<lparr>w_shared := e (w_shared w), w_env := tl (w_env w)\<rparr>"

definition atomically :: "('d shared \<Rightarrow> 'a \<times> 'd shared) \<Rightarrow> ('a, 'd, 'p) program" where
  "atomically f w =
    (case w_env w of
       [] \<Rightarrow> (None, w)
     | e # _ \<Rightarrow>
         (let w' = other_threads e w in
          case f (w_shared w') of (x, s) \<Rightarrow> (Some x, w'\<lparr>w_shared := s\<rparr>)))"

fun await_for :: "('d shared \<Rightarrow> 'a option) \<Rightarrow> ('d shared \<Rightarrow> 'd shared) list \<Rightarrow> ('a, 'd, 'p) program" where
  "await_for condition [] w = (None, w)"
| "await_for condition (e # schedule) w =
    (let w' = other_threads e w in
     case condition (w_shared w') of
       Some x \<Rightarrow> (Some x, w')
     | None \<Rightarrow> await_for condition schedule w')"

definition await :: "('d shared \<Rightarrow> 'a option) \<Rightarrow> ('a, 'd, 'p) program" where
  "await condition w = await_for condition (w_env w) w"

definition transmit :: "http_request \<Rightarrow> ('p answer, 'd, 'p) program" where
  "transmit request w =
    (case w_answers w of
       [] \<Rightarrow> (None, w)
     | a # answers \<Rightarrow> (Some a, w\<lparr>w_answers := answers, w_log := w_log w @ [(request, a)]\<rparr>))"

section \<open>Critical sections of the components\<close>

definition look :: "('d shared \<Rightarrow> 'a) \<Rightarrow> 'd shared \<Rightarrow> 'a \<times> 'd shared" where
  "look f s = (f s, s)"

definition on_upgrade :: "(upgrade_latch \<Rightarrow> 'a \<times> upgrade_latch) \<Rightarrow> 'd shared \<Rightarrow> 'a \<times> 'd shared" where
  "on_upgrade f s = (case f (sh_upgrade s) of (x, l) \<Rightarrow> (x, s\<lparr>sh_upgrade := l\<rparr>))"

definition on_activity :: "(activity_state \<Rightarrow> 'a \<times> activity_state) \<Rightarrow> 'd shared \<Rightarrow> 'a \<times> 'd shared" where
  "on_activity f s = (case f (sh_activity s) of (x, a) \<Rightarrow> (x, s\<lparr>sh_activity := a\<rparr>))"

text \<open>\<open>issued\<close> names the tokens an operation hands out for the first time.\<close>

definition on_session ::
  "(session_state \<times> 'd \<Rightarrow> 'a \<times> session_state \<times> 'd) \<Rightarrow> ('a \<Rightarrow> issued_tokens) \<Rightarrow> 'd shared \<Rightarrow> 'a \<times> 'd shared" where
  "on_session f issued s =
    (case f (sy_state (sh_system s), sy_disk (sh_system s)) of
       (x, t, d) \<Rightarrow> (x, s\<lparr>sh_system := \<lparr>sy_state = t, sy_disk = d,
           sy_issued = issued x \<union> sy_issued (sh_system s)\<rparr>\<rparr>))"

abbreviation sh_session :: "'d shared \<Rightarrow> session_state" where
  "sh_session s \<equiv> sy_state (sh_system s)"

section \<open>Orders on worlds\<close>

text \<open>
  \<open>moves R p\<close>: wherever the program stops, blocked or finished, the world it leaves is above the
  one it was started in.
\<close>

definition moves :: "(('d, 'p) world \<Rightarrow> ('d, 'p) world \<Rightarrow> bool) \<Rightarrow> ('a, 'd, 'p) program \<Rightarrow> bool" where
  "moves R p = (\<forall>w. R w (snd (p w)))"

text \<open>\<open>yields P p\<close>: a result of the program satisfies \<open>P\<close> in the world it is returned in.\<close>

definition yields :: "('a \<Rightarrow> ('d, 'p) world \<Rightarrow> bool) \<Rightarrow> ('a, 'd, 'p) program \<Rightarrow> bool" where
  "yields P p = (\<forall>w x w'. p w = (Some x, w') \<longrightarrow> P x w')"

locale world_order =
  fixes R :: "('d, 'p) world \<Rightarrow> ('d, 'p) world \<Rightarrow> bool"
  assumes world_refl: "R w w"
    and world_trans: "R u v \<Longrightarrow> R v w \<Longrightarrow> R u w"
begin

lemma moves_give: "moves R (give x)"
  by (simp add: moves_def give_def world_refl)

lemma moves_continue:
  assumes "moves R p" and "\<And>x. moves R (f x)"
  shows "moves R (continue_with p f)"
  unfolding moves_def
proof
  fix w
  obtain r v where p: "p w = (r, v)" by (cases "p w")
  with assms(1) have "R w v" by (metis moves_def snd_conv)
  with p assms(2) show "R w (snd (continue_with p f w))"
    by (cases r) (auto simp: continue_with_def moves_def intro: world_trans)
qed

lemma moves_try: "moves R p \<Longrightarrow> (\<And>x. moves R (f x)) \<Longrightarrow> moves R (try_with p f)"
  unfolding try_with_def by (rule moves_continue) (auto simp: moves_give split: sum.split)

lemma moves_on_error: "moves R p \<Longrightarrow> (\<And>e. moves R (h e)) \<Longrightarrow> moves R (on_error p h)"
  unfolding on_error_def by (rule moves_continue) (auto simp: moves_give intro: moves_continue split: sum.split)

lemma moves_if: "(b \<Longrightarrow> moves R p) \<Longrightarrow> (\<not> b \<Longrightarrow> moves R q) \<Longrightarrow> moves R (if b then p else q)"
  by simp

lemma moves_await_for:
  assumes "\<And>e es u. w_env u = e # es \<Longrightarrow> R u (other_threads e u)" and "w_env w = schedule"
  shows "R w (snd (await_for condition schedule w))"
  using assms(2)
proof (induction condition schedule w rule: await_for.induct)
  case (2 condition e schedule w)
  have "R w (other_threads e w)" using assms(1) 2(2) by blast
  moreover have "w_env (other_threads e w) = schedule" using 2(2) by (simp add: other_threads_def)
  ultimately show ?case
    using 2(1) by (auto simp: Let_def intro: world_trans split: option.split)
qed (simp add: world_refl)

end

end
