(* ===== verification/Api_Client.thy ===== *)
theory Api_Client
  imports Api_Program
begin

text \<open>
  The client of the service (\<open>ApiClient\<close> in \<open>native-client/src/runtime/api/client.rs\<close>): sending one
  request under the upgrade fence, reading the envelope of the answer, refreshing the access token
  once when the server rejects it, and ending the session on a terminal answer. The functions of
  \<open>api/session.rs\<close> that call back into the client are put together here from their critical
  sections in \<open>Session_Manager\<close>.
\<close>

section \<open>The client\<close>

text \<open>The envelope of \<open>api/types.rs\<close>; \<open>'t\<close> is the type of the expected data.\<close>

record api_problem =
  problem_code :: string
  problem_message :: string
  problem_details :: "json option"

record api_meta = next_cursor :: "string option"

record 't api_envelope =
  envelope_request_id :: string
  envelope_data :: "'t option"
  envelope_error :: "api_problem option"
  envelope_meta :: "api_meta option"

record 't api_response =
  response_request_id :: string
  response_data :: 't
  response_meta :: "api_meta option"

text \<open>
  What the client is built from. Third-party code: \<open>cl_join\<close> is \<open>Url::join\<close> on the base address,
  \<open>cl_new_id\<close> the UUID of the n-th request, \<open>cl_envelope\<close> and \<open>cl_tokens\<close> are \<open>serde_json\<close> reading
  an envelope with data of any shape and with a token set.
\<close>

record ('d, 'p) api_client =
  cl_join :: "string \<Rightarrow> string + string"
  cl_app_version :: string
  cl_device_id :: string
  cl_new_id :: "nat \<Rightarrow> string"
  cl_envelope :: "'p \<Rightarrow> string + json api_envelope"
  cl_tokens :: "'p \<Rightarrow> string + token_set api_envelope"
  cl_parse_uuid :: uuid_parser
  cl_store :: "'d refresh_token_store"

type_synonym ('t, 'd, 'p) call = "(api_error + 't api_response, 'd, 'p) program"

definition endpoint :: "('d, 'p) api_client \<Rightarrow> string \<Rightarrow> api_error + string" where
  "endpoint client path =
    (case cl_join client (dropWhile (\<lambda>c. c = CHR ''/'') path) of
       Inl e \<Rightarrow> Inl (Configuration (''cannot build the service address: '' @ e))
     | Inr url \<Rightarrow> Inr url)"

section \<open>One round trip\<close>

text \<open>What the payload says; an exact upgrade answer counts even when its data would not parse.\<close>

datatype 't outcome = Failed api_error | UpgradeNeeded required_upgrade | Decoded "'t api_response"

definition problem_error :: "u16 \<Rightarrow> json api_envelope \<Rightarrow> api_error" where
  "problem_error status envelope =
    (let problem = (case envelope_error envelope of
         Some p \<Rightarrow> p
       | None \<Rightarrow> \<lparr>problem_code = ''request_error'', problem_message = ''HTTP status'', problem_details = None\<rparr>)
     in Http status (problem_code problem) (problem_message problem) (Some (envelope_request_id envelope))
          (problem_details problem))"

definition read_success ::
  "('p \<Rightarrow> string + 't api_envelope) \<Rightarrow> 'p \<Rightarrow> string \<Rightarrow> 't outcome" where
  "read_success parse payload request_id =
    (case parse payload of
       Inl e \<Rightarrow> Failed (Protocol (''cannot read the answer: '' @ e) (Some request_id))
     | Inr typed \<Rightarrow>
         (case envelope_data typed of
            None \<Rightarrow> Failed (Protocol ''a successful answer without data'' (Some (envelope_request_id typed)))
          | Some x \<Rightarrow> Decoded \<lparr>response_request_id = envelope_request_id typed, response_data = x,
              response_meta = envelope_meta typed\<rparr>))"

definition decode_answer ::
  "('d, 'p) api_client \<Rightarrow> ('p \<Rightarrow> string + 't api_envelope) \<Rightarrow> 'p answer \<Rightarrow> 't outcome" where
  "decode_answer client parse answer =
    (case answer of
       SendFailed failure \<Rightarrow> Failed (transport_error failure)
     | Response status request_id (Inl failure) \<Rightarrow> Failed (transport_error failure)
     | Response status request_id (Inr payload) \<Rightarrow>
         (case cl_envelope client payload of
            Inl e \<Rightarrow> Failed (Protocol (''cannot read the answer: '' @ e) request_id)
          | Inr envelope \<Rightarrow>
              if \<not> (200 \<le> status \<and> status < 300) \<or> envelope_error envelope \<noteq> None
              then (case from_error (problem_error status envelope) of
                  Some required \<Rightarrow> UpgradeNeeded required
                | None \<Rightarrow> Failed (problem_error status envelope))
              else read_success parse payload (envelope_request_id envelope)))"

text \<open>The permit of the transfer is given back when \<open>execute\<close> returns.\<close>

definition drop_transfer :: "(unit, 'd, 'p) program" where
  "drop_transfer = atomically (on_upgrade (\<lambda>l. ((), permit_drop OrdinaryTransfer l)))"

definition returning :: "'r \<Rightarrow> ('r, 'd, 'p) program" where
  "returning r = continue_with drop_transfer (\<lambda>_. give r)"

text \<open>
  After the answer arrived: an upgrade answer closes the latch, gives the permit back with it and
  waits for the other permits; a decoded answer counts only while the latch is open.
\<close>

definition settle ::
  "('d, 'p) api_client \<Rightarrow> ('p \<Rightarrow> string + 't api_envelope) \<Rightarrow> 'p answer \<Rightarrow> ('t, 'd, 'p) call" where
  "settle client parse answer =
    (case decode_answer client parse answer of
       Failed e \<Rightarrow> returning (Inl e)
     | UpgradeNeeded required \<Rightarrow>
         continue_with (atomically (on_upgrade (\<lambda>l. ((), latch_trip_from_transfer required l)))) (\<lambda>_.
         continue_with (await (\<lambda>s. if latch_drained (latch_lock (sh_upgrade s)) then Some () else None)) (\<lambda>_.
         give (Inl (as_error required))))
     | Decoded response \<Rightarrow>
         continue_with (atomically (on_upgrade (latch_apply_if_open response))) (\<lambda>applied.
         returning (case applied of Inl required \<Rightarrow> Inl (as_error required) | Inr r \<Rightarrow> Inr r)))"

definition execute ::
  "('d, 'p) api_client \<Rightarrow> ('p \<Rightarrow> string + 't api_envelope) \<Rightarrow> http_request \<Rightarrow> ('t, 'd, 'p) call" where
  "execute client parse request =
    continue_with (atomically (on_upgrade (latch_begin OrdinaryTransfer))) (\<lambda>admitted.
      case admitted of
        Inl required \<Rightarrow> give (Inl (as_error required))
      | Inr _ \<Rightarrow> continue_with (transmit request) (settle client parse))"

definition request_headers ::
  "('d, 'p) api_client \<Rightarrow> string \<Rightarrow> string option \<Rightarrow> string option \<Rightarrow> string option \<Rightarrow> (string \<times> string) list" where
  "request_headers client request_id key token account_group =
    [(''X-Request-ID'', request_id)]
    @ (case token of Some t \<Rightarrow> [(''X-Token'', t), (''X-Client-Version'', cl_app_version client),
         (''X-Device-ID'', cl_device_id client)] | None \<Rightarrow> [])
    @ (case key of Some k \<Rightarrow> [(''Idempotency-Key'', k)] | None \<Rightarrow> [])
    @ (case account_group of Some g \<Rightarrow> [(''X-Account-Group-ID'', g)] | None \<Rightarrow> [])"

definition send_once ::
  "('d, 'p) api_client \<Rightarrow> ('p \<Rightarrow> string + 't api_envelope) \<Rightarrow> string \<Rightarrow> string \<Rightarrow> json option
    \<Rightarrow> string option \<Rightarrow> string option \<Rightarrow> string option \<Rightarrow> ('t, 'd, 'p) call" where
  "send_once client parse verb path body key token account_group =
    (if account_group \<noteq> None \<and> token = None
     then give (Inl (Protocol ''the account group header needs an authenticated session'' None))
     else (case endpoint client path of
         Inl e \<Rightarrow> give (Inl e)
       | Inr url \<Rightarrow> (\<lambda>w. execute client parse
           \<lparr>rq_method = verb, rq_url = url,
            rq_headers = request_headers client (cl_new_id client (length (w_log w))) key token account_group,
            rq_body = body\<rparr> w)))"

definition public_json ::
  "('d, 'p) api_client \<Rightarrow> ('p \<Rightarrow> string + 't api_envelope) \<Rightarrow> string \<Rightarrow> string \<Rightarrow> json option \<Rightarrow> ('t, 'd, 'p) call" where
  "public_json client parse verb path body = send_once client parse verb path body None None None"

definition public_json_idempotent ::
  "('d, 'p) api_client \<Rightarrow> ('p \<Rightarrow> string + 't api_envelope) \<Rightarrow> string \<Rightarrow> string \<Rightarrow> json option \<Rightarrow> string
    \<Rightarrow> ('t, 'd, 'p) call" where
  "public_json_idempotent client parse verb path body key = send_once client parse verb path body (Some key) None None"

definition authenticated_json_with_fixed_token ::
  "('d, 'p) api_client \<Rightarrow> ('p \<Rightarrow> string + 't api_envelope) \<Rightarrow> string \<Rightarrow> string \<Rightarrow> json option \<Rightarrow> string
    \<Rightarrow> ('t, 'd, 'p) call" where
  "authenticated_json_with_fixed_token client parse verb path body token =
    send_once client parse verb path body None (Some token) None"

definition request_refresh :: "('d, 'p) api_client \<Rightarrow> string \<Rightarrow> (api_error + token_set, 'd, 'p) program" where
  "request_refresh client token =
    try_with (public_json client (cl_tokens client) ''POST'' ''/v1/auth/refresh''
        (Some (JObject [(''refresh_token'', JString token), (''device_id'', JString (cl_device_id client)),
           (''app_version'', JString (cl_app_version client))])))
      (\<lambda>response. give (Inr (response_data response)))"

section \<open>Tokens\<close>

text \<open>The session functions with their waits and the network call between two critical sections.\<close>

definition nothing_issued :: "'a \<Rightarrow> issued_tokens" where
  "nothing_issued x = {}"

definition issued_for :: "session_scope \<Rightarrow> api_error + string \<Rightarrow> issued_tokens" where
  "issued_for scope r = (case r of Inr t \<Rightarrow> {(scope, t)} | Inl _ \<Rightarrow> {})"

definition access_token_for_scope :: "session_scope \<Rightarrow> (api_error + string, 'd, 'p) program" where
  "access_token_for_scope scope =
    try_with (atomically (look (\<lambda>s. access_token_for_scope_enter scope (sh_session s)))) (\<lambda>entered.
      case entered of
        Inl token \<Rightarrow> give (Inr token)
      | Inr observed \<Rightarrow> await (\<lambda>s. access_token_for_scope_wake scope observed (sh_session s)))"

definition access_token_for_epoch :: "u64 \<Rightarrow> (api_error + string, 'd, 'p) program" where
  "access_token_for_epoch auth_epoch =
    try_with (atomically (look (\<lambda>s. access_token_for_epoch_enter auth_epoch (sh_session s)))) (\<lambda>entered.
      case entered of
        Inl token \<Rightarrow> give (Inr token)
      | Inr observed \<Rightarrow> await (\<lambda>s. access_token_for_epoch_wake auth_epoch observed (sh_session s)))"

definition refresh_scope ::
  "('d, 'p) api_client \<Rightarrow> session_scope \<Rightarrow> string option \<Rightarrow> (api_error + string, 'd, 'p) program" where
  "refresh_scope client scope rejected =
    continue_with (atomically (on_session (refresh_scope_begin (cl_store client) scope rejected) nothing_issued)) (\<lambda>begun.
      case begun of
        Finished r \<Rightarrow> give r
      | WaitForRefresh observed \<Rightarrow> await (\<lambda>s. refresh_scope_wake scope observed (sh_session s))
      | CallServer captured \<Rightarrow>
          continue_with (request_refresh client (rs_refresh_token captured)) (\<lambda>answer.
          atomically (on_session (refresh_scope_finish (cl_store client) scope captured answer) (issued_for scope))))"

definition refresh_epoch ::
  "('d, 'p) api_client \<Rightarrow> u64 \<Rightarrow> string option \<Rightarrow> (api_error + string, 'd, 'p) program" where
  "refresh_epoch client auth_epoch rejected =
    try_with (atomically (look (\<lambda>s. refresh_epoch_scope auth_epoch (sh_session s))))
      (\<lambda>scope. refresh_scope client scope rejected)"

definition refresh_persisted_owner ::
  "('d, 'p) api_client \<Rightarrow> string \<Rightarrow> (api_error + session_scope, 'd, 'p) program" where
  "refresh_persisted_owner client owner =
    try_with (atomically (on_session (refresh_persisted_begin (cl_parse_uuid client) (cl_store client) owner) nothing_issued))
      (\<lambda>(auth_epoch, captured).
        continue_with (request_refresh client (rs_refresh_token captured)) (\<lambda>answer.
        atomically (on_session (refresh_persisted_finish (cl_store client) owner auth_epoch captured answer)
          (\<lambda>r. case answer of Inr tokens \<Rightarrow> issue_on_success r (access_token tokens) {} | Inl _ \<Rightarrow> {}))))"

definition clear_scope_on_error ::
  "('d, 'p) api_client \<Rightarrow> (api_error \<Rightarrow> bool) \<Rightarrow> session_scope \<Rightarrow> api_error \<Rightarrow> (api_error, 'd, 'p) program" where
  "clear_scope_on_error client fatal scope e =
    (if fatal e
     then continue_with (atomically (on_session (clear_scope (cl_store client) scope) nothing_issued)) (\<lambda>_. give e)
     else give e)"

definition clear_epoch_on_error ::
  "('d, 'p) api_client \<Rightarrow> (api_error \<Rightarrow> bool) \<Rightarrow> u64 \<Rightarrow> api_error \<Rightarrow> (api_error, 'd, 'p) program" where
  "clear_epoch_on_error client fatal auth_epoch e =
    (if fatal e
     then continue_with (atomically (on_session (clear_epoch (cl_store client) auth_epoch) nothing_issued)) (\<lambda>_. give e)
     else give e)"

definition exhausted_auth_error :: "api_error \<Rightarrow> bool" where
  "exhausted_auth_error e = (is_access_token_rejected e \<or> is_terminal_session_error e)"

definition clear_scope_on_terminal_error where
  "clear_scope_on_terminal_error client = clear_scope_on_error client is_terminal_session_error"

definition clear_scope_on_exhausted_auth_error where
  "clear_scope_on_exhausted_auth_error client = clear_scope_on_error client exhausted_auth_error"

definition clear_epoch_on_terminal_error where
  "clear_epoch_on_terminal_error client = clear_epoch_on_error client is_terminal_session_error"

definition clear_epoch_on_exhausted_auth_error where
  "clear_epoch_on_exhausted_auth_error client = clear_epoch_on_error client exhausted_auth_error"

definition access_or_refresh_scope ::
  "('d, 'p) api_client \<Rightarrow> session_scope \<Rightarrow> (api_error + string, 'd, 'p) program" where
  "access_or_refresh_scope client scope =
    continue_with (access_token_for_scope scope) (\<lambda>r.
      case r of
        Inr token \<Rightarrow> give (Inr token)
      | Inl AuthenticationRequired \<Rightarrow>
          continue_with (atomically (look (\<lambda>s. is_scope_current scope (sh_session s)))) (\<lambda>current.
            if current
            then on_error (refresh_scope client scope None) (clear_scope_on_terminal_error client scope)
            else on_error (give (Inl AuthenticationRequired)) (clear_scope_on_terminal_error client scope))
      | Inl e \<Rightarrow> on_error (give (Inl e)) (clear_scope_on_terminal_error client scope))"

definition access_or_refresh_epoch ::
  "('d, 'p) api_client \<Rightarrow> u64 \<Rightarrow> (api_error + string, 'd, 'p) program" where
  "access_or_refresh_epoch client auth_epoch =
    continue_with (access_token_for_epoch auth_epoch) (\<lambda>r.
      case r of
        Inr token \<Rightarrow> give (Inr token)
      | Inl AuthenticationRequired \<Rightarrow>
          continue_with (atomically (look (\<lambda>s. ss_auth_epoch (sh_session s) = auth_epoch))) (\<lambda>current.
            if current
            then on_error (refresh_epoch client auth_epoch None) (clear_epoch_on_terminal_error client auth_epoch)
            else on_error (give (Inl AuthenticationRequired)) (clear_epoch_on_terminal_error client auth_epoch))
      | Inl e \<Rightarrow> on_error (give (Inl e)) (clear_epoch_on_terminal_error client auth_epoch))"

definition refresh_session_epoch :: "('d, 'p) api_client \<Rightarrow> u64 \<Rightarrow> (api_error + string, 'd, 'p) program" where
  "refresh_session_epoch client auth_epoch =
    on_error (refresh_epoch client auth_epoch None) (clear_epoch_on_terminal_error client auth_epoch)"

definition refresh_session :: "('d, 'p) api_client \<Rightarrow> (api_error + string, 'd, 'p) program" where
  "refresh_session client =
    continue_with (atomically (look (\<lambda>s. ss_auth_epoch (sh_session s)))) (refresh_session_epoch client)"

section \<open>Authenticated calls\<close>

definition send_once_scope ::
  "('d, 'p) api_client \<Rightarrow> ('p \<Rightarrow> string + 't api_envelope) \<Rightarrow> string \<Rightarrow> string \<Rightarrow> json option
    \<Rightarrow> string option \<Rightarrow> string option \<Rightarrow> session_scope \<Rightarrow> string option \<Rightarrow> ('t, 'd, 'p) call" where
  "send_once_scope client parse verb path body key token scope account_group =
    on_error (send_once client parse verb path body key token account_group) (clear_scope_on_terminal_error client scope)"

definition send_once_epoch ::
  "('d, 'p) api_client \<Rightarrow> ('p \<Rightarrow> string + 't api_envelope) \<Rightarrow> string \<Rightarrow> string \<Rightarrow> json option
    \<Rightarrow> string option \<Rightarrow> string option \<Rightarrow> u64 \<Rightarrow> ('t, 'd, 'p) call" where
  "send_once_epoch client parse verb path body key token auth_epoch =
    on_error (send_once client parse verb path body key token None) (clear_epoch_on_terminal_error client auth_epoch)"

text \<open>The arm of a rejected token: one refresh, and the request once more.\<close>

definition retry_once_scope ::
  "('d, 'p) api_client \<Rightarrow> ('p \<Rightarrow> string + 't api_envelope) \<Rightarrow> string \<Rightarrow> string \<Rightarrow> json option
    \<Rightarrow> string option \<Rightarrow> string \<Rightarrow> session_scope \<Rightarrow> string option \<Rightarrow> ('t, 'd, 'p) call" where
  "retry_once_scope client parse verb path body key token scope account_group =
    try_with (on_error (refresh_scope client scope (Some token)) (clear_scope_on_terminal_error client scope)) (\<lambda>refreshed.
      on_error (send_once client parse verb path body key (Some refreshed) account_group)
        (clear_scope_on_exhausted_auth_error client scope))"

definition authenticated_json_with_scope ::
  "('d, 'p) api_client \<Rightarrow> ('p \<Rightarrow> string + 't api_envelope) \<Rightarrow> string \<Rightarrow> string \<Rightarrow> json option
    \<Rightarrow> string option \<Rightarrow> session_scope \<Rightarrow> string option \<Rightarrow> ('t, 'd, 'p) call" where
  "authenticated_json_with_scope client parse verb path body key scope account_group =
    try_with (access_or_refresh_scope client scope) (\<lambda>token.
    continue_with (send_once_scope client parse verb path body key (Some token) scope account_group) (\<lambda>first.
      case first of
        Inr response \<Rightarrow> give (Inr response)
      | Inl e \<Rightarrow>
          if is_access_token_rejected e
          then retry_once_scope client parse verb path body key token scope account_group
          else give (Inl e)))"

definition identity_json_scoped ::
  "('d, 'p) api_client \<Rightarrow> ('p \<Rightarrow> string + 't api_envelope) \<Rightarrow> string \<Rightarrow> string \<Rightarrow> json option
    \<Rightarrow> string option \<Rightarrow> session_scope \<Rightarrow> ('t, 'd, 'p) call" where
  "identity_json_scoped client parse verb path body key scope =
    authenticated_json_with_scope client parse verb path body key scope None"

definition authenticated_json_scoped ::
  "('d, 'p) api_client \<Rightarrow> ('p \<Rightarrow> string + 't api_envelope) \<Rightarrow> string \<Rightarrow> string \<Rightarrow> json option
    \<Rightarrow> string option \<Rightarrow> session_scope \<Rightarrow> ('t, 'd, 'p) call" where
  "authenticated_json_scoped client parse verb path body key scope =
    identity_json_scoped client parse verb path body key scope"

definition billing_json_scoped ::
  "('d, 'p) api_client \<Rightarrow> ('p \<Rightarrow> string + 't api_envelope) \<Rightarrow> string \<Rightarrow> string \<Rightarrow> json option
    \<Rightarrow> string option \<Rightarrow> billing_scope \<Rightarrow> ('t, 'd, 'p) call" where
  "billing_json_scoped client parse verb path body key scope =
    on_error (authenticated_json_with_scope client parse verb path body key
        (request_session (billing_request scope)) (Some (request_account_group_id (billing_request scope))))
      (\<lambda>e. give (with_billing_payer e (request_account_group_id (billing_request scope))))"

definition retry_once_epoch ::
  "('d, 'p) api_client \<Rightarrow> ('p \<Rightarrow> string + 't api_envelope) \<Rightarrow> string \<Rightarrow> string \<Rightarrow> json option
    \<Rightarrow> string option \<Rightarrow> string \<Rightarrow> u64 \<Rightarrow> ('t, 'd, 'p) call" where
  "retry_once_epoch client parse verb path body key token auth_epoch =
    try_with (on_error (refresh_epoch client auth_epoch (Some token)) (clear_epoch_on_terminal_error client auth_epoch))
      (\<lambda>refreshed. on_error (send_once client parse verb path body key (Some refreshed) None)
        (clear_epoch_on_exhausted_auth_error client auth_epoch))"

definition authenticated_json_epoch ::
  "('d, 'p) api_client \<Rightarrow> ('p \<Rightarrow> string + 't api_envelope) \<Rightarrow> string \<Rightarrow> string \<Rightarrow> json option
    \<Rightarrow> string option \<Rightarrow> u64 \<Rightarrow> ('t, 'd, 'p) call" where
  "authenticated_json_epoch client parse verb path body key auth_epoch =
    try_with (access_or_refresh_epoch client auth_epoch) (\<lambda>token.
    continue_with (send_once_epoch client parse verb path body key (Some token) auth_epoch) (\<lambda>first.
      case first of
        Inr response \<Rightarrow> give (Inr response)
      | Inl e \<Rightarrow>
          if is_access_token_rejected e
          then retry_once_epoch client parse verb path body key token auth_epoch
          else give (Inl e)))"

definition authenticated_json ::
  "('d, 'p) api_client \<Rightarrow> ('p \<Rightarrow> string + 't api_envelope) \<Rightarrow> string \<Rightarrow> string \<Rightarrow> json option
    \<Rightarrow> string option \<Rightarrow> ('t, 'd, 'p) call" where
  "authenticated_json client parse verb path body key =
    continue_with (atomically (look (\<lambda>s. ss_auth_epoch (sh_session s))))
      (authenticated_json_epoch client parse verb path body key)"

section \<open>Work of a user\<close>

definition transition_error :: "'e \<Rightarrow> api_error" where
  "transition_error e = LocalState ''the account switch did not finish''"

definition admit_user_work :: "session_scope \<Rightarrow> 'd shared \<Rightarrow> (api_error + namespace_lease) \<times> 'd shared" where
  "admit_user_work scope s =
    (if \<not> sh_user_work s then (Inl (LocalState ''the entry of user work is not active''), s)
     else (case on_activity (user_work_begin (sh_active s) scope) s of
         (Inl e, s') \<Rightarrow> (Inl (transition_error e), s')
       | (Inr unit, s') \<Rightarrow> (Inr unit, s')))"

definition begin_user_work :: "session_scope \<Rightarrow> (api_error + namespace_lease, 'd, 'p) program" where
  "begin_user_work scope =
    continue_with (atomically (on_upgrade latch_snapshot)) (\<lambda>required.
      case required of
        Some r \<Rightarrow> give (Inl (as_error r))
      | None \<Rightarrow>
          continue_with (atomically (look (\<lambda>s. is_scope_current scope (sh_session s)))) (\<lambda>current.
            if \<not> current then give (Inl AuthenticationRequired) else atomically (admit_user_work scope)))"

definition drop_user_work :: "namespace_lease \<Rightarrow> (unit, 'd, 'p) program" where
  "drop_user_work unit = atomically (on_activity (\<lambda>a. ((), activity_permit_drop unit a)))"

text \<open>\<open>UserWorkAdmission::is_current\<close> begins a unit and drops it at once.\<close>

definition user_work_is_current :: "session_scope \<Rightarrow> (bool, 'd, 'p) program" where
  "user_work_is_current scope =
    continue_with (atomically (on_upgrade latch_snapshot)) (\<lambda>required.
      if required \<noteq> None then give False
      else continue_with (atomically (look (\<lambda>s. is_scope_current scope (sh_session s)))) (\<lambda>current.
        if \<not> current then give False
        else continue_with (atomically (admit_user_work scope)) (\<lambda>admitted.
          case admitted of
            Inl _ \<Rightarrow> give False
          | Inr unit \<Rightarrow> continue_with (drop_user_work unit) (\<lambda>_. give True))))"

text \<open>\<open>encode\<close> is the JSON encoding of the saved body.\<close>

definition replay_saved ::
  "('d, 'p) api_client \<Rightarrow> ('p \<Rightarrow> string + 't api_envelope) \<Rightarrow> (create_body \<Rightarrow> json) \<Rightarrow> saved_replay_kind
    \<Rightarrow> saved_replay \<Rightarrow> ('t, 'd, 'p) call" where
  "replay_saved client parse encode kind request =
    try_with (begin_user_work (sr_session request)) (\<lambda>unit.
    continue_with
      (continue_with (atomically (look (\<lambda>s. saved_replay_verify (sh_documents s) kind request))) (\<lambda>verified.
        case verified of
          Inl e \<Rightarrow> give (Inl (transition_error e))
        | Inr _ \<Rightarrow>
            on_error (authenticated_json_with_scope client parse ''POST'' (sr_path request)
                (Some (encode (sr_body request))) (Some (sr_key request)) (sr_session request) (Some (sr_payer request)))
              (\<lambda>e. give (with_billing_payer e (sr_payer request)))))
      (\<lambda>r. continue_with (drop_user_work unit) (\<lambda>_. give r)))"

end
