(* ===== verification/Api_Client_Properties.thy ===== *)
theory Api_Client_Properties
  imports Api_Client
begin

text \<open>
  What the calls of \<open>Api_Client\<close> guarantee whatever the other threads do, as long as those act on the
  session and on the upgrade latch through their operations: which requests are sent and with which
  token, that nothing is sent behind a closed latch, what a terminal answer leaves behind, and that a
  call returns.
\<close>

section \<open>What every thread guarantees\<close>

definition guarantee :: "('d, 'p) api_client \<Rightarrow> 'd shared \<Rightarrow> 'd shared \<Rightarrow> bool" where
  "guarantee client s t =
    ((session_step (cl_parse_uuid client) (cl_store client))\<^sup>*\<^sup>* (sh_system s) (sh_system t)
     \<and> (\<forall>r. latch_required (sh_upgrade s) = Some r \<longrightarrow> latch_required (sh_upgrade t) = Some r))"

definition env_ok :: "('d, 'p) api_client \<Rightarrow> ('d, 'p) world \<Rightarrow> bool" where
  "env_ok client w = (\<forall>e \<in> set (w_env w). \<forall>s. guarantee client s (e s))"

named_theorems guarantees

lemma guarantee_refl: "guarantee client s s"
  by (simp add: guarantee_def)

lemma guarantee_trans: "guarantee client s t \<Longrightarrow> guarantee client t u \<Longrightarrow> guarantee client s u"
  unfolding guarantee_def by (meson rtranclp_trans)

lemma guarantee_look [guarantees]: "guarantee client s (snd (look f s))"
  by (simp add: look_def guarantee_refl)

lemma guarantee_same [simp]:
  "guarantee client s (s\<lparr>sh_activity := a\<rparr>)"
  by (simp add: guarantee_def)

lemma guarantee_activity [guarantees]: "guarantee client s (snd (on_activity f s))"
  by (simp add: on_activity_def split: prod.split)

lemma guarantee_admit [guarantees]: "guarantee client s (snd (admit_user_work scope s))"
  using guarantee_activity [of client s "user_work_begin (sh_active s) scope"]
  by (auto simp: admit_user_work_def guarantee_refl split: prod.splits sum.splits)

lemma guarantee_latch:
  assumes "\<And>r. latch_required (sh_upgrade s) = Some r \<Longrightarrow> latch_required (snd (f (sh_upgrade s))) = Some r"
  shows "guarantee client s (snd (on_upgrade f s))"
  using assms by (auto simp: on_upgrade_def guarantee_def split: prod.split)

lemma guarantee_latch_ops [guarantees]:
  "guarantee client s (snd (on_upgrade (latch_begin kind) s))"
  "guarantee client s (snd (on_upgrade (latch_apply_if_open x) s))"
  "guarantee client s (snd (on_upgrade latch_snapshot s))"
  "guarantee client s (snd (on_upgrade (\<lambda>l. ((), permit_drop kind l)) s))"
  "guarantee client s (snd (on_upgrade (\<lambda>l. ((), latch_trip_from_transfer required l)) s))"
  by (rule guarantee_latch;
      simp add: latch_begin_def latch_apply_if_open_def latch_snapshot_def Let_def latch_lock_required
        latch_trip_from_transfer_def count_down_def latch_close_def)+

lemma guarantee_session:
  assumes "\<And>x t d. f (sy_state y, sy_disk y) = (x, t, d) \<Longrightarrow>
      session_step (cl_parse_uuid client) (cl_store client) y
        \<lparr>sy_state = t, sy_disk = d, sy_issued = issued x \<union> sy_issued y\<rparr>"
    and "y = sh_system s"
  shows "guarantee client s (snd (on_session f issued s))"
  using assms by (auto simp: on_session_def guarantee_def split: prod.split)

lemma guarantee_session_ops [guarantees]:
  "guarantee client s (snd (on_session (refresh_scope_begin (cl_store client) scope rejected) nothing_issued s))"
  "guarantee client s (snd (on_session (clear_scope (cl_store client) scope) nothing_issued s))"
  "guarantee client s (snd (on_session (clear_epoch (cl_store client) epoch) nothing_issued s))"
  "guarantee client s (snd (on_session (refresh_persisted_begin (cl_parse_uuid client) (cl_store client) owner) nothing_issued s))"
  by (rule guarantee_session [OF _ refl];
      simp add: nothing_issued_def; erule session_step.intros)+

lemma guarantee_refresh_finish [guarantees]:
  "guarantee client s (snd (on_session (refresh_scope_finish (cl_store client) scope captured answer) (issued_for scope) s))"
  by (rule guarantee_session [OF _ refl])
    (auto simp: issued_for_def split: sum.split intro: session_step.intros)

lemma guarantee_persisted_finish [guarantees]:
  "guarantee client s (snd (on_session (refresh_persisted_finish (cl_store client) owner epoch captured answer)
     (\<lambda>r. case answer of Inr tokens \<Rightarrow> issue_on_success r (access_token tokens) {} | Inl _ \<Rightarrow> {}) s))"
proof (rule guarantee_session [OF _ refl])
  fix x t d
  assume f: "refresh_persisted_finish (cl_store client) owner epoch captured answer
      (sy_state (sh_system s), sy_disk (sh_system s)) = (x, t, d)"
  show "session_step (cl_parse_uuid client) (cl_store client) (sh_system s)
      \<lparr>sy_state = t, sy_disk = d, sy_issued = (case answer of Inr tokens \<Rightarrow> issue_on_success x (access_token tokens) {}
        | Inl _ \<Rightarrow> {}) \<union> sy_issued (sh_system s)\<rparr>"
  proof (cases answer)
    case (Inl e)
    with f show ?thesis using session_step.resume_fails by fastforce
  next
    case (Inr tokens)
    have "issue_on_success x u {} \<union> j = issue_on_success x u j" for u j
      by (auto simp: issue_on_success_def split: sum.split)
    with f Inr show ?thesis using session_step.resumed by fastforce
  qed
qed

section \<open>From single steps to calls\<close>

text \<open>
  An order respected by every critical section that keeps the guarantee and by every step of the
  other threads.
\<close>

locale section_order = world_order R for R :: "('d, 'p) world \<Rightarrow> ('d, 'p) world \<Rightarrow> bool" +
  fixes client :: "('d, 'p) api_client"
  assumes critical_section: "w_env w = e # es \<Longrightarrow> guarantee client (e (w_shared w)) s \<Longrightarrow>
      R w ((other_threads e w)\<lparr>w_shared := s\<rparr>)"
begin

lemma moves_atomically:
  assumes "\<And>s. guarantee client s (snd (f s))"
  shows "moves R (atomically f)"
  unfolding moves_def
proof
  fix w
  show "R w (snd (atomically f w))"
  proof (cases "w_env w")
    case Nil
    then show ?thesis by (simp add: atomically_def world_refl)
  next
    case (Cons e es)
    then show ?thesis
      using critical_section [of w e es "snd (f (e (w_shared w)))"] assms
      by (auto simp: atomically_def Let_def other_threads_def split: prod.split)
  qed
qed

lemma moves_await: "moves R (await condition)"
  unfolding moves_def await_def
proof
  fix w
  show "R w (snd (await_for condition (w_env w) w))"
  proof (rule moves_await_for [OF _ refl])
    fix e es and u :: "('d, 'p) world"
    assume "w_env u = e # es"
    moreover have "(other_threads e u)\<lparr>w_shared := e (w_shared u)\<rparr> = other_threads e u"
      by (simp add: other_threads_def)
    ultimately show "R u (other_threads e u)"
      using critical_section [of u e es "e (w_shared u)"] by (simp add: guarantee_refl)
  qed
qed

lemmas section_moving = moves_give moves_continue moves_try moves_on_error moves_if moves_atomically moves_await

lemma moves_settle: "moves R (settle client parse answer)"
  unfolding settle_def returning_def drop_transfer_def
  by (auto intro!: section_moving guarantees split: outcome.split)

end

text \<open>
  When refresh requests respect it as well, so does every function that gets or clears a token.
\<close>

locale client_order = section_order R client
  for R :: "('d, 'p) world \<Rightarrow> ('d, 'p) world \<Rightarrow> bool" and client :: "('d, 'p) api_client" +
  assumes refresh_call: "R w (snd (request_refresh client token w))"
begin

lemma moves_refresh_call: "moves R (request_refresh client token)"
  by (simp add: moves_def refresh_call)

lemmas moving = moves_give moves_continue moves_try moves_on_error moves_if moves_atomically moves_await
  moves_refresh_call

lemma moves_refresh_scope: "moves R (refresh_scope client scope rejected)"
  unfolding refresh_scope_def
  by (auto intro!: moving guarantees split: refresh_next.split)

lemma moves_refresh_epoch: "moves R (refresh_epoch client epoch rejected)"
  unfolding refresh_epoch_def by (intro moving guarantees moves_refresh_scope)

lemma moves_refresh_persisted: "moves R (refresh_persisted_owner client owner)"
  unfolding refresh_persisted_owner_def by (auto intro!: moving guarantees)

lemma moves_access_scope: "moves R (access_token_for_scope scope)"
  unfolding access_token_for_scope_def by (auto intro!: moving guarantees split: sum.split)

lemma moves_access_epoch: "moves R (access_token_for_epoch epoch)"
  unfolding access_token_for_epoch_def by (auto intro!: moving guarantees split: sum.split)

lemma moves_clear:
  "moves R (clear_scope_on_error client fatal scope e)" "moves R (clear_epoch_on_error client fatal epoch e)"
  unfolding clear_scope_on_error_def clear_epoch_on_error_def by (intro moving guarantees)+

lemma moves_clear_named:
  "moves R (clear_scope_on_terminal_error client scope e)"
  "moves R (clear_scope_on_exhausted_auth_error client scope e)"
  "moves R (clear_epoch_on_terminal_error client epoch e)"
  "moves R (clear_epoch_on_exhausted_auth_error client epoch e)"
  by (simp_all add: clear_scope_on_terminal_error_def clear_scope_on_exhausted_auth_error_def
      clear_epoch_on_terminal_error_def clear_epoch_on_exhausted_auth_error_def moves_clear)

lemma moves_access_or_refresh_scope: "moves R (access_or_refresh_scope client scope)"
  unfolding access_or_refresh_scope_def
  by (auto intro!: moving guarantees moves_refresh_scope moves_access_scope moves_clear_named
      split: sum.split api_error.split)

lemma moves_access_or_refresh_epoch: "moves R (access_or_refresh_epoch client epoch)"
  unfolding access_or_refresh_epoch_def
  by (auto intro!: moving guarantees moves_refresh_epoch moves_access_epoch moves_clear_named
      split: sum.split api_error.split)

lemma moves_refresh_session: "moves R (refresh_session client)"
  unfolding refresh_session_def refresh_session_epoch_def
  by (intro moving guarantees moves_refresh_epoch moves_clear_named)

lemma moves_user_work: "moves R (begin_user_work scope)" "moves R (drop_user_work unit)"
  "moves R (user_work_is_current scope)"
  unfolding begin_user_work_def drop_user_work_def user_work_is_current_def
  by (auto intro!: moving guarantees split: option.split sum.split)

end

text \<open>The same for the calls, once a single request of the call's type is known to respect the order.\<close>

locale client_call_order = client_order R client
  for R :: "('d, 'p) world \<Rightarrow> ('d, 'p) world \<Rightarrow> bool" and client :: "('d, 'p) api_client" +
  fixes parse :: "'p \<Rightarrow> string + 't api_envelope"
  assumes one_request: "R w (snd (execute client parse request w))"
begin

lemma moves_send_once: "moves R (send_once client parse verb path body key token account_group)"
  by (auto simp: moves_def send_once_def give_def world_refl one_request split: sum.split)

lemma moves_authenticated_scope:
  "moves R (authenticated_json_with_scope client parse verb path body key scope account_group)"
  unfolding authenticated_json_with_scope_def send_once_scope_def retry_once_scope_def
  by (auto intro!: moving moves_access_or_refresh_scope moves_send_once moves_refresh_scope moves_clear_named
      split: sum.split)

lemma moves_authenticated_epoch:
  "moves R (authenticated_json_epoch client parse verb path body key epoch)"
  unfolding authenticated_json_epoch_def send_once_epoch_def retry_once_epoch_def
  by (auto intro!: moving moves_access_or_refresh_epoch moves_send_once moves_refresh_epoch moves_clear_named
      split: sum.split)

lemma moves_authenticated: "moves R (authenticated_json client parse verb path body key)"
  unfolding authenticated_json_def by (intro moving guarantees moves_authenticated_epoch)

lemma moves_billing: "moves R (billing_json_scoped client parse verb path body key scope)"
  unfolding billing_json_scoped_def by (intro moving moves_authenticated_scope)

lemma moves_replay: "moves R (replay_saved client parse encode kind request)"
  unfolding replay_saved_def
  by (auto intro!: moving guarantees moves_user_work moves_authenticated_scope split: sum.split)

end

text \<open>An order that does not mind what is sent is respected by every call of every type.\<close>

locale request_order = section_order R client
  for R :: "('d, 'p) world \<Rightarrow> ('d, 'p) world \<Rightarrow> bool" and client :: "('d, 'p) api_client" +
  assumes exchange: "w_answers w = a # as \<Longrightarrow> R w (w\<lparr>w_answers := as, w_log := w_log w @ [(request, a)]\<rparr>)"
begin

lemma moves_transmit: "moves R (transmit request)"
  by (auto simp: moves_def transmit_def world_refl exchange split: list.split)

lemma moves_execute: "moves R (execute client parse request)"
  unfolding execute_def
  by (auto intro!: section_moving guarantees moves_transmit moves_settle split: sum.split)

lemma moves_send: "moves R (send_once client parse verb path body key token account_group)"
  using moves_execute by (auto simp: moves_def send_once_def give_def world_refl split: sum.split)

lemma moves_refreshing: "moves R (request_refresh client token)"
  unfolding request_refresh_def public_json_def by (auto intro!: section_moving moves_send)

end

sublocale request_order \<subseteq> client_order
  by unfold_locales (use moves_refreshing in \<open>simp add: moves_def\<close>)

section \<open>What is sent\<close>

text \<open>
  \<open>emits E p\<close>: however far the program gets, the requests it adds to the log and its result, if
  there is one, are related by \<open>E\<close>.
\<close>

definition emits :: "('a option \<Rightarrow> (http_request \<times> 'p answer) list \<Rightarrow> bool) \<Rightarrow> ('a, 'd, 'p) program \<Rightarrow> bool" where
  "emits E p = (\<forall>w. \<exists>new. w_log (snd (p w)) = w_log w @ new \<and> E (fst (p w)) new)"

definition grows :: "(http_request \<Rightarrow> bool) \<Rightarrow> ('d, 'p) world \<Rightarrow> ('d, 'p) world \<Rightarrow> bool" where
  "grows P w w' = (\<exists>new. w_log w' = w_log w @ new \<and> (\<forall>(q, a) \<in> set new. P q))"

interpretation growing: world_order "grows P" for P :: "http_request \<Rightarrow> bool"
proof unfold_locales
  show "grows P w w" for w :: "('d, 'p) world" by (simp add: grows_def)
  show "grows P u w" if "grows P u v" "grows P v w" for u v w :: "('d, 'p) world"
    using that by (force simp: grows_def)
qed

lemma emits_mono: "emits E p \<Longrightarrow> (\<And>r new. E r new \<Longrightarrow> F r new) \<Longrightarrow> emits F p"
  unfolding emits_def by metis

lemma emits_continue:
  assumes "emits E p" and "\<And>new. E None new \<Longrightarrow> F None new"
    and "\<And>x new. E (Some x) new \<Longrightarrow> emits (\<lambda>r later. F r (new @ later)) (f x)"
  shows "emits F (continue_with p f)"
  unfolding emits_def
proof
  fix w
  obtain r v where p: "p w = (r, v)" by (cases "p w")
  with assms(1) obtain new where new: "w_log v = w_log w @ new" "E r new"
    unfolding emits_def by (metis fst_conv snd_conv)
  show "\<exists>new. w_log (snd (continue_with p f w)) = w_log w @ new \<and> F (fst (continue_with p f w)) new"
  proof (cases r)
    case None
    with p new assms(2) show ?thesis by (auto simp: continue_with_def)
  next
    case (Some x)
    with new(2) assms(3) have "emits (\<lambda>r later. F r (new @ later)) (f x)" by blast
    then obtain later where "w_log (snd (f x v)) = w_log v @ later" "F (fst (f x v)) (new @ later)"
      unfolding emits_def by blast
    with p Some new(1) show ?thesis by (auto simp: continue_with_def)
  qed
qed

lemma emits_give: "E (Some x) [] \<Longrightarrow> emits E (give x)"
  by (simp add: emits_def give_def)

lemma emits_atomically: "(\<And>r. E r []) \<Longrightarrow> emits E (atomically f)"
  by (auto simp: emits_def atomically_def other_threads_def Let_def split: list.split prod.split)

lemma await_for_log: "w_log (snd (await_for condition schedule w)) = w_log w"
  by (induction condition schedule w rule: await_for.induct)
    (auto simp: Let_def other_threads_def split: option.split)

lemma emits_await: "(\<And>r. E r []) \<Longrightarrow> emits E (await condition)"
  by (simp add: emits_def await_def await_for_log)

lemma emits_transmit: "E None [] \<Longrightarrow> (\<And>a. E (Some a) [(request, a)]) \<Longrightarrow> emits E (transmit request)"
  by (auto simp: emits_def transmit_def split: list.split)

lemma emits_section:
  assumes "F None []" and "\<And>x. emits F (f x)"
  shows "emits F (continue_with (atomically g) f)"
  by (rule emits_continue [where E = "\<lambda>_ new. new = []"]) (use assms in \<open>auto intro: emits_atomically\<close>)

lemma emits_wait:
  assumes "F None []" and "\<And>x. emits F (f x)"
  shows "emits F (continue_with (await condition) f)"
  by (rule emits_continue [where E = "\<lambda>_ new. new = []"]) (use assms in \<open>auto intro: emits_await\<close>)

lemma emits_sent:
  assumes "F None []" and "\<And>a. emits (\<lambda>r later. F r ((request, a) # later)) (f a)"
  shows "emits F (continue_with (transmit request) f)"
  by (rule emits_continue [where E = "\<lambda>r new. case r of None \<Rightarrow> new = [] | Some a \<Rightarrow> new = [(request, a)]"])
    (use assms in \<open>auto intro: emits_transmit\<close>)

lemma moves_grows: "moves (grows P) p \<longleftrightarrow> emits (\<lambda>_ new. \<forall>(q, a) \<in> set new. P q) p"
  by (auto simp: moves_def emits_def grows_def)

text \<open>A refused token: the answer the server gave to the request, read as the client reads it.\<close>

definition token_refused :: "('d, 'p) api_client \<Rightarrow> ('p \<Rightarrow> string + 't api_envelope) \<Rightarrow> 'p answer \<Rightarrow> bool" where
  "token_refused client parse a =
    (case decode_answer client parse a of Failed e \<Rightarrow> is_access_token_rejected e | _ \<Rightarrow> False)"

lemma as_error_not_rejected: "\<not> is_access_token_rejected (as_error required)"
  by (simp add: as_error_def is_access_token_rejected_def code_in_def)

definition one_exchange ::
  "('d, 'p) api_client \<Rightarrow> ('p \<Rightarrow> string + 't api_envelope) \<Rightarrow> (http_request \<Rightarrow> bool)
    \<Rightarrow> (api_error + 't api_response) option \<Rightarrow> (http_request \<times> 'p answer) list \<Rightarrow> bool" where
  "one_exchange client parse P r new =
    (new = [] \<or> (\<exists>q a. new = [(q, a)] \<and> P q
       \<and> (\<forall>e. r = Some (Inl e) \<longrightarrow> is_access_token_rejected e \<longrightarrow> token_refused client parse a)))"

lemma emits_settle:
  "emits (\<lambda>r new. new = [] \<and> (\<forall>e. r = Some (Inl e) \<longrightarrow> is_access_token_rejected e \<longrightarrow> token_refused client parse a))
    (settle client parse a)"
  unfolding settle_def returning_def drop_transfer_def
  by (auto intro!: emits_section emits_wait emits_give
      simp: token_refused_def as_error_not_rejected split: outcome.split sum.splits)

lemma emits_execute:
  assumes "P request"
  shows "emits (one_exchange client parse P) (execute client parse request)"
proof -
  have "emits (one_exchange client parse P) (continue_with (transmit request) (settle client parse))"
  proof (rule emits_sent)
    show "emits (\<lambda>r later. one_exchange client parse P r ((request, a) # later)) (settle client parse a)" for a
      using assms by (intro emits_mono [OF emits_settle]) (auto simp: one_exchange_def)
  qed (simp add: one_exchange_def)
  then show ?thesis
    unfolding execute_def
    by (intro emits_section) (auto simp: one_exchange_def intro!: emits_give split: sum.split)
qed

text \<open>The two kinds of requests a call sends: its own, with a token, and refresh requests without one.\<close>

definition refresh_request :: "('d, 'p) api_client \<Rightarrow> http_request \<Rightarrow> bool" where
  "refresh_request client q =
    (rq_method q = ''POST'' \<and> endpoint client ''/v1/auth/refresh'' = Inr (rq_url q)
     \<and> header_of q ''X-Token'' = None \<and> header_of q ''X-Account-Group-ID'' = None)"

definition call_request ::
  "('d, 'p) api_client \<Rightarrow> string \<Rightarrow> string \<Rightarrow> json option \<Rightarrow> string option \<Rightarrow> string option \<Rightarrow> string \<Rightarrow> http_request \<Rightarrow> bool"
  where
  "call_request client verb path body key account_group token q =
    (rq_method q = verb \<and> endpoint client path = Inr (rq_url q) \<and> rq_body q = body
     \<and> header_of q ''X-Token'' = Some token \<and> header_of q ''Idempotency-Key'' = key
     \<and> header_of q ''X-Account-Group-ID'' = account_group)"

lemma request_headers_of:
  "map_of (request_headers client i key token account_group) ''X-Token'' = token"
  "map_of (request_headers client i key token account_group) ''Idempotency-Key'' = key"
  "map_of (request_headers client i key token account_group) ''X-Account-Group-ID'' = account_group"
  by (auto simp: request_headers_def split: option.split)

lemma emits_pointwise: "(\<And>v. emits E (p v)) \<Longrightarrow> emits E (\<lambda>w. p w w)"
  by (simp add: emits_def)

lemma emits_send_once:
  assumes "\<And>q. rq_method q = verb \<Longrightarrow> endpoint client path = Inr (rq_url q) \<Longrightarrow> rq_body q = body
      \<Longrightarrow> header_of q ''X-Token'' = token \<Longrightarrow> header_of q ''Idempotency-Key'' = key
      \<Longrightarrow> header_of q ''X-Account-Group-ID'' = account_group \<Longrightarrow> P q"
  shows "emits (one_exchange client parse P) (send_once client parse verb path body key token account_group)"
proof (cases "endpoint client path")
  case (Inl e)
  then show ?thesis by (auto simp: send_once_def one_exchange_def intro!: emits_give)
next
  case (Inr url)
  let ?q = "\<lambda>v. \<lparr>rq_method = verb, rq_url = url,
      rq_headers = request_headers client (cl_new_id client (length (w_log v))) key token account_group, rq_body = body\<rparr>"
  have "emits (one_exchange client parse P) (\<lambda>w. execute client parse (?q w) w)"
  proof (rule emits_pointwise [where p = "\<lambda>v. execute client parse (?q v)"])
    show "emits (one_exchange client parse P) (execute client parse (?q v))" for v
      by (rule emits_execute) (use assms Inr in \<open>simp add: header_of_def request_headers_of\<close>)
  qed
  with Inr show ?thesis
    by (simp add: send_once_def one_exchange_def emits_give)
qed

lemma emits_request_refresh:
  "emits (\<lambda>_ new. \<forall>(q, a) \<in> set new. refresh_request client q) (request_refresh client token)"
  unfolding request_refresh_def try_with_def public_json_def
proof (rule emits_continue [OF emits_send_once [where P = "refresh_request client"]])
  fix x :: "api_error + token_set api_response" and new :: "(http_request \<times> 'a answer) list"
  assume "one_exchange client (cl_tokens client) (refresh_request client) (Some x) new"
  then have "\<forall>(q, a) \<in> set new. refresh_request client q" by (auto simp: one_exchange_def)
  then show "emits (\<lambda>_ later. \<forall>(q, a) \<in> set (new @ later). refresh_request client q)
      (case x of Inl e \<Rightarrow> give (Inl e) | Inr response \<Rightarrow> give (Inr (response_data response)))"
    by (auto intro!: emits_give split: sum.split)
qed (auto simp: refresh_request_def one_exchange_def)

lemma grows_refresh: "client_order (grows (refresh_request client)) client"
proof unfold_locales
  fix w :: "('d, 'p) world" and e es s
  show "grows (refresh_request client) w ((other_threads e w)\<lparr>w_shared := s\<rparr>)"
    by (simp add: grows_def other_threads_def)
next
  fix w and token
  show "grows (refresh_request client) w (snd (request_refresh client token w))"
    using emits_request_refresh [of client token] unfolding moves_grows [symmetric] moves_def by blast
qed

interpretation token_calls: client_order "grows (refresh_request client)" client for client
  by (rule grows_refresh)

definition only_refreshes :: "('d, 'p) api_client \<Rightarrow> (http_request \<times> 'p answer) list \<Rightarrow> bool" where
  "only_refreshes client new = (\<forall>(q, a) \<in> set new. refresh_request client q)"

lemma emits_tokens:
  "emits (\<lambda>_. only_refreshes client) (access_or_refresh_scope client scope)"
  "emits (\<lambda>_. only_refreshes client) (refresh_scope client scope rejected)"
  "emits (\<lambda>_. only_refreshes client) (clear_scope_on_terminal_error client scope e)"
  "emits (\<lambda>_. only_refreshes client) (clear_scope_on_exhausted_auth_error client scope e)"
  unfolding only_refreshes_def moves_grows [symmetric]
  by (rule token_calls.moves_access_or_refresh_scope token_calls.moves_refresh_scope token_calls.moves_clear_named)+

text \<open>The log of one call.\<close>

definition one_call ::
  "('d, 'p) api_client \<Rightarrow> ('p \<Rightarrow> string + 't api_envelope) \<Rightarrow> (http_request \<Rightarrow> bool)
    \<Rightarrow> (http_request \<times> 'p answer) list \<Rightarrow> bool" where
  "one_call client parse P new =
    (only_refreshes client new
     \<or> (\<exists>before q a after. new = before @ (q, a) # after \<and> P q
          \<and> only_refreshes client before \<and> only_refreshes client after)
     \<or> (\<exists>before q a between q' a' after. new = before @ (q, a) # between @ (q', a') # after
          \<and> P q \<and> P q' \<and> token_refused client parse a
          \<and> only_refreshes client before \<and> only_refreshes client between \<and> only_refreshes client after))"

lemma emits_clear: "emits (\<lambda>r new. new = [] \<and> (\<forall>e'. r = Some e' \<longrightarrow> e' = e)) (clear_scope_on_error client fatal scope e)"
proof (cases "fatal e")
  case True
  then show ?thesis
    by (simp add: clear_scope_on_error_def emits_section emits_give)
qed (simp add: clear_scope_on_error_def emits_give)

lemma emits_cleared:
  assumes "emits E p" and "\<And>r new. E r new \<Longrightarrow> E None new"
  shows "emits E (on_error p (clear_scope_on_error client fatal scope))"
  unfolding on_error_def
proof (rule emits_continue [OF assms(1)])
  show "emits (\<lambda>r later. E r (new @ later)) (case x of
      Inl e \<Rightarrow> continue_with (clear_scope_on_error client fatal scope e) (\<lambda>e'. give (Inl e')) | Inr y \<Rightarrow> give (Inr y))"
    if "E (Some x) new" for x new
  proof (cases x)
    case (Inl e)
    have "emits (\<lambda>r later. E r (new @ later)) (continue_with (clear_scope_on_error client fatal scope e) (\<lambda>e'. give (Inl e')))"
      by (rule emits_continue [OF emits_clear]) (use that assms(2) Inl in \<open>auto intro: emits_give\<close>)
    with Inl show ?thesis by simp
  qed (use that in \<open>simp add: emits_give\<close>)
qed (rule assms(2))

lemma one_exchange_blocked: "one_exchange client parse P r new \<Longrightarrow> one_exchange client parse P None new"
  by (auto simp: one_exchange_def)

lemma only_refreshes_append [simp]:
  "only_refreshes client (xs @ ys) \<longleftrightarrow> only_refreshes client xs \<and> only_refreshes client ys"
  "only_refreshes client []"
  by (auto simp: only_refreshes_def)

lemma one_call_first:
  assumes "only_refreshes client before" and "one_exchange client parse P r new" and "only_refreshes client after"
  shows "one_call client parse P (before @ new @ after)"
proof (cases "new = []")
  case True
  with assms show ?thesis by (simp add: one_call_def)
next
  case False
  then obtain q a where "new = [(q, a)]" "P q" using assms(2) by (auto simp: one_exchange_def)
  moreover have "before @ [(q, a)] @ after = before @ (q, a) # after" by simp
  ultimately show ?thesis using assms(1,3) unfolding one_call_def by metis
qed

lemma one_call_second:
  assumes "only_refreshes client before" and "one_exchange client parse P (Some (Inl e)) new" "is_access_token_rejected e"
    and "only_refreshes client between" and "one_exchange client parse P r later"
  shows "one_call client parse P (before @ new @ between @ later)"
proof (cases "new = []")
  case True
  then show ?thesis
    using one_call_first [of client "before @ between" parse P r later "[]"] assms by simp
next
  case False
  then obtain q a where new: "new = [(q, a)]" "P q" "token_refused client parse a"
    using assms(2,3) by (auto simp: one_exchange_def)
  show ?thesis
  proof (cases "later = []")
    case True
    then show ?thesis
      using one_call_first [of client before parse P "Some (Inl e)" new between] assms by simp
  next
    case False
    then obtain q' a' where "later = [(q', a')]" "P q'" using assms(5) by (auto simp: one_exchange_def)
    with new assms(1,4) have "before @ new @ between @ later = before @ (q, a) # between @ (q', a') # []"
      by simp
    with new \<open>P q'\<close> assms(1,4) show ?thesis unfolding one_call_def by (metis only_refreshes_append(2))
  qed
qed

lemma emits_one_call:
  "emits (\<lambda>_. one_call client parse (\<lambda>q. \<exists>t. call_request client verb path body key account_group t q))
    (authenticated_json_with_scope client parse verb path body key scope account_group)"
proof -
  let ?P = "\<lambda>q. \<exists>t. call_request client verb path body key account_group t q"
  let ?X = "one_exchange client parse ?P"
  have send: "emits ?X (send_once client parse verb path body key (Some token) account_group)" for token
    by (rule emits_send_once) (auto simp: call_request_def)
  have cleared: "emits ?X (on_error (send_once client parse verb path body key (Some token) account_group)
      (clear_scope_on_error client fatal scope))" for token fatal
    by (rule emits_cleared [OF send]) (erule one_exchange_blocked)
  have refreshed: "emits (\<lambda>_. only_refreshes client)
      (on_error (refresh_scope client scope rejected) (clear_scope_on_error client fatal scope))" for rejected fatal
    by (rule emits_cleared [OF emits_tokens(2)])
  have retry: "emits (\<lambda>_ later. one_call client parse ?P (before @ new @ later))
      (retry_once_scope client parse verb path body key token scope account_group)"
    if "only_refreshes client before" "?X (Some (Inl e)) new" "is_access_token_rejected e" for before new e token
    unfolding retry_once_scope_def try_with_def clear_scope_on_terminal_error_def clear_scope_on_exhausted_auth_error_def
  proof (rule emits_continue [OF refreshed])
    fix x between assume between: "only_refreshes client between"
    show "emits (\<lambda>_ later. one_call client parse ?P (before @ new @ between @ later)) (case x of
        Inl e \<Rightarrow> give (Inl e)
      | Inr refreshed \<Rightarrow> on_error (send_once client parse verb path body key (Some refreshed) account_group)
            (clear_scope_on_error client exhausted_auth_error scope))"
    proof (cases x)
      case (Inr refreshed)
      show ?thesis
        unfolding Inr sum.case by (rule emits_mono [OF cleared]) (erule one_call_second [OF that between])
    qed (use one_call_first [OF that(1,2) between] in \<open>simp add: emits_give\<close>)
  qed (use one_call_first [OF that(1,2)] in simp)
  show ?thesis
    unfolding authenticated_json_with_scope_def try_with_def send_once_scope_def
  proof (rule emits_continue [OF emits_tokens(1)])
    fix x before assume before: "only_refreshes client before"
    show "emits (\<lambda>_ later. one_call client parse ?P (before @ later)) (case x of
        Inl e \<Rightarrow> give (Inl e)
      | Inr token \<Rightarrow> continue_with (on_error (send_once client parse verb path body key (Some token) account_group)
            (clear_scope_on_terminal_error client scope)) (\<lambda>first.
          case first of
            Inl e \<Rightarrow> if is_access_token_rejected e
              then retry_once_scope client parse verb path body key token scope account_group
              else give (Inl e)
          | Inr response \<Rightarrow> give (Inr response)))"
    proof (cases x)
      case (Inl e)
      with before show ?thesis by (simp add: emits_give one_call_def)
    next
      case (Inr token)
      show ?thesis
        unfolding Inr sum.case clear_scope_on_terminal_error_def
      proof (rule emits_continue [OF cleared])
        fix first new assume first: "?X (Some first) new"
        note sent = one_call_first [OF before this, where after = "[]"]
        show "emits (\<lambda>_ later. one_call client parse ?P (before @ new @ later)) (case first of
            Inl e \<Rightarrow> if is_access_token_rejected e
              then retry_once_scope client parse verb path body key token scope account_group
              else give (Inl e)
          | Inr response \<Rightarrow> give (Inr response))"
          using sent first retry [OF before] by (cases first) (auto simp: emits_give)
      qed (use one_call_first [OF before, where after = "[]"] in simp)
    qed
  qed (use one_call_first [of client _ parse ?P None "[]" "[]"] in \<open>simp add: one_exchange_def\<close>)
qed

lemma call_not_refresh: "call_request client verb path body key account_group t q \<Longrightarrow> \<not> refresh_request client q"
  by (simp add: call_request_def refresh_request_def)

lemma only_refreshes_filter: "only_refreshes client new \<Longrightarrow> filter (\<lambda>x. \<not> refresh_request client (fst x)) new = []"
  by (auto simp: only_refreshes_def filter_empty_conv)

lemma one_call_calls:
  assumes "one_call client parse P new" and "\<And>q. P q \<Longrightarrow> \<not> refresh_request client q"
  shows "let calls = filter (\<lambda>x. \<not> refresh_request client (fst x)) new in
    (\<forall>x \<in> set calls. P (fst x))
    \<and> (case calls of [] \<Rightarrow> True | [x] \<Rightarrow> True | [x, y] \<Rightarrow> token_refused client parse (snd x) | _ \<Rightarrow> False)"
  using assms unfolding one_call_def by (elim disjE exE conjE) (simp_all add: only_refreshes_filter)

text \<open>
  C19: a call pays once. Whatever the other threads and the server do, and wherever the call is
  interrupted, it has sent its own request at most twice, the second time only after the server
  refused the token of the first; both carry the method, address, body, idempotency key and payer
  group the caller asked for, and everything else it sent is a refresh request without token or
  payer.
\<close>

theorem at_most_one_retry:
  "\<exists>new. w_log (snd (authenticated_json_with_scope client parse verb path body key scope account_group w)) = w_log w @ new
     \<and> (let calls = filter (\<lambda>x. \<not> refresh_request client (fst x)) new in
        (\<forall>x \<in> set calls. \<exists>t. call_request client verb path body key account_group t (fst x))
        \<and> (case calls of [] \<Rightarrow> True | [x] \<Rightarrow> True | [x, y] \<Rightarrow> token_refused client parse (snd x) | _ \<Rightarrow> False))"
proof -
  let ?P = "\<lambda>q. \<exists>t. call_request client verb path body key account_group t q"
  obtain new where log: "w_log (snd (authenticated_json_with_scope client parse verb path body key scope account_group w)) =
      w_log w @ new" and call: "one_call client parse ?P new"
    using emits_one_call [of client parse verb path body key account_group scope] unfolding emits_def by blast
  from one_call_calls [OF call] log show ?thesis using call_not_refresh by blast
qed

section \<open>An example\<close>

text \<open>
  A server whose payloads are an error code, a new token, or an answer for the caller; a call that is
  refused once, refreshes and succeeds.
\<close>

datatype example_payload = Refusal string | NewToken string | Answer string

definition witness_envelope :: "'t option \<Rightarrow> string option \<Rightarrow> 't api_envelope" where
  "witness_envelope x code = \<lparr>envelope_request_id = ''r1'', envelope_data = x,
     envelope_error = map_option (\<lambda>c. \<lparr>problem_code = c, problem_message = [], problem_details = None\<rparr>) code,
     envelope_meta = None\<rparr>"

definition witness_client :: "(persisted_refresh_session option, example_payload) api_client" where
  "witness_client = \<lparr>cl_join = (\<lambda>path. Inr (''https://service/'' @ path)), cl_app_version = ''1.0.0'', cl_device_id = ''d'',
     cl_new_id = (\<lambda>n. if n = 0 then ''a'' else ''b''),
     cl_envelope = (\<lambda>p. Inr (case p of Refusal c \<Rightarrow> witness_envelope None (Some c) | _ \<Rightarrow> witness_envelope None None)),
     cl_tokens = (\<lambda>p. Inr (witness_envelope (case p of NewToken t \<Rightarrow> Some (witness_tokens t) | _ \<Rightarrow> None) None)),
     cl_parse_uuid = Some, cl_store = memory_store\<rparr>"

definition witness_parse :: "example_payload \<Rightarrow> string + string api_envelope" where
  "witness_parse p = Inr (witness_envelope (case p of Answer x \<Rightarrow> Some x | _ \<Rightarrow> None) None)"

definition witness_world ::
  "upgrade_latch \<Rightarrow> example_payload answer list \<Rightarrow> (persisted_refresh_session option, example_payload) world" where
  "witness_world latch answers = \<lparr>w_shared = \<lparr>sh_system = witness_login, sh_upgrade = latch, sh_user_work = True,
      sh_active = Some None, sh_activity = activity_default, sh_documents = witness_documents\<rparr>,
    w_env = [id, id, id, id, id, id, id, id, id, id, id, id, id, id, id, id, id, id, id, id, id, id, id, id],
    w_answers = answers, w_log = []\<rparr>"

definition witness_scope_of_call :: session_scope where
  "witness_scope_of_call = \<lparr>scope_owner_user_id = ''u'', scope_auth_epoch = 1\<rparr>"

definition refused_once :: "example_payload answer list" where
  "refused_once = [Response 401 None (Inr (Refusal ''access_token_invalid'')), Response 200 None (Inr (NewToken ''s'')),
     Response 200 None (Inr (Answer ''done'')), SendFailed TimedOut]"

abbreviation witness_call where
  "witness_call latch answers \<equiv> authenticated_json_with_scope witness_client witness_parse ''POST'' ''/v1/tasks'' None
    (Some ''k'') witness_scope_of_call (Some ''g'') (witness_world latch answers)"

lemmas call_programs = authenticated_json_with_scope_def access_or_refresh_scope_def access_token_for_scope_def
  send_once_scope_def send_once_def execute_def settle_def returning_def drop_transfer_def retry_once_scope_def
  refresh_scope_def request_refresh_def public_json_def clear_scope_on_terminal_error_def
  clear_scope_on_exhausted_auth_error_def clear_scope_on_error_def exhausted_auth_error_def
  try_with_def on_error_def continue_with_def give_def
  atomically_def await_def transmit_def other_threads_def look_def on_upgrade_def on_session_def nothing_issued_def
  issued_for_def endpoint_def

lemmas call_answers = decode_answer_def read_success_def problem_error_def from_error_def is_access_token_rejected_def
  is_terminal_session_error_def code_in_def witness_client_def witness_parse_def witness_envelope_def

lemmas call_sessions = access_token_for_scope_enter_def scope_matches_def refresh_scope_begin_def refresh_claim_def
  authorized_for_def refresh_scope_finish_def persist_refreshed_tokens_if_current_def witness_login_def
  memory_replace_if_current_def clear_scope_def cleared_lease_matches_epoch_def witness_scope_of_call_def

lemmas call_latches = latch_begin_def latch_lock_def latch_default_def latch_apply_if_open_def permit_drop_def count_down_def

lemmas call_example = witness_world_def call_programs call_answers call_sessions call_latches witness_session_ops

definition witness_request :: "string \<Rightarrow> string \<Rightarrow> http_request" where
  "witness_request i token = \<lparr>rq_method = ''POST'', rq_url = ''https://service/v1/tasks'',
    rq_headers = request_headers witness_client i (Some ''k'') (Some token) (Some ''g''), rq_body = None\<rparr>"

lemma witness_log:
  "w_log (snd (witness_call latch_default refused_once)) = [(witness_request ''a'' ''t'', refused_once ! 0),
     (\<lparr>rq_method = ''POST'', rq_url = ''https://service/v1/auth/refresh'',
       rq_headers = request_headers witness_client ''b'' None None None,
       rq_body = Some (JObject [(''refresh_token'', JString ''r''), (''device_id'', JString ''d''), (''app_version'', JString ''1.0.0'')])\<rparr>,
      refused_once ! 1),
     (witness_request ''b'' ''s'', refused_once ! 2)]"
  by (simp add: call_example refused_once_def witness_request_def request_headers_def)

theorem at_most_one_retry_witness:
  "token_refused witness_client witness_parse (refused_once ! 0)
   \<and> call_request witness_client ''POST'' ''/v1/tasks'' None (Some ''k'') (Some ''g'') ''s'' (witness_request ''b'' ''s'')"
proof -
  let ?log = "w_log (snd (witness_call latch_default refused_once))"
  let ?calls = "filter (\<lambda>x. \<not> refresh_request witness_client (fst x)) ?log"
  have endpoints: "endpoint witness_client ''/v1/tasks'' = Inr ''https://service/v1/tasks''"
    "endpoint witness_client ''/v1/auth/refresh'' = Inr ''https://service/v1/auth/refresh''"
    by (simp_all add: endpoint_def witness_client_def)
  have calls: "?calls = [(witness_request ''a'' ''t'', refused_once ! 0), (witness_request ''b'' ''s'', refused_once ! 2)]"
    by (simp add: witness_log refresh_request_def witness_request_def request_headers_of header_of_def endpoints)
  obtain new where new: "?log = w_log (witness_world latch_default refused_once) @ new"
    "let calls = filter (\<lambda>x. \<not> refresh_request witness_client (fst x)) new in
      (\<forall>x \<in> set calls. \<exists>t. call_request witness_client ''POST'' ''/v1/tasks'' None (Some ''k'') (Some ''g'') t (fst x))
      \<and> (case calls of [] \<Rightarrow> True | [x] \<Rightarrow> True | [x, y] \<Rightarrow> token_refused witness_client witness_parse (snd x) | _ \<Rightarrow> False)"
    using at_most_one_retry [of witness_client witness_parse "''POST''" "''/v1/tasks''" None "Some ''k''" witness_scope_of_call
      "Some ''g''" "witness_world latch_default refused_once"] by blast
  then have "new = ?log" by (simp add: witness_world_def)
  with new(2) calls show ?thesis
    by (simp add: Let_def call_request_def witness_request_def header_of_def request_headers_of)
qed

end
