(* ===== verification/Api_Client_Safety.thy ===== *)
theory Api_Client_Safety
  imports Api_Client_Properties
begin

text \<open>
  What holds of the state a call of the service client leaves behind: every token it sent was issued
  to the scope of the call, nothing is sent behind a closed upgrade latch, a terminal answer ends the
  lease of the scope, and an undisturbed call returns.
\<close>

section \<open>A call is a run of the session\<close>

definition ready :: "('d, 'p) api_client \<Rightarrow> 'd \<Rightarrow> ('d, 'p) world \<Rightarrow> bool" where
  "ready client d w =
    (env_ok client w
     \<and> (session_step (cl_parse_uuid client) (cl_store client))\<^sup>*\<^sup>* (session_start (cl_store client) d) (sh_system (w_shared w)))"

definition advances :: "('d, 'p) api_client \<Rightarrow> ('d, 'p) world \<Rightarrow> ('d, 'p) world \<Rightarrow> bool" where
  "advances client w w' = (env_ok client w \<longrightarrow> env_ok client w' \<and> guarantee client (w_shared w) (w_shared w'))"

lemma env_ok_step:
  assumes "env_ok client w" and "w_env w = e # es"
  shows "env_ok client ((other_threads e w)\<lparr>w_shared := s\<rparr>)" "guarantee client (w_shared w) (e (w_shared w))"
  using assms by (auto simp: env_ok_def other_threads_def)

lemma advances_order:
  fixes client :: "('d, 'p) api_client"
  shows "request_order (advances client) client"
proof unfold_locales
  show "advances client w w" for w :: "('d, 'p) world" by (simp add: advances_def guarantee_refl)
  show "advances client u w" if "advances client u v" "advances client v w" for u v w :: "('d, 'p) world"
    using that by (auto simp: advances_def intro: guarantee_trans)
next
  fix w :: "('d, 'p) world" and e es s
  assume "w_env w = e # es" "guarantee client (e (w_shared w)) s"
  then show "advances client w ((other_threads e w)\<lparr>w_shared := s\<rparr>)"
    using env_ok_step(1) [of client w e es s] env_ok_step(2) [of client w e es] by (auto simp: advances_def intro: guarantee_trans)
next
  fix w :: "('d, 'p) world" and a as request
  show "advances client w (w\<lparr>w_answers := as, w_log := w_log w @ [(request, a)]\<rparr>)"
    by (simp add: advances_def env_ok_def guarantee_refl)
qed

interpretation running: request_order "advances client" client for client
  by (rule advances_order)

lemma ready_advances: "ready client d w \<Longrightarrow> advances client w w' \<Longrightarrow> ready client d w'"
  by (auto simp: ready_def advances_def guarantee_def)

lemma issued_grows:
  assumes "guarantee client s t"
  shows "sy_issued (sh_system s) \<subseteq> sy_issued (sh_system t)"
proof -
  have "(session_step (cl_parse_uuid client) (cl_store client))\<^sup>*\<^sup>* (sh_system s) (sh_system t)"
    using assms by (simp add: guarantee_def)
  then show ?thesis by (induction rule: rtranclp_induct) (use session_step_lease in blast)+
qed

lemma other_threads_same: "(other_threads e w)\<lparr>w_shared := e (w_shared w)\<rparr> = other_threads e w"
  by (simp add: other_threads_def)

section \<open>Tokens in requests\<close>

abbreviation issued_in :: "('d, 'p) world \<Rightarrow> issued_tokens" where
  "issued_in w \<equiv> sy_issued (sh_system (w_shared w))"

definition carries :: "('d, 'p) api_client \<Rightarrow> 'd \<Rightarrow> session_scope \<Rightarrow> ('d, 'p) world \<Rightarrow> ('d, 'p) world \<Rightarrow> bool" where
  "carries client d scope w w' =
    (ready client d w \<longrightarrow> ready client d w' \<and> issued_in w \<subseteq> issued_in w'
       \<and> (\<exists>new. w_log w' = w_log w @ new
            \<and> (\<forall>(q, a) \<in> set new. \<forall>t. header_of q ''X-Token'' = Some t \<longrightarrow> (scope, t) \<in> issued_in w')))"

lemma carriesI:
  assumes "advances client w w'" and "w_log w' = w_log w @ new"
    and "\<And>q a t. (q, a) \<in> set new \<Longrightarrow> header_of q ''X-Token'' = Some t \<Longrightarrow> (scope, t) \<in> issued_in w'"
  shows "carries client d scope w w'"
proof -
  have "issued_in w \<subseteq> issued_in w'" if "ready client d w"
    using that assms(1) issued_grows by (auto simp: advances_def ready_def)
  with assms ready_advances show ?thesis unfolding carries_def by fast
qed

lemma carries_order:
  fixes client :: "('d, 'p) api_client"
  shows "client_order (carries client d scope) client"
proof unfold_locales
  show "carries client d scope w w" for w :: "('d, 'p) world"
    by (rule carriesI [where new = "[]"]) (simp_all add: running.world_refl)
next
  fix u v w :: "('d, 'p) world"
  assume uv: "carries client d scope u v" and vw: "carries client d scope v w"
  show "carries client d scope u w"
    unfolding carries_def
  proof
    assume "ready client d u"
    with uv obtain new where u: "ready client d v" "issued_in u \<subseteq> issued_in v" "w_log v = w_log u @ new"
      "\<forall>(q, a) \<in> set new. \<forall>t. header_of q ''X-Token'' = Some t \<longrightarrow> (scope, t) \<in> issued_in v"
      by (auto simp: carries_def)
    with vw obtain later where v: "ready client d w" "issued_in v \<subseteq> issued_in w" "w_log w = w_log v @ later"
      "\<forall>(q, a) \<in> set later. \<forall>t. header_of q ''X-Token'' = Some t \<longrightarrow> (scope, t) \<in> issued_in w"
      by (auto simp: carries_def)
    from u v have "w_log w = w_log u @ new @ later" by simp
    moreover from u v have
      "\<forall>(q, a) \<in> set (new @ later). \<forall>t. header_of q ''X-Token'' = Some t \<longrightarrow> (scope, t) \<in> issued_in w"
      by (simp add: ball_Un) blast
    moreover note u v
    ultimately show "ready client d w \<and> issued_in u \<subseteq> issued_in w \<and> (\<exists>new. w_log w = w_log u @ new
        \<and> (\<forall>(q, a) \<in> set new. \<forall>t. header_of q ''X-Token'' = Some t \<longrightarrow> (scope, t) \<in> issued_in w))"
      by blast
  qed
next
  fix w :: "('d, 'p) world" and e es s
  assume "w_env w = e # es" "guarantee client (e (w_shared w)) s"
  then show "carries client d scope w ((other_threads e w)\<lparr>w_shared := s\<rparr>)"
    by (intro carriesI [where new = "[]"] running.critical_section) (auto simp: other_threads_def)
next
  fix w :: "('d, 'p) world" and token
  obtain new where "w_log (snd (request_refresh client token w)) = w_log w @ new"
    "\<forall>(q, a) \<in> set new. refresh_request client q"
    using emits_request_refresh [of client token] unfolding emits_def by blast
  then show "carries client d scope w (snd (request_refresh client token w))"
    by (intro carriesI [where new = new] running.refresh_call) (auto simp: refresh_request_def)
qed

interpretation carrying: client_order "carries client d scope" client for client d scope
  by (rule carries_order)

text \<open>\<open>hands client d scope p\<close>: a token that \<open>p\<close> returns was issued for the scope.\<close>

definition hands ::
  "('d, 'p) api_client \<Rightarrow> 'd \<Rightarrow> session_scope \<Rightarrow> (api_error + string, 'd, 'p) program \<Rightarrow> bool" where
  "hands client d scope p =
    (\<forall>w t w'. ready client d w \<longrightarrow> p w = (Some (Inr t), w') \<longrightarrow> (scope, t) \<in> issued_in w')"

lemma hands_give: "hands client d scope (give (Inl e))"
  by (simp add: hands_def give_def)

lemma hands_on_error: "hands client d scope p \<Longrightarrow> hands client d scope (on_error p h)"
  by (fastforce simp: hands_def on_error_def continue_with_def give_def split: prod.splits option.splits sum.splits)

lemma ready_tokens: "ready client d w \<Longrightarrow> tokens_ok (issued_in w) (sh_session (w_shared w))"
  by (auto simp: ready_def intro: session_run_tokens)

lemma tokens_ok_reader:
  "tokens_ok issued s \<Longrightarrow> access_token_for_scope_enter scope s = Inr (Inl t) \<Longrightarrow> (scope, t) \<in> issued"
  "tokens_ok issued s \<Longrightarrow> access_token_for_scope_wake scope observed s = Some (Inr t) \<Longrightarrow> (scope, t) \<in> issued"
  "tokens_ok issued s \<Longrightarrow> refresh_scope_wake scope observed s = Some (Inr t) \<Longrightarrow> (scope, t) \<in> issued"
  "tokens_ok issued s \<Longrightarrow> fst (refresh_scope_begin store scope rejected (s, d)) = Finished (Inr t) \<Longrightarrow> (scope, t) \<in> issued"
proof -
  note rule = tokens_ok_issued [of issued s scope t observed store rejected d]
  show "tokens_ok issued s \<Longrightarrow> access_token_for_scope_enter scope s = Inr (Inl t) \<Longrightarrow> (scope, t) \<in> issued"
    "tokens_ok issued s \<Longrightarrow> access_token_for_scope_wake scope observed s = Some (Inr t) \<Longrightarrow> (scope, t) \<in> issued"
    "tokens_ok issued s \<Longrightarrow> refresh_scope_wake scope observed s = Some (Inr t) \<Longrightarrow> (scope, t) \<in> issued"
    "tokens_ok issued s \<Longrightarrow> fst (refresh_scope_begin store scope rejected (s, d)) = Finished (Inr t) \<Longrightarrow> (scope, t) \<in> issued"
    by (erule rule; simp)+
qed

lemma continue_SomeE:
  assumes "continue_with p f w = (Some y, w')"
  obtains x v where "p w = (Some x, v)" "f x v = (Some y, w')"
  using assms by (auto simp: continue_with_def split: prod.splits option.splits)

lemma atomically_SomeE:
  assumes "atomically f w = (Some x, w')"
  obtains e es s where "w_env w = e # es" "f (e (w_shared w)) = (x, s)" "w' = (other_threads e w)\<lparr>w_shared := s\<rparr>"
  using assms by (auto simp: atomically_def Let_def other_threads_def split: list.splits prod.splits)

lemma await_for_Some: "await_for condition schedule w = (Some x, w') \<Longrightarrow> condition (w_shared w') = Some x"
  by (induction condition schedule w rule: await_for.induct) (auto simp: Let_def split: option.splits)

lemma await_Some: "await condition w = (Some x, w') \<Longrightarrow> condition (w_shared w') = Some x"
  unfolding await_def by (rule await_for_Some)

lemma ready_moves: "ready client d w \<Longrightarrow> moves (advances client) p \<Longrightarrow> ready client d (snd (p w))"
  by (metis ready_advances moves_def)

lemma ready_after: "ready client d w \<Longrightarrow> p w = (x, v) \<Longrightarrow> moves (advances client) p \<Longrightarrow> ready client d v"
  using ready_moves by fastforce

lemma hands_await:
  assumes "\<And>s t. condition s = Some (Inr t) \<Longrightarrow> tokens_ok (sy_issued (sh_system s)) (sh_session s) \<Longrightarrow> (scope, t) \<in> sy_issued (sh_system s)"
  shows "hands client d scope (await condition)"
  unfolding hands_def
proof (intro allI impI)
  fix w t w' assume "ready client d w" and run: "await condition w = (Some (Inr t), w')"
  then have "ready client d w'" using ready_moves [OF _ running.moves_await] by (metis snd_conv)
  from assms [OF await_Some [OF run] ready_tokens [OF this]] show "(scope, t) \<in> issued_in w'" .
qed

lemma hands_continue:
  assumes "moves (advances client) p"
    and "\<And>w x v. ready client d w \<Longrightarrow> p w = (Some x, v) \<Longrightarrow> \<forall>t w'. f x v = (Some (Inr t), w') \<longrightarrow> (scope, t) \<in> issued_in w'"
  shows "hands client d scope (continue_with p f)"
  using assms(2) by (auto simp: hands_def elim!: continue_SomeE)

lemma hands_access_scope: "hands client d scope (access_token_for_scope scope)"
  unfolding access_token_for_scope_def try_with_def
proof (rule hands_continue)
  show "moves (advances client) (atomically (look (\<lambda>s. access_token_for_scope_enter scope (sh_session s))))"
    by (intro running.moves_atomically guarantees)
  fix w x v
  assume w: "ready client d w" and run: "atomically (look (\<lambda>s. access_token_for_scope_enter scope (sh_session s))) w = (Some x, v)"
  have v: "ready client d v"
    using w run by (rule ready_after) (intro running.moves_atomically guarantees)
  from run have x: "x = access_token_for_scope_enter scope (sh_session (w_shared v))"
    by (auto simp: look_def elim!: atomically_SomeE)
  have waits: "hands client d scope (await (\<lambda>s. access_token_for_scope_wake scope observed (sh_session s)))" for observed
    by (rule hands_await) (erule (1) tokens_ok_reader)
  show "\<forall>t w'. (case x of Inl e \<Rightarrow> give (Inl e) | Inr entered \<Rightarrow> (case entered of
      Inl token \<Rightarrow> give (Inr token)
    | Inr observed \<Rightarrow> await (\<lambda>s. access_token_for_scope_wake scope observed (sh_session s)))) v = (Some (Inr t), w')
    \<longrightarrow> (scope, t) \<in> issued_in w'"
    using x v waits tokens_ok_reader(1) [OF ready_tokens [OF v]]
    by (auto simp: give_def hands_def split: sum.splits)
qed

lemma hands_refresh_scope: "hands client d scope (refresh_scope client scope rejected)"
  unfolding refresh_scope_def
proof (rule hands_continue)
  let ?f = "on_session (refresh_scope_begin (cl_store client) scope rejected) nothing_issued"
  show "moves (advances client) (atomically ?f)"
    by (intro running.moves_atomically guarantees)
  fix w x v
  assume w: "ready client d w" and run: "atomically ?f w = (Some x, v)"
  have v: "ready client d v"
    using w run by (rule ready_after) (intro running.moves_atomically guarantees)
  from run obtain e es s where e: "w_env w = e # es" "?f (e (w_shared w)) = (x, s)"
    "v = (other_threads e w)\<lparr>w_shared := s\<rparr>" by (rule atomically_SomeE)
  have finished: "(scope, t) \<in> issued_in v" if "x = Finished (Inr t)" for t
  proof -
    let ?s = "e (w_shared w)"
    have "ready client d (other_threads e w)"
      using ready_advances [OF w running.critical_section [OF e(1) guarantee_refl]] by (simp add: other_threads_same)
    then have "tokens_ok (sy_issued (sh_system ?s)) (sh_session ?s)"
      using ready_tokens by (fastforce simp: other_threads_def)
    moreover have "fst (refresh_scope_begin (cl_store client) scope rejected (sh_session ?s, sy_disk (sh_system ?s))) = Finished (Inr t)"
      using e(2) that by (auto simp: on_session_def split: prod.splits)
    ultimately have "(scope, t) \<in> sy_issued (sh_system ?s)" by (rule tokens_ok_reader(4))
    with e show ?thesis by (auto simp: on_session_def nothing_issued_def split: prod.splits)
  qed
  have waits: "hands client d scope (await (\<lambda>s. refresh_scope_wake scope observed (sh_session s)))" for observed
    by (rule hands_await) (erule (1) tokens_ok_reader)
  have finishes: "(scope, t) \<in> issued_in u'"
    if "atomically (on_session (refresh_scope_finish (cl_store client) scope captured answer) (issued_for scope)) u = (Some (Inr t), u')"
    for captured answer u u' t
    using that by (auto simp: on_session_def issued_for_def split: prod.splits elim!: atomically_SomeE)
  show "\<forall>t w'. (case x of
        Finished r \<Rightarrow> give r
      | WaitForRefresh observed \<Rightarrow> await (\<lambda>s. refresh_scope_wake scope observed (sh_session s))
      | CallServer captured \<Rightarrow>
          continue_with (request_refresh client (rs_refresh_token captured)) (\<lambda>answer.
          atomically (on_session (refresh_scope_finish (cl_store client) scope captured answer) (issued_for scope)))) v
      = (Some (Inr t), w') \<longrightarrow> (scope, t) \<in> issued_in w'"
    using v finished waits finishes
    by (cases x) (auto simp: give_def hands_def elim!: continue_SomeE)
qed

lemma hands_access_or_refresh: "hands client d scope (access_or_refresh_scope client scope)"
  unfolding access_or_refresh_scope_def
proof (rule hands_continue)
  show "moves (advances client) (access_token_for_scope scope)"
    by (rule running.moves_access_scope)
  fix w x v
  assume w: "ready client d w" and run: "access_token_for_scope scope w = (Some x, v)"
  have v: "ready client d v" using w run by (rule ready_after) (rule running.moves_access_scope)
  have token: "x = Inr t \<Longrightarrow> (scope, t) \<in> issued_in v" for t
    using hands_access_scope [of client d scope] w run by (auto simp: hands_def)
  have refused: "hands client d scope (on_error (give (Inl e)) h)" for e h
    by (intro hands_on_error hands_give)
  have current: "hands client d scope (continue_with (atomically (look (\<lambda>s. is_scope_current scope (sh_session s)))) (\<lambda>current.
      if current then on_error (refresh_scope client scope None) (clear_scope_on_terminal_error client scope)
      else on_error (give (Inl AuthenticationRequired)) (clear_scope_on_terminal_error client scope)))"
  proof (rule hands_continue)
    fix u y u'
    assume u: "ready client d u" and run: "atomically (look (\<lambda>s. is_scope_current scope (sh_session s))) u = (Some y, u')"
    have "ready client d u'" using u run by (rule ready_after) (intro running.moves_atomically guarantees)
    with hands_on_error [OF hands_refresh_scope, of client d scope None] refused
    show "\<forall>t w'. (if y then on_error (refresh_scope client scope None) (clear_scope_on_terminal_error client scope)
      else on_error (give (Inl AuthenticationRequired)) (clear_scope_on_terminal_error client scope)) u' = (Some (Inr t), w')
      \<longrightarrow> (scope, t) \<in> issued_in w'"
      by (auto simp: hands_def)
  qed (intro running.moves_atomically guarantees)
  show "\<forall>t w'. (case x of
        Inl AuthenticationRequired \<Rightarrow>
          continue_with (atomically (look (\<lambda>s. is_scope_current scope (sh_session s)))) (\<lambda>current.
            if current
            then on_error (refresh_scope client scope None) (clear_scope_on_terminal_error client scope)
            else on_error (give (Inl AuthenticationRequired)) (clear_scope_on_terminal_error client scope))
      | Inl e \<Rightarrow> on_error (give (Inl e)) (clear_scope_on_terminal_error client scope)
      | Inr token \<Rightarrow> give (Inr token)) v = (Some (Inr t), w') \<longrightarrow> (scope, t) \<in> issued_in w'"
    using v token refused current
    by (auto simp: hands_def give_def split: sum.splits api_error.splits)
qed

lemma carries_continue:
  assumes "ready client d w" and "carries client d scope w (snd (p w))"
    and "\<And>x v. p w = (Some x, v) \<Longrightarrow> ready client d v \<Longrightarrow> issued_in w \<subseteq> issued_in v \<Longrightarrow> carries client d scope v (snd (f x v))"
  shows "carries client d scope w (snd (continue_with p f w))"
proof -
  obtain r v where p: "p w = (r, v)" by (cases "p w")
  with assms(1,2) have "ready client d v" "issued_in w \<subseteq> issued_in v" by (auto simp: carries_def)
  with p assms(2,3) show ?thesis
    by (cases r) (auto simp: continue_with_def intro: carrying.world_trans)
qed

lemma carries_moves: "moves (carries client d scope) p \<Longrightarrow> carries client d scope w (snd (p w))"
  by (simp add: moves_def)

lemma carries_send:
  assumes "(scope, t) \<in> issued_in w" and "ready client d w"
  shows "carries client d scope w (snd (send_once client parse verb path body key (Some t) account_group w))"
proof -
  let ?p = "send_once client parse verb path body key (Some t) account_group"
  have adv: "advances client w (snd (?p w))" by (rule running.moves_send [unfolded moves_def, rule_format])
  have "emits (one_exchange client parse (\<lambda>q. header_of q ''X-Token'' = Some t)) ?p"
    by (rule emits_send_once) simp
  then obtain new where new: "w_log (snd (?p w)) = w_log w @ new"
    "one_exchange client parse (\<lambda>q. header_of q ''X-Token'' = Some t) (fst (?p w)) new"
    unfolding emits_def by blast
  have "issued_in w \<subseteq> issued_in (snd (?p w))"
    using adv assms(2) issued_grows by (auto simp: advances_def ready_def)
  with assms(1) new(2) show ?thesis
    by (intro carriesI [OF adv new(1)]) (auto simp: one_exchange_def)
qed

lemma carries_try:
  assumes "ready client d w" and "carries client d scope w (snd (p w))" and "hands client d scope p"
    and "\<And>t v. ready client d v \<Longrightarrow> (scope, t) \<in> issued_in v \<Longrightarrow> carries client d scope v (snd (f t v))"
  shows "carries client d scope w (snd (try_with p f w))"
  unfolding try_with_def
proof (rule carries_continue)
  show "ready client d w" "carries client d scope w (snd (p w))" by fact+
  fix x v assume "p w = (Some x, v)" "ready client d v"
  with assms(1,3,4) show "carries client d scope v (snd ((case x of Inl e \<Rightarrow> give (Inl e) | Inr y \<Rightarrow> f y) v))"
    by (cases x) (auto simp: hands_def give_def carrying.world_refl)
qed

lemma carries_send_cleared:
  assumes "ready client d w" and "(scope, t) \<in> issued_in w"
    and "\<And>e. moves (carries client d scope) (h e)"
  shows "carries client d scope w (snd (on_error (send_once client parse verb path body key (Some t) account_group) h w))"
  unfolding on_error_def
proof (rule carries_continue)
  show "ready client d w" by fact
  show "carries client d scope w (snd (send_once client parse verb path body key (Some t) account_group w))"
    by (rule carries_send) fact+
  show "carries client d scope v (snd ((case x of
      Inl e \<Rightarrow> continue_with (h e) (\<lambda>e'. give (Inl e')) | Inr y \<Rightarrow> give (Inr y)) v))" for x v
    by (rule carries_moves)
      (auto intro!: carrying.moves_give carrying.moves_continue assms(3) split: sum.split)
qed

lemma carries_retry:
  assumes "ready client d w"
  shows "carries client d scope w (snd (retry_once_scope client parse verb path body key token scope account_group w))"
  unfolding retry_once_scope_def
proof (rule carries_try)
  show "carries client d scope w (snd (on_error (refresh_scope client scope (Some token)) (clear_scope_on_terminal_error client scope) w))"
    by (intro carries_moves carrying.moves_on_error carrying.moves_refresh_scope carrying.moves_clear_named)
qed (intro assms hands_on_error hands_refresh_scope carries_send_cleared carrying.moves_clear_named | assumption)+

lemma carries_call:
  assumes "ready client d w"
  shows "carries client d scope w (snd (authenticated_json_with_scope client parse verb path body key scope account_group w))"
  unfolding authenticated_json_with_scope_def send_once_scope_def
proof (rule carries_try)
  show "carries client d scope w (snd (access_or_refresh_scope client scope w))"
    by (intro carries_moves carrying.moves_access_or_refresh_scope)
  fix t v assume v: "ready client d v" "(scope, t) \<in> issued_in v"
  have "carries client d scope u (snd ((case first of
        Inl e \<Rightarrow> if is_access_token_rejected e
          then retry_once_scope client parse verb path body key t scope account_group else give (Inl e)
      | Inr response \<Rightarrow> give (Inr response)) u))" if "ready client d u" for first u
    using that by (auto simp: give_def carrying.world_refl carries_retry split: sum.split)
  with v show "carries client d scope v (snd (continue_with
      (on_error (send_once client parse verb path body key (Some t) account_group) (clear_scope_on_terminal_error client scope))
      (\<lambda>first. case first of
        Inl e \<Rightarrow> if is_access_token_rejected e
          then retry_once_scope client parse verb path body key t scope account_group else give (Inl e)
      | Inr response \<Rightarrow> give (Inr response)) v))"
    by (intro carries_continue carries_send_cleared carrying.moves_clear_named)
qed (rule assms hands_access_or_refresh)+

text \<open>
  C18: a call of one account never borrows the credentials of another: whatever logins, logouts and
  refreshes the other threads run at the same time, every token the call sends was issued to the user
  of the call under the authentication epoch the call captured.
\<close>

theorem requests_carry_own_token:
  assumes "ready client d w"
  shows "\<exists>new. w_log (snd (authenticated_json_with_scope client parse verb path body key scope account_group w)) = w_log w @ new
    \<and> (\<forall>(q, a) \<in> set new. \<forall>t. header_of q ''X-Token'' = Some t \<longrightarrow>
         (scope, t) \<in> issued_in (snd (authenticated_json_with_scope client parse verb path body key scope account_group w)))"
  using carries_call [OF assms] assms unfolding carries_def by blast

lemma witness_ready: "ready witness_client None (witness_world latch answers)"
proof -
  have "(session_step Some memory_store)\<^sup>*\<^sup>* (session_start memory_store None) witness_login"
    using witness_logs_in by blast
  then show ?thesis
    by (simp add: ready_def env_ok_def witness_world_def witness_client_def guarantee_refl)
qed

theorem requests_carry_own_token_witness:
  "(witness_scope_of_call, ''s'') \<in> issued_in (snd (witness_call latch_default refused_once))"
proof -
  have second: "(witness_request ''b'' ''s'', refused_once ! 2) \<in> set (w_log (snd (witness_call latch_default refused_once)))"
    "header_of (witness_request ''b'' ''s'') ''X-Token'' = Some ''s''"
    by (simp_all add: witness_log witness_request_def header_of_def request_headers_of)
  obtain new where new: "w_log (snd (witness_call latch_default refused_once)) = w_log (witness_world latch_default refused_once) @ new"
    "\<forall>(q, a) \<in> set new. \<forall>t. header_of q ''X-Token'' = Some t \<longrightarrow>
      (witness_scope_of_call, t) \<in> issued_in (snd (witness_call latch_default refused_once))"
    using requests_carry_own_token [OF witness_ready, where latch1 = latch_default and answers1 = refused_once
      and parse = witness_parse and verb = "''POST''" and path = "''/v1/tasks''" and body = None
      and key = "Some ''k''" and scope = witness_scope_of_call and account_group = "Some ''g''"] by blast
  then have "new = w_log (snd (witness_call latch_default refused_once))" by (simp add: witness_world_def)
  with new(2) second show ?thesis by blast
qed

section \<open>Behind a closed latch\<close>

definition fenced :: "('d, 'p) api_client \<Rightarrow> required_upgrade \<Rightarrow> ('d, 'p) world \<Rightarrow> ('d, 'p) world \<Rightarrow> bool" where
  "fenced client r w w' =
    (env_ok client w \<and> latch_required (sh_upgrade (w_shared w)) = Some r \<longrightarrow>
       env_ok client w' \<and> latch_required (sh_upgrade (w_shared w')) = Some r \<and> w_log w' = w_log w)"

lemma fenced_execute: "fenced client r w (snd (execute client parse request w))"
proof (cases "w_env w")
  case Nil
  then show ?thesis by (simp add: fenced_def execute_def continue_with_def atomically_def)
next
  case (Cons e es)
  let ?s = "e (w_shared w)"
  show ?thesis
    unfolding fenced_def
  proof (rule impI, elim conjE)
    assume env: "env_ok client w" and closed: "latch_required (sh_upgrade (w_shared w)) = Some r"
    have s: "latch_required (sh_upgrade ?s) = Some r"
      using env_ok_step(2) [OF env Cons] closed by (simp add: guarantee_def)
    then have "latch_begin OrdinaryTransfer (sh_upgrade ?s) = (Inl r, sh_upgrade ?s)"
      by (simp add: latch_begin_def latch_lock_def)
    then have "snd (execute client parse request w) = (other_threads e w)\<lparr>w_shared := ?s\<lparr>sh_upgrade := sh_upgrade ?s\<rparr>\<rparr>"
      by (simp add: execute_def continue_with_def atomically_def Cons on_upgrade_def other_threads_def give_def Let_def)
    with s env_ok_step(1) [OF env Cons, of "?s\<lparr>sh_upgrade := sh_upgrade ?s\<rparr>"]
    show "env_ok client (snd (execute client parse request w))
        \<and> latch_required (sh_upgrade (w_shared (snd (execute client parse request w)))) = Some r
        \<and> w_log (snd (execute client parse request w)) = w_log w"
      by (simp add: other_threads_def)
  qed
qed

lemma fenced_sections:
  fixes client :: "('d, 'p) api_client"
  shows "section_order (fenced client r) client"
proof unfold_locales
  show "fenced client r w w" for w :: "('d, 'p) world" by (simp add: fenced_def)
  show "fenced client r u w" if "fenced client r u v" "fenced client r v w" for u v w :: "('d, 'p) world"
    using that by (auto simp: fenced_def)
next
  fix w :: "('d, 'p) world" and e es s
  assume e: "w_env w = e # es" and s: "guarantee client (e (w_shared w)) s"
  show "fenced client r w ((other_threads e w)\<lparr>w_shared := s\<rparr>)"
    using env_ok_step(1) [OF _ e, of client s] env_ok_step(2) [OF _ e, of client] s
    by (auto simp: fenced_def guarantee_def other_threads_def)
qed

interpretation fencing: section_order "fenced client r" client for client r
  by (rule fenced_sections)

lemma fenced_refresh: "fenced client r w (snd (request_refresh client token w))"
proof -
  have "moves (fenced client r) (send_once client (cl_tokens client) ''POST'' path body None None None)" for path body
    using fenced_execute by (auto simp: moves_def send_once_def give_def fencing.world_refl split: sum.split)
  then have "moves (fenced client r) (request_refresh client token)"
    unfolding request_refresh_def public_json_def by (auto intro!: fencing.section_moving)
  then show ?thesis by (simp add: moves_def)
qed

interpretation closed_calls: client_call_order "fenced client r" client parse for client r parse
  by unfold_locales (rule fenced_refresh fenced_execute)+

lemma movesD: "moves R p \<Longrightarrow> R w (snd (p w))"
  by (simp add: moves_def)

text \<open>
  C20: behind a closed upgrade latch the client is silent: no call, whether it authenticates, bills or
  replays a saved request, sends anything any more, neither its own request nor a refresh, and the
  requirement stays what it was.
\<close>

theorem closed_latch_sends_nothing:
  assumes "env_ok client w" and "latch_required (sh_upgrade (w_shared w)) = Some r"
    and "w' \<in> {snd (authenticated_json_with_scope client parse verb path body key scope account_group w),
      snd (billing_json_scoped client parse verb path body key billing w),
      snd (authenticated_json client parse verb path body key w),
      snd (replay_saved client parse encode kind request w),
      snd (refresh_persisted_owner client owner w)}"
  shows "w_log w' = w_log w \<and> latch_required (sh_upgrade (w_shared w')) = Some r"
proof -
  have "fenced client r w w'"
    using assms(3)
      movesD [OF closed_calls.moves_authenticated_scope, of client r w parse verb path body key scope account_group]
      movesD [OF closed_calls.moves_billing, of client r w parse verb path body key billing]
      movesD [OF closed_calls.moves_authenticated, of client r w parse verb path body key]
      movesD [OF closed_calls.moves_replay, of client r w parse encode kind request]
      movesD [OF closed_calls.moves_refresh_persisted, of client r w owner]
    by (elim insertE emptyE) simp_all
  with assms(1,2) show ?thesis by (simp add: fenced_def)
qed

theorem closed_latch_sends_nothing_witness:
  "w_log (snd (witness_call (latch_default\<lparr>latch_required := Some unknown_upgrade\<rparr>) refused_once)) = []"
proof -
  let ?w = "witness_world (latch_default\<lparr>latch_required := Some unknown_upgrade\<rparr>) refused_once"
  have "env_ok witness_client ?w" "latch_required (sh_upgrade (w_shared ?w)) = Some unknown_upgrade"
    using witness_ready by (simp_all add: ready_def witness_world_def)
  from closed_latch_sends_nothing [OF this, of
      "snd (witness_call (latch_default\<lparr>latch_required := Some unknown_upgrade\<rparr>) refused_once)"
      witness_parse "''POST''" "''/v1/tasks''" None "Some ''k''" witness_scope_of_call "Some ''g''"]
  have "w_log (snd (witness_call (latch_default\<lparr>latch_required := Some unknown_upgrade\<rparr>) refused_once)) = w_log ?w"
    by blast
  then show ?thesis by (simp add: witness_world_def)
qed

section \<open>Terminal answers\<close>

definition ends :: "('d, 'p) api_client \<Rightarrow> 'd \<Rightarrow> session_scope \<Rightarrow> (api_error + 'a, 'd, 'p) program \<Rightarrow> bool" where
  "ends client d scope p =
    (\<forall>w e w'. ready client d w \<longrightarrow> p w = (Some (Inl e), w') \<longrightarrow> is_terminal_session_error e
       \<longrightarrow> \<not> is_scope_current scope (sh_session (w_shared w')))"

lemma ends_cleared:
  assumes p: "moves (advances client) p" and fatal: "\<And>e. is_terminal_session_error e \<Longrightarrow> fatal e"
  shows "ends client d scope (on_error p (clear_scope_on_error client fatal scope))"
  unfolding ends_def
proof (intro allI impI)
  fix w e w'
  assume w: "ready client d w" and e: "is_terminal_session_error e"
    and run: "on_error p (clear_scope_on_error client fatal scope) w = (Some (Inl e), w')"
  let ?clear = "atomically (on_session (clear_scope (cl_store client) scope) nothing_issued)"
  from run obtain x v where x: "p w = (Some x, v)" and k: "(case x of
      Inl e \<Rightarrow> continue_with (clear_scope_on_error client fatal scope e) (\<lambda>e'. give (Inl e'))
    | Inr y \<Rightarrow> give (Inr y)) v = (Some (Inl e), w')"
    unfolding on_error_def by (rule continue_SomeE)
  then obtain e' where v: "p w = (Some (Inl e'), v)" and h: "clear_scope_on_error client fatal scope e' v = (Some e, w')"
    by (cases x) (auto simp: give_def elim!: continue_SomeE)
  from h have "e' = e"
    by (auto simp: clear_scope_on_error_def give_def split: if_splits elim!: continue_SomeE)
  with h obtain x where "?clear v = (Some x, w')"
    using fatal [OF e] by (auto simp: clear_scope_on_error_def give_def elim!: continue_SomeE)
  then obtain f fs s where c: "w_env v = f # fs" "on_session (clear_scope (cl_store client) scope) nothing_issued (f (w_shared v)) = (x, s)"
    "w' = (other_threads f v)\<lparr>w_shared := s\<rparr>" by (rule atomically_SomeE)
  have "ready client d v" using w v p by (rule ready_after)
  then have "ready client d (other_threads f v)"
    using ready_advances running.critical_section [OF c(1) guarantee_refl] other_threads_same by metis
  then have "startup_closed (sh_session (f (w_shared v)))"
    by (auto simp: ready_def other_threads_def intro: startup_closed_run)
  with c(2) have "\<not> scope_matches (sh_session s) scope"
    by (auto simp: on_session_def split: prod.splits dest: clear_scope_ends)
  with c(3) show "\<not> is_scope_current scope (sh_session (w_shared w'))"
    by (simp add: is_scope_current_def)
qed

lemma ends_continue:
  assumes "moves (advances client) p" and "\<And>x. ends client d scope (f x)"
  shows "ends client d scope (continue_with p f)"
  unfolding ends_def
proof (intro allI impI)
  fix w e w'
  assume w: "ready client d w" and e: "is_terminal_session_error e" and run: "continue_with p f w = (Some (Inl e), w')"
  from run obtain x v where x: "p w = (Some x, v)" "f x v = (Some (Inl e), w')" by (rule continue_SomeE)
  have "ready client d v" using w x(1) assms(1) by (rule ready_after)
  with assms(2) x(2) e show "\<not> is_scope_current scope (sh_session (w_shared w'))" by (auto simp: ends_def)
qed

lemma ends_try:
  assumes "moves (advances client) p" and "ends client d scope p" and "\<And>x. ends client d scope (f x)"
  shows "ends client d scope (try_with p f)"
  unfolding ends_def
proof (intro allI impI)
  fix w e w'
  assume w: "ready client d w" and e: "is_terminal_session_error e" and run: "try_with p f w = (Some (Inl e), w')"
  then obtain x v where x: "p w = (Some x, v)" "(case x of Inl e \<Rightarrow> give (Inl e) | Inr y \<Rightarrow> f y) v = (Some (Inl e), w')"
    unfolding try_with_def by (elim continue_SomeE)
  have v: "ready client d v" using w x(1) assms(1) by (rule ready_after)
  show "\<not> is_scope_current scope (sh_session (w_shared w'))"
    using x v assms(2,3) w e by (cases x) (auto simp: give_def ends_def)
qed

lemma ends_give: "(\<And>e. r = Inl e \<Longrightarrow> \<not> is_terminal_session_error e) \<Longrightarrow> ends client d scope (give r)"
  by (auto simp: ends_def give_def)

lemma not_terminal: "\<not> is_terminal_session_error AuthenticationRequired"
  by (simp add: is_terminal_session_error_def code_in_def)

lemma ends_access_or_refresh: "ends client d scope (access_or_refresh_scope client scope)"
  unfolding access_or_refresh_scope_def clear_scope_on_terminal_error_def
proof (rule ends_continue)
  fix x :: "api_error + string"
  have refused: "ends client d scope (on_error (give r) (clear_scope_on_error client is_terminal_session_error scope))" for r
    by (rule ends_cleared) (auto intro: running.moves_give)
  have refreshed: "ends client d scope (on_error (refresh_scope client scope None) (clear_scope_on_error client is_terminal_session_error scope))"
    by (rule ends_cleared) (auto intro: running.moves_refresh_scope)
  have "ends client d scope (continue_with (atomically (look (\<lambda>s. is_scope_current scope (sh_session s)))) (\<lambda>current.
      if current then on_error (refresh_scope client scope None) (clear_scope_on_error client is_terminal_session_error scope)
      else on_error (give (Inl AuthenticationRequired)) (clear_scope_on_error client is_terminal_session_error scope)))"
    by (rule ends_continue) (auto simp: refused refreshed intro!: running.moves_atomically guarantees)
  with refused show "ends client d scope (case x of
        Inl AuthenticationRequired \<Rightarrow>
          continue_with (atomically (look (\<lambda>s. is_scope_current scope (sh_session s)))) (\<lambda>current.
            if current then on_error (refresh_scope client scope None) (clear_scope_on_error client is_terminal_session_error scope)
            else on_error (give (Inl AuthenticationRequired)) (clear_scope_on_error client is_terminal_session_error scope))
      | Inl e \<Rightarrow> on_error (give (Inl e)) (clear_scope_on_error client is_terminal_session_error scope)
      | Inr token \<Rightarrow> give (Inr token))"
    by (auto intro: ends_give split: sum.split api_error.split)
qed (rule running.moves_access_scope)

lemma ends_retry: "ends client d scope (retry_once_scope client parse verb path body key token scope account_group)"
  unfolding retry_once_scope_def clear_scope_on_terminal_error_def clear_scope_on_exhausted_auth_error_def
  by (rule ends_try)
    (intro ends_cleared running.moves_on_error running.moves_refresh_scope running.moves_clear running.moves_send;
      simp add: exhausted_auth_error_def)+

lemma ends_call: "ends client d scope (authenticated_json_with_scope client parse verb path body key scope account_group)"
  unfolding authenticated_json_with_scope_def send_once_scope_def
proof (rule ends_try)
  show "moves (advances client) (access_or_refresh_scope client scope)"
    by (rule running.moves_access_or_refresh_scope)
  show "ends client d scope (access_or_refresh_scope client scope)"
    by (rule ends_access_or_refresh)
  fix token
  let ?send = "on_error (send_once client parse verb path body key (Some token) account_group) (clear_scope_on_terminal_error client scope)"
  have moves: "moves (advances client) ?send"
    by (intro running.moves_on_error running.moves_send running.moves_clear_named)
  have send: "ends client d scope ?send"
    unfolding clear_scope_on_terminal_error_def by (rule ends_cleared) (rule running.moves_send)
  show "ends client d scope (continue_with ?send (\<lambda>first. case first of
        Inl e \<Rightarrow> if is_access_token_rejected e
          then retry_once_scope client parse verb path body key token scope account_group else give (Inl e)
      | Inr response \<Rightarrow> give (Inr response)))"
    unfolding ends_def
  proof (intro allI impI)
    fix w e w'
    assume w: "ready client d w" and e: "is_terminal_session_error e" and run: "continue_with ?send (\<lambda>first. case first of
        Inl e \<Rightarrow> if is_access_token_rejected e
          then retry_once_scope client parse verb path body key token scope account_group else give (Inl e)
      | Inr response \<Rightarrow> give (Inr response)) w = (Some (Inl e), w')"
    from run obtain first v where v: "?send w = (Some first, v)" "(case first of
        Inl e \<Rightarrow> if is_access_token_rejected e
          then retry_once_scope client parse verb path body key token scope account_group else give (Inl e)
      | Inr response \<Rightarrow> give (Inr response)) v = (Some (Inl e), w')" by (rule continue_SomeE)
    have "ready client d v" using w v(1) moves by (rule ready_after)
    with v e w send ends_retry [of client d scope parse verb path body key token account_group]
    show "\<not> is_scope_current scope (sh_session (w_shared w'))"
      by (cases first) (auto simp: ends_def give_def split: if_splits)
  qed
qed

text \<open>
  C27: a terminal answer ends the session it was given to: when a call returns an error that says the
  session, the refresh token or the account is gone, the lease of the captured scope is not current
  any more, whichever of the requests met the error, whatever the other threads did, and even when
  removing the stored record failed.
\<close>

theorem terminal_error_ends_session:
  assumes "ready client d w" and "is_terminal_session_error e"
    and "authenticated_json_with_scope client parse verb path body key scope account_group w = (Some (Inl e), w')"
  shows "\<not> is_scope_current scope (sh_session (w_shared w'))"
  by (rule ends_call [unfolded ends_def, rule_format, OF assms(1,3,2)])

theorem terminal_error_ends_session_witness:
  "\<not> is_scope_current witness_scope_of_call (sh_session (w_shared (snd (witness_call latch_default
      [Response 401 None (Inr (Refusal ''account_disabled''))]))))"
proof -
  let ?answers = "[Response 401 None (Inr (Refusal ''account_disabled'') :: transport_failure + example_payload)]"
  let ?e = "Http 401 ''account_disabled'' [] (Some ''r1'') None"
  have result: "fst (witness_call latch_default ?answers) = Some (Inl ?e)"
    by (simp add: call_example clear_locked_def memory_clear_if_current_def)
  have terminal: "is_terminal_session_error ?e" by (simp add: is_terminal_session_error_def code_in_def)
  have "witness_call latch_default ?answers = (Some (Inl ?e), snd (witness_call latch_default ?answers))"
    using result by (metis prod.collapse)
  from terminal_error_ends_session [OF witness_ready terminal this] show ?thesis .
qed

end
