(* ===== verification/Api_Client_Progress.thy ===== *)
theory Api_Client_Progress
  imports Api_Client_Safety
begin

text \<open>
  A call of the service client returns: when no other thread interferes, no refresh is under way and
  no permit of the upgrade latch is held, a call needs at most twenty-two critical sections and four
  answers of the server, whatever these answers say. The bounds are counted with the rules below, one
  for each way of putting programs together.
\<close>

section \<open>Counting steps\<close>

definition quiet :: "('d, 'p) world \<Rightarrow> bool" where
  "quiet w = (\<forall>e \<in> set (w_env w). e = id)"

definition returns ::
  "nat \<Rightarrow> nat \<Rightarrow> ('d shared \<Rightarrow> bool) \<Rightarrow> ('a, 'd, 'p) program \<Rightarrow> ('a \<Rightarrow> 'd shared \<Rightarrow> bool) \<Rightarrow> bool" where
  "returns k m P p Q =
    (\<forall>w. quiet w \<longrightarrow> k \<le> length (w_env w) \<longrightarrow> m \<le> length (w_answers w) \<longrightarrow> P (w_shared w) \<longrightarrow>
      (\<exists>x w'. p w = (Some x, w') \<and> quiet w' \<and> Q x (w_shared w')
        \<and> length (w_env w) \<le> length (w_env w') + k \<and> length (w_answers w) \<le> length (w_answers w') + m))"

lemma returns_give: "(\<And>s. P s \<Longrightarrow> Q x s) \<Longrightarrow> returns k m P (give x) Q"
  by (simp add: returns_def give_def)

lemma returns_continue:
  fixes p :: "('a, 'd, 'p) program"
  assumes "returns k m P p Q" and "\<And>x. returns k' m' (Q x) (f x) R"
  shows "returns (k + k') (m + m') P (continue_with p f) R"
  unfolding returns_def
proof (intro allI impI)
  fix w :: "('d, 'p) world"
  assume w: "quiet w" "k + k' \<le> length (w_env w)" "m + m' \<le> length (w_answers w)" "P (w_shared w)"
  then obtain x v where v: "p w = (Some x, v)" "quiet v" "Q x (w_shared v)"
    "length (w_env w) \<le> length (w_env v) + k" "length (w_answers w) \<le> length (w_answers v) + m"
    using assms(1) by (fastforce simp: returns_def)
  with w have "k' \<le> length (w_env v)" "m' \<le> length (w_answers v)" by auto
  with v assms(2) [of x] obtain y u where "f x v = (Some y, u)" "quiet u" "R y (w_shared u)"
    "length (w_env v) \<le> length (w_env u) + k'" "length (w_answers v) \<le> length (w_answers u) + m'"
    by (fastforce simp: returns_def)
  with v show "\<exists>x w'. continue_with p f w = (Some x, w') \<and> quiet w' \<and> R x (w_shared w')
      \<and> length (w_env w) \<le> length (w_env w') + (k + k') \<and> length (w_answers w) \<le> length (w_answers w') + (m + m')"
    by (auto simp: continue_with_def)
qed

lemma returns_weaken:
  fixes p :: "('a, 'd, 'p) program"
  assumes "returns k m P p Q" and "k \<le> k'" "m \<le> m'" and "\<And>s. P' s \<Longrightarrow> P s" and "\<And>x s. Q x s \<Longrightarrow> Q' x s"
  shows "returns k' m' P' p Q'"
  unfolding returns_def
proof (intro allI impI)
  fix w :: "('d, 'p) world" assume "quiet w" "k' \<le> length (w_env w)" "m' \<le> length (w_answers w)" "P' (w_shared w)"
  with assms(2-4) have "quiet w" "k \<le> length (w_env w)" "m \<le> length (w_answers w)" "P (w_shared w)" by auto
  with assms(1) obtain x v where "p w = (Some x, v)" "quiet v" "Q x (w_shared v)"
    "length (w_env w) \<le> length (w_env v) + k" "length (w_answers w) \<le> length (w_answers v) + m"
    by (fastforce simp: returns_def)
  with assms(2,3,5) show "\<exists>x w'. p w = (Some x, w') \<and> quiet w' \<and> Q' x (w_shared w')
      \<and> length (w_env w) \<le> length (w_env w') + k' \<and> length (w_answers w) \<le> length (w_answers w') + m'"
    by (intro exI [of _ x] exI [of _ v]) auto
qed

lemma returns_atomically:
  assumes "\<And>s. P s \<Longrightarrow> Q (fst (f s)) (snd (f s))"
  shows "returns 1 0 P (atomically f) Q"
  unfolding returns_def
proof (intro allI impI)
  fix w assume "quiet w" "1 \<le> length (w_env w)" "P (w_shared w)"
  then obtain es where "w_env w = id # es" "\<forall>e \<in> set es. e = id" by (cases "w_env w") (auto simp: quiet_def)
  with assms [OF \<open>P (w_shared w)\<close>] show "\<exists>x w'. atomically f w = (Some x, w') \<and> quiet w' \<and> Q x (w_shared w')
      \<and> length (w_env w) \<le> length (w_env w') + 1 \<and> length (w_answers w) \<le> length (w_answers w') + 0"
    by (auto simp: atomically_def other_threads_def quiet_def split: prod.split)
qed

lemma returns_await:
  assumes "\<And>s. P s \<Longrightarrow> \<exists>x. condition s = Some x \<and> Q x s"
  shows "returns 1 0 P (await condition) Q"
  unfolding returns_def
proof (intro allI impI)
  fix w assume w: "quiet w" "1 \<le> length (w_env w)" "P (w_shared w)"
  then obtain es where "w_env w = id # es" "\<forall>e \<in> set es. e = id" by (cases "w_env w") (auto simp: quiet_def)
  with assms [OF w(3)] show "\<exists>x w'. await condition w = (Some x, w') \<and> quiet w' \<and> Q x (w_shared w')
      \<and> length (w_env w) \<le> length (w_env w') + 1 \<and> length (w_answers w) \<le> length (w_answers w') + 0"
    by (auto simp: await_def other_threads_def quiet_def)
qed

lemma returns_transmit: "returns 0 1 P (transmit request) (\<lambda>_. P)"
  by (auto simp: returns_def transmit_def quiet_def neq_Nil_conv Suc_le_eq split: list.split)

lemma returns_on_error:
  assumes "returns k m P p (\<lambda>_. Q)" and "\<And>e. returns k' m' Q (h e) (\<lambda>_. Q)"
  shows "returns (k + k') (m + m') P (on_error p h) (\<lambda>_. Q)"
  unfolding on_error_def
proof (rule returns_continue [OF assms(1)])
  fix x :: "'c + 'd"
  show "returns k' m' Q (case x of Inl e \<Rightarrow> continue_with (h e) (\<lambda>e'. give (Inl e')) | Inr y \<Rightarrow> give (Inr y)) (\<lambda>_. Q)"
  proof (cases x)
    case (Inl e)
    have "returns (k' + 0) (m' + 0) Q (continue_with (h e) (\<lambda>e'. give (Inl e'))) (\<lambda>_. Q)"
      by (rule returns_continue [OF assms(2)]) (rule returns_give)
    with Inl show ?thesis by simp
  qed (simp add: returns_give)
qed

lemma returns_try:
  assumes "returns k m P p (\<lambda>_. Q)" and "\<And>x. returns k' m' Q (f x) (\<lambda>_. Q)"
  shows "returns (k + k') (m + m') P (try_with p f) (\<lambda>_. Q)"
  unfolding try_with_def
  by (rule returns_continue [OF assms(1)]) (auto intro: returns_give assms(2) split: sum.split)

section \<open>The client without interference\<close>

definition latch_idle :: "upgrade_latch \<Rightarrow> bool" where
  "latch_idle l = (\<forall>kind. latch_counts l kind = 0)"

definition calm :: "'d shared \<Rightarrow> bool" where
  "calm s = (\<not> ss_refreshing (sh_session s) \<and> latch_idle (sh_upgrade s))"

definition transferring :: "'d session_system \<Rightarrow> 'd shared \<Rightarrow> bool" where
  "transferring y s = (sh_system s = y \<and> (\<forall>kind. latch_counts (sh_upgrade s) kind = (if kind = OrdinaryTransfer then 1 else 0)))"

definition rested :: "'d session_system \<Rightarrow> 'd shared \<Rightarrow> bool" where
  "rested y s = (sh_system s = y \<and> latch_idle (sh_upgrade s))"

lemma returns_returning: "returns 1 0 (transferring y) (returning r) (\<lambda>_. rested y)"
proof -
  have "returns (1 + 0) (0 + 0) (transferring y) (returning r) (\<lambda>_. rested y)"
    unfolding returning_def drop_transfer_def
    by (rule returns_continue [OF returns_atomically [where Q = "\<lambda>_. rested y"] returns_give])
      (auto simp: transferring_def rested_def on_upgrade_def permit_drop_def count_down_def latch_idle_def)
  then show ?thesis by simp
qed

lemma returns_settle: "returns 2 0 (transferring y) (settle client parse answer) (\<lambda>_. rested y)"
proof (cases "decode_answer client parse answer")
  case (Failed e)
  then show ?thesis
    using returns_weaken [OF returns_returning [of y "Inl e"], of 2 0] by (simp add: settle_def)
next
  case (UpgradeNeeded required)
  have "returns (1 + (1 + 0)) (0 + (0 + 0)) (transferring y)
      (continue_with (atomically (on_upgrade (\<lambda>l. ((), latch_trip_from_transfer required l)))) (\<lambda>_.
       continue_with (await (\<lambda>s. if latch_drained (latch_lock (sh_upgrade s)) then Some () else None)) (\<lambda>_.
       give (Inl (as_error required))))) (\<lambda>_. rested y)"
    by (rule returns_continue [OF returns_atomically [where Q = "\<lambda>_. rested y"]
          returns_continue [OF returns_await [where Q = "\<lambda>_. rested y"] returns_give]])
      (auto simp: transferring_def rested_def on_upgrade_def latch_idle_def permit_drop_def count_down_def latch_drained_iff)
  with UpgradeNeeded show ?thesis by (simp add: settle_def numeral_2_eq_2)
next
  case (Decoded response)
  have "returns (1 + 1) (0 + 0) (transferring y)
      (continue_with (atomically (on_upgrade (latch_apply_if_open response))) (\<lambda>applied.
       returning (case applied of Inl required \<Rightarrow> Inl (as_error required) | Inr r \<Rightarrow> Inr r))) (\<lambda>_. rested y)"
    by (rule returns_continue [OF returns_atomically [where Q = "\<lambda>_. transferring y"] returns_returning])
      (auto simp: transferring_def on_upgrade_def latch_apply_if_open_def Let_def split: option.split)
  with Decoded show ?thesis by (simp add: settle_def numeral_2_eq_2)
qed

lemma returns_execute: "returns 3 1 (rested y) (execute client parse request) (\<lambda>_. rested y)"
proof -
  let ?admitted = "\<lambda>a. case a of Inl r \<Rightarrow> rested y | Inr k \<Rightarrow> transferring y"
  have begun: "?admitted (fst (on_upgrade (latch_begin OrdinaryTransfer) s)) (snd (on_upgrade (latch_begin OrdinaryTransfer) s))"
    if "rested y s" for s
    using that by (auto simp: rested_def transferring_def latch_idle_def on_upgrade_def latch_begin_def Let_def
        checked_add_def split: option.split)
  have sent: "returns (0 + 2) (1 + 0) (transferring y) (continue_with (transmit request) (settle client parse)) (\<lambda>_. rested y)"
    by (rule returns_continue [OF returns_transmit returns_settle])
  have "returns (1 + 2) (0 + 1) (rested y) (execute client parse request) (\<lambda>_. rested y)"
    unfolding execute_def
  proof (rule returns_continue [OF returns_atomically [where Q = ?admitted, OF begun]])
    show "returns 2 1 (?admitted a) (case a of Inl required \<Rightarrow> give (Inl (as_error required))
        | Inr _ \<Rightarrow> continue_with (transmit request) (settle client parse)) (\<lambda>_. rested y)" for a
      using sent by (cases a) (auto intro: returns_give simp: numeral_2_eq_2)
  qed
  then show ?thesis by (simp add: numeral_3_eq_3)
qed

lemma returns_send_once: "returns 3 1 (rested y) (send_once client parse verb path body key token account_group) (\<lambda>_. rested y)"
proof -
  have "returns 3 1 (rested y) (\<lambda>w. execute client parse (q w) w) (\<lambda>_. rested y)" for q
    using returns_execute [of y client parse "q w" for w] by (simp add: returns_def)
  then show ?thesis by (auto simp: send_once_def intro: returns_give split: sum.split)
qed

lemma returns_request_refresh: "returns 3 1 (rested y) (request_refresh client token) (\<lambda>_. rested y)"
  unfolding request_refresh_def public_json_def
  by (rule returns_weaken [OF returns_try [OF returns_send_once returns_give [where k = 0 and m = 0]]]) auto

text \<open>A refresh that is claimed is settled: afterwards none is under way.\<close>

lemma not_refreshing_simps [simp]:
  "\<not> ss_refreshing (close_exhausted_session s)"
  "\<not> ss_refreshing (record_refresh_failure e s)"
  by (auto simp: close_exhausted_session_def record_refresh_failure_def dest: next_epochs_ok(1) next_epochs_err(1)
      split: prod.split sum.split)

lemma not_refreshing_invalidate [simp]: "\<not> ss_refreshing (invalidate_session_lease s)"
  by (auto simp: invalidate_session_lease_def split: option.split)

lemma not_refreshing_conflict [simp]: "\<not> ss_refreshing (record_store_conflict current s)"
  by (simp add: record_store_conflict_def Let_def)

lemma refresh_begin_calm:
  assumes "refresh_scope_begin store scope rejected (s, d) = (x, s', d')" and "\<not> ss_refreshing s"
  shows "case x of Finished r \<Rightarrow> \<not> ss_refreshing s' | WaitForRefresh n \<Rightarrow> False | CallServer c \<Rightarrow> scope_matches s' scope"
proof -
  have "case x of Finished r \<Rightarrow> \<not> ss_refreshing s' | WaitForRefresh n \<Rightarrow> False | CallServer c \<Rightarrow> scope_matches s' scope"
    if "refresh_claim store scope (s, d) = (x, s', d')" "scope_matches s scope"
    using that assms(2)
    by (auto simp: refresh_claim_def Let_def scope_matches_def dest!: next_epochs_err(1) next_epochs_ok(1)
        split: prod.splits sum.splits option.splits if_splits)
  with assms show ?thesis by (auto simp: refresh_scope_begin_def split: if_splits option.splits)
qed

lemma refresh_finish_calm:
  assumes "refresh_scope_finish store scope captured answer (s, d) = (r, s', d')" and "scope_matches s scope"
  shows "\<not> ss_refreshing s'"
  using assms
  by (auto simp: refresh_scope_finish_def persist_refreshed_tokens_if_current_def finish_refresh_def Let_def
      dest!: next_epochs_err(1) next_epochs_ok(1) split: sum.splits prod.splits store_mutation.splits)

lemma clear_scope_calm:
  "clear_scope store scope (s, d) = (r, s', d') \<Longrightarrow> \<not> ss_refreshing s \<Longrightarrow> \<not> ss_refreshing s'"
  by (auto simp: clear_scope_def clear_locked_def Let_def
      split: if_splits option.splits prod.splits sum.splits store_mutation.splits)

lemma returns_refresh_scope:
  fixes client :: "('d, 'p) api_client"
  shows "returns 5 1 calm (refresh_scope client scope rejected) (\<lambda>_. calm)"
proof -
  let ?claimed = "\<lambda>x s. case x of Finished r \<Rightarrow> calm s | WaitForRefresh n \<Rightarrow> False
      | CallServer c \<Rightarrow> scope_matches (sh_session s) scope \<and> latch_idle (sh_upgrade s)"
  let ?claim = "on_session (refresh_scope_begin (cl_store client) scope rejected) nothing_issued"
  let ?finish = "\<lambda>captured answer. on_session (refresh_scope_finish (cl_store client) scope captured answer) (issued_for scope)"
  have begun: "?claimed (fst (?claim s)) (snd (?claim s))" if "calm s" for s
    using that refresh_begin_calm [of "cl_store client" scope rejected "sh_session s" "sy_disk (sh_system s)"]
    by (auto simp: calm_def on_session_def split: prod.split refresh_next.splits)
  have finish: "returns 1 0 (\<lambda>s. scope_matches (sh_session s) scope \<and> latch_idle (sh_upgrade s))
      (atomically (?finish captured answer)) (\<lambda>_. calm)" for captured answer
    by (rule returns_atomically) (auto simp: on_session_def calm_def split: prod.split dest: refresh_finish_calm)
  have call: "returns (3 + 1) (1 + 0) (\<lambda>s. scope_matches (sh_session s) scope \<and> latch_idle (sh_upgrade s))
      (continue_with (request_refresh client token) (\<lambda>answer. atomically (?finish captured answer))) (\<lambda>_. calm)" for token captured
  proof (rule returns_continue [OF _ finish])
    show "returns 3 1 (\<lambda>s. scope_matches (sh_session s) scope \<and> latch_idle (sh_upgrade s)) (request_refresh client token)
        (\<lambda>_ s. scope_matches (sh_session s) scope \<and> latch_idle (sh_upgrade s))"
      unfolding returns_def
    proof (intro allI impI)
      fix w :: "('d, 'p) world"
      assume w: "quiet w" "3 \<le> length (w_env w)" "1 \<le> length (w_answers w)"
        and s: "scope_matches (sh_session (w_shared w)) scope \<and> latch_idle (sh_upgrade (w_shared w))"
      then have "rested (sh_system (w_shared w)) (w_shared w)" by (simp add: rested_def)
      with w returns_request_refresh [of "sh_system (w_shared w)" client token]
      obtain x w' where "request_refresh client token w = (Some x, w')" "quiet w'" "rested (sh_system (w_shared w)) (w_shared w')"
        "length (w_env w) \<le> length (w_env w') + 3" "length (w_answers w) \<le> length (w_answers w') + 1"
        by (fastforce simp: returns_def)
      with s show "\<exists>x w'. request_refresh client token w = (Some x, w') \<and> quiet w'
          \<and> (scope_matches (sh_session (w_shared w')) scope \<and> latch_idle (sh_upgrade (w_shared w')))
          \<and> length (w_env w) \<le> length (w_env w') + 3 \<and> length (w_answers w) \<le> length (w_answers w') + 1"
        by (auto simp: rested_def)
    qed
  qed
  have "returns (1 + 4) (0 + 1) calm (refresh_scope client scope rejected) (\<lambda>_. calm)"
    unfolding refresh_scope_def
  proof (rule returns_continue [OF returns_atomically [where Q = ?claimed, OF begun]])
    show "returns 4 1 (?claimed x) (case x of
          Finished r \<Rightarrow> give r
        | WaitForRefresh observed \<Rightarrow> await (\<lambda>s. refresh_scope_wake scope observed (sh_session s))
        | CallServer captured \<Rightarrow>
            continue_with (request_refresh client (rs_refresh_token captured)) (\<lambda>answer. atomically (?finish captured answer)))
        (\<lambda>_. calm)" for x
      using call by (cases x) (auto intro: returns_give simp: returns_def [of _ _ "\<lambda>_. False"])
  qed
  then show ?thesis by simp
qed

lemma returns_clear: "returns 1 0 calm (clear_scope_on_error client fatal scope e) (\<lambda>_. calm)"
proof (cases "fatal e")
  case True
  let ?clear = "on_session (clear_scope (cl_store client) scope) nothing_issued"
  have "returns (1 + 0) (0 + 0) calm (continue_with (atomically ?clear) (\<lambda>_. give e)) (\<lambda>_. calm)"
    by (rule returns_continue [OF returns_atomically [where Q = "\<lambda>_. calm"] returns_give])
      (auto simp: on_session_def calm_def split: prod.split dest: clear_scope_calm)
  with True show ?thesis by (simp add: clear_scope_on_error_def)
qed (simp add: clear_scope_on_error_def returns_give)

lemma returns_send_calm:
  fixes client :: "('d, 'p) api_client"
  shows "returns 3 1 calm (send_once client parse verb path body key token account_group) (\<lambda>_. calm)"
  unfolding returns_def
proof (intro allI impI)
  fix w :: "('d, 'p) world"
  assume w: "quiet w" "3 \<le> length (w_env w)" "1 \<le> length (w_answers w)" and s: "calm (w_shared w)"
  then have "rested (sh_system (w_shared w)) (w_shared w)" by (simp add: rested_def calm_def)
  with w returns_send_once [of "sh_system (w_shared w)" client parse verb path body key token account_group]
  obtain x w' where "send_once client parse verb path body key token account_group w = (Some x, w')" "quiet w'"
    "rested (sh_system (w_shared w)) (w_shared w')"
    "length (w_env w) \<le> length (w_env w') + 3" "length (w_answers w) \<le> length (w_answers w') + 1"
    by (fastforce simp: returns_def)
  with s show "\<exists>x w'. send_once client parse verb path body key token account_group w = (Some x, w') \<and> quiet w'
      \<and> calm (w_shared w') \<and> length (w_env w) \<le> length (w_env w') + 3 \<and> length (w_answers w) \<le> length (w_answers w') + 1"
    by (auto simp: rested_def calm_def)
qed

lemmas returns_cleared = returns_on_error [OF _ returns_clear]

lemma returns_access_token: "returns 1 0 calm (access_token_for_scope scope) (\<lambda>_. calm)"
proof -
  let ?entered = "\<lambda>x s. calm s \<and> (\<forall>n. x \<noteq> Inr (Inr n))"
  have "returns (1 + 0) (0 + 0) calm (access_token_for_scope scope) (\<lambda>_. calm)"
    unfolding access_token_for_scope_def try_with_def
  proof (rule returns_continue [OF returns_atomically [where Q = ?entered]])
    show "?entered (fst (look (\<lambda>s. access_token_for_scope_enter scope (sh_session s)) s))
        (snd (look (\<lambda>s. access_token_for_scope_enter scope (sh_session s)) s))" if "calm s" for s
      using that by (auto simp: look_def access_token_for_scope_enter_def calm_def split: if_splits option.splits)
    show "returns 0 0 (?entered x) (case x of Inl e \<Rightarrow> give (Inl e) | Inr entered \<Rightarrow> (case entered of
        Inl token \<Rightarrow> give (Inr token)
      | Inr observed \<Rightarrow> await (\<lambda>s. access_token_for_scope_wake scope observed (sh_session s)))) (\<lambda>_. calm)" for x
      by (auto simp: returns_def [of _ _ "\<lambda>_. False"] intro: returns_give split: sum.split)
  qed
  then show ?thesis by simp
qed

lemma returns_access_or_refresh: "returns 8 1 calm (access_or_refresh_scope client scope) (\<lambda>_. calm)"
proof -
  let ?cleared = "\<lambda>p. on_error p (clear_scope_on_terminal_error client scope)"
  have refused: "returns 7 1 calm (?cleared (give r)) (\<lambda>_. calm)" for r :: "api_error + string"
    unfolding clear_scope_on_terminal_error_def
    by (rule returns_weaken [OF returns_cleared [OF returns_give [where k = 0 and m = 0 and P = calm and Q = "\<lambda>_. calm"]]]) auto
  have refreshed: "returns 6 1 calm (?cleared (refresh_scope client scope None)) (\<lambda>_. calm)"
    unfolding clear_scope_on_terminal_error_def
    by (rule returns_weaken [OF returns_cleared [OF returns_refresh_scope]]) auto
  have checked: "returns (1 + 6) (0 + 1) calm (continue_with (atomically (look (\<lambda>s. is_scope_current scope (sh_session s)))) (\<lambda>current.
      if current then ?cleared (refresh_scope client scope None) else ?cleared (give (Inl AuthenticationRequired)))) (\<lambda>_. calm)"
  proof (rule returns_continue [OF returns_atomically [where Q = "\<lambda>_. calm"]])
    have "returns 6 1 calm (?cleared (give (Inl AuthenticationRequired :: api_error + string))) (\<lambda>_. calm)"
      unfolding clear_scope_on_terminal_error_def
      by (rule returns_weaken [OF returns_cleared [OF returns_give [where k = 0 and m = 0 and P = calm and Q = "\<lambda>_. calm"]]]) auto
    with refreshed show "returns 6 1 calm (if x then ?cleared (refresh_scope client scope None)
        else ?cleared (give (Inl AuthenticationRequired))) (\<lambda>_. calm)" for x by simp
  qed (simp add: look_def)
  have "returns (1 + 7) (0 + 1) calm (access_or_refresh_scope client scope) (\<lambda>_. calm)"
    unfolding access_or_refresh_scope_def
    by (rule returns_continue [OF returns_access_token])
      (use checked refused in \<open>auto intro: returns_give split: sum.split api_error.split\<close>)
  then show ?thesis by simp
qed

lemma returns_retry:
  "returns 10 2 calm (retry_once_scope client parse verb path body key token scope account_group) (\<lambda>_. calm)"
proof -
  have "returns ((5 + 1) + (3 + 1)) ((1 + 0) + (1 + 0)) calm
      (retry_once_scope client parse verb path body key token scope account_group) (\<lambda>_. calm)"
    unfolding retry_once_scope_def clear_scope_on_terminal_error_def clear_scope_on_exhausted_auth_error_def
    by (rule returns_try [OF returns_cleared [OF returns_refresh_scope] returns_cleared [OF returns_send_calm]])
  then show ?thesis by (simp add: numeral_2_eq_2)
qed

lemma returns_call:
  "returns 22 4 calm (authenticated_json_with_scope client parse verb path body key scope account_group) (\<lambda>_. calm)"
proof -
  have "returns (8 + ((3 + 1) + 10)) (1 + ((1 + 0) + 2)) calm
      (authenticated_json_with_scope client parse verb path body key scope account_group) (\<lambda>_. calm)"
    unfolding authenticated_json_with_scope_def send_once_scope_def clear_scope_on_terminal_error_def
    by (rule returns_try [OF returns_access_or_refresh returns_continue [OF returns_cleared [OF returns_send_calm]]])
      (auto intro: returns_give returns_retry split: sum.split)
  then show ?thesis by (simp add: eval_nat_numeral)
qed

text \<open>
  C33: a call returns: alone on a client where no refresh is under way and no transfer is counted,
  an authenticated call comes back with a result after at most twenty-two critical sections and four
  answers of the server, whatever the store and the answers are, an upgrade answer included; and it
  leaves no refresh under way and no permit of the latch behind.
\<close>

theorem quiet_call_returns:
  assumes "quiet w" and "calm (w_shared w)" and "22 \<le> length (w_env w)" and "4 \<le> length (w_answers w)"
  shows "\<exists>r w'. authenticated_json_with_scope client parse verb path body key scope account_group w = (Some r, w')
    \<and> length (w_env w) \<le> length (w_env w') + 22 \<and> length (w_answers w) \<le> length (w_answers w') + 4
    \<and> calm (w_shared w')"
  using returns_call [of client parse verb path body key scope account_group] assms
  unfolding returns_def by blast

theorem quiet_call_returns_witness:
  "fst (witness_call latch_default refused_once) \<noteq> None"
proof -
  have "quiet (witness_world latch_default refused_once)" "calm (w_shared (witness_world latch_default refused_once))"
    "22 \<le> length (w_env (witness_world latch_default refused_once))"
    "4 \<le> length (w_answers (witness_world latch_default refused_once))"
    by (simp_all add: quiet_def calm_def witness_world_def witness_login_def session_default_def latch_default_def
        latch_idle_def refused_once_def)
  from quiet_call_returns [OF this, of witness_client witness_parse "''POST''" "''/v1/tasks''" None "Some ''k''"
      witness_scope_of_call "Some ''g''"] show ?thesis by force
qed

end
