(* ===== verification/Delivery_Reservations.thy ===== *)
theory Delivery_Reservations
  imports Recovery_Operations "HOL-Library.Product_Lexorder" "HOL-Library.List_Lexorder" "HOL-Library.Char_ord"
begin

text \<open>
  Which generated files are being downloaded (\<open>native-client/src/runtime/generation/delivery_retry.rs\<close>,
  the types in \<open>native-client/src/runtime/model.rs\<close>): a worker reserves all the files it is going to fetch, or none, and gives
  them back under the number of its reservation.
\<close>

section \<open>Keys\<close>

text \<open>The derived order compares the fields from first to last.\<close>

datatype download_key = DownloadKey (dk_owner_user_id: string) (dk_auth_epoch: u64) (dk_client_request_id: string) (dk_file_id: string)

fun key_fields :: "download_key \<Rightarrow> string \<times> u64 \<times> string \<times> string" where
  "key_fields (DownloadKey owner epoch request v) = (owner, epoch, request, v)"

lemma key_fields_inj: "key_fields a = key_fields b \<Longrightarrow> a = b"
  by (cases a; cases b) simp

instantiation download_key :: linorder
begin

definition less_eq_download_key :: "download_key \<Rightarrow> download_key \<Rightarrow> bool" where
  "less_eq_download_key a b = (key_fields a \<le> key_fields b)"

definition less_download_key :: "download_key \<Rightarrow> download_key \<Rightarrow> bool" where
  "less_download_key a b = (key_fields a < key_fields b)"

instance
  by intro_classes (auto simp: less_eq_download_key_def less_download_key_def dest: key_fields_inj)

end

definition key_for :: "session_scope \<Rightarrow> string \<Rightarrow> string \<Rightarrow> download_key" where
  "key_for scope client_request_id file_id =
    DownloadKey (scope_owner_user_id scope) (scope_auth_epoch scope) client_request_id file_id"

definition belongs_to_scope :: "session_scope \<Rightarrow> download_key \<Rightarrow> bool" where
  "belongs_to_scope scope key =
    (dk_owner_user_id key = scope_owner_user_id scope \<and> dk_auth_epoch key = scope_auth_epoch scope)"

section \<open>The registry\<close>

record download_reservation =
  dr_key :: download_key
  dr_reservation_id :: u64

record download_registry =
  reg_downloads :: "download_key \<Rightarrow> u64 option"
  reg_next_reservation_id :: u64

definition registry_default :: download_registry where
  "registry_default = \<lparr>reg_downloads = (\<lambda>_. None), reg_next_reservation_id = 0\<rparr>"

definition next_reservation_id :: "u64 \<Rightarrow> u64" where
  "next_reservation_id i = (let j = i + 1 in if j = 0 then 1 else j)"

definition try_reserve_pairs ::
  "session_scope \<Rightarrow> (string \<times> string) list \<Rightarrow> download_registry
    \<Rightarrow> download_reservation list option \<times> download_registry" where
  "try_reserve_pairs scope pairs r =
    (let keys = sorted_list_of_set (set (map (\<lambda>(request, v). key_for scope request v) pairs)) in
     if \<exists>key \<in> set keys. reg_downloads r key \<noteq> None then (None, r)
     else if keys = [] then (Some [], r)
     else
       (let i = next_reservation_id (reg_next_reservation_id r);
            reservations = map (\<lambda>key. \<lparr>dr_key = key, dr_reservation_id = i\<rparr>) keys in
        (Some reservations,
         \<lparr>reg_downloads = reg_downloads r ++ map_of (map (\<lambda>v. (dr_key v, dr_reservation_id v)) reservations),
          reg_next_reservation_id = i\<rparr>)))"

fun release_reservations :: "download_reservation list \<Rightarrow> download_registry \<Rightarrow> bool \<times> download_registry" where
  "release_reservations [] r = (False, r)"
| "release_reservations (v # vs) r =
    (if reg_downloads r (dr_key v) = Some (dr_reservation_id v)
     then (True, snd (release_reservations vs (r\<lparr>reg_downloads := (reg_downloads r)(dr_key v := None)\<rparr>)))
     else release_reservations vs r)"

definition release_for_scope :: "session_scope \<Rightarrow> download_registry \<Rightarrow> download_registry" where
  "release_for_scope scope r =
    r\<lparr>reg_downloads := (\<lambda>key. if belongs_to_scope scope key then None else reg_downloads r key)\<rparr>"

definition open_failed_delivery :: "pending_delivery \<Rightarrow> bool" where
  "open_failed_delivery d =
    (\<not> is_blank (pd_failed_asset_id d) \<and> is_blank (pd_local_path d) \<and> \<not> pd_acknowledged d \<and> \<not> pd_abandoned d)"

definition reserve_recovered_pairs ::
  "pending_generation \<Rightarrow> download_registry \<Rightarrow> download_reservation list option \<times> download_registry" where
  "reserve_recovered_pairs record =
    try_reserve_pairs \<lparr>scope_owner_user_id = pg_owner_user_id record, scope_auth_epoch = pg_auth_epoch record\<rparr>
      (map (\<lambda>d. (pg_client_request_id record, pd_file_id d)) (filter open_failed_delivery (pg_deliveries record)))"

section \<open>Single operations\<close>

lemma try_reserve_none:
  "fst (try_reserve_pairs scope pairs r) = None
     \<longleftrightarrow> (\<exists>(request, v) \<in> set pairs. reg_downloads r (key_for scope request v) \<noteq> None)"
  by (auto simp: try_reserve_pairs_def Let_def)

lemma try_reserve_shape:
  assumes "try_reserve_pairs scope pairs r = (Some vs, r')"
  shows "\<exists>keys i. set keys = (\<lambda>(request, v). key_for scope request v) ` set pairs
    \<and> i = next_reservation_id (reg_next_reservation_id r)
    \<and> vs = map (\<lambda>key. \<lparr>dr_key = key, dr_reservation_id = i\<rparr>) keys
    \<and> (\<forall>key \<in> set keys. reg_downloads r key = None)
    \<and> reg_downloads r' = (\<lambda>key. if key \<in> set keys then Some i else reg_downloads r key)
    \<and> reg_next_reservation_id r' = (if keys = [] then reg_next_reservation_id r else i)"
proof -
  define keys where "keys = sorted_list_of_set (set (map (\<lambda>(request, v). key_for scope request v) pairs))"
  define i where "i = next_reservation_id (reg_next_reservation_id r)"
  have keys: "set keys = (\<lambda>(request, v). key_for scope request v) ` set pairs"
    by (simp add: keys_def)
  have added: "m ++ map_of (map (\<lambda>key. (key, i)) ks) = (\<lambda>key. if key \<in> set ks then Some i else m key)" for m ks
    by (auto simp: map_add_def map_of_map_restrict restrict_map_def fun_eq_iff)
  have "try_reserve_pairs scope pairs r =
    (if \<exists>key \<in> set keys. reg_downloads r key \<noteq> None then (None, r)
     else if keys = [] then (Some [], r)
     else (Some (map (\<lambda>key. \<lparr>dr_key = key, dr_reservation_id = i\<rparr>) keys),
       \<lparr>reg_downloads = (\<lambda>key. if key \<in> set keys then Some i else reg_downloads r key), reg_next_reservation_id = i\<rparr>))"
    unfolding try_reserve_pairs_def keys_def [symmetric] Let_def i_def [symmetric]
    by (simp add: comp_def added)
  with assms have "vs = map (\<lambda>key. \<lparr>dr_key = key, dr_reservation_id = i\<rparr>) keys
    \<and> (\<forall>key \<in> set keys. reg_downloads r key = None)
    \<and> reg_downloads r' = (\<lambda>key. if key \<in> set keys then Some i else reg_downloads r key)
    \<and> reg_next_reservation_id r' = (if keys = [] then reg_next_reservation_id r else i)"
    by (auto split: if_splits)
  with keys i_def show ?thesis by blast
qed

lemma try_reserve_some:
  assumes "try_reserve_pairs scope pairs r = (Some vs, r')"
  shows "dr_key ` set vs = (\<lambda>(request, v). key_for scope request v) ` set pairs"
    and "\<forall>v \<in> set vs. reg_downloads r (dr_key v) = None \<and> reg_downloads r' (dr_key v) = Some (dr_reservation_id v)"
    and "key \<notin> dr_key ` set vs \<Longrightarrow> reg_downloads r' key = reg_downloads r key"
    and "\<forall>v \<in> set vs. dr_reservation_id v = reg_next_reservation_id r'
          \<and> reg_next_reservation_id r' = next_reservation_id (reg_next_reservation_id r)"
    and "reg_next_reservation_id r' \<in> {reg_next_reservation_id r, next_reservation_id (reg_next_reservation_id r)}"
proof -
  obtain keys i where keys: "set keys = (\<lambda>(request, v). key_for scope request v) ` set pairs"
    and i: "i = next_reservation_id (reg_next_reservation_id r)"
    and vs: "vs = map (\<lambda>key. \<lparr>dr_key = key, dr_reservation_id = i\<rparr>) keys"
    and r: "\<forall>key \<in> set keys. reg_downloads r key = None"
      "reg_downloads r' = (\<lambda>key. if key \<in> set keys then Some i else reg_downloads r key)"
      "reg_next_reservation_id r' = (if keys = [] then reg_next_reservation_id r else i)"
    using try_reserve_shape [OF assms] by blast
  have reserved: "dr_key ` set vs = set keys" by (simp add: vs image_image)
  then show "dr_key ` set vs = (\<lambda>(request, v). key_for scope request v) ` set pairs" by (simp only: keys)
  show "\<forall>v \<in> set vs. reg_downloads r (dr_key v) = None \<and> reg_downloads r' (dr_key v) = Some (dr_reservation_id v)"
    "\<forall>v \<in> set vs. dr_reservation_id v = reg_next_reservation_id r'
          \<and> reg_next_reservation_id r' = next_reservation_id (reg_next_reservation_id r)"
    "reg_next_reservation_id r' \<in> {reg_next_reservation_id r, next_reservation_id (reg_next_reservation_id r)}"
    using r by (auto simp: vs i)
  show "key \<notin> dr_key ` set vs \<Longrightarrow> reg_downloads r' key = reg_downloads r key"
    by (simp only: reserved r if_False)
qed

lemma release_keeps_others:
  assumes "\<lparr>dr_key = key, dr_reservation_id = i\<rparr> \<notin> set vs" and "reg_downloads r key = Some i"
  shows "reg_downloads (snd (release_reservations vs r)) key = Some i"
  using assms
proof (induction vs r rule: release_reservations.induct)
  case (2 v vs r)
  then have "v \<noteq> \<lparr>dr_key = key, dr_reservation_id = i\<rparr>" by auto
  then have "dr_key v = key \<Longrightarrow> dr_reservation_id v \<noteq> i" by (cases v) auto
  with 2 show ?case by (cases "dr_key v = key") auto
qed simp

lemma release_next: "reg_next_reservation_id (snd (release_reservations vs r)) = reg_next_reservation_id r"
  by (induction vs r rule: release_reservations.induct) auto

section \<open>Traces\<close>

datatype download_event =
    Reserved "download_reservation list"
  | Released "download_reservation list"
  | ScopeEnded session_scope

inductive downloads_after :: "download_event list \<Rightarrow> download_registry \<Rightarrow> bool" where
  nothing: "downloads_after [] registry_default"
| reserves: "downloads_after trace r \<Longrightarrow> try_reserve_pairs scope pairs r = (Some vs, r') \<Longrightarrow>
    downloads_after (trace @ [Reserved vs]) r'"
| refuses: "downloads_after trace r \<Longrightarrow> try_reserve_pairs scope pairs r = (None, r') \<Longrightarrow> downloads_after trace r'"
| releases: "downloads_after trace r \<Longrightarrow> downloads_after (trace @ [Released vs]) (snd (release_reservations vs r))"
| ends: "downloads_after trace r \<Longrightarrow> downloads_after (trace @ [ScopeEnded scope]) (release_for_scope scope r)"

definition gives_back :: "download_reservation \<Rightarrow> download_event \<Rightarrow> bool" where
  "gives_back v event =
    (case event of
       Reserved _ \<Rightarrow> False
     | Released vs \<Rightarrow> v \<in> set vs
     | ScopeEnded scope \<Rightarrow> belongs_to_scope scope (dr_key v))"

definition granted :: "download_event list \<Rightarrow> download_reservation set" where
  "granted trace = \<Union> {set vs | vs. Reserved vs \<in> set trace}"

lemma granted_simps [simp]:
  "granted [] = {}" "granted (trace @ [Reserved vs]) = granted trace \<union> set vs"
  "granted (trace @ [Released vs]) = granted trace" "granted (trace @ [ScopeEnded scope]) = granted trace"
  by (auto simp: granted_def)

lemma trace_snoc_cases:
  assumes "trace @ [event] = before @ [Reserved vs] @ after"
  obtains (last) "after = []" "before = trace" "event = Reserved vs"
    | (earlier) later where "after = later @ [event]" "trace = before @ [Reserved vs] @ later"
  using assms by (cases after rule: rev_cases) auto

text \<open>A reservation stays in the registry until it is given back.\<close>

lemma reserved_until_given_back:
  assumes "downloads_after trace r" and "trace = before @ [Reserved vs] @ after" and "v \<in> set vs"
    and "\<forall>event \<in> set after. \<not> gives_back v event"
  shows "reg_downloads r (dr_key v) = Some (dr_reservation_id v)"
  using assms
proof (induction arbitrary: before after rule: downloads_after.induct)
  case (reserves trace r scope pairs ws r')
  note some = try_reserve_some [OF reserves.hyps(2)]
  from reserves.prems(1) show ?case
  proof (cases rule: trace_snoc_cases)
    case last
    with some(2) reserves.prems(2) show ?thesis by simp
  next
    case (earlier later)
    with reserves have kept: "reg_downloads r (dr_key v) = Some (dr_reservation_id v)" by auto
    with some(2) have "dr_key v \<notin> dr_key ` set ws" by auto
    with some(3) kept show ?thesis by simp
  qed
next
  case (refuses trace r scope pairs r')
  then have "r' = r" by (auto simp: try_reserve_pairs_def Let_def split: if_splits)
  with refuses show ?case by simp
next
  case (releases trace r ws)
  from releases.prems(1) show ?case
  proof (cases rule: trace_snoc_cases)
    case (earlier later)
    with releases have "reg_downloads r (dr_key v) = Some (dr_reservation_id v)" "v \<notin> set ws"
      by (auto simp: gives_back_def)
    then show ?thesis by (intro release_keeps_others) (cases v, simp)
  qed simp
next
  case (ends trace r scope)
  from ends.prems(1) show ?case
  proof (cases rule: trace_snoc_cases)
    case (earlier later)
    with ends have "reg_downloads r (dr_key v) = Some (dr_reservation_id v)" "\<not> belongs_to_scope scope (dr_key v)"
      by (auto simp: gives_back_def)
    then show ?thesis by (simp add: release_for_scope_def)
  qed simp
qed simp

text \<open>Every entry \<open>Reserved\<close> of a trace is an operation on the registry of the trace before it.\<close>

lemma reservation_step:
  assumes "downloads_after trace r" and "trace = before @ [Reserved vs] @ after"
  shows "\<exists>scope pairs s s'. downloads_after before s \<and> try_reserve_pairs scope pairs s = (Some vs, s')"
  using assms
proof (induction arbitrary: after rule: downloads_after.induct)
  case (reserves trace r scope pairs ws r')
  from reserves.prems show ?case
    by (cases rule: trace_snoc_cases) (use reserves in blast)+
next
  case (releases trace r ws)
  from releases.prems show ?case
    by (cases rule: trace_snoc_cases) (use releases in blast)+
next
  case (ends trace r scope)
  from ends.prems show ?case
    by (cases rule: trace_snoc_cases) (use ends in blast)+
qed simp_all

text \<open>As long as the counter has not gone round, a reservation's number is above every earlier one.\<close>

lemma next_reservation_id_above:
  assumes "unat i < 2 ^ 64 - 1"
  shows "unat (next_reservation_id i) = Suc (unat i)"
proof -
  have "unat (i + 1) = Suc (unat i)" using assms by (simp add: unat_word_ariths)
  moreover from this have "i + 1 \<noteq> 0" by auto
  ultimately show ?thesis by (simp add: next_reservation_id_def Let_def)
qed

lemma numbers_so_far:
  assumes "downloads_after trace r" and "length trace < 2 ^ 64"
  shows "unat (reg_next_reservation_id r) \<le> length trace
    \<and> (\<forall>v \<in> granted trace. unat (dr_reservation_id v) \<le> unat (reg_next_reservation_id r))"
  using assms
proof (induction rule: downloads_after.induct)
  case (reserves trace r scope pairs vs r')
  note some = try_reserve_some [OF reserves.hyps(2)]
  from reserves have before: "unat (reg_next_reservation_id r) \<le> length trace"
      "\<forall>v \<in> granted trace. unat (dr_reservation_id v) \<le> unat (reg_next_reservation_id r)"
      "unat (reg_next_reservation_id r) < 2 ^ 64 - 1"
    by auto
  note above = next_reservation_id_above [OF before(3)]
  have "unat (reg_next_reservation_id r) \<le> unat (reg_next_reservation_id r')"
    "unat (reg_next_reservation_id r') \<le> Suc (unat (reg_next_reservation_id r))"
    using some(5) above by auto
  with before some(4) show ?case by fastforce
next
  case (refuses trace r scope pairs r')
  then have "r' = r" by (auto simp: try_reserve_pairs_def Let_def split: if_splits)
  with refuses show ?case by simp
qed (auto simp: registry_default_def release_next release_for_scope_def)

section \<open>Exclusive reservations\<close>

text \<open>
  C29: A file that is being downloaded is not handed to a second worker: when two reservations of a run
  have the same key, the first was given back in between, under its own number or with its session. Up to
  \<open>2 ^ 64\<close> operations the second has a greater number, so a late release of the first one does not
  give back the second.
\<close>

theorem reservations_are_exclusive:
  assumes "downloads_after (before @ [Reserved vs] @ between @ [Reserved ws] @ after) r"
    and "v \<in> set vs" and "w \<in> set ws" and "dr_key v = dr_key w"
  shows "(\<exists>event \<in> set between. gives_back v event)
    \<and> (length (before @ [Reserved vs] @ between @ [Reserved ws]) < 2 ^ 64 \<longrightarrow> dr_reservation_id v < dr_reservation_id w)"
proof -
  let ?earlier = "before @ [Reserved vs] @ between"
  obtain scope pairs s s' where s: "downloads_after ?earlier s" "try_reserve_pairs scope pairs s = (Some ws, s')"
    using reservation_step [OF assms(1), of ?earlier ws after] by auto
  note some = try_reserve_some [OF s(2)]
  have "\<exists>event \<in> set between. gives_back v event"
    using reserved_until_given_back [OF s(1) refl assms(2)] some(2) assms(3,4) by fastforce
  moreover have "unat (dr_reservation_id v) < unat (dr_reservation_id w)" if "length (?earlier @ [Reserved ws]) < 2 ^ 64"
  proof -
    from that have "length ?earlier < 2 ^ 64" by simp
    with numbers_so_far [OF s(1)] have below: "unat (reg_next_reservation_id s) \<le> length ?earlier"
      "\<forall>v \<in> granted ?earlier. unat (dr_reservation_id v) \<le> unat (reg_next_reservation_id s)"
      by blast+
    have "v \<in> granted ?earlier" using assms(2) by (auto simp: granted_def)
    with below(2) have "unat (dr_reservation_id v) \<le> unat (reg_next_reservation_id s)" by blast
    also have "\<dots> < unat (next_reservation_id (reg_next_reservation_id s))"
      using next_reservation_id_above [of "reg_next_reservation_id s"] below(1) that by simp
    also have "next_reservation_id (reg_next_reservation_id s) = dr_reservation_id w"
      using some(4) assms(3) by metis
    finally show ?thesis .
  qed
  ultimately show ?thesis by (simp add: word_less_nat_alt)
qed

definition sample_scope :: session_scope where
  "sample_scope = \<lparr>scope_owner_user_id = ''u'', scope_auth_epoch = 1\<rparr>"

definition sample_reservation :: "u64 \<Rightarrow> download_reservation" where
  "sample_reservation i = \<lparr>dr_key = key_for sample_scope ''q'' ''f'', dr_reservation_id = i\<rparr>"

lemma sample_reserve:
  assumes "reg_downloads r (key_for sample_scope ''q'' ''f'') = None"
  shows "\<exists>r'. try_reserve_pairs sample_scope [(''q'', ''f'')] r
    = (Some [sample_reservation (next_reservation_id (reg_next_reservation_id r))], r')
    \<and> reg_next_reservation_id r' = next_reservation_id (reg_next_reservation_id r)
    \<and> reg_downloads r' (key_for sample_scope ''q'' ''f'') = Some (reg_next_reservation_id r')"
  using assms by (simp add: try_reserve_pairs_def Let_def sample_reservation_def)

lemma reservations_are_exclusive_witness:
  "\<exists>r. downloads_after ([] @ [Reserved [sample_reservation 1]] @ [Released [sample_reservation 1]]
      @ [Reserved [sample_reservation 2]] @ []) r
    \<and> sample_reservation 1 \<in> set [sample_reservation 1]
    \<and> (\<exists>event \<in> set [Released [sample_reservation 1]]. gives_back (sample_reservation 1) event)"
proof -
  have first: "next_reservation_id (reg_next_reservation_id registry_default) = 1"
    by (simp add: next_reservation_id_def registry_default_def)
  obtain r1 where r1: "try_reserve_pairs sample_scope [(''q'', ''f'')] registry_default = (Some [sample_reservation 1], r1)"
    "reg_next_reservation_id r1 = 1" "reg_downloads r1 (key_for sample_scope ''q'' ''f'') = Some 1"
    using sample_reserve [of registry_default] first by (auto simp: registry_default_def)
  define r2 where "r2 = snd (release_reservations [sample_reservation 1] r1)"
  have r2: "reg_next_reservation_id r2 = 1" "reg_downloads r2 (key_for sample_scope ''q'' ''f'') = None"
    using r1 by (simp_all add: r2_def sample_reservation_def)
  then obtain r3 where r3: "try_reserve_pairs sample_scope [(''q'', ''f'')] r2 = (Some [sample_reservation 2], r3)"
    using sample_reserve [of r2] by (auto simp: next_reservation_id_def)
  have "downloads_after ([] @ [Reserved [sample_reservation 1]]) r1"
    by (rule downloads_after.reserves [OF downloads_after.nothing r1(1)])
  from downloads_after.releases [OF this, of "[sample_reservation 1]"]
  have "downloads_after ([Reserved [sample_reservation 1]] @ [Released [sample_reservation 1]]) r2"
    by (simp add: r2_def)
  from downloads_after.reserves [OF this r3]
  have run: "downloads_after ([] @ [Reserved [sample_reservation 1]] @ [Released [sample_reservation 1]]
      @ [Reserved [sample_reservation 2]] @ []) r3" by simp
  have "dr_key (sample_reservation 1) = dr_key (sample_reservation 2)" by (simp add: sample_reservation_def)
  with reservations_are_exclusive [OF run, of "sample_reservation 1" "sample_reservation 2"] run
  show ?thesis by auto
qed

end
