(* ===== verification/Delivery_Plan.thy ===== *)
theory Delivery_Plan
  imports Recovery_Operations
begin

text \<open>
  What a finished file of a task must look like before the client fetches it
  (\<open>native-client/src/runtime/generation/delivery_retry.rs\<close>): the answer of the service is checked against
  the retained record, and the content of a file against the confirmation made from the answer. The
  types of the answer are those of \<open>native-client/src/runtime/api/generation.rs\<close>.
\<close>

section \<open>Errors\<close>

datatype delivery_retry_error =
    DeliveryAuthenticationRequired
  | Expired
  | DeliveryApi api_error
  | DeliveryLocal recovery_failure

abbreviation refuse :: "string \<Rightarrow> delivery_retry_error" where
  "refuse message \<equiv> DeliveryLocal (Refused message)"

definition retry_api_error :: "api_error \<Rightarrow> delivery_retry_error" where
  "retry_api_error e =
    (if (case e of Http status _ _ _ _ \<Rightarrow> status = 404 | _ \<Rightarrow> False)
        \<or> code_in e [''generation_task_not_found'', ''result_file_not_found'', ''result_file_expired'']
     then Expired
     else if e = AuthenticationRequired then DeliveryAuthenticationRequired
     else DeliveryApi e)"

text \<open>The two conversions into the error type that \<open>?\<close> inserts.\<close>

definition from_api :: "api_error + 'a \<Rightarrow> delivery_retry_error + 'a" where
  "from_api r = (case r of Inl e \<Rightarrow> Inl (DeliveryApi e) | Inr a \<Rightarrow> Inr a)"

definition from_local :: "recovery_failure + 'a \<Rightarrow> delivery_retry_error + 'a" where
  "from_local r = (case r of Inl e \<Rightarrow> Inl (DeliveryLocal e) | Inr a \<Rightarrow> Inr a)"

lemma from_api_ok [simp]: "from_api r = Inr a \<longleftrightarrow> r = Inr a" and from_local_ok [simp]: "from_local s = Inr b \<longleftrightarrow> s = Inr b"
  by (auto simp: from_api_def from_local_def split: sum.splits)

section \<open>The answer of the service\<close>

record task_output_file =
  tf_id :: string
  tf_status :: string
  tf_mime_type :: string
  tf_size_bytes :: string
  tf_sha256 :: string
  tf_width :: "u32 option"
  tf_height :: "u32 option"
  tf_download_url :: "string option"

record task_failure =
  tfl_code :: string
  tfl_message :: string

record task_model =
  tm_code :: string
  tm_version :: u32
  tm_name :: string

record generation_task_item =
  ti_index :: usize
  ti_status :: string
  ti_credit_cost :: string
  ti_failure :: "task_failure option"
  ti_file :: "task_output_file option"

record generation_task_detail =
  td_id :: string
  td_billing_account_group_id :: string
  td_status :: string
  td_progress_percent :: i32
  td_success_count :: i32
  td_failure_count :: i32
  td_failure :: "task_failure option"
  td_prompt :: "string option"
  td_result_prompt :: "string option"
  td_request :: json
  td_model :: "task_model option"
  td_quality :: string
  td_requested_count :: i32
  td_task_type :: string
  td_items :: "generation_task_item list"

definition detail_terminal :: "generation_task_detail \<Rightarrow> bool" where
  "detail_terminal d = (td_status d \<in> {''completed'', ''partially_completed'', ''failed'', ''cancelled''})"

definition is_ascii_hexdigit :: "char \<Rightarrow> bool" where
  "is_ascii_hexdigit c =
    (is_ascii_digit c \<or> (65 \<le> (of_char c :: nat) \<and> (of_char c :: nat) \<le> 70) \<or> (97 \<le> (of_char c :: nat) \<and> (of_char c :: nat) \<le> 102))"

definition is_sha256_hex :: "string \<Rightarrow> bool" where
  "is_sha256_hex s = (length s = 64 \<and> list_all is_ascii_hexdigit s)"

text \<open>The file that a failed delivery is retried with.\<close>

definition select_recoverable_task_file ::
  "generation_task_detail \<Rightarrow> pending_delivery \<Rightarrow> delivery_retry_error + task_output_file" where
  "select_recoverable_task_file detail delivery =
    (case Option.bind (List.find (\<lambda>item. ti_index item = pd_item_index delivery \<and> ti_status item = ''succeeded'') (td_items detail))
            ti_file of
       None \<Rightarrow> Inl Expired
     | Some v \<Rightarrow>
         if tf_id v \<noteq> pd_file_id delivery \<or> tf_status v \<noteq> ''available''
            \<or> (case tf_download_url v of None \<Rightarrow> True | Some url \<Rightarrow> is_blank url)
         then Inl Expired
         else (case parse_unsigned (2 ^ 64) (tf_size_bytes v) of
                 None \<Rightarrow> Inl (DeliveryApi (Protocol ''the service returned an invalid file size'' None))
               | Some n \<Rightarrow>
                   if of_nat n \<noteq> pd_size_bytes delivery \<or> \<not> eq_ignore_ascii_case (tf_sha256 v) (pd_sha256 delivery)
                   then Inl (DeliveryApi (Protocol ''the generated file differs from the recovery record'' None))
                   else Inr v))"

section \<open>The retained record\<close>

definition require_delivery_uuid :: "uuid_parser \<Rightarrow> string \<Rightarrow> delivery_retry_error + unit" where
  "require_delivery_uuid parse_uuid v =
    ensure (uuid_path_segment parse_uuid v = Inr v) (refuse ''delivery identity is not a canonical UUID'')"

definition delivery_task_metadata :: "pending_generation \<Rightarrow> pending_generation" where
  "delivery_task_metadata r = r\<lparr>pg_deliveries := [], pg_terminal := False, pg_expected_success_count := 0\<rparr>"

definition exact_delivery_record ::
  "recovery_identity \<Rightarrow> pending_generation list \<Rightarrow> recovery_failure + pending_generation" where
  "exact_delivery_record expected records =
    (case filter (\<lambda>r. generation_identity r = expected) records of
       [] \<Rightarrow> Inl (Refused ''exact saved delivery record is missing'')
     | [r] \<Rightarrow> Inr r
     | _ \<Rightarrow> Inl (Refused ''saved delivery record is ambiguous''))"

definition exact_saved_delivery ::
  "pending_generation \<Rightarrow> delivery_confirmation \<Rightarrow> recovery_failure + pending_delivery option" where
  "exact_saved_delivery r confirmation =
    (case filter (\<lambda>d. pd_item_index d = dc_item_index confirmation \<or> pd_file_id d = dc_file_id confirmation) (pg_deliveries r) of
       [] \<Rightarrow> Inr None
     | [saved] \<Rightarrow>
         if pd_item_index saved = dc_item_index confirmation \<and> pd_file_id saved = dc_file_id confirmation
            \<and> pd_size_bytes saved = dc_size_bytes confirmation \<and> pd_sha256 saved = dc_sha256 confirmation
            \<and> \<not> pd_abandoned saved \<and> \<not> pd_acknowledged saved
         then Inr (Some saved) else Inl (Refused ''saved delivery confirmation mismatch'')
     | _ \<Rightarrow> Inl (Refused ''saved delivery is ambiguous''))"

section \<open>The plan of a delivery\<close>

datatype delivery_kind = ImageDelivery | VideoDelivery | CutoutDelivery

definition ordinary_image_types :: "string set" where
  "ordinary_image_types = {''image_generation'', ''image_edit'', ''image_upscale'', ''image_watermark_removal'',
    ''image_colorization'', ''image_enhancement''}"

definition kind_accepts :: "delivery_kind \<Rightarrow> pending_generation \<Rightarrow> bool" where
  "kind_accepts kind r =
    ((pg_canvas_source_node_id r = [] \<or> (kind = ImageDelivery \<and> pg_task_type r = ''image_generation''))
     \<and> (case kind of
          VideoDelivery \<Rightarrow> pg_task_type r \<in> {''image_to_video'', ''video_generation''}
            \<and> (case pg_video_request r of
                 None \<Rightarrow> False
               | Some request \<Rightarrow> is_ok (video_task_validate request)
                   \<and> vt_client_request_id request = pg_client_request_id r \<and> vt_task_type request = pg_task_type r)
        | CutoutDelivery \<Rightarrow> pg_task_type r = ''image_cutout'' \<and> pg_count r = 1
        | ImageDelivery \<Rightarrow> pg_task_type r \<in> ordinary_image_types))"

text \<open>\<open>count as usize\<close> of a positive count.\<close>

abbreviation item_count :: "pending_generation \<Rightarrow> usize" where
  "item_count r \<equiv> scast (pg_count r)"

definition check_delivery_record ::
  "uuid_parser \<Rightarrow> delivery_kind \<Rightarrow> session_scope \<Rightarrow> usize \<Rightarrow> pending_generation \<Rightarrow> delivery_retry_error + unit" where
  "check_delivery_record parse_uuid kind scope item_index r =
    bind_result (ensure (pg_auth_epoch r = scope_auth_epoch scope) (refuse ''delivery session mismatch'')) (\<lambda>_.
    bind_result (ensure (0 < sint (pg_count r) \<and> item_index < item_count r) (refuse ''invalid delivery item index'')) (\<lambda>_.
    bind_result (ensure (kind_accepts kind r) (refuse ''this delivery consumer requires an ordinary image task'')) (\<lambda>_.
    require_delivery_uuid parse_uuid (pg_server_task_id r))))"

definition successes :: "generation_task_detail \<Rightarrow> nat" where
  "successes detail = length (filter (\<lambda>item. ti_status item = ''succeeded'') (td_items detail))"

definition check_delivery_detail :: "pending_generation \<Rightarrow> generation_task_detail \<Rightarrow> delivery_retry_error + unit" where
  "check_delivery_detail r detail =
    bind_result (ensure (td_id detail = pg_server_task_id r) (refuse ''delivery task identity mismatch'')) (\<lambda>_.
    bind_result (from_api (require_saved_group (pg_billing_account_group_id r) (td_billing_account_group_id detail))) (\<lambda>_.
    bind_result (ensure (list_all (\<lambda>item. ti_index item < item_count r) (td_items detail) \<and> distinct (map ti_index (td_items detail)))
      (refuse ''ambiguous delivery item indexes'')) (\<lambda>_.
    ensure (0 \<le> sint (td_success_count detail) \<and> 0 \<le> sint (td_failure_count detail)
        \<and> scast (td_success_count detail) = (of_nat (successes detail) :: usize)
        \<and> sint (td_success_count detail) + sint (td_failure_count detail) \<le> sint (pg_count r)
        \<and> (td_requested_count detail = 0 \<or> td_requested_count detail = pg_count r))
      (refuse ''inconsistent delivery success count''))))"

definition delivery_remote :: "usize \<Rightarrow> generation_task_detail \<Rightarrow> delivery_retry_error + task_output_file" where
  "delivery_remote item_index detail =
    (case List.find (\<lambda>item. ti_index item = item_index) (td_items detail) of
       None \<Rightarrow> Inl (refuse ''successful delivery item is unavailable'')
     | Some item \<Rightarrow>
         if ti_status item \<noteq> ''succeeded'' then Inl (refuse ''successful delivery item is unavailable'')
         else (case ti_file item of
                 None \<Rightarrow> Inl Expired
               | Some v \<Rightarrow> if tf_status v = ''available'' then Inr v else Inl Expired))"

definition delivery_size :: "task_output_file \<Rightarrow> delivery_retry_error + u64" where
  "delivery_size remote =
    (case parse_unsigned (2 ^ 64) (tf_size_bytes remote) of
       None \<Rightarrow> Inl (refuse ''invalid delivery size'')
     | Some n \<Rightarrow>
         if 0 < n \<and> show_decimal n = tf_size_bytes remote then Inr (of_nat n)
         else Inl (refuse ''invalid delivery size''))"

text \<open>The confirmation, with the placeholder asset of the delivery if it is saved already.\<close>

definition delivery_confirmation_of ::
  "uuid_parser \<Rightarrow> usize \<Rightarrow> pending_generation \<Rightarrow> task_output_file \<Rightarrow> delivery_retry_error + delivery_confirmation" where
  "delivery_confirmation_of parse_uuid item_index r remote =
    bind_result (require_delivery_uuid parse_uuid (tf_id remote)) (\<lambda>_.
    bind_result (delivery_size remote) (\<lambda>byte_count.
    bind_result (ensure (is_sha256_hex (tf_sha256 remote)) (refuse ''invalid delivery hash'')) (\<lambda>_.
    let confirmation = \<lparr>dc_client_request_id = pg_client_request_id r, dc_item_index = item_index,
          dc_task_id = pg_server_task_id r, dc_file_id = tf_id remote, dc_sha256 = tf_sha256 remote,
          dc_size_bytes = byte_count, dc_failed_asset_id = None\<rparr> in
    bind_result (from_local (exact_saved_delivery r confirmation)) (\<lambda>saved.
    Inr (case saved of
           None \<Rightarrow> confirmation
         | Some d \<Rightarrow> confirmation\<lparr>dc_failed_asset_id :=
             (if pd_failed_asset_id d = [] then None else Some (pd_failed_asset_id d))\<rparr>)))))"

definition delivery_extension :: "delivery_kind \<Rightarrow> string \<Rightarrow> string option" where
  "delivery_extension kind mime =
    (if kind = VideoDelivery
     then map_of [(''video/mp4'', ''mp4''), (''video/webm'', ''webm''), (''video/quicktime'', ''mov'')] mime
     else map_of [(''image/jpeg'', ''jpg''), (''image/webp'', ''webp''), (''image/png'', ''png'')] mime)"

text \<open>Where the file goes: its key and the path that is shown.\<close>

definition name_failure :: "name_error \<Rightarrow> delivery_retry_error" where
  "name_failure e = refuse ''managed file name''"

definition key_path :: "user_namespace \<Rightarrow> managed_file_key \<Rightarrow> string" where
  "key_path ns key = display_joined (namespace_path ns (key_area key)) (split_on ''/'' (key_relative_name key))"

definition delivery_destination ::
  "delivery_kind \<Rightarrow> task_output_file \<Rightarrow> delivery_retry_error + managed_file_key" where
  "delivery_destination kind remote =
    bind_result (ensure (kind \<noteq> CutoutDelivery \<or> tf_mime_type remote = ''image/png'') (refuse ''cutout remote mask must be PNG'')) (\<lambda>_.
    case delivery_extension kind (tf_mime_type remote) of
      None \<Rightarrow> Inl (refuse ''unsupported output MIME for retained task type'')
    | Some extension \<Rightarrow>
        (case managed_file_key_new (if kind = VideoDelivery then Videos else Output) (tf_id remote @ ''.'' @ extension) of
           Inl e \<Rightarrow> Inl (name_failure e)
         | Inr key \<Rightarrow> Inr key))"

section \<open>Reading the content\<close>

text \<open>
  The sink that counts and hashes; the hash is a parameter of what was written so far. \<open>None\<close> is the
  error that ends the copy.
\<close>

definition digest_sink_write :: "u64 \<Rightarrow> 8 word list \<Rightarrow> u64 \<times> 8 word list \<Rightarrow> (u64 \<times> 8 word list) option" where
  "digest_sink_write expected bytes sink =
    (case checked_add (fst sink) (of_nat (length bytes)) of
       None \<Rightarrow> None
     | Some count \<Rightarrow> if count \<le> expected then Some (count, snd sink @ bytes) else None)"

fun digest_sink :: "u64 \<Rightarrow> 8 word list list \<Rightarrow> u64 \<times> 8 word list \<Rightarrow> (u64 \<times> 8 word list) option" where
  "digest_sink expected [] sink = Some sink"
| "digest_sink expected (chunk # chunks) sink =
    Option.bind (digest_sink_write expected chunk sink) (digest_sink expected chunks)"

type_synonym digest = "8 word list \<Rightarrow> string"

definition content_matches :: "digest \<Rightarrow> u64 \<Rightarrow> string \<Rightarrow> 8 word list \<Rightarrow> bool" where
  "content_matches sha256 expected hash bytes = (length bytes = unat expected \<and> eq_ignore_ascii_case (sha256 bytes) hash)"

text \<open>
  \<open>verify_namespace_delivery_file\<close> on the chunks that \<open>read_regular_to\<close> copies, each of them in memory
  and so shorter than \<open>2 ^ 64\<close>.
\<close>

definition verify_chunks :: "digest \<Rightarrow> delivery_confirmation \<Rightarrow> 8 word list list \<Rightarrow> recovery_failure + unit" where
  "verify_chunks sha256 confirmation chunks =
    (case digest_sink (dc_size_bytes confirmation) chunks (0, []) of
       None \<Rightarrow> Inl StorageFailure
     | Some (count, bytes) \<Rightarrow>
         ensure (count = dc_size_bytes confirmation \<and> eq_ignore_ascii_case (sha256 bytes) (dc_sha256 confirmation))
           (Refused ''delivery integrity mismatch''))"

end
