(* ===== verification/Fallible_Program.thy ===== *)
theory Fallible_Program
  imports Prelude
begin

text \<open>
  Programs that thread a world and stop at the first error, as Rust functions with \<open>?\<close> do, and what they
  leave in a log of their calls. The deliveries and the directory migrations are such programs, each over
  its own world.
\<close>

section \<open>Programs\<close>

type_synonym ('e, 'a, 'w) fallible = "'w \<Rightarrow> ('e + 'a) \<times> 'w"

definition result_is :: "'e + 'a \<Rightarrow> ('e, 'a, 'w) fallible" where
  "result_is r w = (r, w)"

definition and_then :: "('e, 'a, 'w) fallible \<Rightarrow> ('a \<Rightarrow> ('e, 'b, 'w) fallible) \<Rightarrow> ('e, 'b, 'w) fallible" where
  "and_then p f w = (case p w of (Inl e, w') \<Rightarrow> (Inl e, w') | (Inr a, w') \<Rightarrow> f a w')"

text \<open>\<open>match\<close> on the result of a program, its error included.\<close>

definition settle_with :: "('e, 'a, 'w) fallible \<Rightarrow> ('e + 'a \<Rightarrow> ('f, 'b, 'w) fallible) \<Rightarrow> ('f, 'b, 'w) fallible" where
  "settle_with p f w = (case p w of (r, w') \<Rightarrow> f r w')"

text \<open>\<open>map_err\<close>, and a loop over a list that hands a state on and stops at the first error.\<close>

definition map_error :: "('e \<Rightarrow> 'f) \<Rightarrow> ('e, 'a, 'w) fallible \<Rightarrow> ('f, 'a, 'w) fallible" where
  "map_error f p = settle_with p (\<lambda>r. result_is (case r of Inl e \<Rightarrow> Inl (f e) | Inr a \<Rightarrow> Inr a))"

fun fold_then :: "('x \<Rightarrow> 's \<Rightarrow> ('e, 's, 'w) fallible) \<Rightarrow> 'x list \<Rightarrow> 's \<Rightarrow> ('e, 's, 'w) fallible" where
  "fold_then f [] s = result_is (Inr s)"
| "fold_then f (x # xs) s = and_then (f x s) (fold_then f xs)"

lemma map_error_ok: "map_error f p w = (Inr a, w') \<longleftrightarrow> p w = (Inr a, w')"
  by (auto simp: map_error_def settle_with_def result_is_def split: prod.splits sum.splits)

lemma and_then_ok:
  "and_then p f w = (Inr b, w') \<longleftrightarrow> (\<exists>a w1. p w = (Inr a, w1) \<and> f a w1 = (Inr b, w'))"
  by (auto simp: and_then_def split: prod.splits sum.splits)

lemma and_then_assoc: "and_then (and_then p f) g = and_then p (\<lambda>a. and_then (f a) g)"
  by (auto simp: and_then_def fun_eq_iff split: prod.splits sum.splits)

lemma result_is_ok [simp]: "result_is r w = (Inr a, w') \<longleftrightarrow> r = Inr a \<and> w' = w"
  by (auto simp: result_is_def)

lemma result_is_then [simp]: "and_then (result_is (Inr a)) f = f a"
  by (simp add: and_then_def result_is_def fun_eq_iff)

lemma and_then_if: "and_then (if b then p else q) f = (if b then and_then p f else and_then q f)"
  by simp

lemma ensure_ok [simp]: "ensure b e = Inr u \<longleftrightarrow> b"
  by (simp add: ensure_def)

text \<open>What a loop does is the chain of what its rounds do.\<close>

fun chained :: "('x \<Rightarrow> 's \<Rightarrow> 's \<Rightarrow> bool) \<Rightarrow> 'x list \<Rightarrow> 's \<Rightarrow> 's \<Rightarrow> bool" where
  "chained T [] s s' = (s' = s)"
| "chained T (x # xs) s s' = (\<exists>s1. T x s s1 \<and> chained T xs s1 s')"

lemma fold_then_chained:
  assumes "fold_then f xs s w = (Inr s', w')" and "\<And>x s s1 w w1. f x s w = (Inr s1, w1) \<Longrightarrow> T x s s1"
  shows "chained T xs s s'"
  using assms(1) by (induction xs arbitrary: s w) (auto simp: and_then_ok dest: assms(2))

lemma chained_all: "chained (\<lambda>x s s'. Q x) xs s s' \<Longrightarrow> \<forall>x \<in> set xs. Q x"
  by (induction xs arbitrary: s) auto

lemma chained_invariant:
  assumes "chained T xs s s'" and "I s" and "\<And>x s s'. x \<in> set xs \<Longrightarrow> T x s s' \<Longrightarrow> I s \<Longrightarrow> I s'"
  shows "I s'"
  using assms by (induction xs arbitrary: s) auto

lemma chained_collects: "chained (\<lambda>x s s'. g s' = g s @ [h x]) xs s s' \<Longrightarrow> g s' = g s @ map h xs"
  by (induction xs arbitrary: s) auto

section \<open>Logs\<close>

text \<open>
  A program only adds entries with a property to the log, and leaves the part of its world alone that
  says what it will meet.
\<close>

definition logs :: "('w \<Rightarrow> 'v) \<Rightarrow> ('w \<Rightarrow> 'x list) \<Rightarrow> ('x \<Rightarrow> bool) \<Rightarrow> ('e, 'a, 'w) fallible \<Rightarrow> bool" where
  "logs views log P p =
    (\<forall>w. views (snd (p w)) = views w \<and> (\<exists>es. log (snd (p w)) = log w @ es \<and> list_all P es))"

named_theorems logging

lemma logs_result_is [logging]: "logs views log P (result_is r)"
  by (simp add: logs_def result_is_def)

lemma logsE:
  assumes "logs views log P p" and "p w = (r, w')"
  obtains es where "views w' = views w" and "log w' = log w @ es" and "list_all P es"
  using assms by (auto simp: logs_def dest: spec [of _ w])

lemma logsI:
  assumes "\<And>w r w'. p w = (r, w') \<Longrightarrow> views w' = views w \<and> (\<exists>es. log w' = log w @ es \<and> list_all P es)"
  shows "logs views log P p"
  using assms by (auto simp: logs_def prod_eq_iff)

lemma logs_mono: "logs views log P p \<Longrightarrow> (\<And>e. P e \<Longrightarrow> Q e) \<Longrightarrow> logs views log Q p"
  unfolding logs_def by (meson list.pred_mono_strong)

lemma logs_and_then [logging]:
  assumes "logs views log P p" and "\<And>a. logs views log P (f a)"
  shows "logs views log P (and_then p f)"
proof (rule logsI)
  fix w r w'
  assume run: "and_then p f w = (r, w')"
  obtain x w1 where p: "p w = (x, w1)" by (cases "p w")
  obtain es where es: "views w1 = views w" "log w1 = log w @ es" "list_all P es"
    using logsE [OF assms(1) p] .
  show "views w' = views w \<and> (\<exists>es. log w' = log w @ es \<and> list_all P es)"
  proof (cases x)
    case (Inl e)
    with p es run show ?thesis by (simp add: and_then_def)
  next
    case (Inr a)
    with p run have "f a w1 = (r, w')" by (simp add: and_then_def)
    from logsE [OF assms(2) this] obtain es' where "views w' = views w1" "log w' = log w1 @ es'" "list_all P es'" .
    with es show ?thesis by simp
  qed
qed

lemma logs_settle_with [logging]:
  assumes "logs views log P p" and "\<And>r. logs views log P (f r)"
  shows "logs views log P (settle_with p f)"
proof (rule logsI)
  fix w r w'
  assume run: "settle_with p f w = (r, w')"
  obtain x w1 where p: "p w = (x, w1)" by (cases "p w")
  with run have f: "f x w1 = (r, w')" by (simp add: settle_with_def)
  obtain es where "views w1 = views w" "log w1 = log w @ es" "list_all P es"
    using logsE [OF assms(1) p] .
  moreover obtain es' where "views w' = views w1" "log w' = log w1 @ es'" "list_all P es'"
    using logsE [OF assms(2) f] .
  ultimately show "views w' = views w \<and> (\<exists>es. log w' = log w @ es \<and> list_all P es)" by simp
qed

lemma logs_map_error [logging]: "logs views log P p \<Longrightarrow> logs views log P (map_error f p)"
  unfolding map_error_def by (intro logging)

lemma logs_fold_then [logging]:
  "(\<And>x s. logs views log P (f x s)) \<Longrightarrow> logs views log P (fold_then f xs s)"
  by (induction xs arbitrary: s) (auto intro!: logging)

lemma logs_if [logging]: "logs views log P p \<Longrightarrow> logs views log P q \<Longrightarrow> logs views log P (if b then p else q)"
  by simp

lemma logs_option [logging]:
  "logs views log P p \<Longrightarrow> (\<And>x. logs views log P (f x)) \<Longrightarrow> logs views log P (case r of None \<Rightarrow> p | Some x \<Rightarrow> f x)"
  by (cases r) simp_all

lemma logs_sum [logging]:
  "(\<And>x. logs views log P (f x)) \<Longrightarrow> (\<And>x. logs views log P (g x)) \<Longrightarrow> logs views log P (case r of Inl x \<Rightarrow> f x | Inr x \<Rightarrow> g x)"
  by (cases r) simp_all

section \<open>Properties of whole logs\<close>

text \<open>
  A property of what a program adds to the log that does not look at the entries one by one: it holds of
  nothing, and of two parts put together. The property of a program that every added entry has is one.
\<close>

locale trace_property =
  fixes log_of :: "'w \<Rightarrow> 'x list" and Q :: "'x list \<Rightarrow> bool"
  assumes of_nothing: "Q []" and of_both: "Q xs \<Longrightarrow> Q ys \<Longrightarrow> Q (xs @ ys)"
begin

definition leaves :: "('e, 'a, 'w) fallible \<Rightarrow> bool" where
  "leaves p = (\<forall>w. \<exists>es. log_of (snd (p w)) = log_of w @ es \<and> Q es)"

lemma leavesE:
  assumes "leaves p" and "p w = (r, w')"
  obtains es where "log_of w' = log_of w @ es" and "Q es"
  using assms by (auto simp: leaves_def dest: spec [of _ w])

lemma leavesI:
  assumes "\<And>w r w'. p w = (r, w') \<Longrightarrow> \<exists>es. log_of w' = log_of w @ es \<and> Q es"
  shows "leaves p"
  unfolding leaves_def using assms by (metis prod.collapse)

lemma leaves_logs: "logs views log_of P p \<Longrightarrow> (\<And>es. list_all P es \<Longrightarrow> Q es) \<Longrightarrow> leaves p"
  by (rule leavesI) (metis logsE)

lemma leaves_result_is: "leaves (result_is r)"
proof (rule leavesI)
  fix w w' :: 'w and x
  assume "result_is r w = (x, w')"
  then have "log_of w' = log_of w @ []" by (simp add: result_is_def)
  then show "\<exists>es. log_of w' = log_of w @ es \<and> Q es" using of_nothing by blast
qed

lemma leaves_settle_with:
  assumes "leaves p" and "\<And>r. leaves (f r)"
  shows "leaves (settle_with p f)"
proof (rule leavesI)
  fix w r w'
  assume run: "settle_with p f w = (r, w')"
  obtain x w1 where p: "p w = (x, w1)" by (cases "p w")
  with run have f: "f x w1 = (r, w')" by (simp add: settle_with_def)
  obtain es where "log_of w1 = log_of w @ es" "Q es" using leavesE [OF assms(1) p] .
  moreover obtain es' where "log_of w' = log_of w1 @ es'" "Q es'" using leavesE [OF assms(2) f] .
  ultimately show "\<exists>es. log_of w' = log_of w @ es \<and> Q es" using of_both by auto
qed

lemma and_then_settle: "and_then p f = settle_with p (\<lambda>r. case r of Inl e \<Rightarrow> result_is (Inl e) | Inr a \<Rightarrow> f a)"
  by (auto simp: and_then_def settle_with_def result_is_def fun_eq_iff split: prod.splits sum.splits)

lemma leaves_and_then: "leaves p \<Longrightarrow> (\<And>a. leaves (f a)) \<Longrightarrow> leaves (and_then p f)"
  unfolding and_then_settle by (rule leaves_settle_with) (auto split: sum.splits intro: leaves_result_is)

lemma leaves_map_error: "leaves p \<Longrightarrow> leaves (map_error f p)"
  unfolding map_error_def by (rule leaves_settle_with) (auto intro: leaves_result_is)

lemma leaves_fold_then: "(\<And>x s. leaves (f x s)) \<Longrightarrow> leaves (fold_then f xs s)"
  by (induction xs arbitrary: s) (auto intro: leaves_result_is leaves_and_then)

end

end
