(* ===== verification/Delivery_Run.thy ===== *)
theory Delivery_Run
  imports Delivery_Plan Fallible_Program
begin

text \<open>
  Fetching, registering and acknowledging one finished file
  (\<open>native-client/src/runtime/generation/delivery_retry.rs\<close>, the registration in
  \<open>native-client/src/runtime/storage/file_index.rs\<close>). A delivery is a program over the recovery
  document, the file index and a log of its calls; what the session, the file system, the service and
  other processes do at its \<open>n\<close>-th access is the \<open>n\<close>-th view of its world.
\<close>

section \<open>The world of a delivery\<close>

record file_metadata =
  fm_identity :: stable_file_identity
  fm_byte_size :: u64
  fm_modified_at :: nat
  fm_link_count :: u64

record indexed_file =
  if_user_public_id :: string
  if_key :: managed_file_key
  if_physical_identity :: stable_file_identity
  if_id :: u64
  if_kind :: string
  if_byte_size :: u64
  if_managed :: bool
  if_retention_policy :: string
  if_created_at :: u64
  if_last_accessed_at :: u64
  if_pending_delete :: bool

record delivery_acknowledgement =
  ak_task_id :: string
  ak_file_id :: string
  ak_sha256 :: string
  ak_size_bytes :: u64
  ak_scope :: session_scope

datatype delivery_event =
    ScopeAsked bool
  | RecordsLoaded "recovery_failure + pending_generation list"
  | RecordChanged "recovery_failure + bool" "recovery_file document_disk"
  | TaskAnswered "api_error + generation_task_detail"
  | FileAccessed managed_file_key "recovery_failure + unit"
  | FileOpened managed_file_key "recovery_failure + bool"
  | FileInspected managed_file_key "recovery_failure + file_metadata"
  | FileRead managed_file_key "8 word list" "recovery_failure + unit"
  | FileDownloaded managed_file_key "api_error + unit"
  | IndexRead managed_file_key "recovery_failure + indexed_file option"
  | IndexWritten managed_file_key "recovery_failure + indexed_file"
  | AcknowledgementSent delivery_acknowledgement "api_error + unit"

text \<open>What one access meets.\<close>

record delivery_view =
  dv_others :: "recovery_file document_file \<Rightarrow> recovery_file document_file"
  dv_index_others :: "indexed_file list \<Rightarrow> indexed_file list"
  dv_scope_active :: bool
  dv_admitted :: bool
  dv_attempt :: "nat \<Rightarrow> recovery_file attempt"
  dv_task :: "api_error + generation_task_detail"
  dv_access :: "recovery_failure + unit"
  dv_present :: bool
  dv_metadata :: file_metadata
  dv_chunks :: "8 word list list"
  dv_download :: "api_error + unit"
  dv_row_id :: u64
  dv_now :: u64
  dv_answer :: "api_error + unit"

record delivery_world =
  dw_views :: "nat \<Rightarrow> delivery_view"
  dw_clock :: nat
  dw_disk :: "recovery_file document_disk"
  dw_index :: "indexed_file list"
  dw_log :: "delivery_event list"

record authority =
  au_parse_uuid :: uuid_parser
  au_lease :: namespace_lease
  au_sha256 :: digest

abbreviation au_user :: "authority \<Rightarrow> string" where
  "au_user a \<equiv> lease_user (au_lease a)"

abbreviation au_namespace :: "authority \<Rightarrow> user_namespace" where
  "au_namespace a \<equiv> lease_namespace (au_lease a)"

definition authority_scope :: "authority \<Rightarrow> session_scope" where
  "authority_scope a = \<lparr>scope_owner_user_id = au_user a, scope_auth_epoch = lease_auth_epoch (au_lease a)\<rparr>"

type_synonym 'a delivery = "(delivery_retry_error, 'a, delivery_world) fallible"

section \<open>Programs\<close>

abbreviation require :: "bool \<Rightarrow> string \<Rightarrow> unit delivery" where
  "require b message \<equiv> result_is (ensure b (refuse message))"

text \<open>One access: its view is used up, other processes act, the call is logged with its result.\<close>

definition others_act :: "delivery_world \<Rightarrow> delivery_world" where
  "others_act w = (let v = dw_views w (dw_clock w) in
    w\<lparr>dw_clock := Suc (dw_clock w),
      dw_disk := (dw_disk w)\<lparr>dd_file := dv_others v (dd_file (dw_disk w))\<rparr>,
      dw_index := dv_index_others v (dw_index w)\<rparr>)"

definition access ::
  "(delivery_view \<Rightarrow> delivery_world \<Rightarrow> (delivery_retry_error + 'a) \<times> delivery_event \<times> delivery_world) \<Rightarrow> 'a delivery" where
  "access f w =
    (let (r, event, w') = f (dw_views w (dw_clock w)) (others_act w)
     in (r, w'\<lparr>dw_log := dw_log w @ [event]\<rparr>))"

section \<open>The calls\<close>

text \<open>
  \<open>ensure_scope_active\<close>; inside a function that returns an \<open>anyhow::Result\<close> its error becomes a local one.
\<close>

definition ask_scope :: "(api_error \<Rightarrow> delivery_retry_error) \<Rightarrow> session_scope \<Rightarrow> unit delivery" where
  "ask_scope as_error scope = access (\<lambda>v w.
    (ensure (dv_scope_active v) (as_error AuthenticationRequired), ScopeAsked (dv_scope_active v), w))"

abbreviation ensure_scope_active :: "session_scope \<Rightarrow> unit delivery" where
  "ensure_scope_active \<equiv> ask_scope DeliveryApi"

abbreviation ensure_scope_active_locally :: "session_scope \<Rightarrow> unit delivery" where
  "ensure_scope_active_locally \<equiv> ask_scope (\<lambda>e. DeliveryLocal (RejectedRequest e))"

definition store_of :: "authority \<Rightarrow> delivery_view \<Rightarrow> recovery_file recovery_store" where
  "store_of a v = \<lparr>rs_parse_uuid = au_parse_uuid a, rs_lease = au_lease a, rs_admitted = dv_admitted v, rs_attempt = dv_attempt v\<rparr>"

definition load_exact_delivery_record :: "authority \<Rightarrow> recovery_identity \<Rightarrow> pending_generation delivery" where
  "load_exact_delivery_record a expected = access (\<lambda>v w.
    let loaded = load_pending_generations (store_of a v) (dw_disk w) in
    (from_local (bind_result loaded (exact_delivery_record expected)), RecordsLoaded loaded, w))"

definition change_record ::
  "authority \<Rightarrow> (recovery_file recovery_store \<Rightarrow> recovery_file document_disk \<Rightarrow> (recovery_file, bool) store_result) \<Rightarrow> bool delivery" where
  "change_record a operation = access (\<lambda>v w.
    let (r, disk) = operation (store_of a v) (dw_disk w) in
    (from_local r, RecordChanged r disk, w\<lparr>dw_disk := disk\<rparr>))"

definition task_scoped :: "generation_task_detail delivery" where
  "task_scoped = access (\<lambda>v w. (from_api (dv_task v), TaskAnswered (dv_task v), w))"

text \<open>\<open>create_temporary_regular_for\<close>, \<open>open_existing_regular\<close>, \<open>sync_regular\<close>, \<open>publish_regular\<close>, \<open>unlink_regular\<close>.\<close>

definition access_file :: "managed_file_key \<Rightarrow> unit delivery" where
  "access_file key = access (\<lambda>v w. (from_local (dv_access v), FileAccessed key (dv_access v), w))"

definition open_optional_regular :: "managed_file_key \<Rightarrow> bool delivery" where
  "open_optional_regular key = access (\<lambda>v w.
    let r = bind_result (dv_access v) (\<lambda>_. Inr (dv_present v)) in (from_local r, FileOpened key r, w))"

definition inspect_regular :: "managed_file_key \<Rightarrow> file_metadata delivery" where
  "inspect_regular key = access (\<lambda>v w.
    let r = bind_result (dv_access v) (\<lambda>_. Inr (dv_metadata v)) in (from_local r, FileInspected key r, w))"

definition begin_ordinary_mutation :: "managed_file_key \<Rightarrow> unit delivery" where
  "begin_ordinary_mutation key = access (\<lambda>v w.
    let r = ensure (dv_admitted v) (Refused ''storage namespace has been replaced'') in (from_local r, FileAccessed key r, w))"

text \<open>\<open>verify_namespace_delivery_file\<close>: the chunks go through the sink; a read may also fail.\<close>

definition verify_namespace_delivery_file :: "authority \<Rightarrow> managed_file_key \<Rightarrow> delivery_confirmation \<Rightarrow> unit delivery" where
  "verify_namespace_delivery_file a key confirmation = access (\<lambda>v w.
    let r = bind_result (dv_access v) (\<lambda>_. verify_chunks (au_sha256 a) confirmation (dv_chunks v)) in
    (from_local r, FileRead key (concat (dv_chunks v)) r, w))"

definition download_verified_for_namespace :: "managed_file_key \<Rightarrow> unit delivery" where
  "download_verified_for_namespace key = access (\<lambda>v w.
    (from_api (dv_download v), FileDownloaded key (dv_download v), w))"

definition acknowledge_delivery_scoped :: "delivery_acknowledgement \<Rightarrow> unit delivery" where
  "acknowledge_delivery_scoped ack = access (\<lambda>v w. (from_api (dv_answer v), AcknowledgementSent ack (dv_answer v), w))"

section \<open>The file index\<close>

definition query_key :: "indexed_file list \<Rightarrow> string \<Rightarrow> managed_file_key \<Rightarrow> indexed_file option" where
  "query_key rows user key = List.find (\<lambda>r. if_user_public_id r = user \<and> if_key r = key) rows"

definition query_identity :: "indexed_file list \<Rightarrow> string \<Rightarrow> stable_file_identity \<Rightarrow> indexed_file option" where
  "query_identity rows user i = List.find (\<lambda>r. if_user_public_id r = user \<and> if_physical_identity r = i) rows"

text \<open>A look-up by path also checks the file of the row, which may fail.\<close>

definition find_file_by_path :: "authority \<Rightarrow> managed_file_key \<Rightarrow> indexed_file option delivery" where
  "find_file_by_path a key = access (\<lambda>v w.
    let found = query_key (dw_index w) (au_user a) key;
        r = (case found of None \<Rightarrow> Inr None | Some row \<Rightarrow> bind_result (dv_access v) (\<lambda>_. Inr (Some row)))
    in (from_local r, IndexRead key r, w))"

definition query_index :: "authority \<Rightarrow> managed_file_key \<Rightarrow> indexed_file option delivery" where
  "query_index a key = access (\<lambda>v w.
    let r = bind_result (dv_access v) (\<lambda>_. Inr (query_key (dw_index w) (au_user a) key)) in
    (from_local r, IndexRead key r, w))"

definition identity_conflict :: recovery_failure where
  "identity_conflict = Refused ''logical and physical file identity conflict''"

text \<open>
  The transaction of \<open>reconcile_verified_delivery_content\<close>, under the lock of the namespace with the
  metadata of the file as it is now: the row of the key is brought up to date or added, under the number SQLite gives it.
\<close>

definition same_row :: "string \<Rightarrow> u64 \<Rightarrow> indexed_file \<Rightarrow> bool" where
  "same_row user i r = (if_user_public_id r = user \<and> if_id r = i)"

definition reconcile_rows ::
  "string \<Rightarrow> managed_file_key \<Rightarrow> file_metadata \<Rightarrow> indexed_file option \<Rightarrow> u64 \<Rightarrow> u64 \<Rightarrow> file_metadata \<Rightarrow> indexed_file list
    \<Rightarrow> recovery_failure + indexed_file \<times> indexed_file list" where
  "reconcile_rows user key expected before row_id now metadata rows =
    (let current = query_key rows user key;
         concurrent = Refused ''file index changed during discovery'';
         read_back = (\<lambda>rows'. case query_key rows' user key of None \<Rightarrow> Inl concurrent | Some row \<Rightarrow> Inr (row, rows'))
     in
     if metadata \<noteq> expected \<or> fm_link_count metadata \<noteq> 1 then Inl identity_conflict
     else if current \<noteq> before then Inl concurrent
     else if (case query_identity rows user (fm_identity metadata) of
                None \<Rightarrow> False | Some row \<Rightarrow> map_option if_id current \<noteq> Some (if_id row))
     then Inl identity_conflict
     else if 2 ^ 63 \<le> unat (fm_byte_size metadata) then Inl (Refused ''byte_size exceeds SQLite INTEGER range'')
     else (case current of
             Some row \<Rightarrow>
               if if_physical_identity row = fm_identity metadata \<and> if_byte_size row = fm_byte_size metadata
               then read_back rows
               else if length (filter (same_row user (if_id row)) rows) \<noteq> 1 then Inl concurrent
               else read_back (map (\<lambda>r. if same_row user (if_id row) r
                 then r\<lparr>if_physical_identity := fm_identity metadata, if_byte_size := fm_byte_size metadata\<rparr> else r) rows)
           | None \<Rightarrow>
               read_back (rows @ [\<lparr>if_user_public_id = user, if_key = key, if_physical_identity = fm_identity metadata,
                 if_id = row_id, if_kind = ''generation'', if_byte_size = fm_byte_size metadata, if_managed = True,
                 if_retention_policy = ''durable'', if_created_at = now, if_last_accessed_at = now, if_pending_delete = False\<rparr>])))"

definition reconcile_transaction ::
  "authority \<Rightarrow> managed_file_key \<Rightarrow> file_metadata \<Rightarrow> indexed_file option \<Rightarrow> indexed_file delivery" where
  "reconcile_transaction a key expected before = access (\<lambda>v w.
    let r = bind_result (dv_access v)
          (\<lambda>_. reconcile_rows (au_user a) key expected before (dv_row_id v) (dv_now v) (dv_metadata v) (dw_index w)) in
    (from_local (bind_result r (\<lambda>(row, _). Inr row)), IndexWritten key (bind_result r (\<lambda>(row, _). Inr row)),
     case r of Inl _ \<Rightarrow> w | Inr (_, rows) \<Rightarrow> w\<lparr>dw_index := rows\<rparr>))"

end
