(* ===== verification/Delivery_Steps.thy ===== *)
theory Delivery_Steps
  imports Delivery_Run
begin

text \<open>
  The three programs of \<open>native-client/src/runtime/generation/delivery_retry.rs\<close>: fetching a file into the
  namespace and registering it, deriving a cutout from it, and acknowledging it to the service.
\<close>

section \<open>What a delivery holds\<close>

record derived_cutout =
  cd_source :: managed_file_key
  cd_source_metadata :: file_metadata
  cd_output :: managed_file_key
  cd_output_metadata :: file_metadata
  cd_indexed :: indexed_file
  cd_source_path :: string
  cd_sha256 :: string

record delivery_proof =
  np_authority :: authority
  np_scope :: session_scope
  np_record :: pending_generation
  np_confirmation :: delivery_confirmation
  np_file :: managed_file_key
  np_indexed :: indexed_file
  np_source_path :: string
  np_terminal_success_count :: "usize option"
  np_derived_cutout :: "derived_cutout option"

definition require_unchanged :: "managed_file_key \<Rightarrow> file_metadata \<Rightarrow> string \<Rightarrow> unit delivery" where
  "require_unchanged key expected message = and_then (inspect_regular key) (\<lambda>found. require (found = expected) message)"

definition derived_ensure_current :: "derived_cutout \<Rightarrow> unit delivery" where
  "derived_ensure_current c =
    and_then (require_unchanged (cd_source c) (cd_source_metadata c) ''original cutout input changed'') (\<lambda>_.
    require_unchanged (cd_output c) (cd_output_metadata c) ''derived cutout output changed'')"

definition derived_ensure_index_current :: "authority \<Rightarrow> derived_cutout \<Rightarrow> unit delivery" where
  "derived_ensure_index_current a c =
    and_then (find_file_by_path a (cd_output c)) (\<lambda>found.
    case found of
      None \<Rightarrow> result_is (Inl (refuse ''derived cutout index entry is missing''))
    | Some row \<Rightarrow>
        require (if_id row = if_id (cd_indexed c) \<and> if_physical_identity row = fm_identity (cd_output_metadata c)
            \<and> if_byte_size row = fm_byte_size (cd_output_metadata c) \<and> if_kind row = ''generation''
            \<and> if_retention_policy row = ''durable'' \<and> if_managed row \<and> \<not> if_pending_delete row)
          ''derived cutout index identity changed'')"

definition for_derived :: "delivery_proof \<Rightarrow> (derived_cutout \<Rightarrow> unit delivery) \<Rightarrow> unit delivery" where
  "for_derived p f = (case np_derived_cutout p of None \<Rightarrow> result_is (Inr ()) | Some c \<Rightarrow> f c)"

definition proof_ensure_current :: "delivery_proof \<Rightarrow> unit delivery" where
  "proof_ensure_current p =
    and_then (ensure_scope_active_locally (np_scope p)) (\<lambda>_.
    and_then (inspect_regular (np_file p)) (\<lambda>retained.
    and_then (require (fm_identity retained = if_physical_identity (np_indexed p)
        \<and> fm_byte_size retained = dc_size_bytes (np_confirmation p)) ''retained delivery identity changed'') (\<lambda>_.
    for_derived p derived_ensure_current)))"

definition proof_ensure_index_current :: "delivery_proof \<Rightarrow> unit delivery" where
  "proof_ensure_index_current p =
    and_then (find_file_by_path (np_authority p) (np_file p)) (\<lambda>found.
    case found of
      None \<Rightarrow> result_is (Inl (refuse ''delivery index entry is missing''))
    | Some row \<Rightarrow>
        and_then (require (if_id row = if_id (np_indexed p) \<and> if_physical_identity row = if_physical_identity (np_indexed p)
            \<and> if_byte_size row = dc_size_bytes (np_confirmation p) \<and> if_kind row = ''generation''
            \<and> if_retention_policy row = ''durable'' \<and> \<not> if_pending_delete row) ''delivery index identity changed'') (\<lambda>_.
        for_derived p (derived_ensure_index_current (np_authority p))))"

text \<open>\<open>read_cutout_held_bytes\<close>: at most one byte more than expected is read.\<close>

definition read_bytes :: "managed_file_key \<Rightarrow> nat \<Rightarrow> 8 word list delivery" where
  "read_bytes key limit = access (\<lambda>v w.
    let bytes = take limit (concat (dv_chunks v)) in
    (from_local (bind_result (dv_access v) (\<lambda>_. Inr bytes)), FileRead key bytes (dv_access v), w))"

definition cutout_image_limit :: nat where
  "cutout_image_limit = 100 * 1024 * 1024"

definition read_cutout_held_bytes :: "authority \<Rightarrow> managed_file_key \<Rightarrow> u64 \<Rightarrow> string \<Rightarrow> 8 word list delivery" where
  "read_cutout_held_bytes a key expected hash =
    and_then (require (0 < expected \<and> unat expected \<le> cutout_image_limit) ''cutout input or output exceeds the owned image limit'') (\<lambda>_.
    and_then (inspect_regular key) (\<lambda>metadata.
    and_then (require (fm_link_count metadata = 1 \<and> fm_byte_size metadata = expected) ''cutout held image size changed'') (\<lambda>_.
    and_then (read_bytes key (unat expected + 1)) (\<lambda>bytes.
    and_then (require (content_matches (au_sha256 a) expected hash bytes) ''cutout held image fingerprint changed'') (\<lambda>_.
    and_then (require_unchanged key metadata ''cutout held image fingerprint changed'') (\<lambda>_.
    result_is (Inr bytes)))))))"

section \<open>Registration of verified content\<close>

record derived_content =
  vd_remote :: delivery_proof
  vd_source :: managed_file_key
  vd_source_metadata :: file_metadata
  vd_sha256 :: string
  vd_size :: u64

record verified_content =
  vc_authority :: authority
  vc_scope :: session_scope
  vc_record :: pending_generation
  vc_confirmation :: delivery_confirmation
  vc_source_path :: string
  vc_file :: managed_file_key
  vc_metadata :: file_metadata
  vc_terminal_success_count :: "usize option"
  vc_derived :: "derived_content option"

text \<open>The record without the progress of other items.\<close>

definition item_snapshot :: "delivery_confirmation \<Rightarrow> pending_generation \<Rightarrow> pending_generation" where
  "item_snapshot confirmation r = r\<lparr>
    pg_deliveries := filter (\<lambda>d. pd_item_index d = dc_item_index confirmation \<or> pd_file_id d = dc_file_id confirmation) (pg_deliveries r),
    pg_terminal := False, pg_expected_success_count := 0\<rparr>"

definition cutout_output_name :: "delivery_confirmation \<Rightarrow> string" where
  "cutout_output_name confirmation = dc_file_id confirmation @ ''-cutout-v1.png''"

definition require_current_derived :: "verified_content \<Rightarrow> derived_content \<Rightarrow> unit delivery" where
  "require_current_derived c d =
    and_then (require (pg_task_type (vc_record c) = ''image_cutout'' \<and> key_area (vc_file c) = Output
        \<and> key_relative_name (vc_file c) = cutout_output_name (vc_confirmation c) \<and> is_sha256_hex (vd_sha256 d))
      ''derived cutout index provenance changed'') (\<lambda>_.
    and_then (proof_ensure_current (vd_remote d)) (\<lambda>_.
    and_then (proof_ensure_index_current (vd_remote d)) (\<lambda>_.
    require_unchanged (vd_source d) (vd_source_metadata d) ''derived cutout original input changed'')))"

definition terminal_progress_ok :: "verified_content \<Rightarrow> pending_generation \<Rightarrow> bool" where
  "terminal_progress_ok c current =
    ((\<not> pg_terminal (vc_record c)
        \<or> (pg_terminal current \<and> pg_expected_success_count current = pg_expected_success_count (vc_record c)))
     \<and> (\<not> pg_terminal current \<or> vc_terminal_success_count c = Some (pg_expected_success_count current)))"

definition require_current :: "verified_content \<Rightarrow> unit delivery" where
  "require_current c =
    (let a = vc_authority c; scope = vc_scope c; r = vc_record c; confirmation = vc_confirmation c in
     and_then (ensure_scope_active_locally scope) (\<lambda>_.
     and_then (require (scope_owner_user_id scope = au_user a \<and> scope_auth_epoch scope = lease_auth_epoch (au_lease a)
         \<and> pg_owner_user_id r = scope_owner_user_id scope \<and> pg_auth_epoch r = scope_auth_epoch scope)
       ''delivery reconciliation namespace changed'') (\<lambda>_.
     and_then (load_exact_delivery_record a (generation_identity r)) (\<lambda>current.
     and_then (require (item_snapshot confirmation current = item_snapshot confirmation r)
       ''delivery reconciliation retained record changed'') (\<lambda>_.
     and_then (require (pg_client_request_id r = dc_client_request_id confirmation \<and> pg_server_task_id r = dc_task_id confirmation
         \<and> dc_item_index confirmation < item_count r) ''delivery reconciliation task changed'') (\<lambda>_.
     and_then (result_is (from_local (exact_saved_delivery current confirmation))) (\<lambda>saved.
     and_then (result_is (from_local (exact_saved_delivery r confirmation))) (\<lambda>original.
     and_then (require (saved = original) ''delivery reconciliation selected item changed'') (\<lambda>_.
     and_then (require (terminal_progress_ok c current) ''delivery reconciliation terminal progress changed'') (\<lambda>_.
     and_then (require (key_path (au_namespace a) (vc_file c) = vc_source_path c)
       ''delivery reconciliation canonical path changed'') (\<lambda>_.
     and_then (case vc_derived c of
         None \<Rightarrow> result_is (Inr (dc_size_bytes confirmation))
       | Some d \<Rightarrow> and_then (require_current_derived c d) (\<lambda>_. result_is (Inr (vd_size d)))) (\<lambda>expected_size.
     and_then (inspect_regular (vc_file c)) (\<lambda>metadata.
     require (metadata = vc_metadata c \<and> fm_link_count metadata = 1 \<and> fm_byte_size metadata = expected_size)
       ''delivery reconciliation held content changed'')))))))))))))"

definition reconcile_verified_delivery_content :: "verified_content \<Rightarrow> indexed_file delivery" where
  "reconcile_verified_delivery_content c =
    and_then (require_current c) (\<lambda>_.
    and_then (query_index (vc_authority c) (vc_file c)) (\<lambda>before.
    and_then (require (case before of None \<Rightarrow> True | Some row \<Rightarrow>
        if_kind row = ''generation'' \<and> if_retention_policy row = ''durable'' \<and> if_managed row \<and> \<not> if_pending_delete row)
      ''logical and physical file identity conflict'') (\<lambda>_.
    and_then (require_current c) (\<lambda>_.
    reconcile_transaction (vc_authority c) (vc_file c) (vc_metadata c) before))))"

end
