(* ===== verification/Delivery_Programs.thy ===== *)
theory Delivery_Programs
  imports Delivery_Steps
begin

text \<open>
  \<open>prepare_namespace_delivery_proof\<close>, \<open>prepare_namespace_cutout_delivery\<close> and
  \<open>acknowledge_namespace_delivery\<close> of \<open>native-client/src/runtime/generation/delivery_retry.rs\<close>.
\<close>

section \<open>Fetching\<close>

text \<open>The preview of an image is made from the held file; its pixels are not modelled.\<close>

definition prepare_preview :: "delivery_kind \<Rightarrow> managed_file_key \<Rightarrow> unit delivery" where
  "prepare_preview kind key = (if kind = ImageDelivery then access_file key else result_is (Inr ()))"

text \<open>A saved path that is not the canonical one is dropped from the record first.\<close>

definition clear_stale_path ::
  "authority \<Rightarrow> recovery_identity \<Rightarrow> delivery_confirmation \<Rightarrow> string \<Rightarrow> pending_generation \<Rightarrow> pending_generation delivery" where
  "clear_stale_path a expected confirmation source_path r =
    and_then (result_is (from_local (exact_saved_delivery r confirmation))) (\<lambda>saved.
    if (case saved of None \<Rightarrow> False | Some d \<Rightarrow> pd_local_path d \<noteq> [] \<and> pd_local_path d \<noteq> source_path)
    then
      and_then (change_record a (\<lambda>store. apply_generation_patch store expected (ClearDeliveryLocalPaths [dc_file_id confirmation]))) (\<lambda>changed.
      and_then (require changed ''saved delivery path changed concurrently'') (\<lambda>_.
      result_is (Inr (r\<lparr>pg_deliveries := clear_delivery_paths [dc_file_id confirmation] (pg_deliveries r)\<rparr>))))
    else result_is (Inr r))"

definition download_into :: "delivery_kind \<Rightarrow> session_scope \<Rightarrow> managed_file_key \<Rightarrow> unit delivery" where
  "download_into kind scope destination =
    and_then (download_verified_for_namespace destination) (\<lambda>_.
    and_then (prepare_preview kind destination) (\<lambda>_.
    and_then (ensure_scope_active scope) (\<lambda>_.
    and_then (begin_ordinary_mutation destination) (\<lambda>_.
    and_then (access_file destination) (\<lambda>_.
    access_file destination)))))"

text \<open>
  Somebody may publish the same file first: then its file is verified and used, once the temporary one is
  gone (a failure to remove it is ignored).
\<close>

definition use_existing :: "authority \<Rightarrow> delivery_kind \<Rightarrow> managed_file_key \<Rightarrow> delivery_confirmation \<Rightarrow> unit delivery" where
  "use_existing a kind destination confirmation =
    and_then (verify_namespace_delivery_file a destination confirmation) (\<lambda>_. prepare_preview kind destination)"

definition obtain_file ::
  "authority \<Rightarrow> delivery_kind \<Rightarrow> session_scope \<Rightarrow> managed_file_key \<Rightarrow> delivery_confirmation \<Rightarrow> unit delivery" where
  "obtain_file a kind scope destination confirmation =
    and_then (open_optional_regular destination) (\<lambda>present.
    if present then use_existing a kind destination confirmation
    else
      and_then (access_file destination) (\<lambda>_.
      settle_with (download_into kind scope destination) (\<lambda>preparation.
      case preparation of
        Inr _ \<Rightarrow> result_is (Inr ())
      | Inl e \<Rightarrow>
          settle_with (access_file destination) (\<lambda>_.
          if e \<noteq> DeliveryLocal (PublicationConflict DestinationAppeared) then result_is (Inl e)
          else
            and_then (ensure_scope_active scope) (\<lambda>_.
            and_then (access_file destination) (\<lambda>_.
            use_existing a kind destination confirmation))))))"

definition register_file ::
  "authority \<Rightarrow> session_scope \<Rightarrow> pending_generation \<Rightarrow> delivery_confirmation \<Rightarrow> string \<Rightarrow> managed_file_key \<Rightarrow> usize option
    \<Rightarrow> indexed_file delivery" where
  "register_file a scope r confirmation source_path destination terminal_success_count =
    and_then (ensure_scope_active scope) (\<lambda>_.
    and_then (inspect_regular destination) (\<lambda>retained.
    and_then (access_file destination) (\<lambda>_.
    and_then (inspect_regular destination) (\<lambda>before_hash.
    and_then (require (before_hash = retained \<and> fm_link_count before_hash = 1) ''delivery changed before index registration'') (\<lambda>_.
    and_then (verify_namespace_delivery_file a destination confirmation) (\<lambda>_.
    and_then (inspect_regular destination) (\<lambda>metadata.
    and_then (require (metadata = before_hash) ''delivery changed during content verification'') (\<lambda>_.
    and_then (begin_ordinary_mutation destination) (\<lambda>_.
    reconcile_verified_delivery_content \<lparr>vc_authority = a, vc_scope = scope, vc_record = r, vc_confirmation = confirmation,
      vc_source_path = source_path, vc_file = destination, vc_metadata = metadata,
      vc_terminal_success_count = terminal_success_count, vc_derived = None\<rparr>)))))))))"

definition prepare_namespace_delivery_proof ::
  "authority \<Rightarrow> delivery_kind \<Rightarrow> recovery_identity \<Rightarrow> usize \<Rightarrow> delivery_proof delivery" where
  "prepare_namespace_delivery_proof a kind expected item_index =
    (let scope = authority_scope a; parse_uuid = au_parse_uuid a in
     and_then (ensure_scope_active scope) (\<lambda>_.
     and_then (load_exact_delivery_record a expected) (\<lambda>r.
     and_then (result_is (check_delivery_record parse_uuid kind scope item_index r)) (\<lambda>_.
     and_then task_scoped (\<lambda>detail.
     and_then (result_is (check_delivery_detail r detail)) (\<lambda>_.
     and_then (result_is (delivery_remote item_index detail)) (\<lambda>remote.
     and_then (result_is (delivery_confirmation_of parse_uuid item_index r remote)) (\<lambda>confirmation.
     and_then (result_is (delivery_destination kind remote)) (\<lambda>destination.
     let source_path = key_path (au_namespace a) destination;
         count = (if detail_terminal detail then Some (of_nat (successes detail)) else None) in
     and_then (clear_stale_path a expected confirmation source_path r) (\<lambda>r'.
     and_then (obtain_file a kind scope destination confirmation) (\<lambda>_.
     and_then (register_file a scope r' confirmation source_path destination count) (\<lambda>indexed.
     let proof = \<lparr>np_authority = a, np_scope = scope, np_record = r', np_confirmation = confirmation, np_file = destination,
           np_indexed = indexed, np_source_path = source_path, np_terminal_success_count = count, np_derived_cutout = None\<rparr> in
     and_then (proof_ensure_current proof) (\<lambda>_. result_is (Inr proof))))))))))))))"

section \<open>Deriving a cutout\<close>

text \<open>\<open>Path::strip_prefix\<close>: the text behind the components of the prefix.\<close>

definition blank_piece :: "string \<Rightarrow> bool" where
  "blank_piece c = (c = [] \<or> c = ''.'')"

fun pieces_after :: "nat \<Rightarrow> string list \<Rightarrow> string list" where
  "pieces_after 0 pieces = dropWhile blank_piece pieces"
| "pieces_after (Suc n) pieces = pieces_after n (tl (dropWhile blank_piece pieces))"

definition strip_path_prefix :: "path \<Rightarrow> string \<Rightarrow> string option" where
  "strip_path_prefix root v =
    (if Path_Remap.starts_with (path_components v) root
     then Some (intercalate ''/'' (rev (dropWhile blank_piece (rev (pieces_after (length root) (split_on ''/'' v))))))
     else None)"

definition cutout_areas :: "managed_user_area list" where
  "cutout_areas = [Input, Output, Prompt, Canvas, CanvasUploads, CanvasExports, References, ReferencesLibrary,
    ReferencesImports, Previews, ToolboxCompressionInputs, ToolboxCompressionResults, ToolboxConversionInputs,
    ToolboxConversionResults, ToolboxCropInputs]"

definition cutout_input_key :: "user_namespace \<Rightarrow> string \<Rightarrow> recovery_failure + managed_file_key" where
  "cutout_input_key ns v =
    (if \<not> Path_Remap.path_is_absolute v then Inl (Refused ''cutout input requires an owned absolute path'')
     else case List.map_filter (\<lambda>area. Option.bind (strip_path_prefix (namespace_path ns area) v)
             (\<lambda>name. case managed_file_key_new area name of Inl _ \<Rightarrow> None | Inr key \<Rightarrow> Some key))
           (sort_key (\<lambda>area. - int (length (namespace_path ns area))) cutout_areas) of
       [] \<Rightarrow> Inl (Refused ''cutout input is outside owned image areas'')
     | key # _ \<Rightarrow> Inr key)"

text \<open>\<open>decode_cutout_result_bytes\<close>: source path, source, quality and mask.\<close>

type_synonym cutout_decoder = "string \<Rightarrow> 8 word list \<Rightarrow> string \<Rightarrow> 8 word list \<Rightarrow> recovery_failure + 8 word list"

definition publish_cutout :: "authority \<Rightarrow> managed_file_key \<Rightarrow> u64 \<Rightarrow> string \<Rightarrow> unit delivery" where
  "publish_cutout a key expected hash =
    and_then (open_optional_regular key) (\<lambda>present.
    if present then and_then (read_cutout_held_bytes a key expected hash) (\<lambda>_. result_is (Inr ()))
    else
      and_then (access_file key) (\<lambda>_.
      settle_with
        (and_then (begin_ordinary_mutation key) (\<lambda>_.
         and_then (access_file key) (\<lambda>_.
         and_then (read_cutout_held_bytes a key expected hash) (\<lambda>_.
         and_then (access_file key) (\<lambda>_.
         access_file key)))))
        (\<lambda>publication.
      case publication of
        Inr _ \<Rightarrow> result_is (Inr ())
      | Inl e \<Rightarrow>
          settle_with (access_file key) (\<lambda>_.
          if e \<noteq> DeliveryLocal (PublicationConflict DestinationAppeared) then result_is (Inl e)
          else
            and_then (access_file key) (\<lambda>_.
            and_then (read_cutout_held_bytes a key expected hash) (\<lambda>_. result_is (Inr ())))))))"

definition prepare_namespace_cutout_delivery ::
  "cutout_decoder \<Rightarrow> authority \<Rightarrow> recovery_identity \<Rightarrow> usize \<Rightarrow> delivery_proof delivery" where
  "prepare_namespace_cutout_delivery decode a expected item_index =
    and_then (prepare_namespace_delivery_proof a CutoutDelivery expected item_index) (\<lambda>proof.
    let r = np_record proof; confirmation = np_confirmation proof in
    and_then (require (length (pg_reference_paths r) = 1 \<and> length (pg_reference_sha256 r) = 1
        \<and> length (pg_reference_size_bytes r) = 1) ''original cutout input fingerprint is missing'') (\<lambda>_.
    let source_path = pg_reference_paths r ! 0 in
    and_then (result_is (from_local (cutout_input_key (au_namespace a) source_path))) (\<lambda>source.
    and_then (access_file source) (\<lambda>_.
    and_then (read_cutout_held_bytes a source (pg_reference_size_bytes r ! 0) (pg_reference_sha256 r ! 0)) (\<lambda>source_bytes.
    and_then (inspect_regular source) (\<lambda>source_metadata.
    and_then (read_cutout_held_bytes a (np_file proof) (dc_size_bytes confirmation) (dc_sha256 confirmation)) (\<lambda>mask_bytes.
    and_then (result_is (from_local (decode source_path source_bytes (pg_quality r) mask_bytes))) (\<lambda>derived_bytes.
    let hash = au_sha256 a derived_bytes; derived_size = of_nat (length derived_bytes) :: u64 in
    and_then (require (0 < derived_size \<and> unat derived_size \<le> cutout_image_limit)
      ''derived cutout output exceeds the owned image limit'') (\<lambda>_.
    and_then (proof_ensure_current proof) (\<lambda>_.
    and_then (require_unchanged source source_metadata ''cutout input changed during derivation'') (\<lambda>_.
    and_then (result_is (case managed_file_key_new Output (cutout_output_name confirmation) of
        Inl e \<Rightarrow> Inl (name_failure e) | Inr key \<Rightarrow> Inr key)) (\<lambda>key.
    let output_path = key_path (au_namespace a) key in
    and_then (publish_cutout a key derived_size hash) (\<lambda>_.
    and_then (inspect_regular key) (\<lambda>output_metadata.
    and_then (access_file key) (\<lambda>_.
    and_then (begin_ordinary_mutation key) (\<lambda>_.
    and_then (reconcile_verified_delivery_content \<lparr>vc_authority = a, vc_scope = np_scope proof, vc_record = r,
        vc_confirmation = confirmation, vc_source_path = output_path, vc_file = key, vc_metadata = output_metadata,
        vc_terminal_success_count = np_terminal_success_count proof,
        vc_derived = Some \<lparr>vd_remote = proof, vd_source = source, vd_source_metadata = source_metadata,
          vd_sha256 = hash, vd_size = derived_size\<rparr>\<rparr>) (\<lambda>indexed.
    let proof' = proof\<lparr>np_derived_cutout := Some \<lparr>cd_source = source, cd_source_metadata = source_metadata, cd_output = key,
          cd_output_metadata = output_metadata, cd_indexed = indexed, cd_source_path = output_path, cd_sha256 = hash\<rparr>\<rparr> in
    and_then (proof_ensure_current proof') (\<lambda>_.
    and_then (proof_ensure_index_current proof') (\<lambda>_.
    result_is (Inr proof'))))))))))))))))))))"

section \<open>Acknowledging\<close>

definition acknowledgement_of :: "delivery_proof \<Rightarrow> delivery_acknowledgement" where
  "acknowledgement_of p = (let c = np_confirmation p in
    \<lparr>ak_task_id = dc_task_id c, ak_file_id = dc_file_id c, ak_sha256 = dc_sha256 c, ak_size_bytes = dc_size_bytes c,
     ak_scope = np_scope p\<rparr>)"

definition verify_derived :: "delivery_proof \<Rightarrow> unit delivery" where
  "verify_derived p = for_derived p (\<lambda>c.
    and_then (read_cutout_held_bytes (np_authority p) (cd_output c) (fm_byte_size (cd_output_metadata c)) (cd_sha256 c)) (\<lambda>_.
    and_then (read_cutout_held_bytes (np_authority p) (cd_source c) (pg_reference_size_bytes (np_record p) ! 0)
      (pg_reference_sha256 (np_record p) ! 0)) (\<lambda>_. result_is (Inr ()))))"

text \<open>The record as it is now still belongs to this delivery.\<close>

definition check_saved_record :: "delivery_proof \<Rightarrow> pending_generation \<Rightarrow> unit delivery" where
  "check_saved_record p current =
    and_then (require (delivery_task_metadata current = delivery_task_metadata (np_record p)) ''saved delivery record changed'') (\<lambda>_.
    and_then (result_is (from_local (exact_saved_delivery current (np_confirmation p)))) (\<lambda>saved.
    and_then (require ((case saved of None \<Rightarrow> None | Some d \<Rightarrow>
          if pd_failed_asset_id d = [] then None else Some (pd_failed_asset_id d)) = dc_failed_asset_id (np_confirmation p))
      ''saved failed-card identity changed'') (\<lambda>_.
    and_then (require (case saved of None \<Rightarrow> True | Some d \<Rightarrow> pd_local_path d = [] \<or> pd_local_path d = np_source_path p)
      ''saved delivery path changed'') (\<lambda>_.
    require (case np_terminal_success_count p of None \<Rightarrow> True | Some expected \<Rightarrow>
        \<not> pg_terminal current \<or> pg_expected_success_count current = expected) ''saved terminal success count changed''))))"

text \<open>The saved path and the end of the task, before the service is told.\<close>

definition save_progress :: "delivery_proof \<Rightarrow> bool delivery" where
  "save_progress p =
    (let identity = generation_identity (np_record p) in
     and_then (change_record (np_authority p)
       (\<lambda>store. pending_delivery_saved store identity (np_confirmation p) (np_source_path p))) (\<lambda>saved.
     if \<not> saved then result_is (Inr False)
     else case np_terminal_success_count p of
       None \<Rightarrow> result_is (Inr True)
     | Some n \<Rightarrow> change_record (np_authority p) (\<lambda>store. apply_generation_patch store identity (Terminal n))))"

definition acknowledge_namespace_delivery :: "delivery_proof \<Rightarrow> bool delivery" where
  "acknowledge_namespace_delivery p =
    and_then (proof_ensure_current p) (\<lambda>_.
    and_then (verify_namespace_delivery_file (np_authority p) (np_file p) (np_confirmation p)) (\<lambda>_.
    and_then (proof_ensure_index_current p) (\<lambda>_.
    and_then (verify_derived p) (\<lambda>_.
    and_then (load_exact_delivery_record (np_authority p) (generation_identity (np_record p))) (\<lambda>current.
    and_then (check_saved_record p current) (\<lambda>_.
    and_then (save_progress p) (\<lambda>saved.
    if \<not> saved then result_is (Inr False)
    else
      and_then (proof_ensure_current p) (\<lambda>_.
      and_then (proof_ensure_index_current p) (\<lambda>_.
      and_then (acknowledge_delivery_scoped (acknowledgement_of p)) (\<lambda>_.
      and_then (ensure_scope_active (np_scope p)) (\<lambda>_.
      if np_derived_cutout p \<noteq> None
      then
        and_then (proof_ensure_current p) (\<lambda>_.
        and_then (proof_ensure_index_current p) (\<lambda>_.
        change_record (np_authority p) (\<lambda>store. settle_acknowledged_cutout_delivery store
          \<lparr>cr_record = np_record p, cr_confirmation = np_confirmation p, cr_remote_path = np_source_path p\<rparr>)))
      else change_record (np_authority p) (\<lambda>store. pending_delivery_acknowledged store (generation_identity (np_record p))
        (dc_file_id (np_confirmation p))))))))))))))"

end
