(* ===== verification/Delivery_Log.thy ===== *)
theory Delivery_Log
  imports Delivery_Programs Recovery_Properties
begin

text \<open>
  What the calls of a delivery leave in its log (programs of
  \<open>native-client/src/runtime/generation/delivery_retry.rs\<close>): the log only grows, and every successful step has
  left the entry of its call.
\<close>

section \<open>Programs and their logs\<close>

abbreviation delivery_logs :: "(delivery_event \<Rightarrow> bool) \<Rightarrow> 'a delivery \<Rightarrow> bool" where
  "delivery_logs \<equiv> logs dw_views dw_log"

lemma logs_access:
  assumes "\<And>v w. P (fst (snd (f v w))) \<and> dw_views (snd (snd (f v w))) = dw_views w"
  shows "delivery_logs P (access f)"
proof (rule logsI)
  fix w r w'
  assume "access f w = (r, w')"
  moreover have "dw_views (others_act w) = dw_views w" by (simp add: others_act_def Let_def)
  ultimately show "dw_views w' = dw_views w \<and> (\<exists>es. dw_log w' = dw_log w @ es \<and> list_all P es)"
    using assms [of "dw_views w (dw_clock w)" "others_act w"] by (auto simp: access_def split_beta)
qed

section \<open>Only one call is an acknowledgement\<close>

definition is_acknowledgement :: "delivery_event \<Rightarrow> bool" where
  "is_acknowledgement e = (case e of AcknowledgementSent _ _ \<Rightarrow> True | _ \<Rightarrow> False)"

abbreviation silent :: "'a delivery \<Rightarrow> bool" where
  "silent \<equiv> delivery_logs (\<lambda>e. \<not> is_acknowledgement e)"

lemmas call_defs = ask_scope_def load_exact_delivery_record_def change_record_def task_scoped_def access_file_def
  open_optional_regular_def inspect_regular_def begin_ordinary_mutation_def verify_namespace_delivery_file_def
  download_verified_for_namespace_def find_file_by_path_def query_index_def reconcile_transaction_def read_bytes_def

lemma silent_calls [logging]:
  "silent (ask_scope g scope)" "silent (load_exact_delivery_record a i)" "silent (change_record a operation)"
  "silent task_scoped" "silent (access_file key)" "silent (open_optional_regular key)" "silent (inspect_regular key)"
  "silent (begin_ordinary_mutation key)" "silent (verify_namespace_delivery_file a key c)"
  "silent (download_verified_for_namespace key)" "silent (find_file_by_path a key)" "silent (query_index a key)"
  "silent (reconcile_transaction a key m before)" "silent (read_bytes key n)"
  unfolding call_defs
  by (rule logs_access, simp add: Let_def split_beta is_acknowledgement_def split: sum.splits)+

lemma silent_checks [logging]:
  "silent (require_unchanged key m message)" "silent (derived_ensure_current c)" "silent (derived_ensure_index_current a c)"
  unfolding require_unchanged_def derived_ensure_current_def derived_ensure_index_current_def
  by (intro logging)+

lemma silent_for_derived [logging]: "(\<And>c. silent (f c)) \<Longrightarrow> silent (for_derived p f)"
  unfolding for_derived_def by (intro logging)

lemma silent_proof_checks [logging]:
  "silent (proof_ensure_current p)" "silent (proof_ensure_index_current p)"
  unfolding proof_ensure_current_def proof_ensure_index_current_def
  by (intro logging)+

lemma silent_read_cutout [logging]: "silent (read_cutout_held_bytes a key n h)"
  unfolding read_cutout_held_bytes_def by (intro logging)

lemma silent_verify_derived [logging]: "silent (verify_derived p)"
  unfolding verify_derived_def by (intro logging)

lemma silent_record_steps [logging]: "silent (check_saved_record p current)" "silent (save_progress p)"
  unfolding check_saved_record_def save_progress_def Let_def by (intro logging)+

section \<open>The entry of a successful call\<close>

lemma access_ok:
  assumes "access f w = (Inr a, w')"
  obtains event w1 where "f (dw_views w (dw_clock w)) (others_act w) = (Inr a, event, w1)"
    and "w' = w1\<lparr>dw_log := dw_log w @ [event]\<rparr>"
  using assms by (auto simp: access_def split: prod.splits)

text \<open>Steps one after the other: each leaves entries, and all of them are among those of the whole.\<close>

definition steps :: "delivery_world \<Rightarrow> delivery_event list \<Rightarrow> delivery_world \<Rightarrow> bool" where
  "steps w es w' = (dw_log w' = dw_log w @ es)"

lemma steps_trans: "steps w es w1 \<Longrightarrow> steps w1 es' w2 \<Longrightarrow> steps w (es @ es') w2"
  by (simp add: steps_def)

lemma logs_steps:
  assumes "delivery_logs P p" and "p w = (r, w')"
  shows "\<exists>es. steps w es w' \<and> list_all P es"
  using logsE [OF assms] by (auto simp: steps_def)

lemma verified_content_logged:
  assumes "verify_namespace_delivery_file a key c w = (Inr u, w')"
  shows "steps w [FileRead key (concat (dv_chunks (dw_views w (dw_clock w)))) (Inr ())] w'
    \<and> verify_chunks (au_sha256 a) c (dv_chunks (dw_views w (dw_clock w))) = Inr ()"
  using assms unfolding verify_namespace_delivery_file_def
  by (elim access_ok) (auto simp: steps_def Let_def bind_result_def split: sum.splits)

lemma record_change_logged:
  assumes "change_record a operation w = (Inr b, w')"
  shows "\<exists>store disk. operation store disk = (Inr b, dw_disk w') \<and> steps w [RecordChanged (Inr b) (dw_disk w')] w'"
  using assms unfolding change_record_def
  by (elim access_ok) (auto simp: steps_def Let_def split: prod.splits)

end
