(* ===== verification/Delivery_Properties.thy ===== *)
theory Delivery_Properties
  imports Delivery_Log
begin

text \<open>
  The order of an acknowledgement
  (\<open>acknowledge_namespace_delivery\<close> of \<open>native-client/src/runtime/generation/delivery_retry.rs\<close>): what has
  happened when the service is told that a file has arrived.
\<close>

section \<open>Content\<close>

text \<open>A slice in memory is shorter than \<open>2 ^ 64\<close>.\<close>

definition slices :: "8 word list list \<Rightarrow> bool" where
  "slices chunks = list_all (\<lambda>chunk. length chunk < 2 ^ 64) chunks"

lemma digest_sink_result:
  assumes "digest_sink expected chunks (count, bytes) = Some (count', bytes')" and "slices chunks"
  shows "bytes' = bytes @ concat chunks \<and> unat count' = unat count + length (concat chunks)"
  using assms
proof (induction chunks arbitrary: count bytes)
  case (Cons chunk chunks)
  from Cons.prems(1) obtain count1 where c: "checked_add count (of_nat (length chunk)) = Some count1"
    and rest: "digest_sink expected chunks (count1, bytes @ chunk) = Some (count', bytes')"
    by (auto simp: digest_sink_write_def bind_eq_Some_conv split: option.splits if_splits)
  have "unat (of_nat (length chunk) :: u64) = length chunk"
    using Cons.prems(2) by (simp add: slices_def unat_of_nat)
  with c have "unat count1 = unat count + length chunk"
    by (auto simp: checked_add_def unat_word_ariths split: if_splits)
  with Cons.IH [OF rest] Cons.prems(2) show ?case by (simp add: slices_def)
qed simp

lemma verify_chunks_ok:
  assumes "verify_chunks sha256 c chunks = Inr ()" and "slices chunks"
  shows "content_matches sha256 (dc_size_bytes c) (dc_sha256 c) (concat chunks)"
proof -
  from assms(1) obtain count bytes where "digest_sink (dc_size_bytes c) chunks (0, []) = Some (count, bytes)"
    "count = dc_size_bytes c" "eq_ignore_ascii_case (sha256 bytes) (dc_sha256 c)"
    by (auto simp: verify_chunks_def split: option.splits)
  with digest_sink_result [OF this(1) assms(2)] show ?thesis by (simp add: content_matches_def)
qed

section \<open>The saved path\<close>

definition path_saved :: "recovery_identity \<Rightarrow> delivery_confirmation \<Rightarrow> string \<Rightarrow> recovery_file \<Rightarrow> bool" where
  "path_saved identity c path d =
    (\<exists>r \<in> set (rf_generations d). generation_identity r = identity
      \<and> (\<exists>x \<in> set (pg_deliveries r). pd_file_id x = dc_file_id c \<and> pd_local_path x = path))"

lemma record_save_delivery_ok:
  assumes "record_save_delivery c path False r = Inr r'"
  shows "generation_identity r' = generation_identity r
    \<and> (\<exists>x \<in> set (pg_deliveries r'). pd_file_id x = dc_file_id c \<and> pd_local_path x = path)"
proof (cases "delivery_index (\<lambda>d. pd_file_id d = dc_file_id c) r")
  case (Inr found)
  show ?thesis
  proof (cases found)
    case (Some i)
    note at = delivery_index_Some [OF Inr [unfolded Some]]
    let ?x = "(pg_deliveries r ! i)\<lparr>pd_local_path := path\<rparr>"
    from assms Inr Some have r': "r' = r\<lparr>pg_deliveries := (pg_deliveries r)[i := ?x]\<rparr>"
      by (simp add: record_save_delivery_def update_delivery_def)
    with at(1) have "?x \<in> set (pg_deliveries r')" by (simp add: set_update_memI)
    with at(2) r' show ?thesis by (auto simp: generation_identity_def intro!: bexI [of _ ?x])
  next
    case None
    with assms Inr show ?thesis by (auto simp: record_save_delivery_def generation_identity_def)
  qed
qed (use assms in \<open>simp add: record_save_delivery_def\<close>)

lemma saved_path_published:
  assumes "pending_delivery_saved store identity c path disk = (Inr True, disk')"
  shows "\<exists>f d. hd (dd_published disk') = (f, d) \<and> dd_published disk' \<noteq> [] \<and> path_saved identity c path d"
proof -
  from assms have "recovery_mutate store generation_envelope Preserve (change_row generation_field identity
      (\<lambda>r. bind_result (record_save_delivery c path False r) keep_row)) disk = (Inr True, disk')"
    by (auto simp: pending_delivery_saved_def save_delivery_def when_ok_def split: sum.splits)
  from recovery_mutate_result [OF this] obtain current d d'
    where published: "dd_published disk' = (current, d') # dd_published disk"
      and d: "mutation_prepare store generation_envelope Preserve (change_row generation_field identity
        (\<lambda>r. bind_result (record_save_delivery c path False r) keep_row)) d = Inr (d', True)"
    by auto
  have "change_row generation_field identity (\<lambda>r. bind_result (record_save_delivery c path False r) keep_row) d = Inr (d', True)"
    using mutation_prepare_ok(1) [OF d] .
  then show ?thesis
  proof (cases rule: change_row_cases)
    case (removed i)
    then show ?thesis by (auto simp: bind_result_def split: sum.splits)
  next
    case (changed i r)
    note at = exact_index_Some [OF changed(2)]
    from changed(3) have "record_save_delivery c path False (rf_generations d ! i) = Inr r"
      by (auto simp: bind_result_def generation_field_def split: sum.splits)
    note saved = record_save_delivery_ok [OF this]
    from at(2) have "generation_identity (rf_generations d ! i) = identity" by (simp add: generation_field_def)
    with saved have "generation_identity r = identity"
      "\<exists>x \<in> set (pg_deliveries r). pd_file_id x = dc_file_id c \<and> pd_local_path x = path"
      by simp_all
    moreover from changed(4) at(1) have "r \<in> set (rf_generations d')"
      by (simp add: generation_field_def set_update_memI)
    ultimately have "path_saved identity c path d'" unfolding path_saved_def by blast
    with published show ?thesis by simp
  qed simp
qed

section \<open>Before and after the acknowledgement\<close>

text \<open>Everything that \<open>acknowledge_namespace_delivery\<close> does before it sends.\<close>

definition ready_to_acknowledge :: "delivery_proof \<Rightarrow> bool delivery" where
  "ready_to_acknowledge p =
    and_then (proof_ensure_current p) (\<lambda>_.
    and_then (verify_namespace_delivery_file (np_authority p) (np_file p) (np_confirmation p)) (\<lambda>_.
    and_then (proof_ensure_index_current p) (\<lambda>_.
    and_then (verify_derived p) (\<lambda>_.
    and_then (load_exact_delivery_record (np_authority p) (generation_identity (np_record p))) (\<lambda>current.
    and_then (check_saved_record p current) (\<lambda>_.
    and_then (save_progress p) (\<lambda>saved.
    if \<not> saved then result_is (Inr False)
    else
      and_then (proof_ensure_current p) (\<lambda>_.
      and_then (proof_ensure_index_current p) (\<lambda>_. result_is (Inr True))))))))))"

definition after_acknowledgement :: "delivery_proof \<Rightarrow> bool delivery" where
  "after_acknowledgement p =
    and_then (ensure_scope_active (np_scope p)) (\<lambda>_.
    if np_derived_cutout p \<noteq> None
    then
      and_then (proof_ensure_current p) (\<lambda>_.
      and_then (proof_ensure_index_current p) (\<lambda>_.
      change_record (np_authority p) (\<lambda>store. settle_acknowledged_cutout_delivery store
        \<lparr>cr_record = np_record p, cr_confirmation = np_confirmation p, cr_remote_path = np_source_path p\<rparr>)))
    else change_record (np_authority p) (\<lambda>store. pending_delivery_acknowledged store (generation_identity (np_record p))
      (dc_file_id (np_confirmation p))))"

lemma acknowledge_parts:
  "acknowledge_namespace_delivery p =
    and_then (ready_to_acknowledge p) (\<lambda>ready.
    if ready then and_then (acknowledge_delivery_scoped (acknowledgement_of p)) (\<lambda>_. after_acknowledgement p)
    else result_is (Inr False))"
  unfolding acknowledge_namespace_delivery_def ready_to_acknowledge_def after_acknowledgement_def and_then_assoc
  by (simp add: and_then_if and_then_assoc cong: if_cong)

lemma silent_ready: "silent (ready_to_acknowledge p)"
  unfolding ready_to_acknowledge_def by (intro logging)

lemma silent_after: "silent (after_acknowledgement p)"
  unfolding after_acknowledgement_def by (intro logging)

text \<open>What the log of a successful preparation holds, in this order.\<close>

definition evidence :: "delivery_proof \<Rightarrow> delivery_event list \<Rightarrow> bool" where
  "evidence p es =
    (\<exists>es1 bytes es2 disk es3. es = es1 @ FileRead (np_file p) bytes (Inr ()) # es2 @ RecordChanged (Inr True) disk # es3
      \<and> content_matches (au_sha256 (np_authority p)) (dc_size_bytes (np_confirmation p)) (dc_sha256 (np_confirmation p)) bytes
      \<and> (\<exists>f d. hd (dd_published disk) = (f, d) \<and> dd_published disk \<noteq> []
          \<and> path_saved (generation_identity (np_record p)) (np_confirmation p) (np_source_path p) d)
      \<and> ScopeAsked True \<in> set es3)"

lemma scope_asked_logged:
  assumes "proof_ensure_current p w = (Inr u, w')"
  shows "\<exists>es. steps w es w' \<and> ScopeAsked True \<in> set es"
proof -
  let ?q = "and_then (inspect_regular (np_file p)) (\<lambda>retained.
      and_then (require (fm_identity retained = if_physical_identity (np_indexed p)
        \<and> fm_byte_size retained = dc_size_bytes (np_confirmation p)) ''retained delivery identity changed'') (\<lambda>_.
      for_derived p derived_ensure_current))"
  from assms obtain w1 where asked: "ensure_scope_active_locally (np_scope p) w = (Inr (), w1)"
    and rest: "?q w1 = (Inr u, w')"
    by (auto simp: proof_ensure_current_def and_then_ok)
  from asked have "steps w [ScopeAsked True] w1"
    unfolding ask_scope_def by (elim access_ok) (auto simp: steps_def)
  moreover have quiet: "silent ?q" by (intro logging)
  obtain es where "steps w1 es w'" using logs_steps [OF quiet rest] by blast
  ultimately have "steps w ([ScopeAsked True] @ es) w'" by (rule steps_trans)
  then show ?thesis by auto
qed

lemma save_progress_logged:
  assumes "save_progress p w = (Inr True, w')"
  shows "\<exists>disk f d es. steps w (RecordChanged (Inr True) disk # es) w'
    \<and> hd (dd_published disk) = (f, d) \<and> dd_published disk \<noteq> []
    \<and> path_saved (generation_identity (np_record p)) (np_confirmation p) (np_source_path p) d"
proof -
  let ?save = "\<lambda>store. pending_delivery_saved store (generation_identity (np_record p)) (np_confirmation p) (np_source_path p)"
  let ?rest = "\<lambda>b. if \<not> b then result_is (Inr False) else case np_terminal_success_count p of
       None \<Rightarrow> result_is (Inr True)
     | Some n \<Rightarrow> change_record (np_authority p) (\<lambda>store. apply_generation_patch store (generation_identity (np_record p)) (Terminal n))"
  from assms obtain b w1 where save: "change_record (np_authority p) ?save w = (Inr b, w1)"
    and rest: "?rest b w1 = (Inr True, w')"
    unfolding save_progress_def Let_def and_then_ok by blast
  then have b: "b" by (auto split: if_splits)
  from record_change_logged [OF save] obtain store disk
    where saved: "?save store disk = (Inr True, dw_disk w1)" and step: "steps w [RecordChanged (Inr True) (dw_disk w1)] w1"
    using b by auto
  have quiet: "silent (?rest b)" by (intro logging)
  obtain es where "steps w1 es w'" using logs_steps [OF quiet rest] by blast
  from steps_trans [OF step this] saved_path_published [OF saved] show ?thesis by force
qed

lemma ready_evidence:
  assumes "ready_to_acknowledge p w = (Inr True, w')" and "\<forall>n. slices (dv_chunks (dw_views w n))"
  shows "\<exists>es. steps w es w' \<and> evidence p es"
proof -
  let ?a = "np_authority p" and ?id = "generation_identity (np_record p)"
  from assms(1) obtain w1 w2 w3 w4 current w5 w6 w7 w8
    where s1: "proof_ensure_current p w = (Inr (), w1)"
      and s2: "verify_namespace_delivery_file ?a (np_file p) (np_confirmation p) w1 = (Inr (), w2)"
      and s3: "proof_ensure_index_current p w2 = (Inr (), w3)" and s4: "verify_derived p w3 = (Inr (), w4)"
      and s5: "load_exact_delivery_record ?a ?id w4 = (Inr current, w5)"
      and s6: "check_saved_record p current w5 = (Inr (), w6)" and s7: "save_progress p w6 = (Inr True, w7)"
      and s8: "proof_ensure_current p w7 = (Inr (), w8)" and s9: "proof_ensure_index_current p w8 = (Inr (), w')"
    by (auto simp: ready_to_acknowledge_def and_then_ok split: if_splits)
  obtain e1 where e1: "steps w e1 w1" using logs_steps [OF silent_proof_checks(1) s1] by blast
  have "dw_views w1 = dw_views w" using logsE [OF silent_proof_checks(1) s1] by blast
  with verified_content_logged [OF s2] assms(2) obtain bytes
    where e2: "steps w1 [FileRead (np_file p) bytes (Inr ())] w2"
      and bytes: "content_matches (au_sha256 ?a) (dc_size_bytes (np_confirmation p)) (dc_sha256 (np_confirmation p)) bytes"
    using verify_chunks_ok by metis
  obtain e3 where e3: "steps w2 e3 w3" using logs_steps [OF silent_proof_checks(2) s3] by blast
  obtain e4 where e4: "steps w3 e4 w4" using logs_steps [OF silent_verify_derived s4] by blast
  obtain e5 where e5: "steps w4 e5 w5" using logs_steps [OF silent_calls(2) s5] by blast
  obtain e6 where e6: "steps w5 e6 w6" using logs_steps [OF silent_record_steps(1) s6] by blast
  obtain disk f d e7 where e7: "steps w6 (RecordChanged (Inr True) disk # e7) w7"
    and saved: "hd (dd_published disk) = (f, d)" "dd_published disk \<noteq> []"
      "path_saved ?id (np_confirmation p) (np_source_path p) d"
    using save_progress_logged [OF s7] by blast
  obtain e8 where e8: "steps w7 e8 w8" "ScopeAsked True \<in> set e8" using scope_asked_logged [OF s8] by blast
  obtain e9 where e9: "steps w8 e9 w'" using logs_steps [OF silent_proof_checks(2) s9] by blast
  have "steps w (e1 @ FileRead (np_file p) bytes (Inr ()) # (e3 @ e4 @ e5 @ e6) @ RecordChanged (Inr True) disk # (e7 @ e8 @ e9)) w'"
    using e1 e2 e3 e4 e5 e6 e7 e8(1) e9 by (simp add: steps_def)
  moreover have "ScopeAsked True \<in> set (e7 @ e8 @ e9)" using e8(2) by simp
  ultimately show ?thesis using bytes saved unfolding evidence_def by blast
qed

lemma settled_record_logged:
  assumes "after_acknowledgement p w = (Inr True, w')"
  shows "\<exists>es disk. steps w (es @ [RecordChanged (Inr True) disk]) w'"
proof -
  have last: "\<exists>es disk. steps w (es @ [RecordChanged (Inr True) disk]) w'"
    if quiet: "delivery_logs P q" and q: "q w = (x, w1)" and change: "change_record a operation w1 = (Inr True, w')"
    for P and q :: "unit delivery" and x w1 a operation
  proof -
    obtain es where "steps w es w1" using logs_steps [OF quiet q] by blast
    moreover obtain disk where "steps w1 [RecordChanged (Inr True) disk] w'" using record_change_logged [OF change] by blast
    ultimately show ?thesis using steps_trans by blast
  qed
  show ?thesis
  proof (cases "np_derived_cutout p = None")
    case True
    with assms obtain w1 where "ensure_scope_active (np_scope p) w = (Inr (), w1)"
      and "change_record (np_authority p) (\<lambda>store. pending_delivery_acknowledged store (generation_identity (np_record p))
        (dc_file_id (np_confirmation p))) w1 = (Inr True, w')"
      by (auto simp: after_acknowledgement_def and_then_ok)
    then show ?thesis by (rule last [OF silent_calls(1)])
  next
    case False
    let ?q = "and_then (ensure_scope_active (np_scope p)) (\<lambda>_. and_then (proof_ensure_current p) (\<lambda>_. proof_ensure_index_current p))"
    have quiet: "silent ?q" by (intro logging)
    from False assms obtain w1 where "?q w = (Inr (), w1)"
      and "change_record (np_authority p) (\<lambda>store. settle_acknowledged_cutout_delivery store
        \<lparr>cr_record = np_record p, cr_confirmation = np_confirmation p, cr_remote_path = np_source_path p\<rparr>) w1 = (Inr True, w')"
      by (auto simp: after_acknowledgement_def and_then_ok)
    then show ?thesis by (rule last [OF quiet])
  qed
qed

lemma sent_logged:
  assumes "acknowledge_delivery_scoped ack w = (r, w')"
  shows "\<exists>answer. steps w [AcknowledgementSent ack answer] w' \<and> (is_ok r \<longleftrightarrow> answer = Inr ())"
  using assms
  by (auto simp: acknowledge_delivery_scoped_def access_def steps_def from_api_def Let_def is_ok_def split: sum.splits)

section \<open>The property\<close>

text \<open>
  C5: The service is told at most once that a file has arrived, and only after the whole file was read
  back with the size and the hash the service gave, its path was published in the saved record of this
  very request, and the session was still the current one after that. The call reports success only when
  the service accepted the acknowledgement and the record was settled afterwards.
\<close>

theorem acknowledged_after_saved:
  assumes "acknowledge_namespace_delivery p w = (r, w')" and "dw_log w' = dw_log w @ es"
    and "\<forall>n. slices (dv_chunks (dw_views w n))"
  shows "(list_all (\<lambda>e. \<not> is_acknowledgement e) es \<and> r \<noteq> Inr True) \<or>
    (\<exists>before answer after. es = before @ [AcknowledgementSent (acknowledgement_of p) answer] @ after
      \<and> evidence p before \<and> list_all (\<lambda>e. \<not> is_acknowledgement e) (before @ after)
      \<and> (r = Inr True \<longrightarrow> answer = Inr () \<and> (\<exists>disk. RecordChanged (Inr True) disk \<in> set after)))"
proof -
  obtain x w1 where ready: "ready_to_acknowledge p w = (x, w1)" by (cases "ready_to_acknowledge p w")
  obtain es1 where es1: "steps w es1 w1" "list_all (\<lambda>e. \<not> is_acknowledgement e) es1"
    using logs_steps [OF silent_ready ready] by blast
  show ?thesis
  proof (cases "x = Inr True")
    case False
    with assms(1) ready have "w' = w1" "r \<noteq> Inr True"
      by (auto simp: acknowledge_parts and_then_def result_is_def split: sum.splits)
    with es1 assms(2) show ?thesis by (simp add: steps_def)
  next
    case True
    from ready_evidence [OF ready [unfolded True] assms(3)] es1(1) have "evidence p es1" by (auto simp: steps_def)
    obtain y w2 where sent: "acknowledge_delivery_scoped (acknowledgement_of p) w1 = (y, w2)"
      by (cases "acknowledge_delivery_scoped (acknowledgement_of p) w1")
    obtain answer where es2: "steps w1 [AcknowledgementSent (acknowledgement_of p) answer] w2" "is_ok y \<longleftrightarrow> answer = Inr ()"
      using sent_logged [OF sent] by blast
    from assms(1) ready True sent have run: "and_then (acknowledge_delivery_scoped (acknowledgement_of p)) (\<lambda>_. after_acknowledgement p) w1 = (r, w')"
      by (simp add: acknowledge_parts and_then_def)
    have "\<exists>es3. steps w2 es3 w' \<and> list_all (\<lambda>e. \<not> is_acknowledgement e) es3
      \<and> (r = Inr True \<longrightarrow> answer = Inr () \<and> (\<exists>disk. RecordChanged (Inr True) disk \<in> set es3))"
    proof (cases y)
      case (Inl e)
      with run sent show ?thesis by (auto simp: and_then_def steps_def intro!: exI [of _ "[]"])
    next
      case (Inr u)
      with run sent have rest: "after_acknowledgement p w2 = (r, w')" by (simp add: and_then_def)
      obtain es3 where es3: "steps w2 es3 w'" "list_all (\<lambda>e. \<not> is_acknowledgement e) es3"
        using logs_steps [OF silent_after rest] by blast
      have "\<exists>disk. RecordChanged (Inr True) disk \<in> set es3" if "r = Inr True"
        using settled_record_logged [of p w2 w'] rest that es3(1) by (auto simp: steps_def)
      with es3 es2(2) Inr show ?thesis by auto
    qed
    then obtain es3 where "steps w2 es3 w'" "list_all (\<lambda>e. \<not> is_acknowledgement e) es3"
      "r = Inr True \<longrightarrow> answer = Inr () \<and> (\<exists>disk. RecordChanged (Inr True) disk \<in> set es3)" by blast
    moreover from this(1) es1(1) es2(1) assms(2) have "es = es1 @ [AcknowledgementSent (acknowledgement_of p) answer] @ es3"
      by (simp add: steps_def)
    ultimately show ?thesis using \<open>evidence p es1\<close> es1(2) by auto
  qed
qed

section \<open>A concrete delivery\<close>

definition sample_metadata :: file_metadata where
  "sample_metadata = \<lparr>fm_identity = UnixIdentity 1 1, fm_byte_size = 1, fm_modified_at = 0, fm_link_count = 1\<rparr>"

definition sample_row :: indexed_file where
  "sample_row = \<lparr>if_user_public_id = ''u'', if_key = \<lparr>key_area = Output, key_relative_name = ''f.png''\<rparr>,
    if_physical_identity = UnixIdentity 1 1, if_id = 1, if_kind = ''generation'', if_byte_size = 1, if_managed = True,
    if_retention_policy = ''durable'', if_created_at = 0, if_last_accessed_at = 0, if_pending_delete = False\<rparr>"

definition sample_view :: delivery_view where
  "sample_view = \<lparr>dv_others = (\<lambda>f. f), dv_index_others = (\<lambda>i. i), dv_scope_active = True, dv_admitted = True,
    dv_attempt = (\<lambda>_. quiet_attempt), dv_task = Inl AuthenticationRequired, dv_access = Inr (), dv_present = True,
    dv_metadata = sample_metadata, dv_chunks = [[0]], dv_download = Inr (), dv_row_id = 2, dv_now = 0, dv_answer = Inr ()\<rparr>"

definition sample_proof :: delivery_proof where
  "sample_proof = \<lparr>np_authority = \<lparr>au_parse_uuid = Some, au_lease = witness_recovery_lease, au_sha256 = (\<lambda>_. [])\<rparr>,
    np_scope = \<lparr>scope_owner_user_id = ''u'', scope_auth_epoch = 1\<rparr>, np_record = witness_generation,
    np_confirmation = \<lparr>dc_client_request_id = ''k'', dc_item_index = 0, dc_task_id = ''t'', dc_file_id = ''f'', dc_sha256 = [],
      dc_size_bytes = 1, dc_failed_asset_id = None\<rparr>,
    np_file = \<lparr>key_area = Output, key_relative_name = ''f.png''\<rparr>, np_indexed = sample_row, np_source_path = ''/f.png'',
    np_terminal_success_count = None, np_derived_cutout = None\<rparr>"

definition sample_at :: "nat \<Rightarrow> recovery_file document_disk \<Rightarrow> delivery_event list \<Rightarrow> delivery_world" where
  "sample_at n disk es = \<lparr>dw_views = (\<lambda>_. sample_view), dw_clock = n, dw_disk = disk, dw_index = [sample_row], dw_log = es\<rparr>"

lemma sample_access: "access f (sample_at n disk es) =
    (case f sample_view (sample_at (Suc n) disk es) of (r, event, w') \<Rightarrow> (r, w'\<lparr>dw_log := es @ [event]\<rparr>))"
  by (simp add: access_def others_act_def sample_at_def sample_view_def Let_def)

lemma sample_log [simp]: "(sample_at n disk es)\<lparr>dw_log := es'\<rparr> = sample_at n disk es'"
  "(sample_at n disk es)\<lparr>dw_disk := disk'\<rparr> = sample_at n disk' es" "dw_disk (sample_at n disk es) = disk"
  "dw_index (sample_at n disk es) = [sample_row]"
  by (simp_all add: sample_at_def)

lemmas sample_defs = sample_metadata_def sample_row_def sample_proof_def witness_recovery_lease_def

lemma sample_current:
  "\<exists>es'. proof_ensure_current sample_proof (sample_at n disk es) = (Inr (), sample_at (n + 2) disk es')"
  by (simp add: proof_ensure_current_def and_then_def ask_scope_def inspect_regular_def sample_access sample_view_def
    sample_defs ensure_def for_derived_def result_is_def from_local_def) blast

lemma sample_indexed:
  "\<exists>es'. proof_ensure_index_current sample_proof (sample_at n disk es) = (Inr (), sample_at (n + 1) disk es')"
  by (simp add: proof_ensure_index_current_def and_then_def find_file_by_path_def query_key_def sample_access sample_view_def
    sample_defs ensure_def for_derived_def result_is_def from_local_def) blast

lemma sample_verified:
  "\<exists>es'. verify_namespace_delivery_file (np_authority sample_proof) (np_file sample_proof) (np_confirmation sample_proof) (sample_at n disk es)
    = (Inr (), sample_at (n + 1) disk es')"
  by (simp add: verify_namespace_delivery_file_def sample_access sample_view_def sample_defs verify_chunks_def
    digest_sink_write_def checked_add_def eq_ignore_ascii_case_def Let_def ensure_def from_local_def) blast

lemma sample_derived: "verify_derived sample_proof w = (Inr (), w)"
  by (simp add: verify_derived_def for_derived_def sample_proof_def result_is_def)

lemma sample_store: "store_of (np_authority sample_proof) sample_view = quiet_store"
  by (simp add: store_of_def sample_view_def sample_proof_def quiet_store_def)

lemma sample_loaded: "load_pending_generations quiet_store witness_saved_disk = Inr [witness_generation]"
  by (simp add: load_pending_generations_def recovery_load_def namespace_remap_path_def remap_locations_def witness_generation_def Let_def witness_operation_defs)

lemma sample_load:
  "\<exists>es'. load_exact_delivery_record (np_authority sample_proof) (generation_identity (np_record sample_proof))
      (sample_at n witness_saved_disk es) = (Inr witness_generation, sample_at (n + 1) witness_saved_disk es')"
  by (simp add: load_exact_delivery_record_def sample_access sample_store sample_loaded exact_delivery_record_def from_local_def)
    (simp add: sample_proof_def, blast)

lemma sample_checked: "check_saved_record sample_proof witness_generation w = (Inr (), w)"
  by (simp add: check_saved_record_def and_then_def result_is_def ensure_def from_local_def exact_saved_delivery_def sample_proof_def witness_generation_def)

definition sample_saved :: "recovery_file document_disk" where
  "sample_saved = (let d = witness_generations\<lparr>rf_generations := [update_delivery 0 (\<lambda>d. d\<lparr>pd_local_path := ''/f.png''\<rparr>) witness_generation]\<rparr> in
    \<lparr>dd_file = Some (1, Document d), dd_next_identity = 2, dd_published = [(Some (0, Document witness_generations), d), (None, witness_generations)]\<rparr>)"

lemma sample_pending_saved:
  "pending_delivery_saved quiet_store (generation_identity (np_record sample_proof)) (np_confirmation sample_proof) (np_source_path sample_proof)
    witness_saved_disk = (Inr True, sample_saved)"
  by (simp add: pending_delivery_saved_def save_delivery_def change_row_def exact_index_def record_save_delivery_def delivery_index_def
      update_delivery_def sample_proof_def sample_saved_def
      witness_generation_def numeral_3_eq_3 Let_def witness_operation_defs)
lemma sample_progress:
  "\<exists>es'. save_progress sample_proof (sample_at n witness_saved_disk es) = (Inr True, sample_at (n + 1) sample_saved es')"
  by (simp add: save_progress_def change_record_def and_then_def sample_access sample_store sample_pending_saved from_local_def Let_def)
    (simp add: sample_proof_def result_is_def, blast)

lemma sample_settled:
  "\<exists>disk. pending_delivery_acknowledged quiet_store (generation_identity (np_record sample_proof)) (dc_file_id (np_confirmation sample_proof)) sample_saved
    = (Inr True, disk)"
  by (simp add: pending_delivery_acknowledged_def settle_delivery_def change_row_def exact_index_def record_settle_delivery_def delivery_index_def
      keep_unless_complete_def generation_record_complete_def update_delivery_def settled_def remove_at_def sample_proof_def sample_saved_def
      witness_generation_def numeral_3_eq_3 Let_def witness_operation_defs)

lemma sample_after:
  "\<exists>w'. after_acknowledgement sample_proof (sample_at n sample_saved es) = (Inr True, w')"
proof -
  obtain disk where d: "pending_delivery_acknowledged quiet_store (generation_identity (np_record sample_proof)) (dc_file_id (np_confirmation sample_proof)) sample_saved
    = (Inr True, disk)" using sample_settled by blast
  have "np_derived_cutout sample_proof = None" "dv_scope_active sample_view"
    by (simp_all add: sample_proof_def sample_view_def)
  then show ?thesis
    by (simp add: after_acknowledgement_def and_then_def ask_scope_def ensure_def change_record_def sample_access
      sample_store d from_local_def Let_def)
qed

lemma sample_run:
  "\<exists>w'. acknowledge_namespace_delivery sample_proof (sample_at 0 witness_saved_disk []) = (Inr True, w')"
proof -
  let ?d = witness_saved_disk
  obtain e1 where 1: "proof_ensure_current sample_proof (sample_at 0 ?d []) = (Inr (), sample_at (0 + 2) ?d e1)"
    using sample_current by blast
  obtain e2 where 2: "verify_namespace_delivery_file (np_authority sample_proof) (np_file sample_proof) (np_confirmation sample_proof)
      (sample_at (0 + 2) ?d e1) = (Inr (), sample_at (0 + 2 + 1) ?d e2)"
    using sample_verified by blast
  obtain e3 where 3: "proof_ensure_index_current sample_proof (sample_at (0 + 2 + 1) ?d e2) = (Inr (), sample_at (0 + 2 + 1 + 1) ?d e3)"
    using sample_indexed by blast
  obtain n e4 where 4: "load_exact_delivery_record (np_authority sample_proof) (generation_identity (np_record sample_proof))
      (sample_at (0 + 2 + 1 + 1) ?d e3) = (Inr witness_generation, sample_at n ?d e4)"
    using sample_load by blast
  obtain m e5 where 5: "save_progress sample_proof (sample_at n ?d e4) = (Inr True, sample_at m sample_saved e5)"
    using sample_progress by blast
  obtain k e6 where 6: "proof_ensure_current sample_proof (sample_at m sample_saved e5) = (Inr (), sample_at k sample_saved e6)"
    using sample_current by blast
  obtain l e7 where 7: "proof_ensure_index_current sample_proof (sample_at k sample_saved e6) = (Inr (), sample_at l sample_saved e7)"
    using sample_indexed by blast
  have "ready_to_acknowledge sample_proof (sample_at 0 ?d []) = (Inr True, sample_at l sample_saved e7)"
    using 1 2 3 4 5 6 7 by (simp add: ready_to_acknowledge_def and_then_def sample_derived sample_checked result_is_def)
  moreover have "\<exists>i e8. acknowledge_delivery_scoped (acknowledgement_of sample_proof) (sample_at l sample_saved e7)
      = (Inr (), sample_at i sample_saved e8)"
    by (simp add: acknowledge_delivery_scoped_def sample_access sample_view_def from_api_def, blast)
  ultimately show ?thesis using sample_after by (auto simp: acknowledge_parts and_then_def)
qed

lemma acknowledged_after_saved_witness:
  "\<exists>w' before answer after.
      acknowledge_namespace_delivery sample_proof (sample_at 0 witness_saved_disk []) = (Inr True, w')
    \<and> dw_log w' = before @ [AcknowledgementSent (acknowledgement_of sample_proof) (Inr ())] @ after
    \<and> evidence sample_proof before"
proof -
  obtain w' where run: "acknowledge_namespace_delivery sample_proof (sample_at 0 witness_saved_disk []) = (Inr True, w')"
    using sample_run by blast
  have "dw_log w' = dw_log (sample_at 0 witness_saved_disk []) @ dw_log w'" by (simp add: sample_at_def)
  moreover have "\<forall>n. slices (dv_chunks (dw_views (sample_at 0 witness_saved_disk []) n))"
    by (simp add: sample_at_def sample_view_def slices_def)
  ultimately show ?thesis using acknowledged_after_saved [OF run] run by blast
qed

end
