(* ===== verification/Delivery_Prepared.thy ===== *)
theory Delivery_Prepared
  imports Delivery_Properties
begin

text \<open>
  The registration of a file in the index (\<open>native-client/src/runtime/storage/file_index.rs\<close>) and what a
  prepared delivery stands for (\<open>prepare_namespace_delivery_proof\<close> of
  \<open>native-client/src/runtime/generation/delivery_retry.rs\<close>).
\<close>

section \<open>The rows of the index\<close>

text \<open>The keys of the table: the primary key and its two unique constraints.\<close>

definition index_keys_unique :: "indexed_file list \<Rightarrow> bool" where
  "index_keys_unique rows =
    (distinct (map if_id rows) \<and> distinct (map (\<lambda>r. (if_user_public_id r, if_key r)) rows)
     \<and> distinct (map (\<lambda>r. (if_user_public_id r, if_physical_identity r)) rows))"

lemma query_key_Some:
  "query_key rows user key = Some row \<Longrightarrow> row \<in> set rows \<and> if_user_public_id row = user \<and> if_key row = key"
  by (auto simp: query_key_def find_Some_iff)

lemma query_key_None: "query_key rows user key = None \<longleftrightarrow> (\<forall>r \<in> set rows. \<not> (if_user_public_id r = user \<and> if_key r = key))"
  by (auto simp: query_key_def find_None_iff)

lemma query_identity_None:
  "query_identity rows user i = None \<longleftrightarrow> (\<forall>r \<in> set rows. \<not> (if_user_public_id r = user \<and> if_physical_identity r = i))"
  by (auto simp: query_identity_def find_None_iff)

lemma find_map:
  assumes "\<And>x. P (f x) = P x"
  shows "List.find P (map f xs) = map_option f (List.find P xs)"
  by (induction xs) (simp_all add: assms)

lemma find_append: "List.find P (xs @ ys) = (case List.find P xs of None \<Rightarrow> List.find P ys | Some x \<Rightarrow> Some x)"
  by (induction xs) simp_all

abbreviation refresh_row :: "string \<Rightarrow> u64 \<Rightarrow> file_metadata \<Rightarrow> indexed_file \<Rightarrow> indexed_file" where
  "refresh_row user i metadata r \<equiv> (if same_row user i r
     then r\<lparr>if_physical_identity := fm_identity metadata, if_byte_size := fm_byte_size metadata\<rparr> else r)"

text \<open>What a successful transaction did: it left the row alone, refreshed it, or added it.\<close>

lemma reconcile_rows_cases:
  assumes "reconcile_rows user key expected before i now metadata rows = Inr (row, rows')"
  obtains (kept) "query_key rows user key = Some row" "rows' = rows"
      "if_physical_identity row = fm_identity metadata" "if_byte_size row = fm_byte_size metadata"
    | (refreshed) old where "query_key rows user key = Some old" "row = refresh_row user (if_id old) metadata old"
      "rows' = map (refresh_row user (if_id old) metadata) rows"
      "\<forall>r \<in> set rows. if_user_public_id r = user \<and> if_physical_identity r = fm_identity metadata \<longrightarrow>
        (\<exists>q. query_identity rows user (fm_identity metadata) = Some q \<and> if_id q = if_id old)"
    | (added) "query_key rows user key = None" "rows' = rows @ [row]" "query_identity rows user (fm_identity metadata) = None"
      "if_user_public_id row = user" "if_key row = key" "if_id row = i"
      "if_physical_identity row = fm_identity metadata" "if_byte_size row = fm_byte_size metadata"
proof (cases "query_key rows user key")
  case None
  then show ?thesis
    using assms by (intro added) (auto simp: reconcile_rows_def Let_def query_key_def find_append split: if_splits option.splits)
next
  case (Some old)
  show ?thesis
  proof (cases "if_physical_identity old = fm_identity metadata \<and> if_byte_size old = fm_byte_size metadata")
    case True
    then show ?thesis
      using assms Some by (intro kept) (auto simp: reconcile_rows_def Let_def split: if_splits option.splits)
  next
    case False
    let ?f = "refresh_row user (if_id old) metadata"
    have found: "query_key (map ?f rows) user key = Some (?f old)"
      using Some unfolding query_key_def by (subst find_map) simp_all
    have "row = ?f old" "rows' = map ?f rows"
      using assms Some False found by (auto simp: reconcile_rows_def Let_def split: if_splits option.splits)
    moreover have "\<forall>r \<in> set rows. if_user_public_id r = user \<and> if_physical_identity r = fm_identity metadata \<longrightarrow>
        (\<exists>q. query_identity rows user (fm_identity metadata) = Some q \<and> if_id q = if_id old)"
    proof (intro ballI impI)
      fix r
      assume "r \<in> set rows" "if_user_public_id r = user \<and> if_physical_identity r = fm_identity metadata"
      then obtain q where q: "query_identity rows user (fm_identity metadata) = Some q"
        using query_identity_None [of rows user "fm_identity metadata"] by (cases "query_identity rows user (fm_identity metadata)") auto
      then show "\<exists>q. query_identity rows user (fm_identity metadata) = Some q \<and> if_id q = if_id old"
        using assms Some by (auto simp: reconcile_rows_def Let_def split: if_splits option.splits)
    qed
    ultimately show ?thesis using Some by (intro refreshed)
  qed
qed

lemma reconcile_rows_checked:
  assumes "reconcile_rows user key expected before i now metadata rows = Inr (row, rows')"
  shows "metadata = expected \<and> fm_link_count expected = 1 \<and> unat (fm_byte_size expected) < 2 ^ 63"
  using assms by (auto simp: reconcile_rows_def Let_def split: if_splits)

lemma reconciled_row:
  assumes "reconcile_rows user key expected before i now metadata rows = Inr (row, rows')"
  shows "row \<in> set rows' \<and> if_user_public_id row = user \<and> if_key row = key
    \<and> if_physical_identity row = fm_identity expected \<and> if_byte_size row = fm_byte_size expected"
  using assms
proof (cases rule: reconcile_rows_cases)
  case kept
  then show ?thesis using query_key_Some [OF kept(1)] reconcile_rows_checked [OF assms] by simp
next
  case (refreshed old)
  note old = query_key_Some [OF refreshed(1)]
  then have "row = old\<lparr>if_physical_identity := fm_identity metadata, if_byte_size := fm_byte_size metadata\<rparr>"
    using refreshed(2) by (simp add: same_row_def)
  moreover have "row \<in> set rows'"
    unfolding refreshed(2,3) set_map using old by (intro imageI) simp
  ultimately show ?thesis using old reconcile_rows_checked [OF assms] by simp
next
  case added
  then show ?thesis using reconcile_rows_checked [OF assms] by simp
qed

text \<open>
  C31: Registering a verified file keeps the primary key and the unique constraints of the index: the row of
  the key carries the identity and the size of the file, which fits the integer column, no other row of the
  user has that identity, and the rows of other keys are left alone.
\<close>

theorem reconcile_keeps_keys_unique:
  assumes "index_keys_unique rows" and "i \<notin> if_id ` set rows"
    and "reconcile_rows user key expected before i now metadata rows = Inr (row, rows')"
  shows "index_keys_unique rows' \<and> row \<in> set rows' \<and> if_user_public_id row = user \<and> if_key row = key
    \<and> if_physical_identity row = fm_identity expected \<and> if_byte_size row = fm_byte_size expected
    \<and> unat (fm_byte_size expected) < 2 ^ 63
    \<and> (\<forall>r. if_key r \<noteq> key \<or> if_user_public_id r \<noteq> user \<longrightarrow> r \<in> set rows' \<longleftrightarrow> r \<in> set rows)"
proof -
  have "index_keys_unique rows' \<and> (\<forall>r. if_key r \<noteq> key \<or> if_user_public_id r \<noteq> user \<longrightarrow> r \<in> set rows' \<longleftrightarrow> r \<in> set rows)"
    using assms(3)
  proof (cases rule: reconcile_rows_cases)
    case kept
    then show ?thesis using assms(1) by simp
  next
    case added
    have "(user, key) \<notin> (\<lambda>r. (if_user_public_id r, if_key r)) ` set rows"
      using added(1) by (auto simp: query_key_None)
    moreover have "(user, fm_identity metadata) \<notin> (\<lambda>r. (if_user_public_id r, if_physical_identity r)) ` set rows"
      using added(3) by (auto simp: query_identity_None)
    ultimately show ?thesis using assms(1,2) added by (auto simp: index_keys_unique_def)
  next
    case (refreshed old)
    let ?f = "refresh_row user (if_id old) metadata"
    note old = query_key_Some [OF refreshed(1)]
    have only: "r = old" if "r \<in> set rows" "same_row user (if_id old) r" for r
      using assms(1) that old by (auto simp: index_keys_unique_def same_row_def distinct_map inj_on_def)
    have fixed: "?f r = r" if "r \<in> set rows" "r \<noteq> old" for r using only that by auto
    have ids: "map if_id (map ?f rows) = map if_id rows"
      "map (\<lambda>r. (if_user_public_id r, if_key r)) (map ?f rows) = map (\<lambda>r. (if_user_public_id r, if_key r)) rows"
      by simp_all
    have free: "r = old" if "r \<in> set rows" "if_user_public_id r = user" "if_physical_identity r = fm_identity metadata" for r
    proof -
      from refreshed(4) that obtain q where q: "query_identity rows user (fm_identity metadata) = Some q" "if_id q = if_id old"
        by blast
      then have "q \<in> set rows" "if_user_public_id q = user" "if_physical_identity q = fm_identity metadata"
        by (auto simp: query_identity_def find_Some_iff)
      with that assms(1) have "q = r" by (auto simp: index_keys_unique_def distinct_map inj_on_def)
      with q(2) that only show ?thesis by (simp add: same_row_def)
    qed
    have f_old: "if_user_public_id (?f old) = user" "if_physical_identity (?f old) = fm_identity metadata"
      using old by (simp_all add: same_row_def)
    have old_only: "r = old"
      if "r \<in> set rows" "if_user_public_id (?f r) = user" "if_physical_identity (?f r) = fm_identity metadata" for r
    proof (rule ccontr)
      assume "r \<noteq> old"
      with fixed [OF that(1)] that free show False by simp
    qed
    have "inj_on (\<lambda>r. (if_user_public_id (?f r), if_physical_identity (?f r))) (set rows)"
    proof (rule inj_onI)
      fix x y
      assume xy: "x \<in> set rows" "y \<in> set rows"
        "(if_user_public_id (?f x), if_physical_identity (?f x)) = (if_user_public_id (?f y), if_physical_identity (?f y))"
      have eqs: "if_user_public_id (?f x) = if_user_public_id (?f y)" "if_physical_identity (?f x) = if_physical_identity (?f y)"
        using xy(3) by (simp_all only: prod.inject)
      consider "x = old" | "y = old" | "x \<noteq> old" "y \<noteq> old" by blast
      then show "x = y"
      proof cases
        case 1
        with eqs f_old have "if_user_public_id (?f y) = user" "if_physical_identity (?f y) = fm_identity metadata" by (simp_all only:)
        with old_only [OF xy(2)] 1 show ?thesis by blast
      next
        case 2
        with eqs f_old have "if_user_public_id (?f x) = user" "if_physical_identity (?f x) = fm_identity metadata" by (simp_all only:)
        with old_only [OF xy(1)] 2 show ?thesis by blast
      next
        case 3
        with eqs fixed [OF xy(1)] fixed [OF xy(2)]
        have "if_user_public_id x = if_user_public_id y" "if_physical_identity x = if_physical_identity y" by simp_all
        with xy(1,2) assms(1) show ?thesis by (auto simp: index_keys_unique_def distinct_map inj_on_def)
      qed
    qed
    moreover have "distinct rows" using assms(1) by (simp add: index_keys_unique_def distinct_map)
    ultimately have "distinct (map (\<lambda>r. (if_user_public_id r, if_physical_identity r)) (map ?f rows))"
      by (simp only: map_map distinct_map comp_def simp_thms)
    with ids assms(1) refreshed(3) have "index_keys_unique rows'"
      by (simp only: index_keys_unique_def)
    moreover have "r \<in> set rows' \<longleftrightarrow> r \<in> set rows" if "if_key r \<noteq> key \<or> if_user_public_id r \<noteq> user" for r
    proof
      assume "r \<in> set rows'"
      then obtain x where x: "x \<in> set rows" "r = ?f x" using refreshed(3) by auto
      with that old have "x \<noteq> old" by (auto split: if_splits)
      with x fixed show "r \<in> set rows" by simp
    next
      assume r: "r \<in> set rows"
      with that old have "r \<noteq> old" by auto
      have "?f r \<in> set rows'" unfolding refreshed(3) set_map using r by (rule imageI)
      with fixed [OF r \<open>r \<noteq> old\<close>] show "r \<in> set rows'" by (simp only:)
    qed
    ultimately show ?thesis by blast
  qed
  with reconciled_row [OF assms(3)] reconcile_rows_checked [OF assms(3)] show ?thesis by blast
qed

definition moved_metadata :: file_metadata where
  "moved_metadata = \<lparr>fm_identity = UnixIdentity 1 2, fm_byte_size = 7, fm_modified_at = 0, fm_link_count = 1\<rparr>"

theorem reconcile_keeps_keys_unique_witness:
  "\<exists>row rows'. reconcile_rows ''u'' (if_key sample_row) moved_metadata (Some sample_row) 2 0 moved_metadata [sample_row] = Inr (row, rows')
    \<and> index_keys_unique rows' \<and> if_physical_identity row = UnixIdentity 1 2"
proof -
  have u: "index_keys_unique [sample_row]" "2 \<notin> if_id ` set [sample_row]"
    by (simp_all add: index_keys_unique_def sample_row_def)
  have "\<exists>row rows'. reconcile_rows ''u'' (if_key sample_row) moved_metadata (Some sample_row) 2 0 moved_metadata [sample_row] = Inr (row, rows')"
    by (simp add: reconcile_rows_def query_key_def query_identity_def same_row_def sample_row_def moved_metadata_def Let_def)
  then obtain row rows' where r: "reconcile_rows ''u'' (if_key sample_row) moved_metadata (Some sample_row) 2 0 moved_metadata [sample_row] = Inr (row, rows')"
    by blast
  from reconcile_keeps_keys_unique [OF u r] r show ?thesis by (auto simp: moved_metadata_def)
qed

section \<open>A registered file\<close>

lemma silent_require_current [logging]: "silent (require_current c)"
  unfolding require_current_def require_current_derived_def Let_def by (intro logging)

lemma silent_fetching [logging]:
  "silent (prepare_preview kind key)" "silent (clear_stale_path a i c path r)" "silent (obtain_file a kind scope key c)"
  unfolding prepare_preview_def clear_stale_path_def obtain_file_def download_into_def use_existing_def
  by (intro logging)+

lemma current_size:
  assumes "require_current c w = (Inr u, w')" and "vc_derived c = None"
  shows "fm_byte_size (vc_metadata c) = dc_size_bytes (vc_confirmation c)"
  using assms by (auto simp: require_current_def Let_def and_then_ok)

lemma transaction_logged:
  assumes "reconcile_transaction a key m before w = (Inr row, w')"
  shows "steps w [IndexWritten key (Inr row)] w' \<and> if_user_public_id row = au_user a \<and> if_key row = key
    \<and> if_physical_identity row = fm_identity m \<and> if_byte_size row = fm_byte_size m"
proof -
  let ?v = "dw_views w (dw_clock w)"
  have "\<exists>rows'. reconcile_rows (au_user a) key m before (dv_row_id ?v) (dv_now ?v) (dv_metadata ?v) (dw_index (others_act w)) = Inr (row, rows')"
    and step: "steps w [IndexWritten key (Inr row)] w'"
    using assms unfolding reconcile_transaction_def
    by (elim access_ok, auto simp: Let_def steps_def bind_result_def split: sum.splits)+
  then show ?thesis using reconciled_row step by blast
qed

lemma reconciled_logged:
  assumes "reconcile_verified_delivery_content c w = (Inr row, w')" and "vc_derived c = None"
  shows "\<exists>es. steps w (es @ [IndexWritten (vc_file c) (Inr row)]) w' \<and> if_user_public_id row = au_user (vc_authority c)
    \<and> if_key row = vc_file c \<and> if_physical_identity row = fm_identity (vc_metadata c)
    \<and> if_byte_size row = dc_size_bytes (vc_confirmation c)"
proof -
  from assms(1) obtain w1 w2 before w3 where 1: "require_current c w = (Inr (), w1)"
    and 2: "query_index (vc_authority c) (vc_file c) w1 = (Inr before, w2)" and 3: "require_current c w2 = (Inr (), w3)"
    and 4: "reconcile_transaction (vc_authority c) (vc_file c) (vc_metadata c) before w3 = (Inr row, w')"
    by (auto simp: reconcile_verified_delivery_content_def and_then_ok)
  obtain e1 where e1: "steps w e1 w1" using logs_steps [OF silent_require_current 1] by blast
  obtain e2 where e2: "steps w1 e2 w2" using logs_steps [OF silent_calls(12) 2] by blast
  obtain e3 where e3: "steps w2 e3 w3" using logs_steps [OF silent_require_current 3] by blast
  note e4 = transaction_logged [OF 4]
  have "steps w ((e1 @ e2 @ e3) @ [IndexWritten (vc_file c) (Inr row)]) w'" using e1 e2 e3 e4 by (simp add: steps_def)
  moreover have "fm_byte_size (vc_metadata c) = dc_size_bytes (vc_confirmation c)" by (rule current_size [OF 1 assms(2)])
  ultimately show ?thesis using e4 by metis
qed

definition registered :: "authority \<Rightarrow> managed_file_key \<Rightarrow> delivery_confirmation \<Rightarrow> indexed_file \<Rightarrow> delivery_event list \<Rightarrow> bool" where
  "registered a key c row es =
    (\<exists>es1 bytes es2. es = es1 @ FileRead key bytes (Inr ()) # es2 @ [IndexWritten key (Inr row)]
      \<and> content_matches (au_sha256 a) (dc_size_bytes c) (dc_sha256 c) bytes
      \<and> if_user_public_id row = au_user a \<and> if_key row = key \<and> if_byte_size row = dc_size_bytes c)"

lemma register_file_logged:
  assumes "register_file a scope r c path key count w = (Inr row, w')" and "\<forall>n. slices (dv_chunks (dw_views w n))"
  shows "\<exists>es. steps w es w' \<and> registered a key c row es"
proof -
  let ?before = "and_then (ensure_scope_active scope) (\<lambda>_. and_then (inspect_regular key) (\<lambda>retained.
    and_then (access_file key) (\<lambda>_. and_then (inspect_regular key) (\<lambda>before_hash.
    and_then (require (before_hash = retained \<and> fm_link_count before_hash = 1) ''delivery changed before index registration'')
      (\<lambda>_. result_is (Inr before_hash))))))"
  have quiet: "silent ?before" by (intro logging)
  let ?content = "\<lambda>metadata. \<lparr>vc_authority = a, vc_scope = scope, vc_record = r, vc_confirmation = c, vc_source_path = path,
    vc_file = key, vc_metadata = metadata, vc_terminal_success_count = count, vc_derived = None\<rparr>"
  from assms(1) obtain before_hash w1 w2 metadata w3 w4 where 1: "?before w = (Inr before_hash, w1)"
    and 2: "verify_namespace_delivery_file a key c w1 = (Inr (), w2)" and 3: "inspect_regular key w2 = (Inr metadata, w3)"
    and 4: "begin_ordinary_mutation key w3 = (Inr (), w4)"
    and 5: "reconcile_verified_delivery_content (?content metadata) w4 = (Inr row, w')"
    by (auto simp: register_file_def and_then_ok)
  obtain e1 where e1: "steps w e1 w1" using logs_steps [OF quiet 1] by blast
  have "dw_views w1 = dw_views w" using logsE [OF quiet 1] by blast
  with verified_content_logged [OF 2] assms(2) obtain bytes where e2: "steps w1 [FileRead key bytes (Inr ())] w2"
    and bytes: "content_matches (au_sha256 a) (dc_size_bytes c) (dc_sha256 c) bytes"
    using verify_chunks_ok by metis
  obtain e3 where e3: "steps w2 e3 w3" using logs_steps [OF silent_calls(7) 3] by blast
  obtain e4 where e4: "steps w3 e4 w4" using logs_steps [OF silent_calls(8) 4] by blast
  from reconciled_logged [OF 5] obtain e5 where e5: "steps w4 (e5 @ [IndexWritten key (Inr row)]) w'"
    and row: "if_user_public_id row = au_user a" "if_key row = key" "if_byte_size row = dc_size_bytes c" by auto
  have "steps w (e1 @ FileRead key bytes (Inr ()) # (e3 @ e4 @ e5) @ [IndexWritten key (Inr row)]) w'"
    using e1 e2 e3 e4 e5 by (simp add: steps_def)
  with bytes row show ?thesis unfolding registered_def by blast
qed

section \<open>A prepared delivery\<close>

text \<open>The answer of the service names the file, for the task and the payer of the record.\<close>

definition named_by_service :: "recovery_identity \<Rightarrow> delivery_confirmation \<Rightarrow> generation_task_detail \<Rightarrow> bool" where
  "named_by_service expected c detail =
    (td_id detail = dc_task_id c \<and> td_billing_account_group_id detail = ri_billing_account_group_id expected
     \<and> (\<exists>item v. item \<in> set (td_items detail) \<and> ti_index item = dc_item_index c \<and> ti_status item = ''succeeded''
         \<and> ti_file item = Some v \<and> tf_status v = ''available'' \<and> tf_id v = dc_file_id c \<and> tf_sha256 v = dc_sha256 c
         \<and> tf_size_bytes v = show_decimal (unat (dc_size_bytes c)) \<and> 0 < dc_size_bytes c))"

lemma exact_record:
  assumes "exact_delivery_record expected records = Inr r"
  shows "r \<in> set records \<and> generation_identity r = expected"
proof -
  have "filter (\<lambda>r. generation_identity r = expected) records = [r]"
    using assms by (auto simp: exact_delivery_record_def split: list.splits)
  then have "set (filter (\<lambda>r. generation_identity r = expected) records) = {r}" by simp
  then show ?thesis by auto
qed

lemma loaded_record:
  assumes "load_exact_delivery_record a expected w = (Inr r, w')"
  shows "generation_identity r = expected"
  using assms unfolding load_exact_delivery_record_def
  by (elim access_ok) (auto simp: Let_def bind_result_def dest: exact_record split: sum.splits)

lemma delivery_size_ok:
  assumes "delivery_size v = Inr n"
  shows "tf_size_bytes v = show_decimal (unat n) \<and> 0 < n"
proof -
  from assms obtain k where k: "parse_unsigned (2 ^ 64) (tf_size_bytes v) = Some k" "0 < k"
    "show_decimal k = tf_size_bytes v" "n = of_nat k"
    by (auto simp: delivery_size_def split: option.splits if_splits)
  then have "k < 2 ^ 64" by (auto simp: parse_unsigned_def Let_def split: if_splits)
  with k(4) have "unat n = k" by (simp add: unat_of_nat)
  with k show ?thesis by (auto simp: word_less_nat_alt)
qed

lemma confirmation_fields:
  assumes "delivery_confirmation_of parse i r v = Inr c"
  shows "dc_client_request_id c = pg_client_request_id r \<and> dc_item_index c = i \<and> dc_task_id c = pg_server_task_id r
    \<and> dc_file_id c = tf_id v \<and> dc_sha256 c = tf_sha256 v \<and> tf_size_bytes v = show_decimal (unat (dc_size_bytes c))
    \<and> 0 < dc_size_bytes c"
  using assms
  by (auto simp: delivery_confirmation_of_def Let_def bind_result_def dest: delivery_size_ok split: sum.splits option.splits)

lemma remote_fields:
  assumes "delivery_remote i detail = Inr v"
  shows "\<exists>item \<in> set (td_items detail). ti_index item = i \<and> ti_status item = ''succeeded'' \<and> ti_file item = Some v \<and> tf_status v = ''available''"
  using assms by (auto simp: delivery_remote_def find_Some_iff split: option.splits if_splits)

lemma cleared_record:
  assumes "clear_stale_path a expected c path r w = (Inr r', w')"
  shows "generation_identity r' = generation_identity r \<and> pg_server_task_id r' = pg_server_task_id r \<and> pg_count r' = pg_count r"
  using assms
  by (auto simp: clear_stale_path_def and_then_ok generation_identity_def split: if_splits)

lemma detail_checked:
  assumes "check_delivery_detail r detail = Inr u"
  shows "td_id detail = pg_server_task_id r \<and> td_billing_account_group_id detail = pg_billing_account_group_id r"
  using assms by (auto simp: check_delivery_detail_def bind_result_def require_saved_group_def split: sum.splits if_splits)

lemma destination_area:
  assumes "delivery_destination kind v = Inr key"
  shows "key_area key = (if kind = VideoDelivery then Videos else Output)"
  using assms
  by (auto simp: delivery_destination_def managed_file_key_new_def bind_result_def Let_def split: sum.splits option.splits if_splits)

lemma task_logged:
  assumes "task_scoped w = (Inr detail, w')"
  shows "steps w [TaskAnswered (Inr detail)] w'"
  using assms unfolding task_scoped_def by (elim access_ok) (auto simp: steps_def)

text \<open>
  C6: A prepared delivery is the file the service named for this item of this task, which the saved payer
  paid for: it is in the area of its kind, its whole content was read from the destination with the size
  and the hash of the service's answer, and after that it was registered under the user's own key with
  that size.
\<close>

theorem prepared_delivery_is_verified:
  assumes "prepare_namespace_delivery_proof a kind expected i w = (Inr p, w')" and "dw_log w' = dw_log w @ es"
    and "\<forall>n. slices (dv_chunks (dw_views w n))"
  shows "np_authority p = a \<and> np_scope p = authority_scope a \<and> generation_identity (np_record p) = expected
    \<and> dc_item_index (np_confirmation p) = i \<and> dc_client_request_id (np_confirmation p) = ri_client_request_id expected
    \<and> key_area (np_file p) = (if kind = VideoDelivery then Videos else Output)
    \<and> np_source_path p = key_path (au_namespace a) (np_file p)
    \<and> (\<exists>es1 detail es2 es3 es4. es = es1 @ TaskAnswered (Inr detail) # es2 @ es3 @ es4
        \<and> named_by_service expected (np_confirmation p) detail
        \<and> registered a (np_file p) (np_confirmation p) (np_indexed p) es3)"
proof -
  let ?scope = "authority_scope a" and ?uuid = "au_parse_uuid a"
  from assms(1) obtain w1 r w2 detail w3 remote c key r' w4 w5 row w6 count
    where 1: "ensure_scope_active ?scope w = (Inr (), w1)"
      and 2: "load_exact_delivery_record a expected w1 = (Inr r, w2)"
      and 3: "task_scoped w2 = (Inr detail, w3)" and detail: "check_delivery_detail r detail = Inr ()"
      and remote: "delivery_remote i detail = Inr remote" and c: "delivery_confirmation_of ?uuid i r remote = Inr c"
      and key: "delivery_destination kind remote = Inr key"
      and 4: "clear_stale_path a expected c (key_path (au_namespace a) key) r w3 = (Inr r', w4)"
      and 5: "obtain_file a kind ?scope key c w4 = (Inr (), w5)"
      and 6: "register_file a ?scope r' c (key_path (au_namespace a) key) key count w5 = (Inr row, w6)"
      and p: "p = \<lparr>np_authority = a, np_scope = ?scope, np_record = r', np_confirmation = c, np_file = key,
        np_indexed = row, np_source_path = key_path (au_namespace a) key, np_terminal_success_count = count, np_derived_cutout = None\<rparr>"
      and 7: "proof_ensure_current p w6 = (Inr (), w')"
    unfolding prepare_namespace_delivery_proof_def Let_def and_then_ok result_is_ok by auto
  note c' = confirmation_fields [OF c] and r = loaded_record [OF 2] and detail' = detail_checked [OF detail]
  have fields: "pg_client_request_id r = ri_client_request_id expected"
    "pg_billing_account_group_id r = ri_billing_account_group_id expected"
    using r by (auto simp: generation_identity_def)
  have "named_by_service expected c detail"
    using remote_fields [OF remote] c' detail' fields unfolding named_by_service_def by auto
  moreover obtain e1 where e1: "steps w e1 w1" using logs_steps [OF silent_calls(1) 1] by blast
  obtain e2 where e2: "steps w1 e2 w2" using logs_steps [OF silent_calls(2) 2] by blast
  have e3: "steps w2 [TaskAnswered (Inr detail)] w3" by (rule task_logged [OF 3])
  obtain e4 where e4: "steps w3 e4 w4" using logs_steps [OF silent_fetching(2) 4] by blast
  obtain e5 where e5: "steps w4 e5 w5" using logs_steps [OF silent_fetching(3) 5] by blast
  have "dw_views w5 = dw_views w"
    using logsE [OF silent_calls(1) 1] logsE [OF silent_calls(2) 2] logsE [OF silent_calls(4) 3]
      logsE [OF silent_fetching(2) 4] logsE [OF silent_fetching(3) 5] by metis
  with register_file_logged [OF 6] assms(3) obtain e6 where e6: "steps w5 e6 w6" "registered a key c row e6" by auto
  obtain e7 where e7: "steps w6 e7 w'" using logs_steps [OF silent_proof_checks(1) 7] by blast
  have "es = (e1 @ e2) @ TaskAnswered (Inr detail) # (e4 @ e5) @ e6 @ e7"
    using e1 e2 e3 e4 e5 e6(1) e7 assms(2) by (simp add: steps_def)
  ultimately have "\<exists>es1 detail es2 es3 es4. es = es1 @ TaskAnswered (Inr detail) # es2 @ es3 @ es4
      \<and> named_by_service expected c detail \<and> registered a key c row es3"
    using e6(2) by blast
  with p c' fields r cleared_record [OF 4] destination_area [OF key] show ?thesis by simp
qed

end
