(* ===== verification/Delivery_Sample.thy ===== *)
theory Delivery_Sample
  imports Delivery_Prepared
begin

text \<open>
  A concrete preparation of a delivery (\<open>native-client/src/runtime/generation/delivery_retry.rs\<close>) on which the
  property of prepared deliveries is applied: the record has no delivery yet, the file is in its place
  already and not yet in the index.
\<close>

definition fresh_generation :: pending_generation where
  "fresh_generation = witness_generation\<lparr>pg_deliveries := []\<rparr>"

definition fresh_disk :: "recovery_file document_disk" where
  "fresh_disk = \<lparr>dd_file = Some (0, Document (witness_generations\<lparr>rf_generations := [fresh_generation]\<rparr>)), dd_next_identity = 1,
    dd_published = []\<rparr>"

definition sample_hash :: string where
  "sample_hash = replicate 64 CHR ''0''"

definition sample_file :: task_output_file where
  "sample_file = \<lparr>tf_id = ''f'', tf_status = ''available'', tf_mime_type = ''image/png'', tf_size_bytes = ''1'',
    tf_sha256 = sample_hash, tf_width = None, tf_height = None, tf_download_url = None\<rparr>"

definition sample_detail :: generation_task_detail where
  "sample_detail = \<lparr>td_id = ''t'', td_billing_account_group_id = ''g'', td_status = ''completed'', td_progress_percent = 100,
    td_success_count = 1, td_failure_count = 0, td_failure = None, td_prompt = None, td_result_prompt = None, td_request = JNull,
    td_model = None, td_quality = [], td_requested_count = 1, td_task_type = ''image_generation'',
    td_items = [\<lparr>ti_index = 0, ti_status = ''succeeded'', ti_credit_cost = ''1'', ti_failure = None, ti_file = Some sample_file\<rparr>]\<rparr>"

definition answering_view :: delivery_view where
  "answering_view = sample_view\<lparr>dv_task := Inr sample_detail\<rparr>"

definition sample_authority :: authority where
  "sample_authority = \<lparr>au_parse_uuid = Some, au_lease = witness_recovery_lease, au_sha256 = (\<lambda>_. sample_hash)\<rparr>"

definition prepared_at :: "nat \<Rightarrow> indexed_file list \<Rightarrow> delivery_event list \<Rightarrow> delivery_world" where
  "prepared_at n rows es = \<lparr>dw_views = (\<lambda>_. answering_view), dw_clock = n, dw_disk = fresh_disk, dw_index = rows, dw_log = es\<rparr>"

lemma prepared_access: "access f (prepared_at n rows es) =
    (case f answering_view (prepared_at (Suc n) rows es) of (r, event, w') \<Rightarrow> (r, w'\<lparr>dw_log := es @ [event]\<rparr>))"
  by (simp add: access_def others_act_def prepared_at_def answering_view_def sample_view_def Let_def)

lemma prepared_log [simp]: "(prepared_at n rows es)\<lparr>dw_log := es'\<rparr> = prepared_at n rows es'"
  "(prepared_at n rows es)\<lparr>dw_index := rows'\<rparr> = prepared_at n rows' es" "dw_disk (prepared_at n rows es) = fresh_disk"
  "dw_index (prepared_at n rows es) = rows"
  by (simp_all add: prepared_at_def)

lemma answering [simp]: "dv_scope_active answering_view" "dv_admitted answering_view" "dv_task answering_view = Inr sample_detail"
  "dv_access answering_view = Inr ()" "dv_present answering_view" "dv_metadata answering_view = sample_metadata"
  "dv_chunks answering_view = [[0]]" "store_of sample_authority answering_view = quiet_store"
  by (simp_all add: answering_view_def sample_view_def sample_authority_def store_of_def quiet_store_def)

lemma fresh_loaded: "load_pending_generations quiet_store fresh_disk = Inr [fresh_generation]"
  by (simp add: load_pending_generations_def recovery_load_def namespace_remap_path_def remap_locations_def fresh_disk_def fresh_generation_def
    witness_generation_def Let_def witness_operation_defs)

definition sample_key :: managed_file_key where
  "sample_key = \<lparr>key_area = Output, key_relative_name = ''f.png''\<rparr>"

lemma sample_key_new: "managed_file_key_new Output ''f.png'' = Inr sample_key"
  by code_simp

definition sample_confirmation :: delivery_confirmation where
  "sample_confirmation = \<lparr>dc_client_request_id = ''k'', dc_item_index = 0, dc_task_id = ''t'', dc_file_id = ''f'',
    dc_sha256 = sample_hash, dc_size_bytes = 1, dc_failed_asset_id = None\<rparr>"

lemma hash_ok: "is_sha256_hex sample_hash"
  by (simp add: is_sha256_hex_def sample_hash_def is_ascii_hexdigit_def is_ascii_digit_def list_all_def)

lemma size_ok: "delivery_size sample_file = Inr 1"
proof -
  have "show_decimal 1 = ''1''" by code_simp
  then show ?thesis
    by (simp add: delivery_size_def sample_file_def parse_unsigned_def digits_value_def is_ascii_digit_def Let_def)
qed

lemma plan_ok:
  "check_delivery_record (au_parse_uuid sample_authority) ImageDelivery (authority_scope sample_authority) 0 fresh_generation = Inr ()"
  "check_delivery_detail fresh_generation sample_detail = Inr ()"
  "delivery_remote 0 sample_detail = Inr sample_file"
  "delivery_confirmation_of (au_parse_uuid sample_authority) 0 fresh_generation sample_file = Inr sample_confirmation"
  "delivery_destination ImageDelivery sample_file = Inr sample_key"
  "exact_saved_delivery fresh_generation sample_confirmation = Inr None"
  subgoal by (simp add: check_delivery_record_def sample_authority_def authority_scope_def witness_recovery_lease_def fresh_generation_def
      witness_generation_def kind_accepts_def ordinary_image_types_def ensure_def require_delivery_uuid_def uuid_path_segment_def)
  subgoal by (simp add: check_delivery_detail_def sample_detail_def fresh_generation_def witness_generation_def ensure_def
      from_api_def require_saved_group_def successes_def)
  subgoal by (simp add: delivery_remote_def sample_detail_def sample_file_def)
  subgoal using size_ok hash_ok by (simp add: delivery_confirmation_of_def require_delivery_uuid_def uuid_path_segment_def sample_authority_def ensure_def
      sample_file_def sample_confirmation_def exact_saved_delivery_def fresh_generation_def witness_generation_def from_local_def Let_def)
  subgoal using sample_key_new by (simp add: delivery_destination_def sample_file_def delivery_extension_def ensure_def)
  subgoal by (simp add: exact_saved_delivery_def fresh_generation_def)
  done

definition sample_content :: verified_content where
  "sample_content = \<lparr>vc_authority = sample_authority, vc_scope = authority_scope sample_authority, vc_record = fresh_generation,
    vc_confirmation = sample_confirmation, vc_source_path = key_path (au_namespace sample_authority) sample_key,
    vc_file = sample_key, vc_metadata = sample_metadata, vc_terminal_success_count = Some 1, vc_derived = None\<rparr>"

lemma fresh_load:
  "\<exists>m es'. load_exact_delivery_record sample_authority (generation_identity fresh_generation) (prepared_at n rows es)
    = (Inr fresh_generation, prepared_at m rows es')"
  by (simp add: load_exact_delivery_record_def prepared_access fresh_loaded exact_delivery_record_def from_local_def) blast

lemma asked_ok: "\<exists>m es'. ask_scope g scope (prepared_at n rows es) = (Inr (), prepared_at m rows es')"
  by (simp add: ask_scope_def prepared_access ensure_def) blast

lemma inspected_ok: "\<exists>m es'. inspect_regular key (prepared_at n rows es) = (Inr sample_metadata, prepared_at m rows es')"
  by (simp add: inspect_regular_def prepared_access from_local_def) blast

lemma accessed_ok:
  "\<exists>m es'. access_file key (prepared_at n rows es) = (Inr (), prepared_at m rows es')"
  "\<exists>m es'. begin_ordinary_mutation key (prepared_at n rows es) = (Inr (), prepared_at m rows es')"
  "\<exists>m es'. open_optional_regular key (prepared_at n rows es) = (Inr True, prepared_at m rows es')"
  "\<exists>m es'. task_scoped (prepared_at n rows es) = (Inr sample_detail, prepared_at m rows es')"
  by (simp_all add: access_file_def begin_ordinary_mutation_def open_optional_regular_def task_scoped_def prepared_access
      from_local_def from_api_def ensure_def) blast+

lemma read_ok:
  "\<exists>m es'. verify_namespace_delivery_file sample_authority sample_key sample_confirmation (prepared_at n rows es)
    = (Inr (), prepared_at m rows es')"
  by (simp add: verify_namespace_delivery_file_def prepared_access sample_confirmation_def sample_authority_def verify_chunks_def
    digest_sink_write_def checked_add_def eq_ignore_ascii_case_def Let_def ensure_def from_local_def) blast

lemma current_ok: "\<exists>m es'. require_current sample_content (prepared_at n rows es) = (Inr (), prepared_at m rows es')"
proof -
  let ?g = "\<lambda>e. DeliveryLocal (RejectedRequest e)"
  obtain m1 e1 where 1: "ask_scope ?g (authority_scope sample_authority) (prepared_at n rows es) = (Inr (), prepared_at m1 rows e1)"
    using asked_ok by blast
  obtain m2 e2 where 2: "load_exact_delivery_record sample_authority (generation_identity fresh_generation) (prepared_at m1 rows e1)
    = (Inr fresh_generation, prepared_at m2 rows e2)" using fresh_load by blast
  obtain m3 e3 where 3: "inspect_regular sample_key (prepared_at m2 rows e2) = (Inr sample_metadata, prepared_at m3 rows e3)"
    using inspected_ok by blast
  have "terminal_progress_ok sample_content fresh_generation"
    by (simp add: terminal_progress_ok_def sample_content_def fresh_generation_def witness_generation_def)
  moreover have "scope_owner_user_id (authority_scope sample_authority) = au_user sample_authority"
    "scope_auth_epoch (authority_scope sample_authority) = lease_auth_epoch (au_lease sample_authority)"
    "pg_owner_user_id fresh_generation = scope_owner_user_id (authority_scope sample_authority)"
    "pg_auth_epoch fresh_generation = scope_auth_epoch (authority_scope sample_authority)"
    "pg_client_request_id fresh_generation = dc_client_request_id sample_confirmation"
    "pg_server_task_id fresh_generation = dc_task_id sample_confirmation"
    "dc_item_index sample_confirmation < item_count fresh_generation"
    "fm_byte_size sample_metadata = dc_size_bytes sample_confirmation" "fm_link_count sample_metadata = 1"
    by (simp_all add: authority_scope_def sample_authority_def witness_recovery_lease_def fresh_generation_def witness_generation_def
        sample_confirmation_def sample_metadata_def)
  ultimately have "require_current sample_content (prepared_at n rows es) = (Inr (), prepared_at m3 rows e3)"
    using 1 2 3 plan_ok(6)
    by (simp add: require_current_def sample_content_def and_then_def ensure_def result_is_def from_local_def Let_def)
  then show ?thesis by blast
qed

definition fresh_row :: indexed_file where
  "fresh_row = \<lparr>if_user_public_id = ''u'', if_key = sample_key, if_physical_identity = UnixIdentity 1 1, if_id = 2,
    if_kind = ''generation'', if_byte_size = 1, if_managed = True, if_retention_policy = ''durable'', if_created_at = 0,
    if_last_accessed_at = 0, if_pending_delete = False\<rparr>"

lemma transaction_ok:
  "\<exists>m es'. reconcile_transaction sample_authority sample_key sample_metadata None (prepared_at n [] es)
    = (Inr fresh_row, prepared_at m [fresh_row] es')"
  by (simp add: reconcile_transaction_def prepared_access reconcile_rows_def query_key_def query_identity_def Let_def from_local_def)
    (simp add: answering_view_def sample_view_def sample_metadata_def sample_authority_def witness_recovery_lease_def fresh_row_def, blast)

lemma query_ok:
  "\<exists>m es'. query_index sample_authority sample_key (prepared_at n [] es) = (Inr None, prepared_at m [] es')"
  by (simp add: query_index_def prepared_access query_key_def from_local_def) blast

lemma reconcile_ok:
  "\<exists>m es'. reconcile_verified_delivery_content sample_content (prepared_at n [] es) = (Inr fresh_row, prepared_at m [fresh_row] es')"
proof -
  obtain m1 e1 where 1: "require_current sample_content (prepared_at n [] es) = (Inr (), prepared_at m1 [] e1)" using current_ok by blast
  obtain m2 e2 where 2: "query_index sample_authority sample_key (prepared_at m1 [] e1) = (Inr None, prepared_at m2 [] e2)" using query_ok by blast
  obtain m3 e3 where 3: "require_current sample_content (prepared_at m2 [] e2) = (Inr (), prepared_at m3 [] e3)" using current_ok by blast
  obtain m4 e4 where 4: "reconcile_transaction sample_authority sample_key sample_metadata None (prepared_at m3 [] e3)
    = (Inr fresh_row, prepared_at m4 [fresh_row] e4)" using transaction_ok by blast
  have "vc_authority sample_content = sample_authority" "vc_file sample_content = sample_key" "vc_metadata sample_content = sample_metadata"
    by (simp_all add: sample_content_def)
  with 1 2 3 4 show ?thesis by (simp add: reconcile_verified_delivery_content_def and_then_def ensure_def result_is_def) blast
qed

lemma register_ok:
  "\<exists>m es'. register_file sample_authority (authority_scope sample_authority) fresh_generation sample_confirmation
      (key_path (au_namespace sample_authority) sample_key) sample_key (Some 1) (prepared_at n [] es) = (Inr fresh_row, prepared_at m [fresh_row] es')"
proof -
  let ?s = "authority_scope sample_authority"
  obtain m1 e1 where 1: "ensure_scope_active ?s (prepared_at n [] es) = (Inr (), prepared_at m1 [] e1)" using asked_ok by blast
  obtain m2 e2 where 2: "inspect_regular sample_key (prepared_at m1 [] e1) = (Inr sample_metadata, prepared_at m2 [] e2)" using inspected_ok by blast
  obtain m3 e3 where 3: "access_file sample_key (prepared_at m2 [] e2) = (Inr (), prepared_at m3 [] e3)" using accessed_ok(1) by blast
  obtain m4 e4 where 4: "inspect_regular sample_key (prepared_at m3 [] e3) = (Inr sample_metadata, prepared_at m4 [] e4)" using inspected_ok by blast
  obtain m5 e5 where 5: "verify_namespace_delivery_file sample_authority sample_key sample_confirmation (prepared_at m4 [] e4)
    = (Inr (), prepared_at m5 [] e5)" using read_ok by blast
  obtain m6 e6 where 6: "inspect_regular sample_key (prepared_at m5 [] e5) = (Inr sample_metadata, prepared_at m6 [] e6)" using inspected_ok by blast
  obtain m7 e7 where 7: "begin_ordinary_mutation sample_key (prepared_at m6 [] e6) = (Inr (), prepared_at m7 [] e7)" using accessed_ok(2) by blast
  obtain m8 e8 where 8: "reconcile_verified_delivery_content sample_content (prepared_at m7 [] e7) = (Inr fresh_row, prepared_at m8 [fresh_row] e8)"
    using reconcile_ok by blast
  have "fm_link_count sample_metadata = 1" by (simp add: sample_metadata_def)
  with 1 2 3 4 5 6 7 8 show ?thesis
    by (simp add: register_file_def and_then_def ensure_def result_is_def sample_content_def) blast
qed

lemma prepare_ok:
  "\<exists>p w'. prepare_namespace_delivery_proof sample_authority ImageDelivery (generation_identity fresh_generation) 0 (prepared_at 0 [] []) = (Inr p, w')"
proof -
  let ?s = "authority_scope sample_authority"
  obtain m1 e1 where 1: "ensure_scope_active ?s (prepared_at 0 [] []) = (Inr (), prepared_at m1 [] e1)" using asked_ok by blast
  obtain m2 e2 where 2: "load_exact_delivery_record sample_authority (generation_identity fresh_generation) (prepared_at m1 [] e1)
    = (Inr fresh_generation, prepared_at m2 [] e2)" using fresh_load by blast
  obtain m3 e3 where 3: "task_scoped (prepared_at m2 [] e2) = (Inr sample_detail, prepared_at m3 [] e3)" using accessed_ok(4) by blast
  obtain m4 e4 where 4: "open_optional_regular sample_key (prepared_at m3 [] e3) = (Inr True, prepared_at m4 [] e4)" using accessed_ok(3) by blast
  obtain m5 e5 where 5: "verify_namespace_delivery_file sample_authority sample_key sample_confirmation (prepared_at m4 [] e4)
    = (Inr (), prepared_at m5 [] e5)" using read_ok by blast
  obtain m6 e6 where 6: "access_file sample_key (prepared_at m5 [] e5) = (Inr (), prepared_at m6 [] e6)" using accessed_ok(1) by blast
  obtain m7 e7 where 7: "register_file sample_authority ?s fresh_generation sample_confirmation
      (key_path (au_namespace sample_authority) sample_key) sample_key (Some 1) (prepared_at m6 [] e6) = (Inr fresh_row, prepared_at m7 [fresh_row] e7)"
    using register_ok by blast
  obtain m8 e8 where 8: "ensure_scope_active_locally ?s (prepared_at m7 [fresh_row] e7) = (Inr (), prepared_at m8 [fresh_row] e8)" using asked_ok by blast
  obtain m9 e9 where 9: "inspect_regular sample_key (prepared_at m8 [fresh_row] e8) = (Inr sample_metadata, prepared_at m9 [fresh_row] e9)"
    using inspected_ok by blast
  have "detail_terminal sample_detail" "successes sample_detail = 1"
    by (simp_all add: detail_terminal_def sample_detail_def successes_def)
  moreover have "fm_identity sample_metadata = if_physical_identity fresh_row" "fm_byte_size sample_metadata = dc_size_bytes sample_confirmation"
    by (simp_all add: sample_metadata_def fresh_row_def sample_confirmation_def)
  ultimately show ?thesis using 1 2 3 4 5 6 7 8 9 plan_ok
    by (simp add: prepare_namespace_delivery_proof_def and_then_def result_is_def clear_stale_path_def obtain_file_def use_existing_def
      prepare_preview_def from_local_def ensure_def proof_ensure_current_def for_derived_def Let_def)
qed

theorem prepared_delivery_is_verified_witness:
  "\<exists>p w' detail es1 es2. prepare_namespace_delivery_proof sample_authority ImageDelivery (generation_identity fresh_generation) 0
      (prepared_at 0 [] []) = (Inr p, w')
    \<and> dw_log w' = es1 @ TaskAnswered (Inr detail) # es2
    \<and> named_by_service (generation_identity fresh_generation) (np_confirmation p) detail"
proof -
  obtain p w' where run: "prepare_namespace_delivery_proof sample_authority ImageDelivery (generation_identity fresh_generation) 0
      (prepared_at 0 [] []) = (Inr p, w')" using prepare_ok by blast
  have log: "dw_log w' = dw_log (prepared_at 0 [] []) @ dw_log w'" by (simp add: prepared_at_def)
  have "\<forall>n. slices (dv_chunks (dw_views (prepared_at 0 [] []) n))"
    by (simp add: prepared_at_def slices_def)
  from prepared_delivery_is_verified [OF run log this] run show ?thesis by blast
qed

end
