(* ===== verification/Canvas_Graph.thy ===== *)
theory Canvas_Graph
  imports Prelude
begin

text \<open>
  The links of the infinite canvas (\<open>native-client/src/runtime/canvas_ops.rs\<close>): a new link must not close a
  cycle, and every node has at most one incoming link. Fresh identifiers are arguments.
\<close>

section \<open>Links\<close>

record canvas_link =
  cl_id :: string
  cl_source_id :: string
  cl_target_id :: string
  cl_flow_reversed :: bool

definition edges :: "canvas_link list \<Rightarrow> (string \<times> string) set" where
  "edges links = (\<lambda>l. (cl_source_id l, cl_target_id l)) ` set links"

definition successors :: "canvas_link list \<Rightarrow> string \<Rightarrow> string list" where
  "successors links node = map cl_target_id (filter (\<lambda>l. cl_source_id l = node) links)"

lemma set_successors: "set (successors links node) = {y. (node, y) \<in> edges links}"
  by (auto simp: successors_def edges_def)

section \<open>Reachability\<close>

text \<open>
  The search of \<open>link_reaches\<close>: a stack, whose top is the head of the list, and the visited nodes. It
  stops because every node that pushes successors is visited once.
\<close>

function link_search :: "canvas_link list \<Rightarrow> string \<Rightarrow> string list \<Rightarrow> string list \<Rightarrow> bool" where
  "link_search links target [] visited = False"
| "link_search links target (node # pending) visited =
    (if node = target then True
     else if node \<in> set visited then link_search links target pending visited
     else link_search links target (rev (successors links node) @ pending) (node # visited))"
  by pat_completeness auto
termination
proof (relation "measures [\<lambda>(links, target, pending, visited). card (cl_source_id ` set links - set visited),
      \<lambda>(links, target, pending, visited). length pending]", goal_cases)
  case (3 links target node pending visited)
  let ?sources = "cl_source_id ` set links"
  show ?case
  proof (cases "node \<in> ?sources")
    case True
    with 3 have "?sources - set (node # visited) \<subset> ?sources - set visited" by auto
    then have "card (?sources - set (node # visited)) < card (?sources - set visited)"
      by (intro psubset_card_mono) auto
    then show ?thesis by simp
  next
    case False
    then have "successors links node = []" by (auto simp: successors_def filter_empty_conv)
    moreover from False have "?sources - insert node (set visited) = ?sources - set visited" by auto
    ultimately show ?thesis by simp
  qed
qed auto

definition link_reaches :: "canvas_link list \<Rightarrow> string \<Rightarrow> string \<Rightarrow> bool" where
  "link_reaches links start target = link_search links target [start] []"

lemma leaves_visited:
  assumes "(v, target) \<in> E\<^sup>*" and "v \<in> V" and "target \<notin> V" and "\<And>x y. x \<in> V \<Longrightarrow> (x, y) \<in> E \<Longrightarrow> y \<in> V \<union> P"
  shows "\<exists>p \<in> P - V. (p, target) \<in> E\<^sup>*"
  using assms(1,2)
proof (induction rule: converse_rtrancl_induct)
  case base
  with assms(3) show ?case by simp
next
  case (step x y)
  with assms(4) [of x y] show ?case by blast
qed

lemma link_search_correct:
  assumes "target \<notin> set visited"
    and "\<And>x y. x \<in> set visited \<Longrightarrow> (x, y) \<in> edges links \<Longrightarrow> y \<in> set visited \<union> set pending"
  shows "link_search links target pending visited \<longleftrightarrow> (\<exists>p \<in> set pending. (p, target) \<in> (edges links)\<^sup>*)"
  using assms
proof (induction links target pending visited rule: link_search.induct)
  case (2 links target node pending visited)
  consider "node = target" | "node \<noteq> target" "node \<in> set visited" | "node \<noteq> target" "node \<notin> set visited" by blast
  then show ?case
  proof cases
    case 1
    then show ?thesis by auto
  next
    case seen: 2
    have rest: "x \<in> set visited \<Longrightarrow> (x, y) \<in> edges links \<Longrightarrow> y \<in> set visited \<union> set pending" for x y
      using "2.prems"(2) [of x y] seen(2) by auto
    have "\<exists>p \<in> set pending - set visited. (p, target) \<in> (edges links)\<^sup>*" if "(node, target) \<in> (edges links)\<^sup>*"
      using rest by (rule leaves_visited [OF that seen(2) "2.prems"(1)])
    moreover have "link_search links target pending visited \<longleftrightarrow> (\<exists>p \<in> set pending. (p, target) \<in> (edges links)\<^sup>*)"
      using rest by (rule "2.IH"(1) [OF seen "2.prems"(1)])
    ultimately show ?thesis using seen by auto
  next
    case fresh: 3
    have "link_search links target (rev (successors links node) @ pending) (node # visited)
      \<longleftrightarrow> (\<exists>p \<in> set (rev (successors links node) @ pending). (p, target) \<in> (edges links)\<^sup>*)"
    proof (rule "2.IH"(2) [OF fresh])
      show "target \<notin> set (node # visited)" using fresh "2.prems"(1) by auto
      show "y \<in> set (node # visited) \<union> set (rev (successors links node) @ pending)"
        if "x \<in> set (node # visited)" "(x, y) \<in> edges links" for x y
        using that "2.prems"(2) [of x y] by (auto simp: set_successors)
    qed
    moreover have "(node, target) \<in> (edges links)\<^sup>* \<longleftrightarrow> (\<exists>p \<in> set (successors links node). (p, target) \<in> (edges links)\<^sup>*)"
      using fresh(1) by (auto simp: set_successors elim: converse_rtranclE intro: converse_rtrancl_into_rtrancl)
    ultimately show ?thesis using fresh by auto
  qed
qed simp

lemma link_reaches_iff: "link_reaches links start target \<longleftrightarrow> (start, target) \<in> (edges links)\<^sup>*"
  unfolding link_reaches_def by (subst link_search_correct) simp_all

section \<open>Connecting nodes\<close>

definition connection_allowed :: "canvas_link list \<Rightarrow> string \<Rightarrow> string \<Rightarrow> bool" where
  "connection_allowed links source_id target_id =
    (if source_id = target_id \<or> (\<exists>l \<in> set links. cl_source_id l = source_id \<and> cl_target_id l = target_id) then False
     else \<not> link_reaches (filter (\<lambda>l. cl_target_id l \<noteq> target_id) links) target_id source_id)"

datatype connect_result = Connected string string "string option" | Rejected

definition connect_nodes_with_flow ::
  "string \<Rightarrow> canvas_link list \<Rightarrow> string \<Rightarrow> string \<Rightarrow> bool \<Rightarrow> connect_result \<times> canvas_link list" where
  "connect_nodes_with_flow fresh_id links source_id target_id flow_reversed =
    (if \<not> connection_allowed links source_id target_id then (Rejected, links)
     else (Connected fresh_id target_id (map_option cl_id (List.find (\<lambda>l. cl_target_id l = target_id) links)),
       filter (\<lambda>l. cl_target_id l \<noteq> target_id) links
         @ [\<lparr>cl_id = fresh_id, cl_source_id = source_id, cl_target_id = target_id, cl_flow_reversed = flow_reversed\<rparr>]))"

definition connect_nodes :: "string \<Rightarrow> canvas_link list \<Rightarrow> string \<Rightarrow> string \<Rightarrow> connect_result \<times> canvas_link list" where
  "connect_nodes fresh_id links source_id target_id = connect_nodes_with_flow fresh_id links source_id target_id False"

text \<open>What the links of a canvas are: a forest that points away from its roots.\<close>

definition graph_ok :: "canvas_link list \<Rightarrow> bool" where
  "graph_ok links = (acyclic (edges links) \<and> distinct (map cl_target_id links))"

definition edges_without :: "canvas_link list \<Rightarrow> string \<Rightarrow> (string \<times> string) set" where
  "edges_without links target_id = {e \<in> edges links. snd e \<noteq> target_id}"

lemma edges_filter: "edges (filter (\<lambda>l. cl_target_id l \<noteq> target_id) links) = edges_without links target_id"
  by (auto simp: edges_def edges_without_def)

lemma linked_iff: "(\<exists>l \<in> set links. cl_source_id l = x \<and> cl_target_id l = y) \<longleftrightarrow> (x, y) \<in> edges links"
  by (auto simp: edges_def)

lemma connection_allowed_iff:
  assumes "acyclic (edges links)"
  shows "connection_allowed links source_id target_id \<longleftrightarrow>
    source_id \<noteq> target_id \<and> (source_id, target_id) \<notin> edges links
    \<and> acyclic (insert (source_id, target_id) (edges_without links target_id))"
proof -
  have "acyclic (edges_without links target_id)"
    by (rule acyclic_subset [OF assms]) (auto simp: edges_without_def)
  then have "acyclic (insert (source_id, target_id) (edges_without links target_id)) \<longleftrightarrow>
      (target_id, source_id) \<notin> (edges_without links target_id)\<^sup>*"
    by (simp add: acyclic_insert)
  then show ?thesis
    unfolding connection_allowed_def link_reaches_iff edges_filter linked_iff by simp
qed

text \<open>
  C36: the canvas stays a forest. The search decides reachability, so a link is accepted exactly when
  it joins two different nodes that are not joined yet and closes no cycle once the old input of its
  target is gone; an accepted link replaces that input, keeps every other link, and leaves no cycle
  and one input per node; a rejected one changes nothing.
\<close>

theorem connect_keeps_forest:
  assumes "graph_ok links" and "connect_nodes_with_flow fresh_id links source_id target_id flow = (result, links')"
  shows "graph_ok links'
    \<and> (link_reaches links a b \<longleftrightarrow> (a, b) \<in> (edges links)\<^sup>*)
    \<and> (result \<noteq> Rejected \<longleftrightarrow> source_id \<noteq> target_id \<and> (source_id, target_id) \<notin> edges links
          \<and> acyclic (insert (source_id, target_id) (edges_without links target_id)))
    \<and> (result \<noteq> Rejected \<longrightarrow> edges links' = insert (source_id, target_id) (edges_without links target_id))
    \<and> (result = Rejected \<longrightarrow> links' = links)"
proof -
  let ?rest = "filter (\<lambda>l. cl_target_id l \<noteq> target_id) links"
  let ?new = "\<lparr>cl_id = fresh_id, cl_source_id = source_id, cl_target_id = target_id, cl_flow_reversed = flow\<rparr>"
  have acyclic: "acyclic (edges links)" and inputs: "distinct (map cl_target_id links)"
    using assms(1) by (simp_all add: graph_ok_def)
  note allowed = connection_allowed_iff [OF acyclic, of source_id target_id]
  show ?thesis
  proof (cases "connection_allowed links source_id target_id")
    case False
    with assms(2) have "result = Rejected" "links' = links" by (simp_all add: connect_nodes_with_flow_def)
    with False allowed assms(1) link_reaches_iff show ?thesis by blast
  next
    case True
    with assms(2) have result: "result \<noteq> Rejected" and links': "links' = ?rest @ [?new]"
      by (auto simp: connect_nodes_with_flow_def)
    have "edges links' = insert (source_id, target_id) (edges ?rest)"
      unfolding links' by (auto simp: edges_def)
    then have edges': "edges links' = insert (source_id, target_id) (edges_without links target_id)"
      by (simp add: edges_filter)
    have "distinct (map cl_target_id links')"
      using distinct_map_filter [OF inputs] by (auto simp: links')
    with edges' True allowed have "graph_ok links'" by (simp add: graph_ok_def)
    with edges' True allowed result link_reaches_iff show ?thesis by blast
  qed
qed

definition witness_link :: "string \<Rightarrow> string \<Rightarrow> string \<Rightarrow> canvas_link" where
  "witness_link i s t = \<lparr>cl_id = i, cl_source_id = s, cl_target_id = t, cl_flow_reversed = False\<rparr>"

theorem connect_keeps_forest_witness:
  "graph_ok [witness_link ''l'' ''a'' ''b'', witness_link ''m'' ''b'' ''c'']
   \<and> connect_nodes_with_flow ''x'' [witness_link ''l'' ''a'' ''b'', witness_link ''m'' ''b'' ''c''] ''c'' ''a'' False
      = (Rejected, [witness_link ''l'' ''a'' ''b'', witness_link ''m'' ''b'' ''c''])"
proof -
  let ?one = "[witness_link ''l'' ''a'' ''b'']" and ?two = "[witness_link ''l'' ''a'' ''b'', witness_link ''m'' ''b'' ''c'']"
  have connected: "connect_nodes_with_flow ''m'' ?one ''b'' ''c'' False = (Connected ''m'' ''c'' None, ?two)"
    by (simp add: connect_nodes_with_flow_def connection_allowed_def link_reaches_def successors_def witness_link_def)
  have "graph_ok ?one"
    using acyclic_insert [of "''a''" "''b''" "{}"] by (simp add: graph_ok_def edges_def witness_link_def wf_acyclic)
  from connect_keeps_forest [OF this connected, of "''a''" "''b''"] have "graph_ok ?two" by blast
  then show ?thesis
    by (simp add: connect_nodes_with_flow_def connection_allowed_def link_reaches_def successors_def witness_link_def)
qed

end
