(* ===== verification/Canvas_Notes.thy ===== *)
theory Canvas_Notes
  imports Prelude
begin

text \<open>
  The notes of the infinite canvas (\<open>CanvasNoteData\<close> of \<open>native-client/src/runtime/model.rs\<close>), their
  selection, and the tree that the groups form over them (\<open>runtime/canvas_ops.rs\<close>). A coordinate has
  the type \<open>'f\<close>, which stands for \<open>f32\<close>; its arithmetic is the argument \<open>'f f32_ops\<close> of the
  operations that compute with it. A \<open>BTreeSet\<close> is a set.
\<close>

section \<open>Notes\<close>

type_synonym i32 = "32 word"

record 'f canvas_note =
  cn_id :: string
  cn_kind :: string
  cn_content :: string
  cn_x :: 'f
  cn_y :: 'f
  cn_width :: 'f
  cn_height :: 'f
  cn_parent_group_id :: string
  cn_z_index :: i32
  cn_image_path :: string
  cn_font_size :: 'f
  cn_selected :: bool

record 'f f32_ops =
  f_add :: "'f \<Rightarrow> 'f \<Rightarrow> 'f"
  f_sub :: "'f \<Rightarrow> 'f \<Rightarrow> 'f"
  f_mul :: "'f \<Rightarrow> 'f \<Rightarrow> 'f"
  f_min :: "'f \<Rightarrow> 'f \<Rightarrow> 'f"
  f_max :: "'f \<Rightarrow> 'f \<Rightarrow> 'f"
  f_le :: "'f \<Rightarrow> 'f \<Rightarrow> bool"
  f_eq :: "'f \<Rightarrow> 'f \<Rightarrow> bool"
  f_lit :: "nat \<Rightarrow> 'f"

definition canvas_note_default :: "'f f32_ops \<Rightarrow> 'f canvas_note" where
  "canvas_note_default F = \<lparr>cn_id = [], cn_kind = ''text'', cn_content = [], cn_x = f_lit F 0, cn_y = f_lit F 0,
    cn_width = f_lit F 280, cn_height = f_lit F 176, cn_parent_group_id = [], cn_z_index = 0, cn_image_path = [],
    cn_font_size = f_lit F 12, cn_selected = False\<rparr>"

definition is_group :: "'f canvas_note \<Rightarrow> bool" where
  "is_group n = (cn_kind n = ''group'')"

definition note_ids :: "'f canvas_note list \<Rightarrow> string set" where
  "note_ids ns = cn_id ` set ns"

definition group_ids :: "'f canvas_note list \<Rightarrow> string set" where
  "group_ids ns = cn_id ` set (filter is_group ns)"

definition set_parent :: "string \<Rightarrow> 'f canvas_note \<Rightarrow> 'f canvas_note" where
  "set_parent p n = n\<lparr>cn_parent_group_id := p\<rparr>"

lemma set_parent_simps [simp]:
  "cn_id (set_parent p n) = cn_id n" "cn_kind (set_parent p n) = cn_kind n"
  "cn_parent_group_id (set_parent p n) = p" "is_group (set_parent p n) = is_group n"
  "cn_selected (set_parent p n) = cn_selected n"
  by (simp_all add: set_parent_def is_group_def)

lemma is_group_update_simps [simp]: "is_group (n\<lparr>cn_selected := b\<rparr>) = is_group n"
  by (simp add: is_group_def)

section \<open>Selection\<close>

definition selected_ids :: "'f canvas_note list \<Rightarrow> string set" where
  "selected_ids ns = cn_id ` set (filter cn_selected ns)"

definition clear_selection :: "'f canvas_note list \<Rightarrow> 'f canvas_note list" where
  "clear_selection ns = map (\<lambda>n. n\<lparr>cn_selected := False\<rparr>) ns"

text \<open>\<open>iter_mut().find\<close> followed by an update of the element found.\<close>

fun update_first :: "('a \<Rightarrow> bool) \<Rightarrow> ('a \<Rightarrow> 'a) \<Rightarrow> 'a list \<Rightarrow> 'a list" where
  "update_first P f [] = []"
| "update_first P f (x # xs) = (if P x then f x # xs else x # update_first P f xs)"

definition select_node :: "'f canvas_note list \<Rightarrow> string \<Rightarrow> bool \<Rightarrow> 'f canvas_note list" where
  "select_node ns i toggle =
    (let ns = (if \<not> toggle then clear_selection ns else ns) in
     update_first (\<lambda>n. cn_id n = i) (\<lambda>n. n\<lparr>cn_selected := (if toggle then \<not> cn_selected n else True)\<rparr>) ns)"

section \<open>Descendants of a group\<close>

text \<open>The children of one parent: each new one is kept, and pushed on the stack when it is a group.\<close>

fun visit_children :: "'f canvas_note list \<Rightarrow> string set \<Rightarrow> string list \<Rightarrow> string set \<times> string list" where
  "visit_children [] result pending = (result, pending)"
| "visit_children (child # children) result pending =
    (if cn_id child \<in> result then visit_children children result pending
     else visit_children children (insert (cn_id child) result)
       (if cn_kind child = ''group'' then cn_id child # pending else pending))"

lemma visit_children_result: "fst (visit_children cs result pending) = result \<union> cn_id ` set cs"
  by (induction cs result pending rule: visit_children.induct) auto

lemma visit_children_unchanged:
  "fst (visit_children cs result pending) = result \<Longrightarrow> snd (visit_children cs result pending) = pending"
proof (induction cs result pending rule: visit_children.induct)
  case (2 child children result pending)
  show ?case
  proof (cases "cn_id child \<in> result")
    case True
    with 2 show ?thesis by simp
  next
    case False
    with "2.prems" show ?thesis by (simp add: visit_children_result) blast
  qed
qed simp

function descend :: "'f canvas_note list \<Rightarrow> string list \<Rightarrow> string set \<Rightarrow> string set" where
  "descend ns [] result = result"
| "descend ns (parent_id # pending) result =
    (let visited = visit_children (filter (\<lambda>n. cn_parent_group_id n = parent_id) ns) result pending in
     descend ns (snd visited) (fst visited))"
  by pat_completeness auto
termination
proof (relation "measures [\<lambda>(ns, pending, result). card (note_ids ns - result), \<lambda>(ns, pending, result). length pending]",
    goal_cases)
  case (2 ns parent_id pending result visited)
  let ?children = "filter (\<lambda>n. cn_parent_group_id n = parent_id) ns"
  have fst: "fst visited = result \<union> cn_id ` set ?children" by (simp add: 2 visit_children_result)
  show ?case
  proof (cases "fst visited = result")
    case True
    then have "snd visited = pending" using visit_children_unchanged [of ?children result pending] by (simp add: 2)
    with True show ?thesis by simp
  next
    case False
    with fst have "note_ids ns - fst visited \<subset> note_ids ns - result" by (auto simp: note_ids_def)
    then have "card (note_ids ns - fst visited) < card (note_ids ns - result)"
      by (intro psubset_card_mono) (auto simp: note_ids_def)
    then show ?thesis by simp
  qed
qed simp

definition descendant_ids :: "'f canvas_note list \<Rightarrow> string \<Rightarrow> string set" where
  "descendant_ids ns group_id = descend ns [group_id] {}"

definition expanded_selection_ids :: "'f canvas_note list \<Rightarrow> string set" where
  "expanded_selection_ids ns =
    fold (\<lambda>group_id ids. ids \<union> descendant_ids ns group_id)
      (map cn_id (filter (\<lambda>n. cn_selected n \<and> cn_kind n = ''group'') ns)) (selected_ids ns)"

definition move_selection :: "'f f32_ops \<Rightarrow> 'f canvas_note list \<Rightarrow> 'f \<Rightarrow> 'f \<Rightarrow> 'f canvas_note list" where
  "move_selection F ns dx dy =
    (let ids = expanded_selection_ids ns in
     map (\<lambda>n. if cn_id n \<in> ids then n\<lparr>cn_x := f_add F (cn_x n) dx, cn_y := f_add F (cn_y n) dy\<rparr> else n) ns)"

section \<open>The group tree\<close>

text \<open>
  What the canvas relies on: identifiers are different and not empty, a parent is an existing group,
  and no group is inside itself.
\<close>

definition parent_rel :: "'f canvas_note list \<Rightarrow> (string \<times> string) set" where
  "parent_rel ns = {(cn_id n, cn_parent_group_id n) | n. n \<in> set ns \<and> cn_parent_group_id n \<noteq> []}"

definition ids_ok :: "'f canvas_note list \<Rightarrow> bool" where
  "ids_ok ns = (distinct (map cn_id ns) \<and> [] \<notin> note_ids ns)"

definition groups_ok :: "'f canvas_note list \<Rightarrow> bool" where
  "groups_ok ns = (ids_ok ns
    \<and> (\<forall>n \<in> set ns. cn_parent_group_id n = [] \<or> cn_parent_group_id n \<in> group_ids ns)
    \<and> acyclic (parent_rel ns))"

lemma group_ids_sub: "group_ids ns \<subseteq> note_ids ns"
  by (auto simp: group_ids_def note_ids_def)

lemma ids_ok_unique: "ids_ok ns \<Longrightarrow> m \<in> set ns \<Longrightarrow> n \<in> set ns \<Longrightarrow> cn_id m = cn_id n \<Longrightarrow> m = n"
  by (auto simp: ids_ok_def distinct_map dest: inj_onD)

lemma ids_ok_nonempty: "ids_ok ns \<Longrightarrow> n \<in> set ns \<Longrightarrow> cn_id n \<noteq> []"
  by (metis ids_ok_def image_eqI note_ids_def)

lemma parent_rel_fun:
  "ids_ok ns \<Longrightarrow> (x, y) \<in> parent_rel ns \<Longrightarrow> (x, z) \<in> parent_rel ns \<Longrightarrow> y = z"
  by (auto simp: parent_rel_def dest: ids_ok_unique)

lemma parent_rel_member: "n \<in> set ns \<Longrightarrow> cn_parent_group_id n \<noteq> [] \<Longrightarrow> (cn_id n, cn_parent_group_id n) \<in> parent_rel ns"
  by (auto simp: parent_rel_def)

lemma visit_children_pending:
  assumes "distinct (map cn_id cs)"
  shows "x \<in> set (snd (visit_children cs result pending)) \<longleftrightarrow>
    x \<in> set pending \<or> x \<notin> result \<and> (\<exists>c \<in> set cs. is_group c \<and> cn_id c = x)"
  using assms
proof (induction cs result pending rule: visit_children.induct)
  case (2 child children result pending)
  then have "cn_id c \<noteq> cn_id child" if "c \<in> set children" for c using that by (auto simp: image_iff)
  with 2 show ?case by (auto simp: is_group_def)
qed simp

text \<open>The result of the search is closed under taking children of groups, and contains nothing else.\<close>

definition children_in :: "'f canvas_note list \<Rightarrow> string set \<Rightarrow> string set \<Rightarrow> bool" where
  "children_in ns parents ids = (\<forall>n \<in> set ns. cn_parent_group_id n \<in> parents \<longrightarrow> cn_id n \<in> ids)"

lemma visit_children_closed:
  assumes ok: "ids_ok ns" and closed: "children_in ns (group_ids ns \<inter> result - set (parent_id # pending)) result"
    and visited: "visit_children (filter (\<lambda>n. cn_parent_group_id n = parent_id) ns) result pending = (result', pending')"
  shows "children_in ns (group_ids ns \<inter> result' - set pending') result'"
    and "result' = result \<union> cn_id ` {n \<in> set ns. cn_parent_group_id n = parent_id}"
    and "set pending \<subseteq> set pending'"
proof -
  let ?children = "filter (\<lambda>n. cn_parent_group_id n = parent_id) ns"
  have "distinct (map cn_id ?children)" using ok by (simp add: ids_ok_def distinct_map_filter)
  note pend = visit_children_pending [OF this, of _ result pending, unfolded visited snd_conv]
  show result': "result' = result \<union> cn_id ` {n \<in> set ns. cn_parent_group_id n = parent_id}"
    using visit_children_result [of ?children result pending] visited by simp
  show "set pending \<subseteq> set pending'" using pend by blast
  have "x \<in> result - set pending" if x: "x \<in> group_ids ns \<inter> result' - set pending'" for x
  proof -
    have "x \<in> result"
    proof (rule ccontr)
      assume "x \<notin> result"
      with x result' obtain c where c: "c \<in> set ?children" "cn_id c = x" by auto
      from x obtain g where g: "g \<in> set ns" "is_group g" "cn_id g = x" by (auto simp: group_ids_def)
      with c ids_ok_unique [OF ok, of g c] have "is_group c" by auto
      with c \<open>x \<notin> result\<close> x pend show False by blast
    qed
    with x pend show ?thesis by blast
  qed
  with closed result' show "children_in ns (group_ids ns \<inter> result' - set pending') result'"
    unfolding children_in_def by fastforce
qed

lemma descend_closed:
  assumes "ids_ok ns" and "children_in ns (group_ids ns \<inter> result - set pending) result"
  shows "result \<subseteq> descend ns pending result
    \<and> children_in ns (set pending \<union> (group_ids ns \<inter> descend ns pending result)) (descend ns pending result)"
  using assms
proof (induction ns pending result rule: descend.induct)
  case (1 ns result)
  then show ?case by (auto simp: children_in_def)
next
  case (2 ns parent_id pending result)
  obtain result' pending'
    where v: "visit_children (filter (\<lambda>n. cn_parent_group_id n = parent_id) ns) result pending = (result', pending')" by fastforce
  note facts = visit_children_closed [OF "2.prems" v]
  have step: "descend ns (parent_id # pending) result = descend ns pending' result'" by (simp add: v)
  from "2.IH" [OF refl "2.prems"(1)] facts(1) v
  have IH: "result' \<subseteq> descend ns pending' result'
    \<and> children_in ns (set pending' \<union> (group_ids ns \<inter> descend ns pending' result')) (descend ns pending' result')"
    by simp
  then show ?case
    unfolding step using facts(2,3) unfolding children_in_def by auto
qed

text \<open>Nothing else: a set that holds the result and the children of its groups holds what is found.\<close>

lemma descend_least:
  assumes "result \<subseteq> S" and "children_in ns (set pending \<union> S) S"
  shows "descend ns pending result \<subseteq> S"
  using assms
proof (induction ns pending result rule: descend.induct)
  case (2 ns parent_id pending result)
  let ?children = "filter (\<lambda>n. cn_parent_group_id n = parent_id) ns"
  let ?v = "visit_children ?children result pending"
  have sub: "set (snd (visit_children cs r p)) \<subseteq> set p \<union> fst (visit_children cs r p)"
    for cs :: "'a canvas_note list" and r p
    by (induction cs r p rule: visit_children.induct) (auto simp: visit_children_result)
  have "fst ?v \<subseteq> S" using "2.prems" by (auto simp: visit_children_result children_in_def)
  moreover from this sub [of ?children result pending] "2.prems"(2)
  have "children_in ns (set (snd ?v) \<union> S) S" by (auto simp: children_in_def)
  ultimately show ?case using "2.IH" [OF refl] by (simp add: Let_def)
qed simp

lemma in_parent_rel: "(c, p) \<in> parent_rel ns \<longleftrightarrow> p \<noteq> [] \<and> (\<exists>n \<in> set ns. cn_id n = c \<and> cn_parent_group_id n = p)"
  by (auto simp: parent_rel_def)

lemma parent_is_group: "groups_ok ns \<Longrightarrow> (c, p) \<in> parent_rel ns \<Longrightarrow> p \<in> group_ids ns"
  by (auto simp: groups_ok_def in_parent_rel)

lemma descendant_ids_eq:
  assumes "groups_ok ns" and "g \<noteq> []"
  shows "descendant_ids ns g = {c. (c, g) \<in> (parent_rel ns)\<^sup>+}"
proof
  have ok: "ids_ok ns" using assms(1) by (simp add: groups_ok_def)
  let ?D = "{c. (c, g) \<in> (parent_rel ns)\<^sup>+}"
  have "x \<noteq> []" if "(x, g) \<in> (parent_rel ns)\<^sup>+" for x
    using that ok by (induction rule: converse_trancl_induct) (auto simp: in_parent_rel dest: ids_ok_nonempty)
  then have "children_in ns (set [g] \<union> ?D) ?D"
    using assms(2) by (auto simp: children_in_def intro: parent_rel_member trancl_into_trancl2 r_into_trancl)
  then show "descendant_ids ns g \<subseteq> ?D"
    unfolding descendant_ids_def by (intro descend_least) auto
  let ?R = "descendant_ids ns g"
  have closed: "children_in ns ({g} \<union> (group_ids ns \<inter> ?R)) ?R"
    using descend_closed [OF ok, of "{}" "[g]"] by (simp add: descendant_ids_def children_in_def)
  show "?D \<subseteq> ?R"
  proof
    fix c assume "c \<in> ?D"
    then have "(c, g) \<in> (parent_rel ns)\<^sup>+" by simp
    then show "c \<in> ?R"
    proof (induction rule: converse_trancl_induct)
      case (base c)
      with closed show ?case by (auto simp: children_in_def in_parent_rel)
    next
      case (step c p)
      with closed parent_is_group [OF assms(1) step(1)] show ?case by (auto simp: children_in_def in_parent_rel)
    qed
  qed
qed

lemma fold_union: "fold (\<lambda>x ids. ids \<union> f x) xs A = A \<union> (\<Union>x \<in> set xs. f x)"
  by (induction xs arbitrary: A) auto

definition selected_group_ids :: "'f canvas_note list \<Rightarrow> string set" where
  "selected_group_ids ns = cn_id ` {n \<in> set ns. cn_selected n \<and> is_group n}"

lemma expanded_selection_ids_eq:
  assumes "groups_ok ns"
  shows "expanded_selection_ids ns = selected_ids ns \<union> {c. \<exists>g \<in> selected_group_ids ns. (c, g) \<in> (parent_rel ns)\<^sup>+}"
proof -
  have "g \<noteq> []" if "g \<in> selected_group_ids ns" for g
    using that assms by (auto simp: selected_group_ids_def groups_ok_def dest: ids_ok_nonempty)
  then have "(\<Union>g \<in> selected_group_ids ns. descendant_ids ns g) = {c. \<exists>g \<in> selected_group_ids ns. (c, g) \<in> (parent_rel ns)\<^sup>+}"
    by (auto simp: descendant_ids_eq [OF assms])
  then show ?thesis
    by (simp add: expanded_selection_ids_def fold_union selected_group_ids_def is_group_def conj_commute)
qed

end
