(* ===== verification/Canvas_Groups.thy ===== *)
theory Canvas_Groups
  imports Canvas_Graph Canvas_Notes
begin

text \<open>
  The operations that change the group tree of the infinite canvas: \<open>normalize_canvas_groups\<close>
  (\<open>native-client/src/runtime/model.rs\<close>) for notes read from disk, and grouping, ungrouping and removal
  (\<open>runtime/canvas_ops.rs\<close>). A fresh UUID and the geometry of a new group are arguments.
\<close>

section \<open>Normalising notes read from disk\<close>

text \<open>\<open>parents.get(current).unwrap_or_default()\<close>; collecting into a map keeps the last entry of a key.\<close>

definition parent_of :: "(string \<times> string) list \<Rightarrow> string \<Rightarrow> string" where
  "parent_of parents i = (case map_of (rev parents) i of Some p \<Rightarrow> p | None \<Rightarrow> [])"

text \<open>The inner loop: does the chain of parents from \<open>current\<close> end before it meets a visited note?\<close>

function chain_ends :: "(string \<times> string) list \<Rightarrow> string \<Rightarrow> string set \<Rightarrow> bool" where
  "chain_ends parents current visited =
    (if current = [] then True
     else if current \<in> visited then False
     else chain_ends parents (parent_of parents current) (insert current visited))"
  by pat_completeness auto
termination
proof (relation "measures [\<lambda>(parents, current, visited). card (fst ` set parents - visited),
      \<lambda>(parents, current, visited). if current = [] then 0 else 1]", goal_cases)
  case (2 parents current visited)
  show ?case
  proof (cases "current \<in> fst ` set parents")
    case True
    with 2 have "fst ` set parents - insert current visited \<subset> fst ` set parents - visited" by auto
    then have "card (fst ` set parents - insert current visited) < card (fst ` set parents - visited)"
      by (intro psubset_card_mono) auto
    then show ?thesis by simp
  next
    case False
    then have "map_of (rev parents) current = None" by (auto simp: map_of_eq_None_iff)
    moreover from False have "fst ` set parents - insert current visited = fst ` set parents - visited" by auto
    ultimately show ?thesis using 2 by (simp add: parent_of_def)
  qed
qed simp

declare chain_ends.simps [simp del]

definition clear_foreign_parents :: "'f canvas_note list \<Rightarrow> 'f canvas_note list" where
  "clear_foreign_parents ns =
    map (\<lambda>n. if cn_parent_group_id n = cn_id n \<or> cn_parent_group_id n \<notin> group_ids ns then set_parent [] n else n) ns"

definition normalize_canvas_groups :: "'f canvas_note list \<Rightarrow> 'f canvas_note list" where
  "normalize_canvas_groups ns =
    (let ns = clear_foreign_parents ns; parents = map (\<lambda>n. (cn_id n, cn_parent_group_id n)) ns in
     map (\<lambda>n. if chain_ends parents (cn_parent_group_id n) {cn_id n} then n else set_parent [] n) ns)"

section \<open>Removing groups and notes\<close>

definition links_without :: "string set \<Rightarrow> canvas_link list \<Rightarrow> canvas_link list" where
  "links_without removed links = filter (\<lambda>l. cl_source_id l \<notin> removed \<and> cl_target_id l \<notin> removed) links"

definition notes_without :: "string set \<Rightarrow> 'f canvas_note list \<Rightarrow> 'f canvas_note list" where
  "notes_without removed ns = filter (\<lambda>n. cn_id n \<notin> removed) ns"

definition promote :: "string \<Rightarrow> string \<Rightarrow> 'f canvas_note \<Rightarrow> 'f canvas_note" where
  "promote group_id parent_id n =
    (if cn_parent_group_id n = group_id then (set_parent parent_id n)\<lparr>cn_selected := True\<rparr> else n)"

definition ungroup_selection :: "'f canvas_note list \<Rightarrow> string set \<times> 'f canvas_note list" where
  "ungroup_selection ns =
    (let groups = map (\<lambda>n. (cn_id n, cn_parent_group_id n)) (filter (\<lambda>n. cn_selected n \<and> cn_kind n = ''group'') ns);
         removed = fst ` set groups in
     (removed, notes_without removed (fold (\<lambda>(group_id, parent_id). map (promote group_id parent_id)) groups ns)))"

definition ungroup_node :: "'f canvas_note list \<Rightarrow> string \<Rightarrow> bool \<times> 'f canvas_note list" where
  "ungroup_node ns group_id =
    (case List.find (\<lambda>n. cn_id n = group_id \<and> cn_kind n = ''group'') ns of
       None \<Rightarrow> (False, ns)
     | Some g \<Rightarrow> (True, notes_without {group_id} (map (promote group_id (cn_parent_group_id g)) ns)))"

definition remove_selection ::
  "'f canvas_note list \<Rightarrow> canvas_link list \<Rightarrow> string set \<times> 'f canvas_note list \<times> canvas_link list" where
  "remove_selection ns links =
    (let removed = selected_ids ns;
         group_parents = map_of (rev (map (\<lambda>n. (cn_id n, cn_parent_group_id n))
           (filter (\<lambda>n. cn_id n \<in> removed \<and> cn_kind n = ''group'') ns)));
         moved = map (\<lambda>n. case group_parents (cn_parent_group_id n) of Some p \<Rightarrow> set_parent p n | None \<Rightarrow> n) ns in
     (removed, notes_without removed moved, links_without removed links))"

definition remove_group_with_descendants ::
  "'f canvas_note list \<Rightarrow> canvas_link list \<Rightarrow> string \<Rightarrow> string set \<times> 'f canvas_note list \<times> canvas_link list" where
  "remove_group_with_descendants ns links group_id =
    (if \<not> (\<exists>n \<in> set ns. cn_id n = group_id \<and> cn_kind n = ''group'') then ({}, ns, links)
     else let removed = insert group_id (descendant_ids ns group_id) in
       (removed, notes_without removed ns, links_without removed links))"

section \<open>Normalising gives a tree\<close>

lemma parent_of_member:
  assumes "ids_ok ns"
  shows "parent_of (map (\<lambda>n. (cn_id n, cn_parent_group_id n)) ns) i = p \<and> p \<noteq> [] \<longleftrightarrow> (i, p) \<in> parent_rel ns"
proof -
  let ?l = "map (\<lambda>n. (cn_id n, cn_parent_group_id n)) ns"
  have "distinct (map fst (rev ?l))" using assms by (simp add: ids_ok_def rev_map [symmetric] comp_def)
  then have get: "map_of (rev ?l) i = Some q \<longleftrightarrow> (i, q) \<in> set ?l" for q by (simp add: map_of_eq_Some_iff)
  have "(i, p) \<in> set ?l \<longleftrightarrow> (\<exists>n \<in> set ns. cn_id n = i \<and> cn_parent_group_id n = p)" for p by auto
  moreover have "parent_of ?l i = p \<and> p \<noteq> [] \<longleftrightarrow> map_of (rev ?l) i = Some p \<and> p \<noteq> []"
    unfolding parent_of_def by (cases "map_of (rev ?l) i") auto
  ultimately show ?thesis unfolding get in_parent_rel by blast
qed

text \<open>The chain ends exactly when no cycle can be reached from its start.\<close>

definition leads_to_cycle :: "(string \<times> string) set \<Rightarrow> string \<Rightarrow> bool" where
  "leads_to_cycle P i = (\<exists>x. (i, x) \<in> P\<^sup>* \<and> (x, x) \<in> P\<^sup>+)"

lemma leads_to_cycle_step: "(i, p) \<in> P \<Longrightarrow> leads_to_cycle P p \<Longrightarrow> leads_to_cycle P i"
  unfolding leads_to_cycle_def by (meson converse_rtrancl_into_rtrancl)

lemma leads_to_cycle_back:
  assumes "(i, p) \<in> P" and unique: "\<And>q. (i, q) \<in> P \<Longrightarrow> q = p" and "leads_to_cycle P i"
  shows "leads_to_cycle P p"
proof -
  obtain x where x: "(i, x) \<in> P\<^sup>*" "(x, x) \<in> P\<^sup>+" using assms(3) by (auto simp: leads_to_cycle_def)
  show ?thesis
  proof (cases "i = x")
    case True
    with x(2) obtain q where "(i, q) \<in> P" "(q, i) \<in> P\<^sup>*" by (meson tranclD)
    with unique [of q] assms(1) have "(p, p) \<in> P\<^sup>+" by (metis rtrancl_into_trancl1)
    then show ?thesis by (auto simp: leads_to_cycle_def)
  next
    case False
    with x(1) unique have "(p, x) \<in> P\<^sup>*" by (metis converse_rtranclE)
    with x(2) show ?thesis by (auto simp: leads_to_cycle_def)
  qed
qed

lemma chain_ends_iff:
  assumes "ids_ok ns" and "current \<noteq> [] \<Longrightarrow> \<forall>v \<in> visited. (v, current) \<in> (parent_rel ns)\<^sup>+"
  shows "chain_ends (map (\<lambda>n. (cn_id n, cn_parent_group_id n)) ns) current visited
    \<longleftrightarrow> \<not> leads_to_cycle (parent_rel ns) current \<or> current = []"
  using assms(2)
proof (induction "map (\<lambda>n. (cn_id n, cn_parent_group_id n)) ns" current visited rule: chain_ends.induct)
  case (1 current visited)
  let ?l = "map (\<lambda>n. (cn_id n, cn_parent_group_id n)) ns"
  let ?P = "parent_rel ns" and ?p = "parent_of ?l current"
  have get: "(current, q) \<in> ?P \<longleftrightarrow> ?p = q \<and> q \<noteq> []" for q using parent_of_member [OF assms(1), of current q] by blast
  consider "current = []" | "current \<noteq> []" "current \<in> visited" | "current \<noteq> []" "current \<notin> visited" by blast
  then show ?case
  proof cases
    case 2
    with 1(2) have "leads_to_cycle ?P current" by (auto simp: leads_to_cycle_def)
    with 2 show ?thesis by (simp add: chain_ends.simps)
  next
    case 3
    have reach: "\<forall>v \<in> insert current visited. (v, ?p) \<in> ?P\<^sup>+" if "?p \<noteq> []"
      using that 1(2) [OF 3(1)] get [of ?p] by (auto intro: trancl_into_trancl)
    from 1(1) [OF 3 reach] 3
    have "chain_ends ?l current visited \<longleftrightarrow> \<not> leads_to_cycle ?P ?p \<or> ?p = []"
      by (simp add: chain_ends.simps [of _ current])
    moreover have "leads_to_cycle ?P current \<longleftrightarrow> leads_to_cycle ?P ?p \<and> ?p \<noteq> []"
    proof (cases "?p = []")
      case True
      then have none: "(current, q) \<notin> ?P" for q using get by auto
      then have "\<not> leads_to_cycle ?P current"
        unfolding leads_to_cycle_def by (metis converse_rtranclE converse_tranclE)
      with True show ?thesis by simp
    next
      case False
      with get have p: "(current, ?p) \<in> ?P" by simp
      have unique: "q = ?p" if "(current, q) \<in> ?P" for q using that get by simp
      have "leads_to_cycle ?P ?p" if "leads_to_cycle ?P current"
        using p unique that by (rule leads_to_cycle_back)
      with leads_to_cycle_step [OF p] False show ?thesis by blast
    qed
    ultimately show ?thesis using 3 by blast
  qed (simp add: chain_ends.simps)
qed

lemma group_ids_map:
  "(\<And>n. cn_id (f n) = cn_id n \<and> is_group (f n) = is_group n) \<Longrightarrow> group_ids (map f ns) = group_ids ns"
  by (induction ns) (auto simp: group_ids_def)

lemma ids_ok_map: "(\<And>n. cn_id (f n) = cn_id n) \<Longrightarrow> ids_ok (map f ns) = ids_ok ns"
  by (auto simp: ids_ok_def note_ids_def comp_def image_image)

definition keeps_parent :: "'f canvas_note list \<Rightarrow> 'f canvas_note \<Rightarrow> bool" where
  "keeps_parent ns n = (cn_parent_group_id n \<in> group_ids ns \<and> cn_parent_group_id n \<noteq> cn_id n
    \<and> \<not> leads_to_cycle (parent_rel (clear_foreign_parents ns)) (cn_id n))"

lemma normalize_eq:
  assumes "ids_ok ns"
  shows "normalize_canvas_groups ns = map (\<lambda>n. if keeps_parent ns n then n else set_parent [] n) ns"
proof -
  let ?c = "clear_foreign_parents ns"
  let ?clear = "\<lambda>n. if cn_parent_group_id n = cn_id n \<or> cn_parent_group_id n \<notin> group_ids ns then set_parent [] n else n"
  have ok: "ids_ok ?c" unfolding clear_foreign_parents_def by (subst ids_ok_map) (auto simp: assms)
  have ends: "chain_ends (map (\<lambda>n. (cn_id n, cn_parent_group_id n)) ?c) (cn_parent_group_id n) {cn_id n}
      \<longleftrightarrow> \<not> leads_to_cycle (parent_rel ?c) (cn_id n) \<or> cn_parent_group_id n = []" if n: "n \<in> set ?c" for n
  proof (cases "cn_parent_group_id n = []")
    case False
    with n have edge: "(cn_id n, cn_parent_group_id n) \<in> parent_rel ?c" by (rule parent_rel_member)
    then have "\<forall>v \<in> {cn_id n}. (v, cn_parent_group_id n) \<in> (parent_rel ?c)\<^sup>+" by auto
    then have "chain_ends (map (\<lambda>n. (cn_id n, cn_parent_group_id n)) ?c) (cn_parent_group_id n) {cn_id n}
        \<longleftrightarrow> \<not> leads_to_cycle (parent_rel ?c) (cn_parent_group_id n) \<or> cn_parent_group_id n = []"
      by (intro chain_ends_iff [OF ok])
    moreover have "leads_to_cycle (parent_rel ?c) (cn_parent_group_id n) = leads_to_cycle (parent_rel ?c) (cn_id n)"
      using leads_to_cycle_step [OF edge] leads_to_cycle_back [OF edge parent_rel_fun [OF ok _ edge]] by blast
    ultimately show ?thesis by simp
  qed (simp add: chain_ends.simps)
  have nil: "set_parent [] n = n" if "cn_parent_group_id n = []" for n :: "'a canvas_note"
    using that by (simp add: set_parent_def)
  have "(if chain_ends (map (\<lambda>n. (cn_id n, cn_parent_group_id n)) ?c) (cn_parent_group_id (?clear n)) {cn_id (?clear n)}
      then ?clear n else set_parent [] (?clear n)) = (if keeps_parent ns n then n else set_parent [] n)" if "n \<in> set ns" for n
  proof (cases "cn_parent_group_id n = cn_id n \<or> cn_parent_group_id n \<notin> group_ids ns")
    case True
    then show ?thesis by (auto simp: keeps_parent_def chain_ends.simps)
  next
    case False
    with that have "n \<in> set ?c" by (force simp: clear_foreign_parents_def)
    from ends [OF this] False nil [of n] show ?thesis by (auto simp: keeps_parent_def)
  qed
  then show ?thesis
    unfolding normalize_canvas_groups_def Let_def by (simp add: clear_foreign_parents_def [of ns] cong: map_cong)
qed

lemma groups_ok_no_self:
  assumes "groups_ok ns" and "n \<in> set ns" and "cn_parent_group_id n \<noteq> []"
  shows "cn_parent_group_id n \<noteq> cn_id n"
  using parent_rel_member [OF assms(2,3)] assms(1) unfolding groups_ok_def acyclic_def by (metis r_into_trancl)

lemma groups_ok_keeps:
  assumes "groups_ok ns" and "n \<in> set ns" and "cn_parent_group_id n \<noteq> []"
  shows "keeps_parent ns n"
proof -
  have same: "clear_foreign_parents ns = ns"
  proof -
    have "(if cn_parent_group_id n = cn_id n \<or> cn_parent_group_id n \<notin> group_ids ns then set_parent [] n else n) = n"
      if n: "n \<in> set ns" for n
    proof (cases "cn_parent_group_id n = []")
      case False
      with groups_ok_no_self [OF assms(1) n] n assms(1) show ?thesis by (auto simp: groups_ok_def)
    qed (simp add: set_parent_def)
    then show ?thesis by (simp add: clear_foreign_parents_def map_idI)
  qed
  with groups_ok_no_self [OF assms] assms show ?thesis by (auto simp: keeps_parent_def same leads_to_cycle_def groups_ok_def acyclic_def)
qed

lemma groups_ok_normalize:
  assumes "groups_ok ns"
  shows "normalize_canvas_groups ns = ns"
proof -
  have "ids_ok ns" using assms by (simp add: groups_ok_def)
  moreover have "(if keeps_parent ns n then n else set_parent [] n) = n" if "n \<in> set ns" for n
    using groups_ok_keeps [OF assms that] by (cases "cn_parent_group_id n = []") (auto simp: set_parent_def)
  ultimately show ?thesis by (simp add: normalize_eq map_idI)
qed

lemma groups_ok_normalized:
  assumes "ids_ok ns"
  shows "groups_ok (normalize_canvas_groups ns)"
proof -
  let ?f = "\<lambda>n. if keeps_parent ns n then n else set_parent [] n"
  let ?m = "map ?f ns" and ?P = "parent_rel (clear_foreign_parents ns)"
  have groups: "group_ids ?m = group_ids ns" by (rule group_ids_map) simp
  have sub: "parent_rel ?m \<subseteq> ?P"
    by (fastforce simp: in_parent_rel clear_foreign_parents_def keeps_parent_def split: if_splits)
  have "acyclic (parent_rel ?m)"
    unfolding acyclic_def
  proof (intro allI notI)
    fix x assume "(x, x) \<in> (parent_rel ?m)\<^sup>+"
    then obtain y where "(x, y) \<in> parent_rel ?m" by (meson tranclD)
    then have "\<not> leads_to_cycle ?P x" by (auto simp: in_parent_rel keeps_parent_def split: if_splits)
    with \<open>(x, x) \<in> (parent_rel ?m)\<^sup>+\<close> trancl_mono [OF _ sub] show False by (auto simp: leads_to_cycle_def)
  qed
  moreover have "ids_ok ?m" using assms by (subst ids_ok_map) auto
  moreover have "cn_parent_group_id n = [] \<or> cn_parent_group_id n \<in> group_ids ns" if "n \<in> set ?m" for n
    using that by (auto simp: keeps_parent_def)
  ultimately have "groups_ok ?m" by (simp only: groups_ok_def groups) blast
  then show ?thesis by (simp add: normalize_eq [OF assms])
qed

text \<open>
  C38: reading a canvas repairs its group tree. Whatever parents the stored notes name, the result
  is a tree: a note keeps its parent exactly when that is an existing group other than the note and
  the chain of parents above it meets no cycle, and is a top-level note otherwise; nothing else of a
  note changes. A canvas that is a tree is left alone, so normalising twice is normalising once.
\<close>

theorem normalize_gives_a_tree:
  assumes "ids_ok ns"
  shows "groups_ok (normalize_canvas_groups ns)
    \<and> normalize_canvas_groups ns = map (\<lambda>n. if keeps_parent ns n then n else set_parent [] n) ns
    \<and> (groups_ok ns \<longrightarrow> normalize_canvas_groups ns = ns)
    \<and> normalize_canvas_groups (normalize_canvas_groups ns) = normalize_canvas_groups ns"
  using groups_ok_normalized [OF assms] normalize_eq [OF assms] groups_ok_normalize by metis

definition witness_note :: "string \<Rightarrow> string \<Rightarrow> string \<Rightarrow> bool \<Rightarrow> int canvas_note" where
  "witness_note i k p sel = \<lparr>cn_id = i, cn_kind = k, cn_content = [], cn_x = 0, cn_y = 0, cn_width = 280, cn_height = 176,
    cn_parent_group_id = p, cn_z_index = 0, cn_image_path = [], cn_font_size = 12, cn_selected = sel\<rparr>"

theorem normalize_gives_a_tree_witness:
  "groups_ok (normalize_canvas_groups [witness_note ''a'' ''group'' ''b'' False, witness_note ''b'' ''group'' ''a'' False])
   \<and> normalize_canvas_groups [witness_note ''a'' ''group'' ''b'' False, witness_note ''b'' ''group'' ''a'' False]
     = [witness_note ''a'' ''group'' [] False, witness_note ''b'' ''group'' [] False]"
proof -
  let ?ns = "[witness_note ''a'' ''group'' ''b'' False, witness_note ''b'' ''group'' ''a'' False]"
  have "ids_ok ?ns" by (simp add: ids_ok_def note_ids_def witness_note_def)
  from normalize_gives_a_tree [OF this] have "groups_ok (normalize_canvas_groups ?ns)" by blast
  moreover have "normalize_canvas_groups ?ns = [witness_note ''a'' ''group'' [] False, witness_note ''b'' ''group'' [] False]"
    by (simp add: normalize_canvas_groups_def clear_foreign_parents_def group_ids_def is_group_def witness_note_def
        Let_def chain_ends.simps parent_of_def set_parent_def)
  ultimately show ?thesis by blast
qed

end
