(* ===== verification/Canvas_Edit.thy ===== *)
theory Canvas_Edit
  imports Canvas_Groups
begin

text \<open>
  What the removals of \<open>native-client/src/runtime/canvas_ops.rs\<close> do to the group tree and to the links:
  when they keep the tree, and two selections for which they do not.
\<close>

section \<open>Taking groups out of the tree\<close>

text \<open>
  The children of every group of \<open>D\<close> move up to the parent of that group, then the notes of \<open>D\<close> go.
  A note that stays is stranded when its group goes and the parent of that group goes as well: the result
  is a tree when no note that stays is stranded.
\<close>

definition stranded :: "'f canvas_note list \<Rightarrow> string set \<Rightarrow> 'f canvas_note \<Rightarrow> bool" where
  "stranded ns D n = (\<exists>g \<in> set ns. is_group g \<and> cn_id g \<in> D \<and> cn_id g = cn_parent_group_id n \<and> cn_parent_group_id g \<in> D)"

definition flat_in :: "'f canvas_note list \<Rightarrow> string set \<Rightarrow> bool" where
  "flat_in ns D = (\<forall>g \<in> set ns. cn_id g \<in> D \<longrightarrow> is_group g \<longrightarrow> cn_parent_group_id g \<notin> D)"

lemma groups_ok_parent_cases:
  assumes "groups_ok ns" and "n \<in> set ns"
  obtains "cn_parent_group_id n = []"
    | g where "g \<in> set ns" "is_group g" "cn_id g = cn_parent_group_id n"
  using assms by (force simp: groups_ok_def group_ids_def)

lemma in_notes_without: "n \<in> set (notes_without D ns) \<longleftrightarrow> n \<in> set ns \<and> cn_id n \<notin> D"
  by (simp add: notes_without_def)

lemma ids_ok_without: "ids_ok ns \<Longrightarrow> ids_ok (notes_without D ns)"
  by (auto simp: ids_ok_def notes_without_def note_ids_def distinct_map_filter)

lemma group_ids_without: "group_ids (notes_without D ns) = group_ids ns - D"
  by (auto simp: group_ids_def notes_without_def)

lemma splice_ok:
  assumes ok: "groups_ok ns" and flat: "\<And>n. n \<in> set ns \<Longrightarrow> cn_id n \<notin> D \<Longrightarrow> \<not> stranded ns D n" and nonempty: "[] \<notin> D"
    and same: "\<And>n. cn_id (f n) = cn_id n" "\<And>n. is_group (f n) = is_group n"
    and keep: "\<And>n. n \<in> set ns \<Longrightarrow> cn_parent_group_id n \<notin> D \<Longrightarrow> cn_parent_group_id (f n) = cn_parent_group_id n"
    and lift: "\<And>n g. n \<in> set ns \<Longrightarrow> g \<in> set ns \<Longrightarrow> is_group g \<Longrightarrow> cn_id g \<in> D \<Longrightarrow> cn_parent_group_id n = cn_id g
      \<Longrightarrow> cn_parent_group_id (f n) = cn_parent_group_id g"
  shows "groups_ok (notes_without D (map f ns))"
proof -
  have parent: "(cn_parent_group_id (f n) = [] \<or> cn_parent_group_id (f n) \<in> group_ids ns - D)
      \<and> (cn_parent_group_id (f n) \<noteq> [] \<longrightarrow> (cn_id n, cn_parent_group_id (f n)) \<in> (parent_rel ns)\<^sup>+)"
    if n: "n \<in> set ns" and stays: "cn_id n \<notin> D" for n
  proof (cases "cn_parent_group_id n \<in> D")
    case True
    with nonempty have "cn_parent_group_id n \<noteq> []" by auto
    with ok n obtain g where g: "g \<in> set ns" "is_group g" "cn_id g = cn_parent_group_id n"
      by (auto elim: groups_ok_parent_cases)
    then have inD: "cn_id g \<in> D" using True by simp
    have up: "cn_parent_group_id (f n) = cn_parent_group_id g" by (rule lift [OF n g(1,2) inD g(3) [symmetric]])
    have "(cn_id n, cn_id g) \<in> parent_rel ns"
      unfolding g(3) using n \<open>cn_parent_group_id n \<noteq> []\<close> by (rule parent_rel_member)
    then have edge: "(cn_id n, cn_parent_group_id g) \<in> (parent_rel ns)\<^sup>+" if "cn_parent_group_id g \<noteq> []"
      using parent_rel_member [OF g(1) that] by (rule trancl_into_trancl2 [OF _ r_into_trancl])
    have "cn_parent_group_id g \<notin> D" using flat [OF n stays] g inD unfolding stranded_def by blast
    moreover have "cn_parent_group_id g = [] \<or> cn_parent_group_id g \<in> group_ids ns"
      using ok g(1) by (simp add: groups_ok_def)
    ultimately show ?thesis unfolding up using edge by blast
  next
    case False
    moreover have "cn_parent_group_id n = [] \<or> cn_parent_group_id n \<in> group_ids ns"
      using ok n by (simp add: groups_ok_def)
    ultimately show ?thesis unfolding keep [OF n False] using parent_rel_member [OF n] by blast
  qed
  have groups: "group_ids (notes_without D (map f ns)) = group_ids ns - D"
    by (simp add: group_ids_without group_ids_map same)
  have "parent_rel (notes_without D (map f ns)) \<subseteq> (parent_rel ns)\<^sup>+"
    using parent same by (auto simp: in_parent_rel in_notes_without)
  moreover have "acyclic ((parent_rel ns)\<^sup>+)" using ok by (simp add: groups_ok_def acyclic_def)
  ultimately have "acyclic (parent_rel (notes_without D (map f ns)))" by (rule acyclic_subset [rotated])
  moreover have "ids_ok (notes_without D (map f ns))"
    using ok by (intro ids_ok_without) (simp add: ids_ok_map same groups_ok_def)
  moreover have "\<forall>n \<in> set (notes_without D (map f ns)). cn_parent_group_id n = [] \<or> cn_parent_group_id n \<in> group_ids ns - D"
  proof
    fix m assume "m \<in> set (notes_without D (map f ns))"
    then obtain n where "n \<in> set ns" "cn_id n \<notin> D" "m = f n" using same(1) by (auto simp: in_notes_without)
    then show "cn_parent_group_id m = [] \<or> cn_parent_group_id m \<in> group_ids ns - D" using parent by blast
  qed
  ultimately show ?thesis unfolding groups_ok_def groups by blast
qed

section \<open>Each removal\<close>

lemma ids_ok_find:
  assumes "ids_ok ns" and "g \<in> set ns" and "is_group g"
  shows "List.find (\<lambda>n. cn_id n = cn_id g \<and> cn_kind n = ''group'') ns = Some g"
  using assms by (induction ns) (auto simp: ids_ok_def note_ids_def is_group_def image_iff)

lemma group_entries:
  assumes "distinct (map cn_id gs)"
  shows "map_of (map (\<lambda>n. (cn_id n, cn_parent_group_id n)) gs) i = Some p
    \<longleftrightarrow> (\<exists>g \<in> set gs. cn_id g = i \<and> cn_parent_group_id g = p)"
proof -
  have "distinct (map fst (map (\<lambda>n. (cn_id n, cn_parent_group_id n)) gs))" using assms by (simp add: comp_def)
  from map_of_eq_Some_iff [OF this] show ?thesis by auto
qed

definition lifted :: "'f canvas_note list \<Rightarrow> string set \<Rightarrow> 'f canvas_note \<Rightarrow> string" where
  "lifted ns D n = (case List.find (\<lambda>g. cn_id g = cn_parent_group_id n \<and> is_group g \<and> cn_id g \<in> D) ns of
     Some g \<Rightarrow> cn_parent_group_id g | None \<Rightarrow> cn_parent_group_id n)"

lemma lifted_simps:
  assumes "ids_ok ns"
  shows "cn_parent_group_id n \<notin> D \<Longrightarrow> lifted ns D n = cn_parent_group_id n"
    and "g \<in> set ns \<Longrightarrow> is_group g \<Longrightarrow> cn_id g \<in> D \<Longrightarrow> cn_parent_group_id n = cn_id g
      \<Longrightarrow> lifted ns D n = cn_parent_group_id g"
proof -
  show "lifted ns D n = cn_parent_group_id n" if "cn_parent_group_id n \<notin> D"
  proof -
    have "List.find (\<lambda>g. cn_id g = cn_parent_group_id n \<and> is_group g \<and> cn_id g \<in> D) ns = None"
      using that by (auto simp: find_None_iff)
    then show ?thesis by (simp add: lifted_def)
  qed
  show "lifted ns D n = cn_parent_group_id g"
    if g: "g \<in> set ns" "is_group g" "cn_id g \<in> D" "cn_parent_group_id n = cn_id g"
  proof -
    have "List.find (\<lambda>h. cn_id h = cn_id g \<and> is_group h \<and> cn_id h \<in> D) ns = Some g"
      using g(1-3) assms by (induction ns) (auto simp: ids_ok_def note_ids_def image_iff)
    with g(4) show ?thesis by (simp add: lifted_def)
  qed
qed

lemma set_parent_same: "cn_parent_group_id n = p \<Longrightarrow> set_parent p n = n"
  by (auto simp: set_parent_def)

lemma distinct_filter_ids: "ids_ok ns \<Longrightarrow> distinct (map cn_id (filter P ns))"
  by (simp add: ids_ok_def distinct_map_filter)

text \<open>What each of the two operations does to the notes it keeps, when no selected group lies in another.\<close>

definition raised :: "'f canvas_note list \<Rightarrow> string set \<Rightarrow> 'f canvas_note \<Rightarrow> 'f canvas_note" where
  "raised ns D n = (if \<exists>g \<in> set ns. is_group g \<and> cn_id g \<in> D \<and> cn_id g = cn_parent_group_id n
     then (set_parent (lifted ns D n) n)\<lparr>cn_selected := True\<rparr> else n)"

lemma remove_selection_eq:
  assumes "ids_ok ns"
  shows "remove_selection ns links = (selected_ids ns,
    notes_without (selected_ids ns) (map (\<lambda>n. set_parent (lifted ns (selected_ids ns) n) n) ns), links_without (selected_ids ns) links)"
proof -
  let ?D = "selected_ids ns" and ?gs = "filter (\<lambda>n. cn_id n \<in> selected_ids ns \<and> cn_kind n = ''group'') ns"
  let ?m = "map_of (rev (map (\<lambda>n. (cn_id n, cn_parent_group_id n)) ?gs))"
  have entries: "?m i = Some p \<longleftrightarrow> (\<exists>g \<in> set ?gs. cn_id g = i \<and> cn_parent_group_id g = p)" for i p
  proof -
    have "distinct (map cn_id (rev ?gs))" using distinct_filter_ids [OF assms] by (simp add: rev_map [symmetric])
    from group_entries [OF this, of i p] show ?thesis by (simp add: rev_map)
  qed
  have "(case ?m (cn_parent_group_id n) of Some p \<Rightarrow> set_parent p n | None \<Rightarrow> n) = set_parent (lifted ns ?D n) n" for n
  proof (cases "?m (cn_parent_group_id n)")
    case None
    have "List.find (\<lambda>g. cn_id g = cn_parent_group_id n \<and> is_group g \<and> cn_id g \<in> ?D) ns = None"
      using None entries [of "cn_parent_group_id n"] by (auto simp: find_None_iff is_group_def)
    with None show ?thesis by (simp add: lifted_def set_parent_same)
  next
    case (Some p)
    with entries obtain g where g: "g \<in> set ?gs" "cn_id g = cn_parent_group_id n" "cn_parent_group_id g = p" by blast
    from g(1) have "g \<in> set ns" "is_group g" "cn_id g \<in> ?D" by (simp_all add: is_group_def)
    from lifted_simps(2) [OF assms this g(2) [symmetric]] g(3) Some show ?thesis by simp
  qed
  then show ?thesis by (simp add: remove_selection_def Let_def)
qed

lemma fold_promote:
  assumes "distinct (map fst gs)" and "\<And>g p. (g, p) \<in> set gs \<Longrightarrow> p \<notin> fst ` set gs"
  shows "fold (\<lambda>(group_id, parent_id). map (promote group_id parent_id)) gs ns
    = map (\<lambda>n. case map_of gs (cn_parent_group_id n) of
        Some p \<Rightarrow> (set_parent p n)\<lparr>cn_selected := True\<rparr> | None \<Rightarrow> n) ns"
  using assms
proof (induction gs arbitrary: ns)
  case (Cons e gs)
  obtain g p where e: "e = (g, p)" by fastforce
  have IH: "fold (\<lambda>(group_id, parent_id). map (promote group_id parent_id)) gs ms
    = map (\<lambda>n. case map_of gs (cn_parent_group_id n) of
        Some p \<Rightarrow> (set_parent p n)\<lparr>cn_selected := True\<rparr> | None \<Rightarrow> n) ms" for ms :: "'a canvas_note list"
    by (rule Cons.IH) (use Cons.prems in auto)
  have "p \<notin> fst ` set gs" using Cons.prems(2) [of g p] e by auto
  then have "map_of gs p = None" by (simp add: map_of_eq_None_iff)
  then have "(case map_of gs (cn_parent_group_id (promote g p n)) of
        Some q \<Rightarrow> (set_parent q (promote g p n))\<lparr>cn_selected := True\<rparr> | None \<Rightarrow> promote g p n)
      = (case map_of (e # gs) (cn_parent_group_id n) of
        Some q \<Rightarrow> (set_parent q n)\<lparr>cn_selected := True\<rparr> | None \<Rightarrow> n)" for n :: "'a canvas_note"
    by (cases "cn_parent_group_id n = g") (simp_all add: promote_def e split: option.split)
  moreover have "fold (\<lambda>(group_id, parent_id). map (promote group_id parent_id)) (e # gs) ns
    = fold (\<lambda>(group_id, parent_id). map (promote group_id parent_id)) gs (map (promote g p) ns)" by (simp add: e)
  ultimately show ?case unfolding IH by simp
qed simp

lemma ungroup_selection_eq:
  assumes "ids_ok ns" and "flat_in ns (selected_group_ids ns)"
  shows "ungroup_selection ns = (selected_group_ids ns,
    notes_without (selected_group_ids ns) (map (raised ns (selected_group_ids ns)) ns))"
proof -
  let ?D = "selected_group_ids ns" and ?sel = "filter (\<lambda>n. cn_selected n \<and> cn_kind n = ''group'') ns"
  let ?gs = "map (\<lambda>n. (cn_id n, cn_parent_group_id n)) ?sel"
  have removed: "fst ` set ?gs = ?D" by (auto simp: selected_group_ids_def is_group_def image_image)
  have distinct: "distinct (map cn_id ?sel)" by (rule distinct_filter_ids [OF assms(1)])
  have "p \<notin> fst ` set ?gs" if "(g, p) \<in> set ?gs" for g p
    using that assms(2) unfolding removed by (auto simp: flat_in_def is_group_def selected_group_ids_def)
  then have fold: "fold (\<lambda>(group_id, parent_id). map (promote group_id parent_id)) ?gs ns
    = map (\<lambda>n. case map_of ?gs (cn_parent_group_id n) of
        Some p \<Rightarrow> (set_parent p n)\<lparr>cn_selected := True\<rparr> | None \<Rightarrow> n) ns"
    using distinct by (intro fold_promote) (simp_all add: comp_def)
  have "(case map_of ?gs (cn_parent_group_id n) of Some p \<Rightarrow> (set_parent p n)\<lparr>cn_selected := True\<rparr> | None \<Rightarrow> n) = raised ns ?D n" for n
  proof (cases "map_of ?gs (cn_parent_group_id n)")
    case None
    have none: "cn_id g \<noteq> cn_parent_group_id n" if "g \<in> set ?sel" for g
    proof -
      from that have "(cn_id g, cn_parent_group_id g) \<in> set ?gs" by simp
      then have member: "cn_id g \<in> fst ` set ?gs" by (rule image_eqI [rotated]) simp
      from None have absent: "cn_parent_group_id n \<notin> fst ` set ?gs" by (simp only: map_of_eq_None_iff not_False_eq_True)
      show ?thesis
      proof
        assume same: "cn_id g = cn_parent_group_id n"
        show False using absent member unfolding same by (rule notE)
      qed
    qed
    have "\<not> (\<exists>g \<in> set ns. is_group g \<and> cn_id g \<in> ?D \<and> cn_id g = cn_parent_group_id n)"
    proof
      assume "\<exists>g \<in> set ns. is_group g \<and> cn_id g \<in> ?D \<and> cn_id g = cn_parent_group_id n"
      then have "cn_parent_group_id n \<in> ?D" by metis
      then obtain h where "h \<in> set ?sel" "cn_id h = cn_parent_group_id n"
        by (auto simp: selected_group_ids_def is_group_def)
      with none show False by blast
    qed
    then have "raised ns ?D n = n" unfolding raised_def by (rule if_not_P)
    with None show ?thesis by simp
  next
    case (Some p)
    with group_entries [OF distinct] obtain g where g: "g \<in> set ?sel" "cn_id g = cn_parent_group_id n" "cn_parent_group_id g = p"
      by blast
    from g(1) have "g \<in> set ns" "is_group g" "cn_id g \<in> ?D" by (auto simp: is_group_def selected_group_ids_def)
    then have "lifted ns ?D n = p" unfolding g(3) [symmetric] using g(2) [symmetric] by (rule lifted_simps(2) [OF assms(1)])
    moreover have "\<exists>g \<in> set ns. is_group g \<and> cn_id g \<in> ?D \<and> cn_id g = cn_parent_group_id n"
      using \<open>g \<in> set ns\<close> \<open>is_group g\<close> \<open>cn_id g \<in> ?D\<close> g(2) by blast
    ultimately show ?thesis using Some unfolding raised_def by simp
  qed
  with fold removed show ?thesis by (simp add: ungroup_selection_def Let_def)
qed

lemma raised_simps [simp]: "cn_id (raised ns D n) = cn_id n" "is_group (raised ns D n) = is_group n"
  by (simp_all add: raised_def)

lemma raised_parent:
  assumes "ids_ok ns"
  shows "cn_parent_group_id (raised ns D n) = lifted ns D n"
proof (cases "\<exists>g \<in> set ns. is_group g \<and> cn_id g \<in> D \<and> cn_id g = cn_parent_group_id n")
  case False
  then have "List.find (\<lambda>g. cn_id g = cn_parent_group_id n \<and> is_group g \<and> cn_id g \<in> D) ns = None"
    by (auto simp: find_None_iff)
  with False show ?thesis by (simp add: raised_def lifted_def)
qed (simp add: raised_def)

lemma flat_not_stranded: "flat_in ns D \<Longrightarrow> \<not> stranded ns D n"
  by (auto simp: flat_in_def stranded_def)

lemma remove_selection_ok_iff:
  assumes "groups_ok ns"
  shows "groups_ok (fst (snd (remove_selection ns links))) \<longleftrightarrow>
    (\<forall>n \<in> set ns. cn_id n \<notin> selected_ids ns \<longrightarrow> \<not> stranded ns (selected_ids ns) n)"
proof -
  let ?D = "selected_ids ns"
  let ?f = "\<lambda>n. set_parent (lifted ns ?D n) n"
  have ids: "ids_ok ns" using assms(1) by (simp add: groups_ok_def)
  then have nonempty: "[] \<notin> ?D" by (auto simp: selected_ids_def dest: ids_ok_nonempty)
  have "groups_ok (notes_without ?D (map ?f ns))"
    if "\<forall>n \<in> set ns. cn_id n \<notin> ?D \<longrightarrow> \<not> stranded ns ?D n"
    using that nonempty by (intro splice_ok [OF assms(1)]) (simp_all add: lifted_simps [OF ids])
  moreover have "\<not> groups_ok (notes_without ?D (map ?f ns))"
    if n: "n \<in> set ns" "cn_id n \<notin> ?D" "stranded ns ?D n" for n
  proof -
    from n(3) obtain g where g: "g \<in> set ns" "is_group g" "cn_id g \<in> ?D" "cn_id g = cn_parent_group_id n" "cn_parent_group_id g \<in> ?D"
      unfolding stranded_def by blast
    from lifted_simps(2) [OF ids g(1-3) g(4) [symmetric]] have "cn_parent_group_id (?f n) = cn_parent_group_id g" by simp
    moreover have "?f n \<in> set (notes_without ?D (map ?f ns))" using n(1,2) by (simp add: in_notes_without)
    moreover have "cn_parent_group_id g \<noteq> []" using g(5) nonempty by auto
    ultimately show ?thesis
      using g(5) unfolding groups_ok_def group_ids_without by force
  qed
  ultimately show ?thesis unfolding remove_selection_eq [OF ids] fst_conv snd_conv by blast
qed

lemma ungroup_selection_ok:
  assumes "groups_ok ns" and "flat_in ns (selected_group_ids ns)"
  shows "groups_ok (snd (ungroup_selection ns))"
proof -
  have ids: "ids_ok ns" using assms(1) by (simp add: groups_ok_def)
  then have "[] \<notin> selected_group_ids ns" by (auto simp: selected_group_ids_def dest: ids_ok_nonempty)
  then show ?thesis
    unfolding ungroup_selection_eq [OF ids assms(2)] snd_conv
    by (intro splice_ok [OF assms(1) flat_not_stranded [OF assms(2)]])
      (simp_all add: raised_parent [OF ids] lifted_simps [OF ids])
qed

section \<open>The properties\<close>

text \<open>
  C37: deleting the selection promotes children by exactly one level. The selected notes go, with every link
  that touches one of them; a note whose group goes moves to the parent of that group; every other note
  is kept as it was. The result is a tree exactly when no note that stays is stranded, that is,
  has both its group and the parent of its group selected; such a note ends in a group that no
  longer exists. Ungrouping keeps the tree when no selected group lies directly in another selected group.
\<close>

theorem removal_promotes_children:
  assumes "groups_ok ns"
    and "remove_selection ns links = (removed, ns', links')" and "ungroup_selection ns = (ungrouped, ns'')"
  shows "removed = selected_ids ns
    \<and> ns' = notes_without removed (map (\<lambda>n. set_parent (lifted ns removed n) n) ns)
    \<and> set links' = {l \<in> set links. cl_source_id l \<notin> removed \<and> cl_target_id l \<notin> removed}
    \<and> (groups_ok ns' \<longleftrightarrow> (\<forall>n \<in> set ns. cn_id n \<notin> removed \<longrightarrow> \<not> stranded ns removed n))
    \<and> (flat_in ns (selected_group_ids ns) \<longrightarrow> groups_ok ns'' \<and> ungrouped = selected_group_ids ns
        \<and> ns'' = notes_without ungrouped (map (raised ns ungrouped) ns))"
proof -
  have ids: "ids_ok ns" using assms(1) by (simp add: groups_ok_def)
  from assms(2) remove_selection_eq [OF ids, of links]
  have r: "removed = selected_ids ns" "ns' = notes_without removed (map (\<lambda>n. set_parent (lifted ns removed n) n) ns)"
    "links' = links_without removed links" by auto
  have tree: "groups_ok ns' \<longleftrightarrow> (\<forall>n \<in> set ns. cn_id n \<notin> removed \<longrightarrow> \<not> stranded ns removed n)"
    using remove_selection_ok_iff [OF assms(1), of links] assms(2) r(1) by simp
  have "groups_ok ns'' \<and> ungrouped = selected_group_ids ns \<and> ns'' = notes_without ungrouped (map (raised ns ungrouped) ns)"
    if flat: "flat_in ns (selected_group_ids ns)"
    using ungroup_selection_eq [OF ids flat] ungroup_selection_ok [OF assms(1) flat] assms(3) by auto
  moreover have "set links' = {l \<in> set links. cl_source_id l \<notin> removed \<and> cl_target_id l \<notin> removed}"
    by (auto simp: r(3) links_without_def)
  ultimately show ?thesis using r(1,2) tree by blast
qed

lemma witness_tree_ok:
  "groups_ok [witness_note ''o'' ''group'' [] a, witness_note ''m'' ''group'' ''o'' b,
     witness_note ''i'' ''group'' ''m'' c, witness_note ''t'' ''text'' ''i'' d]"
proof -
  let ?ns = "[witness_note ''o'' ''group'' [] a, witness_note ''m'' ''group'' ''o'' b,
     witness_note ''i'' ''group'' ''m'' c, witness_note ''t'' ''text'' ''i'' d]"
  have "ids_ok ?ns" by (simp add: ids_ok_def note_ids_def witness_note_def)
  moreover have "normalize_canvas_groups ?ns = ?ns"
    by (simp add: normalize_canvas_groups_def clear_foreign_parents_def group_ids_def is_group_def witness_note_def
        Let_def chain_ends.simps parent_of_def set_parent_def)
  ultimately show ?thesis by (metis groups_ok_normalized)
qed

theorem removal_promotes_children_witness:
  "remove_selection [witness_note ''o'' ''group'' [] False, witness_note ''m'' ''group'' ''o'' True,
      witness_note ''i'' ''group'' ''m'' False, witness_note ''t'' ''text'' ''i'' True] []
   = ({''m'', ''t''}, [witness_note ''o'' ''group'' [] False, witness_note ''i'' ''group'' ''o'' False], [])
   \<and> groups_ok [witness_note ''o'' ''group'' [] False, witness_note ''i'' ''group'' ''o'' False]"
proof -
  let ?ns = "[witness_note ''o'' ''group'' [] False, witness_note ''m'' ''group'' ''o'' True,
      witness_note ''i'' ''group'' ''m'' False, witness_note ''t'' ''text'' ''i'' True]"
  have removed: "remove_selection ?ns []
      = ({''m'', ''t''}, [witness_note ''o'' ''group'' [] False, witness_note ''i'' ''group'' ''o'' False], [])"
    by (simp add: remove_selection_def selected_ids_def witness_note_def notes_without_def links_without_def set_parent_def)
  have "\<not> stranded ?ns {''m'', ''t''} n" for n
    by (auto simp: stranded_def witness_note_def is_group_def)
  with removal_promotes_children [OF witness_tree_ok removed prod.collapse [symmetric]]
  have "groups_ok [witness_note ''o'' ''group'' [] False, witness_note ''i'' ''group'' ''o'' False]" by blast
  with removed show ?thesis by blast
qed

text \<open>
  A selection that strands a note: a group inside a group, both selected. The parents of the removed
  groups are read before any of them is replaced, so the child of the inner group is given the outer
  group, which is removed with it, although a group further out survives. When the canvas is read
  back the child has lost its place in the surviving group.
\<close>

definition nested_selection :: "int canvas_note list" where
  "nested_selection = [witness_note ''o'' ''group'' [] False, witness_note ''m'' ''group'' ''o'' True,
     witness_note ''i'' ''group'' ''m'' True, witness_note ''t'' ''text'' ''i'' False]"

lemma stranded_not_ok: "\<not> groups_ok [witness_note ''o'' ''group'' [] False, witness_note ''t'' ''text'' ''m'' b]"
  by (simp add: groups_ok_def group_ids_def is_group_def witness_note_def)

lemma remove_selection_strands_child:
  "groups_ok nested_selection
   \<and> fst (snd (remove_selection nested_selection []))
     = [witness_note ''o'' ''group'' [] False, witness_note ''t'' ''text'' ''m'' False]
   \<and> \<not> groups_ok (fst (snd (remove_selection nested_selection [])))
   \<and> normalize_canvas_groups (fst (snd (remove_selection nested_selection [])))
     = [witness_note ''o'' ''group'' [] False, witness_note ''t'' ''text'' [] False]"
proof -
  have removed: "fst (snd (remove_selection nested_selection []))
      = [witness_note ''o'' ''group'' [] False, witness_note ''t'' ''text'' ''m'' False]"
    by (simp add: nested_selection_def remove_selection_def selected_ids_def witness_note_def notes_without_def set_parent_def Let_def)
  have "normalize_canvas_groups [witness_note ''o'' ''group'' [] False, witness_note ''t'' ''text'' ''m'' False]
      = [witness_note ''o'' ''group'' [] False, witness_note ''t'' ''text'' [] False]"
    by (simp add: normalize_canvas_groups_def clear_foreign_parents_def group_ids_def is_group_def witness_note_def
        Let_def chain_ends.simps parent_of_def set_parent_def)
  with witness_tree_ok stranded_not_ok show ?thesis unfolding removed by (simp add: nested_selection_def)
qed

lemma ungroup_selection_strands_child:
  "groups_ok nested_selection
   \<and> snd (ungroup_selection nested_selection)
     = [witness_note ''o'' ''group'' [] False, witness_note ''t'' ''text'' ''m'' True]
   \<and> \<not> groups_ok (snd (ungroup_selection nested_selection))"
proof -
  have ungrouped: "snd (ungroup_selection nested_selection)
      = [witness_note ''o'' ''group'' [] False, witness_note ''t'' ''text'' ''m'' True]"
    by (simp add: nested_selection_def ungroup_selection_def promote_def witness_note_def notes_without_def set_parent_def)
  with witness_tree_ok stranded_not_ok show ?thesis unfolding ungrouped by (simp add: nested_selection_def)
qed

lemma parent_rel_without: "parent_rel (notes_without D ns) \<subseteq> parent_rel ns"
  by (auto simp: parent_rel_def notes_without_def)

lemma subtree_removed_ok:
  assumes "groups_ok ns"
  shows "groups_ok (notes_without {c. (c, g) \<in> (parent_rel ns)\<^sup>*} ns)"
proof -
  let ?D = "{c. (c, g) \<in> (parent_rel ns)\<^sup>*}"
  have groups: "group_ids (notes_without ?D ns) = group_ids ns - ?D" by (rule group_ids_without)
  have parent: "cn_parent_group_id n = [] \<or> cn_parent_group_id n \<in> group_ids ns - ?D"
    if n: "n \<in> set ns" "cn_id n \<notin> ?D" for n
  proof (cases "cn_parent_group_id n = []")
    case False
    have "(cn_parent_group_id n, g) \<notin> (parent_rel ns)\<^sup>*"
      using n(2) converse_rtrancl_into_rtrancl [OF parent_rel_member [OF n(1) False]] by blast
    with assms n(1) show ?thesis by (simp add: groups_ok_def)
  qed simp
  have "\<forall>n \<in> set (notes_without ?D ns). cn_parent_group_id n = [] \<or> cn_parent_group_id n \<in> group_ids ns - ?D"
    by (intro ballI parent) (simp_all only: in_notes_without not_False_eq_True)
  moreover have "acyclic (parent_rel ns)" "ids_ok ns" using assms by (simp_all add: groups_ok_def)
  then have "acyclic (parent_rel (notes_without ?D ns))" "ids_ok (notes_without ?D ns)"
    using acyclic_subset [OF _ parent_rel_without] ids_ok_without by blast+
  ultimately show ?thesis unfolding groups_ok_def groups by blast
qed

text \<open>
  Deleting a group with everything in it. The removed notes are the group and the notes below it at
  any depth, whatever the nesting; every other note is kept as it was, its parent included, so the
  rest is still a tree; no link touches a removed note. Ungrouping a single group removes only that
  group and moves its children up, and an identifier that is not a group changes nothing in either.
\<close>

theorem group_removal_takes_the_subtree:
  assumes "groups_ok ns" and "remove_group_with_descendants ns links g = (removed, ns', links')"
    and "ungroup_node ns g = (ungrouped, ns'')"
  shows "removed = (if g \<in> group_ids ns then {c. (c, g) \<in> (parent_rel ns)\<^sup>*} else {})
    \<and> ns' = notes_without removed ns \<and> groups_ok ns'
    \<and> set links' = {l \<in> set links. cl_source_id l \<notin> removed \<and> cl_target_id l \<notin> removed}
    \<and> ungrouped = (g \<in> group_ids ns) \<and> groups_ok ns''
    \<and> ns'' = (if ungrouped then notes_without {g} (map (raised ns {g}) ns) else ns)"
proof (cases "g \<in> group_ids ns")
  case False
  then have none: "\<not> (\<exists>n \<in> set ns. cn_id n = g \<and> cn_kind n = ''group'')" by (auto simp: group_ids_def is_group_def)
  then have "List.find (\<lambda>n. cn_id n = g \<and> cn_kind n = ''group'') ns = None" by (auto simp: find_None_iff)
  with none assms False show ?thesis
    by (simp add: remove_group_with_descendants_def ungroup_node_def notes_without_def)
next
  case True
  have ids: "ids_ok ns" using assms(1) by (simp add: groups_ok_def)
  from True obtain n where n: "n \<in> set ns" "is_group n" "cn_id n = g" by (auto simp: group_ids_def)
  then have "g \<noteq> []" using ids_ok_nonempty [OF ids] by auto
  from n have exists: "\<exists>n \<in> set ns. cn_id n = g \<and> cn_kind n = ''group''" by (auto simp: is_group_def)
  let ?D = "{c. (c, g) \<in> (parent_rel ns)\<^sup>*}"
  have "insert g (descendant_ids ns g) = ?D"
    by (auto simp: descendant_ids_eq [OF assms(1) \<open>g \<noteq> []\<close>] rtrancl_eq_or_trancl)
  with assms(2) exists have r: "removed = ?D" "ns' = notes_without ?D ns" "links' = links_without ?D links"
    by (auto simp: remove_group_with_descendants_def Let_def)
  have ok': "groups_ok (notes_without ?D ns)" by (rule subtree_removed_ok [OF assms(1)])
  from ids_ok_find [OF ids n(1,2)] n(3)
  have u: "ungroup_node ns g = (True, notes_without {g} (map (promote g (cn_parent_group_id n)) ns))"
    by (simp add: ungroup_node_def)
  have raised: "promote g (cn_parent_group_id n) = raised ns {g}"
  proof
    fix m
    show "promote g (cn_parent_group_id n) m = raised ns {g} m"
    proof (cases "cn_parent_group_id m = g")
      case True
      with lifted_simps(2) [OF ids n(1,2), of "{g}" m] n show ?thesis by (auto simp: promote_def raised_def)
    qed (auto simp: promote_def raised_def)
  qed
  have "flat_in ns {g}"
    unfolding flat_in_def
  proof (intro ballI impI)
    fix h assume "h \<in> set ns" "cn_id h \<in> {g}" "is_group h"
    with groups_ok_no_self [OF assms(1), of h] \<open>g \<noteq> []\<close> show "cn_parent_group_id h \<notin> {g}" by auto
  qed
  then have ok'': "groups_ok (notes_without {g} (map (raised ns {g}) ns))"
    using \<open>g \<noteq> []\<close> by (intro splice_ok [OF assms(1) flat_not_stranded])
      (simp_all add: raised_parent [OF ids] lifted_simps [OF ids])
  from u assms(3) raised have "ungrouped" "ns'' = notes_without {g} (map (raised ns {g}) ns)" by auto
  with r ok' ok'' True show ?thesis by (simp add: links_without_def)
qed

theorem group_removal_takes_the_subtree_witness:
  "(''t'', ''m'') \<in> (parent_rel nested_selection)\<^sup>*
   \<and> fst (snd (remove_group_with_descendants nested_selection [] ''m'')) = [witness_note ''o'' ''group'' [] False]"
proof -
  have ok: "groups_ok nested_selection" unfolding nested_selection_def by (rule witness_tree_ok)
  have result: "remove_group_with_descendants nested_selection [] ''m''
      = ({''m'', ''t'', ''i''}, [witness_note ''o'' ''group'' [] False], [])"
    by (simp add: remove_group_with_descendants_def descendant_ids_def nested_selection_def witness_note_def
        notes_without_def links_without_def Let_def)
  from group_removal_takes_the_subtree [OF ok this prod.collapse [symmetric]]
  have "{''m'', ''t'', ''i''} = (if ''m'' \<in> group_ids nested_selection then {c. (c, ''m'') \<in> (parent_rel nested_selection)\<^sup>*} else {})"
    by blast
  moreover have "''m'' \<in> group_ids nested_selection"
    by (simp add: nested_selection_def group_ids_def is_group_def witness_note_def)
  ultimately show ?thesis using result by auto
qed

end
