(* ===== verification/Canvas_Layout.thy ===== *)
theory Canvas_Layout
  imports Canvas_Edit
begin

text \<open>
  The geometry of the groups of the infinite canvas (\<open>native-client/src/runtime/canvas_ops.rs\<close>): the box
  around a set of notes, the depth of a group, and \<open>fit_groups_to_children\<close>. The arithmetic of \<open>f32\<close> is
  the argument \<open>F\<close>.
\<close>

section \<open>Boxes\<close>

record 'f canvas_rect =
  cr_x :: 'f
  cr_y :: 'f
  cr_width :: 'f
  cr_height :: 'f

definition note_rect :: "'f canvas_note \<Rightarrow> 'f canvas_rect" where
  "note_rect n = \<lparr>cr_x = cn_x n, cr_y = cn_y n, cr_width = cn_width n, cr_height = cn_height n\<rparr>"

definition rect_intersects :: "'f f32_ops \<Rightarrow> 'f canvas_rect \<Rightarrow> 'f canvas_rect \<Rightarrow> bool" where
  "rect_intersects F a b =
    (f_le F (cr_x a) (f_add F (cr_x b) (cr_width b)) \<and> f_le F (cr_x b) (f_add F (cr_x a) (cr_width a))
     \<and> f_le F (cr_y a) (f_add F (cr_y b) (cr_height b)) \<and> f_le F (cr_y b) (f_add F (cr_y a) (cr_height a)))"

definition select_in_rect :: "'f f32_ops \<Rightarrow> 'f canvas_note list \<Rightarrow> 'f canvas_rect \<Rightarrow> bool \<Rightarrow> 'f canvas_note list" where
  "select_in_rect F ns rect additive =
    map (\<lambda>n. if rect_intersects F rect (note_rect n) then n\<lparr>cn_selected := True\<rparr> else n)
      (if \<not> additive then clear_selection ns else ns)"

definition bounds_of :: "'f f32_ops \<Rightarrow> 'f canvas_note list \<Rightarrow> 'f canvas_rect option" where
  "bounds_of F selected = (case selected of
     [] \<Rightarrow> None
   | first # others \<Rightarrow>
       let left = foldl (\<lambda>left n. f_min F left (cn_x n)) (cn_x first) others;
           top = foldl (\<lambda>top n. f_min F top (cn_y n)) (cn_y first) others;
           right = foldl (\<lambda>right n. f_max F right (f_add F (cn_x n) (cn_width n))) (f_add F (cn_x first) (cn_width first)) others;
           bottom = foldl (\<lambda>bottom n. f_max F bottom (f_add F (cn_y n) (cn_height n))) (f_add F (cn_y first) (cn_height first)) others in
       Some \<lparr>cr_x = left, cr_y = top, cr_width = f_sub F right left, cr_height = f_sub F bottom top\<rparr>)"

definition selection_bounds :: "'f f32_ops \<Rightarrow> 'f canvas_note list \<Rightarrow> string set \<Rightarrow> 'f canvas_rect option" where
  "selection_bounds F ns ids = bounds_of F (filter (\<lambda>n. cn_id n \<in> ids) ns)"

definition GROUP_PADDING :: nat where "GROUP_PADDING = 36"
definition GROUP_TOP_PADDING :: nat where "GROUP_TOP_PADDING = 72"

definition padded :: "'f f32_ops \<Rightarrow> 'f canvas_rect \<Rightarrow> 'f canvas_rect" where
  "padded F bounds =
    \<lparr>cr_x = f_sub F (cr_x bounds) (f_lit F GROUP_PADDING),
     cr_y = f_sub F (cr_y bounds) (f_lit F GROUP_TOP_PADDING),
     cr_width = f_add F (cr_width bounds) (f_mul F (f_lit F GROUP_PADDING) (f_lit F 2)),
     cr_height = f_add F (f_add F (cr_height bounds) (f_lit F GROUP_TOP_PADDING)) (f_lit F GROUP_PADDING)\<rparr>"

section \<open>Depth of a group\<close>

function climb :: "(string \<times> string) list \<Rightarrow> string \<Rightarrow> string set \<Rightarrow> nat \<Rightarrow> nat" where
  "climb parents current visited depth =
    (case map_of (rev parents) current of
       None \<Rightarrow> depth
     | Some parent \<Rightarrow>
         if parent = [] \<or> parent \<in> visited then depth
         else climb parents parent (insert parent visited) (Suc depth))"
  by pat_completeness auto
termination
proof (relation "measure (\<lambda>(parents, current, visited, depth). card (snd ` set parents - visited))", goal_cases)
  case (2 parents current visited depth parent)
  then have "(current, parent) \<in> set (rev parents)" by (intro map_of_SomeD) simp
  then have "parent \<in> snd ` set parents" by force
  with 2(2) have "snd ` set parents - insert parent visited \<subset> snd ` set parents - visited" by auto
  then show ?case by (simp add: psubset_card_mono)
qed simp

declare climb.simps [simp del]

definition group_depth :: "'f canvas_note list \<Rightarrow> string \<Rightarrow> nat" where
  "group_depth ns group_id = climb (map (\<lambda>n. (cn_id n, cn_parent_group_id n)) ns) group_id {} 0"

section \<open>Fitting groups to their children\<close>

definition child_ids :: "'f canvas_note list \<Rightarrow> string \<Rightarrow> string set" where
  "child_ids ns group_id = cn_id ` set (filter (\<lambda>n. cn_parent_group_id n = group_id) ns)"

definition set_rect :: "'f canvas_rect \<Rightarrow> 'f canvas_note \<Rightarrow> 'f canvas_note" where
  "set_rect r n = n\<lparr>cn_x := cr_x r, cn_y := cr_y r, cn_width := cr_width r, cn_height := cr_height r\<rparr>"

definition rect_eq :: "'f f32_ops \<Rightarrow> 'f canvas_rect \<Rightarrow> 'f canvas_rect \<Rightarrow> bool" where
  "rect_eq F a b = (f_eq F (cr_x a) (cr_x b) \<and> f_eq F (cr_y a) (cr_y b)
     \<and> f_eq F (cr_width a) (cr_width b) \<and> f_eq F (cr_height a) (cr_height b))"

definition fit_group :: "'f f32_ops \<Rightarrow> string \<Rightarrow> 'f canvas_note list \<times> bool \<Rightarrow> 'f canvas_note list \<times> bool" where
  "fit_group F group_id = (\<lambda>(ns, changed).
     case selection_bounds F ns (child_ids ns group_id) of
       None \<Rightarrow> (ns, changed)
     | Some bounds \<Rightarrow>
         (case List.find (\<lambda>n. cn_id n = group_id) ns of
            None \<Rightarrow> (ns, changed)
          | Some g \<Rightarrow>
              if \<not> rect_eq F (note_rect g) (padded F bounds)
              then (update_first (\<lambda>n. cn_id n = group_id) (set_rect (padded F bounds)) ns, True)
              else (ns, changed)))"

definition fit_order :: "'f canvas_note list \<Rightarrow> (string \<times> nat) list" where
  "fit_order ns = sort_key (\<lambda>(_, depth). - int depth)
     (map (\<lambda>n. (cn_id n, group_depth ns (cn_id n))) (filter (\<lambda>n. cn_kind n = ''group'') ns))"

definition fit_groups_to_children :: "'f f32_ops \<Rightarrow> 'f canvas_note list \<Rightarrow> 'f canvas_note list \<times> bool" where
  "fit_groups_to_children F ns = fold (\<lambda>(group_id, _). fit_group F group_id) (fit_order ns) (ns, False)"

section \<open>Depth grows from a parent to its children\<close>

lemma climb_Suc: "climb parents current visited (Suc depth) = Suc (climb parents current visited depth)"
proof (induction parents current visited depth rule: climb.induct)
  case (1 parents current visited depth)
  show ?case
  proof (cases "map_of (rev parents) current")
    case (Some p)
    show ?thesis
    proof (cases "p = [] \<or> p \<in> visited")
      case False
      with 1 [OF Some False] Some show ?thesis by (simp add: climb.simps [of parents current])
    qed (simp add: climb.simps [of parents current] Some)
  qed (simp add: climb.simps [of parents current])
qed

text \<open>In a tree the visited set is never met.\<close>

lemma climb_visited:
  assumes "ids_ok ns" and "acyclic (parent_rel ns)"
    and "\<forall>v \<in> visited \<union> visited'. (current, v) \<notin> (parent_rel ns)\<^sup>+"
  shows "climb (map (\<lambda>n. (cn_id n, cn_parent_group_id n)) ns) current visited depth
    = climb (map (\<lambda>n. (cn_id n, cn_parent_group_id n)) ns) current visited' depth"
  using assms(3)
proof (induction "map (\<lambda>n. (cn_id n, cn_parent_group_id n)) ns" current visited depth arbitrary: visited' rule: climb.induct)
  case (1 current visited depth)
  let ?l = "map (\<lambda>n. (cn_id n, cn_parent_group_id n)) ns"
  show ?case
  proof (cases "map_of (rev ?l) current")
    case (Some p)
    show ?thesis
    proof (cases "p = []")
      case False
      with Some parent_of_member [OF assms(1), of current p] have edge: "(current, p) \<in> parent_rel ns"
        by (simp add: parent_of_def)
      with "1.prems" have fresh: "p \<notin> visited" "p \<notin> visited'" by auto
      have "\<forall>v \<in> insert p visited \<union> insert p visited'. (p, v) \<notin> (parent_rel ns)\<^sup>+"
        using "1.prems" edge assms(2) by (auto simp: acyclic_def dest: trancl_into_trancl2)
      with "1.hyps" [OF Some, of "insert p visited'"] False fresh Some show ?thesis
        by (simp add: climb.simps [of ?l current])
    qed (simp add: climb.simps [of ?l current] Some)
  qed (simp add: climb.simps [of ?l current])
qed

lemma group_depth_child:
  assumes "groups_ok ns" and "(child, parent) \<in> parent_rel ns"
  shows "group_depth ns child = Suc (group_depth ns parent)"
proof -
  let ?l = "map (\<lambda>n. (cn_id n, cn_parent_group_id n)) ns"
  have ok: "ids_ok ns" "acyclic (parent_rel ns)" using assms(1) by (simp_all add: groups_ok_def)
  from parent_of_member [OF ok(1), of child parent] assms(2)
  have "parent_of ?l child = parent" "parent \<noteq> []" by simp_all
  then have "map_of (rev ?l) child = Some parent" by (auto simp: parent_of_def split: option.splits)
  then have "group_depth ns child = climb ?l parent {parent} (Suc 0)"
    using \<open>parent \<noteq> []\<close> by (simp add: group_depth_def climb.simps [of ?l child])
  also have "\<dots> = climb ?l parent {} (Suc 0)"
    by (rule climb_visited [OF ok]) (use ok(2) in \<open>auto simp: acyclic_def\<close>)
  finally show ?thesis by (simp add: group_depth_def climb_Suc)
qed

section \<open>One group at a time\<close>

definition group_box :: "'f f32_ops \<Rightarrow> 'f canvas_note list \<Rightarrow> string \<Rightarrow> 'f canvas_rect option" where
  "group_box F ns g = map_option (padded F) (selection_bounds F ns (child_ids ns g))"

definition fitted :: "'f f32_ops \<Rightarrow> 'f canvas_note list \<Rightarrow> string \<Rightarrow> bool" where
  "fitted F ns g = (\<forall>n box. n \<in> set ns \<longrightarrow> cn_id n = g \<longrightarrow> group_box F ns g = Some box
     \<longrightarrow> note_rect n = box \<or> rect_eq F (note_rect n) box)"

lemma set_rect_simps [simp]:
  "cn_id (set_rect r n) = cn_id n" "cn_parent_group_id (set_rect r n) = cn_parent_group_id n"
  "cn_kind (set_rect r n) = cn_kind n" "note_rect (set_rect r n) = r" "set_rect r (set_rect q n) = set_rect r n"
  "set_rect (note_rect n) n = n"
  by (simp_all add: set_rect_def note_rect_def)

lemma update_first_map:
  "distinct (map cn_id ns) \<Longrightarrow> update_first (\<lambda>n. cn_id n = g) f ns = map (\<lambda>n. if cn_id n = g then f n else n) ns"
proof (induction ns)
  case (Cons n ns)
  then show ?case by (auto simp: image_iff intro!: map_idI [symmetric])
qed simp

definition put_box :: "string \<Rightarrow> 'f canvas_rect \<Rightarrow> 'f canvas_note list \<Rightarrow> 'f canvas_note list" where
  "put_box g r ns = map (\<lambda>n. if cn_id n = g then set_rect r n else n) ns"

lemma put_box_pairs: "map (\<lambda>n. (cn_id n, cn_parent_group_id n)) (put_box g r ns) = map (\<lambda>n. (cn_id n, cn_parent_group_id n)) ns"
  by (simp add: put_box_def)

lemma child_ids_pairs: "child_ids ns g = {i. (i, g) \<in> set (map (\<lambda>n. (cn_id n, cn_parent_group_id n)) ns)}"
  by (auto simp: child_ids_def)

lemma parent_rel_pairs: "parent_rel ns = {(i, p) \<in> set (map (\<lambda>n. (cn_id n, cn_parent_group_id n)) ns). p \<noteq> []}"
  by (auto simp: parent_rel_def)

lemma put_box_simps:
  "ids_ok (put_box g r ns) = ids_ok ns" "parent_rel (put_box g r ns) = parent_rel ns"
  "child_ids (put_box g r ns) h = child_ids ns h"
  by (simp add: put_box_def ids_ok_map, simp_all only: parent_rel_pairs child_ids_pairs put_box_pairs)

lemma put_box_filter: "g \<notin> C \<Longrightarrow> filter (\<lambda>n. cn_id n \<in> C) (put_box g r ns) = filter (\<lambda>n. cn_id n \<in> C) ns"
  by (induction ns) (auto simp: put_box_def)

lemma put_box_box:
  assumes "g \<notin> child_ids ns h"
  shows "group_box F (put_box g r ns) h = group_box F ns h"
  by (simp add: group_box_def selection_bounds_def put_box_simps put_box_filter [OF assms])

text \<open>Placing a group fits it, and disturbs at most the group that holds it.\<close>

lemma put_box_fitted:
  assumes "g \<notin> child_ids ns h" and "h \<noteq> g \<Longrightarrow> fitted F ns h" and "h = g \<Longrightarrow> group_box F ns g = Some r"
  shows "fitted F (put_box g r ns) h"
  using assms unfolding fitted_def put_box_box [OF assms(1)] by (auto simp: put_box_def)

lemma fit_group_cases:
  assumes "ids_ok ns"
  obtains "fit_group F g (ns, changed) = (ns, changed)" "fitted F ns g"
    | box where "fit_group F g (ns, changed) = (put_box g box ns, True)" "group_box F ns g = Some box"
proof (cases "selection_bounds F ns (child_ids ns g)")
  case None
  then show thesis by (intro that(1)) (simp_all add: fit_group_def fitted_def group_box_def)
next
  case (Some bounds)
  show thesis
  proof (cases "List.find (\<lambda>n. cn_id n = g) ns")
    case None
    then have "fitted F ns g" by (auto simp: fitted_def find_None_iff)
    with None Some show thesis by (intro that(1)) (simp_all add: fit_group_def)
  next
    case found: (Some n)
    then have n: "n \<in> set ns" "cn_id n = g" by (auto simp: find_Some_iff)
    show thesis
    proof (cases "rect_eq F (note_rect n) (padded F bounds)")
      case True
      have "fitted F ns g"
        unfolding fitted_def
      proof (intro allI impI)
        fix m box
        assume "m \<in> set ns" "cn_id m = g" "group_box F ns g = Some box"
        moreover from this n ids_ok_unique [OF assms, of m n] have "m = n" by simp
        ultimately show "note_rect m = box \<or> rect_eq F (note_rect m) box" using True Some by (simp add: group_box_def)
      qed
      with True found Some show thesis by (intro that(1)) (simp_all add: fit_group_def)
    next
      case False
      with found Some assms show thesis
        by (intro that(2) [of "padded F bounds"])
          (simp_all add: fit_group_def group_box_def put_box_def update_first_map ids_ok_def)
    qed
  qed
qed

lemma child_ids_parent: "h \<noteq> [] \<Longrightarrow> c \<in> child_ids ns h \<longleftrightarrow> (c, h) \<in> parent_rel ns"
  by (auto simp: child_ids_def in_parent_rel)

text \<open>A sweep in an order that never places a group after the group that holds it fits them all.\<close>

definition only_moved :: "string set \<Rightarrow> 'f canvas_note list \<Rightarrow> 'f canvas_note list \<Rightarrow> bool" where
  "only_moved G ns ms = list_all2 (\<lambda>n m. m = n \<or> cn_id n \<in> G \<and> (\<exists>r. m = set_rect r n)) ns ms"

lemma only_moved_refl: "only_moved G ns ns"
  by (simp add: only_moved_def list_all2_refl)

lemma only_moved_put_box: "g \<in> G \<Longrightarrow> only_moved G ns (put_box g r ns)"
  by (auto simp: only_moved_def put_box_def list_all2_map2 intro!: list.rel_refl_strong)

lemma only_moved_trans:
  assumes "only_moved G ns ms" and "only_moved G ms ks"
  shows "only_moved G ns ks"
  using assms unfolding only_moved_def by (rule list_all2_trans [rotated]) auto

lemma fit_sweep:
  assumes "ids_ok ns" and "sorted_wrt (\<lambda>a b. b \<notin> child_ids ns a) gs" and "\<forall>g \<in> set gs. g \<notin> child_ids ns g"
    and "\<forall>h \<in> D. fitted F ns h \<and> (\<forall>g \<in> set gs. g \<notin> child_ids ns h)"
    and "fold (fit_group F) gs (ns, changed) = (ns', changed')"
  shows "(\<forall>h \<in> D \<union> set gs. fitted F ns' h) \<and> only_moved (set gs) ns ns' \<and> (\<not> changed' \<longrightarrow> ns' = ns \<and> \<not> changed)
    \<and> ids_ok ns' \<and> parent_rel ns' = parent_rel ns"
  using assms
proof (induction gs arbitrary: ns D changed)
  case Nil
  then show ?case by (simp add: only_moved_refl)
next
  case (Cons g gs)
  obtain ms flag where step: "fit_group F g (ns, changed) = (ms, flag)" by fastforce
  have "(\<forall>h \<in> insert g D. fitted F ms h) \<and> (\<forall>h. child_ids ms h = child_ids ns h) \<and> ids_ok ms \<and> only_moved {g} ns ms
    \<and> parent_rel ms = parent_rel ns \<and> (\<not> flag \<longrightarrow> ms = ns \<and> \<not> changed)"
  proof (cases rule: fit_group_cases [OF Cons.prems(1), of F g changed])
    case 1
    with step Cons.prems(1,4) show ?thesis by (auto simp: only_moved_refl)
  next
    case (2 box)
    with step have ms: "ms = put_box g box ns" "flag" by auto
    have "fitted F ms h" if "h \<in> insert g D" for h
      unfolding ms(1) using that Cons.prems(3,4) 2(2) by (intro put_box_fitted) auto
    with ms Cons.prems(1) show ?thesis by (simp add: put_box_simps only_moved_put_box)
  qed
  moreover from step Cons.prems(5) have "fold (fit_group F) gs (ms, flag) = (ns', changed')" by simp
  ultimately have IH: "(\<forall>h \<in> insert g D \<union> set gs. fitted F ns' h) \<and> only_moved (set gs) ms ns'
      \<and> (\<not> changed' \<longrightarrow> ns' = ms \<and> \<not> flag) \<and> ids_ok ns' \<and> parent_rel ns' = parent_rel ms"
    and ms: "only_moved {g} ns ms" "\<not> flag \<longrightarrow> ms = ns \<and> \<not> changed" "parent_rel ms = parent_rel ns"
    using Cons.prems(2-4) Cons.IH [of ms "insert g D" flag] by auto
  have "only_moved (set (g # gs)) ns ms" "only_moved (set (g # gs)) ms ns'"
    using ms(1) IH by (auto simp: only_moved_def elim!: list_all2_mono)
  then have "only_moved (set (g # gs)) ns ns'" by (rule only_moved_trans)
  with IH ms show ?case by auto
qed

lemma fit_order_members: "fst ` set (fit_order ns) = group_ids ns"
  by (auto simp: fit_order_def group_ids_def is_group_def image_image)

lemma fit_order_sorted:
  assumes "groups_ok ns"
  shows "sorted_wrt (\<lambda>a b. b \<notin> child_ids ns a) (map fst (fit_order ns))"
proof -
  have depth: "d = group_depth ns g" if "(g, d) \<in> set (fit_order ns)" for g d
    using that by (auto simp: fit_order_def)
  have "sorted_wrt (\<lambda>x y. - int (snd x) \<le> - int (snd y)) (fit_order ns)"
    using sorted_sort_key [of "\<lambda>(_, depth). - int depth"] unfolding fit_order_def
    by (simp add: sorted_wrt_map case_prod_unfold)
  then have "sorted_wrt (\<lambda>x y. fst y \<notin> child_ids ns (fst x)) (fit_order ns)"
  proof (rule sorted_wrt_mono_rel [rotated])
    fix x y assume xy: "x \<in> set (fit_order ns)" "y \<in> set (fit_order ns)" "- int (snd x) \<le> - int (snd y)"
    have "fst x \<noteq> []"
      using xy(1) assms fit_order_members [of ns] group_ids_sub [of ns] by (force simp: groups_ok_def ids_ok_def)
    show "fst y \<notin> child_ids ns (fst x)"
    proof
      assume "fst y \<in> child_ids ns (fst x)"
      with child_ids_parent [OF \<open>fst x \<noteq> []\<close>] group_depth_child [OF assms]
      have "group_depth ns (fst y) = Suc (group_depth ns (fst x))" by blast
      with depth [of "fst x" "snd x"] depth [of "fst y" "snd y"] xy show False by simp
    qed
  qed
  then show ?thesis by (simp add: sorted_wrt_map)
qed

text \<open>
  Fitting the groups of a canvas fits all of them in one sweep. Whatever \<open>f32\<close> arithmetic does, in a
  tree the box of every group that has children is the padded bounds of its children as they are after
  the sweep (or compares equal to it), although inner groups move during the sweep: the deeper groups
  are placed first. Only the boxes of groups change, the tree does not, and the answer is "nothing
  changed" only when nothing did.
\<close>

theorem one_sweep_fits_all_groups:
  assumes "groups_ok ns" and "fit_groups_to_children F ns = (ns', changed)"
  shows "(\<forall>g \<in> group_ids ns. fitted F ns' g) \<and> only_moved (group_ids ns) ns ns'
    \<and> (\<not> changed \<longrightarrow> ns' = ns) \<and> parent_rel ns' = parent_rel ns"
proof -
  let ?gs = "map fst (fit_order ns)"
  have "fold (fit_group F) ?gs (ns, False) = (ns', changed)"
    using assms(2) by (simp add: fit_groups_to_children_def fold_map comp_def case_prod_unfold)
  moreover have "g \<notin> child_ids ns g" if "g \<in> group_ids ns" for g
  proof -
    have "g \<noteq> []" using that assms(1) group_ids_sub [of ns] by (auto simp: groups_ok_def ids_ok_def)
    with assms(1) child_ids_parent [of g g ns] show ?thesis unfolding groups_ok_def acyclic_def by blast
  qed
  ultimately show ?thesis
    using fit_sweep [of ns ?gs "{}" F False ns' changed] fit_order_sorted [OF assms(1)] fit_order_members [of ns] assms(1)
    by (auto simp: groups_ok_def)
qed

definition int_f32 :: "int f32_ops" where
  "int_f32 = \<lparr>f_add = (+), f_sub = (-), f_mul = (*), f_min = min, f_max = max, f_le = (\<le>), f_eq = (=), f_lit = int\<rparr>"

lemma nested_order: "fit_order nested_selection = [(''i'', 2), (''m'', 1), (''o'', 0)]"
  by (simp add: fit_order_def nested_selection_def witness_note_def group_depth_def climb.simps)

definition nested_placed :: "int canvas_rect \<Rightarrow> int canvas_rect \<Rightarrow> int canvas_rect \<Rightarrow> int canvas_note list" where
  "nested_placed o_rect m_rect i_rect =
    [set_rect o_rect (witness_note ''o'' ''group'' [] False), set_rect m_rect (witness_note ''m'' ''group'' ''o'' True),
     set_rect i_rect (witness_note ''i'' ''group'' ''m'' True), witness_note ''t'' ''text'' ''i'' False]"

abbreviation rect4 :: "int \<Rightarrow> int \<Rightarrow> int \<Rightarrow> int \<Rightarrow> int canvas_rect" where
  "rect4 x y w h \<equiv> \<lparr>cr_x = x, cr_y = y, cr_width = w, cr_height = h\<rparr>"

lemmas fit_eval = fit_group_def nested_placed_def witness_note_def selection_bounds_def bounds_of_def child_ids_def
  rect_eq_def note_rect_def padded_def int_f32_def set_rect_def GROUP_PADDING_def GROUP_TOP_PADDING_def

lemma nested_steps:
  "fit_group int_f32 ''i'' (nested_placed (rect4 0 0 280 176) (rect4 0 0 280 176) (rect4 0 0 280 176), False)
    = (nested_placed (rect4 0 0 280 176) (rect4 0 0 280 176) (rect4 (- 36) (- 72) 352 284), True)"
  "fit_group int_f32 ''m'' (nested_placed (rect4 0 0 280 176) (rect4 0 0 280 176) (rect4 (- 36) (- 72) 352 284), True)
    = (nested_placed (rect4 0 0 280 176) (rect4 (- 72) (- 144) 424 392) (rect4 (- 36) (- 72) 352 284), True)"
  "fit_group int_f32 ''o'' (nested_placed (rect4 0 0 280 176) (rect4 (- 72) (- 144) 424 392) (rect4 (- 36) (- 72) 352 284), True)
    = (nested_placed (rect4 (- 108) (- 216) 496 500) (rect4 (- 72) (- 144) 424 392) (rect4 (- 36) (- 72) 352 284), True)"
  by (simp add: fit_eval del: set_filter)+

lemma nested_sweep:
  "map cn_y (fst (fit_groups_to_children int_f32 nested_selection)) = [- 216, - 144, - 72, 0]"
proof -
  have "nested_selection = nested_placed (rect4 0 0 280 176) (rect4 0 0 280 176) (rect4 0 0 280 176)"
    by (simp add: nested_selection_def nested_placed_def witness_note_def set_rect_def)
  then have step1: "fit_group int_f32 ''i'' (nested_selection, False)
      = (nested_placed (rect4 0 0 280 176) (rect4 0 0 280 176) (rect4 (- 36) (- 72) 352 284), True)"
    using nested_steps(1) by metis
  have "fst (fit_groups_to_children int_f32 nested_selection)
      = nested_placed (rect4 (- 108) (- 216) 496 500) (rect4 (- 72) (- 144) 424 392) (rect4 (- 36) (- 72) 352 284)"
    by (simp add: fit_groups_to_children_def nested_order step1 nested_steps)
  then show ?thesis by (simp add: nested_placed_def set_rect_def witness_note_def)
qed

theorem one_sweep_fits_all_groups_witness:
  "fitted int_f32 (fst (fit_groups_to_children int_f32 nested_selection)) ''o''
   \<and> map cn_y (fst (fit_groups_to_children int_f32 nested_selection)) = [- 216, - 144, - 72, 0]"
proof -
  have "groups_ok nested_selection" unfolding nested_selection_def by (rule witness_tree_ok)
  moreover have "''o'' \<in> group_ids nested_selection"
    by (simp add: nested_selection_def group_ids_def is_group_def witness_note_def)
  ultimately have "fitted int_f32 (fst (fit_groups_to_children int_f32 nested_selection)) ''o''"
    using one_sweep_fits_all_groups [OF _ prod.collapse [symmetric]] by blast
  with nested_sweep show ?thesis by blast
qed

section \<open>Moving the selection\<close>

text \<open>
  A drag moves what it should, once. In a tree the notes that move are exactly the selected ones and
  those that lie, at any depth, in a selected group; each moves by the offset once, even when it is selected
  itself inside a selected group, and every other note stays.
\<close>

theorem drag_moves_selected_subtrees:
  assumes "groups_ok ns"
  shows "move_selection F ns dx dy = map (\<lambda>n.
      if cn_selected n \<or> (\<exists>g \<in> set ns. cn_selected g \<and> is_group g \<and> (cn_id n, cn_id g) \<in> (parent_rel ns)\<^sup>+)
      then n\<lparr>cn_x := f_add F (cn_x n) dx, cn_y := f_add F (cn_y n) dy\<rparr> else n) ns"
proof -
  have "cn_id n \<in> expanded_selection_ids ns \<longleftrightarrow>
      cn_selected n \<or> (\<exists>g \<in> set ns. cn_selected g \<and> is_group g \<and> (cn_id n, cn_id g) \<in> (parent_rel ns)\<^sup>+)"
    if "n \<in> set ns" for n
  proof -
    have "cn_id n \<in> selected_ids ns \<longleftrightarrow> cn_selected n"
      using that assms by (auto simp: selected_ids_def groups_ok_def dest: ids_ok_unique)
    then show ?thesis by (auto simp: expanded_selection_ids_eq [OF assms] selected_group_ids_def)
  qed
  then show ?thesis by (simp add: move_selection_def Let_def)
qed

theorem drag_moves_selected_subtrees_witness:
  "map cn_x (move_selection int_f32 nested_selection 5 7) = [0, 5, 5, 5]"
proof -
  have ok: "groups_ok nested_selection" unfolding nested_selection_def by (rule witness_tree_ok)
  have rel: "parent_rel nested_selection = {(''m'', ''o''), (''i'', ''m''), (''t'', ''i'')}"
    by (auto simp: parent_rel_pairs nested_selection_def witness_note_def)
  have outer: "(''o'', p) \<notin> {(''m'', ''o''), (''i'', ''m''), (''t'', ''i'')}\<^sup>+" for p by (auto dest!: tranclD)
  have inner: "(''t'', ''i'') \<in> {(''m'', ''o''), (''i'', ''m''), (''t'', ''i'')}\<^sup>+" by auto
  show ?thesis
    using outer inner unfolding drag_moves_selected_subtrees [OF ok, of int_f32 5 7] rel
    by (simp add: nested_selection_def witness_note_def is_group_def int_f32_def)
qed

end
