(* ===== verification/Canvas_Grouping.thy ===== *)
theory Canvas_Grouping
  imports Canvas_Layout
begin

text \<open>
  Making a group of the selected notes, and the name it gets (\<open>group_selection\<close>, \<open>next_group_name\<close> of
  \<open>native-client/src/runtime/canvas_ops.rs\<close>). The fresh UUID is an argument.
\<close>

section \<open>Names\<close>

definition strip_prefix :: "string \<Rightarrow> string \<Rightarrow> string option" where
  "strip_prefix prefix s = (if take (length prefix) s = prefix then Some (drop (length prefix) s) else None)"

text \<open>The prefix is "Group " in English, and the UTF-8 bytes of U+5206 U+7EC4 otherwise.\<close>

definition group_prefix :: "bool \<Rightarrow> string" where
  "group_prefix english = (if english then ''Group '' else map char_of [0xE5 :: nat, 0x88, 0x86, 0xE7, 0xBB, 0x84])"

definition used_numbers :: "'f canvas_note list \<Rightarrow> bool \<Rightarrow> nat list" where
  "used_numbers ns english =
    filter (\<lambda>index. 0 < index)
      (List.map_filter (\<lambda>n. case strip_prefix (group_prefix english) (cn_content n) of
          None \<Rightarrow> None | Some suffix \<Rightarrow> parse_unsigned (2 ^ 64) suffix)
        (filter (\<lambda>n. cn_kind n = ''group'') ns))"

function first_free :: "nat list \<Rightarrow> nat \<Rightarrow> nat" where
  "first_free used index = (if index \<in> set used then first_free used (Suc index) else index)"
  by pat_completeness auto
termination
proof (relation "measure (\<lambda>(used, index). card (set used \<inter> {index..}))", goal_cases)
  case (2 used index)
  have "set used \<inter> {Suc index..} \<subseteq> set used \<inter> {index..}" by auto
  moreover have "index \<in> set used \<inter> {index..}" "index \<notin> set used \<inter> {Suc index..}" using 2 by simp_all
  ultimately have "set used \<inter> {Suc index..} \<subset> set used \<inter> {index..}" by blast
  then have "card (set used \<inter> {Suc index..}) < card (set used \<inter> {index..})" by (intro psubset_card_mono) auto
  then show ?case by simp
qed simp

declare first_free.simps [simp del]

definition next_group_name :: "'f canvas_note list \<Rightarrow> bool \<Rightarrow> string" where
  "next_group_name ns english = group_prefix english @ show_decimal (first_free (used_numbers ns english) 1)"

lemma first_free_spec: "first_free used i \<notin> set used \<and> i \<le> first_free used i \<and> {i ..< first_free used i} \<subseteq> set used"
proof (induction used i rule: first_free.induct)
  case (1 used i)
  show ?case
  proof (cases "i \<in> set used")
    case True
    with 1 have IH: "first_free used i \<notin> set used" "Suc i \<le> first_free used i" "{Suc i ..< first_free used i} \<subseteq> set used"
      by (simp_all add: first_free.simps [of used i])
    moreover have "{i ..< first_free used i} \<subseteq> insert i {Suc i ..< first_free used i}" by auto
    ultimately show ?thesis using True by auto
  qed (simp add: first_free.simps [of used i])
qed

lemma first_free_bound: "first_free used 1 \<le> Suc (length used)"
proof -
  have "card {1 ..< first_free used 1} \<le> card (set used)" using first_free_spec by (intro card_mono) auto
  with card_length [of used] show ?thesis by simp
qed

lemma in_map_filter: "y \<in> set (List.map_filter f xs) \<longleftrightarrow> (\<exists>x \<in> set xs. f x = Some y)"
  by (induction xs) (auto simp: List.map_filter_simps split: option.split)

lemma length_used: "length (used_numbers ns english) \<le> length ns"
proof -
  have "length (List.map_filter f xs) \<le> length xs" for f :: "'a canvas_note \<Rightarrow> nat option" and xs
    by (induction xs) (auto simp: List.map_filter_simps split: option.split)
  then show ?thesis unfolding used_numbers_def by (meson le_trans length_filter_le)
qed

lemma next_group_name_fresh:
  assumes "Suc (length ns) < 2 ^ 64" and "n \<in> set ns" and "is_group n"
  shows "cn_content n \<noteq> next_group_name ns english"
proof
  let ?i = "first_free (used_numbers ns english) 1"
  assume "cn_content n = next_group_name ns english"
  then have strip: "strip_prefix (group_prefix english) (cn_content n) = Some (show_decimal ?i)"
    by (simp add: next_group_name_def strip_prefix_def)
  have "?i < 2 ^ 64"
    using assms(1) first_free_bound [of "used_numbers ns english"] length_used [of ns english] by linarith
  with strip have "(case strip_prefix (group_prefix english) (cn_content n) of
      None \<Rightarrow> None | Some suffix \<Rightarrow> parse_unsigned (2 ^ 64) suffix) = Some ?i"
    by (simp add: parse_show_decimal)
  moreover have "1 \<le> ?i" using first_free_spec by blast
  ultimately have "?i \<in> set (used_numbers ns english)"
    using assms(2,3) by (fastforce simp: used_numbers_def is_group_def in_map_filter)
  with first_free_spec show False by blast
qed

section \<open>Grouping the selection\<close>

definition group_selection ::
  "'f f32_ops \<Rightarrow> string \<Rightarrow> 'f canvas_note list \<Rightarrow> bool \<Rightarrow> string option \<times> 'f canvas_note list" where
  "group_selection F fresh ns english =
    (let ids = expanded_selection_ids ns in
     case selection_bounds F ns ids of
       None \<Rightarrow> (None, ns)
     | Some bounds \<Rightarrow>
         let content = next_group_name ns english;
             parent = (case List.find (\<lambda>n. cn_id n \<in> ids) ns of Some n \<Rightarrow> cn_parent_group_id n | None \<Rightarrow> []);
             moved = map (\<lambda>n. if cn_id n \<in> ids \<and> cn_parent_group_id n = parent
               then (set_parent fresh n)\<lparr>cn_selected := False\<rparr> else n) ns in
         (Some fresh, moved @
           [(canvas_note_default F)\<lparr>cn_id := fresh, cn_kind := ''group'', cn_content := content,
              cn_x := f_sub F (cr_x bounds) (f_lit F GROUP_PADDING), cn_y := f_sub F (cr_y bounds) (f_lit F GROUP_TOP_PADDING),
              cn_width := f_add F (cr_width bounds) (f_mul F (f_lit F GROUP_PADDING) (f_lit F 2)),
              cn_height := f_add F (f_add F (cr_height bounds) (f_lit F GROUP_TOP_PADDING)) (f_lit F GROUP_PADDING),
              cn_parent_group_id := parent, cn_selected := True\<rparr>]))"

text \<open>
  Inserting a node between a parent \<open>p\<close> and some of its children: the new node has those children
  as its only children, so no cycle appears.
\<close>

lemma acyclic_insert_between:
  assumes "acyclic R" and "\<And>x. (x, fresh) \<notin> R" and "\<And>x. (fresh, x) \<notin> R" and "p \<noteq> fresh"
    and sub: "R' \<subseteq> R \<union> M \<times> {fresh} \<union> {(fresh, p)}"
    and cut: "\<And>m. m \<in> M \<Longrightarrow> m \<noteq> fresh \<and> ((m, p) \<in> R \<or> (\<forall>q. (fresh, q) \<notin> R'))"
  shows "acyclic R'"
proof -
  have old: "(a, b) \<in> R\<^sup>+" if "(a, b) \<in> (R \<union> M \<times> {fresh})\<^sup>+" "b \<noteq> fresh" for a b
    using that
  proof (induction rule: trancl_induct)
    case (base b)
    then show ?case by auto
  next
    case (step b c)
    from step(2) assms(3) cut have "b \<noteq> fresh" by auto
    with step show ?case by (auto intro: trancl_into_trancl)
  qed
  have acyclic: "acyclic (R \<union> M \<times> {fresh})"
    unfolding acyclic_def
  proof (intro allI notI)
    fix a assume a: "(a, a) \<in> (R \<union> M \<times> {fresh})\<^sup>+"
    then obtain b where "(a, b) \<in> R \<union> M \<times> {fresh}" by (meson tranclD)
    with assms(3) cut have "a \<noteq> fresh" by auto
    with old [OF a] assms(1) show False by (simp add: acyclic_def)
  qed
  show ?thesis
  proof (cases "\<forall>q. (fresh, q) \<notin> R'")
    case True
    with sub have "R' \<subseteq> R \<union> M \<times> {fresh}" by auto
    with acyclic show ?thesis by (rule acyclic_subset)
  next
    case False
    with cut have M: "(m, p) \<in> R" if "m \<in> M" for m using that by blast
    have "(p, fresh) \<notin> (R \<union> M \<times> {fresh})\<^sup>*"
    proof
      assume "(p, fresh) \<in> (R \<union> M \<times> {fresh})\<^sup>*"
      with assms(4) obtain m where m: "(p, m) \<in> (R \<union> M \<times> {fresh})\<^sup>*" "(m, fresh) \<in> R \<union> M \<times> {fresh}"
        by (metis rtranclE)
      with assms(2) have "m \<in> M" by auto
      then have "m \<noteq> fresh" "(m, p) \<in> R" using cut M by auto
      from m(1) have "p = m \<or> (p, m) \<in> R\<^sup>+" using old \<open>m \<noteq> fresh\<close> by (auto simp: rtrancl_eq_or_trancl)
      with \<open>(m, p) \<in> R\<close> assms(1) show False
        unfolding acyclic_def by (metis r_into_trancl trancl_into_trancl2)
    qed
    with acyclic have "acyclic (insert (fresh, p) (R \<union> M \<times> {fresh}))" by (simp add: acyclic_insert)
    then show ?thesis by (rule acyclic_subset) (use sub in auto)
  qed
qed

definition grouped_parent :: "'f canvas_note list \<Rightarrow> string" where
  "grouped_parent ns = (case List.find (\<lambda>n. cn_id n \<in> expanded_selection_ids ns) ns of
     Some n \<Rightarrow> cn_parent_group_id n | None \<Rightarrow> [])"

definition joins :: "string \<Rightarrow> 'f canvas_note list \<Rightarrow> 'f canvas_note \<Rightarrow> 'f canvas_note" where
  "joins fresh ns n = (if cn_id n \<in> expanded_selection_ids ns \<and> cn_parent_group_id n = grouped_parent ns
     then (set_parent fresh n)\<lparr>cn_selected := False\<rparr> else n)"

lemma joins_simps [simp]: "cn_id (joins fresh ns n) = cn_id n" "is_group (joins fresh ns n) = is_group n"
  by (simp_all add: joins_def)

lemma group_selection_Some:
  assumes "group_selection F fresh ns english = (Some g, ns')"
  obtains box where "g = fresh" "ns' = map (joins fresh ns) ns @ [box]" "cn_id box = fresh" "is_group box"
    "cn_parent_group_id box = grouped_parent ns" "cn_content box = next_group_name ns english" "cn_selected box"
    "selection_bounds F ns (expanded_selection_ids ns) \<noteq> None"
proof (cases "selection_bounds F ns (expanded_selection_ids ns)")
  case None
  with assms show thesis by (simp add: group_selection_def Let_def)
next
  case (Some bounds)
  let ?box = "(canvas_note_default F)\<lparr>cn_id := fresh, cn_kind := ''group'', cn_content := next_group_name ns english,
              cn_x := f_sub F (cr_x bounds) (f_lit F GROUP_PADDING), cn_y := f_sub F (cr_y bounds) (f_lit F GROUP_TOP_PADDING),
              cn_width := f_add F (cr_width bounds) (f_mul F (f_lit F GROUP_PADDING) (f_lit F 2)),
              cn_height := f_add F (f_add F (cr_height bounds) (f_lit F GROUP_TOP_PADDING)) (f_lit F GROUP_PADDING),
              cn_parent_group_id := grouped_parent ns, cn_selected := True\<rparr>"
  from assms Some have g: "g = fresh" and ns': "ns' = map (joins fresh ns) ns @ [?box]"
    by (auto simp: group_selection_def Let_def grouped_parent_def joins_def [abs_def])
  show thesis by (rule that [OF g ns']) (simp_all add: is_group_def Some)
qed

lemma grouped_parent_cases: "groups_ok ns \<Longrightarrow> grouped_parent ns = [] \<or> grouped_parent ns \<in> group_ids ns"
  by (auto simp: grouped_parent_def groups_ok_def find_Some_iff split: option.split)

text \<open>
  Grouping the selection keeps the tree. The new group takes the place of the notes it takes in,
  under the parent of the first selected note; a selected note, or a note below a selected group, joins it
  when it has that parent, and every other note is kept as it was; the name of the new group is the
  prefix and a number that no other group of the canvas has.
\<close>

theorem group_selection_keeps_tree:
  assumes "groups_ok ns" and "fresh \<notin> note_ids ns" and "fresh \<noteq> []" and "Suc (length ns) < 2 ^ 64"
    and "group_selection F fresh ns english = (Some g, ns')"
  shows "g = fresh \<and> groups_ok ns'
    \<and> (\<exists>box. ns' = map (joins fresh ns) ns @ [box] \<and> cn_id box = fresh \<and> is_group box
        \<and> cn_parent_group_id box = grouped_parent ns \<and> (\<forall>n \<in> set ns. is_group n \<longrightarrow> cn_content n \<noteq> cn_content box))"
proof -
  obtain box where g: "g = fresh" and ns': "ns' = map (joins fresh ns) ns @ [box]"
    and box: "cn_id box = fresh" "is_group box" "cn_parent_group_id box = grouped_parent ns"
      "cn_content box = next_group_name ns english"
    using assms(5) by (rule group_selection_Some) blast
  let ?M = "cn_id ` {n \<in> set ns. cn_id n \<in> expanded_selection_ids ns \<and> cn_parent_group_id n = grouped_parent ns}"
  let ?R = "parent_rel ns" and ?p = "grouped_parent ns"
  have ok: "ids_ok ns" "acyclic ?R" using assms(1) by (simp_all add: groups_ok_def)
  have groups: "group_ids ns' = insert fresh (group_ids ns)"
    using box group_ids_map [of "joins fresh ns" ns] by (simp add: ns' group_ids_def)
  have "ids_ok (map (joins fresh ns) ns)" using ok(1) by (simp add: ids_ok_map)
  then have ids: "ids_ok ns'"
    using assms(2,3) box(1) by (auto simp: ns' ids_ok_def note_ids_def image_image)
  have p: "?p = [] \<or> ?p \<in> group_ids ns" by (rule grouped_parent_cases [OF assms(1)])
  then have "?p \<noteq> fresh" using assms(2,3) group_ids_sub [of ns] by auto
  have parents: "cn_parent_group_id n = [] \<or> cn_parent_group_id n \<in> group_ids ns'" if "n \<in> set ns'" for n
    using that assms(1) p box(3) unfolding groups by (auto simp: ns' joins_def groups_ok_def)
  have rel: "parent_rel ns' \<subseteq> ?R \<union> ?M \<times> {fresh} \<union> {(fresh, ?p)}"
    using box by (auto simp: ns' parent_rel_def joins_def)
  have out: "(fresh, q) \<in> parent_rel ns' \<Longrightarrow> q \<noteq> [] \<and> q = ?p" for q
    using box assms(2) by (auto simp: ns' parent_rel_def note_ids_def image_iff)
  have "acyclic (parent_rel ns')"
  proof (rule acyclic_insert_between [OF ok(2) _ _ \<open>?p \<noteq> fresh\<close> rel])
    show "(x, fresh) \<notin> ?R" for x
      using assms(1,2) parent_is_group [OF assms(1), of x fresh] group_ids_sub [of ns] by auto
    show "(fresh, x) \<notin> ?R" for x using assms(2) by (auto simp: parent_rel_def note_ids_def)
    show "m \<noteq> fresh \<and> ((m, ?p) \<in> ?R \<or> (\<forall>q. (fresh, q) \<notin> parent_rel ns'))" if "m \<in> ?M" for m
    proof -
      from that obtain n where n: "n \<in> set ns" "cn_id n = m" "cn_parent_group_id n = ?p" by auto
      with assms(2) have "m \<noteq> fresh" by (auto simp: note_ids_def)
      moreover have "(m, ?p) \<in> ?R" if "?p \<noteq> []" using parent_rel_member [OF n(1)] n that by simp
      ultimately show ?thesis using out by blast
    qed
  qed
  with ids parents have "groups_ok ns'" by (simp add: groups_ok_def)
  moreover have "\<forall>n \<in> set ns. is_group n \<longrightarrow> cn_content n \<noteq> cn_content box"
    using next_group_name_fresh [OF assms(4)] by (simp add: box(4))
  ultimately show ?thesis using g ns' box by blast
qed

theorem group_selection_keeps_tree_witness:
  "let ns = [witness_note ''o'' ''group'' [] False, witness_note ''t'' ''text'' ''o'' True];
       ns' = snd (group_selection int_f32 ''n'' ns True) in
   groups_ok ns' \<and> map cn_parent_group_id ns' = [[], ''n'', ''o''] \<and> map cn_content ns' = [[], [], ''Group 1'']"
proof -
  let ?ns = "[witness_note ''o'' ''group'' [] False, witness_note ''t'' ''text'' ''o'' True]"
  have "ids_ok ?ns" by (simp add: ids_ok_def note_ids_def witness_note_def)
  moreover have "normalize_canvas_groups ?ns = ?ns"
    by (simp add: normalize_canvas_groups_def clear_foreign_parents_def group_ids_def is_group_def witness_note_def
        Let_def chain_ends.simps parent_of_def set_parent_def)
  ultimately have ok: "groups_ok ?ns" by (metis groups_ok_normalized)
  have ids: "expanded_selection_ids ?ns = {''t''}"
    by (simp add: expanded_selection_ids_def selected_ids_def witness_note_def)
  have name: "next_group_name ?ns True = ''Group 1''"
    by (simp add: next_group_name_def used_numbers_def List.map_filter_simps witness_note_def strip_prefix_def
        group_prefix_def first_free.simps show_decimal.simps char_of_def bit_iff_odd)
  obtain ns' where ns': "group_selection int_f32 ''n'' ?ns True = (Some ''n'', ns')"
    and fields: "map cn_parent_group_id ns' = [[], ''n'', ''o'']" "map cn_content ns' = [[], [], ''Group 1'']"
    unfolding group_selection_def ids name Let_def
    by (simp add: selection_bounds_def bounds_of_def witness_note_def set_parent_def)
  have "groups_ok ns'"
    using group_selection_keeps_tree [OF ok _ _ _ ns'] by (simp add: note_ids_def witness_note_def)
  with ns' fields show ?thesis by simp
qed

end
