(* ===== verification/Canvas_History.thy ===== *)
theory Canvas_History
  imports Canvas_Grouping Path_Remap
begin

text \<open>
  \<open>CanvasController\<close> of \<open>native-client/src/runtime/canvas_ops.rs\<close>: the undo and redo stacks of the canvas and
  its clipboard. The stacks grow at the end of the list, as the vectors do. The UUIDs that pasting draws
  are a sequence \<open>fresh\<close>, used in the order of the calls.
\<close>

section \<open>State\<close>

record 'f canvas_snapshot =
  sn_notes :: "'f canvas_note list"
  sn_links :: "canvas_link list"

record 'f canvas_controller =
  cc_undo :: "'f canvas_snapshot list"
  cc_redo :: "'f canvas_snapshot list"
  cc_clipboard :: "'f canvas_snapshot"
  cc_fingerprint :: "u64 option"

definition MAX_CANVAS_HISTORY :: nat where "MAX_CANVAS_HISTORY = 100"

definition controller_default :: "'f canvas_controller" where
  "controller_default = \<lparr>cc_undo = [], cc_redo = [], cc_clipboard = \<lparr>sn_notes = [], sn_links = []\<rparr>, cc_fingerprint = None\<rparr>"

definition controller_record :: "'f canvas_controller \<Rightarrow> 'f canvas_snapshot \<Rightarrow> 'f canvas_controller" where
  "controller_record c snapshot =
    (let undo = cc_undo c @ [snapshot];
         undo = (if length undo > MAX_CANVAS_HISTORY then tl undo else undo) in
     c\<lparr>cc_undo := undo, cc_redo := []\<rparr>)"

definition controller_undo ::
  "'f canvas_controller \<Rightarrow> 'f canvas_snapshot \<Rightarrow> 'f canvas_snapshot option \<times> 'f canvas_controller" where
  "controller_undo c current =
    (if cc_undo c = [] then (None, c)
     else (Some (last (cc_undo c)), c\<lparr>cc_undo := butlast (cc_undo c), cc_redo := cc_redo c @ [current]\<rparr>))"

definition controller_redo ::
  "'f canvas_controller \<Rightarrow> 'f canvas_snapshot \<Rightarrow> 'f canvas_snapshot option \<times> 'f canvas_controller" where
  "controller_redo c current =
    (if cc_redo c = [] then (None, c)
     else (Some (last (cc_redo c)), c\<lparr>cc_redo := butlast (cc_redo c), cc_undo := cc_undo c @ [current]\<rparr>))"

definition can_undo :: "'f canvas_controller \<Rightarrow> bool" where
  "can_undo c = (cc_undo c \<noteq> [])"

definition can_redo :: "'f canvas_controller \<Rightarrow> bool" where
  "can_redo c = (cc_redo c \<noteq> [])"

definition remap_note :: "(path \<times> path) list \<Rightarrow> 'f canvas_note \<Rightarrow> 'f canvas_note" where
  "remap_note locations n = n\<lparr>cn_image_path := locations_remap locations (cn_image_path n)\<rparr>"

definition controller_remap_file_locations :: "(path \<times> path) list \<Rightarrow> 'f canvas_controller \<Rightarrow> 'f canvas_controller" where
  "controller_remap_file_locations locations c =
    (let remap = (\<lambda>s. s\<lparr>sn_notes := map (remap_note locations) (sn_notes s)\<rparr>) in
     c\<lparr>cc_undo := map remap (cc_undo c), cc_redo := map remap (cc_redo c), cc_clipboard := remap (cc_clipboard c)\<rparr>)"

section \<open>Clipboard\<close>

definition copy_selection :: "'f canvas_controller \<Rightarrow> 'f canvas_note list \<Rightarrow> canvas_link list \<Rightarrow> 'f canvas_controller" where
  "copy_selection c ns links =
    (let ids = expanded_selection_ids ns in
     c\<lparr>cc_clipboard := \<lparr>sn_notes = filter (\<lambda>n. cn_id n \<in> ids) ns,
        sn_links = filter (\<lambda>l. cl_source_id l \<in> ids \<and> cl_target_id l \<in> ids) links\<rparr>\<rparr>)"

definition remember_system_clipboard :: "'f canvas_controller \<Rightarrow> u64 option \<Rightarrow> 'f canvas_controller" where
  "remember_system_clipboard c fingerprint = c\<lparr>cc_fingerprint := fingerprint\<rparr>"

definition should_paste_system_clipboard :: "'f canvas_controller \<Rightarrow> u64 option \<Rightarrow> bool" where
  "should_paste_system_clipboard c fingerprint =
    (sn_notes (cc_clipboard c) = [] \<or> fingerprint \<noteq> None \<and> fingerprint \<noteq> cc_fingerprint c)"

text \<open>\<open>id_map.get(&i)\<close>: the map is collected from the notes in order, the last entry of a key stays.\<close>

definition paste_ids :: "(nat \<Rightarrow> string) \<Rightarrow> 'f canvas_note list \<Rightarrow> string \<Rightarrow> string option" where
  "paste_ids fresh ns = map_of (rev (zip (map cn_id ns) (map fresh [0 ..< length ns])))"

definition unwrap_or_default :: "string option \<Rightarrow> string" where
  "unwrap_or_default x = (case x of Some s \<Rightarrow> s | None \<Rightarrow> [])"

definition paste_note :: "'f f32_ops \<Rightarrow> (string \<Rightarrow> string option) \<Rightarrow> 'f \<Rightarrow> 'f \<Rightarrow> 'f canvas_note \<Rightarrow> 'f canvas_note" where
  "paste_note F ids dx dy n =
    n\<lparr>cn_id := unwrap_or_default (ids (cn_id n)), cn_parent_group_id := unwrap_or_default (ids (cn_parent_group_id n)),
      cn_x := f_add F (cn_x n) dx, cn_y := f_add F (cn_y n) dy, cn_selected := True\<rparr>"

text \<open>A link draws its identifier before its ends are looked up.\<close>

fun paste_links :: "(nat \<Rightarrow> string) \<Rightarrow> (string \<Rightarrow> string option) \<Rightarrow> nat \<Rightarrow> canvas_link list \<Rightarrow> canvas_link list" where
  "paste_links fresh ids k [] = []"
| "paste_links fresh ids k (l # ls) =
    (case (ids (cl_source_id l), ids (cl_target_id l)) of
       (Some s, Some t) \<Rightarrow>
         \<lparr>cl_id = fresh k, cl_source_id = s, cl_target_id = t, cl_flow_reversed = cl_flow_reversed l\<rparr>
           # paste_links fresh ids (Suc k) ls
     | _ \<Rightarrow> paste_links fresh ids (Suc k) ls)"

definition paste_clipboard ::
  "'f f32_ops \<Rightarrow> (nat \<Rightarrow> string) \<Rightarrow> 'f canvas_controller \<Rightarrow> 'f \<Rightarrow> 'f \<Rightarrow> 'f canvas_note list \<times> canvas_link list" where
  "paste_clipboard F fresh c dx dy =
    (let ns = sn_notes (cc_clipboard c); ids = paste_ids fresh ns in
     (map (paste_note F ids dx dy) ns, paste_links fresh ids (length ns) (sn_links (cc_clipboard c))))"

section \<open>History\<close>

text \<open>What a user does to the canvas: an edit, which records the canvas before it, an undo, or a redo.\<close>

inductive canvas_step ::
  "'f canvas_snapshot \<times> 'f canvas_controller \<Rightarrow> 'f canvas_snapshot \<times> 'f canvas_controller \<Rightarrow> bool" where
  edit: "canvas_step (current, c) (current', controller_record c current)"
| undo: "controller_undo c current = (Some previous, c') \<Longrightarrow> canvas_step (current, c) (previous, c')"
| redo: "controller_redo c current = (Some later, c') \<Longrightarrow> canvas_step (current, c) (later, c')"

inductive_cases canvas_stepE: "canvas_step s t"

text \<open>The snapshots the history can go back and forth to, the canvas itself included, oldest first.\<close>

definition timeline :: "'f canvas_snapshot \<times> 'f canvas_controller \<Rightarrow> 'f canvas_snapshot list" where
  "timeline s = cc_undo (snd s) @ [fst s] @ rev (cc_redo (snd s))"

definition history_ok :: "'f canvas_snapshot \<times> 'f canvas_controller \<Rightarrow> bool" where
  "history_ok s = (length (cc_undo (snd s)) + length (cc_redo (snd s)) \<le> MAX_CANVAS_HISTORY)"

lemma undo_facts:
  assumes "controller_undo c current = (Some previous, c')"
  shows "timeline (previous, c') = timeline (current, c)" and "controller_redo c' previous = (Some current, c)"
    and "length (cc_undo c') + length (cc_redo c') = length (cc_undo c) + length (cc_redo c)"
proof -
  from assms have "cc_undo c \<noteq> []" by (auto simp: controller_undo_def split: if_splits)
  then obtain older where "cc_undo c = older @ [previous]" "c' = c\<lparr>cc_undo := older, cc_redo := cc_redo c @ [current]\<rparr>"
    using assms by (cases "cc_undo c" rule: rev_cases) (auto simp: controller_undo_def)
  then show "timeline (previous, c') = timeline (current, c)" "controller_redo c' previous = (Some current, c)"
    "length (cc_undo c') + length (cc_redo c') = length (cc_undo c) + length (cc_redo c)"
    by (cases c; simp add: controller_redo_def timeline_def)+
qed

lemma redo_facts:
  assumes "controller_redo c current = (Some later, c')"
  shows "timeline (later, c') = timeline (current, c)" and "controller_undo c' later = (Some current, c)"
    and "length (cc_undo c') + length (cc_redo c') = length (cc_undo c) + length (cc_redo c)"
proof -
  from assms have "cc_redo c \<noteq> []" by (auto simp: controller_redo_def split: if_splits)
  then obtain newer where "cc_redo c = newer @ [later]" "c' = c\<lparr>cc_redo := newer, cc_undo := cc_undo c @ [current]\<rparr>"
    using assms by (cases "cc_redo c" rule: rev_cases) (auto simp: controller_redo_def)
  then show "timeline (later, c') = timeline (current, c)" "controller_undo c' later = (Some current, c)"
    "length (cc_undo c') + length (cc_redo c') = length (cc_undo c) + length (cc_redo c)"
    by (cases c; simp add: controller_undo_def timeline_def)+
qed

lemma canvas_step_history_ok: "canvas_step s t \<Longrightarrow> history_ok s \<Longrightarrow> history_ok t"
proof (erule canvas_stepE)
  fix current c current'
  assume "history_ok s" "s = (current, c)" "t = (current', controller_record c current)"
  then show "history_ok t" by (auto simp: history_ok_def controller_record_def Let_def MAX_CANVAS_HISTORY_def)
qed (auto simp: history_ok_def dest: undo_facts(3) redo_facts(3))

lemma history_bounded:
  assumes "canvas_step\<^sup>*\<^sup>* (start, controller_default) s"
  shows "history_ok s"
  by (rule run_invariant [OF assms, where I = history_ok])
    (simp add: history_ok_def controller_default_def, rule canvas_step_history_ok)

lemma can_undo_redo:
  "can_undo c \<longleftrightarrow> fst (controller_undo c current) \<noteq> None" "can_redo c \<longleftrightarrow> fst (controller_redo c current) \<noteq> None"
  by (simp_all add: can_undo_def can_redo_def controller_undo_def controller_redo_def)

lemma record_timeline:
  "timeline (current', controller_record c current) =
    (if length (cc_undo c) < MAX_CANVAS_HISTORY then cc_undo c else tl (cc_undo c)) @ [current, current']"
  by (cases "cc_undo c") (auto simp: timeline_def controller_record_def Let_def MAX_CANVAS_HISTORY_def)

text \<open>
  C39: undo and redo walk along one timeline. In every state a user can reach, the two stacks hold at
  most 100 snapshots together; an undo or a redo moves along the timeline of snapshots without
  changing it, and each is taken back exactly by the other, the stacks included; an edit appends the new
  canvas behind the one it changed, drops what could be redone, and forgets the oldest snapshot only when
  there are 100.
\<close>

theorem undo_and_redo_walk_one_timeline:
  assumes "canvas_step\<^sup>*\<^sup>* (start, controller_default) (current, c)"
  shows "length (cc_undo c) + length (cc_redo c) \<le> 100
    \<and> (\<forall>previous c'. controller_undo c current = (Some previous, c') \<longrightarrow>
        timeline (previous, c') = timeline (current, c) \<and> controller_redo c' previous = (Some current, c))
    \<and> (\<forall>later c'. controller_redo c current = (Some later, c') \<longrightarrow>
        timeline (later, c') = timeline (current, c) \<and> controller_undo c' later = (Some current, c))
    \<and> timeline (current', controller_record c current) =
        (if length (cc_undo c) < 100 then cc_undo c else tl (cc_undo c)) @ [current, current']
    \<and> (can_undo c \<longleftrightarrow> fst (controller_undo c current) \<noteq> None) \<and> (can_redo c \<longleftrightarrow> fst (controller_redo c current) \<noteq> None)"
  using history_bounded [OF assms] record_timeline [of current' c current] can_undo_redo [of c current]
  unfolding history_ok_def MAX_CANVAS_HISTORY_def snd_conv by (blast dest: undo_facts(1,2) redo_facts(1,2))

definition witness_snapshot :: "string \<Rightarrow> int canvas_snapshot" where
  "witness_snapshot i = \<lparr>sn_notes = [witness_note i ''text'' [] False], sn_links = []\<rparr>"

theorem undo_and_redo_walk_one_timeline_witness:
  "let c = snd (controller_undo (controller_record (controller_record controller_default (witness_snapshot ''a'')) (witness_snapshot ''b''))
      (witness_snapshot ''c'')) in
   timeline (witness_snapshot ''b'', c) = [witness_snapshot ''a'', witness_snapshot ''b'', witness_snapshot ''c'']
   \<and> timeline (witness_snapshot ''d'', controller_record c (witness_snapshot ''b''))
      = [witness_snapshot ''a'', witness_snapshot ''b'', witness_snapshot ''d'']"
proof -
  let ?c1 = "controller_record controller_default (witness_snapshot ''a'')"
  let ?c2 = "controller_record ?c1 (witness_snapshot ''b'')"
  let ?c = "snd (controller_undo ?c2 (witness_snapshot ''c''))"
  note eval = controller_record_def controller_default_def controller_undo_def Let_def MAX_CANVAS_HISTORY_def
  have undo: "controller_undo ?c2 (witness_snapshot ''c'') = (Some (witness_snapshot ''b''), ?c)"
    by (simp add: eval)
  have "canvas_step\<^sup>*\<^sup>* (witness_snapshot ''a'', controller_default) (witness_snapshot ''b'', ?c)"
    using canvas_step.edit [of "witness_snapshot ''a''" controller_default "witness_snapshot ''b''"]
      canvas_step.edit [of "witness_snapshot ''b''" ?c1 "witness_snapshot ''c''"] canvas_step.undo [OF undo]
    by (meson converse_rtranclp_into_rtranclp rtranclp.rtrancl_refl)
  from undo_and_redo_walk_one_timeline [OF this, of "witness_snapshot ''d''"]
  show ?thesis by (simp add: eval timeline_def)
qed

section \<open>Pasting a copy\<close>

definition copied :: "'f canvas_note list \<Rightarrow> 'f canvas_note list" where
  "copied ns = filter (\<lambda>n. cn_id n \<in> expanded_selection_ids ns) ns"

lemma paste_ids_eq:
  assumes "distinct (map cn_id ns)" and "i < length ns"
  shows "paste_ids fresh ns (cn_id (ns ! i)) = Some (fresh i)"
proof -
  let ?z = "zip (map cn_id ns) (map fresh [0 ..< length ns])"
  have "distinct (map fst (rev ?z))" using assms(1) by (simp add: rev_map [symmetric])
  moreover have "(cn_id (ns ! i), fresh i) \<in> set (rev ?z)" using assms(2) by (force simp: set_zip)
  ultimately show ?thesis by (simp add: paste_ids_def)
qed

lemma paste_ids_None: "x \<notin> note_ids ns \<Longrightarrow> paste_ids fresh ns x = None"
  by (auto simp: paste_ids_def map_of_eq_None_iff note_ids_def dest!: set_zip_leftD)

lemma paste_ids_range:
  assumes "paste_ids fresh ns x = Some y"
  shows "x \<in> note_ids ns \<and> y \<in> range fresh"
proof -
  have "(x, y) \<in> set (rev (zip (map cn_id ns) (map fresh [0 ..< length ns])))"
    using assms unfolding paste_ids_def by (rule map_of_SomeD)
  then have "(x, y) \<in> set (zip (map cn_id ns) (map fresh [0 ..< length ns]))" by simp
  from set_zip_leftD [OF this] set_zip_rightD [OF this] show ?thesis by (auto simp: note_ids_def)
qed

lemma paste_ids_inj:
  assumes "distinct (map cn_id ns)" and "inj fresh" and "paste_ids fresh ns x = Some z" and "paste_ids fresh ns y = Some z"
  shows "x = y"
proof -
  from paste_ids_range [OF assms(3)] paste_ids_range [OF assms(4)] obtain i j
    where "i < length ns" "x = cn_id (ns ! i)" "j < length ns" "y = cn_id (ns ! j)"
    by (auto simp: note_ids_def in_set_conv_nth)
  with paste_ids_eq [OF assms(1)] assms(2-4) show ?thesis by (auto dest: injD)
qed

lemma trancl_image:
  assumes "(x, y) \<in> R'\<^sup>+" and "\<And>u v. (u, v) \<in> R' \<Longrightarrow> \<exists>a b. f a = Some u \<and> f b = Some v \<and> (a, b) \<in> R"
    and "\<And>a b z. f a = Some z \<Longrightarrow> f b = Some z \<Longrightarrow> a = b"
  shows "\<exists>a b. f a = Some x \<and> f b = Some y \<and> (a, b) \<in> R\<^sup>+"
  using assms(1)
proof (induction rule: trancl_induct)
  case (base y)
  with assms(2) [of x y] show ?case by blast
next
  case (step y z)
  then obtain a b where ab: "f a = Some x" "f b = Some y" "(a, b) \<in> R\<^sup>+" by blast
  from assms(2) [OF step(2)] obtain b' c where "f b' = Some y" "f c = Some z" "(b', c) \<in> R" by blast
  with assms(3) [of b y b'] ab have "(a, c) \<in> R\<^sup>+" "f c = Some z" by (auto intro: trancl_into_trancl)
  with ab show ?case by blast
qed

lemma groups_ok_append:
  assumes "groups_ok ns" and "groups_ok ms" and "note_ids ns \<inter> note_ids ms = {}"
  shows "groups_ok (ns @ ms)"
proof -
  have rel: "parent_rel (ns @ ms) = parent_rel ns \<union> parent_rel ms" by (auto simp: parent_rel_def)
  have in_ns: "x \<in> note_ids ns \<and> y \<in> note_ids ns" if "(x, y) \<in> parent_rel ns" for x y
    using that parent_is_group [OF assms(1) that] group_ids_sub [of ns] by (auto simp: parent_rel_def note_ids_def)
  have in_ms: "x \<in> note_ids ms \<and> y \<in> note_ids ms" if "(x, y) \<in> parent_rel ms" for x y
    using that parent_is_group [OF assms(2) that] group_ids_sub [of ms] by (auto simp: parent_rel_def note_ids_def)
  have "(x, y) \<in> (parent_rel ns)\<^sup>+ \<and> y \<in> note_ids ns \<or> (x, y) \<in> (parent_rel ms)\<^sup>+ \<and> y \<in> note_ids ms"
    if "(x, y) \<in> (parent_rel ns \<union> parent_rel ms)\<^sup>+" for x y
    using that
  proof (induction rule: trancl_induct)
    case (base y)
    then show ?case using in_ns in_ms by blast
  next
    case (step y z)
    then show ?case using in_ns [of y z] in_ms [of y z] assms(3) by (blast intro: trancl_into_trancl)
  qed
  then have "acyclic (parent_rel (ns @ ms))" using assms(1,2) unfolding rel groups_ok_def acyclic_def by blast
  moreover have "ids_ok (ns @ ms)" using assms by (auto simp: groups_ok_def ids_ok_def note_ids_def)
  moreover have "group_ids (ns @ ms) = group_ids ns \<union> group_ids ms" by (auto simp: group_ids_def)
  ultimately show ?thesis using assms(1,2) by (auto simp: groups_ok_def)
qed

lemma paste_links_fields:
  assumes "\<forall>l \<in> set ls. ids (cl_source_id l) \<noteq> None \<and> ids (cl_target_id l) \<noteq> None"
  shows "map cl_id (paste_links fresh ids k ls) = map fresh [k ..< k + length ls]
    \<and> map cl_source_id (paste_links fresh ids k ls) = map (unwrap_or_default \<circ> ids \<circ> cl_source_id) ls
    \<and> map cl_target_id (paste_links fresh ids k ls) = map (unwrap_or_default \<circ> ids \<circ> cl_target_id) ls
    \<and> map cl_flow_reversed (paste_links fresh ids k ls) = map cl_flow_reversed ls"
  using assms
proof (induction fresh ids k ls rule: paste_links.induct)
  case (2 fresh ids k l ls)
  then obtain s t where "ids (cl_source_id l) = Some s" "ids (cl_target_id l) = Some t" by auto
  with 2 show ?case by (auto simp: unwrap_or_default_def upt_conv_Cons simp del: upt_Suc)
qed simp

lemma expanded_in_notes: "groups_ok ns \<Longrightarrow> expanded_selection_ids ns \<subseteq> note_ids ns"
  by (auto simp: expanded_selection_ids_eq selected_ids_def note_ids_def parent_rel_def dest!: tranclD)

lemma note_ids_copied: "groups_ok ns \<Longrightarrow> note_ids (copied ns) = expanded_selection_ids ns"
  using expanded_in_notes [of ns] by (auto simp: copied_def note_ids_def)

definition internal_links :: "'f canvas_note list \<Rightarrow> canvas_link list \<Rightarrow> canvas_link list" where
  "internal_links ns links =
    filter (\<lambda>l. cl_source_id l \<in> expanded_selection_ids ns \<and> cl_target_id l \<in> expanded_selection_ids ns) links"

lemma paste_copy_eq:
  "paste_clipboard F fresh (copy_selection c ns links) dx dy =
    (map (paste_note F (paste_ids fresh (copied ns)) dx dy) (copied ns),
     paste_links fresh (paste_ids fresh (copied ns)) (length (copied ns)) (internal_links ns links))"
  by (simp add: paste_clipboard_def copy_selection_def Let_def copied_def internal_links_def)

lemma paste_note_simps [simp]:
  "cn_id (paste_note F ids dx dy n) = unwrap_or_default (ids (cn_id n))"
  "cn_parent_group_id (paste_note F ids dx dy n) = unwrap_or_default (ids (cn_parent_group_id n))"
  "is_group (paste_note F ids dx dy n) = is_group n"
  by (simp_all add: paste_note_def is_group_def)

lemma in_group_ids: "n \<in> set ns \<Longrightarrow> is_group n \<Longrightarrow> cn_id n \<in> group_ids ns"
  by (simp add: group_ids_def)

lemma unwrap_Some: "unwrap_or_default x = y \<Longrightarrow> x \<noteq> None \<or> y \<noteq> [] \<Longrightarrow> x = Some y"
  by (cases x) (auto simp: unwrap_or_default_def)

lemma pasted_acyclic:
  assumes "groups_ok ns" and "inj fresh"
  shows "acyclic (parent_rel (map (paste_note F (paste_ids fresh (copied ns)) dx dy) (copied ns)))" (is "acyclic (parent_rel ?ps)")
proof -
  let ?cs = "copied ns" and ?m = "paste_ids fresh (copied ns)"
  have ids: "ids_ok ns" using assms(1) by (simp add: groups_ok_def)
  then have distinct: "distinct (map cn_id ?cs)" unfolding copied_def by (rule distinct_filter_ids)
  have id_of: "?m (cn_id n) \<noteq> None" if "n \<in> set ?cs" for n
    using that paste_ids_eq [OF distinct] by (metis in_set_conv_nth option.distinct(1))
  have some: "?m x \<noteq> None" if "unwrap_or_default (?m x) \<noteq> []" for x
    using that by (auto simp: unwrap_or_default_def split: option.splits)
  show ?thesis
    unfolding acyclic_def
  proof (intro allI notI)
    fix x assume "(x, x) \<in> (parent_rel ?ps)\<^sup>+"
    then have "\<exists>a b. ?m a = Some x \<and> ?m b = Some x \<and> (a, b) \<in> (parent_rel ns)\<^sup>+"
    proof (rule trancl_image)
      fix u v assume "(u, v) \<in> parent_rel ?ps"
      then obtain n where n: "n \<in> set ?cs" "unwrap_or_default (?m (cn_id n)) = u"
          "unwrap_or_default (?m (cn_parent_group_id n)) = v" "v \<noteq> []"
        by (auto simp: in_parent_rel)
      have m: "?m (cn_id n) = Some u" "?m (cn_parent_group_id n) = Some v"
        using unwrap_Some [OF n(2)] unwrap_Some [OF n(3)] id_of [OF n(1)] n(4) by blast+
      with paste_ids_range have "cn_parent_group_id n \<in> note_ids ?cs" by blast
      then have "cn_parent_group_id n \<noteq> []" using ids by (auto simp: note_ids_def copied_def dest: ids_ok_nonempty)
      with n(1) have "(cn_id n, cn_parent_group_id n) \<in> parent_rel ns" by (intro parent_rel_member) (auto simp: copied_def)
      with m show "\<exists>a b. ?m a = Some u \<and> ?m b = Some v \<and> (a, b) \<in> parent_rel ns" by blast
    next
      show "a = b" if "?m a = Some z" "?m b = Some z" for a b z
        using paste_ids_inj [OF distinct assms(2)] that by blast
    qed
    then obtain a where "(a, a) \<in> (parent_rel ns)\<^sup>+"
      using paste_ids_inj [OF distinct assms(2)] by blast
    with assms(1) show False by (simp add: groups_ok_def acyclic_def)
  qed
qed

lemma pasted_groups_ok:
  assumes "groups_ok ns" and "inj fresh" and "\<And>k. fresh k \<noteq> []"
  shows "groups_ok (map (paste_note F (paste_ids fresh (copied ns)) dx dy) (copied ns))" (is "groups_ok ?ps")
proof -
  let ?cs = "copied ns" and ?m = "paste_ids fresh (copied ns)"
  have ids: "ids_ok ns" using assms(1) by (simp add: groups_ok_def)
  then have distinct: "distinct (map cn_id ?cs)" unfolding copied_def by (rule distinct_filter_ids)
  have id_of: "?m (cn_id n) \<noteq> None" if "n \<in> set ?cs" for n
    using that paste_ids_eq [OF distinct] by (metis in_set_conv_nth option.distinct(1))
  have some: "?m x \<noteq> None" if "unwrap_or_default (?m x) \<noteq> []" for x
    using that by (auto simp: unwrap_or_default_def split: option.splits)
  have "map cn_id ?ps = map fresh [0 ..< length ?cs]"
    by (rule nth_equalityI) (simp_all add: paste_ids_eq [OF distinct] unwrap_or_default_def)
  moreover from this have "note_ids ?ps \<subseteq> range fresh" unfolding note_ids_def by (metis image_subset_iff list.set_map rangeI set_map)
  then have "[] \<notin> note_ids ?ps" using assms(3) by (metis rangeE subsetD)
  moreover have "distinct (map fresh [0 ..< length ?cs])" using assms(2) by (simp add: distinct_map inj_on_def inj_def)
  ultimately have "ids_ok ?ps" unfolding ids_ok_def by simp
  moreover have "cn_parent_group_id p = [] \<or> cn_parent_group_id p \<in> group_ids ?ps" if "p \<in> set ?ps" for p
  proof (cases "cn_parent_group_id p = []")
    case False
    from that obtain n where n: "n \<in> set ?cs" "p = paste_note F ?m dx dy n" by auto
    with False some have "?m (cn_parent_group_id n) \<noteq> None" by simp
    with paste_ids_range have "cn_parent_group_id n \<in> note_ids ?cs" by blast
    then obtain g where g: "g \<in> set ?cs" "cn_id g = cn_parent_group_id n" by (auto simp: note_ids_def)
    from n have "n \<in> set ns" by (simp add: copied_def)
    moreover have "cn_parent_group_id n \<noteq> []" using g ids_ok_nonempty [OF ids, of g] by (auto simp: copied_def)
    ultimately obtain h where "h \<in> set ns" "is_group h" "cn_id h = cn_parent_group_id n"
      using groups_ok_parent_cases [OF assms(1)] by metis
    with g ids_ok_unique [OF ids, of g h] have "is_group g" by (auto simp: copied_def)
    with g n(2) have "cn_parent_group_id p = cn_id (paste_note F ?m dx dy g)" "is_group (paste_note F ?m dx dy g)"
      by (simp_all del: paste_note_simps(1,2) add: paste_note_simps)
    moreover have "paste_note F ?m dx dy g \<in> set ?ps" using g(1) by simp
    ultimately show ?thesis by (metis in_group_ids)
  qed simp
  moreover have "acyclic (parent_rel ?ps)" by (rule pasted_acyclic [OF assms(1,2)])
  ultimately show ?thesis by (simp add: groups_ok_def)
qed

text \<open>
  C40: pasting makes a copy. After a copy of the selection, the pasted notes are the selected notes and
  everything in the selected groups, in their order, under fresh identifiers: each has every field of its
  original, moved by the offset and selected. Appended to the canvas they keep
  it a tree, a pasted note lies in a pasted group exactly when the originals do and is a top-level note
  when the group of its original was not copied. The links between copied notes, and no others, are pasted in
  their order, each under a fresh identifier of its own, between the copies of its ends and in its direction of
  flow.
\<close>

theorem pasting_copies_the_selection:
  assumes "groups_ok ns" and "inj fresh" and "\<And>k. fresh k \<noteq> [] \<and> fresh k \<notin> note_ids ns"
    and "paste_clipboard F fresh (copy_selection c ns links) dx dy = (ps, ls)"
  shows "copied ns = filter (\<lambda>n. cn_id n \<in> selected_ids ns \<or> (\<exists>g \<in> selected_group_ids ns. (cn_id n, g) \<in> (parent_rel ns)\<^sup>+)) ns
    \<and> internal_links ns links = filter (\<lambda>l. cl_source_id l \<in> note_ids (copied ns) \<and> cl_target_id l \<in> note_ids (copied ns)) links
    \<and> groups_ok (ns @ ps) \<and> length ps = length (copied ns)
    \<and> (\<forall>i < length (copied ns). ps ! i = (copied ns ! i)\<lparr>cn_id := fresh i, cn_parent_group_id := cn_parent_group_id (ps ! i),
          cn_x := f_add F (cn_x (copied ns ! i)) dx, cn_y := f_add F (cn_y (copied ns ! i)) dy, cn_selected := True\<rparr>)
    \<and> (\<forall>i < length (copied ns). \<forall>j < length (copied ns).
        cn_parent_group_id (ps ! i) = cn_id (ps ! j) \<longleftrightarrow> cn_parent_group_id (copied ns ! i) = cn_id (copied ns ! j))
    \<and> (\<forall>p \<in> set ps. cn_parent_group_id p = [] \<or> cn_parent_group_id p \<in> note_ids ps)
    \<and> length ls = length (internal_links ns links)
    \<and> (\<forall>k < length ls. cl_id (ls ! k) = fresh (length (copied ns) + k)
        \<and> cl_flow_reversed (ls ! k) = cl_flow_reversed (internal_links ns links ! k)
        \<and> (\<exists>i < length (copied ns). cl_source_id (ls ! k) = fresh i \<and> cl_source_id (internal_links ns links ! k) = cn_id (copied ns ! i))
        \<and> (\<exists>j < length (copied ns). cl_target_id (ls ! k) = fresh j \<and> cl_target_id (internal_links ns links ! k) = cn_id (copied ns ! j)))"
proof -
  let ?cs = "copied ns" and ?m = "paste_ids fresh (copied ns)" and ?is = "internal_links ns links"
  have "ids_ok ns" using assms(1) by (simp add: groups_ok_def)
  then have distinct: "distinct (map cn_id ?cs)" unfolding copied_def by (rule distinct_filter_ids)
  from assms(4) have ps: "ps = map (paste_note F ?m dx dy) ?cs"
    and ls: "ls = paste_links fresh ?m (length ?cs) ?is" by (simp_all add: paste_copy_eq)
  note pasted_id = paste_ids_eq [OF distinct, of _ fresh]
  have ids: "map cn_id ps = map fresh [0 ..< length ?cs]"
    unfolding ps by (rule nth_equalityI) (simp_all add: pasted_id unwrap_or_default_def)
  have pasted: "groups_ok ps" unfolding ps using assms(3) by (intro pasted_groups_ok [OF assms(1,2)]) blast
  have "note_ids ps = set (map fresh [0 ..< length ?cs])" unfolding ids [symmetric] by (simp add: note_ids_def)
  with assms(3) have "note_ids ns \<inter> note_ids ps = {}" by auto
  from groups_ok_append [OF assms(1) pasted this] have tree: "groups_ok (ns @ ps)" .
  have parents: "cn_parent_group_id (ps ! i) = cn_id (ps ! j) \<longleftrightarrow> cn_parent_group_id (?cs ! i) = cn_id (?cs ! j)"
    if ij: "i < length ?cs" "j < length ?cs" for i j
  proof -
    note j = pasted_id [OF ij(2)]
    have "cn_parent_group_id (ps ! i) = cn_id (ps ! j) \<longleftrightarrow> ?m (cn_parent_group_id (?cs ! i)) = Some (fresh j)"
      using ij assms(3) [of j] unwrap_Some [of "?m (cn_parent_group_id (?cs ! i))" "fresh j"] j
      by (auto simp: ps unwrap_or_default_def)
    with j paste_ids_inj [OF distinct assms(2) _ j] show ?thesis by metis
  qed
  have copy: "\<exists>i < length ?cs. ?m x = Some (fresh i) \<and> x = cn_id (?cs ! i)" if "x \<in> note_ids ?cs" for x
    using that pasted_id by (metis image_iff in_set_conv_nth note_ids_def)
  have ends: "cl_source_id l \<in> note_ids ?cs \<and> cl_target_id l \<in> note_ids ?cs" if "l \<in> set ?is" for l
    using that by (simp add: internal_links_def note_ids_copied [OF assms(1)])
  with copy have "\<forall>l \<in> set ?is. ?m (cl_source_id l) \<noteq> None \<and> ?m (cl_target_id l) \<noteq> None" by (metis option.distinct(1))
  from paste_links_fields [OF this, of fresh "length ?cs"]
  have fields: "map cl_id ls = map fresh [length ?cs ..< length ?cs + length ?is]"
    "map cl_source_id ls = map (unwrap_or_default \<circ> ?m \<circ> cl_source_id) ?is"
    "map cl_target_id ls = map (unwrap_or_default \<circ> ?m \<circ> cl_target_id) ?is"
    "map cl_flow_reversed ls = map cl_flow_reversed ?is"
    unfolding ls by blast+
  from fields(4) have links: "length ls = length ?is" by (metis length_map)
  have link: "cl_id (ls ! k) = fresh (length ?cs + k) \<and> cl_flow_reversed (ls ! k) = cl_flow_reversed (?is ! k)
      \<and> (\<exists>i < length ?cs. cl_source_id (ls ! k) = fresh i \<and> cl_source_id (?is ! k) = cn_id (?cs ! i))
      \<and> (\<exists>j < length ?cs. cl_target_id (ls ! k) = fresh j \<and> cl_target_id (?is ! k) = cn_id (?cs ! j))" if k: "k < length ls" for k
  proof -
    have at: "map g ls ! k = g (ls ! k)" "map h ?is ! k = h (?is ! k)" for g :: "canvas_link \<Rightarrow> 'x" and h :: "canvas_link \<Rightarrow> 'x"
      using k links by simp_all
    have "cl_id (ls ! k) = fresh (length ?cs + k)" using at(1) [of cl_id] fields(1) k links by simp
    moreover have "cl_flow_reversed (ls ! k) = cl_flow_reversed (?is ! k)" using at [of cl_flow_reversed] fields(4) by metis
    moreover have "cl_source_id (ls ! k) = unwrap_or_default (?m (cl_source_id (?is ! k)))"
      using at(1) [of cl_source_id] at(2) [of "unwrap_or_default \<circ> ?m \<circ> cl_source_id"] fields(2) by simp
    moreover have "cl_target_id (ls ! k) = unwrap_or_default (?m (cl_target_id (?is ! k)))"
      using at(1) [of cl_target_id] at(2) [of "unwrap_or_default \<circ> ?m \<circ> cl_target_id"] fields(3) by simp
    moreover have "?is ! k \<in> set ?is" using k links by simp
    ultimately show ?thesis using ends copy unwrap_or_default_def by (metis option.simps(5))
  qed
  have inside: "\<forall>p \<in> set ps. cn_parent_group_id p = [] \<or> cn_parent_group_id p \<in> note_ids ps"
    using pasted group_ids_sub [of ps] unfolding groups_ok_def by blast
  have nth: "\<forall>i < length ?cs. ps ! i = (?cs ! i)\<lparr>cn_id := fresh i, cn_parent_group_id := cn_parent_group_id (ps ! i),
      cn_x := f_add F (cn_x (?cs ! i)) dx, cn_y := f_add F (cn_y (?cs ! i)) dy, cn_selected := True\<rparr>"
    by (simp add: ps pasted_id) (simp add: paste_note_def pasted_id unwrap_or_default_def)
  have selection: "?cs = filter (\<lambda>n. cn_id n \<in> selected_ids ns \<or> (\<exists>g \<in> selected_group_ids ns. (cn_id n, g) \<in> (parent_rel ns)\<^sup>+)) ns"
    by (simp add: copied_def expanded_selection_ids_eq [OF assms(1)])
  have inner: "?is = filter (\<lambda>l. cl_source_id l \<in> note_ids ?cs \<and> cl_target_id l \<in> note_ids ?cs) links"
    by (simp add: internal_links_def note_ids_copied [OF assms(1)])
  have "length ps = length ?cs" by (simp add: ps)
  with selection inner tree nth inside links link parents show ?thesis by blast
qed

definition witness_fresh :: "nat \<Rightarrow> string" where
  "witness_fresh k = replicate (Suc k) (CHR ''n'')"

definition witness_links :: "canvas_link list" where
  "witness_links = [(witness_link ''l'' ''a'' ''b'')\<lparr>cl_flow_reversed := True\<rparr>]"

theorem pasting_copies_the_selection_witness:
  "let ns = [witness_note ''a'' ''text'' [] True, witness_note ''b'' ''text'' [] True];
       pasted = paste_clipboard int_f32 witness_fresh (copy_selection controller_default ns witness_links) 24 24 in
   groups_ok (ns @ fst pasted) \<and> cn_content (fst pasted ! 1) = cn_content (ns ! 1) \<and> cn_id (fst pasted ! 1) = ''nn''
   \<and> cl_flow_reversed (snd pasted ! 0) \<and> cl_id (snd pasted ! 0) = ''nnn''"
proof -
  let ?ns = "[witness_note ''a'' ''text'' [] True, witness_note ''b'' ''text'' [] True]"
  let ?pasted = "paste_clipboard int_f32 witness_fresh (copy_selection controller_default ?ns witness_links) 24 24"
  have "ids_ok ?ns" by (simp add: ids_ok_def note_ids_def witness_note_def)
  moreover have "normalize_canvas_groups ?ns = ?ns"
    by (simp add: normalize_canvas_groups_def clear_foreign_parents_def group_ids_def is_group_def witness_note_def
        Let_def chain_ends.simps parent_of_def set_parent_def)
  ultimately have ok: "groups_ok ?ns" by (metis groups_ok_normalized)
  have inj: "inj witness_fresh" by (auto simp: inj_def witness_fresh_def dest: arg_cong [where f = length])
  have fresh: "witness_fresh k \<noteq> [] \<and> witness_fresh k \<notin> note_ids ?ns" for k
    by (simp add: witness_fresh_def note_ids_def witness_note_def)
  have ids: "expanded_selection_ids ?ns = {''a'', ''b''}"
    by (simp add: expanded_selection_ids_def selected_ids_def witness_note_def insert_commute)
  have copied: "copied ?ns = ?ns" "internal_links ?ns witness_links = witness_links"
    unfolding copied_def internal_links_def ids by (simp_all add: witness_note_def witness_link_def witness_links_def)
  note pasting = pasting_copies_the_selection [where F = int_f32 and c = controller_default and links = witness_links
      and dx = 24 and dy = 24, OF ok inj fresh prod.collapse [symmetric], unfolded copied]
  have tree: "groups_ok (?ns @ fst ?pasted)" using pasting by blast
  have "\<forall>i < length ?ns. fst ?pasted ! i = (?ns ! i)\<lparr>cn_id := witness_fresh i,
      cn_parent_group_id := cn_parent_group_id (fst ?pasted ! i), cn_x := f_add int_f32 (cn_x (?ns ! i)) 24,
      cn_y := f_add int_f32 (cn_y (?ns ! i)) 24, cn_selected := True\<rparr>" using pasting by blast
  moreover have "1 < length ?ns" by simp
  ultimately obtain parent x y where second: "fst ?pasted ! 1 = (?ns ! 1)\<lparr>cn_id := witness_fresh 1, cn_parent_group_id := parent,
      cn_x := x, cn_y := y, cn_selected := True\<rparr>" by blast
  have "length (snd ?pasted) = length witness_links" using pasting by blast
  then have "0 < length (snd ?pasted)" by (simp add: witness_links_def)
  with pasting have "cl_id (snd ?pasted ! 0) = witness_fresh (length ?ns + 0)
      \<and> cl_flow_reversed (snd ?pasted ! 0) = cl_flow_reversed (witness_links ! 0)" by blast
  moreover have "witness_fresh 1 = ''nn''" "witness_fresh (length ?ns + 0) = ''nnn''" "cl_flow_reversed (witness_links ! 0)"
    by (simp_all add: witness_fresh_def witness_links_def numeral_2_eq_2)
  moreover have "cn_content (fst ?pasted ! 1) = cn_content (?ns ! 1)" "cn_id (fst ?pasted ! 1) = witness_fresh 1"
    by (subst second, simp)+
  ultimately show ?thesis using tree unfolding Let_def by metis
qed

end
