(* ===== verification/Migration_World.thy ===== *)
theory Migration_World
  imports Fallible_Program Path_Remap
begin

text \<open>
  The file system that a directory migration works on
  (\<open>native-client/src/directory_migration.rs\<close>): nodes by identity, the system calls the migration makes, and
  what other processes do before each of them. A handle is the identity of its node: a file that is
  renamed or unlinked keeps its node.
\<close>

section \<open>Files\<close>

type_synonym inode = nat

datatype node_content =
    Folder "(string \<times> inode) list"
  | Bytes "8 word list"
  | Special

record node =
  nd_content :: node_content
  nd_modified :: nat
  nd_changed :: "int \<times> int"
  nd_links :: nat

record file_system =
  fs_root :: inode
  fs_nodes :: "inode \<Rightarrow> node option"
  fs_next :: inode

section \<open>Errors\<close>

text \<open>
  \<open>io::Error\<close>: its kind, as far as the code asks for it, and a message or the \<open>MigrationEntryError\<close> that names
  an entry. \<open>OutOfFuel\<close> is not a kind of the code: it marks a loop that was cut off.
\<close>

datatype io_kind = NotFound | AlreadyExists | OutOfFuel | OtherKind

datatype io_payload =
    Message string
  | EntryFailed (failed_path: path) (failed_directory: bool) (failed_bytes: u64)

datatype io_error = IoError (io_kind: io_kind) (io_payload: io_payload)

abbreviation other_error :: "string \<Rightarrow> io_error" where
  "other_error message \<equiv> IoError OtherKind (Message message)"

section \<open>The world of a migration\<close>

text \<open>The report of a migration, and the entries of the log: what the program itself did or observed.\<close>

record migration_report =
  rp_total_files :: usize
  rp_copied_files :: usize
  rp_copied_bytes :: u64
  rp_skipped_files :: "path list"
  rp_failed_files :: "path list"
  rp_operation_errors :: nat
  rp_move_source :: bool
  rp_removed_source_files :: usize
  rp_retained_source_files :: "path list"

definition report_default :: migration_report where
  "report_default = \<lparr>rp_total_files = 0, rp_copied_files = 0, rp_copied_bytes = 0, rp_skipped_files = [], rp_failed_files = [],
    rp_operation_errors = 0, rp_move_source = False, rp_removed_source_files = 0, rp_retained_source_files = []\<rparr>"

datatype migration_event =
    Looked
  | Opened inode string inode
  | MadeFolder inode string inode
  | CreatedFile inode string inode
  | WroteTo inode "8 word list"
  | Renamed inode string string
  | Progressed u64 u64
  | CommitCalled "io_error + unit"

record migration_view =
  mv_others :: "file_system \<Rightarrow> file_system"
  mv_fault :: "io_error option"
  mv_short :: nat
  mv_now :: "nat \<times> int \<times> int"
  mv_staging_name :: string
  mv_commit :: "io_error + unit"

record migration_world =
  mw_views :: "nat \<Rightarrow> migration_view"
  mw_clock :: nat
  mw_fs :: file_system
  mw_report :: migration_report
  mw_log :: "migration_event list"

type_synonym 'a migration = "(io_error, 'a, migration_world) fallible"

abbreviation refuse_io :: "string \<Rightarrow> 'a migration" where
  "refuse_io message \<equiv> result_is (Inl (other_error message))"

abbreviation check :: "bool \<Rightarrow> string \<Rightarrow> unit migration" where
  "check b message \<equiv> result_is (ensure b (other_error message))"

text \<open>
  One call: other processes act, then the call fails or does its work.
\<close>

definition others_move :: "migration_world \<Rightarrow> migration_world" where
  "others_move w = w\<lparr>mw_clock := Suc (mw_clock w), mw_fs := mv_others (mw_views w (mw_clock w)) (mw_fs w)\<rparr>"

definition call ::
  "(migration_view \<Rightarrow> file_system \<Rightarrow> (io_error + 'a) \<times> file_system \<times> migration_event) \<Rightarrow> 'a migration" where
  "call f w =
    (let v = mw_views w (mw_clock w); w0 = others_move w in
     case mv_fault v of
       Some e \<Rightarrow> (Inl e, w0\<lparr>mw_log := mw_log w @ [Looked]\<rparr>)
     | None \<Rightarrow> (case f v (mw_fs w0) of (r, fs, event) \<Rightarrow> (r, w0\<lparr>mw_fs := fs, mw_log := mw_log w @ [event]\<rparr>)))"

text \<open>A call that only looks.\<close>

definition look_at :: "(migration_view \<Rightarrow> file_system \<Rightarrow> io_error + 'a) \<Rightarrow> 'a migration" where
  "look_at f = call (\<lambda>v fs. (f v fs, fs, Looked))"

section \<open>System calls\<close>

definition node_at :: "file_system \<Rightarrow> inode \<Rightarrow> io_error + node" where
  "node_at fs i = (case fs_nodes fs i of None \<Rightarrow> Inl (other_error ''stale handle'') | Some n \<Rightarrow> Inr n)"

definition child_of :: "file_system \<Rightarrow> inode \<Rightarrow> string \<Rightarrow> io_error + inode" where
  "child_of fs i name =
    bind_result (node_at fs i) (\<lambda>n. case nd_content n of
      Folder entries \<Rightarrow> (case map_of entries name of None \<Rightarrow> Inl (IoError NotFound (Message ''no such file'')) | Some j \<Rightarrow> Inr j)
    | _ \<Rightarrow> Inl (other_error ''not a directory''))"

definition file_metadata_of :: "inode \<Rightarrow> node migration" where
  "file_metadata_of i = look_at (\<lambda>v fs. node_at fs i)"

definition is_folder :: "node \<Rightarrow> bool" where
  "is_folder n = (case nd_content n of Folder _ \<Rightarrow> True | _ \<Rightarrow> False)"

definition is_regular :: "node \<Rightarrow> bool" where
  "is_regular n = (case nd_content n of Bytes _ \<Rightarrow> True | _ \<Rightarrow> False)"

definition identity :: "inode \<Rightarrow> inode migration" where
  "identity i = and_then (file_metadata_of i) (\<lambda>_. result_is (Inr i))"

definition verify_regular :: "inode \<Rightarrow> unit migration" where
  "verify_regular i = and_then (file_metadata_of i) (\<lambda>n.
    and_then (check (is_regular n) ''the migrated file is not a regular file'') (\<lambda>_.
    check (nd_links n = 1) ''hard links are not migrated''))"

text \<open>\<open>mkdirat\<close>, and \<open>openat\<close> with \<open>O_CREAT | O_EXCL\<close>: a new node under a free name.\<close>

definition touch :: "nat \<times> int \<times> int \<Rightarrow> node \<Rightarrow> node" where
  "touch now n = n\<lparr>nd_modified := fst now, nd_changed := snd now\<rparr>"

definition add_node ::
  "node_content \<Rightarrow> inode \<Rightarrow> string \<Rightarrow> nat \<times> int \<times> int \<Rightarrow> file_system \<Rightarrow> (io_error + inode) \<times> file_system" where
  "add_node content i name now fs =
    (case fs_nodes fs i of
       Some n \<Rightarrow>
         (case nd_content n of
            Folder entries \<Rightarrow>
              if map_of entries name \<noteq> None then (Inl (IoError AlreadyExists (Message ''file exists'')), fs)
              else
                (let j = fs_next fs in
                 (Inr j, fs\<lparr>fs_next := Suc j,
                    fs_nodes := (fs_nodes fs)(i \<mapsto> touch now (n\<lparr>nd_content := Folder (entries @ [(name, j)])\<rparr>),
                      j \<mapsto> \<lparr>nd_content = content, nd_modified = fst now, nd_changed = snd now, nd_links = 1\<rparr>)\<rparr>))
          | _ \<Rightarrow> (Inl (other_error ''not a directory''), fs))
     | None \<Rightarrow> (Inl (other_error ''stale handle''), fs))"

definition make_dir_at :: "inode \<Rightarrow> string \<Rightarrow> unit migration" where
  "make_dir_at i name = call (\<lambda>v fs.
    case add_node (Folder []) i name (mv_now v) fs of
      (Inl e, fs') \<Rightarrow> (Inl e, fs', Looked)
    | (Inr j, fs') \<Rightarrow> (Inr (), fs', MadeFolder i name j))"

text \<open>Opening an existing name: the log keeps which file was found under it.\<close>

definition open_at :: "inode \<Rightarrow> string \<Rightarrow> bool \<Rightarrow> inode migration" where
  "open_at i name directory = call (\<lambda>v fs.
    case bind_result (child_of fs i name) (\<lambda>j. bind_result (node_at fs j) (\<lambda>n.
      if directory \<and> \<not> is_folder n then Inl (other_error ''not a directory'') else Inr j)) of
      Inl e \<Rightarrow> (Inl e, fs, Looked)
    | Inr j \<Rightarrow> (Inr j, fs, Opened i name j))"

definition create_at :: "inode \<Rightarrow> string \<Rightarrow> inode migration" where
  "create_at i name = call (\<lambda>v fs.
    case add_node (Bytes []) i name (mv_now v) fs of
      (Inl e, fs') \<Rightarrow> (Inl e, fs', Looked)
    | (Inr j, fs') \<Rightarrow> (Inr j, fs', CreatedFile i name j))"

text \<open>\<open>read_at\<close> may return less than was asked for, but not nothing when there is something.\<close>

definition read_at :: "inode \<Rightarrow> nat \<Rightarrow> nat \<Rightarrow> 8 word list migration" where
  "read_at i limit offset = look_at (\<lambda>v fs.
    bind_result (node_at fs i) (\<lambda>n. case nd_content n of
      Bytes b \<Rightarrow> Inr (take (max 1 (min limit (mv_short v))) (take limit (drop offset b)))
    | _ \<Rightarrow> Inl (other_error ''not a file'')))"

text \<open>\<open>write_all\<close> at the position of the handle, which is what has been written through it so far.\<close>

definition overwrite :: "nat \<Rightarrow> 8 word list \<Rightarrow> 8 word list \<Rightarrow> 8 word list" where
  "overwrite offset bytes b = take offset (b @ replicate (offset - length b) 0) @ bytes @ drop (offset + length bytes) b"

text \<open>A write that fails may have written a part of the bytes.\<close>

definition call_through ::
  "(migration_view \<Rightarrow> file_system \<Rightarrow> (io_error + 'a) \<times> file_system \<times> migration_event) \<Rightarrow> 'a migration" where
  "call_through f w =
    (let w0 = others_move w in
     case f (mw_views w (mw_clock w)) (mw_fs w0) of
       (r, fs, event) \<Rightarrow> (r, w0\<lparr>mw_fs := fs, mw_log := mw_log w @ [event]\<rparr>))"

definition write_all :: "inode \<Rightarrow> nat \<Rightarrow> 8 word list \<Rightarrow> unit migration" where
  "write_all i offset bytes = call_through (\<lambda>v fs.
    let r = (case mv_fault v of None \<Rightarrow> Inr () | Some e \<Rightarrow> Inl e);
        written = (case mv_fault v of None \<Rightarrow> bytes | Some e \<Rightarrow> take (mv_short v) bytes) in
    case fs_nodes fs i of
      Some n \<Rightarrow>
        (case nd_content n of
           Bytes b \<Rightarrow> (r, fs\<lparr>fs_nodes := (fs_nodes fs)(i \<mapsto> touch (mv_now v) (n\<lparr>nd_content := Bytes (overwrite offset written b)\<rparr>))\<rparr>,
             WroteTo i written)
         | _ \<Rightarrow> (Inl (other_error ''not a file''), fs, Looked))
    | None \<Rightarrow> (Inl (other_error ''stale handle''), fs, Looked))"

definition sync_all :: "inode \<Rightarrow> unit migration" where
  "sync_all i = look_at (\<lambda>v fs. bind_result (node_at fs i) (\<lambda>_. Inr ()))"

text \<open>\<open>renameat\<close> within one directory: a file takes the place of the file of that name, if there is one.\<close>

definition unlink_node :: "inode \<Rightarrow> nat \<times> int \<times> int \<Rightarrow> (inode \<Rightarrow> node option) \<Rightarrow> inode \<Rightarrow> node option" where
  "unlink_node j now nodes = (case nodes j of
     None \<Rightarrow> nodes | Some n \<Rightarrow> nodes(j \<mapsto> n\<lparr>nd_links := nd_links n - 1, nd_changed := snd now\<rparr>))"

definition rename_entries :: "string \<Rightarrow> string \<Rightarrow> inode \<Rightarrow> (string \<times> inode) list \<Rightarrow> (string \<times> inode) list" where
  "rename_entries temporary name j entries =
    filter (\<lambda>(c, _). c \<noteq> temporary \<and> c \<noteq> name) entries @ [(name, j)]"

definition rename_at :: "inode \<Rightarrow> string \<Rightarrow> string \<Rightarrow> unit migration" where
  "rename_at i temporary name = call (\<lambda>v fs.
    case fs_nodes fs i of
      None \<Rightarrow> (Inl (other_error ''stale handle''), fs, Looked)
    | Some n \<Rightarrow>
        (case nd_content n of
           Folder entries \<Rightarrow>
             (case map_of entries temporary of
                None \<Rightarrow> (Inl (IoError NotFound (Message ''no such file'')), fs, Looked)
              | Some j \<Rightarrow>
                  (let replaced = map_of entries name;
                       blocked = (case replaced of None \<Rightarrow> False
                         | Some k \<Rightarrow> (case fs_nodes fs k of None \<Rightarrow> False | Some m \<Rightarrow> is_folder m));
                       nodes = (case replaced of Some k \<Rightarrow> if k = j then fs_nodes fs else unlink_node k (mv_now v) (fs_nodes fs)
                         | None \<Rightarrow> fs_nodes fs)
                   in if blocked then (Inl (other_error ''is a directory''), fs, Looked)
                      else (Inr (), fs\<lparr>fs_nodes := nodes(i \<mapsto>
                          touch (mv_now v) (n\<lparr>nd_content := Folder (rename_entries temporary name j entries)\<rparr>))\<rparr>,
                        Renamed i temporary name)))
         | _ \<Rightarrow> (Inl (other_error ''not a directory''), fs, Looked)))"

text \<open>The metadata of a path, and the names in a directory.\<close>

fun walk :: "file_system \<Rightarrow> inode \<Rightarrow> path \<Rightarrow> io_error + inode" where
  "walk fs i [] = Inr i"
| "walk fs i (name # names) = bind_result (child_of fs i name) (\<lambda>j. walk fs j names)"

definition symlink_metadata :: "path \<Rightarrow> node migration" where
  "symlink_metadata p = look_at (\<lambda>v fs. bind_result (walk fs (fs_root fs) p) (node_at fs))"

definition read_dir :: "path \<Rightarrow> string list migration" where
  "read_dir p = look_at (\<lambda>v fs. bind_result (walk fs (fs_root fs) p) (\<lambda>i. bind_result (node_at fs i) (\<lambda>n.
    case nd_content n of Folder entries \<Rightarrow> Inr (map fst entries) | _ \<Rightarrow> Inl (other_error ''not a directory''))))"

definition open_root :: "inode migration" where
  "open_root = look_at (\<lambda>v fs. Inr (fs_root fs))"

text \<open>Calls back into the caller.\<close>

definition progress :: "u64 \<Rightarrow> u64 \<Rightarrow> unit migration" where
  "progress completed whole = call (\<lambda>v fs. (Inr (), fs, Progressed completed whole))"

definition run_commit :: "unit migration" where
  "run_commit w =
    (let v = mw_views w (mw_clock w); w0 = others_move w in
     (mv_commit v, w0\<lparr>mw_log := mw_log w @ [CommitCalled (mv_commit v)]\<rparr>))"

definition change_report :: "(migration_report \<Rightarrow> migration_report) \<Rightarrow> unit migration" where
  "change_report f w = (Inr (), w\<lparr>mw_report := f (mw_report w)\<rparr>)"

end
