(* ===== verification/Migration_Copy.thy ===== *)
theory Migration_Copy
  imports Migration_World "HOL-Library.Char_ord" "HOL-Library.List_Lexorder"
begin

text \<open>
  Moving a user's directories to a new place (\<open>native-client/src/directory_migration.rs\<close>, the Unix variant of
  each system call): plans that pin both directories and every file of the source, copying through
  temporary files, the verification of the whole batch, and the single commit after it. A loop that
  depends on what other processes do takes fuel.
\<close>

section \<open>Pinned directories\<close>

record retained_directory =
  rd_path :: path
  rd_chain :: "inode list"

definition rd_handle :: "retained_directory \<Rightarrow> inode" where
  "rd_handle rd = last (rd_chain rd)"

definition valid_child_name :: "string \<Rightarrow> bool" where
  "valid_child_name name =
    (\<not> path_is_absolute name \<and> hd (split_on ''/'' name) \<noteq> ''.''
     \<and> (case path_components name of [c] \<Rightarrow> c \<noteq> ''..'' | _ \<Rightarrow> False))"

definition child :: "retained_directory \<Rightarrow> string \<Rightarrow> bool \<Rightarrow> bool \<Rightarrow> inode migration" where
  "child rd name directory create =
    and_then (check (valid_child_name name) ''invalid file name'') (\<lambda>_.
    and_then (if directory \<and> create then make_dir_at (rd_handle rd) name else result_is (Inr ())) (\<lambda>_.
    and_then (if create \<and> \<not> directory then create_at (rd_handle rd) name else open_at (rd_handle rd) name directory) (\<lambda>file.
    and_then (file_metadata_of file) (\<lambda>n.
    and_then (check (is_folder n = directory) ''replaced by a link or a special file'') (\<lambda>_.
    and_then (if directory then result_is (Inr ()) else verify_regular file) (\<lambda>_.
    result_is (Inr file)))))))"

definition child_directory :: "retained_directory \<Rightarrow> string \<Rightarrow> bool \<Rightarrow> retained_directory migration" where
  "child_directory rd name create =
    and_then (child rd name True create) (\<lambda>handle.
    result_is (Inr \<lparr>rd_path = rd_path rd @ [name], rd_chain = rd_chain rd @ [handle]\<rparr>))"

definition normal_component :: "string \<Rightarrow> bool" where
  "normal_component name = (name \<noteq> ''..'')"

definition rd_open :: "path \<Rightarrow> retained_directory migration" where
  "rd_open p =
    and_then open_root (\<lambda>handle.
    fold_then (\<lambda>name rd. and_then (check (normal_component name) ''not a standard path'') (\<lambda>_. child_directory rd name False))
      p \<lparr>rd_path = [], rd_chain = [handle]\<rparr>)"

definition same_identity :: "inode \<times> inode \<Rightarrow> unit \<Rightarrow> unit migration" where
  "same_identity pair u =
    and_then (identity (fst pair)) (\<lambda>before. and_then (identity (snd pair)) (\<lambda>after.
    check (before = after) ''the identity of the directory has changed''))"

definition rd_verify :: "retained_directory \<Rightarrow> unit migration" where
  "rd_verify rd =
    and_then (rd_open (rd_path rd)) (\<lambda>current.
    and_then (check (length (rd_chain current) = length (rd_chain rd)) ''the directory has changed'') (\<lambda>_.
    fold_then same_identity (zip (rd_chain rd) (rd_chain current)) ()))"

text \<open>A temporary file: another name is tried when the name is taken.\<close>

definition staging_name :: "string migration" where
  "staging_name w = (Inr (mv_staging_name (mw_views w (mw_clock w))), w)"

fun staging_file :: "nat \<Rightarrow> retained_directory \<Rightarrow> (string \<times> inode) migration" where
  "staging_file 0 rd = result_is (Inl (IoError OutOfFuel (Message ''staging_file'')))"
| "staging_file (Suc fuel) rd =
    and_then staging_name (\<lambda>name.
    settle_with (child rd name False True) (\<lambda>r.
      case r of
        Inr file \<Rightarrow> result_is (Inr (name, file))
      | Inl e \<Rightarrow> if io_kind e = AlreadyExists then staging_file fuel rd else result_is (Inl e)))"

definition replace_file :: "retained_directory \<Rightarrow> string \<Rightarrow> string \<Rightarrow> inode \<Rightarrow> unit migration" where
  "replace_file rd temporary name output =
    and_then (rd_verify rd) (\<lambda>_.
    and_then (verify_regular output) (\<lambda>_.
    and_then (child rd temporary False False) (\<lambda>staged.
    and_then (identity staged) (\<lambda>i. and_then (identity output) (\<lambda>j.
    and_then (check (i = j) ''the identity of the temporary file has changed'') (\<lambda>_.
    rename_at (rd_handle rd) temporary name))))))"

section \<open>Comparing files\<close>

definition file_len :: "node \<Rightarrow> u64" where
  "file_len n = (case nd_content n of Bytes b \<Rightarrow> of_nat (length b) | _ \<Rightarrow> 0)"

type_synonym file_stamp = "u64 \<times> nat \<times> int \<times> int"

definition stamp_of :: "node \<Rightarrow> file_stamp" where
  "stamp_of n = (file_len n, nd_modified n, nd_changed n)"

definition retained_stamp :: "inode \<Rightarrow> file_stamp migration" where
  "retained_stamp i = and_then (file_metadata_of i) (\<lambda>n. result_is (Inr (stamp_of n)))"

lemma nonempty_step: "a < (n :: nat) \<Longrightarrow> bytes \<noteq> [] \<Longrightarrow> n - (a + length bytes) < n - a"
  by (cases bytes) auto

text \<open>
  The inner loop fills the second buffer up to what the first read gave. Offsets do not exceed the
  size of a file, which is a \<open>u64\<close>, so they are kept as numbers.
\<close>

function fill_from :: "inode \<Rightarrow> nat \<Rightarrow> nat \<Rightarrow> 8 word list \<Rightarrow> 8 word list option migration" where
  "fill_from right offset count filled w =
    (if length filled < count then
       (case read_at right (count - length filled) (offset + length filled) w of
          (Inl e, w') \<Rightarrow> (Inl e, w')
        | (Inr bytes, w') \<Rightarrow> if bytes = [] then (Inr None, w') else fill_from right offset count (filled @ bytes) w')
     else (Inr (Some filled), w))"
  by pat_completeness auto
termination
  by (relation "measure (\<lambda>(right, offset, count, filled, w). count - length filled)") (auto simp: nonempty_step)

function compare_from :: "inode \<Rightarrow> inode \<Rightarrow> nat \<Rightarrow> nat \<Rightarrow> bool migration" where
  "compare_from left right whole offset w =
    (if offset < whole then
       (case read_at left (min (whole - offset) 65536) offset w of
          (Inl e, w1) \<Rightarrow> (Inl e, w1)
        | (Inr a, w1) \<Rightarrow>
            if a = [] then (Inr False, w1)
            else (case fill_from right offset (length a) [] w1 of
                (Inl e, w2) \<Rightarrow> (Inl e, w2)
              | (Inr None, w2) \<Rightarrow> (Inr False, w2)
              | (Inr (Some b), w2) \<Rightarrow> if a \<noteq> b then (Inr False, w2) else compare_from left right whole (offset + length a) w2))
     else (Inr True, w))"
  by pat_completeness auto
termination
  by (relation "measure (\<lambda>(left, right, whole, offset, w). whole - offset)")
    (auto simp: nonempty_step simp del: fill_from.simps)

declare fill_from.simps [simp del] compare_from.simps [simp del]

definition retained_equal :: "inode \<Rightarrow> inode \<Rightarrow> bool migration" where
  "retained_equal left right =
    and_then (verify_regular left) (\<lambda>_. and_then (verify_regular right) (\<lambda>_.
    and_then (retained_stamp left) (\<lambda>l. and_then (retained_stamp right) (\<lambda>r.
    if fst l \<noteq> fst r then result_is (Inr False)
    else
      and_then (compare_from left right (unat (fst l)) 0) (\<lambda>same.
      if \<not> same then result_is (Inr False)
      else
        and_then (retained_stamp left) (\<lambda>l'. and_then (retained_stamp right) (\<lambda>r'.
        result_is (Inr ((l, r) = (l', r'))))))))))"

section \<open>Entries and plans\<close>

record migration_entry =
  en_relative :: path
  en_directory :: bool
  en_size :: u64
  en_modified :: nat

record retained_entry =
  re_entry :: migration_entry
  re_identity :: inode
  re_stamp :: "file_stamp option"

record retained_migration =
  rm_source :: retained_directory
  rm_destination :: retained_directory
  rm_entries :: "retained_entry list"

record migration_plan =
  pl_source :: path
  pl_destination :: path
  pl_entries :: "migration_entry list"
  pl_retained :: retained_migration
  pl_bytes :: u64
  pl_files :: usize

definition manifest :: "migration_plan \<Rightarrow> migration_entry list" where
  "manifest plan = map (\<lambda>e. \<lparr>en_relative = en_relative e, en_directory = en_directory e,
    en_size = en_size e, en_modified = en_modified e\<rparr>) (pl_entries plan)"

definition entry_error :: "path \<Rightarrow> migration_entry \<Rightarrow> io_error \<Rightarrow> io_error" where
  "entry_error root e err = IoError (io_kind err) (EntryFailed (root @ en_relative e) (en_directory e) (en_size e))"

text \<open>\<open>RetainedMigration::parent\<close>: the directory of an entry, opened below a root and checked against the
  identities that were saved for the directories on the way.\<close>

definition parent_step ::
  "retained_entry list \<Rightarrow> string \<Rightarrow> retained_directory \<times> path \<Rightarrow> (retained_directory \<times> path) migration" where
  "parent_step entries name state =
    (case state of (rd, prefix) \<Rightarrow>
      and_then (check (normal_component name) ''invalid path'') (\<lambda>_.
      case List.find (\<lambda>held. en_directory (re_entry held) \<and> en_relative (re_entry held) = prefix @ [name]) entries of
        None \<Rightarrow> refuse_io ''the parent has not been checked''
      | Some expected \<Rightarrow>
          and_then (child_directory rd name False) (\<lambda>rd'.
          and_then (identity (rd_handle rd')) (\<lambda>i.
          and_then (check (i = re_identity expected) ''the identity of the parent has changed'') (\<lambda>_.
          result_is (Inr (rd', prefix @ [name])))))))"

definition parent :: "retained_directory \<Rightarrow> retained_entry list \<Rightarrow> path \<Rightarrow> retained_directory migration" where
  "parent root entries relative =
    and_then (fold_then (parent_step entries) (butlast relative) (root, [])) (\<lambda>state. result_is (Inr (fst state)))"

definition open_entry ::
  "retained_directory \<Rightarrow> retained_entry list \<Rightarrow> retained_entry \<Rightarrow> (retained_directory \<times> inode) migration" where
  "open_entry root entries held =
    and_then (parent root entries (en_relative (re_entry held))) (\<lambda>rd.
    and_then (child rd (last (en_relative (re_entry held))) (en_directory (re_entry held)) False) (\<lambda>file.
    and_then (identity file) (\<lambda>i.
    and_then (check (i = re_identity held) ''the identity of the file has changed'') (\<lambda>_.
    result_is (Inr (rd, file))))))"
end
