(* ===== verification/Migration_Run.thy ===== *)
theory Migration_Run
  imports Migration_Copy
begin

text \<open>
  The migration of a batch of directories (\<open>native-client/src/directory_migration.rs\<close>): preparing a plan,
  copying and verifying its files, and the run over all plans with one commit at its end. Fuel bounds
  the number of directories a scan visits and the number of temporary names that are tried.
\<close>

section \<open>Scanning a directory\<close>

definition ancestors :: "path \<Rightarrow> path list" where
  "ancestors p = map (\<lambda>k. take k p) (rev [0..<Suc (length p)])"

definition canonicalize :: "path \<Rightarrow> path migration" where
  "canonicalize p = look_at (\<lambda>v fs. bind_result (walk fs (fs_root fs) p) (\<lambda>_. Inr p))"

definition check_ancestor :: "path \<Rightarrow> unit \<Rightarrow> unit migration" where
  "check_ancestor p u = and_then (symlink_metadata p) (\<lambda>n. check (is_folder n) ''links are not migrated'')"

definition checked_directory :: "path \<Rightarrow> path migration" where
  "checked_directory p =
    and_then (check (p \<noteq> [] \<and> ''..'' \<notin> set p) ''choose a directory of its own'') (\<lambda>_.
    and_then (fold_then check_ancestor (ancestors p) ()) (\<lambda>_.
    canonicalize p))"

definition scanned_entry :: "path \<Rightarrow> node \<Rightarrow> migration_entry" where
  "scanned_entry relative n =
    \<lparr>en_relative = relative, en_directory = is_folder n, en_size = if is_regular n then file_len n else 0,
     en_modified = if is_regular n then nd_modified n else 0\<rparr>"

definition scan_name ::
  "path \<Rightarrow> path \<Rightarrow> string \<Rightarrow> path list \<times> migration_entry list \<Rightarrow> (path list \<times> migration_entry list) migration" where
  "scan_name root directory name state =
    (let p = directory @ [name] in
     and_then (symlink_metadata p) (\<lambda>n.
     and_then (check (is_folder n \<or> is_regular n) ''a link or a special file'') (\<lambda>_.
     and_then (check (Path_Remap.starts_with p root) ''not below the root'') (\<lambda>_.
     result_is (Inr (if is_folder n then p # fst state else fst state,
       snd state @ [scanned_entry (drop (length root) p) n]))))))"

fun scan_from :: "nat \<Rightarrow> path \<Rightarrow> path list \<Rightarrow> migration_entry list \<Rightarrow> migration_entry list migration" where
  "scan_from 0 root pending found = result_is (Inl (IoError OutOfFuel (Message ''scan'')))"
| "scan_from (Suc fuel) root pending found =
    (case pending of
       [] \<Rightarrow> result_is (Inr found)
     | directory # rest \<Rightarrow>
         and_then (checked_directory directory) (\<lambda>_.
         and_then (read_dir directory) (\<lambda>names.
         and_then (fold_then (scan_name root directory) names (rest, found)) (\<lambda>state.
         scan_from fuel root (fst state) (snd state)))))"

definition scan :: "nat \<Rightarrow> path \<Rightarrow> migration_entry list migration" where
  "scan fuel root = and_then (scan_from fuel root [root] []) (\<lambda>found. result_is (Inr (sort_key en_relative found)))"

section \<open>Capturing and checking the source\<close>

definition optional :: "'a migration \<Rightarrow> 'a option migration" where
  "optional p = settle_with p (\<lambda>r.
    case r of
      Inr a \<Rightarrow> result_is (Inr (Some a))
    | Inl e \<Rightarrow> if io_kind e = NotFound then result_is (Inr None) else result_is (Inl e))"

definition capture_entry :: "retained_directory \<Rightarrow> migration_entry \<Rightarrow> retained_entry list \<Rightarrow> retained_entry list migration" where
  "capture_entry source entry entries =
    and_then (parent source entries (en_relative entry)) (\<lambda>rd.
    and_then (check (en_relative entry \<noteq> []) ''no file name'') (\<lambda>_.
    and_then (child rd (last (en_relative entry)) (en_directory entry) False) (\<lambda>file.
    and_then (if en_directory entry then result_is (Inr ())
      else and_then (file_metadata_of file) (\<lambda>n.
        check (file_len n = en_size entry \<and> nd_modified n = en_modified entry) ''changed while preparing'')) (\<lambda>_.
    and_then (if en_directory entry then result_is (Inr None)
      else and_then (retained_stamp file) (\<lambda>s. result_is (Inr (Some s)))) (\<lambda>stamp.
    and_then (identity file) (\<lambda>i.
    result_is (Inr (entries @ [\<lparr>re_entry = entry, re_identity = i, re_stamp = stamp\<rparr>]))))))))"

definition capture ::
  "retained_directory \<Rightarrow> retained_directory \<Rightarrow> migration_entry list \<Rightarrow> retained_migration migration" where
  "capture source destination snapshot =
    and_then (fold_then (capture_entry source) snapshot []) (\<lambda>entries.
    and_then (rd_verify source) (\<lambda>_. and_then (rd_verify destination) (\<lambda>_.
    result_is (Inr \<lparr>rm_source = source, rm_destination = destination, rm_entries = entries\<rparr>))))"

fun target_parent :: "retained_directory \<Rightarrow> path \<Rightarrow> retained_directory option migration" where
  "target_parent rd [] = result_is (Inr (Some rd))"
| "target_parent rd (name # names) =
    and_then (check (normal_component name) ''invalid path'') (\<lambda>_.
    and_then (optional (child_directory rd name False)) (\<lambda>found.
    case found of None \<Rightarrow> result_is (Inr None) | Some rd' \<Rightarrow> target_parent rd' names))"

definition check_target :: "retained_directory \<Rightarrow> migration_entry \<Rightarrow> unit \<Rightarrow> unit migration" where
  "check_target destination entry u =
    and_then (target_parent destination (butlast (en_relative entry))) (\<lambda>found.
    case found of
      None \<Rightarrow> result_is (Inr ())
    | Some rd \<Rightarrow>
        and_then (optional (child rd (last (en_relative entry)) (en_directory entry) False)) (\<lambda>_. result_is (Inr ())))"

definition check_targets :: "retained_migration \<Rightarrow> migration_entry list \<Rightarrow> unit migration" where
  "check_targets m entries =
    and_then (rd_verify (rm_destination m)) (\<lambda>_.
    and_then (fold_then (check_target (rm_destination m)) entries ()) (\<lambda>_.
    rd_verify (rm_destination m)))"

text \<open>The entry that a changed directory is blamed on; the \<open>unwrap\<close> of the code panics when there is none.\<close>

definition changed_entry :: "migration_entry list \<Rightarrow> migration_entry list \<Rightarrow> migration_entry option" where
  "changed_entry entries current =
    (case List.find (\<lambda>e. e \<notin> set current) entries of
       Some e \<Rightarrow> Some e
     | None \<Rightarrow> List.find (\<lambda>e. e \<notin> set entries) current)"

definition verify_source_entry :: "retained_migration \<Rightarrow> migration_plan \<Rightarrow> retained_entry \<Rightarrow> unit \<Rightarrow> unit migration" where
  "verify_source_entry m plan held u =
    and_then (map_error (entry_error (pl_source plan) (re_entry held)) (open_entry (rm_source m) (rm_entries m) held)) (\<lambda>opened.
    if en_directory (re_entry held) then result_is (Inr ())
    else
      and_then (map_error (entry_error (pl_source plan) (re_entry held)) (retained_stamp (snd opened))) (\<lambda>stamp.
      result_is (ensure (Some stamp = re_stamp held)
        (entry_error (pl_source plan) (re_entry held) (other_error ''the source file has changed'')))))"

definition verify_source :: "nat \<Rightarrow> retained_migration \<Rightarrow> migration_plan \<Rightarrow> unit migration" where
  "verify_source fuel m plan =
    and_then (rd_verify (rm_source m)) (\<lambda>_. and_then (rd_verify (rm_destination m)) (\<lambda>_.
    and_then (fold_then (verify_source_entry m plan) (rm_entries m) ()) (\<lambda>_.
    and_then (scan fuel (pl_source plan)) (\<lambda>current.
    if current = pl_entries plan then result_is (Inr ())
    else
      case changed_entry (pl_entries plan) current of
        None \<Rightarrow> refuse_io ''panic''
      | Some changed \<Rightarrow>
          result_is (Inl (entry_error (pl_source plan) changed (other_error ''the directory has changed'')))))))"

section \<open>Copying\<close>

definition saturating_add :: "u64 \<Rightarrow> u64 \<Rightarrow> u64" where
  "saturating_add x y = (case checked_add x y of None \<Rightarrow> - 1 | Some z \<Rightarrow> z)"

text \<open>
  The copy loop with the callback of the batch in it: \<open>completed\<close> and \<open>whole\<close> are what the batch has copied
  before this plan and what it has to copy, \<open>done\<close> is what was copied of this plan.
\<close>

definition report_progress :: "migration_plan \<Rightarrow> u64 \<Rightarrow> u64 \<Rightarrow> u64 \<Rightarrow> unit migration" where
  "report_progress plan completed whole finished =
    progress (min (saturating_add completed (min finished (pl_bytes plan))) whole) whole"

lemma nonempty_below: "offset + length bytes \<le> (n :: nat) \<Longrightarrow> bytes \<noteq> [] \<Longrightarrow> n - (offset + length bytes) < n - offset"
  by (cases bytes) auto

function copy_bytes ::
  "migration_plan \<Rightarrow> u64 \<Rightarrow> u64 \<Rightarrow> u64 \<Rightarrow> inode \<Rightarrow> inode \<Rightarrow> nat \<Rightarrow> u64 \<Rightarrow> u64 migration" where
  "copy_bytes plan completed whole file_size input output offset finished w =
    (case read_at input 131072 offset w of
       (Inl e, w1) \<Rightarrow> (Inl e, w1)
     | (Inr bytes, w1) \<Rightarrow>
         if bytes = [] then (Inr finished, w1)
         else (case write_all output offset bytes w1 of
             (Inl e, w2) \<Rightarrow> (Inl e, w2)
           | (Inr _, w2) \<Rightarrow>
               (case report_progress plan completed whole (finished + of_nat (length bytes)) w2 of
                  (Inl e, w3) \<Rightarrow> (Inl e, w3)
                | (Inr _, w3) \<Rightarrow>
                    if offset + length bytes > unat file_size then (Inl (other_error ''the source has grown''), w3)
                    else copy_bytes plan completed whole file_size input output (offset + length bytes)
                      (finished + of_nat (length bytes)) w3)))"
  by pat_completeness auto
termination
  by (relation "measure (\<lambda>(plan, completed, whole, file_size, input, output, offset, finished, w). unat file_size - offset)")
    (auto simp: not_less intro: nonempty_below)

declare copy_bytes.simps [simp del]

definition copy_content ::
  "migration_plan \<Rightarrow> u64 \<Rightarrow> u64 \<Rightarrow> retained_entry \<Rightarrow> inode \<Rightarrow> inode \<Rightarrow> u64 \<Rightarrow> u64 migration" where
  "copy_content plan completed whole source input output finished =
    (if en_directory (re_entry source) then result_is (Inr finished)
     else
      and_then (retained_stamp input) (\<lambda>before.
      and_then (check (Some before = re_stamp source) ''the source file has changed'') (\<lambda>_.
      and_then (copy_bytes plan completed whole (en_size (re_entry source)) input output 0 finished) (\<lambda>finished'.
      and_then (sync_all output) (\<lambda>_.
      and_then (retained_stamp input) (\<lambda>after.
      if before \<noteq> after then refuse_io ''the copy is not the file''
      else
        and_then (retained_equal input output) (\<lambda>same.
        and_then (check same ''the copy is not the file'') (\<lambda>_.
        result_is (Inr finished')))))))))"

definition state_of :: "inode \<Rightarrow> (inode \<times> file_stamp) migration" where
  "state_of file =
    and_then (identity file) (\<lambda>i. and_then (retained_stamp file) (\<lambda>s. result_is (Inr (i, s))))"

definition state_of_optional :: "inode option \<Rightarrow> (inode \<times> file_stamp) option migration" where
  "state_of_optional found =
    (case found of None \<Rightarrow> result_is (Inr None) | Some file \<Rightarrow> and_then (state_of file) (\<lambda>s. result_is (Inr (Some s))))"

definition open_output ::
  "nat \<Rightarrow> retained_directory \<Rightarrow> string \<Rightarrow> bool \<Rightarrow> inode option \<Rightarrow> (string option \<times> inode) migration" where
  "open_output fuel rd name directory existing =
    (if directory then
       and_then (case existing of Some file \<Rightarrow> result_is (Inr file) | None \<Rightarrow> child rd name True True) (\<lambda>file.
       result_is (Inr (None, file)))
     else and_then (staging_file fuel rd) (\<lambda>staged. result_is (Inr (Some (fst staged), snd staged))))"

definition install ::
  "retained_directory \<Rightarrow> string \<Rightarrow> string option \<Rightarrow> (inode \<times> file_stamp) option \<Rightarrow> inode \<Rightarrow> unit migration" where
  "install rd name temporary previous output =
    (case temporary of
       None \<Rightarrow> result_is (Inr ())
     | Some staged \<Rightarrow>
         and_then (and_then (optional (child rd name False False)) state_of_optional) (\<lambda>current.
         and_then (check (current = previous) ''the target has changed'') (\<lambda>_.
         replace_file rd staged name output)))"

definition copied_entry :: "retained_directory \<Rightarrow> retained_entry \<Rightarrow> inode \<Rightarrow> retained_entry migration" where
  "copied_entry rd source output =
    and_then (sync_all (rd_handle rd)) (\<lambda>_.
    and_then (if en_directory (re_entry source) then result_is (Inr None)
      else and_then (retained_stamp output) (\<lambda>s. result_is (Inr (Some s)))) (\<lambda>stamp.
    and_then (identity output) (\<lambda>i.
    result_is (Inr \<lparr>re_entry = re_entry source, re_identity = i, re_stamp = stamp\<rparr>))))"

definition copy_entry ::
  "nat \<Rightarrow> retained_migration \<Rightarrow> migration_plan \<Rightarrow> u64 \<Rightarrow> u64 \<Rightarrow> retained_entry list \<Rightarrow> retained_entry \<Rightarrow> u64 \<Rightarrow>
    (retained_entry \<times> u64) migration" where
  "copy_entry fuel m plan completed whole outputs source finished =
    (let relative = en_relative (re_entry source); directory = en_directory (re_entry source) in
     and_then (open_entry (rm_source m) (rm_entries m) source) (\<lambda>opened.
     and_then (parent (rm_destination m) outputs relative) (\<lambda>rd.
     and_then (rd_verify rd) (\<lambda>_.
     and_then (optional (child rd (last relative) directory False)) (\<lambda>existing.
     and_then (state_of_optional existing) (\<lambda>previous.
     and_then (open_output fuel rd (last relative) directory existing) (\<lambda>created.
     and_then (copy_content plan completed whole source (snd opened) (snd created) finished) (\<lambda>finished'.
     and_then (install rd (last relative) (fst created) previous (snd created)) (\<lambda>_.
     and_then (copied_entry rd source (snd created)) (\<lambda>output.
     result_is (Inr (output, finished'))))))))))))"

definition count_copied :: "migration_entry \<Rightarrow> migration_report \<Rightarrow> migration_report" where
  "count_copied entry rp =
    (if en_directory entry then rp
     else rp\<lparr>rp_copied_files := rp_copied_files rp + 1, rp_copied_bytes := rp_copied_bytes rp + en_size entry\<rparr>)"

definition count_failed :: "path \<Rightarrow> migration_entry \<Rightarrow> migration_report \<Rightarrow> migration_report" where
  "count_failed source entry rp =
    (if en_directory entry then rp\<lparr>rp_operation_errors := rp_operation_errors rp + 1\<rparr>
     else rp\<lparr>rp_failed_files := rp_failed_files rp @ [source @ en_relative entry]\<rparr>)"

definition copy_next ::
  "nat \<Rightarrow> retained_migration \<Rightarrow> migration_plan \<Rightarrow> u64 \<Rightarrow> u64 \<Rightarrow> retained_entry \<Rightarrow> retained_entry list \<times> u64 \<Rightarrow>
    (retained_entry list \<times> u64) migration" where
  "copy_next fuel m plan completed whole source state =
    settle_with (copy_entry fuel m plan completed whole (fst state) source (snd state)) (\<lambda>r.
      case r of
        Inr (output, finished) \<Rightarrow>
          and_then (change_report (count_copied (re_entry source))) (\<lambda>_. result_is (Inr (fst state @ [output], finished)))
      | Inl e \<Rightarrow>
          and_then (change_report (count_failed (pl_source plan) (re_entry source))) (\<lambda>_. result_is (Inl e)))"

definition copy_files :: "nat \<Rightarrow> migration_plan \<Rightarrow> u64 \<Rightarrow> u64 \<Rightarrow> retained_entry list migration" where
  "copy_files fuel plan completed whole =
    (let m = pl_retained plan in
     and_then (verify_source fuel m plan) (\<lambda>_.
     and_then (check_targets m (pl_entries plan)) (\<lambda>_.
     and_then (fold_then (copy_next fuel m plan completed whole) (rm_entries m) ([], 0)) (\<lambda>state.
     result_is (Inr (fst state))))))"

section \<open>Verifying the copies\<close>

definition verify_copied_entry ::
  "retained_migration \<Rightarrow> migration_plan \<Rightarrow> retained_entry list \<Rightarrow> retained_entry \<times> retained_entry \<Rightarrow> unit \<Rightarrow> unit migration" where
  "verify_copied_entry m plan outputs pair u =
    map_error (entry_error (pl_source plan) (re_entry (fst pair)))
     (and_then (open_entry (rm_source m) (rm_entries m) (fst pair)) (\<lambda>input.
      and_then (open_entry (rm_destination m) outputs (snd pair)) (\<lambda>output.
      if en_directory (re_entry (snd pair)) then sync_all (snd output)
      else and_then (retained_equal (snd input) (snd output)) (\<lambda>same.
        check same ''the file changed during the migration''))))"

definition verify_copy :: "nat \<Rightarrow> migration_plan \<Rightarrow> retained_entry list \<Rightarrow> unit migration" where
  "verify_copy fuel plan outputs =
    (let m = pl_retained plan in
     and_then (verify_source fuel m plan) (\<lambda>_.
     and_then (check (length outputs = length (rm_entries m)) ''the targets are not complete'') (\<lambda>_.
     and_then (fold_then (verify_copied_entry m plan outputs) (zip (rm_entries m) outputs) ()) (\<lambda>_.
     and_then (rd_verify (rm_source m)) (\<lambda>_. and_then (rd_verify (rm_destination m)) (\<lambda>_.
     sync_all (rd_handle (rm_destination m))))))))"

section \<open>The batch\<close>

definition described :: "io_error \<Rightarrow> io_error" where
  "described e = IoError (io_kind e) (Message ''processing the directory failed'')"

definition copy_plan ::
  "nat \<Rightarrow> u64 \<Rightarrow> migration_plan \<Rightarrow> retained_entry list list \<times> u64 \<Rightarrow> (retained_entry list list \<times> u64) migration" where
  "copy_plan fuel whole plan state =
    and_then (map_error described (copy_files fuel plan (snd state) whole)) (\<lambda>outputs.
    case checked_add (snd state) (pl_bytes plan) of
      None \<Rightarrow> refuse_io ''the progress is out of range''
    | Some completed \<Rightarrow> result_is (Inr (fst state @ [outputs], completed)))"

definition uncount_copied :: "migration_plan \<Rightarrow> io_error \<Rightarrow> migration_report \<Rightarrow> migration_report" where
  "uncount_copied plan e rp =
    (case io_payload e of
       EntryFailed p directory bytes \<Rightarrow>
         if \<not> directory \<and> (\<exists>entry \<in> set (pl_entries plan). \<not> en_directory entry \<and> pl_source plan @ en_relative entry = p)
         then rp\<lparr>rp_copied_files := saturating_sub (rp_copied_files rp) 1,
                rp_copied_bytes := saturating_sub (rp_copied_bytes rp) bytes,
                rp_failed_files := rp_failed_files rp @ [p]\<rparr>
         else rp
     | Message _ \<Rightarrow> rp)"

definition verify_plan :: "nat \<Rightarrow> migration_plan \<times> retained_entry list \<Rightarrow> unit \<Rightarrow> unit migration" where
  "verify_plan fuel pair u =
    settle_with (verify_copy fuel (fst pair) (snd pair)) (\<lambda>r.
      case r of
        Inr _ \<Rightarrow> result_is (Inr ())
      | Inl e \<Rightarrow> and_then (change_report (uncount_copied (fst pair) e)) (\<lambda>_. result_is (Inl (described e))))"

definition verify_all :: "nat \<Rightarrow> migration_plan list \<Rightarrow> retained_entry list list \<Rightarrow> unit migration" where
  "verify_all fuel plans copied = fold_then (verify_plan fuel) (zip plans copied) ()"

definition copy_then_commit :: "nat \<Rightarrow> migration_plan list \<Rightarrow> u64 \<Rightarrow> unit migration" where
  "copy_then_commit fuel plans whole =
    and_then (progress 0 whole) (\<lambda>_.
    and_then (fold_then (copy_plan fuel whole) plans ([], 0)) (\<lambda>state.
    and_then (verify_all fuel plans (fst state)) (\<lambda>_.
    map_error described run_commit)))"

fun whole_bytes :: "migration_plan list \<Rightarrow> u64 \<Rightarrow> u64 option" where
  "whole_bytes [] acc = Some acc"
| "whole_bytes (plan # plans) acc =
    (case checked_add acc (pl_bytes plan) of None \<Rightarrow> None | Some acc' \<Rightarrow> whole_bytes plans acc')"

definition report_started :: "migration_plan list \<Rightarrow> migration_report \<Rightarrow> migration_report" where
  "report_started plans rp =
    report_default\<lparr>rp_total_files := sum_list (map pl_files plans), rp_move_source := rp_move_source rp\<rparr>"

definition report_refused :: "migration_report \<Rightarrow> migration_report" where
  "report_refused rp =
    (if rp_failed_files rp = [] \<and> rp_operation_errors rp = 0 then rp\<lparr>rp_operation_errors := 1\<rparr> else rp)"

definition copy_batch_retaining_source_with_report :: "nat \<Rightarrow> migration_plan list \<Rightarrow> unit migration" where
  "copy_batch_retaining_source_with_report fuel plans =
    and_then (change_report (report_started plans)) (\<lambda>_.
    case whole_bytes plans 0 of
      None \<Rightarrow> refuse_io ''the total size is out of range''
    | Some whole \<Rightarrow>
        settle_with (copy_then_commit fuel plans whole) (\<lambda>r.
          case r of
            Inr _ \<Rightarrow> result_is (Inr ())
          | Inl e \<Rightarrow> and_then (change_report report_refused) (\<lambda>_. refuse_io ''the originals are kept'')))"

text \<open>With a report of its own.\<close>

definition copy_batch_retaining_source :: "nat \<Rightarrow> migration_plan list \<Rightarrow> unit migration" where
  "copy_batch_retaining_source fuel plans w =
    (case copy_batch_retaining_source_with_report fuel plans (w\<lparr>mw_report := report_default\<rparr>) of
       (r, w') \<Rightarrow> (r, w'\<lparr>mw_report := mw_report w\<rparr>))"

definition copy_retaining_source :: "nat \<Rightarrow> migration_plan \<Rightarrow> unit migration" where
  "copy_retaining_source fuel plan = copy_batch_retaining_source fuel [plan]"

section \<open>Preparing a plan\<close>

text \<open>
  On Unix the parts of a path are its components. \<open>homes\<close> are the directories that the environment names.
\<close>

definition same_path :: "path \<Rightarrow> path \<Rightarrow> bool" where
  "same_path p q = (p = q)"

definition canonical_or_self :: "path \<Rightarrow> path migration" where
  "canonical_or_self root = settle_with (canonicalize root) (\<lambda>r. result_is (Inr (case r of Inl _ \<Rightarrow> root | Inr p \<Rightarrow> p)))"

definition check_protected :: "path \<Rightarrow> path \<Rightarrow> unit \<Rightarrow> unit migration" where
  "check_protected destination root u =
    and_then (canonical_or_self root) (\<lambda>p. check (\<not> overlaps destination p) ''overlaps the data of the program'')"

definition check_home :: "path \<Rightarrow> path \<Rightarrow> path \<Rightarrow> unit \<Rightarrow> unit migration" where
  "check_home source destination root u =
    settle_with (canonicalize root) (\<lambda>r.
      case r of
        Inl _ \<Rightarrow> result_is (Inr ())
      | Inr p \<Rightarrow> check (\<not> same_path source p \<and> \<not> same_path destination p) ''a whole home directory'')"

definition prepare :: "nat \<Rightarrow> path list \<Rightarrow> path list \<Rightarrow> path \<Rightarrow> path \<Rightarrow> migration_plan migration" where
  "prepare fuel homes protected source0 destination0 =
    and_then (checked_directory source0) (\<lambda>source.
    and_then (checked_directory destination0) (\<lambda>destination.
    and_then (fold_then (check_home source destination) homes ()) (\<lambda>_.
    and_then (check (\<not> overlaps source destination) ''the directories contain each other'') (\<lambda>_.
    and_then (fold_then (check_protected destination) protected ()) (\<lambda>_.
    and_then (rd_open source) (\<lambda>retained_source.
    and_then (rd_open destination) (\<lambda>retained_destination.
    and_then (scan fuel source) (\<lambda>entries.
    and_then (capture retained_source retained_destination entries) (\<lambda>retained.
    and_then (check_targets retained entries) (\<lambda>_.
    result_is (Inr
      \<lparr>pl_source = source, pl_destination = destination, pl_entries = entries, pl_retained = retained,
       pl_bytes = sum_list (map en_size (filter (\<lambda>e. \<not> en_directory e) entries)),
       pl_files = of_nat (length (filter (\<lambda>e. \<not> en_directory e) entries))\<rparr>)))))))))))"

end
