(* ===== verification/Migration_Verify.thy ===== *)
theory Migration_Verify
  imports Migration_Run
begin

text \<open>
  What the verification of a migration establishes when no other process interferes with it
  (\<open>native-client/src/directory_migration.rs\<close>): it leaves the file system alone, and when it succeeds every
  file below the sources is found below the destinations with the same content.
\<close>

section \<open>Undisturbed reading\<close>

definition nobody_else :: "migration_world \<Rightarrow> bool" where
  "nobody_else w = (\<forall>n \<ge> mw_clock w. mv_others (mw_views w n) = id)"

text \<open>Undisturbed, the program changes no file, and its successful results stand in a relation to the files.\<close>

definition reads :: "(file_system \<Rightarrow> 'a \<Rightarrow> bool) \<Rightarrow> 'a migration \<Rightarrow> bool" where
  "reads R p = (\<forall>w. nobody_else w \<longrightarrow>
    nobody_else (snd (p w)) \<and> mw_fs (snd (p w)) = mw_fs w \<and> (\<forall>a. fst (p w) = Inr a \<longrightarrow> R (mw_fs w) a))"

named_theorems reading

lemma readsE:
  assumes "reads R p" and "nobody_else w" and "p w = (r, w')"
  shows "nobody_else w'" and "mw_fs w' = mw_fs w" and "\<And>a. r = Inr a \<Longrightarrow> R (mw_fs w) a"
  using assms by (auto simp: reads_def dest!: spec [of _ w])

lemma readsI:
  assumes "\<And>w r w'. nobody_else w \<Longrightarrow> p w = (r, w') \<Longrightarrow> nobody_else w' \<and> mw_fs w' = mw_fs w \<and> (\<forall>a. r = Inr a \<longrightarrow> R (mw_fs w) a)"
  shows "reads R p"
  unfolding reads_def by (intro allI impI) (rule assms, simp_all)

lemma reads_weaken: "reads Q p \<Longrightarrow> (\<And>fs a. Q fs a \<Longrightarrow> R fs a) \<Longrightarrow> reads R p"
  unfolding reads_def by blast

lemma reads_result: "(\<And>fs a. r = Inr a \<Longrightarrow> R fs a) \<Longrightarrow> reads R (result_is r)"
  by (simp add: reads_def result_is_def)

lemma reads_check: "reads (\<lambda>fs u. b) (check b m)"
  by (rule reads_result) simp

lemma reads_call:
  assumes "\<And>v fs r fs' e. f v fs = (r, fs', e) \<Longrightarrow> fs' = fs \<and> (\<forall>a. r = Inr a \<longrightarrow> R fs a)"
  shows "reads R (call f)"
  using assms
  by (auto simp: reads_def call_def others_move_def nobody_else_def Let_def split: option.splits prod.splits)

lemma reads_look: "(\<And>v fs a. f v fs = Inr a \<Longrightarrow> R fs a) \<Longrightarrow> reads R (look_at f)"
  by (auto simp: reads_def look_at_def call_def others_move_def nobody_else_def Let_def split: option.splits)

lemma reads_then:
  assumes p: "reads Q p" and f: "\<And>a. reads (\<lambda>fs b. Q fs a \<longrightarrow> R fs b) (f a)"
  shows "reads R (and_then p f)"
proof (rule readsI)
  fix w r w'
  assume w: "nobody_else w" and run: "and_then p f w = (r, w')"
  obtain x w1 where x: "p w = (x, w1)" by (cases "p w")
  note first = readsE [OF p w x]
  show "nobody_else w' \<and> mw_fs w' = mw_fs w \<and> (\<forall>a. r = Inr a \<longrightarrow> R (mw_fs w) a)"
  proof (cases x)
    case (Inl e)
    with run x first show ?thesis by (auto simp: and_then_def)
  next
    case (Inr a)
    with run x have "f a w1 = (r, w')" by (simp add: and_then_def)
    from readsE [OF f first(1) this] first Inr show ?thesis by auto
  qed
qed

lemma reads_map_error: "reads R p \<Longrightarrow> reads R (map_error g p)"
  by (auto simp: reads_def map_error_def settle_with_def result_is_def split_beta split: sum.splits)

lemma reads_fold:
  assumes "\<And>x s. reads (\<lambda>fs. T fs x s) (f x s)"
  shows "reads (\<lambda>fs. chained (T fs) xs s) (fold_then f xs s)"
proof (induction xs arbitrary: s)
  case Nil
  then show ?case by (auto intro: reads_result)
next
  case (Cons x xs)
  show ?case
    unfolding fold_then.simps
    by (rule reads_then [OF assms], rule reads_weaken [OF Cons.IH]) auto
qed

section \<open>System calls\<close>

lemma reads_file_metadata: "reads (\<lambda>fs n. node_at fs i = Inr n) (file_metadata_of i)"
  unfolding file_metadata_of_def by (rule reads_look) simp

lemma reads_identity: "reads (\<lambda>fs j. j = i) (identity i)"
  unfolding identity_def by (rule reads_then [OF reads_file_metadata], rule reads_result) simp

lemma reads_verify_regular: "reads (\<lambda>fs u. \<exists>n. node_at fs i = Inr n \<and> is_regular n) (verify_regular i)"
  unfolding verify_regular_def
  by (rule reads_then [OF reads_file_metadata], rule reads_then [OF reads_check], rule reads_result) auto

lemma reads_retained_stamp: "reads (\<lambda>fs s. \<exists>n. node_at fs i = Inr n \<and> s = stamp_of n) (retained_stamp i)"
  unfolding retained_stamp_def by (rule reads_then [OF reads_file_metadata], rule reads_result) auto

lemma reads_sync_all: "reads (\<lambda>fs u. True) (sync_all i)"
  unfolding sync_all_def by (rule reads_look) simp

definition of_kind :: "file_system \<Rightarrow> inode \<Rightarrow> bool \<Rightarrow> bool" where
  "of_kind fs i directory = (\<exists>n. node_at fs i = Inr n \<and> is_folder n = directory \<and> (\<not> directory \<longrightarrow> is_regular n))"

lemma reads_open_at: "reads (\<lambda>fs j. child_of fs i name = Inr j) (open_at i name directory)"
  unfolding open_at_def by (rule reads_call) (auto simp: bind_result_def split: sum.splits if_splits)

lemma reads_child:
  "reads (\<lambda>fs i. child_of fs (rd_handle rd) name = Inr i \<and> of_kind fs i directory) (child rd name directory False)"
  unfolding child_def simp_thms if_True if_False result_is_then
  by (rule reads_then [OF reads_check], rule reads_then [OF reads_open_at], rule reads_then [OF reads_file_metadata],
      rule reads_then [OF reads_check])
     (cases directory, auto simp: of_kind_def intro!: reads_result reads_then [OF reads_verify_regular])

lemma reads_child_directory:
  "reads (\<lambda>fs rd'. \<exists>i. child_of fs (rd_handle rd) name = Inr i
      \<and> rd' = \<lparr>rd_path = rd_path rd @ [name], rd_chain = rd_chain rd @ [i]\<rparr>) (child_directory rd name False)"
  unfolding child_directory_def by (rule reads_then [OF reads_child], rule reads_result) auto

section \<open>Paths\<close>

lemma walk_append: "walk fs i (p @ q) = bind_result (walk fs i p) (\<lambda>j. walk fs j q)"
  by (induction p arbitrary: i) (auto simp: bind_result_def split: sum.splits)

lemma walk_snoc: "walk fs i p = Inr j \<Longrightarrow> child_of fs j name = Inr k \<Longrightarrow> walk fs i (p @ [name]) = Inr k"
  by (simp add: walk_append)

definition opened :: "file_system \<Rightarrow> retained_directory \<Rightarrow> bool" where
  "opened fs rd = (walk fs (fs_root fs) (rd_path rd) = Inr (rd_handle rd) \<and> rd_chain rd \<noteq> [])"

lemma opened_child:
  "opened fs rd \<Longrightarrow> child_of fs (rd_handle rd) name = Inr i \<Longrightarrow>
    opened fs \<lparr>rd_path = rd_path rd @ [name], rd_chain = rd_chain rd @ [i]\<rparr>"
  by (auto simp: opened_def rd_handle_def walk_snoc)

lemma reads_open_root: "reads (\<lambda>fs h. h = fs_root fs) open_root"
  unfolding open_root_def by (rule reads_look) simp

lemma chained_open:
  assumes "chained (\<lambda>name rd rd'. \<exists>i. child_of fs (rd_handle rd) name = Inr i
      \<and> rd' = \<lparr>rd_path = rd_path rd @ [name], rd_chain = rd_chain rd @ [i]\<rparr>) p rd rd'"
    and "opened fs rd"
  shows "opened fs rd' \<and> rd_path rd' = rd_path rd @ p"
  using assms
proof (induction p arbitrary: rd)
  case Nil
  then show ?case by simp
next
  case (Cons name p)
  then obtain i where "child_of fs (rd_handle rd) name = Inr i"
    and rest: "chained (\<lambda>name rd rd'. \<exists>i. child_of fs (rd_handle rd) name = Inr i
      \<and> rd' = \<lparr>rd_path = rd_path rd @ [name], rd_chain = rd_chain rd @ [i]\<rparr>) p
      \<lparr>rd_path = rd_path rd @ [name], rd_chain = rd_chain rd @ [i]\<rparr> rd'"
    by auto
  from Cons.IH [OF rest opened_child [OF Cons.prems(2) this(1)]] show ?case by simp
qed

lemma reads_rd_open: "reads (\<lambda>fs rd. opened fs rd \<and> rd_path rd = p) (rd_open p)"
  unfolding rd_open_def
proof (rule reads_then [OF reads_open_root])
  fix h
  have step: "reads (\<lambda>fs rd'. \<exists>i. child_of fs (rd_handle rd) name = Inr i
        \<and> rd' = \<lparr>rd_path = rd_path rd @ [name], rd_chain = rd_chain rd @ [i]\<rparr>)
      (and_then (check (normal_component name) m) (\<lambda>_. child_directory rd name False))" for name rd m
    by (rule reads_then [OF reads_check], rule reads_weaken [OF reads_child_directory]) auto
  show "reads (\<lambda>fs rd. h = fs_root fs \<longrightarrow> opened fs rd \<and> rd_path rd = p)
      (fold_then (\<lambda>name rd. and_then (check (normal_component name) ''not a standard path'') (\<lambda>_. child_directory rd name False))
        p \<lparr>rd_path = [], rd_chain = [h]\<rparr>)"
  proof (rule reads_weaken [OF reads_fold [OF step]], rule impI)
    fix fs :: file_system and rd :: retained_directory
    assume "h = fs_root fs"
    then have "opened fs \<lparr>rd_path = [], rd_chain = [h]\<rparr>" by (simp add: opened_def rd_handle_def)
    moreover assume "chained (\<lambda>name rd rd'. \<exists>i. child_of fs (rd_handle rd) name = Inr i
        \<and> rd' = \<lparr>rd_path = rd_path rd @ [name], rd_chain = rd_chain rd @ [i]\<rparr>) p \<lparr>rd_path = [], rd_chain = [h]\<rparr> rd"
    ultimately show "opened fs rd \<and> rd_path rd = p" by (auto dest!: chained_open)
  qed
qed

lemma reads_same_identity: "reads (\<lambda>fs u'. fst pair = snd pair) (same_identity pair u)"
  unfolding same_identity_def
  by (rule reads_then [OF reads_identity], rule reads_then [OF reads_identity], rule reads_result) auto

lemma same_chains: "length xs = length ys \<Longrightarrow> \<forall>p \<in> set (zip xs ys). fst p = snd p \<Longrightarrow> xs = ys"
proof (induction xs ys rule: list_induct2)
  case (Cons x xs y ys)
  then have "x = y" by (metis fst_conv list.set_intros(1) snd_conv zip_Cons_Cons)
  moreover have "\<forall>p \<in> set (zip xs ys). fst p = snd p" using Cons.prems by (metis list.set_intros(2) zip_Cons_Cons)
  ultimately show ?case using Cons.IH by blast
qed simp

lemma reads_rd_verify: "reads (\<lambda>fs u. opened fs rd) (rd_verify rd)"
  unfolding rd_verify_def
proof (rule reads_then [OF reads_rd_open], rule reads_then [OF reads_check], rule reads_weaken [OF reads_fold [OF reads_same_identity]])
  fix current :: retained_directory and fs u
  assume "chained (\<lambda>pair s s'. fst pair = snd pair) (zip (rd_chain rd) (rd_chain current)) () u"
  from chained_all [OF this] show "length (rd_chain current) = length (rd_chain rd) \<longrightarrow>
      opened fs current \<and> rd_path current = rd_path rd \<longrightarrow> opened fs rd"
    using same_chains [of "rd_chain rd" "rd_chain current"] by (auto simp: opened_def rd_handle_def)
qed

lemma chained_parent:
  assumes "chained (\<lambda>name s s'. child_of fs (rd_handle (fst s)) name = Inr (rd_handle (fst s'))) p s s'"
  shows "walk fs (rd_handle (fst s)) p = Inr (rd_handle (fst s'))"
  using assms by (induction p arbitrary: s) auto

lemma reads_parent_step:
  "reads (\<lambda>fs s'. child_of fs (rd_handle (fst s)) name = Inr (rd_handle (fst s'))) (parent_step entries name s)"
  unfolding parent_step_def split_beta
  by (rule reads_then [OF reads_check])
    (auto split: option.splits intro!: reads_result reads_then [OF reads_child_directory] reads_then [OF reads_identity]
      reads_then [OF reads_check] simp: rd_handle_def)

lemma reads_parent: "reads (\<lambda>fs rd. walk fs (rd_handle root) (butlast rel) = Inr (rd_handle rd)) (parent root entries rel)"
  unfolding parent_def
  by (rule reads_then [OF reads_fold [OF reads_parent_step]], rule reads_result) (auto dest: chained_parent)

definition found_as :: "file_system \<Rightarrow> retained_directory \<Rightarrow> retained_entry \<Rightarrow> inode \<Rightarrow> bool" where
  "found_as fs root held i =
    (en_relative (re_entry held) \<noteq> [] \<longrightarrow> walk fs (rd_handle root) (en_relative (re_entry held)) = Inr i
      \<and> of_kind fs i (en_directory (re_entry held)))"

lemma reads_open_entry: "reads (\<lambda>fs x. found_as fs root held (snd x)) (open_entry root entries held)"
  unfolding open_entry_def
proof (rule reads_then [OF reads_parent], rule reads_then [OF reads_child], rule reads_then [OF reads_identity],
    rule reads_then [OF reads_check], rule reads_result)
  fix rd :: retained_directory and i j :: inode and u fs a
  let ?rel = "en_relative (re_entry held)"
  assume "Inr (rd, i) = (Inr a :: io_error + _)"
  moreover have "?rel \<noteq> [] \<Longrightarrow> walk fs (rd_handle root) (butlast ?rel) = Inr (rd_handle rd) \<Longrightarrow>
      child_of fs (rd_handle rd) (last ?rel) = Inr i \<Longrightarrow> walk fs (rd_handle root) ?rel = Inr i"
    using walk_snoc [of fs "rd_handle root" "butlast ?rel" "rd_handle rd" "last ?rel" i] by simp
  ultimately show "j = re_identity held \<longrightarrow> j = i \<longrightarrow>
      child_of fs (rd_handle rd) (last ?rel) = Inr i \<and> of_kind fs i (en_directory (re_entry held)) \<longrightarrow>
      walk fs (rd_handle root) (butlast ?rel) = Inr (rd_handle rd) \<longrightarrow> found_as fs root held (snd a)"
    by (auto simp: found_as_def)
qed

end
