(* ===== verification/Migration_Compare.thy ===== *)
theory Migration_Compare
  imports Migration_Verify
begin

text \<open>
  The comparison of two files, the scan of a directory and the verification of a plan, undisturbed
  (\<open>retained_equal\<close>, \<open>scan\<close>, \<open>verify_copy\<close> of \<open>native-client/src/directory_migration.rs\<close>).
\<close>

section \<open>Comparing two files\<close>

definition bytes_of :: "file_system \<Rightarrow> inode \<Rightarrow> 8 word list option" where
  "bytes_of fs i = (case fs_nodes fs i of None \<Rightarrow> None
    | Some n \<Rightarrow> (case nd_content n of Bytes b \<Rightarrow> Some b | _ \<Rightarrow> None))"

lemma reads_read_at:
  "reads (\<lambda>fs bytes. \<exists>b k. bytes_of fs i = Some b \<and> k \<le> limit \<and> bytes = take k (drop offset b)) (read_at i limit offset)"
  unfolding read_at_def
  by (rule reads_look) (auto simp: bytes_of_def node_at_def split: option.splits node_content.splits intro!: exI [of _ "min _ _"])

lemma take_own_length: "ys = take k xs \<Longrightarrow> ys = take (length ys) xs"
  by (cases "k \<le> length xs") auto

lemma fill_from_reads:
  assumes "nobody_else w" and "fill_from right offset count filled w = (r, w')"
  shows "nobody_else w' \<and> mw_fs w' = mw_fs w \<and>
    (\<forall>bytes b. r = Inr (Some bytes) \<longrightarrow> bytes_of (mw_fs w) right = Some b \<longrightarrow> length filled \<le> count \<longrightarrow>
      filled = take (length filled) (drop offset b) \<longrightarrow> bytes = take count (drop offset b) \<and> length bytes = count)"
  using assms
proof (induction right offset count filled w arbitrary: r w' rule: fill_from.induct)
  case (1 right offset count filled w)
  show ?case
  proof (cases "length filled < count")
    case False
    with "1.prems" show ?thesis by (auto simp: fill_from.simps)
  next
    case True
    obtain x w1 where read: "read_at right (count - length filled) (offset + length filled) w = (x, w1)" by fastforce
    note got = readsE [OF reads_read_at "1.prems"(1) read]
    show ?thesis
    proof (cases "\<exists>bytes. x = Inr bytes \<and> bytes \<noteq> []")
      case False
      with "1.prems"(2) True read got(1,2) show ?thesis by (auto simp: fill_from.simps split: sum.splits if_splits)
    next
      case more: True
      then obtain bytes where x: "x = Inr bytes" "bytes \<noteq> []" by blast
      with "1.prems"(2) True read have rest: "fill_from right offset count (filled @ bytes) w1 = (r, w')"
        by (subst (asm) fill_from.simps) simp
      from got(3) [OF x(1)] obtain c k where c: "bytes_of (mw_fs w) right = Some c" "k \<le> count - length filled"
        "bytes = take k (drop (offset + length filled) c)" by blast
      have "filled @ bytes = take (length (filled @ bytes)) (drop offset c)"
        if "filled = take (length filled) (drop offset c)"
      proof -
        have "bytes = take (length bytes) (drop (length filled) (drop offset c))"
          using take_own_length [OF c(3)] by (simp add: add.commute)
        with that show ?thesis by (metis length_append take_add)
      qed
      moreover have "length (filled @ bytes) \<le> count" using True c by auto
      ultimately show ?thesis
        using "1.IH" [OF True, OF read [symmetric] x(1) x(2) got(1) rest] got(2) c(1) by auto
    qed
  qed
qed

lemma compare_from_reads:
  assumes "nobody_else w" and "compare_from left right whole offset w = (r, w')"
  shows "nobody_else w' \<and> mw_fs w' = mw_fs w \<and>
    (\<forall>a b. r = Inr True \<longrightarrow> bytes_of (mw_fs w) left = Some a \<longrightarrow> bytes_of (mw_fs w) right = Some b \<longrightarrow>
      take (whole - offset) (drop offset a) = take (whole - offset) (drop offset b))"
  using assms
proof (induction left right whole offset w arbitrary: r w' rule: compare_from.induct)
  case (1 left right whole offset w)
  show ?case
  proof (cases "offset < whole")
    case False
    with "1.prems" show ?thesis by (auto simp: compare_from.simps)
  next
    case True
    obtain x w1 where read: "read_at left (min (whole - offset) 65536) offset w = (x, w1)" by fastforce
    note got = readsE [OF reads_read_at "1.prems"(1) read]
    show ?thesis
    proof (cases "\<exists>a. x = Inr a \<and> a \<noteq> []")
      case False
      with "1.prems"(2) True read got(1,2) show ?thesis by (auto simp: compare_from.simps split: sum.splits if_splits)
    next
      case more: True
      then obtain a where x: "x = Inr a" "a \<noteq> []" by blast
      obtain y w2 where fill: "fill_from right offset (length a) [] w1 = (y, w2)" by fastforce
      note filled = fill_from_reads [OF got(1) fill]
      show ?thesis
      proof (cases "y = Inr (Some a)")
        case False
        with "1.prems"(2) True read x fill filled got(1,2) show ?thesis
          by (subst (asm) compare_from.simps) (auto split: sum.splits option.splits if_splits)
      next
        case same: True
        with "1.prems"(2) True read x fill have rest: "compare_from left right whole (offset + length a) w2 = (r, w')"
          by (subst (asm) compare_from.simps) simp
        note IH = "1.IH" [OF True read [symmetric] x(1) x(2) fill [symmetric] same refl _ _ rest]
        from got(3) [OF x(1)] obtain A k where A: "bytes_of (mw_fs w) left = Some A" "k \<le> min (whole - offset) 65536"
          "a = take k (drop offset A)" by blast
        have part: "a = take (length a) (drop offset A)" "length a \<le> whole - offset"
          using take_own_length [OF A(3)] A(2,3) by auto
        have "take (whole - offset) (drop offset A) = take (whole - offset) (drop offset B)"
          if B: "bytes_of (mw_fs w) right = Some B" and r: "r = Inr True" for B
        proof -
          from filled same B got(2) have "a = take (length a) (drop offset B)" by simp
          moreover have "take (whole - (offset + length a)) (drop (offset + length a) A) =
              take (whole - (offset + length a)) (drop (offset + length a) B)"
            using IH filled got(2) A(1) B r by simp
          moreover have "whole - offset = length a + (whole - (offset + length a))" using part(2) by simp
          ultimately show ?thesis using part(1) by (metis drop_drop add.commute take_add)
        qed
        then show ?thesis using IH filled got(2) A(1) by simp
      qed
    qed
  qed
qed

lemma reads_compare_from:
  "reads (\<lambda>fs same. same \<longrightarrow> (\<forall>a b. bytes_of fs left = Some a \<longrightarrow> bytes_of fs right = Some b \<longrightarrow>
      take whole a = take whole b)) (compare_from left right whole 0)"
  by (rule readsI) (use compare_from_reads in fastforce)

definition sizes_fit :: "file_system \<Rightarrow> bool" where
  "sizes_fit fs = (\<forall>i b. bytes_of fs i = Some b \<longrightarrow> length b < 2 ^ 64)"

lemma regular_bytes: "node_at fs i = Inr n \<Longrightarrow> is_regular n \<Longrightarrow> \<exists>b. nd_content n = Bytes b \<and> bytes_of fs i = Some b"
  by (auto simp: node_at_def is_regular_def bytes_of_def split: option.splits node_content.splits)

lemma reads_retained_equal:
  "reads (\<lambda>fs same. same \<and> sizes_fit fs \<longrightarrow> (\<exists>b. bytes_of fs left = Some b \<and> bytes_of fs right = Some b))
    (retained_equal left right)"
  unfolding retained_equal_def
proof (rule reads_then [OF reads_verify_regular], rule reads_then [OF reads_verify_regular],
    rule reads_then [OF reads_retained_stamp], rule reads_then [OF reads_retained_stamp])
  fix u v :: unit and l r :: file_stamp
  let ?goal = "\<lambda>fs same. same \<and> sizes_fit fs \<longrightarrow> (\<exists>b. bytes_of fs left = Some b \<and> bytes_of fs right = Some b)"
  let ?R = "\<lambda>fs same. (\<exists>n. node_at fs right = Inr n \<and> r = stamp_of n) \<longrightarrow> (\<exists>n. node_at fs left = Inr n \<and> l = stamp_of n) \<longrightarrow>
    (\<exists>n. node_at fs right = Inr n \<and> is_regular n) \<longrightarrow> (\<exists>n. node_at fs left = Inr n \<and> is_regular n) \<longrightarrow> ?goal fs same"
  have equal: "\<exists>b. bytes_of fs left = Some b \<and> bytes_of fs right = Some b"
    if known: "\<exists>n. node_at fs right = Inr n \<and> r = stamp_of n" "\<exists>n. node_at fs left = Inr n \<and> l = stamp_of n"
      "\<exists>n. node_at fs right = Inr n \<and> is_regular n" "\<exists>n. node_at fs left = Inr n \<and> is_regular n" "sizes_fit fs" "fst l = fst r"
      and same: "\<forall>a b. bytes_of fs left = Some a \<longrightarrow> bytes_of fs right = Some b \<longrightarrow> take (unat (fst l)) a = take (unat (fst l)) b"
    for fs
  proof -
    obtain n m where n: "node_at fs left = Inr n" "is_regular n" "l = stamp_of n"
      and m: "node_at fs right = Inr m" "is_regular m" "r = stamp_of m"
      using known(1-4) by auto
    obtain a b where a: "nd_content n = Bytes a" "bytes_of fs left = Some a" and b: "nd_content m = Bytes b" "bytes_of fs right = Some b"
      using regular_bytes [OF n(1,2)] regular_bytes [OF m(1,2)] by auto
    have "length a < 2 ^ 64" "length b < 2 ^ 64" using a b known(5) by (auto simp: sizes_fit_def)
    then have "unat (fst l) = length a" "unat (fst r) = length b"
      using a b n m by (simp_all add: stamp_of_def file_len_def unat_of_nat)
    then show ?thesis using same a b known(6) by auto
  qed
  show "reads ?R (if fst l \<noteq> fst r then result_is (Inr False) else and_then (compare_from left right (unat (fst l)) 0)
      (\<lambda>same. if \<not> same then result_is (Inr False) else and_then (retained_stamp left) (\<lambda>l'.
        and_then (retained_stamp right) (\<lambda>r'. result_is (Inr ((l, r) = (l', r')))))))"
  proof (cases "fst l = fst r")
    case False
    then show ?thesis by (auto intro: reads_result)
  next
    case True
    have "reads (\<lambda>fs b. (same \<longrightarrow> (\<forall>a b. bytes_of fs left = Some a \<longrightarrow> bytes_of fs right = Some b \<longrightarrow>
        take (unat (fst l)) a = take (unat (fst l)) b)) \<longrightarrow> ?R fs b)
        (if \<not> same then result_is (Inr False) else and_then (retained_stamp left) (\<lambda>l'.
          and_then (retained_stamp right) (\<lambda>r'. result_is (Inr ((l, r) = (l', r'))))))" for same
    proof (cases same)
      case False
      then show ?thesis by (auto intro: reads_result)
    next
      case True
      with equal \<open>fst l = fst r\<close> show ?thesis
        by (auto intro!: reads_then [OF reads_retained_stamp] reads_result)
    qed
    with True show ?thesis by (auto intro!: reads_then [OF reads_compare_from])
  qed
qed

section \<open>Scanning\<close>

lemma reads_symlink_metadata: "reads (\<lambda>fs n. \<exists>i. walk fs (fs_root fs) p = Inr i \<and> node_at fs i = Inr n) (symlink_metadata p)"
  unfolding symlink_metadata_def by (rule reads_look) auto

lemma child_name:
  assumes "child_of fs i name = Inr k"
  shows "\<exists>n es. node_at fs i = Inr n \<and> nd_content n = Folder es \<and> (name, k) \<in> set es"
proof -
  from assms obtain n where n: "node_at fs i = Inr n" by (auto simp: child_of_def)
  with assms show ?thesis
    by (cases "nd_content n") (auto simp: child_of_def split: option.splits dest: map_of_SomeD)
qed

lemma reads_read_dir:
  "reads (\<lambda>fs names. \<forall>name k. child_of fs i name = Inr k \<longrightarrow> walk fs (fs_root fs) p = Inr i \<longrightarrow> name \<in> set names) (read_dir p)"
  unfolding read_dir_def
proof (rule reads_look, intro allI impI)
  fix v :: migration_view and fs names name k
  assume "bind_result (walk fs (fs_root fs) p) (\<lambda>i. bind_result (node_at fs i) (\<lambda>n. case nd_content n of
      Folder entries \<Rightarrow> Inr (map fst entries) | _ \<Rightarrow> Inl (other_error ''not a directory''))) = Inr names"
    and "walk fs (fs_root fs) p = Inr i" and "child_of fs i name = Inr k"
  then show "name \<in> set names" by (force dest!: child_name)
qed

lemma reads_checked_directory: "reads (\<lambda>fs q. True) (checked_directory p)"
  unfolding checked_directory_def
proof (rule reads_then [OF reads_check], rule reads_then)
  show "reads (\<lambda>fs. chained (\<lambda>q s s'. True) (ancestors p) ()) (fold_then check_ancestor (ancestors p) ())"
    unfolding check_ancestor_def
    by (rule reads_fold, rule reads_then [OF reads_symlink_metadata], rule reads_weaken [OF reads_check]) simp
  show "reads (\<lambda>fs b. chained (\<lambda>q s s'. True) (ancestors p) () a \<longrightarrow> p \<noteq> [] \<and> ''..'' \<notin> set p \<longrightarrow> True) (canonicalize p)" for a :: unit
    unfolding canonicalize_def by (rule reads_look) simp
qed

definition scan_steps ::
  "file_system \<Rightarrow> path \<Rightarrow> path \<Rightarrow> string \<Rightarrow> path list \<times> migration_entry list \<Rightarrow> path list \<times> migration_entry list \<Rightarrow> bool" where
  "scan_steps fs root d name s s' =
    (\<exists>i n. walk fs (fs_root fs) (d @ [name]) = Inr i \<and> node_at fs i = Inr n
      \<and> s' = (if is_folder n then (d @ [name]) # fst s else fst s, snd s @ [scanned_entry (drop (length root) (d @ [name])) n]))"

lemma reads_scan_name: "reads (\<lambda>fs. scan_steps fs root d name s) (scan_name root d name s)"
  unfolding scan_name_def Let_def scan_steps_def
  by (rule reads_then [OF reads_symlink_metadata], rule reads_then [OF reads_check], rule reads_then [OF reads_check],
      rule reads_result) auto

lemma scan_steps_all:
  assumes "chained (scan_steps fs root d) names s s'"
  shows "set (fst s) \<subseteq> set (fst s') \<and> set (snd s) \<subseteq> set (snd s') \<and>
    (\<forall>name \<in> set names. (\<exists>e \<in> set (snd s'). en_relative e = drop (length root) (d @ [name]))
      \<and> (\<forall>i n. walk fs (fs_root fs) (d @ [name]) = Inr i \<longrightarrow> node_at fs i = Inr n \<longrightarrow> is_folder n \<longrightarrow> d @ [name] \<in> set (fst s')))"
  using assms
proof (induction names arbitrary: s)
  case Nil
  then show ?case by simp
next
  case (Cons name names)
  then obtain s1 where s1: "scan_steps fs root d name s s1" and rest: "chained (scan_steps fs root d) names s1 s'" by auto
  from s1 have "set (fst s) \<subseteq> set (fst s1)" "set (snd s) \<subseteq> set (snd s1)"
    "\<exists>e \<in> set (snd s1). en_relative e = drop (length root) (d @ [name])"
    "\<forall>i n. walk fs (fs_root fs) (d @ [name]) = Inr i \<longrightarrow> node_at fs i = Inr n \<longrightarrow> is_folder n \<longrightarrow> d @ [name] \<in> set (fst s1)"
    by (auto simp: scan_steps_def scanned_entry_def)
  with Cons.IH [OF rest] show ?case by (simp only: list.set ball_simps) blast
qed

definition scanned :: "file_system \<Rightarrow> path \<Rightarrow> path \<Rightarrow> migration_entry set \<Rightarrow> bool" where
  "scanned fs root d found =
    (\<forall>q j. q \<noteq> [] \<longrightarrow> walk fs (fs_root fs) (d @ q) = Inr j \<longrightarrow> (\<exists>e \<in> found. en_relative e = drop (length root) (d @ q)))"

lemma scanned_mono: "scanned fs root d found \<Longrightarrow> found \<subseteq> found' \<Longrightarrow> scanned fs root d found'"
  unfolding scanned_def by blast

lemma walk_into_folder:
  assumes "walk fs k (c # q) = Inr j"
  shows "\<exists>n. node_at fs k = Inr n \<and> is_folder n"
  using assms by (auto simp: child_of_def is_folder_def split: node_content.splits)

lemma scanned_directory:
  assumes names: "\<And>i name k. child_of fs i name = Inr k \<Longrightarrow> walk fs (fs_root fs) d = Inr i \<Longrightarrow> name \<in> set names"
    and steps: "chained (scan_steps fs root d) names s s'"
    and below: "\<And>d. d \<in> set (fst s') \<Longrightarrow> scanned fs root d found" and kept: "set (snd s') \<subseteq> found"
  shows "scanned fs root d found"
  unfolding scanned_def
proof (intro allI impI)
  fix q j
  assume "q \<noteq> []" and walk: "walk fs (fs_root fs) (d @ q) = Inr j"
  then obtain name q' where q: "q = name # q'" by (cases q) auto
  from walk obtain i k where i: "walk fs (fs_root fs) d = Inr i" "child_of fs i name = Inr k" "walk fs k q' = Inr j"
    by (auto simp: q walk_append)
  note all = scan_steps_all [OF steps]
  have name: "name \<in> set names" using names i by blast
  show "\<exists>e \<in> found. en_relative e = drop (length root) (d @ q)"
  proof (cases q')
    case Nil
    from all name obtain e where "e \<in> set (snd s')" "en_relative e = drop (length root) (d @ [name])" by blast
    with kept show ?thesis unfolding q Nil by blast
  next
    case (Cons c q'')
    with i(3) obtain n where "node_at fs k = Inr n" "is_folder n" using walk_into_folder by blast
    with all name walk_snoc [OF i(1,2)] have "d @ [name] \<in> set (fst s')" by blast
    from below [OF this] walk Cons show ?thesis by (auto simp: scanned_def q)
  qed
qed

lemma reads_scan_from:
  "reads (\<lambda>fs found'. set found \<subseteq> set found' \<and> (\<forall>d \<in> set pending. scanned fs root d (set found'))) (scan_from fuel root pending found)"
proof (induction fuel arbitrary: pending found)
  case 0
  show ?case unfolding scan_from.simps by (rule reads_result) simp
next
  case (Suc fuel)
  show ?case
  proof (cases pending)
    case Nil
    then show ?thesis unfolding Nil scan_from.simps list.case by (intro reads_result) simp
  next
    case (Cons d rest)
    have "reads (\<lambda>fs found'. chained (scan_steps fs root d) names (rest, found) s \<longrightarrow>
        (\<forall>i name k. child_of fs i name = Inr k \<longrightarrow> walk fs (fs_root fs) d = Inr i \<longrightarrow> name \<in> set names) \<longrightarrow> True \<longrightarrow>
        set found \<subseteq> set found' \<and> (\<forall>d \<in> set pending. scanned fs root d (set found')))
      (scan_from fuel root (fst s) (snd s))" for names s
    proof (rule reads_weaken [OF Suc.IH [of "snd s" "fst s"]], intro impI)
      fix fs found'
      assume IH: "set (snd s) \<subseteq> set found' \<and> (\<forall>d \<in> set (fst s). scanned fs root d (set found'))"
        and steps: "chained (scan_steps fs root d) names (rest, found) s"
        and names: "\<forall>i name k. child_of fs i name = Inr k \<longrightarrow> walk fs (fs_root fs) d = Inr i \<longrightarrow> name \<in> set names"
      have "scanned fs root d (set found')"
        by (rule scanned_directory [OF _ steps]) (use names IH in auto)
      with scan_steps_all [OF steps] IH Cons
      show "set found \<subseteq> set found' \<and> (\<forall>d \<in> set pending. scanned fs root d (set found'))" by auto
    qed
    moreover have "reads (\<lambda>fs names. \<forall>i name k. child_of fs i name = Inr k \<longrightarrow> walk fs (fs_root fs) d = Inr i \<longrightarrow> name \<in> set names)
        (read_dir d)"
      using reads_read_dir unfolding reads_def by blast
    ultimately show ?thesis
      unfolding Cons scan_from.simps list.case
      by (intro reads_then [OF reads_checked_directory] reads_then reads_then [OF reads_fold [OF reads_scan_name]])
        (assumption, simp add: Cons)
  qed
qed

lemma reads_scan: "reads (\<lambda>fs found. scanned fs root root (set found)) (scan fuel root)"
  unfolding scan_def by (rule reads_then [OF reads_scan_from], rule reads_result) auto

end
