(* ===== verification/Migration_Fuel.thy ===== *)
theory Migration_Fuel
  imports Migration_Compare
begin

text \<open>
  The fuel of the two loops that other processes could keep going
  (\<open>native-client/src/directory_migration.rs\<close>, \<open>staging_file\<close> and \<open>scan\<close>): more fuel does not change a
  result, and an undisturbed search for a temporary name ends after as many attempts as the directory
  has entries.
\<close>

section \<open>More fuel does not change a result\<close>

definition in_time :: "io_error + 'a \<Rightarrow> bool" where
  "in_time r = (\<forall>e. r = Inl e \<longrightarrow> io_kind e \<noteq> OutOfFuel)"

lemma staging_more_fuel:
  assumes "staging_file fuel rd w = (r, w')" and "in_time r" and "fuel \<le> fuel'"
  shows "staging_file fuel' rd w = (r, w')"
  using assms
proof (induction fuel arbitrary: w fuel')
  case 0
  then show ?case by (auto simp: result_is_def in_time_def)
next
  case (Suc fuel)
  then obtain less' where enough: "fuel' = Suc less'" "fuel \<le> less'" by (cases fuel') auto
  obtain name w0 where name: "staging_name w = (Inr name, w0)" by (simp add: staging_name_def)
  obtain x w1 where x: "child rd name False True w0 = (x, w1)" by fastforce
  show ?case
    using Suc.prems(1,2) Suc.IH [of w1 less'] enough name x
    by (cases x) (auto simp: and_then_def settle_with_def)
qed

lemma scan_from_more_fuel:
  assumes "scan_from fuel root pending found w = (r, w')" and "in_time r" and "fuel \<le> fuel'"
  shows "scan_from fuel' root pending found w = (r, w')"
  using assms
proof (induction fuel arbitrary: pending found w fuel')
  case 0
  then show ?case by (auto simp: result_is_def in_time_def)
next
  case (Suc fuel)
  then obtain less' where enough: "fuel' = Suc less'" "fuel \<le> less'" by (cases fuel') auto
  show ?case
  proof (cases pending)
    case Nil
    with Suc.prems enough show ?thesis by simp
  next
    case (Cons d rest)
    have "scan_from less' root (fst s) (snd s) w2 = (r, w')" if "scan_from fuel root (fst s) (snd s) w2 = (r, w')" for s w2
      using Suc.IH [OF that Suc.prems(2) enough(2)] .
    with Suc.prems(1) enough Cons show ?thesis
      by (auto simp: and_then_def split: prod.splits sum.splits)
  qed
qed

section \<open>The search for a temporary name ends\<close>

text \<open>No call fails of itself, nobody interferes, and every attempt is made with a name of its own.\<close>

definition undisturbed :: "migration_world \<Rightarrow> bool" where
  "undisturbed w = (\<forall>n \<ge> mw_clock w. mv_others (mw_views w n) = id \<and> mv_fault (mw_views w n) = None
    \<and> (\<forall>m > n. mv_staging_name (mw_views w m) \<noteq> mv_staging_name (mw_views w n)))"

definition timely :: "'a migration \<Rightarrow> bool" where
  "timely p = (\<forall>w r w'. undisturbed w \<longrightarrow> p w = (r, w') \<longrightarrow> in_time r \<and> undisturbed w')"

lemma timely_result: "in_time r \<Longrightarrow> timely (result_is r)"
  by (simp add: timely_def result_is_def)

lemma timely_check: "timely (check b m)"
  by (rule timely_result) (simp add: in_time_def ensure_def)

lemma timely_and_then:
  assumes "timely p" and "\<And>a. timely (f a)"
  shows "timely (and_then p f)"
  unfolding timely_def
proof (intro allI impI)
  fix w r w'
  assume w: "undisturbed w" and run: "and_then p f w = (r, w')"
  obtain x w1 where x: "p w = (x, w1)" by (cases "p w")
  with assms(1) w have first: "in_time x" "undisturbed w1" by (auto simp: timely_def)
  show "in_time r \<and> undisturbed w'"
  proof (cases x)
    case (Inl e)
    with run x first show ?thesis by (auto simp: and_then_def in_time_def)
  next
    case (Inr a)
    with run x have "f a w1 = (r, w')" by (simp add: and_then_def)
    with assms(2) first(2) show ?thesis by (auto simp: timely_def)
  qed
qed

lemma timely_call:
  assumes "\<And>v fs. in_time (fst (f v fs))"
  shows "timely (call f)"
  unfolding timely_def
proof (intro allI impI)
  fix w r w'
  assume w: "undisturbed w" and run: "call f w = (r, w')"
  then have "mv_fault (mw_views w (mw_clock w)) = None" by (simp add: undisturbed_def)
  with run have r: "r = fst (f (mw_views w (mw_clock w)) (mw_fs (others_move w)))"
    and "mw_views w' = mw_views w" "mw_clock w' = Suc (mw_clock w)"
    by (auto simp: call_def others_move_def Let_def split: prod.splits)
  with w have "undisturbed w'" by (simp add: undisturbed_def)
  with r assms show "in_time r \<and> undisturbed w'" by simp
qed

lemma in_time_node: "in_time (node_at fs i)"
  by (simp add: in_time_def node_at_def split: option.splits)

lemma in_time_bind: "in_time r \<Longrightarrow> (\<And>a. in_time (f a)) \<Longrightarrow> in_time (bind_result r f)"
  by (cases r) (auto simp: in_time_def)

lemma timely_metadata: "timely (file_metadata_of i)"
  unfolding file_metadata_of_def look_at_def by (rule timely_call) (simp add: in_time_node)

lemma timely_create_at: "timely (create_at i name)"
  unfolding create_at_def
  by (rule timely_call) (auto simp: in_time_def add_node_def Let_def split: option.splits node_content.splits)

lemma timely_child_create: "timely (child rd name False True)"
  unfolding child_def verify_regular_def
  by (auto intro!: timely_and_then timely_check timely_create_at timely_metadata timely_result simp: in_time_def)

definition names_of :: "file_system \<Rightarrow> inode \<Rightarrow> string set" where
  "names_of fs i = (case fs_nodes fs i of None \<Rightarrow> {}
    | Some n \<Rightarrow> (case nd_content n of Folder entries \<Rightarrow> fst ` set entries | _ \<Rightarrow> {}))"

lemma names_of_finite: "finite (names_of fs i)"
  by (simp add: names_of_def split: option.split node_content.split)

lemma look_at_other:
  assumes "undisturbed w" and "file_metadata_of i w = (Inl e, w')"
  shows "io_kind e = OtherKind"
  using assms by (auto simp: file_metadata_of_def look_at_def call_def node_at_def undisturbed_def Let_def split: option.splits)

lemma create_taken:
  assumes w: "undisturbed w" and run: "child rd name False True w = (Inl e, w')" and taken: "io_kind e = AlreadyExists"
  shows "mw_fs w' = mw_fs w" and "mw_clock w' = Suc (mw_clock w)" and "mw_views w' = mw_views w"
    and "name \<in> names_of (mw_fs w) (rd_handle rd)"
proof -
  have nobody_else: "mv_others (mw_views w (mw_clock w)) = id" "mv_fault (mw_views w (mw_clock w)) = None"
    using w by (auto simp: undisturbed_def)
  have name: "valid_child_name name"
    using run taken by (auto simp: child_def and_then_def result_is_def ensure_def split: if_splits)
  obtain x w1 where x: "create_at (rd_handle rd) name w = (x, w1)" by fastforce
  have "mw_fs w' = mw_fs w \<and> mw_clock w' = Suc (mw_clock w) \<and> mw_views w' = mw_views w \<and>
      name \<in> names_of (mw_fs w) (rd_handle rd)"
  proof (cases x)
    case (Inl e')
    with run name x have "e' = e" "w1 = w'" by (auto simp: child_def and_then_def result_is_def ensure_def)
    with x Inl nobody_else taken show "mw_fs w' = mw_fs w \<and> mw_clock w' = Suc (mw_clock w) \<and> mw_views w' = mw_views w \<and>
        name \<in> names_of (mw_fs w) (rd_handle rd)"
      by (auto simp: create_at_def call_def others_move_def add_node_def names_of_def Let_def map_of_eq_None_iff
          split: option.splits node_content.splits if_splits)
  next
    case (Inr i)
    let ?rest = "and_then (file_metadata_of i) (\<lambda>n. and_then (check (is_folder n = False) ''replaced by a link or a special file'')
      (\<lambda>_. and_then (verify_regular i) (\<lambda>_. result_is (Inr i))))"
    from run name x Inr have rest: "?rest w1 = (Inl e, w')" by (simp add: child_def and_then_def result_is_def ensure_def)
    have w1: "undisturbed w1" using timely_create_at w x by (auto simp: timely_def)
    have "io_kind e = OtherKind"
    proof -
      obtain y w2 where y: "file_metadata_of i w1 = (y, w2)" by fastforce
      with timely_metadata w1 have w2: "undisturbed w2" by (auto simp: timely_def)
      obtain z w3 where z: "file_metadata_of i w2 = (z, w3)" by fastforce
      from rest y z look_at_other [OF w1, of i] look_at_other [OF w2, of i] show ?thesis
        by (cases y; cases z) (auto simp: and_then_def result_is_def ensure_def verify_regular_def split: if_splits)
    qed
    with taken show "mw_fs w' = mw_fs w \<and> mw_clock w' = Suc (mw_clock w) \<and> mw_views w' = mw_views w \<and>
        name \<in> names_of (mw_fs w) (rd_handle rd)" by simp
  qed
  then show "mw_fs w' = mw_fs w" "mw_clock w' = Suc (mw_clock w)" "mw_views w' = mw_views w"
    "name \<in> names_of (mw_fs w) (rd_handle rd)" by simp_all
qed

lemma staging_returns:
  assumes "undisturbed w" and "card (names_of (mw_fs w) (rd_handle rd)) < fuel"
  shows "in_time (fst (staging_file fuel rd w))"
proof -
  let ?ahead = "\<lambda>w. {name \<in> names_of (mw_fs w) (rd_handle rd). \<exists>m \<ge> mw_clock w. mv_staging_name (mw_views w m) = name}"
  have "in_time (fst (staging_file fuel rd w))" if "undisturbed w" "card (?ahead w) < fuel" for fuel w
    using that
  proof (induction fuel arbitrary: w)
    case 0
    then show ?case by simp
  next
    case (Suc fuel)
    define name where "name = mv_staging_name (mw_views w (mw_clock w))"
    obtain x w1 where x: "child rd name False True w = (x, w1)" by fastforce
    have x_ok: "in_time x" "undisturbed w1" using timely_child_create Suc.prems(1) x by (auto simp: timely_def)
    show ?case
    proof (cases "\<exists>e. x = Inl e \<and> io_kind e = AlreadyExists")
      case False
      with x x_ok show ?thesis
        by (cases x) (auto simp: and_then_def staging_name_def settle_with_def name_def [symmetric] result_is_def in_time_def)
    next
      case True
      then obtain e where e: "x = Inl e" "io_kind e = AlreadyExists" by blast
      note taken = create_taken [OF Suc.prems(1) x [unfolded e(1)] e(2)]
      have "?ahead w1 \<subset> ?ahead w"
      proof
        show "?ahead w1 \<subseteq> ?ahead w" unfolding taken by (auto intro: Suc_leD)
        have "name \<in> ?ahead w" using taken(4) by (auto simp: name_def)
        moreover have "name \<notin> ?ahead w1"
          using Suc.prems(1) unfolding taken name_def undisturbed_def by (auto simp: Suc_le_eq)
        ultimately show "?ahead w1 \<noteq> ?ahead w" by blast
      qed
      then have "card (?ahead w1) < card (?ahead w)" by (rule psubset_card_mono [rotated]) (simp add: names_of_finite)
      with Suc.IH [OF x_ok(2)] Suc.prems(2) x e show ?thesis
        by (simp add: and_then_def staging_name_def settle_with_def name_def [symmetric])
    qed
  qed
  moreover have "card (?ahead w) \<le> card (names_of (mw_fs w) (rd_handle rd))"
    by (rule card_mono) (auto simp: names_of_finite)
  ultimately show ?thesis using assms by (meson le_less_trans)
qed

end
