(* ===== verification/Migration_Log.thy ===== *)
theory Migration_Log
  imports Migration_Run
begin

text \<open>
  What the parts of a migration leave in its log (\<open>native-client/src/directory_migration.rs\<close>), and that none of
  them but the loops of the batch touch the report.
\<close>

section \<open>Calls\<close>

abbreviation calls :: "(migration_event \<Rightarrow> bool) \<Rightarrow> 'a migration \<Rightarrow> bool" where
  "calls \<equiv> logs (\<lambda>w. (mw_views w, mw_report w)) mw_log"

definition looked :: "migration_event \<Rightarrow> bool" where
  "looked e = (case e of Looked \<Rightarrow> True | Opened i name j \<Rightarrow> True | _ \<Rightarrow> False)"

lemma looked_simps [simp]: "looked Looked" "looked (Opened i name j)"
  by (simp_all add: looked_def)

abbreviation looks :: "'a migration \<Rightarrow> bool" where
  "looks \<equiv> calls looked"

lemma calls_call:
  assumes "P Looked" and "\<And>v fs. P (snd (snd (f v fs)))"
  shows "calls P (call f)"
  by (rule logsI)
    (use assms in \<open>auto simp: call_def others_move_def Let_def split: option.splits prod.splits\<close>,
     metis assms(2) snd_conv)

lemma calls_call_through:
  assumes "\<And>v fs. P (snd (snd (f v fs)))"
  shows "calls P (call_through f)"
proof (rule logsI)
  fix w r w'
  assume "call_through f w = (r, w')"
  then have "(mw_views w', mw_report w') = (mw_views w, mw_report w)
    \<and> mw_log w' = mw_log w @ [snd (snd (f (mw_views w (mw_clock w)) (mw_fs (others_move w))))]"
    by (auto simp: call_through_def others_move_def Let_def split: prod.splits)
  with assms show "(mw_views w', mw_report w') = (mw_views w, mw_report w)
    \<and> (\<exists>es. mw_log w' = mw_log w @ es \<and> list_all P es)" by auto
qed

lemma calls_look_at: "P Looked \<Longrightarrow> calls P (look_at f)"
  unfolding look_at_def by (rule calls_call) simp_all

lemma calls_open_at: "P Looked \<Longrightarrow> (\<And>j. P (Opened i name j)) \<Longrightarrow> calls P (open_at i name directory)"
  unfolding open_at_def by (rule calls_call) (auto split: sum.split)

lemma looks_system [logging]:
  "looks (look_at f)" "looks (file_metadata_of i)" "looks (open_at i name directory)" "looks (read_at i limit offset)"
  "looks (sync_all i)" "looks (symlink_metadata p)" "looks (read_dir p)" "looks open_root" "looks (canonicalize p)"
  unfolding file_metadata_of_def read_at_def sync_all_def symlink_metadata_def read_dir_def open_root_def canonicalize_def
  by (rule calls_look_at calls_open_at; simp)+

lemma calls_metadata: "P Looked \<Longrightarrow> calls P (file_metadata_of i)"
  unfolding file_metadata_of_def by (rule calls_look_at)

lemma calls_identity: "P Looked \<Longrightarrow> calls P (identity i)"
  unfolding identity_def by (intro logging calls_metadata)

lemma calls_verify_regular: "P Looked \<Longrightarrow> calls P (verify_regular i)"
  unfolding verify_regular_def by (intro logging calls_metadata)

lemma looks_checked [logging]:
  "looks (identity i)" "looks (verify_regular i)" "looks (retained_stamp i)"
  unfolding identity_def verify_regular_def retained_stamp_def
  by (intro logging)+

lemma calls_optional [logging]: "calls P p \<Longrightarrow> calls P (optional p)"
  unfolding optional_def by (intro logging)

lemma looks_staging_name [logging]: "looks staging_name"
  by (rule logsI) (auto simp: staging_name_def)

section \<open>Programs that only look\<close>

lemma looks_child [logging]: "looks (child rd name directory False)"
  unfolding child_def by (simp, intro logging)

lemma looks_child_directory [logging]: "looks (child_directory rd name False)"
  unfolding child_directory_def by (intro logging)

lemma looks_rd_open [logging]: "looks (rd_open p)"
  unfolding rd_open_def by (intro logging)

lemma looks_rd_verify [logging]: "looks (rd_verify rd)"
  unfolding rd_verify_def same_identity_def by (intro logging)

lemma looks_parent [logging]: "looks (parent root entries relative)"
  unfolding parent_def parent_step_def by (intro logging logs_fold_then) (auto split: prod.splits intro!: logging)

lemma looks_open_entry [logging]: "looks (open_entry root entries held)"
  unfolding open_entry_def by (intro logging)

lemma looks_fill_from: "fill_from right offset count filled w = (r, w') \<Longrightarrow>
    (mw_views w', mw_report w') = (mw_views w, mw_report w) \<and> (\<exists>es. mw_log w' = mw_log w @ es \<and> list_all looked es)"
proof (induction right offset count filled w arbitrary: r w' rule: fill_from.induct)
  case (1 right offset count filled w)
  show ?case
  proof (cases "length filled < count")
    case False
    with "1.prems" show ?thesis by (auto simp: fill_from.simps)
  next
    case True
    obtain x w1 where read: "read_at right (count - length filled) (offset + length filled) w = (x, w1)" by fastforce
    from logsE [OF looks_system(4) read] obtain es where
      es: "(mw_views w1, mw_report w1) = (mw_views w, mw_report w)" "mw_log w1 = mw_log w @ es" "list_all looked es" .
    show ?thesis
    proof (cases "\<exists>bytes. x = Inr bytes \<and> bytes \<noteq> []")
      case False
      with "1.prems" True read es show ?thesis by (auto simp: fill_from.simps split: sum.splits if_splits)
    next
      case more: True
      then obtain bytes where x: "x = Inr bytes" "bytes \<noteq> []" by blast
      with "1.prems" True read have "fill_from right offset count (filled @ bytes) w1 = (r, w')"
        by (subst (asm) fill_from.simps) simp
      from "1.IH" [OF True, OF read [symmetric] x(1) x(2) this] es show ?thesis by auto
    qed
  qed
qed

lemma looks_compare_from: "compare_from left right whole offset w = (r, w') \<Longrightarrow>
    (mw_views w', mw_report w') = (mw_views w, mw_report w) \<and> (\<exists>es. mw_log w' = mw_log w @ es \<and> list_all looked es)"
proof (induction left right whole offset w arbitrary: r w' rule: compare_from.induct)
  case (1 left right whole offset w)
  show ?case
  proof (cases "offset < whole")
    case False
    with "1.prems" show ?thesis by (auto simp: compare_from.simps)
  next
    case True
    obtain x w1 where read: "read_at left (min (whole - offset) 65536) offset w = (x, w1)" by fastforce
    from logsE [OF looks_system(4) read] obtain es where
      es: "(mw_views w1, mw_report w1) = (mw_views w, mw_report w)" "mw_log w1 = mw_log w @ es" "list_all looked es" .
    show ?thesis
    proof (cases "\<exists>a. x = Inr a \<and> a \<noteq> []")
      case False
      with "1.prems" True read es show ?thesis by (auto simp: compare_from.simps split: sum.splits if_splits)
    next
      case more: True
      then obtain a where x: "x = Inr a" "a \<noteq> []" by blast
      obtain y w2 where fill: "fill_from right offset (length a) [] w1 = (y, w2)" by fastforce
      from looks_fill_from [OF this] obtain es2 where
        es2: "(mw_views w2, mw_report w2) = (mw_views w1, mw_report w1)" "mw_log w2 = mw_log w1 @ es2" "list_all looked es2"
        by blast
      show ?thesis
      proof (cases "y = Inr (Some a)")
        case False
        with "1.prems" True read x fill es es2 show ?thesis
          by (subst (asm) compare_from.simps) (auto split: sum.splits option.splits if_splits)
      next
        case same: True
        with "1.prems" True read x fill have "compare_from left right whole (offset + length a) w2 = (r, w')"
          by (subst (asm) compare_from.simps) simp
        from "1.IH" [OF True read [symmetric] x(1) x(2) fill [symmetric] same refl _ this] es es2 show ?thesis by auto
      qed
    qed
  qed
qed

lemma looks_comparing [logging]:
  "looks (fill_from right offset count filled)" "looks (compare_from left right' whole offset')"
  by (rule logsI, erule looks_fill_from looks_compare_from)+

lemma looks_retained_equal [logging]: "looks (retained_equal left right)"
  unfolding retained_equal_def by (intro logging)

lemma looks_checked_directory [logging]: "looks (checked_directory p)"
  unfolding checked_directory_def check_ancestor_def by (intro logging)

lemma looks_scan_from [logging]: "looks (scan_from fuel root pending found)"
proof (induction fuel arbitrary: pending found)
  case 0
  then show ?case by (simp add: logs_result_is)
next
  case (Suc fuel)
  then show ?case by (cases pending) (auto simp: scan_name_def Let_def intro!: logging)
qed

lemma looks_scan [logging]: "looks (scan fuel root)"
  unfolding scan_def by (intro logging)

lemma looks_verify_source [logging]: "looks (verify_source fuel m plan)"
  unfolding verify_source_def verify_source_entry_def by (intro logging)

lemma looks_target_parent [logging]: "looks (target_parent rd names)"
  by (induction names arbitrary: rd) (auto intro!: logging)

lemma looks_check_targets [logging]: "looks (check_targets m entries)"
  unfolding check_targets_def check_target_def by (intro logging)

lemma looks_verify_copy [logging]: "looks (verify_copy fuel plan outputs)"
  unfolding verify_copy_def verify_copied_entry_def Let_def by (intro logging)

lemma looks_state_of [logging]: "looks (state_of file)" "looks (state_of_optional found)"
  unfolding state_of_optional_def state_of_def by (intro logging)+

lemma looks_copied_entry [logging]: "looks (copied_entry rd source output)"
  unfolding copied_entry_def by (intro logging)

end
