(* ===== verification/Migration_Proof.thy ===== *)
theory Migration_Proof
  imports Migration_Compare
begin

text \<open>
  What a prepared plan holds, and what the verification of a batch shows about its plans
  (\<open>native-client/src/directory_migration.rs\<close>).
\<close>

section \<open>Prepared plans\<close>

definition prepared :: "migration_plan \<Rightarrow> bool" where
  "prepared plan = (\<exists>fuel homes protected source destination w w'.
    prepare fuel homes protected source destination w = (Inr plan, w'))"

lemma rd_open_path:
  assumes "rd_open p w = (Inr rd, w')"
  shows "rd_path rd = p"
proof -
  from assms obtain h w1 where
    fold: "fold_then (\<lambda>name rd. and_then (check (normal_component name) ''not a standard path'') (\<lambda>_. child_directory rd name False))
      p \<lparr>rd_path = [], rd_chain = [h]\<rparr> w1 = (Inr rd, w')"
    by (auto simp: rd_open_def and_then_ok)
  have "chained (\<lambda>name rd rd'. rd_path rd' = rd_path rd @ [id name]) p \<lparr>rd_path = [], rd_chain = [h]\<rparr> rd"
    by (rule fold_then_chained [OF fold]) (auto simp: and_then_ok child_directory_def)
  from chained_collects [OF this] show ?thesis by simp
qed

lemma capture_result:
  assumes "capture source destination snapshot w = (Inr m, w')"
  shows "map re_entry (rm_entries m) = snapshot" and "rm_source m = source" and "rm_destination m = destination"
proof -
  from assms obtain entries w1 where fold: "fold_then (capture_entry source) snapshot [] w = (Inr entries, w1)"
    and m: "m = \<lparr>rm_source = source, rm_destination = destination, rm_entries = entries\<rparr>"
    by (auto simp: capture_def and_then_ok)
  have "chained (\<lambda>entry es es'. map re_entry es' = map re_entry es @ [id entry]) snapshot [] entries"
    by (rule fold_then_chained [OF fold]) (auto simp: capture_entry_def and_then_ok)
  from chained_collects [OF this] m
  show "map re_entry (rm_entries m) = snapshot" "rm_source m = source" "rm_destination m = destination" by simp_all
qed

definition plan_files :: "migration_plan \<Rightarrow> migration_entry list" where
  "plan_files plan = filter (\<lambda>e. \<not> en_directory e) (pl_entries plan)"

lemma prepared_plan:
  assumes "prepared plan"
  shows "map re_entry (rm_entries (pl_retained plan)) = pl_entries plan"
    and "rd_path (rm_source (pl_retained plan)) = pl_source plan"
    and "rd_path (rm_destination (pl_retained plan)) = pl_destination plan"
    and "pl_bytes plan = sum_list (map en_size (plan_files plan))"
    and "pl_files plan = of_nat (length (plan_files plan))"
proof -
  from assms obtain source destination entries retained s d w1 w2 w3 w4 w5 w6
    where plan: "plan = \<lparr>pl_source = source, pl_destination = destination, pl_entries = entries, pl_retained = retained,
        pl_bytes = sum_list (map en_size (filter (\<lambda>e. \<not> en_directory e) entries)),
        pl_files = of_nat (length (filter (\<lambda>e. \<not> en_directory e) entries))\<rparr>"
      and s: "rd_open source w1 = (Inr s, w2)" and d: "rd_open destination w3 = (Inr d, w4)"
      and retained: "capture s d entries w5 = (Inr retained, w6)"
    by (auto simp: prepared_def prepare_def and_then_ok)
  show "map re_entry (rm_entries (pl_retained plan)) = pl_entries plan"
    "rd_path (rm_source (pl_retained plan)) = pl_source plan"
    "rd_path (rm_destination (pl_retained plan)) = pl_destination plan"
    "pl_bytes plan = sum_list (map en_size (plan_files plan))"
    "pl_files plan = of_nat (length (plan_files plan))"
    using capture_result [OF retained] rd_open_path [OF s] rd_open_path [OF d] by (simp_all add: plan plan_files_def)
qed

section \<open>The verification of the source\<close>

lemma reads_verify_source_entry:
  "reads (\<lambda>fs v. \<exists>i. found_as fs (rm_source m) held i) (verify_source_entry m plan held u)"
  unfolding verify_source_entry_def
  by (rule reads_then [OF reads_map_error [OF reads_open_entry]])
    (auto intro!: reads_result reads_then [OF reads_map_error [OF reads_retained_stamp]])

definition source_verified :: "migration_plan \<Rightarrow> file_system \<Rightarrow> bool" where
  "source_verified plan fs =
    (let m = pl_retained plan in
     opened fs (rm_source m) \<and> opened fs (rm_destination m)
     \<and> scanned fs (pl_source plan) (pl_source plan) (set (pl_entries plan)))"

lemma reads_verify_source: "reads (\<lambda>fs u. source_verified plan fs) (verify_source fuel (pl_retained plan) plan)"
  unfolding verify_source_def source_verified_def Let_def
proof (rule reads_then [OF reads_rd_verify], rule reads_then [OF reads_rd_verify],
    rule reads_then [OF reads_fold [OF reads_verify_source_entry]], rule reads_then [OF reads_scan])
  fix u v w :: unit and current
  let ?Q = "\<lambda>fs b. scanned fs (pl_source plan) (pl_source plan) (set current) \<longrightarrow>
    chained (\<lambda>x s s'. \<exists>i. found_as fs (rm_source (pl_retained plan)) x i) (rm_entries (pl_retained plan)) () w \<longrightarrow>
    opened fs (rm_destination (pl_retained plan)) \<longrightarrow> opened fs (rm_source (pl_retained plan)) \<longrightarrow>
    opened fs (rm_source (pl_retained plan)) \<and> opened fs (rm_destination (pl_retained plan)) \<and>
    scanned fs (pl_source plan) (pl_source plan) (set (pl_entries plan))"
  show "reads ?Q (if current = pl_entries plan then result_is (Inr ())
      else case changed_entry (pl_entries plan) current of
        None \<Rightarrow> refuse_io ''panic''
      | Some changed \<Rightarrow> result_is (Inl (entry_error (pl_source plan) changed (other_error ''the directory has changed''))))"
    by (cases "current = pl_entries plan") (auto split: option.splits intro!: reads_result)
qed

section \<open>The verification of the copies\<close>

definition copy_verified :: "retained_migration \<Rightarrow> retained_entry \<Rightarrow> retained_entry \<Rightarrow> file_system \<Rightarrow> bool" where
  "copy_verified m source target fs =
    (\<exists>i j. found_as fs (rm_source m) source i \<and> found_as fs (rm_destination m) target j
      \<and> (\<not> en_directory (re_entry target) \<longrightarrow> sizes_fit fs \<longrightarrow> (\<exists>b. bytes_of fs i = Some b \<and> bytes_of fs j = Some b)))"

lemma reads_verify_copied_entry:
  "reads (\<lambda>fs v. copy_verified m (fst pair) (snd pair) fs) (verify_copied_entry m plan outputs pair u)"
  unfolding verify_copied_entry_def
proof (rule reads_map_error, rule reads_then [OF reads_open_entry], rule reads_then [OF reads_open_entry])
  fix x y :: "retained_directory \<times> inode"
  let ?Q = "\<lambda>fs v. found_as fs (rm_destination m) (snd pair) (snd y) \<longrightarrow>
    found_as fs (rm_source m) (fst pair) (snd x) \<longrightarrow> copy_verified m (fst pair) (snd pair) fs"
  show "reads ?Q (if en_directory (re_entry (snd pair)) then sync_all (snd y)
      else and_then (retained_equal (snd x) (snd y)) (\<lambda>same. check same ''the file changed during the migration''))"
  proof (cases "en_directory (re_entry (snd pair))")
    case True
    then show ?thesis by (auto intro!: reads_weaken [OF reads_sync_all] simp: copy_verified_def)
  next
    case False
    have "reads ?Q (and_then (retained_equal (snd x) (snd y)) (\<lambda>same. check same ''the file changed during the migration''))"
      by (rule reads_then [OF reads_retained_equal], rule reads_weaken [OF reads_check]) (auto simp: copy_verified_def)
    with False show ?thesis by simp
  qed
qed

definition plan_verified :: "migration_plan \<Rightarrow> retained_entry list \<Rightarrow> file_system \<Rightarrow> bool" where
  "plan_verified plan outputs fs =
    (let m = pl_retained plan in
     source_verified plan fs \<and> length outputs = length (rm_entries m)
     \<and> (\<forall>pair \<in> set (zip (rm_entries m) outputs). copy_verified m (fst pair) (snd pair) fs))"

lemma reads_verify_copy: "reads (\<lambda>fs u. plan_verified plan outputs fs) (verify_copy fuel plan outputs)"
  unfolding verify_copy_def Let_def
proof (rule reads_then [OF reads_verify_source], rule reads_then [OF reads_check],
    rule reads_then [OF reads_fold [OF reads_verify_copied_entry]], rule reads_then [OF reads_rd_verify],
    rule reads_then [OF reads_rd_verify], rule reads_weaken [OF reads_sync_all], intro impI)
  fix u fs
  assume "chained (\<lambda>x s s'. copy_verified (pl_retained plan) (fst x) (snd x) fs) (zip (rm_entries (pl_retained plan)) outputs) () u"
    and "length outputs = length (rm_entries (pl_retained plan))" and "source_verified plan fs"
  then show "plan_verified plan outputs fs"
    unfolding plan_verified_def Let_def by (intro conjI chained_all)
qed

lemma reads_verify_plan: "reads (\<lambda>fs v. plan_verified (fst pair) (snd pair) fs) (verify_plan fuel pair u)"
proof (rule readsI)
  fix w r w'
  assume w: "nobody_else w" and run: "verify_plan fuel pair u w = (r, w')"
  obtain x w1 where x: "verify_copy fuel (fst pair) (snd pair) w = (x, w1)" by fastforce
  from readsE [OF reads_verify_copy w x] run x
  show "nobody_else w' \<and> mw_fs w' = mw_fs w \<and> (\<forall>a. r = Inr a \<longrightarrow> plan_verified (fst pair) (snd pair) (mw_fs w))"
    by (cases x) (auto simp: verify_plan_def settle_with_def and_then_def change_report_def result_is_def nobody_else_def)
qed

lemma reads_verify_all: "reads (\<lambda>fs u. \<forall>pair \<in> set (zip plans copied). plan_verified (fst pair) (snd pair) fs) (verify_all fuel plans copied)"
  unfolding verify_all_def by (rule reads_weaken [OF reads_fold [OF reads_verify_plan]]) (rule chained_all)

section \<open>What a verified plan means\<close>

definition file_at :: "file_system \<Rightarrow> path \<Rightarrow> 8 word list option" where
  "file_at fs p = (case walk fs (fs_root fs) p of Inl _ \<Rightarrow> None | Inr i \<Rightarrow> bytes_of fs i)"

definition folder_at :: "file_system \<Rightarrow> path \<Rightarrow> bool" where
  "folder_at fs p = (case walk fs (fs_root fs) p of Inl _ \<Rightarrow> False | Inr i \<Rightarrow> (case fs_nodes fs i of None \<Rightarrow> False | Some n \<Rightarrow> is_folder n))"

lemma walk_below: "opened fs rd \<Longrightarrow> walk fs (fs_root fs) (rd_path rd @ q) = walk fs (rd_handle rd) q"
  by (simp add: opened_def walk_append)

lemma verified_entry:
  assumes plan: "prepared plan" and outputs: "map re_entry outputs = map re_entry (rm_entries (pl_retained plan))"
    and verified: "plan_verified plan outputs fs"
    and walk: "walk fs (fs_root fs) (pl_source plan @ q) = Inr i" and "q \<noteq> []"
  obtains j directory where "walk fs (fs_root fs) (pl_destination plan @ q) = Inr j"
    and "of_kind fs i directory" and "of_kind fs j directory"
    and "\<not> directory \<Longrightarrow> sizes_fit fs \<Longrightarrow> \<exists>b. bytes_of fs i = Some b \<and> bytes_of fs j = Some b"
proof -
  let ?m = "pl_retained plan"
  have src: "opened fs (rm_source ?m)" and dst: "opened fs (rm_destination ?m)"
    and all: "scanned fs (pl_source plan) (pl_source plan) (set (pl_entries plan))"
    using verified by (simp_all add: plan_verified_def source_verified_def Let_def)
  from all walk \<open>q \<noteq> []\<close> obtain e where e: "e \<in> set (pl_entries plan)" "en_relative e = q"
    by (auto simp: scanned_def)
  then obtain k where k: "k < length (pl_entries plan)" "pl_entries plan ! k = e" by (auto simp: in_set_conv_nth)
  define held where "held = rm_entries ?m ! k"
  define target where "target = outputs ! k"
  have lengths: "length (rm_entries ?m) = length (pl_entries plan)" "length outputs = length (pl_entries plan)"
    using prepared_plan(1) [OF plan] outputs by (auto dest: arg_cong [of _ _ length])
  have same: "re_entry held = e" "re_entry target = e"
    using prepared_plan(1) [OF plan] outputs k lengths unfolding held_def target_def by (metis nth_map)+
  have "(held, target) \<in> set (zip (rm_entries ?m) outputs)"
    using k lengths by (auto simp: held_def target_def in_set_zip intro!: exI [of _ k])
  with verified obtain i' j where found: "found_as fs (rm_source ?m) held i'" "found_as fs (rm_destination ?m) target j"
    and equal: "\<not> en_directory e \<Longrightarrow> sizes_fit fs \<Longrightarrow> \<exists>b. bytes_of fs i' = Some b \<and> bytes_of fs j = Some b"
    using same by (fastforce simp: plan_verified_def copy_verified_def Let_def)
  have "walk fs (fs_root fs) (pl_source plan @ q) = Inr i'" "of_kind fs i' (en_directory e)"
    "walk fs (fs_root fs) (pl_destination plan @ q) = Inr j" "of_kind fs j (en_directory e)"
    using found same e \<open>q \<noteq> []\<close> walk_below [OF src] walk_below [OF dst] prepared_plan(2,3) [OF plan]
    by (auto simp: found_as_def)
  with walk equal that show thesis by auto
qed

lemma of_kind_unique: "of_kind fs i d \<Longrightarrow> node_at fs i = Inr n \<Longrightarrow> is_folder n = d"
  by (auto simp: of_kind_def)

lemma node_at_nodes: "node_at fs i = Inr n \<longleftrightarrow> fs_nodes fs i = Some n"
  by (auto simp: node_at_def split: option.splits)

lemma regular_not_folder: "bytes_of fs i = Some b \<Longrightarrow> of_kind fs i d \<Longrightarrow> \<not> d"
  by (auto simp: of_kind_def bytes_of_def node_at_nodes is_folder_def split: option.splits node_content.splits)

definition tree_copied :: "file_system \<Rightarrow> path \<Rightarrow> path \<Rightarrow> bool" where
  "tree_copied fs source destination =
    (\<forall>q. q \<noteq> [] \<longrightarrow> (folder_at fs (source @ q) \<longrightarrow> folder_at fs (destination @ q))
      \<and> (\<forall>b. file_at fs (source @ q) = Some b \<longrightarrow> file_at fs (destination @ q) = Some b))"

lemma verified_plan_copied:
  assumes "prepared plan" and "map re_entry outputs = map re_entry (rm_entries (pl_retained plan))"
    and "plan_verified plan outputs fs" and "sizes_fit fs"
  shows "tree_copied fs (pl_source plan) (pl_destination plan)"
  unfolding tree_copied_def
proof (intro allI impI conjI)
  fix q :: path
  assume q: "q \<noteq> []" and "folder_at fs (pl_source plan @ q)"
  then obtain i n where i: "walk fs (fs_root fs) (pl_source plan @ q) = Inr i" "fs_nodes fs i = Some n" "is_folder n"
    by (auto simp: folder_at_def split: sum.splits option.splits)
  from verified_entry [OF assms(1-3) i(1) q] obtain j d where
    "walk fs (fs_root fs) (pl_destination plan @ q) = Inr j" "of_kind fs i d" "of_kind fs j d" by metis
  with i show "folder_at fs (pl_destination plan @ q)"
    by (auto simp: folder_at_def of_kind_def node_at_nodes)
next
  fix q :: path and b
  assume q: "q \<noteq> []" and "file_at fs (pl_source plan @ q) = Some b"
  then obtain i where i: "walk fs (fs_root fs) (pl_source plan @ q) = Inr i" "bytes_of fs i = Some b"
    by (auto simp: file_at_def split: sum.splits)
  from verified_entry [OF assms(1-3) i(1) q] obtain j d where
    j: "walk fs (fs_root fs) (pl_destination plan @ q) = Inr j" "of_kind fs i d"
      "\<not> d \<Longrightarrow> sizes_fit fs \<Longrightarrow> \<exists>b. bytes_of fs i = Some b \<and> bytes_of fs j = Some b" by metis
  with i assms(4) regular_not_folder show "file_at fs (pl_destination plan @ q) = Some b"
    by (fastforce simp: file_at_def)
qed

end
