(* ===== verification/Migration_Safety.thy ===== *)
theory Migration_Safety
  imports Migration_Log Migration_Proof
begin

text \<open>
  What a migration may do to files (\<open>native-client/src/directory_migration.rs\<close>): what an entry of its log
  needs before it, programs that go on lawfully, the check before a rename, and the parts of a run.
\<close>

section \<open>Lawful logs\<close>

text \<open>
  An entry is entitled by what came before it: only a file that this run created is written, and no
  progress is reported beyond the whole. A name is renamed only when this run created a file under
  it, the name was opened again after that and was still that very file, and since then the program
  has only looked at files.
\<close>

definition entitled :: "migration_event list \<Rightarrow> migration_event \<Rightarrow> bool" where
  "entitled seen e =
    (case e of
       WroteTo i bytes \<Rightarrow> \<exists>d name. CreatedFile d name i \<in> set seen
     | Renamed d temporary name \<Rightarrow> \<exists>before i after. seen = before @ Opened d temporary i # after
         \<and> CreatedFile d temporary i \<in> set before \<and> set after \<subseteq> {Looked}
     | Progressed completed whole \<Rightarrow> completed \<le> whole
     | CommitCalled r \<Rightarrow> False
     | _ \<Rightarrow> True)"

fun lawful_after :: "migration_event list \<Rightarrow> migration_event list \<Rightarrow> bool" where
  "lawful_after seen [] = True"
| "lawful_after seen (e # es) = (entitled seen e \<and> lawful_after (seen @ [e]) es)"

abbreviation lawful :: "migration_event list \<Rightarrow> bool" where
  "lawful \<equiv> lawful_after []"

text \<open>More events in front take no entitlement away.\<close>

lemma entitled_before: "entitled seen e \<Longrightarrow> entitled (xs @ seen) e"
proof (cases e)
  case (Renamed d t n)
  assume "entitled seen e"
  with Renamed obtain before i after where
    "seen = before @ Opened d t i # after" "CreatedFile d t i \<in> set before" "set after \<subseteq> {Looked}"
    by (auto simp: entitled_def)
  then have "xs @ seen = (xs @ before) @ Opened d t i # after \<and> CreatedFile d t i \<in> set (xs @ before) \<and> set after \<subseteq> {Looked}"
    by simp
  with Renamed show ?thesis unfolding entitled_def by (simp only: migration_event.case) blast
qed (auto simp: entitled_def)

lemma lawful_before: "lawful_after seen es \<Longrightarrow> lawful_after (xs @ seen) es"
  by (induction es arbitrary: seen) (auto intro: entitled_before)

lemma lawful_append: "lawful_after seen (xs @ ys) \<longleftrightarrow> lawful_after seen xs \<and> lawful_after (seen @ xs) ys"
  by (induction xs arbitrary: seen) simp_all

interpretation lawful: trace_property mw_log lawful
proof unfold_locales
  show "lawful xs \<Longrightarrow> lawful ys \<Longrightarrow> lawful (xs @ ys)" for xs ys
    using lawful_before [of "[]" ys xs] by (simp add: lawful_append)
qed simp

text \<open>Every event but a rename is entitled by the set of the events before it.\<close>

definition granted :: "migration_event list \<Rightarrow> migration_event \<Rightarrow> bool" where
  "granted seen e = (entitled seen e \<and> (\<forall>d temporary name. e \<noteq> Renamed d temporary name))"

lemma granted_mono: "granted seen e \<Longrightarrow> set seen \<subseteq> set seen' \<Longrightarrow> granted seen' e"
  unfolding granted_def entitled_def by (cases e) (simp_all, blast+)

lemma lawful_granted: "list_all (granted seen) es \<Longrightarrow> lawful_after seen es"
proof (induction es arbitrary: seen)
  case (Cons e es)
  then have "list_all (granted (seen @ [e])) es" by (auto simp: list_all_iff intro: granted_mono)
  then have "lawful_after (seen @ [e]) es" by (rule Cons.IH)
  moreover have "entitled seen e" using Cons.prems by (simp add: granted_def)
  ultimately show ?case by simp
qed simp

lemma granted_looked [simp]: "looked e \<Longrightarrow> granted seen e" "granted seen (MadeFolder i name j)" "granted seen (CreatedFile i name j)"
  by (auto simp: granted_def entitled_def looked_def split: migration_event.splits)

lemma looks_granted: "looks p \<Longrightarrow> calls (granted seen) p"
  by (erule logs_mono) simp

lemma looks_lawful: "looks p \<Longrightarrow> lawful.leaves p"
  by (rule lawful.leaves_logs [of _ "granted []"]) (auto intro: looks_granted lawful_granted)

section \<open>Programs that go on lawfully\<close>

text \<open>What the program adds to the log is lawful after what came before it.\<close>

definition lawful_from :: "migration_event list \<Rightarrow> 'a migration \<Rightarrow> bool" where
  "lawful_from seen p = (\<forall>w r w'. p w = (r, w') \<longrightarrow> (\<exists>es. mw_log w' = mw_log w @ es \<and> lawful_after seen es))"

lemma lawful_from_granted: "calls (granted seen) p \<Longrightarrow> lawful_from seen p"
  unfolding lawful_from_def by (auto elim!: logsE intro: lawful_granted)

lemma lawful_from_nothing: "lawful_from [] p \<Longrightarrow> lawful.leaves p"
  by (rule lawful.leavesI) (simp add: lawful_from_def)

lemma lawful_from_result: "lawful_from seen (result_is r)"
  by (rule lawful_from_granted) (rule logs_result_is)

text \<open>After a part that only does what is always granted, the rest knows what that part left.\<close>

lemma lawful_from_then:
  assumes p: "calls (granted seen) p"
    and f: "\<And>a w w' es. p w = (Inr a, w') \<Longrightarrow> mw_log w' = mw_log w @ es \<Longrightarrow> lawful_from (seen @ es) (f a)"
  shows "lawful_from seen (and_then p f)"
  unfolding lawful_from_def
proof (intro allI impI)
  fix w r w'
  assume run: "and_then p f w = (r, w')"
  obtain x w1 where x: "p w = (x, w1)" by (cases "p w")
  obtain es where es: "mw_log w1 = mw_log w @ es" "list_all (granted seen) es" using logsE [OF p x] by blast
  show "\<exists>es. mw_log w' = mw_log w @ es \<and> lawful_after seen es"
  proof (cases x)
    case (Inl e)
    with run x es lawful_granted show ?thesis by (auto simp: and_then_def)
  next
    case (Inr a)
    with run x have "f a w1 = (r, w')" by (simp add: and_then_def)
    with f [OF x [unfolded Inr] es(1)] obtain es' where "mw_log w' = mw_log w1 @ es'" "lawful_after (seen @ es) es'"
      unfolding lawful_from_def by blast
    with es lawful_granted show ?thesis by (auto simp: lawful_append)
  qed
qed

text \<open>After a lawful part, something that is granted from the outset goes on lawfully.\<close>

lemma lawful_from_and_then:
  assumes p: "lawful_from seen p" and f: "\<And>a es. lawful_from (seen @ es) (f a)"
  shows "lawful_from seen (and_then p f)"
  unfolding lawful_from_def
proof (intro allI impI)
  fix w r w'
  assume run: "and_then p f w = (r, w')"
  obtain x w1 where x: "p w = (x, w1)" by (cases "p w")
  with p obtain es where es: "mw_log w1 = mw_log w @ es" "lawful_after seen es"
    unfolding lawful_from_def by blast
  show "\<exists>es. mw_log w' = mw_log w @ es \<and> lawful_after seen es"
  proof (cases x)
    case (Inl e)
    with run x es show ?thesis by (auto simp: and_then_def)
  next
    case (Inr a)
    with run x have "f a w1 = (r, w')" by (simp add: and_then_def)
    with f [of es a] obtain es' where "mw_log w' = mw_log w1 @ es'" "lawful_after (seen @ es) es'"
      unfolding lawful_from_def by blast
    with es show ?thesis by (auto simp: lawful_append)
  qed
qed

section \<open>Copying one entry\<close>

lemma calls_write_all: "P Looked \<Longrightarrow> (\<And>b. P (WroteTo i b)) \<Longrightarrow> calls P (write_all i offset bytes)"
  unfolding write_all_def by (rule calls_call_through) (auto simp: Let_def split: option.splits node_content.splits)

lemma calls_rename: "P Looked \<Longrightarrow> P (Renamed i temporary name) \<Longrightarrow> calls P (rename_at i temporary name)"
  unfolding rename_at_def by (rule calls_call) (auto simp: Let_def split: option.splits node_content.splits)

lemma calls_progress: "P Looked \<Longrightarrow> P (Progressed c t) \<Longrightarrow> calls P (progress c t)"
  unfolding progress_def by (rule calls_call) auto

lemma calls_report_progress: "calls (granted seen) (report_progress plan completed whole finished)"
  unfolding report_progress_def by (rule calls_progress) (simp_all add: granted_def entitled_def)

lemma calls_copy_bytes_run:
  assumes into: "\<And>bytes. granted seen (WroteTo target bytes)"
    and "copy_bytes plan completed whole file_size input target offset finished w = (r, w')"
  shows "(mw_views w', mw_report w') = (mw_views w, mw_report w) \<and>
    (\<exists>es. mw_log w' = mw_log w @ es \<and> list_all (granted seen) es)"
  using assms(2) into
proof (induction plan completed whole file_size input target offset finished w arbitrary: r w' rule: copy_bytes.induct)
  case (1 plan completed whole file_size input target offset finished w)
  obtain x w1 where read: "read_at input 131072 offset w = (x, w1)" by fastforce
  from logsE [OF looks_granted [OF looks_system(4)] read, of seen] obtain es where
    es: "(mw_views w1, mw_report w1) = (mw_views w, mw_report w)" "mw_log w1 = mw_log w @ es" "list_all (granted seen) es" .
  show ?case
  proof (cases "\<exists>bytes. x = Inr bytes \<and> bytes \<noteq> []")
    case False
    with "1.prems" read es show ?thesis by (subst (asm) copy_bytes.simps) (auto split: sum.splits if_splits)
  next
    case True
    then obtain bytes where x: "x = Inr bytes" "bytes \<noteq> []" by blast
    obtain y w2 where write_bytes: "write_all target offset bytes w1 = (y, w2)" by fastforce
    have "calls (granted seen) (write_all target offset bytes)" by (rule calls_write_all) (simp_all add: "1.prems")
    from logsE [OF this write_bytes] obtain es2 where
      es2: "(mw_views w2, mw_report w2) = (mw_views w1, mw_report w1)" "mw_log w2 = mw_log w1 @ es2" "list_all (granted seen) es2" .
    show ?thesis
    proof (cases y)
      case (Inl e)
      with "1.prems" read x write_bytes es es2 show ?thesis by (subst (asm) copy_bytes.simps) auto
    next
      case y: (Inr u)
      obtain z w3 where report: "report_progress plan completed whole (finished + of_nat (length bytes)) w2 = (z, w3)" by fastforce
      from logsE [OF calls_report_progress report, of seen] obtain es3 where
        es3: "(mw_views w3, mw_report w3) = (mw_views w2, mw_report w2)" "mw_log w3 = mw_log w2 @ es3" "list_all (granted seen) es3" .
      show ?thesis
      proof (cases "(\<exists>u. z = Inr u) \<and> offset + length bytes \<le> unat file_size")
        case False
        with "1.prems" read x write_bytes y report es es2 es3 show ?thesis
          by (subst (asm) copy_bytes.simps) (auto split: sum.splits if_splits)
      next
        case on: True
        then obtain u' where z: "z = Inr u'" by blast
        with on "1.prems"(1) read x write_bytes y report
        have "copy_bytes plan completed whole file_size input target (offset + length bytes)
            (finished + of_nat (length bytes)) w3 = (r, w')"
          by (subst (asm) copy_bytes.simps) simp
        from "1.IH" [OF read [symmetric] x(1) x(2) write_bytes [symmetric] y report [symmetric] z _ this "1.prems"(2)] on es es2 es3
        show ?thesis by auto
      qed
    qed
  qed
qed

lemma calls_copy_bytes:
  "(\<And>bytes. granted seen (WroteTo target bytes)) \<Longrightarrow>
    calls (granted seen) (copy_bytes plan completed whole file_size input target offset finished)"
  by (rule logsI) (rule calls_copy_bytes_run)

lemma calls_copy_content:
  assumes "\<And>bytes. en_directory (re_entry source) \<or> granted seen (WroteTo target bytes)"
  shows "calls (granted seen) (copy_content plan completed whole source input target finished)"
proof (cases "en_directory (re_entry source)")
  case True
  then show ?thesis by (simp add: copy_content_def logs_result_is)
next
  case False
  with assms have "granted seen (WroteTo target bytes)" for bytes by blast
  then show ?thesis
    unfolding copy_content_def using False
    by (auto intro!: logging looks_granted [OF looks_retained_equal] looks_granted [OF looks_checked(3)]
        looks_granted [OF looks_system(5)] calls_copy_bytes)
qed

section \<open>Renaming\<close>

lemma looks_log:
  assumes "looks p" and "p w = (r, w')"
  shows "\<exists>es. mw_log w' = mw_log w @ es"
  using logsE [OF assms] by blast

lemma only_looked:
  assumes "calls ((=) Looked) p" and "p w = (r, w')"
  shows "\<exists>es. mw_log w' = mw_log w @ es \<and> set es \<subseteq> {Looked}"
proof (rule logsE [OF assms])
  fix es assume "mw_log w' = mw_log w @ es" "list_all ((=) Looked) es"
  then show ?thesis by (auto simp: list_all_iff)
qed

text \<open>Opening an existing file of a name: the last thing in the log but for looks.\<close>

lemma child_opened:
  assumes "child rd name False False w = (Inr i, w')"
  shows "\<exists>after. mw_log w' = mw_log w @ Opened (rd_handle rd) name i # after \<and> set after \<subseteq> {Looked}"
proof -
  let ?rest = "and_then (file_metadata_of i) (\<lambda>n. and_then (check (is_folder n = False) ''replaced by a link or a special file'')
      (\<lambda>_. and_then (verify_regular i) (\<lambda>_. result_is (Inr i))))"
  from assms obtain w1 where found: "open_at (rd_handle rd) name False w = (Inr i, w1)" and rest: "?rest w1 = (Inr i, w')"
    by (auto simp: child_def and_then_ok)
  from found have "mw_log w1 = mw_log w @ [Opened (rd_handle rd) name i]"
    by (auto simp: open_at_def call_def Let_def split: option.splits sum.splits)
  moreover have "calls ((=) Looked) ?rest"
    by (intro logging calls_metadata calls_verify_regular refl)
  then obtain after where "mw_log w' = mw_log w1 @ after" "set after \<subseteq> {Looked}" 
    using only_looked [of ?rest w1 "Inr i" w'] rest by blast
  ultimately show ?thesis by auto
qed

lemma rename_logs:
  assumes "rename_at d temporary name w = (r, w')"
  shows "\<exists>e. mw_log w' = mw_log w @ [e] \<and> (e = Looked \<or> e = Renamed d temporary name)"
  using assms unfolding rename_at_def call_def Let_def
  by (auto split: option.splits node_content.splits if_splits)

lemma lawful_rename:
  assumes "seen = before @ Opened d temporary i # after" "CreatedFile d temporary i \<in> set before" "set after \<subseteq> {Looked}"
  shows "lawful_from seen (rename_at d temporary name)"
proof -
  have "entitled seen (Renamed d temporary name)" "entitled seen Looked"
    using assms by (auto simp: entitled_def)
  then show ?thesis
    unfolding lawful_from_def using rename_logs by fastforce
qed

text \<open>The rest of \<open>replace_file\<close>, after the temporary name has been opened again.\<close>

lemma lawful_replace_checked:
  assumes seen: "seen = before @ Opened (rd_handle rd) staged i # after" "set after \<subseteq> {Looked}"
    and created: "CreatedFile (rd_handle rd) staged target \<in> set before"
  shows "lawful_from seen
    (and_then (identity i) (\<lambda>a. and_then (identity target) (\<lambda>b.
     and_then (check (a = b) ''the identity of the temporary file has changed'') (\<lambda>_.
     rename_at (rd_handle rd) staged name))))"
proof (rule lawful_from_then [OF looks_granted [OF looks_checked(1)]], goal_cases)
  case (1 a w w' es1)
  have same: "identity k u = (Inr b, v) \<Longrightarrow> b = k" for k u b v by (auto simp: identity_def and_then_ok result_is_def)
  have only: "set es \<subseteq> {Looked}" if "identity k u = (x, v)" "mw_log v = mw_log u @ es" for k u x v es
    using that only_looked [OF calls_identity [OF refl] that(1)] by auto
  show ?case
  proof (rule lawful_from_then [OF looks_granted [OF looks_checked(1)]], goal_cases)
    case (1 b u u' es2)
    note second = this
    show ?case
    proof (cases "a = b")
      case True
      then have "i = target" using same \<open>identity i w = (Inr a, w')\<close> second(1) by blast
      moreover have "set (after @ es1 @ es2) \<subseteq> {Looked}"
        using seen(2) only [OF \<open>identity i w = (Inr a, w')\<close> \<open>mw_log w' = mw_log w @ es1\<close>] only [OF second] by auto
      moreover have "(seen @ es1) @ es2 = before @ Opened (rd_handle rd) staged i # (after @ es1 @ es2)"
        using seen(1) by simp
      ultimately have "lawful_from ((seen @ es1) @ es2) (rename_at (rd_handle rd) staged name)"
        using created by (metis lawful_rename)
      with True show ?thesis by (simp add: ensure_def result_is_then)
    next
      case False
      then have "and_then (check (a = b) ''the identity of the temporary file has changed'')
          (\<lambda>_. rename_at (rd_handle rd) staged name) = refuse_io ''the identity of the temporary file has changed''"
        by (simp add: ensure_def and_then_def result_is_def fun_eq_iff)
      then show ?thesis by (simp add: lawful_from_result)
    qed
  qed
qed

lemma lawful_replace_file:
  assumes "CreatedFile (rd_handle rd) staged target \<in> set seen"
  shows "lawful_from seen (replace_file rd staged name target)"
  unfolding replace_file_def
proof (rule lawful_from_then [OF looks_granted [OF looks_rd_verify]],
    rule lawful_from_then [OF looks_granted [OF looks_checked(2)]],
    rule lawful_from_then [OF looks_granted [OF looks_child]], goal_cases)
  case (1 a w w' es1 b u u' es2 i v v' es3)
  from child_opened [OF 1(5)] 1(6) obtain after where
    es3: "es3 = Opened (rd_handle rd) staged i # after" "set after \<subseteq> {Looked}" by auto
  show ?case
    by (rule lawful_replace_checked [of _ "seen @ es1 @ es2" _ _ _ after]) (use es3 assms in simp_all)
qed

lemma lawful_install:
  assumes "\<And>staged. temporary = Some staged \<Longrightarrow> CreatedFile (rd_handle rd) staged target \<in> set seen"
  shows "lawful_from seen (install rd name temporary previous target)"
proof (cases temporary)
  case None
  then show ?thesis by (simp add: install_def lawful_from_result)
next
  case (Some staged)
  with assms have created: "CreatedFile (rd_handle rd) staged target \<in> set seen" by simp
  then have replace: "lawful_from (seen @ es) (replace_file rd staged name target)" for es
    by (simp add: lawful_replace_file)
  show ?thesis
    unfolding install_def Some option.case
  proof (rule lawful_from_then, goal_cases)
    case 1
    show ?case by (intro looks_granted logging)
  next
    case (2 a w w' es)
    show ?case by (rule lawful_from_then [OF looks_granted]) (auto intro: logging simp: created lawful_replace_file)
  qed
qed

section \<open>Creating the file to write\<close>

lemma calls_create: "calls (granted seen) (child rd name directory True)"
proof -
  have "calls (granted seen) (make_dir_at i name)" "calls (granted seen) (create_at i name)" for i
    unfolding make_dir_at_def create_at_def by (rule calls_call, simp, simp split: prod.splits sum.splits)+
  then show ?thesis
    unfolding child_def
    by (auto intro!: logging looks_granted [OF looks_system(2)] looks_granted [OF looks_checked(2)]
        looks_granted [OF looks_system(3)])
qed

lemma child_created:
  assumes "child rd name False True w = (Inr i, w')"
  shows "\<exists>es. mw_log w' = mw_log w @ es \<and> CreatedFile (rd_handle rd) name i \<in> set es"
proof -
  from assms obtain w1 where created: "create_at (rd_handle rd) name w = (Inr i, w1)"
    and rest: "and_then (file_metadata_of i) (\<lambda>n. and_then (check (is_folder n = False) ''replaced by a link or a special file'')
      (\<lambda>_. and_then (verify_regular i) (\<lambda>_. result_is (Inr i)))) w1 = (Inr i, w')"
    by (auto simp: child_def and_then_ok)
  from created have "mw_log w1 = mw_log w @ [CreatedFile (rd_handle rd) name i]"
    by (auto simp: create_at_def call_def Let_def split: option.splits prod.splits sum.splits)
  moreover have "looks (and_then (file_metadata_of i) (\<lambda>n. and_then (check (is_folder n = False) ''replaced by a link or a special file'')
      (\<lambda>_. and_then (verify_regular i) (\<lambda>_. result_is (Inr i)))))"
    by (intro logging)
  ultimately show ?thesis using looks_log rest by fastforce
qed

lemma calls_staging_file: "calls (granted seen) (staging_file fuel rd)"
proof (induction fuel)
  case 0
  then show ?case by (simp add: logs_result_is)
next
  case (Suc fuel)
  then show ?case
    by (auto intro!: logging looks_granted [OF looks_staging_name] calls_create split: sum.split)
qed

lemma staged_created:
  assumes "staging_file fuel rd w = (Inr (staged, i), w')"
  shows "\<exists>es. mw_log w' = mw_log w @ es \<and> CreatedFile (rd_handle rd) staged i \<in> set es"
  using assms
proof (induction fuel arbitrary: w)
  case 0
  then show ?case by simp
next
  case (Suc fuel)
  define name where "name = mv_staging_name (mw_views w (mw_clock w))"
  obtain x w1 where x: "child rd name False True w = (x, w1)" by fastforce
  show ?case
  proof (cases x)
    case (Inr j)
    with Suc.prems x show ?thesis using child_created [of rd name w j w1]
      by (simp add: and_then_def staging_name_def settle_with_def name_def)
  next
    case (Inl e)
    with Suc.prems x have "staging_file fuel rd w1 = (Inr (staged, i), w')"
      by (simp add: and_then_def staging_name_def settle_with_def name_def split: if_splits)
    from Suc.IH [OF this] obtain es where "mw_log w' = mw_log w1 @ es" "CreatedFile (rd_handle rd) staged i \<in> set es" by blast
    moreover obtain es' where "mw_log w1 = mw_log w @ es'" using logsE [OF calls_create x] by blast
    ultimately show ?thesis by auto
  qed
qed

lemma calls_open_output: "calls (granted seen) (open_output fuel rd name directory existing)"
  unfolding open_output_def
  by (auto intro!: logging calls_create calls_staging_file split: option.split)

lemma open_output_created:
  assumes "open_output fuel rd name directory existing w = (Inr created, w')" and "mw_log w' = mw_log w @ es"
  shows "if directory then fst created = None
    else \<exists>staged. fst created = Some staged \<and> CreatedFile (rd_handle rd) staged (snd created) \<in> set es"
proof (cases directory)
  case True
  with assms show ?thesis by (auto simp: open_output_def and_then_ok)
next
  case False
  with assms(1) obtain staged i where "staging_file fuel rd w = (Inr (staged, i), w')" "created = (Some staged, i)"
    by (auto simp: open_output_def and_then_ok)
  with staged_created [of fuel rd w staged i w'] assms(2) False show ?thesis by auto
qed

section \<open>The parts of a run\<close>

definition copy_after_opening ::
  "migration_plan \<Rightarrow> u64 \<Rightarrow> u64 \<Rightarrow> retained_entry \<Rightarrow> u64 \<Rightarrow> inode \<Rightarrow> retained_directory \<Rightarrow> (inode \<times> file_stamp) option \<Rightarrow>
    string option \<times> inode \<Rightarrow> (retained_entry \<times> u64) migration" where
  "copy_after_opening plan completed whole source finished input rd previous created =
    and_then (copy_content plan completed whole source input (snd created) finished) (\<lambda>finished'.
    and_then (install rd (last (en_relative (re_entry source))) (fst created) previous (snd created)) (\<lambda>_.
    and_then (copied_entry rd source (snd created)) (\<lambda>copy. result_is (Inr (copy, finished')))))"

lemma copy_entry_parts:
  "copy_entry fuel m plan completed whole outputs source finished =
    and_then (open_entry (rm_source m) (rm_entries m) source) (\<lambda>opened.
    and_then (parent (rm_destination m) outputs (en_relative (re_entry source))) (\<lambda>rd.
    and_then (rd_verify rd) (\<lambda>_.
    and_then (optional (child rd (last (en_relative (re_entry source))) (en_directory (re_entry source)) False)) (\<lambda>existing.
    and_then (state_of_optional existing) (\<lambda>previous.
    and_then (open_output fuel rd (last (en_relative (re_entry source))) (en_directory (re_entry source)) existing)
      (copy_after_opening plan completed whole source finished (snd opened) rd previous))))))"
  by (simp add: copy_entry_def copy_after_opening_def [abs_def] Let_def)

definition created_for :: "retained_directory \<Rightarrow> bool \<Rightarrow> string option \<times> inode \<Rightarrow> migration_event list \<Rightarrow> bool" where
  "created_for rd directory created seen =
    (if directory then fst created = None
     else \<exists>staged. fst created = Some staged \<and> CreatedFile (rd_handle rd) staged (snd created) \<in> set seen)"

lemma calls_content_created:
  assumes "created_for rd (en_directory (re_entry source)) created seen"
  shows "calls (granted seen) (copy_content plan completed whole source input (snd created) finished)"
  using assms by (intro calls_copy_content) (auto simp: granted_def entitled_def created_for_def split: if_splits)

lemma lawful_copy_after_opening:
  assumes "created_for rd (en_directory (re_entry source)) created seen"
  shows "lawful_from seen (copy_after_opening plan completed whole source finished input rd previous created)"
  unfolding copy_after_opening_def
proof (rule lawful_from_then [OF calls_content_created [OF assms]])
  fix es and finished' :: u64
  have "lawful_from (seen @ es) (install rd (last (en_relative (re_entry source))) (fst created) previous (snd created))"
    using assms by (intro lawful_install) (auto simp: created_for_def split: if_splits)
  then show "lawful_from (seen @ es) (and_then (install rd (last (en_relative (re_entry source))) (fst created) previous (snd created))
      (\<lambda>_. and_then (copied_entry rd source (snd created)) (\<lambda>copy. result_is (Inr (copy, finished')))))"
    by (rule lawful_from_and_then) (intro lawful_from_granted looks_granted logging)
qed

lemma open_output_created_for:
  assumes "open_output fuel rd name directory existing w = (Inr created, w')" and "mw_log w' = mw_log w @ es"
  shows "created_for rd directory created es"
  using open_output_created [OF assms] by (simp add: created_for_def)

lemma lawful_copy_entry: "lawful.leaves (copy_entry fuel m plan completed whole outputs source finished)"
  unfolding copy_entry_parts
  by (rule lawful.leaves_and_then [OF looks_lawful [OF looks_open_entry]],
      rule lawful.leaves_and_then [OF looks_lawful [OF looks_parent]],
      rule lawful.leaves_and_then [OF looks_lawful [OF looks_rd_verify]],
      rule lawful.leaves_and_then [OF looks_lawful [OF calls_optional [OF looks_child]]],
      rule lawful.leaves_and_then [OF looks_lawful [OF looks_state_of(2)]])
    (rule lawful_from_nothing, rule lawful_from_then [OF calls_open_output],
      simp, rule lawful_copy_after_opening, erule (1) open_output_created_for)

lemma lawful_change_report: "lawful.leaves (change_report f)"
  by (rule lawful.leavesI) (auto simp: change_report_def)

lemma lawful_copy_next: "lawful.leaves (copy_next fuel m plan completed whole source state)"
  unfolding copy_next_def
  by (rule lawful.leaves_settle_with [OF lawful_copy_entry])
    (auto intro!: lawful.leaves_and_then lawful_change_report lawful.leaves_result_is split: sum.split)

lemma lawful_copy_files: "lawful.leaves (copy_files fuel plan completed whole)"
  unfolding copy_files_def Let_def
  by (intro lawful.leaves_and_then lawful.leaves_fold_then lawful_copy_next lawful.leaves_result_is
      looks_lawful [OF looks_verify_source] looks_lawful [OF looks_check_targets])

lemma lawful_copy_plan: "lawful.leaves (copy_plan fuel whole plan state)"
  unfolding copy_plan_def
  by (intro lawful.leaves_and_then lawful.leaves_map_error lawful_copy_files)
    (auto intro!: lawful.leaves_result_is split: option.split)

lemma lawful_verify_plan: "lawful.leaves (verify_plan fuel pair u)"
  unfolding verify_plan_def
  by (rule lawful.leaves_settle_with [OF looks_lawful [OF looks_verify_copy]])
    (auto intro!: lawful.leaves_and_then lawful_change_report lawful.leaves_result_is split: sum.split)

lemma lawful_verify_all: "lawful.leaves (verify_all fuel plans copies)"
  unfolding verify_all_def by (intro lawful.leaves_fold_then lawful_verify_plan)

lemma lawful_progress: "lawful.leaves (progress 0 whole)"
  by (rule lawful.leaves_logs [of _ "granted []"])
    (auto intro!: calls_progress lawful_granted simp: granted_def entitled_def)

end
