(* ===== verification/Migration_Report.thy ===== *)
theory Migration_Report
  imports Migration_Safety
begin

text \<open>
  The counts of the report of a migration (\<open>native-client/src/directory_migration.rs\<close>,
  \<open>native-client/src/directory_migration/report.rs\<close>).
\<close>

section \<open>The loops of the batch are the only ones to count\<close>

lemma report_kept: "calls P p \<Longrightarrow> p w = (r, w') \<Longrightarrow> mw_report w' = mw_report w"
  by (auto elim: logsE)

lemma looks_calls: "looks p \<Longrightarrow> calls (\<lambda>e. True) p"
  by (erule logs_mono) simp

lemma open_output_calls: "calls (\<lambda>e. True) (open_output fuel rd name directory existing)"
  by (rule logs_mono [OF calls_open_output [of "[]"]]) simp

lemma copy_content_calls: "calls (\<lambda>e. True) (copy_content plan completed whole source input target finished)"
  by (rule logs_mono [OF calls_copy_content [of _ "[CreatedFile 0 [] target]"]]) (auto simp: granted_def entitled_def)

lemma install_calls: "calls (\<lambda>e. True) (install rd name temporary previous target)"
proof -
  have "calls (\<lambda>e. True) (replace_file rd staged name target)" for staged
    unfolding replace_file_def
    by (intro logging calls_rename looks_calls [OF looks_rd_verify] looks_calls [OF looks_checked(2)] looks_calls [OF looks_child]
        looks_calls [OF looks_checked(1)]) simp_all
  then show ?thesis
    unfolding install_def
    by (auto intro!: logging looks_calls [OF looks_child] looks_calls [OF looks_state_of(2)] split: option.split)
qed

lemma copy_after_opening_calls:
  "calls (\<lambda>e. True) (copy_after_opening plan completed whole source finished input rd previous created)"
  unfolding copy_after_opening_def
  by (intro logs_and_then logs_result_is copy_content_calls install_calls looks_calls [OF looks_copied_entry])

lemma calls_copy_entry: "calls (\<lambda>e. True) (copy_entry fuel m plan completed whole outputs source finished)"
  unfolding copy_entry_parts
  by (rule logs_and_then [OF looks_calls [OF looks_open_entry]],
      rule logs_and_then [OF looks_calls [OF looks_parent]],
      rule logs_and_then [OF looks_calls [OF looks_rd_verify]],
      rule logs_and_then [OF looks_calls [OF calls_optional [OF looks_child]]],
      rule logs_and_then [OF looks_calls [OF looks_state_of(2)]])
    (rule logs_and_then [OF open_output_calls], rule copy_after_opening_calls)

lemma copy_next_report:
  assumes "copy_next fuel m plan completed whole source state w = (r, w')"
  shows "mw_report w' = (case r of Inr _ \<Rightarrow> count_copied (re_entry source) (mw_report w)
    | Inl _ \<Rightarrow> count_failed (pl_source plan) (re_entry source) (mw_report w))"
proof -
  obtain x w1 where x: "copy_entry fuel m plan completed whole (fst state) source (snd state) w = (x, w1)" by fastforce
  with assms report_kept [OF calls_copy_entry x] show ?thesis
    by (cases x) (auto simp: copy_next_def settle_with_def and_then_def change_report_def result_is_def)
qed

section \<open>Partial counts\<close>

text \<open>
  The report after some of the entries: those before the failure are counted as copied, the failing one,
  if there is one, is counted once.
\<close>

definition counted :: "migration_entry list \<Rightarrow> migration_report \<Rightarrow> migration_report" where
  "counted entries rp = fold count_copied entries rp"

inductive counted_partly :: "migration_entry list \<Rightarrow> migration_report \<Rightarrow> migration_report \<Rightarrow> bool" where
  stopped: "counted_partly (done_part @ rest) rp (counted done_part rp)"
| failed: "counted_partly (done_part @ entry # rest) rp (count_failed source entry (counted done_part rp))"

lemma counted_append: "counted (xs @ ys) rp = counted ys (counted xs rp)"
  by (simp add: counted_def)

lemma counted_partly_nothing: "counted_partly entries rp rp"
  using stopped [of "[]" entries rp] by (simp add: counted_def)

lemma counted_partly_all: "counted_partly entries rp (counted entries rp)"
  using stopped [of entries "[]"] by simp

lemma counted_partly_after:
  assumes "counted_partly ys (counted xs rp) rp'"
  shows "counted_partly (xs @ ys) rp rp'"
  using assms
proof cases
  case (stopped done_part rest)
  then show ?thesis using counted_partly.stopped [of "xs @ done_part" rest rp] by (simp add: counted_append)
next
  case (failed done_part entry rest source)
  then show ?thesis using counted_partly.failed [of "xs @ done_part" entry rest rp source] by (simp add: counted_append)
qed

lemma counted_partly_before:
  assumes "counted_partly xs rp rp'"
  shows "counted_partly (xs @ ys) rp rp'"
  using assms
proof cases
  case (stopped done_part rest)
  then show ?thesis using counted_partly.stopped [of done_part "rest @ ys" rp] by simp
next
  case (failed done_part entry rest source)
  then show ?thesis using counted_partly.failed [of done_part entry "rest @ ys" rp source] by simp
qed

text \<open>A loop whose rounds count their part.\<close>

definition counts :: "migration_entry list \<Rightarrow> 'a migration \<Rightarrow> bool" where
  "counts entries p = (\<forall>w. case p w of
      (Inr _, w') \<Rightarrow> mw_report w' = counted entries (mw_report w)
    | (Inl _, w') \<Rightarrow> counted_partly entries (mw_report w) (mw_report w'))"

lemma countsI:
  assumes "\<And>w a w'. p w = (Inr a, w') \<Longrightarrow> mw_report w' = counted entries (mw_report w)"
    and "\<And>w e w'. p w = (Inl e, w') \<Longrightarrow> counted_partly entries (mw_report w) (mw_report w')"
  shows "counts entries p"
  unfolding counts_def using assms by (auto split: prod.split sum.split)

lemma countsD:
  assumes "counts entries p"
  shows "p w = (Inr a, w') \<Longrightarrow> mw_report w' = counted entries (mw_report w)"
    and "p w = (Inl e, w') \<Longrightarrow> counted_partly entries (mw_report w) (mw_report w')"
  using assms by (auto simp: counts_def dest: spec [of _ w])

lemma counts_quiet: "calls P p \<Longrightarrow> counts [] p"
  by (rule countsI) (frule (1) report_kept, simp add: counted_def counted_partly_nothing)+

lemma counts_then:
  assumes "counts xs p" and "\<And>a. counts ys (f a)"
  shows "counts (xs @ ys) (and_then p f)"
proof (rule countsI)
  fix w b w'
  assume "and_then p f w = (Inr b, w')"
  then obtain a w1 where "p w = (Inr a, w1)" "f a w1 = (Inr b, w')" by (auto simp: and_then_ok)
  with countsD(1) [OF assms(1)] countsD(1) [OF assms(2)] show "mw_report w' = counted (xs @ ys) (mw_report w)"
    by (simp add: counted_append)
next
  fix w e w'
  assume run: "and_then p f w = (Inl e, w')"
  obtain x w1 where x: "p w = (x, w1)" by (cases "p w")
  show "counted_partly (xs @ ys) (mw_report w) (mw_report w')"
  proof (cases x)
    case (Inl e')
    with run x countsD(2) [OF assms(1)] show ?thesis by (auto simp: and_then_def intro: counted_partly_before)
  next
    case (Inr a)
    with run x have "f a w1 = (Inl e, w')" by (simp add: and_then_def)
    from countsD(2) [OF assms(2) this] countsD(1) [OF assms(1) x [unfolded Inr]] show ?thesis
      by (auto intro: counted_partly_after)
  qed
qed

lemma counts_fold:
  assumes "\<And>x s. x \<in> set xs \<Longrightarrow> counts (part x) (f x s)"
  shows "counts (concat (map part xs)) (fold_then f xs s)"
  using assms
proof (induction xs arbitrary: s)
  case Nil
  then show ?case by (auto intro: counts_quiet logs_result_is)
next
  case (Cons x xs)
  then show ?case by (auto intro: counts_then)
qed

lemma counts_map_error: "counts xs p \<Longrightarrow> counts xs (map_error g p)"
  by (rule countsI)
    (auto simp: map_error_def settle_with_def result_is_def dest: countsD split: prod.splits sum.splits)

lemma counts_then_result: "counts xs p \<Longrightarrow> (\<And>a. calls P (f a)) \<Longrightarrow> counts xs (and_then p f)"
  using counts_then [of xs p "[]" f] by (auto intro: counts_quiet)

lemma counts_looks_then: "looks p \<Longrightarrow> (\<And>a. counts xs (f a)) \<Longrightarrow> counts xs (and_then p f)"
  using counts_then [of "[]" p xs f] by (auto intro: counts_quiet)

lemma counts_copy_next: "counts [re_entry source] (copy_next fuel m plan completed whole source state)"
proof (rule countsI)
  fix w a w'
  assume "copy_next fuel m plan completed whole source state w = (Inr a, w')"
  from copy_next_report [OF this] show "mw_report w' = counted [re_entry source] (mw_report w)" by (simp add: counted_def)
next
  fix w e w'
  assume "copy_next fuel m plan completed whole source state w = (Inl e, w')"
  from copy_next_report [OF this] show "counted_partly [re_entry source] (mw_report w) (mw_report w')"
    using failed [of "[]" "re_entry source" "[]" "mw_report w" "pl_source plan"] by (simp add: counted_def)
qed

lemma counts_copy_files:
  "counts (map re_entry (rm_entries (pl_retained plan))) (copy_files fuel plan completed whole)"
proof -
  have "counts (concat (map (\<lambda>source. [re_entry source]) (rm_entries (pl_retained plan))))
      (fold_then (copy_next fuel (pl_retained plan) plan completed whole) (rm_entries (pl_retained plan)) ([], 0))"
    by (rule counts_fold) (rule counts_copy_next)
  moreover have "concat (map (\<lambda>source. [re_entry source]) xs) = map re_entry xs" for xs by (induction xs) auto
  ultimately show ?thesis
    unfolding copy_files_def Let_def
    by (intro counts_looks_then [OF looks_verify_source] counts_looks_then [OF looks_check_targets] counts_then_result) 
      (auto intro: logs_result_is)
qed

lemma counts_copy_plans:
  assumes "\<forall>plan \<in> set plans. prepared plan"
  shows "counts (concat (map pl_entries plans)) (fold_then (copy_plan fuel whole) plans state)"
proof (rule counts_fold)
  fix plan state
  assume "plan \<in> set plans"
  with assms prepared_plan(1) have "map re_entry (rm_entries (pl_retained plan)) = pl_entries plan" by blast
  with counts_copy_files [of plan fuel "snd state" whole]
  show "counts (pl_entries plan) (copy_plan fuel whole plan state)"
    unfolding copy_plan_def
    by (intro counts_then_result [OF counts_map_error]) (auto intro: logs_result_is split: option.split)
qed

section \<open>Numbers\<close>

definition is_file :: "migration_entry \<Rightarrow> bool" where
  "is_file e = (\<not> en_directory e)"

lemma counted_numbers:
  "counted entries rp = rp\<lparr>rp_copied_files := rp_copied_files rp + of_nat (length (filter is_file entries)),
     rp_copied_bytes := rp_copied_bytes rp + sum_list (map en_size (filter is_file entries))\<rparr>"
proof (induction entries arbitrary: rp)
  case Nil
  then show ?case by (simp add: counted_def)
next
  case (Cons e entries)
  have "counted (e # entries) rp = counted entries (count_copied e rp)" by (simp add: counted_def)
  with Cons show ?case by (simp add: count_copied_def is_file_def algebra_simps)
qed

definition accounted :: "migration_report \<Rightarrow> nat" where
  "accounted rp = unat (rp_copied_files rp) + length (rp_failed_files rp)"

lemma partly_settled:
  assumes "counted_partly entries rp rp'" and "accounted rp = 0" and "length (filter is_file entries) < 2 ^ 64"
  shows "accounted rp' \<le> length (filter is_file entries)"
  using assms
  by cases (auto simp: counted_numbers accounted_def count_failed_def is_file_def unat_of_nat le_less_trans [OF mod_less_eq_dividend]
      unsigned_0 elim!: ssubst dest!: unat_0_iff [THEN iffD1])

end
