(* ===== verification/Migration_Properties.thy ===== *)
theory Migration_Properties
  imports Migration_Report
begin

text \<open>
  The properties of a migration of a batch of directories
  (\<open>copy_batch_retaining_source_with_report\<close> of \<open>native-client/src/directory_migration.rs\<close>).
\<close>

section \<open>The phases of a run\<close>

text \<open>
  Either the run stops before the commit, or it has copied and verified every plan and then calls the
  commit, whose result decides.
\<close>

definition stops_early :: "migration_world \<Rightarrow> io_error + unit \<Rightarrow> migration_world \<Rightarrow> bool" where
  "stops_early w r w' = (is_err r \<and> (\<exists>es. mw_log w' = mw_log w @ es \<and> lawful es))"

definition reaches_commit ::
  "nat \<Rightarrow> migration_plan list \<Rightarrow> migration_world \<Rightarrow> retained_entry list list \<Rightarrow> migration_world \<Rightarrow> migration_world \<Rightarrow> bool" where
  "reaches_commit fuel plans w copies w1 w2 =
    (\<exists>whole w0 completed. whole_bytes plans 0 = Some whole
     \<and> progress 0 whole (w\<lparr>mw_report := report_started plans (mw_report w)\<rparr>) = (Inr (), w0)
     \<and> fold_then (copy_plan fuel whole) plans ([], 0) w0 = (Inr (copies, completed), w1)
     \<and> verify_all fuel plans copies w1 = (Inr (), w2))"

definition commits ::
  "nat \<Rightarrow> migration_plan list \<Rightarrow> migration_world \<Rightarrow> io_error + unit \<Rightarrow> migration_world \<Rightarrow>
    retained_entry list list \<Rightarrow> migration_world \<Rightarrow> migration_world \<Rightarrow> io_error + unit \<Rightarrow> bool" where
  "commits fuel plans w r w' copies w1 w2 c =
    (reaches_commit fuel plans w copies w1 w2
     \<and> (\<exists>es. mw_log w2 = mw_log w @ es \<and> lawful es)
     \<and> mw_log w' = mw_log w2 @ [CommitCalled c] \<and> is_ok r = is_ok c)"

lemma lawful_start:
  assumes "mw_log w0 = mw_log w @ xs" "lawful xs" "mw_log w1 = mw_log w0 @ ys" "lawful ys"
  shows "\<exists>es. mw_log w1 = mw_log w @ es \<and> lawful es"
  using assms lawful.of_both [of xs ys] by auto

lemma run_phases:
  assumes "copy_batch_retaining_source_with_report fuel plans w = (r, w')"
  shows "stops_early w r w' \<or> (\<exists>copies w1 w2 c. commits fuel plans w r w' copies w1 w2 c)"
proof (cases "whole_bytes plans 0")
  case None
  with assms show ?thesis
    by (auto simp: copy_batch_retaining_source_with_report_def and_then_def change_report_def result_is_def stops_early_def)
next
  case (Some whole)
  define ws where "ws = w\<lparr>mw_report := report_started plans (mw_report w)\<rparr>"
  obtain x wx where run: "copy_then_commit fuel plans whole ws = (x, wx)" by fastforce
  have r: "is_ok r = is_ok x" "mw_log w' = mw_log wx"
    using assms Some run
    by (cases x; simp add: copy_batch_retaining_source_with_report_def and_then_def change_report_def result_is_def
        settle_with_def ws_def [symmetric]; auto)+
  have early: "stops_early w r w'" if "is_err x" "mw_log wx = mw_log ws @ es" "lawful es" for es
    using that r by (auto simp: stops_early_def ws_def is_err_def)
  obtain p w0 where p: "progress 0 whole ws = (p, w0)" by fastforce
  obtain es0 where es0: "mw_log w0 = mw_log ws @ es0" "lawful es0" using lawful.leavesE [OF lawful_progress p] .
  obtain s w1 where s: "fold_then (copy_plan fuel whole) plans ([], 0) w0 = (s, w1)" by fastforce
  obtain es1 where es1: "mw_log w1 = mw_log w0 @ es1" "lawful es1"
    using lawful.leavesE [OF lawful.leaves_fold_then [OF lawful_copy_plan] s] .
  show ?thesis
  proof (cases p)
    case (Inl e)
    with run p have "x = Inl e" "wx = w0" by (auto simp: copy_then_commit_def and_then_def)
    with early [of es0] es0 show ?thesis by simp
  next
    case p1: (Inr u)
    show ?thesis
    proof (cases s)
      case (Inl e)
      with run p p1 s have "x = Inl e" "wx = w1" by (auto simp: copy_then_commit_def and_then_def)
      with early lawful_start [OF es0 es1] show ?thesis by auto
    next
      case s1: (Inr state)
      obtain v w2 where v: "verify_all fuel plans (fst state) w1 = (v, w2)" by fastforce
      obtain es2 where es2: "mw_log w2 = mw_log w1 @ es2" "lawful es2" using lawful.leavesE [OF lawful_verify_all v] .
      obtain es where es: "mw_log w2 = mw_log ws @ es" "lawful es"
        using lawful_start [OF es0 es1] lawful_start [OF _ _ es2] by blast
      show ?thesis
      proof (cases v)
        case (Inl e)
        with run p p1 s s1 v have "x = Inl e" "wx = w2" by (auto simp: copy_then_commit_def and_then_def)
        with early [of es] es show ?thesis by simp
      next
        case (Inr u')
        define c where "c = mv_commit (mw_views w2 (mw_clock w2))"
        have commit: "map_error described run_commit w2 = (x, wx)"
          using run p p1 s s1 v Inr by (simp add: copy_then_commit_def and_then_def)
        then have "is_ok x = is_ok c" "mw_log wx = mw_log w2 @ [CommitCalled c]"
          by (auto simp: map_error_def settle_with_def run_commit_def result_is_def Let_def others_move_def c_def
              split: sum.splits)
        moreover have "reaches_commit fuel plans w (fst state) w1 w2"
          unfolding reaches_commit_def using Some p [unfolded p1] s [unfolded s1] v [unfolded Inr]
          by (intro exI [of _ whole] exI [of _ w0] exI [of _ "snd state"]) (simp add: ws_def)
        moreover have "mw_log ws = mw_log w" by (simp add: ws_def)
        ultimately have "commits fuel plans w r w' (fst state) w1 w2 c"
          unfolding commits_def using r es by simp
        then show ?thesis by blast
      qed
    qed
  qed
qed

lemma copies_match:
  assumes "reaches_commit fuel plans w copies w1 w2"
  shows "list_all2 (\<lambda>plan outputs. map re_entry outputs = map re_entry (rm_entries (pl_retained plan))) plans copies"
proof -
  from assms obtain whole w0 completed where
    run: "fold_then (copy_plan fuel whole) plans ([], 0) w0 = (Inr (copies, completed), w1)"
    unfolding reaches_commit_def by blast
  let ?P = "\<lambda>plan outputs. map re_entry outputs = map re_entry (rm_entries (pl_retained plan))"
  have entry: "re_entry (fst out) = re_entry source"
    if "copy_entry fuel m plan completed whole outputs source finished w = (Inr out, w')"
    for m plan completed outputs source finished w out w'
    using that by (auto simp: copy_entry_def Let_def and_then_ok copied_entry_def)
  have outputs: "map re_entry outputs = map re_entry (rm_entries (pl_retained plan))"
    if "copy_files fuel plan completed whole w = (Inr outputs, w')" for plan completed w outputs w'
  proof -
    from that obtain st wa where fold: "fold_then (copy_next fuel (pl_retained plan) plan completed whole)
        (rm_entries (pl_retained plan)) ([], 0) wa = (Inr st, w')" and st: "outputs = fst st"
      by (auto simp: copy_files_def Let_def and_then_ok)
    have "chained (\<lambda>source s s'. (map re_entry \<circ> fst) s' = (map re_entry \<circ> fst) s @ [re_entry source])
        (rm_entries (pl_retained plan)) ([], 0) st"
      by (rule fold_then_chained [OF fold])
        (auto simp: copy_next_def settle_with_def and_then_def change_report_def result_is_def
          split: prod.splits sum.splits dest!: entry)
    from chained_collects [OF this] st show ?thesis by simp
  qed
  have chain: "chained (\<lambda>plan s s'. \<exists>outputs. fst s' = fst s @ [outputs] \<and> ?P plan outputs) plans ([], 0) (copies, completed)"
    by (rule fold_then_chained [OF run])
      (auto simp: copy_plan_def and_then_ok map_error_ok split: option.splits dest!: outputs)
  have extend: "list_all2 ?P (before @ plans) copies"
    if "chained (\<lambda>plan s s'. \<exists>outputs. fst s' = fst s @ [outputs] \<and> ?P plan outputs) plans s (copies, completed)" "list_all2 ?P before (fst s)"
    for before s
    using that
  proof (induction plans arbitrary: before s)
    case Nil
    then show ?case by (cases s) simp
  next
    case (Cons plan plans)
    then obtain s1 outputs where "fst s1 = fst s @ [outputs]" "?P plan outputs"
      and rest: "chained (\<lambda>plan s s'. \<exists>outputs. fst s' = fst s @ [outputs] \<and> ?P plan outputs) plans s1 (copies, completed)" by auto
    with Cons.prems(2) have "list_all2 ?P (before @ [plan]) (fst s1)" by (simp add: list_all2_appendI)
    from Cons.IH [OF rest this] show ?case by simp
  qed
  from extend [OF chain, of "[]"] show ?thesis by simp
qed

section \<open>The report of a run\<close>

lemma verify_plan_report:
  assumes "verify_plan fuel pair u w = (r, w')"
  shows "mw_report w' = (case r of Inr _ \<Rightarrow> mw_report w | Inl _ \<Rightarrow> mw_report w')
    \<and> (\<exists>e. mw_report w' \<in> {mw_report w, uncount_copied (fst pair) e (mw_report w)})"
proof -
  obtain x w1 where x: "verify_copy fuel (fst pair) (snd pair) w = (x, w1)" by fastforce
  with assms report_kept [OF looks_verify_copy x] show ?thesis
    by (cases x) (auto simp: verify_plan_def settle_with_def and_then_def change_report_def result_is_def)
qed

lemma verify_all_report:
  assumes "verify_all fuel plans copies w = (r, w')"
  shows "(is_ok r \<longrightarrow> mw_report w' = mw_report w)
    \<and> (mw_report w' = mw_report w \<or> (\<exists>plan \<in> set plans. \<exists>e. mw_report w' = uncount_copied plan e (mw_report w)))"
proof -
  have "(is_ok r \<longrightarrow> mw_report w' = mw_report w)
    \<and> (mw_report w' = mw_report w \<or> (\<exists>pair \<in> set pairs. \<exists>e. mw_report w' = uncount_copied (fst pair) e (mw_report w)))"
    if "fold_then (verify_plan fuel) pairs u w = (r, w')" for pairs u
    using that
  proof (induction pairs arbitrary: u w)
    case Nil
    then show ?case by (auto simp: result_is_def)
  next
    case (Cons pair pairs)
    obtain x w1 where x: "verify_plan fuel pair u w = (x, w1)" by fastforce
    note first = verify_plan_report [OF x]
    show ?case
    proof (cases x)
      case (Inl e)
      with Cons.prems x first show ?thesis by (auto simp: and_then_def)
    next
      case (Inr v)
      with Cons.prems x have "fold_then (verify_plan fuel) pairs v w1 = (r, w')" by (simp add: and_then_def)
      from Cons.IH [OF this] first Inr show ?thesis by auto
    qed
  qed
  note this [of "zip plans copies" "()", OF assms [unfolded verify_all_def]]
  moreover have "fst pair \<in> set plans" if "pair \<in> set (zip plans copies)" for pair
    using that set_zip_leftD by (metis prod.collapse)
  ultimately show ?thesis by blast
qed

definition batch_entries :: "migration_plan list \<Rightarrow> migration_entry list" where
  "batch_entries plans = concat (map pl_entries plans)"

lemma batch_numbers:
  assumes "\<forall>plan \<in> set plans. prepared plan"
  shows "sum_list (map pl_files plans) = of_nat (length (filter is_file (batch_entries plans)))"
    and "sum_list (map pl_bytes plans) = sum_list (map en_size (filter is_file (batch_entries plans)))"
proof -
  have "is_file = (\<lambda>e. \<not> en_directory e)" by (simp add: is_file_def fun_eq_iff)
  with assms show "sum_list (map pl_files plans) = of_nat (length (filter is_file (batch_entries plans)))"
    and "sum_list (map pl_bytes plans) = sum_list (map en_size (filter is_file (batch_entries plans)))"
    by (induction plans) (simp_all add: batch_entries_def prepared_plan(4,5) plan_files_def)
qed

lemma uncounted_settled:
  assumes "plan \<in> set plans" and "rp_copied_files rp = of_nat (length (filter is_file (batch_entries plans)))"
    and "rp_failed_files rp = []" and bound: "length (filter is_file (batch_entries plans)) < 2 ^ 64"
  shows "accounted (uncount_copied plan e rp) \<le> length (filter is_file (batch_entries plans))"
proof -
  let ?n = "length (filter is_file (batch_entries plans))"
  have n: "unat (rp_copied_files rp) = ?n" using assms(2) bound by (simp add: unat_of_nat)
  show ?thesis
  proof (cases "uncount_copied plan e rp = rp")
    case True
    with n assms(3) show ?thesis by (simp add: accounted_def)
  next
    case False
    then obtain entry where "entry \<in> set (pl_entries plan)" "is_file entry"
      by (auto simp: uncount_copied_def is_file_def split: io_payload.splits if_splits)
    with assms(1) have "entry \<in> set (filter is_file (batch_entries plans))" by (auto simp: batch_entries_def)
    then have "0 < ?n" by (rule length_pos_if_in_set)
    with n assms(3) show ?thesis
      by (auto simp: uncount_copied_def accounted_def saturating_sub_one split: io_payload.splits)
  qed
qed

lemma copy_then_commit_report:
  assumes plans: "\<forall>plan \<in> set plans. prepared plan" and run: "copy_then_commit fuel plans whole w = (r, w')"
    and start: "rp_copied_files (mw_report w) = 0" "rp_failed_files (mw_report w) = []"
    and bound: "length (filter is_file (batch_entries plans)) < 2 ^ 64"
  shows "(is_ok r \<longrightarrow> mw_report w' = counted (batch_entries plans) (mw_report w))
    \<and> accounted (mw_report w') \<le> length (filter is_file (batch_entries plans))"
proof -
  let ?copy = "and_then (progress 0 whole) (\<lambda>_. fold_then (copy_plan fuel whole) plans ([], 0))"
  have counts: "counts (batch_entries plans) ?copy"
    using counts_then [OF counts_quiet [OF calls_progress [of "\<lambda>e. True"]] counts_copy_plans [OF plans]]
    by (simp add: batch_entries_def)
  obtain x w1 where x: "?copy w = (x, w1)" by fastforce
  have run': "and_then ?copy (\<lambda>state. and_then (verify_all fuel plans (fst state)) (\<lambda>_. map_error described run_commit)) w = (r, w')"
    using run by (simp add: copy_then_commit_def and_then_assoc)
  show ?thesis
  proof (cases x)
    case (Inl e)
    with run' x have "r = Inl e" "w' = w1" by (auto simp: and_then_def)
    moreover have "accounted (mw_report w1) \<le> length (filter is_file (batch_entries plans))"
      by (rule partly_settled [OF countsD(2) [OF counts x [unfolded Inl]] _ bound]) (simp add: accounted_def start)
    ultimately show ?thesis by simp
  next
    case (Inr state)
    from countsD(1) [OF counts x [unfolded Inr]] have counted: "mw_report w1 = counted (batch_entries plans) (mw_report w)" .
    then have numbers: "rp_copied_files (mw_report w1) = of_nat (length (filter is_file (batch_entries plans)))"
      "rp_failed_files (mw_report w1) = []"
      using start by (simp_all add: counted_numbers)
    then have all: "accounted (mw_report w1) \<le> length (filter is_file (batch_entries plans))"
      using bound by (simp add: accounted_def unat_of_nat)
    obtain v w2 where v: "verify_all fuel plans (fst state) w1 = (v, w2)" by fastforce
    note verified = verify_all_report [OF v]
    with all uncounted_settled [OF _ numbers bound]
    have accounted: "accounted (mw_report w2) \<le> length (filter is_file (batch_entries plans))" by auto
    show ?thesis
    proof (cases v)
      case (Inl e)
      with run' x Inr v accounted show ?thesis by (auto simp: and_then_def)
    next
      case (Inr u)
      have "map_error described run_commit w2 = (r, w')"
        using run' x \<open>x = Inr state\<close> v Inr by (simp add: and_then_def)
      then have "mw_report w' = mw_report w2"
        by (auto simp: map_error_def settle_with_def run_commit_def result_is_def Let_def others_move_def)
      with verified Inr counted accounted show ?thesis by simp
    qed
  qed
qed

section \<open>Properties\<close>

text \<open>
  C8: the commit of a migration is called at most once, as its last act and only after every plan was
  copied and then the whole batch verified; the run succeeds exactly when the commit was reached and
  accepted.
\<close>

theorem commit_is_last_and_decides:
  assumes "copy_batch_retaining_source_with_report fuel plans w = (r, w')"
  shows "\<exists>es. list_all (\<lambda>e. \<forall>c. e \<noteq> CommitCalled c) es
    \<and> (is_err r \<and> mw_log w' = mw_log w @ es
       \<or> (\<exists>c copies w1 w2. is_ok r = is_ok c \<and> reaches_commit fuel plans w copies w1 w2
            \<and> mw_log w2 = mw_log w @ es \<and> mw_log w' = mw_log w @ es @ [CommitCalled c]))"
proof -
  have silent: "list_all (\<lambda>e. \<forall>c. e \<noteq> CommitCalled c) es" if "lawful_after seen es" for seen es
    using that by (induction es arbitrary: seen) (auto simp: entitled_def)
  from run_phases [OF assms] show ?thesis
  proof
    assume "stops_early w r w'"
    with silent show ?thesis by (auto simp: stops_early_def)
  next
    assume "\<exists>copies w1 w2 c. commits fuel plans w r w' copies w1 w2 c"
    then obtain copies w1 w2 c es where "reaches_commit fuel plans w copies w1 w2" "mw_log w2 = mw_log w @ es" "lawful es"
      "mw_log w' = mw_log w2 @ [CommitCalled c]" "is_ok r = is_ok c"
      unfolding commits_def by blast
    moreover from this have "mw_log w' = mw_log w @ es @ [CommitCalled c]" by simp
    ultimately show ?thesis using silent by blast
  qed
qed

text \<open>
  C9: a migration writes only files that it created itself during this run, so that a file that was there is
  never written in place; it renames a name only when it created a file under this name, opened the name
  again afterwards and found that very file there, and has done nothing but look at files since then; and
  it never reports more progress than the whole. This holds whatever other processes do. What it cannot
  give, and does not claim, is that nobody exchanges the file between the last look and the rename.
\<close>

theorem migration_writes_own_files_only:
  assumes "copy_batch_retaining_source_with_report fuel plans w = (r, w')"
  shows "\<exists>es. lawful es \<and> (mw_log w' = mw_log w @ es \<or> (\<exists>c. mw_log w' = mw_log w @ es @ [CommitCalled c]))"
  using run_phases [OF assms] by (auto simp: stops_early_def commits_def)

text \<open>
  C7: when the commit is called after a verification that no other process disturbed, every file and
  every directory below each source is found below its destination, each file with the same content.
\<close>

theorem committed_trees_are_complete:
  assumes plans: "\<forall>plan \<in> set plans. prepared plan"
    and run: "copy_batch_retaining_source_with_report fuel plans w = (r, w')"
    and commit: "CommitCalled c \<in> set (drop (length (mw_log w)) (mw_log w'))"
  shows "\<exists>copies w1 w2. reaches_commit fuel plans w copies w1 w2 \<and> mw_log w' = mw_log w2 @ [CommitCalled c]
    \<and> (nobody_else w1 \<and> sizes_fit (mw_fs w1) \<longrightarrow> mw_fs w2 = mw_fs w1
        \<and> (\<forall>plan \<in> set plans. tree_copied (mw_fs w2) (pl_source plan) (pl_destination plan)))"
proof -
  have silent: "CommitCalled c \<notin> set es" if "lawful_after seen es" for seen es
    using that by (induction es arbitrary: seen) (auto simp: entitled_def)
  have "\<not> stops_early w r w'" using commit silent by (auto simp: stops_early_def)
  with run_phases [OF run] obtain copies w1 w2 c' es where
    reached: "reaches_commit fuel plans w copies w1 w2"
    and logs: "mw_log w2 = mw_log w @ es" "lawful es" "mw_log w' = mw_log w2 @ [CommitCalled c']"
    unfolding commits_def by blast
  from commit logs silent have c: "c' = c" by auto
  from reached have verify: "verify_all fuel plans copies w1 = (Inr (), w2)" unfolding reaches_commit_def by blast
  have "mw_fs w2 = mw_fs w1 \<and> (\<forall>plan \<in> set plans. tree_copied (mw_fs w2) (pl_source plan) (pl_destination plan))"
    if nobody_else: "nobody_else w1" and fit: "sizes_fit (mw_fs w1)"
  proof (intro conjI ballI)
    note verified = readsE [OF reads_verify_all nobody_else verify]
    from verified(2) show same: "mw_fs w2 = mw_fs w1" .
    fix plan
    assume "plan \<in> set plans"
    then obtain k where k: "k < length plans" "plan = plans ! k" by (auto simp: in_set_conv_nth)
    from copies_match [OF reached] k have outputs: "k < length copies"
      "map re_entry (copies ! k) = map re_entry (rm_entries (pl_retained plan))"
      by (auto simp: list_all2_conv_all_nth)
    with k have "(plan, copies ! k) \<in> set (zip plans copies)" by (auto simp: in_set_zip intro!: exI [of _ k])
    with verified(3) have "plan_verified plan (copies ! k) (mw_fs w1)" by fastforce
    with verified_plan_copied outputs(2) plans \<open>plan \<in> set plans\<close> fit same
    show "tree_copied (mw_fs w2) (pl_source plan) (pl_destination plan)" by simp
  qed
  with reached logs c show ?thesis by blast
qed

text \<open>
  C30: a run that succeeds reports every file of the batch as copied, with all bytes, and nothing as failed;
  any other run reports at most as many copied and failed files as there are, and a reason unless the
  sizes of the batch do not fit.
\<close>

theorem report_accounts_for_every_file:
  assumes plans: "\<forall>plan \<in> set plans. prepared plan"
    and run: "copy_batch_retaining_source_with_report fuel plans w = (r, w')"
    and bound: "length (filter is_file (batch_entries plans)) < 2 ^ 64"
  shows "(is_ok r \<longrightarrow> rp_copied_files (mw_report w') = rp_total_files (mw_report w')
        \<and> rp_copied_bytes (mw_report w') = sum_list (map pl_bytes plans)
        \<and> rp_failed_files (mw_report w') = [] \<and> rp_operation_errors (mw_report w') = 0)
    \<and> unat (rp_copied_files (mw_report w')) + length (rp_failed_files (mw_report w')) \<le> length (filter is_file (batch_entries plans))
    \<and> (is_err r \<and> whole_bytes plans 0 \<noteq> None \<longrightarrow>
        rp_failed_files (mw_report w') \<noteq> [] \<or> rp_operation_errors (mw_report w') \<noteq> 0)"
proof -
  define ws where "ws = w\<lparr>mw_report := report_started plans (mw_report w)\<rparr>"
  have start: "rp_copied_files (mw_report ws) = 0" "rp_failed_files (mw_report ws) = []"
    by (simp_all add: ws_def report_started_def report_default_def)
  show ?thesis
  proof (cases "whole_bytes plans 0")
    case None
    with run have "is_err r" "mw_report w' = mw_report ws"
      by (auto simp: copy_batch_retaining_source_with_report_def and_then_def change_report_def result_is_def ws_def)
    with None start show ?thesis by (auto simp: is_err_def)
  next
    case (Some whole)
    obtain x wx where x: "copy_then_commit fuel plans whole ws = (x, wx)" by fastforce
    note result = copy_then_commit_report [OF plans x start bound]
    show ?thesis
    proof (cases x)
      case (Inl e)
      with run Some x have "is_err r" "mw_report w' = report_refused (mw_report wx)"
        by (auto simp: copy_batch_retaining_source_with_report_def and_then_def change_report_def result_is_def
            settle_with_def ws_def)
      with result show ?thesis by (auto simp: report_refused_def accounted_def is_err_def)
    next
      case (Inr u)
      with run Some x have "is_ok r" "mw_report w' = mw_report wx"
        by (auto simp: copy_batch_retaining_source_with_report_def and_then_def change_report_def result_is_def
            settle_with_def ws_def)
      with result Inr batch_numbers [OF plans] show ?thesis
        by (auto simp: counted_numbers ws_def report_started_def report_default_def accounted_def is_err_def)
    qed
  qed
qed

end
