(* ===== verification/Migration_Sample.thy ===== *)
theory Migration_Sample
  imports Migration_Properties
begin

text \<open>
  A small migration: the directory \<open>/s\<close> with one file moves to \<open>/t\<close>, with nobody else at work.
\<close>

definition sample_node :: "node_content \<Rightarrow> node" where
  "sample_node content = \<lparr>nd_content = content, nd_modified = 1, nd_changed = (1, 0), nd_links = 1\<rparr>"

definition sample_fs :: file_system where
  "sample_fs = \<lparr>fs_root = 0,
    fs_nodes = [0 \<mapsto> sample_node (Folder [(''s'', 1), (''t'', 2)]), 1 \<mapsto> sample_node (Folder [(''a'', 3)]),
      2 \<mapsto> sample_node (Folder []), 3 \<mapsto> sample_node (Bytes [7, 9])],
    fs_next = 4\<rparr>"

definition idle_view :: migration_view where
  "idle_view = \<lparr>mv_others = id, mv_fault = None, mv_short = 5, mv_now = (2, 2, 0), mv_staging_name = ''x.tmp'', mv_commit = Inr ()\<rparr>"

definition sample_world :: migration_world where
  "sample_world = \<lparr>mw_views = \<lambda>n. idle_view, mw_clock = 0, mw_fs = sample_fs, mw_report = report_default, mw_log = []\<rparr>"

definition sample_plan :: migration_plan where
  "sample_plan = \<lparr>pl_source = [''s''], pl_destination = [''t''],
    pl_entries = [\<lparr>en_relative = [''a''], en_directory = False, en_size = 2, en_modified = 1\<rparr>],
    pl_retained = \<lparr>rm_source = \<lparr>rd_path = [''s''], rd_chain = [0, 1]\<rparr>, rm_destination = \<lparr>rd_path = [''t''], rd_chain = [0, 2]\<rparr>,
      rm_entries = [\<lparr>re_entry = \<lparr>en_relative = [''a''], en_directory = False, en_size = 2, en_modified = 1\<rparr>,
        re_identity = 3, re_stamp = Some (2, 1, 1, 0)\<rparr>]\<rparr>,
    pl_bytes = 2, pl_files = 1\<rparr>"

text \<open>Time passes in calls that change nothing; the log keeps what they saw.\<close>

definition ticks :: "migration_event list \<Rightarrow> migration_world \<Rightarrow> migration_world" where
  "ticks n w = w\<lparr>mw_clock := mw_clock w + length n, mw_log := mw_log w @ n\<rparr>"

definition idle :: "migration_world \<Rightarrow> bool" where
  "idle w = (mw_views w = (\<lambda>n. idle_view))"

lemma ticks_simps [simp]: "mw_fs (ticks n w) = mw_fs w" "mw_views (ticks n w) = mw_views w" "mw_report (ticks n w) = mw_report w"
  "ticks n (ticks m w) = ticks (m @ n) w" "idle (ticks n w) = idle w"
  by (simp_all add: ticks_def idle_def add.assoc)

lemma look_idle [simp]: "idle w \<Longrightarrow> look_at f (ticks n w) = (f idle_view (mw_fs w), ticks (n @ [Looked]) w)"
  by (simp add: look_at_def call_def others_move_def Let_def idle_def idle_view_def ticks_def)

lemma call_found:
  "idle w \<Longrightarrow> call (\<lambda>v fs. case X fs of Inl e \<Rightarrow> (Inl e, fs, Looked) | Inr j \<Rightarrow> (Inr j, fs, Opened i name j)) (ticks n w) =
    (case X (mw_fs w) of Inl e \<Rightarrow> (Inl e, ticks (n @ [Looked]) w) | Inr j \<Rightarrow> (Inr j, ticks (n @ [Opened i name j]) w))"
  by (cases "X (mw_fs w)") (simp_all add: call_def others_move_def Let_def idle_def idle_view_def ticks_def)

lemma open_idle [simp]: "idle w \<Longrightarrow> open_at i name directory (ticks n w) =
    (case bind_result (child_of (mw_fs w) i name) (\<lambda>j. bind_result (node_at (mw_fs w) j) (\<lambda>m.
       if directory \<and> \<not> is_folder m then Inl (other_error ''not a directory'') else Inr j)) of
     Inl e \<Rightarrow> (Inl e, ticks (n @ [Looked]) w)
   | Inr j \<Rightarrow> (Inr j, ticks (n @ [Opened i name j]) w))"
  unfolding open_at_def by (rule call_found)

lemmas program_steps = and_then_def result_is_def settle_with_def map_error_def ensure_def Let_def

lemmas look_steps = open_root_def file_metadata_of_def child_of_def node_at_def bind_result_def is_folder_def
  is_regular_def verify_regular_def identity_def symlink_metadata_def read_dir_def canonicalize_def read_at_def sync_all_def

lemmas directory_steps = rd_open_def child_directory_def child_def normal_component_def valid_child_name_def path_components_def
  path_is_absolute_def rd_handle_def same_identity_def rd_verify_def

lemmas scan_defs = checked_directory_def check_ancestor_def ancestors_def scan_name_def scan_def scanned_entry_def
  Path_Remap.starts_with_def file_len_def eval_nat_numeral upt_rec

lemmas entry_defs = parent_def parent_step_def open_entry_def capture_def capture_entry_def retained_stamp_def stamp_of_def
  check_targets_def check_target_def optional_def

lemma sample_world_idle [simp]: "idle sample_world" "mw_fs sample_world = sample_fs"
  by (simp_all add: idle_def sample_world_def)

lemma some_ticks [simp]: "\<exists>k. ticks n w = ticks k w"
  by blast

definition acted :: "migration_event \<Rightarrow> file_system \<Rightarrow> migration_world \<Rightarrow> migration_world" where
  "acted e fs w = w\<lparr>mw_clock := Suc (mw_clock w), mw_fs := fs, mw_log := mw_log w @ [e]\<rparr>"

lemma acted_simps [simp]: "idle (acted e fs w) = idle w" "mw_fs (acted e fs w) = fs" "mw_report (acted e fs w) = mw_report w"
  by (simp_all add: acted_def idle_def)

lemma call_idle:
  assumes "idle w"
  shows "call f (ticks n w) = (case f idle_view (mw_fs w) of (r, fs, e) \<Rightarrow> (r, ticks [] (acted e fs (ticks n w))))"
proof -
  have "mw_views w (mw_clock w + length n) = idle_view" using assms by (simp add: idle_def)
  then show ?thesis
    by (simp add: call_def others_move_def Let_def ticks_def acted_def idle_view_def split: prod.split)
qed

lemma call_through_idle:
  assumes "idle w"
  shows "call_through f (ticks n w) = (case f idle_view (mw_fs w) of (r, fs, e) \<Rightarrow> (r, ticks [] (acted e fs (ticks n w))))"
proof -
  have "mw_views w (mw_clock w + length n) = idle_view" using assms by (simp add: idle_def)
  then show ?thesis
    by (simp add: call_through_def others_move_def Let_def ticks_def acted_def idle_view_def split: prod.split)
qed

lemmas files_simps = sample_fs_def sample_node_def

lemma sample_opened:
  assumes "idle w" "mw_fs w = sample_fs"
  shows "rd_open [''s''] (ticks n w) = (Inr \<lparr>rd_path = [''s''], rd_chain = [0, Suc 0]\<rparr>, ticks (n @ [Looked, Opened 0 ''s'' (Suc 0), Looked]) w)"
  and "rd_open [''t''] (ticks n w) = (Inr \<lparr>rd_path = [''t''], rd_chain = [0, 2]\<rparr>, ticks (n @ [Looked, Opened 0 ''t'' 2, Looked]) w)"
  using assms by (simp_all add: program_steps look_steps directory_steps files_simps)

lemma sample_scan:
  assumes "idle w" "mw_fs w = sample_fs"
  shows "\<exists>k. scan 5 [''s''] (ticks n w) = (Inr (pl_entries sample_plan), ticks k w)"
  using assms by (simp add: program_steps look_steps scan_defs files_simps sample_plan_def)

lemma sample_capture:
  assumes "idle w" "mw_fs w = sample_fs"
  shows "\<exists>k. capture \<lparr>rd_path = [''s''], rd_chain = [0, Suc 0]\<rparr> \<lparr>rd_path = [''t''], rd_chain = [0, 2]\<rparr> (pl_entries sample_plan) (ticks n w)
    = (Inr (pl_retained sample_plan), ticks k w)"
  using assms by (simp add: program_steps look_steps directory_steps entry_defs files_simps sample_plan_def file_len_def)

lemma sample_targets:
  assumes "idle w" "mw_fs w = sample_fs"
  shows "\<exists>k. check_targets (pl_retained sample_plan) (pl_entries sample_plan) (ticks n w) = (Inr (), ticks k w)"
  using assms by (simp add: program_steps look_steps directory_steps entry_defs files_simps sample_plan_def)

lemma sample_checked_directory:
  assumes "idle w" "mw_fs w = sample_fs"
  shows "\<exists>k. checked_directory [''s''] (ticks n w) = (Inr [''s''], ticks k w)"
    and "\<exists>k. checked_directory [''t''] (ticks n w) = (Inr [''t''], ticks k w)"
  using assms by (simp_all add: program_steps look_steps scan_defs files_simps)

lemma sample_prepared: "prepared sample_plan"
proof -
  have start: "sample_world = ticks [] sample_world" by (simp add: ticks_def)
  obtain k1 where 1: "checked_directory [''s''] (ticks [] sample_world) = (Inr [''s''], ticks k1 sample_world)"
    using sample_checked_directory [of sample_world "[]"] by auto
  obtain k2 where 2: "checked_directory [''t''] (ticks k1 sample_world) = (Inr [''t''], ticks k2 sample_world)"
    using sample_checked_directory [of sample_world k1] by auto
  obtain k3 where 3: "scan 5 [''s''] (ticks (k2 @ [Looked, Opened 0 ''s'' (Suc 0), Looked, Looked, Opened 0 ''t'' 2, Looked]) sample_world)
      = (Inr (pl_entries sample_plan), ticks k3 sample_world)"
    using sample_scan [of sample_world "k2 @ [Looked, Opened 0 ''s'' (Suc 0), Looked, Looked, Opened 0 ''t'' 2, Looked]"] by auto
  obtain k4 where 4: "capture \<lparr>rd_path = [''s''], rd_chain = [0, Suc 0]\<rparr> \<lparr>rd_path = [''t''], rd_chain = [0, 2]\<rparr>
      (pl_entries sample_plan) (ticks k3 sample_world) = (Inr (pl_retained sample_plan), ticks k4 sample_world)"
    using sample_capture [of sample_world k3] by auto
  obtain k5 where 5: "check_targets (pl_retained sample_plan) (pl_entries sample_plan) (ticks k4 sample_world)
      = (Inr (), ticks k5 sample_world)"
    using sample_targets [of sample_world k4] by auto
  have "prepare 5 [] [] [''s''] [''t''] (ticks [] sample_world) = (Inr sample_plan, ticks k5 sample_world)"
    unfolding prepare_def and_then_def 1 prod.case sum.case 2
    by (simp add: program_steps overlaps_def Path_Remap.starts_with_def sample_opened 3 4 5)
      (simp add: sample_plan_def)
  then show ?thesis unfolding prepared_def by blast
qed

text \<open>The files after the copy: the new file stands in the second directory.\<close>

definition sample_copied :: file_system where
  "sample_copied = sample_fs\<lparr>fs_next := 5,
    fs_nodes := (fs_nodes sample_fs)(
      2 \<mapsto> \<lparr>nd_content = Folder [(''a'', 4)], nd_modified = 2, nd_changed = (2, 0), nd_links = 1\<rparr>,
      4 \<mapsto> \<lparr>nd_content = Bytes [7, 9], nd_modified = 2, nd_changed = (2, 0), nd_links = 1\<rparr>)\<rparr>"

definition sample_output :: retained_entry where
  "sample_output = \<lparr>re_entry = \<lparr>en_relative = [''a''], en_directory = False, en_size = 2, en_modified = 1\<rparr>,
    re_identity = 4, re_stamp = Some (2, 2, 2, 0)\<rparr>"

lemmas call_steps = make_dir_at_def create_at_def write_all_def rename_at_def progress_def call_idle call_through_idle

lemma sample_verify_source:
  assumes "idle w" "mw_fs w = sample_fs \<or> mw_fs w = sample_copied"
  shows "\<exists>k. verify_source 5 (pl_retained sample_plan) sample_plan (ticks n w) = (Inr (), ticks k w)"
  using assms
  by (auto simp: program_steps look_steps directory_steps entry_defs scan_defs files_simps sample_plan_def sample_copied_def
      verify_source_def verify_source_entry_def)

lemma acted_again [simp]: "ticks k (ticks n w) = ticks (n @ k) w"
  by (rule ticks_simps)

lemma sample_verify_copy:
  assumes "idle w" "mw_fs w = sample_copied"
  shows "\<exists>k. verify_copy 5 sample_plan [sample_output] (ticks n w) = (Inr (), ticks k w)"
proof -
  from assms sample_verify_source [of w n] obtain k where
    k: "verify_source 5 (pl_retained sample_plan) sample_plan (ticks n w) = (Inr (), ticks k w)" by blast
  show ?thesis
    unfolding verify_copy_def Let_def and_then_def k prod.case sum.case
    using assms
    by (simp add: program_steps look_steps directory_steps entry_defs files_simps sample_plan_def sample_copied_def
      verify_copied_entry_def sample_output_def retained_equal_def compare_from.simps fill_from.simps file_len_def idle_view_def)
qed

lemma staging_five:
  "staging_file 5 rd = and_then staging_name (\<lambda>name. settle_with (child rd name False True) (\<lambda>r.
    case r of Inr i \<Rightarrow> result_is (Inr (name, i))
    | Inl e \<Rightarrow> if io_kind e = AlreadyExists then staging_file 4 rd else result_is (Inl e)))"
  using staging_file.simps(2) [of 4 rd] by simp

lemma staging_name_idle [simp]: "idle w \<Longrightarrow> staging_name (ticks n w) = (Inr ''x.tmp'', ticks n w)"
  by (simp add: staging_name_def idle_def idle_view_def)

lemma ticks_none: "ticks [] w = w"
  by (simp add: ticks_def)

lemma acted_log [simp]: "mw_log (acted e fs w) = mw_log w @ [e]" "mw_log (ticks n w) = mw_log w @ n"
  by (simp_all add: acted_def ticks_def)

text \<open>The new file is renamed from the staging name to its own.\<close>

abbreviation sample_rename :: migration_event where
  "sample_rename \<equiv> Renamed 2 ''x.tmp'' ''a''"

lemma sample_copy_entry:
  assumes "idle w" "mw_fs w = sample_fs"
  shows "\<exists>v. copy_entry 5 (pl_retained sample_plan) sample_plan 0 2 [] (hd (rm_entries (pl_retained sample_plan))) 0 (ticks n w)
    = (Inr (sample_output, 2), v) \<and> idle v \<and> mw_fs v = sample_copied \<and> sample_rename \<in> set (mw_log v)"
  using assms
  by (simp add: program_steps look_steps directory_steps entry_defs files_simps sample_plan_def copy_entry_def
      call_steps add_node_def state_of_optional_def state_of_def open_output_def staging_five sample_output_def
      copy_content_def copy_bytes.simps retained_equal_def compare_from.simps fill_from.simps report_progress_def
      saturating_add_def checked_add_def install_def replace_file_def copied_entry_def idle_view_def touch_def overwrite_def
      rename_entries_def file_len_def sample_copied_def fun_upd_twist)

lemma sample_copy_files:
  assumes "idle w" "mw_fs w = sample_fs"
  shows "\<exists>v. copy_files 5 sample_plan 0 2 (ticks n w) = (Inr [sample_output], ticks [] v) \<and> idle v \<and> mw_fs v = sample_copied
    \<and> sample_rename \<in> set (mw_log v)"
proof -
  obtain k where 1: "verify_source 5 (pl_retained sample_plan) sample_plan (ticks n w) = (Inr (), ticks k w)"
    using sample_verify_source [of w n] assms by blast
  obtain k2 where 2: "check_targets (pl_retained sample_plan) (pl_entries sample_plan) (ticks k w) = (Inr (), ticks k2 w)"
    using sample_targets [of w k] assms by blast
  obtain v where 3: "copy_entry 5 (pl_retained sample_plan) sample_plan 0 2 [] (hd (rm_entries (pl_retained sample_plan))) 0 (ticks k2 w)
      = (Inr (sample_output, 2), v)" and v: "idle v" "mw_fs v = sample_copied" "sample_rename \<in> set (mw_log v)"
    using sample_copy_entry [of w k2] assms by blast
  have one: "rm_entries (pl_retained sample_plan) = [hd (rm_entries (pl_retained sample_plan))]" by (simp add: sample_plan_def)
  let ?v = "v\<lparr>mw_report := count_copied (re_entry (hd (rm_entries (pl_retained sample_plan)))) (mw_report v)\<rparr>"
  have "fold_then (copy_next 5 (pl_retained sample_plan) sample_plan 0 2) (rm_entries (pl_retained sample_plan)) ([], 0) (ticks k2 w)
      = (Inr ([sample_output], 2), ?v)"
    by (subst one) (simp add: program_steps copy_next_def 3 change_report_def)
  then have "copy_files 5 sample_plan 0 2 (ticks n w) = (Inr [sample_output], ticks [] ?v)"
    by (simp add: copy_files_def Let_def and_then_def 1 2 ticks_none result_is_def)
  moreover have "idle ?v" "mw_fs ?v = sample_copied" "sample_rename \<in> set (mw_log ?v)" using v by (simp_all add: idle_def)
  ultimately show ?thesis by blast
qed

lemma sample_commit:
  assumes "idle w"
  shows "\<exists>v. map_error described run_commit (ticks n w) = (Inr (), v) \<and> CommitCalled (Inr ()) \<in> set (mw_log v)
    \<and> set (mw_log w) \<subseteq> set (mw_log v)"
proof -
  have "mw_views w (mw_clock w + length n) = idle_view" using assms by (simp add: idle_def)
  then have "mw_views w (mw_clock (ticks n w)) = idle_view" by (simp add: ticks_def)
  then show ?thesis
    by (auto simp: map_error_def settle_with_def run_commit_def result_is_def others_move_def idle_view_def)
qed

lemma reaches_unique:
  "reaches_commit fuel plans w c w1 w2 \<Longrightarrow> reaches_commit fuel plans w c' w1' w2' \<Longrightarrow> w1' = w1 \<and> w2' = w2"
  by (auto simp: reaches_commit_def)

lemma sample_whole: "whole_bytes [sample_plan] 0 = Some 2" "checked_add 0 (pl_bytes sample_plan) = Some 2"
  by (simp_all add: sample_plan_def checked_add_def)

lemma sample_reaches:
  "\<exists>v k. reaches_commit 5 [sample_plan] sample_world [[sample_output]] v (ticks k v) \<and> idle v \<and> mw_fs v = sample_copied
    \<and> sample_rename \<in> set (mw_log v)"
proof -
  let ?start = "sample_world\<lparr>mw_report := report_started [sample_plan] (mw_report sample_world)\<rparr>"
  have start: "idle ?start" "mw_fs ?start = sample_fs" by (simp_all add: idle_def sample_world_def)
  let ?w0 = "acted (Progressed 0 2) sample_fs ?start"
  have p: "progress 0 2 ?start = (Inr (), ?w0)"
    using call_idle [OF start(1), of "\<lambda>v fs. (Inr (), fs, Progressed 0 2)" "[]", unfolded ticks_none] start
    by (simp add: progress_def)
  obtain v where v: "copy_files 5 sample_plan 0 2 ?w0 = (Inr [sample_output], v)" "idle v" "mw_fs v = sample_copied"
      "sample_rename \<in> set (mw_log v)"
    using sample_copy_files [of ?w0 "[]", unfolded ticks_none] start by auto
  obtain k where k: "verify_copy 5 sample_plan [sample_output] v = (Inr (), ticks k v)"
    using sample_verify_copy [OF v(2,3), of "[]", unfolded ticks_none] by blast
  have "copy_plan 5 2 sample_plan ([], 0) ?w0 = (Inr ([[sample_output]], 2), v)"
    by (simp only: copy_plan_def and_then_def map_error_def settle_with_def fst_conv snd_conv v(1) prod.case sum.case
        result_is_def sample_whole(2) option.case append_Nil)
  then have "fold_then (copy_plan 5 2) [sample_plan] ([], 0) ?w0 = (Inr ([[sample_output]], 2), v)"
    by (simp add: and_then_def result_is_def)
  moreover have "verify_all 5 [sample_plan] [[sample_output]] v = (Inr (), ticks k v)"
    by (simp add: verify_all_def verify_plan_def settle_with_def and_then_def result_is_def k)
  ultimately have "reaches_commit 5 [sample_plan] sample_world [[sample_output]] v (ticks k v)"
    unfolding reaches_commit_def using p sample_whole(1) by blast
  with v(2,3,4) show ?thesis by blast
qed

lemma migration_sample_run:
  "\<exists>v. copy_batch_retaining_source_with_report 5 [sample_plan] sample_world = (Inr (), v) \<and> CommitCalled (Inr ()) \<in> set (mw_log v)
    \<and> sample_rename \<in> set (mw_log v)"
proof -
  obtain v k where reached: "reaches_commit 5 [sample_plan] sample_world [[sample_output]] v (ticks k v)" and v: "idle v"
    and renamed: "sample_rename \<in> set (mw_log v)" using sample_reaches by blast
  obtain u where u: "map_error described run_commit (ticks k v) = (Inr (), u)" "CommitCalled (Inr ()) \<in> set (mw_log u)"
    "set (mw_log v) \<subseteq> set (mw_log u)"
    using sample_commit [OF v] by blast
  from reached obtain w0 completed where
    run: "progress 0 2 (sample_world\<lparr>mw_report := report_started [sample_plan] (mw_report sample_world)\<rparr>) = (Inr (), w0)"
      "fold_then (copy_plan 5 2) [sample_plan] ([], 0) w0 = (Inr ([[sample_output]], completed), v)"
      "verify_all 5 [sample_plan] [[sample_output]] v = (Inr (), ticks k v)"
    unfolding reaches_commit_def sample_whole(1) by blast
  have "copy_then_commit 5 [sample_plan] 2 (sample_world\<lparr>mw_report := report_started [sample_plan] (mw_report sample_world)\<rparr>)
      = (Inr (), u)"
    by (simp only: copy_then_commit_def and_then_def run prod.case sum.case fst_conv u)
  then have "copy_batch_retaining_source_with_report 5 [sample_plan] sample_world = (Inr (), u)"
    by (simp add: copy_batch_retaining_source_with_report_def and_then_def change_report_def sample_whole settle_with_def result_is_def)
  with u renamed show ?thesis by blast
qed

section \<open>The properties at this migration\<close>

lemma commit_is_last_and_decides_witness:
  "\<exists>v es. copy_batch_retaining_source_with_report 5 [sample_plan] sample_world = (Inr (), v)
    \<and> list_all (\<lambda>e. \<forall>c. e \<noteq> CommitCalled c) es \<and> mw_log v = es @ [CommitCalled (Inr ())]"
proof -
  obtain v where v: "copy_batch_retaining_source_with_report 5 [sample_plan] sample_world = (Inr (), v)"
    "CommitCalled (Inr ()) \<in> set (mw_log v)" using migration_sample_run by blast
  have log: "mw_log sample_world = []" by (simp add: sample_world_def)
  from commit_is_last_and_decides [OF v(1)] obtain es c where
    es: "list_all (\<lambda>e. \<forall>c. e \<noteq> CommitCalled c) es" "mw_log v = es @ [CommitCalled c]"
    by (auto simp: log is_err_def)
  with v(2) have "c = Inr ()" by (auto simp: list_all_iff)
  with v(1) es show ?thesis by blast
qed

lemma migration_writes_own_files_only_witness:
  "\<exists>v es. copy_batch_retaining_source_with_report 5 [sample_plan] sample_world = (Inr (), v)
    \<and> lawful es \<and> mw_log v = es @ [CommitCalled (Inr ())] \<and> sample_rename \<in> set es"
proof -
  obtain v where v: "copy_batch_retaining_source_with_report 5 [sample_plan] sample_world = (Inr (), v)"
    "CommitCalled (Inr ()) \<in> set (mw_log v)" "sample_rename \<in> set (mw_log v)" using migration_sample_run by blast
  have log: "mw_log sample_world = []" by (simp add: sample_world_def)
  have silent: "CommitCalled c \<notin> set es" if "lawful_after seen es" for seen es c
    using that by (induction es arbitrary: seen) (auto simp: entitled_def)
  from migration_writes_own_files_only [OF v(1)] v(2,3) silent show ?thesis
    unfolding log by (auto simp: v(1))
qed

lemma sample_undisturbed:
  assumes "idle v" "mw_fs v = sample_copied"
  shows "nobody_else v" and "sizes_fit (mw_fs v)"
  using assms
  by (auto simp: nobody_else_def idle_def idle_view_def sizes_fit_def bytes_of_def sample_copied_def sample_fs_def sample_node_def
      split: if_splits)

lemma committed_trees_are_complete_witness:
  "\<exists>v k. reaches_commit 5 [sample_plan] sample_world [[sample_output]] v (ticks k v) \<and> tree_copied (mw_fs v) [''s''] [''t'']"
proof -
  obtain v k where v: "reaches_commit 5 [sample_plan] sample_world [[sample_output]] v (ticks k v)" "idle v" "mw_fs v = sample_copied"
    using sample_reaches by blast
  obtain u where u: "copy_batch_retaining_source_with_report 5 [sample_plan] sample_world = (Inr (), u)"
    "CommitCalled (Inr ()) \<in> set (mw_log u)" using migration_sample_run by blast
  have "\<forall>plan \<in> set [sample_plan]. prepared plan" using sample_prepared by simp
  moreover have "CommitCalled (Inr ()) \<in> set (drop (length (mw_log sample_world)) (mw_log u))"
    using u(2) by (simp add: sample_world_def)
  ultimately obtain copies w1 w2 where "reaches_commit 5 [sample_plan] sample_world copies w1 w2"
    and complete: "nobody_else w1 \<and> sizes_fit (mw_fs w1) \<longrightarrow> mw_fs w2 = mw_fs w1
        \<and> (\<forall>plan \<in> set [sample_plan]. tree_copied (mw_fs w2) (pl_source plan) (pl_destination plan))"
    using committed_trees_are_complete [OF _ u(1)] by blast
  with reaches_unique [OF v(1)] have "w1 = v" by blast
  with complete sample_undisturbed [OF v(2,3)] have "tree_copied (mw_fs v) (pl_source sample_plan) (pl_destination sample_plan)"
    by (metis list.set_intros(1))
  with v(1) show ?thesis by (auto simp: sample_plan_def)
qed

lemma report_accounts_for_every_file_witness:
  "\<exists>v. copy_batch_retaining_source_with_report 5 [sample_plan] sample_world = (Inr (), v)
    \<and> rp_copied_files (mw_report v) = rp_total_files (mw_report v) \<and> rp_copied_bytes (mw_report v) = 2"
proof -
  obtain v where v: "copy_batch_retaining_source_with_report 5 [sample_plan] sample_world = (Inr (), v)"
    using migration_sample_run by blast
  have "\<forall>plan \<in> set [sample_plan]. prepared plan" using sample_prepared by simp
  moreover have "length (filter is_file (batch_entries [sample_plan])) < 2 ^ 64"
    by (simp add: batch_entries_def sample_plan_def is_file_def)
  moreover have "sum_list (map pl_bytes [sample_plan]) = 2" by (simp add: sample_plan_def)
  ultimately show ?thesis
    using report_accounts_for_every_file [OF _ v] v by auto
qed

end
