(* ===== verification/Namespace_Mapping.thy ===== *)
theory Namespace_Mapping
  imports Path_Remap
begin

text \<open>
  Moving the directories of an account (\<open>UserNamespace::with_mapping\<close> of
  \<open>native-client/src/runtime/storage/user_namespace.rs\<close> and \<open>load_account_directory_namespace\<close> of
  \<open>runtime/storage/client_state.rs\<close>): which mappings a namespace accepts, and that the paths stored
  before any of the moves lead to where the directory is now. Paths are absolute and given by their
  components; the upgrade of old identities on macOS is not modelled.
\<close>

section \<open>Reserved places\<close>

definition MATERIAL_DIRECTORY_NAME :: string where
  "MATERIAL_DIRECTORY_NAME = ''Elunvi Canvas''"

definition MATERIAL_OWNER_FILE :: string where
  "MATERIAL_OWNER_FILE = ''.elunvi-materials.json''"

text \<open>The names are UTF-8: U+8F93 U+5165 U+7D20 U+6750, U+751F U+6210 U+56FE U+7247, U+63D0 U+793A U+8BCD U+6A21 U+677F.\<close>

fun material_folder_name :: "managed_user_area \<Rightarrow> string option" where
  "material_folder_name Input = Some (map char_of [0xE8 :: nat, 0xBE, 0x93, 0xE5, 0x85, 0xA5, 0xE7, 0xB4, 0xA0, 0xE6, 0x9D, 0x90])"
| "material_folder_name Output = Some (map char_of [0xE7 :: nat, 0x94, 0x9F, 0xE6, 0x88, 0x90, 0xE5, 0x9B, 0xBE, 0xE7, 0x89, 0x87])"
| "material_folder_name Prompt =
    Some (map char_of [0xE6 :: nat, 0x8F, 0x90, 0xE7, 0xA4, 0xBA, 0xE8, 0xAF, 0x8D, 0xE6, 0xA8, 0xA1, 0xE6, 0x9D, 0xBF])"
| "material_folder_name _ = None"

fun windows :: "nat \<Rightarrow> 'a list \<Rightarrow> 'a list list" where
  "windows n [] = []"
| "windows n (x # xs) = (if length (x # xs) < n then [] else take n (x # xs) # windows n xs)"

datatype mapping_error =
    ReservedAccountStorage | ReservedMaterialStorage | UnknownMappingArea | InvalidMapping | SourceMismatch
  | UnexpectedOwner | OwnerChanged | OwnerRequired | TargetTooShallow | InvalidOwnership | TargetOverlaps
  | NotNormal | HistoricalOverlap | RegistryPoisoned | InvalidUser

definition reject_reserved_account_path :: "uuid_parser \<Rightarrow> path \<Rightarrow> mapping_error + unit" where
  "reject_reserved_account_path parse_uuid components =
    bind_result (ensure (\<not> (\<exists>parts \<in> set (windows 3 components).
        eq_ignore_ascii_case (parts ! 0) ''ElunviCanvas'' \<and> eq_ignore_ascii_case (parts ! 1) ''accounts''
        \<and> parse_uuid (parts ! 2) \<noteq> None)) ReservedAccountStorage) (\<lambda>_.
    ensure (\<not> (\<exists>parts \<in> set (windows 2 components).
        eq_ignore_ascii_case (parts ! 0) MATERIAL_DIRECTORY_NAME
        \<and> Some (parts ! 1) \<in> set [material_folder_name Input, material_folder_name Output, material_folder_name Prompt,
            Some MATERIAL_OWNER_FILE])) ReservedMaterialStorage)"

text \<open>The registry of the process; \<open>None\<close> when its mutex is poisoned.\<close>

type_synonym identity_registry = "stable_file_identity set option"

definition register_mapped_private_identity :: "stable_file_identity \<Rightarrow> identity_registry \<Rightarrow> (mapping_error + unit) \<times> identity_registry" where
  "register_mapped_private_identity i registry =
    (case registry of None \<Rightarrow> (Inl RegistryPoisoned, None) | Some held \<Rightarrow> (Inr (), Some (insert i held)))"

section \<open>Mappings\<close>

text \<open>\<open>Path::ends_with\<close> and \<open>Path::ancestors().nth(depth)\<close>.\<close>

definition ends_with_path :: "path \<Rightarrow> path \<Rightarrow> bool" where
  "ends_with_path p suffix = (length suffix \<le> length p \<and> drop (length p - length suffix) p = suffix)"

definition nth_ancestor :: "nat \<Rightarrow> path \<Rightarrow> path option" where
  "nth_ancestor depth p = (if depth \<le> length p then Some (take (length p - depth) p) else None)"

text \<open>What the target of a mapping must end with, and how far above it the chosen directory is.\<close>

definition owned_suffix ::
  "user_namespace \<Rightarrow> managed_user_area \<Rightarrow> account_directory_mapping \<Rightarrow> mapping_error + (path \<times> nat)" where
  "owned_suffix ns area mapping =
    (if map_version mapping = 1 then
       bind_result (ensure (map_material_owner mapping = None) UnexpectedOwner) (\<lambda>_.
       Inr ([''ElunviCanvas'', ''accounts'', user_public_id ns] @ split_on ''/'' (relative_path area), 4))
     else case map_material_owner mapping of
       Some binding \<Rightarrow>
         bind_result (ensure (binding_owner_user_id binding = user_public_id ns) OwnerChanged) (\<lambda>_.
         case material_folder_name area of
           None \<Rightarrow> Inl UnknownMappingArea
         | Some folder \<Rightarrow> Inr ([MATERIAL_DIRECTORY_NAME, folder], 2))
     | None \<Rightarrow>
         bind_result (ensure (map_version mapping = 2) OwnerRequired) (\<lambda>_.
         Inr (split_on ''/'' (relative_path area), 1)))"

definition check_mapping :: "uuid_parser \<Rightarrow> user_namespace \<Rightarrow> account_directory_mapping \<Rightarrow> mapping_error + unit" where
  "check_mapping parse_uuid ns mapping =
    (case from_storage_name (map_area mapping) of
       Inl _ \<Rightarrow> Inl UnknownMappingArea
     | Inr area \<Rightarrow>
         let target = map_target mapping in
         bind_result (ensure (map_version mapping \<in> {1, 2, 3} \<and> area \<in> {Input, Output, Prompt}) InvalidMapping) (\<lambda>_.
         bind_result (ensure (map_source mapping = namespace_path ns area) SourceMismatch) (\<lambda>_.
         bind_result (owned_suffix ns area mapping) (\<lambda>(suffix, depth).
         bind_result (case nth_ancestor depth target of None \<Rightarrow> Inl TargetTooShallow | Some p \<Rightarrow> Inr p) (\<lambda>chosen.
         bind_result (reject_reserved_account_path parse_uuid chosen) (\<lambda>_.
         bind_result (ensure (ends_with_path target suffix \<and> \<not> starts_with target (butlast (ns_root ns))) InvalidOwnership) (\<lambda>_.
         bind_result (ensure (\<not> (\<exists>other \<in> set MANAGED_USER_AREAS. overlaps target (namespace_path ns other))) TargetOverlaps) (\<lambda>_.
         bind_result (ensure (''..'' \<notin> set target) NotNormal) (\<lambda>_.
         ensure (\<not> (\<exists>old \<in> set (ns_mappings ns). overlaps target (map_source old))) HistoricalOverlap)))))))))"

definition with_mapping ::
  "uuid_parser \<Rightarrow> user_namespace \<Rightarrow> account_directory_mapping \<Rightarrow> identity_registry
    \<Rightarrow> (mapping_error + user_namespace) \<times> identity_registry" where
  "with_mapping parse_uuid ns mapping registry =
    (case check_mapping parse_uuid ns mapping of
       Inl e \<Rightarrow> (Inl e, registry)
     | Inr _ \<Rightarrow>
         (case register_mapped_private_identity (map_identity mapping) registry of
            (Inl e, registry') \<Rightarrow> (Inl e, registry')
          | (Inr _, registry') \<Rightarrow> (Inr (ns\<lparr>ns_mappings := ns_mappings ns @ [mapping]\<rparr>), registry')))"

fun with_mappings ::
  "uuid_parser \<Rightarrow> user_namespace \<Rightarrow> account_directory_mapping list \<Rightarrow> identity_registry
    \<Rightarrow> (mapping_error + user_namespace) \<times> identity_registry" where
  "with_mappings parse_uuid ns [] registry = (Inr ns, registry)"
| "with_mappings parse_uuid ns (mapping # mappings) registry =
    (case with_mapping parse_uuid ns mapping registry of
       (Inl e, registry') \<Rightarrow> (Inl e, registry')
     | (Inr ns', registry') \<Rightarrow> with_mappings parse_uuid ns' mappings registry')"

text \<open>\<open>mappings\<close> is the setting \<open>account_directory_mappings_v1\<close> of the account.\<close>

definition load_account_directory_namespace ::
  "uuid_parser \<Rightarrow> path \<Rightarrow> string \<Rightarrow> account_directory_mapping list \<Rightarrow> identity_registry
    \<Rightarrow> (mapping_error + user_namespace) \<times> identity_registry" where
  "load_account_directory_namespace parse_uuid data_root user mappings registry =
    (case user_namespace_new parse_uuid data_root user of
       Inl _ \<Rightarrow> (Inl InvalidUser, registry)
     | Inr ns \<Rightarrow> with_mappings parse_uuid ns mappings registry)"

text \<open>
  \<open>complete_directory_rebind\<close>: \<open>saved\<close> is what the database holds. The attempt that is marked completed with it
  belongs to the database and is not modelled.
\<close>

definition complete_directory_rebind ::
  "uuid_parser \<Rightarrow> account_directory_mapping list \<Rightarrow> user_namespace \<Rightarrow> identity_registry
    \<Rightarrow> (mapping_error + user_namespace) \<times> identity_registry" where
  "complete_directory_rebind parse_uuid saved ns registry =
    (if saved \<noteq> ns_mappings ns then (Inl InvalidMapping, registry)
     else case nth_ancestor 2 (ns_root ns) of
       None \<Rightarrow> (Inl InvalidMapping, registry)
     | Some data_root \<Rightarrow> load_account_directory_namespace parse_uuid data_root (user_public_id ns)
         (map (\<lambda>m. m\<lparr>map_pending_rebind := []\<rparr>) (ns_mappings ns)) registry)"

section \<open>Where a directory is, and has been\<close>

abbreviation movable :: "managed_user_area set" where
  "movable \<equiv> {Input, Output, Prompt}"

definition original_location :: "user_namespace \<Rightarrow> managed_user_area \<Rightarrow> path" where
  "original_location ns area = ns_root ns @ split_on ''/'' (relative_path area)"

definition locations :: "user_namespace \<Rightarrow> managed_user_area \<Rightarrow> path list" where
  "locations ns area =
    original_location ns area # map map_target [m \<leftarrow> ns_mappings ns. map_area m = storage_name area]"

definition sound_path :: "path \<Rightarrow> string \<Rightarrow> bool" where
  "sound_path p v = (path_is_absolute v \<and> path_components v = p \<and> ''..'' \<notin> set p)"

definition disjoint_areas :: "user_namespace \<Rightarrow> bool" where
  "disjoint_areas ns =
    (\<forall>a b. a \<in> movable \<longrightarrow> a \<noteq> b \<longrightarrow> \<not> overlaps (namespace_path ns a) (namespace_path ns b))"

definition followed :: "user_namespace \<Rightarrow> bool" where
  "followed ns =
    (\<forall>area location suffix v. location \<in> set (locations ns area) \<longrightarrow> sound_path (location @ suffix) v \<longrightarrow>
       sound_path (namespace_path ns area @ suffix) (namespace_remap_path ns v))"

lemma overlaps_sym: "overlaps p q = overlaps q p"
  by (auto simp: overlaps_def)

lemma starts_with_append:
  assumes "starts_with (p @ s) q"
  shows "overlaps p q"
proof (cases "length q \<le> length p")
  case True
  with assms show ?thesis by (simp add: overlaps_def starts_with_def)
next
  case False
  from assms have "take (length p) q = take (length p) (take (length q) (p @ s))" by (simp add: starts_with_def)
  also have "\<dots> = p" using False by simp
  finally show ?thesis by (simp add: overlaps_def starts_with_def)
qed

lemma locations_remap_append: "locations_remap (xs @ ys) v = locations_remap ys (locations_remap xs v)"
  by (induction xs arbitrary: v) auto

definition moved :: "path \<Rightarrow> path \<Rightarrow> string \<Rightarrow> string" where
  "moved source target v = (case remap_path source target v of Some w \<Rightarrow> w | None \<Rightarrow> v)"

lemma moved_elsewhere:
  assumes "sound_path (p @ suffix) v" and "\<not> overlaps p source"
  shows "moved source target v = v"
  using assms starts_with_append [of p suffix source] by (auto simp: moved_def remap_path_def sound_path_def)

lemma moved_along:
  assumes "sound_path (source @ suffix) v" and "list_all plain_component target" and "''..'' \<notin> set target"
  shows "sound_path (target @ suffix) (moved source target v)"
proof -
  from assms(1) have "remap_path source target v = Some (display_joined target suffix)"
    by (simp add: remap_path_def sound_path_def starts_with_def)
  with remap_path_Some [OF this assms(2)] assms show ?thesis
    by (simp add: moved_def sound_path_def)
qed

section \<open>Accepted mappings\<close>

lemma check_mappingD:
  assumes "check_mapping parse_uuid ns m = Inr ()"
  obtains area where "map_area m = storage_name area" "area \<in> movable" "map_source m = namespace_path ns area"
    "\<And>b. \<not> overlaps (map_target m) (namespace_path ns b)" "''..'' \<notin> set (map_target m)"
    "\<And>old. old \<in> set (ns_mappings ns) \<Longrightarrow> \<not> overlaps (map_target m) (map_source old)"
proof -
  obtain area where area: "from_storage_name (map_area m) = Inr area"
    using assms by (auto simp: check_mapping_def split: sum.splits)
  then have "map_area m = storage_name area"
    by (auto simp: from_storage_name_def find_Some_iff split: option.splits)
  moreover have "area \<in> movable" "map_source m = namespace_path ns area"
    and "\<forall>b. \<not> overlaps (map_target m) (namespace_path ns b)" "''..'' \<notin> set (map_target m)"
    and "\<forall>old \<in> set (ns_mappings ns). \<not> overlaps (map_target m) (map_source old)"
    using assms area
    by (auto simp: check_mapping_def Let_def all_areas_listed split: option.splits)
  ultimately show ?thesis by (intro that) auto
qed

definition extended :: "user_namespace \<Rightarrow> account_directory_mapping \<Rightarrow> user_namespace" where
  "extended ns m = ns\<lparr>ns_mappings := ns_mappings ns @ [m]\<rparr>"

lemma with_mapping_ok:
  "with_mapping parse_uuid ns m registry = (Inr ns', registry') \<Longrightarrow>
    check_mapping parse_uuid ns m = Inr () \<and> ns' = extended ns m"
  by (auto simp: with_mapping_def extended_def split: sum.splits prod.splits)

lemma extended_path:
  "namespace_path (extended ns m) a = (if map_area m = storage_name a then map_target m else namespace_path ns a)"
  by (simp add: namespace_path_def extended_def split: option.splits)

lemma extended_remap:
  "namespace_remap_path (extended ns m) v = moved (map_source m) (map_target m) (namespace_remap_path ns v)"
  by (simp add: namespace_remap_path_def remap_locations_def extended_def locations_remap_append moved_def)

lemma extended_locations:
  "locations (extended ns m) a = locations ns a @ (if map_area m = storage_name a then [map_target m] else [])"
  by (simp add: locations_def extended_def original_location_def)

lemma extension_keeps_areas_apart:
  assumes "disjoint_areas ns" and "check_mapping parse_uuid ns m = Inr ()"
  shows "disjoint_areas (extended ns m)"
proof -
  obtain x where x: "map_area m = storage_name x" "\<And>b. \<not> overlaps (map_target m) (namespace_path ns b)"
    using check_mappingD [OF assms(2)] by metis
  have "storage_name x = storage_name b \<longleftrightarrow> x = b" for b
    using storage_name_inj by auto
  with assms(1) x show ?thesis
    by (auto simp: disjoint_areas_def extended_path overlaps_sym)
qed

lemma remap_outside:
  assumes "sound_path (p @ suffix) v" and "\<And>old. old \<in> set ms \<Longrightarrow> \<not> overlaps p (map_source old)"
  shows "locations_remap (map (\<lambda>m. (map_source m, map_target m)) ms) v = v"
  using assms by (induction ms) (auto simp: moved_elsewhere simp flip: moved_def)

lemma extension_follows:
  assumes "followed ns" and "disjoint_areas ns" and "check_mapping parse_uuid ns m = Inr ()"
    and "list_all plain_component (map_target m)"
  shows "followed (extended ns m)"
  unfolding followed_def
proof (intro allI impI)
  fix area location suffix v
  assume location: "location \<in> set (locations (extended ns m) area)" and v: "sound_path (location @ suffix) v"
  obtain x where x: "map_area m = storage_name x" "x \<in> movable" "map_source m = namespace_path ns x"
    "\<And>b. \<not> overlaps (map_target m) (namespace_path ns b)" "''..'' \<notin> set (map_target m)"
    "\<And>old. old \<in> set (ns_mappings ns) \<Longrightarrow> \<not> overlaps (map_target m) (map_source old)"
    using check_mappingD [OF assms(3)] by metis
  have same: "storage_name x = storage_name b \<longleftrightarrow> x = b" for b
    using storage_name_inj by auto
  let ?w = "namespace_remap_path ns v"
  show "sound_path (namespace_path (extended ns m) area @ suffix) (namespace_remap_path (extended ns m) v)"
  proof (cases "location \<in> set (locations ns area)")
    case True
    with assms(1) v have w: "sound_path (namespace_path ns area @ suffix) ?w" by (simp add: followed_def)
    show ?thesis
    proof (cases "x = area")
      case True
      with w x(3) have "sound_path (map_target m @ suffix) (moved (map_source m) (map_target m) ?w)"
        by (intro moved_along) (simp_all add: assms(4) x(5))
      with True x(1) show ?thesis by (simp add: extended_path extended_remap)
    next
      case False
      with assms(2) x(2,3) have "\<not> overlaps (namespace_path ns area) (map_source m)"
        by (auto simp: disjoint_areas_def overlaps_sym)
      from moved_elsewhere [OF w this] w False show ?thesis
        by (simp add: extended_path extended_remap x(1) same)
    qed
  next
    case False
    with location have t: "location = map_target m" "x = area"
      by (auto simp: extended_locations x(1) same split: if_splits)
    have "?w = v"
      unfolding namespace_remap_path_def remap_locations_def by (rule remap_outside [OF v]) (simp add: t x(6))
    moreover have "moved (map_source m) (map_target m) v = v"
      by (rule moved_elsewhere [OF v]) (simp add: t(1) x(3,4))
    ultimately show ?thesis
      using v t by (simp add: extended_path extended_remap x(1))
  qed
qed

lemma fresh_namespace:
  assumes "user_namespace_new parse_uuid data_root user = Inr ns"
  shows "disjoint_areas ns" "followed ns" "ns_mappings ns = []"
proof -
  show none: "ns_mappings ns = []"
    using assms by (auto simp: user_namespace_new_def split: option.splits if_splits)
  have apart: "\<not> overlaps (split_on ''/'' (relative_path a)) (split_on ''/'' (relative_path b))"
    if "a \<in> movable" "a \<noteq> b" for a b
    using that by (cases b) (auto simp: overlaps_def starts_with_def)
  have below: "overlaps (p @ q) (p @ r) \<longleftrightarrow> overlaps q r" for p q r :: path
    by (simp add: overlaps_def starts_with_def)
  from none apart show "disjoint_areas ns"
    by (simp add: disjoint_areas_def namespace_path_def below)
  from none show "followed ns"
    by (simp add: followed_def locations_def original_location_def namespace_path_def namespace_remap_path_def
        remap_locations_def)
qed

lemma with_mappings_good:
  assumes "with_mappings parse_uuid ns ms registry = (Inr ns', registry')" and "disjoint_areas ns" and "followed ns"
    and "\<And>m. m \<in> set ms \<Longrightarrow> list_all plain_component (map_target m)"
  shows "disjoint_areas ns' \<and> followed ns' \<and> ns_mappings ns' = ns_mappings ns @ ms"
  using assms
proof (induction ms arbitrary: ns registry)
  case (Cons m ms)
  from Cons.prems(1) obtain ns1 registry1 where one: "with_mapping parse_uuid ns m registry = (Inr ns1, registry1)"
    and rest: "with_mappings parse_uuid ns1 ms registry1 = (Inr ns', registry')"
    by (auto split: prod.splits sum.splits)
  from with_mapping_ok [OF one] have m: "check_mapping parse_uuid ns m = Inr ()" "ns1 = extended ns m" by auto
  have "disjoint_areas ns1" "followed ns1"
    using extension_keeps_areas_apart [OF Cons.prems(2) m(1)] extension_follows [OF Cons.prems(3,2) m(1)] Cons.prems(4)
    by (simp_all add: m(2))
  with Cons.IH [OF rest] Cons.prems(4) show ?case by (simp add: m(2) extended_def)
qed simp

section \<open>Stored paths follow the moves\<close>

text \<open>
  C15: a path that was stored while an area of the account was at any place it ever had, its first place
  below the data root or the target of one of its moves, is remapped to where the area is now, with the
  same name below it; and a directory that can be moved never shares a path with another area, so no
  stored path can end up in a foreign one.
\<close>

theorem stored_paths_follow_moves:
  assumes "load_account_directory_namespace parse_uuid data_root user mappings registry = (Inr ns, registry')"
    and "\<And>m. m \<in> set mappings \<Longrightarrow> list_all plain_component (map_target m)"
    and "location \<in> set (locations ns area)"
    and "path_is_absolute v" and "path_components v = location @ suffix" and "''..'' \<notin> set (location @ suffix)"
  shows "path_is_absolute (namespace_remap_path ns v)
    \<and> path_components (namespace_remap_path ns v) = namespace_path ns area @ suffix
    \<and> ns_mappings ns = mappings
    \<and> (\<forall>other. area \<in> movable \<longrightarrow> other \<noteq> area \<longrightarrow> \<not> overlaps (namespace_path ns area) (namespace_path ns other))"
proof -
  obtain ns0 where ns0: "user_namespace_new parse_uuid data_root user = Inr ns0"
    and folded: "with_mappings parse_uuid ns0 mappings registry = (Inr ns, registry')"
    using assms(1) by (auto simp: load_account_directory_namespace_def split: sum.splits)
  note fresh_namespace [OF ns0]
  with with_mappings_good [OF folded this(1,2) assms(2)]
  have good: "disjoint_areas ns" "followed ns" "ns_mappings ns = mappings" by simp_all
  have "sound_path (location @ suffix) v" using assms(4-6) by (simp add: sound_path_def)
  with good(2) assms(3) have "sound_path (namespace_path ns area @ suffix) (namespace_remap_path ns v)"
    unfolding followed_def by blast
  with good show ?thesis by (auto simp: sound_path_def disjoint_areas_def)
qed

definition sample_identity :: stable_file_identity where
  "sample_identity = UnixIdentity 1 7"

definition sample_move :: "path \<Rightarrow> path \<Rightarrow> account_directory_mapping" where
  "sample_move source target = \<lparr>map_version = 2, map_area = ''input'', map_source = source, map_target = target,
     map_identity = sample_identity, map_source_identity = sample_identity, map_manifest_json = [], map_pending_rebind = [],
     map_material_owner = None\<rparr>"

definition sample_moves :: "account_directory_mapping list" where
  "sample_moves =
    [sample_move [''data'', ''accounts'', ''u'', ''input''] [''disk'', ''input''],
     sample_move [''disk'', ''input''] [''usb'', ''input'']]"

definition sample_moved :: user_namespace where
  "sample_moved = \<lparr>user_public_id = ''u'', ns_root = [''data'', ''accounts'', ''u''], ns_mappings = sample_moves\<rparr>"

lemma sample_namespace:
  "load_account_directory_namespace Some [''data''] ''u'' sample_moves (Some {}) = (Inr sample_moved, Some {sample_identity})"
proof -
  define ns where "ns k = \<lparr>user_public_id = ''u'', ns_root = [''data'', ''accounts'', ''u''], ns_mappings = take k sample_moves\<rparr>" for k
  have "check_mapping Some (ns 0) (sample_moves ! 0) = Inr ()" "check_mapping Some (ns 1) (sample_moves ! 1) = Inr ()"
    by (simp_all add: ns_def sample_moves_def sample_move_def check_mapping_def Let_def from_storage_name_def
        MANAGED_USER_AREAS_def namespace_path_def owned_suffix_def nth_ancestor_def reject_reserved_account_path_def
        ends_with_path_def starts_with_def overlaps_def ensure_def)
  then show ?thesis
    by (simp add: load_account_directory_namespace_def user_namespace_new_def ns_def sample_moves_def with_mapping_def
        register_mapped_private_identity_def sample_moved_def sample_move_def)
qed

theorem stored_paths_follow_moves_witness:
  "path_components (namespace_remap_path sample_moved ''/disk/input/a.png'') = [''usb'', ''input'', ''a.png'']"
proof -
  have paths: "namespace_path sample_moved Input = [''usb'', ''input'']"
    by (simp add: sample_moved_def sample_moves_def sample_move_def namespace_path_def)
  have "path_is_absolute (namespace_remap_path sample_moved ''/disk/input/a.png'')
    \<and> path_components (namespace_remap_path sample_moved ''/disk/input/a.png'') = namespace_path sample_moved Input @ [''a.png'']
    \<and> ns_mappings sample_moved = sample_moves
    \<and> (\<forall>other. Input \<in> movable \<longrightarrow> other \<noteq> Input \<longrightarrow>
        \<not> overlaps (namespace_path sample_moved Input) (namespace_path sample_moved other))"
    by (rule stored_paths_follow_moves [OF sample_namespace, where location = "[''disk'', ''input'']"])
      (auto simp: sample_moves_def sample_move_def plain_component_def locations_def sample_moved_def path_is_absolute_def
        path_components_def)
  with paths show ?thesis by simp
qed

end
