(* ===== verification/Activation_World.thy ===== *)
theory Activation_World
  imports Account_Transition Activity_Gate Namespace_Gate Billing_Context Client_State_Writer Namespace_Mapping Fallible_Program
begin

text \<open>
  What an account activation works on (\<open>TransitionCore\<close> in \<open>native-client/src/runtime/account_transition.rs\<close>): the
  gates, the billing context, the upgrade latch and the cleanup debts, which the other theories model and
  which other threads change between any two of its calls; the answers of the writer, of the session
  manager and of the service, each one call here; and the guards it holds, whose drop cleans up.
\<close>

section \<open>State\<close>

record transition_core =
  tc_latch :: upgrade_latch
  tc_debt :: debt_slot
  tc_gate :: namespace_gate
  tc_activity :: activity_state
  tc_billing :: billing_state
  tc_active :: "namespace_lease option"
  tc_active_poisoned :: bool
  tc_user :: "string option"
  tc_registry :: identity_registry

record pending_activation =
  pa_scope :: session_scope
  pa_writer_lease :: "namespace_lease option"
  pa_committed :: bool
  pa_changes_user :: bool

text \<open>
  The guards of \<open>prepare_activation_with_cover\<close>: the transition or, once it is prepared, the publication
  that owns it; the ticket of the billing switch and whether it is armed; the pending activation; the
  logout and the credential cleanup that are owed; the quiesced gate.
\<close>

record activation_guards =
  ag_transition :: "u64 option"
  ag_publication :: "(u64 \<times> namespace_lease) option"
  ag_ticket :: "(pending_billing_switch \<times> bool) option"
  ag_pending :: "pending_activation option"
  ag_remote :: "logout_attempt option"
  ag_cleanup :: "(session_scope \<times> session_cleanup) option"
  ag_quiesced :: "namespace_lease option"

definition no_guards :: activation_guards where
  "no_guards = \<lparr>ag_transition = None, ag_publication = None, ag_ticket = None, ag_pending = None, ag_remote = None,
    ag_cleanup = None, ag_quiesced = None\<rparr>"

text \<open>
  A thread that is still waiting has no result; anything else that is not a success is an error, or the
  panic of an \<open>unreachable!\<close>.
\<close>

datatype activation_stop = StillWaiting | Panicked | Refused api_error

abbreviation refusal :: "string \<Rightarrow> activation_stop" where
  "refusal message \<equiv> Refused (LocalState message)"

datatype activation_event =
    Asked
  | TransitionBegan u64
  | OldLease "namespace_lease option"
  | Quiesced namespace_lease
  | StoreSaved namespace_lease string
  | WriterFlushed namespace_lease
  | GateRetired namespace_lease
  | ActivityRetired namespace_lease
  | ActiveCleared
  | BillingInvalidated
  | UserCleared
  | UiRetired
  | CredentialsCleared session_scope
  | RemoteLoggedOut
  | SessionOpened session_scope
  | BillingBound session_scope
  | SnapshotStaged staged_billing_confirmation
  | ImportsAbsent namespace_lease
  | PublicationPrepared namespace_lease
  | ActivityPrepared namespace_lease
  | WriterActivated namespace_lease
  | WriterDeactivated namespace_lease
  | ScopeCleared session_scope
  | DebtNoted "cleanup_debt option"
  | ProfileSaved namespace_lease string
  | SelectionSaved string string
  | BillingPublished pending_billing_switch
  | NamespacePublished namespace_lease
  | ActiveSet namespace_lease
  | UserShown string
  | ActivityPublished namespace_lease

record activation_view =
  av_others :: "transition_core \<Rightarrow> transition_core"
  av_write :: write_result
  av_unit :: "api_error + unit"
  av_epoch :: "api_error + u64"
  av_owner :: "string option"
  av_groups :: "api_error + account_group_choice list"
  av_selected :: "api_error + string option"
  av_profile :: "api_error + string"
  av_snapshot :: "api_error + account_snapshot"
  av_mappings :: "api_error + account_directory_mapping list"
  av_absent :: bool

record activation_world =
  aw_views :: "nat \<Rightarrow> activation_view"
  aw_clock :: nat
  aw_core :: transition_core
  aw_guards :: activation_guards
  aw_log :: "activation_event list"

type_synonym 'a activation = "(activation_stop, 'a, activation_world) fallible"

text \<open>One call: the other threads act, then the call takes effect.\<close>

definition act ::
  "(activation_view \<Rightarrow> transition_core \<Rightarrow> (activation_stop + 'a) \<times> transition_core \<times> activation_event) \<Rightarrow> 'a activation" where
  "act f w =
    (let v = aw_views w (aw_clock w) in
     case f v (av_others v (aw_core w)) of
       (r, core, event) \<Rightarrow> (r, w\<lparr>aw_clock := Suc (aw_clock w), aw_core := core, aw_log := aw_log w @ [event]\<rparr>))"

definition guards :: "activation_guards activation" where
  "guards w = (Inr (aw_guards w), w)"

definition hold :: "(activation_guards \<Rightarrow> activation_guards) \<Rightarrow> unit activation" where
  "hold f w = (Inr (), w\<lparr>aw_guards := f (aw_guards w)\<rparr>)"

text \<open>
  Three shapes of calls: a change of the state that always succeeds, one that may be refused (the texts
  of refusals are not kept apart), and a question whose answer is given.
\<close>

definition change :: "activation_event \<Rightarrow> (transition_core \<Rightarrow> transition_core) \<Rightarrow> unit activation" where
  "change event f = act (\<lambda>v c. (Inr (), f c, event))"

definition attempt_to ::
  "string \<Rightarrow> ('a \<Rightarrow> activation_event) \<Rightarrow> (transition_core \<Rightarrow> ('e + 'a) \<times> transition_core) \<Rightarrow> 'a activation" where
  "attempt_to message event f = act (\<lambda>v c.
    case f c of (Inl e, c') \<Rightarrow> (Inl (refusal message), c', Asked) | (Inr a, c') \<Rightarrow> (Inr a, c', event a))"

definition ask :: "('a \<Rightarrow> activation_event) \<Rightarrow> (activation_view \<Rightarrow> api_error + 'a) \<Rightarrow> 'a activation" where
  "ask event f = act (\<lambda>v c. case f v of Inl e \<Rightarrow> (Inl (Refused e), c, Asked) | Inr a \<Rightarrow> (Inr a, c, event a))"

section \<open>Gates\<close>

definition on_gate :: "(namespace_gate \<Rightarrow> 'r \<times> namespace_gate) \<Rightarrow> transition_core \<Rightarrow> 'r \<times> transition_core" where
  "on_gate f c = (case f (tc_gate c) of (r, g) \<Rightarrow> (r, c\<lparr>tc_gate := g\<rparr>))"

definition on_activity_gate :: "(activity_state \<Rightarrow> 'r \<times> activity_state) \<Rightarrow> transition_core \<Rightarrow> 'r \<times> transition_core" where
  "on_activity_gate f c = (case f (tc_activity c) of (r, s) \<Rightarrow> (r, c\<lparr>tc_activity := s\<rparr>))"

definition on_billing :: "(billing_state \<Rightarrow> 'r \<times> billing_state) \<Rightarrow> transition_core \<Rightarrow> 'r \<times> transition_core" where
  "on_billing f c = (case f (tc_billing c) of (r, s) \<Rightarrow> (r, c\<lparr>tc_billing := s\<rparr>))"

definition on_latch :: "(upgrade_latch \<Rightarrow> 'r \<times> upgrade_latch) \<Rightarrow> transition_core \<Rightarrow> 'r \<times> transition_core" where
  "on_latch f c = (case f (tc_latch c) of (r, s) \<Rightarrow> (r, c\<lparr>tc_latch := s\<rparr>))"

text \<open>
  \<open>begin_transition\<close> and \<open>begin_quiesce\<close> wait for other threads; \<open>patience\<close> bounds the number of times this
  thread is woken up.
\<close>

fun await_turn :: "nat \<Rightarrow> 'a option activation \<Rightarrow> 'a activation" where
  "await_turn 0 look = result_is (Inl StillWaiting)"
| "await_turn (Suc patience) look =
    and_then look (\<lambda>found. case found of Some a \<Rightarrow> result_is (Inr a) | None \<Rightarrow> await_turn patience look)"

definition begin_transition :: "nat \<Rightarrow> unit activation" where
  "begin_transition patience =
    and_then (attempt_to ''namespace'' (\<lambda>_. Asked) (on_gate begin_transition_enter)) (\<lambda>_.
    and_then (await_turn patience (act (\<lambda>v c.
        case on_gate begin_transition_wake c of
          (None, c') \<Rightarrow> (Inr None, c', Asked)
        | (Some (Inl e), c') \<Rightarrow> (Inl (refusal ''namespace''), c', Asked)
        | (Some (Inr i), c') \<Rightarrow> (Inr (Some i), c', TransitionBegan i)))) (\<lambda>i.
    hold (\<lambda>g. g\<lparr>ag_transition := Some i\<rparr>)))"

definition begin_quiesce :: "nat \<Rightarrow> namespace_lease \<Rightarrow> unit activation" where
  "begin_quiesce patience lease =
    and_then (attempt_to ''activity'' (\<lambda>_. Asked) (on_activity_gate (begin_quiesce_enter lease))) (\<lambda>_.
    and_then (await_turn patience (act (\<lambda>v c.
        case quiesce_wake lease (tc_activity c) of
          None \<Rightarrow> (Inr None, c, Asked)
        | Some (Inl e) \<Rightarrow> (Inl (refusal ''activity''), c, Asked)
        | Some (Inr l) \<Rightarrow> (Inr (Some l), c, Quiesced l)))) (\<lambda>l.
    hold (\<lambda>g. g\<lparr>ag_quiesced := Some l\<rparr>)))"

definition lock_active :: "namespace_lease option activation" where
  "lock_active = attempt_to ''active namespace'' OldLease
    (\<lambda>c. (if tc_active_poisoned c then Inl () else Inr (tc_active c), c))"

section \<open>Owed cleanup\<close>

text \<open>
  \<open>RetiredSessionCleanup::clear\<close>: the session manager is asked to clear the scope and then whose
  credentials it still keeps; the outcome is a debt. The result is a value: the caller goes on.
\<close>

definition record_debt :: "(cleanup_debt \<Rightarrow> cleanup_debt) \<Rightarrow> unit activation" where
  "record_debt update = act (\<lambda>v c.
    let slot = update_cleanup_debt update (tc_debt c) in (Inr (), c\<lparr>tc_debt := slot\<rparr>, DebtNoted (slot_debt slot)))"

definition clear_session_scope :: "session_scope \<Rightarrow> (api_error + unit) activation" where
  "clear_session_scope scope = act (\<lambda>v c. (Inr (av_unit v), c, if is_ok (av_unit v) then ScopeCleared scope else Asked))"

definition persisted_owner :: "string option activation" where
  "persisted_owner = act (\<lambda>v c. (Inr (av_owner v), c, Asked))"

definition clear_retired_session :: "(credential_cleanup_error + unit) activation" where
  "clear_retired_session =
    and_then guards (\<lambda>g.
    case ag_cleanup g of
      None \<Rightarrow> result_is (Inr (Inr ()))
    | Some (scope, c) \<Rightarrow>
        if \<not> cleanup_armed c then result_is (Inr (Inr ()))
        else
          and_then (hold (\<lambda>g. g\<lparr>ag_cleanup := Some (scope, c\<lparr>cleanup_armed := False\<rparr>)\<rparr>)) (\<lambda>_.
          and_then (clear_session_scope scope) (\<lambda>cleared.
          and_then (if is_ok cleared then persisted_owner else result_is (Inr None)) (\<lambda>retained.
          act (\<lambda>v core.
            case session_cleanup_clear cleared retained c (tc_debt core) of
              (r, _, slot) \<Rightarrow> (Inr r, core\<lparr>tc_debt := slot\<rparr>, if is_ok r then CredentialsCleared scope else DebtNoted (slot_debt slot)))))))"

definition attempt_remote_logout :: "(api_error + unit) activation" where
  "attempt_remote_logout =
    and_then guards (\<lambda>g.
    case ag_remote g of
      None \<Rightarrow> result_is (Inr (Inr ()))
    | Some a \<Rightarrow>
        if \<not> logout_armed a then result_is (Inr (Inr ()))
        else
          and_then (hold (\<lambda>g. g\<lparr>ag_remote := Some (a\<lparr>logout_armed := False, logout_token := None\<rparr>)\<rparr>)) (\<lambda>_.
          and_then (if logout_token a = None then result_is (Inr (Inr ()))
            else act (\<lambda>v c. (Inr (av_unit v), c, if is_ok (av_unit v) then RemoteLoggedOut else Asked))) (\<lambda>answer.
          act (\<lambda>v core.
            case retired_logout_attempt (\<lambda>_ _. answer) a (tc_debt core) of
              (r, _, slot) \<Rightarrow> (Inr r, core\<lparr>tc_debt := slot\<rparr>, if is_ok r then Asked else DebtNoted (slot_debt slot))))))"

text \<open>\<open>PendingActivation::drop\<close>.\<close>

definition drop_pending_activation :: "pending_activation \<Rightarrow> unit activation" where
  "drop_pending_activation p =
    (if pa_committed p \<or> \<not> pa_changes_user p then result_is (Inr ())
     else
       and_then (change BillingInvalidated (\<lambda>c. c\<lparr>tc_billing := invalidate_for_auth_change (tc_billing c)\<rparr>)) (\<lambda>_.
       and_then (case pa_writer_lease p of
           None \<Rightarrow> result_is (Inr ())
         | Some lease \<Rightarrow>
             and_then (act (\<lambda>v c. (Inr (is_ok (av_write v)), c, if is_ok (av_write v) then WriterDeactivated lease else Asked)))
               (\<lambda>deactivated. if deactivated then result_is (Inr ()) else record_debt (\<lambda>d. d\<lparr>debt_candidate_writer := True\<rparr>))) (\<lambda>_.
       and_then (clear_session_scope (pa_scope p)) (\<lambda>cleared.
       and_then (if is_ok cleared then persisted_owner else result_is (Inr None)) (\<lambda>owner.
       record_debt (\<lambda>d. d\<lparr>debt_credentials := \<not> (is_ok cleared \<and> owner = None)\<rparr>))))))"

section \<open>Dropping the guards\<close>

definition drop_held :: "(activation_guards \<Rightarrow> 'g option) \<Rightarrow> (activation_guards \<Rightarrow> activation_guards) \<Rightarrow> ('g \<Rightarrow> unit activation) \<Rightarrow> unit activation" where
  "drop_held held release destructor =
    and_then guards (\<lambda>g. case held g of
      None \<Rightarrow> result_is (Inr ())
    | Some x \<Rightarrow> and_then (hold release) (\<lambda>_. destructor x))"

definition drop_transition :: "u64 \<Rightarrow> unit activation" where
  "drop_transition i = change Asked (\<lambda>c. c\<lparr>tc_gate := transition_drop i (tc_gate c)\<rparr>)"

definition drop_ticket :: "pending_billing_switch \<times> bool \<Rightarrow> unit activation" where
  "drop_ticket t = change Asked (\<lambda>c. c\<lparr>tc_billing := switch_ticket_drop (snd t) (tc_latch c) (fst t) (tc_billing c)\<rparr>)"

definition drop_quiesced :: "namespace_lease \<Rightarrow> unit activation" where
  "drop_quiesced lease = change Asked (\<lambda>c. c\<lparr>tc_activity := quiesced_drop lease (tc_activity c)\<rparr>)"

definition ignored :: "'a activation \<Rightarrow> unit activation" where
  "ignored p = and_then p (\<lambda>_. result_is (Inr ()))"

definition drop_guards :: "unit activation" where
  "drop_guards =
    and_then (drop_held ag_publication (\<lambda>g. g\<lparr>ag_publication := None\<rparr>) (\<lambda>p. drop_transition (fst p))) (\<lambda>_.
    and_then (drop_held ag_ticket (\<lambda>g. g\<lparr>ag_ticket := None\<rparr>) drop_ticket) (\<lambda>_.
    and_then (drop_held ag_pending (\<lambda>g. g\<lparr>ag_pending := None\<rparr>) drop_pending_activation) (\<lambda>_.
    and_then (drop_held ag_quiesced (\<lambda>g. g\<lparr>ag_quiesced := None\<rparr>) drop_quiesced) (\<lambda>_.
    and_then (ignored attempt_remote_logout) (\<lambda>_.
    and_then (ignored clear_retired_session) (\<lambda>_.
    drop_held ag_transition (\<lambda>g. g\<lparr>ag_transition := None\<rparr>) drop_transition))))))"

text \<open>A function that returns, early or not, drops what it holds; a thread that waits keeps it.\<close>

definition dropping :: "unit activation \<Rightarrow> 'a activation \<Rightarrow> 'a activation" where
  "dropping drops p = settle_with p (\<lambda>r.
    if r = Inl StillWaiting then result_is r else and_then drops (\<lambda>_. result_is r))"

end
