(* ===== verification/Activation_Run.thy ===== *)
theory Activation_Run
  imports Activation_World
begin

text \<open>
  The activation of an account (\<open>prepare_activation_with_cover\<close>, \<open>prepare_billing_switch\<close>, \<open>persist\<close> and the
  publication in \<open>advance\<close>, \<open>native-client/src/runtime/account_transition.rs\<close>): a login, a resumed session, a
  switch of the payer or a logout, call by call. The identity upgrade of the file index on macOS is left
  out, and so are a panic of the worker, and the interface thread that no longer wants the result: the mailbox
  between the two, with its cancellation, is in \<open>Account_Transition\<close>.
\<close>

section \<open>Inputs and calls\<close>

text \<open>\<open>Login\<close> names the user and the suggested group; a \<open>Switch\<close> becomes a \<open>PreparedSwitch\<close> before the worker starts.\<close>

datatype activation_input =
    Login string "string option"
  | Resume string
  | Switch session_scope account_group_choice previous_billing_authority
  | PreparedSwitch pending_billing_switch account_group_choice
  | Logout session_scope "string option" bool

record retirement_cover =
  cover_lease :: namespace_lease
  cover_store :: string
  cover_profile :: string

record prepared_activation =
  pr_pending :: pending_activation
  pr_publication :: "(u64 \<times> namespace_lease) option"
  pr_activity :: "namespace_lease option"
  pr_lease :: namespace_lease
  pr_ticket :: pending_billing_switch
  pr_armed :: bool
  pr_staged :: staged_billing_confirmation
  pr_profile :: "string option"
  pr_snapshot :: account_snapshot
  pr_groups :: "account_group_choice list"
  pr_notice :: "string option"

definition transition_refused :: "'a activation" where
  "transition_refused = result_is (Inl (refusal ''transition''))"

definition writer_call :: "activation_event \<Rightarrow> write_result activation" where
  "writer_call event = act (\<lambda>v c. (Inr (av_write v), c, if is_ok (av_write v) then event else Asked))"

definition of_write :: "write_result \<Rightarrow> unit activation" where
  "of_write r = (case r of Inr _ \<Rightarrow> result_is (Inr ()) | Inl _ \<Rightarrow> transition_refused)"

definition retry_client_state_write :: "write_result activation \<Rightarrow> unit activation" where
  "retry_client_state_write call =
    and_then call (\<lambda>r. if r = Inl LocalStateFailure then and_then call of_write else of_write r)"

text \<open>\<open>UpgradeLatch::snapshot\<close> and the debts of earlier transitions.\<close>

definition check_latch :: "unit activation" where
  "check_latch = act (\<lambda>v c.
    case latch_snapshot (tc_latch c) of
      (Some required, l) \<Rightarrow> (Inl (Refused (as_error required)), c\<lparr>tc_latch := l\<rparr>, Asked)
    | (None, l) \<Rightarrow> (Inr (), c\<lparr>tc_latch := l\<rparr>, Asked))"

definition check_debt :: "bool \<Rightarrow> unit activation" where
  "check_debt explicit_login = attempt_to ''debt'' (\<lambda>_. Asked) (\<lambda>c.
    (if slot_poisoned (tc_debt c) then Inl ()
     else case slot_debt (tc_debt c) of
       Some debt \<Rightarrow> if \<not> explicit_login \<or> debt_candidate_writer debt then Inl () else Inr ()
     | None \<Rightarrow> Inr (), c))"

section \<open>Retiring the previous user\<close>

definition persist_cover :: "retirement_cover \<Rightarrow> namespace_lease \<Rightarrow> unit activation" where
  "persist_cover cover old =
    (if cover_lease cover \<noteq> old then transition_refused
     else
       and_then (retry_client_state_write (writer_call (StoreSaved old (cover_store cover)))) (\<lambda>_.
       retry_client_state_write (writer_call (ProfileSaved old (cover_profile cover)))))"

definition flush_for_retirement :: "namespace_lease \<Rightarrow> write_result activation" where
  "flush_for_retirement old = writer_call (WriterFlushed old)"

definition flush_old :: "retirement_cover option \<Rightarrow> namespace_lease \<Rightarrow> unit activation" where
  "flush_old cover old =
    and_then (flush_for_retirement old) (\<lambda>flushed.
    if flushed = Inl LocalStateFailure then
      (case cover of
         None \<Rightarrow> transition_refused
       | Some cover \<Rightarrow> and_then (persist_cover cover old) (\<lambda>_. and_then (flush_for_retirement old) of_write))
    else of_write flushed)"

text \<open>\<open>retire_flushed\<close> of the transition the guard holds.\<close>

definition retire_gate :: "namespace_lease \<Rightarrow> unit activation" where
  "retire_gate old =
    and_then guards (\<lambda>g. case ag_transition g of
      None \<Rightarrow> transition_refused
    | Some i \<Rightarrow> attempt_to ''namespace'' (\<lambda>_. GateRetired old) (on_gate (gate_retire_flushed i old)))"

definition armed_cleanup :: "activation_guards \<Rightarrow> activation_guards" where
  "armed_cleanup g = g\<lparr>
     ag_cleanup := map_option (\<lambda>(scope, c). (scope, c\<lparr>cleanup_armed := True\<rparr>)) (ag_cleanup g),
     ag_remote := map_option (\<lambda>a. a\<lparr>logout_armed := True\<rparr>) (ag_remote g)\<rparr>"

definition retire_namespace :: "nat \<Rightarrow> retirement_cover option \<Rightarrow> namespace_lease \<Rightarrow> unit activation" where
  "retire_namespace patience cover old =
    and_then (begin_quiesce patience old) (\<lambda>_.
    and_then (flush_old cover old) (\<lambda>_.
    and_then (retire_gate old) (\<lambda>_.
    and_then (hold armed_cleanup) (\<lambda>_.
    and_then (hold (\<lambda>g. g\<lparr>ag_quiesced := None\<rparr>)) (\<lambda>_.
    and_then (change (ActivityRetired old) (\<lambda>c. c\<lparr>tc_activity := quiesced_retire old (tc_activity c)\<rparr>)) (\<lambda>_.
    and_then (change ActiveCleared (\<lambda>c. c\<lparr>tc_active := None\<rparr>)) (\<lambda>_.
    and_then (change BillingInvalidated (\<lambda>c. c\<lparr>tc_billing := invalidate_for_auth_change (tc_billing c)\<rparr>)) (\<lambda>_.
    change UserCleared (\<lambda>c. c\<lparr>tc_user := None\<rparr>)))))))))"

definition lease_scope :: "namespace_lease \<Rightarrow> session_scope" where
  "lease_scope lease = \<lparr>scope_owner_user_id = lease_user lease, scope_auth_epoch = lease_auth_epoch lease\<rparr>"

text \<open>The cleanup is prepared before anything irreversible, and armed after it.\<close>

definition own_cleanup :: "activation_input \<Rightarrow> namespace_lease option \<Rightarrow> unit activation" where
  "own_cleanup input old = hold (\<lambda>g. g\<lparr>
     ag_cleanup := map_option (\<lambda>l. (lease_scope l, \<lparr>cleanup_armed = False\<rparr>)) old,
     ag_remote := (case input of
         Logout _ token all \<Rightarrow> Some \<lparr>logout_token = token, logout_all = all, logout_armed = False\<rparr>
       | _ \<Rightarrow> None)\<rparr>)"

definition check_logout :: "activation_input \<Rightarrow> namespace_lease option \<Rightarrow> unit activation" where
  "check_logout input old =
    (case input of
       Logout scope _ _ \<Rightarrow>
         if map_option lease_scope old \<noteq> Some scope then result_is (Inl (Refused AuthenticationRequired))
         else result_is (Inr ())
     | _ \<Rightarrow> result_is (Inr ()))"

text \<open>What is owed after the retirement; each outcome is recorded before any of them is an error.\<close>

definition clear_private_ui :: "bool activation" where
  "clear_private_ui =
    and_then (act (\<lambda>v c. (Inr (is_ok (av_unit v)), c, if is_ok (av_unit v) then UiRetired else Asked))) (\<lambda>cleared.
    and_then (record_debt (\<lambda>d. d\<lparr>debt_private_ui := \<not> cleared\<rparr>)) (\<lambda>_. result_is (Inr cleared)))"

definition clear_retained_session :: "bool activation" where
  "clear_retained_session =
    and_then (act (\<lambda>v c. (Inr (is_ok (av_unit v)), c, Asked))) (\<lambda>cleared.
    and_then (record_debt (\<lambda>d. d\<lparr>debt_credentials := \<not> cleared\<rparr>)) (\<lambda>_. result_is (Inr cleared)))"

definition explicit_login :: "activation_input \<Rightarrow> bool" where
  "explicit_login input = (case input of Login _ _ \<Rightarrow> True | _ \<Rightarrow> False)"

definition clear_credentials :: "activation_input \<Rightarrow> namespace_lease option \<Rightarrow> bool activation" where
  "clear_credentials input old =
    (if old \<noteq> None then and_then clear_retired_session (\<lambda>r. result_is (Inr (is_ok r)))
     else if explicit_login input then clear_retained_session
     else result_is (Inr True))"

definition settle_debts :: "activation_input \<Rightarrow> namespace_lease option \<Rightarrow> unit activation" where
  "settle_debts input old =
    and_then clear_private_ui (\<lambda>ui.
    and_then (clear_credentials input old) (\<lambda>credentials.
    and_then attempt_remote_logout (\<lambda>remote.
    case remote of
      Inl e \<Rightarrow> if from_error e \<noteq> None then result_is (Inl (Refused e)) else transition_refused
    | Inr _ \<Rightarrow> if ui \<and> credentials then result_is (Inr ()) else transition_refused)))"

definition retire_previous :: "nat \<Rightarrow> activation_input \<Rightarrow> retirement_cover option \<Rightarrow> unit activation" where
  "retire_previous patience input cover =
    and_then check_latch (\<lambda>_.
    and_then (check_debt (explicit_login input)) (\<lambda>_.
    and_then (begin_transition patience) (\<lambda>_.
    and_then lock_active (\<lambda>old.
    and_then (own_cleanup input old) (\<lambda>_.
    and_then (check_logout input old) (\<lambda>_.
    and_then (case old of None \<Rightarrow> result_is (Inr ()) | Some l \<Rightarrow> retire_namespace patience cover l) (\<lambda>_.
    settle_debts input old)))))))"

section \<open>Opening the session and preparing the candidate\<close>

definition session_opens :: "string \<Rightarrow> session_scope activation" where
  "session_opens user =
    and_then (ask (\<lambda>epoch. SessionOpened \<lparr>scope_owner_user_id = user, scope_auth_epoch = epoch\<rparr>) av_epoch) (\<lambda>epoch.
    and_then (hold (\<lambda>g. g\<lparr>ag_pending := Some \<lparr>pa_scope = \<lparr>scope_owner_user_id = user, scope_auth_epoch = epoch\<rparr>,
        pa_writer_lease = None, pa_committed = False, pa_changes_user = True\<rparr>\<rparr>)) (\<lambda>_.
    result_is (Inr \<lparr>scope_owner_user_id = user, scope_auth_epoch = epoch\<rparr>)))"

text \<open>The payer of the new session: its groups, the choice, a switch ticket and its confirmation.\<close>

definition stage_switch ::
  "pending_billing_switch \<Rightarrow> account_group_choice \<Rightarrow> account_snapshot \<Rightarrow> staged_billing_confirmation activation" where
  "stage_switch ticket choice snapshot =
    attempt_to ''billing'' SnapshotStaged
      (\<lambda>c. on_billing (stage_confirmation (is_ok (fst (latch_apply_if_open () (tc_latch c)))) ticket choice snapshot) c)"

definition choose_payer ::
  "uuid_parser \<Rightarrow> string \<Rightarrow> session_scope \<Rightarrow> string option
    \<Rightarrow> (pending_billing_switch \<times> staged_billing_confirmation \<times> account_snapshot \<times> account_group_choice list) activation" where
  "choose_payer parse_uuid device scope suggestion =
    and_then (attempt_to ''billing'' (\<lambda>_. BillingBound scope) (on_billing (bind_authenticated_session scope))) (\<lambda>_.
    and_then (ask (\<lambda>_. Asked) av_groups) (\<lambda>listed.
    and_then (ask (\<lambda>_. Asked) av_selected) (\<lambda>saved.
    case choose_candidate listed saved suggestion of
      Inl _ \<Rightarrow> transition_refused
    | Inr choice \<Rightarrow>
        and_then (attempt_to ''billing'' (\<lambda>_. Asked)
            (on_billing (begin_switch parse_uuid scope device (group_id choice) StillValid))) (\<lambda>ticket.
        and_then (hold (\<lambda>g. g\<lparr>ag_ticket := Some (ticket, True)\<rparr>)) (\<lambda>_.
        and_then (ask (\<lambda>_. Asked) av_snapshot) (\<lambda>snapshot.
        and_then (stage_switch ticket choice snapshot) (\<lambda>staged.
        result_is (Inr (ticket, staged, snapshot, listed)))))))))"

definition on_registry ::
  "(identity_registry \<Rightarrow> (mapping_error + user_namespace) \<times> identity_registry) \<Rightarrow> transition_core
    \<Rightarrow> (mapping_error + user_namespace) \<times> transition_core" where
  "on_registry f c = (case f (tc_registry c) of (r, registry) \<Rightarrow> (r, c\<lparr>tc_registry := registry\<rparr>))"

definition load_namespace :: "uuid_parser \<Rightarrow> path \<Rightarrow> string \<Rightarrow> user_namespace activation" where
  "load_namespace parse_uuid data_root user =
    and_then (ask (\<lambda>_. Asked) av_mappings) (\<lambda>mappings.
    attempt_to ''directories'' (\<lambda>_. Asked)
      (on_registry (load_account_directory_namespace parse_uuid data_root user mappings)))"

definition open_authority :: "unit activation" where
  "open_authority = ask (\<lambda>_. Asked) av_unit"

definition rebind_directories :: "uuid_parser \<Rightarrow> user_namespace \<Rightarrow> user_namespace activation" where
  "rebind_directories parse_uuid ns =
    (if ns_mappings ns = [] then result_is (Inr ns)
     else
       and_then (ask (\<lambda>_. Asked) av_unit) (\<lambda>_.
       and_then (ask (\<lambda>_. Asked) av_mappings) (\<lambda>saved.
       attempt_to ''directories'' (\<lambda>_. Asked) (on_registry (complete_directory_rebind parse_uuid saved ns)))))"

text \<open>\<open>u64 \<times> namespace_lease\<close> is the proof that nothing unsupported waits to be imported.\<close>

definition recover_unpublished :: "u64 \<Rightarrow> namespace_lease \<Rightarrow> (u64 \<times> namespace_lease) activation" where
  "recover_unpublished i lease =
    and_then (attempt_to ''namespace'' (\<lambda>_. Asked) (\<lambda>c. (begin_prepublication_recovery i lease (tc_gate c), c))) (\<lambda>phase.
    and_then (act (\<lambda>v c. case verify_no_unsupported_imports lease (av_absent v) phase of
        (Inl _, _) \<Rightarrow> (Inl (refusal ''imports''), c, Asked)
      | (Inr _, checked) \<Rightarrow> (Inr checked, c, ImportsAbsent lease))) (\<lambda>checked.
    case recovery_finish checked of Inl _ \<Rightarrow> transition_refused | Inr recovered \<Rightarrow> result_is (Inr recovered)))"

text \<open>\<open>prepare_publication\<close> consumes the transition: a refusal drops it.\<close>

definition take_publication :: "u64 \<Rightarrow> namespace_lease \<Rightarrow> u64 \<times> namespace_lease \<Rightarrow> unit activation" where
  "take_publication i lease recovered =
    and_then (hold (\<lambda>g. g\<lparr>ag_transition := None\<rparr>)) (\<lambda>_.
    settle_with
      (attempt_to ''namespace'' (\<lambda>_. PublicationPrepared lease) (\<lambda>c. (prepare_publication i lease recovered (tc_gate c), c)))
      (\<lambda>r. case r of
         Inl e \<Rightarrow> and_then (drop_transition i) (\<lambda>_. result_is (Inl e))
       | Inr p \<Rightarrow> hold (\<lambda>g. g\<lparr>ag_publication := Some p\<rparr>)))"

definition load_candidate ::
  "uuid_parser \<Rightarrow> path \<Rightarrow> u64 \<Rightarrow> session_scope \<Rightarrow> namespace_lease activation" where
  "load_candidate parse_uuid data_root ticket scope =
    and_then (load_namespace parse_uuid data_root (scope_owner_user_id scope)) (\<lambda>ns.
    and_then open_authority (\<lambda>_.
    and_then (rebind_directories parse_uuid ns) (\<lambda>ns'.
    and_then open_authority (\<lambda>_.
    result_is (Inr \<lparr>lease_namespace = ns', lease_auth_epoch = scope_auth_epoch scope, lease_namespace_epoch = ticket\<rparr>)))))"

definition admit_candidate :: "namespace_lease \<Rightarrow> string option activation" where
  "admit_candidate lease =
    and_then guards (\<lambda>g. case ag_transition g of
      None \<Rightarrow> transition_refused
    | Some i \<Rightarrow>
        and_then (recover_unpublished i lease) (\<lambda>recovered.
        and_then (ask (\<lambda>_. Asked) av_unit) (\<lambda>_.
        and_then (ask (\<lambda>_. Asked) av_selected) (\<lambda>profile.
        and_then (take_publication i lease recovered) (\<lambda>_.
        and_then (attempt_to ''activity'' ActivityPrepared (\<lambda>c. (prepare_activation lease (tc_activity c), c))) (\<lambda>_.
        and_then (writer_call (WriterActivated lease)) (\<lambda>r.
        and_then (of_write r) (\<lambda>_.
        and_then (hold (\<lambda>g. g\<lparr>ag_pending := map_option (\<lambda>p. p\<lparr>pa_writer_lease := Some lease\<rparr>) (ag_pending g)\<rparr>)) (\<lambda>_.
        result_is (Inr profile))))))))))"

text \<open>The prepared activation takes the guards that are left.\<close>

definition take_prepared ::
  "namespace_lease \<Rightarrow> pending_billing_switch \<Rightarrow> staged_billing_confirmation \<Rightarrow> string option \<Rightarrow> account_snapshot
    \<Rightarrow> account_group_choice list \<Rightarrow> string option \<Rightarrow> prepared_activation activation" where
  "take_prepared lease ticket staged profile snapshot groups notice =
    and_then guards (\<lambda>g. case ag_pending g of
      None \<Rightarrow> transition_refused
    | Some pending \<Rightarrow>
        and_then (hold (\<lambda>g. g\<lparr>ag_pending := None, ag_ticket := None, ag_publication := None\<rparr>)) (\<lambda>_.
        result_is (Inr \<lparr>pr_pending = pending, pr_publication = ag_publication g,
          pr_activity = (if ag_publication g = None then None else Some lease), pr_lease = lease, pr_ticket = ticket,
          pr_armed = True, pr_staged = staged, pr_profile = profile, pr_snapshot = snapshot, pr_groups = groups,
          pr_notice = notice\<rparr>)))"

definition prepare_candidate ::
  "uuid_parser \<Rightarrow> string \<Rightarrow> path \<Rightarrow> u64 \<Rightarrow> session_scope \<Rightarrow> string option \<Rightarrow> prepared_activation activation" where
  "prepare_candidate parse_uuid device data_root ticket scope suggestion =
    and_then (choose_payer parse_uuid device scope suggestion) (\<lambda>(billing, staged, snapshot, listed).
    and_then (load_candidate parse_uuid data_root ticket scope) (\<lambda>lease.
    and_then (admit_candidate lease) (\<lambda>profile.
    and_then (ask (\<lambda>_. Asked) av_selected) (\<lambda>notice.
    take_prepared lease billing staged profile snapshot listed notice))))"

definition open_session ::
  "uuid_parser \<Rightarrow> string \<Rightarrow> path \<Rightarrow> u64 \<Rightarrow> activation_input \<Rightarrow> prepared_activation option activation" where
  "open_session parse_uuid device data_root ticket input =
    (case input of
       Logout _ _ _ \<Rightarrow> result_is (Inr None)
     | Login user suggestion \<Rightarrow>
         and_then (session_opens user) (\<lambda>scope.
         and_then (prepare_candidate parse_uuid device data_root ticket scope suggestion) (\<lambda>p. result_is (Inr (Some p))))
     | Resume owner \<Rightarrow>
         and_then (session_opens owner) (\<lambda>scope.
         and_then (prepare_candidate parse_uuid device data_root ticket scope None) (\<lambda>p. result_is (Inr (Some p))))
     | _ \<Rightarrow> result_is (Inl Panicked))"

section \<open>Switching the payer\<close>

definition prepare_billing_switch ::
  "pending_billing_switch \<Rightarrow> account_group_choice \<Rightarrow> prepared_activation activation" where
  "prepare_billing_switch ticket choice =
    (let scope = request_session (billing_request (pend_scope ticket)) in
     and_then (hold (\<lambda>g. g\<lparr>ag_ticket := Some (ticket, True)\<rparr>)) (\<lambda>_.
     and_then lock_active (\<lambda>active.
     case active of
       None \<Rightarrow> result_is (Inl (Refused AuthenticationRequired))
     | Some lease \<Rightarrow>
         if lease_scope lease \<noteq> scope then result_is (Inl (Refused AuthenticationRequired))
         else
           and_then (ask (\<lambda>_. Asked) av_snapshot) (\<lambda>snapshot.
           and_then (stage_switch ticket choice snapshot) (\<lambda>staged.
           and_then (ask (\<lambda>_. Asked) av_groups) (\<lambda>listed.
           and_then (hold (\<lambda>g. g\<lparr>ag_pending := Some \<lparr>pa_scope = scope, pa_writer_lease = None, pa_committed = False,
               pa_changes_user = False\<rparr>\<rparr>)) (\<lambda>_.
           take_prepared lease ticket staged None snapshot listed None)))))))"

section \<open>The preparation\<close>

definition prepare_activation_with_cover ::
  "uuid_parser \<Rightarrow> string \<Rightarrow> path \<Rightarrow> nat \<Rightarrow> u64 \<Rightarrow> activation_input \<Rightarrow> retirement_cover option
    \<Rightarrow> prepared_activation option activation" where
  "prepare_activation_with_cover parse_uuid device data_root patience ticket input cover =
    dropping drop_guards
      (case input of
         PreparedSwitch billing choice \<Rightarrow>
           and_then (prepare_billing_switch billing choice) (\<lambda>p. result_is (Inr (Some p)))
       | _ \<Rightarrow>
           and_then (retire_previous patience input cover) (\<lambda>_.
           open_session parse_uuid device data_root ticket input))"

section \<open>Persisting and publishing\<close>

text \<open>A prepared activation is dropped field by field.\<close>

definition drop_prepared :: "prepared_activation \<Rightarrow> unit activation" where
  "drop_prepared p =
    and_then (drop_pending_activation (pr_pending p)) (\<lambda>_.
    and_then (case pr_publication p of None \<Rightarrow> result_is (Inr ()) | Some q \<Rightarrow> drop_transition (fst q)) (\<lambda>_.
    drop_ticket (pr_ticket p, pr_armed p)))"

definition drop_commit_permit :: "unit activation" where
  "drop_commit_permit = change Asked (\<lambda>c. c\<lparr>tc_latch := permit_drop OrdinaryDurableCommit (tc_latch c)\<rparr>)"

definition begin_commit :: "unit activation" where
  "begin_commit = act (\<lambda>v c.
    case latch_begin OrdinaryDurableCommit (tc_latch c) of
      (Inl required, l) \<Rightarrow> (Inl (Refused (as_error required)), c\<lparr>tc_latch := l\<rparr>, Asked)
    | (Inr _, l) \<Rightarrow> (Inr (), c\<lparr>tc_latch := l\<rparr>, Asked))"

definition failing_with :: "unit activation \<Rightarrow> 'a activation \<Rightarrow> 'a activation" where
  "failing_with drops p = settle_with p (\<lambda>r.
    case r of Inl e \<Rightarrow> and_then drops (\<lambda>_. result_is (Inl e)) | Inr a \<Rightarrow> result_is (Inr a))"

definition save_profile :: "prepared_activation \<Rightarrow> unit activation" where
  "save_profile p =
    (case pr_profile p of
       None \<Rightarrow> result_is (Inr ())
     | Some profile \<Rightarrow> retry_client_state_write (writer_call (ProfileSaved (pr_lease p) profile)))"

definition save_selection :: "prepared_activation \<Rightarrow> unit activation" where
  "save_selection p =
    (let save = writer_call (SelectionSaved (lease_user (pr_lease p))
           (request_account_group_id (billing_request (pend_scope (pr_ticket p))))) in
     and_then save (\<lambda>r. if is_ok r then result_is (Inr ()) else and_then save of_write))"

definition persist :: "prepared_activation \<Rightarrow> prepared_activation activation" where
  "persist p =
    and_then (failing_with (drop_prepared p) begin_commit) (\<lambda>_.
    and_then (failing_with (and_then drop_commit_permit (\<lambda>_. drop_prepared p)) (save_profile p)) (\<lambda>_.
    and_then (failing_with (and_then (drop_prepared p) (\<lambda>_. drop_commit_permit)) (save_selection p)) (\<lambda>_.
    result_is (Inr (p\<lparr>pr_armed := False\<rparr>)))))"

text \<open>
  The \<open>Saved\<close> arm of \<open>advance\<close>: with the latch open everything is published, otherwise the worker gets
  the activation back to drop it. The latch is locked until \<open>committed\<close> is set.
\<close>

definition check_open :: "unit activation" where
  "check_open = act (\<lambda>v c.
    case latch_apply_if_open () (tc_latch c) of
      (Inl required, l) \<Rightarrow> (Inl (Refused (as_error required)), c\<lparr>tc_latch := l\<rparr>, Asked)
    | (Inr _, l) \<Rightarrow> (Inr (), c\<lparr>tc_latch := l\<rparr>, Asked))"

definition publish_activation :: "prepared_activation \<Rightarrow> unit activation" where
  "publish_activation p =
    and_then (failing_with (and_then (drop_prepared p) (\<lambda>_. drop_commit_permit)) check_open) (\<lambda>_.
    and_then (change (BillingPublished (pr_ticket p))
        (\<lambda>c. c\<lparr>tc_billing := publish_persisted (pr_ticket p) (pr_staged p) (tc_billing c)\<rparr>)) (\<lambda>_.
    and_then (case pr_publication p of
        None \<Rightarrow> result_is (Inr ())
      | Some q \<Rightarrow> change (NamespacePublished (snd q)) (\<lambda>c. c\<lparr>tc_gate := gate_publish q (tc_gate c)\<rparr>)) (\<lambda>_.
    and_then (change (ActiveSet (pr_lease p)) (\<lambda>c. c\<lparr>tc_active := Some (pr_lease p)\<rparr>)) (\<lambda>_.
    and_then (change (UserShown (lease_user (pr_lease p))) (\<lambda>c. c\<lparr>tc_user := Some (lease_user (pr_lease p))\<rparr>)) (\<lambda>_.
    and_then (case pr_activity p of
        None \<Rightarrow> result_is (Inr ())
      | Some l \<Rightarrow> change (ActivityPublished l) (\<lambda>c. c\<lparr>tc_activity := publish_prepared l (tc_activity c)\<rparr>)) (\<lambda>_.
    drop_commit_permit))))))"

text \<open>
  The worker and the interface thread together. The interface prepares the models from what was loaded, which
  gives the profile that is saved. The result says whether somebody is logged in.
\<close>

definition prepare_models :: "prepared_activation \<Rightarrow> prepared_activation activation" where
  "prepare_models p =
    and_then (failing_with (drop_prepared p) (ask (\<lambda>_. Asked) av_profile)) (\<lambda>profile.
    result_is (Inr (p\<lparr>pr_profile := Some profile\<rparr>)))"

definition activate_account ::
  "uuid_parser \<Rightarrow> string \<Rightarrow> path \<Rightarrow> nat \<Rightarrow> u64 \<Rightarrow> activation_input \<Rightarrow> retirement_cover option \<Rightarrow> bool activation" where
  "activate_account parse_uuid device data_root patience ticket input cover =
    and_then (prepare_activation_with_cover parse_uuid device data_root patience ticket input cover) (\<lambda>prepared.
    case prepared of
      None \<Rightarrow> result_is (Inr False)
    | Some p \<Rightarrow>
        and_then (prepare_models p) (\<lambda>p.
        and_then (persist p) (\<lambda>p.
        and_then (publish_activation p) (\<lambda>_. result_is (Inr True)))))"

end
