(* ===== verification/Activation_Log.thy ===== *)
theory Activation_Log
  imports Activation_Run "HOL-Library.Sublist"
begin

text \<open>
  What the calls of an activation leave in its log: which events a call can add at all, and which events,
  in order, it has added when it succeeded.
\<close>

section \<open>Possible events\<close>

abbreviation may_log :: "(activation_event \<Rightarrow> bool) \<Rightarrow> 'a activation \<Rightarrow> bool" where
  "may_log \<equiv> logs aw_views aw_log"

lemma may_log_act:
  assumes "\<And>v c. P (snd (snd (f v c)))"
  shows "may_log P (act f)"
proof (rule logsI)
  fix w r w'
  assume run: "act f w = (r, w')"
  let ?v = "aw_views w (aw_clock w)" and ?c = "av_others (aw_views w (aw_clock w)) (aw_core w)"
  obtain r0 core event where "f ?v ?c = (r0, core, event)" by (rule prod_cases3)
  with run assms [of ?v ?c] show "aw_views w' = aw_views w \<and> (\<exists>es. aw_log w' = aw_log w @ es \<and> list_all P es)"
    by (auto simp: act_def)
qed

lemma may_log_guards [logging]: "may_log P guards"
  by (rule logsI) (auto simp: guards_def)

lemma may_log_hold [logging]: "may_log P (hold f)"
  by (rule logsI) (auto simp: hold_def)

lemma may_log_change [logging]: "P event \<Longrightarrow> may_log P (change event f)"
  unfolding change_def by (rule may_log_act) simp

lemma may_log_attempt_to [logging]: "P Asked \<Longrightarrow> (\<And>a. P (event a)) \<Longrightarrow> may_log P (attempt_to message event f)"
  unfolding attempt_to_def by (rule may_log_act) (auto split: prod.splits sum.splits)

lemma may_log_ask [logging]: "P Asked \<Longrightarrow> (\<And>a. P (event a)) \<Longrightarrow> may_log P (ask event f)"
  unfolding ask_def by (rule may_log_act) (auto split: sum.splits)

lemma may_log_await_turn [logging]: "may_log P look \<Longrightarrow> may_log P (await_turn patience look)"
  by (induction patience) (auto intro!: logging split: option.splits)

lemma may_log_dropping [logging]: "may_log P drops \<Longrightarrow> may_log P p \<Longrightarrow> may_log P (dropping drops p)"
  unfolding dropping_def by (intro logging)

lemma may_log_failing_with [logging]: "may_log P drops \<Longrightarrow> may_log P p \<Longrightarrow> may_log P (failing_with drops p)"
  unfolding failing_with_def by (intro logging)

lemma may_log_refused [logging]: "may_log P transition_refused"
  unfolding transition_refused_def by (intro logging)

lemma logged_more: "may_log P p \<Longrightarrow> p w = (r, w') \<Longrightarrow> \<exists>es. aw_log w' = aw_log w @ es \<and> list_all P es"
  by (erule logsE) auto

section \<open>Nothing but the login opens a session\<close>

fun opens :: "activation_event \<Rightarrow> bool" where
  "opens (SessionOpened _) = True"
| "opens _ = False"

abbreviation no_opening :: "'a activation \<Rightarrow> bool" where
  "no_opening \<equiv> may_log (\<lambda>e. \<not> opens e)"

named_theorems silent

lemma no_opening_gates [silent]:
  "no_opening (begin_transition patience)" "no_opening (begin_quiesce patience l)" "no_opening lock_active"
  unfolding begin_transition_def begin_quiesce_def lock_active_def
  by (intro logging may_log_act; simp split: prod.split option.split sum.split)+

lemma no_opening_debts [silent]:
  "no_opening (record_debt u)" "no_opening (clear_session_scope scope)" "no_opening persisted_owner"
  unfolding record_debt_def clear_session_scope_def persisted_owner_def
  by (rule may_log_act; simp add: Let_def split: prod.split)+

lemma no_opening_owed [silent]:
  "no_opening clear_retired_session" "no_opening attempt_remote_logout" "no_opening (drop_pending_activation p)"
  unfolding clear_retired_session_def attempt_remote_logout_def drop_pending_activation_def
  by (auto intro!: logging silent may_log_act split: prod.splits if_splits)

lemma no_opening_drops [silent]: "no_opening drop_guards"
  unfolding drop_guards_def drop_held_def ignored_def drop_transition_def drop_ticket_def drop_quiesced_def
  by (auto intro!: logging silent)

lemma no_opening_writer [silent]:
  "\<not> opens event \<Longrightarrow> no_opening (writer_call event)" "no_opening (of_write r)"
  unfolding writer_call_def of_write_def by (auto intro!: logging may_log_act split: if_splits)

lemma no_opening_retry [silent]: "no_opening call \<Longrightarrow> no_opening (retry_client_state_write call)"
  unfolding retry_client_state_write_def by (auto intro!: logging silent)

lemma no_opening_checks [silent]: "no_opening check_latch" "no_opening (check_debt b)" "no_opening (own_cleanup input old)"
  "no_opening (check_logout input old)"
  unfolding check_latch_def check_debt_def own_cleanup_def check_logout_def
  by (auto intro!: logging may_log_act split: prod.splits option.splits activation_input.splits)

lemma no_opening_flush [silent]: "no_opening (flush_old cover old)"
  unfolding flush_old_def flush_for_retirement_def persist_cover_def by (auto intro!: logging silent)

lemma no_opening_retire [silent]: "no_opening (retire_namespace patience cover old)"
  unfolding retire_namespace_def retire_gate_def by (auto intro!: logging silent)

lemma no_opening_settle [silent]: "no_opening (settle_debts input old)"
  unfolding settle_debts_def clear_private_ui_def clear_credentials_def clear_retained_session_def
  by (auto intro!: logging silent may_log_act split: if_splits)

lemma no_opening_retire_previous [silent]: "no_opening (retire_previous patience input cover)"
  unfolding retire_previous_def by (auto intro!: logging silent)

lemma no_opening_switch [silent]: "no_opening (stage_switch ticket choice snapshot)"
  unfolding stage_switch_def by (intro logging) simp_all

lemma no_opening_payer [silent]: "no_opening (choose_payer parse_uuid device scope suggestion)"
  unfolding choose_payer_def by (auto intro!: logging silent)

lemma no_opening_load [silent]: "no_opening (load_candidate parse_uuid data_root ticket scope)"
  unfolding load_candidate_def load_namespace_def open_authority_def rebind_directories_def
  by (auto intro!: logging silent)

lemma no_opening_admit [silent]: "no_opening (admit_candidate lease)"
  unfolding admit_candidate_def recover_unpublished_def take_publication_def drop_transition_def
  by (auto intro!: logging silent may_log_act split: prod.splits sum.splits option.splits)

lemma no_opening_take [silent]: "no_opening (take_prepared lease ticket staged profile snapshot groups notice)"
  unfolding take_prepared_def by (auto intro!: logging silent)

lemma no_opening_prepare [silent]:
  "no_opening (prepare_candidate parse_uuid device data_root ticket scope suggestion)"
  "no_opening (prepare_billing_switch billing choice)"
  unfolding prepare_candidate_def prepare_billing_switch_def Let_def
  by (auto intro!: logging silent split: prod.split)

lemma no_opening_commit [silent]:
  "no_opening (drop_prepared p)" "no_opening drop_commit_permit" "no_opening begin_commit" "no_opening check_open"
  unfolding drop_prepared_def drop_commit_permit_def begin_commit_def check_open_def drop_ticket_def drop_transition_def
  by (auto intro!: logging silent may_log_act split: prod.splits sum.splits option.splits)

lemma no_opening_persist [silent]:
  "no_opening (persist p)" "no_opening (publish_activation p)" "no_opening (prepare_models p)"
  unfolding persist_def publish_activation_def prepare_models_def save_profile_def save_selection_def Let_def
  by (auto intro!: logging silent)

section \<open>What a success has logged\<close>

definition achieves :: "('a \<Rightarrow> activation_event list \<Rightarrow> bool) \<Rightarrow> 'a activation \<Rightarrow> bool" where
  "achieves Q p = (\<forall>w a w'. p w = (Inr a, w') \<longrightarrow> (\<exists>es. aw_log w' = aw_log w @ es \<and> Q a es))"

abbreviation in_order :: "activation_event list \<Rightarrow> 'a activation \<Rightarrow> bool" where
  "in_order xs \<equiv> achieves (\<lambda>_. subseq xs)"

lemma yieldsE:
  assumes "achieves Q p" and "p w = (Inr a, w')"
  obtains es where "aw_log w' = aw_log w @ es" and "Q a es"
  using assms unfolding achieves_def by meson

lemma achieves_and_then:
  assumes "achieves Q p" and "\<And>a. achieves (R a) (f a)"
  shows "achieves (\<lambda>b es. \<exists>a es1 es2. es = es1 @ es2 \<and> Q a es1 \<and> R a b es2) (and_then p f)"
  unfolding achieves_def
proof (intro allI impI)
  fix w b w'
  assume "and_then p f w = (Inr b, w')"
  then obtain a w1 where p: "p w = (Inr a, w1)" and f: "f a w1 = (Inr b, w')" by (auto simp: and_then_ok)
  obtain es1 where es1: "aw_log w1 = aw_log w @ es1" "Q a es1" using yieldsE [OF assms(1) p] .
  obtain es2 where es2: "aw_log w' = aw_log w1 @ es2" "R a b es2" using yieldsE [OF assms(2) f] .
  from es1 es2 show "\<exists>es. aw_log w' = aw_log w @ es \<and> (\<exists>a es1 es2. es = es1 @ es2 \<and> Q a es1 \<and> R a b es2)"
    by auto
qed

lemma achieves_mono: "achieves Q p \<Longrightarrow> (\<And>a es. Q a es \<Longrightarrow> R a es) \<Longrightarrow> achieves R p"
  unfolding achieves_def by meson

lemma achieves_result_is: "achieves (\<lambda>a es. r = Inr a \<and> es = []) (result_is r)"
  by (auto simp: achieves_def)

lemma achieves_bind:
  assumes "achieves Q p" and "\<And>a. achieves (\<lambda>b es2. \<forall>es1. Q a es1 \<longrightarrow> R b (es1 @ es2)) (f a)"
  shows "achieves R (and_then p f)"
  by (rule achieves_mono [OF achieves_and_then [OF assms]]) auto

lemma in_order_and_then: "in_order xs p \<Longrightarrow> (\<And>a. in_order ys (f a)) \<Longrightarrow> in_order (xs @ ys) (and_then p f)"
  by (rule achieves_mono [OF achieves_and_then]) (auto intro: list_emb_append_mono)

lemma in_order_after: "in_order [] p \<Longrightarrow> (\<And>a. in_order ys (f a)) \<Longrightarrow> in_order ys (and_then p f)"
  using in_order_and_then [of "[]" p ys f] by simp

lemma in_order_then: "in_order [x] p \<Longrightarrow> (\<And>a. in_order ys (f a)) \<Longrightarrow> in_order (x # ys) (and_then p f)"
  using in_order_and_then [of "[x]" p ys f] by simp

lemma in_order_silent: "may_log P p \<Longrightarrow> in_order [] p"
  unfolding achieves_def by (metis logsE list_emb_Nil)

lemma achieves_act:
  assumes "\<And>v c a c' e. f v c = (Inr a, c', e) \<Longrightarrow> Q a [e]"
  shows "achieves Q (act f)"
  using assms by (fastforce simp: achieves_def act_def Let_def split: prod.splits)

lemma achieves_attempt_to:
  assumes "\<And>c a c'. f c = (Inr a, c') \<Longrightarrow> Q a [event a]"
  shows "achieves Q (attempt_to message event f)"
  unfolding attempt_to_def using assms by (auto intro!: achieves_act split: prod.splits sum.splits)

lemma achieves_ask:
  assumes "\<And>a. Q a [event a]"
  shows "achieves Q (ask event f)"
  unfolding ask_def using assms by (auto intro!: achieves_act split: sum.splits)

lemma in_order_change: "in_order [event] (change event f)"
  unfolding change_def by (rule achieves_act) simp

lemma in_order_refused: "achieves Q transition_refused"
  by (simp add: achieves_def transition_refused_def result_is_def)

lemma in_order_error: "achieves Q (result_is (Inl e))"
  by (simp add: achieves_def result_is_def)

lemma in_order_ok: "in_order [] (result_is r)"
  by (auto simp: achieves_def)

lemma achieves_written:
  "achieves (\<lambda>r es. is_ok r \<longrightarrow> es = [event]) (writer_call event)"
  unfolding writer_call_def by (rule achieves_act) auto

lemma in_order_written: "in_order [event] (and_then (writer_call event) of_write)"
  by (rule achieves_bind [OF achieves_written])
    (auto simp: of_write_def is_ok_def intro!: in_order_refused achieves_mono [OF achieves_result_is] split: sum.splits)

lemma in_order_await:
  assumes "achieves (\<lambda>found es. found \<noteq> None \<longrightarrow> subseq xs es) look"
  shows "in_order xs (await_turn patience look)"
proof (induction patience)
  case (Suc patience)
  show ?case unfolding await_turn.simps
  proof (rule achieves_bind [OF assms])
    fix found
    show "achieves (\<lambda>b es2. \<forall>es1. (found \<noteq> None \<longrightarrow> subseq xs es1) \<longrightarrow> subseq xs (es1 @ es2))
       (case found of None \<Rightarrow> await_turn patience look | Some a \<Rightarrow> result_is (Inr a))"
      by (cases found) (auto intro!: achieves_mono [OF Suc.IH] achieves_mono [OF achieves_result_is])
  qed
qed (simp add: in_order_error)

end
