(* ===== verification/Activation_Order.thy ===== *)
theory Activation_Order
  imports Activation_Log
begin

text \<open>
  The order of an activation: the previous user is retired completely before the session of the next one is
  opened, and the events of a successful activation.
\<close>

section \<open>Retirement\<close>

definition retirement :: "namespace_lease \<Rightarrow> activation_event list" where
  "retirement l = [Quiesced l, WriterFlushed l, GateRetired l, ActivityRetired l, ActiveCleared, BillingInvalidated,
     UserCleared]"

definition debts_settled :: "namespace_lease option \<Rightarrow> activation_event list" where
  "debts_settled old = UiRetired # (case old of None \<Rightarrow> [] | Some l \<Rightarrow> [CredentialsCleared (lease_scope l)])"

definition retired_first :: "namespace_lease option \<Rightarrow> activation_event list" where
  "retired_first old = OldLease old # (case old of None \<Rightarrow> [] | Some l \<Rightarrow> retirement l) @ debts_settled old"

lemma in_order_hold: "in_order [] (hold f)"
  by (rule in_order_silent [OF may_log_hold [where P = "\<lambda>_. True"]])

lemma in_order_attempted: "(\<And>a. event a = e) \<Longrightarrow> in_order [e] (attempt_to message event f)"
  by (rule achieves_attempt_to) simp

lemma in_order_attempt: "in_order [] (attempt_to message event f)"
  by (rule achieves_attempt_to) simp

lemma in_order_quiesce: "in_order [Quiesced l] (begin_quiesce patience l)"
proof -
  have "in_order [Quiesced l] (await_turn patience
      (act (\<lambda>v c. case quiesce_wake l (tc_activity c) of None \<Rightarrow> (Inr None, c, Asked)
        | Some (Inl e) \<Rightarrow> (Inl (refusal ''activity''), c, Asked) | Some (Inr l) \<Rightarrow> (Inr (Some l), c, Quiesced l))))"
    by (intro in_order_await achieves_act) (auto simp: quiesce_wake_def split: option.splits sum.splits if_splits)
  from in_order_and_then [OF this in_order_hold] show ?thesis
    unfolding begin_quiesce_def by (intro in_order_after [OF in_order_attempt]) simp
qed

lemma in_order_flush: "in_order [WriterFlushed old] (flush_old cover old)"
  unfolding flush_old_def flush_for_retirement_def
proof (rule achieves_bind [OF achieves_written])
  fix r
  show "achieves (\<lambda>b es2. \<forall>es1. (is_ok r \<longrightarrow> es1 = [WriterFlushed old]) \<longrightarrow> subseq [WriterFlushed old] (es1 @ es2))
     (if r = Inl LocalStateFailure
      then case cover of None \<Rightarrow> transition_refused
           | Some cover \<Rightarrow> and_then (persist_cover cover old) (\<lambda>_. and_then (writer_call (WriterFlushed old)) of_write)
      else of_write r)"
  proof (cases "is_ok r")
    case True
    then have "r \<noteq> Inl LocalStateFailure" by auto
    with True show ?thesis by (auto simp: of_write_def achieves_def result_is_def is_ok_def split: sum.splits)
  next
    case False
    have persisted: "in_order [] (persist_cover c old)" for c
      unfolding persist_cover_def by (rule in_order_silent) (auto intro!: logging silent)
    have "in_order [WriterFlushed old] (and_then (persist_cover c old) (\<lambda>_. and_then (writer_call (WriterFlushed old)) of_write))" for c
      by (rule in_order_after [OF persisted in_order_written])
    then have "achieves (\<lambda>b es2. \<forall>es1. subseq [WriterFlushed old] (es1 @ es2))
        (and_then (persist_cover c old) (\<lambda>_. and_then (writer_call (WriterFlushed old)) of_write))" for c
      by (rule achieves_mono) (blast intro: list_emb_append2)
    with False show ?thesis
      by (auto simp: of_write_def is_ok_def intro!: in_order_refused split: option.splits sum.splits)
  qed
qed

lemma in_order_retire_gate: "in_order [GateRetired old] (retire_gate old)"
  unfolding retire_gate_def
  by (rule in_order_after [OF in_order_silent [OF may_log_guards [where P = "\<lambda>_. True"]]])
    (auto intro!: in_order_refused achieves_attempt_to split: option.splits)

lemma in_order_retirement: "in_order (retirement l) (retire_namespace patience cover l)"
  unfolding retire_namespace_def retirement_def
  by (intro in_order_then [OF in_order_quiesce] in_order_then [OF in_order_flush] in_order_then [OF in_order_retire_gate]
      in_order_after [OF in_order_hold] in_order_then [OF in_order_change] in_order_change)

section \<open>What is owed\<close>

abbreviation keeps :: "(activation_world \<Rightarrow> 'v) \<Rightarrow> 'a activation \<Rightarrow> bool" where
  "keeps g \<equiv> logs g aw_log (\<lambda>_. True)"

abbreviation held_cleanup :: "activation_world \<Rightarrow> (session_scope \<times> session_cleanup) option" where
  "held_cleanup w \<equiv> ag_cleanup (aw_guards w)"

lemma keeps_act [logging]: "keeps (\<lambda>w. g (aw_guards w)) (act f)"
  by (rule logsI) (auto simp: act_def Let_def split: prod.splits)

lemma keeps_guards [logging]: "keeps g guards"
  by (rule logsI) (auto simp: guards_def)

lemma keeps_hold [logging]: "(\<And>x. g (f x) = g x) \<Longrightarrow> keeps (\<lambda>w. g (aw_guards w)) (hold f)"
  by (rule logsI) (auto simp: hold_def)

lemma keeps_calls [logging]:
  "keeps (\<lambda>w. g (aw_guards w)) (change event h)" "keeps (\<lambda>w. g (aw_guards w)) (attempt_to message e h')"
  "keeps (\<lambda>w. g (aw_guards w)) (ask e'' h'')" "keeps (\<lambda>w. g (aw_guards w)) (writer_call event)"
  "keeps (\<lambda>w. g (aw_guards w)) (record_debt u)"
  unfolding change_def attempt_to_def ask_def writer_call_def record_debt_def by (rule keeps_act)+

lemma keeps_await_turn [logging]: "keeps g look \<Longrightarrow> keeps g (await_turn patience look)"
  by (induction patience) (auto intro!: logging)

lemma keepsD: "keeps g p \<Longrightarrow> p w = (r, w') \<Longrightarrow> g w' = g w"
  by (erule logsE) auto

lemma keeps_private_ui: "keeps held_cleanup clear_private_ui"
  unfolding clear_private_ui_def by (auto intro!: logging)

lemma keeps_flush: "keeps held_cleanup (flush_old cover old)"
  unfolding flush_old_def flush_for_retirement_def persist_cover_def retry_client_state_write_def of_write_def
    transition_refused_def
  by (auto intro!: logging)

lemma keeps_quiesce: "keeps held_cleanup (begin_quiesce patience l)"
  unfolding begin_quiesce_def by (intro logging) simp

lemma keeps_retire_gate: "keeps held_cleanup (retire_gate l)"
  unfolding retire_gate_def transition_refused_def by (auto intro!: logging)

lemma retire_namespace_arms:
  assumes "retire_namespace patience cover old w = (Inr u, w')" and "held_cleanup w = Some (scope, c)"
  shows "held_cleanup w' = Some (scope, c\<lparr>cleanup_armed := True\<rparr>)"
proof -
  let ?rest = "and_then (hold (\<lambda>g. g\<lparr>ag_quiesced := None\<rparr>)) (\<lambda>_.
    and_then (change (ActivityRetired old) (\<lambda>c. c\<lparr>tc_activity := quiesced_retire old (tc_activity c)\<rparr>)) (\<lambda>_.
    and_then (change ActiveCleared (\<lambda>c. c\<lparr>tc_active := None\<rparr>)) (\<lambda>_.
    and_then (change BillingInvalidated (\<lambda>c. c\<lparr>tc_billing := invalidate_for_auth_change (tc_billing c)\<rparr>)) (\<lambda>_.
    change UserCleared (\<lambda>c. c\<lparr>tc_user := None\<rparr>)))))"
  obtain a w1 b w2 d w3 e w4 where 1: "begin_quiesce patience old w = (Inr a, w1)" and 2: "flush_old cover old w1 = (Inr b, w2)"
    and 3: "retire_gate old w2 = (Inr d, w3)" and 4: "hold armed_cleanup w3 = (Inr e, w4)" and 5: "?rest w4 = (Inr u, w')"
    using assms(1) by (auto simp: retire_namespace_def and_then_ok)
  have "held_cleanup w3 = Some (scope, c)"
    using assms(2) keepsD [OF keeps_quiesce 1] keepsD [OF keeps_flush 2] keepsD [OF keeps_retire_gate 3] by simp
  with 4 have "held_cleanup w4 = Some (scope, c\<lparr>cleanup_armed := True\<rparr>)" by (auto simp: hold_def armed_cleanup_def)
  moreover have rest: "keeps held_cleanup ?rest" by (intro logging) simp
  ultimately show ?thesis using keepsD [OF rest 5] by simp
qed

lemma private_ui_logged: "achieves (\<lambda>cleared es. cleared \<longrightarrow> subseq [UiRetired] es) clear_private_ui"
  unfolding clear_private_ui_def
proof (rule achieves_bind)
  show "achieves (\<lambda>cleared es. cleared \<longrightarrow> es = [UiRetired])
      (act (\<lambda>v c. (Inr (is_ok (av_unit v)), c, if is_ok (av_unit v) then UiRetired else Asked)))"
    by (rule achieves_act) auto
qed (auto simp: achieves_def and_then_ok record_debt_def act_def Let_def)

lemma retired_session_logged:
  assumes "clear_retired_session w = (Inr (Inr u), w')" and "held_cleanup w = Some (scope, \<lparr>cleanup_armed = True\<rparr>)"
  shows "\<exists>es. aw_log w' = aw_log w @ es \<and> subseq [CredentialsCleared scope] es"
proof -
  let ?clear = "and_then (hold (\<lambda>g. g\<lparr>ag_cleanup := Some (scope, \<lparr>cleanup_armed = False\<rparr>)\<rparr>)) (\<lambda>_.
    and_then (clear_session_scope scope) (\<lambda>cleared.
    and_then (if is_ok cleared then persisted_owner else result_is (Inr None)) (\<lambda>retained.
    act (\<lambda>v core. case session_cleanup_clear cleared retained \<lparr>cleanup_armed = True\<rparr> (tc_debt core) of
      (r, _, slot) \<Rightarrow> (Inr r, core\<lparr>tc_debt := slot\<rparr>,
        if is_ok r then CredentialsCleared scope else DebtNoted (slot_debt slot))))))"
  have run: "?clear w = (Inr (Inr u), w')"
    using assms by (simp add: clear_retired_session_def and_then_def [of guards] guards_def)
  have last: "achieves (\<lambda>r es. is_ok r \<longrightarrow> subseq [CredentialsCleared scope] es)
      (act (\<lambda>v core. case session_cleanup_clear cleared retained \<lparr>cleanup_armed = True\<rparr> (tc_debt core) of
        (r, _, slot) \<Rightarrow> (Inr r, core\<lparr>tc_debt := slot\<rparr>,
          if is_ok r then CredentialsCleared scope else DebtNoted (slot_debt slot))))" for cleared retained
    by (rule achieves_act) (auto split: prod.splits)
  have step: "achieves (\<lambda>r es. is_ok r \<longrightarrow> subseq [CredentialsCleared scope] es) (and_then p f)"
    if "in_order [] p" "\<And>a. achieves (\<lambda>r es. is_ok r \<longrightarrow> subseq [CredentialsCleared scope] es) (f a)" for p :: "'c activation" and f
    by (rule achieves_bind [OF that(1)]) (auto intro: achieves_mono [OF that(2)] list_emb_append2)
  have silent: "in_order [] (clear_session_scope scope)" "in_order [] (if b then persisted_owner else result_is (Inr None))" for b
    by (rule in_order_silent [OF no_opening_debts(2)])
      (rule in_order_silent [OF logs_if [OF no_opening_debts(3) logs_result_is]])
  have "achieves (\<lambda>r es. is_ok r \<longrightarrow> subseq [CredentialsCleared scope] es) ?clear"
    by (intro step in_order_hold silent last)
  from yieldsE [OF this run] show ?thesis by auto
qed

lemma no_opening_settled_credentials: "no_opening (clear_credentials input old)"
  unfolding clear_credentials_def clear_retained_session_def
  by (auto intro!: logging silent may_log_act split: if_splits)

lemma settled_logged:
  assumes "settle_debts input old w = (Inr u, w')"
    and "\<And>l. old = Some l \<Longrightarrow> held_cleanup w = Some (lease_scope l, \<lparr>cleanup_armed = True\<rparr>)"
  shows "\<exists>es. aw_log w' = aw_log w @ es \<and> subseq (debts_settled old) es"
proof -
  obtain ui w1 credentials w2 remote w3 where 1: "clear_private_ui w = (Inr ui, w1)"
    and 2: "clear_credentials input old w1 = (Inr credentials, w2)" and 3: "attempt_remote_logout w2 = (Inr remote, w3)"
    and 4: "(case remote of Inl e \<Rightarrow> if from_error e \<noteq> None then result_is (Inl (Refused e)) else transition_refused
        | Inr _ \<Rightarrow> if ui \<and> credentials then result_is (Inr ()) else transition_refused) w3 = (Inr u, w')"
    using assms(1) unfolding settle_debts_def and_then_ok by blast
  from 4 have ok: "ui" "credentials" "w' = w3"
    by (auto simp: transition_refused_def split: sum.splits if_splits)
  obtain es1 where es1: "aw_log w1 = aw_log w @ es1" "subseq [UiRetired] es1"
    using yieldsE [OF private_ui_logged 1] ok(1) by auto
  obtain es3 where es3: "aw_log w3 = aw_log w2 @ es3"
    using logged_more [OF no_opening_owed(2) 3] by blast
  have held: "held_cleanup w1 = held_cleanup w" by (rule keepsD [OF keeps_private_ui 1])
  have "\<exists>es. aw_log w2 = aw_log w1 @ es \<and> subseq (case old of None \<Rightarrow> [] | Some l \<Rightarrow> [CredentialsCleared (lease_scope l)]) es"
  proof (cases old)
    case None
    with logged_more [OF no_opening_settled_credentials 2] show ?thesis by auto
  next
    case (Some l)
    with 2 ok(2) obtain r where r: "clear_retired_session w1 = (Inr r, w2)" "is_ok r"
      by (auto simp: clear_credentials_def and_then_ok)
    then have "clear_retired_session w1 = (Inr (Inr ()), w2)" by (cases r) auto
    from retired_session_logged [OF this] assms(2) [OF Some] held show ?thesis by (simp add: Some)
  qed
  then obtain es2 where es2: "aw_log w2 = aw_log w1 @ es2"
    "subseq (case old of None \<Rightarrow> [] | Some l \<Rightarrow> [CredentialsCleared (lease_scope l)]) es2"
    by blast
  have "subseq ([UiRetired] @ (case old of None \<Rightarrow> [] | Some l \<Rightarrow> [CredentialsCleared (lease_scope l)]) @ []) (es1 @ es2 @ es3)"
    by (intro list_emb_append_mono es1(2) es2(2)) simp
  moreover have "aw_log w' = aw_log w @ es1 @ es2 @ es3" using es1(1) es2(1) es3 ok(3) by simp
  ultimately show ?thesis unfolding debts_settled_def by (metis append_Cons append_Nil append_Nil2)
qed

text \<open>A success of \<open>retire_previous\<close> has retired whoever was active.\<close>

lemma previous_retired:
  assumes "retire_previous patience input cover w = (Inr u, w')"
  shows "\<exists>old es. aw_log w' = aw_log w @ es \<and> subseq (retired_first old) es"
proof -
  obtain a w1 b w2 c w3 old w4 d w5 e w6 f w7 where 1: "check_latch w = (Inr a, w1)"
    and 2: "check_debt (explicit_login input) w1 = (Inr b, w2)" and 3: "begin_transition patience w2 = (Inr c, w3)"
    and 4: "lock_active w3 = (Inr old, w4)" and 5: "own_cleanup input old w4 = (Inr d, w5)"
    and 6: "check_logout input old w5 = (Inr e, w6)"
    and 7: "(case old of None \<Rightarrow> result_is (Inr ()) | Some l \<Rightarrow> retire_namespace patience cover l) w6 = (Inr f, w7)"
    and 8: "settle_debts input old w7 = (Inr u, w')"
    using assms unfolding retire_previous_def and_then_ok by blast
  have same: "w6 = w5" using 6 by (auto simp: check_logout_def split: activation_input.splits if_splits)
  obtain l1 l2 l3 where logs: "aw_log w1 = aw_log w @ l1" "aw_log w2 = aw_log w1 @ l2" "aw_log w3 = aw_log w2 @ l3"
    using logged_more [OF no_opening_checks(1) 1] logged_more [OF no_opening_checks(2) 2]
      logged_more [OF no_opening_gates(1) 3] by blast
  have "achieves (\<lambda>x es. es = [OldLease x]) lock_active"
    unfolding lock_active_def by (rule achieves_attempt_to) simp
  from yieldsE [OF this 4] have old: "aw_log w4 = aw_log w3 @ [OldLease old]" by auto
  have w5: "aw_log w5 = aw_log w4" "held_cleanup w5 = map_option (\<lambda>l. (lease_scope l, \<lparr>cleanup_armed = False\<rparr>)) old"
    using 5 by (auto simp: own_cleanup_def hold_def)
  have "\<exists>es. aw_log w7 = aw_log w5 @ es \<and> subseq (case old of None \<Rightarrow> [] | Some l \<Rightarrow> retirement l) es"
  proof (cases old)
    case None
    with 7 same show ?thesis by simp
  next
    case (Some l)
    with 7 have "retire_namespace patience cover l w6 = (Inr f, w7)" by simp
    from yieldsE [OF in_order_retirement this] same Some show ?thesis by auto
  qed
  then obtain es1 where es1: "aw_log w7 = aw_log w5 @ es1" "subseq (case old of None \<Rightarrow> [] | Some l \<Rightarrow> retirement l) es1" by blast
  have "held_cleanup w7 = Some (lease_scope l, \<lparr>cleanup_armed = True\<rparr>)" if "old = Some l" for l
    using that 7 w5(2) same retire_namespace_arms [of patience cover l w6 f w7 "lease_scope l"] by simp
  with settled_logged [OF 8] obtain es2 where es2: "aw_log w' = aw_log w7 @ es2" "subseq (debts_settled old) es2" by blast
  have "subseq ([] @ [OldLease old] @ (case old of None \<Rightarrow> [] | Some l \<Rightarrow> retirement l) @ debts_settled old)
     ((l1 @ l2 @ l3) @ [OldLease old] @ es1 @ es2)"
    by (intro list_emb_append_mono es1(2) es2(2)) simp_all
  moreover have "aw_log w' = aw_log w @ (l1 @ l2 @ l3) @ [OldLease old] @ es1 @ es2"
    using logs old w5(1) es1(1) es2(1) by simp
  ultimately show ?thesis unfolding retired_first_def by (metis append_Cons append_Nil)
qed

section \<open>One opening, after the retirement\<close>

definition opened_properly :: "activation_event list \<Rightarrow> bool" where
  "opened_properly es =
    (list_all (\<lambda>e. \<not> opens e) es
     \<or> (\<exists>pre s post old. es = pre @ SessionOpened s # post \<and> list_all (\<lambda>e. \<not> opens e) (pre @ post)
          \<and> subseq (retired_first old) pre))"

lemma opened_properly_more: "opened_properly es \<Longrightarrow> list_all (\<lambda>e. \<not> opens e) es' \<Longrightarrow> opened_properly (es @ es')"
  unfolding opened_properly_def by (metis append_Cons append_assoc list_all_append)

lemma opened_properly_before:
  assumes "opened_properly (pre @ SessionOpened s # post)"
  shows "(\<exists>old. subseq (retired_first old) pre) \<and> list_all (\<lambda>e. \<not> opens e) (pre @ post)"
proof -
  obtain pre' s' post' old where es: "pre @ SessionOpened s # post = pre' @ SessionOpened s' # post'"
    and none: "list_all (\<lambda>e. \<not> opens e) (pre' @ post')" and first: "subseq (retired_first old) pre'"
    using assms by (auto simp: opened_properly_def)
  have "SessionOpened s \<notin> set pre'" "SessionOpened s \<notin> set post'"
    using none by (force simp: list_all_iff)+
  note outside = this
  have "SessionOpened s \<in> set (pre' @ SessionOpened s' # post')" by (simp flip: es)
  with outside have "s' = s" by auto
  with es append_Cons_eq_iff [OF outside] have "pre = pre' \<and> post = post'" by metis
  with none first show ?thesis by blast
qed

definition opens_properly :: "'a activation \<Rightarrow> bool" where
  "opens_properly p = (\<forall>w r w'. p w = (r, w') \<longrightarrow> (\<exists>es. aw_log w' = aw_log w @ es \<and> opened_properly es))"

lemma opens_properly_silent: "no_opening p \<Longrightarrow> opens_properly p"
  unfolding opens_properly_def opened_properly_def by (meson logged_more)

lemma opens_properly_settle:
  assumes "opens_properly p" and "\<And>r. no_opening (f r)"
  shows "opens_properly (settle_with p f)"
  unfolding opens_properly_def
proof (intro allI impI)
  fix w r w'
  assume run: "settle_with p f w = (r, w')"
  obtain x w1 where p: "p w = (x, w1)" by (cases "p w")
  with run have f: "f x w1 = (r, w')" by (simp add: settle_with_def)
  obtain es1 where "aw_log w1 = aw_log w @ es1" "opened_properly es1" using assms(1) p unfolding opens_properly_def by blast
  moreover obtain es2 where "aw_log w' = aw_log w1 @ es2" "list_all (\<lambda>e. \<not> opens e) es2"
    using logged_more [OF assms(2) f] by blast
  ultimately show "\<exists>es. aw_log w' = aw_log w @ es \<and> opened_properly es"
    using opened_properly_more by auto
qed

lemma opens_properly_then: "opens_properly p \<Longrightarrow> (\<And>a. no_opening (f a)) \<Longrightarrow> opens_properly (and_then p f)"
proof -
  have "and_then p f = settle_with p (\<lambda>r. case r of Inl e \<Rightarrow> result_is (Inl e) | Inr a \<Rightarrow> f a)"
    by (auto simp: and_then_def settle_with_def result_is_def fun_eq_iff split: prod.splits sum.splits)
  then show "opens_properly p \<Longrightarrow> (\<And>a. no_opening (f a)) \<Longrightarrow> opens_properly (and_then p f)"
    by (auto intro!: opens_properly_settle logging)
qed

lemma session_opens_logged:
  "session_opens user w = (r, w') \<Longrightarrow>
    aw_log w' = aw_log w @ [case r of Inl _ \<Rightarrow> Asked | Inr scope \<Rightarrow> SessionOpened scope]"
  by (auto simp: session_opens_def and_then_def ask_def act_def hold_def result_is_def Let_def split: sum.splits prod.splits)

lemma opening_after_retirement:
  assumes "\<And>s. no_opening (f s)"
  shows "opens_properly (and_then (retire_previous patience input cover) (\<lambda>_. and_then (session_opens user) f))"
  unfolding opens_properly_def
proof (intro allI impI)
  fix w r w'
  assume run: "and_then (retire_previous patience input cover) (\<lambda>_. and_then (session_opens user) f) w = (r, w')"
  obtain x w1 where p: "retire_previous patience input cover w = (x, w1)" by (cases "retire_previous patience input cover w")
  obtain es1 where es1: "aw_log w1 = aw_log w @ es1" "list_all (\<lambda>e. \<not> opens e) es1"
    using logged_more [OF no_opening_retire_previous p] by blast
  show "\<exists>es. aw_log w' = aw_log w @ es \<and> opened_properly es"
  proof (cases x)
    case (Inl e)
    with run p es1 show ?thesis by (auto simp: and_then_def opened_properly_def)
  next
    case (Inr u)
    obtain y w2 where q: "session_opens user w1 = (y, w2)" by (cases "session_opens user w1")
    from previous_retired [of patience input cover w u w1] p Inr es1(1)
    obtain old where old: "subseq (retired_first old) es1" by auto
    note opened = session_opens_logged [OF q]
    show ?thesis
    proof (cases y)
      case (Inl e)
      with run p q Inr opened es1 show ?thesis by (auto simp: and_then_def opened_properly_def)
    next
      case (Inr s)
      with run p q \<open>x = Inr u\<close> have "f s w2 = (r, w')" by (simp add: and_then_def)
      from logged_more [OF assms this] obtain es2 where "aw_log w' = aw_log w2 @ es2" "list_all (\<lambda>e. \<not> opens e) es2" by blast
      with es1 old opened Inr have "aw_log w' = aw_log w @ es1 @ SessionOpened s # es2" "opened_properly (es1 @ SessionOpened s # es2)"
        by (auto simp: opened_properly_def)
      then show ?thesis by blast
    qed
  qed
qed

lemma activation_opens_properly:
  "opens_properly (activate_account parse_uuid device data_root patience ticket input cover)"
proof -
  have "opens_properly (and_then (retire_previous patience input cover) (\<lambda>_. open_session parse_uuid device data_root ticket input))"
  proof (cases "case input of Login _ _ \<Rightarrow> True | Resume _ \<Rightarrow> True | _ \<Rightarrow> False")
    case True
    then show ?thesis
      by (cases input) (auto simp: open_session_def intro!: opening_after_retirement logging silent)
  next
    case False
    then have "no_opening (open_session parse_uuid device data_root ticket input)"
      by (cases input) (auto simp: open_session_def intro!: logging)
    then show ?thesis by (intro opens_properly_silent logging silent)
  qed
  then have "opens_properly (prepare_activation_with_cover parse_uuid device data_root patience ticket input cover)"
    unfolding prepare_activation_with_cover_def dropping_def
  proof (intro opens_properly_settle)
    assume "opens_properly (and_then (retire_previous patience input cover) (\<lambda>_. open_session parse_uuid device data_root ticket input))"
    moreover have "opens_properly (and_then (prepare_billing_switch billing choice) (\<lambda>p. result_is (Inr (Some p))))" for billing choice
      by (rule opens_properly_silent) (intro logging silent)
    ultimately show "opens_properly (case input of
        PreparedSwitch billing choice \<Rightarrow> and_then (prepare_billing_switch billing choice) (\<lambda>p. result_is (Inr (Some p)))
      | _ \<Rightarrow> and_then (retire_previous patience input cover) (\<lambda>_. open_session parse_uuid device data_root ticket input))"
      by (cases input) simp_all
  qed (auto intro!: logging silent)
  then show ?thesis
    unfolding activate_account_def by (rule opens_properly_then) (auto intro!: logging silent)
qed

end
