(* ===== verification/Activation_Identity.thy ===== *)
theory Activation_Identity
  imports Activation_Order
begin

text \<open>
  A successful activation is for one user: session, payer, namespace, writer and gates all carry the lease of
  the session that it opened, in the order in which they depend on each other.
\<close>

section \<open>Results with their events\<close>

abbreviation orders :: "('a \<Rightarrow> bool) \<Rightarrow> ('a \<Rightarrow> activation_event list) \<Rightarrow> 'a activation \<Rightarrow> bool" where
  "orders R xs \<equiv> achieves (\<lambda>a es. R a \<and> subseq (xs a) es)"

lemma orders_bind:
  assumes "orders K xs p" and "\<And>a. K a \<Longrightarrow> orders R (ys a) (f a)"
    and "\<And>a b. K a \<Longrightarrow> R b \<Longrightarrow> subseq (zs b) (xs a @ ys a b)"
  shows "orders R zs (and_then p f)"
  unfolding achieves_def
proof (intro allI impI)
  fix w b w'
  assume "and_then p f w = (Inr b, w')"
  then obtain a w1 where p: "p w = (Inr a, w1)" and f: "f a w1 = (Inr b, w')" by (auto simp: and_then_ok)
  obtain es1 where es1: "aw_log w1 = aw_log w @ es1" "K a" "subseq (xs a) es1" using yieldsE [OF assms(1) p] by blast
  obtain es2 where es2: "aw_log w' = aw_log w1 @ es2" "R b" "subseq (ys a b) es2"
    using yieldsE [OF assms(2) [OF es1(2)] f] by blast
  have "subseq (zs b) (es1 @ es2)"
    using assms(3) [OF es1(2) es2(2)] list_emb_append_mono [OF es1(3) es2(3)] by (rule subseq_order.order_trans)
  with es1 es2 show "\<exists>es. aw_log w' = aw_log w @ es \<and> R b \<and> subseq (zs b) es" by auto
qed

lemma orders_then: "in_order xs p \<Longrightarrow> (\<And>a. orders R ys (f a)) \<Longrightarrow> orders R (\<lambda>b. xs @ ys b) (and_then p f)"
  by (rule orders_bind [where K = "\<lambda>_. True"]) auto

lemma orders_later: "in_order [] p \<Longrightarrow> (\<And>a. orders R ys (f a)) \<Longrightarrow> orders R ys (and_then p f)"
  by (rule orders_bind [where K = "\<lambda>_. True" and xs = "\<lambda>_. []"]) auto

lemma orders_result: "R a \<Longrightarrow> orders R (\<lambda>_. []) (result_is (Inr a))"
  by (auto simp: achieves_def)

lemma orders_knowing: "orders K (\<lambda>_. []) p \<Longrightarrow> (\<And>a. K a \<Longrightarrow> orders R ys (f a)) \<Longrightarrow> orders R ys (and_then p f)"
  by (rule orders_bind [where K = K and xs = "\<lambda>_. []"]) auto

lemma orders_if: "(b \<Longrightarrow> orders R xs p) \<Longrightarrow> (\<not> b \<Longrightarrow> orders R xs q) \<Longrightarrow> orders R xs (if b then p else q)"
  by simp

lemma orders_refused: "orders R xs transition_refused"
  by (rule in_order_refused)

lemma in_order_ask: "in_order [] (ask event f)"
  by (rule achieves_ask) simp

section \<open>The payer\<close>

definition paid_for :: "session_scope \<Rightarrow> pending_billing_switch \<Rightarrow> staged_billing_confirmation \<Rightarrow> bool" where
  "paid_for scope ticket staged =
    (request_session (billing_request (pend_scope ticket)) = scope \<and> stage_pending staged = ticket
     \<and> validate_snapshot_context (stage_snapshot staged) (pend_scope ticket) = Inr ())"

lemma begin_switch_scope: "begin_switch parse_uuid scope device i rollback s = (Inr t, s') \<Longrightarrow>
    request_session (billing_request (pend_scope t)) = scope \<and> request_account_group_id (billing_request (pend_scope t)) = i"
  by (auto simp: begin_switch_def Let_def split: if_splits prod.splits sum.splits)

lemma staged_confirmation:
  assumes "stage_confirmation latch_open t choice snapshot s = (Inr st, s')"
  shows "s' = s" "stage_pending st = t" "validate_snapshot_context (stage_snapshot st) (pend_scope t) = Inr ()"
    "\<not> bill_poisoned s" "\<not> bill_closed s" "bill_pending s = Some t"
    "bill_session s = Some (request_session (billing_request (pend_scope t)))"
  using assms by (auto simp: stage_confirmation_def is_err_def is_ok_def split: if_splits sum.splits)

lemma staged_orders:
  "orders (\<lambda>st. stage_pending st = t \<and> validate_snapshot_context (stage_snapshot st) (pend_scope t) = Inr ())
     (\<lambda>st. [SnapshotStaged st]) (stage_switch t choice snapshot)"
  unfolding stage_switch_def
  by (rule achieves_attempt_to) (auto simp: on_billing_def dest: staged_confirmation(2,3) split: prod.splits)

abbreviation payer_chosen where
  "payer_chosen scope \<equiv> (\<lambda>(t, st, _, _). paid_for scope t st)"

abbreviation payer_events where
  "payer_events scope \<equiv> (\<lambda>(_, st, _, _). [BillingBound scope, SnapshotStaged st])"

lemma payer_orders: "orders (payer_chosen scope) (payer_events scope) (choose_payer parse_uuid device scope suggestion)"
proof -
  have switch: "orders (payer_chosen scope) (\<lambda>(_, st, _, _). [SnapshotStaged st])
      (and_then (attempt_to ''billing'' (\<lambda>_. Asked) (on_billing (begin_switch parse_uuid scope device (group_id choice) StillValid))) (\<lambda>ticket.
        and_then (hold (\<lambda>g. g\<lparr>ag_ticket := Some (ticket, True)\<rparr>)) (\<lambda>_.
        and_then (ask (\<lambda>_. Asked) av_snapshot) (\<lambda>snapshot.
        and_then (stage_switch ticket choice snapshot) (\<lambda>staged.
        result_is (Inr (ticket, staged, snapshot, listed)))))))" for choice listed
  proof (rule orders_bind [where K = "\<lambda>t. request_session (billing_request (pend_scope t)) = scope" and xs = "\<lambda>_. []"])
    show "orders (\<lambda>t. request_session (billing_request (pend_scope t)) = scope) (\<lambda>_. [])
       (attempt_to ''billing'' (\<lambda>_. Asked) (on_billing (begin_switch parse_uuid scope device (group_id choice) StillValid)))"
      by (rule achieves_attempt_to) (auto simp: on_billing_def dest: begin_switch_scope split: prod.splits)
    fix t :: pending_billing_switch
    assume "request_session (billing_request (pend_scope t)) = scope"
    then show "orders (payer_chosen scope) (\<lambda>(_, st, _, _). [SnapshotStaged st])
      (and_then (hold (\<lambda>g. g\<lparr>ag_ticket := Some (t, True)\<rparr>)) (\<lambda>_.
        and_then (ask (\<lambda>_. Asked) av_snapshot) (\<lambda>snapshot.
        and_then (stage_switch t choice snapshot) (\<lambda>staged.
        result_is (Inr (t, staged, snapshot, listed))))))"
      by (intro orders_later [OF in_order_hold] orders_later [OF in_order_ask] achieves_bind [OF staged_orders])
        (auto simp: achieves_def paid_for_def)
  qed simp
  have rest: "orders (payer_chosen scope) (\<lambda>(_, st, _, _). [SnapshotStaged st])
     (case choose_candidate listed saved suggestion of Inl _ \<Rightarrow> transition_refused
      | Inr choice \<Rightarrow> and_then (attempt_to ''billing'' (\<lambda>_. Asked) (on_billing (begin_switch parse_uuid scope device (group_id choice) StillValid))) (\<lambda>ticket.
        and_then (hold (\<lambda>g. g\<lparr>ag_ticket := Some (ticket, True)\<rparr>)) (\<lambda>_.
        and_then (ask (\<lambda>_. Asked) av_snapshot) (\<lambda>snapshot.
        and_then (stage_switch ticket choice snapshot) (\<lambda>staged.
        result_is (Inr (ticket, staged, snapshot, listed)))))))" for listed saved
    by (cases "choose_candidate listed saved suggestion") (auto intro: orders_refused switch)
  show ?thesis
    unfolding choose_payer_def
    by (rule orders_bind [where K = "\<lambda>_. True" and xs = "\<lambda>_. [BillingBound scope]" and ys = "\<lambda>_ (_, st, _, _). [SnapshotStaged st]"])
      (auto intro!: in_order_attempted orders_later [OF in_order_ask] rest)
qed

section \<open>The candidate\<close>

lemma with_mappings_user:
  "with_mappings parse_uuid ns ms registry = (Inr ns', registry') \<Longrightarrow> user_public_id ns' = user_public_id ns"
proof (induction ms arbitrary: ns registry)
  case (Cons m ms)
  then show ?case by (auto dest!: with_mapping_ok simp: extended_def split: prod.splits sum.splits)
qed simp

lemma load_namespace_user:
  "load_account_directory_namespace parse_uuid data_root user ms registry = (Inr ns, registry') \<Longrightarrow> user_public_id ns = user"
  by (auto simp: load_account_directory_namespace_def user_namespace_new_def dest!: with_mappings_user
      split: sum.splits option.splits if_splits)

lemma rebind_user:
  "complete_directory_rebind parse_uuid saved ns registry = (Inr ns', registry') \<Longrightarrow> user_public_id ns' = user_public_id ns"
  by (auto simp: complete_directory_rebind_def dest: load_namespace_user split: if_splits option.splits)

lemma loaded_orders: "orders (\<lambda>ns. user_public_id ns = user) (\<lambda>_. []) (load_namespace parse_uuid data_root user)"
  unfolding load_namespace_def
  by (rule orders_later [OF in_order_ask], rule achieves_attempt_to)
    (auto simp: on_registry_def dest: load_namespace_user split: prod.splits)

lemma rebound_orders: "orders (\<lambda>ns'. user_public_id ns' = user_public_id ns) (\<lambda>_. []) (rebind_directories parse_uuid ns)"
proof -
  have "orders (\<lambda>ns'. user_public_id ns' = user_public_id ns) (\<lambda>_. [])
      (attempt_to ''directories'' (\<lambda>_. Asked) (on_registry (complete_directory_rebind parse_uuid saved ns)))" for saved
    by (rule achieves_attempt_to) (auto simp: on_registry_def dest: rebind_user split: prod.splits)
  then show ?thesis
    unfolding rebind_directories_def
    by (intro orders_if orders_result orders_later [OF in_order_ask] refl)
qed

abbreviation lease_for :: "session_scope \<Rightarrow> u64 \<Rightarrow> namespace_lease \<Rightarrow> bool" where
  "lease_for scope ticket lease \<equiv> lease_scope lease = scope \<and> lease_namespace_epoch lease = ticket"

lemma candidate_orders: "orders (lease_for scope ticket) (\<lambda>_. []) (load_candidate parse_uuid data_root ticket scope)"
  unfolding load_candidate_def
proof (rule orders_bind [OF loaded_orders])
  fix ns :: user_namespace
  assume ns: "user_public_id ns = scope_owner_user_id scope"
  show "orders (lease_for scope ticket) (\<lambda>_. []) (and_then open_authority (\<lambda>_. and_then (rebind_directories parse_uuid ns) (\<lambda>ns'.
      and_then open_authority (\<lambda>_. result_is (Inr \<lparr>lease_namespace = ns', lease_auth_epoch = scope_auth_epoch scope,
        lease_namespace_epoch = ticket\<rparr>)))))"
    unfolding open_authority_def
    by (intro orders_later [OF in_order_ask] orders_knowing [OF rebound_orders] orders_result)
      (simp add: lease_scope_def ns)
qed simp

definition admission_events :: "namespace_lease \<Rightarrow> activation_event list" where
  "admission_events lease = [ImportsAbsent lease, PublicationPrepared lease, ActivityPrepared lease, WriterActivated lease]"

lemma recovered_in_order: "in_order [ImportsAbsent lease] (recover_unpublished i lease)"
proof -
  have check: "in_order [ImportsAbsent lease] (act (\<lambda>v c. case verify_no_unsupported_imports lease (av_absent v) phase of
        (Inl _, _) \<Rightarrow> (Inl (refusal ''imports''), c, Asked) | (Inr _, checked) \<Rightarrow> (Inr checked, c, ImportsAbsent lease)))" for phase
    by (rule achieves_act) (auto split: prod.splits sum.splits)
  have "in_order [] (case recovery_finish checked of Inl _ \<Rightarrow> transition_refused | Inr recovered \<Rightarrow> result_is (Inr recovered))" for checked
    by (auto simp: achieves_def transition_refused_def split: sum.splits)
  then show ?thesis
    unfolding recover_unpublished_def by (intro in_order_after [OF in_order_attempt] in_order_then [OF check]) simp
qed

lemma taken_in_order: "in_order [PublicationPrepared lease] (take_publication i lease recovered)"
proof -
  have "achieves (\<lambda>_. subseq [PublicationPrepared lease]) (settle_with
      (attempt_to ''namespace'' (\<lambda>_. PublicationPrepared lease) (\<lambda>c. (prepare_publication i lease recovered (tc_gate c), c)))
      (\<lambda>r. case r of Inl e \<Rightarrow> and_then (drop_transition i) (\<lambda>_. result_is (Inl e))
       | Inr p \<Rightarrow> hold (\<lambda>g. g\<lparr>ag_publication := Some p\<rparr>)))"
    by (auto simp: achieves_def settle_with_def attempt_to_def act_def Let_def and_then_def drop_transition_def change_def
        hold_def result_is_def split: prod.splits sum.splits)
  then show ?thesis
    unfolding take_publication_def by (rule in_order_after [OF in_order_hold])
qed

lemma admitted_in_order: "in_order (admission_events lease) (admit_candidate lease)"
proof -
  have body: "in_order (admission_events lease)
      (and_then (recover_unpublished i lease) (\<lambda>recovered.
        and_then (ask (\<lambda>_. Asked) av_unit) (\<lambda>_.
        and_then (ask (\<lambda>_. Asked) av_selected) (\<lambda>profile.
        and_then (take_publication i lease recovered) (\<lambda>_.
        and_then (attempt_to ''activity'' ActivityPrepared (\<lambda>c. (prepare_activation lease (tc_activity c), c))) (\<lambda>_.
        and_then (writer_call (WriterActivated lease)) (\<lambda>r.
        and_then (of_write r) (\<lambda>_.
        and_then (hold (\<lambda>g. g\<lparr>ag_pending := map_option (\<lambda>p. p\<lparr>pa_writer_lease := Some lease\<rparr>) (ag_pending g)\<rparr>)) (\<lambda>_.
        result_is (Inr profile))))))))))" for i
  proof -
    have activity: "in_order [ActivityPrepared lease] (attempt_to ''activity'' ActivityPrepared (\<lambda>c. (prepare_activation lease (tc_activity c), c)))"
      by (rule achieves_attempt_to) (auto simp: prepare_activation_def split: if_splits)
    have writer: "in_order [WriterActivated lease] (and_then (writer_call (WriterActivated lease)) (\<lambda>r. and_then (of_write r) (\<lambda>_.
        and_then (hold h) (\<lambda>_. result_is (Inr profile)))))" for h and profile :: "string option"
    proof -
      have "in_order [] (and_then (hold h) (\<lambda>_. result_is (Inr profile)))"
        by (rule in_order_after [OF in_order_hold in_order_ok])
      from in_order_and_then [OF in_order_written [of "WriterActivated lease"] this] show ?thesis
        by (simp only: and_then_assoc append_Nil2)
    qed
    show ?thesis unfolding admission_events_def
      by (intro in_order_then [OF recovered_in_order] in_order_after [OF in_order_ask] in_order_then [OF taken_in_order]
          in_order_then [OF activity] writer)
  qed
  show ?thesis
    unfolding admit_candidate_def
    by (rule in_order_after [OF in_order_silent [OF may_log_guards [where P = "\<lambda>_. True"]]])
      (auto intro: in_order_refused body split: option.splits)
qed

section \<open>The prepared activation\<close>

abbreviation held_publication :: "activation_world \<Rightarrow> (u64 \<times> namespace_lease) option" where
  "held_publication w \<equiv> ag_publication (aw_guards w)"

lemma taken_publication:
  assumes "take_publication i lease recovered w = (Inr u, w')"
  shows "held_publication w' = Some (i, lease)"
  using assms
  by (auto simp: take_publication_def settle_with_def attempt_to_def act_def Let_def and_then_def drop_transition_def change_def
      hold_def result_is_def prepare_publication_def split: prod.splits sum.splits if_splits)

lemma admitted_publication:
  assumes "admit_candidate lease w = (Inr x, w')"
  shows "\<exists>i. held_publication w' = Some (i, lease)"
proof -
  let ?rest = "\<lambda>profile. and_then (attempt_to ''activity'' ActivityPrepared (\<lambda>c. (prepare_activation lease (tc_activity c), c))) (\<lambda>_.
      and_then (writer_call (WriterActivated lease)) (\<lambda>r.
      and_then (of_write r) (\<lambda>_.
      and_then (hold (\<lambda>g. g\<lparr>ag_pending := map_option (\<lambda>p. p\<lparr>pa_writer_lease := Some lease\<rparr>) (ag_pending g)\<rparr>)) (\<lambda>_.
      result_is (Inr profile)))))"
  obtain i recovered w3 profile w4 u w5 where "take_publication i lease recovered w4 = (Inr u, w5)"
    and rest: "?rest profile w5 = (Inr x, w')"
    using assms by (auto simp: admit_candidate_def and_then_ok transition_refused_def split: option.splits)
  then have "held_publication w5 = Some (i, lease)" by (intro taken_publication)
  moreover have keeping: "keeps held_publication (?rest profile)"
    unfolding of_write_def transition_refused_def by (auto intro!: logging)
  ultimately show ?thesis using keepsD [OF keeping rest] by simp
qed

definition well_prepared :: "session_scope \<Rightarrow> u64 \<Rightarrow> prepared_activation \<Rightarrow> bool" where
  "well_prepared scope ticket p =
    (paid_for scope (pr_ticket p) (pr_staged p) \<and> lease_for scope ticket (pr_lease p)
     \<and> (\<exists>i. pr_publication p = Some (i, pr_lease p)) \<and> pr_activity p = Some (pr_lease p))"

definition preparation_events :: "session_scope \<Rightarrow> prepared_activation \<Rightarrow> activation_event list" where
  "preparation_events scope p = [BillingBound scope, SnapshotStaged (pr_staged p)] @ admission_events (pr_lease p)"

lemma prepared_orders:
  "orders (well_prepared scope ticket) (preparation_events scope)
     (prepare_candidate parse_uuid device data_root ticket scope suggestion)"
  unfolding achieves_def
proof (intro allI impI)
  fix w p w'
  assume "prepare_candidate parse_uuid device data_root ticket scope suggestion w = (Inr p, w')"
  then obtain t st snap listed w1 lease w2 profile w3 note' w4 where
    1: "choose_payer parse_uuid device scope suggestion w = (Inr (t, st, snap, listed), w1)"
    and 2: "load_candidate parse_uuid data_root ticket scope w1 = (Inr lease, w2)"
    and 3: "admit_candidate lease w2 = (Inr profile, w3)"
    and 4: "ask (\<lambda>_. Asked) av_selected w3 = (Inr note', w4)"
    and 5: "take_prepared lease t st profile snap listed note' w4 = (Inr p, w')"
    by (auto simp: prepare_candidate_def and_then_ok)
  obtain es1 where es1: "aw_log w1 = aw_log w @ es1" "paid_for scope t st" "subseq [BillingBound scope, SnapshotStaged st] es1"
    using yieldsE [OF payer_orders 1] by auto
  obtain es2 where es2: "aw_log w2 = aw_log w1 @ es2" "lease_for scope ticket lease" using yieldsE [OF candidate_orders 2] by auto
  obtain es3 where es3: "aw_log w3 = aw_log w2 @ es3" "subseq (admission_events lease) es3"
    using yieldsE [OF admitted_in_order 3] by auto
  obtain es4 where es4: "aw_log w4 = aw_log w3 @ es4" using yieldsE [OF in_order_ask 4] by auto
  obtain i where "held_publication w3 = Some (i, lease)" using admitted_publication [OF 3] by blast
  moreover have keeping: "keeps held_publication (ask (\<lambda>_. Asked) av_selected)" by (rule keeps_calls)
  ultimately have "held_publication w4 = Some (i, lease)" using keepsD [OF keeping 4] by simp
  with 5 have p: "pr_lease p = lease" "pr_ticket p = t" "pr_staged p = st" "pr_publication p = Some (i, lease)"
    "pr_activity p = Some lease" "aw_log w' = aw_log w4"
    by (auto simp: take_prepared_def and_then_def guards_def hold_def result_is_def transition_refused_def split: option.splits)
  have "subseq ([BillingBound scope, SnapshotStaged st] @ [] @ admission_events lease @ []) (es1 @ es2 @ es3 @ es4)"
    by (intro list_emb_append_mono es1(3) es3(2)) simp_all
  with es1 es2 es3(1) es4 p show "\<exists>es. aw_log w' = aw_log w @ es \<and> well_prepared scope ticket p \<and> subseq (preparation_events scope p) es"
    by (intro exI [of _ "es1 @ es2 @ es3 @ es4"]) (simp add: well_prepared_def preparation_events_def)
qed

section \<open>From the login to the publication\<close>

definition publication_events :: "prepared_activation \<Rightarrow> activation_event list" where
  "publication_events p =
    [SelectionSaved (lease_user (pr_lease p)) (request_account_group_id (billing_request (pend_scope (pr_ticket p)))),
     BillingPublished (pr_ticket p), NamespacePublished (pr_lease p), ActiveSet (pr_lease p),
     UserShown (lease_user (pr_lease p)), ActivityPublished (pr_lease p)]"

lemma dropping_ok: "dropping drops p w = (Inr a, w') \<longleftrightarrow> (\<exists>w1 u. p w = (Inr a, w1) \<and> drops w1 = (Inr u, w'))"
  by (auto simp: dropping_def settle_with_def and_then_def result_is_def split: prod.splits sum.splits)

lemma failing_with_ok: "failing_with drops p w = (Inr a, w') \<longleftrightarrow> p w = (Inr a, w')"
  by (auto simp: failing_with_def settle_with_def and_then_def result_is_def split: prod.splits sum.splits)

lemma achieves_failing: "achieves Q p \<Longrightarrow> achieves Q (failing_with drops p)"
  by (simp add: achieves_def failing_with_ok)

lemma begun_in_order: "in_order [] begin_commit" "in_order [] check_open" "in_order [] drop_commit_permit"
  by (rule in_order_silent [OF no_opening_commit(3)] in_order_silent [OF no_opening_commit(4)]
      in_order_silent [OF no_opening_commit(2)])+

lemma saved_in_order:
  "in_order [SelectionSaved (lease_user (pr_lease p)) (request_account_group_id (billing_request (pend_scope (pr_ticket p))))]
     (save_selection p)"
  unfolding save_selection_def Let_def
proof (rule achieves_bind [OF achieves_written])
  fix r
  let ?event = "SelectionSaved (lease_user (pr_lease p)) (request_account_group_id (billing_request (pend_scope (pr_ticket p))))"
  have "achieves (\<lambda>b es2. \<forall>es1. subseq [?event] (es1 @ es2)) (and_then (writer_call ?event) of_write)"
    by (rule achieves_mono [OF in_order_written]) (blast intro: list_emb_append2)
  then show "achieves (\<lambda>b es2. \<forall>es1. (is_ok r \<longrightarrow> es1 = [?event]) \<longrightarrow> subseq [?event] (es1 @ es2))
     (if is_ok r then result_is (Inr ()) else and_then (writer_call ?event) of_write)"
    by (cases "is_ok r") (auto simp: achieves_def)
qed

lemma persisted_orders:
  "orders (\<lambda>q. q = p\<lparr>pr_armed := False\<rparr>)
     (\<lambda>_. [SelectionSaved (lease_user (pr_lease p)) (request_account_group_id (billing_request (pend_scope (pr_ticket p))))]) (persist p)"
proof -
  have profile: "in_order [] (save_profile p)"
    unfolding save_profile_def by (rule in_order_silent [where P = "\<lambda>e. \<not> opens e"]) (auto intro!: logging silent)
  show ?thesis
    unfolding persist_def
    by (intro orders_later [OF achieves_failing [OF begun_in_order(1)]] orders_later [OF achieves_failing [OF profile]]
        achieves_bind [OF achieves_failing [OF saved_in_order]])
      (auto simp: achieves_def)
qed

lemma in_order_last: "in_order [x] p \<Longrightarrow> (\<And>a. in_order [] (f a)) \<Longrightarrow> in_order [x] (and_then p f)"
  using in_order_and_then [of "[x]" p "[]" f] by simp

lemma published_in_order:
  assumes "pr_publication p = Some (i, pr_lease p)" and "pr_activity p = Some (pr_lease p)"
  shows "in_order [BillingPublished (pr_ticket p), NamespacePublished (pr_lease p), ActiveSet (pr_lease p),
     UserShown (lease_user (pr_lease p)), ActivityPublished (pr_lease p)] (publish_activation p)"
  unfolding publish_activation_def assms option.case snd_conv
  by (intro in_order_after [OF achieves_failing [OF begun_in_order(2)]] in_order_then [OF in_order_change]
      in_order_last [OF in_order_change] begun_in_order(3))

lemma prepared_for_user:
  assumes "prepare_activation_with_cover parse_uuid device data_root patience ticket input cover w = (Inr (Some p), w')"
    and "input = Login user suggestion \<or> input = Resume user"
  shows "\<exists>es old scope. aw_log w' = aw_log w @ es \<and> scope_owner_user_id scope = user \<and> well_prepared scope ticket p
     \<and> subseq (retired_first old @ SessionOpened scope # preparation_events scope p) es"
proof -
  obtain s' w1 w2 scope w3 w4 u where 1: "retire_previous patience input cover w = (Inr u, w1)"
    and 2: "session_opens user w1 = (Inr scope, w2)"
    and 3: "prepare_candidate parse_uuid device data_root ticket scope s' w2 = (Inr p, w3)"
    and 4: "drop_guards w3 = (Inr w4, w')"
    using assms by (auto simp: prepare_activation_with_cover_def dropping_ok and_then_ok open_session_def)
  obtain old es1 where es1: "aw_log w1 = aw_log w @ es1" "subseq (retired_first old) es1"
    using previous_retired [OF 1] by blast
  have es2: "aw_log w2 = aw_log w1 @ [SessionOpened scope]" using session_opens_logged [OF 2] by simp
  have scope: "scope_owner_user_id scope = user"
    using 2 by (auto simp: session_opens_def and_then_ok)
  obtain es3 where es3: "aw_log w3 = aw_log w2 @ es3" "well_prepared scope ticket p" "subseq (preparation_events scope p) es3"
    using yieldsE [OF prepared_orders 3] by blast
  obtain es4 where es4: "aw_log w' = aw_log w3 @ es4" using logged_more [OF no_opening_drops 4] by blast
  have "subseq (retired_first old @ [SessionOpened scope] @ preparation_events scope p @ []) (es1 @ [SessionOpened scope] @ es3 @ es4)"
    by (intro list_emb_append_mono es1(2) es3(3)) simp_all
  moreover have "aw_log w' = aw_log w @ es1 @ [SessionOpened scope] @ es3 @ es4" using es1(1) es2 es3(1) es4 by simp
  ultimately show ?thesis
    using scope es3(2) by (intro exI [of _ "es1 @ [SessionOpened scope] @ es3 @ es4"] exI [of _ old] exI [of _ scope]) simp
qed

lemma well_prepared_update:
  "well_prepared scope ticket (p\<lparr>pr_profile := x, pr_armed := b\<rparr>) = well_prepared scope ticket p"
  "preparation_events scope (p\<lparr>pr_profile := x, pr_armed := b\<rparr>) = preparation_events scope p"
  by (simp_all add: well_prepared_def preparation_events_def)

text \<open>
  C12: a login or a resumed session that succeeds is one user's from end to end, whatever other threads do:
  after the retirement a session of exactly this user is opened, the payer is bound to and confirmed for this
  session, and one lease, which carries the user and the epoch of the session and the number of this
  transition, passes the import check, the namespace gate, the activity gate and the writer, in this order;
  then the choice is on disk before payer, namespace, active lease, user and activity are published.
\<close>

theorem activation_is_for_one_user:
  assumes "activate_account parse_uuid device data_root patience ticket input cover w = (Inr True, w')"
    and "input = Login user suggestion \<or> input = Resume user"
  shows "\<exists>es old scope p. aw_log w' = aw_log w @ es \<and> scope_owner_user_id scope = user \<and> well_prepared scope ticket p
     \<and> subseq (retired_first old @ SessionOpened scope # preparation_events scope p @ publication_events p) es"
proof -
  obtain p0 w1 p1 w2 p w3 u where 1: "prepare_activation_with_cover parse_uuid device data_root patience ticket input cover w = (Inr (Some p0), w1)"
    and 2: "prepare_models p0 w1 = (Inr p1, w2)" and 3: "persist p1 w2 = (Inr p, w3)" and 4: "publish_activation p w3 = (Inr u, w')"
    using assms(1) by (auto simp: activate_account_def and_then_ok split: option.splits)
  obtain es1 old scope where es1: "aw_log w1 = aw_log w @ es1" "scope_owner_user_id scope = user" "well_prepared scope ticket p0"
    "subseq (retired_first old @ SessionOpened scope # preparation_events scope p0) es1"
    using prepared_for_user [OF 1 assms(2)] by blast
  obtain profile where p1: "p1 = p0\<lparr>pr_profile := profile\<rparr>"
    using 2 by (auto simp: prepare_models_def and_then_ok)
  obtain es2 where es2: "aw_log w2 = aw_log w1 @ es2" using logged_more [OF no_opening_persist(3) 2] by blast
  obtain es3 where es3: "aw_log w3 = aw_log w2 @ es3" "p = p1\<lparr>pr_armed := False\<rparr>"
    "subseq [SelectionSaved (lease_user (pr_lease p1)) (request_account_group_id (billing_request (pend_scope (pr_ticket p1))))] es3"
    using yieldsE [OF persisted_orders 3] by blast
  have p: "well_prepared scope ticket p" "preparation_events scope p = preparation_events scope p0"
    using es1(3) by (simp_all add: es3(2) p1 well_prepared_update)
  then obtain i where "pr_publication p = Some (i, pr_lease p)" "pr_activity p = Some (pr_lease p)"
    by (auto simp: well_prepared_def)
  from yieldsE [OF published_in_order [OF this] 4] obtain es4 where es4: "aw_log w' = aw_log w3 @ es4"
    "subseq [BillingPublished (pr_ticket p), NamespacePublished (pr_lease p), ActiveSet (pr_lease p),
       UserShown (lease_user (pr_lease p)), ActivityPublished (pr_lease p)] es4" by blast
  have "subseq ((retired_first old @ SessionOpened scope # preparation_events scope p0) @ []
      @ [SelectionSaved (lease_user (pr_lease p1)) (request_account_group_id (billing_request (pend_scope (pr_ticket p1))))]
      @ [BillingPublished (pr_ticket p), NamespacePublished (pr_lease p), ActiveSet (pr_lease p),
         UserShown (lease_user (pr_lease p)), ActivityPublished (pr_lease p)]) (es1 @ es2 @ es3 @ es4)"
    by (intro list_emb_append_mono es1(4) es3(3) es4(2)) simp
  then have "subseq (retired_first old @ SessionOpened scope # preparation_events scope p @ publication_events p) (es1 @ es2 @ es3 @ es4)"
    by (simp add: publication_events_def p(2)) (simp add: es3(2))
  moreover have "aw_log w' = aw_log w @ es1 @ es2 @ es3 @ es4" using es1(1) es2 es3(1) es4(1) by simp
  ultimately show ?thesis using es1(2) p(1) by blast
qed

end
