(* ===== verification/Activation_State.thy ===== *)
theory Activation_State
  imports Activation_Identity
begin

text \<open>
  The state that a successful activation leaves when no other thread is about: the gates, the active
  namespace, the payer and the shown user agree. Each check of the preparation stays true until the
  publication, because no later call touches what it looked at.
\<close>

section \<open>What a call leaves alone\<close>

definition alone :: "activation_world \<Rightarrow> bool" where
  "alone w = (\<forall>n. av_others (aw_views w n) = (\<lambda>c. c))"

definition steady :: "(transition_core \<Rightarrow> 'h) \<Rightarrow> 'a activation \<Rightarrow> bool" where
  "steady h p = (\<forall>w a w'. p w = (Inr a, w') \<longrightarrow> alone w \<longrightarrow> alone w' \<and> h (aw_core w') = h (aw_core w))"

named_theorems steadiness

lemma steadyD: "steady h p \<Longrightarrow> p w = (Inr a, w') \<Longrightarrow> alone w \<Longrightarrow> alone w' \<and> h (aw_core w') = h (aw_core w)"
  unfolding steady_def by blast

lemma steady_and_then [steadiness]:
  assumes "steady h p" and "\<And>a. steady h (f a)"
  shows "steady h (and_then p f)"
  unfolding steady_def
proof (intro allI impI)
  fix w b w'
  assume "and_then p f w = (Inr b, w')" and w: "alone w"
  then obtain a w1 where "p w = (Inr a, w1)" "f a w1 = (Inr b, w')" by (auto simp: and_then_ok)
  with steadyD [OF assms(1) _ w] steadyD [OF assms(2)] show "alone w' \<and> h (aw_core w') = h (aw_core w)" by metis
qed

lemma steady_result [steadiness]: "steady h (result_is r)" "steady h transition_refused" "steady h guards"
  by (auto simp: steady_def transition_refused_def guards_def)

lemma steady_hold [steadiness]: "steady h (hold f)"
  by (auto simp: steady_def hold_def alone_def)

lemma steady_act:
  assumes "\<And>v c r c' e. f v c = (r, c', e) \<Longrightarrow> h c' = h c"
  shows "steady h (act f)"
  using assms by (fastforce simp: steady_def act_def alone_def Let_def split: prod.splits)

lemma steady_change [steadiness]: "(\<And>c. h (f c) = h c) \<Longrightarrow> steady h (change event f)"
  unfolding change_def by (rule steady_act) auto

lemma steady_attempt_to [steadiness]:
  assumes "\<And>c. h (snd (f c)) = h c"
  shows "steady h (attempt_to message event f)"
  unfolding attempt_to_def
proof (rule steady_act)
  fix v c r c' e
  assume "(case f c of (Inl e, c') \<Rightarrow> (Inl (refusal message), c', Asked) | (Inr a, c') \<Rightarrow> (Inr a, c', event a)) = (r, c', e)"
  then have "c' = snd (f c)" by (auto split: prod.splits sum.splits)
  then show "h c' = h c" by (simp add: assms)
qed

lemma steady_ask [steadiness]: "steady h (ask event f)"
  unfolding ask_def by (rule steady_act) (auto split: sum.splits)

lemma steady_writer [steadiness]: "steady h (writer_call event)" "steady h (of_write r)"
  unfolding writer_call_def of_write_def by (auto intro!: steady_act steadiness split: sum.splits)

lemma steady_if [steadiness]: "steady h p \<Longrightarrow> steady h q \<Longrightarrow> steady h (if b then p else q)"
  by simp

lemma steady_option [steadiness]:
  "steady h p \<Longrightarrow> (\<And>x. steady h (f x)) \<Longrightarrow> steady h (case r of None \<Rightarrow> p | Some x \<Rightarrow> f x)"
  by (cases r) simp_all

lemma steady_sum [steadiness]:
  "(\<And>x. steady h (f x)) \<Longrightarrow> (\<And>x. steady h (g x)) \<Longrightarrow> steady h (case r of Inl x \<Rightarrow> f x | Inr x \<Rightarrow> g x)"
  by (cases r) simp_all

lemma steady_failing [steadiness]: "steady h p \<Longrightarrow> steady h (failing_with drops p)"
  by (simp add: steady_def failing_with_ok)

lemma steady_registry [steadiness]:
  "(\<And>c r. h (c\<lparr>tc_registry := r\<rparr>) = h c) \<Longrightarrow> steady h (attempt_to message event (on_registry f))"
  by (rule steady_attempt_to) (auto simp: on_registry_def split: prod.splits)

lemma steady_load:
  assumes "\<And>c r. h (c\<lparr>tc_registry := r\<rparr>) = h c"
  shows "steady h (load_candidate parse_uuid data_root ticket scope)"
  unfolding load_candidate_def load_namespace_def open_authority_def rebind_directories_def
  using assms by (intro steadiness) auto

lemma steady_recover: "steady h (recover_unpublished i lease)"
proof -
  have "steady h (act (\<lambda>v c. case verify_no_unsupported_imports lease (av_absent v) phase of
        (Inl _, _) \<Rightarrow> (Inl (refusal ''imports''), c, Asked) | (Inr _, checked) \<Rightarrow> (Inr checked, c, ImportsAbsent lease)))" for phase
    by (rule steady_act) (auto split: prod.splits sum.splits)
  then show ?thesis unfolding recover_unpublished_def by (intro steadiness) simp_all
qed

lemma take_publication_ok:
  "take_publication i lease recovered w = (Inr u, w') \<longleftrightarrow>
    and_then (hold (\<lambda>g. g\<lparr>ag_transition := None\<rparr>)) (\<lambda>_.
    and_then (attempt_to ''namespace'' (\<lambda>_. PublicationPrepared lease) (\<lambda>c. (prepare_publication i lease recovered (tc_gate c), c)))
      (\<lambda>p. hold (\<lambda>g. g\<lparr>ag_publication := Some p\<rparr>))) w = (Inr u, w')"
  by (auto simp: take_publication_def and_then_def settle_with_def result_is_def split: prod.splits sum.splits)

lemma steady_take: "steady h (take_publication i lease recovered)"
  unfolding steady_def take_publication_ok unfolding steady_def [symmetric] by (intro steadiness) simp

lemma steady_admit: "steady h (admit_candidate lease)"
  unfolding admit_candidate_def by (intro steadiness steady_recover steady_take) simp

lemma steady_prepared: "steady h (take_prepared lease t st profile snap listed n)"
  unfolding take_prepared_def by (intro steadiness)

lemma steady_latch:
  assumes "\<And>c l. h (c\<lparr>tc_latch := l\<rparr>) = h c"
  shows "steady h begin_commit" "steady h check_open" "steady h drop_commit_permit"
  unfolding begin_commit_def check_open_def drop_commit_permit_def
  using assms by (auto intro!: steady_act steadiness split: prod.splits sum.splits)

lemma steady_persist:
  assumes "\<And>c l. h (c\<lparr>tc_latch := l\<rparr>) = h c"
  shows "steady h (persist p)"
  unfolding persist_def save_profile_def save_selection_def retry_client_state_write_def Let_def
  by (intro steadiness steady_latch assms)

lemma steady_models: "steady h (prepare_models p)"
  unfolding prepare_models_def by (intro steadiness)

lemma steady_debts:
  assumes "\<And>c d. h (c\<lparr>tc_debt := d\<rparr>) = h c"
  shows "steady h clear_retired_session" "steady h attempt_remote_logout"
proof -
  have debt: "steady h (clear_session_scope scope)" "steady h persisted_owner"
    "steady h (act (\<lambda>v c. (Inr (av_unit v), c, if is_ok (av_unit v) then RemoteLoggedOut else Asked)))"
    "steady h (act (\<lambda>v core. case session_cleanup_clear x y z (tc_debt core) of
        (r, _, slot) \<Rightarrow> (Inr r, core\<lparr>tc_debt := slot\<rparr>, e r slot)))"
    "steady h (act (\<lambda>v core. case retired_logout_attempt k a (tc_debt core) of
        (r, _, slot) \<Rightarrow> (Inr r, core\<lparr>tc_debt := slot\<rparr>, e' r slot)))" for scope x y z e k a e'
    unfolding clear_session_scope_def persisted_owner_def
    using assms by (auto intro!: steady_act split: prod.splits)
  show "steady h clear_retired_session"
    unfolding clear_retired_session_def by (auto intro!: steadiness debt)
  show "steady h attempt_remote_logout"
    unfolding attempt_remote_logout_def by (auto intro!: steadiness debt)
qed

section \<open>Nothing is held at the end of the preparation\<close>

abbreviation quiesced_held :: "activation_world \<Rightarrow> namespace_lease option" where
  "quiesced_held w \<equiv> ag_quiesced (aw_guards w)"

lemma keeps_act_guards [logging]: "keeps aw_guards (act f)"
  by (rule logsI) (auto simp: act_def Let_def split: prod.splits)

lemma keeps_calls_guards [logging]:
  "keeps aw_guards (change event h)" "keeps aw_guards (attempt_to message e h')" "keeps aw_guards (ask e'' h'')"
  "keeps aw_guards (writer_call event)" "keeps aw_guards (record_debt u)"
  unfolding change_def attempt_to_def ask_def writer_call_def record_debt_def by (rule keeps_act_guards)+

lemma keeps_quiesced_settle: "keeps quiesced_held (settle_debts input old)"
proof -
  have owed: "keeps quiesced_held clear_retired_session" "keeps quiesced_held attempt_remote_logout"
    unfolding clear_retired_session_def attempt_remote_logout_def clear_session_scope_def persisted_owner_def
    by (auto intro!: logging)
  show ?thesis
    unfolding settle_debts_def clear_private_ui_def clear_credentials_def clear_retained_session_def transition_refused_def
    by (auto intro!: logging owed)
qed

lemma nothing_quiesced:
  assumes "retire_previous patience input cover w = (Inr u, w')" and "quiesced_held w = None"
  shows "quiesced_held w' = None"
proof -
  obtain a w1 b w2 c w3 old w4 d w5 e w6 f w7 where 1: "check_latch w = (Inr a, w1)"
    and 2: "check_debt (explicit_login input) w1 = (Inr b, w2)" and 3: "begin_transition patience w2 = (Inr c, w3)"
    and 4: "lock_active w3 = (Inr old, w4)" and 5: "own_cleanup input old w4 = (Inr d, w5)"
    and 6: "check_logout input old w5 = (Inr e, w6)"
    and 7: "(case old of None \<Rightarrow> result_is (Inr ()) | Some l \<Rightarrow> retire_namespace patience cover l) w6 = (Inr f, w7)"
    and 8: "settle_debts input old w7 = (Inr u, w')"
    using assms unfolding retire_previous_def and_then_ok by blast
  have k1: "keeps quiesced_held check_latch" "keeps quiesced_held (check_debt b)" "keeps quiesced_held (begin_transition n)"
    "keeps quiesced_held lock_active" "keeps quiesced_held (own_cleanup i o')" "keeps quiesced_held (check_logout i o')" for b n i o'
    unfolding check_latch_def check_debt_def begin_transition_def lock_active_def own_cleanup_def check_logout_def
    by (auto intro!: logging split: activation_input.splits)
  have "quiesced_held w6 = None"
    using assms(2) keepsD [OF k1(1) 1] keepsD [OF k1(2) 2] keepsD [OF k1(3) 3] keepsD [OF k1(4) 4] keepsD [OF k1(5) 5]
      keepsD [OF k1(6) 6] by simp
  moreover have "quiesced_held w7 = None" if "retire_namespace patience cover l w6 = (Inr f, w7)" for l
    using that by (auto simp: retire_namespace_def and_then_ok hold_def change_def act_def Let_def)
  ultimately have "quiesced_held w7 = None" using 7 by (cases old) auto
  then show ?thesis using keepsD [OF keeps_quiesced_settle 8] by simp
qed

lemma keeps_quiesced_candidate:
  "keeps quiesced_held (session_opens user)"
  "keeps quiesced_held (prepare_candidate parse_uuid device data_root ticket scope suggestion)"
  unfolding session_opens_def prepare_candidate_def choose_payer_def stage_switch_def load_candidate_def load_namespace_def
    open_authority_def rebind_directories_def admit_candidate_def recover_unpublished_def take_publication_def
    drop_transition_def of_write_def take_prepared_def transition_refused_def
  by (auto intro!: logging split: prod.split)

text \<open>The guards that the result took are gone, and so are the transition and the quiesced gate.\<close>

definition nothing_held :: "activation_guards \<Rightarrow> bool" where
  "nothing_held g = (ag_publication g = None \<and> ag_ticket g = None \<and> ag_pending g = None \<and> ag_quiesced g = None
     \<and> ag_transition g = None)"

lemma admitted_transition:
  assumes "admit_candidate lease w = (Inr x, w')"
  shows "ag_transition (aw_guards w') = None"
proof -
  let ?rest = "\<lambda>profile. and_then (attempt_to ''activity'' ActivityPrepared (\<lambda>c. (prepare_activation lease (tc_activity c), c))) (\<lambda>_.
      and_then (writer_call (WriterActivated lease)) (\<lambda>r.
      and_then (of_write r) (\<lambda>_.
      and_then (hold (\<lambda>g. g\<lparr>ag_pending := map_option (\<lambda>p. p\<lparr>pa_writer_lease := Some lease\<rparr>) (ag_pending g)\<rparr>)) (\<lambda>_.
      result_is (Inr profile)))))"
  obtain i recovered profile w4 u w5 where take: "take_publication i lease recovered w4 = (Inr u, w5)"
    and rest: "?rest profile w5 = (Inr x, w')"
    using assms by (auto simp: admit_candidate_def and_then_ok transition_refused_def split: option.splits)
  have "ag_transition (aw_guards w5) = None"
    using take by (auto simp: take_publication_ok and_then_ok hold_def attempt_to_def act_def Let_def split: prod.splits sum.splits)
  moreover have keeping: "keeps (\<lambda>w. ag_transition (aw_guards w)) (?rest profile)"
    unfolding of_write_def transition_refused_def by (auto intro!: logging)
  ultimately show ?thesis using keepsD [OF keeping rest] by simp
qed

lemma candidate_holds_nothing:
  assumes "prepare_candidate parse_uuid device data_root ticket scope suggestion w = (Inr p, w')" and "quiesced_held w = None"
  shows "nothing_held (aw_guards w')"
proof -
  obtain t st snap listed lease profile w2 w3 n w4 where 3: "admit_candidate lease w2 = (Inr profile, w3)"
    and 4: "ask (\<lambda>_. Asked) av_selected w3 = (Inr n, w4)"
    and 5: "take_prepared lease t st profile snap listed n w4 = (Inr p, w')"
    using assms(1) by (auto simp: prepare_candidate_def and_then_ok)
  have keeping: "keeps aw_guards (ask (\<lambda>_. Asked) av_selected)" by (rule keeps_calls_guards)
  have "ag_transition (aw_guards w4) = None" using admitted_transition [OF 3] keepsD [OF keeping 4] by simp
  moreover have "quiesced_held w' = None" using keepsD [OF keeps_quiesced_candidate(2) assms(1)] assms(2) by simp
  ultimately show ?thesis
    using 5 by (auto simp: nothing_held_def take_prepared_def and_then_def guards_def hold_def result_is_def transition_refused_def
        split: option.splits)
qed

lemma drop_nothing: "held (aw_guards w) = None \<Longrightarrow> and_then (drop_held held release destructor) f w = f () w"
  by (simp add: drop_held_def and_then_def guards_def result_is_def)

lemma steady_drop_guards:
  assumes "drop_guards w = (Inr u, w')" and "nothing_held (aw_guards w)" and "alone w"
    and "\<And>c d. h (c\<lparr>tc_debt := d\<rparr>) = h c"
  shows "alone w' \<and> h (aw_core w') = h (aw_core w)"
proof -
  have run: "and_then (ignored attempt_remote_logout) (\<lambda>_. and_then (ignored clear_retired_session) (\<lambda>_.
      drop_held ag_transition (\<lambda>g. g\<lparr>ag_transition := None\<rparr>) drop_transition)) w = (Inr u, w')"
    using assms(1,2) by (simp add: drop_guards_def drop_nothing nothing_held_def)
  then obtain a w1 b w2 where 1: "ignored attempt_remote_logout w = (Inr a, w1)" and 2: "ignored clear_retired_session w1 = (Inr b, w2)"
    and 3: "drop_held ag_transition (\<lambda>g. g\<lparr>ag_transition := None\<rparr>) drop_transition w2 = (Inr u, w')"
    unfolding and_then_ok by blast
  have keep: "keeps (\<lambda>w. ag_transition (aw_guards w)) (ignored attempt_remote_logout)"
    "keeps (\<lambda>w. ag_transition (aw_guards w)) (ignored clear_retired_session)"
    unfolding ignored_def clear_retired_session_def attempt_remote_logout_def clear_session_scope_def persisted_owner_def
    by (auto intro!: logging)
  have "ag_transition (aw_guards w2) = None"
    using assms(2) keepsD [OF keep(1) 1] keepsD [OF keep(2) 2] by (simp add: nothing_held_def)
  with 3 have "w' = w2" by (simp add: drop_held_def and_then_def guards_def result_is_def)
  moreover have calm: "steady h (ignored attempt_remote_logout)" "steady h (ignored clear_retired_session)"
    unfolding ignored_def by (intro steadiness steady_debts assms(4))+
  ultimately show ?thesis using steadyD [OF calm(1) 1 assms(3)] steadyD [OF calm(2) 2] by metis
qed

section \<open>What the checks found\<close>

lemma achievesD: "orders R xs p \<Longrightarrow> p w = (Inr a, w') \<Longrightarrow> R a"
  unfolding achieves_def by blast

definition billing_ready :: "pending_billing_switch \<Rightarrow> billing_state \<Rightarrow> bool" where
  "billing_ready t b = (\<not> bill_poisoned b \<and> \<not> bill_closed b \<and> bill_pending b = Some t)"

definition gate_ready :: "u64 \<Rightarrow> namespace_gate \<Rightarrow> bool" where
  "gate_ready i g = (\<not> ng_poisoned g \<and> \<not> ng_closed g \<and> ng_transition g = Some i \<and> ng_active g = None)"

definition activity_ready :: "activity_state \<Rightarrow> bool" where
  "activity_ready s = (\<not> act_poisoned s \<and> \<not> act_closed s \<and> \<not> act_quiescing s \<and> act_count s = 0 \<and> act_lease s = None)"

lemma confirmation_ready: "stage_confirmation b t choice snap s = (Inr st, s') \<Longrightarrow> billing_ready t s'"
  using staged_confirmation [of b t choice snap s st s'] by (simp add: billing_ready_def)

lemma stage_ready: "stage_switch t choice snap w = (Inr st, w') \<Longrightarrow> billing_ready t (tc_billing (aw_core w'))"
  by (auto simp: stage_switch_def attempt_to_def act_def on_billing_def Let_def dest: confirmation_ready
      split: prod.splits sum.splits)

lemma payer_ready:
  assumes "choose_payer parse_uuid device scope suggestion w = (Inr (t, st, snap, listed), w')"
  shows "billing_ready t (tc_billing (aw_core w'))"
proof -
  obtain l s w1 where "(case choose_candidate l s suggestion of
      Inl _ \<Rightarrow> transition_refused
    | Inr choice \<Rightarrow>
        and_then (attempt_to ''billing'' (\<lambda>_. Asked)
            (on_billing (begin_switch parse_uuid scope device (group_id choice) StillValid))) (\<lambda>ticket.
        and_then (hold (\<lambda>g. g\<lparr>ag_ticket := Some (ticket, True)\<rparr>)) (\<lambda>_.
        and_then (ask (\<lambda>_. Asked) av_snapshot) (\<lambda>snapshot.
        and_then (stage_switch ticket choice snapshot) (\<lambda>staged.
        result_is (Inr (ticket, staged, snapshot, l))))))) w1 = (Inr (t, st, snap, listed), w')"
    using assms unfolding choose_payer_def and_then_ok by blast
  then show ?thesis
    by (cases "choose_candidate l s suggestion") (auto simp: and_then_ok transition_refused_def intro: stage_ready)
qed

lemma publication_ready:
  assumes "take_publication i lease recovered w = (Inr u, w')"
  shows "gate_ready i (tc_gate (aw_core w'))"
  using assms
  by (auto simp: take_publication_ok and_then_ok hold_def attempt_to_def act_def Let_def prepare_publication_def gate_ready_def
      split: prod.splits sum.splits if_splits)

lemma activation_ready:
  assumes "attempt_to message e (\<lambda>c. (prepare_activation lease (tc_activity c), c)) w = (Inr l, w')"
  shows "activity_ready (tc_activity (aw_core w'))"
  using assms
  by (auto simp: attempt_to_def act_def Let_def prepare_activation_def activity_ready_def split: prod.splits sum.splits if_splits)

lemma admitted_ready:
  assumes "admit_candidate lease w = (Inr x, w')" and "alone w"
  shows "\<exists>i. held_publication w' = Some (i, lease) \<and> gate_ready i (tc_gate (aw_core w'))
     \<and> activity_ready (tc_activity (aw_core w')) \<and> alone w'"
proof -
  let ?last = "\<lambda>profile. and_then (writer_call (WriterActivated lease)) (\<lambda>r.
      and_then (of_write r) (\<lambda>_.
      and_then (hold (\<lambda>g. g\<lparr>ag_pending := map_option (\<lambda>p. p\<lparr>pa_writer_lease := Some lease\<rparr>) (ag_pending g)\<rparr>)) (\<lambda>_.
      result_is (Inr profile))))"
  let ?activity = "attempt_to ''activity'' ActivityPrepared (\<lambda>c. (prepare_activation lease (tc_activity c), c))"
  obtain i recovered a w1 b w2 profile w3 u w4 l w5 where 0: "recover_unpublished i lease w = (Inr recovered, w1)"
    and 1: "ask (\<lambda>_. Asked) av_unit w1 = (Inr a, w2)" and 2: "ask (\<lambda>_. Asked) av_selected w2 = (Inr profile, w3)"
    and 3: "take_publication i lease recovered w3 = (Inr u, w4)" and 4: "?activity w4 = (Inr l, w5)"
    and 5: "?last profile w5 = (Inr x, w')"
    using assms(1)
    by (auto simp: admit_candidate_def and_then_ok guards_def transition_refused_def split: option.splits)
  have calm: "steady h (recover_unpublished i lease)" "steady h (ask (\<lambda>_. Asked) av_unit)" "steady h (ask (\<lambda>_. Asked) av_selected)"
    "steady h (take_publication i lease recovered)" "steady h ?activity" "steady h (?last profile)" for h :: "transition_core \<Rightarrow> transition_core"
    by (intro steadiness steady_recover steady_take; simp)+
  have w4: "alone w4"
    using steadyD [OF calm(1) 0 assms(2)] steadyD [OF calm(2) 1] steadyD [OF calm(3) 2] steadyD [OF calm(4) 3] by blast
  then have same: "alone w'" "aw_core w5 = aw_core w4" "aw_core w' = aw_core w5"
    using steadyD [OF calm(5) [of "\<lambda>c. c"] 4] steadyD [OF calm(6) [of "\<lambda>c. c"] 5] by auto
  have "held_publication w4 = Some (i, lease)" by (rule taken_publication [OF 3])
  moreover have keep: "keeps held_publication ?activity" "keeps held_publication (?last profile)"
    unfolding of_write_def transition_refused_def by (auto intro!: logging)
  ultimately have "held_publication w' = Some (i, lease)" using keepsD [OF keep(1) 4] keepsD [OF keep(2) 5] by simp
  with same publication_ready [OF 3] activation_ready [OF 4] show ?thesis by auto
qed

section \<open>From the checks to the publication\<close>

lemma undisturbed_after: "may_log P p \<Longrightarrow> p w = (r, w') \<Longrightarrow> alone w' = alone w"
  by (erule logsE) (auto simp: alone_def)

definition publishable :: "prepared_activation \<Rightarrow> transition_core \<Rightarrow> bool" where
  "publishable p c =
    (billing_ready (pr_ticket p) (tc_billing c)
     \<and> (\<exists>i. pr_publication p = Some (i, pr_lease p) \<and> gate_ready i (tc_gate c)) \<and> activity_ready (tc_activity c))"

lemma publishable_same: "tc_billing c' = tc_billing c \<Longrightarrow> tc_gate c' = tc_gate c \<Longrightarrow> tc_activity c' = tc_activity c \<Longrightarrow>
    publishable p c' = publishable p c"
  by (simp add: publishable_def)

abbreviation gates :: "transition_core \<Rightarrow> billing_state \<times> namespace_gate \<times> activity_state" where
  "gates c \<equiv> (tc_billing c, tc_gate c, tc_activity c)"

lemma candidate_publishable:
  assumes "prepare_candidate parse_uuid device data_root ticket scope suggestion w = (Inr p, w')" and "alone w"
  shows "publishable p (aw_core w')"
proof -
  obtain t st snap listed lease profile w1 w2 w3 n w4 where
    1: "choose_payer parse_uuid device scope suggestion w = (Inr (t, st, snap, listed), w1)"
    and 2: "load_candidate parse_uuid data_root ticket scope w1 = (Inr lease, w2)"
    and 3: "admit_candidate lease w2 = (Inr profile, w3)"
    and 4: "ask (\<lambda>_. Asked) av_selected w3 = (Inr n, w4)"
    and 5: "take_prepared lease t st profile snap listed n w4 = (Inr p, w')"
    using assms(1) by (auto simp: prepare_candidate_def and_then_ok)
  have w1: "alone w1" using undisturbed_after [OF no_opening_payer 1] assms(2) by simp
  have calm2: "steady tc_billing (load_candidate parse_uuid data_root ticket scope)" by (rule steady_load) simp
  have w2: "alone w2" "tc_billing (aw_core w2) = tc_billing (aw_core w1)" using steadyD [OF calm2 2 w1] by auto
  have w3: "alone w3" "tc_billing (aw_core w3) = tc_billing (aw_core w2)" using steadyD [OF steady_admit 3 w2(1)] by auto
  obtain i where i: "held_publication w3 = Some (i, lease)" "gate_ready i (tc_gate (aw_core w3))" "activity_ready (tc_activity (aw_core w3))"
    using admitted_ready [OF 3 w2(1)] by blast
  have w4: "alone w4" "aw_core w4 = aw_core w3"
    using steadyD [OF steady_ask [of "\<lambda>c. c"] 4 w3(1)] by auto
  have "aw_core w' = aw_core w4" using steadyD [OF steady_prepared [of "\<lambda>c. c"] 5 w4(1)] by simp
  moreover have keep: "keeps held_publication (ask (\<lambda>_. Asked) av_selected)" by (rule keeps_calls)
  then have "held_publication w4 = Some (i, lease)" using keepsD [OF keep 4] i(1) by simp
  with 5 have "pr_lease p = lease" "pr_ticket p = t" "pr_publication p = Some (i, lease)"
    by (auto simp: take_prepared_def and_then_def guards_def hold_def result_is_def transition_refused_def split: option.splits)
  ultimately show ?thesis
    using payer_ready [OF 1] i(2,3) w2(2) w3(2) w4(2) by (simp add: publishable_def)
qed

lemma prepared_publishable:
  assumes "prepare_activation_with_cover parse_uuid device data_root patience ticket input cover w = (Inr (Some p), w')"
    and "input = Login user suggestion \<or> input = Resume user" and "alone w" and "quiesced_held w = None"
  shows "publishable p (aw_core w') \<and> alone w'"
proof -
  obtain s' w1 w2 scope w3 w4 u where 1: "retire_previous patience input cover w = (Inr u, w1)"
    and 2: "session_opens user w1 = (Inr scope, w2)"
    and 3: "prepare_candidate parse_uuid device data_root ticket scope s' w2 = (Inr p, w3)"
    and 4: "drop_guards w3 = (Inr w4, w')"
    using assms(1,2) by (auto simp: prepare_activation_with_cover_def dropping_ok and_then_ok open_session_def)
  have opened: "may_log (\<lambda>_. True) (session_opens user)" unfolding session_opens_def by (intro logging) simp_all
  have w2: "alone w2"
    using undisturbed_after [OF no_opening_retire_previous 1] undisturbed_after [OF opened 2] assms(3) by simp
  have w3: "alone w3" using undisturbed_after [OF no_opening_prepare(1) 3] w2 by simp
  have "quiesced_held w2 = None"
    using nothing_quiesced [OF 1 assms(4)] keepsD [OF keeps_quiesced_candidate(1) 2] by simp
  note free = candidate_holds_nothing [OF 3 this]
  have "alone w' \<and> gates (aw_core w') = gates (aw_core w3)"
    by (rule steady_drop_guards [OF 4 free w3, where h = gates]) simp
  with candidate_publishable [OF 3 w2] publishable_same [of "aw_core w'" "aw_core w3" p] show ?thesis by simp
qed

lemma changed:
  assumes "change event f w = (Inr u, w')" and "alone w"
  shows "alone w' \<and> aw_core w' = f (aw_core w)"
  using assms by (auto simp: change_def act_def alone_def Let_def)

definition agreed :: "namespace_lease \<Rightarrow> prepared_activation \<Rightarrow> transition_core \<Rightarrow> bool" where
  "agreed lease p c =
    (tc_active c = Some lease \<and> tc_user c = Some (lease_user lease)
     \<and> active_lease (tc_gate c) = Some lease \<and> ng_transition (tc_gate c) = None
     \<and> (\<exists>s. user_work_begin (Some (tc_active c)) (lease_scope lease) (tc_activity c) = (Inr lease, s))
     \<and> confirmed_scope (tc_billing c) = Some (pend_scope (pr_ticket p)))"

lemma publication_agrees:
  assumes "publish_activation p w = (Inr u, w')" and "alone w" and "publishable p (aw_core w)"
    and "stage_pending (pr_staged p) = pr_ticket p" and "pr_activity p = Some (pr_lease p)"
  shows "agreed (pr_lease p) p (aw_core w')"
proof -
  obtain i where i: "pr_publication p = Some (i, pr_lease p)" "gate_ready i (tc_gate (aw_core w))"
    using assms(3) by (auto simp: publishable_def)
  obtain a b c d e f w1 w2 w3 w4 w5 w6 where 1: "check_open w = (Inr a, w1)"
    and 2: "change (BillingPublished (pr_ticket p))
        (\<lambda>c. c\<lparr>tc_billing := publish_persisted (pr_ticket p) (pr_staged p) (tc_billing c)\<rparr>) w1 = (Inr b, w2)"
    and 3: "change (NamespacePublished (pr_lease p)) (\<lambda>c. c\<lparr>tc_gate := gate_publish (i, pr_lease p) (tc_gate c)\<rparr>) w2 = (Inr c, w3)"
    and 4: "change (ActiveSet (pr_lease p)) (\<lambda>c. c\<lparr>tc_active := Some (pr_lease p)\<rparr>) w3 = (Inr d, w4)"
    and 5: "change (UserShown (lease_user (pr_lease p))) (\<lambda>c. c\<lparr>tc_user := Some (lease_user (pr_lease p))\<rparr>) w4 = (Inr e, w5)"
    and 6: "change (ActivityPublished (pr_lease p)) (\<lambda>c. c\<lparr>tc_activity := publish_prepared (pr_lease p) (tc_activity c)\<rparr>) w5 = (Inr f, w6)"
    and 7: "drop_commit_permit w6 = (Inr u, w')"
    using assms(1) by (auto simp: publish_activation_def and_then_ok failing_with_ok i(1) assms(5))
  have calm: "steady gates check_open" by (rule steady_latch) simp
  have w1: "alone w1" "gates (aw_core w1) = gates (aw_core w)" using steadyD [OF calm 1 assms(2)] by auto
  note w2 = changed [OF 2 w1(1)] and w3 = changed [OF 3] and w4 = changed [OF 4] and w5 = changed [OF 5] and w6 = changed [OF 6]
    and w7 = changed [OF 7 [unfolded drop_commit_permit_def]]
  have core: "tc_billing (aw_core w') = publish_persisted (pr_ticket p) (pr_staged p) (tc_billing (aw_core w))"
    "tc_gate (aw_core w') = gate_publish (i, pr_lease p) (tc_gate (aw_core w))"
    "tc_activity (aw_core w') = publish_prepared (pr_lease p) (tc_activity (aw_core w))"
    "tc_active (aw_core w') = Some (pr_lease p)" "tc_user (aw_core w') = Some (lease_user (pr_lease p))"
    using w1(2) w2 w3 w4 w5 w6 w7 by auto
  have "user_work_begin (Some (Some (pr_lease p))) (lease_scope (pr_lease p)) (publish_prepared (pr_lease p) (tc_activity (aw_core w)))
      = (Inr (pr_lease p), (tc_activity (aw_core w))\<lparr>act_lease := Some (pr_lease p), act_count := 1\<rparr>)"
    using assms(3) by (simp add: publishable_def activity_ready_def user_work_begin_def lease_scope_def publish_prepared_def
        begin_recovery_unit_def checked_add_def Let_def)
  moreover have "active_lease (gate_publish (i, pr_lease p) (tc_gate (aw_core w))) = Some (pr_lease p)"
    "ng_transition (gate_publish (i, pr_lease p) (tc_gate (aw_core w))) = None"
    using i(2) by (simp_all add: gate_ready_def active_lease_def gate_publish_def transition_drop_def close_if_poisoned_def Let_def)
  moreover have "confirmed_scope (publish_persisted (pr_ticket p) (pr_staged p) (tc_billing (aw_core w))) = Some (pend_scope (pr_ticket p))"
    using assms(3,4) by (simp add: publishable_def billing_ready_def publish_persisted_def confirmed_scope_def usable_current_def)
  ultimately show ?thesis by (auto simp: agreed_def core)
qed

text \<open>
  C13: after a login or a resumed session that nobody disturbs everything agrees on one lease of this user and
  this transition: it is the active one, the namespace gate has it published and is free for the next
  transition, the session of the lease is admitted to work, the user is shown, and the confirmed payer is the
  one that was chosen and validated for this session.
\<close>

theorem undisturbed_activation_agrees:
  assumes "activate_account parse_uuid device data_root patience ticket input cover w = (Inr True, w')"
    and "input = Login user suggestion \<or> input = Resume user"
    and "alone w" and "quiesced_held w = None"
  shows "\<exists>scope p. scope_owner_user_id scope = user \<and> well_prepared scope ticket p \<and> agreed (pr_lease p) p (aw_core w')"
proof -
  obtain p0 w1 p1 w2 p w3 u where 1: "prepare_activation_with_cover parse_uuid device data_root patience ticket input cover w = (Inr (Some p0), w1)"
    and 2: "prepare_models p0 w1 = (Inr p1, w2)" and 3: "persist p1 w2 = (Inr p, w3)" and 4: "publish_activation p w3 = (Inr u, w')"
    using assms(1) by (auto simp: activate_account_def and_then_ok split: option.splits)
  obtain scope where scope: "scope_owner_user_id scope = user" "well_prepared scope ticket p0"
    using prepared_for_user [OF 1 assms(2)] by blast
  obtain profile where p1: "p1 = p0\<lparr>pr_profile := profile\<rparr>"
    using 2 by (auto simp: prepare_models_def and_then_ok)
  have p: "p = p0\<lparr>pr_profile := profile, pr_armed := False\<rparr>"
    using achievesD [OF persisted_orders 3] by (simp add: p1)
  have ready: "publishable p0 (aw_core w1)" "alone w1" using prepared_publishable [OF 1 assms(2-4)] by auto
  have w2: "alone w2" "gates (aw_core w2) = gates (aw_core w1)" using steadyD [OF steady_models [of gates] 2 ready(2)] by auto
  have calm: "steady gates (persist p1)" by (rule steady_persist) simp
  have w3: "alone w3" "gates (aw_core w3) = gates (aw_core w2)" using steadyD [OF calm 3 w2(1)] by auto
  have "publishable p0 (aw_core w3)" using publishable_same [of "aw_core w3" "aw_core w1" p0] ready(1) w2(2) w3(2) by simp
  then have "publishable p (aw_core w3)" by (simp add: p publishable_def)
  moreover have well: "well_prepared scope ticket p" using scope(2) by (simp add: p well_prepared_update)
  then have "stage_pending (pr_staged p) = pr_ticket p" "pr_activity p = Some (pr_lease p)"
    by (simp_all add: well_prepared_def paid_for_def)
  ultimately have "agreed (pr_lease p) p (aw_core w')" by (intro publication_agrees [OF 4 w3(1)])
  with scope(1) well show ?thesis by blast
qed

end
