(* ===== verification/Activation_Cleanup.thy ===== *)
theory Activation_Cleanup
  imports Activation_State
begin

text \<open>
  What a failed activation leaves behind: a session that it opened is cleared again, or the debt is noted; so
  is a writer that it activated.
\<close>

section \<open>Clearing a pending activation\<close>

definition noted :: "(cleanup_debt \<Rightarrow> bool) \<Rightarrow> activation_event list \<Rightarrow> bool" where
  "noted owed es = (\<exists>d. DebtNoted (Some d) \<in> set es \<and> owed d)"

definition session_cleaned :: "session_scope \<Rightarrow> activation_event list \<Rightarrow> bool" where
  "session_cleaned scope es =
    (BillingInvalidated \<in> set es \<and> (ScopeCleared scope \<in> set es \<or> noted debt_credentials es))"

definition writer_cleaned :: "namespace_lease \<Rightarrow> activation_event list \<Rightarrow> bool" where
  "writer_cleaned l es = (WriterDeactivated l \<in> set es \<or> noted debt_candidate_writer es)"

definition cleaned :: "pending_activation \<Rightarrow> activation_event list \<Rightarrow> bool" where
  "cleaned p es = (session_cleaned (pa_scope p) es \<and> (\<forall>l. pa_writer_lease p = Some l \<longrightarrow> writer_cleaned l es))"

lemma cleaned_more: "cleaned p es \<Longrightarrow> cleaned p (es1 @ es @ es2)"
  by (auto simp: cleaned_def session_cleaned_def writer_cleaned_def noted_def)

definition cleans :: "pending_activation \<Rightarrow> 'a activation \<Rightarrow> bool" where
  "cleans p q = (\<forall>w r w'. q w = (r, w') \<longrightarrow> (\<exists>es. aw_log w' = aw_log w @ es \<and> cleaned p es))"

definition succeeds :: "'a activation \<Rightarrow> bool" where
  "succeeds q = (\<forall>w. is_ok (fst (q w)))"

lemma succeeds_calls: "succeeds (change event f)" "succeeds (record_debt u)" "succeeds (clear_session_scope s)"
  "succeeds persisted_owner" "succeeds (result_is (Inr a))" "succeeds (hold h)" "succeeds guards" "succeeds (writer_call event)"
  by (auto simp: succeeds_def change_def record_debt_def clear_session_scope_def persisted_owner_def result_is_def hold_def guards_def
      writer_call_def act_def Let_def)

lemma succeeds_and_then: "succeeds p \<Longrightarrow> (\<And>a. succeeds (f a)) \<Longrightarrow> succeeds (and_then p f)"
  unfolding succeeds_def and_then_def by (auto split: prod.splits sum.splits) (metis fst_conv is_ok_simps(2))

lemma cleans_first:
  assumes "cleans p q" and "\<And>a. may_log (P a) (f a)"
  shows "cleans p (and_then q f)"
  unfolding cleans_def
proof (intro allI impI)
  fix w r w'
  assume run: "and_then q f w = (r, w')"
  obtain x w1 where q: "q w = (x, w1)" by (cases "q w")
  obtain es where es: "aw_log w1 = aw_log w @ es" "cleaned p es" using assms(1) q unfolding cleans_def by blast
  have "\<exists>es'. aw_log w' = aw_log w1 @ es'"
  proof (cases x)
    case (Inl e)
    with run q show ?thesis by (simp add: and_then_def)
  next
    case (Inr a)
    with run q have "f a w1 = (r, w')" by (simp add: and_then_def)
    from logged_more [OF assms(2) this] show ?thesis by blast
  qed
  with es cleaned_more [of p es "[]"] show "\<exists>es. aw_log w' = aw_log w @ es \<and> cleaned p es" by auto
qed

lemma cleans_later:
  assumes "succeeds q" and "may_log P q" and "\<And>a. cleans p (f a)"
  shows "cleans p (and_then q f)"
  unfolding cleans_def
proof (intro allI impI)
  fix w r w'
  assume run: "and_then q f w = (r, w')"
  obtain x w1 where q: "q w = (x, w1)" by (cases "q w")
  with assms(1) [unfolded succeeds_def, rule_format, of w] obtain a where "x = Inr a" by (cases x) auto
  with run q have f: "f a w1 = (r, w')" by (simp add: and_then_def)
  obtain es1 where es1: "aw_log w1 = aw_log w @ es1" using logged_more [OF assms(2) q] by blast
  obtain es where "aw_log w' = aw_log w1 @ es" "cleaned p es" using assms(3) f unfolding cleans_def by blast
  with es1 cleaned_more [of p es es1 "[]"] show "\<exists>es. aw_log w' = aw_log w @ es \<and> cleaned p es" by auto
qed

lemma noted_debt: "\<exists>d. slot_debt (update_cleanup_debt (\<lambda>d. d\<lparr>debt_credentials := True\<rparr>) s) = Some d \<and> debt_credentials d"
  "\<exists>d. slot_debt (update_cleanup_debt (\<lambda>d. d\<lparr>debt_candidate_writer := True\<rparr>) s) = Some d \<and> debt_candidate_writer d"
  by (auto simp: update_cleanup_debt_def cleanup_debt_is_empty_def Let_def)

lemma cleans_achieves:
  assumes "succeeds q" and "achieves (\<lambda>_. cleaned p) q"
  shows "cleans p q"
  unfolding cleans_def
proof (intro allI impI)
  fix w r w'
  assume q: "q w = (r, w')"
  with assms(1) [unfolded succeeds_def, rule_format, of w] obtain a where "r = Inr a" by (cases r) auto
  with q yieldsE [OF assms(2)] show "\<exists>es. aw_log w' = aw_log w @ es \<and> cleaned p es" by metis
qed

lemma noted_update:
  "noted debt_candidate_writer [DebtNoted (slot_debt (update_cleanup_debt (\<lambda>d. d\<lparr>debt_candidate_writer := True\<rparr>) s))]"
  "noted debt_credentials [DebtNoted (slot_debt (update_cleanup_debt (\<lambda>d. d\<lparr>debt_credentials := True\<rparr>) s))]"
  using noted_debt [of s] by (auto simp: noted_def)

lemma recorded_logged:
  "achieves (\<lambda>_. noted debt_candidate_writer) (record_debt (\<lambda>d. d\<lparr>debt_candidate_writer := True\<rparr>))"
  "achieves (\<lambda>_. noted debt_credentials) (record_debt (\<lambda>d. d\<lparr>debt_credentials := True\<rparr>))"
  unfolding record_debt_def Let_def by (rule achieves_act; auto simp only: noted_update prod.inject)+

lemma record_achieves: "achieves (\<lambda>_ _. True) (record_debt u)"
  unfolding record_debt_def Let_def by (rule achieves_act) simp

definition deactivate_writer :: "namespace_lease option \<Rightarrow> unit activation" where
  "deactivate_writer writer =
    (case writer of
       None \<Rightarrow> result_is (Inr ())
     | Some lease \<Rightarrow>
         and_then (act (\<lambda>v c. (Inr (is_ok (av_write v)), c, if is_ok (av_write v) then WriterDeactivated lease else Asked)))
           (\<lambda>deactivated. if deactivated then result_is (Inr ()) else record_debt (\<lambda>d. d\<lparr>debt_candidate_writer := True\<rparr>)))"

definition forget_session :: "session_scope \<Rightarrow> unit activation" where
  "forget_session scope =
    and_then (clear_session_scope scope) (\<lambda>cleared.
    and_then (if is_ok cleared then persisted_owner else result_is (Inr None)) (\<lambda>owner.
    record_debt (\<lambda>d. d\<lparr>debt_credentials := \<not> (is_ok cleared \<and> owner = None)\<rparr>)))"

lemma drop_pending_parts:
  "\<not> pa_committed p \<Longrightarrow> pa_changes_user p \<Longrightarrow> drop_pending_activation p =
    and_then (change BillingInvalidated (\<lambda>c. c\<lparr>tc_billing := invalidate_for_auth_change (tc_billing c)\<rparr>)) (\<lambda>_.
    and_then (deactivate_writer (pa_writer_lease p)) (\<lambda>_. forget_session (pa_scope p)))"
  by (simp add: drop_pending_activation_def deactivate_writer_def forget_session_def)

lemma deactivated:
  "succeeds (deactivate_writer writer)" "achieves (\<lambda>_ es. \<forall>l. writer = Some l \<longrightarrow> writer_cleaned l es) (deactivate_writer writer)"
proof -
  have tell: "succeeds (act (\<lambda>v c. (Inr (is_ok (av_write v)), c, e v)))" for e
    by (auto simp: succeeds_def act_def Let_def)
  show "succeeds (deactivate_writer writer)"
    unfolding deactivate_writer_def by (auto intro!: succeeds_and_then succeeds_calls tell split: option.split)
  show "achieves (\<lambda>_ es. \<forall>l. writer = Some l \<longrightarrow> writer_cleaned l es) (deactivate_writer writer)"
  proof (cases writer)
    case None
    then show ?thesis by (auto simp: deactivate_writer_def achieves_def)
  next
    case (Some l)
    have first: "achieves (\<lambda>b es. b \<longrightarrow> es = [WriterDeactivated l])
        (act (\<lambda>v c. (Inr (is_ok (av_write v)), c, if is_ok (av_write v) then WriterDeactivated l else Asked)))"
      by (rule achieves_act) auto
    have "achieves (\<lambda>_ es. writer_cleaned l es) (deactivate_writer (Some l))"
      unfolding deactivate_writer_def option.case
    proof (rule achieves_bind [OF first])
      fix b
      show "achieves (\<lambda>_ es2. \<forall>es1. (b \<longrightarrow> es1 = [WriterDeactivated l]) \<longrightarrow> writer_cleaned l (es1 @ es2))
         (if b then result_is (Inr ()) else record_debt (\<lambda>d. d\<lparr>debt_candidate_writer := True\<rparr>))"
      proof (cases b)
        case True
        then show ?thesis by (simp add: achieves_def writer_cleaned_def)
      next
        case False
        have "achieves (\<lambda>_ es2. \<forall>es1. writer_cleaned l (es1 @ es2)) (record_debt (\<lambda>d. d\<lparr>debt_candidate_writer := True\<rparr>))"
          by (rule achieves_mono [OF recorded_logged(1)]) (auto simp: writer_cleaned_def noted_def)
        with False show ?thesis by simp
      qed
    qed
    with Some show ?thesis by (auto elim: achieves_mono)
  qed
qed

lemma forgotten:
  "succeeds (forget_session scope)" "achieves (\<lambda>_ es. ScopeCleared scope \<in> set es \<or> noted debt_credentials es) (forget_session scope)"
proof -
  show "succeeds (forget_session scope)"
    unfolding forget_session_def by (auto intro!: succeeds_and_then succeeds_calls)
  have first: "achieves (\<lambda>r es. is_ok r \<longrightarrow> es = [ScopeCleared scope]) (clear_session_scope scope)"
    unfolding clear_session_scope_def by (rule achieves_act) auto
  show "achieves (\<lambda>_ es. ScopeCleared scope \<in> set es \<or> noted debt_credentials es) (forget_session scope)"
    unfolding forget_session_def
  proof (rule achieves_bind [OF first])
    fix r
    let ?rest = "and_then (if is_ok r then persisted_owner else result_is (Inr None))
       (\<lambda>owner. record_debt (\<lambda>d. d\<lparr>debt_credentials := \<not> (is_ok r \<and> owner = None)\<rparr>))"
    have "achieves (\<lambda>_ es. is_ok r \<or> noted debt_credentials es) ?rest"
    proof (cases "is_ok r")
      case True
      have "achieves (\<lambda>_ _. True) persisted_owner" unfolding persisted_owner_def by (rule achieves_act) simp
      with True show ?thesis by (auto intro!: achieves_mono [OF achieves_and_then] record_achieves)
    next
      case False
      then show ?thesis using recorded_logged(2) by simp
    qed
    then show "achieves (\<lambda>_ es2. \<forall>es1. (is_ok r \<longrightarrow> es1 = [ScopeCleared scope]) \<longrightarrow>
        ScopeCleared scope \<in> set (es1 @ es2) \<or> noted debt_credentials (es1 @ es2)) ?rest"
      by (rule achieves_mono) (auto simp: noted_def)
  qed
qed

lemma drop_pending_cleans:
  assumes "\<not> pa_committed p" and "pa_changes_user p"
  shows "cleans p (drop_pending_activation p)"
  unfolding drop_pending_parts [OF assms]
proof (rule cleans_achieves)
  show "succeeds (and_then (change BillingInvalidated (\<lambda>c. c\<lparr>tc_billing := invalidate_for_auth_change (tc_billing c)\<rparr>)) (\<lambda>_.
    and_then (deactivate_writer (pa_writer_lease p)) (\<lambda>_. forget_session (pa_scope p))))"
    by (intro succeeds_and_then succeeds_calls deactivated forgotten)
  show "achieves (\<lambda>_. cleaned p) (and_then (change BillingInvalidated (\<lambda>c. c\<lparr>tc_billing := invalidate_for_auth_change (tc_billing c)\<rparr>)) (\<lambda>_.
    and_then (deactivate_writer (pa_writer_lease p)) (\<lambda>_. forget_session (pa_scope p))))"
    by (rule achieves_mono [OF achieves_and_then [OF in_order_change achieves_and_then [OF deactivated(2) forgotten(2)]]])
      (auto simp: cleaned_def session_cleaned_def writer_cleaned_def noted_def subseq_singleton_left)
qed

section \<open>What is pending\<close>

abbreviation opened_pending :: "session_scope \<Rightarrow> namespace_lease option \<Rightarrow> pending_activation" where
  "opened_pending scope writer \<equiv> \<lparr>pa_scope = scope, pa_writer_lease = writer, pa_committed = False, pa_changes_user = True\<rparr>"

abbreviation held_pending :: "activation_world \<Rightarrow> pending_activation option" where
  "held_pending w \<equiv> ag_pending (aw_guards w)"

fun activates_writer :: "activation_event \<Rightarrow> bool" where
  "activates_writer (WriterActivated _) = True"
| "activates_writer _ = False"

definition only_writer :: "namespace_lease option \<Rightarrow> activation_event list \<Rightarrow> bool" where
  "only_writer writer es = (\<forall>l. WriterActivated l \<in> set es \<longrightarrow> writer = Some l)"

definition pending_since :: "activation_event list \<Rightarrow> session_scope \<Rightarrow> namespace_lease option \<Rightarrow> activation_world \<Rightarrow> bool" where
  "pending_since log scope writer w =
    (\<exists>es. aw_log w = log @ es \<and> held_pending w = Some (opened_pending scope writer) \<and> only_writer writer es)"

definition carried ::
  "(activation_world \<Rightarrow> bool) \<Rightarrow> 'a activation \<Rightarrow> ('a \<Rightarrow> activation_world \<Rightarrow> bool) \<Rightarrow> (activation_world \<Rightarrow> bool) \<Rightarrow> bool" where
  "carried A p B E = (\<forall>w r w'. A w \<longrightarrow> p w = (r, w') \<longrightarrow> (case r of Inl _ \<Rightarrow> E w' | Inr a \<Rightarrow> B a w'))"

lemma covered_and_then:
  assumes "carried A p B E" and "\<And>a. carried (B a) (f a) C E"
  shows "carried A (and_then p f) C E"
  unfolding carried_def
proof (intro allI impI)
  fix w r w'
  assume A: "A w" and run: "and_then p f w = (r, w')"
  obtain x w1 where p: "p w = (x, w1)" by (cases "p w")
  show "case r of Inl _ \<Rightarrow> E w' | Inr a \<Rightarrow> C a w'"
  proof (cases x)
    case (Inl e)
    with assms(1) A p run show ?thesis by (fastforce simp: carried_def and_then_def)
  next
    case (Inr a)
    with assms(1) A p have "B a w1" by (fastforce simp: carried_def)
    moreover have "f a w1 = (r, w')" using run p Inr by (simp add: and_then_def)
    ultimately show ?thesis using assms(2) [of a] unfolding carried_def by blast
  qed
qed

abbreviation bystander :: "'a activation \<Rightarrow> bool" where
  "bystander \<equiv> logs held_pending aw_log (\<lambda>e. \<not> activates_writer e)"

lemma only_writer_more: "only_writer writer es \<Longrightarrow> list_all (\<lambda>e. \<not> activates_writer e) es' \<Longrightarrow> only_writer writer (es @ es')"
  by (force simp: only_writer_def list_all_iff)

lemma bystander_covered:
  assumes "bystander p"
  shows "carried (pending_since log scope writer) p (\<lambda>_. pending_since log scope writer) (\<lambda>w. \<exists>writer. pending_since log scope writer w)"
  unfolding carried_def
proof (intro allI impI)
  fix w r w'
  assume A: "pending_since log scope writer w" and p: "p w = (r, w')"
  obtain es where es: "held_pending w' = held_pending w" "aw_log w' = aw_log w @ es" "list_all (\<lambda>e. \<not> activates_writer e) es"
    using logsE [OF assms p] .
  from A obtain es0 where "aw_log w = log @ es0" "held_pending w = Some (opened_pending scope writer)" "only_writer writer es0"
    by (auto simp: pending_since_def)
  with es only_writer_more have "pending_since log scope writer w'" by (auto simp: pending_since_def)
  then show "case r of Inl _ \<Rightarrow> \<exists>writer. pending_since log scope writer w' | Inr _ \<Rightarrow> pending_since log scope writer w'"
    by (auto split: sum.split)
qed

lemma bystander_act: "(\<And>v c. \<not> activates_writer (snd (snd (f v c)))) \<Longrightarrow> bystander (act f)"
  using may_log_act [of "\<lambda>e. \<not> activates_writer e" f] keeps_act [of ag_pending f]
  unfolding logs_def by blast

lemma bystander_calls [logging]:
  "(\<And>x. ag_pending (h x) = ag_pending x) \<Longrightarrow> bystander (hold h)"
  "bystander guards" "bystander transition_refused"
  "\<not> activates_writer event \<Longrightarrow> bystander (change event f)"
  "(\<And>a. \<not> activates_writer (e a)) \<Longrightarrow> bystander (attempt_to message e f')"
  "(\<And>a. \<not> activates_writer (e' a)) \<Longrightarrow> bystander (ask e' f'')"
proof -
  show "(\<And>x. ag_pending (h x) = ag_pending x) \<Longrightarrow> bystander (hold h)" by (rule logsI) (auto simp: hold_def)
  show "bystander guards" by (rule logsI) (auto simp: guards_def)
  show "bystander transition_refused" unfolding transition_refused_def by (intro logging)
  show "\<not> activates_writer event \<Longrightarrow> bystander (change event f)" unfolding change_def by (rule bystander_act) simp
  show "(\<And>a. \<not> activates_writer (e a)) \<Longrightarrow> bystander (attempt_to message e f')"
    unfolding attempt_to_def by (rule bystander_act) (auto split: prod.splits sum.splits)
  show "(\<And>a. \<not> activates_writer (e' a)) \<Longrightarrow> bystander (ask e' f'')"
    unfolding ask_def by (rule bystander_act) (auto split: sum.splits)
qed

lemma bystander_payer: "bystander (choose_payer parse_uuid device scope suggestion)"
  unfolding choose_payer_def stage_switch_def by (auto intro!: logging)

lemma bystander_load: "bystander (load_candidate parse_uuid data_root ticket scope)"
  unfolding load_candidate_def load_namespace_def open_authority_def rebind_directories_def by (auto intro!: logging)

lemma bystander_recover: "bystander (recover_unpublished i lease)"
  unfolding recover_unpublished_def by (auto intro!: logging bystander_act split: prod.splits sum.splits)

lemma bystander_take: "bystander (take_publication i lease recovered)"
  unfolding take_publication_def drop_transition_def by (auto intro!: logging)

text \<open>An error finds the writer pending if it was activated; a success hands it to the prepared activation.\<close>

abbreviation still_pending :: "activation_event list \<Rightarrow> session_scope \<Rightarrow> activation_world \<Rightarrow> bool" where
  "still_pending log scope w \<equiv> \<exists>writer. pending_since log scope writer w"

definition handed_over :: "activation_event list \<Rightarrow> session_scope \<Rightarrow> prepared_activation \<Rightarrow> activation_world \<Rightarrow> bool" where
  "handed_over log scope p w =
    (\<exists>es writer. aw_log w = log @ es \<and> pr_pending p = opened_pending scope writer \<and> only_writer writer es)"

lemma covered_refused: "(\<And>w. A w \<Longrightarrow> E w) \<Longrightarrow> carried A transition_refused B E"
  by (simp add: carried_def transition_refused_def result_is_def)

lemma covered_activation:
  "carried (pending_since log scope None)
    (and_then (writer_call (WriterActivated lease)) (\<lambda>r. and_then (of_write r) (\<lambda>_.
     and_then (hold (\<lambda>g. g\<lparr>ag_pending := map_option (\<lambda>p. p\<lparr>pa_writer_lease := Some lease\<rparr>) (ag_pending g)\<rparr>)) (\<lambda>_.
     result_is (Inr profile)))))
    (\<lambda>_. pending_since log scope (Some lease)) (still_pending log scope)"
  unfolding carried_def
proof (intro allI impI)
  fix w r w'
  let ?tail = "and_then (writer_call (WriterActivated lease)) (\<lambda>r. and_then (of_write r) (\<lambda>_.
     and_then (hold (\<lambda>g. g\<lparr>ag_pending := map_option (\<lambda>p. p\<lparr>pa_writer_lease := Some lease\<rparr>) (ag_pending g)\<rparr>)) (\<lambda>_.
     result_is (Inr profile))))"
  assume "pending_since log scope None w" and run: "?tail w = (r, w')"
  then obtain es where es: "aw_log w = log @ es" "held_pending w = Some (opened_pending scope None)" "only_writer None es"
    by (auto simp: pending_since_def)
  let ?answer = "av_write (aw_views w (aw_clock w))"
  show "case r of Inl _ \<Rightarrow> still_pending log scope w' | Inr _ \<Rightarrow> pending_since log scope (Some lease) w'"
  proof (cases ?answer)
    case (Inl e)
    with run es show ?thesis
      by (auto simp: and_then_def writer_call_def act_def of_write_def transition_refused_def result_is_def pending_since_def
          only_writer_def Let_def)
  next
    case (Inr u)
    with run es show ?thesis
      by (auto simp: and_then_def writer_call_def act_def of_write_def hold_def result_is_def pending_since_def
          only_writer_def Let_def)
  qed
qed

lemma covered_admit:
  "carried (pending_since log scope None) (admit_candidate lease) (\<lambda>_. pending_since log scope (Some lease)) (still_pending log scope)"
  unfolding admit_candidate_def
proof (rule covered_and_then [OF bystander_covered])
  fix g
  have "carried (pending_since log scope None)
      (and_then (recover_unpublished i lease) (\<lambda>recovered.
        and_then (ask (\<lambda>_. Asked) av_unit) (\<lambda>_.
        and_then (ask (\<lambda>_. Asked) av_selected) (\<lambda>profile.
        and_then (take_publication i lease recovered) (\<lambda>_.
        and_then (attempt_to ''activity'' ActivityPrepared (\<lambda>c. (prepare_activation lease (tc_activity c), c))) (\<lambda>_.
        and_then (writer_call (WriterActivated lease)) (\<lambda>r.
        and_then (of_write r) (\<lambda>_.
        and_then (hold (\<lambda>g. g\<lparr>ag_pending := map_option (\<lambda>p. p\<lparr>pa_writer_lease := Some lease\<rparr>) (ag_pending g)\<rparr>)) (\<lambda>_.
        result_is (Inr profile))))))))))
      (\<lambda>_. pending_since log scope (Some lease)) (still_pending log scope)" for i
    by (intro covered_and_then [OF bystander_covered] covered_activation bystander_recover bystander_take bystander_calls) simp_all
  then show "carried (pending_since log scope None)
      (case ag_transition g of None \<Rightarrow> transition_refused
       | Some i \<Rightarrow> and_then (recover_unpublished i lease) (\<lambda>recovered.
          and_then (ask (\<lambda>_. Asked) av_unit) (\<lambda>_.
          and_then (ask (\<lambda>_. Asked) av_selected) (\<lambda>profile.
          and_then (take_publication i lease recovered) (\<lambda>_.
          and_then (attempt_to ''activity'' ActivityPrepared (\<lambda>c. (prepare_activation lease (tc_activity c), c))) (\<lambda>_.
          and_then (writer_call (WriterActivated lease)) (\<lambda>r.
          and_then (of_write r) (\<lambda>_.
          and_then (hold (\<lambda>g. g\<lparr>ag_pending := map_option (\<lambda>p. p\<lparr>pa_writer_lease := Some lease\<rparr>) (ag_pending g)\<rparr>)) (\<lambda>_.
          result_is (Inr profile))))))))))
      (\<lambda>_. pending_since log scope (Some lease)) (still_pending log scope)"
    by (auto intro: covered_refused split: option.split)
qed (rule bystander_calls)

lemma covered_take:
  "carried (pending_since log scope writer) (take_prepared lease t st profile snap listed n) (handed_over log scope) (still_pending log scope)"
  by (auto simp: carried_def take_prepared_def and_then_def guards_def hold_def result_is_def transition_refused_def
      pending_since_def handed_over_def)

lemma covered_candidate:
  "carried (pending_since log scope None) (prepare_candidate parse_uuid device data_root ticket scope suggestion)
     (handed_over log scope) (still_pending log scope)"
  unfolding prepare_candidate_def
proof (rule covered_and_then [OF bystander_covered [OF bystander_payer]])
  fix chosen :: "pending_billing_switch \<times> staged_billing_confirmation \<times> account_snapshot \<times> account_group_choice list"
  obtain t st snap listed where "chosen = (t, st, snap, listed)" by (rule prod_cases4)
  then show "carried (pending_since log scope None)
      (case chosen of (billing, staged, snapshot, listed) \<Rightarrow>
        and_then (load_candidate parse_uuid data_root ticket scope) (\<lambda>lease.
        and_then (admit_candidate lease) (\<lambda>profile.
        and_then (ask (\<lambda>_. Asked) av_selected) (\<lambda>notice.
        take_prepared lease billing staged profile snapshot listed notice))))
      (handed_over log scope) (still_pending log scope)"
    by simp (intro covered_and_then [OF bystander_covered [OF bystander_load]] covered_and_then [OF covered_admit]
        covered_and_then [OF bystander_covered [OF bystander_calls(6)]] covered_take; simp)
qed

section \<open>Every way out\<close>

definition settled_after :: "session_scope \<Rightarrow> activation_event list \<Rightarrow> bool" where
  "settled_after scope es = (session_cleaned scope es \<and> (\<forall>l. WriterActivated l \<in> set es \<longrightarrow> writer_cleaned l es))"

abbreviation no_writer :: "'a activation \<Rightarrow> bool" where
  "no_writer \<equiv> may_log (\<lambda>e. \<not> activates_writer e)"

lemma settled_cleaned:
  assumes "only_writer writer es" and "cleaned (opened_pending scope writer) es'" and "list_all (\<lambda>e. \<not> activates_writer e) es'"
  shows "settled_after scope (es @ es')"
  using assms by (force simp: settled_after_def only_writer_def cleaned_def session_cleaned_def writer_cleaned_def noted_def list_all_iff)

lemma no_writer_calls [logging]:
  "no_writer (record_debt u)" "no_writer (clear_session_scope s)" "no_writer persisted_owner"
  "\<not> activates_writer event \<Longrightarrow> no_writer (writer_call event)" "no_writer (of_write r)" "no_writer drop_commit_permit"
  "no_writer begin_commit" "no_writer check_open"
  unfolding record_debt_def clear_session_scope_def persisted_owner_def writer_call_def of_write_def drop_commit_permit_def
    begin_commit_def check_open_def Let_def
  by (auto intro!: logging may_log_act split: prod.splits sum.splits if_splits)

lemma no_writer_drops [logging]:
  "no_writer (drop_pending_activation p)" "no_writer clear_retired_session" "no_writer attempt_remote_logout"
  "no_writer (drop_transition i)" "no_writer (drop_ticket t)" "no_writer (drop_quiesced l)"
  unfolding drop_pending_activation_def clear_retired_session_def attempt_remote_logout_def drop_transition_def drop_ticket_def
    drop_quiesced_def
  by (auto intro!: logging may_log_act split: prod.splits if_splits)

lemma no_writer_drop_guards: "no_writer drop_guards" "no_writer (drop_prepared p)"
  unfolding drop_guards_def drop_held_def ignored_def drop_prepared_def by (auto intro!: logging)

lemma no_writer_persist: "no_writer (save_profile p)" "no_writer (save_selection p)"
  unfolding save_profile_def save_selection_def retry_client_state_write_def Let_def by (auto intro!: logging)

lemma succeeds_held: "(\<And>x. succeeds (destructor x)) \<Longrightarrow> succeeds (drop_held held release destructor)"
  unfolding drop_held_def by (auto intro!: succeeds_and_then succeeds_calls split: option.split)

lemma succeedsE:
  assumes "succeeds p"
  obtains a w' where "p w = (Inr a, w')"
proof (cases "p w")
  case (Pair r w')
  with assms [unfolded succeeds_def, rule_format, of w] show ?thesis by (cases r) (auto intro: that)
qed

lemma drop_something:
  "held (aw_guards w) = Some x \<Longrightarrow>
    and_then (drop_held held release destructor) f w = and_then (and_then (hold release) (\<lambda>_. destructor x)) f w"
  by (simp add: drop_held_def and_then_def guards_def)

lemma drop_guards_cleans:
  assumes "held_pending w = Some (opened_pending scope writer)" and "drop_guards w = (r, w')"
  shows "\<exists>es. aw_log w' = aw_log w @ es \<and> cleaned (opened_pending scope writer) es"
proof -
  let ?A = "drop_held ag_publication (\<lambda>g. g\<lparr>ag_publication := None\<rparr>) (\<lambda>p. drop_transition (fst p))"
  let ?B = "drop_held ag_ticket (\<lambda>g. g\<lparr>ag_ticket := None\<rparr>) drop_ticket"
  let ?p = "opened_pending scope writer"
  have ok: "succeeds ?A" "succeeds ?B"
    unfolding drop_transition_def drop_ticket_def by (intro succeeds_held succeeds_calls)+
  have keep: "bystander ?A" "bystander ?B"
    unfolding drop_held_def drop_transition_def drop_ticket_def by (auto intro!: logging)
  obtain a w1 where A: "?A w = (Inr a, w1)" using succeedsE [OF ok(1)] .
  obtain b w2 where B: "?B w1 = (Inr b, w2)" using succeedsE [OF ok(2)] .
  obtain es1 where es1: "aw_log w1 = aw_log w @ es1" "held_pending w1 = held_pending w" using logsE [OF keep(1) A] by metis
  obtain es2 where es2: "aw_log w2 = aw_log w1 @ es2" "held_pending w2 = held_pending w1" using logsE [OF keep(2) B] by metis
  let ?R = "and_then (drop_held ag_quiesced (\<lambda>g. g\<lparr>ag_quiesced := None\<rparr>) drop_quiesced) (\<lambda>_.
    and_then (ignored attempt_remote_logout) (\<lambda>_. and_then (ignored clear_retired_session) (\<lambda>_.
    drop_held ag_transition (\<lambda>g. g\<lparr>ag_transition := None\<rparr>) drop_transition)))"
  let ?C = "and_then (hold (\<lambda>g. g\<lparr>ag_pending := None\<rparr>)) (\<lambda>_. drop_pending_activation ?p)"
  have step: "and_then ?A f w = f a w1" "and_then ?B f' w1 = f' b w2" for f f' :: "unit \<Rightarrow> unit activation"
    using A B by (simp_all only: and_then_def prod.case sum.case)
  have "and_then ?C (\<lambda>_. ?R) w2 = (r, w')"
    using assms es1(2) es2(2) unfolding drop_guards_def step
    by (simp add: drop_something)
  moreover have "cleans ?p (and_then ?C (\<lambda>_. ?R))"
  proof (rule cleans_first)
    show "cleans ?p ?C" by (rule cleans_later [OF succeeds_calls(6) may_log_hold drop_pending_cleans]) simp_all
    show "no_writer ?R" unfolding drop_held_def ignored_def by (auto intro!: logging)
  qed
  ultimately obtain es3 where "aw_log w' = aw_log w2 @ es3" "cleaned ?p es3" unfolding cleans_def by blast
  with es1(1) es2(1) cleaned_more [of ?p es3 "es1 @ es2" "[]"] show ?thesis by auto
qed

text \<open>The log of a failed run: what happened before the session was opened, and what came after.\<close>

definition ends_clean :: "activation_event list \<Rightarrow> bool" where
  "ends_clean es =
    (list_all (\<lambda>e. \<not> opens e) es
     \<or> (\<exists>pre s post. es = pre @ SessionOpened s # post \<and> settled_after s post))"

lemma drop_prepared_cleans: "pr_pending p = opened_pending scope writer \<Longrightarrow> cleans (opened_pending scope writer) (drop_prepared p)"
  unfolding drop_prepared_def
  by (rule cleans_first [where P = "\<lambda>_ e. \<not> activates_writer e"])
    (auto intro!: drop_pending_cleans logging)

lemma failed_cleans:
  assumes "cleans q drops" and "no_writer p" and "failing_with drops p w = (Inl e, w')"
  shows "\<exists>es. aw_log w' = aw_log w @ es \<and> cleaned q es"
proof -
  obtain x w1 where p: "p w = (x, w1)" by (cases "p w")
  with assms(3) have x: "is_err x" by (cases x) (auto simp: failing_with_def settle_with_def result_is_def)
  then obtain e' where e': "x = Inl e'" by (cases x) auto
  obtain y w2 where d: "drops w1 = (y, w2)" by (cases "drops w1")
  have "w2 = w'"
    using assms(3) p d e' by (auto simp: failing_with_def settle_with_def and_then_def result_is_def split: sum.splits)
  moreover obtain es1 where es1: "aw_log w1 = aw_log w @ es1" using logged_more [OF assms(2) p] by blast
  moreover obtain es2 where "aw_log w2 = aw_log w1 @ es2" "cleaned q es2" using assms(1) d unfolding cleans_def by blast
  ultimately show ?thesis using cleaned_more [of q es2 es1 "[]"] by auto
qed

lemma ends_cleanI:
  assumes "aw_log w = log @ pre @ SessionOpened scope # es" and "only_writer writer es"
    and "aw_log w' = aw_log w @ es'" and "cleaned (opened_pending scope writer) es'" and "list_all (\<lambda>e. \<not> activates_writer e) es'"
  shows "\<exists>es. aw_log w' = log @ es \<and> ends_clean es"
proof -
  have "settled_after scope (es @ es')" by (rule settled_cleaned [OF assms(2,4,5)])
  with assms(1,3) have "aw_log w' = log @ pre @ SessionOpened scope # (es @ es')"
    and "ends_clean (pre @ SessionOpened scope # (es @ es'))" by (auto simp: ends_clean_def)
  then show ?thesis by blast
qed

lemma opened_body:
  assumes "and_then (retire_previous patience input cover) (\<lambda>_. and_then (session_opens user) (\<lambda>scope.
      and_then (prepare_candidate parse_uuid device data_root ticket scope suggestion) (\<lambda>p. result_is (Inr (Some p))))) w = (r, w')"
  shows "(is_err r \<and> (\<exists>es. aw_log w' = aw_log w @ es \<and> list_all (\<lambda>e. \<not> opens e) es))
    \<or> (\<exists>pre scope. case r of
          Inl _ \<Rightarrow> still_pending (aw_log w @ pre @ [SessionOpened scope]) scope w'
        | Inr result \<Rightarrow> \<exists>p. result = Some p \<and> handed_over (aw_log w @ pre @ [SessionOpened scope]) scope p w')"
proof -
  obtain x w1 where p: "retire_previous patience input cover w = (x, w1)" by (cases "retire_previous patience input cover w")
  obtain es1 where es1: "aw_log w1 = aw_log w @ es1" "list_all (\<lambda>e. \<not> opens e) es1"
    using logged_more [OF no_opening_retire_previous p] by blast
  show ?thesis
  proof (cases x)
    case (Inl e)
    with assms p es1 show ?thesis by (auto simp: and_then_def)
  next
    case (Inr u)
    obtain y w2 where q: "session_opens user w1 = (y, w2)" by (cases "session_opens user w1")
    note opened = session_opens_logged [OF q]
    show ?thesis
    proof (cases y)
      case (Inl e)
      with assms p q \<open>x = Inr u\<close> opened es1 show ?thesis by (auto simp: and_then_def)
    next
      case (Inr scope)
      let ?log = "aw_log w @ es1 @ [SessionOpened scope]"
      obtain z w3 where c: "prepare_candidate parse_uuid device data_root ticket scope suggestion w2 = (z, w3)"
        by (cases "prepare_candidate parse_uuid device data_root ticket scope suggestion w2")
      have "held_pending w2 = Some (opened_pending scope None)"
        using q Inr by (auto simp: session_opens_def and_then_ok hold_def)
      with opened Inr es1(1) have "pending_since ?log scope None w2" by (simp add: pending_since_def only_writer_def)
      with covered_candidate c have "case z of Inl _ \<Rightarrow> still_pending ?log scope w3 | Inr p \<Rightarrow> handed_over ?log scope p w3"
        unfolding carried_def by blast
      moreover have "w' = w3" "r = (case z of Inl e \<Rightarrow> Inl e | Inr p \<Rightarrow> Inr (Some p))"
        using assms p q c \<open>x = Inr u\<close> Inr by (auto simp: and_then_def result_is_def split: sum.splits)
      ultimately show ?thesis by (auto split: sum.splits)
    qed
  qed
qed

lemma succeeds_debts: "succeeds clear_retired_session" "succeeds attempt_remote_logout" "succeeds (drop_pending_activation p)"
proof -
  have told: "(\<And>v c. is_ok (fst (f v c))) \<Longrightarrow> succeeds (act f)" for f :: "activation_view \<Rightarrow> transition_core \<Rightarrow> (activation_stop + 'z) \<times> transition_core \<times> activation_event"
    unfolding succeeds_def act_def Let_def by (metis (mono_tags, lifting) fst_conv prod.case_eq_if)
  show "succeeds clear_retired_session" "succeeds attempt_remote_logout"
    unfolding clear_retired_session_def attempt_remote_logout_def
    by (auto intro!: succeeds_and_then succeeds_calls told split: option.split prod.split)
  show "succeeds (drop_pending_activation p)"
    unfolding drop_pending_activation_def by (auto intro!: succeeds_and_then succeeds_calls told split: option.split)
qed

lemma succeeds_drop_guards: "succeeds drop_guards"
  unfolding drop_guards_def ignored_def drop_transition_def drop_ticket_def drop_quiesced_def
  by (intro succeeds_and_then succeeds_held succeeds_calls succeeds_debts)

lemma prepared_or_clean:
  assumes "prepare_activation_with_cover parse_uuid device data_root patience ticket input cover w = (r, w')"
    and "input = Login user s \<or> input = Resume user" and "r \<noteq> Inl StillWaiting"
  shows "case r of Inl _ \<Rightarrow> \<exists>es. aw_log w' = aw_log w @ es \<and> ends_clean es
    | Inr result \<Rightarrow> \<exists>pre scope p. result = Some p \<and> handed_over (aw_log w @ pre @ [SessionOpened scope]) scope p w'"
proof -
  define suggestion where "suggestion = (case input of Login _ s \<Rightarrow> s | _ \<Rightarrow> None)"
  let ?body = "and_then (retire_previous patience input cover) (\<lambda>_. and_then (session_opens user) (\<lambda>scope.
      and_then (prepare_candidate parse_uuid device data_root ticket scope suggestion) (\<lambda>p. result_is (Inr (Some p)))))"
  have run: "dropping drop_guards ?body w = (r, w')"
    using assms(1,2) by (auto simp: prepare_activation_with_cover_def open_session_def suggestion_def)
  obtain x w1 where b: "?body w = (x, w1)" by (cases "?body w")
  obtain y w2 where d: "drop_guards w1 = (y, w2)" by (cases "drop_guards w1")
  from run b have x: "x \<noteq> Inl StillWaiting"
    using assms(3) by (auto simp: dropping_def settle_with_def result_is_def)
  obtain es2 where es2: "aw_log w2 = aw_log w1 @ es2" "list_all (\<lambda>e. \<not> activates_writer e) es2"
    using logged_more [OF no_writer_drop_guards(1) d] by blast
  have quiet: "list_all (\<lambda>e. \<not> opens e) es2" using logged_more [OF no_opening_drops d] es2(1) by auto
  obtain u where "y = Inr u" using succeedsE [OF succeeds_drop_guards, of w1] d by auto
  with run b d x have w': "w' = w2" and r: "r = x"
    by (auto simp: dropping_def settle_with_def and_then_def result_is_def)
  from opened_body [OF b] show ?thesis
  proof (elim disjE conjE exE)
    fix es
    assume "is_err x" "aw_log w1 = aw_log w @ es" "list_all (\<lambda>e. \<not> opens e) es"
    with es2(1) quiet have "aw_log w' = aw_log w @ es @ es2" "ends_clean (es @ es2)" by (simp_all add: w' ends_clean_def)
    with \<open>is_err x\<close> r show ?thesis by (cases x) auto
  next
    fix pre scope
    let ?log = "aw_log w @ pre @ [SessionOpened scope]"
    assume ended: "case x of Inl _ \<Rightarrow> still_pending ?log scope w1
      | Inr result \<Rightarrow> \<exists>p. result = Some p \<and> handed_over ?log scope p w1"
    show ?thesis
    proof (cases x)
      case (Inl e)
      with ended obtain writer es where es: "aw_log w1 = ?log @ es" "held_pending w1 = Some (opened_pending scope writer)"
        "only_writer writer es" by (auto simp: pending_since_def)
      obtain es' where "aw_log w' = aw_log w1 @ es'" "cleaned (opened_pending scope writer) es'"
        using drop_guards_cleans [OF es(2) d] w' by blast
      moreover from this(1) es2 w' have "list_all (\<lambda>e. \<not> activates_writer e) es'" by simp
      moreover have "aw_log w1 = aw_log w @ pre @ SessionOpened scope # es" using es(1) by simp
      ultimately have "\<exists>es. aw_log w' = aw_log w @ es \<and> ends_clean es"
        using ends_cleanI [OF _ es(3)] by blast
      with r Inl show ?thesis by simp
    next
      case (Inr result)
      with ended obtain p where p: "result = Some p" "handed_over ?log scope p w1" by auto
      with es2 w' only_writer_more have "handed_over ?log scope p w'" by (fastforce simp: handed_over_def)
      with r Inr p(1) show ?thesis by auto
    qed
  qed
qed

section \<open>The activation\<close>

lemma dropped_permit_cleans:
  assumes "pr_pending p = opened_pending scope writer"
  shows "cleans (opened_pending scope writer) (and_then drop_commit_permit (\<lambda>_. drop_prepared p))"
    and "cleans (opened_pending scope writer) (and_then (drop_prepared p) (\<lambda>_. drop_commit_permit))"
proof -
  show "cleans (opened_pending scope writer) (and_then drop_commit_permit (\<lambda>_. drop_prepared p))"
    unfolding drop_commit_permit_def
    by (rule cleans_later [OF succeeds_calls(1) may_log_change [where P = "\<lambda>_. True"] drop_prepared_cleans [OF assms]]) simp
  show "cleans (opened_pending scope writer) (and_then (drop_prepared p) (\<lambda>_. drop_commit_permit))"
    by (rule cleans_first [OF drop_prepared_cleans [OF assms] no_writer_calls(6)])
qed

text \<open>A step that drops the prepared activation when it fails.\<close>

definition cleans_up :: "session_scope \<Rightarrow> namespace_lease option \<Rightarrow> 'a activation \<Rightarrow> bool" where
  "cleans_up scope writer p =
    (\<forall>w e w'. p w = (Inl e, w') \<longrightarrow> (\<exists>es. aw_log w' = aw_log w @ es \<and> cleaned (opened_pending scope writer) es))"

lemma cleans_up_then:
  assumes "cleans_up scope writer p" and "no_writer p" and "\<And>a w0 w1. p w0 = (Inr a, w1) \<Longrightarrow> cleans_up scope writer (f a)"
  shows "cleans_up scope writer (and_then p f)"
  unfolding cleans_up_def
proof (intro allI impI)
  fix w e w'
  assume run: "and_then p f w = (Inl e, w')"
  obtain x w1 where p: "p w = (x, w1)" by (cases "p w")
  show "\<exists>es. aw_log w' = aw_log w @ es \<and> cleaned (opened_pending scope writer) es"
  proof (cases x)
    case (Inl e')
    with run p assms(1) show ?thesis by (auto simp: and_then_def cleans_up_def)
  next
    case (Inr a)
    with run p have "f a w1 = (Inl e, w')" by (simp add: and_then_def)
    with assms(3) p Inr obtain es where es: "aw_log w' = aw_log w1 @ es" "cleaned (opened_pending scope writer) es"
      unfolding cleans_up_def by blast
    obtain es1 where "aw_log w1 = aw_log w @ es1" using logged_more [OF assms(2) p] by blast
    with es cleaned_more [of _ es es1 "[]"] show ?thesis by auto
  qed
qed

lemma cleans_up_failing: "cleans (opened_pending scope writer) drops \<Longrightarrow> no_writer p \<Longrightarrow> cleans_up scope writer (failing_with drops p)"
  unfolding cleans_up_def using failed_cleans by blast

lemma cleans_up_never: "succeeds p \<Longrightarrow> cleans_up scope writer p"
  unfolding cleans_up_def by (metis succeedsE Inl_Inr_False prod.inject)

lemma no_writer_failing: "no_writer drops \<Longrightarrow> no_writer p \<Longrightarrow> no_writer (failing_with drops p)"
  by (rule may_log_failing_with)

lemma models_clean_up:
  "pr_pending p = opened_pending scope writer \<Longrightarrow> cleans_up scope writer (prepare_models p)" "no_writer (prepare_models p)"
proof -
  have quiet: "no_writer (failing_with (drop_prepared p) (ask (\<lambda>_. Asked) av_profile))"
    by (intro no_writer_failing no_writer_drop_guards(2) may_log_ask) simp_all
  then show "no_writer (prepare_models p)"
    unfolding prepare_models_def by (intro logs_and_then logs_result_is)
  assume "pr_pending p = opened_pending scope writer"
  then show "cleans_up scope writer (prepare_models p)"
    unfolding prepare_models_def
    by (intro cleans_up_then [OF cleans_up_failing quiet] drop_prepared_cleans cleans_up_never succeeds_calls may_log_ask)
      simp_all
qed

lemma no_writer_steps:
  "no_writer (failing_with (drop_prepared p) begin_commit)"
  "no_writer (failing_with (and_then drop_commit_permit (\<lambda>_. drop_prepared p)) (save_profile p))"
  "no_writer (failing_with (and_then (drop_prepared p) (\<lambda>_. drop_commit_permit)) (save_selection p))"
  "no_writer (failing_with (and_then (drop_prepared p) (\<lambda>_. drop_commit_permit)) check_open)"
  by (intro no_writer_failing no_writer_drop_guards(2) no_writer_calls(6,7,8) no_writer_persist logs_and_then)+

lemma persist_cleans_up:
  "pr_pending p = opened_pending scope writer \<Longrightarrow> cleans_up scope writer (persist p)" "no_writer (persist p)"
proof -
  show "no_writer (persist p)"
    unfolding persist_def by (intro logs_and_then logs_result_is no_writer_steps)
  assume p: "pr_pending p = opened_pending scope writer"
  show "cleans_up scope writer (persist p)"
    unfolding persist_def
    by (intro cleans_up_then [OF cleans_up_failing no_writer_steps(1)] cleans_up_then [OF cleans_up_failing no_writer_steps(2)]
        cleans_up_then [OF cleans_up_failing no_writer_steps(3)] cleans_up_never succeeds_calls drop_prepared_cleans [OF p]
        dropped_permit_cleans [OF p] no_writer_calls(7) no_writer_persist)
qed

lemma publish_cleans_up: "pr_pending p = opened_pending scope writer \<Longrightarrow> cleans_up scope writer (publish_activation p)"
proof -
  assume p: "pr_pending p = opened_pending scope writer"
  have rest: "succeeds drop_commit_permit" unfolding drop_commit_permit_def by (rule succeeds_calls)
  show ?thesis
    unfolding publish_activation_def
    by (intro cleans_up_then [OF cleans_up_failing no_writer_steps(4)] cleans_up_never dropped_permit_cleans [OF p]
        no_writer_calls(8) succeeds_and_then succeeds_calls rest)
      (auto intro: succeeds_calls split: option.split)
qed

lemma no_writer_publish: "no_writer (publish_activation p)"
  unfolding publish_activation_def
  by (auto intro!: logs_and_then no_writer_steps no_writer_calls(6) logging)

lemma finished_pending:
  "prepare_models p w = (Inr q, w') \<Longrightarrow> pr_pending q = pr_pending p" "persist p w = (Inr q, w') \<Longrightarrow> pr_pending q = pr_pending p"
  by (auto simp: prepare_models_def persist_def and_then_ok)

definition finish :: "prepared_activation \<Rightarrow> bool activation" where
  "finish p =
    and_then (prepare_models p) (\<lambda>p. and_then (persist p) (\<lambda>p. and_then (publish_activation p) (\<lambda>_. result_is (Inr True))))"

lemma finish_cleans_up: "pr_pending p = opened_pending scope writer \<Longrightarrow> cleans_up scope writer (finish p)" "no_writer (finish p)"
proof -
  show "no_writer (finish p)"
    unfolding finish_def by (intro logs_and_then logs_result_is models_clean_up persist_cleans_up no_writer_publish)
  assume p: "pr_pending p = opened_pending scope writer"
  show "cleans_up scope writer (finish p)"
    unfolding finish_def
  proof (rule cleans_up_then [OF models_clean_up(1) [OF p] models_clean_up(2)])
    fix q w w'
    assume "prepare_models p w = (Inr q, w')"
    with p have q: "pr_pending q = opened_pending scope writer" by (simp add: finished_pending)
    show "cleans_up scope writer (and_then (persist q) (\<lambda>p. and_then (publish_activation p) (\<lambda>_. result_is (Inr True))))"
    proof (rule cleans_up_then [OF persist_cleans_up(1) [OF q] persist_cleans_up(2)])
      fix r w w'
      assume "persist q w = (Inr r, w')"
      with q have "pr_pending r = opened_pending scope writer" by (simp add: finished_pending)
      then show "cleans_up scope writer (and_then (publish_activation r) (\<lambda>_. result_is (Inr True)))"
        by (intro cleans_up_then [OF publish_cleans_up] no_writer_publish cleans_up_never succeeds_calls)
    qed
  qed
qed

lemma activation_finishes:
  "activate_account parse_uuid device data_root patience ticket input cover =
    and_then (prepare_activation_with_cover parse_uuid device data_root patience ticket input cover) (\<lambda>prepared.
      case prepared of None \<Rightarrow> result_is (Inr False) | Some p \<Rightarrow> finish p)"
  unfolding activate_account_def finish_def ..

lemma failed_login_is_clean:
  assumes "activate_account parse_uuid device data_root patience ticket input cover w = (Inl stop, w')"
    and "input = Login user s \<or> input = Resume user" and "stop \<noteq> StillWaiting"
  shows "\<exists>es. aw_log w' = aw_log w @ es \<and> ends_clean es"
proof -
  obtain x w1 where p: "prepare_activation_with_cover parse_uuid device data_root patience ticket input cover w = (x, w1)"
    by (cases "prepare_activation_with_cover parse_uuid device data_root patience ticket input cover w")
  have "x \<noteq> Inl StillWaiting" using assms(1,3) p by (auto simp: activation_finishes and_then_def)
  from prepared_or_clean [OF p assms(2) this] show ?thesis
  proof (cases x)
    case (Inl e)
    with assms(1) p have "w' = w1" by (simp add: activation_finishes and_then_def)
    moreover assume "case x of Inl _ \<Rightarrow> \<exists>es. aw_log w1 = aw_log w @ es \<and> ends_clean es
      | Inr result \<Rightarrow> \<exists>pre scope p. result = Some p \<and> handed_over (aw_log w @ pre @ [SessionOpened scope]) scope p w1"
    ultimately show ?thesis using Inl by simp
  next
    case (Inr result)
    moreover assume "case x of Inl _ \<Rightarrow> \<exists>es. aw_log w1 = aw_log w @ es \<and> ends_clean es
      | Inr result \<Rightarrow> \<exists>pre scope p. result = Some p \<and> handed_over (aw_log w @ pre @ [SessionOpened scope]) scope p w1"
    ultimately obtain pre scope p where q: "result = Some p" "handed_over (aw_log w @ pre @ [SessionOpened scope]) scope p w1" by auto
    then obtain es writer where es: "aw_log w1 = aw_log w @ pre @ SessionOpened scope # es" "pr_pending p = opened_pending scope writer"
      "only_writer writer es" by (auto simp: handed_over_def)
    have run: "finish p w1 = (Inl stop, w')" using assms(1) \<open>prepare_activation_with_cover _ _ _ _ _ _ _ _ = _\<close> Inr q(1)
      by (simp add: activation_finishes and_then_def)
    obtain es' where es': "aw_log w' = aw_log w1 @ es'" "cleaned (opened_pending scope writer) es'"
      using finish_cleans_up(1) [OF es(2)] run unfolding cleans_up_def by blast
    moreover have "list_all (\<lambda>e. \<not> activates_writer e) es'"
      using logged_more [OF finish_cleans_up(2) run] es'(1) by auto
    ultimately show ?thesis by (rule ends_cleanI [OF es(1,3)])
  qed
qed

lemma quiet_inputs:
  assumes "activate_account parse_uuid device data_root patience ticket input cover w = (r, w')"
    and "\<And>user s. input \<noteq> Login user s" and "\<And>user. input \<noteq> Resume user"
  shows "\<exists>es. aw_log w' = aw_log w @ es \<and> list_all (\<lambda>e. \<not> opens e) es"
proof -
  have "no_opening (open_session parse_uuid device data_root ticket input)"
    using assms(2,3) by (cases input) (auto simp: open_session_def intro!: logging)
  then have "no_opening (activate_account parse_uuid device data_root patience ticket input cover)"
    unfolding activate_account_def prepare_activation_with_cover_def
    by (cases input) (auto intro!: logging silent)
  from logged_more [OF this assms(1)] show ?thesis .
qed

text \<open>
  C11: an activation that fails after it has opened a session forgets the payer and deletes the credentials of that
  session again, and stops every local writer that it started; whatever of this fails is noted as a debt.
\<close>

theorem failed_activation_is_cleaned_up:
  assumes "activate_account parse_uuid device data_root patience ticket input cover w = (Inl stop, w')"
    and "stop \<noteq> StillWaiting"
  shows "\<exists>es. aw_log w' = aw_log w @ es
    \<and> (\<forall>pre s post. es = pre @ SessionOpened s # post \<longrightarrow> settled_after s post)"
proof -
  have "\<exists>es. aw_log w' = aw_log w @ es \<and> ends_clean es"
  proof (cases "case input of Login _ _ \<Rightarrow> True | Resume _ \<Rightarrow> True | _ \<Rightarrow> False")
    case True
    then show ?thesis using failed_login_is_clean [OF assms(1) _ assms(2)] by (cases input) auto
  next
    case False
    then show ?thesis using quiet_inputs [OF assms(1)] by (cases input) (auto simp: ends_clean_def)
  qed
  then obtain es where es: "aw_log w' = aw_log w @ es" "ends_clean es" by blast
  moreover obtain es' where "aw_log w' = aw_log w @ es'" "opened_properly es'"
    using activation_opens_properly assms(1) unfolding opens_properly_def by blast
  ultimately have "opened_properly es" by simp
  have "settled_after s post" if "es = pre @ SessionOpened s # post" for pre s post
  proof -
    have once: "list_all (\<lambda>e. \<not> opens e) (pre @ post)"
      using opened_properly_before \<open>opened_properly es\<close> that by blast
    then have outside: "SessionOpened s \<notin> set pre" "SessionOpened s \<notin> set post" by (force simp: list_all_iff)+
    from es(2) that obtain pre' s' post' where other: "pre @ SessionOpened s # post = pre' @ SessionOpened s' # post'"
      "settled_after s' post'" by (auto simp: ends_clean_def)
    have "SessionOpened s' \<in> set (pre @ SessionOpened s # post)" by (simp add: other(1))
    with once have "s' = s" by (force simp: list_all_iff)
    with other append_Cons_eq_iff [OF outside, of pre' post'] show ?thesis by simp
  qed
  with es(1) show ?thesis by blast
qed

end
