(* ===== verification/Activation_Properties.thy ===== *)
theory Activation_Properties
  imports Activation_Cleanup
begin

text \<open>What every activation guarantees, whether it succeeds, fails or waits: the order in which users follow each other.\<close>

section \<open>The previous user\<close>

text \<open>
  C10: however an activation ends, and whatever other threads do meanwhile, a session is opened at most once, and
  only after whoever was active has been retired completely and in order: work of the old lease quiesced, the
  writer flushed, the namespace gate, the activity gate, the active namespace, the payer and the shown user
  taken back, the private parts of the interface cleared and the credentials of the old session deleted.
\<close>

theorem previous_user_is_retired_first:
  assumes "activate_account parse_uuid device data_root patience ticket input cover w = (r, w')"
  shows "\<exists>es. aw_log w' = aw_log w @ es
    \<and> (\<forall>pre s post. es = pre @ SessionOpened s # post \<longrightarrow>
         (\<exists>old. subseq (retired_first old) pre) \<and> list_all (\<lambda>e. \<not> opens e) (pre @ post))"
proof -
  obtain es where "aw_log w' = aw_log w @ es" "opened_properly es"
    using activation_opens_properly assms unfolding opens_properly_def by blast
  then show ?thesis using opened_properly_before by blast
qed

end
