(* ===== verification/Activation_Sample.thy ===== *)
theory Activation_Sample
  imports Activation_Properties
begin

text \<open>
  One activation run call by call: a login while somebody else is active, with nobody else about. The
  properties of the activation are applied to it.
\<close>

section \<open>A login while somebody else is active\<close>

definition old_lease :: namespace_lease where
  "old_lease = \<lparr>lease_namespace = \<lparr>user_public_id = ''v'', ns_root = [''data'', ''accounts'', ''v''], ns_mappings = []\<rparr>,
     lease_auth_epoch = 1, lease_namespace_epoch = 1\<rparr>"

definition busy_core :: transition_core where
  "busy_core = \<lparr>tc_latch = latch_default, tc_debt = \<lparr>slot_debt = None, slot_poisoned = False\<rparr>,
     tc_gate = gate_default\<lparr>ng_sequence := 1, ng_active := Some old_lease\<rparr>,
     tc_activity = activity_default\<lparr>act_lease := Some old_lease\<rparr>,
     tc_billing = billing_default, tc_active = Some old_lease, tc_active_poisoned = False, tc_user = Some ''v'',
     tc_registry = Some {}\<rparr>"

definition still_view :: activation_view where
  "still_view = \<lparr>av_others = (\<lambda>c. c), av_write = Inr (), av_unit = Inr (), av_epoch = Inr 2, av_owner = None,
     av_groups = Inr [witness_choice], av_selected = Inr None, av_profile = Inr ''p'', av_snapshot = Inr witness_snapshot,
     av_mappings = Inr [], av_absent = True\<rparr>"

definition still :: "nat \<Rightarrow> transition_core \<Rightarrow> activation_guards \<Rightarrow> activation_event list \<Rightarrow> activation_world" where
  "still n c g es = \<lparr>aw_views = (\<lambda>_. still_view), aw_clock = n, aw_core = c, aw_guards = g, aw_log = es\<rparr>"

lemma still_act: "act f (still n c g es) = (case f still_view c of (r, c', e) \<Rightarrow> (r, still (Suc n) c' g (es @ [e])))"
  by (simp add: act_def still_def still_view_def Let_def split: prod.split)

lemma still_calls [simp]:
  "guards (still n c g es) = (Inr g, still n c g es)"
  "hold f (still n c g es) = (Inr (), still n c (f g) es)"
  "change event h (still n c g es) = (Inr (), still (Suc n) (h c) g (es @ [event]))"
  "attempt_to message event' h' (still n c g es) =
    (case h' c of (Inl e, c') \<Rightarrow> (Inl (refusal message), still (Suc n) c' g (es @ [Asked]))
     | (Inr a, c') \<Rightarrow> (Inr a, still (Suc n) c' g (es @ [event' a])))"
  "ask event'' k (still n c g es) =
    (case k still_view of Inl e \<Rightarrow> (Inl (Refused e), still (Suc n) c g (es @ [Asked]))
     | Inr a \<Rightarrow> (Inr a, still (Suc n) c g (es @ [event'' a])))"
  "writer_call event (still n c g es) = (Inr (Inr ()), still (Suc n) c g (es @ [event]))"
  "record_debt u (still n c g es) = (let slot = update_cleanup_debt u (tc_debt c) in
    (Inr (), still (Suc n) (c\<lparr>tc_debt := slot\<rparr>) g (es @ [DebtNoted (slot_debt slot)])))"
  by (simp_all add: change_def attempt_to_def ask_def writer_call_def record_debt_def Let_def still_act split: prod.split sum.split)
    (simp_all add: guards_def hold_def still_def still_view_def)

definition retired_core :: transition_core where
  "retired_core = busy_core\<lparr>tc_gate := gate_default\<lparr>ng_sequence := 2, ng_transition := Some 2\<rparr>,
     tc_activity := activity_default, tc_billing := invalidate_for_auth_change billing_default, tc_active := None, tc_user := None\<rparr>"

definition owed_guards :: "bool \<Rightarrow> activation_guards" where
  "owed_guards armed = no_guards\<lparr>ag_transition := Some 2, ag_cleanup := Some (lease_scope old_lease, \<lparr>cleanup_armed = armed\<rparr>)\<rparr>"

definition claimed_core :: transition_core where
  "claimed_core = busy_core\<lparr>tc_gate := (tc_gate busy_core)\<lparr>ng_sequence := 2, ng_transition := Some 2\<rparr>\<rparr>"

lemma login_checks:
  "check_latch (still n busy_core g es) = (Inr (), still (Suc n) busy_core g (es @ [Asked]))"
  "check_debt b (still n busy_core g es) = (Inr (), still (Suc n) busy_core g (es @ [Asked]))"
  by (simp_all add: check_latch_def check_debt_def still_act busy_core_def latch_snapshot_def latch_lock_def latch_default_def Let_def)

lemma login_transition:
  "begin_transition (Suc 0) (still n busy_core no_guards es) =
    (Inr (), still (Suc (Suc n)) claimed_core (no_guards\<lparr>ag_transition := Some 2\<rparr>) (es @ [Asked, TransitionBegan 2]))"
  by (simp add: begin_transition_def and_then_def on_gate_def begin_transition_enter_def begin_transition_wake_def
      claim_transition_def gate_next_def checked_add_def still_act busy_core_def claimed_core_def gate_default_def result_is_def)


lemma login_lock: "lock_active (still n claimed_core g es) = (Inr (Some old_lease), still (Suc n) claimed_core g (es @ [OldLease (Some old_lease)]))"
  by (simp add: lock_active_def claimed_core_def busy_core_def)

lemmas core_defs = retired_core_def claimed_core_def busy_core_def gate_default_def activity_default_def

lemma login_retirement:
  "retire_namespace (Suc 0) cover old_lease (still n claimed_core (owed_guards False) es) =
    (Inr (), still (n + 8) retired_core (owed_guards True) (es @ [Asked] @ retirement old_lease))"
  by (simp add: retire_namespace_def and_then_def begin_quiesce_def begin_quiesce_enter_def on_activity_gate_def quiesce_wake_def
      flush_old_def flush_for_retirement_def of_write_def retire_gate_def gate_retire_flushed_def on_gate_def still_act core_defs
      owed_guards_def no_guards_def armed_cleanup_def quiesced_retire_def retirement_def result_is_def eval_nat_numeral)

lemma login_settled:
  "settle_debts (Login u s) (Some old_lease) (still n retired_core (owed_guards True) es) =
    (Inr (), still (n + 5) retired_core (owed_guards False)
       (es @ [UiRetired, DebtNoted None, ScopeCleared (lease_scope old_lease), Asked, CredentialsCleared (lease_scope old_lease)]))"
  by (simp add: settle_debts_def and_then_def clear_private_ui_def clear_credentials_def clear_retired_session_def
      clear_session_scope_def persisted_owner_def attempt_remote_logout_def still_act still_view_def owed_guards_def no_guards_def
      session_cleanup_clear_def update_cleanup_debt_def get_or_default_def cleanup_debt_default_def cleanup_debt_is_empty_def
      core_defs result_is_def Let_def eval_nat_numeral)

lemma login_owed: "own_cleanup (Login u s) (Some old_lease) (still n c (no_guards\<lparr>ag_transition := Some 2\<rparr>) es) =
    (Inr (), still n c (owed_guards False) es)"
  by (simp add: own_cleanup_def owed_guards_def no_guards_def)

lemma login_retired:
  "\<exists>n es. retire_previous (Suc 0) (Login u s) cover (still 0 busy_core no_guards []) = (Inr (), still n retired_core (owed_guards False) es)"
  by (simp add: retire_previous_def and_then_def login_checks login_transition login_lock login_owed check_logout_def
     result_is_def login_retirement login_settled) blast


definition new_scope :: session_scope where
  "new_scope = \<lparr>scope_owner_user_id = ''u'', scope_auth_epoch = 2\<rparr>"

definition pending_guards :: activation_guards where
  "pending_guards = (owed_guards False)\<lparr>ag_pending := Some \<lparr>pa_scope = new_scope, pa_writer_lease = None,
     pa_committed = False, pa_changes_user = True\<rparr>\<rparr>"

lemma login_opened:
  "session_opens ''u'' (still n c (owed_guards False) es) = (Inr new_scope, still (Suc n) c pending_guards (es @ [SessionOpened new_scope]))"
  by (simp add: session_opens_def and_then_def still_view_def result_is_def new_scope_def pending_guards_def)

definition new_ticket :: pending_billing_switch where
  "new_ticket = \<lparr>pend_scope = \<lparr>billing_request = \<lparr>request_session = new_scope, request_account_group_id = ''g''\<rparr>,
     billing_context_epoch = 3\<rparr>, pend_device = ''d'', pend_rollback = StillValid\<rparr>"

definition new_staged :: staged_billing_confirmation where
  "new_staged = \<lparr>stage_pending = new_ticket, stage_snapshot = witness_snapshot\<rparr>"

definition switching_core :: transition_core where
  "switching_core = retired_core\<lparr>tc_billing := \<lparr>bill_epoch = 3, bill_closed = False, bill_session = Some new_scope,
     bill_pending = Some new_ticket, bill_current = None, bill_poisoned = False\<rparr>\<rparr>"

definition ticket_guards :: activation_guards where
  "ticket_guards = pending_guards\<lparr>ag_ticket := Some (new_ticket, True)\<rparr>"

lemma login_bound: "bind_authenticated_session new_scope (invalidate_for_auth_change billing_default) =
   (Inr (), \<lparr>bill_epoch = 2, bill_closed = False, bill_session = Some new_scope, bill_pending = None, bill_current = None, bill_poisoned = False\<rparr>)"
  by (simp add: bind_authenticated_session_def invalidate_for_auth_change_def billing_default_def billing_advance_def checked_add_def)

lemma login_ticket: "begin_switch Some new_scope ''d'' ''g'' StillValid
   \<lparr>bill_epoch = 2, bill_closed = False, bill_session = Some new_scope, bill_pending = None, bill_current = None, bill_poisoned = False\<rparr>
   = (Inr new_ticket, tc_billing switching_core)"
  by (simp add: begin_switch_def billing_advance_def checked_add_def canonical_uuid_def new_ticket_def switching_core_def Let_def)

lemma login_choice: "choose_candidate [witness_choice] None None = Inr witness_choice" "group_id witness_choice = ''g''"
  by (simp_all add: choose_candidate_def or_else_def choice_selectable_def witness_choice_def)

lemma login_staged: "stage_confirmation True new_ticket witness_choice witness_snapshot (tc_billing switching_core)
   = (Inr new_staged, tc_billing switching_core)"
  by (simp add: stage_confirmation_def switching_core_def new_ticket_def same_choice_def witness_choice_def witness_snapshot_def
      validate_snapshot_context_def active_is_selectable_def new_scope_def new_staged_def Let_def)


lemma login_payer:
  "\<exists>m es'. choose_payer Some ''d'' new_scope None (still n retired_core pending_guards es) =
    (Inr (new_ticket, new_staged, witness_snapshot, [witness_choice]), still m switching_core ticket_guards es')"
proof -
  have billing: "tc_billing retired_core = invalidate_for_auth_change billing_default"
    "retired_core\<lparr>tc_billing := tc_billing switching_core\<rparr> = switching_core"
    "switching_core\<lparr>tc_billing := tc_billing switching_core\<rparr> = switching_core" "tc_latch switching_core = latch_default"
    by (simp_all add: core_defs switching_core_def)
  show ?thesis
    by (simp add: choose_payer_def and_then_def on_billing_def billing login_bound login_choice login_ticket stage_switch_def
        latch_apply_if_open_def latch_lock_def latch_default_def login_staged still_view_def result_is_def
        ticket_guards_def Let_def) blast
qed

definition new_lease :: namespace_lease where
  "new_lease = \<lparr>lease_namespace = \<lparr>user_public_id = ''u'', ns_root = [''data'', ''accounts'', ''u''], ns_mappings = []\<rparr>,
     lease_auth_epoch = 2, lease_namespace_epoch = 7\<rparr>"

lemma login_loaded:
  "\<exists>m es'. load_candidate Some [''data''] 7 new_scope (still n switching_core g es) = (Inr new_lease, still m switching_core g es')"
proof -
  have core: "switching_core\<lparr>tc_registry := Some {}\<rparr> = switching_core" "tc_registry switching_core = Some {}"
    by (simp_all add: core_defs switching_core_def)
  show ?thesis
    by (simp add: core load_candidate_def and_then_def load_namespace_def on_registry_def load_account_directory_namespace_def
        user_namespace_new_def open_authority_def rebind_directories_def still_view_def new_scope_def new_lease_def result_is_def)
      blast
qed

definition admitted_guards :: activation_guards where
  "admitted_guards = ticket_guards\<lparr>ag_transition := None, ag_publication := Some (2, new_lease),
     ag_pending := Some \<lparr>pa_scope = new_scope, pa_writer_lease = Some new_lease, pa_committed = False, pa_changes_user = True\<rparr>\<rparr>"

lemma login_admitted:
  "\<exists>m es'. admit_candidate new_lease (still n switching_core ticket_guards es) = (Inr None, still m switching_core admitted_guards es')"
  by (simp add: admit_candidate_def and_then_def recover_unpublished_def take_publication_def settle_with_def still_act
      begin_prepublication_recovery_def verify_no_unsupported_imports_def recovery_finish_def prepare_publication_def
      prepare_activation_def still_view_def core_defs switching_core_def of_write_def result_is_def
      admitted_guards_def ticket_guards_def pending_guards_def owed_guards_def no_guards_def) blast

definition new_prepared :: prepared_activation where
  "new_prepared = \<lparr>pr_pending = \<lparr>pa_scope = new_scope, pa_writer_lease = Some new_lease, pa_committed = False, pa_changes_user = True\<rparr>,
     pr_publication = Some (2, new_lease), pr_activity = Some new_lease, pr_lease = new_lease, pr_ticket = new_ticket,
     pr_armed = True, pr_staged = new_staged, pr_profile = None, pr_snapshot = witness_snapshot, pr_groups = [witness_choice],
     pr_notice = None\<rparr>"

lemma login_candidate:
  "\<exists>m es'. prepare_candidate Some ''d'' [''data''] 7 new_scope None (still n retired_core pending_guards es) =
     (Inr new_prepared, still m switching_core (admitted_guards\<lparr>ag_pending := None, ag_ticket := None, ag_publication := None\<rparr>) es')"
proof -
  obtain n1 es1 where 1: "choose_payer Some ''d'' new_scope None (still n retired_core pending_guards es) =
      (Inr (new_ticket, new_staged, witness_snapshot, [witness_choice]), still n1 switching_core ticket_guards es1)"
    using login_payer by blast
  obtain n2 es2 where 2: "load_candidate Some [''data''] 7 new_scope (still n1 switching_core ticket_guards es1) =
      (Inr new_lease, still n2 switching_core ticket_guards es2)" using login_loaded by blast
  obtain n3 es3 where 3: "admit_candidate new_lease (still n2 switching_core ticket_guards es2) =
      (Inr None, still n3 switching_core admitted_guards es3)" using login_admitted by blast
  show ?thesis
    by (simp add: prepare_candidate_def and_then_def 1 2 3 take_prepared_def still_view_def admitted_guards_def
        new_prepared_def result_is_def) blast
qed


definition published_core :: transition_core where
  "published_core = switching_core\<lparr>tc_gate := gate_default\<lparr>ng_sequence := 2, ng_active := Some new_lease\<rparr>,
     tc_activity := activity_default\<lparr>act_lease := Some new_lease\<rparr>,
     tc_billing := \<lparr>bill_epoch = 3, bill_closed = False, bill_session = Some new_scope, bill_pending = None,
       bill_current = Some \<lparr>conf_scope = pend_scope new_ticket, conf_snapshot = witness_snapshot, conf_usable = True\<rparr>,
       bill_poisoned = False\<rparr>,
     tc_active := Some new_lease, tc_user := Some ''u''\<rparr>"

lemma still_log [simp]: "aw_log (still n c g es) = es"
  by (simp add: still_def)

lemma login_prepared:
  "\<exists>m g pre post. prepare_activation_with_cover Some ''d'' [''data''] (Suc 0) 7 (Login ''u'' None) None (still 0 busy_core no_guards []) =
     (Inr (Some new_prepared), still m switching_core g (pre @ SessionOpened new_scope # post))"
proof -
  obtain n1 es1 where 1: "retire_previous (Suc 0) (Login ''u'' None) None (still 0 busy_core no_guards []) =
      (Inr (), still n1 retired_core (owed_guards False) es1)" using login_retired by blast
  let ?left = "admitted_guards\<lparr>ag_pending := None, ag_ticket := None, ag_publication := None\<rparr>"
  obtain n2 es2 where 2: "prepare_candidate Some ''d'' [''data''] 7 new_scope None
      (still (Suc n1) retired_core pending_guards (es1 @ [SessionOpened new_scope])) =
      (Inr new_prepared, still n2 switching_core ?left es2)" using login_candidate by blast
  from logged_more [OF no_opening_prepare(1) 2] obtain post where post: "es2 = es1 @ SessionOpened new_scope # post" by auto
  have 3: "drop_guards (still n2 switching_core ?left es) = (Inr (), still n2 switching_core ?left es)" for es
    by (simp add: drop_guards_def drop_held_def and_then_def ignored_def clear_retired_session_def attempt_remote_logout_def
        admitted_guards_def ticket_guards_def pending_guards_def owed_guards_def no_guards_def result_is_def)
  have "prepare_activation_with_cover Some ''d'' [''data''] (Suc 0) 7 (Login ''u'' None) None (still 0 busy_core no_guards []) =
     (Inr (Some new_prepared), still n2 switching_core ?left (es1 @ SessionOpened new_scope # post))"
    by (simp add: prepare_activation_with_cover_def dropping_def settle_with_def and_then_def 1 open_session_def login_opened
        2 [unfolded post] 3 result_is_def)
  then show ?thesis by blast
qed

text \<open>The whole activation: the new session is opened, and the new user is the active one.\<close>

abbreviation login_run :: "(activation_stop + bool) \<times> activation_world" where
  "login_run \<equiv> activate_account Some ''d'' [''data''] (Suc 0) 7 (Login ''u'' None) None (still 0 busy_core no_guards [])"

lemma login_activation:
  "\<exists>m g pre post. login_run = (Inr True, still m published_core g (pre @ SessionOpened new_scope # post))"
proof -
  obtain n1 g1 pre post where 1: "prepare_activation_with_cover Some ''d'' [''data''] (Suc 0) 7 (Login ''u'' None) None
      (still 0 busy_core no_guards []) = (Inr (Some new_prepared), still n1 switching_core g1 (pre @ SessionOpened new_scope # post))"
    using login_prepared by blast
  let ?held = "switching_core\<lparr>tc_latch := latch_default\<lparr>latch_counts := (\<lambda>_. 0)(OrdinaryDurableCommit := 1)\<rparr>\<rparr>"
  have 2: "\<exists>m es'. persist (new_prepared\<lparr>pr_profile := Some ''p''\<rparr>) (still n switching_core g1 es) =
      (Inr (new_prepared\<lparr>pr_profile := Some ''p'', pr_armed := False\<rparr>), still m ?held g1 es')" for n es
    by (simp add: persist_def and_then_def failing_with_def settle_with_def begin_commit_def still_act latch_begin_def
        latch_lock_def checked_add_def save_profile_def retry_client_state_write_def save_selection_def of_write_def
        new_prepared_def core_defs switching_core_def latch_default_def Let_def result_is_def) blast
  have counts: "(\<lambda>_. 0)(OrdinaryDurableCommit := 0) = (\<lambda>_. 0 :: usize)" by auto
  have 3: "\<exists>m es'. publish_activation (new_prepared\<lparr>pr_profile := Some ''p'', pr_armed := False\<rparr>) (still n ?held g1 es) =
      (Inr (), still m published_core g1 es')" for n es
    by (simp add: publish_activation_def and_then_def failing_with_def settle_with_def check_open_def still_act latch_apply_if_open_def
        latch_lock_def publish_persisted_def gate_publish_def close_if_poisoned_def transition_drop_def publish_prepared_def
        drop_commit_permit_def permit_drop_def count_down_def counts new_staged_def new_lease_def
        new_prepared_def core_defs switching_core_def published_core_def latch_default_def Let_def result_is_def) blast
  obtain n2 es2 where 4: "persist (new_prepared\<lparr>pr_profile := Some ''p''\<rparr>) (still (Suc n1) switching_core g1 ((pre @ SessionOpened new_scope # post) @ [Asked])) =
      (Inr (new_prepared\<lparr>pr_profile := Some ''p'', pr_armed := False\<rparr>), still n2 ?held g1 es2)" using 2 by blast
  obtain n3 es3 where 5: "publish_activation (new_prepared\<lparr>pr_profile := Some ''p'', pr_armed := False\<rparr>) (still n2 ?held g1 es2) =
      (Inr (), still n3 published_core g1 es3)" using 3 by blast
  from logged_more [OF no_opening_persist(1) 4] logged_more [OF no_opening_persist(2) 5]
  obtain post' where post': "es3 = pre @ SessionOpened new_scope # post'" by auto
  have "login_run = (Inr True, still n3 published_core g1 es3)"
    using 4 5 by (simp add: activate_account_def and_then_def 1 prepare_models_def failing_with_def settle_with_def still_view_def
        result_is_def)
  with post' show ?thesis by blast
qed

text \<open>The same login with a payer whose identifier is no UUID: refused once its session is open.\<close>

abbreviation refused_run :: "(activation_stop + bool) \<times> activation_world" where
  "refused_run \<equiv> activate_account (\<lambda>_. None) ''d'' [''data''] (Suc 0) 7 (Login ''u'' None) None (still 0 busy_core no_guards [])"

lemma refused_payer:
  "\<exists>m c es'. choose_payer (\<lambda>_. None) ''d'' new_scope None (still n retired_core pending_guards es) =
    (Inl (refusal ''billing''), still m c pending_guards es')"
proof -
  have billing: "tc_billing retired_core = invalidate_for_auth_change billing_default" by (simp add: core_defs)
  have refused: "begin_switch (\<lambda>_. None) new_scope ''d'' ''g'' StillValid b = (Inl SwitchMismatch, b)" if "\<not> bill_poisoned b" for b
    using that by (simp add: begin_switch_def canonical_uuid_def)
  show ?thesis
    by (simp add: choose_payer_def and_then_def on_billing_def billing login_bound login_choice refused still_view_def
        result_is_def) blast
qed

lemma refused_activation:
  "\<exists>stop m c g pre post. stop \<noteq> StillWaiting \<and> refused_run = (Inl stop, still m c g (pre @ SessionOpened new_scope # post))"
proof -
  obtain n1 es1 where 1: "retire_previous (Suc 0) (Login ''u'' None) None (still 0 busy_core no_guards []) =
      (Inr (), still n1 retired_core (owed_guards False) es1)" using login_retired by blast
  obtain n2 c2 es2 where 2: "choose_payer (\<lambda>_. None) ''d'' new_scope None
      (still (Suc n1) retired_core pending_guards (es1 @ [SessionOpened new_scope])) =
      (Inl (refusal ''billing''), still n2 c2 pending_guards es2)" using refused_payer by blast
  from logged_more [OF no_opening_payer 2] obtain post where post: "es2 = (es1 @ [SessionOpened new_scope]) @ post" by auto
  have 3: "\<exists>m c g es'. drop_guards (still n2 c2 pending_guards es) = (Inr (), still m c g es')" for es
    by (simp add: drop_guards_def drop_held_def and_then_def ignored_def clear_retired_session_def attempt_remote_logout_def
        drop_pending_activation_def clear_session_scope_def persisted_owner_def drop_transition_def still_act still_view_def
        pending_guards_def owed_guards_def no_guards_def result_is_def Let_def) blast
  obtain m c g es3 where 4: "drop_guards (still n2 c2 pending_guards es2) = (Inr (), still m c g es3)" using 3 by blast
  from logged_more [OF no_opening_drops 4] obtain post' where "es3 = es2 @ post'" by auto
  with post have log: "es3 = es1 @ SessionOpened new_scope # post @ post'" by simp
  have "refusal ''billing'' \<noteq> StillWaiting" by simp
  moreover from this have "refused_run = (Inl (refusal ''billing''), still m c g es3)"
    by (simp add: activate_account_def prepare_activation_with_cover_def dropping_def settle_with_def and_then_def 1 open_session_def
        login_opened prepare_candidate_def 2 4 result_is_def)
  ultimately show ?thesis using log by blast
qed

section \<open>The properties, applied\<close>

theorem previous_user_is_retired_first_witness:
  "\<exists>w' pre s post old. login_run = (Inr True, w') \<and> aw_log w' = pre @ SessionOpened s # post \<and> subseq (retired_first old) pre"
proof -
  obtain m g pre post where run: "login_run = (Inr True, still m published_core g (pre @ SessionOpened new_scope # post))"
    using login_activation by blast
  from previous_user_is_retired_first [OF run, unfolded still_log append_Nil]
  obtain old where "subseq (retired_first old) pre" by blast
  with run show ?thesis by (metis still_log)
qed

theorem activation_is_for_one_user_witness:
  "\<exists>w' scope p old. login_run = (Inr True, w') \<and> scope_owner_user_id scope = ''u'' \<and> well_prepared scope 7 p
     \<and> subseq (retired_first old @ SessionOpened scope # preparation_events scope p @ publication_events p) (aw_log w')"
proof -
  obtain m g es where run: "login_run = (Inr True, still m published_core g es)"
    using login_activation by blast
  from activation_is_for_one_user [OF run, unfolded still_log append_Nil]
  obtain old scope p where "scope_owner_user_id scope = ''u''" "well_prepared scope 7 p"
    "subseq (retired_first old @ SessionOpened scope # preparation_events scope p @ publication_events p) es" by blast
  with run show ?thesis by (metis still_log)
qed

theorem undisturbed_activation_agrees_witness:
  "\<exists>w' scope p. login_run = (Inr True, w') \<and> scope_owner_user_id scope = ''u'' \<and> well_prepared scope 7 p
     \<and> agreed (pr_lease p) p (aw_core w')"
proof -
  obtain m g es where run: "login_run = (Inr True, still m published_core g es)"
    using login_activation by blast
  have "alone (still 0 busy_core no_guards [])" "quiesced_held (still 0 busy_core no_guards []) = None"
    by (simp_all add: alone_def still_def still_view_def no_guards_def)
  with undisturbed_activation_agrees [OF run] run show ?thesis by blast
qed

theorem failed_activation_is_cleaned_up_witness:
  "\<exists>stop w' pre s post. refused_run = (Inl stop, w') \<and> aw_log w' = pre @ SessionOpened s # post \<and> settled_after s post"
proof -
  obtain stop m c g pre post where stop: "stop \<noteq> StillWaiting"
    and run: "refused_run = (Inl stop, still m c g (pre @ SessionOpened new_scope # post))"
    using refused_activation by blast
  from failed_activation_is_cleaned_up [OF run stop, unfolded still_log append_Nil]
  have "settled_after new_scope post" by blast
  with run show ?thesis by (metis still_log)
qed

end
