(* ===== verification/Spec2Isabelle.thy ===== *)
theory Spec2Isabelle
  imports Namespace_Model Upgrade_Latch Account_Transition Activity_Gate Namespace_Gate Billing_Context
    Session_Manager Client_State_Writer Recovery_Replay Api_Client_Progress Delivery_Reservations
    Delivery_Sample Canvas_History Migration_Fuel Migration_Sample Namespace_Mapping Activation_Sample
begin

text \<open>
  ArtForge Studio, the native client (\<open>src/native-client\<close>; paths below are relative to its
  \<open>src/runtime\<close>). The client edits a canvas of notes, sends paid generation requests to a service on
  behalf of a team member, and keeps on disk what it needs to finish them after a crash. The
  development models the part of it that decides who pays, which session a request belongs to, what
  survives a crash or an account switch, and how the canvas changes.

  \<^bold>\<open>How the parts interact.\<close>
  \<^item> Every user has a namespace of its own on disk; a lease of it carries the authentication epoch of
    the login.
  \<^item> The session manager owns tokens and that epoch, with the durable refresh record behind it.
  \<^item> The service client takes a token for a captured scope, sends the request under a transfer permit
    of the upgrade latch, refreshes once when the token is refused and ends the session on a terminal
    answer.
  \<^item> The billing context names the team that pays and hands out scopes under billing epochs; a switch
    of the payer is a ticket, a staged confirmation and a publication.
  \<^item> An account switch quiesces the activity gate, closes the namespace gate, flushes the writer of the
    local database and publishes the next lease; a switch that fails half-way clears what it opened, and
    notes what it could not clear.
  \<^item> Before a paid request is sent its record is in a recovery document of the namespace; it leaves the
    document only when everything is delivered, and a replay reads key, payer and body back from it.
  \<^item> What a request produced is delivered: the file is reserved, fetched into the namespace, registered
    in the file index under a verified hash, and acknowledged once the record on disk names it.
  \<^item> The user may move the data directories: a batch of plans is copied, verified and committed once.
  \<^item> The canvas of notes, groups and links is edited in memory with its history and clipboard.

  \<^bold>\<open>Theories and code.\<close>
  \<^item> \<open>Prelude\<close>: machine words, results, list operations, the invariant rule for runs.
  \<^item> \<open>Namespace_Model\<close> (\<open>storage/user_namespace.rs\<close>): areas, names, managed file keys, leases, scopes.
  \<^item> \<open>Permit_Gate\<close>: the locale of counted permits; interpreted by the two gates below.
  \<^item> \<open>Api_Error\<close> (\<open>api/error.rs\<close>) and \<open>Upgrade_Latch\<close> (\<open>api/upgrade.rs\<close>): the error type with its
    classification, the process-wide fence and all its threads.
  \<^item> \<open>Account_Transition\<close>, \<open>Activity_Gate\<close> (\<open>account_transition.rs\<close>): admission of a transition, its
    mailbox and cleanup debts, the user-activity gate. \<open>Namespace_Gate\<close> (\<open>storage/user_namespace.rs\<close>):
    operations and transitions of a namespace.
  \<^item> \<open>Account_Model\<close> (\<open>api/account.rs\<close>, \<open>api/team.rs\<close>) and \<open>Billing_Context\<close> (\<open>api/billing_context.rs\<close>):
    snapshots, capabilities, the payer and its epochs.
  \<^item> \<open>Session_Store\<close>, \<open>Session_Manager\<close> (\<open>api/session.rs\<close>): the stores of the refresh record (the locale
    \<open>token_store\<close> states their contract and is interpreted on the file store and the memory store), the
    manager split into its critical sections.
  \<^item> \<open>Api_Program\<close>, \<open>Api_Client\<close> (\<open>api/client.rs\<close>, \<open>api/types.rs\<close>) with \<open>Api_Client_Properties\<close>,
    \<open>Api_Client_Safety\<close>, \<open>Api_Client_Progress\<close>: programs over the state all threads share, the client
    functions as such programs, and what they guarantee. The locales \<open>world_order\<close>, \<open>section_order\<close>,
    \<open>client_order\<close>, \<open>client_call_order\<close> and \<open>request_order\<close> lift an order on worlds from single steps to
    every function of the client; each is interpreted on the orders the properties need.
  \<^item> \<open>Client_State_Writer\<close> (\<open>storage/client_state.rs\<close>): the queue and the worker of the local database.
  \<^item> \<open>Path_Remap\<close> (\<open>directory_migration.rs\<close>, \<open>storage/directory_locations.rs\<close>): stored paths after a move
    of the data directory. \<open>Namespace_Mapping\<close> (\<open>storage/user_namespace.rs\<close>, \<open>storage/directory_locations.rs\<close>):
    the mappings of one account after several moves, loaded, rebound and resolved.
  \<^item> \<open>Activation_World\<close>, \<open>Activation_Run\<close> (\<open>account_transition.rs\<close>): the activation of an account call by
    call, with other threads between the calls and the guards that clean up when they are dropped.
    \<open>Activation_Log\<close> and \<open>Activation_Order\<close>: the events of its calls and the retirement of the previous
    user; \<open>Activation_Identity\<close>: one user from the session to the publication; \<open>Activation_State\<close>: the state
    after an undisturbed login; \<open>Activation_Cleanup\<close>: what a failure leaves behind;
    \<open>Activation_Properties\<close>, \<open>Activation_Sample\<close>: the order, a login that succeeds and one that is refused.
  \<^item> \<open>Recovery_Record\<close>, \<open>Recovery_Store\<close>, \<open>Recovery_Mutation\<close>, \<open>Recovery_Operations\<close>,
    \<open>Recovery_Properties\<close>, \<open>Recovery_Replay\<close> (\<open>storage/recovery.rs\<close>): the records, the three documents,
    the mutation that publishes them, every operation on them, and the replay of a saved request.
  \<^item> \<open>Fallible_Program\<close>: programs that stop at the first error, as functions with \<open>?\<close> do, their loops, and
    two ways to say what they leave in a log (entry by entry, and the locale \<open>trace_property\<close>, which the
    migration interprets on its lawful logs).
  \<^item> \<open>Delivery_Reservations\<close> (\<open>generation/delivery_retry.rs\<close>): the registry of downloads. \<open>Delivery_Plan\<close>,
    \<open>Delivery_Run\<close>, \<open>Delivery_Steps\<close>, \<open>Delivery_Programs\<close> (the same file, \<open>api/generation.rs\<close>,
    \<open>storage/file_index.rs\<close>): the checks of answer and record, the world of a delivery, fetching,
    verifying, registering and acknowledging a file; \<open>Delivery_Log\<close>, \<open>Delivery_Properties\<close>,
    \<open>Delivery_Prepared\<close>, \<open>Delivery_Sample\<close>: their logs, properties and a run of one delivery.
  \<^item> \<open>Migration_World\<close>, \<open>Migration_Copy\<close>, \<open>Migration_Run\<close> (\<open>native-client/src/directory_migration.rs\<close>): files by
    identity and the system calls, pinned directories and the comparison of files, plans and the run of a
    batch. \<open>Migration_Log\<close> and \<open>Migration_Safety\<close>: what each part leaves in the log; \<open>Migration_Verify\<close>,
    \<open>Migration_Compare\<close>, \<open>Migration_Proof\<close>: what the verification shows undisturbed; \<open>Migration_Report\<close>: the
    counts; \<open>Migration_Fuel\<close>: termination; \<open>Migration_Properties\<close>, \<open>Migration_Sample\<close>: the properties and a run.
  \<^item> \<open>Canvas_Graph\<close>, \<open>Canvas_Notes\<close>, \<open>Canvas_Groups\<close>, \<open>Canvas_Edit\<close>, \<open>Canvas_Layout\<close>,
    \<open>Canvas_Grouping\<close>, \<open>Canvas_History\<close> (\<open>canvas_ops.rs\<close>): links, notes and groups, deleting and
    ungrouping, fitting and dragging, grouping with fresh names, history and clipboard.

  \<^bold>\<open>State and operations.\<close> A struct is a record, an enum a datatype, \<open>u64\<close> and \<open>usize\<close> are 64-bit
  words with the checked or saturating addition of the code. \<open>Result\<close> is the sum with the error on
  the left. A function that takes a lock is one state transformer; a function that releases its lock
  in between is split at these points (\<open>_enter\<close>, \<open>_wake\<close>, \<open>_begin\<close>, \<open>_finish\<close>), a wake-up that goes
  on waiting is \<open>None\<close>. All threads of a component are the step relation of its theory; the
  properties hold in every reachable state or on every run. A function of the service client, which
  crosses several locks, is a program that takes turns with a schedule of the other threads. A delivery,
  an activation and a migration are programs over their world; before each call other threads or processes
  change the state as the view of that moment says, and each call leaves an entry in a log that only the proofs read.

  \<^bold>\<open>Parameters.\<close> Code outside the repository is an argument: the UUID parser, \<open>serde_json\<close> reading a
  payload, \<open>Url::join\<close>, SHA-256, the answers of the server and of the operating system (a tape of faults of the
  file operations), other processes writing the same files, fresh ids, and the operations of \<open>f32\<close>. Several
  system calls of which the code asks only whether all succeed share one fault where nothing is left behind
  between them; a call that can leave something (a directory, a temporary file, a part of a write) has its own.

  \<^bold>\<open>Lemma groups.\<close> Each component has the lemmas of its single operations, then the invariant of its
  runs, then the properties. Safety of money: the payer of a scope, the identity of a retained
  request, the replay, the single retry. Safety of sessions: epochs, issued tokens, durable refresh,
  logout, terminal answers. Exclusion: permits, quiescing, transitions. Account switches: the
  previous user retired first, one user in all gates, cleanup after a failure. Durability: the atomic
  mutation of the very file that is replaced, the flush before a retirement, records that stay until they are settled, acknowledgements
  after the record is saved. Files: what is registered was read back, a migration writes only files of
  its own and renames only what it has just looked up again, and what it commits is complete. Canvas: trees
  stay trees (and exactly when a deletion breaks one, which the two findings record), one sweep fits
  all groups, one timeline of undo and redo, copies of a selection.

  \<^bold>\<open>Bounds and fuel.\<close> A mutation of a recovery document is attempted three times, as in the code, and
  the third attempt is shown to suffice when it is undisturbed. Loops over the notes recurse on the
  list or carry the set of visited notes; the search for a free group name is bounded by the number of
  names in use plus one, which is enough by counting. An undisturbed call of the client returns within
  twenty-two critical sections and four answers. A migration has fuel for the search of a temporary name,
  where as many attempts as the directory has entries plus one are enough (\<open>staging_returns\<close>), and for
  the directories a scan visits; more fuel never changes a result (\<open>staging_more_fuel\<close>,
  \<open>scan_from_more_fuel\<close>), and running out is an error of its own, after which nothing is committed. An activation
  that waits for a gate looks as often as its patience says and then is \<open>StillWaiting\<close>: a wait of the code has no
  limit, and the properties hold for every patience. The
  copying and comparing loops terminate by the size of the file. The history holds 100
  snapshots.

  \<^bold>\<open>Not modelled.\<close> The user interface and its callbacks (\<open>callbacks\<close>, \<open>presentation\<close>, \<open>features\<close>), image and
  video processing (\<open>services\<close>, \<open>video_player.rs\<close>), the platform layer, the updater and the installer,
  of the activation the identity upgrade on macOS, the projections to the interface, the migration session, a
  worker that panics and a result that nobody collects any more (the mailbox is modelled on its own),
  SQLite itself (the writer's transactions are whole-row updates that may fail), the Windows variant of
  the directory operations, links that are followed (a link is a special node at which a path ends), JSON encodings, the texts shown to the user, and the historical crates
  outside \<open>native-client\<close>. The manifest lists each with its reason.
\<close>

end
